(* ===== verification/GoBase.thy ===== *)
theory GoBase
  imports Main "HOL-Library.Word" "HOL-Library.List_Lexorder" "HOL-Library.Char_ord"
    "HOL-Library.Multiset"
begin

text \<open>
  Prelude of the development: the parts of the Go language and its standard library that
  several components use.

  \<^item> \<open>int64\<close>, \<open>int32\<close>: Go's signed integers are kept as \<open>int\<close> with the
    two's-complement wrap-around written out (\<open>wrap64\<close>, \<open>wrap32\<close>) at each operation
    whose overflow can matter. Unsigned 64-bit counters are \<open>64 word\<close>.
  \<^item> \<open>gotime\<close>: a \<open>time.Time\<close> is the number of nanoseconds since Go's zero time
    (January 1, year 1, UTC), so \<open>IsZero\<close> is comparison with 0, \<open>Unix\<close> is a floor
    division, and \<open>Sub\<close> saturates at the range of \<open>time.Duration\<close> as the library does.
    Readings carry no separate monotonic part here; the one component whose point is the
    difference between the two clocks (UtilityTime) has its own clock reading.
  \<^item> strings are \<open>char list\<close>, compared bytewise in lexicographic order as Go compares them.
  \<^item> a Go map that the code only looks up and stores is a map \<open>'k \<rightharpoonup> 'v\<close>; a map the code
    iterates over is an association list, whose order stands for the unspecified iteration
    order of the Go runtime.
\<close>

section \<open>Named collections\<close>

named_theorems go_defs "definitions the components unfold together"
named_theorems go_splits "case rules of the components"

section \<open>Signed machine integers\<close>

type_synonym int64 = int
type_synonym int32 = int
type_synonym uint64 = "64 word"
type_synonym byte = "8 word"

definition wrap64 :: "int \<Rightarrow> int64" where
  "wrap64 x = (x + 2 ^ 63) mod 2 ^ 64 - 2 ^ 63"

definition wrap32 :: "int \<Rightarrow> int32" where
  "wrap32 x = (x + 2 ^ 31) mod 2 ^ 32 - 2 ^ 31"

definition in_int64 :: "int \<Rightarrow> bool" where
  "in_int64 x \<longleftrightarrow> - (2 ^ 63) \<le> x \<and> x < 2 ^ 63"

definition in_int32 :: "int \<Rightarrow> bool" where
  "in_int32 x \<longleftrightarrow> - (2 ^ 31) \<le> x \<and> x < 2 ^ 31"

lemma wrap64_id [simp]: "in_int64 x \<Longrightarrow> wrap64 x = x"
  by (simp add: wrap64_def in_int64_def)

lemma wrap32_id [simp]: "in_int32 x \<Longrightarrow> wrap32 x = x"
  by (simp add: wrap32_def in_int32_def)

lemma wrap64_range [simp]: "in_int64 (wrap64 x)"
  using pos_mod_bound [of "2 ^ 64" "x + 2 ^ 63"] pos_mod_sign [of "2 ^ 64" "x + 2 ^ 63"]
  by (simp add: wrap64_def in_int64_def)

lemma wrap32_range [simp]: "in_int32 (wrap32 x)"
  using pos_mod_bound [of "2 ^ 32" "x + 2 ^ 31"] pos_mod_sign [of "2 ^ 32" "x + 2 ^ 31"]
  by (simp add: wrap32_def in_int32_def)

lemma in_int32_64: "in_int32 x \<Longrightarrow> in_int64 x"
  by (simp add: in_int32_def in_int64_def)

section \<open>Durations and instants\<close>

type_synonym duration = int
type_synonym gotime = int

definition second :: duration where
  "second = 1000000000"

definition max_duration :: duration where
  "max_duration = 2 ^ 63 - 1"

definition min_duration :: duration where
  "min_duration = - (2 ^ 63)"

text \<open>Seconds from Go's zero time to the Unix epoch.\<close>

definition unix_epoch_s :: int where
  "unix_epoch_s = 62135596800"

definition is_zero_time :: "gotime \<Rightarrow> bool" where
  "is_zero_time t \<longleftrightarrow> t = 0"

definition zero_time :: gotime where
  "zero_time = 0"

definition time_unix :: "gotime \<Rightarrow> int64" where
  "time_unix t = t div second - unix_epoch_s"

definition unix_time :: "int64 \<Rightarrow> gotime" where
  "unix_time s = (s + unix_epoch_s) * second"

text \<open>\<open>Time.Sub\<close>: the difference, saturated to the range of a duration.\<close>

definition time_sub :: "gotime \<Rightarrow> gotime \<Rightarrow> duration" where
  "time_sub a b = max min_duration (min max_duration (a - b))"

lemma is_zero_zero [simp]: "is_zero_time zero_time"
  by (simp add: is_zero_time_def zero_time_def)

lemma time_unix_unix_time [simp]: "time_unix (unix_time s) = s"
  by (simp add: time_unix_def unix_time_def second_def)

lemma time_unix_mono: "a \<le> b \<Longrightarrow> time_unix a \<le> time_unix b"
  by (simp add: time_unix_def second_def zdiv_mono1)

lemma time_sub_self [simp]: "time_sub a a = 0"
  by (simp add: time_sub_def max_duration_def min_duration_def)

lemma time_sub_mono: "a \<le> a' \<Longrightarrow> time_sub a b \<le> time_sub a' b"
  by (simp add: time_sub_def max_def min_def)

lemma time_sub_ge_iff:
  "min_duration < d \<Longrightarrow> d \<le> max_duration \<Longrightarrow> d \<le> time_sub a b \<longleftrightarrow> d \<le> a - b"
  by (auto simp: time_sub_def)

lemma time_sub_less_iff:
  "min_duration < d \<Longrightarrow> d \<le> max_duration \<Longrightarrow> time_sub a b < d \<longleftrightarrow> a - b < d"
  by (auto simp: time_sub_def)

text \<open>Go's integer division truncates toward zero.\<close>

definition go_div :: "int \<Rightarrow> int \<Rightarrow> int" where
  "go_div a b = sgn a * sgn b * (\<bar>a\<bar> div \<bar>b\<bar>)"

lemma go_div_nonneg: "0 \<le> a \<Longrightarrow> 0 < b \<Longrightarrow> go_div a b = a div b"
  by (cases "a = 0") (simp_all add: go_div_def)

section \<open>Lists\<close>

text \<open>\<open>fold_opt\<close> runs a body that may panic over a list, stopping at the first panic.\<close>

fun fold_opt :: "('a \<Rightarrow> 's \<Rightarrow> 's option) \<Rightarrow> 'a list \<Rightarrow> 's \<Rightarrow> 's option" where
  "fold_opt f [] s = Some s"
| "fold_opt f (x # xs) s = (case f x s of None \<Rightarrow> None | Some s' \<Rightarrow> fold_opt f xs s')"

lemma fold_opt_append:
  "fold_opt f (xs @ ys) s = Option.bind (fold_opt f xs s) (fold_opt f ys)"
  by (induction xs arbitrary: s) (auto split: option.split)

lemma fold_opt_inv:
  assumes "fold_opt f xs s = Some s'" and "P s"
    and "\<And>x s s'. x \<in> set xs \<Longrightarrow> P s \<Longrightarrow> f x s = Some s' \<Longrightarrow> P s'"
  shows "P s'"
  using assms
proof (induction xs arbitrary: s)
  case Nil
  then show ?case by simp
next
  case (Cons x xs)
  from Cons.prems(1) obtain s1 where s1: "f x s = Some s1" and r: "fold_opt f xs s1 = Some s'"
    by (auto split: option.splits)
  have "P s1" using Cons.prems(3) [of x s s1] Cons.prems(2) s1 by simp
  with r show ?case using Cons.IH Cons.prems(3) by (meson list.set_intros(2))
qed

text \<open>Invariants of a plain left fold, used for every \<open>for range\<close> loop over a slice.\<close>

lemma fold_invariant_set:
  assumes "P s" and "\<And>x s. x \<in> set xs \<Longrightarrow> P s \<Longrightarrow> P (f x s)"
  shows "P (fold f xs s)"
  using assms by (induction xs arbitrary: s) auto

lemma map_eq_iff_dom:
  "(m :: 'a \<rightharpoonup> 'b) = n \<longleftrightarrow> (\<forall>k. m k = n k)"
  by auto

end
