(* ===== verification/GoFloat.thy ===== *)
theory GoFloat
  imports GoBase Complex_Main
begin

text \<open>
  Go's \<open>float64\<close>: IEEE 754 binary64. A value is NaN, an infinity or a rational; arithmetic
  is exact rational arithmetic followed by rounding to nearest, ties to even, at 53 bits of
  precision with gradual underflow (\<open>fl\<close>), overflowing to an infinity. The two zeros are
  one value (no modelled code divides by a zero or reads its sign bit). Comparisons with NaN are
  false, as the language has them, and \<open>fmax\<close> / \<open>fmin\<close> follow \<open>math.Max\<close> /
  \<open>math.Min\<close>. Everything is executable.
\<close>

datatype f64 = NaN | NInf | Fin rat | PInf

section \<open>Classification and comparison\<close>

definition is_nan :: "f64 \<Rightarrow> bool" where
  "is_nan x \<longleftrightarrow> x = NaN"

definition is_inf :: "f64 \<Rightarrow> bool" where
  "is_inf x \<longleftrightarrow> x = PInf \<or> x = NInf"

definition nan_or_inf :: "f64 \<Rightarrow> bool" where
  "nan_or_inf x \<longleftrightarrow> is_nan x \<or> is_inf x"

fun fle :: "f64 \<Rightarrow> f64 \<Rightarrow> bool" where
  "fle NaN _ = False"
| "fle _ NaN = False"
| "fle NInf _ = True"
| "fle _ PInf = True"
| "fle (Fin a) (Fin b) = (a \<le> b)"
| "fle _ _ = False"

definition feq :: "f64 \<Rightarrow> f64 \<Rightarrow> bool" where
  "feq x y \<longleftrightarrow> x \<noteq> NaN \<and> x = y"

definition flt :: "f64 \<Rightarrow> f64 \<Rightarrow> bool" where
  "flt x y \<longleftrightarrow> fle x y \<and> \<not> feq x y"

lemma nan_or_inf_simps [simp]:
  "nan_or_inf NaN" "nan_or_inf PInf" "nan_or_inf NInf" "\<not> nan_or_inf (Fin a)"
  by (simp_all add: nan_or_inf_def is_nan_def is_inf_def)

lemma nan_or_inf_iff: "\<not> nan_or_inf x \<longleftrightarrow> (\<exists>a. x = Fin a)"
  by (cases x) auto

lemma is_nan_simps [simp]:
  "is_nan NaN" "\<not> is_nan PInf" "\<not> is_nan NInf" "\<not> is_nan (Fin a)"
  by (simp_all add: is_nan_def)

lemma is_inf_simps [simp]:
  "\<not> is_inf NaN" "is_inf PInf" "is_inf NInf" "\<not> is_inf (Fin a)"
  by (simp_all add: is_inf_def)

lemma fle_refl: "fle x x \<longleftrightarrow> \<not> is_nan x"
  by (cases x) auto

lemma fle_trans: "fle x y \<Longrightarrow> fle y z \<Longrightarrow> fle x z"
  by (cases x; cases y; cases z) auto

lemma fle_antisym: "fle x y \<Longrightarrow> fle y x \<Longrightarrow> x = y"
  by (cases x; cases y) auto

lemma fle_total: "\<not> is_nan x \<Longrightarrow> \<not> is_nan y \<Longrightarrow> fle x y \<or> fle y x"
  by (cases x; cases y) auto

lemma fle_not_nan: "fle x y \<Longrightarrow> \<not> is_nan x \<and> \<not> is_nan y"
  by (cases x; cases y) auto

lemma fle_bot [simp]: "fle NInf x \<longleftrightarrow> \<not> is_nan x"
  by (cases x) auto

lemma fle_top [simp]: "fle x PInf \<longleftrightarrow> \<not> is_nan x"
  by (cases x) auto

lemma flt_Fin [simp]: "flt (Fin a) (Fin b) \<longleftrightarrow> a < b"
  by (auto simp: flt_def feq_def)

lemma flt_imp_fle: "flt x y \<Longrightarrow> fle x y"
  by (simp add: flt_def)

lemma flt_irrefl [simp]: "\<not> flt x x"
  by (cases x) (auto simp: flt_def feq_def)

lemma not_fle_iff: "\<not> is_nan x \<Longrightarrow> \<not> is_nan y \<Longrightarrow> \<not> fle x y \<longleftrightarrow> flt y x"
  by (cases x; cases y) (auto simp: flt_def feq_def)

lemma flt_iff: "flt x y \<longleftrightarrow> fle x y \<and> x \<noteq> y"
  by (cases x; cases y) (auto simp: flt_def feq_def)

section \<open>math.Max and math.Min\<close>

definition fmax :: "f64 \<Rightarrow> f64 \<Rightarrow> f64" where
  "fmax x y = (if x = PInf \<or> y = PInf then PInf
               else if is_nan x \<or> is_nan y then NaN
               else if flt y x then x else y)"

definition fmin :: "f64 \<Rightarrow> f64 \<Rightarrow> f64" where
  "fmin x y = (if x = NInf \<or> y = NInf then NInf
               else if is_nan x \<or> is_nan y then NaN
               else if flt x y then x else y)"

lemma fmax_ge: "\<not> is_nan x \<Longrightarrow> \<not> is_nan y \<Longrightarrow> fle x (fmax x y) \<and> fle y (fmax x y)"
  by (cases x; cases y) (auto simp: fmax_def flt_def feq_def)

lemma fmin_le: "\<not> is_nan x \<Longrightarrow> \<not> is_nan y \<Longrightarrow> fle (fmin x y) x \<and> fle (fmin x y) y"
  by (cases x; cases y) (auto simp: fmin_def flt_def feq_def)

lemma fmax_cases: "\<not> is_nan x \<Longrightarrow> \<not> is_nan y \<Longrightarrow> fmax x y = x \<or> fmax x y = y"
  by (auto simp: fmax_def)

lemma fmin_cases: "\<not> is_nan x \<Longrightarrow> \<not> is_nan y \<Longrightarrow> fmin x y = x \<or> fmin x y = y"
  by (auto simp: fmin_def)

lemma fmax_not_nan [simp]: "\<not> is_nan x \<Longrightarrow> \<not> is_nan y \<Longrightarrow> \<not> is_nan (fmax x y)"
  using fmax_cases by metis

lemma fmin_not_nan [simp]: "\<not> is_nan x \<Longrightarrow> \<not> is_nan y \<Longrightarrow> \<not> is_nan (fmin x y)"
  using fmin_cases by metis

lemma fmax_least: "fle x z \<Longrightarrow> fle y z \<Longrightarrow> fle (fmax x y) z"
  using fle_not_nan fmax_cases by metis

lemma fmin_greatest: "fle z x \<Longrightarrow> fle z y \<Longrightarrow> fle z (fmin x y)"
  using fle_not_nan fmin_cases by metis

lemma fmax_neutral [simp]: "\<not> is_nan x \<Longrightarrow> fmax NInf x = x" "\<not> is_nan x \<Longrightarrow> fmax x NInf = x"
  by (cases x; simp add: fmax_def flt_def feq_def)+

lemma fmin_neutral [simp]: "\<not> is_nan x \<Longrightarrow> fmin PInf x = x" "\<not> is_nan x \<Longrightarrow> fmin x PInf = x"
  by (cases x; simp add: fmin_def flt_def feq_def)+

lemma fmax_idem [simp]: "fmax x x = x"
  by (cases x) (auto simp: fmax_def)

lemma fmin_idem [simp]: "fmin x x = x"
  by (cases x) (auto simp: fmin_def)

lemma fmax_Fin [simp]: "fmax (Fin a) (Fin b) = Fin (max a b)"
  by (auto simp: fmax_def)

lemma fmin_Fin [simp]: "fmin (Fin a) (Fin b) = Fin (min a b)"
  by (auto simp: fmin_def)


section \<open>Rounding\<close>

text \<open>Bit length of a natural number.\<close>

fun blen :: "nat \<Rightarrow> nat" where
  "blen n = (if n = 0 then 0 else Suc (blen (n div 2)))"

declare blen.simps [simp del]

lemma blen_bounds: "0 < n \<Longrightarrow> 2 ^ (blen n - 1) \<le> n \<and> n < 2 ^ blen n"
proof (induction n rule: blen.induct)
  case (1 n)
  show ?case
  proof (cases "n = 1")
    case True
    then show ?thesis by (simp add: blen.simps)
  next
    case False
    with "1.prems" have pos: "0 < n div 2" by simp
    with "1.IH" "1.prems" have ih: "2 ^ (blen (n div 2) - 1) \<le> n div 2" "n div 2 < 2 ^ blen (n div 2)"
      by auto
    have b: "blen n = Suc (blen (n div 2))" using "1.prems" by (subst blen.simps) simp
    have "blen (n div 2) \<noteq> 0" using pos by (subst blen.simps) simp
    then obtain k where k: "blen (n div 2) = Suc k" using not0_implies_Suc by blast
    from ih k have "2 ^ k \<le> n div 2" "n div 2 < 2 * 2 ^ k" by simp_all
    then have "2 * 2 ^ k \<le> n" "n < 2 * (2 * 2 ^ k)" by linarith+
    then show ?thesis by (simp add: b k)
  qed
qed

text \<open>\<open>fexp x\<close> is the exponent of the leading bit of \<open>x \<noteq> 0\<close>.\<close>

definition fexp :: "rat \<Rightarrow> int" where
  "fexp x = (case quotient_of \<bar>x\<bar> of (p, q) \<Rightarrow>
     (let e = int (blen (nat p)) - int (blen (nat q))
      in if \<bar>x\<bar> < 2 powi e then e - 1 else e))"

lemma fexp_bounds:
  assumes "x \<noteq> 0"
  shows "2 powi (fexp x) \<le> \<bar>x\<bar> \<and> \<bar>x\<bar> < 2 powi (fexp x + 1)"
proof -
  obtain p q where pq: "quotient_of \<bar>x\<bar> = (p, q)" by (cases "quotient_of \<bar>x\<bar>")
  have x: "\<bar>x\<bar> = of_int p / of_int q" by (rule quotient_of_div [OF pq])
  have q: "0 < q" by (rule quotient_of_denom_pos [OF pq])
  have "0 < (of_int p / of_int q :: rat)" using assms by (simp flip: x)
  then have p: "0 < p" using q by (simp add: zero_less_divide_iff)
  define bp bq where "bp = blen (nat p)" and "bq = blen (nat q)"
  have cast: "(2::rat) ^ (blen (nat n) - 1) \<le> of_int n \<and> of_int n < (2::rat) ^ blen (nat n)"
    if "0 < n" for n
  proof -
    from that blen_bounds [of "nat n"]
    have "of_nat (2 ^ (blen (nat n) - 1)) \<le> (of_nat (nat n) :: rat)"
      "of_nat (nat n) < (of_nat (2 ^ blen (nat n)) :: rat)"
      by (simp_all only: of_nat_le_iff of_nat_less_iff zero_less_nat_eq)
    with that show ?thesis by simp
  qed
  have P: "(2::rat) ^ (bp - 1) \<le> of_int p" "of_int p < (2::rat) ^ bp"
    using cast [OF p] by (simp_all add: bp_def)
  have Q: "(2::rat) ^ (bq - 1) \<le> of_int q" "of_int q < (2::rat) ^ bq"
    using cast [OF q] by (simp_all add: bq_def)
  have nz: "bp \<noteq> 0" "bq \<noteq> 0"
    using p q by (simp_all add: bp_def bq_def blen.simps)
  have up: "\<bar>x\<bar> < 2 powi (int bp - int bq + 1)"
  proof -
    have "\<bar>x\<bar> < 2 ^ bp / 2 ^ (bq - 1)"
      unfolding x by (rule frac_less) (use P Q p q in auto)
    also have "\<dots> = 2 powi (int bp - int bq + 1)"
      using nz by (simp add: power_int_diff power_int_add power_diff)
    finally show ?thesis .
  qed
  have low: "2 powi (int bp - int bq - 1) \<le> \<bar>x\<bar>"
  proof -
    have "2 powi (int bp - int bq - 1) = (2::rat) ^ (bp - 1) / 2 ^ bq"
      using nz by (simp add: power_int_diff power_diff)
    also have "\<dots> \<le> \<bar>x\<bar>"
      unfolding x by (rule frac_le) (use P Q p q in auto)
    finally show ?thesis .
  qed
  show ?thesis
    using up low by (auto simp: fexp_def pq Let_def bp_def bq_def)
qed

lemma fexp_mono:
  assumes "0 < x" and "x \<le> y"
  shows "fexp x \<le> fexp y"
proof -
  from assms fexp_bounds [of x] fexp_bounds [of y]
  have "2 powi (fexp x) < (2::rat) powi (fexp y + 1)" by auto
  then have "\<not> fexp y + 1 \<le> fexp x"
    using power_int_increasing [of "fexp y + 1" "fexp x" "2::rat"] by auto
  then show ?thesis by simp
qed

text \<open>Round a rational to an integer, ties to even.\<close>

definition rne :: "rat \<Rightarrow> int" where
  "rne x = (let f = \<lfloor>x\<rfloor>; d = x - of_int f
            in if d < 1 / 2 then f else if 1 / 2 < d then f + 1
               else if even f then f else f + 1)"

lemma rne_of_int [simp]: "rne (of_int n) = n"
  by (simp add: rne_def)

lemma rne_floor: "\<lfloor>x\<rfloor> \<le> rne x \<and> rne x \<le> \<lfloor>x\<rfloor> + 1"
  by (simp add: rne_def Let_def)

lemma rne_mono: "x \<le> y \<Longrightarrow> rne x \<le> rne y"
proof (cases "\<lfloor>x\<rfloor> = \<lfloor>y\<rfloor>")
  case True
  assume "x \<le> y"
  then show ?thesis by (auto simp: rne_def Let_def True)
next
  case False
  assume "x \<le> y"
  then have "\<lfloor>x\<rfloor> \<le> \<lfloor>y\<rfloor>" by (rule floor_mono)
  with False have "\<lfloor>x\<rfloor> + 1 \<le> \<lfloor>y\<rfloor>" by simp
  then show ?thesis using rne_floor [of x] rne_floor [of y] by linarith
qed

lemma rne_nearest:
  assumes "of_int n - 1 / 2 < x" and "x < of_int n + 1 / 2"
  shows "rne x = n"
proof (cases "of_int n \<le> x")
  case True
  with assms have "\<lfloor>x\<rfloor> = n" by (intro floor_unique) auto
  with assms show ?thesis by (auto simp: rne_def)
next
  case False
  with assms have "\<lfloor>x\<rfloor> = n - 1" by (intro floor_unique) auto
  with assms show ?thesis by (auto simp: rne_def)
qed

text \<open>The unit in the last place of \<open>x\<close>, and the rounding itself.\<close>

definition ulp :: "rat \<Rightarrow> rat" where
  "ulp x = 2 powi (max (- 1074) (fexp x - 52))"

definition rnd :: "rat \<Rightarrow> rat" where
  "rnd x = (if x = 0 then 0 else sgn x * (of_int (rne (\<bar>x\<bar> / ulp x)) * ulp x))"

definition fl :: "rat \<Rightarrow> f64" where
  "fl x = (let y = rnd x in if 2 ^ 1024 \<le> y then PInf else if y \<le> - (2 ^ 1024) then NInf else Fin y)"

lemma ulp_pos [simp]: "0 < ulp x"
  by (simp add: ulp_def)

lemma rnd_zero [simp]: "rnd 0 = 0"
  by (simp add: rnd_def)

lemma fl_zero [simp]: "fl 0 = Fin 0"
  by (simp add: fl_def)

lemma rnd_nonneg: "0 \<le> x \<Longrightarrow> 0 \<le> rnd x"
proof -
  have "0 \<le> rne (\<bar>x\<bar> / ulp x)" using rne_mono [of 0 "\<bar>x\<bar> / ulp x"] rne_of_int [of 0]
    by (simp add: less_imp_le)
  then show "0 \<le> x \<Longrightarrow> ?thesis" by (simp add: rnd_def less_imp_le)
qed

lemma fexp_minus [simp]: "fexp (- x) = fexp x"
  by (simp add: fexp_def)

lemma rnd_minus: "rnd (- x) = - rnd x"
  by (simp add: rnd_def ulp_def)

lemma rnd_mono_pos:
  assumes "0 < x" and "x \<le> y"
  shows "rnd x \<le> rnd y"
proof (cases "ulp x = ulp y")
  case True
  have "rne (x / ulp y) \<le> rne (y / ulp y)"
    by (rule rne_mono) (simp add: assms divide_right_mono less_imp_le)
  then show ?thesis using assms by (simp add: rnd_def True mult_right_mono less_imp_le)
next
  case False
  let ?ex = "max (- 1074) (fexp x - 52)" and ?ey = "max (- 1074) (fexp y - 52)"
  from False have "?ex \<noteq> ?ey" by (auto simp: ulp_def)
  with fexp_mono [OF assms] have e: "fexp x < fexp y" "?ey = fexp y - 52" "?ex \<le> fexp y" by auto
  let ?b = "2 powi (fexp y) :: rat"
  have quot: "\<exists>n. ?b = of_int n * 2 powi k" if "k \<le> fexp y" for k
  proof
    show "?b = of_int (2 ^ nat (fexp y - k)) * 2 powi k"
      using that by (simp add: power_int_diff flip: power_int_of_nat)
  qed
  obtain m where m: "?b = of_int m * ulp x" using quot [of ?ex] e by (auto simp: ulp_def)
  obtain n where n: "?b = of_int n * ulp y" using quot [of ?ey] e by (auto simp: ulp_def)
  have "x < 2 powi (fexp x + 1)" using fexp_bounds [of x] assms by simp
  also have "\<dots> \<le> ?b" using e by (intro power_int_increasing) auto
  finally have "x / ulp x \<le> of_int m" by (simp add: m pos_divide_le_eq less_imp_le)
  then have "rne (x / ulp x) \<le> m" using rne_mono rne_of_int by metis
  then have l: "of_int (rne (x / ulp x)) * ulp x \<le> ?b" by (simp add: m)
  have "?b \<le> y" using fexp_bounds [of y] assms by simp
  then have "of_int n \<le> y / ulp y" by (simp add: n pos_le_divide_eq)
  then have "n \<le> rne (y / ulp y)" using rne_mono rne_of_int by metis
  then have r: "?b \<le> of_int (rne (y / ulp y)) * ulp y" by (simp add: n)
  from l r assms show ?thesis by (simp add: rnd_def)
qed

lemma rnd_mono: "x \<le> y \<Longrightarrow> rnd x \<le> rnd y"
proof -
  assume le: "x \<le> y"
  consider "0 < x" | "x \<le> 0" "0 \<le> y" | "y < 0" by linarith
  then show ?thesis
  proof cases
    case 1
    then show ?thesis using le by (rule rnd_mono_pos)
  next
    case 2
    then have "0 \<le> rnd (- x)" "0 \<le> rnd y" by (simp_all add: rnd_nonneg)
    then show ?thesis by (simp add: rnd_minus)
  next
    case 3
    then have "rnd (- y) \<le> rnd (- x)" using le by (intro rnd_mono_pos) auto
    then show ?thesis by (simp add: rnd_minus)
  qed
qed

lemma fl_mono: "x \<le> y \<Longrightarrow> fle (fl x) (fl y)"
  using rnd_mono [of x y] by (auto simp: fl_def Let_def)

lemma fl_not_nan [simp]: "\<not> is_nan (fl x)"
  by (simp add: fl_def Let_def)

lemma fl_nonneg: "0 \<le> x \<Longrightarrow> fle (Fin 0) (fl x)"
  using fl_mono [of 0 x] by simp

lemma fl_nonpos: "x \<le> 0 \<Longrightarrow> fle (fl x) (Fin 0)"
  using fl_mono [of x 0] by simp

text \<open>A multiple of its own unit in the last place is represented exactly; so is every
  integer of magnitude at most \<open>2 ^ 53\<close>.\<close>

lemma rnd_exact: "\<bar>x\<bar> = of_int m * ulp x \<Longrightarrow> rnd x = x"
  using ulp_pos [of x] by (auto simp: rnd_def sgn_if abs_if field_simps split: if_splits)

lemma rnd_of_int:
  assumes "\<bar>n\<bar> \<le> 2 ^ 53"
  shows "rnd (of_int n) = of_int n"
proof (cases "n = 0")
  case True
  then show ?thesis by simp
next
  case False
  let ?x = "of_int n :: rat" and ?e = "fexp (of_int n)"
  have b: "2 powi ?e \<le> \<bar>?x\<bar>" "\<bar>?x\<bar> < 2 powi (?e + 1)" using fexp_bounds [of ?x] False by auto
  have "1 \<le> \<bar>n\<bar>" using False by simp
  then have "(of_int 1 :: rat) \<le> of_int \<bar>n\<bar>" by (simp only: of_int_le_iff)
  then have one: "1 \<le> \<bar>?x\<bar>" by simp
  have e0: "0 \<le> ?e"
  proof (rule ccontr)
    assume "\<not> 0 \<le> ?e"
    then have "(2::rat) powi (?e + 1) \<le> 2 powi 0" by (intro power_int_increasing) auto
    with b one show False by simp
  qed
  have "of_int \<bar>n\<bar> \<le> (of_int (2 ^ 53) :: rat)" using assms by (simp only: of_int_le_iff)
  then have hi: "\<bar>?x\<bar> \<le> 2 ^ 53" by simp
  show ?thesis
  proof (cases "?e \<le> 52")
    case True
    then have u: "ulp ?x = 2 powi (?e - 52)" using e0 by (simp add: ulp_def max_def)
    define k where "k = nat (52 - ?e)"
    have k: "?e - 52 = - int k" using True by (simp add: k_def)
    have "ulp ?x = inverse (2 ^ k)" by (simp only: u k power_int_minus power_int_of_nat)
    then have "\<bar>?x\<bar> = of_int (\<bar>n\<bar> * 2 ^ k) * ulp ?x" by simp
    then show ?thesis by (rule rnd_exact)
  next
    case False
    have "\<not> 54 \<le> ?e"
    proof
      assume "54 \<le> ?e"
      then have "(2::rat) powi 54 \<le> 2 powi ?e" by (intro power_int_increasing) auto
      with b hi show False by simp
    qed
    with False have e: "?e = 53" by simp
    with b hi have x: "\<bar>?x\<bar> = 2 ^ 53" by simp
    have "ulp ?x = 2" by (simp add: ulp_def e)
    then have "\<bar>?x\<bar> = of_int (2 ^ 52) * ulp ?x" using x by simp
    then show ?thesis by (rule rnd_exact)
  qed
qed

lemma fl_of_int: "\<bar>n\<bar> \<le> 2 ^ 53 \<Longrightarrow> fl (of_int n) = Fin (of_int n)"
proof -
  assume a: "\<bar>n\<bar> \<le> 2 ^ 53"
  then have "of_int \<bar>n\<bar> \<le> (of_int (2 ^ 53) :: rat)" by (simp only: of_int_le_iff)
  then have "\<bar>of_int n\<bar> \<le> (2 ^ 53 :: rat)" by simp
  moreover have "(2 ^ 53 :: rat) < 2 ^ 1024" by (rule power_strict_increasing) auto
  ultimately have "\<bar>of_int n\<bar> < (2 ^ 1024 :: rat)" by linarith
  then show "fl (of_int n) = Fin (of_int n)"
    by (simp add: fl_def rnd_of_int [OF a] abs_less_iff)
qed

lemma fl_numeral [simp]: "fl 1 = Fin 1"
  using fl_of_int [of 1] by simp

lemma fl_minus_one [simp]: "fl (- 1) = Fin (- 1)"
  using fl_of_int [of "- 1"] by simp

lemma fl_num [simp]:
  "(numeral n :: int) \<le> 2 ^ 53 \<Longrightarrow> fl (numeral n) = Fin (numeral n)"
  "(numeral n :: int) \<le> 2 ^ 53 \<Longrightarrow> fl (- numeral n) = Fin (- numeral n)"
  using fl_of_int [of "numeral n"] fl_of_int [of "- numeral n"] by simp_all

text \<open>Evaluating a rounding: the exponent is determined by its bounds.\<close>

lemma fexp_unique:
  assumes "2 powi e \<le> \<bar>x\<bar>" and "\<bar>x\<bar> < 2 powi (e + 1)"
  shows "fexp x = e"
proof -
  have "(0::rat) < 2 powi e" by simp
  with assms(1) have "0 < \<bar>x\<bar>" by (rule less_le_trans [rotated])
  then have "x \<noteq> 0" by simp
  note b = fexp_bounds [OF this]
  have "\<not> e + 1 \<le> fexp x"
  proof
    assume "e + 1 \<le> fexp x"
    then have "(2::rat) powi (e + 1) \<le> 2 powi (fexp x)" by (intro power_int_increasing) auto
    with assms b show False by simp
  qed
  moreover have "\<not> fexp x + 1 \<le> e"
  proof
    assume "fexp x + 1 \<le> e"
    then have "(2::rat) powi (fexp x + 1) \<le> 2 powi e" by (intro power_int_increasing) auto
    with assms b show False by simp
  qed
  ultimately show ?thesis by simp
qed

lemma rnd_eval:
  assumes "2 powi e \<le> x" and "x < 2 powi (e + 1)" and "- 1022 \<le> e"
  shows "rnd x = of_int (rne (x / 2 powi (e - 52))) * 2 powi (e - 52)"
proof -
  have pos: "0 < x" using assms(1) by (rule less_le_trans [rotated]) simp
  then have "fexp x = e" using assms by (intro fexp_unique) auto
  with pos assms(3) show ?thesis by (simp add: rnd_def ulp_def max_def)
qed

section \<open>Arithmetic\<close>

fun fneg :: "f64 \<Rightarrow> f64" where
  "fneg NaN = NaN"
| "fneg PInf = NInf"
| "fneg NInf = PInf"
| "fneg (Fin a) = Fin (- a)"

fun fadd :: "f64 \<Rightarrow> f64 \<Rightarrow> f64" where
  "fadd (Fin a) (Fin b) = fl (a + b)"
| "fadd NaN _ = NaN"
| "fadd _ NaN = NaN"
| "fadd PInf NInf = NaN"
| "fadd NInf PInf = NaN"
| "fadd PInf _ = PInf"
| "fadd _ PInf = PInf"
| "fadd NInf _ = NInf"
| "fadd _ NInf = NInf"

definition fsub :: "f64 \<Rightarrow> f64 \<Rightarrow> f64" where
  "fsub x y = fadd x (fneg y)"

fun fmul :: "f64 \<Rightarrow> f64 \<Rightarrow> f64" where
  "fmul (Fin a) (Fin b) = fl (a * b)"
| "fmul NaN _ = NaN"
| "fmul _ NaN = NaN"
| "fmul (Fin a) y = (if a = 0 then NaN else if 0 < a then y else fneg y)"
| "fmul x (Fin b) = (if b = 0 then NaN else if 0 < b then x else fneg x)"
| "fmul PInf y = y"
| "fmul NInf y = fneg y"

text \<open>Division; the sign of a zero divisor is not modelled, so a zero divisor gives the
  infinity with the sign of the dividend.\<close>

fun fdiv :: "f64 \<Rightarrow> f64 \<Rightarrow> f64" where
  "fdiv NaN _ = NaN"
| "fdiv _ NaN = NaN"
| "fdiv (Fin a) (Fin b) =
     (if b = 0 then (if a = 0 then NaN else if 0 < a then PInf else NInf) else fl (a / b))"
| "fdiv (Fin a) _ = Fin 0"
| "fdiv x (Fin b) = (if b < 0 then fneg x else x)"
| "fdiv _ _ = NaN"

fun fabs :: "f64 \<Rightarrow> f64" where
  "fabs NaN = NaN"
| "fabs PInf = PInf"
| "fabs NInf = PInf"
| "fabs (Fin a) = Fin \<bar>a\<bar>"

lemma fsub_Fin [simp]: "fsub (Fin a) (Fin b) = fl (a - b)"
  by (simp add: fsub_def)

lemma fsub_self: "\<not> nan_or_inf x \<Longrightarrow> fsub x x = Fin 0"
  by (cases x) auto

lemma fabs_fl_minus: "fabs (fl (- x)) = fabs (fl x)"
  by (auto simp: fl_def Let_def rnd_minus)

lemma fabs_fsub_commute: "fabs (fsub x y) = fabs (fsub y x)"
  using fabs_fl_minus [of "b - a" for a b]
  by (cases x; cases y) (auto simp: fsub_def algebra_simps)

lemma fadd_commute: "fadd x y = fadd y x"
  by (cases x; cases y) (auto simp: add.commute)

lemma fabs_nonneg: "\<not> is_nan x \<Longrightarrow> fle (Fin 0) (fabs x)"
  by (cases x) auto

section \<open>Powers of ten\<close>

text \<open>\<open>math.Pow10\<close> is the product (or quotient) of two table entries, each the float64
  nearest to a power of ten.\<close>

definition pow10 :: "int \<Rightarrow> f64" where
  "pow10 n =
     (if 0 \<le> n \<and> n \<le> 308
      then fmul (fl (10 ^ (32 * (nat n div 32)))) (fl (10 ^ (nat n mod 32)))
      else if - 323 \<le> n \<and> n \<le> 0
      then fdiv (fl (1 / 10 ^ (32 * (nat (- n) div 32)))) (fl (10 ^ (nat (- n) mod 32)))
      else if 0 < n then PInf else Fin 0)"

lemma pow10_small:
  assumes "0 \<le> n" and "n \<le> 15"
  shows "pow10 n = Fin (10 ^ nat n)"
proof -
  define k where "k = nat n"
  have k: "k \<le> 15" "nat n = k" "0 \<le> n" "n \<le> 308" using assms by (auto simp: k_def)
  have "(10 ^ k :: int) \<le> 10 ^ 15" using k(1) by (intro power_increasing) auto
  also have "(10 ^ 15 :: int) \<le> 2 ^ 53" by simp
  finally have "fl (of_int (10 ^ k)) = Fin (of_int (10 ^ k))" by (intro fl_of_int) simp
  then have "fl (10 ^ k) = Fin (10 ^ k)" by simp
  with k show ?thesis by (simp add: pow10_def)
qed

lemma fl_ge_int:
  assumes "of_int n \<le> x" and "\<bar>n\<bar> \<le> 2 ^ 53"
  shows "fle (Fin (of_int n)) (fl x)"
  using fl_mono [OF assms(1)] by (simp add: fl_of_int [OF assms(2)])

lemma fl_le_int:
  assumes "x \<le> of_int n" and "\<bar>n\<bar> \<le> 2 ^ 53"
  shows "fle (fl x) (Fin (of_int n))"
  using fl_mono [OF assms(1)] by (simp add: fl_of_int [OF assms(2)])

text \<open>From \<open>10 ^ 10\<close> on the value is at least \<open>10 ^ 10\<close>; a negative exponent gives a value
  between 0 and 1.\<close>

lemma pow10_large:
  assumes "10 \<le> n"
  shows "fle (Fin (10 ^ 10)) (pow10 n)"
proof (cases "n \<le> 308")
  case False
  then show ?thesis using assms by (simp add: pow10_def)
next
  case True
  define q where "q = nat n div 32" define r where "r = nat n mod 32"
  have nn: "nat n = 32 * q + r" by (simp add: q_def r_def)
  have big: "fle (Fin (10 ^ 10)) (fl (10 ^ j))" if "10 \<le> j" for j
  proof -
    have "(10 ^ 10 :: rat) \<le> 10 ^ j" using that by (intro power_increasing) auto
    then show ?thesis using fl_ge_int [of "10 ^ 10" "10 ^ j"] by simp
  qed
  have one: "fle (Fin 1) (fl (10 ^ j))" for j
    using fl_ge_int [of 1 "10 ^ j"] by simp
  have ge: "fle (Fin (10 ^ 10)) (fmul x y)"
    if x: "fle (Fin a) x" and y: "fle (Fin b) y" and ab: "a = 1 \<and> b = 10 ^ 10 \<or> a = 10 ^ 10 \<and> b = 1" for x y a b
  proof (cases "x = PInf \<or> y = PInf")
    case True
    then show ?thesis using x y ab by (cases x; cases y) auto
  next
    case False
    then obtain u v where uv: "x = Fin u" "y = Fin v" "a \<le> u" "b \<le> v"
      using x y by (cases x; cases y) auto
    have "a * b \<le> u * v" using uv ab by (intro mult_mono) auto
    then have "10 ^ 10 \<le> u * v" using ab by auto
    then show ?thesis using fl_ge_int [of "10 ^ 10" "u * v"] uv by simp
  qed
  have "fle (Fin (10 ^ 10)) (fmul (fl (10 ^ (32 * q))) (fl (10 ^ r)))"
  proof (cases "q = 0")
    case True
    then have "10 \<le> r" using nn assms by simp
    then show ?thesis using ge [OF one [of "32 * q"] big] by simp
  next
    case False
    then show ?thesis using ge [OF big [of "32 * q"] one [of r]] by simp
  qed
  then show ?thesis using True assms by (simp add: pow10_def q_def r_def)
qed

lemma pow10_neg:
  assumes "n \<le> 0"
  shows "fle (Fin 0) (pow10 n) \<and> fle (pow10 n) (Fin 1)"
proof (cases "- 323 \<le> n \<and> n < 0")
  case False
  then show ?thesis using assms by (auto simp: pow10_def)
next
  case True
  define q where "q = nat (- n) div 32" define r where "r = nat (- n) mod 32"
  have p: "pow10 n = fdiv (fl (1 / 10 ^ (32 * q))) (fl (10 ^ r))"
    using True by (simp add: pow10_def q_def r_def)
  have "(1 :: rat) / 10 ^ (32 * q) \<le> of_int 1" by (simp add: divide_le_eq)
  from fl_le_int [OF this] fl_nonneg [of "1 / 10 ^ (32 * q)"]
  obtain a where a: "fl (1 / 10 ^ (32 * q)) = Fin a" "0 \<le> a" "a \<le> 1"
    by (cases "fl (1 / 10 ^ (32 * q))") auto
  have one: "fle (Fin 1) (fl (10 ^ r))" using fl_ge_int [of 1 "10 ^ r"] by simp
  show ?thesis
  proof (cases "fl (10 ^ r)")
    case (Fin b)
    with one have b: "1 \<le> b" by simp
    then have "a / b \<le> of_int 1" using a by (simp add: divide_le_eq)
    from fl_le_int [OF this] have "fle (fl (a / b)) (Fin 1)" by simp
    moreover have "fle (Fin 0) (fl (a / b))" using a b by (intro fl_nonneg) simp
    ultimately show ?thesis using b by (simp add: p a(1) Fin)
  qed (use one in \<open>auto simp: p a(1)\<close>)
qed

text \<open>A value far below the overflow threshold rounds to a finite one.\<close>

lemma ulp_le: "x \<noteq> 0 \<Longrightarrow> ulp x \<le> \<bar>x\<bar> + 1"
proof -
  assume x: "x \<noteq> 0"
  define t where "t = (2 :: rat) powi (- 1074)"
  define u where "u = (2 :: rat) powi (fexp x - 52)"
  have "u \<le> 2 powi (fexp x)" unfolding u_def by (rule power_int_increasing) auto
  also have "\<dots> \<le> \<bar>x\<bar>" using fexp_bounds [OF x] by simp
  finally have a: "u \<le> \<bar>x\<bar> + 1" by simp
  have "t \<le> 2 powi 0" unfolding t_def by (rule power_int_increasing) auto
  then have b: "t \<le> \<bar>x\<bar> + 1" by simp
  have "ulp x = t \<or> ulp x = u" unfolding ulp_def t_def u_def max_def by (simp only: split: if_split) blast
  with a b show "ulp x \<le> \<bar>x\<bar> + 1" by (elim disjE) (simp_all only:)
qed

lemma rnd_abs_le: "\<bar>rnd x\<bar> \<le> 2 * \<bar>x\<bar> + 1"
proof (cases "x = 0")
  case False
  define n where "n = rne (\<bar>x\<bar> / ulp x)"
  define u where "u = ulp x"
  have u: "0 < u" "u \<le> \<bar>x\<bar> + 1" unfolding u_def using ulp_pos ulp_le [OF False] by auto
  have "n \<le> \<lfloor>\<bar>x\<bar> / u\<rfloor> + 1" unfolding n_def u_def using rne_floor by blast
  then have "(of_int n :: rat) \<le> of_int (\<lfloor>\<bar>x\<bar> / u\<rfloor> + 1)" by (simp only: of_int_le_iff)
  also have "\<dots> \<le> \<bar>x\<bar> / u + 1" using of_int_floor_le [of "\<bar>x\<bar> / u"] by simp
  finally have "of_int n * u \<le> (\<bar>x\<bar> / u + 1) * u" using u by (intro mult_right_mono) auto
  also have "\<dots> = \<bar>x\<bar> + u" using u by (simp add: distrib_right)
  finally have le: "of_int n * u \<le> 2 * \<bar>x\<bar> + 1" using u by simp
  have "0 \<le> \<lfloor>\<bar>x\<bar> / u\<rfloor>" using u by simp
  then have "0 \<le> n" unfolding n_def u_def using rne_floor order_trans by blast
  then have "0 \<le> of_int n * u" using u by simp
  moreover have "\<bar>rnd x\<bar> = \<bar>of_int n * u\<bar>" using False by (simp add: rnd_def n_def u_def abs_mult)
  ultimately show ?thesis using le by simp
qed simp

lemma fl_finite:
  assumes "2 * \<bar>x\<bar> + 1 < 2 ^ 1024"
  shows "fl x = Fin (rnd x)"
proof -
  define c :: rat where "c = 2 ^ 1024"
  have "\<bar>rnd x\<bar> < c" using rnd_abs_le [of x] assms unfolding c_def [symmetric] by linarith
  then have "\<not> c \<le> rnd x" "\<not> rnd x \<le> - c" by linarith+
  then show ?thesis unfolding fl_def Let_def c_def [symmetric] by simp
qed

lemma pow10_finite:
  assumes "0 \<le> n" and "n \<le> 127"
  shows "\<exists>p. pow10 n = Fin p"
proof -
  define q where "q = nat n div 32" define r where "r = nat n mod 32"
  have q: "q \<le> 3" and r: "r \<le> 31" using assms by (simp_all add: q_def r_def)
  have "(10 :: rat) ^ (32 * q) \<le> 10 ^ 96" using q by (intro power_increasing) auto
  then have a: "\<bar>10 ^ (32 * q) :: rat\<bar> \<le> 10 ^ 96" by simp
  have "(10 :: rat) ^ r \<le> 10 ^ 31" using r by (intro power_increasing) auto
  then have b: "\<bar>10 ^ r :: rat\<bar> \<le> 10 ^ 31" by simp
  have big: "(10 :: rat) ^ 128 < 2 ^ 1024"
  proof -
    have "(10 :: rat) ^ 128 \<le> 16 ^ 128" by (intro power_mono) auto
    also have "(16 :: rat) ^ 128 = 2 ^ 512" by simp
    also have "(2 :: rat) ^ 512 < 2 ^ 1024" by (intro power_strict_increasing) auto
    finally show ?thesis .
  qed
  define c :: rat where "c = 2 ^ 1024"
  have big': "10 ^ 128 < c" using big by (simp only: c_def)
  have "2 * \<bar>10 ^ (32 * q) :: rat\<bar> + 1 < c" using a big' by simp
  then have x: "fl (10 ^ (32 * q)) = Fin (rnd (10 ^ (32 * q)))" unfolding c_def by (rule fl_finite)
  have "2 * \<bar>10 ^ r :: rat\<bar> + 1 < c" using b big' by simp
  then have y: "fl (10 ^ r) = Fin (rnd (10 ^ r))" unfolding c_def by (rule fl_finite)
  have "\<bar>rnd (10 ^ (32 * q))\<bar> \<le> 2 * 10 ^ 96 + 1" using rnd_abs_le [of "10 ^ (32 * q)"] a by simp
  moreover have "\<bar>rnd (10 ^ r)\<bar> \<le> 2 * 10 ^ 31 + 1" using rnd_abs_le [of "10 ^ r"] b by simp
  ultimately have "\<bar>rnd (10 ^ (32 * q)) * rnd (10 ^ r)\<bar> \<le> (2 * 10 ^ 96 + 1) * (2 * 10 ^ 31 + 1)"
    unfolding abs_mult by (intro mult_mono) auto
  then have "2 * \<bar>rnd (10 ^ (32 * q)) * rnd (10 ^ r)\<bar> + 1 < c" using big' by simp
  then have "fl (rnd (10 ^ (32 * q)) * rnd (10 ^ r)) = Fin (rnd (rnd (10 ^ (32 * q)) * rnd (10 ^ r)))"
    unfolding c_def by (rule fl_finite)
  then show ?thesis using assms x y by (simp add: pow10_def q_def r_def)
qed

end
