(* ===== verification/UtilityTime.thy ===== *)
theory UtilityTime
  imports GoFloat
begin

text \<open>
  internal/utilitytime: the single owner of utility (server) time. A clock reading has a wall
  part and a monotonic part, in nanoseconds: \<open>Time.Unix\<close> reads the first and \<open>Time.Sub\<close>
  the second, as Go's library does for two readings taken by \<open>time.Now\<close>. The injected
  \<open>cfg.Now\<close> is an argument of each operation (the value it returns during the call).
  The locale \<open>consecutive_debounce\<close> is the contract of \<open>DebouncedExpiry\<close> that the
  scheduler relies on.
\<close>

section \<open>Readings and the clock state\<close>

record reading =
  wall :: gotime
  mono :: gotime

datatype StepClass = First | Wobble | Step

record Clock =
  WobbleMaxS :: int64
  StepThresholdS :: int64
  offset :: int64
  haveOffset :: bool
  lastUpdate :: "reading option"
  anchored :: bool
  anchorServer :: int64
  anchorMono :: reading
  anchorWall :: int64

definition DefaultWobbleMaxS :: int64 where
  "DefaultWobbleMaxS = 60"

definition DefaultStepThresholdS :: int64 where
  "DefaultStepThresholdS = 30"

definition zero_reading :: reading where
  "zero_reading = \<lparr>wall = 0, mono = 0\<rparr>"

definition New :: "int64 \<Rightarrow> int64 \<Rightarrow> Clock" where
  "New wobbleMaxS stepThresholdS =
     \<lparr>WobbleMaxS = (if wobbleMaxS \<le> 0 then DefaultWobbleMaxS else wobbleMaxS),
      StepThresholdS = (if stepThresholdS \<le> 0 then DefaultStepThresholdS else stepThresholdS),
      offset = 0, haveOffset = False, lastUpdate = None,
      anchored = False, anchorServer = 0, anchorMono = zero_reading, anchorWall = 0\<rparr>"

section \<open>Operations\<close>

definition SetOffset :: "Clock \<Rightarrow> int64 \<Rightarrow> reading \<Rightarrow> StepClass \<times> Clock" where
  "SetOffset c off now =
     (let class = (if \<not> haveOffset c then First
                   else let delta = wrap64 (off - offset c);
                            delta = (if delta < 0 then wrap64 (- delta) else delta)
                        in if WobbleMaxS c < delta then Step else Wobble)
      in (class, c\<lparr>offset := off, haveOffset := True, lastUpdate := Some now\<rparr>))"

definition Offset :: "Clock \<Rightarrow> int64 \<times> bool" where
  "Offset c = (offset c, haveOffset c)"

definition ServerNowAt :: "reading \<Rightarrow> int64 \<Rightarrow> int64" where
  "ServerNowAt now off = wrap64 (time_unix (wall now) + off)"

text \<open>\<open>Duration.Seconds\<close> is a float64 (whole seconds plus the fraction, each operation
  rounded), and \<open>int64(\<dots>)\<close> drops its fraction.\<close>

definition duration_seconds :: "duration \<Rightarrow> f64" where
  "duration_seconds d =
     fadd (fl (of_int (go_div d second)))
          (fdiv (fl (of_int (d - go_div d second * second))) (Fin 1000000000))"

fun f64_to_int64 :: "f64 \<Rightarrow> int64" where
  "f64_to_int64 (Fin x) = (if 0 \<le> x then \<lfloor>x\<rfloor> else \<lceil>x\<rceil>)"
| "f64_to_int64 PInf = 2 ^ 63 - 1"
| "f64_to_int64 _ = - (2 ^ 63)"

definition elapsed_s :: "reading \<Rightarrow> reading \<Rightarrow> int64" where
  "elapsed_s now since = f64_to_int64 (duration_seconds (time_sub (mono now) (mono since)))"

definition ServerNow :: "Clock \<Rightarrow> reading \<Rightarrow> int64" where
  "ServerNow c now =
     (if anchored c then wrap64 (anchorServer c + elapsed_s now (anchorMono c))
      else ServerNowAt now (offset c))"

definition Anchor :: "Clock \<Rightarrow> int64 \<Rightarrow> reading \<Rightarrow> Clock" where
  "Anchor c serverUnix now =
     c\<lparr>anchorMono := now, anchorServer := serverUnix, anchorWall := time_unix (wall now),
       anchored := True\<rparr>"

definition Anchored :: "Clock \<Rightarrow> bool" where
  "Anchored c = anchored c"

definition LocalStep :: "Clock \<Rightarrow> reading \<Rightarrow> int64 \<times> bool" where
  "LocalStep c now =
     (if \<not> anchored c then (0, False)
      else let wallElapsed = wrap64 (time_unix (wall now) - anchorWall c);
               monoElapsed = elapsed_s now (anchorMono c);
               drift = wrap64 (wallElapsed - monoElapsed);
               threshold = (if StepThresholdS c \<le> 0 then DefaultStepThresholdS else StepThresholdS c);
               stepped = (if drift < 0 then threshold \<le> wrap64 (- drift) else threshold \<le> drift)
           in (drift, stepped))"

definition Expired :: "int64 \<Rightarrow> int64 \<Rightarrow> bool" where
  "Expired validUntil serverNow \<longleftrightarrow> validUntil \<noteq> 0 \<and> validUntil \<le> serverNow"

definition InWindow :: "int64 \<Rightarrow> int64 \<Rightarrow> int64 \<Rightarrow> bool" where
  "InWindow start end serverNow \<longleftrightarrow> start \<le> serverNow \<and> serverNow < end"

section \<open>Debounced expiry and the reporting grace\<close>

record DebouncedExpiry =
  Confirm :: int
  count :: nat

definition Observe :: "DebouncedExpiry \<Rightarrow> bool \<Rightarrow> bool \<times> DebouncedExpiry" where
  "Observe d expired =
     (if \<not> expired then (False, d\<lparr>count := 0\<rparr>)
      else let d = d\<lparr>count := Suc (count d)\<rparr>;
               confirm = (if Confirm d \<le> 0 then 1 else Confirm d)
           in (confirm \<le> int (count d), d))"

definition Reset :: "DebouncedExpiry \<Rightarrow> DebouncedExpiry" where
  "Reset d = d\<lparr>count := 0\<rparr>"

definition Reportable :: "int64 \<Rightarrow> int64 \<Rightarrow> int64 \<Rightarrow> bool" where
  "Reportable graceS validUntil serverNow \<longleftrightarrow>
     validUntil = 0 \<or> serverNow < wrap64 (validUntil + graceS)"

section \<open>The debounce contract\<close>

text \<open>The length of the trailing run of \<open>True\<close> in a history of observations.\<close>

definition trailing :: "bool list \<Rightarrow> nat" where
  "trailing bs = length (takeWhile (\<lambda>b. b) (rev bs))"

lemma trailing_simps [simp]:
  "trailing [] = 0" "trailing (bs @ [True]) = Suc (trailing bs)" "trailing (bs @ [False]) = 0"
  by (simp_all add: trailing_def)

lemma trailing_le: "trailing bs \<le> length bs"
  unfolding trailing_def using length_takeWhile_le [of "\<lambda>b. b" "rev bs"] by simp

text \<open>Feeding a list of observations to an observer.\<close>

fun feed :: "('d \<Rightarrow> bool \<Rightarrow> bool \<times> 'd) \<Rightarrow> 'd \<Rightarrow> bool list \<Rightarrow> 'd" where
  "feed obs d [] = d"
| "feed obs d (b # bs) = feed obs (snd (obs d b)) bs"

lemma feed_append: "feed obs d (bs @ cs) = feed obs (feed obs d bs) cs"
  by (induction bs arbitrary: d) auto

locale consecutive_debounce =
  fixes obs :: "'d \<Rightarrow> bool \<Rightarrow> bool \<times> 'd"
    and rst :: "'d \<Rightarrow> 'd"
    and run :: "'d \<Rightarrow> nat"
    and need :: "'d \<Rightarrow> nat"
  assumes obs_false: "fst (obs d False) = False" "run (snd (obs d False)) = 0"
    and obs_true: "fst (obs d True) \<longleftrightarrow> need d \<le> Suc (run d)" "run (snd (obs d True)) = Suc (run d)"
    and obs_need: "need (snd (obs d b)) = need d"
    and rst_run: "run (rst d) = 0" "need (rst d) = need d"
begin

lemma feed_need [simp]: "need (feed obs d bs) = need d"
  by (induction bs arbitrary: d) (auto simp: obs_need)

lemma feed_run: "run (feed obs (rst d) bs) = trailing bs"
proof (induction bs rule: rev_induct)
  case Nil
  then show ?case by (simp add: rst_run)
next
  case (snoc b bs)
  then show ?case by (cases b) (simp_all add: feed_append obs_false obs_true)
qed

text \<open>The observation fires exactly when the last \<open>need\<close> observations, itself included,
  were all true.\<close>

lemma fires_iff:
  "fst (obs (feed obs (rst d) bs) b) \<longleftrightarrow> b \<and> need d \<le> trailing (bs @ [b])"
  by (cases b) (simp_all add: obs_false obs_true feed_run rst_run)

lemma no_fire_after_false:
  "\<not> fst (obs (feed obs (rst d) (bs @ [False])) True)" if "1 < need d"
  using that fires_iff [of d "bs @ [False]" True] trailing_simps(2) [of "bs @ [False]"] by simp

end

interpretation debounced: consecutive_debounce Observe Reset count
    "\<lambda>d. if Confirm d \<le> 0 then 1 else nat (Confirm d)"
  by unfold_locales (auto simp: Observe_def Reset_def Let_def)

section \<open>Elapsed seconds\<close>

text \<open>
  For a non-negative duration the float64 detour of \<open>int64(d.Seconds())\<close> gives the whole
  seconds or, when the fraction is rounded up to the next integer, one more; and it is monotone.
\<close>

definition frac_s :: "duration \<Rightarrow> f64" where
  "frac_s r = fdiv (fl (of_int r)) (Fin 1000000000)"

lemma frac_s_eq:
  assumes "0 \<le> r" and "r \<le> 1000000000"
  shows "frac_s r = fl (of_int r / 1000000000)"
  using assms by (simp add: frac_s_def fl_of_int)

lemma frac_s_mono:
  "0 \<le> r \<Longrightarrow> r \<le> r' \<Longrightarrow> r' \<le> 1000000000 \<Longrightarrow> fle (frac_s r) (frac_s r')"
  by (simp add: frac_s_eq) (rule fl_mono, simp add: divide_right_mono)

lemma frac_s_unit:
  assumes "0 \<le> r" and "r \<le> 1000000000"
  obtains f where "frac_s r = Fin f" and "0 \<le> f" and "f \<le> 1"
proof -
  have "fle (Fin 0) (frac_s r)" using frac_s_mono [of 0 r] assms by (simp add: frac_s_eq)
  moreover have "fle (frac_s r) (Fin 1)"
    using frac_s_mono [of r 1000000000] assms by (simp add: frac_s_eq)
  ultimately show ?thesis using that by (cases "frac_s r") auto
qed

lemma duration_seconds_split:
  assumes "0 \<le> d" and "d \<le> max_duration"
  shows "duration_seconds d = fadd (Fin (of_int (d div second))) (frac_s (d mod second))"
proof -
  have g: "go_div d second = d div second" using assms by (simp add: go_div_nonneg second_def)
  have "d div second \<le> max_duration div second" using assms by (simp add: zdiv_mono1 second_def)
  then have "\<bar>d div second\<bar> \<le> 2 ^ 53"
    using assms by (simp add: max_duration_def second_def pos_imp_zdiv_nonneg_iff)
  then show ?thesis
    by (simp add: duration_seconds_def frac_s_def g fl_of_int minus_div_mult_eq_mod)
qed

lemma f64_to_int64_mono: "fle (Fin a) (Fin b) \<Longrightarrow> f64_to_int64 (Fin a) \<le> f64_to_int64 (Fin b)"
proof -
  assume "fle (Fin a) (Fin b)"
  then have le: "a \<le> b" by simp
  show ?thesis
  proof (cases "0 \<le> a \<or> b < 0")
    case True
    with le show ?thesis by (auto intro: floor_mono ceiling_mono)
  next
    case False
    then have "\<lceil>a\<rceil> \<le> 0" "0 \<le> \<lfloor>b\<rfloor>" by (auto simp: ceiling_le_iff)
    with False show ?thesis by (simp del: zero_le_floor ceiling_le_zero)
  qed
qed

text \<open>The value between two consecutive whole seconds.\<close>

lemma whole_seconds_bounds:
  assumes "0 \<le> d" and "d \<le> max_duration"
  obtains x where "duration_seconds d = Fin x"
    and "of_int (d div second) \<le> x" and "x \<le> of_int (d div second) + 1"
proof -
  let ?q = "d div second"
  have q: "0 \<le> ?q" "?q \<le> 9223372037"
    using assms zdiv_mono1 [of d max_duration second]
    by (auto simp: second_def max_duration_def pos_imp_zdiv_nonneg_iff)
  have r: "0 \<le> d mod second" "d mod second \<le> 1000000000"
    using pos_mod_bound [of second d] by (auto simp: second_def)
  obtain f where f: "frac_s (d mod second) = Fin f" "0 \<le> f" "f \<le> 1"
    using frac_s_unit [OF r] .
  have "fle (fl (of_int ?q)) (fl (of_int ?q + f))" using f by (intro fl_mono) simp
  moreover have "fle (fl (of_int ?q + f)) (fl (of_int (?q + 1)))" using f by (intro fl_mono) simp
  moreover have "fl (of_int ?q) = Fin (of_int ?q)" "fl (of_int (?q + 1)) = Fin (of_int (?q + 1))"
    using q fl_of_int [of ?q] fl_of_int [of "?q + 1"] by auto
  ultimately have "\<exists>x. fl (of_int ?q + f) = Fin x \<and> of_int ?q \<le> x \<and> x \<le> of_int ?q + 1"
    by (cases "fl (of_int ?q + f)") auto
  then show ?thesis using that by (auto simp: duration_seconds_split [OF assms] f)
qed

lemma elapsed_bounds:
  assumes "mono s \<le> mono r" and "mono r - mono s \<le> max_duration"
  shows "(mono r - mono s) div second \<le> elapsed_s r s \<and>
         elapsed_s r s \<le> (mono r - mono s) div second + 1"
proof -
  let ?d = "mono r - mono s"
  have d: "time_sub (mono r) (mono s) = ?d"
    using assms by (simp add: time_sub_def min_duration_def max_duration_def)
  have nn: "0 \<le> ?d" using assms by simp
  obtain x where x: "duration_seconds ?d = Fin x" "of_int (?d div second) \<le> x"
    "x \<le> of_int (?d div second) + 1" by (rule whole_seconds_bounds [OF nn assms(2)])
  have "0 \<le> ?d div second" using nn by (simp add: second_def pos_imp_zdiv_nonneg_iff)
  then have "0 \<le> x" using x(2) by (meson of_int_0_le_iff order_trans)
  then show ?thesis using x
    by (simp add: elapsed_s_def d le_floor_iff floor_le_iff)
qed

lemma elapsed_mono:
  assumes "mono s \<le> mono r" and "mono r \<le> mono r'" and "mono r' - mono s \<le> max_duration"
  shows "elapsed_s r s \<le> elapsed_s r' s"
proof -
  let ?d = "mono r - mono s" and ?d' = "mono r' - mono s"
  have t: "time_sub (mono r) (mono s) = ?d" "time_sub (mono r') (mono s) = ?d'"
    using assms by (simp_all add: time_sub_def min_duration_def max_duration_def)
  have le: "?d div second \<le> ?d' div second" using assms(2) by (simp add: zdiv_mono1 second_def)
  show ?thesis
  proof (cases "?d div second = ?d' div second")
    case False
    with le have "?d div second + 1 \<le> ?d' div second" by simp
    moreover have "elapsed_s r s \<le> ?d div second + 1" and "?d' div second \<le> elapsed_s r' s"
      using elapsed_bounds [of s r] elapsed_bounds [of s r'] assms by auto
    ultimately show ?thesis by simp
  next
    case True
    have m: "?d mod second \<le> ?d' mod second"
      using assms(2) True by (simp add: minus_div_mult_eq_mod [symmetric])
    have r: "0 \<le> ?d mod second" "?d' mod second \<le> 1000000000"
      using pos_mod_bound [of second ?d'] by (auto simp: second_def)
    then obtain f f' where f: "frac_s (?d mod second) = Fin f" "frac_s (?d' mod second) = Fin f'"
      using frac_s_unit m by (metis order_trans)
    with frac_s_mono [OF r(1) m r(2)] have "f \<le> f'" by simp
    then have "fle (duration_seconds ?d) (duration_seconds ?d')"
      using assms by (simp add: duration_seconds_split f True) (rule fl_mono, simp)
    moreover obtain x where "duration_seconds ?d = Fin x"
      using whole_seconds_bounds [of ?d] assms by auto
    moreover obtain x' where "duration_seconds ?d' = Fin x'"
      using whole_seconds_bounds [of ?d'] assms by auto
    ultimately show ?thesis by (simp only: elapsed_s_def t f64_to_int64_mono)
  qed
qed

section \<open>Properties\<close>

text \<open>
  An anchored clock is immune to local wall-clock steps and never runs backwards.
  Two readings that agree on the monotonic part give the same server time whatever their wall
  parts, and server time is the anchored value plus the whole monotonic seconds, or one second
  more where the float64 conversion of the duration rounds up, and it does not decrease as the
  monotonic clock advances.
\<close>

theorem anchored_server_now_monotonic:
  assumes "mono now \<le> mono r" and "mono r \<le> mono r'"
    and "mono r' - mono now \<le> max_duration"
    and "in_int64 (server + elapsed_s r now)" and "in_int64 (server + elapsed_s r' now)"
  shows "ServerNow (Anchor c server now) (r\<lparr>wall := w\<rparr>) = ServerNow (Anchor c server now) r \<and>
     ServerNow (Anchor c server now) r \<le> ServerNow (Anchor c server now) r' \<and>
     server + (mono r - mono now) div second \<le> ServerNow (Anchor c server now) r \<and>
     ServerNow (Anchor c server now) r \<le> server + (mono r - mono now) div second + 1"
proof -
  have "elapsed_s (r\<lparr>wall := w\<rparr>) now = elapsed_s r now" by (simp add: elapsed_s_def)
  then show ?thesis
    using elapsed_mono [OF assms(1,2,3)] elapsed_bounds [OF assms(1)] assms
    by (simp add: ServerNow_def Anchor_def)
qed

theorem anchored_server_now_monotonic_witness:
  "ServerNow (Anchor (New 0 0) 1700000000 \<lparr>wall = 0, mono = 0\<rparr>)
      (\<lparr>wall = 7, mono = 5000000000\<rparr>\<lparr>wall := 99\<rparr>)
    \<le> ServerNow (Anchor (New 0 0) 1700000000 \<lparr>wall = 0, mono = 0\<rparr>) \<lparr>wall = 7, mono = 9000000000\<rparr>"
proof -
  let ?n = "\<lparr>wall = 0, mono = 0\<rparr>" and ?r = "\<lparr>wall = 7, mono = 5000000000\<rparr>"
    and ?r' = "\<lparr>wall = 7, mono = 9000000000\<rparr>"
  have "elapsed_s ?r ?n \<in> {5, 6}" "elapsed_s ?r' ?n \<in> {9, 10}"
    using elapsed_bounds [of ?n ?r] elapsed_bounds [of ?n ?r']
    by (auto simp: max_duration_def second_def)
  then have "in_int64 (1700000000 + elapsed_s ?r ?n)" "in_int64 (1700000000 + elapsed_s ?r' ?n)"
    by (auto simp: in_int64_def)
  then show ?thesis
    using anchored_server_now_monotonic [of ?n ?r ?r' 1700000000 "New 0 0" 99]
    by (simp add: max_duration_def)
qed

text \<open>
  \<open>DebouncedExpiry\<close> reports expiry exactly when the last \<open>Confirm\<close>
  observations since the last reset, the current one included, were all expired (with
  \<open>Confirm\<close> at most 0 read as 1); in particular non-consecutive glitches never add up.
\<close>

theorem debounce_fires_iff_consecutive:
  "fst (Observe (feed Observe (Reset d) bs) b) \<longleftrightarrow>
     b \<and> (if Confirm d \<le> 0 then 1 else nat (Confirm d)) \<le> trailing (bs @ [b])"
  by (rule debounced.fires_iff)

text \<open>After 194 days and a fraction of \<open>999999999\<close> ns the converted duration is one second
  ahead of the floor the code comment describes.\<close>

lemma elapsed_rounds_up:
  "elapsed_s \<lparr>wall = 0, mono = 16777216 * second + 999999999\<rparr> zero_reading = 16777217"
proof -
  let ?d = "16777216 * second + 999999999 :: int"
  define c :: rat where "c = 4294967291 / 4294967296"
  have dm: "?d div second = 16777216" "?d mod second = 999999999" by (simp_all add: second_def)
  have "rnd c = c" by (subst rnd_eval [where e = "- 1"]) (simp_all add: c_def rne_def power_int_minus)
  then have c: "fl c = Fin c" by (simp add: fl_def c_def)
  obtain f where f: "frac_s 999999999 = Fin f" "f \<le> 1" using frac_s_unit [of 999999999] by auto
  have "fle (fl c) (fl (of_int 999999999 / 1000000000))" by (rule fl_mono) (simp add: c_def)
  then have cf: "c \<le> f" using f by (simp add: frac_s_eq c)
  have "rnd (16777216 + c) = 16777217"
    by (subst rnd_eval [where e = 24])
      (simp_all add: c_def power_int_minus rne_nearest [where n = 4503599895805952])
  then have "fl (16777216 + c) = Fin 16777217" by (simp add: fl_def)
  moreover have "fle (fl (16777216 + c)) (fl (16777216 + f))" using cf by (intro fl_mono) simp
  moreover have "fle (fl (16777216 + f)) (fl (of_int 16777217))" using f by (intro fl_mono) simp
  moreover have "fl (of_int 16777217) = Fin 16777217" by (subst fl_of_int) simp_all
  ultimately have "fl (16777216 + f) = Fin 16777217" by (cases "fl (16777216 + f)") auto
  then have "duration_seconds ?d = Fin 16777217"
    using duration_seconds_split [of ?d] by (simp add: dm f second_def max_duration_def)
  then show ?thesis
    by (simp add: elapsed_s_def zero_reading_def time_sub_def second_def max_duration_def min_duration_def)
qed

end
