(* ===== verification/Reconcile.thy ===== *)
theory Reconcile
  imports GoFloat
begin

text \<open>
  internal/reconcile: the per-device desired-state reconciliation state machine
  (reconcile.go, report.go). One \<open>Reconciler\<close> record; the four input events
  (\<open>SetDesired\<close> / \<open>SetDesiredFields\<close>, \<open>Observe\<close>, \<open>Reconnected\<close>,
  \<open>Tick\<close>) are functions from the state and the injected clock to the action, the reports
  and the next state. The order in which Go visits the keys of the desired-field map is an
  argument of \<open>matches_in\<close>. Copying a map (\<open>copyFields\<close>) is the identity here, since
  HOL values are immutable.
\<close>

section \<open>Data\<close>

datatype Field = SetpointW | CeilingW | Connect | MaxCurrentA | FixedPF | FixedVarPct
  | Energize | AdvContent

definition all_fields :: "Field list" where
  "all_fields = [SetpointW, CeilingW, Connect, MaxCurrentA, FixedPF, FixedVarPct, Energize, AdvContent]"

lemma all_fields_set [simp]: "f \<in> set all_fields"
  by (cases f) (simp_all add: all_fields_def)

type_synonym fields = "Field \<rightharpoonup> f64"

datatype ActionKind = ActionNone | ActionWrite

record Action =
  Kind :: ActionKind
  Fields :: fields
  Reason :: string

definition ActionKind_String :: "ActionKind \<Rightarrow> string" where
  "ActionKind_String k = (case k of ActionNone \<Rightarrow> ''None'' | ActionWrite \<Rightarrow> ''Write'')"

datatype ReportKind = ReportNonConvergedBegin | ReportNonConvergedEnd | ReportStaleDesired
  | ReportRejectedDoc | ReportRejectedObs | ReportSeqReset | ReportInterlockHold
  | ReportAdoptState

datatype RejectReason = RejectNone | RejectSeqRegression | RejectStale | RejectNaN

definition Field_String :: "Field \<Rightarrow> string" where
  "Field_String f = (case f of SetpointW \<Rightarrow> ''SetpointW'' | CeilingW \<Rightarrow> ''CeilingW''
     | Connect \<Rightarrow> ''Connect'' | MaxCurrentA \<Rightarrow> ''MaxCurrentA'' | FixedPF \<Rightarrow> ''FixedPF''
     | FixedVarPct \<Rightarrow> ''FixedVarPct'' | Energize \<Rightarrow> ''Energize'' | AdvContent \<Rightarrow> ''AdvContent'')"

definition ReportKind_String :: "ReportKind \<Rightarrow> string" where
  "ReportKind_String k = (case k of ReportNonConvergedBegin \<Rightarrow> ''NonConvergedBegin''
     | ReportNonConvergedEnd \<Rightarrow> ''NonConvergedEnd'' | ReportStaleDesired \<Rightarrow> ''StaleDesired''
     | ReportRejectedDoc \<Rightarrow> ''RejectedDoc'' | ReportRejectedObs \<Rightarrow> ''RejectedObs''
     | ReportSeqReset \<Rightarrow> ''SeqReset'' | ReportInterlockHold \<Rightarrow> ''InterlockHold''
     | ReportAdoptState \<Rightarrow> ''AdoptState'')"

definition RejectReason_String :: "RejectReason \<Rightarrow> string" where
  "RejectReason_String r = (case r of RejectNone \<Rightarrow> ''None''
     | RejectSeqRegression \<Rightarrow> ''SeqRegression'' | RejectStale \<Rightarrow> ''Stale'' | RejectNaN \<Rightarrow> ''NaN'')"

record Report =
  rep_Kind :: ReportKind
  rep_DeviceClass :: string
  rep_DeviceID :: string
  rep_MRID :: string
  rep_Seq :: uint64
  rep_IssuedAt :: int64
  rep_Episode :: uint64
  rep_Reject :: RejectReason
  rep_At :: gotime

text \<open>The fields of \<open>bus.DesiredState\<close> the reconciler reads.\<close>

record DesiredState =
  doc_SetpointW :: "f64 option"
  doc_CeilingW :: "f64 option"
  doc_Connect :: "bool option"
  doc_MaxCurrentA :: "f64 option"
  doc_MRID :: string
  doc_IssuedAt :: int64
  doc_Seq :: uint64

record DocMeta =
  meta_MRID :: string
  meta_Seq :: uint64
  meta_IssuedAt :: int64

record Observed =
  Read :: fields
  Connected :: bool
  At :: gotime
  Plausible :: bool

text \<open>The zero value of \<open>Observed\<close>.\<close>

definition zero_observed :: Observed where
  "zero_observed = \<lparr>Read = Map.empty, Connected = False, At = zero_time, Plausible = False\<rparr>"

record Config =
  ReadbackTolerance :: fields
  ConvergeTimeout :: duration
  RetryBackoff :: "duration list"
  StaleAfter :: duration
  ReassertEvery :: duration

record Reconciler =
  cfg :: Config
  dev_class :: string
  deviceID :: string
  desired :: "DesiredState option"
  desiredFields :: fields
  lastAppliedSeq :: uint64
  lastAppliedIssuedAt :: int64
  haveApplied :: bool
  lastRead :: Observed
  lastWritten :: fields
  converged :: bool
  divergentSince :: gotime
  inEpisode :: bool
  episodeCounter :: uint64
  writeAttempts :: nat
  lastWriteAt :: gotime
  lastDocAt :: gotime
  staleReported :: bool
  lastReassertAt :: gotime

section \<open>Configuration\<close>

definition DefaultConvergeTimeout :: duration where
  "DefaultConvergeTimeout = 60 * second"

definition DefaultStaleAfter :: duration where
  "DefaultStaleAfter = 300 * second"

definition DefaultRetryBackoff :: "duration list" where
  "DefaultRetryBackoff = [2 * second, 5 * second, 15 * second, 30 * second]"

definition defaultPowerTolerance :: f64 where
  "defaultPowerTolerance = Fin 1"

definition defaultConnectTolerance :: f64 where
  "defaultConnectTolerance = Fin (1 / 2)"

definition defaultPFTolerance :: f64 where
  "defaultPFTolerance = fl (5 / 1000)"

definition withDefaults :: "Config \<Rightarrow> Config" where
  "withDefaults c = c\<lparr>
     ConvergeTimeout := (if ConvergeTimeout c \<le> 0 then DefaultConvergeTimeout else ConvergeTimeout c),
     StaleAfter := (if StaleAfter c \<le> 0 then DefaultStaleAfter else StaleAfter c),
     RetryBackoff := (if RetryBackoff c = [] then DefaultRetryBackoff else RetryBackoff c),
     ReassertEvery := (if ReassertEvery c < 0 then 0 else ReassertEvery c)\<rparr>"

definition New :: "string \<Rightarrow> string \<Rightarrow> Config \<Rightarrow> Reconciler" where
  "New cls dev c = \<lparr>cfg = withDefaults c, dev_class = cls, deviceID = dev, desired = None,
     desiredFields = Map.empty, lastAppliedSeq = 0, lastAppliedIssuedAt = 0, haveApplied = False,
     lastRead = zero_observed, lastWritten = Map.empty, converged = False, divergentSince = zero_time,
     inEpisode = False, episodeCounter = 0, writeAttempts = 0, lastWriteAt = zero_time,
     lastDocAt = zero_time, staleReported = False, lastReassertAt = zero_time\<rparr>"

section \<open>Helpers\<close>

definition none :: Action where
  "none = \<lparr>Kind = ActionNone, Fields = Map.empty, Reason = ''''\<rparr>"

definition report :: "Reconciler \<Rightarrow> ReportKind \<Rightarrow> gotime \<Rightarrow> Report" where
  "report r kind now =
     \<lparr>rep_Kind = kind, rep_DeviceClass = dev_class r, rep_DeviceID = deviceID r,
      rep_MRID = (case desired r of None \<Rightarrow> '''' | Some d \<Rightarrow> doc_MRID d),
      rep_Seq = (case desired r of None \<Rightarrow> 0 | Some d \<Rightarrow> doc_Seq d),
      rep_IssuedAt = (case desired r of None \<Rightarrow> 0 | Some d \<Rightarrow> doc_IssuedAt d),
      rep_Episode = episodeCounter r, rep_Reject = RejectNone, rep_At = now\<rparr>"

definition rejectReport :: "Reconciler \<Rightarrow> DesiredState \<Rightarrow> RejectReason \<Rightarrow> gotime \<Rightarrow> Report" where
  "rejectReport r doc why now =
     \<lparr>rep_Kind = ReportRejectedDoc, rep_DeviceClass = dev_class r, rep_DeviceID = deviceID r,
      rep_MRID = doc_MRID doc, rep_Seq = doc_Seq doc, rep_IssuedAt = doc_IssuedAt doc,
      rep_Episode = episodeCounter r, rep_Reject = why, rep_At = now\<rparr>"

definition fieldsOf :: "DesiredState \<Rightarrow> fields" where
  "fieldsOf d = (\<lambda>f. case f of
       SetpointW \<Rightarrow> doc_SetpointW d
     | CeilingW \<Rightarrow> doc_CeilingW d
     | Connect \<Rightarrow> map_option (\<lambda>b. if b then Fin 1 else Fin 0) (doc_Connect d)
     | MaxCurrentA \<Rightarrow> doc_MaxCurrentA d
     | _ \<Rightarrow> None)"

definition docHasNaN :: "DesiredState \<Rightarrow> bool" where
  "docHasNaN d \<longleftrightarrow>
     (\<exists>p \<in> set [doc_SetpointW d, doc_CeilingW d, doc_MaxCurrentA d].
        case p of None \<Rightarrow> False | Some v \<Rightarrow> nan_or_inf v)"

definition fieldsHaveNaN :: "fields \<Rightarrow> bool" where
  "fieldsHaveNaN m \<longleftrightarrow> list_ex (\<lambda>f. case m f of None \<Rightarrow> False | Some v \<Rightarrow> nan_or_inf v) all_fields"

definition map_len :: "fields \<Rightarrow> nat" where
  "map_len m = length (filter (\<lambda>f. m f \<noteq> None) all_fields)"

definition fieldsEqual :: "fields \<Rightarrow> fields \<Rightarrow> bool" where
  "fieldsEqual a b \<longleftrightarrow> map_len a = map_len b \<and>
     list_all (\<lambda>f. case a f of None \<Rightarrow> True
                 | Some v \<Rightarrow> (case b f of None \<Rightarrow> False | Some w \<Rightarrow> feq v w)) all_fields"

definition tolerance :: "Reconciler \<Rightarrow> Field \<Rightarrow> f64" where
  "tolerance r f =
     (case ReadbackTolerance (cfg r) f of Some v \<Rightarrow> v
      | None \<Rightarrow> if f = Connect \<or> f = Energize \<or> f = AdvContent then defaultConnectTolerance
                else if f = FixedPF then defaultPFTolerance
                else defaultPowerTolerance)"

text \<open>\<open>matches\<close>: one pass over the desired keys for completeness, then one for tolerance;
  \<open>ks\<close> is the order in which the runtime visits the keys.\<close>

fun all_present :: "Field list \<Rightarrow> fields \<Rightarrow> bool" where
  "all_present [] rd = True"
| "all_present (f # fs) rd = (if rd f = None then False else all_present fs rd)"

fun all_within :: "Reconciler \<Rightarrow> Field list \<Rightarrow> fields \<Rightarrow> bool" where
  "all_within r [] rd = True"
| "all_within r (f # fs) rd =
     (if flt (tolerance r f) (fabs (fsub (the (rd f)) (the (desiredFields r f)))) then False
      else all_within r fs rd)"

definition matches_in :: "Field list \<Rightarrow> Reconciler \<Rightarrow> fields \<Rightarrow> bool \<times> bool" where
  "matches_in ks r rd =
     (if \<not> all_present ks rd then (False, False)
      else if \<not> all_within r ks rd then (False, True)
      else (True, True))"

definition keys :: "fields \<Rightarrow> Field list" where
  "keys m = filter (\<lambda>f. m f \<noteq> None) all_fields"

definition matches :: "Reconciler \<Rightarrow> fields \<Rightarrow> bool \<times> bool" where
  "matches r rd = matches_in (keys (desiredFields r)) r rd"

definition backoff_index :: "Reconciler \<Rightarrow> nat" where
  "backoff_index r =
     (let idx = writeAttempts r - 1; n = length (RetryBackoff (cfg r))
      in if n \<le> idx then n - 1 else idx)"

definition backoffReady :: "Reconciler \<Rightarrow> gotime \<Rightarrow> bool" where
  "backoffReady r now \<longleftrightarrow>
     (if writeAttempts r = 0 then True
      else RetryBackoff (cfg r) ! backoff_index r \<le> time_sub now (lastWriteAt r))"

definition writeAction :: "string \<Rightarrow> gotime \<Rightarrow> Reconciler \<Rightarrow> Action \<times> Reconciler" where
  "writeAction reason now r =
     (\<lparr>Kind = ActionWrite, Fields = desiredFields r, Reason = reason\<rparr>,
      r\<lparr>lastWriteAt := now, lastReassertAt := now, writeAttempts := Suc (writeAttempts r),
        lastWritten := desiredFields r\<rparr>)"

definition checkEpisodeBegin :: "gotime \<Rightarrow> Reconciler \<Rightarrow> Report list \<times> Reconciler" where
  "checkEpisodeBegin now r =
     (if \<not> is_zero_time (divergentSince r) \<and> \<not> inEpisode r \<and>
         ConvergeTimeout (cfg r) \<le> time_sub now (divergentSince r)
      then let r = r\<lparr>inEpisode := True, episodeCounter := episodeCounter r + 1\<rparr>
           in ([report r ReportNonConvergedBegin now], r)
      else ([], r))"

section \<open>Input events\<close>

type_synonym result = "(Action \<times> Report list) \<times> Reconciler"

datatype Gate = Accept bool | Refuse RejectReason

text \<open>The AD-013 acceptance gate of \<open>setDesiredCore\<close>; \<open>Accept True\<close> is a sequence
  reset.\<close>

definition gate :: "Reconciler \<Rightarrow> DesiredState \<Rightarrow> gotime \<Rightarrow> Gate" where
  "gate r doc now =
     (if go_div (StaleAfter (cfg r)) second < wrap64 (time_unix now - doc_IssuedAt doc)
      then Refuse RejectStale
      else if \<not> haveApplied r then Accept False
      else if lastAppliedSeq r < doc_Seq doc then Accept False
      else if lastAppliedIssuedAt r < doc_IssuedAt doc then Accept True
      else Refuse RejectSeqRegression)"

definition adopt :: "DesiredState \<Rightarrow> fields \<Rightarrow> gotime \<Rightarrow> Reconciler \<Rightarrow> Reconciler" where
  "adopt doc flds now r =
     r\<lparr>desired := Some doc, desiredFields := flds, lastAppliedSeq := doc_Seq doc,
       lastAppliedIssuedAt := doc_IssuedAt doc, haveApplied := True, lastDocAt := now,
       staleReported := False\<rparr>"

definition closeEpisode :: "gotime \<Rightarrow> Reconciler \<Rightarrow> Report list \<times> Reconciler" where
  "closeEpisode now r =
     (if inEpisode r
      then let r = r\<lparr>inEpisode := False\<rparr> in ([report r ReportNonConvergedEnd now], r)
      else ([], r))"

definition setDesiredCore :: "DesiredState \<Rightarrow> fields \<Rightarrow> gotime \<Rightarrow> Reconciler \<Rightarrow> result" where
  "setDesiredCore doc flds now r =
     (case gate r doc now of
        Refuse why \<Rightarrow> ((none, [rejectReport r doc why now]), r)
      | Accept seqReset \<Rightarrow>
          let prevFields = desiredFields r;
              r = adopt doc flds now r;
              reports = (if seqReset then [report r ReportSeqReset now] else [])
          in if fieldsEqual prevFields (desiredFields r) then ((none, reports), r)
             else let (ends, r) = closeEpisode now r;
                      r = r\<lparr>divergentSince := zero_time, converged := False, writeAttempts := 0\<rparr>;
                      (a, r) = writeAction ''new-desired'' now r
                  in ((a, reports @ ends), r))"

definition SetDesired :: "DesiredState \<Rightarrow> gotime \<Rightarrow> Reconciler \<Rightarrow> result" where
  "SetDesired doc now r =
     (if docHasNaN doc then ((none, [rejectReport r doc RejectNaN now]), r)
      else setDesiredCore doc (fieldsOf doc) now r)"

definition SetDesiredFields :: "DocMeta \<Rightarrow> fields \<Rightarrow> gotime \<Rightarrow> Reconciler \<Rightarrow> result" where
  "SetDesiredFields meta flds now r =
     (let doc = \<lparr>doc_SetpointW = None, doc_CeilingW = None, doc_Connect = None,
                 doc_MaxCurrentA = None, doc_MRID = meta_MRID meta,
                 doc_IssuedAt = meta_IssuedAt meta, doc_Seq = meta_Seq meta\<rparr>
      in if fieldsHaveNaN flds then ((none, [rejectReport r doc RejectNaN now]), r)
         else setDesiredCore doc flds now r)"

definition Observe :: "Observed \<Rightarrow> gotime \<Rightarrow> Reconciler \<Rightarrow> result" where
  "Observe ob now r =
     (if fieldsHaveNaN (Read ob)
      then ((none, [(report r ReportRejectedObs now)\<lparr>rep_Reject := RejectNaN\<rparr>]), r)
      else let r = r\<lparr>lastRead := ob\<rparr> in
        if desired r = None then ((none, []), r)
        else if \<not> Connected ob \<or> \<not> Plausible ob then ((none, []), r)
        else let (ok, complete) = matches r (Read ob) in
          if \<not> complete then ((none, []), r)
          else if ok then
            if \<not> is_zero_time (divergentSince r) then
              let r = r\<lparr>divergentSince := zero_time, writeAttempts := 0\<rparr>;
                  (reports, r) = closeEpisode now r
              in ((none, reports), r\<lparr>converged := True\<rparr>)
            else ((none, []), r\<lparr>converged := True\<rparr>)
          else
            let r = r\<lparr>converged := False\<rparr>;
                r = (if is_zero_time (divergentSince r)
                     then r\<lparr>divergentSince := now, writeAttempts := 0\<rparr> else r);
                (reports, r) = checkEpisodeBegin now r
            in if backoffReady r now
               then let (a, r) = writeAction ''write-on-diff'' now r in ((a, reports), r)
               else ((none, reports), r))"

definition Reconnected :: "gotime \<Rightarrow> Reconciler \<Rightarrow> result" where
  "Reconnected now r =
     (if desired r = None then ((none, []), r)
      else let r = r\<lparr>converged := False\<rparr>;
               r = (if is_zero_time (divergentSince r) then r\<lparr>writeAttempts := 0\<rparr> else r);
               (a, r) = writeAction ''reconnect-reassert'' now r
           in ((a, []), r))"

definition checkStale :: "gotime \<Rightarrow> Reconciler \<Rightarrow> Report list \<times> Reconciler" where
  "checkStale now r =
     (if \<not> is_zero_time (lastDocAt r) \<and> \<not> staleReported r \<and>
         StaleAfter (cfg r) \<le> time_sub now (lastDocAt r)
      then let r = r\<lparr>staleReported := True\<rparr> in ([report r ReportStaleDesired now], r)
      else ([], r))"

definition reassertDue :: "gotime \<Rightarrow> Reconciler \<Rightarrow> bool" where
  "reassertDue now r \<longleftrightarrow> 0 < ReassertEvery (cfg r) \<and> is_zero_time (divergentSince r) \<and>
     \<not> is_zero_time (lastReassertAt r) \<and>
     ReassertEvery (cfg r) \<le> time_sub now (lastReassertAt r)"

definition Tick :: "gotime \<Rightarrow> Reconciler \<Rightarrow> result" where
  "Tick now r =
     (if desired r = None then ((none, []), r)
      else let (stale, r) = checkStale now r;
               (begins, r) = checkEpisodeBegin now r;
               reports = stale @ begins
           in if \<not> is_zero_time (divergentSince r) \<and> backoffReady r now
              then let (a, r) = writeAction ''retry'' now r in ((a, reports), r)
              else if reassertDue now r
              then let (a, r) = writeAction ''reassert'' now r in ((a, reports), r)
              else ((none, reports), r))"

definition Episode :: "Reconciler \<Rightarrow> uint64" where
  "Episode r = episodeCounter r"

text \<open>The two document-level reasons for refusal, as the gate reads them.\<close>

definition doc_stale :: "Reconciler \<Rightarrow> DesiredState \<Rightarrow> gotime \<Rightarrow> bool" where
  "doc_stale r doc now \<longleftrightarrow>
     go_div (StaleAfter (cfg r)) second < wrap64 (time_unix now - doc_IssuedAt doc)"

definition doc_replay :: "Reconciler \<Rightarrow> DesiredState \<Rightarrow> bool" where
  "doc_replay r doc \<longleftrightarrow> haveApplied r \<and> doc_Seq doc \<le> lastAppliedSeq r \<and>
     doc_IssuedAt doc \<le> lastAppliedIssuedAt r"

section \<open>Runs\<close>

datatype event = EvDesired DesiredState | EvFields DocMeta fields | EvObserve Observed
  | EvReconnected | EvTick

fun apply_event :: "event \<Rightarrow> gotime \<Rightarrow> Reconciler \<Rightarrow> result" where
  "apply_event (EvDesired doc) now r = SetDesired doc now r"
| "apply_event (EvFields meta flds) now r = SetDesiredFields meta flds now r"
| "apply_event (EvObserve ob) now r = Observe ob now r"
| "apply_event EvReconnected now r = Reconnected now r"
| "apply_event EvTick now r = Tick now r"

text \<open>\<open>run r0 reps acts r\<close>: some sequence of events leads from \<open>r0\<close> to \<open>r\<close>, with these
  reports and actions in order. No order is imposed on the clock values.\<close>

inductive run :: "Reconciler \<Rightarrow> Report list \<Rightarrow> Action list \<Rightarrow> Reconciler \<Rightarrow> bool" for r0 where
  run_start: "run r0 [] [] r0"
| run_step: "run r0 reps acts r \<Longrightarrow> apply_event e now r = ((a, rs), r') \<Longrightarrow>
    run r0 (reps @ rs) (acts @ [a]) r'"

inductive_cases run_initE: "run r0 reps acts r"

lemmas event_defs = SetDesired_def SetDesiredFields_def setDesiredCore_def Observe_def
  Reconnected_def Tick_def writeAction_def closeEpisode_def checkEpisodeBegin_def adopt_def
  report_def rejectReport_def none_def

section \<open>Episodes\<close>

text \<open>The non-convergence edges of a report list, with their episode numbers.\<close>

definition edges :: "Report list \<Rightarrow> (ReportKind \<times> uint64) list" where
  "edges reps = map (\<lambda>p. (rep_Kind p, rep_Episode p))
     (filter (\<lambda>p. rep_Kind p = ReportNonConvergedBegin \<or> rep_Kind p = ReportNonConvergedEnd) reps)"

text \<open>Complete episodes \<open>1 \<dots> n\<close>, each a begin and an end with the same number.\<close>

fun paired :: "nat \<Rightarrow> (ReportKind \<times> uint64) list" where
  "paired 0 = []"
| "paired (Suc n) = paired n @ [(ReportNonConvergedBegin, of_nat (Suc n)), (ReportNonConvergedEnd, of_nat (Suc n))]"

definition expected_edges :: "nat \<Rightarrow> bool \<Rightarrow> (ReportKind \<times> uint64) list" where
  "expected_edges n op =
     (if op then paired (n - 1) @ [(ReportNonConvergedBegin, of_nat n)] else paired n)"

definition episode_step :: "Reconciler \<Rightarrow> Report list \<Rightarrow> Reconciler \<Rightarrow> bool" where
  "episode_step r rs r' \<longleftrightarrow>
     (edges rs = [] \<and> episodeCounter r' = episodeCounter r \<and> inEpisode r' = inEpisode r) \<or>
     (edges rs = [(ReportNonConvergedEnd, episodeCounter r)] \<and> inEpisode r \<and> \<not> inEpisode r' \<and>
        episodeCounter r' = episodeCounter r) \<or>
     (edges rs = [(ReportNonConvergedBegin, episodeCounter r + 1)] \<and> \<not> inEpisode r \<and>
        inEpisode r' \<and> episodeCounter r' = episodeCounter r + 1)"

lemma episode_step_core:
  "setDesiredCore doc flds now r = ((a, rs), r') \<Longrightarrow> episode_step r rs r'"
  by (auto simp: setDesiredCore_def writeAction_def closeEpisode_def adopt_def report_def
      rejectReport_def episode_step_def edges_def Let_def split: Gate.splits if_splits)

lemma episode_step_observe: "Observe ob now r = ((a, rs), r') \<Longrightarrow> episode_step r rs r'"
  by (auto simp: Observe_def writeAction_def closeEpisode_def checkEpisodeBegin_def report_def
      episode_step_def edges_def Let_def split: prod.splits if_splits)

lemma writeAction_snd [simp]:
  "episodeCounter (snd (writeAction w now r)) = episodeCounter r"
  "inEpisode (snd (writeAction w now r)) = inEpisode r"
  "desired (snd (writeAction w now r)) = desired r"
  "desiredFields (snd (writeAction w now r)) = desiredFields r"
  "cfg (snd (writeAction w now r)) = cfg r"
  by (simp_all add: writeAction_def)

lemma writeAction_fst [simp]:
  "Kind (fst (writeAction w now r)) = ActionWrite"
  "Fields (fst (writeAction w now r)) = desiredFields r"
  "Reason (fst (writeAction w now r)) = w"
  by (simp_all add: writeAction_def)

lemma checkEpisodeBegin_step: "checkEpisodeBegin now r = (rs, r') \<Longrightarrow> episode_step r rs r'"
  by (auto simp: checkEpisodeBegin_def episode_step_def edges_def report_def Let_def split: if_splits)

lemma checkStale_step:
  "checkStale now r = (rs, r') \<Longrightarrow> edges rs = [] \<and> episodeCounter r' = episodeCounter r \<and>
     inEpisode r' = inEpisode r \<and> desired r' = desired r \<and> desiredFields r' = desiredFields r"
  by (auto simp: checkStale_def edges_def report_def Let_def split: if_splits)

text \<open>What a tick does once its two report checks have run.\<close>

lemma tick_cases:
  assumes "Tick now r = ((a, rs), r')" and "desired r \<noteq> None"
  obtains st r1 bg r2 where "checkStale now r = (st, r1)" and "checkEpisodeBegin now r1 = (bg, r2)"
    and "rs = st @ bg"
    and "(a, r') = writeAction ''retry'' now r2 \<and> \<not> is_zero_time (divergentSince r2) \<and> backoffReady r2 now \<or>
         (a, r') = writeAction ''reassert'' now r2 \<and> reassertDue now r2 \<or> (a, r') = (none, r2)"
proof -
  obtain st r1 where s: "checkStale now r = (st, r1)" by force
  obtain bg r2 where b: "checkEpisodeBegin now r1 = (bg, r2)" by force
  show thesis
    by (rule that [OF s b])
      (use assms in \<open>auto simp: Tick_def s b Let_def split: prod.splits if_splits\<close>)
qed

lemma episode_step_tick:
  assumes t: "Tick now r = ((a, rs), r')"
  shows "episode_step r rs r'"
proof (cases "desired r = None")
  case True
  with t show ?thesis by (simp add: Tick_def episode_step_def edges_def)
next
  case False
  then obtain st r1 bg r2 where c: "checkStale now r = (st, r1)" "checkEpisodeBegin now r1 = (bg, r2)"
    "rs = st @ bg" and "(a, r') = writeAction ''retry'' now r2 \<and> \<not> is_zero_time (divergentSince r2) \<and> backoffReady r2 now \<or>
         (a, r') = writeAction ''reassert'' now r2 \<and> reassertDue now r2 \<or> (a, r') = (none, r2)"
    by (rule tick_cases [OF t])
  then have "episodeCounter r' = episodeCounter r2 \<and> inEpisode r' = inEpisode r2"
    by (metis snd_conv writeAction_snd(1,2))
  with checkStale_step [OF c(1)] checkEpisodeBegin_step [OF c(2)] show ?thesis
    by (auto simp: episode_step_def c(3) edges_def)
qed

lemma episode_step_event:
  assumes "apply_event e now r = ((a, rs), r')"
  shows "episode_step r rs r'"
proof (cases e)
  case (EvDesired doc)
  with assms show ?thesis using episode_step_core [of doc "fieldsOf doc" now r a rs r']
    by (auto simp: SetDesired_def rejectReport_def episode_step_def edges_def split: if_splits)
next
  case (EvFields m flds)
  with assms show ?thesis using episode_step_core [of _ flds now r a rs r']
    by (auto simp: SetDesiredFields_def Let_def rejectReport_def episode_step_def edges_def split: if_splits)
next
  case (EvObserve ob)
  with assms show ?thesis using episode_step_observe by simp
next
  case EvReconnected
  with assms show ?thesis
    by (auto simp: Reconnected_def writeAction_def episode_step_def edges_def Let_def split: if_splits)
next
  case EvTick
  with assms show ?thesis using episode_step_tick by simp
qed

definition episode_inv :: "nat \<Rightarrow> Report list \<Rightarrow> Reconciler \<Rightarrow> bool" where
  "episode_inv n reps r \<longleftrightarrow> episodeCounter r = of_nat n \<and> (inEpisode r \<longrightarrow> 0 < n) \<and>
     edges reps = expected_edges n (inEpisode r)"

lemma edges_append [simp]: "edges (xs @ ys) = edges xs @ edges ys"
  by (simp add: edges_def)

lemma episode_inv_step:
  assumes "episode_inv n reps r" and "episode_step r rs r'"
  shows "\<exists>m. episode_inv m (reps @ rs) r'"
  using assms(2) unfolding episode_step_def
proof (elim disjE conjE)
  assume "edges rs = [(ReportNonConvergedBegin, episodeCounter r + 1)]" "\<not> inEpisode r"
    "inEpisode r'" "episodeCounter r' = episodeCounter r + 1"
  with assms(1) have "episode_inv (Suc n) (reps @ rs) r'"
    by (simp add: episode_inv_def expected_edges_def)
  then show ?thesis by blast
next
  assume "edges rs = [(ReportNonConvergedEnd, episodeCounter r)]" "inEpisode r" "\<not> inEpisode r'"
    "episodeCounter r' = episodeCounter r"
  with assms(1) have "episode_inv n (reps @ rs) r'"
    by (cases n) (simp_all add: episode_inv_def expected_edges_def)
  then show ?thesis by blast
next
  assume "edges rs = []" "episodeCounter r' = episodeCounter r" "inEpisode r' = inEpisode r"
  with assms(1) have "episode_inv n (reps @ rs) r'" by (simp add: episode_inv_def)
  then show ?thesis by blast
qed

lemma episode_inv_run:
  "run (New cls dev c) reps acts r \<Longrightarrow> \<exists>n. episode_inv n reps r"
proof (induction rule: run.induct)
  case run_start
  have "episode_inv 0 [] (New cls dev c)"
    by (simp add: episode_inv_def New_def edges_def expected_edges_def)
  then show ?case by blast
next
  case (run_step reps acts r e now a rs r')
  then show ?case using episode_inv_step episode_step_event by blast
qed

section \<open>Invariants of a run\<close>

lemma withDefaults_backoff [simp]: "RetryBackoff (withDefaults c) \<noteq> []"
  by (simp add: withDefaults_def DefaultRetryBackoff_def)

lemma checkEpisodeBegin_same:
  "checkEpisodeBegin now r = (rs, r') \<Longrightarrow> desired r' = desired r \<and> desiredFields r' = desiredFields r \<and>
     cfg r' = cfg r \<and> writeAttempts r' = writeAttempts r \<and> lastWriteAt r' = lastWriteAt r \<and>
     divergentSince r' = divergentSince r"
  by (auto simp: checkEpisodeBegin_def Let_def split: if_splits)

lemma checkStale_same:
  "checkStale now r = (rs, r') \<Longrightarrow> cfg r' = cfg r \<and> writeAttempts r' = writeAttempts r \<and>
     lastWriteAt r' = lastWriteAt r \<and> divergentSince r' = divergentSince r"
  by (auto simp: checkStale_def Let_def split: if_splits)

lemma closeEpisode_same:
  "closeEpisode now r = (rs, r') \<Longrightarrow> desired r' = desired r \<and> desiredFields r' = desiredFields r \<and>
     cfg r' = cfg r"
  by (auto simp: closeEpisode_def Let_def split: if_splits)

text \<open>What \<open>Observe\<close> does with an assessable, diverged sample.\<close>

definition mark_diverged :: "gotime \<Rightarrow> Observed \<Rightarrow> Reconciler \<Rightarrow> Reconciler" where
  "mark_diverged now ob r =
     (let r = r\<lparr>lastRead := ob, converged := False\<rparr>
      in if is_zero_time (divergentSince r) then r\<lparr>divergentSince := now, writeAttempts := 0\<rparr> else r)"

lemma mark_diverged_same [simp]:
  "desired (mark_diverged now ob r) = desired r"
  "desiredFields (mark_diverged now ob r) = desiredFields r"
  "cfg (mark_diverged now ob r) = cfg r"
  "lastWriteAt (mark_diverged now ob r) = lastWriteAt r"
  by (simp_all add: mark_diverged_def Let_def)

lemma mark_diverged_attempts:
  "is_zero_time (divergentSince r) \<or> writeAttempts (mark_diverged now ob r) = writeAttempts r"
  by (simp add: mark_diverged_def Let_def)

lemma observe_cases:
  assumes "Observe ob now r = ((a, rs), r')"
  obtains (quiet) "a = none" "desired r' = desired r" "desiredFields r' = desiredFields r" "cfg r' = cfg r"
  | (corrective) bg r2 where "checkEpisodeBegin now (mark_diverged now ob r) = (bg, r2)" "rs = bg"
      "backoffReady r2 now" "(a, r') = writeAction ''write-on-diff'' now r2" "desired r \<noteq> None"
proof -
  obtain bg r2 where b: "checkEpisodeBegin now (mark_diverged now ob r) = (bg, r2)" by force
  obtain ok cm where m: "matches (r\<lparr>lastRead := ob\<rparr>) (Read ob) = (ok, cm)" by force
  note s = checkEpisodeBegin_same [OF b]
  have b': "checkEpisodeBegin now (if divergentSince r = 0
        then r\<lparr>lastRead := ob, converged := False, divergentSince := now, writeAttempts := 0\<rparr>
        else r\<lparr>lastRead := ob, converged := False\<rparr>) = (bg, r2)"
    using b by (simp add: mark_diverged_def Let_def is_zero_time_def)
  consider "fieldsHaveNaN (Read ob) \<or> desired r = None \<or> \<not> Connected ob \<or> \<not> Plausible ob \<or> \<not> cm"
    | "\<not> fieldsHaveNaN (Read ob)" "desired r \<noteq> None" "Connected ob" "Plausible ob" "cm" "ok"
    | "\<not> fieldsHaveNaN (Read ob)" "desired r \<noteq> None" "Connected ob" "Plausible ob" "cm" "\<not> ok"
    by blast
  then show thesis
  proof cases
    case 1
    then show ?thesis using assms m by (intro quiet) (auto simp: Observe_def Let_def split: if_splits)
  next
    case 2
    then show ?thesis using assms m
      by (intro quiet) (auto simp: Observe_def closeEpisode_def Let_def split: if_splits)
  next
    case 3
    note d = assms [unfolded Observe_def Let_def, simplified m 3 if_False if_True prod.case]
    show ?thesis
    proof (cases "backoffReady r2 now")
      case True
      then show ?thesis using d 3 m b b'
        by (intro corrective [OF b]) (auto simp: is_zero_time_def split: prod.splits)
    next
      case False
      then show ?thesis using d 3 m b b' s
        by (intro quiet) (auto simp: is_zero_time_def)
    qed
  qed
qed

lemma fieldsOf_clean: "\<not> docHasNaN doc \<Longrightarrow> \<not> fieldsHaveNaN (fieldsOf doc)"
  by (auto simp: docHasNaN_def fieldsHaveNaN_def fieldsOf_def all_fields_def split: option.splits)

lemma fieldsHaveNaN_iff: "fieldsHaveNaN m \<longleftrightarrow> (\<exists>f v. m f = Some v \<and> nan_or_inf v)"
  by (auto simp: fieldsHaveNaN_def list_ex_iff split: option.splits)

text \<open>The fields an action writes are the standing intent, which is free of NaN and infinities.\<close>

definition sound_step :: "Reconciler \<Rightarrow> Action \<Rightarrow> Reconciler \<Rightarrow> bool" where
  "sound_step r a r' \<longleftrightarrow> cfg r' = cfg r \<and>
     (\<not> fieldsHaveNaN (desiredFields r) \<longrightarrow> \<not> fieldsHaveNaN (desiredFields r')) \<and>
     (Kind a = ActionWrite \<longrightarrow> Fields a = desiredFields r' \<and> desired r' \<noteq> None)"

lemma none_kind [simp]: "Kind none = ActionNone"
  by (simp add: none_def)

lemma sound_core:
  assumes "setDesiredCore doc flds now r = ((a, rs), r')" and "\<not> fieldsHaveNaN flds"
  shows "sound_step r a r'"
  using assms by (auto simp: setDesiredCore_def sound_step_def Let_def adopt_def writeAction_def
      closeEpisode_def split: Gate.splits if_splits)

lemma sound_event:
  assumes "apply_event e now r = ((a, rs), r')"
  shows "sound_step r a r'"
proof (cases e)
  case (EvDesired doc)
  with assms show ?thesis
    using sound_core [of doc "fieldsOf doc" now r a rs r'] fieldsOf_clean [of doc]
    by (auto simp: SetDesired_def sound_step_def split: if_splits)
next
  case (EvFields m flds)
  with assms show ?thesis using sound_core [of _ flds now r a rs r']
    by (auto simp: SetDesiredFields_def Let_def sound_step_def split: if_splits)
next
  case (EvObserve ob)
  with assms have "Observe ob now r = ((a, rs), r')" by simp
  then show ?thesis
  proof (cases rule: observe_cases)
    case quiet
    then show ?thesis by (simp add: sound_step_def)
  next
    case (corrective bg r2)
    then show ?thesis using checkEpisodeBegin_same [OF corrective(1)]
      by (auto simp: sound_step_def writeAction_def)
  qed
next
  case EvReconnected
  with assms show ?thesis
    by (auto simp: Reconnected_def writeAction_def sound_step_def Let_def split: if_splits)
next
  case EvTick
  show ?thesis
  proof (cases "desired r = None")
    case True
    with assms EvTick show ?thesis by (simp add: Tick_def sound_step_def)
  next
    case False
    with assms EvTick obtain st r1 bg r2 where c: "checkStale now r = (st, r1)"
      "checkEpisodeBegin now r1 = (bg, r2)" and w: "(a, r') = writeAction ''retry'' now r2 \<or>
         (a, r') = writeAction ''reassert'' now r2 \<or> (a, r') = (none, r2)"
      using tick_cases [of now r a rs r'] by (metis apply_event.simps(5))
    show ?thesis using w checkStale_step [OF c(1)] checkStale_same [OF c(1)]
        checkEpisodeBegin_same [OF c(2)] False
      by (auto simp: sound_step_def writeAction_def)
  qed
qed

lemma run_sound:
  "run (New cls dev c) reps acts r \<Longrightarrow> cfg r = withDefaults c \<and> \<not> fieldsHaveNaN (desiredFields r) \<and>
     (\<forall>a \<in> set acts. Kind a = ActionWrite \<longrightarrow> \<not> fieldsHaveNaN (Fields a))"
proof (induction rule: run.induct)
  case run_start
  show ?case by (simp add: New_def fieldsHaveNaN_iff)
next
  case (run_step reps acts r e now a rs r')
  with sound_event [OF run_step.hyps(2)] show ?case by (auto simp: sound_step_def)
qed

section \<open>Completeness, tolerance and iteration order\<close>

lemma all_present_iff: "all_present ks rd \<longleftrightarrow> (\<forall>f \<in> set ks. rd f \<noteq> None)"
  by (induction ks) auto

lemma all_within_iff:
  "all_within r ks rd \<longleftrightarrow> (\<forall>f \<in> set ks.
     \<not> flt (tolerance r f) (fabs (fsub (the (rd f)) (the (desiredFields r f)))))"
  by (induction ks) auto

lemma matches_in_set_cong: "set ks = set ks' \<Longrightarrow> matches_in ks r rd = matches_in ks' r rd"
  by (simp add: matches_in_def all_present_iff all_within_iff)

lemma keys_set [simp]: "set (keys m) = dom m"
  by (auto simp: keys_def)

lemma gate_accepts:
  "\<not> doc_stale r doc now \<Longrightarrow> \<not> doc_replay r doc \<Longrightarrow> \<exists>sr. gate r doc now = Accept sr"
  by (simp add: doc_stale_def doc_replay_def gate_def not_le) (metis not_less)

section \<open>Properties\<close>

text \<open>
  The AD-013 acceptance gate. A document is refused exactly when it carries a NaN
  or infinite opinion, is older than the staleness bound, or is a replay (neither its sequence
  number nor its issue time is newer than the last applied one); a refusal writes nothing,
  changes no state and is reported once, against the refused document. An accepted document
  becomes the standing intent and the new baseline, is written at once when its fields differ
  from the standing ones, and is then itself refused as a replay.
\<close>

theorem desired_gate:
  "case SetDesired doc now r of ((a, rs), r') \<Rightarrow>
    if docHasNaN doc \<or> doc_stale r doc now \<or> doc_replay r doc
    then a = none \<and> r' = r \<and> (\<exists>why. rs = [rejectReport r doc why now] \<and> why \<noteq> RejectNone)
    else desired r' = Some doc \<and> desiredFields r' = fieldsOf doc \<and> lastAppliedSeq r' = doc_Seq doc \<and>
      lastAppliedIssuedAt r' = doc_IssuedAt doc \<and> haveApplied r' \<and>
      (Kind a = ActionWrite \<longleftrightarrow> \<not> fieldsEqual (desiredFields r) (fieldsOf doc)) \<and>
      ReportRejectedDoc \<notin> rep_Kind ` set rs \<and>
      snd (SetDesired doc later r') = r' \<and> fst (fst (SetDesired doc later r')) = none"
proof -
  obtain a rs r' where e: "SetDesired doc now r = ((a, rs), r')" by (metis prod.exhaust)
  show ?thesis
  proof (cases "docHasNaN doc \<or> doc_stale r doc now \<or> doc_replay r doc")
    case True
    then show ?thesis
      by (auto simp: doc_stale_def doc_replay_def SetDesired_def setDesiredCore_def gate_def not_less)
  next
    case False
    then obtain sr where g: "gate r doc now = Accept sr" "\<not> docHasNaN doc"
      using gate_accepts by blast
    note accepted = e [unfolded SetDesired_def setDesiredCore_def, simplified g, simplified]
    have s: "desired r' = Some doc" "desiredFields r' = fieldsOf doc" "lastAppliedSeq r' = doc_Seq doc"
      "lastAppliedIssuedAt r' = doc_IssuedAt doc" "haveApplied r'"
      "Kind a = ActionWrite \<longleftrightarrow> \<not> fieldsEqual (desiredFields r) (fieldsOf doc)"
      "ReportRejectedDoc \<notin> rep_Kind ` set rs"
      using accepted
      by (auto simp: adopt_def writeAction_def closeEpisode_def report_def Let_def split: if_splits)
    have "\<exists>w. SetDesired doc later r' = ((none, [rejectReport r' doc w later]), r')"
      using s g(2) by (auto simp: SetDesired_def setDesiredCore_def gate_def)
    with s False e show ?thesis by auto
  qed
qed

text \<open>
  Property C31: non-convergence episodes are paired. Whatever sequence of documents, readbacks,
  reconnects and ticks a reconciler receives, its NonConvergedBegin and NonConvergedEnd reports
  alternate, each end carries the number of its begin, and the episodes are numbered
  1, 2, 3, ... (modulo 2^64); the last one is still open exactly when \<open>inEpisode\<close> holds.
\<close>

theorem episodes_paired:
  assumes "run (New cls dev c) reps acts r"
  shows "\<exists>n. episodeCounter r = of_nat n \<and> edges reps = expected_edges n (inEpisode r)"
  using episode_inv_run [OF assms] unfolding episode_inv_def by blast

text \<open>
  Corrective writes are rate-limited. In every reachable state the backoff cursor
  indexes the schedule within its bounds, and a write that \<open>Observe\<close> or \<open>Tick\<close> issues
  against an observed divergence comes at least the scheduled gap after the previous write,
  unless it is the first one since the divergence began or the target changed.
\<close>

theorem corrective_writes_paced:
  assumes "run (New cls dev c) reps acts r"
    and "apply_event e now r = ((a, rs), r')"
    and "Reason a = ''write-on-diff'' \<or> Reason a = ''retry''"
  shows "backoff_index r < length (RetryBackoff (withDefaults c)) \<and> lastWriteAt r' = now \<and>
    (is_zero_time (divergentSince r) \<or> writeAttempts r = 0 \<or>
     RetryBackoff (withDefaults c) ! min (writeAttempts r - 1) (length (RetryBackoff (withDefaults c)) - 1)
       \<le> time_sub now (lastWriteAt r) \<and> writeAttempts r' = Suc (writeAttempts r))"
proof -
  have c: "cfg r = withDefaults c" using run_sound [OF assms(1)] by simp
  have idx: "backoff_index q = min (writeAttempts q - 1) (length (RetryBackoff (cfg q)) - 1)" for q
    by (simp add: backoff_index_def Let_def min_def)
  have len: "min k (length (RetryBackoff (withDefaults c)) - 1) < length (RetryBackoff (withDefaults c))" for k
    using withDefaults_backoff [of c] by (cases "RetryBackoff (withDefaults c)") auto
  have no: "Reason none = ''''" by (simp add: none_def)
  have "\<exists>r2. (\<exists>w. (a, r') = writeAction w now r2) \<and> backoffReady r2 now \<and> cfg r2 = cfg r \<and>
      lastWriteAt r2 = lastWriteAt r \<and>
      (is_zero_time (divergentSince r) \<or> writeAttempts r2 = writeAttempts r)"
  proof (cases e)
    case (EvObserve ob)
    with assms have "Observe ob now r = ((a, rs), r')" by simp
    then show ?thesis
    proof (cases rule: observe_cases)
      case quiet
      then show ?thesis using assms(3) no by simp
    next
      case (corrective bg r2)
      then show ?thesis using checkEpisodeBegin_same [OF corrective(1)]
          mark_diverged_attempts [of r now ob]
        by (intro exI [of _ r2]) auto
    qed
  next
    case EvTick
    have "desired r = None \<Longrightarrow> a = none" using assms(2) EvTick by (simp add: Tick_def)
    then have d: "desired r \<noteq> None" using assms(3) no by (metis list.distinct(1))
    obtain st r1 bg r2 where k: "checkStale now r = (st, r1)" "checkEpisodeBegin now r1 = (bg, r2)"
      and w: "(a, r') = writeAction ''retry'' now r2 \<and> \<not> is_zero_time (divergentSince r2) \<and> backoffReady r2 now \<or>
         (a, r') = writeAction ''reassert'' now r2 \<and> reassertDue now r2 \<or> (a, r') = (none, r2)"
      using tick_cases [of now r a rs r'] assms(2) d EvTick by (metis apply_event.simps(5))
    have "(a, r') = writeAction ''retry'' now r2 \<and> backoffReady r2 now"
      using w assms(3) no by (auto simp: writeAction_def)
    then show ?thesis using checkStale_same [OF k(1)] checkEpisodeBegin_same [OF k(2)] by metis
  qed (use assms(2,3) no in \<open>auto simp: SetDesired_def SetDesiredFields_def setDesiredCore_def Let_def
      writeAction_def Reconnected_def closeEpisode_def split: Gate.splits if_splits\<close>)
  then obtain r2 w where r2: "(a, r') = writeAction w now r2" "backoffReady r2 now" "cfg r2 = cfg r"
    "lastWriteAt r2 = lastWriteAt r" "is_zero_time (divergentSince r) \<or> writeAttempts r2 = writeAttempts r"
    by blast
  then have "lastWriteAt r' = now" "writeAttempts r' = Suc (writeAttempts r2)"
    by (simp_all add: writeAction_def)
  with r2 show ?thesis using c len
    by (auto simp: idx backoffReady_def split: if_splits)
qed

text \<open>
  No corrupt value reaches a device. In every run, each write carries exactly the
  fields of the standing document, and neither a written field nor the standing intent is ever
  NaN or infinite, whatever documents and readbacks the bus delivered.
\<close>

theorem writes_are_finite_intent:
  assumes "run (New cls dev c) reps acts r" and "apply_event e now r = ((a, rs), r')"
    and "Kind a = ActionWrite" and "Fields a f = Some v"
  shows "desired r' \<noteq> None \<and> desiredFields r' f = Some v \<and> (\<exists>x. v = Fin x)"
proof -
  have "run (New cls dev c) (reps @ rs) (acts @ [a]) r'" using assms(1,2) by (rule run_step)
  then have "\<not> fieldsHaveNaN (desiredFields r')" using run_sound by blast
  moreover have "Fields a = desiredFields r' \<and> desired r' \<noteq> None"
    using sound_event [OF assms(2)] assms(3) by (simp add: sound_step_def)
  ultimately show ?thesis using assms(4) by (metis fieldsHaveNaN_iff nan_or_inf_iff)
qed

text \<open>
  A sample that proves nothing changes nothing. An \<open>Observe\<close> with a sample that
  is disconnected, implausible, or lacks a commanded field produces no write and no report and
  leaves the whole state but \<open>lastRead\<close> as it was; and the assessment of a sample does not
  depend on the order in which the runtime visits the commanded fields.
\<close>

theorem inconclusive_sample_holds:
  assumes "\<not> fieldsHaveNaN (Read ob)"
    and "\<not> Connected ob \<or> \<not> Plausible ob \<or> \<not> dom (desiredFields r) \<subseteq> dom (Read ob)"
    and "set ks = dom (desiredFields r)"
  shows "Observe ob now r = ((none, []), r\<lparr>lastRead := ob\<rparr>) \<and>
    matches_in ks r rd = matches r rd"
proof -
  have "\<not> dom (desiredFields r) \<subseteq> dom (Read ob) \<Longrightarrow> matches (r\<lparr>lastRead := ob\<rparr>) (Read ob) = (False, False)"
    by (auto simp: matches_def matches_in_def all_present_iff)
  then have "Observe ob now r = ((none, []), r\<lparr>lastRead := ob\<rparr>)"
    using assms(1,2) by (auto simp: Observe_def Let_def split: prod.splits)
  then show ?thesis using assms(3) matches_in_set_cong [of ks "keys (desiredFields r)"]
    by (simp add: matches_def)
qed

section \<open>Concrete runs\<close>

text \<open>A battery told to connect, seen disconnected a second later, and ticked 100 s on.\<close>

definition ex_r0 :: Reconciler where
  "ex_r0 = New ''battery'' ''b1'' \<lparr>ReadbackTolerance = Map.empty, ConvergeTimeout = 0,
     RetryBackoff = [], StaleAfter = 0, ReassertEvery = 0\<rparr>"

definition ex_obs :: "f64 \<Rightarrow> Observed" where
  "ex_obs v = \<lparr>Read = [Connect \<mapsto> v], Connected = True, At = unix_time 1, Plausible = True\<rparr>"

definition ex_s1 :: result where
  "ex_s1 = SetDesiredFields \<lparr>meta_MRID = ''m'', meta_Seq = 1, meta_IssuedAt = 0\<rparr>
     [Connect \<mapsto> Fin 1] (unix_time 0) ex_r0"

definition ex_s2 :: result where
  "ex_s2 = Observe (ex_obs (Fin 0)) (unix_time 1) (snd ex_s1)"

definition ex_s3 :: result where
  "ex_s3 = Tick (unix_time 100) (snd ex_s2)"

lemmas ex_eval = ex_r0_def ex_obs_def New_def withDefaults_def SetDesiredFields_def
  setDesiredCore_def gate_def fieldsHaveNaN_def all_fields_def fieldsEqual_def map_len_def adopt_def
  closeEpisode_def writeAction_def Let_def report_def time_sub_def unix_time_def second_def
  go_div_def DefaultStaleAfter_def DefaultConvergeTimeout_def DefaultRetryBackoff_def
  unix_epoch_s_def max_duration_def min_duration_def is_zero_time_def zero_time_def
  matches_def matches_in_def keys_def tolerance_def defaultConnectTolerance_def fsub_Fin
  checkEpisodeBegin_def backoffReady_def backoff_index_def checkStale_def reassertDue_def

lemma ex_r1: "(desired (snd ex_s1) = None) = False" "desiredFields (snd ex_s1) = [Connect \<mapsto> Fin 1]"
  "ConvergeTimeout (cfg (snd ex_s1)) = 60 * second \<and> StaleAfter (cfg (snd ex_s1)) = 300 * second \<and>
   RetryBackoff (cfg (snd ex_s1)) = DefaultRetryBackoff \<and> ReassertEvery (cfg (snd ex_s1)) = 0 \<and>
   ReadbackTolerance (cfg (snd ex_s1)) = Map.empty"
  "divergentSince (snd ex_s1) = 0"
  "inEpisode (snd ex_s1) = False" "lastDocAt (snd ex_s1) = unix_time 0" "staleReported (snd ex_s1) = False"
  "Kind (fst (fst ex_s1)) = ActionWrite" "Fields (fst (fst ex_s1)) = [Connect \<mapsto> Fin 1]"
  by (simp_all add: ex_s1_def ex_eval wrap64_def time_unix_def)

lemma ex_matches: "matches (snd ex_s1\<lparr>lastRead := ob\<rparr>) [Connect \<mapsto> Fin 0] = (False, True)"
  by (simp add: matches_def matches_in_def keys_def ex_r1 all_fields_def tolerance_def ex_r0_def
      New_def withDefaults_def defaultConnectTolerance_def)

lemma ex_run1: "run ex_r0 [] [fst (fst ex_s1)] (snd ex_s1)"
proof -
  have "ex_s1 = ((fst (fst ex_s1), []), snd ex_s1)"
    by (simp add: ex_s1_def ex_eval wrap64_def time_unix_def)
  then show ?thesis
    using run_step [OF run_start, of "EvFields \<lparr>meta_MRID = ''m'', meta_Seq = 1, meta_IssuedAt = 0\<rparr> [Connect \<mapsto> Fin 1]"
        "unix_time 0" ex_r0 "fst (fst ex_s1)" "[]" "snd ex_s1"]
    by (simp add: ex_s1_def)
qed

lemma ex_r2: "fst ex_s2 = (fst (writeAction ''write-on-diff'' (unix_time 1) (snd ex_s1)), [])"
  "(desired (snd ex_s2) = None) = False" "divergentSince (snd ex_s2) = unix_time 1" "inEpisode (snd ex_s2) = False"
  "lastDocAt (snd ex_s2) = unix_time 0" "writeAttempts (snd ex_s2) = 1" "lastWriteAt (snd ex_s2) = unix_time 1"
  "cfg (snd ex_s2) = cfg (snd ex_s1)" "episodeCounter (snd ex_s2) = episodeCounter (snd ex_s1)"
  by (simp_all add: ex_r1 ex_matches ex_s2_def Observe_def ex_obs_def fieldsHaveNaN_def all_fields_def Let_def
      checkEpisodeBegin_def backoffReady_def writeAction_def is_zero_time_def unix_time_def
      second_def unix_epoch_s_def)

lemma ex_r3: "Reason (fst (fst ex_s3)) = ''retry''" "edges (snd (fst ex_s3)) \<noteq> []"
  "inEpisode (snd ex_s3)"
  by (simp_all add: ex_r2 ex_r1(3) ex_s3_def Tick_def checkStale_def checkEpisodeBegin_def Let_def is_zero_time_def
      unix_time_def second_def unix_epoch_s_def time_sub_def max_duration_def min_duration_def
      backoffReady_def backoff_index_def writeAction_def DefaultRetryBackoff_def report_def edges_def)

lemma ex_run2: "run ex_r0 [] [fst (fst ex_s1), fst (fst ex_s2)] (snd ex_s2)"
  using run_step [OF ex_run1, of "EvObserve (ex_obs (Fin 0))" "unix_time 1" "fst (fst ex_s2)" "[]" "snd ex_s2"]
    ex_r2(1) by (simp add: ex_s2_def [symmetric] prod_eq_iff)

lemma ex_tick: "apply_event EvTick (unix_time 100) (snd ex_s2) = ((fst (fst ex_s3), snd (fst ex_s3)), snd ex_s3)"
  by (simp add: ex_s3_def)

lemma ex_run3: "run ex_r0 (snd (fst ex_s3)) [fst (fst ex_s1), fst (fst ex_s2), fst (fst ex_s3)] (snd ex_s3)"
  using run_step [OF ex_run2 ex_tick] by simp

theorem episodes_paired_witness:
  "\<exists>n. episodeCounter (snd ex_s3) = of_nat n \<and> edges (snd (fst ex_s3)) = expected_edges n True"
  using episodes_paired [OF ex_run3 [unfolded ex_r0_def]] ex_r3(3) by simp

theorem corrective_writes_paced_witness:
  "2 * second \<le> time_sub (unix_time 100) (lastWriteAt (snd ex_s2)) \<and> writeAttempts (snd ex_s3) = 2"
  using corrective_writes_paced [OF ex_run2 [unfolded ex_r0_def] ex_tick] ex_r3(1) ex_r2(3,6)
  by (simp add: withDefaults_def DefaultRetryBackoff_def unix_time_def second_def unix_epoch_s_def
      is_zero_time_def)

theorem writes_are_finite_intent_witness:
  "desiredFields (snd ex_s1) Connect = Some (Fin 1) \<and> (\<exists>x. Fin 1 = Fin x)"
proof -
  have e: "apply_event (EvFields \<lparr>meta_MRID = ''m'', meta_Seq = 1, meta_IssuedAt = 0\<rparr> [Connect \<mapsto> Fin 1])
    (unix_time 0) ex_r0 = ((fst (fst ex_s1), snd (fst ex_s1)), snd ex_s1)" by (simp add: ex_s1_def)
  show ?thesis
    using writes_are_finite_intent [OF run_start e [unfolded ex_r0_def], of Connect "Fin 1"] ex_r1(8,9)
    by simp
qed

theorem inconclusive_sample_holds_witness:
  "Observe (ex_obs (Fin 0)\<lparr>Plausible := False\<rparr>) 5 (snd ex_s1) =
     ((none, []), (snd ex_s1)\<lparr>lastRead := ex_obs (Fin 0)\<lparr>Plausible := False\<rparr>\<rparr>) \<and>
   matches_in [Connect] (snd ex_s1) Map.empty = matches (snd ex_s1) Map.empty"
  by (rule inconclusive_sample_holds)
    (simp_all add: ex_obs_def fieldsHaveNaN_def all_fields_def ex_r1(2))

end
