(* ===== verification/Csip.thy ===== *)
theory Csip
  imports GoFloat
begin

text \<open>
  The parts of the CSIP resource model that the northbound components read
  (internal/northbound/discovery: walker.go and helpers.go, over the csipmodel types), and the
  selection of the highest-priority program. Absent XML elements (nil pointers) are \<open>None\<close>;
  the program's curve map is only looked up, and is kept as an association list.
\<close>

section \<open>Control payloads\<close>

record ActivePower =
  ap_Multiplier :: int
  ap_Value :: int

record DERControlBase =
  OpModConnect :: "bool option"
  OpModEnergize :: "bool option"
  OpModFixedPFAbsorbW :: "int option"
  OpModFixedPFInjectW :: "int option"
  OpModFixedVar :: "int option"
  OpModFixedW :: "ActivePower option"
  OpModMaxLimW :: "ActivePower option"
  OpModExpLimW :: "ActivePower option"
  OpModGenLimW :: "ActivePower option"
  OpModImpLimW :: "ActivePower option"
  OpModLoadLimW :: "ActivePower option"
  RampTms :: "nat option"

definition no_base :: DERControlBase where
  "no_base = \<lparr>OpModConnect = None, OpModEnergize = None, OpModFixedPFAbsorbW = None,
     OpModFixedPFInjectW = None, OpModFixedVar = None, OpModFixedW = None, OpModMaxLimW = None,
     OpModExpLimW = None, OpModGenLimW = None, OpModImpLimW = None, OpModLoadLimW = None,
     RampTms = None\<rparr>"

text \<open>The extended base: the target power and the fourteen curve links (an href each; its
  copies of the scalar modes are not read by the modelled code).\<close>

record ExtendedDERControlBase =
  OpModTargetW :: "ActivePower option"
  OpModVoltVar :: "string option"
  OpModFreqWatt :: "string option"
  OpModWattPF :: "string option"
  OpModVoltWatt :: "string option"
  OpModHFRTMayTrip :: "string option"
  OpModHFRTMustTrip :: "string option"
  OpModHVRTMayTrip :: "string option"
  OpModHVRTMomentaryCessation :: "string option"
  OpModHVRTMustTrip :: "string option"
  OpModLFRTMayTrip :: "string option"
  OpModLFRTMustTrip :: "string option"
  OpModLVRTMayTrip :: "string option"
  OpModLVRTMomentaryCessation :: "string option"
  OpModLVRTMustTrip :: "string option"

record DERCurve =
  curve_MRID :: string
  XMultiplier :: int
  YMultiplier :: int
  CurveData :: "(int \<times> int) list"

section \<open>Events and programs\<close>

record EventStatus =
  CurrentStatus :: nat
  PotentiallySuperseded :: bool

record DERControl =
  ctrl_MRID :: string
  CreationTime :: int64
  Status :: "EventStatus option"
  Start :: int64
  Duration :: int
  RandomizeStart :: "int32 option"
  RandomizeDuration :: "int32 option"
  ctrl_Base :: DERControlBase

record DefaultDERControl =
  default_MRID :: string
  default_Base :: DERControlBase

record ProgramState =
  prog_Primacy :: nat
  prog_MRID :: string
  prog_Href :: string
  DefaultControl :: "DefaultDERControl option"
  Controls :: "DERControl list option"
  ExtendedControls :: "(string \<times> ExtendedDERControlBase) list option"
  ExtendedDefault :: "ExtendedDERControlBase option"
  DefaultSetGradW :: "nat option"
  DefaultSetSoftGradW :: "nat option"
  prog_Curves :: "(string \<times> DERCurve) list"

text \<open>\<open>EventStatus != nil && EventStatus.CurrentStatus == 6\<close>.\<close>

definition cancelled :: "DERControl \<Rightarrow> bool" where
  "cancelled c = (case Status c of None \<Rightarrow> False | Some st \<Rightarrow> CurrentStatus st = 6)"

definition potentially_superseded :: "DERControl \<Rightarrow> bool" where
  "potentially_superseded c = (case Status c of None \<Rightarrow> False | Some st \<Rightarrow> PotentiallySuperseded st)"

definition CurveModeLinks :: "ExtendedDERControlBase \<Rightarrow> (string \<times> string option) list" where
  "CurveModeLinks b =
     [(''volt_var'', OpModVoltVar b), (''freq_watt'', OpModFreqWatt b), (''watt_pf'', OpModWattPF b),
      (''volt_watt'', OpModVoltWatt b), (''hfrt_may_trip'', OpModHFRTMayTrip b),
      (''hfrt_must_trip'', OpModHFRTMustTrip b), (''hvrt_may_trip'', OpModHVRTMayTrip b),
      (''hvrt_momentary_cessation'', OpModHVRTMomentaryCessation b),
      (''hvrt_must_trip'', OpModHVRTMustTrip b), (''lfrt_may_trip'', OpModLFRTMayTrip b),
      (''lfrt_must_trip'', OpModLFRTMustTrip b), (''lvrt_may_trip'', OpModLVRTMayTrip b),
      (''lvrt_momentary_cessation'', OpModLVRTMomentaryCessation b),
      (''lvrt_must_trip'', OpModLVRTMustTrip b)]"

section \<open>Program priority\<close>

definition outranks :: "ProgramState \<Rightarrow> ProgramState \<Rightarrow> bool" where
  "outranks p q \<longleftrightarrow> prog_Primacy p < prog_Primacy q \<or>
     prog_Primacy p = prog_Primacy q \<and> prog_MRID p < prog_MRID q"

definition HighestPriorityProgram :: "ProgramState list \<Rightarrow> ProgramState option" where
  "HighestPriorityProgram ps =
     (case ps of [] \<Rightarrow> None
      | p # rest \<Rightarrow> Some (fold (\<lambda>q best. if outranks q best then q else best) rest p))"

definition ActiveDefaultControl :: "ProgramState list \<Rightarrow> DefaultDERControl option" where
  "ActiveDefaultControl ps =
     (case HighestPriorityProgram ps of None \<Rightarrow> None | Some hp \<Rightarrow> DefaultControl hp)"

text \<open>The key by which programs are compared; \<open>outranks\<close> is its strict lexicographic order.\<close>

definition priority_le :: "ProgramState \<Rightarrow> ProgramState \<Rightarrow> bool" where
  "priority_le p q \<longleftrightarrow> prog_Primacy p < prog_Primacy q \<or>
     prog_Primacy p = prog_Primacy q \<and> prog_MRID p \<le> prog_MRID q"

lemma priority_le_refl [simp]: "priority_le p p"
  by (simp add: priority_le_def)

lemma priority_le_trans: "priority_le p q \<Longrightarrow> priority_le q r \<Longrightarrow> priority_le p r"
  by (auto simp: priority_le_def)

lemma outranks_iff: "outranks p q \<longleftrightarrow> \<not> priority_le q p"
  by (auto simp: outranks_def priority_le_def)

lemma outranks_le: "outranks p q \<Longrightarrow> priority_le p q"
  by (auto simp: outranks_def priority_le_def)

definition better :: "ProgramState \<Rightarrow> ProgramState \<Rightarrow> ProgramState" where
  "better q best = (if outranks q best then q else best)"

lemma better_le: "priority_le (better q p) p" "priority_le (better q p) q" "better q p = p \<or> better q p = q"
  by (auto simp: better_def outranks_le outranks_iff)

lemma fold_best_in: "fold better qs p = p \<or> fold better qs p \<in> set qs"
proof (induction qs arbitrary: p)
  case (Cons q qs)
  have "fold better qs (better q p) = better q p \<or> fold better qs (better q p) \<in> set qs" by (rule Cons.IH)
  then show ?case using better_le(3) [of q p] by (elim disjE) simp_all
qed simp

lemma fold_best_le: "priority_le (fold better qs p) p \<and> (\<forall>q \<in> set qs. priority_le (fold better qs p) q)"
proof (induction qs arbitrary: p)
  case (Cons q qs)
  then have "priority_le (fold better qs (better q p)) (better q p)" by blast
  then show ?case using Cons.IH [of "better q p"] better_le(1,2) [of q p] priority_le_trans by auto
qed simp

lemma highest_priority_in:
  assumes "HighestPriorityProgram ps = Some p"
  shows "p \<in> set ps \<and> (\<forall>q \<in> set ps. priority_le p q)"
proof -
  obtain q qs where ps: "ps = q # qs" and p: "p = fold better qs q"
    using assms by (cases ps) (auto simp: HighestPriorityProgram_def better_def [abs_def])
  then show ?thesis using fold_best_in [of qs q] fold_best_le [of qs q] by auto
qed

lemma highest_priority_None [simp]: "HighestPriorityProgram ps = None \<longleftrightarrow> ps = []"
  by (simp add: HighestPriorityProgram_def split: list.splits)

end
