(* ===== verification/Scheduler.thy ===== *)
theory Scheduler
  imports Csip UtilityTime "HOL-Library.Monad_Syntax"
begin

text \<open>
  internal/northbound/scheduler: resolution of the control to apply (precedence, supersession,
  randomized timing) and the fail-closed retention of the last good control. A step that can
  panic returns an option, with \<open>None\<close> for the panic. The random source is a stream of
  non-negative draws with a position, and \<open>Int63n n\<close> reduces the next draw modulo \<open>n\<close>; since
  the stream is arbitrary, every sequence of results in range is one of its behaviours. The
  lock is not modelled. \<open>Evaluate\<close> also returns the calls made to \<open>RejectHook\<close>.
\<close>

section \<open>State\<close>

record ActiveControl =
  Base :: DERControlBase
  Source :: string
  MRID :: string
  ValidUntil :: int64
  Held :: bool
  ImplausibleReject :: bool
  Extended :: "ExtendedDERControlBase option"
  Curves :: "(string \<times> DERCurve) list"
  ProgramHref :: string
  SetGradW :: "nat option"
  SetSoftGradW :: "nat option"
  Default :: "DERControlBase option"
  DefaultMRID :: string

record Scheduler =
  randOffsets :: "string \<rightharpoonup> int32"
  randDurs :: "string \<rightharpoonup> int32"
  rng :: "nat \<Rightarrow> nat"
  rng_pos :: nat
  lastGood :: "ActiveControl option"
  expiryHold :: DebouncedExpiry
  expiryHoldMRID :: string

definition New :: "(nat \<Rightarrow> nat) \<Rightarrow> Scheduler" where
  "New seed = \<lparr>randOffsets = Map.empty, randDurs = Map.empty, rng = seed, rng_pos = 0,
     lastGood = None, expiryHold = \<lparr>Confirm = 2, count = 0\<rparr>, expiryHoldMRID = ''''\<rparr>"

section \<open>Plausibility\<close>

definition maxPlausibleLimitW :: f64 where
  "maxPlausibleLimitW = Fin 1000000000"

definition ResolvedModeCurves :: "ActiveControl \<Rightarrow> (string \<times> DERCurve) list" where
  "ResolvedModeCurves ac =
     (case Extended ac of None \<Rightarrow> []
      | Some x \<Rightarrow>
          if Curves ac = [] then []
          else List.map_filter (\<lambda>(mode, link). case link of None \<Rightarrow> None
                 | Some href \<Rightarrow> if href = '''' then None
                     else map_option (Pair mode) (map_of (Curves ac) href)) (CurveModeLinks x))"

definition plausibleLimit :: "ActivePower option \<Rightarrow> bool" where
  "plausibleLimit a =
     (case a of None \<Rightarrow> True
      | Some ap \<Rightarrow>
          let w = fmul (fl (of_int (ap_Value ap))) (pow10 (ap_Multiplier ap))
          in \<not> is_nan w \<and> \<not> is_inf w \<and> fle (fabs w) maxPlausibleLimitW)"

text \<open>\<open>v = -v\<close> on an \<open>int16\<close> wraps for the most negative value.\<close>

definition plausiblePF :: "int option \<Rightarrow> bool" where
  "plausiblePF pf =
     (case pf of None \<Rightarrow> True
      | Some v \<Rightarrow> let v = (if v < 0 then (- v + 2 ^ 15) mod 2 ^ 16 - 2 ^ 15 else v)
                  in 0 < v \<and> v \<le> 10000)"

definition PlausibleCurve :: "DERCurve \<Rightarrow> bool" where
  "PlausibleCurve c =
     (if CurveData c = [] \<or> 10 < length (CurveData c) then False
      else let xm = pow10 (XMultiplier c); ym = pow10 (YMultiplier c)
           in list_all (\<lambda>(xv, yv). \<not> nan_or_inf (fmul (fl (of_int xv)) xm) \<and>
                                  \<not> nan_or_inf (fmul (fl (of_int yv)) ym)) (CurveData c))"

definition implausibleReason :: "ActiveControl \<Rightarrow> string" where
  "implausibleReason ac =
     (let b = Base ac in
      if \<not> (plausibleLimit (OpModExpLimW b) \<and> plausibleLimit (OpModMaxLimW b) \<and>
            plausibleLimit (OpModImpLimW b) \<and> plausibleLimit (OpModFixedW b) \<and>
            plausibleLimit (OpModGenLimW b) \<and> plausibleLimit (OpModLoadLimW b))
      then ''implausible-limit''
      else if (case Extended ac of None \<Rightarrow> False | Some x \<Rightarrow> \<not> plausibleLimit (OpModTargetW x))
      then ''implausible-limit''
      else if \<not> plausiblePF (OpModFixedPFInjectW b) \<or> \<not> plausiblePF (OpModFixedPFAbsorbW b)
      then ''implausible-pf''
      else if (case OpModFixedVar b of None \<Rightarrow> False | Some v \<Rightarrow> 10000 < v \<or> v < - 10000)
      then ''implausible-var''
      else if \<not> list_all (\<lambda>(mode, c). PlausibleCurve c) (ResolvedModeCurves ac)
      then ''implausible-curve''
      else '''')"

definition plausibleControl :: "ActiveControl \<Rightarrow> bool" where
  "plausibleControl ac = (implausibleReason ac = '''')"

section \<open>Randomized timing\<close>

definition Int63n :: "int \<Rightarrow> Scheduler \<Rightarrow> (int \<times> Scheduler) option" where
  "Int63n n s = (if n \<le> 0 then None
     else Some (int (rng s (rng_pos s)) mod n, s\<lparr>rng_pos := Suc (rng_pos s)\<rparr>))"

text \<open>The draw of an offset; every operation on the window is on \<open>int32\<close>.\<close>

definition draw_offset :: "int32 \<Rightarrow> Scheduler \<Rightarrow> (int32 \<times> Scheduler) option" where
  "draw_offset r s =
     (let window = (if r < 0 then wrap32 (- r) else r)
      in do { (k, s) \<leftarrow> Int63n (wrap32 (2 * window + 1)) s;
              Some (wrap32 (wrap32 k - window), s) })"

definition randomizedStart :: "DERControl \<Rightarrow> Scheduler \<Rightarrow> (int64 \<times> Scheduler) option" where
  "randomizedStart c s =
     (let base = Start c in
      case RandomizeStart c of None \<Rightarrow> Some (base, s)
      | Some r \<Rightarrow>
          if r = 0 then Some (base, s)
          else case randOffsets s (ctrl_MRID c) of
              Some off \<Rightarrow> Some (wrap64 (base + off), s)
            | None \<Rightarrow> do { (off, s) \<leftarrow> draw_offset r s;
                          Some (wrap64 (base + off),
                                s\<lparr>randOffsets := (randOffsets s)(ctrl_MRID c \<mapsto> off)\<rparr>) })"

definition randomizedDuration :: "DERControl \<Rightarrow> Scheduler \<Rightarrow> (int64 \<times> Scheduler) option" where
  "randomizedDuration c s =
     (let base = Duration c in
      case RandomizeDuration c of None \<Rightarrow> Some (base, s)
      | Some r \<Rightarrow>
          if r = 0 then Some (base, s)
          else case randDurs s (ctrl_MRID c) of
              Some off \<Rightarrow> Some (max 0 (wrap64 (base + off)), s)
            | None \<Rightarrow> do { (off, s) \<leftarrow> draw_offset r s;
                          Some (max 0 (wrap64 (base + off)),
                                s\<lparr>randDurs := (randDurs s)(ctrl_MRID c \<mapsto> off)\<rparr>) })"

definition event_window :: "DERControl \<Rightarrow> Scheduler \<Rightarrow> ((int64 \<times> int64) \<times> Scheduler) option" where
  "event_window c s =
     do { (start, s) \<leftarrow> randomizedStart c s;
          (dur, s) \<leftarrow> randomizedDuration c s;
          Some ((start, wrap64 (start + dur)), s) }"

section \<open>Precedence\<close>

fun isSuperseded :: "DERControl \<Rightarrow> DERControl list \<Rightarrow> int64 \<Rightarrow> Scheduler \<Rightarrow> (bool \<times> Scheduler) option" where
  "isSuperseded c [] now s = Some (False, s)"
| "isSuperseded c (other # cs) now s =
     (if ctrl_MRID other = ctrl_MRID c then isSuperseded c cs now s
      else if cancelled other then isSuperseded c cs now s
      else do { ((start, end), s) \<leftarrow> event_window other s;
                if start \<le> now \<and> now < end \<and> CreationTime c < CreationTime other
                then Some (True, s) else isSuperseded c cs now s })"

definition newer :: "DERControl \<Rightarrow> DERControl option \<Rightarrow> bool" where
  "newer c best = (case best of None \<Rightarrow> True
     | Some b \<Rightarrow> CreationTime b < CreationTime c \<or>
                 CreationTime c = CreationTime b \<and> ctrl_MRID b < ctrl_MRID c)"

fun active_scan ::
  "DERControl list \<Rightarrow> int64 \<Rightarrow> DERControl list \<Rightarrow> DERControl option \<Rightarrow> Scheduler
     \<Rightarrow> (DERControl option \<times> Scheduler) option" where
  "active_scan all now [] best s = Some (best, s)"
| "active_scan all now (c # cs) best s =
     (if cancelled c then active_scan all now cs best s
      else do { ((start, end), s) \<leftarrow> event_window c s;
                if \<not> InWindow start end now then active_scan all now cs best s
                else do { (lost, s) \<leftarrow> (if potentially_superseded c then isSuperseded c all now s
                                        else Some (False, s));
                          if lost then active_scan all now cs best s
                          else active_scan all now cs (if newer c best then Some c else best) s } })"

definition find_extended :: "(string \<times> 'a) list option \<Rightarrow> string \<Rightarrow> 'a option" where
  "find_extended xs mrid = (case xs of None \<Rightarrow> None | Some l \<Rightarrow> map_of l mrid)"

definition activeEvent :: "ProgramState \<Rightarrow> int64 \<Rightarrow> Scheduler \<Rightarrow> (ActiveControl option \<times> Scheduler) option" where
  "activeEvent ps now s =
     (let cs = (case Controls ps of None \<Rightarrow> [] | Some cs \<Rightarrow> cs) in
      do { (best, s) \<leftarrow> active_scan cs now cs None s;
           case best of None \<Rightarrow> Some (None, s)
           | Some b \<Rightarrow>
               do { ((start, end), s) \<leftarrow> event_window b s;
                    Some (Some \<lparr>Base = ctrl_Base b, Source = ''event'', MRID = ctrl_MRID b,
                            ValidUntil = end, Held = False, ImplausibleReject = False,
                            Extended = find_extended (ExtendedControls ps) (ctrl_MRID b),
                            Curves = prog_Curves ps, ProgramHref = prog_Href ps,
                            SetGradW = None, SetSoftGradW = None,
                            Default = None, DefaultMRID = ''''\<rparr>, s) } })"

definition live_mrids :: "ProgramState list \<Rightarrow> string list" where
  "live_mrids ps = concat (map (\<lambda>p. case Controls p of None \<Rightarrow> [] | Some cs \<Rightarrow> map ctrl_MRID cs) ps)"

definition pruneRandOffsets :: "ProgramState list \<Rightarrow> Scheduler \<Rightarrow> Scheduler" where
  "pruneRandOffsets ps s =
     (let live = live_mrids ps
      in s\<lparr>randOffsets := (\<lambda>m. if m \<in> set live then randOffsets s m else None),
           randDurs := (\<lambda>m. if m \<in> set live then randDurs s m else None)\<rparr>)"

definition default_control :: "ProgramState \<Rightarrow> DefaultDERControl \<Rightarrow> ActiveControl" where
  "default_control hp d =
     \<lparr>Base = default_Base d, Source = ''default'', MRID = default_MRID d, ValidUntil = 0,
      Held = False, ImplausibleReject = False, Extended = ExtendedDefault hp,
      Curves = prog_Curves hp, ProgramHref = prog_Href hp, SetGradW = DefaultSetGradW hp,
      SetSoftGradW = DefaultSetSoftGradW hp, Default = None, DefaultMRID = ''''\<rparr>"

definition resolve :: "ProgramState list \<Rightarrow> int64 \<Rightarrow> Scheduler
    \<Rightarrow> ((ActiveControl option \<times> bool) \<times> Scheduler) option" where
  "resolve programs now s =
     (case HighestPriorityProgram programs of None \<Rightarrow> Some ((None, False), s)
      | Some hp \<Rightarrow>
          let s = pruneRandOffsets programs s in
          do { (ev, s) \<leftarrow> (case Controls hp of None \<Rightarrow> Some (None, s)
                  | Some cs \<Rightarrow> if cs = [] then Some (None, s) else activeEvent hp now s);
               Some (case ev of
                  Some ac \<Rightarrow>
                    ((Some (case DefaultControl hp of None \<Rightarrow> ac
                        | Some d \<Rightarrow> ac\<lparr>Default := Some (default_Base d), DefaultMRID := default_MRID d\<rparr>),
                      True), s)
                | None \<Rightarrow>
                    (case DefaultControl hp of
                        Some d \<Rightarrow> ((Some (default_control hp d), True), s)
                      | None \<Rightarrow> ((None, True), s))) })"

section \<open>Fail-closed retention\<close>

definition controlExpired :: "ActiveControl \<Rightarrow> int64 \<Rightarrow> bool" where
  "controlExpired ac now = Expired (ValidUntil ac) now"

definition stillServed :: "ProgramState option \<Rightarrow> string \<Rightarrow> bool" where
  "stillServed hp mrid =
     (case hp of None \<Rightarrow> False
      | Some p \<Rightarrow>
          if mrid = '''' then False
          else case find (\<lambda>c. ctrl_MRID c = mrid) (case Controls p of None \<Rightarrow> [] | Some cs \<Rightarrow> cs) of
              Some c \<Rightarrow> \<not> cancelled c
            | None \<Rightarrow> (case DefaultControl p of None \<Rightarrow> False | Some d \<Rightarrow> default_MRID d = mrid))"

text \<open>The expiry debounce, run once per cycle.\<close>

definition expiry_step :: "ProgramState option \<Rightarrow> int64 \<Rightarrow> Scheduler \<Rightarrow> bool \<times> Scheduler" where
  "expiry_step hp now s =
     (case lastGood s of
        Some lg \<Rightarrow>
          if Source lg = ''event'' \<and> stillServed hp (MRID lg) \<and> controlExpired lg now
          then let s = (if expiryHoldMRID s \<noteq> MRID lg
                        then s\<lparr>expiryHold := Reset (expiryHold s), expiryHoldMRID := MRID lg\<rparr> else s);
                   (fired, d) = Observe (expiryHold s) True
               in (\<not> fired, s\<lparr>expiryHold := d\<rparr>)
          else (False, s\<lparr>expiryHold := Reset (expiryHold s), expiryHoldMRID := ''''\<rparr>)
      | None \<Rightarrow> (False, s\<lparr>expiryHold := Reset (expiryHold s), expiryHoldMRID := ''''\<rparr>))"

definition hold :: "ActiveControl \<Rightarrow> ActiveControl" where
  "hold ac = ac\<lparr>Held := True\<rparr>"

type_synonym decision = "(ActiveControl option \<times> (string \<times> string) list) \<times> Scheduler"

definition unexpired :: "Scheduler \<Rightarrow> int64 \<Rightarrow> ActiveControl option" where
  "unexpired s now = (case lastGood s of None \<Rightarrow> None
     | Some lg \<Rightarrow> if controlExpired lg now then None else Some lg)"

definition adopt_control :: "ActiveControl \<Rightarrow> ProgramState option \<Rightarrow> bool \<Rightarrow> int64 \<Rightarrow> Scheduler \<Rightarrow> decision" where
  "adopt_control r hp holdExpired now s =
     (case lastGood s of
        Some lg \<Rightarrow>
          if Source r = ''default'' \<and> Source lg = ''event'' \<and> \<not> controlExpired lg now \<and>
             stillServed hp (MRID lg)
          then ((Some (hold lg), []), s)
          else if Source r = ''default'' \<and> holdExpired then ((Some (hold lg), []), s)
          else ((Some r, []), s\<lparr>lastGood := Some r\<rparr>)
      | None \<Rightarrow> ((Some r, []), s\<lparr>lastGood := Some r\<rparr>))"

definition failClosed :: "ActiveControl option \<Rightarrow> bool \<Rightarrow> ProgramState option \<Rightarrow> int64 \<Rightarrow> Scheduler \<Rightarrow> decision" where
  "failClosed resolved programFound hp now s =
     (let (holdExpired, s) = expiry_step hp now s in
      case resolved of
        Some r \<Rightarrow>
          (let reason = implausibleReason r in
           if reason = '''' then adopt_control r hp holdExpired now s
           else case unexpired s now of
               Some lg \<Rightarrow> ((Some ((hold lg)\<lparr>ImplausibleReject := True\<rparr>), [(MRID r, reason)]), s)
             | None \<Rightarrow> ((None, [(MRID r, reason)]), s\<lparr>lastGood := None\<rparr>))
      | None \<Rightarrow>
          if programFound
          then (case unexpired s now of
                  Some lg \<Rightarrow>
                    if stillServed hp (MRID lg) then ((Some (hold lg), []), s)
                    else ((None, []), s\<lparr>lastGood := None\<rparr>)
                | None \<Rightarrow>
                    if holdExpired then ((map_option hold (lastGood s), []), s)
                    else ((None, []), s\<lparr>lastGood := None\<rparr>))
          else (case unexpired s now of
                  Some lg \<Rightarrow> ((Some (hold lg), []), s)
                | None \<Rightarrow> ((None, []), s\<lparr>lastGood := None\<rparr>)))"

definition Evaluate :: "ProgramState list \<Rightarrow> int64 \<Rightarrow> Scheduler \<Rightarrow> decision option" where
  "Evaluate programs now s =
     do { ((resolved, programFound), s) \<leftarrow> resolve programs now s;
          Some (failClosed resolved programFound (HighestPriorityProgram programs) now s) }"

text \<open>\<open>SupersededMRIDs\<close>; the returned set is a list of mRIDs.\<close>

fun superseded_scan :: "DERControl list \<Rightarrow> int64 \<Rightarrow> DERControl list \<Rightarrow> Scheduler \<Rightarrow> (string list \<times> Scheduler) option" where
  "superseded_scan all now [] s = Some ([], s)"
| "superseded_scan all now (c # cs) s =
     (if cancelled c then superseded_scan all now cs s
      else do { ((start, end), s) \<leftarrow> event_window c s;
                if \<not> InWindow start end now then superseded_scan all now cs s
                else do { (lost, s) \<leftarrow> isSuperseded c all now s;
                          (rest, s) \<leftarrow> superseded_scan all now cs s;
                          Some (if lost then ctrl_MRID c # rest else rest, s) } })"

definition SupersededMRIDs :: "ProgramState list \<Rightarrow> int64 \<Rightarrow> Scheduler \<Rightarrow> (string list \<times> Scheduler) option" where
  "SupersededMRIDs programs now s =
     (case HighestPriorityProgram programs of None \<Rightarrow> Some ([], s)
      | Some hp \<Rightarrow> (case Controls hp of None \<Rightarrow> Some ([], s)
          | Some cs \<Rightarrow> superseded_scan cs now cs s))"

section \<open>Timing as a function of the caches\<close>

definition needs_draw :: "int32 option \<Rightarrow> bool" where
  "needs_draw r \<longleftrightarrow> (case r of None \<Rightarrow> False | Some v \<Rightarrow> v \<noteq> 0)"

definition start_in :: "Scheduler \<Rightarrow> DERControl \<Rightarrow> int64" where
  "start_in s c = (if needs_draw (RandomizeStart c)
     then wrap64 (Start c + the (randOffsets s (ctrl_MRID c))) else Start c)"

definition dur_in :: "Scheduler \<Rightarrow> DERControl \<Rightarrow> int64" where
  "dur_in s c = (if needs_draw (RandomizeDuration c)
     then max 0 (wrap64 (Duration c + the (randDurs s (ctrl_MRID c)))) else Duration c)"

definition end_in :: "Scheduler \<Rightarrow> DERControl \<Rightarrow> int64" where
  "end_in s c = wrap64 (start_in s c + dur_in s c)"

definition cached :: "Scheduler \<Rightarrow> DERControl \<Rightarrow> bool" where
  "cached s c \<longleftrightarrow> (needs_draw (RandomizeStart c) \<longrightarrow> randOffsets s (ctrl_MRID c) \<noteq> None) \<and>
     (needs_draw (RandomizeDuration c) \<longrightarrow> randDurs s (ctrl_MRID c) \<noteq> None)"

text \<open>The caches only grow; the retained control and the debounce are untouched.\<close>

definition grows :: "Scheduler \<Rightarrow> Scheduler \<Rightarrow> bool" where
  "grows s s' \<longleftrightarrow> randOffsets s \<subseteq>\<^sub>m randOffsets s' \<and> randDurs s \<subseteq>\<^sub>m randDurs s' \<and>
     lastGood s' = lastGood s \<and> expiryHold s' = expiryHold s \<and>
     expiryHoldMRID s' = expiryHoldMRID s \<and> rng s' = rng s"

lemma grows_refl [simp]: "grows s s"
  by (simp add: grows_def)

lemma grows_trans: "grows s t \<Longrightarrow> grows t u \<Longrightarrow> grows s u"
  by (auto simp: grows_def intro: map_le_trans)

lemma map_leD: "m \<subseteq>\<^sub>m n \<Longrightarrow> m k = Some v \<Longrightarrow> n k = Some v"
  by (metis domI map_le_def)

lemma cached_grows: "cached s c \<Longrightarrow> grows s t \<Longrightarrow> cached t c"
  by (auto simp: cached_def grows_def dest: map_leD)

lemma map_le_the: "m \<subseteq>\<^sub>m n \<Longrightarrow> m k \<noteq> None \<Longrightarrow> the (n k) = the (m k)"
  by (auto dest: map_leD)

lemma views_grow:
  assumes "cached s c" and "grows s t"
  shows "start_in t c = start_in s c" and "end_in t c = end_in s c"
proof -
  show "start_in t c = start_in s c"
    using assms map_le_the [of "randOffsets s" "randOffsets t" "ctrl_MRID c"]
    by (auto simp: cached_def grows_def start_in_def)
  moreover have "dur_in t c = dur_in s c"
    using assms map_le_the [of "randDurs s" "randDurs t" "ctrl_MRID c"]
    by (auto simp: cached_def grows_def dur_in_def)
  ultimately show "end_in t c = end_in s c" by (simp add: end_in_def)
qed

lemma Int63n_SomeD: "Int63n n s = Some (k, s') \<Longrightarrow> 0 < n \<and> 0 \<le> k \<and> k < n \<and> s' = s\<lparr>rng_pos := Suc (rng_pos s)\<rparr>"
  by (auto simp: Int63n_def split: if_splits)

lemma randomizedStart_SomeD:
  assumes "randomizedStart c s = Some (v, s')"
  shows "grows s s' \<and> randDurs s' = randDurs s \<and> v = start_in s' c \<and>
    (needs_draw (RandomizeStart c) \<longrightarrow> randOffsets s' (ctrl_MRID c) \<noteq> None)"
  using assms
  by (auto simp: randomizedStart_def draw_offset_def Let_def grows_def start_in_def needs_draw_def
      map_le_def dest!: Int63n_SomeD split: option.splits if_splits bind_splits)

lemma randomizedDuration_SomeD:
  assumes "randomizedDuration c s = Some (v, s')"
  shows "grows s s' \<and> randOffsets s' = randOffsets s \<and> v = dur_in s' c \<and>
    (needs_draw (RandomizeDuration c) \<longrightarrow> randDurs s' (ctrl_MRID c) \<noteq> None)"
  using assms
  by (auto simp: randomizedDuration_def draw_offset_def Let_def grows_def dur_in_def needs_draw_def
      map_le_def dest!: Int63n_SomeD split: option.splits if_splits bind_splits)

lemma event_window_SomeD:
  assumes "event_window c s = Some ((a, b), s')"
  shows "grows s s' \<and> cached s' c \<and> a = start_in s' c \<and> b = end_in s' c"
proof -
  obtain s1 d where 1: "randomizedStart c s = Some (a, s1)"
    and 2: "randomizedDuration c s1 = Some (d, s')" and b: "b = wrap64 (a + d)"
    using assms by (auto simp: event_window_def split: bind_splits)
  note d1 = randomizedStart_SomeD [OF 1] and d2 = randomizedDuration_SomeD [OF 2]
  have "start_in s' c = start_in s1 c" using d2 by (simp add: start_in_def)
  moreover have "cached s' c" using d1 d2 by (auto simp: cached_def)
  ultimately show ?thesis using d1 d2 b grows_trans by (auto simp: end_in_def)
qed

section \<open>Supersession and selection\<close>

definition in_window :: "Scheduler \<Rightarrow> DERControl \<Rightarrow> int64 \<Rightarrow> bool" where
  "in_window s c now \<longleftrightarrow> start_in s c \<le> now \<and> now < end_in s c"

definition beats :: "Scheduler \<Rightarrow> int64 \<Rightarrow> DERControl \<Rightarrow> DERControl \<Rightarrow> bool" where
  "beats s now c x \<longleftrightarrow> ctrl_MRID x \<noteq> ctrl_MRID c \<and> \<not> cancelled x \<and> in_window s x now \<and>
     CreationTime c < CreationTime x"

definition superseded_in :: "Scheduler \<Rightarrow> DERControl \<Rightarrow> DERControl list \<Rightarrow> int64 \<Rightarrow> bool" where
  "superseded_in s c cs now \<longleftrightarrow> (\<exists>other \<in> set cs. beats s now c other)"

lemma in_window_grows: "cached s c \<Longrightarrow> grows s t \<Longrightarrow> in_window t c now = in_window s c now"
  using views_grow [of s c t] by (simp add: in_window_def)

lemma beats_grows: "cached s x \<Longrightarrow> grows s t \<Longrightarrow> beats t now c x = beats s now c x"
  using in_window_grows [of s x t now] by (simp add: beats_def)

lemma isSuperseded_cons:
  assumes "isSuperseded c (x # cs) now s = Some (lost, s')"
  obtains (skip) "ctrl_MRID x = ctrl_MRID c \<or> cancelled x" "isSuperseded c cs now s = Some (lost, s')"
  | (loses) "lost" "grows s s'" "cached s' x" "beats s' now c x"
  | (keeps) s1 where "grows s s1" "cached s1 x" "\<not> beats s1 now c x"
      "isSuperseded c cs now s1 = Some (lost, s')"
proof (cases "ctrl_MRID x = ctrl_MRID c \<or> cancelled x")
  case True
  with assms show thesis by (intro skip) (auto split: if_splits)
next
  case False
  then obtain a b s1 where w: "event_window x s = Some ((a, b), s1)"
    and r: "(if a \<le> now \<and> now < b \<and> CreationTime c < CreationTime x then Some (True, s1)
             else isSuperseded c cs now s1) = Some (lost, s')"
    using assms by (auto split: bind_splits)
  note W = event_window_SomeD [OF w]
  have "beats s1 now c x \<longleftrightarrow> a \<le> now \<and> now < b \<and> CreationTime c < CreationTime x"
    using W False by (simp add: in_window_def beats_def)
  then show thesis using r W loses keeps by (cases "beats s1 now c x") auto
qed

lemma isSuperseded_SomeD:
  "isSuperseded c cs now s = Some (lost, s') \<Longrightarrow> grows s s' \<and>
    (lost \<longrightarrow> (\<exists>x \<in> set cs. cached s' x \<and> beats s' now c x)) \<and>
    (\<not> lost \<longrightarrow> (\<forall>x \<in> set cs. ctrl_MRID x \<noteq> ctrl_MRID c \<and> \<not> cancelled x \<longrightarrow>
                     cached s' x \<and> \<not> beats s' now c x))"
proof (induction cs arbitrary: s)
  case Nil
  then show ?case by auto
next
  case (Cons x cs)
  from Cons.prems show ?case
  proof (cases rule: isSuperseded_cons)
    case skip
    then show ?thesis using Cons.IH [of s] by auto
  next
    case loses
    then show ?thesis by auto
  next
    case (keeps s1)
    note I = Cons.IH [OF keeps(4)]
    have "cached s' x" "\<not> beats s' now c x" using I keeps cached_grows beats_grows by blast+
    with I keeps(1) grows_trans show ?thesis by auto
  qed
qed

text \<open>The answer is a function of the caches it leaves, and of any later ones.\<close>

lemma isSuperseded_iff:
  assumes "isSuperseded c cs now s = Some (lost, s')" and "grows s' t"
  shows "lost \<longleftrightarrow> superseded_in t c cs now"
proof (cases lost)
  case True
  then show ?thesis using isSuperseded_SomeD [OF assms(1)] beats_grows [OF _ assms(2)]
    unfolding superseded_in_def by blast
next
  case False
  have "\<not> beats t now c x" if "x \<in> set cs" for x
    using that False isSuperseded_SomeD [OF assms(1)] beats_grows [OF _ assms(2), of x now c]
    by (cases "ctrl_MRID x \<noteq> ctrl_MRID c \<and> \<not> cancelled x") (auto simp: beats_def)
  with False show ?thesis unfolding superseded_in_def by blast
qed

text \<open>An event that may be applied now, judged by the cached timing.\<close>

definition eligible :: "Scheduler \<Rightarrow> DERControl list \<Rightarrow> int64 \<Rightarrow> DERControl \<Rightarrow> bool" where
  "eligible s cs now c \<longleftrightarrow> \<not> cancelled c \<and> in_window s c now \<and>
     \<not> (potentially_superseded c \<and> superseded_in s c cs now)"

definition newer_eq :: "DERControl \<Rightarrow> DERControl \<Rightarrow> bool" where
  "newer_eq x y \<longleftrightarrow> CreationTime y < CreationTime x \<or>
     CreationTime y = CreationTime x \<and> ctrl_MRID y \<le> ctrl_MRID x"

lemma newer_eq_refl [simp]: "newer_eq x x"
  by (simp add: newer_eq_def)

lemma newer_eq_trans: "newer_eq x y \<Longrightarrow> newer_eq y z \<Longrightarrow> newer_eq x z"
  by (auto simp: newer_eq_def)

lemma newer_iff: "newer c (Some b) \<longleftrightarrow> \<not> newer_eq b c"
  by (auto simp: newer_def newer_eq_def)

lemma newer_newer_eq: "newer c (Some b) \<Longrightarrow> newer_eq c b"
  by (auto simp: newer_def newer_eq_def)

lemma active_scan_cons:
  assumes "active_scan all now (c # cs) best s = Some (b, s')"
  obtains s1 where "grows s s1" "\<not> cancelled c \<Longrightarrow> cached s1 c"
    "\<And>t. grows s1 t \<Longrightarrow> \<not> eligible t all now c" "active_scan all now cs best s1 = Some (b, s')"
  | s1 where "grows s s1" "cached s1 c" "\<And>t. grows s1 t \<Longrightarrow> eligible t all now c"
    "active_scan all now cs (if newer c best then Some c else best) s1 = Some (b, s')"
proof (cases "cancelled c")
  case True
  with assms show thesis by (intro that(1) [of s]) (auto simp: eligible_def)
next
  case False
  then obtain st en s1 where w: "event_window c s = Some ((st, en), s1)"
    and r: "(if \<not> InWindow st en now then active_scan all now cs best s1
       else do { (lost, s) \<leftarrow> (if potentially_superseded c then isSuperseded c all now s1 else Some (False, s1));
                 if lost then active_scan all now cs best s
                 else active_scan all now cs (if newer c best then Some c else best) s }) = Some (b, s')"
    using assms by (auto split: bind_splits)
  note W = event_window_SomeD [OF w]
  have iw: "in_window t c now \<longleftrightarrow> InWindow st en now" if "grows s1 t" for t
    using W in_window_grows [of s1 c t now] that by (simp add: in_window_def InWindow_def)
  show thesis
  proof (cases "InWindow st en now")
    case nw: False
    then show thesis using r W iw by (intro that(1) [of s1]) (auto simp: eligible_def)
  next
    case yw: True
    then obtain lost s2 where l: "(if potentially_superseded c then isSuperseded c all now s1 else Some (False, s1)) = Some (lost, s2)"
      and r2: "(if lost then active_scan all now cs best s2
                else active_scan all now cs (if newer c best then Some c else best) s2) = Some (b, s')"
      using r by (auto split: bind_splits)
    have g: "grows s1 s2" using l isSuperseded_SomeD by (auto split: if_splits)
    have el: "eligible t all now c \<longleftrightarrow> \<not> lost" if "grows s2 t" for t
    proof -
      have "lost \<longleftrightarrow> potentially_superseded c \<and> superseded_in t c all now"
        using l isSuperseded_iff [OF _ that] by (auto split: if_splits)
      then show ?thesis using False iw [OF grows_trans [OF g that]] yw by (simp add: eligible_def)
    qed
    have gs: "grows s s2" "cached s2 c" using W g grows_trans cached_grows by blast+
    show thesis
    proof (cases lost)
      case True
      with r2 el gs show thesis by (intro that(1) [of s2]) auto
    next
      case False
      with r2 el gs show thesis by (intro that(2) [of s2]) auto
    qed
  qed
qed

definition selects :: "Scheduler \<Rightarrow> DERControl list \<Rightarrow> int64 \<Rightarrow> DERControl list \<Rightarrow> DERControl option
    \<Rightarrow> DERControl option \<Rightarrow> bool" where
  "selects t all now cs best b \<longleftrightarrow>
     (b = best \<or> (\<exists>x \<in> set cs. b = Some x \<and> eligible t all now x)) \<and>
     (\<forall>y. y \<in> set_option best \<or> y \<in> set cs \<and> eligible t all now y \<longrightarrow>
        (\<exists>x. b = Some x \<and> newer_eq x y))"

lemma active_scan_SomeD:
  "active_scan all now cs best s = Some (b, s') \<Longrightarrow> grows s s' \<and>
     (\<forall>c \<in> set cs. \<not> cancelled c \<longrightarrow> cached s' c) \<and> selects s' all now cs best b"
proof (induction cs arbitrary: best s)
  case Nil
  then show ?case by (cases best) (auto simp: selects_def)
next
  case (Cons c cs)
  from Cons.prems show ?case
  proof (cases rule: active_scan_cons)
    case (1 s1)
    note I = Cons.IH [OF 1(4)]
    have "\<not> eligible s' all now c" using I 1(3) by blast
    moreover have "\<not> cancelled c \<longrightarrow> cached s' c" using I 1(2) cached_grows by blast
    ultimately show ?thesis using I 1(1) grows_trans by (auto simp: selects_def)
  next
    case (2 s1)
    note I = Cons.IH [OF 2(4)]
    have e: "eligible s' all now c" "cached s' c" using I 2(2,3) cached_grows by blast+
    let ?best = "if newer c best then Some c else best"
    have sel: "selects s' all now cs ?best b" using I by blast
    have up: "\<exists>z. ?best = Some z \<and> newer_eq z y" if "y \<in> set_option best \<or> y = c" for y
    proof (cases best)
      case None
      with that show ?thesis by (auto simp: newer_def)
    next
      case (Some z)
      then show ?thesis using that newer_iff [of c z] newer_newer_eq [of c z] by (cases "newer c best") auto
    qed
    have "\<exists>x. b = Some x \<and> newer_eq x y"
      if "y \<in> set_option best \<or> y \<in> set (c # cs) \<and> eligible s' all now y" for y
    proof (cases "y \<in> set_option best \<or> y = c")
      case True
      then obtain z where z: "?best = Some z" "newer_eq z y" using up by blast
      then obtain x where "b = Some x" "newer_eq x z"
        using sel unfolding selects_def by (metis option.set_intros)
      with z newer_eq_trans show ?thesis by blast
    next
      case False
      then show ?thesis using that sel unfolding selects_def by auto
    qed
    moreover have "b = best \<or> (\<exists>x \<in> set (c # cs). b = Some x \<and> eligible s' all now x)"
      using sel e unfolding selects_def by (auto split: if_splits)
    ultimately show ?thesis using I 2(1) e grows_trans by (auto simp: selects_def)
  qed
qed

section \<open>Evaluation\<close>

lemma activeEvent_SomeD:
  assumes "activeEvent hp now s = Some (r, s')" and "Controls hp = Some cs"
  shows "grows s s' \<and> (\<forall>c \<in> set cs. \<not> cancelled c \<longrightarrow> cached s' c) \<and>
    (case r of None \<Rightarrow> \<forall>c \<in> set cs. \<not> eligible s' cs now c
     | Some ac \<Rightarrow> \<exists>c \<in> set cs. eligible s' cs now c \<and> MRID ac = ctrl_MRID c \<and>
          Base ac = ctrl_Base c \<and> Source ac = ''event'' \<and> ValidUntil ac = end_in s' c \<and>
          Held ac = False \<and> (\<forall>d \<in> set cs. eligible s' cs now d \<longrightarrow> newer_eq c d))"
proof -
  obtain best s1 where a: "active_scan cs now cs None s = Some (best, s1)"
    using assms by (auto simp: activeEvent_def split: bind_splits)
  note A = active_scan_SomeD [OF a]
  show ?thesis
  proof (cases best)
    case None
    then have "r = None" "s' = s1" using assms a by (auto simp: activeEvent_def)
    with A None show ?thesis by (auto simp: selects_def)
  next
    case (Some c)
    then have c: "c \<in> set cs" "eligible s1 cs now c" "\<And>d. d \<in> set cs \<Longrightarrow> eligible s1 cs now d \<Longrightarrow> newer_eq c d"
      using A by (auto simp: selects_def)
    obtain st en where w: "event_window c s1 = Some ((st, en), s')"
      and r: "\<exists>ac. r = Some ac \<and> MRID ac = ctrl_MRID c \<and> Base ac = ctrl_Base c \<and>
         Source ac = ''event'' \<and> ValidUntil ac = en \<and> Held ac = False"
      using assms a Some by (auto simp: activeEvent_def split: bind_splits)
    note W = event_window_SomeD [OF w]
    have cc: "cached s1 d" if "d \<in> set cs" "\<not> cancelled d" for d using that A by blast
    have b: "beats s' now d x = beats s1 now d x" if "x \<in> set cs" for d x
      using that cc [of x] beats_grows [of s1 x s' now d] W by (cases "cancelled x") (auto simp: beats_def)
    have el: "eligible s' cs now d = eligible s1 cs now d" if "d \<in> set cs" for d
      using that cc [of d] in_window_grows [of s1 d s' now] W b
      by (cases "cancelled d") (auto simp: eligible_def superseded_in_def)
    have "\<not> cancelled d \<longrightarrow> cached s' d" if "d \<in> set cs" for d
      using cc [of d] that W cached_grows by blast
    moreover have "grows s s'" using A W grows_trans by blast
    ultimately show ?thesis using r W c el by (auto intro!: bexI [of _ c])
  qed
qed

definition controls_of :: "ProgramState \<Rightarrow> DERControl list" where
  "controls_of p = (case Controls p of None \<Rightarrow> [] | Some cs \<Rightarrow> cs)"

lemma prune_same [simp]:
  "lastGood (pruneRandOffsets ps s) = lastGood s" "expiryHold (pruneRandOffsets ps s) = expiryHold s"
  "expiryHoldMRID (pruneRandOffsets ps s) = expiryHoldMRID s" "rng (pruneRandOffsets ps s) = rng s"
  by (simp_all add: pruneRandOffsets_def Let_def)

lemma resolve_cases:
  assumes "resolve programs now s = Some ((r, found), s')"
  obtains (absent) "programs = []" "r = None" "\<not> found" "s' = s"
  | (event) hp ac0 where "HighestPriorityProgram programs = Some hp" "found"
      "activeEvent hp now (pruneRandOffsets programs s) = Some (Some ac0, s')" "Controls hp \<noteq> None"
      "r = Some (case DefaultControl hp of None \<Rightarrow> ac0
                 | Some d \<Rightarrow> ac0\<lparr>Default := Some (default_Base d), DefaultMRID := default_MRID d\<rparr>)"
  | (fallback) hp where "HighestPriorityProgram programs = Some hp" "found"
      "grows (pruneRandOffsets programs s) s'"
      "\<forall>c \<in> set (controls_of hp). \<not> eligible s' (controls_of hp) now c"
      "r = map_option (default_control hp) (DefaultControl hp)"
proof (cases "HighestPriorityProgram programs")
  case None
  then have "resolve programs now s = Some ((None, False), s)" by (simp only: resolve_def option.case)
  then show thesis using assms absent None by simp
next
  case (Some hp)
  obtain ev s1 where e: "(case Controls hp of None \<Rightarrow> Some (None, pruneRandOffsets programs s)
       | Some cs \<Rightarrow> if cs = [] then Some (None, pruneRandOffsets programs s)
                    else activeEvent hp now (pruneRandOffsets programs s)) = Some (ev, s1)"
    and r: "Some (case ev of
                  Some ac \<Rightarrow>
                    ((Some (case DefaultControl hp of None \<Rightarrow> ac
                        | Some d \<Rightarrow> ac\<lparr>Default := Some (default_Base d), DefaultMRID := default_MRID d\<rparr>),
                      True), s1)
                | None \<Rightarrow>
                    (case DefaultControl hp of
                        Some d \<Rightarrow> ((Some (default_control hp d), True), s1)
                      | None \<Rightarrow> ((None, True), s1))) = Some ((r, found), s')"
    using assms Some by (auto simp: resolve_def Let_def split: bind_splits)
  show thesis
  proof (cases ev)
    case (Some ac)
    then have "Controls hp \<noteq> None" "activeEvent hp now (pruneRandOffsets programs s) = Some (Some ac, s1)"
      using e by (auto split: option.splits if_splits)
    then show thesis using event [OF \<open>HighestPriorityProgram programs = Some hp\<close>] r Some by auto
  next
    case None
    have "grows (pruneRandOffsets programs s) s1 \<and> (\<forall>c \<in> set (controls_of hp). \<not> eligible s1 (controls_of hp) now c)"
    proof (cases "controls_of hp = []")
      case True
      then show ?thesis using e by (auto simp: controls_of_def split: option.splits)
    next
      case False
      then obtain cs where cs: "Controls hp = Some cs" "cs \<noteq> []" by (auto simp: controls_of_def split: option.splits)
      then show ?thesis using e None activeEvent_SomeD [of hp now _ None s1 cs] by (simp add: controls_of_def)
    qed
    then show thesis using fallback [OF \<open>HighestPriorityProgram programs = Some hp\<close>] r None
      by (auto split: option.splits)
  qed
qed

lemma resolve_keeps:
  assumes "resolve programs now s = Some ((r, found), s')"
  shows "lastGood s' = lastGood s \<and> expiryHold s' = expiryHold s \<and> expiryHoldMRID s' = expiryHoldMRID s"
  using assms
proof (cases rule: resolve_cases)
  case (event hp ac0)
  then obtain cs where "Controls hp = Some cs" by blast
  then show ?thesis using activeEvent_SomeD [OF event(3)] by (simp add: grows_def)
qed (simp_all add: grows_def)

section \<open>Retention\<close>

lemma implausible_cong:
  "Base a = Base b \<Longrightarrow> Extended a = Extended b \<Longrightarrow> Curves a = Curves b \<Longrightarrow>
     implausibleReason a = implausibleReason b"
  by (simp only: implausibleReason_def ResolvedModeCurves_def)

lemma hold_simps [simp]:
  "Base (hold a) = Base a" "Source (hold a) = Source a" "MRID (hold a) = MRID a"
  "ValidUntil (hold a) = ValidUntil a" "Extended (hold a) = Extended a" "Curves (hold a) = Curves a"
  "Held (hold a)"
  by (simp_all add: hold_def)

lemma implausibleReason_flag [simp]:
  "implausibleReason (hold a) = implausibleReason a"
  "implausibleReason (a\<lparr>ImplausibleReject := b\<rparr>) = implausibleReason a"
  "implausibleReason (a\<lparr>Default := x, DefaultMRID := m\<rparr>) = implausibleReason a"
  by (rule implausible_cong; simp)+

lemma expiry_step_keeps:
  "expiry_step hp now s = (h, s') \<Longrightarrow> lastGood s' = lastGood s \<and> Confirm (expiryHold s') = Confirm (expiryHold s)"
  by (auto simp: expiry_step_def Observe_def Reset_def Let_def split: option.splits if_splits)

lemma expiry_step_hold:
  "expiry_step hp now s = (True, s') \<Longrightarrow> \<exists>lg. lastGood s = Some lg \<and> Source lg = ''event'' \<and>
     stillServed hp (MRID lg) \<and> controlExpired lg now"
  by (auto simp: expiry_step_def Let_def split: option.splits if_splits)

text \<open>Every answer is the adopted control, or the retained one marked as held, or nothing.\<close>

lemma failClosed_cases:
  assumes "failClosed r found hp now s = ((out, hooks), s')"
  obtains (adopt) c where "r = Some c" "implausibleReason c = ''''" "out = Some c" "lastGood s' = Some c" "hooks = []"
  | (held) lg where "lastGood s = Some lg" "lastGood s' = Some lg"
      "out = Some (hold lg) \<or> out = Some ((hold lg)\<lparr>ImplausibleReject := True\<rparr>)"
  | (released) "out = None" "lastGood s' = None"
proof -
  obtain h s1 where e: "expiry_step hp now s = (h, s1)" by force
  note k = expiry_step_keeps [OF e]
  show thesis
  proof (cases r)
    case None
    then show thesis using assms e k held released expiry_step_hold [of hp now s s1]
      by (auto simp: failClosed_def unexpired_def Let_def split: option.splits if_splits)
  next
    case (Some c)
    show thesis
    proof (cases "implausibleReason c = ''''")
      case True
      then show thesis using assms e k Some held adopt
        by (auto simp: failClosed_def adopt_control_def Let_def split: option.splits if_splits)
    next
      case False
      then show thesis using assms e k Some held released
        by (auto simp: failClosed_def unexpired_def Let_def split: option.splits if_splits)
    qed
  qed
qed

section \<open>The active-power gate\<close>

lemma plausibleLimit_iff:
  assumes "\<bar>ap_Value a\<bar> \<le> 2 ^ 15" and "ap_Multiplier a \<le> 127"
  shows "plausibleLimit (Some a) \<longleftrightarrow>
    ap_Multiplier a < 0 \<or> \<bar>ap_Value a\<bar> * 10 ^ nat (ap_Multiplier a) \<le> 10 ^ 9"
proof -
  define v m where "v = ap_Value a" and "m = ap_Multiplier a"
  have v: "\<bar>v\<bar> \<le> 32768" and m: "m \<le> 127" using assms by (simp_all add: v_def m_def)
  have rv: "\<bar>of_int v :: rat\<bar> \<le> 32768" using v by (metis of_int_abs of_int_le_iff of_int_numeral)
  have flv: "fl (of_int v) = Fin (of_int v)" using v by (intro fl_of_int) simp
  have p: "plausibleLimit (Some a) \<longleftrightarrow> (let w = fmul (Fin (of_int v)) (pow10 m) in
      \<not> is_nan w \<and> \<not> is_inf w \<and> fle (fabs w) (Fin 1000000000))"
    by (simp add: plausibleLimit_def maxPlausibleLimitW_def v_def [symmetric] m_def [symmetric] flv)
  consider (neg) "m < 0" | (small) "0 \<le> m" "m \<le> 9" | (large) "10 \<le> m" by linarith
  then have "plausibleLimit (Some a) \<longleftrightarrow> m < 0 \<or> \<bar>v\<bar> * 10 ^ nat m \<le> 10 ^ 9"
  proof cases
    case neg
    then obtain q where q: "pow10 m = Fin q" "0 \<le> q" "q \<le> 1" using pow10_neg [of m] by (cases "pow10 m") auto
    have "\<bar>of_int v * q\<bar> \<le> 32768 * 1" unfolding abs_mult using rv q by (intro mult_mono) auto
    then have b: "of_int v * q \<le> of_int 32768" "of_int (- 32768) \<le> of_int v * q" by simp_all
    from fl_le_int [OF b(1)] fl_ge_int [OF b(2)]
    obtain y where "fl (of_int v * q) = Fin y" "\<bar>y\<bar> \<le> 32768" by (cases "fl (of_int v * q)") auto
    with neg q p show ?thesis by simp
  next
    case small
    define k where "k = nat m"
    have k: "k \<le> 9" using small by (simp add: k_def)
    have "(10 :: int) ^ k \<le> 10 ^ 9" using k by (intro power_increasing) auto
    then have "\<bar>v * 10 ^ k\<bar> \<le> 32768 * 10 ^ 9" unfolding abs_mult using v by (intro mult_mono) auto
    then have "fl (of_int (v * 10 ^ k)) = Fin (of_int (v * 10 ^ k))" by (intro fl_of_int) simp
    then have w: "fmul (Fin (of_int v)) (pow10 m) = Fin (of_int (v * 10 ^ k))"
      using small pow10_small [of m] by (simp add: k_def)
    have "\<bar>of_int (v * 10 ^ k) :: rat\<bar> \<le> 1000000000 \<longleftrightarrow> \<bar>v * 10 ^ k\<bar> \<le> 1000000000"
      by (metis of_int_abs of_int_le_iff of_int_numeral)
    then show ?thesis using small by (simp add: p w Let_def k_def abs_mult)
  next
    case large
    then obtain q where q: "pow10 m = Fin q" "10 ^ 10 \<le> q"
      using pow10_finite [of m] pow10_large [of m] m by auto
    have L: "\<bar>v\<bar> * 10 ^ nat m \<le> 10 ^ 9 \<longleftrightarrow> v = 0"
    proof (cases "v = 0")
      case False
      have "(10 :: int) ^ 10 \<le> 10 ^ nat m" using large by (intro power_increasing) auto
      then have "1 * (10 :: int) ^ 10 \<le> \<bar>v\<bar> * 10 ^ nat m" using False by (intro mult_mono) auto
      with False show ?thesis by simp
    qed simp
    show ?thesis
    proof (cases "v = 0")
      case True
      then show ?thesis using large p q by simp
    next
      case False
      then have "1 \<le> v \<or> v \<le> - 1" by linarith
      then have "10 ^ 10 \<le> of_int v * q \<or> of_int v * q \<le> - (10 ^ 10)"
      proof
        assume "1 \<le> v"
        then have "1 * 10 ^ 10 \<le> of_int v * q" using q by (intro mult_mono) auto
        then show ?thesis by simp
      next
        assume "v \<le> - 1"
        then have "1 * 10 ^ 10 \<le> of_int (- v) * q" using q by (intro mult_mono) auto
        then show ?thesis by simp
      qed
      then have "\<not> fle (fabs (fl (of_int v * q))) (Fin 1000000000)"
        using fl_ge_int [of "10 ^ 10" "of_int v * q"] fl_le_int [of "of_int v * q" "- (10 ^ 10)"]
        by (cases "fl (of_int v * q)") auto
      then show ?thesis using large p q L False by (simp add: Let_def)
    qed
  qed
  then show ?thesis by (simp only: v_def m_def)
qed

section \<open>Runs\<close>

inductive evals :: "(nat \<Rightarrow> nat) \<Rightarrow> Scheduler \<Rightarrow> bool" for seed where
  evals_new: "evals seed (New seed)"
| evals_step: "evals seed s \<Longrightarrow> Evaluate programs now s = Some ((out, hooks), s') \<Longrightarrow> evals seed s'"
| evals_superseded: "evals seed s \<Longrightarrow> SupersededMRIDs programs now s = Some (ms, s') \<Longrightarrow> evals seed s'"

definition sched_inv :: "Scheduler \<Rightarrow> bool" where
  "sched_inv s \<longleftrightarrow> Confirm (expiryHold s) = 2 \<and>
     (\<forall>lg \<in> set_option (lastGood s). implausibleReason lg = '''')"

lemma Evaluate_SomeD:
  assumes "Evaluate programs now s = Some ((out, hooks), s')"
  obtains r found s1 where "resolve programs now s = Some ((r, found), s1)"
    and "failClosed r found (HighestPriorityProgram programs) now s1 = ((out, hooks), s')"
  using assms by (auto simp: Evaluate_def split: bind_splits)

lemma failClosed_confirm:
  "failClosed r found hp now s = (d, s') \<Longrightarrow> Confirm (expiryHold s') = Confirm (expiryHold s)"
  using expiry_step_keeps [of hp now s]
  by (cases "expiry_step hp now s")
    (auto simp: failClosed_def adopt_control_def Let_def split: option.splits if_splits)

lemma sched_inv_step:
  assumes "sched_inv s" and "Evaluate programs now s = Some ((out, hooks), s')"
  shows "sched_inv s' \<and> (\<forall>ac \<in> set_option out. implausibleReason ac = '''')"
proof -
  obtain r found s1 where r: "resolve programs now s = Some ((r, found), s1)"
    and f: "failClosed r found (HighestPriorityProgram programs) now s1 = ((out, hooks), s')"
    by (rule Evaluate_SomeD [OF assms(2)])
  note k = resolve_keeps [OF r] and c = failClosed_confirm [OF f]
  from f show ?thesis
  proof (cases rule: failClosed_cases)
    case (adopt c)
    then show ?thesis using assms(1) k c by (simp add: sched_inv_def)
  next
    case (held lg)
    then show ?thesis using assms(1) k c by (auto simp: sched_inv_def)
  next
    case released
    then show ?thesis using assms(1) k c by (simp add: sched_inv_def)
  qed
qed

lemma superseded_scan_grows:
  "superseded_scan all now cs s = Some (ms, s') \<Longrightarrow> grows s s'"
proof (induction cs arbitrary: s ms)
  case Nil
  then show ?case by simp
next
  case (Cons c cs)
  show ?case
  proof (cases "cancelled c")
    case True
    then show ?thesis using Cons by simp
  next
    case False
    obtain st en s1 where w: "event_window c s = Some ((st, en), s1)"
      using Cons.prems False by (auto split: bind_splits)
    have g1: "grows s s1" using event_window_SomeD [OF w] by simp
    show ?thesis
    proof (cases "InWindow st en now")
      case nw: False
      then have "superseded_scan all now cs s1 = Some (ms, s')" using Cons.prems False w by simp
      then show ?thesis using Cons.IH g1 grows_trans by blast
    next
      case True
      then obtain lost s2 ms2 where i: "isSuperseded c all now s1 = Some (lost, s2)"
        and r: "superseded_scan all now cs s2 = Some (ms2, s')"
        using Cons.prems False w by (auto split: bind_splits if_splits)
      have "grows s1 s2" using isSuperseded_SomeD [OF i] by simp
      with g1 Cons.IH [OF r] show ?thesis by (metis grows_trans)
    qed
  qed
qed

lemma SupersededMRIDs_grows:
  "SupersededMRIDs programs now s = Some (ms, s') \<Longrightarrow> grows s s'"
  by (auto simp: SupersededMRIDs_def superseded_scan_grows split: option.splits)

lemma evals_inv: "evals seed s \<Longrightarrow> sched_inv s"
proof (induction rule: evals.induct)
  case evals_new
  show ?case by (simp add: sched_inv_def New_def)
next
  case (evals_step s programs now out hooks s')
  then show ?case using sched_inv_step by blast
next
  case (evals_superseded s programs now ms s')
  then show ?case using SupersededMRIDs_grows [of programs now s ms s'] by (simp add: sched_inv_def grows_def)
qed

section \<open>Randomization\<close>

definition small :: "int32 option \<Rightarrow> bool" where
  "small r \<longleftrightarrow> (\<forall>v. r = Some v \<longrightarrow> \<bar>v\<bar> < 2 ^ 30)"

definition small_event :: "DERControl \<Rightarrow> bool" where
  "small_event c \<longleftrightarrow> small (RandomizeStart c) \<and> small (RandomizeDuration c)"

lemma draw_offset_small:
  assumes "\<bar>r\<bar> < 2 ^ 30"
  shows "\<exists>off s'. draw_offset r s = Some (off, s') \<and> \<bar>off\<bar> \<le> \<bar>r\<bar> \<and> grows s s' \<and>
    randOffsets s' = randOffsets s \<and> randDurs s' = randDurs s"
proof -
  define w where "w = \<bar>r\<bar>"
  have w: "0 \<le> w" "w < 2 ^ 30" using assms by (simp_all add: w_def)
  have win: "(if r < 0 then wrap32 (- r) else r) = w"
    using assms by (auto simp: w_def in_int32_def)
  have n: "wrap32 (2 * w + 1) = 2 * w + 1" using w by (intro wrap32_id) (simp add: in_int32_def)
  define k where "k = int (rng s (rng_pos s)) mod (2 * w + 1)"
  have k: "0 \<le> k" "k < 2 * w + 1" unfolding k_def using w
    pos_mod_bound [of "2 * w + 1" "int (rng s (rng_pos s))"] by auto
  have "wrap32 k = k" using k w by (intro wrap32_id) (simp add: in_int32_def)
  moreover have "wrap32 (k - w) = k - w" using k w by (intro wrap32_id) (simp add: in_int32_def)
  ultimately have "draw_offset r s = Some (k - w, s\<lparr>rng_pos := Suc (rng_pos s)\<rparr>)"
    using w by (simp add: draw_offset_def win n Int63n_def k_def)
  then show ?thesis using k by (auto simp: w_def grows_def)
qed

lemma draw_offset_None_iff:
  assumes "in_int32 r"
  shows "draw_offset r s = None \<longleftrightarrow> 2 ^ 30 \<le> \<bar>r\<bar> \<and> \<bar>r\<bar> < 2 ^ 31"
proof -
  define w where "w = (if r < 0 then wrap32 (- r) else r)"
  have "draw_offset r s = None \<longleftrightarrow> wrap32 (2 * w + 1) \<le> 0"
    by (auto simp: draw_offset_def Int63n_def w_def Let_def split: bind_splits if_splits)
  also have "\<dots> \<longleftrightarrow> 2 ^ 30 \<le> \<bar>r\<bar> \<and> \<bar>r\<bar> < 2 ^ 31"
  proof (cases "r = - (2 ^ 31)")
    case True
    then show ?thesis by (simp add: w_def wrap32_def)
  next
    case False
    then have w: "w = \<bar>r\<bar>" "\<bar>r\<bar> < 2 ^ 31"
      using assms by (auto simp: w_def in_int32_def)
    show ?thesis
    proof (cases "w < 2 ^ 30")
      case True
      then have "wrap32 (2 * w + 1) = 2 * w + 1" using w by (intro wrap32_id) (simp add: in_int32_def)
      then show ?thesis using True w by simp
    next
      case False
      define k where "k = 2 * w + 1 + 2 ^ 31 - 2 ^ 32"
      have "0 \<le> k" "k < 2 ^ 31" using False w by (simp_all add: k_def)
      then have "(k + 2 ^ 32) mod 2 ^ 32 = k" by simp
      then have "(2 * w + 1 + 2 ^ 31) mod 2 ^ 32 = 2 * w + 1 + 2 ^ 31 - 2 ^ 32"
        unfolding k_def by (simp only: diff_add_cancel)
      then show ?thesis using False w by (simp add: wrap32_def)
    qed
  qed
  finally show ?thesis .
qed

lemma draw_offset_total: "draw_offset r s = None \<Longrightarrow> \<not> \<bar>r\<bar> < 2 ^ 30"
  using draw_offset_small [of r s] by auto

lemma randomizedStart_total: "small (RandomizeStart c) \<Longrightarrow> randomizedStart c s \<noteq> None"
  by (auto simp: randomizedStart_def small_def Let_def dest: draw_offset_total split: option.splits bind_splits)

lemma randomizedDuration_total: "small (RandomizeDuration c) \<Longrightarrow> randomizedDuration c s \<noteq> None"
  by (auto simp: randomizedDuration_def small_def Let_def dest: draw_offset_total split: option.splits bind_splits)

lemma event_window_total:
  assumes "small_event c"
  shows "\<exists>a b s'. event_window c s = Some ((a, b), s')"
proof -
  obtain v s1 where v: "randomizedStart c s = Some (v, s1)"
    using assms randomizedStart_total [of c s] by (auto simp: small_event_def)
  obtain d s2 where "randomizedDuration c s1 = Some (d, s2)"
    using assms randomizedDuration_total [of c s1] by (auto simp: small_event_def)
  with v show ?thesis by (simp add: event_window_def)
qed

lemma isSuperseded_total: "\<forall>x \<in> set cs. small_event x \<Longrightarrow> isSuperseded c cs now s \<noteq> None"
proof (induction cs arbitrary: s)
  case (Cons x cs)
  then have IH: "isSuperseded c cs now t \<noteq> None" for t by simp
  obtain a b s1 where "event_window x s = Some ((a, b), s1)" using Cons.prems event_window_total [of x s] by auto
  then show ?case using IH [of s] IH [of s1] by auto
qed simp

lemma active_scan_total:
  "\<forall>x \<in> set all. small_event x \<Longrightarrow> set cs \<subseteq> set all \<Longrightarrow> active_scan all now cs best s \<noteq> None"
proof (induction cs arbitrary: best s)
  case (Cons x cs)
  have IH: "active_scan all now cs best s \<noteq> None" for best s using Cons by simp
  obtain a b s1 where w: "event_window x s = Some ((a, b), s1)"
    using Cons.prems event_window_total [of x s] by auto
  obtain l s2 where "isSuperseded x all now s1 = Some (l, s2)"
    using isSuperseded_total [of all x now s1] Cons.prems by auto
  then show ?case using IH w by (cases "potentially_superseded x") simp_all
qed simp

lemma resolve_total:
  assumes "\<forall>p \<in> set programs. \<forall>c \<in> set (controls_of p). small_event c"
  shows "\<exists>r s'. resolve programs now s = Some (r, s')"
proof (cases "HighestPriorityProgram programs")
  case None
  then have "resolve programs now s = Some ((None, False), s)" by (simp only: resolve_def option.case)
  then show ?thesis by blast
next
  case (Some hp)
  then have sm: "\<forall>c \<in> set (controls_of hp). small_event c" using assms highest_priority_in by blast
  have "\<exists>ev s'. (case Controls hp of None \<Rightarrow> Some (None, t)
       | Some cs \<Rightarrow> if cs = [] then Some (None, t) else activeEvent hp now t) = Some (ev, s')" for t
  proof (cases "Controls hp")
    case (Some cs)
    with sm have c: "\<forall>c \<in> set cs. small_event c" by (simp add: controls_of_def)
    obtain b s1 where a: "active_scan cs now cs None t = Some (b, s1)" using active_scan_total [OF c, of cs now None t] by auto
    show ?thesis
    proof (cases b)
      case None
      with a Some show ?thesis by (simp add: activeEvent_def)
    next
      case (Some e)
      then have "e \<in> set cs" using active_scan_SomeD [OF a] by (auto simp: selects_def)
      with c obtain x y s2 where "event_window e s1 = Some ((x, y), s2)" using event_window_total [of e s1] by blast
      with a Some \<open>Controls hp = Some cs\<close> show ?thesis by (simp add: activeEvent_def)
    qed
  qed simp
  then obtain ev s' where "(case Controls hp of None \<Rightarrow> Some (None, pruneRandOffsets programs s)
       | Some cs \<Rightarrow> if cs = [] then Some (None, pruneRandOffsets programs s)
                    else activeEvent hp now (pruneRandOffsets programs s)) = Some (ev, s')" by blast
  then show ?thesis using Some by (auto simp: resolve_def Let_def)
qed

text \<open>A cycle keeps every cached offset of an event that is still listed.\<close>

lemma resolve_caches:
  assumes "resolve programs now s = Some (r, s')" and "m \<in> set (live_mrids programs)"
  shows "randOffsets s m = Some v \<Longrightarrow> randOffsets s' m = Some v"
    and "randDurs s m = Some v \<Longrightarrow> randDurs s' m = Some v"
proof -
  obtain q found where r: "r = (q, found)" by force
  have g: "grows (pruneRandOffsets programs s) s' \<or> s' = s"
    using assms(1) unfolding r
  proof (cases rule: resolve_cases)
    case (event hp ac0)
    then obtain cs where "Controls hp = Some cs" by blast
    then show ?thesis using activeEvent_SomeD [OF event(3)] by blast
  qed simp_all
  have "randOffsets (pruneRandOffsets programs s) m = randOffsets s m"
    "randDurs (pruneRandOffsets programs s) m = randDurs s m"
    using assms(2) by (simp_all add: pruneRandOffsets_def Let_def)
  with g show "randOffsets s m = Some v \<Longrightarrow> randOffsets s' m = Some v"
    "randDurs s m = Some v \<Longrightarrow> randDurs s' m = Some v"
    by (auto simp: grows_def dest: map_leD)
qed

lemma failClosed_caches:
  "failClosed r found hp now s = (d, s') \<Longrightarrow> randOffsets s' = randOffsets s \<and> randDurs s' = randDurs s"
  by (auto simp: failClosed_def expiry_step_def adopt_control_def Let_def split: option.splits if_splits prod.splits)

section \<open>Properties\<close>

text \<open>
  Property C34: precedence resolution. Without programs nothing is resolved and no program is
  reported found. Otherwise the program chosen has the least primacy (then the least mRID) of
  all; when it lists an event that is not cancelled, whose randomized window contains the server
  time, and that is not superseded, the resolved control is such an event, the one with the
  latest creation time (then the greatest mRID), valid until its own window ends; and when it
  lists none, the resolved control is its default control, or nothing if it has none.
\<close>

theorem precedence_resolved:
  assumes "resolve programs now s = Some ((r, found), s')"
  shows "case HighestPriorityProgram programs of
      None \<Rightarrow> programs = [] \<and> r = None \<and> \<not> found
    | Some hp \<Rightarrow> found \<and> hp \<in> set programs \<and> (\<forall>q \<in> set programs. priority_le hp q) \<and>
       (if \<exists>c \<in> set (controls_of hp). eligible s' (controls_of hp) now c
        then \<exists>ac c. r = Some ac \<and> c \<in> set (controls_of hp) \<and> eligible s' (controls_of hp) now c \<and>
          (\<forall>d \<in> set (controls_of hp). eligible s' (controls_of hp) now d \<longrightarrow> newer_eq c d) \<and>
          Source ac = ''event'' \<and> MRID ac = ctrl_MRID c \<and> Base ac = ctrl_Base c \<and>
          ValidUntil ac = end_in s' c
        else r = map_option (default_control hp) (DefaultControl hp))"
  using assms
proof (cases rule: resolve_cases)
  case absent
  then show ?thesis by (simp add: HighestPriorityProgram_def)
next
  case (event hp ac0)
  then obtain cs where cs: "Controls hp = Some cs" by blast
  then obtain c where c: "c \<in> set cs" "eligible s' cs now c" "MRID ac0 = ctrl_MRID c"
    "Base ac0 = ctrl_Base c" "Source ac0 = ''event''" "ValidUntil ac0 = end_in s' c"
    "\<forall>d \<in> set cs. eligible s' cs now d \<longrightarrow> newer_eq c d"
    using activeEvent_SomeD [OF event(3) cs] by auto
  then show ?thesis using event highest_priority_in [OF event(1)] cs
    by (auto simp: controls_of_def intro!: exI [of _ c] split: option.splits)
next
  case (fallback hp)
  then show ?thesis using highest_priority_in [OF fallback(1)] by simp
qed

text \<open>
  Nothing implausible is ever served. Over every sequence of evaluations, whatever
  the server serves, each control returned passes the plausibility gate; and each of its
  active-power limits that the wire can encode is at most 1 GW in magnitude, computed exactly as
  value times ten to the multiplier.
\<close>

theorem served_controls_plausible:
  assumes "evals seed s" and "Evaluate programs now s = Some ((Some ac, hooks), s')"
    and "Some a \<in> {OpModExpLimW (Base ac), OpModMaxLimW (Base ac), OpModImpLimW (Base ac),
           OpModFixedW (Base ac), OpModGenLimW (Base ac), OpModLoadLimW (Base ac)}"
    and "\<bar>ap_Value a\<bar> \<le> 2 ^ 15" and "ap_Multiplier a \<le> 127"
  shows "plausibleControl ac \<and>
    (ap_Multiplier a < 0 \<or> \<bar>ap_Value a\<bar> * 10 ^ nat (ap_Multiplier a) \<le> 10 ^ 9)"
proof -
  have p: "implausibleReason ac = ''''" using sched_inv_step [OF evals_inv [OF assms(1)] assms(2)] by simp
  then have "plausibleLimit (Some a)"
    using assms(3) by (auto simp: implausibleReason_def Let_def split: if_splits)
  then show ?thesis using p plausibleLimit_iff [OF assms(4,5)] by (simp add: plausibleControl_def)
qed

text \<open>
  Property C11: a live event control is not dropped by an anomaly. While the adopted event has
  not reached its end, a cycle that finds no program at all, that resolves an implausible
  control, or in which the event is still listed and not cancelled but nothing other than the
  program's default resolves (a server clock stepped back before the event's start), serves the
  adopted event again, marked as held, and keeps it as the last good control.
\<close>

theorem live_event_not_dropped:
  assumes "Evaluate programs now s = Some ((out, hooks), s')"
    and "lastGood s = Some lg" and "Source lg = ''event''" and "\<not> controlExpired lg now"
    and "resolve programs now s = Some ((r, found), s1)"
    and "programs = [] \<or> (\<exists>c. r = Some c \<and> \<not> plausibleControl c) \<or>
         stillServed (HighestPriorityProgram programs) (MRID lg) \<and> (\<forall>c. r = Some c \<longrightarrow> Source c = ''default'')"
  shows "\<exists>ac. out = Some ac \<and> Held ac \<and> MRID ac = MRID lg \<and> Base ac = Base lg \<and>
     ValidUntil ac = ValidUntil lg \<and> lastGood s' = Some lg"
proof -
  have k: "lastGood s1 = Some lg" using resolve_keeps [OF assms(5)] assms(2) by simp
  have f: "failClosed r found (HighestPriorityProgram programs) now s1 = ((out, hooks), s')"
    using assms(1,5) by (simp add: Evaluate_def)
  obtain s2 where e: "expiry_step (HighestPriorityProgram programs) now s1 = (False, s2)"
    using assms(3,4) k by (simp add: expiry_step_def)
  have l: "lastGood s2 = Some lg" "unexpired s2 now = Some lg"
    using expiry_step_keeps [OF e] k assms(4) by (simp_all add: unexpired_def)
  have empty: "r = None \<and> \<not> found" if "programs = []" using assms(5) that by (simp add: resolve_def HighestPriorityProgram_def)
  show ?thesis
  proof (cases r)
    case None
    then show ?thesis using f e l assms(6) empty
      by (auto simp: failClosed_def split: if_splits)
  next
    case (Some c)
    then have ne: "programs \<noteq> []" using empty by auto
    show ?thesis
    proof (cases "plausibleControl c")
      case True
      then show ?thesis using f e l assms(3,4,6) Some ne
        by (auto simp: failClosed_def adopt_control_def plausibleControl_def)
    next
      case False
      then show ?thesis using f e l Some by (auto simp: failClosed_def plausibleControl_def Let_def)
    qed
  qed
qed

text \<open>
  Property C40: event timing is drawn once and stays put. When every listed randomization window
  is below 2^30 seconds, a cycle always completes, and every offset already drawn for an event
  that is still listed is the one used afterwards.
\<close>

theorem randomization_total_and_stable:
  assumes "\<forall>p \<in> set programs. \<forall>c \<in> set (controls_of p). small_event c"
    and "m \<in> set (live_mrids programs)"
  shows "\<exists>out hooks s'. Evaluate programs now s = Some ((out, hooks), s') \<and>
    (\<forall>v. randOffsets s m = Some v \<longrightarrow> randOffsets s' m = Some v) \<and>
    (\<forall>v. randDurs s m = Some v \<longrightarrow> randDurs s' m = Some v)"
proof -
  obtain r found s1 where r: "resolve programs now s = Some ((r, found), s1)"
    using resolve_total [OF assms(1)] by (metis prod.exhaust)
  obtain out hooks s' where f: "failClosed r found (HighestPriorityProgram programs) now s1 = ((out, hooks), s')"
    by (metis prod.exhaust)
  then show ?thesis
    using resolve_caches [OF r assms(2)] failClosed_caches [OF f] r by (auto simp: Evaluate_def)
qed

text \<open>
  The first draw for a server-supplied randomization window of magnitude between
  2^30 and 2^31 - 1 seconds panics (the product \<open>2*window+1\<close> is taken in \<open>int32\<close>, overflows and
  is negative), and it does so for no other window; every other draw gives an offset no larger
  than the window, which is cached.
\<close>

theorem randomized_start_panics_iff:
  assumes "RandomizeStart c = Some r" and "in_int32 r" and "r \<noteq> 0"
    and "randOffsets s (ctrl_MRID c) = None"
  shows "(randomizedStart c s = None \<longleftrightarrow> 2 ^ 30 \<le> \<bar>r\<bar> \<and> \<bar>r\<bar> < 2 ^ 31) \<and>
    (\<bar>r\<bar> < 2 ^ 30 \<longrightarrow> (\<exists>off s'. randomizedStart c s = Some (wrap64 (Start c + off), s') \<and>
       \<bar>off\<bar> \<le> \<bar>r\<bar> \<and> randOffsets s' (ctrl_MRID c) = Some off))"
proof -
  have "randomizedStart c s = None \<longleftrightarrow> draw_offset r s = None"
    using assms(1,3,4) by (auto simp: randomizedStart_def split: bind_splits)
  moreover have "\<exists>off s'. randomizedStart c s = Some (wrap64 (Start c + off), s') \<and>
       \<bar>off\<bar> \<le> \<bar>r\<bar> \<and> randOffsets s' (ctrl_MRID c) = Some off" if "\<bar>r\<bar> < 2 ^ 30"
  proof -
    note lt = that
    obtain off s1 where "draw_offset r s = Some (off, s1)" "\<bar>off\<bar> \<le> \<bar>r\<bar>"
      using draw_offset_small [OF lt] by blast
    then show ?thesis using assms(1,3,4) by (auto simp: randomizedStart_def)
  qed
  ultimately show ?thesis using draw_offset_None_iff [OF assms(2), of s] by (intro conjI impI) simp_all
qed

text \<open>A cycle in which the adopted event reads as ended although it is still listed, and at most
  the program's plausible default resolves.\<close>

definition end_reading :: "Scheduler \<Rightarrow> ActiveControl \<Rightarrow> ProgramState list \<Rightarrow> int64 \<Rightarrow> ActiveControl option \<Rightarrow> bool" where
  "end_reading s lg programs now r \<longleftrightarrow> lastGood s = Some lg \<and> Source lg = ''event'' \<and>
     controlExpired lg now \<and> stillServed (HighestPriorityProgram programs) (MRID lg) \<and>
     (\<exists>s1. resolve programs now s = Some ((r, True), s1)) \<and>
     (case r of None \<Rightarrow> True | Some c \<Rightarrow> Source c = ''default'' \<and> plausibleControl c)"

lemma end_reading_step:
  assumes "end_reading s lg programs now r" and "Evaluate programs now s = Some ((out, hooks), s')"
  defines "d \<equiv> (if expiryHoldMRID s = MRID lg then expiryHold s else Reset (expiryHold s))"
  shows "expiryHold s' = snd (Observe d True) \<and> expiryHoldMRID s' = MRID lg \<and>
    (if fst (Observe d True) then out = r \<and> lastGood s' = r
     else out = Some (hold lg) \<and> lastGood s' = Some lg)"
proof -
  obtain s1 where r: "resolve programs now s = Some ((r, True), s1)"
    using assms(1) by (auto simp: end_reading_def)
  note k = resolve_keeps [OF r]
  have f: "failClosed r True (HighestPriorityProgram programs) now s1 = ((out, hooks), s')"
    using assms(2) r by (simp add: Evaluate_def)
  obtain s2 where e: "expiry_step (HighestPriorityProgram programs) now s1 = (\<not> fst (Observe d True), s2)"
    and s2: "lastGood s2 = Some lg" "expiryHold s2 = snd (Observe d True)" "expiryHoldMRID s2 = MRID lg"
  proof -
    have "\<exists>s2. expiry_step (HighestPriorityProgram programs) now s1 = (\<not> fst (Observe d True), s2) \<and>
        lastGood s2 = Some lg \<and> expiryHold s2 = snd (Observe d True) \<and> expiryHoldMRID s2 = MRID lg"
      using assms(1) k by (auto simp: expiry_step_def end_reading_def d_def Let_def split: prod.splits)
    then show thesis using that by blast
  qed
  have u: "unexpired s2 now = None" using assms(1) s2 by (simp add: unexpired_def end_reading_def)
  show ?thesis
  proof (cases r)
    case None
    then show ?thesis using f e s2 u by (auto simp: failClosed_def split: if_splits)
  next
    case (Some c)
    then have "Source c = ''default''" "implausibleReason c = ''''" "controlExpired lg now"
      using assms(1) by (simp_all add: end_reading_def plausibleControl_def)
    then show ?thesis using f e s2 Some by (auto simp: failClosed_def adopt_control_def split: if_splits)
  qed
qed

text \<open>
  The end of an event is debounced. When the adopted event, still listed by the
  server, first reads as ended, that cycle serves the event again (held) and keeps it; only a
  second consecutive such reading releases it to what the program resolves (its default, or
  nothing).
\<close>

theorem event_end_debounced:
  assumes "evals seed s" and "expiryHoldMRID s \<noteq> MRID lg"
    and "end_reading s lg p1 n1 r1" and "Evaluate p1 n1 s = Some ((o1, h1), s1)"
    and "end_reading s1 lg p2 n2 r2" and "Evaluate p2 n2 s1 = Some ((o2, h2), s2)"
  shows "o1 = Some (hold lg) \<and> lastGood s1 = Some lg \<and> o2 = r2 \<and> lastGood s2 = r2"
proof -
  define d where "d = Reset (expiryHold s)"
  have c: "Confirm d = 2" using evals_inv [OF assms(1)] by (simp add: sched_inv_def d_def Reset_def)
  have 1: "\<not> fst (Observe d True)" and 2: "fst (Observe (snd (Observe d True)) True)"
    using debounced.fires_iff [of "expiryHold s" "[]" True] debounced.fires_iff [of "expiryHold s" "[True]" True] c
      trailing_simps(2) [of "[]"] trailing_simps(2) [of "[True]"] by (simp_all add: d_def Reset_def)
  note A = end_reading_step [OF assms(3,4)]
  then have s1: "expiryHold s1 = snd (Observe d True)" "expiryHoldMRID s1 = MRID lg"
    and o1: "o1 = Some (hold lg)" "lastGood s1 = Some lg"
    using assms(2) 1 by (auto simp: d_def)
  have "o2 = r2 \<and> lastGood s2 = r2" using end_reading_step [OF assms(5,6)] s1 2 by simp
  with o1 show ?thesis by simp
qed

section \<open>Concrete cycles\<close>

text \<open>One program with an event on 100--150 that caps export at 5 kW, and an empty default.\<close>

definition ex_event :: DERControl where
  "ex_event = \<lparr>ctrl_MRID = ''E'', CreationTime = 1, Status = None, Start = 100, Duration = 50,
     RandomizeStart = None, RandomizeDuration = None,
     ctrl_Base = no_base\<lparr>OpModExpLimW := Some \<lparr>ap_Multiplier = 3, ap_Value = 5\<rparr>\<rparr>\<rparr>"

definition ex_default :: DefaultDERControl where
  "ex_default = \<lparr>default_MRID = ''D'', default_Base = no_base\<rparr>"

definition ex_prog :: ProgramState where
  "ex_prog = \<lparr>prog_Primacy = 1, prog_MRID = ''P'', prog_Href = ''/p'', DefaultControl = Some ex_default,
     Controls = Some [ex_event], ExtendedControls = None, ExtendedDefault = None,
     DefaultSetGradW = None, DefaultSetSoftGradW = None, prog_Curves = []\<rparr>"

definition ex_ac :: ActiveControl where
  "ex_ac = \<lparr>Base = ctrl_Base ex_event, Source = ''event'', MRID = ''E'', ValidUntil = 150, Held = False,
     ImplausibleReject = False, Extended = None, Curves = [], ProgramHref = ''/p'', SetGradW = None,
     SetSoftGradW = None, Default = Some no_base, DefaultMRID = ''D''\<rparr>"

lemma ex_event_fields [simp]:
  "ctrl_MRID ex_event = ''E''" "cancelled ex_event = False" "potentially_superseded ex_event = False"
  "Start ex_event = 100" "Duration ex_event = 50" "RandomizeStart ex_event = None"
  "RandomizeDuration ex_event = None" "OpModExpLimW (ctrl_Base ex_event) = Some \<lparr>ap_Multiplier = 3, ap_Value = 5\<rparr>"
  by (simp_all add: ex_event_def cancelled_def potentially_superseded_def)

lemma ex_prog_fields [simp]:
  "Controls ex_prog = Some [ex_event]" "DefaultControl ex_prog = Some ex_default"
  "prog_Curves ex_prog = []" "prog_Href ex_prog = ''/p''" "ExtendedControls ex_prog = None"
  "ExtendedDefault ex_prog = None"
  by (simp_all add: ex_prog_def)

lemma ex_window: "event_window ex_event s = Some ((100, 150), s)"
  by (simp add: event_window_def randomizedStart_def randomizedDuration_def wrap64_def Let_def)

lemma ex_prune: "randOffsets s = Map.empty \<Longrightarrow> randDurs s = Map.empty \<Longrightarrow> pruneRandOffsets ps s = s"
proof -
  assume e: "randOffsets s = Map.empty" "randDurs s = Map.empty"
  then have "(\<lambda>m. if m \<in> set (live_mrids ps) then randOffsets s m else None) = randOffsets s"
    "(\<lambda>m. if m \<in> set (live_mrids ps) then randDurs s m else None) = randDurs s" by auto
  then show "pruneRandOffsets ps s = s" by (simp add: pruneRandOffsets_def Let_def)
qed

lemma ex_hp: "HighestPriorityProgram [ex_prog] = Some ex_prog"
  by (simp add: HighestPriorityProgram_def)

lemma ex_active:
  "activeEvent ex_prog now s = Some (if 100 \<le> now \<and> now < 150
     then Some (ex_ac\<lparr>Default := None, DefaultMRID := ''''\<rparr>) else None, s)"
  by (simp add: activeEvent_def ex_window InWindow_def newer_def find_extended_def ex_ac_def Let_def)

lemma ex_resolve:
  "resolve [ex_prog] now s = Some ((if 100 \<le> now \<and> now < 150 then Some ex_ac
      else Some (default_control ex_prog ex_default), True), pruneRandOffsets [ex_prog] s)"
  by (simp add: resolve_def ex_hp ex_active Let_def) (simp add: ex_ac_def ex_default_def)

lemma ex_plausible: "implausibleReason ex_ac = ''''" "implausibleReason (default_control ex_prog ex_default) = ''''"
proof -
  have none: "plausibleLimit None" by (simp add: plausibleLimit_def)
  show "implausibleReason ex_ac = ''''"
    by (simp add: implausibleReason_def ex_ac_def ex_event_def no_base_def plausiblePF_def none plausibleLimit_iff
        ResolvedModeCurves_def)
  show "implausibleReason (default_control ex_prog ex_default) = ''''"
    by (simp add: implausibleReason_def default_control_def ex_prog_def ex_default_def no_base_def
        plausiblePF_def none ResolvedModeCurves_def)
qed

lemma ex_served: "stillServed (Some ex_prog) ''E''"
  by (simp add: stillServed_def ex_prog_def ex_event_def cancelled_def)

definition ex_s1 :: Scheduler where
  "ex_s1 = (New (\<lambda>_. 7))\<lparr>lastGood := Some ex_ac\<rparr>"

lemma ex_New [simp]: "randOffsets (New seed) = Map.empty" "randDurs (New seed) = Map.empty"
  "lastGood (New seed) = None"
  by (simp_all add: New_def)

lemma ex_s1_fields [simp]: "randOffsets ex_s1 = Map.empty" "randDurs ex_s1 = Map.empty"
  "lastGood ex_s1 = Some ex_ac" "expiryHoldMRID ex_s1 = ''''"
  by (simp_all add: ex_s1_def New_def)

lemma ex_adopt: "Evaluate [ex_prog] 110 (New (\<lambda>_. 7)) = Some ((Some ex_ac, []), ex_s1)"
  by (simp add: Evaluate_def ex_resolve ex_hp ex_prune failClosed_def expiry_step_def adopt_control_def
      ex_plausible) (simp add: ex_s1_def New_def Reset_def)

lemma ex_evals: "evals (\<lambda>_. 7) ex_s1"
  by (rule evals_step [OF evals_new ex_adopt])

lemma ex_ac_fields [simp]: "Source ex_ac = ''event''" "MRID ex_ac = ''E''" "ValidUntil ex_ac = 150"
  "Base ex_ac = ctrl_Base ex_event" "Held ex_ac = False"
  by (simp_all add: ex_ac_def)

theorem precedence_resolved_witness:
  "\<exists>ac c. Some ex_ac = Some ac \<and> c \<in> set (controls_of ex_prog) \<and> MRID ac = ctrl_MRID c \<and>
     ValidUntil ac = end_in (New (\<lambda>_. 7)) c"
proof -
  have e: "eligible (New (\<lambda>_. 7)) (controls_of ex_prog) 110 ex_event"
    using event_window_SomeD [OF ex_window [of "New (\<lambda>_. 7)"]] by (simp add: eligible_def in_window_def)
  show ?thesis
    using precedence_resolved [of "[ex_prog]" 110 "New (\<lambda>_. 7)" "Some ex_ac" True "New (\<lambda>_. 7)"] e
    by (simp add: ex_resolve ex_prune ex_hp controls_of_def split: if_splits)
qed

theorem served_controls_plausible_witness:
  "plausibleControl ex_ac \<and> \<bar>5\<bar> * 10 ^ 3 \<le> (10 ^ 9 :: int)"
  using served_controls_plausible [OF evals_new ex_adopt, of "\<lparr>ap_Multiplier = 3, ap_Value = 5\<rparr>"] by simp

lemma ex_default_Source [simp]: "Source (default_control ex_prog ex_default) = ''default''"
  by (simp add: default_control_def)

lemma ex_back: "Evaluate [ex_prog] 90 ex_s1 = Some ((Some (hold ex_ac), []), ex_s1)"
  by (simp add: Evaluate_def ex_resolve ex_hp ex_prune failClosed_def expiry_step_def adopt_control_def
      ex_plausible ex_served controlExpired_def Expired_def)
    (simp add: ex_s1_def New_def Reset_def)

theorem live_event_not_dropped_witness:
  "\<exists>ac. Some (hold ex_ac) = Some ac \<and> Held ac \<and> MRID ac = ''E'' \<and> lastGood ex_s1 = Some ex_ac"
proof -
  have "Source (default_control ex_prog ex_default) = ''default''" by (simp add: default_control_def)
  then show ?thesis
    using live_event_not_dropped [OF ex_back ex_s1_fields(3) ex_ac_fields(1), of "Some (default_control ex_prog ex_default)" True ex_s1]
    by (auto simp: controlExpired_def Expired_def ex_resolve ex_prune ex_hp ex_served)
qed

theorem randomization_total_and_stable_witness:
  "\<exists>out hooks s'. Evaluate [ex_prog] 110 (ex_s1\<lparr>randOffsets := [''E'' \<mapsto> 3]\<rparr>) = Some ((out, hooks), s') \<and>
     randOffsets s' ''E'' = Some 3"
  using randomization_total_and_stable [of "[ex_prog]" "''E''" 110 "ex_s1\<lparr>randOffsets := [''E'' \<mapsto> 3]\<rparr>"]
  by (auto simp: controls_of_def small_event_def small_def live_mrids_def)

theorem randomized_start_panics_iff_witness:
  "randomizedStart (ex_event\<lparr>RandomizeStart := Some 1073741824\<rparr>) ex_s1 = None"
  using randomized_start_panics_iff [of "ex_event\<lparr>RandomizeStart := Some 1073741824\<rparr>" 1073741824 ex_s1]
  by (simp add: in_int32_def ex_event_def)

definition ex_s2 :: Scheduler where
  "ex_s2 = ex_s1\<lparr>expiryHold := \<lparr>Confirm = 2, count = 1\<rparr>, expiryHoldMRID := ''E''\<rparr>"

lemma ex_end: "Evaluate [ex_prog] 150 ex_s1 = Some ((Some (hold ex_ac), []), ex_s2)"
  by (simp add: Evaluate_def ex_resolve ex_hp ex_prune failClosed_def expiry_step_def adopt_control_def
      ex_plausible ex_served controlExpired_def Expired_def Let_def Reset_def Observe_def)
    (simp add: ex_s2_def ex_s1_def New_def)

lemma ex_s2_fields [simp]: "randOffsets ex_s2 = Map.empty" "randDurs ex_s2 = Map.empty"
  "lastGood ex_s2 = Some ex_ac"
  by (simp_all add: ex_s2_def)

lemma ex_end_reading: "lastGood s = Some ex_ac \<Longrightarrow> 150 \<le> now \<Longrightarrow>
    end_reading s ex_ac [ex_prog] now (Some (default_control ex_prog ex_default))"
  using ex_plausible(2)
  by (simp add: end_reading_def controlExpired_def Expired_def ex_hp ex_served ex_resolve
      plausibleControl_def)

theorem event_end_debounced_witness:
  "\<exists>o2 h2 s3. Evaluate [ex_prog] 151 ex_s2 = Some ((o2, h2), s3) \<and>
     o2 = Some (default_control ex_prog ex_default)"
proof -
  obtain o2 h2 s3 where e: "Evaluate [ex_prog] 151 ex_s2 = Some ((o2, h2), s3)"
    by (auto simp: Evaluate_def ex_resolve) (metis prod.exhaust)
  have "expiryHoldMRID ex_s1 \<noteq> MRID ex_ac" by simp
  from event_end_debounced [OF ex_evals this ex_end_reading ex_end ex_end_reading e]
  show ?thesis using e by simp
qed

end
