(* ===== verification/Responses.thy ===== *)
theory Responses
  imports Scheduler
begin

text \<open>
  internal/northbound/responses: the Response state machine (tracker.go) and its durable log
  (persist.go), with the egress gate they consult (internal/northbound/egress). The network is
  the stream \<open>net\<close> of outcomes of the POSTs in order; \<open>sent\<close> lists the Responses handed to the
  poster with their outcomes. The log is a file of lines, the last of which may lack its newline after a
  crash during a write (file writes of a running process succeed); the store appends to it as it is.
  Whether it has outgrown the compaction threshold is a function \<open>over\<close> of its contents, since
  the byte sizes are those of the JSON encoder. Sets of keys (Go maps to \<open>true\<close>) are lists.
\<close>

section \<open>Response codes\<close>

definition ResponseEventReceived :: nat where "ResponseEventReceived = 1"
definition ResponseEventStarted :: nat where "ResponseEventStarted = 2"
definition ResponseEventCompleted :: nat where "ResponseEventCompleted = 3"
definition ResponseEventCancelled :: nat where "ResponseEventCancelled = 6"
definition ResponseEventSuperseded :: nat where "ResponseEventSuperseded = 7"
definition ResponsePartialOptOut :: nat where "ResponsePartialOptOut = 8"
definition ResponseNoParticipation :: nat where "ResponseNoParticipation = 10"
definition ResponseCannotComply :: nat where "ResponseCannotComply = 240"
definition ResponseRejectedParam :: nat where "ResponseRejectedParam = 252"
definition ResponseRejectedInvalid :: nat where "ResponseRejectedInvalid = 253"

lemmas code_defs = ResponseEventReceived_def ResponseEventStarted_def ResponseEventCompleted_def
  ResponseEventCancelled_def ResponseEventSuperseded_def ResponsePartialOptOut_def
  ResponseNoParticipation_def ResponseCannotComply_def ResponseRejectedParam_def
  ResponseRejectedInvalid_def

definition terminalResponse :: "nat \<Rightarrow> bool" where
  "terminalResponse status \<longleftrightarrow> status = ResponseEventCompleted \<or> status = ResponseEventCancelled \<or>
     status = ResponseEventSuperseded \<or> status = ResponsePartialOptOut \<or>
     status = ResponseNoParticipation"

lemma terminal_codes [simp]:
  "terminalResponse ResponseEventCompleted" "terminalResponse ResponseEventCancelled"
  "terminalResponse ResponseEventSuperseded" "terminalResponse ResponsePartialOptOut"
  "terminalResponse ResponseNoParticipation" "\<not> terminalResponse ResponseEventReceived"
  "\<not> terminalResponse ResponseEventStarted" "\<not> terminalResponse ResponseRejectedParam"
  "\<not> terminalResponse ResponseRejectedInvalid" "\<not> terminalResponse 0"
  by (simp_all add: terminalResponse_def code_defs)

section \<open>The egress gate\<close>

record Gate =
  gate_suspended :: bool
  gate_reason :: string

definition Suspend :: "string \<Rightarrow> Gate option \<Rightarrow> Gate option" where
  "Suspend why g = map_option (\<lambda>x. x\<lparr>gate_suspended := True, gate_reason := why\<rparr>) g"

definition Resume :: "Gate option \<Rightarrow> Gate option" where
  "Resume g = map_option (\<lambda>x. x\<lparr>gate_suspended := False, gate_reason := ''''\<rparr>) g"

definition Suspended :: "Gate option \<Rightarrow> bool" where
  "Suspended g = (case g of None \<Rightarrow> False | Some x \<Rightarrow> gate_suspended x)"

definition gate_Reason :: "Gate option \<Rightarrow> string" where
  "gate_Reason g = (case g of None \<Rightarrow> '''' | Some x \<Rightarrow> gate_reason x)"

section \<open>The durable log\<close>

record EpisodeState =
  ep_MRID :: string
  SawBreach :: bool
  SawCompliant :: bool
  BreachActive :: bool

definition zero_episode :: EpisodeState where
  "zero_episode = \<lparr>ep_MRID = '''', SawBreach = False, SawCompliant = False, BreachActive = False\<rparr>"

text \<open>One log entry; \<open>OpOther\<close> is an operation name this version does not know.\<close>

datatype stateEntry =
    OpPosted string nat
  | OpAlerted string string
  | OpClear
  | OpEpisode "EpisodeState option"
  | OpCompact "string \<rightharpoonup> nat" "string list" "EpisodeState option"
  | OpOther

record State =
  st_Posted :: "string \<rightharpoonup> nat"
  st_Alerted :: "string list"
  st_Episode :: "EpisodeState option"

definition empty_state :: State where
  "empty_state = \<lparr>st_Posted = Map.empty, st_Alerted = [], st_Episode = None\<rparr>"

definition copyEpisode :: "EpisodeState option \<Rightarrow> EpisodeState option" where
  "copyEpisode e = (case e of None \<Rightarrow> None | Some x \<Rightarrow> if ep_MRID x = '''' then None else Some x)"

text \<open>The entries of a map whose status is not terminal.\<close>

definition live_posted :: "(string \<rightharpoonup> nat) \<Rightarrow> (string \<rightharpoonup> nat)" where
  "live_posted m = (\<lambda>k. case m k of None \<Rightarrow> None | Some v \<Rightarrow> if terminalResponse v then None else Some v)"

definition applyEntry :: "stateEntry \<Rightarrow> State \<Rightarrow> State" where
  "applyEntry e st =
     (case e of
        OpPosted mrid status \<Rightarrow>
          if terminalResponse status then st\<lparr>st_Posted := (st_Posted st)(mrid := None)\<rparr>
          else st\<lparr>st_Posted := (st_Posted st)(mrid \<mapsto> status)\<rparr>
      | OpAlerted mrid ep \<Rightarrow>
          let st = st\<lparr>st_Alerted := List.insert mrid (st_Alerted st)\<rparr>
          in if ep \<noteq> '''' then st\<lparr>st_Alerted := List.insert ep (st_Alerted st)\<rparr> else st
      | OpClear \<Rightarrow> st\<lparr>st_Alerted := []\<rparr>
      | OpEpisode ep \<Rightarrow> st\<lparr>st_Episode := copyEpisode ep\<rparr>
      | OpCompact posted alerted ep \<Rightarrow>
          st\<lparr>st_Posted := live_posted posted, st_Alerted := remdups alerted, st_Episode := copyEpisode ep\<rparr>
      | OpOther \<Rightarrow> st)"

text \<open>A scanned line is empty, not parseable, or an entry with its version. The file has its lines and
  possibly the beginning of another one, without a newline; what is written next continues that line,
  and the beginning of an entry followed by another entry is not a JSON value.\<close>

datatype line = Blank | Bad | Entry nat stateEntry

record log_file =
  lf_lines :: "line list"
  lf_rest :: "line option"

definition file_lines :: "log_file \<Rightarrow> line list" where
  "file_lines f = lf_lines f @ (case lf_rest f of None \<Rightarrow> [] | Some l \<Rightarrow> [l])"

definition empty_log :: log_file where "empty_log = \<lparr>lf_lines = [], lf_rest = None\<rparr>"

text \<open>\<open>LoadState\<close> over the scanned lines.\<close>

datatype load_error = ErrNotExist | ErrStateVersion | ErrStateCorrupt

definition stateSchemaV :: nat where
  "stateSchemaV = 1"

fun load_lines :: "line list \<Rightarrow> State \<Rightarrow> bool \<Rightarrow> nat \<Rightarrow> load_error + State" where
  "load_lines [] st parsedAny corrupted =
     (if \<not> parsedAny \<and> 0 < corrupted then Inl ErrStateCorrupt else Inr st)"
| "load_lines (Blank # ls) st parsedAny corrupted = load_lines ls st parsedAny corrupted"
| "load_lines (Bad # ls) st parsedAny corrupted = load_lines ls st parsedAny (Suc corrupted)"
| "load_lines (Entry v e # ls) st parsedAny corrupted =
     (if v \<noteq> stateSchemaV then Inl ErrStateVersion
      else load_lines ls (applyEntry e st) True corrupted)"

definition LoadState :: "log_file option \<Rightarrow> load_error + State" where
  "LoadState logged_to = (case logged_to of None \<Rightarrow> Inl ErrNotExist
     | Some f \<Rightarrow> load_lines (file_lines f) empty_state False 0)"

text \<open>One write of the store: a line of its own, unless the file ends in a torn one.\<close>

definition write_line :: "stateEntry \<Rightarrow> log_file \<Rightarrow> log_file" where
  "write_line e f =
     \<lparr>lf_lines = lf_lines f @ [case lf_rest f of None \<Rightarrow> Entry stateSchemaV e | Some _ \<Rightarrow> Bad], lf_rest = None\<rparr>"

definition replay :: "stateEntry list \<Rightarrow> State" where
  "replay es = fold applyEntry es empty_state"

section \<open>The tracker\<close>

record Response =
  CreatedDateTime :: int64
  EndDeviceLFDI :: string
  resp_Status :: nat
  Subject :: string

record Tracker =
  lfdi :: string
  posted :: "string \<rightharpoonup> nat"
  activeMRID :: string
  alerted :: "string list"
  confirmedAlerted :: "string list"
  responsesPosted :: nat
  jw :: "(string \<times> string) list option"
  store :: "log_file option"
  over :: "log_file \<Rightarrow> bool"
  legacyCannotComply :: bool
  gate :: "Gate option"
  epi :: EpisodeState
  net :: "nat \<Rightarrow> bool"
  sent :: "(Response \<times> bool) list"

definition New :: "string \<Rightarrow> (nat \<Rightarrow> bool) \<Rightarrow> (log_file \<Rightarrow> bool) \<Rightarrow> (string \<times> string) list option
    \<Rightarrow> log_file option \<Rightarrow> State \<Rightarrow> Tracker" where
  "New ident outcomes big journal logged_to initial =
     (let t = \<lparr>lfdi = ident, posted = st_Posted initial, activeMRID = '''', alerted = st_Alerted initial,
        confirmedAlerted = st_Alerted initial, responsesPosted = 0, jw = journal, store = logged_to,
        over = big, legacyCannotComply = False, gate = None, epi = zero_episode, net = outcomes,
        sent = []\<rparr>
      in case st_Episode initial of None \<Rightarrow> t
         | Some e \<Rightarrow> if ep_MRID e \<noteq> '''' then t\<lparr>epi := e, activeMRID := ep_MRID e\<rparr> else t)"

definition SetLegacyCannotComplyCode :: "bool \<Rightarrow> Tracker \<Rightarrow> Tracker" where
  "SetLegacyCannotComplyCode on t = t\<lparr>legacyCannotComply := on\<rparr>"

definition SetEgressGate :: "Gate option \<Rightarrow> Tracker \<Rightarrow> Tracker" where
  "SetEgressGate g t = t\<lparr>gate := g\<rparr>"

definition append_entry :: "stateEntry \<Rightarrow> Tracker \<Rightarrow> Tracker" where
  "append_entry e t = (case store t of None \<Rightarrow> t | Some f \<Rightarrow> t\<lparr>store := Some (write_line e f)\<rparr>)"

definition Compact :: "Tracker \<Rightarrow> Tracker" where
  "Compact t =
     t\<lparr>store := Some (write_line (OpCompact (live_posted (posted t)) (sort (confirmedAlerted t))
         (copyEpisode (if ep_MRID (epi t) \<noteq> '''' then Some (epi t) else None))) empty_log)\<rparr>"

definition maybeCompact :: "Tracker \<Rightarrow> Tracker" where
  "maybeCompact t = (case store t of None \<Rightarrow> t | Some f \<Rightarrow> if over t f then Compact t else t)"

definition setEpisode :: "EpisodeState \<Rightarrow> Tracker \<Rightarrow> Tracker" where
  "setEpisode e t =
     (if epi t = e then t else maybeCompact (append_entry (OpEpisode (Some e)) (t\<lparr>epi := e\<rparr>)))"

definition postResponse :: "int64 \<Rightarrow> string \<Rightarrow> nat \<Rightarrow> Tracker \<Rightarrow> bool \<times> Tracker" where
  "postResponse now mrid status t =
     (if Suspended (gate t) then (False, t)
      else let resp = \<lparr>CreatedDateTime = now, EndDeviceLFDI = lfdi t, resp_Status = status, Subject = mrid\<rparr>;
               ok = net t (length (sent t))
           in (ok, t\<lparr>sent := sent t @ [(resp, ok)],
                     responsesPosted := responsesPosted t + (if ok then 1 else 0)\<rparr>))"

definition set_status :: "int64 \<Rightarrow> string \<Rightarrow> nat \<Rightarrow> Tracker \<Rightarrow> Tracker" where
  "set_status now mrid status t =
     (let t = snd (postResponse now mrid status t);
          t = t\<lparr>posted := (posted t)(mrid \<mapsto> status)\<rparr>
      in maybeCompact (append_entry (OpPosted mrid status) t))"

definition insert_keys :: "string \<Rightarrow> string \<Rightarrow> string list \<Rightarrow> string list" where
  "insert_keys mrid episodeID ks =
     (let ks = List.insert mrid ks in if episodeID \<noteq> '''' then List.insert episodeID ks else ks)"

text \<open>The breach is recorded against the active event before the POST is tried.\<close>

definition mark_alert :: "string \<Rightarrow> string \<Rightarrow> Tracker \<Rightarrow> Tracker" where
  "mark_alert mrid episodeID t =
     (let t = t\<lparr>alerted := insert_keys mrid episodeID (alerted t)\<rparr>
      in if mrid = activeMRID t \<and> activeMRID t \<noteq> ''''
         then setEpisode ((epi t)\<lparr>SawBreach := True, BreachActive := True\<rparr>) t else t)"

definition confirm_alert :: "string \<Rightarrow> string \<Rightarrow> Tracker \<Rightarrow> Tracker" where
  "confirm_alert mrid episodeID t =
     (let t = t\<lparr>confirmedAlerted := insert_keys mrid episodeID (confirmedAlerted t)\<rparr>;
          t = maybeCompact (append_entry (OpAlerted mrid episodeID) t)
      in t\<lparr>jw := map_option (\<lambda>j. j @ [(episodeID, mrid)]) (jw t)\<rparr>)"

definition AlertCannotComply :: "int64 \<Rightarrow> string \<Rightarrow> string \<Rightarrow> Tracker \<Rightarrow> Tracker" where
  "AlertCannotComply now mrid episodeID t =
     (if mrid \<in> set (alerted t) \<or> episodeID \<noteq> '''' \<and> episodeID \<in> set (alerted t) then t
      else let t = mark_alert mrid episodeID t;
               code = (if legacyCannotComply t then ResponseCannotComply else ResponsePartialOptOut);
               (ok, t) = postResponse now mrid code t
           in if ok then confirm_alert mrid episodeID t else t)"

definition ClearAlerts :: "Tracker \<Rightarrow> Tracker" where
  "ClearAlerts t =
     (let t = t\<lparr>alerted := [], confirmedAlerted := []\<rparr>;
          t = (if BreachActive (epi t) then setEpisode ((epi t)\<lparr>BreachActive := False\<rparr>) t else t)
      in maybeCompact (append_entry OpClear t))"

definition endOfEventCode :: "Tracker \<Rightarrow> nat" where
  "endOfEventCode t =
     (if legacyCannotComply t \<or> \<not> SawBreach (epi t) then ResponseEventCompleted
      else if SawCompliant (epi t) then ResponsePartialOptOut
      else ResponseNoParticipation)"

text \<open>A missing map entry reads as status 0.\<close>

definition last_status :: "Tracker \<Rightarrow> string \<Rightarrow> nat" where
  "last_status t mrid = (case posted t mrid of None \<Rightarrow> 0 | Some s \<Rightarrow> s)"

definition completeActive :: "int64 \<Rightarrow> Tracker \<Rightarrow> Tracker" where
  "completeActive now t =
     (if activeMRID t = '''' then t
      else let t = (if \<not> terminalResponse (last_status t (activeMRID t))
                    then set_status now (activeMRID t) (endOfEventCode t) t else t)
           in setEpisode zero_episode (t\<lparr>activeMRID := ''''\<rparr>))"

text \<open>The event is over: forget it as the active one if it was.\<close>

definition drop_active :: "string \<Rightarrow> Tracker \<Rightarrow> Tracker" where
  "drop_active mrid t = (if activeMRID t = mrid then setEpisode zero_episode (t\<lparr>activeMRID := ''''\<rparr>) else t)"

definition pass1 :: "int64 \<Rightarrow> string list \<Rightarrow> DERControl \<Rightarrow> Tracker \<Rightarrow> Tracker" where
  "pass1 now superseded ctrl t =
     (let mrid = ctrl_MRID ctrl; seen = posted t mrid \<noteq> None; last = last_status t mrid in
      if cancelled ctrl
      then if seen \<and> \<not> terminalResponse last
           then drop_active mrid (set_status now mrid ResponseEventCancelled t) else t
      else let t' = (if \<not> seen then set_status now mrid ResponseEventReceived t else t);
               last = (if \<not> seen then ResponseEventReceived else last)
           in if mrid \<in> set superseded \<and> \<not> terminalResponse last
              then drop_active mrid (set_status now mrid ResponseEventSuperseded t') else t')"

definition start_active :: "int64 \<Rightarrow> string \<Rightarrow> Tracker \<Rightarrow> Tracker" where
  "start_active now mrid t =
     (let t = set_status now mrid ResponseEventStarted t;
          t = t\<lparr>activeMRID := mrid\<rparr>;
          seed = (mrid \<in> set (alerted t))
      in setEpisode \<lparr>ep_MRID = mrid, SawBreach = seed, SawCompliant = False, BreachActive = seed\<rparr> t)"

definition sample_episode :: "Tracker \<Rightarrow> Tracker" where
  "sample_episode t =
     setEpisode (if BreachActive (epi t) then (epi t)\<lparr>SawBreach := True\<rparr>
                 else (epi t)\<lparr>SawCompliant := True\<rparr>) t"

definition pass2 :: "int64 \<Rightarrow> ActiveControl option \<Rightarrow> Tracker \<Rightarrow> Tracker" where
  "pass2 now active t =
     (case active of None \<Rightarrow> completeActive now t
      | Some ac \<Rightarrow>
          if Source ac = ''default'' then completeActive now t
          else let t = (if MRID ac \<noteq> activeMRID t then start_active now (MRID ac) (completeActive now t)
                        else sample_episode t)
               in if 0 < ValidUntil ac \<and> ValidUntil ac \<le> now then completeActive now t else t)"

definition Update :: "int64 \<Rightarrow> ProgramState list \<Rightarrow> ActiveControl option \<Rightarrow> string list \<Rightarrow> Tracker \<Rightarrow> Tracker" where
  "Update now programs active superseded t =
     pass2 now active (fold (pass1 now superseded) (concat (map controls_of programs)) t)"

definition ReceiptReject :: "int64 \<Rightarrow> string \<Rightarrow> nat \<Rightarrow> Tracker \<Rightarrow> Tracker" where
  "ReceiptReject now mrid code t =
     (if legacyCannotComply t \<or> mrid = '''' then t
      else if posted t mrid \<noteq> None \<and> (last_status t mrid = code \<or> terminalResponse (last_status t mrid)) then t
      else set_status now mrid code t)"

section \<open>Replay\<close>

text \<open>The contract of a log that is extended entry by entry and now and then rewritten to one
  checkpoint: replaying it gives the state the entries describe, up to \<open>eqv\<close>.\<close>

locale checkpointed_log =
  fixes apply_e :: "'e \<Rightarrow> 's \<Rightarrow> 's"
    and init :: 's
    and checkpoint :: "'s \<Rightarrow> 'e"
    and eqv :: "'s \<Rightarrow> 's \<Rightarrow> bool"
    and normal :: "'s \<Rightarrow> bool"
  assumes eqv_refl: "eqv s s"
    and eqv_trans: "eqv a b \<Longrightarrow> eqv b c \<Longrightarrow> eqv a c"
    and apply_eqv: "eqv a b \<Longrightarrow> eqv (apply_e e a) (apply_e e b)"
    and checkpoint_normal: "normal s \<Longrightarrow> eqv (apply_e (checkpoint s) init) s"
begin

lemma replay_append:
  "eqv (fold apply_e es init) s \<Longrightarrow> eqv (fold apply_e (es @ [e]) init) (apply_e e s)"
  using apply_eqv by simp

lemma replay_checkpoint: "normal s \<Longrightarrow> eqv (fold apply_e [checkpoint s] init) s"
  using checkpoint_normal by simp

text \<open>Appending an entry and then possibly compacting, seen from the state.\<close>

lemma replay_step:
  assumes "eqv (fold apply_e es init) s" and "normal (apply_e e s)"
    and "es' = es @ [e] \<or> es' = [checkpoint (apply_e e s)]"
  shows "eqv (fold apply_e es' init) (apply_e e s)"
  using assms replay_append replay_checkpoint by blast

end

definition state_eqv :: "State \<Rightarrow> State \<Rightarrow> bool" where
  "state_eqv a b \<longleftrightarrow> st_Posted a = st_Posted b \<and> set (st_Alerted a) = set (st_Alerted b) \<and>
     st_Episode a = st_Episode b"

definition state_normal :: "State \<Rightarrow> bool" where
  "state_normal s \<longleftrightarrow> live_posted (st_Posted s) = st_Posted s \<and> copyEpisode (st_Episode s) = st_Episode s"

definition state_checkpoint :: "State \<Rightarrow> stateEntry" where
  "state_checkpoint s = OpCompact (st_Posted s) (sort (st_Alerted s)) (st_Episode s)"

interpretation tracker_log: checkpointed_log applyEntry empty_state state_checkpoint state_eqv state_normal
proof
  show "state_eqv a b \<Longrightarrow> state_eqv (applyEntry e a) (applyEntry e b)" for a b e
    by (cases e) (auto simp: state_eqv_def applyEntry_def Let_def)
qed (auto simp: state_eqv_def state_normal_def state_checkpoint_def applyEntry_def empty_state_def)

text \<open>The part of the tracker that must survive a restart.\<close>

definition view :: "Tracker \<Rightarrow> State" where
  "view t = \<lparr>st_Posted = live_posted (posted t), st_Alerted = confirmedAlerted t,
     st_Episode = copyEpisode (Some (epi t))\<rparr>"

lemma live_posted_idem [simp]: "live_posted (live_posted m) = live_posted m"
  by (rule ext) (simp add: live_posted_def split: option.split)

lemma copyEpisode_idem [simp]: "copyEpisode (copyEpisode e) = copyEpisode e"
  by (simp add: copyEpisode_def split: option.split)

lemma view_normal [simp]: "state_normal (view t)"
  by (simp add: state_normal_def view_def)

text \<open>The entries of a file, and the files that a write extends by one: no torn line, and every version
  the present one. \<open>records s f\<close> says that reading such a file gives the state \<open>s\<close>.\<close>

definition entries :: "log_file \<Rightarrow> stateEntry list" where
  "entries f = List.map_filter (\<lambda>l. case l of Entry v e \<Rightarrow> Some e | _ \<Rightarrow> None) (lf_lines f)"

definition whole_lines :: "log_file \<Rightarrow> bool" where
  "whole_lines f \<longleftrightarrow> lf_rest f = None \<and> list_all (\<lambda>l. case l of Entry v e \<Rightarrow> v = stateSchemaV | _ \<Rightarrow> True) (lf_lines f) \<and>
     (Bad \<in> set (lf_lines f) \<longrightarrow> entries f \<noteq> [])"

definition records :: "State \<Rightarrow> log_file \<Rightarrow> bool" where
  "records s f \<longleftrightarrow> whole_lines f \<and> state_eqv (replay (entries f)) s"

lemma map_filter_append: "List.map_filter g (xs @ ys) = List.map_filter g xs @ List.map_filter g ys"
  by (simp add: List.map_filter_def)

lemma write_whole [simp]:
  "whole_lines f \<Longrightarrow> whole_lines (write_line e f)" "lf_rest f = None \<Longrightarrow> entries (write_line e f) = entries f @ [e]"
  "whole_lines empty_log" "entries empty_log = []" "lf_rest (write_line e f) = None" "lf_rest empty_log = None"
  by (auto simp: whole_lines_def write_line_def entries_def map_filter_append empty_log_def)

definition persisted :: "Tracker \<Rightarrow> bool" where
  "persisted t \<longleftrightarrow> (\<forall>f. store t = Some f \<longrightarrow> records (view t) f)"

lemma live_posted_upd [simp]:
  "live_posted (m(k \<mapsto> v)) = (if terminalResponse v then (live_posted m)(k := None) else (live_posted m)(k \<mapsto> v))"
  by (rule ext) (simp add: live_posted_def)

lemma compact_checkpoint: "store (Compact t) = Some (write_line (state_checkpoint (view t)) empty_log)"
  by (simp add: Compact_def state_checkpoint_def view_def copyEpisode_def)

lemma maybeCompact_fields [simp]:
  "posted (maybeCompact t) = posted t" "activeMRID (maybeCompact t) = activeMRID t"
  "alerted (maybeCompact t) = alerted t" "confirmedAlerted (maybeCompact t) = confirmedAlerted t"
  "epi (maybeCompact t) = epi t" "sent (maybeCompact t) = sent t" "over (maybeCompact t) = over t"
  "legacyCannotComply (maybeCompact t) = legacyCannotComply t" "view (maybeCompact t) = view t"
  by (simp_all add: maybeCompact_def Compact_def view_def split: option.split)

lemma append_entry_fields [simp]:
  "posted (append_entry e t) = posted t" "activeMRID (append_entry e t) = activeMRID t"
  "alerted (append_entry e t) = alerted t" "confirmedAlerted (append_entry e t) = confirmedAlerted t"
  "epi (append_entry e t) = epi t" "sent (append_entry e t) = sent t" "over (append_entry e t) = over t"
  "legacyCannotComply (append_entry e t) = legacyCannotComply t" "view (append_entry e t) = view t"
  by (simp_all add: append_entry_def view_def split: option.split)

definition logged :: "Tracker \<Rightarrow> State \<Rightarrow> bool" where
  "logged t s \<longleftrightarrow> (\<forall>f. store t = Some f \<longrightarrow> records s f)"

lemma logged_write:
  assumes "logged t s" and "store u = store t"
  shows "logged (maybeCompact (append_entry e u)) (applyEntry e s) \<or>
    logged (maybeCompact (append_entry e u)) (view u)"
proof (cases "store t")
  case None
  then show ?thesis using assms by (simp add: logged_def maybeCompact_def append_entry_def)
next
  case (Some f)
  then have f: "records s f" using assms(1) by (simp add: logged_def)
  then have w: "whole_lines f" "lf_rest f = None" by (simp_all add: records_def whole_lines_def)
  show ?thesis
  proof (cases "over (append_entry e u) (write_line e f)")
    case True
    then have "store (maybeCompact (append_entry e u)) = Some (write_line (state_checkpoint (view u)) empty_log)"
      using Some assms(2) compact_checkpoint [of "append_entry e u"]
      by (simp add: maybeCompact_def append_entry_def view_def)
    then show ?thesis
      using tracker_log.replay_checkpoint [OF view_normal [of u]] by (simp add: logged_def records_def replay_def)
  next
    case False
    then have "store (maybeCompact (append_entry e u)) = Some (write_line e f)"
      using Some assms(2) by (simp add: maybeCompact_def append_entry_def)
    then show ?thesis
      using tracker_log.replay_append [of "entries f" s e] f w by (simp add: logged_def records_def replay_def)
  qed
qed

text \<open>Every write of the tracker appends the entry that describes its change of view.\<close>

lemma persisted_logged: "persisted t \<longleftrightarrow> logged t (view t)"
  by (simp add: persisted_def logged_def)

lemma persisted_write:
  assumes "persisted t" and "store u = store t" and "view u = applyEntry e (view t)"
  shows "persisted (maybeCompact (append_entry e u))"
  using logged_write [of t "view t" u e] assms by (auto simp: persisted_logged)

lemma persisted_cong:
  "persisted t \<Longrightarrow> store u = store t \<Longrightarrow> view u = view t \<Longrightarrow> persisted u"
  by (simp add: persisted_def)

lemma postResponse_fields [simp]:
  "posted (snd (postResponse now m s t)) = posted t" "activeMRID (snd (postResponse now m s t)) = activeMRID t"
  "alerted (snd (postResponse now m s t)) = alerted t" "epi (snd (postResponse now m s t)) = epi t"
  "confirmedAlerted (snd (postResponse now m s t)) = confirmedAlerted t"
  "store (snd (postResponse now m s t)) = store t" "over (snd (postResponse now m s t)) = over t"
  "legacyCannotComply (snd (postResponse now m s t)) = legacyCannotComply t"
  "view (snd (postResponse now m s t)) = view t"
  by (simp_all add: postResponse_def Let_def view_def)

lemma persisted_set_status: "persisted t \<Longrightarrow> persisted (set_status now mrid status t)"
  unfolding set_status_def Let_def
  by (erule persisted_write) (auto simp: applyEntry_def view_def)

lemma persisted_setEpisode: "persisted t \<Longrightarrow> persisted (setEpisode e t)"
  unfolding setEpisode_def
  by (auto intro!: persisted_write [of t] simp: applyEntry_def view_def)

section \<open>Events\<close>

datatype tracker_event = EvUpdate int64 "ProgramState list" "ActiveControl option" "string list"
  | EvAlert int64 string string | EvClear | EvReject int64 string nat | EvGate "Gate option"
  | EvLegacy bool

fun tracker_step :: "tracker_event \<Rightarrow> Tracker \<Rightarrow> Tracker" where
  "tracker_step (EvUpdate now ps active sup_mrids) t = Update now ps active sup_mrids t"
| "tracker_step (EvAlert now mrid ep) t = AlertCannotComply now mrid ep t"
| "tracker_step EvClear t = ClearAlerts t"
| "tracker_step (EvReject now mrid code) t = ReceiptReject now mrid code t"
| "tracker_step (EvGate g) t = SetEgressGate g t"
| "tracker_step (EvLegacy on) t = SetLegacyCannotComplyCode on t"

lemma setEpisode_fields [simp]:
  "posted (setEpisode e t) = posted t" "activeMRID (setEpisode e t) = activeMRID t"
  "alerted (setEpisode e t) = alerted t" "epi (setEpisode e t) = e"
  "confirmedAlerted (setEpisode e t) = confirmedAlerted t" "sent (setEpisode e t) = sent t"
  "over (setEpisode e t) = over t" "legacyCannotComply (setEpisode e t) = legacyCannotComply t"
  by (simp_all add: setEpisode_def)

lemma set_status_fields [simp]:
  "posted (set_status now m s t) = (posted t)(m \<mapsto> s)" "activeMRID (set_status now m s t) = activeMRID t"
  "alerted (set_status now m s t) = alerted t" "epi (set_status now m s t) = epi t"
  "confirmedAlerted (set_status now m s t) = confirmedAlerted t" "over (set_status now m s t) = over t"
  "legacyCannotComply (set_status now m s t) = legacyCannotComply t"
  by (simp_all add: set_status_def Let_def)

definition tracker_inv :: "Tracker \<Rightarrow> bool" where
  "tracker_inv t \<longleftrightarrow> persisted t \<and> ep_MRID (epi t) = activeMRID t"

lemma inv_set_status: "tracker_inv t \<Longrightarrow> tracker_inv (set_status now m s t)"
  by (simp add: tracker_inv_def persisted_set_status)

lemma persisted_upd [simp]:
  "persisted (t\<lparr>activeMRID := x\<rparr>) = persisted t" "persisted (t\<lparr>alerted := y\<rparr>) = persisted t"
  "persisted (t\<lparr>jw := z\<rparr>) = persisted t" "persisted (t\<lparr>gate := g\<rparr>) = persisted t"
  "persisted (t\<lparr>legacyCannotComply := l\<rparr>) = persisted t"
  "persisted (snd (postResponse now m s t)) = persisted t"
  by (simp_all add: persisted_def view_def postResponse_def Let_def)

lemma inv_forget: "tracker_inv t \<Longrightarrow> tracker_inv (setEpisode zero_episode (t\<lparr>activeMRID := ''''\<rparr>))"
  by (simp add: tracker_inv_def persisted_setEpisode) (simp add: zero_episode_def)

lemma inv_drop_active: "tracker_inv t \<Longrightarrow> tracker_inv (drop_active m t)"
  by (simp add: drop_active_def inv_forget)

lemma inv_complete: "tracker_inv t \<Longrightarrow> tracker_inv (completeActive now t)"
  by (simp add: completeActive_def inv_forget inv_set_status Let_def)

lemma inv_pass1: "tracker_inv t \<Longrightarrow> tracker_inv (pass1 now sd c t)"
  by (simp add: pass1_def Let_def inv_set_status inv_drop_active)

lemma inv_start: "tracker_inv t \<Longrightarrow> tracker_inv (start_active now m t)"
  using inv_set_status [of t now m ResponseEventStarted]
  by (simp add: start_active_def Let_def tracker_inv_def persisted_setEpisode)

lemma inv_sample: "tracker_inv t \<Longrightarrow> tracker_inv (sample_episode t)"
  by (simp add: sample_episode_def tracker_inv_def persisted_setEpisode)

lemma inv_pass2: "tracker_inv t \<Longrightarrow> tracker_inv (pass2 now active t)"
  by (simp add: pass2_def Let_def inv_complete inv_start inv_sample split: option.split)

lemma inv_Update: "tracker_inv t \<Longrightarrow> tracker_inv (Update now ps active sd t)"
  unfolding Update_def by (intro inv_pass2 fold_invariant_set [where P = tracker_inv] inv_pass1)

lemma inv_mark_alert: "tracker_inv t \<Longrightarrow> tracker_inv (mark_alert m ep t)"
  by (simp add: mark_alert_def Let_def tracker_inv_def persisted_setEpisode)

lemma inv_confirm_alert: "tracker_inv t \<Longrightarrow> tracker_inv (confirm_alert m ep t)"
  unfolding confirm_alert_def Let_def tracker_inv_def
  by (auto intro!: persisted_write [of t] simp: applyEntry_def view_def insert_keys_def Let_def)

lemma inv_post: "tracker_inv t \<Longrightarrow> tracker_inv (snd (postResponse now m s t))"
  by (simp add: tracker_inv_def)

lemma inv_Alert: "tracker_inv t \<Longrightarrow> tracker_inv (AlertCannotComply now m ep t)"
  using inv_confirm_alert [OF inv_post [OF inv_mark_alert]] inv_post [OF inv_mark_alert]
  by (auto simp: AlertCannotComply_def Let_def split: prod.splits) (metis snd_conv)+

lemma inv_Clear:
  assumes "tracker_inv t"
  shows "tracker_inv (ClearAlerts t)"
proof -
  define t1 where "t1 = t\<lparr>alerted := [], confirmedAlerted := []\<rparr>"
  define t2 where "t2 = (if BreachActive (epi t1) then setEpisode ((epi t1)\<lparr>BreachActive := False\<rparr>) t1 else t1)"
  have l1: "logged t1 (view t)" using assms by (simp add: tracker_inv_def persisted_logged logged_def t1_def)
  have v1: "view t1 = (view t)\<lparr>st_Alerted := []\<rparr>" by (simp add: view_def t1_def)
  have "\<exists>A. logged t2 ((view t2)\<lparr>st_Alerted := A\<rparr>)"
  proof (cases "t2 = t1")
    case True
    then show ?thesis using l1 v1 by (intro exI [of _ "st_Alerted (view t)"]) (simp add: view_def)
  next
    case False
    then obtain e where e: "t2 = maybeCompact (append_entry (OpEpisode (Some e)) (t1\<lparr>epi := e\<rparr>))"
      by (auto simp: t2_def setEpisode_def split: if_splits)
    have "logged t2 (applyEntry (OpEpisode (Some e)) (view t)) \<or> logged t2 (view (t1\<lparr>epi := e\<rparr>))"
      using logged_write [OF l1, of "t1\<lparr>epi := e\<rparr>" "OpEpisode (Some e)"] by (simp add: e)
    moreover have "view t2 = view (t1\<lparr>epi := e\<rparr>)" by (simp add: e)
    moreover have "applyEntry (OpEpisode (Some e)) (view t) = (view (t1\<lparr>epi := e\<rparr>))\<lparr>st_Alerted := st_Alerted (view t)\<rparr>"
      by (simp add: applyEntry_def view_def t1_def)
    moreover have "view (t1\<lparr>epi := e\<rparr>) = (view (t1\<lparr>epi := e\<rparr>))\<lparr>st_Alerted := []\<rparr>"
      by (simp add: view_def t1_def)
    ultimately show ?thesis by metis
  qed
  then obtain A where A: "logged t2 ((view t2)\<lparr>st_Alerted := A\<rparr>)" by blast
  have "view t2 = (view t2)\<lparr>st_Alerted := []\<rparr>" by (simp add: view_def t2_def t1_def)
  then have "applyEntry OpClear ((view t2)\<lparr>st_Alerted := A\<rparr>) = view t2" by (simp add: applyEntry_def)
  then have "persisted (maybeCompact (append_entry OpClear t2))"
    using logged_write [OF A, of t2 OpClear] by (simp add: persisted_logged)
  moreover have "ClearAlerts t = maybeCompact (append_entry OpClear t2)"
    by (simp add: ClearAlerts_def t2_def t1_def Let_def)
  moreover have "ep_MRID (epi t2) = activeMRID t2"
    using assms by (simp add: t2_def t1_def tracker_inv_def)
  ultimately show ?thesis by (simp add: tracker_inv_def)
qed

lemma inv_step: "tracker_inv t \<Longrightarrow> tracker_inv (tracker_step e t)"
  by (cases e) (simp_all add: inv_Update inv_Alert inv_Clear ReceiptReject_def inv_set_status
      SetEgressGate_def SetLegacyCannotComplyCode_def tracker_inv_def [of "_\<lparr>gate := _\<rparr>"]
      tracker_inv_def [of "_\<lparr>legacyCannotComply := _\<rparr>"] tracker_inv_def [of t])

lemma inv_steps: "tracker_inv t \<Longrightarrow> tracker_inv (fold tracker_step es t)"
  by (rule fold_invariant_set) (auto intro: inv_step)

lemma inv_New:
  assumes "state_normal initial" and "\<forall>f. logged_to = Some f \<longrightarrow> records initial f"
  shows "tracker_inv (New ident outcomes big journal logged_to initial)"
  using assms
  by (auto simp: tracker_inv_def New_def Let_def persisted_def records_def view_def state_normal_def state_eqv_def
      copyEpisode_def zero_episode_def split: option.splits if_splits)

section \<open>The lifecycle automaton\<close>

text \<open>The order in which statuses may be recorded for one event: a receipt first (or a
  rejection, or a start), a start at most once until an end, exactly one end, and after an end
  only a new start.\<close>

datatype phase = Fresh | Pending | Running | Done

definition phase_step :: "phase \<Rightarrow> nat \<Rightarrow> phase option" where
  "phase_step p s =
     (if s = ResponseEventReceived then (if p = Fresh then Some Pending else None)
      else if s = ResponseEventStarted then (if p = Running then None else Some Running)
      else if terminalResponse s then (if p = Pending \<or> p = Running then Some Done else None)
      else if p = Done then None else Some (if p = Fresh then Pending else p))"

fun phase_run :: "phase \<Rightarrow> nat list \<Rightarrow> phase option" where
  "phase_run p [] = Some p"
| "phase_run p (s # ss) = (case phase_step p s of None \<Rightarrow> None | Some q \<Rightarrow> phase_run q ss)"

lemma phase_run_append:
  "phase_run p (xs @ ys) = (case phase_run p xs of None \<Rightarrow> None | Some q \<Rightarrow> phase_run q ys)"
  by (induction xs arbitrary: p) (auto split: option.split)

text \<open>The statuses recorded for an event, in order, as the log holds them.\<close>

definition statuses :: "string \<Rightarrow> stateEntry list \<Rightarrow> nat list" where
  "statuses m es = concat (map (\<lambda>e. case e of OpPosted k s \<Rightarrow> if k = m then [s] else [] | _ \<Rightarrow> []) es)"

lemma statuses_simps [simp]:
  "statuses m [] = []" "statuses m (es @ [OpPosted k s]) = statuses m es @ (if k = m then [s] else [])"
  "statuses m (es @ [OpAlerted x y]) = statuses m es" "statuses m (es @ [OpClear]) = statuses m es"
  "statuses m (es @ [OpEpisode e]) = statuses m es"
  by (simp_all add: statuses_def)

definition phase_of :: "Tracker \<Rightarrow> string \<Rightarrow> phase" where
  "phase_of t m = (case posted t m of None \<Rightarrow> Fresh
     | Some s \<Rightarrow> if terminalResponse s then Done
                else if activeMRID t = m then Running else Pending)"

definition life :: "(string \<Rightarrow> phase) \<Rightarrow> Tracker \<Rightarrow> bool" where
  "life p0 t \<longleftrightarrow> (\<exists>f. store t = Some f \<and> lf_rest f = None \<and>
       (\<forall>m. m \<noteq> '''' \<longrightarrow> phase_run (p0 m) (statuses m (entries f)) = Some (phase_of t m))) \<and>
     (\<forall>x. \<not> over t x) \<and> (activeMRID t \<noteq> '''' \<longrightarrow> posted t (activeMRID t) \<noteq> None)"

lemma no_compact: "\<forall>x. \<not> over t x \<Longrightarrow> maybeCompact t = t"
  by (simp add: maybeCompact_def split: option.split)

lemma append_store [simp]: "store (append_entry e t) = map_option (write_line e) (store t)"
  by (simp add: append_entry_def split: option.split)

lemma life_cong:
  "life p0 t \<Longrightarrow> store u = store t \<Longrightarrow> posted u = posted t \<Longrightarrow> activeMRID u = activeMRID t \<Longrightarrow>
     over u = over t \<Longrightarrow> life p0 u"
proof -
  assume a: "posted u = posted t" "activeMRID u = activeMRID t"
  then have "phase_of u m = phase_of t m" for m by (simp add: phase_of_def)
  with a show "life p0 t \<Longrightarrow> store u = store t \<Longrightarrow> over u = over t \<Longrightarrow> life p0 u" by (simp add: life_def)
qed

lemma life_append:
  assumes "life p0 t" and "e = OpClear \<or> (\<exists>x y. e = OpAlerted x y) \<or> (\<exists>x. e = OpEpisode x)"
  shows "life p0 (maybeCompact (append_entry e t))"
proof -
  have "\<forall>x. \<not> over (append_entry e t) x" using assms(1) by (simp add: life_def)
  then have "maybeCompact (append_entry e t) = append_entry e t" by (rule no_compact)
  moreover have "life p0 (append_entry e t)"
    using assms by (auto simp: life_def phase_of_def)
  ultimately show ?thesis by simp
qed

lemma life_setEpisode: "life p0 t \<Longrightarrow> life p0 (setEpisode e t)"
proof -
  assume l: "life p0 t"
  then have "life p0 (t\<lparr>epi := e\<rparr>)" by (rule life_cong) simp_all
  then show "life p0 (setEpisode e t)" using l by (auto simp: setEpisode_def intro: life_append)
qed

text \<open>Recording one more status, and possibly a new active event with it.\<close>

lemma life_record:
  assumes l: "life p0 t" and step: "m \<noteq> '''' \<Longrightarrow> phase_step (phase_of t m) s = Some p"
    and u: "store u = map_option (write_line (OpPosted m s)) (store t)" "posted u = (posted t)(m \<mapsto> s)"
      "over u = over t" "m \<noteq> '''' \<Longrightarrow> phase_of u m = p"
    and act: "activeMRID u = activeMRID t \<or> activeMRID t = '''' \<and> activeMRID u = m"
  shows "life p0 u"
proof -
  obtain f where f: "store t = Some f" "lf_rest f = None"
    and ph: "\<And>k. k \<noteq> '''' \<Longrightarrow> phase_run (p0 k) (statuses k (entries f)) = Some (phase_of t k)"
    using l by (auto simp: life_def)
  have "phase_run (p0 k) (statuses k (entries (write_line (OpPosted m s) f))) = Some (phase_of u k)" if k: "k \<noteq> ''''" for k
  proof (cases "k = m")
    case True
    then show ?thesis using ph [OF k] step u(4) k f(2) by (simp add: phase_run_append)
  next
    case False
    then have "phase_of u k = phase_of t k" using u(2) act k by (auto simp: phase_of_def)
    then show ?thesis using False ph [OF k] f(2) by simp
  qed
  then show ?thesis using l u act f by (auto simp: life_def)
qed

lemma set_status_store:
  "\<forall>x. \<not> over t x \<Longrightarrow> store (set_status now m s t) = map_option (write_line (OpPosted m s)) (store t)"
  using no_compact [of "append_entry (OpPosted m s) ((snd (postResponse now m s t))\<lparr>posted := (posted t)(m \<mapsto> s)\<rparr>)"]
  by (simp add: set_status_def Let_def)

lemma life_over: "life p0 t \<Longrightarrow> \<forall>x. \<not> over t x"
  by (simp add: life_def)

lemma life_set_status:
  assumes "life p0 t" and "m \<noteq> '''' \<Longrightarrow> phase_step (phase_of t m) s = Some p"
    and "m \<noteq> '''' \<Longrightarrow> p = (if terminalResponse s then Done else if activeMRID t = m then Running else Pending)"
  shows "life p0 (set_status now m s t)"
  by (rule life_record [OF assms(1,2)])
    (use assms(3) set_status_store [OF life_over [OF assms(1)]] in \<open>auto simp: phase_of_def\<close>)

lemma life_terminal:
  assumes "life p0 t" and "terminalResponse s" and "posted t m \<noteq> None" and "\<not> terminalResponse (last_status t m)"
  shows "life p0 (set_status now m s t)"
  using assms
  by (intro life_set_status [where p = Done])
    (auto simp: phase_step_def phase_of_def last_status_def)

lemma life_forget:
  assumes "life p0 t" and "activeMRID t \<noteq> '''' \<Longrightarrow> terminalResponse (last_status t (activeMRID t))"
  shows "life p0 (setEpisode zero_episode (t\<lparr>activeMRID := ''''\<rparr>))"
proof -
  have "phase_of (t\<lparr>activeMRID := ''''\<rparr>) m = phase_of t m" if "m \<noteq> ''''" for m
    using that assms(2) by (auto simp: phase_of_def last_status_def split: option.split)
  then have "life p0 (t\<lparr>activeMRID := ''''\<rparr>)" using assms(1) by (simp add: life_def)
  then show ?thesis by (rule life_setEpisode)
qed

lemma end_terminal [simp]: "terminalResponse (endOfEventCode t)"
  by (simp add: endOfEventCode_def)

lemma last_status_set [simp]: "last_status (set_status now m s t) k = (if k = m then s else last_status t k)"
  by (simp add: last_status_def)

lemma life_complete: "life p0 t \<Longrightarrow> life p0 (completeActive now t) \<and> activeMRID (completeActive now t) = ''''"
proof (cases "activeMRID t = ''''")
  case False
  assume l: "life p0 t"
  define u where "u = (if \<not> terminalResponse (last_status t (activeMRID t))
    then set_status now (activeMRID t) (endOfEventCode t) t else t)"
  have "life p0 u" using l False life_terminal [OF l end_terminal] by (auto simp: u_def life_def)
  moreover have "terminalResponse (last_status u (activeMRID u))" by (simp add: u_def)
  ultimately show ?thesis using life_forget [of p0 u] False by (simp add: completeActive_def u_def Let_def)
qed (simp add: completeActive_def)

lemma life_drop: "life p0 t \<Longrightarrow> terminalResponse (last_status t m) \<Longrightarrow> life p0 (drop_active m t)"
  using life_forget by (auto simp: drop_active_def)

lemma life_pass1: "life p0 t \<Longrightarrow> life p0 (pass1 now sd c t)"
proof -
  assume l: "life p0 t"
  let ?m = "ctrl_MRID c"
  have fresh: "life p0 (set_status now ?m ResponseEventReceived t)" if "posted t ?m = None"
    using that l by (intro life_set_status [where p = Pending]) (auto simp: phase_step_def phase_of_def life_def)
  have final: "life p0 (drop_active ?m (set_status now ?m s u))"
    if "life p0 u" "posted u ?m \<noteq> None" "\<not> terminalResponse (last_status u ?m)" "terminalResponse s" for u s
    using life_drop [OF life_terminal [OF that(1,4,2,3)]] that(4) by simp
  show "life p0 (pass1 now sd c t)"
    using l fresh final [of t] final [OF fresh] by (auto simp: pass1_def Let_def)
qed

lemma life_start:
  assumes l: "life p0 t" and a: "activeMRID t = ''''"
  shows "life p0 (start_active now m t)"
proof -
  let ?u = "(set_status now m ResponseEventStarted t)\<lparr>activeMRID := m\<rparr>"
  have "life p0 ?u"
  proof (rule life_record [OF l, where p = Running])
    show "m \<noteq> '''' \<Longrightarrow> phase_step (phase_of t m) ResponseEventStarted = Some Running"
      using a by (auto simp: phase_step_def phase_of_def code_defs split: option.splits)
  qed (use a set_status_store [OF life_over [OF l]] in \<open>auto simp: phase_of_def\<close>)
  then show ?thesis by (simp add: start_active_def Let_def life_setEpisode)
qed

lemma life_pass2: "life p0 t \<Longrightarrow> life p0 (pass2 now active t)"
  using life_complete life_start
  by (auto simp: pass2_def sample_episode_def Let_def life_setEpisode split: option.split)

lemma life_Update: "life p0 t \<Longrightarrow> life p0 (Update now ps active sd t)"
  unfolding Update_def by (intro life_pass2 fold_invariant_set [where P = "life p0"] life_pass1)

lemma life_post: "life p0 t \<Longrightarrow> life p0 (snd (postResponse now m s t))"
  by (erule life_cong) simp_all

lemma life_Alert: "life p0 t \<Longrightarrow> life p0 (AlertCannotComply now m ep t)"
proof -
  assume l: "life p0 t"
  have upd: "life p0 (u\<lparr>alerted := x\<rparr>)" "life p0 (u\<lparr>confirmedAlerted := x\<rparr>)" "life p0 (u\<lparr>jw := j\<rparr>)" if "life p0 u" for u x j
    using that by (auto intro: life_cong)
  have m: "life p0 (mark_alert m ep t)" using l upd by (simp add: mark_alert_def Let_def life_setEpisode)
  have c: "life p0 (confirm_alert m ep u)" if "life p0 u" for u
    using that upd life_append by (simp add: confirm_alert_def Let_def)
  show "life p0 (AlertCannotComply now m ep t)"
    using l c [OF life_post [OF m]] life_post [OF m]
    by (auto simp: AlertCannotComply_def Let_def split: prod.splits) (metis snd_conv)+
qed

lemma life_Clear: "life p0 t \<Longrightarrow> life p0 (ClearAlerts t)"
proof -
  assume "life p0 t"
  then have "life p0 (t\<lparr>alerted := [], confirmedAlerted := []\<rparr>)" by (rule life_cong) simp_all
  then show "life p0 (ClearAlerts t)" by (simp add: ClearAlerts_def Let_def life_append life_setEpisode)
qed

lemma life_Reject: "life p0 t \<Longrightarrow> code = ResponseRejectedParam \<or> code = ResponseRejectedInvalid \<Longrightarrow>
    life p0 (ReceiptReject now m code t)"
proof -
  assume l: "life p0 t" and c: "code = ResponseRejectedParam \<or> code = ResponseRejectedInvalid"
  show "life p0 (ReceiptReject now m code t)"
  proof (cases "legacyCannotComply t \<or> m = '''' \<or> posted t m \<noteq> None \<and>
      (last_status t m = code \<or> terminalResponse (last_status t m))")
    case True
    then show ?thesis using l by (auto simp: ReceiptReject_def)
  next
    case False
    have nt: "\<not> terminalResponse code" "code \<noteq> ResponseEventReceived" "code \<noteq> ResponseEventStarted"
      using c by (auto simp: code_defs terminalResponse_def)
    have "life p0 (set_status now m code t)"
      using l False nt
      by (intro life_set_status [where p = "if activeMRID t = m then Running else Pending"])
        (auto simp: phase_step_def phase_of_def last_status_def life_def split: option.splits)
    then show ?thesis using False by (auto simp: ReceiptReject_def)
  qed
qed

definition reject_code_ok :: "tracker_event \<Rightarrow> bool" where
  "reject_code_ok e = (case e of EvReject now m code \<Rightarrow>
     code = ResponseRejectedParam \<or> code = ResponseRejectedInvalid | _ \<Rightarrow> True)"

lemma life_step: "life p0 t \<Longrightarrow> reject_code_ok e \<Longrightarrow> life p0 (tracker_step e t)"
proof (cases e)
  case (EvGate g)
  then show "life p0 t \<Longrightarrow> ?thesis" by (auto simp: SetEgressGate_def intro: life_cong)
next
  case (EvLegacy b)
  then show "life p0 t \<Longrightarrow> ?thesis" by (auto simp: SetLegacyCannotComplyCode_def intro: life_cong)
qed (auto simp: reject_code_ok_def life_Update life_Alert life_Clear life_Reject)

text \<open>Reading a file: the lines that do not parse are skipped, unless there is nothing else.\<close>

lemma load_lines_value:
  assumes "list_all (\<lambda>l. case l of Entry v e \<Rightarrow> v = stateSchemaV | _ \<Rightarrow> True) ls"
  defines "es \<equiv> List.map_filter (\<lambda>l. case l of Entry v e \<Rightarrow> Some e | _ \<Rightarrow> None) ls"
  shows "load_lines ls st b n = (if \<not> b \<and> es = [] \<and> (0 < n \<or> Bad \<in> set ls) then Inl ErrStateCorrupt else Inr (fold applyEntry es st))"
  using assms(1) unfolding es_def
proof (induction ls arbitrary: st b n)
  case (Cons l ls)
  then show ?case by (cases l) (auto simp: List.map_filter_def)
qed (simp add: List.map_filter_def)

lemma load_lines_versions:
  "load_lines ls st b n = Inr s \<Longrightarrow> list_all (\<lambda>l. case l of Entry v e \<Rightarrow> v = stateSchemaV | _ \<Rightarrow> True) ls"
proof (induction ls arbitrary: st b n)
  case (Cons l ls)
  then show ?case by (cases l) (auto split: if_splits)
qed simp

lemma load_whole: "whole_lines f \<Longrightarrow> LoadState (Some f) = Inr (replay (entries f))"
  using load_lines_value [of "lf_lines f" empty_state False 0]
  by (auto simp: whole_lines_def LoadState_def file_lines_def replay_def entries_def)

lemma load_torn: "whole_lines f \<Longrightarrow> entries f \<noteq> [] \<Longrightarrow> LoadState (Some (f\<lparr>lf_rest := Some Bad\<rparr>)) = Inr (replay (entries f))"
  using load_lines_value [of "lf_lines f @ [Bad]" empty_state False 0]
  by (auto simp: whole_lines_def LoadState_def file_lines_def replay_def entries_def map_filter_append)

lemma loaded:
  assumes "LoadState (Some f) = Inr s" and "lf_rest f = None"
  shows "whole_lines f" and "s = replay (entries f)"
proof -
  have l: "load_lines (lf_lines f) empty_state False 0 = Inr s" using assms by (simp add: LoadState_def file_lines_def)
  note v = load_lines_versions [OF l]
  show "whole_lines f" "s = replay (entries f)" using l load_lines_value [OF v, of empty_state False 0] v assms(2)
    by (auto simp: whole_lines_def entries_def replay_def split: if_splits)
qed

lemma replay_normal: "state_normal (replay es)"
proof -
  have "state_normal (applyEntry e st)" if n: "state_normal st" for e st
  proof -
    have p: "live_posted (st_Posted st) = st_Posted st" using n by (simp add: state_normal_def)
    have "live_posted ((st_Posted st)(m := None)) = (st_Posted st)(m := None)" for m
      using fun_cong [OF p] by (auto simp: live_posted_def fun_eq_iff split: option.splits)
    then show ?thesis using n p by (cases e) (simp_all add: state_normal_def applyEntry_def Let_def)
  qed
  then show ?thesis unfolding replay_def
    by (intro fold_invariant_set [where P = state_normal]) (auto simp: state_normal_def empty_state_def live_posted_def copyEpisode_def)
qed

text \<open>What the tracker does does not depend on its log.\<close>

definition without_log :: "Tracker \<Rightarrow> Tracker" where
  "without_log t = t\<lparr>store := None, over := (\<lambda>_. False)\<rparr>"

lemma without_log_fields [simp]:
  "posted (without_log t) = posted t" "activeMRID (without_log t) = activeMRID t" "alerted (without_log t) = alerted t"
  "epi (without_log t) = epi t" "legacyCannotComply (without_log t) = legacyCannotComply t"
  "last_status (without_log t) m = last_status t m" "endOfEventCode (without_log t) = endOfEventCode t"
  "without_log (maybeCompact (append_entry e t)) = without_log t" "maybeCompact (append_entry e (without_log t)) = without_log t"
  by (simp_all add: without_log_def last_status_def endOfEventCode_def maybeCompact_def append_entry_def Compact_def split: option.split)

lemma without_log_post:
  "fst (postResponse now m s (without_log t)) = fst (postResponse now m s t)"
  "without_log (snd (postResponse now m s t)) = snd (postResponse now m s (without_log t))"
  by (simp_all add: postResponse_def without_log_def Let_def)

lemma without_log_updates:
  "without_log (t\<lparr>epi := e\<rparr>) = (without_log t)\<lparr>epi := e\<rparr>" "without_log (t\<lparr>posted := p\<rparr>) = (without_log t)\<lparr>posted := p\<rparr>"
  "without_log (t\<lparr>activeMRID := a\<rparr>) = (without_log t)\<lparr>activeMRID := a\<rparr>" "without_log (t\<lparr>alerted := x\<rparr>) = (without_log t)\<lparr>alerted := x\<rparr>"
  "without_log (t\<lparr>confirmedAlerted := c\<rparr>) = (without_log t)\<lparr>confirmedAlerted := c\<rparr>"
  "without_log (t\<lparr>gate := g\<rparr>) = (without_log t)\<lparr>gate := g\<rparr>" "without_log (t\<lparr>legacyCannotComply := l\<rparr>) = (without_log t)\<lparr>legacyCannotComply := l\<rparr>"
  "without_log (t\<lparr>jw := map_option h (jw t)\<rparr>) = (without_log t)\<lparr>jw := map_option h (jw (without_log t))\<rparr>"
  by (simp_all add: without_log_def)

lemma log_dropped: "maybeCompact (append_entry e ((without_log t)\<lparr>epi := x\<rparr>)) = (without_log t)\<lparr>epi := x\<rparr>"
  using without_log_fields(9) [of e "t\<lparr>epi := x\<rparr>"] by (simp add: without_log_updates)

lemma without_log_setEpisode: "without_log (setEpisode e t) = setEpisode e (without_log t)"
  by (simp add: setEpisode_def without_log_updates log_dropped)

lemma without_log_set_status: "without_log (set_status now m s t) = set_status now m s (without_log t)"
  by (simp only: set_status_def Let_def without_log_post(2) [symmetric] without_log_updates(2) [symmetric] without_log_fields(1,8,9))

lemma without_log_alert: "without_log (AlertCannotComply now m ep t) = AlertCannotComply now m ep (without_log t)"
proof -
  have a: "without_log (mark_alert m ep u) = mark_alert m ep (without_log u)" for u
    by (simp add: mark_alert_def Let_def without_log_updates without_log_setEpisode)
  have b: "without_log (confirm_alert m ep u) = confirm_alert m ep (without_log u)" for u
    using without_log_fields(9) [of "OpAlerted m ep" "u\<lparr>confirmedAlerted := insert_keys m ep (confirmedAlerted u)\<rparr>"]
    by (simp add: confirm_alert_def Let_def) (simp add: without_log_def maybeCompact_def append_entry_def Compact_def split: option.split)
  have l: "legacyCannotComply (mark_alert m ep u) = legacyCannotComply u" for u by (simp add: mark_alert_def Let_def)
  show ?thesis
    by (simp add: AlertCannotComply_def Let_def case_prod_unfold a b l without_log_post flip: a)
qed

lemma without_log_step: "without_log (tracker_step e t) = tracker_step e (without_log t)"
proof -
  have complete: "without_log (completeActive now u) = completeActive now (without_log u)" for now u
    by (simp add: completeActive_def Let_def without_log_setEpisode without_log_updates without_log_set_status)
  have drop: "without_log (drop_active m u) = drop_active m (without_log u)" for m u
    by (simp add: drop_active_def without_log_setEpisode without_log_updates)
  have one: "without_log (pass1 now sd c u) = pass1 now sd c (without_log u)" for now sd c u
    by (simp add: pass1_def Let_def drop without_log_set_status)
  have all: "without_log (fold (pass1 now sd) cs u) = fold (pass1 now sd) cs (without_log u)" for now sd cs u
    by (induction cs arbitrary: u) (simp_all add: one)
  have start: "without_log (start_active now m u) = start_active now m (without_log u)" for now m u
    by (simp add: start_active_def Let_def without_log_setEpisode without_log_updates without_log_set_status)
  have "without_log (sample_episode u) = sample_episode (without_log u)" for u
    by (simp add: sample_episode_def without_log_setEpisode)
  then have two: "without_log (pass2 now a u) = pass2 now a (without_log u)" for now a u
    by (simp add: pass2_def Let_def complete start split: option.split)
  have clear: "without_log (ClearAlerts t) = ClearAlerts (without_log t)"
  proof -
    let ?w = "\<lambda>u. if BreachActive (epi u) then setEpisode ((epi u)\<lparr>BreachActive := False\<rparr>) (u\<lparr>alerted := [], confirmedAlerted := []\<rparr>)
      else u\<lparr>alerted := [], confirmedAlerted := []\<rparr>"
    have c: "ClearAlerts u = maybeCompact (append_entry OpClear (?w u))" for u by (simp add: ClearAlerts_def Let_def)
    have "?w (without_log t) = without_log (?w t)" by (simp add: without_log_setEpisode without_log_updates)
    then show ?thesis by (simp only: c without_log_fields(8,9))
  qed
  show ?thesis
    by (cases e) (simp_all add: Update_def all two clear without_log_alert without_log_set_status without_log_updates ReceiptReject_def
        SetEgressGate_def SetLegacyCannotComplyCode_def)
qed

lemma without_log_run: "without_log (fold tracker_step es t) = fold tracker_step es (without_log t)"
  by (induction es arbitrary: t) (simp_all add: without_log_step)

text \<open>The statuses a run records for an event, in order: what it writes, read from an empty log that is
  never compacted.\<close>

definition recorded :: "string \<Rightarrow> tracker_event list \<Rightarrow> Tracker \<Rightarrow> nat list" where
  "recorded m evs t = statuses m (entries (the (store (fold tracker_step evs (t\<lparr>store := Some empty_log, over := (\<lambda>_. False)\<rparr>)))))"

lemma alerted_mark [simp]: "alerted (mark_alert m ep t) = insert_keys m ep (alerted t)"
  by (simp add: mark_alert_def Let_def)

lemma alerted_confirm [simp]: "alerted (confirm_alert m ep t) = alerted t"
  by (simp add: confirm_alert_def Let_def)

lemma alerted_alert:
  "alerted (AlertCannotComply now m ep t) =
     (if m \<in> set (alerted t) \<or> ep \<noteq> '''' \<and> ep \<in> set (alerted t) then alerted t
      else insert_keys m ep (alerted t))"
proof -
  let ?u = "mark_alert m ep t"
  let ?code = "if legacyCannotComply ?u then ResponseCannotComply else ResponsePartialOptOut"
  obtain ok v where p: "postResponse now m ?code ?u = (ok, v)" by force
  have "alerted v = insert_keys m ep (alerted t)" using postResponse_fields(3) [of now m ?code ?u] p by simp
  then show ?thesis by (simp add: AlertCannotComply_def Let_def p [unfolded Let_def])
qed

lemma insert_keys_set: "set (insert_keys m ep ks) = (if ep \<noteq> '''' then {m, ep} else {m}) \<union> set ks"
  by (auto simp: insert_keys_def Let_def)

lemma alerted_grows:
  assumes "e \<noteq> EvClear"
  shows "set (alerted t) \<subseteq> set (alerted (tracker_step e t))"
proof -
  have drop: "alerted (drop_active m u) = alerted u" for m u by (simp add: drop_active_def)
  have p1: "alerted (pass1 now sd c u) = alerted u" for now sd c u
    by (simp add: pass1_def Let_def drop)
  have f: "alerted (fold (pass1 now sd) cs u) = alerted u" for now sd cs u
    by (induction cs arbitrary: u) (simp_all add: p1)
  have comp: "alerted (completeActive now u) = alerted u" for now u
    by (simp add: completeActive_def Let_def)
  have "alerted (pass2 now a u) = alerted u" for now a u
    by (simp add: pass2_def Let_def comp start_active_def sample_episode_def split: option.split)
  with f have u: "alerted (Update now ps a sd t) = alerted t" for now ps a sd by (simp add: Update_def)
  have al: "set (alerted t) \<subseteq> set (alerted (AlertCannotComply now mr ep t))" for now mr ep
    by (simp add: alerted_alert insert_keys_set)
  show ?thesis using assms u al
    by (cases e) (simp_all add: ReceiptReject_def SetEgressGate_def SetLegacyCannotComplyCode_def)
qed

lemma alerted_grows_steps:
  "EvClear \<notin> set es \<Longrightarrow> set (alerted t) \<subseteq> set (alerted (fold tracker_step es t))"
proof (induction es arbitrary: t)
  case (Cons e es)
  then show ?case using alerted_grows [of e t] Cons.IH [of "tracker_step e t"] by auto
qed simp


section \<open>Properties\<close>

text \<open>
  Property C30: the Response lifecycle. Whatever walks, breach alerts, clears, receipt rejections (with
  one of the two rejection codes) and gate or mode changes arrive, and whatever log is kept and
  compacted meanwhile, the statuses recorded for each event (with a non-empty mRID) follow the lifecycle
  automaton from the phase the event is in at the start to the one it is in at the end: Received first
  and at most once, Started never twice without an end in between, at most one terminal status per
  start, and nothing but a new Started after a terminal status; and an event is in its running phase
  exactly when it is the active one and not ended. The start is any loaded state whose open event has a
  status; for an empty one every event starts fresh.
\<close>

theorem response_lifecycle:
  assumes "t0 = New ident outcomes big journal logged_to initial" and "\<forall>e \<in> set evs. reject_code_ok e" and "m \<noteq> ''''"
    and "case st_Episode initial of None \<Rightarrow> True | Some e \<Rightarrow> ep_MRID e = '''' \<or> st_Posted initial (ep_MRID e) \<noteq> None"
  shows "phase_run (phase_of t0 m) (recorded m evs t0) = Some (phase_of (fold tracker_step evs t0) m)"
proof -
  let ?u = "t0\<lparr>store := Some empty_log, over := (\<lambda>_. False)\<rparr>"
  have "activeMRID t0 \<noteq> '''' \<longrightarrow> posted t0 (activeMRID t0) \<noteq> None"
    using assms(4) by (auto simp: assms(1) New_def Let_def split: option.splits)
  then have "life (phase_of t0) ?u" by (simp add: life_def phase_of_def statuses_def)
  then have l: "life (phase_of t0) (fold tracker_step evs ?u)"
    by (rule fold_invariant_set) (use assms(2) life_step in blast)
  have "without_log ?u = without_log t0" by (simp add: without_log_def)
  then have "without_log (fold tracker_step evs ?u) = without_log (fold tracker_step evs t0)" by (simp add: without_log_run)
  then have "posted (fold tracker_step evs ?u) = posted (fold tracker_step evs t0)"
    "activeMRID (fold tracker_step evs ?u) = activeMRID (fold tracker_step evs t0)" by (metis without_log_fields(1,2))+
  then have "phase_of (fold tracker_step evs ?u) m = phase_of (fold tracker_step evs t0) m" by (simp add: phase_of_def)
  then show ?thesis using l assms(3) by (auto simp: life_def recorded_def)
qed


text \<open>
  A torn line costs the next entry as well. The store appends to the file as a crash left it, so the
  first entry written after a restart on a torn line completes that line to one that does not parse. If
  it records a CannotComply that was posted, the next restart does not know of it.
\<close>

theorem torn_restart_forgets_alert:
  assumes "lf_rest f = Some Bad" and "LoadState (Some f) = Inr st" and "t = New ident outcomes big journal (Some f) st"
    and "m \<notin> set (alerted t)" and "ep \<notin> set (alerted t)" and "m \<noteq> activeMRID t" and "outcomes 0"
    and "\<not> big (write_line (OpAlerted m ep) f)" and "t1 = AlertCannotComply now m ep t"
  shows "m \<in> set (confirmedAlerted t1) \<and> (\<exists>f1. store t1 = Some f1 \<and> LoadState (Some f1) = Inr st) \<and>
    m \<notin> set (alerted (New ident outcomes' big journal (store t1) st))"
proof -
  have t: "store t = Some f" "over t = big" "gate t = None" "net t = outcomes" "sent t = []" "alerted t = st_Alerted st"
    by (simp_all add: assms(3) New_def Let_def split: option.split)
  have "file_lines (write_line (OpAlerted m ep) f) = file_lines f" by (simp add: file_lines_def write_line_def assms(1))
  then have l: "LoadState (Some (write_line (OpAlerted m ep) f)) = Inr st" using assms(2) by (simp add: LoadState_def)
  have "store t1 = Some (write_line (OpAlerted m ep) f)" "m \<in> set (confirmedAlerted t1)"
    unfolding assms(9) using t assms(4-8)
    by (simp_all add: AlertCannotComply_def mark_alert_def postResponse_def Suspended_def confirm_alert_def maybeCompact_def Let_def
        append_entry_def insert_keys_def)
  moreover have "m \<notin> set (alerted (New ident outcomes' big journal (store t1) st))"
    using assms(4) t(6) by (simp add: New_def Let_def split: option.split)
  ultimately show ?thesis using l by blast
qed

text \<open>
  One CannotComply Response per breach episode. After an alert for an event, and
  until the alerts are cleared, every further alert naming the same event or the same (non-empty)
  episode leaves the tracker unchanged: nothing more is posted, recorded or journaled.
\<close>

theorem alert_posted_once:
  assumes "EvClear \<notin> set evs" and "t = fold tracker_step evs (AlertCannotComply now m ep t0)"
    and "m \<notin> set (alerted t0)" and "ep = '''' \<or> ep \<notin> set (alerted t0)"
    and "m' = m \<or> ep' \<noteq> '''' \<and> ep' = ep"
  shows "AlertCannotComply later m' ep' t = t"
proof -
  have "alerted (AlertCannotComply now m ep t0) = insert_keys m ep (alerted t0)"
    using assms(3,4) by (auto simp: alerted_alert)
  then have "m \<in> set (alerted t) \<and> (ep \<noteq> '''' \<longrightarrow> ep \<in> set (alerted t))"
    using alerted_grows_steps [OF assms(1), of "AlertCannotComply now m ep t0"] assms(2)
    by (auto simp: insert_keys_set split: if_splits)
  then show ?thesis using assms(5) by (auto simp: AlertCannotComply_def)
qed

text \<open>
  A restart forgets ended events. The log keeps no terminal status, so after a
  reload an event that had ended but that the server still lists (neither cancelled nor
  superseded) is unknown again, and the first walk records Received for it once more.
\<close>

theorem ended_event_received_again:
  assumes "tracker_inv t" and "store t = Some f" and "posted t (ctrl_MRID c) = Some s"
    and "terminalResponse s" and "\<not> cancelled c" and "ctrl_MRID c \<notin> set sd"
    and "LoadState (Some f) = Inr st"
  shows "posted (pass1 now sd c (New ident outcomes big journal (Some f) st)) (ctrl_MRID c)
    = Some ResponseEventReceived"
proof -
  have r: "records (view t) f" using assms(1,2) by (simp add: tracker_inv_def persisted_def)
  then have "st = replay (entries f)" using assms(7) loaded(2) by (simp add: records_def whole_lines_def)
  then have "st_Posted st = live_posted (posted t)" using r by (simp add: records_def state_eqv_def view_def)
  then have "posted (New ident outcomes big journal (Some f) st) (ctrl_MRID c) = None"
    using assms(3,4) by (simp add: New_def Let_def live_posted_def split: option.split)
  then show ?thesis using assms(5,6) by (simp add: pass1_def Let_def)
qed

section \<open>A concrete run\<close>

text \<open>The event of the scheduler's example is received, started, breached, and ends.\<close>

definition ex_t0 :: Tracker where
  "ex_t0 = New ''L'' (\<lambda>_. True) (\<lambda>_. False) (Some []) (Some empty_log) empty_state"

definition ex_walks :: "tracker_event list" where
  "ex_walks = [EvUpdate 110 [ex_prog] (Some ex_ac) [], EvAlert 111 ''E'' ''ep1'',
     EvUpdate 150 [ex_prog] None []]"

lemma ex_controls [simp]: "controls_of ex_prog = [ex_event]"
  by (simp add: controls_of_def)

lemmas tracker_eval = Update_def pass1_def pass2_def set_status_def postResponse_def maybeCompact_def
  append_entry_def start_active_def setEpisode_def completeActive_def endOfEventCode_def
  last_status_def AlertCannotComply_def mark_alert_def confirm_alert_def insert_keys_def Let_def
  Suspended_def sample_episode_def drop_active_def

definition ex_file :: log_file where
  "ex_file = \<lparr>lf_lines = map (Entry 1) [OpPosted ''E'' 1, OpPosted ''E'' 2,
     OpEpisode (Some \<lparr>ep_MRID = ''E'', SawBreach = False, SawCompliant = False, BreachActive = False\<rparr>)], lf_rest = None\<rparr>"

lemma ex_t1: "tracker_step (EvUpdate 110 [ex_prog] (Some ex_ac) []) ex_t0 =
   ex_t0\<lparr>posted := [''E'' \<mapsto> 2], activeMRID := ''E'', responsesPosted := 2,
     store := Some ex_file,
     epi := \<lparr>ep_MRID = ''E'', SawBreach = False, SawCompliant = False, BreachActive = False\<rparr>,
     sent := [(\<lparr>CreatedDateTime = 110, EndDeviceLFDI = ''L'', resp_Status = 1, Subject = ''E''\<rparr>, True),
              (\<lparr>CreatedDateTime = 110, EndDeviceLFDI = ''L'', resp_Status = 2, Subject = ''E''\<rparr>, True)]\<rparr>"
  by (simp add: ex_t0_def New_def empty_state_def tracker_eval code_defs zero_episode_def ex_file_def write_line_def empty_log_def stateSchemaV_def)

lemma ex_loads: "LoadState (Some empty_log) = Inr empty_state"
  by (simp add: LoadState_def file_lines_def empty_log_def)

theorem response_lifecycle_witness:
  "phase_run Fresh (recorded ''E'' ex_walks ex_t0) = Some (phase_of (fold tracker_step ex_walks ex_t0) ''E'')"
proof -
  have "phase_of ex_t0 ''E'' = Fresh" by (simp add: phase_of_def ex_t0_def New_def empty_state_def)
  then show ?thesis using response_lifecycle [OF ex_t0_def, of ex_walks "''E''"]
    by (simp add: ex_walks_def reject_code_ok_def empty_state_def del: fold_simps)
qed


theorem torn_restart_forgets_alert_witness:
  "\<exists>st f1. LoadState (Some (ex_file\<lparr>lf_rest := Some Bad\<rparr>)) = Inr st \<and>
     store (AlertCannotComply 300 ''F'' ''ep9'' (New ''L'' (\<lambda>_. True) (\<lambda>_. False) (Some []) (Some (ex_file\<lparr>lf_rest := Some Bad\<rparr>)) st)) = Some f1 \<and>
     LoadState (Some f1) = Inr st"
proof -
  let ?f = "ex_file\<lparr>lf_rest := Some Bad\<rparr>"
  let ?st = "\<lparr>st_Posted = [''E'' \<mapsto> 2], st_Alerted = [],
    st_Episode = Some \<lparr>ep_MRID = ''E'', SawBreach = False, SawCompliant = False, BreachActive = False\<rparr>\<rparr>"
  have l: "LoadState (Some ?f) = Inr ?st"
    by (simp add: LoadState_def file_lines_def ex_file_def stateSchemaV_def applyEntry_def empty_state_def copyEpisode_def terminalResponse_def code_defs)
  have n: "alerted (New ''L'' (\<lambda>_. True) (\<lambda>_. False) (Some []) (Some ?f) ?st) = []"
    "activeMRID (New ''L'' (\<lambda>_. True) (\<lambda>_. False) (Some []) (Some ?f) ?st) = ''E''" by (simp_all add: New_def)
  let ?t = "New ''L'' (\<lambda>_. True) (\<lambda>_. False) (Some []) (Some ?f) ?st"
  have "\<exists>f1. store (AlertCannotComply 300 ''F'' ''ep9'' ?t) = Some f1 \<and> LoadState (Some f1) = Inr ?st"
    by (rule torn_restart_forgets_alert [OF _ l refl _ _ _ _ _ refl, THEN conjunct2, THEN conjunct1]) (simp_all add: n)
  then show ?thesis using l by blast
qed

theorem alert_posted_once_witness:
  "AlertCannotComply 112 ''E'' ''ep2'' (fold tracker_step [EvUpdate 112 [ex_prog] (Some ex_ac) []]
      (AlertCannotComply 111 ''E'' ''ep1'' ex_t0)) =
    fold tracker_step [EvUpdate 112 [ex_prog] (Some ex_ac) []] (AlertCannotComply 111 ''E'' ''ep1'' ex_t0)"
  by (rule alert_posted_once [OF _ refl]) (simp_all add: ex_t0_def New_def empty_state_def)

theorem ended_event_received_again_witness:
  "posted (pass1 200 [] ex_event (New ''L'' (\<lambda>_. True) (\<lambda>_. False) None (Some (write_line (OpPosted ''E'' 3) empty_log))
      (replay [OpPosted ''E'' 3]))) ''E'' = Some 1"
proof -
  let ?f = "write_line (OpPosted ''E'' 3) empty_log"
  let ?t = "ex_t0\<lparr>posted := [''E'' \<mapsto> 3], store := Some ?f\<rparr>"
  have e: "entries ?f = [OpPosted ''E'' 3]" "whole_lines ?f" by simp_all
  then have "tracker_inv ?t"
    by (auto simp: tracker_inv_def persisted_def records_def view_def ex_t0_def New_def empty_state_def zero_episode_def
        state_eqv_def replay_def applyEntry_def terminalResponse_def code_defs live_posted_def copyEpisode_def)
  then show ?thesis
    using ended_event_received_again [of ?t ?f ex_event 3 "[]" "replay [OpPosted ''E'' 3]" 200
      "''L''" "\<lambda>_. True" "\<lambda>_. False" None] load_whole [OF e(2)] e(1)
    by (simp add: terminalResponse_def ResponseEventCompleted_def ResponseEventReceived_def)
qed

end
