(* ===== verification/Arbiter.thy ===== *)
theory Arbiter
  imports GoFloat "HOL-Library.Product_Lexorder"
begin

text \<open>
  internal/orchestrator/constraint: demands (constraint.go) and their arbitration into one
  admissible interval per device axis (arbiter.go). A missing bound is NaN, as in the code. The
  text of a conflict is kept as the data it is rendered from. Tiers and axes are instances of
  \<open>linorder\<close>, in the order of the code's numbering, so that \<open>sort_key\<close> is the code's stable
  sort by tier and source.
\<close>

section \<open>Tiers, axes, demands\<close>

datatype Tier = TierSafety | TierCompliance | TierEconomics

datatype Axis = AxisSolarCeilingW | AxisBatterySetpointW | AxisEVSECurrentA | AxisConnect

fun tier_num :: "Tier \<Rightarrow> nat" where
  "tier_num TierSafety = 0"
| "tier_num TierCompliance = 1"
| "tier_num TierEconomics = 2"

lemma tier_num_inj: "tier_num a = tier_num b \<Longrightarrow> a = b"
  by (cases a; cases b) simp_all

instantiation Tier :: linorder
begin

definition less_eq_Tier :: "Tier \<Rightarrow> Tier \<Rightarrow> bool" where
  "less_eq_Tier a b \<longleftrightarrow> tier_num a \<le> tier_num b"

definition less_Tier :: "Tier \<Rightarrow> Tier \<Rightarrow> bool" where
  "less_Tier a b \<longleftrightarrow> tier_num a < tier_num b"

instance
  by standard (auto simp: less_eq_Tier_def less_Tier_def intro: tier_num_inj)

end

definition Tier_String :: "Tier \<Rightarrow> string" where
  "Tier_String t = (case t of TierSafety \<Rightarrow> ''safety'' | TierCompliance \<Rightarrow> ''compliance''
     | TierEconomics \<Rightarrow> ''economics'')"

definition axisOrder :: "Axis list" where
  "axisOrder = [AxisSolarCeilingW, AxisBatterySetpointW, AxisEVSECurrentA, AxisConnect]"

definition Axis_String :: "Axis \<Rightarrow> string" where
  "Axis_String a = (case a of AxisSolarCeilingW \<Rightarrow> ''solar-ceiling-w''
     | AxisBatterySetpointW \<Rightarrow> ''battery-setpoint-w'' | AxisEVSECurrentA \<Rightarrow> ''evse-current-a''
     | AxisConnect \<Rightarrow> ''connect'')"

definition axisKey :: "string \<Rightarrow> Axis \<Rightarrow> string" where
  "axisKey device axis = device @ ''/'' @ Axis_String axis"

record Demand =
  dem_Device :: string
  dem_Axis :: Axis
  dem_Min :: f64
  dem_Max :: f64
  dem_Connect :: "bool option"
  dem_Tier :: Tier
  dem_Source :: string

definition CeilingDemand :: "string \<Rightarrow> Axis \<Rightarrow> f64 \<Rightarrow> Tier \<Rightarrow> string \<Rightarrow> Demand" where
  "CeilingDemand device axis maxW tier source =
     \<lparr>dem_Device = device, dem_Axis = axis, dem_Min = NaN, dem_Max = maxW, dem_Connect = None,
      dem_Tier = tier, dem_Source = source\<rparr>"

definition PointDemand :: "string \<Rightarrow> Axis \<Rightarrow> f64 \<Rightarrow> Tier \<Rightarrow> string \<Rightarrow> Demand" where
  "PointDemand device axis v tier source =
     \<lparr>dem_Device = device, dem_Axis = axis, dem_Min = v, dem_Max = v, dem_Connect = None,
      dem_Tier = tier, dem_Source = source\<rparr>"

definition ConnectDemand :: "string \<Rightarrow> bool \<Rightarrow> Tier \<Rightarrow> string \<Rightarrow> Demand" where
  "ConnectDemand device connect tier source =
     \<lparr>dem_Device = device, dem_Axis = AxisConnect, dem_Min = NaN, dem_Max = NaN,
      dem_Connect = Some connect, dem_Tier = tier, dem_Source = source\<rparr>"

section \<open>Arbitration\<close>

record Interval =
  iv_Min :: f64
  iv_Max :: f64

datatype conflict_reason =
    NoIntersection f64
  | OutsideHigherTier f64 f64 f64 f64
  | ConnectContention string string

record Conflict =
  cf_Device :: string
  cf_Axis :: Axis
  cf_Tier :: Tier
  cf_Sources :: "string \<times> string"
  cf_Reason :: conflict_reason

record Desired =
  des_Device :: string
  Bounds :: "(Axis \<times> Interval) list"
  Authors :: "(Axis \<times> string) list"
  des_Connect :: "bool option"
  Conflicts :: "Conflict list"

definition Bound :: "Desired \<Rightarrow> Axis \<Rightarrow> Interval option" where
  "Bound d axis = map_of (Bounds d) axis"

definition Author :: "Desired \<Rightarrow> Axis \<Rightarrow> string option" where
  "Author d axis = map_of (Authors d) axis"

definition sortDemands :: "Demand list \<Rightarrow> Demand list" where
  "sortDemands grp = sort_key (\<lambda>d. (dem_Tier d, dem_Source d)) grp"

definition lower :: "Demand \<Rightarrow> f64" where
  "lower d = (if is_nan (dem_Min d) then NInf else dem_Min d)"

definition upper :: "Demand \<Rightarrow> f64" where
  "upper d = (if is_nan (dem_Max d) then PInf else dem_Max d)"

record tier_acc =
  acc_lo :: f64
  acc_hi :: f64
  acc_author :: string
  acc_conflicts :: "Conflict list"

definition intersect_step :: "string \<Rightarrow> Axis \<Rightarrow> Demand \<Rightarrow> tier_acc \<Rightarrow> tier_acc" where
  "intersect_step device axis d a =
     (let newLo = fmax (acc_lo a) (lower d); newHi = fmin (acc_hi a) (upper d) in
      if fle newLo newHi
      then a\<lparr>acc_lo := newLo, acc_hi := newHi,
             acc_author := (if flt (upper d) PInf \<and> (acc_author a = '''' \<or> fle (upper d) newHi)
                            then dem_Source d else acc_author a)\<rparr>
      else let hi = fmin (acc_hi a) (upper d); lo = fmin (acc_lo a) hi
           in a\<lparr>acc_lo := lo, acc_hi := hi, acc_author := dem_Source d,
                acc_conflicts := acc_conflicts a @
                  [\<lparr>cf_Device = device, cf_Axis = axis, cf_Tier = dem_Tier d,
                    cf_Sources = (acc_author a, dem_Source d), cf_Reason = NoIntersection hi\<rparr>]\<rparr>)"

definition intersectSameTier :: "string \<Rightarrow> Axis \<Rightarrow> Demand list \<Rightarrow> tier_acc" where
  "intersectSameTier device axis grp =
     fold (intersect_step device axis) grp
       \<lparr>acc_lo = NInf, acc_hi = PInf, acc_author = '''', acc_conflicts = []\<rparr>"

text \<open>Contiguous runs of one tier.\<close>

fun groupByTier :: "Demand list \<Rightarrow> (Tier \<times> Demand list) list" where
  "groupByTier [] = []"
| "groupByTier (d # ds) =
     (case groupByTier ds of
        [] \<Rightarrow> [(dem_Tier d, [d])]
      | (t, g) # rest \<Rightarrow> if t = dem_Tier d then (t, d # g) # rest
                        else (dem_Tier d, [d]) # (t, g) # rest)"

text \<open>The fold across tiers; the flag of the code's \<open>accSet\<close> is the option.\<close>

definition tier_step :: "string \<Rightarrow> Axis \<Rightarrow> Tier \<times> Demand list \<Rightarrow> tier_acc option \<Rightarrow> tier_acc option" where
  "tier_step device axis tg acc =
     (let t = intersectSameTier device axis (snd tg) in
      case acc of
        None \<Rightarrow> Some t
      | Some a \<Rightarrow>
          let conflicts = acc_conflicts a @ acc_conflicts t;
              newLo = fmax (acc_lo a) (acc_lo t); newHi = fmin (acc_hi a) (acc_hi t) in
          if fle newLo newHi
          then Some (a\<lparr>acc_lo := newLo, acc_hi := newHi, acc_conflicts := conflicts,
                 acc_author := (if flt newHi (acc_hi a) \<or> feq newHi (acc_hi a) \<and> flt (acc_lo a) newLo
                                then acc_author t else acc_author a)\<rparr>)
          else Some (a\<lparr>acc_conflicts := conflicts @
                 [\<lparr>cf_Device = device, cf_Axis = axis, cf_Tier = fst tg,
                   cf_Sources = (dem_Source (hd (snd tg)), dem_Source (last (snd tg))),
                   cf_Reason = OutsideHigherTier (acc_lo t) (acc_hi t) (acc_lo a) (acc_hi a)\<rparr>]\<rparr>))"

definition infToNaN :: "f64 \<Rightarrow> f64" where
  "infToNaN v = (if is_inf v then NaN else v)"

definition resolve_tiers :: "string \<Rightarrow> Axis \<Rightarrow> Demand list \<Rightarrow> tier_acc" where
  "resolve_tiers device axis grp =
     (case fold (tier_step device axis) (groupByTier (sortDemands grp)) None of
        None \<Rightarrow> \<lparr>acc_lo = NInf, acc_hi = PInf, acc_author = '''', acc_conflicts = []\<rparr>
      | Some a \<Rightarrow> a)"

definition resolveInterval :: "string \<Rightarrow> Axis \<Rightarrow> Demand list \<Rightarrow> Interval \<times> string \<times> Conflict list" where
  "resolveInterval device axis grp =
     (let a = resolve_tiers device axis grp
      in (\<lparr>iv_Min = infToNaN (acc_lo a), iv_Max = infToNaN (acc_hi a)\<rparr>, acc_author a, acc_conflicts a))"

text \<open>The first source of a tier (or of all) that wants the given state.\<close>

definition first_source :: "bool \<Rightarrow> Demand list \<Rightarrow> string" where
  "first_source v ds =
     (case find (\<lambda>d. dem_Connect d = Some v \<and> dem_Source d \<noteq> '''') ds of
        None \<Rightarrow> '''' | Some d \<Rightarrow> dem_Source d)"

definition resolveConnect :: "string \<Rightarrow> Demand list \<Rightarrow> bool option \<times> string \<times> Conflict list" where
  "resolveConnect device grp =
     (let ds = sortDemands grp;
          contention = (\<lambda>t. let ts = filter (\<lambda>d. dem_Tier d = t) ds;
                                a = first_source True ts; b = first_source False ts
             in if a \<noteq> '''' \<and> b \<noteq> ''''
                then [\<lparr>cf_Device = device, cf_Axis = AxisConnect, cf_Tier = t, cf_Sources = (a, b),
                       cf_Reason = ConnectContention a b\<rparr>] else []);
          conflicts = concat (map contention [TierSafety, TierCompliance, TierEconomics])
      in if list_ex (\<lambda>d. dem_Connect d = Some False) ds
         then (Some False, first_source False ds, conflicts)
         else if list_ex (\<lambda>d. dem_Connect d = Some True) ds
         then (Some True, first_source True ds, conflicts)
         else (None, '''', conflicts))"

definition resolve_axis :: "string \<Rightarrow> Demand list \<Rightarrow> Axis \<Rightarrow> Desired \<Rightarrow> Desired" where
  "resolve_axis dev demands axis des =
     (let grp = filter (\<lambda>d. dem_Device d = dev \<and> dem_Axis d = axis) demands in
      if grp = [] then des
      else if axis = AxisConnect
      then let (connect, author, conflicts) = resolveConnect dev grp
           in des\<lparr>des_Connect := connect,
                  Authors := Authors des @ (if author \<noteq> '''' then [(axis, author)] else []),
                  Conflicts := Conflicts des @ conflicts\<rparr>
      else let (iv, author, conflicts) = resolveInterval dev axis grp
           in des\<lparr>Bounds := Bounds des @ [(axis, iv)],
                  Authors := Authors des @ (if author \<noteq> '''' then [(axis, author)] else []),
                  Conflicts := Conflicts des @ conflicts\<rparr>)"

definition resolve_device :: "Demand list \<Rightarrow> string \<Rightarrow> Desired" where
  "resolve_device demands dev =
     fold (resolve_axis dev demands) axisOrder
       \<lparr>des_Device = dev, Bounds = [], Authors = [], des_Connect = None, Conflicts = []\<rparr>"

definition deviceOrder :: "Demand list \<Rightarrow> string list" where
  "deviceOrder demands = sort (remdups (map dem_Device demands))"

definition Resolve :: "Demand list \<Rightarrow> (string \<times> Desired) list" where
  "Resolve demands = map (\<lambda>dev. (dev, resolve_device demands dev)) (deviceOrder demands)"

section \<open>Intersection within a tier\<close>

definition good :: "tier_acc \<Rightarrow> bool" where
  "good a \<longleftrightarrow> fle (acc_lo a) (acc_hi a)"

lemma good_not_nan: "good a \<Longrightarrow> \<not> is_nan (acc_lo a) \<and> \<not> is_nan (acc_hi a)"
  unfolding good_def by (rule fle_not_nan)

lemma bounds_not_nan [simp]: "\<not> is_nan (lower d)" "\<not> is_nan (upper d)"
  by (simp_all add: lower_def upper_def)

definition empty_acc :: tier_acc where
  "empty_acc = \<lparr>acc_lo = NInf, acc_hi = PInf, acc_author = '''', acc_conflicts = []\<rparr>"

lemma good_empty [simp]: "good empty_acc"
  by (simp add: good_def empty_acc_def)

lemma intersect_step_good: "good a \<Longrightarrow> good (intersect_step dev ax d a)"
  using good_not_nan [of a] fmin_le [of "acc_lo a" "fmin (acc_hi a) (upper d)"]
  by (auto simp: intersect_step_def good_def Let_def)

lemma intersect_step_hi [simp]: "acc_hi (intersect_step dev ax d a) = fmin (acc_hi a) (upper d)"
  by (simp add: intersect_step_def Let_def)

lemma intersect_good: "good (intersectSameTier dev ax ds)"
  unfolding intersectSameTier_def empty_acc_def [symmetric]
  by (rule fold_invariant_set [where P = good]) (simp_all add: intersect_step_good)

lemma intersect_fold_hi:
  "acc_hi (fold (intersect_step dev ax) ds a) = fold (\<lambda>d h. fmin h (upper d)) ds (acc_hi a)"
  by (induction ds arbitrary: a) simp_all

lemma fold_fmin_le:
  "\<not> is_nan h \<Longrightarrow> fle (fold (\<lambda>d h. fmin h (upper d)) ds h) h \<and>
     (\<forall>d \<in> set ds. fle (fold (\<lambda>d h. fmin h (upper d)) ds h) (upper d))"
proof (induction ds arbitrary: h)
  case Nil
  then show ?case by (simp add: fle_refl)
next
  case (Cons d ds)
  have m: "fle (fmin h (upper d)) h" "fle (fmin h (upper d)) (upper d)" "\<not> is_nan (fmin h (upper d))"
    using fmin_le [of h "upper d"] Cons.prems by simp_all
  then have "fle (fold (\<lambda>d h. fmin h (upper d)) ds (fmin h (upper d))) (fmin h (upper d))"
    using Cons.IH by blast
  then show ?case using Cons.IH [OF m(3)] m(1,2) fle_trans by auto
qed

text \<open>The ceiling of a tier is the least of its demands' ceilings, conflict or not.\<close>

lemma intersect_hi_le: "d \<in> set ds \<Longrightarrow> fle (acc_hi (intersectSameTier dev ax ds)) (upper d)"
  unfolding intersectSameTier_def intersect_fold_hi using fold_fmin_le [of PInf ds] by simp

lemma fold_fmin_mem:
  "fold (\<lambda>d h. fmin h (upper d)) ds h = h \<or> (\<exists>d \<in> set ds. fold (\<lambda>d h. fmin h (upper d)) ds h = upper d)"
  if "\<not> is_nan h"
  using that
proof (induction ds arbitrary: h)
  case (Cons d ds)
  then have "fmin h (upper d) = h \<or> fmin h (upper d) = upper d" using fmin_cases by simp
  moreover have "\<not> is_nan (fmin h (upper d))" using Cons.prems by simp
  ultimately show ?case using Cons.IH [of "fmin h (upper d)"] by auto
qed simp

lemma intersect_hi_mem:
  "acc_hi (intersectSameTier dev ax ds) = PInf \<or> (\<exists>d \<in> set ds. acc_hi (intersectSameTier dev ax ds) = upper d)"
  unfolding intersectSameTier_def intersect_fold_hi using fold_fmin_mem [of PInf ds] by simp

section \<open>The fold across tiers\<close>

lemma groups_tiers: "(t, g) \<in> set (groupByTier ds) \<Longrightarrow> g \<noteq> [] \<and> (\<forall>d \<in> set g. dem_Tier d = t \<and> d \<in> set ds)"
proof (induction ds arbitrary: t g)
  case (Cons x ds)
  then show ?case by (auto split: list.splits prod.splits if_splits) blast+
qed simp

lemma groups_cover: "d \<in> set ds \<Longrightarrow> \<exists>g. (dem_Tier d, g) \<in> set (groupByTier ds) \<and> d \<in> set g"
proof (induction ds)
  case (Cons x ds)
  show ?case
  proof (cases "groupByTier ds")
    case Nil
    then have "ds = []" by (cases ds) (auto split: list.splits prod.splits if_splits)
    then show ?thesis using Cons.prems by simp
  next
    case (Cons tg rest)
    obtain t g where tg: "tg = (t, g)" by force
    show ?thesis
    proof (cases "d \<in> set ds")
      case True
      then obtain h where "(dem_Tier d, h) \<in> set (groupByTier ds)" "d \<in> set h" using Cons.IH by blast
      then show ?thesis using Cons tg by auto
    next
      case False
      then show ?thesis using Cons.prems Cons tg by auto
    qed
  qed
qed simp

lemma groupByTier_append:
  "\<forall>x \<in> set xs. \<forall>y \<in> set ys. dem_Tier x \<noteq> dem_Tier y \<Longrightarrow>
     groupByTier (xs @ ys) = groupByTier xs @ groupByTier ys"
proof (induction xs)
  case (Cons x xs)
  then have IH: "groupByTier (xs @ ys) = groupByTier xs @ groupByTier ys" by simp
  show ?case
  proof (cases "groupByTier xs")
    case (Cons tg rest)
    then show ?thesis using IH by (cases tg) simp
  next
    case Nil
    show ?thesis
    proof (cases "groupByTier ys")
      case (Cons tg rest)
      obtain t g where tg: "tg = (t, g)" by force
      then have "g \<noteq> []" "\<forall>d \<in> set g. dem_Tier d = t \<and> d \<in> set ys" using groups_tiers [of t g ys] Cons by auto
      then have "t \<noteq> dem_Tier x" using Cons.prems by (metis list.set_intros(1) list.set_sel(1))
      then show ?thesis using IH Nil Cons tg by simp
    qed (use IH Nil in simp)
  qed
qed simp

lemma tier_step_Some: "\<exists>b. tier_step dev ax tg acc = Some b"
  by (simp add: tier_step_def Let_def split: option.split)

lemma tier_step_narrows:
  assumes "good a" and "tier_step dev ax tg (Some a) = Some b"
  shows "good b \<and> fle (acc_lo a) (acc_lo b) \<and> fle (acc_hi b) (acc_hi a)"
proof -
  let ?t = "intersectSameTier dev ax (snd tg)"
  have n: "\<not> is_nan (acc_lo a)" "\<not> is_nan (acc_hi a)" "\<not> is_nan (acc_lo ?t)" "\<not> is_nan (acc_hi ?t)"
    using good_not_nan [OF assms(1)] good_not_nan [OF intersect_good] by auto
  then show ?thesis using assms fmax_ge [OF n(1,3)] fmin_le [OF n(2,4)]
    by (auto simp: tier_step_def Let_def good_def fle_refl split: if_splits)
qed

lemma tier_fold_narrows:
  "good a \<Longrightarrow> \<exists>b. fold (tier_step dev ax) tgs (Some a) = Some b \<and> good b \<and>
     fle (acc_lo a) (acc_lo b) \<and> fle (acc_hi b) (acc_hi a)"
proof (induction tgs arbitrary: a)
  case Nil
  then show ?case using good_not_nan [of a] by (simp add: fle_refl)
next
  case (Cons tg tgs)
  obtain c where c: "tier_step dev ax tg (Some a) = Some c" using tier_step_Some by blast
  note n = tier_step_narrows [OF Cons.prems c]
  then obtain b where "fold (tier_step dev ax) tgs (Some c) = Some b" "good b"
    "fle (acc_lo c) (acc_lo b)" "fle (acc_hi b) (acc_hi c)" using Cons.IH by blast
  then show ?case using c n fle_trans by auto
qed

lemma tier_fold_good:
  "tgs \<noteq> [] \<Longrightarrow> \<exists>b. fold (tier_step dev ax) tgs None = Some b \<and> good b"
proof (cases tgs)
  case (Cons tg rest)
  have "tier_step dev ax tg None = Some (intersectSameTier dev ax (snd tg))" by (simp add: tier_step_def Let_def)
  moreover obtain b where "fold (tier_step dev ax) rest (Some (intersectSameTier dev ax (snd tg))) = Some b" "good b"
    using tier_fold_narrows [OF intersect_good] by blast
  ultimately show ?thesis using Cons by simp
qed simp

lemma resolve_tiers_good: "good (resolve_tiers dev ax ds)"
proof (cases "groupByTier (sortDemands ds) = []")
  case True
  then show ?thesis using good_empty by (simp add: resolve_tiers_def empty_acc_def)
next
  case False
  then show ?thesis using tier_fold_good [of "groupByTier (sortDemands ds)" dev ax] by (auto simp: resolve_tiers_def)
qed

text \<open>The sorted demands of the tiers up to a given one are a prefix of the sorted demands.\<close>

lemma sort_prefix:
  "sortDemands ds = sortDemands (filter (\<lambda>d. dem_Tier d \<le> T) ds) @ sortDemands (filter (\<lambda>d. \<not> dem_Tier d \<le> T) ds)"
proof -
  have split: "xs = filter (\<lambda>d. dem_Tier d \<le> T) xs @ filter (\<lambda>d. \<not> dem_Tier d \<le> T) xs"
    if "sorted (map (\<lambda>d. (dem_Tier d, dem_Source d)) xs)" for xs :: "Demand list"
    using that
  proof (induction xs)
    case (Cons x xs)
    show ?case
    proof (cases "dem_Tier x \<le> T")
      case True
      then show ?thesis using Cons by simp
    next
      case False
      then have "\<forall>y \<in> set xs. \<not> dem_Tier y \<le> T" using Cons.prems by (auto simp: less_eq_prod_def)
      then have "filter (\<lambda>d. dem_Tier d \<le> T) xs = []" by (simp add: filter_empty_conv)
      then show ?thesis using Cons False by auto
    qed
  qed simp
  have "sorted (map (\<lambda>d. (dem_Tier d, dem_Source d)) (sortDemands ds))" by (simp add: sortDemands_def)
  then have "sortDemands ds = filter (\<lambda>d. dem_Tier d \<le> T) (sortDemands ds) @ filter (\<lambda>d. \<not> dem_Tier d \<le> T) (sortDemands ds)"
    by (rule split)
  also have "filter (\<lambda>d. dem_Tier d \<le> T) (sortDemands ds) = sortDemands (filter (\<lambda>d. dem_Tier d \<le> T) ds)"
    by (simp add: sortDemands_def filter_sort)
  also have "filter (\<lambda>d. \<not> dem_Tier d \<le> T) (sortDemands ds) = sortDemands (filter (\<lambda>d. \<not> dem_Tier d \<le> T) ds)"
    unfolding sortDemands_def by (rule filter_sort)
  finally show ?thesis .
qed

lemma sortDemands_set [simp]: "set (sortDemands ds) = set ds"
  by (simp add: sortDemands_def)

lemma resolve_tiers_narrows:
  fixes T :: Tier
  defines "hi \<equiv> \<lambda>ds. filter (\<lambda>d. dem_Tier d \<le> T) ds"
  shows "fle (acc_lo (resolve_tiers dev ax (hi ds))) (acc_lo (resolve_tiers dev ax ds))"
    and "fle (acc_hi (resolve_tiers dev ax ds)) (acc_hi (resolve_tiers dev ax (hi ds)))"
proof -
  let ?lo = "filter (\<lambda>d. \<not> dem_Tier d \<le> T) ds"
  let ?g = "groupByTier (sortDemands (hi ds))"
  have g: "groupByTier (sortDemands ds) = ?g @ groupByTier (sortDemands ?lo)"
    unfolding hi_def by (subst sort_prefix [of ds T]) (rule groupByTier_append, auto)
  have nn: "\<not> is_nan (acc_lo (resolve_tiers dev ax ds))" "\<not> is_nan (acc_hi (resolve_tiers dev ax ds))"
    using good_not_nan [OF resolve_tiers_good] by auto
  have "fle (acc_lo (resolve_tiers dev ax (hi ds))) (acc_lo (resolve_tiers dev ax ds)) \<and>
    fle (acc_hi (resolve_tiers dev ax ds)) (acc_hi (resolve_tiers dev ax (hi ds)))"
  proof (cases "?g = []")
    case True
    then show ?thesis using nn by (simp add: resolve_tiers_def [of dev ax "hi ds"])
  next
    case False
    then obtain b where b: "fold (tier_step dev ax) ?g None = Some b" "good b" using tier_fold_good by blast
    then obtain c where "fold (tier_step dev ax) (groupByTier (sortDemands ?lo)) (Some b) = Some c"
      "fle (acc_lo b) (acc_lo c)" "fle (acc_hi c) (acc_hi b)" using tier_fold_narrows by blast
    then show ?thesis using b by (simp add: resolve_tiers_def g)
  qed
  then show "fle (acc_lo (resolve_tiers dev ax (hi ds))) (acc_lo (resolve_tiers dev ax ds))"
    and "fle (acc_hi (resolve_tiers dev ax ds)) (acc_hi (resolve_tiers dev ax (hi ds)))" by auto
qed

section \<open>No demand is overridden in silence\<close>

definition honours :: "tier_acc \<Rightarrow> Demand \<Rightarrow> bool" where
  "honours a d \<longleftrightarrow> fle (lower d) (acc_lo a) \<and> fle (acc_hi a) (upper d)"

definition reported :: "tier_acc \<Rightarrow> Tier \<Rightarrow> bool" where
  "reported a t \<longleftrightarrow> (\<exists>c \<in> set (acc_conflicts a). cf_Tier c = t)"

lemma honours_mono:
  "honours a d \<Longrightarrow> fle (acc_lo a) (acc_lo b) \<Longrightarrow> fle (acc_hi b) (acc_hi a) \<Longrightarrow> honours b d"
  using fle_trans by (auto simp: honours_def)

lemma intersect_step_honours_own:
  assumes "good a"
  shows "honours (intersect_step dev ax d a) d \<or> reported (intersect_step dev ax d a) (dem_Tier d)"
proof -
  have n: "\<not> is_nan (acc_lo a)" "\<not> is_nan (acc_hi a)" using good_not_nan [OF assms(1)] by auto
  note ge = fmax_ge [OF n(1) bounds_not_nan(1) [of d]] and le = fmin_le [OF n(2) bounds_not_nan(2) [of d]]
  show ?thesis
    using ge le by (auto simp: intersect_step_def Let_def honours_def reported_def)
qed

lemma intersect_step_honours_kept:
  assumes "good a" and "honours a e \<or> reported a (dem_Tier d)"
  shows "honours (intersect_step dev ax d a) e \<or> reported (intersect_step dev ax d a) (dem_Tier d)"
proof -
  have n: "\<not> is_nan (acc_lo a)" "\<not> is_nan (acc_hi a)" using good_not_nan [OF assms(1)] by auto
  note ge = fmax_ge [OF n(1) bounds_not_nan(1) [of d]] and le = fmin_le [OF n(2) bounds_not_nan(2) [of d]]
  show ?thesis
    using assms(2) ge le
    by (auto simp: intersect_step_def Let_def honours_def reported_def intro: fle_trans)
qed

lemma intersect_honours:
  assumes "\<forall>d \<in> set ds. dem_Tier d = t" and "d \<in> set ds"
  shows "honours (intersectSameTier dev ax ds) d \<or> reported (intersectSameTier dev ax ds) t"
proof -
  have "good (fold (intersect_step dev ax) xs a) \<and>
      (\<forall>e. e \<in> E \<union> set xs \<longrightarrow> honours (fold (intersect_step dev ax) xs a) e \<or> reported (fold (intersect_step dev ax) xs a) t)"
    if "good a" "\<forall>d \<in> set xs. dem_Tier d = t" "\<forall>e \<in> E. honours a e \<or> reported a t" for xs a E
    using that
  proof (induction xs arbitrary: a E)
    case (Cons x xs)
    let ?b = "intersect_step dev ax x a"
    have x: "dem_Tier x = t" using Cons.prems(2) by simp
    have b: "\<forall>e \<in> insert x E. honours ?b e \<or> reported ?b t"
      using intersect_step_honours_own [OF Cons.prems(1), of dev ax x]
        intersect_step_honours_kept [OF Cons.prems(1), of _ x dev ax] Cons.prems(3)
      unfolding x by blast
    show ?case using Cons.IH [OF intersect_step_good [OF Cons.prems(1)] _ b] Cons.prems(2) by auto
  next
    case Nil
    then show ?case by force
  qed
  from this [OF good_empty assms(1), of "{}"] assms(2) show ?thesis
    by (simp add: intersectSameTier_def empty_acc_def)
qed

lemma tier_step_honours:
  assumes "good a" and "tier_step dev ax (t, g) (Some a) = Some b"
  shows "\<forall>e u. honours a e \<or> reported a u \<longrightarrow> honours b e \<or> reported b u"
    and "honours (intersectSameTier dev ax g) d \<or> reported (intersectSameTier dev ax g) t \<Longrightarrow>
           honours b d \<or> reported b t"
proof -
  let ?t = "intersectSameTier dev ax g"
  note n = tier_step_narrows [OF assms]
  have rep: "reported a u \<Longrightarrow> reported b u" "reported ?t u \<Longrightarrow> reported b u" for u
    using assms(2) by (auto simp: tier_step_def Let_def reported_def split: if_splits)
  show "\<forall>e u. honours a e \<or> reported a u \<longrightarrow> honours b e \<or> reported b u"
    using rep(1) n honours_mono by blast
  have nn: "\<not> is_nan (acc_lo a)" "\<not> is_nan (acc_hi a)" "\<not> is_nan (acc_lo ?t)" "\<not> is_nan (acc_hi ?t)"
    using good_not_nan [OF assms(1)] good_not_nan [OF intersect_good] by auto
  have "honours b d \<or> reported b t" if "honours ?t d"
    using assms(2) that fmax_ge [OF nn(1,3)] fmin_le [OF nn(2,4)] honours_mono [OF that, of b]
    by (auto simp: tier_step_def Let_def reported_def split: if_splits)
  with rep(2) show "honours ?t d \<or> reported ?t t \<Longrightarrow> honours b d \<or> reported b t" by blast
qed

lemma tier_fold_honours:
  assumes "good a" and "\<forall>(t, g) \<in> set tgs. \<forall>d \<in> set g. dem_Tier d = t"
    and "fold (tier_step dev ax) tgs (Some a) = Some b"
  shows "(honours a e \<or> reported a u \<longrightarrow> honours b e \<or> reported b u) \<and>
    (\<forall>(t, g) \<in> set tgs. \<forall>d \<in> set g. honours b d \<or> reported b t)"
  using assms
proof (induction tgs arbitrary: a e u)
  case (Cons tg tgs)
  obtain t g where tg: "tg = (t, g)" by force
  obtain c where c: "tier_step dev ax (t, g) (Some a) = Some c" using tier_step_Some by blast
  note good_c = tier_step_narrows [OF Cons.prems(1) c]
  note H = tier_step_honours [OF Cons.prems(1) c]
  have f: "fold (tier_step dev ax) tgs (Some c) = Some b" using Cons.prems(3) tg c by simp
  have IH: "(honours c e \<or> reported c u \<longrightarrow> honours b e \<or> reported b u) \<and>
      (\<forall>(t, g) \<in> set tgs. \<forall>d \<in> set g. honours b d \<or> reported b t)" for e u
    using Cons.IH [of c e u] good_c Cons.prems(2) f by simp
  have "honours b d \<or> reported b t" if "d \<in> set g" for d
    using IH [of d t] H(2) [of d] intersect_honours [of g t d dev ax] that Cons.prems(2) tg by auto
  then have "\<forall>d \<in> set g. honours b d \<or> reported b t" by blast
  moreover have "\<forall>(t, g) \<in> set tgs. \<forall>d \<in> set g. honours b d \<or> reported b t" using IH by blast
  ultimately have "\<forall>(t, g) \<in> set (tg # tgs). \<forall>d \<in> set g. honours b d \<or> reported b t"
    unfolding tg by (simp only: list.set ball_simps prod.case)
  moreover have "honours a e \<or> reported a u \<longrightarrow> honours b e \<or> reported b u"
    using IH [of e u] H(1) by blast
  ultimately show ?case by blast
qed simp

lemma resolve_honours:
  assumes "d \<in> set ds"
  shows "honours (resolve_tiers dev ax ds) d \<or> reported (resolve_tiers dev ax ds) (dem_Tier d)"
proof -
  let ?gs = "groupByTier (sortDemands ds)"
  obtain g where g: "(dem_Tier d, g) \<in> set ?gs" "d \<in> set g" using groups_cover [of d "sortDemands ds"] assms by auto
  obtain t0 g0 rest where gs: "?gs = (t0, g0) # rest" using g by (cases ?gs) auto
  have tiers: "\<forall>(t, g) \<in> set ?gs. \<forall>d \<in> set g. dem_Tier d = t" using groups_tiers by fast
  let ?a = "intersectSameTier dev ax g0"
  have first: "tier_step dev ax (t0, g0) None = Some ?a" by (simp add: tier_step_def)
  obtain b where b: "fold (tier_step dev ax) rest (Some ?a) = Some b" using tier_fold_narrows [OF intersect_good] by blast
  have r: "resolve_tiers dev ax ds = b" by (simp add: resolve_tiers_def gs first b)
  have H: "(honours ?a d \<or> reported ?a t0 \<longrightarrow> honours b d \<or> reported b t0) \<and>
      (\<forall>(t, g) \<in> set rest. \<forall>d \<in> set g. honours b d \<or> reported b t)"
    by (rule tier_fold_honours [OF intersect_good _ b]) (use tiers gs in auto)
  show ?thesis
  proof (cases "d \<in> set g0")
    case True
    then show ?thesis using H intersect_honours [of g0 t0 d dev ax] tiers gs r by auto
  next
    case False
    then show ?thesis using H g gs r by auto
  qed
qed

section \<open>Order independence\<close>

lemma filter_key_single:
  "distinct (map f xs) \<Longrightarrow> k \<in> set xs \<Longrightarrow> filter (\<lambda>x. f k = f x) xs = [k]"
proof (induction xs)
  case (Cons x xs)
  show ?case
  proof (cases "x = k")
    case True
    then have "filter (\<lambda>y. f k = f y) xs = []" using Cons.prems by (auto simp: filter_empty_conv)
    with True show ?thesis by simp
  next
    case False
    then have "f k \<noteq> f x" using Cons.prems by (auto simp: image_iff)
    then show ?thesis using Cons False by auto
  qed
qed simp

lemma sort_key_unique:
  assumes "mset xs = mset ys" and "distinct (map f xs)"
  shows "sort_key f xs = sort_key f ys"
proof (rule properties_for_sort_key)
  show "mset (sort_key f ys) = mset xs" using assms(1) by simp
  show "sorted (map f (sort_key f ys))" by simp
  fix k
  assume k: "k \<in> set (sort_key f ys)"
  have s: "set ys = set xs" using assms(1) by (metis set_mset_mset)
  have "mset (map f (sort_key f ys)) = mset (map f xs)" using assms(1) by simp
  then have d: "distinct (map f (sort_key f ys))" using assms(2) mset_eq_imp_distinct_iff by metis
  show "filter (\<lambda>x. f k = f x) (sort_key f ys) = filter (\<lambda>x. f k = f x) xs"
    using filter_key_single [OF d k] filter_key_single [OF assms(2), of k] k s by simp
qed

definition demand_key :: "Demand \<Rightarrow> string \<times> Axis \<times> Tier \<times> string" where
  "demand_key d = (dem_Device d, dem_Axis d, dem_Tier d, dem_Source d)"

lemma sorted_group_unique:
  assumes "mset ds = mset es" and "distinct (map demand_key ds)"
  shows "sortDemands (filter (\<lambda>d. dem_Device d = dev \<and> dem_Axis d = ax) ds) =
    sortDemands (filter (\<lambda>d. dem_Device d = dev \<and> dem_Axis d = ax) es)"
  unfolding sortDemands_def
proof (rule sort_key_unique)
  let ?P = "\<lambda>d. dem_Device d = dev \<and> dem_Axis d = ax"
  show "mset (filter ?P ds) = mset (filter ?P es)" using assms(1) by simp
  have "inj_on demand_key (set ds)" "distinct ds" using assms(2) by (simp_all add: distinct_map)
  then have "inj_on (\<lambda>d. (dem_Tier d, dem_Source d)) (set (filter ?P ds))"
    by (auto simp: inj_on_def demand_key_def)
  then show "distinct (map (\<lambda>d. (dem_Tier d, dem_Source d)) (filter ?P ds))"
    using \<open>distinct ds\<close> by (simp add: distinct_map)
qed

lemma resolve_tiers_cong: "sortDemands g = sortDemands h \<Longrightarrow> resolve_tiers dev ax g = resolve_tiers dev ax h"
  by (simp add: resolve_tiers_def)

lemma Resolve_order:
  assumes "mset ds = mset es" and "distinct (map demand_key ds)"
  shows "Resolve ds = Resolve es"
proof -
  have s: "set ds = set es" using assms(1) by (metis set_mset_mset)
  then have o: "deviceOrder ds = deviceOrder es"
    unfolding deviceOrder_def by (intro sorted_distinct_set_unique) auto
  have "resolve_axis dev ds ax des = resolve_axis dev es ax des" for dev ax des
  proof -
    let ?g = "filter (\<lambda>d. dem_Device d = dev \<and> dem_Axis d = ax)"
    have q: "sortDemands (?g ds) = sortDemands (?g es)" by (rule sorted_group_unique [OF assms])
    have e: "(?g ds = []) = (?g es = [])" using s by (simp add: filter_empty_conv)
    have c: "resolveConnect dev (?g ds) = resolveConnect dev (?g es)" by (simp only: resolveConnect_def q)
    have i: "resolveInterval dev ax (?g ds) = resolveInterval dev ax (?g es)"
      by (simp only: resolveInterval_def resolve_tiers_cong [OF q])
    show ?thesis unfolding resolve_axis_def Let_def e c i ..
  qed
  then have "resolve_device ds dev = resolve_device es dev" for dev
    by (simp add: resolve_device_def axisOrder_def)
  then show ?thesis using o by (simp add: Resolve_def)
qed

section \<open>The bounds of a device\<close>

definition axis_demands :: "Demand list \<Rightarrow> string \<Rightarrow> Axis \<Rightarrow> Demand list" where
  "axis_demands demands dev axis = filter (\<lambda>d. dem_Device d = dev \<and> dem_Axis d = axis) demands"

definition axis_conflicts :: "Demand list \<Rightarrow> string \<Rightarrow> Axis \<Rightarrow> Conflict list" where
  "axis_conflicts demands dev axis =
     (if axis_demands demands dev axis = [] then []
      else if axis = AxisConnect then snd (snd (resolveConnect dev (axis_demands demands dev axis)))
      else acc_conflicts (resolve_tiers dev axis (axis_demands demands dev axis)))"

lemma resolve_axis_fields:
  "Bounds (resolve_axis dev ds ax des) = Bounds des @
     (if axis_demands ds dev ax = [] \<or> ax = AxisConnect then []
      else [(ax, fst (resolveInterval dev ax (axis_demands ds dev ax)))])"
  "des_Connect (resolve_axis dev ds ax des) =
     (if axis_demands ds dev ax = [] \<or> ax \<noteq> AxisConnect then des_Connect des
      else fst (resolveConnect dev (axis_demands ds dev ax)))"
  "Conflicts (resolve_axis dev ds ax des) = Conflicts des @ axis_conflicts ds dev ax"
  "des_Device (resolve_axis dev ds ax des) = des_Device des"
  by (cases "ax = AxisConnect"; simp add: resolve_axis_def Let_def axis_demands_def axis_conflicts_def
      resolveInterval_def split: prod.split)+

lemma resolveConnect_empty [simp]: "fst (resolveConnect dev []) = None"
  by (simp add: resolveConnect_def sortDemands_def)

lemma resolve_device_fields:
  "ax \<noteq> AxisConnect \<Longrightarrow> Bound (resolve_device ds dev) ax =
     (if axis_demands ds dev ax = [] then None
      else Some (fst (resolveInterval dev ax (axis_demands ds dev ax))))"
  "des_Connect (resolve_device ds dev) = fst (resolveConnect dev (axis_demands ds dev AxisConnect))"
  "Conflicts (resolve_device ds dev) = concat (map (axis_conflicts ds dev) axisOrder)"
  "des_Device (resolve_device ds dev) = dev"
  by (cases ax; simp add: resolve_device_def axisOrder_def Bound_def resolve_axis_fields)
    (simp_all add: resolve_device_def axisOrder_def resolve_axis_fields)

text \<open>What a resolved interval, and a demand, let a working point be.\<close>

definition admits :: "Interval \<Rightarrow> f64 \<Rightarrow> bool" where
  "admits iv v \<longleftrightarrow> (is_nan (iv_Min iv) \<or> fle (iv_Min iv) v) \<and> (is_nan (iv_Max iv) \<or> fle v (iv_Max iv))"

definition accepts :: "Demand \<Rightarrow> f64 \<Rightarrow> bool" where
  "accepts d v \<longleftrightarrow> fle (lower d) v \<and> fle v (upper d)"

definition bounded_demand :: "Demand \<Rightarrow> bool" where
  "bounded_demand d \<longleftrightarrow> dem_Min d \<noteq> PInf \<and> dem_Max d \<noteq> NInf"

definition proper :: "tier_acc \<Rightarrow> bool" where
  "proper a \<longleftrightarrow> good a \<and> acc_lo a \<noteq> PInf \<and> acc_hi a \<noteq> NInf"

lemma fmax_not_PInf: "x \<noteq> PInf \<Longrightarrow> y \<noteq> PInf \<Longrightarrow> fmax x y \<noteq> PInf"
  by (auto simp: fmax_def)

lemma fmin_not_NInf: "x \<noteq> NInf \<Longrightarrow> y \<noteq> NInf \<Longrightarrow> fmin x y \<noteq> NInf"
  by (auto simp: fmin_def)

lemma fmin_not_PInf: "\<not> is_nan y \<Longrightarrow> x \<noteq> PInf \<Longrightarrow> fmin x y \<noteq> PInf"
  by (cases x; cases y) (auto simp: fmin_def flt_def feq_def)

lemma bounded_lower: "bounded_demand d \<Longrightarrow> lower d \<noteq> PInf" "bounded_demand d \<Longrightarrow> upper d \<noteq> NInf"
  by (simp_all add: bounded_demand_def lower_def upper_def)

lemma intersect_step_proper: "proper a \<Longrightarrow> bounded_demand d \<Longrightarrow> proper (intersect_step dev ax d a)"
proof -
  assume p: "proper a" and d: "bounded_demand d"
  have g: "good (intersect_step dev ax d a)" using p intersect_step_good by (simp add: proper_def)
  have n: "\<not> is_nan (fmin (acc_hi a) (upper d))" using p good_not_nan [of a] by (simp add: proper_def)
  show "proper (intersect_step dev ax d a)"
    using g p bounded_lower [OF d] fmin_not_PInf [OF n]
    by (auto simp: proper_def intersect_step_def Let_def fmax_not_PInf fmin_not_NInf)
qed

lemma intersect_proper:
  "\<forall>d \<in> set ds. bounded_demand d \<Longrightarrow> proper (intersectSameTier dev ax ds)"
  unfolding intersectSameTier_def empty_acc_def [symmetric]
  by (rule fold_invariant_set [where P = proper])
    (simp_all add: intersect_step_proper, simp add: proper_def empty_acc_def good_def)

lemma tier_step_proper:
  assumes "\<forall>d \<in> set (snd tg). bounded_demand d" and "case acc of None \<Rightarrow> True | Some a \<Rightarrow> proper a"
  shows "\<exists>b. tier_step dev ax tg acc = Some b \<and> proper b"
proof (cases acc)
  case None
  then show ?thesis using intersect_proper [OF assms(1)] by (simp add: tier_step_def Let_def)
next
  case (Some a)
  obtain b where b: "tier_step dev ax tg (Some a) = Some b" using tier_step_Some by blast
  have a: "proper a" using assms(2) Some by simp
  then have "good b" using tier_step_narrows [OF _ b] by (simp add: proper_def)
  moreover have "acc_lo b \<noteq> PInf \<and> acc_hi b \<noteq> NInf"
    using b a intersect_proper [OF assms(1), of dev ax]
    by (auto simp: tier_step_def Let_def proper_def fmax_not_PInf fmin_not_NInf split: if_splits)
  ultimately show ?thesis using b Some by (simp add: proper_def)
qed

lemma tier_fold_proper:
  "\<forall>(t, g) \<in> set tgs. \<forall>d \<in> set g. bounded_demand d \<Longrightarrow> case acc of None \<Rightarrow> True | Some a \<Rightarrow> proper a \<Longrightarrow>
     case fold (tier_step dev ax) tgs acc of None \<Rightarrow> True | Some a \<Rightarrow> proper a"
proof (induction tgs arbitrary: acc)
  case (Cons tg tgs)
  have "\<forall>d \<in> set (snd tg). bounded_demand d" using Cons.prems(1) by (cases tg) auto
  then obtain b where b: "tier_step dev ax tg acc = Some b" "proper b"
    using tier_step_proper Cons.prems(2) by blast
  show ?case using Cons.IH [of "Some b"] Cons.prems(1) b by simp
qed simp

lemma resolve_tiers_proper:
  assumes "\<forall>d \<in> set ds. bounded_demand d"
  shows "proper (resolve_tiers dev ax ds)"
proof -
  have "\<forall>(t, g) \<in> set (groupByTier (sortDemands ds)). \<forall>d \<in> set g. bounded_demand d"
    using groups_tiers [of _ _ "sortDemands ds"] assms by fastforce
  from tier_fold_proper [OF this, of None dev ax] show ?thesis
    by (auto simp: resolve_tiers_def proper_def good_def split: option.splits)
qed

lemma admits_proper:
  assumes "proper a"
  shows "admits \<lparr>iv_Min = infToNaN (acc_lo a), iv_Max = infToNaN (acc_hi a)\<rparr> (Fin v) \<longleftrightarrow>
    fle (acc_lo a) (Fin v) \<and> fle (Fin v) (acc_hi a)"
  using assms good_not_nan [of a]
  by (cases "acc_lo a"; cases "acc_hi a") (auto simp: admits_def infToNaN_def proper_def good_def)

section \<open>The contract of a tiered arbiter\<close>

text \<open>
  What the rest of the stack relies on: an arbiter of one axis that never resolves to an empty
  interval and that never lets demands of lower tiers widen the interval of the higher ones.
\<close>

locale tiered_arbiter =
  fixes arb :: "Demand list \<Rightarrow> f64 \<times> f64"
  assumes nonempty: "fle (fst (arb ds)) (snd (arb ds))"
    and narrows: "fle (fst (arb (filter (\<lambda>d. dem_Tier d \<le> T) ds))) (fst (arb ds)) \<and>
      fle (snd (arb ds)) (snd (arb (filter (\<lambda>d. dem_Tier d \<le> T) ds)))"
begin

definition inside :: "f64 \<Rightarrow> Demand list \<Rightarrow> bool" where
  "inside v ds \<longleftrightarrow> fle (fst (arb ds)) v \<and> fle v (snd (arb ds))"

lemma inside_higher: "inside v ds \<Longrightarrow> inside v (filter (\<lambda>d. dem_Tier d \<le> T) ds)"
  using narrows [of T ds] fle_trans by (auto simp: inside_def)

lemma lower_tiers_only_narrow:
  assumes "\<forall>d \<in> set hi. dem_Tier d \<le> T" and "\<forall>d \<in> set lo. \<not> dem_Tier d \<le> T" and "inside v (hi @ lo)"
  shows "inside v hi"
proof -
  have "filter (\<lambda>d. dem_Tier d \<le> T) (hi @ lo) = hi" using assms(1,2) by (simp add: filter_empty_conv)
  then show ?thesis using inside_higher [OF assms(3), of T] by simp
qed

lemma some_point: "\<exists>v. inside v ds"
proof
  show "inside (fst (arb ds)) ds"
    using nonempty [of ds] fle_not_nan [of "fst (arb ds)" "snd (arb ds)"] by (simp add: inside_def fle_refl)
qed

end

interpretation axis_arbiter: tiered_arbiter "\<lambda>ds. (acc_lo (resolve_tiers dev ax ds), acc_hi (resolve_tiers dev ax ds))"
  for dev ax
proof
  show "fle (fst (acc_lo (resolve_tiers dev ax ds), acc_hi (resolve_tiers dev ax ds)))
    (snd (acc_lo (resolve_tiers dev ax ds), acc_hi (resolve_tiers dev ax ds)))" for ds
    using resolve_tiers_good [of dev ax ds] by (simp add: good_def)
  show "fle (fst (acc_lo (resolve_tiers dev ax (filter (\<lambda>d. dem_Tier d \<le> T) ds)),
                  acc_hi (resolve_tiers dev ax (filter (\<lambda>d. dem_Tier d \<le> T) ds))))
      (fst (acc_lo (resolve_tiers dev ax ds), acc_hi (resolve_tiers dev ax ds))) \<and>
    fle (snd (acc_lo (resolve_tiers dev ax ds), acc_hi (resolve_tiers dev ax ds)))
      (snd (acc_lo (resolve_tiers dev ax (filter (\<lambda>d. dem_Tier d \<le> T) ds)),
            acc_hi (resolve_tiers dev ax (filter (\<lambda>d. dem_Tier d \<le> T) ds))))" for T ds
    using resolve_tiers_narrows [where dev = dev and ax = ax and ds = ds and T = T] by simp
qed

lemma admits_Bound:
  assumes "\<forall>d \<in> set demands. bounded_demand d" and "axis \<noteq> AxisConnect"
    and "Bound (resolve_device demands dev) axis = Some iv"
  shows "admits iv (Fin v) \<longleftrightarrow> axis_arbiter.inside dev axis (Fin v) (axis_demands demands dev axis)"
    and "axis_demands demands dev axis \<noteq> []"
proof -
  have p: "proper (resolve_tiers dev axis (axis_demands demands dev axis))"
    by (rule resolve_tiers_proper) (use assms(1) in \<open>simp add: axis_demands_def\<close>)
  show "axis_demands demands dev axis \<noteq> []" using assms by (simp add: resolve_device_fields split: if_splits)
  show "admits iv (Fin v) \<longleftrightarrow> axis_arbiter.inside dev axis (Fin v) (axis_demands demands dev axis)"
    using assms(2,3) admits_proper [OF p]
    by (auto simp: resolve_device_fields resolveInterval_def axis_arbiter.inside_def Let_def split: if_splits)
qed

text \<open>Every conflict names the device and axis it was met on.\<close>

definition placed :: "string \<Rightarrow> Axis \<Rightarrow> tier_acc \<Rightarrow> bool" where
  "placed dev ax a \<longleftrightarrow> (\<forall>c \<in> set (acc_conflicts a). cf_Device c = dev \<and> cf_Axis c = ax)"

lemma intersect_step_place: "placed dev ax a \<Longrightarrow> placed dev ax (intersect_step dev ax d a)"
  by (cases "fle (fmax (acc_lo a) (lower d)) (fmin (acc_hi a) (upper d))")
    (simp_all add: intersect_step_def Let_def placed_def)

lemma intersect_place: "placed dev ax (intersectSameTier dev ax ds)"
proof -
  have "placed dev ax a \<Longrightarrow> placed dev ax (fold (intersect_step dev ax) ds a)" for a
  proof (induction ds arbitrary: a)
    case (Cons d ds)
    show ?case using Cons.IH [OF intersect_step_place [OF Cons.prems]] by (simp only: fold_simps comp_apply)
  qed simp
  from this [of "\<lparr>acc_lo = NInf, acc_hi = PInf, acc_author = '''', acc_conflicts = []\<rparr>"]
  show ?thesis unfolding intersectSameTier_def by (simp add: placed_def)
qed

lemma tier_step_place:
  "pred_option (placed dev ax) acc \<Longrightarrow> pred_option (placed dev ax) (tier_step dev ax tg acc)"
  using intersect_place [where dev = dev and ax = ax and ds = "snd tg"]
  by (cases acc) (simp_all add: tier_step_def Let_def placed_def ball_Un)

lemma tier_fold_place:
  "pred_option (placed dev ax) acc \<Longrightarrow> pred_option (placed dev ax) (fold (tier_step dev ax) tgs acc)"
  by (induction tgs arbitrary: acc) (simp_all add: tier_step_place)

lemma resolve_place:
  "c \<in> set (acc_conflicts (resolve_tiers dev ax ds)) \<Longrightarrow> cf_Device c = dev \<and> cf_Axis c = ax"
  using tier_fold_place [where acc = None and dev = dev and ax = ax and tgs = "groupByTier (sortDemands ds)"]
  by (auto simp: resolve_tiers_def placed_def split: option.splits)

section \<open>Properties\<close>

definition ex_cap :: Demand where
  "ex_cap = CeilingDemand ''inv'' AxisSolarCeilingW (Fin 2000) TierCompliance ''export''"

definition ex_wish :: Demand where
  "ex_wish = PointDemand ''inv'' AxisSolarCeilingW (Fin 5000) TierEconomics ''economics''"

text \<open>
  Property C29: lower tiers only narrow. On every axis but connect, a working point that the
  interval resolved from all demands admits is also admitted by the interval resolved from the
  demands of tier T and above alone: economics cannot widen what compliance set, nor compliance
  what safety set. Demands must be bounded (no minimum of plus infinity, no maximum of minus
  infinity), which is what NaN-or-number bounds are.
\<close>

theorem lower_tiers_narrow:
  assumes "\<forall>d \<in> set demands. bounded_demand d" and "axis \<noteq> AxisConnect"
    and "Bound (resolve_device demands dev) axis = Some iv"
    and "Bound (resolve_device (filter (\<lambda>d. dem_Tier d \<le> T) demands) dev) axis = Some iv'"
    and "admits iv (Fin v)"
  shows "admits iv' (Fin v)"
proof -
  have "axis_arbiter.inside dev axis (Fin v) (axis_demands demands dev axis)"
    using admits_Bound(1) [OF assms(1-3)] assms(5) by simp
  from axis_arbiter.inside_higher [OF this, of T]
  have "axis_arbiter.inside dev axis (Fin v) (axis_demands (filter (\<lambda>d. dem_Tier d \<le> T) demands) dev axis)"
    by (simp add: axis_demands_def conj_commute)
  then show ?thesis using admits_Bound(1) [OF _ assms(2,4)] assms(1) by simp
qed

theorem lower_tiers_narrow_witness:
  "\<exists>iv iv'. Bound (resolve_device [ex_wish, ex_cap] ''inv'') AxisSolarCeilingW = Some iv \<and>
     Bound (resolve_device [ex_cap] ''inv'') AxisSolarCeilingW = Some iv' \<and> admits iv (Fin 1500) \<and> admits iv' (Fin 1500)"
proof -
  let ?iv = "\<lparr>iv_Min = NaN, iv_Max = Fin 2000\<rparr>"
  have s: "sortDemands [ex_wish, ex_cap] = [ex_cap, ex_wish]" "sortDemands [ex_cap] = [ex_cap]"
    by (simp_all add: sortDemands_def ex_cap_def ex_wish_def CeilingDemand_def PointDemand_def
        insort_key_def less_eq_prod_def less_eq_Tier_def less_Tier_def)
  note e = ex_cap_def ex_wish_def CeilingDemand_def PointDemand_def
  have iv: "resolve_tiers ''inv'' AxisSolarCeilingW [ex_cap] =
      \<lparr>acc_lo = NInf, acc_hi = Fin 2000, acc_author = ''export'', acc_conflicts = []\<rparr>"
    unfolding resolve_tiers_def s
    by (simp add: e tier_step_def intersectSameTier_def intersect_step_def lower_def upper_def Let_def flt_def feq_def)
  have iw: "acc_lo (resolve_tiers ''inv'' AxisSolarCeilingW [ex_wish, ex_cap]) = NInf \<and>
      acc_hi (resolve_tiers ''inv'' AxisSolarCeilingW [ex_wish, ex_cap]) = Fin 2000"
    unfolding resolve_tiers_def s
    by (simp add: e tier_step_def intersectSameTier_def intersect_step_def lower_def upper_def Let_def flt_def feq_def)
  have a: "axis_demands [ex_wish, ex_cap] ''inv'' AxisSolarCeilingW = [ex_wish, ex_cap]"
    "axis_demands [ex_cap] ''inv'' AxisSolarCeilingW = [ex_cap]" by (simp_all add: axis_demands_def e)
  have f: "filter (\<lambda>d. dem_Tier d \<le> TierCompliance) [ex_wish, ex_cap] = [ex_cap]"
    by (simp add: e less_eq_Tier_def)
  have b1: "Bound (resolve_device [ex_wish, ex_cap] ''inv'') AxisSolarCeilingW = Some ?iv"
    using iw by (simp add: resolve_device_fields a resolveInterval_def Let_def infToNaN_def)
  have b2: "Bound (resolve_device [ex_cap] ''inv'') AxisSolarCeilingW = Some ?iv"
    by (simp add: resolve_device_fields a resolveInterval_def Let_def infToNaN_def iv)
  have v: "admits ?iv (Fin 1500)" by (simp add: admits_def)
  have "admits ?iv (Fin 1500)"
    by (rule lower_tiers_narrow [OF _ _ b1 _ v, where T = TierCompliance, unfolded f, OF _ _ b2])
      (simp_all add: bounded_demand_def e)
  then show ?thesis using b1 b2 v by blast
qed

text \<open>
  No demand is overridden in silence. On every axis but connect, either each working
  point the resolved interval admits is one the demand accepts, or a conflict on that device and
  axis is recorded for the demand's tier.
\<close>

theorem demand_honoured_or_reported:
  assumes "\<forall>d \<in> set demands. bounded_demand d" and "d \<in> set demands" and "dem_Axis d \<noteq> AxisConnect"
  shows "\<exists>iv. Bound (resolve_device demands (dem_Device d)) (dem_Axis d) = Some iv \<and>
    ((\<forall>v. admits iv (Fin v) \<longrightarrow> accepts d (Fin v)) \<or>
     (\<exists>c \<in> set (Conflicts (resolve_device demands (dem_Device d))).
        cf_Tier c = dem_Tier d \<and> cf_Device c = dem_Device d \<and> cf_Axis c = dem_Axis d))"
proof -
  let ?dev = "dem_Device d" and ?ax = "dem_Axis d"
  let ?g = "axis_demands demands ?dev ?ax"
  have d: "d \<in> set ?g" using assms(2) by (simp add: axis_demands_def)
  then have ne: "?g \<noteq> []" by force
  obtain iv where iv: "Bound (resolve_device demands ?dev) ?ax = Some iv"
    using ne assms(3) by (simp add: resolve_device_fields)
  have c: "set (acc_conflicts (resolve_tiers ?dev ?ax ?g)) \<subseteq> set (Conflicts (resolve_device demands ?dev))"
    using ne assms(3) by (cases ?ax) (auto simp: resolve_device_fields axisOrder_def axis_conflicts_def)
  have "honours (resolve_tiers ?dev ?ax ?g) d \<or> reported (resolve_tiers ?dev ?ax ?g) (dem_Tier d)"
    by (rule resolve_honours [OF d])
  moreover have "accepts d (Fin v)" if "honours (resolve_tiers ?dev ?ax ?g) d" "admits iv (Fin v)" for v
    using that admits_Bound(1) [OF assms(1,3) iv] fle_trans
    by (auto simp: honours_def accepts_def axis_arbiter.inside_def)
  moreover have "cf_Device x = ?dev \<and> cf_Axis x = ?ax" if "x \<in> set (acc_conflicts (resolve_tiers ?dev ?ax ?g))" for x
    using resolve_place [OF that] .
  ultimately show ?thesis using iv c by (fastforce simp: reported_def)
qed

theorem demand_honoured_or_reported_witness:
  "\<exists>iv. Bound (resolve_device [ex_wish, ex_cap] ''inv'') AxisSolarCeilingW = Some iv \<and>
    ((\<forall>v. admits iv (Fin v) \<longrightarrow> accepts ex_wish (Fin v)) \<or>
     (\<exists>c \<in> set (Conflicts (resolve_device [ex_wish, ex_cap] ''inv'')).
        cf_Tier c = TierEconomics \<and> cf_Device c = ''inv'' \<and> cf_Axis c = AxisSolarCeilingW))"
  using demand_honoured_or_reported [of "[ex_wish, ex_cap]" ex_wish]
  by (simp add: ex_wish_def ex_cap_def PointDemand_def CeilingDemand_def bounded_demand_def)

text \<open>
  The outcome does not depend on the order in which the constraints emit their
  demands, as long as no constraint emits two demands for one axis of one device.
\<close>

theorem resolve_order_irrelevant:
  assumes "mset ds = mset es" and "distinct (map demand_key ds)"
  shows "Resolve ds = Resolve es"
  by (rule Resolve_order [OF assms])

theorem resolve_order_irrelevant_witness:
  "Resolve [ex_wish, ex_cap] = Resolve [ex_cap, ex_wish]"
  by (rule resolve_order_irrelevant)
    (simp_all add: demand_key_def ex_wish_def ex_cap_def PointDemand_def CeilingDemand_def)

definition wants :: "bool \<Rightarrow> Demand list \<Rightarrow> string \<Rightarrow> bool" where
  "wants v demands dev =
     list_ex (\<lambda>d. dem_Device d = dev \<and> dem_Axis d = AxisConnect \<and> dem_Connect d = Some v) demands"

lemma resolved_connect:
  "des_Connect (resolve_device demands dev) =
     (if wants False demands dev then Some False else if wants True demands dev then Some True else None)"
proof -
  have "list_ex (\<lambda>d. dem_Connect d = Some v) (sortDemands (axis_demands demands dev AxisConnect)) = wants v demands dev" for v
    by (auto simp: wants_def list_ex_iff axis_demands_def)
  then show ?thesis by (simp add: resolve_device_fields resolveConnect_def Let_def)
qed

text \<open>
  Disconnect is the safe value. A device is resolved to disconnected exactly when some
  demand of any tier wants it so, to connected exactly when some demand wants that and none wants
  it disconnected, and has no resolved state otherwise. The emitted commands carry that state.
\<close>

theorem disconnect_wins:
  "map (\<lambda>x. (fst x, des_Connect (snd x))) (Resolve demands) =
     map (\<lambda>dev. (dev, if wants False demands dev then Some False
                      else if wants True demands dev then Some True else None)) (deviceOrder demands)"
  by (simp add: Resolve_def resolved_connect)

end
