(* ===== verification/SiteModel.thy ===== *)
theory SiteModel
  imports Arbiter Csip
begin

text \<open>
  internal/orchestrator: the device and site snapshots, commands and plans (model.go), the plant
  parameters with their defaults (plantmodel.go), and from internal/orchestrator/constraint the
  tick scaling of a session (session.go) and the detection windows (constraint.go). Optional
  pointers are options; counters are unbounded \<open>int\<close>. Converting a float64 to an integer out
  of its range is left open by the language, so \<open>go_int\<close> takes what it gives as an argument.
\<close>

section \<open>Device and site snapshots\<close>

record BatteryState =
  bs_Name :: string
  bs_PowerW :: f64
  bs_SOC :: f64
  bs_SOH :: f64
  bs_MaxChargeW :: f64
  bs_MaxDischargeW :: f64
  bs_CapacityWh :: f64
  bs_ChargeEfficiency :: f64
  bs_DischargeEfficiency :: f64
  bs_Connected :: bool
  bs_Energized :: bool

definition AvailableChargeW :: "BatteryState \<Rightarrow> f64" where
  "AvailableChargeW b =
     (if \<not> bs_Connected b then Fin 0 else fmax (Fin 0) (fadd (bs_MaxChargeW b) (bs_PowerW b)))"

definition AvailableDischargeW :: "BatteryState \<Rightarrow> f64" where
  "AvailableDischargeW b =
     (if \<not> bs_Connected b \<or> \<not> bs_Energized b then Fin 0
      else fmax (Fin 0) (fsub (bs_MaxDischargeW b) (bs_PowerW b)))"

record SolarState =
  ss_Name :: string
  ss_PowerW :: f64
  ss_MaxW :: f64
  ss_Connected :: bool
  ss_Energized :: bool

record EVSEState =
  es_StationID :: string
  es_ConnectorID :: int
  es_Connected :: bool
  es_SessionActive :: bool
  es_CurrentA :: f64
  es_MaxCurrentA :: f64
  es_VoltageV :: f64
  es_PowerW :: f64
  es_Status :: string
  es_SOC :: f64
  es_EnergyWh :: f64

record GridState =
  FrequencyHz :: f64
  VoltageV :: f64
  NetW :: f64
  ImportLimitW :: f64
  ExportLimitW :: f64
  MaxLimitW :: f64
  GenLimitW :: f64
  LoadLimitW :: f64

record CSIPControlState =
  cc_Source :: string
  cc_MRID :: string
  cc_Base :: DERControlBase
  cc_ValidUntil :: int64

record PlanTarget =
  pt_BattSetpointW :: f64
  pt_EVMaxCurrentA :: f64
  pt_EVSetpointW :: f64
  pt_EVModelled :: bool

record SystemState =
  st_Timestamp :: gotime
  Batteries :: "BatteryState list"
  Solar :: "SolarState list"
  EVSEs :: "EVSEState list"
  Grid :: GridState
  CSIPControl :: "CSIPControlState option"
  st_ClockOffset :: int64
  DailyPlanTarget :: "PlanTarget option"

definition TotalSolarW :: "SystemState \<Rightarrow> f64" where
  "TotalSolarW s = fold (\<lambda>x t. if ss_Connected x then fadd t (ss_PowerW x) else t) (Solar s) (Fin 0)"

definition TotalSolarNameplateW :: "SystemState \<Rightarrow> f64" where
  "TotalSolarNameplateW s =
     fold (\<lambda>x t. if ss_Connected x \<and> flt (Fin 0) (ss_MaxW x) then fadd t (ss_MaxW x) else t) (Solar s) (Fin 0)"

definition TotalBatteryW :: "SystemState \<Rightarrow> f64" where
  "TotalBatteryW s = fold (\<lambda>b t. if bs_Connected b then fadd t (bs_PowerW b) else t) (Batteries s) (Fin 0)"

definition InferredLoadW :: "SystemState \<Rightarrow> f64" where
  "InferredLoadW s =
     (if is_nan (NetW (Grid s)) then NaN else fadd (fadd (TotalSolarW s) (TotalBatteryW s)) (NetW (Grid s)))"

definition TotalEVSEW :: "SystemState \<Rightarrow> f64" where
  "TotalEVSEW s = fold (\<lambda>e t. if es_SessionActive e then fadd t (es_PowerW e) else t) (EVSEs s) (Fin 0)"

section \<open>Commands and plans\<close>

record BatteryCommand =
  bc_Name :: string
  bc_SetpointW :: f64
  bc_Connect :: "bool option"
  bc_MRID :: string

record SolarCommand =
  sc_Name :: string
  sc_CurtailToW :: f64
  sc_Connect :: "bool option"
  sc_MRID :: string

record EVSECommand =
  ec_StationID :: string
  ec_ConnectorID :: int
  ec_MaxCurrentA :: f64
  ec_SetpointW :: "f64 option"
  ec_Connect :: "bool option"
  ec_MRID :: string

record ComplianceBreach =
  br_MRID :: string
  br_LimitType :: string
  br_LimitW :: f64
  br_MeasuredW :: f64
  br_ShortfallW :: f64
  br_Reason :: string

text \<open>The decision trace of the constraint stack holds one entry per conflict; the entry's
  three texts are rendered from the conflict, which is kept.\<close>

record Plan =
  pl_Timestamp :: gotime
  BatteryCommands :: "BatteryCommand list"
  SolarCommands :: "SolarCommand list"
  EVSECommands :: "EVSECommand list"
  Decisions :: "Conflict list"
  Breach :: "ComplianceBreach option"
  Safety :: bool

definition NewBatteryState :: "string \<Rightarrow> BatteryState" where
  "NewBatteryState n =
     \<lparr>bs_Name = n, bs_PowerW = Fin 0, bs_SOC = NaN, bs_SOH = NaN, bs_MaxChargeW = Fin 0,
      bs_MaxDischargeW = Fin 0, bs_CapacityWh = NaN, bs_ChargeEfficiency = Fin 1,
      bs_DischargeEfficiency = Fin 1, bs_Connected = False, bs_Energized = False\<rparr>"

definition NewGridState :: GridState where
  "NewGridState =
     \<lparr>FrequencyHz = NaN, VoltageV = NaN, NetW = NaN, ImportLimitW = NaN, ExportLimitW = NaN,
      MaxLimitW = NaN, GenLimitW = NaN, LoadLimitW = NaN\<rparr>"

section \<open>Seconds and conversions\<close>

definition dur_seconds :: "duration \<Rightarrow> f64" where
  "dur_seconds d =
     (let sec = go_div d second; nsec = d - sec * second
      in fadd (fl (of_int sec)) (fdiv (fl (of_int nsec)) (fl 1000000000)))"

definition go_int :: "(f64 \<Rightarrow> int) \<Rightarrow> f64 \<Rightarrow> int" where
  "go_int wide x =
     (case x of
        Fin q \<Rightarrow> (let n = (if q < 0 then - \<lfloor>- q\<rfloor> else \<lfloor>q\<rfloor>) in if in_int64 n then n else wide x)
      | _ \<Rightarrow> wide x)"

definition fround :: "f64 \<Rightarrow> f64" where
  "fround x = (case x of Fin q \<Rightarrow> Fin (of_int (if q < 0 then - \<lfloor>1 / 2 - q\<rfloor> else \<lfloor>q + 1 / 2\<rfloor>)) | _ \<Rightarrow> x)"

definition fceil :: "f64 \<Rightarrow> f64" where
  "fceil x = (case x of Fin q \<Rightarrow> Fin (of_int \<lceil>q\<rceil>) | _ \<Rightarrow> x)"

definition tunedTickInterval :: duration where
  "tunedTickInterval = 3 * second"

lemma dur_seconds_tuned [simp]: "dur_seconds tunedTickInterval = Fin 3"
  by (simp add: dur_seconds_def tunedTickInterval_def second_def go_div_nonneg)

section \<open>Plant parameters\<close>

record InverterPlant =
  MaxRampDownWPerS :: f64
  MaxRampUpWPerS :: f64
  ip_ControlLatencyS :: f64

definition benchCeilingDropWPerTick :: f64 where "benchCeilingDropWPerTick = fl 1500"
definition benchCeilingRiseWPerTick :: f64 where "benchCeilingRiseWPerTick = fl 500"
definition benchBatteryCapacityKWh :: f64 where "benchBatteryCapacityKWh = fl 10"
definition benchSOCTaperStartPct :: f64 where "benchSOCTaperStartPct = fl 80"
definition benchMeterLagS :: f64 where "benchMeterLagS = fl 5"
definition benchEVSEMeterLagS :: f64 where "benchEVSEMeterLagS = fl 10"
definition benchFilterAlpha :: f64 where "benchFilterAlpha = fl (4 / 10)"
definition benchSOCStepPctPerTick :: f64 where "benchSOCStepPctPerTick = fl 1"
definition battConvergeFrac :: f64 where "battConvergeFrac = fl (1 / 2)"

definition benchControlLatencyS :: f64 where
  "benchControlLatencyS = dur_seconds tunedTickInterval"

definition zero_default :: "f64 \<Rightarrow> f64 \<Rightarrow> f64" where
  "zero_default d x = (if x = Fin 0 then d else x)"

definition inverter_WithDefaults :: "InverterPlant \<Rightarrow> InverterPlant" where
  "inverter_WithDefaults p =
     \<lparr>MaxRampDownWPerS =
        zero_default (fdiv benchCeilingDropWPerTick (dur_seconds tunedTickInterval)) (MaxRampDownWPerS p),
      MaxRampUpWPerS =
        zero_default (fdiv benchCeilingRiseWPerTick (dur_seconds tunedTickInterval)) (MaxRampUpWPerS p),
      ip_ControlLatencyS = zero_default benchControlLatencyS (ip_ControlLatencyS p)\<rparr>"

record TaperPoint =
  tp_SOCPct :: f64
  tp_Frac :: f64

record BatteryPlant =
  CapacityKWh :: f64
  SOCTaperStartPct :: f64
  TaperCurve :: "TaperPoint list"
  ConvergeFrac :: f64
  SOCStepPctPerTickOverride :: f64
  bp_ControlLatencyS :: f64

definition battery_WithDefaults :: "BatteryPlant \<Rightarrow> BatteryPlant" where
  "battery_WithDefaults p =
     p\<lparr>CapacityKWh := zero_default benchBatteryCapacityKWh (CapacityKWh p),
       SOCTaperStartPct := zero_default benchSOCTaperStartPct (SOCTaperStartPct p),
       ConvergeFrac := zero_default battConvergeFrac (ConvergeFrac p),
       SOCStepPctPerTickOverride := zero_default benchSOCStepPctPerTick (SOCStepPctPerTickOverride p),
       bp_ControlLatencyS := zero_default benchControlLatencyS (bp_ControlLatencyS p)\<rparr>"

record MeterPlant =
  mp_MeterLagS :: f64
  mp_FilterAlpha :: f64

definition meter_WithDefaults :: "MeterPlant \<Rightarrow> MeterPlant" where
  "meter_WithDefaults p =
     \<lparr>mp_MeterLagS = zero_default benchMeterLagS (mp_MeterLagS p),
      mp_FilterAlpha = zero_default benchFilterAlpha (mp_FilterAlpha p)\<rparr>"

definition FilterAlphaFor :: "f64 \<Rightarrow> f64 \<Rightarrow> f64" where
  "FilterAlphaFor meterLagS tickS =
     (if fle meterLagS (Fin 0) \<or> fle tickS (Fin 0) then Fin 1
      else let a = fdiv tickS (fadd meterLagS tickS) in if flt (Fin 1) a then Fin 1 else a)"

record EVSEPlant =
  ep_MeterLagS :: f64

definition evse_WithDefaults :: "EVSEPlant \<Rightarrow> EVSEPlant" where
  "evse_WithDefaults p = \<lparr>ep_MeterLagS = zero_default benchEVSEMeterLagS (ep_MeterLagS p)\<rparr>"

record Plant =
  Inverters :: "string \<rightharpoonup> InverterPlant"
  plant_Batteries :: "string \<rightharpoonup> BatteryPlant"
  plant_EVSEs :: "string \<rightharpoonup> EVSEPlant"
  Meter :: MeterPlant

section \<open>Tick scaling and detection windows\<close>

record Session =
  sess_name :: string
  sess_tickInterval :: duration

definition NewSession :: "string \<Rightarrow> duration \<Rightarrow> Session" where
  "NewSession n d = \<lparr>sess_name = n, sess_tickInterval = d\<rparr>"

text \<open>The quotient is finite for a positive interval (\<open>scaled_ticks_finite\<close> below), so the
  conversion never leaves the integers.\<close>

definition scaled_ticks :: "duration \<Rightarrow> int \<Rightarrow> f64" where
  "scaled_ticks interval ticks =
     fround (fdiv (dur_seconds (wrap64 (ticks * tunedTickInterval))) (dur_seconds interval))"

definition ScaleTicks :: "duration \<Rightarrow> int \<Rightarrow> int" where
  "ScaleTicks interval ticks =
     (if interval \<le> 0 \<or> interval = tunedTickInterval then ticks
      else max 2 (go_int (\<lambda>_. 0) (scaled_ticks interval ticks)))"

definition tickSeconds :: "duration \<Rightarrow> f64" where
  "tickSeconds interval = (if interval \<le> 0 then dur_seconds tunedTickInterval else dur_seconds interval)"

definition DetectionWindowTicks :: "(f64 \<Rightarrow> int) \<Rightarrow> f64 \<Rightarrow> f64 \<Rightarrow> f64 \<Rightarrow> int" where
  "DetectionWindowTicks wide controlLatencyS meterLagS tickS =
     (let tick = (if fle tickS (Fin 0) then dur_seconds tunedTickInterval else tickS);
          windowS = fadd (fmax (Fin 0) controlLatencyS) (fmax (Fin 0) meterLagS)
      in max 2 (go_int wide (fceil (fdiv windowS tick))))"

definition ExportDetectionWindowTicks :: "(f64 \<Rightarrow> int) \<Rightarrow> Plant \<Rightarrow> string \<Rightarrow> f64 \<Rightarrow> int" where
  "ExportDetectionWindowTicks wide p inverter tickS =
     DetectionWindowTicks wide
       (case Inverters p inverter of None \<Rightarrow> Fin 0 | Some ip \<Rightarrow> ip_ControlLatencyS ip)
       (mp_MeterLagS (Meter p)) tickS"

definition ImportDetectionWindowTicks :: "(f64 \<Rightarrow> int) \<Rightarrow> Plant \<Rightarrow> string \<Rightarrow> f64 \<Rightarrow> int" where
  "ImportDetectionWindowTicks wide p battery tickS =
     DetectionWindowTicks wide
       (case plant_Batteries p battery of None \<Rightarrow> Fin 0 | Some bp \<Rightarrow> bp_ControlLatencyS bp)
       (mp_MeterLagS (Meter p)) tickS"

end
