(* ===== verification/BatterySafety.thy ===== *)
theory BatterySafety
  imports SiteModel
begin

text \<open>
  internal/orchestrator/constraint: the reserve latch shared by all discharge authors
  (reservehold.go) and the battery protection (batterysafety.go, batterysafety_session.go). The
  maps are total functions here, a missing entry being \<open>False\<close> or 0 as a read of the Go map
  gives; the maps the code never iterates over lose nothing by it, and the one loop over the held
  packs deletes entries independently of one another.
\<close>

section \<open>The reserve latch\<close>

definition importSOCReserve :: f64 where "importSOCReserve = Fin 20"
definition reserveReleaseMarginPct :: f64 where "reserveReleaseMarginPct = Fin 2"
definition reserveReleaseTicks :: int where "reserveReleaseTicks = 3"

record reserveLatch =
  socReserve :: f64
  latch_tickInterval :: duration
  hold :: "string \<Rightarrow> bool"
  recoverTicks :: "string \<Rightarrow> int"

definition newReserveLatch :: "f64 \<Rightarrow> duration \<Rightarrow> reserveLatch" where
  "newReserveLatch r interval =
     \<lparr>socReserve = (if fle r (Fin 0) then importSOCReserve else r), latch_tickInterval = interval,
      hold = (\<lambda>_. False), recoverTicks = (\<lambda>_. 0)\<rparr>"

text \<open>One battery of the update loop.\<close>

definition latch_step :: "int \<Rightarrow> BatteryState \<Rightarrow> reserveLatch \<Rightarrow> reserveLatch" where
  "latch_step release b l =
     (let n = bs_Name b in
      if \<not> bs_Connected b then l\<lparr>hold := (hold l)(n := False), recoverTicks := (recoverTicks l)(n := 0)\<rparr>
      else if is_nan (bs_SOC b) then l\<lparr>recoverTicks := (recoverTicks l)(n := 0)\<rparr>
      else if fle (bs_SOC b) (socReserve l)
      then l\<lparr>hold := (hold l)(n := True), recoverTicks := (recoverTicks l)(n := 0)\<rparr>
      else if \<not> hold l n then l
      else if fle (fadd (socReserve l) reserveReleaseMarginPct) (bs_SOC b)
      then (if release \<le> recoverTicks l n + 1
            then l\<lparr>hold := (hold l)(n := False), recoverTicks := (recoverTicks l)(n := 0)\<rparr>
            else l\<lparr>recoverTicks := (recoverTicks l)(n := recoverTicks l n + 1)\<rparr>)
      else l\<lparr>recoverTicks := (recoverTicks l)(n := 0)\<rparr>)"

definition drop_unseen :: "string set \<Rightarrow> reserveLatch \<Rightarrow> reserveLatch" where
  "drop_unseen seen l =
     l\<lparr>hold := (\<lambda>n. hold l n \<and> n \<in> seen),
       recoverTicks := (\<lambda>n. if hold l n \<and> n \<notin> seen then 0 else recoverTicks l n)\<rparr>"

definition latch_update :: "BatteryState list \<Rightarrow> reserveLatch \<Rightarrow> reserveLatch" where
  "latch_update batteries l =
     (let release = ScaleTicks (latch_tickInterval l) reserveReleaseTicks
      in drop_unseen (set (map bs_Name batteries)) (fold (latch_step release) batteries l))"

definition blocked :: "reserveLatch \<Rightarrow> BatteryState \<Rightarrow> bool" where
  "blocked l b \<longleftrightarrow> hold l (bs_Name b) \<or> \<not> is_nan (bs_SOC b) \<and> fle (bs_SOC b) (socReserve l)"

section \<open>Inputs of a constraint\<close>

record Input =
  in_State :: SystemState
  in_Plant :: Plant
  in_TickSeconds :: f64
  DischargeBlocked :: "(BatteryState \<Rightarrow> bool) option"

definition reserveBlocker :: "Input \<Rightarrow> f64 \<Rightarrow> BatteryState \<Rightarrow> bool" where
  "reserveBlocker inp r =
     (case DischargeBlocked inp of Some f \<Rightarrow> f
      | None \<Rightarrow> (\<lambda>b. \<not> is_nan (bs_SOC b) \<and> fle (bs_SOC b) r))"

section \<open>Battery safety\<close>

definition exportComplianceBreachW :: f64 where "exportComplianceBreachW = Fin 100"
definition batteryReserveDrainTicks :: int where "batteryReserveDrainTicks = 3"

record BatterySafetySession =
  drainTicks :: "string \<Rightarrow> int"
  wrongDirTicks :: "string \<Rightarrow> int"
  lastCmdW :: "string \<rightharpoonup> f64"

definition newBatterySafetySession :: BatterySafetySession where
  "newBatterySafetySession = \<lparr>drainTicks = (\<lambda>_. 0), wrongDirTicks = (\<lambda>_. 0), lastCmdW = Map.empty\<rparr>"

definition prune :: "string \<Rightarrow> BatterySafetySession \<Rightarrow> BatterySafetySession" where
  "prune n s = s\<lparr>drainTicks := (drainTicks s)(n := 0), wrongDirTicks := (wrongDirTicks s)(n := 0)\<rparr>"

definition chargeCommanded :: "BatterySafetySession \<Rightarrow> string \<Rightarrow> bool" where
  "chargeCommanded s n = (case lastCmdW s n of None \<Rightarrow> False | Some sp \<Rightarrow> flt sp (Fin 0))"

record BatterySafetyConstraint =
  bsc_sess :: BatterySafetySession
  bsc_socReserve :: f64

definition NewBatterySafetyConstraint :: "f64 \<Rightarrow> BatterySafetyConstraint" where
  "NewBatterySafetyConstraint r = \<lparr>bsc_sess = newBatterySafetySession, bsc_socReserve = r\<rparr>"

definition bsc_Name :: string where "bsc_Name = ''battery-safety''"

definition criticalBatteryInversion :: "f64 \<Rightarrow> f64 \<Rightarrow> f64 \<Rightarrow> bool \<Rightarrow> bool" where
  "criticalBatteryInversion powerW soc reserve cc \<longleftrightarrow>
     cc \<and> flt exportComplianceBreachW powerW \<and> \<not> is_nan soc \<and> fle soc (fadd reserve (Fin 5))"

definition RecordCommands :: "BatteryCommand list \<Rightarrow> BatterySafetySession \<Rightarrow> BatterySafetySession" where
  "RecordCommands cmds s =
     fold (\<lambda>cmd s. if is_nan (bc_SetpointW cmd) then s
                   else s\<lparr>lastCmdW := (lastCmdW s)(bc_Name cmd \<mapsto> bc_SetpointW cmd)\<rparr>) cmds s"

text \<open>The two debounce counters of one pack, and whether it trips.\<close>

definition count_pack :: "(BatteryState \<Rightarrow> bool) \<Rightarrow> bool \<Rightarrow> BatteryState \<Rightarrow> BatterySafetySession \<Rightarrow> BatterySafetySession" where
  "count_pack blk cc b s =
     (let n = bs_Name b; over = flt exportComplianceBreachW (bs_PowerW b)
      in s\<lparr>drainTicks := (drainTicks s)(n := if over \<and> blk b then drainTicks s n + 1 else 0),
           wrongDirTicks := (wrongDirTicks s)(n := if cc \<and> over then wrongDirTicks s n + 1 else 0)\<rparr>)"

definition trips :: "f64 \<Rightarrow> int \<Rightarrow> bool \<Rightarrow> BatteryState \<Rightarrow> BatterySafetySession \<Rightarrow> bool" where
  "trips reserve threshold cc b s \<longleftrightarrow>
     criticalBatteryInversion (bs_PowerW b) (bs_SOC b) reserve cc \<or>
     threshold \<le> drainTicks s (bs_Name b) \<or> threshold \<le> wrongDirTicks s (bs_Name b)"

definition trip_step ::
  "(BatteryState \<Rightarrow> bool) \<Rightarrow> f64 \<Rightarrow> int \<Rightarrow> (string \<Rightarrow> bool) \<Rightarrow> BatteryState \<Rightarrow>
     BatterySafetySession \<times> string list \<Rightarrow> BatterySafetySession \<times> string list" where
  "trip_step blk reserve threshold cmd b acc =
     (let n = bs_Name b; s = fst acc in
      if \<not> bs_Connected b \<or> is_nan (bs_SOC b) then (prune n s, snd acc)
      else let s' = count_pack blk (cmd n) b s
           in (s', if trips reserve threshold (cmd n) b s' then snd acc @ [n] else snd acc))"

definition evaluateTrips ::
  "Input \<Rightarrow> int \<Rightarrow> (string \<Rightarrow> bool) \<Rightarrow> BatterySafetyConstraint \<Rightarrow> BatterySafetyConstraint \<times> string list" where
  "evaluateTrips inp threshold cmd c =
     (let (s, tripped) =
        fold (trip_step (reserveBlocker inp (bsc_socReserve c)) (bsc_socReserve c) threshold cmd)
          (Batteries (in_State inp)) (bsc_sess c, [])
      in (c\<lparr>bsc_sess := s\<rparr>, tripped))"

definition disconnectDemands :: "string \<Rightarrow> Demand list" where
  "disconnectDemands n =
     [PointDemand n AxisBatterySetpointW (Fin 0) TierSafety bsc_Name, ConnectDemand n False TierSafety bsc_Name]"

definition bsc_Evaluate :: "Input \<Rightarrow> Session \<Rightarrow> BatterySafetyConstraint \<Rightarrow> BatterySafetyConstraint \<times> Demand list" where
  "bsc_Evaluate inp s c =
     (let (c', tripped) = evaluateTrips inp (ScaleTicks (sess_tickInterval s) batteryReserveDrainTicks)
            (chargeCommanded (bsc_sess c)) c
      in (c', concat (map disconnectDemands tripped)))"

text \<open>\<open>batteryCommandIndex\<close> finds the first command of a pack; the two uses are written out.\<close>

definition command_of :: "BatteryCommand list \<Rightarrow> string \<Rightarrow> BatteryCommand option" where
  "command_of cmds n = find (\<lambda>c. bc_Name c = n) cmds"

fun overrideDisconnect :: "string \<Rightarrow> BatteryCommand list \<Rightarrow> BatteryCommand list" where
  "overrideDisconnect n [] =
     [\<lparr>bc_Name = n, bc_SetpointW = Fin 0, bc_Connect = Some False, bc_MRID = ''''\<rparr>]"
| "overrideDisconnect n (c # cs) =
     (if bc_Name c = n then c\<lparr>bc_SetpointW := Fin 0, bc_Connect := Some False\<rparr> # cs
      else c # overrideDisconnect n cs)"

definition post_chargeCommanded :: "BatterySafetySession \<Rightarrow> BatteryCommand list \<Rightarrow> string \<Rightarrow> bool" where
  "post_chargeCommanded s cmds n =
     (case command_of cmds n of
        Some c \<Rightarrow> \<not> is_nan (bc_SetpointW c) \<and> flt (bc_SetpointW c) (Fin 0)
      | None \<Rightarrow> chargeCommanded s n)"

definition PostArbitrate ::
  "Input \<Rightarrow> Session \<Rightarrow> BatterySafetyConstraint \<Rightarrow> BatteryCommand list \<Rightarrow>
     BatterySafetyConstraint \<times> BatteryCommand list" where
  "PostArbitrate inp s c cmds =
     (let (c', tripped) = evaluateTrips inp (ScaleTicks (sess_tickInterval s) batteryReserveDrainTicks)
            (post_chargeCommanded (bsc_sess c) cmds) c;
          cmds' = fold overrideDisconnect tripped cmds
      in (c'\<lparr>bsc_sess := RecordCommands cmds' (bsc_sess c')\<rparr>, cmds'))"

definition EvaluateFast :: "SystemState \<Rightarrow> BatterySafetyConstraint \<Rightarrow> Demand list" where
  "EvaluateFast state c =
     concat (map (\<lambda>b. if bs_Connected b \<and>
                criticalBatteryInversion (bs_PowerW b) (bs_SOC b) (bsc_socReserve c)
                  (chargeCommanded (bsc_sess c) (bs_Name b))
              then disconnectDemands (bs_Name b) else []) (Batteries state))"

section \<open>One pack of the latch\<close>

text \<open>What a tick shows of one pack, and the latch of that pack alone.\<close>

datatype sample = Gone | Unknown | Low | Between | Recovered

definition classify :: "f64 \<Rightarrow> BatteryState option \<Rightarrow> sample" where
  "classify r ob =
     (case ob of None \<Rightarrow> Gone
      | Some b \<Rightarrow>
          if \<not> bs_Connected b then Gone
          else if is_nan (bs_SOC b) then Unknown
          else if fle (bs_SOC b) r then Low
          else if fle (fadd r reserveReleaseMarginPct) (bs_SOC b) then Recovered else Between)"

fun pack_step :: "int \<Rightarrow> sample \<Rightarrow> bool \<times> int \<Rightarrow> bool \<times> int" where
  "pack_step n Gone (h, c) = (False, 0)"
| "pack_step n Unknown (h, c) = (h, 0)"
| "pack_step n Low (h, c) = (True, 0)"
| "pack_step n Between (h, c) = (h, if h then 0 else c)"
| "pack_step n Recovered (h, c) =
     (if \<not> h then (h, c) else if n \<le> c + 1 then (False, 0) else (True, c + 1))"

definition sample_of :: "f64 \<Rightarrow> string \<Rightarrow> BatteryState list \<Rightarrow> sample" where
  "sample_of r n bs = classify r (find (\<lambda>b. bs_Name b = n) bs)"

definition pack_of :: "string \<Rightarrow> reserveLatch \<Rightarrow> bool \<times> int" where
  "pack_of n l = (hold l n, recoverTicks l n)"

lemma latch_step_frame [simp]:
  "socReserve (latch_step k b l) = socReserve l" "latch_tickInterval (latch_step k b l) = latch_tickInterval l"
  by (simp_all add: latch_step_def Let_def)

lemma latch_step_other: "n \<noteq> bs_Name b \<Longrightarrow> pack_of n (latch_step k b l) = pack_of n l"
  by (simp add: latch_step_def Let_def pack_of_def)

lemma latch_step_same:
  "pack_of (bs_Name b) (latch_step k b l) = pack_step k (classify (socReserve l) (Some b)) (pack_of (bs_Name b) l)"
  by (simp add: latch_step_def Let_def pack_of_def classify_def)

lemma latch_fold_frame [simp]:
  "socReserve (fold (latch_step k) bs l) = socReserve l"
  "latch_tickInterval (fold (latch_step k) bs l) = latch_tickInterval l"
  by (induction bs arbitrary: l) simp_all

lemma latch_fold_other:
  "n \<notin> bs_Name ` set bs \<Longrightarrow> pack_of n (fold (latch_step k) bs l) = pack_of n l"
  by (induction bs arbitrary: l) (simp_all add: latch_step_other)

lemma latch_fold_pack:
  "distinct (map bs_Name bs) \<Longrightarrow> find (\<lambda>b. bs_Name b = n) bs = Some b \<Longrightarrow>
     pack_of n (fold (latch_step k) bs l) = pack_step k (classify (socReserve l) (Some b)) (pack_of n l)"
proof (induction bs arbitrary: l)
  case (Cons x bs)
  show ?case
  proof (cases "bs_Name x = n")
    case True
    then have "n \<notin> bs_Name ` set bs" and "x = b" using Cons.prems by auto
    then show ?thesis using latch_fold_other [of n bs k "latch_step k x l"] latch_step_same [of x k l] True by simp
  next
    case False
    then show ?thesis using Cons latch_step_other [of n x] by auto
  qed
qed simp

lemma drop_unseen_pack:
  "pack_of n (drop_unseen S l) = (if n \<in> S then pack_of n l else (False, if hold l n then 0 else recoverTicks l n))"
  by (simp add: pack_of_def drop_unseen_def)

text \<open>The count of a pack that is not held is never read, so it is left out of the comparison.\<close>

definition same_pack :: "bool \<times> int \<Rightarrow> bool \<times> int \<Rightarrow> bool" where
  "same_pack p q \<longleftrightarrow> fst p = fst q \<and> (fst p \<longrightarrow> snd p = snd q)"

lemma pack_step_same: "same_pack p q \<Longrightarrow> same_pack (pack_step k s p) (pack_step k s q)"
  by (cases s; cases p; cases q) (auto simp: same_pack_def)

lemma latch_update_pack:
  assumes "distinct (map bs_Name bs)"
  shows "same_pack (pack_of n (latch_update bs l))
    (pack_step (ScaleTicks (latch_tickInterval l) reserveReleaseTicks) (sample_of (socReserve l) n bs) (pack_of n l))"
proof (cases "find (\<lambda>b. bs_Name b = n) bs")
  case None
  then have "n \<notin> bs_Name ` set bs" by (auto simp: find_None_iff)
  then show ?thesis using None
    by (cases "pack_of n l") (simp add: latch_update_def Let_def drop_unseen_pack sample_of_def classify_def same_pack_def)
next
  case (Some b)
  then have "n \<in> bs_Name ` set bs" by (auto simp: find_Some_iff)
  then show ?thesis
    using latch_fold_pack [OF assms Some] Some
    by (simp add: latch_update_def Let_def drop_unseen_pack sample_of_def same_pack_def)
qed

lemma latch_update_frame [simp]:
  "socReserve (latch_update bs l) = socReserve l" "latch_tickInterval (latch_update bs l) = latch_tickInterval l"
  by (simp_all add: latch_update_def Let_def drop_unseen_def)

lemma latch_run_pack:
  assumes "\<forall>bs \<in> set bss. distinct (map bs_Name bs)"
  shows "same_pack (pack_of n (fold latch_update bss l))
    (fold (pack_step (ScaleTicks (latch_tickInterval l) reserveReleaseTicks))
       (map (sample_of (socReserve l) n) bss) (pack_of n l)) \<and>
    socReserve (fold latch_update bss l) = socReserve l \<and>
    latch_tickInterval (fold latch_update bss l) = latch_tickInterval l"
  using assms
proof (induction bss rule: rev_induct)
  case (snoc bs bss)
  let ?l = "fold latch_update bss l"
  have IH: "same_pack (pack_of n ?l) (fold (pack_step (ScaleTicks (latch_tickInterval l) reserveReleaseTicks))
       (map (sample_of (socReserve l) n) bss) (pack_of n l))" "socReserve ?l = socReserve l"
    "latch_tickInterval ?l = latch_tickInterval l" using snoc by auto
  have "distinct (map bs_Name bs)" using snoc.prems by simp
  note u = latch_update_pack [OF this, of n ?l]
  show ?case using u pack_step_same [OF IH(1)] IH(2,3) by (simp add: same_pack_def)
qed (simp add: same_pack_def)

section \<open>What the latch of a pack promises\<close>

definition trailing :: "sample list \<Rightarrow> nat" where
  "trailing xs = length (takeWhile (\<lambda>x. x = Recovered) (rev xs))"

text \<open>Ticks over which a held pack stays held: never gone, and never recovered for \<open>n\<close> in a row.\<close>

definition keeps_held :: "nat \<Rightarrow> sample list \<Rightarrow> bool" where
  "keeps_held n ws \<longleftrightarrow> Gone \<notin> set ws \<and> \<not> (\<exists>us vs. ws = us @ replicate n Recovered @ vs)"

lemma trail_simps [simp]:
  "trailing [] = 0" "trailing (xs @ [Recovered]) = Suc (trailing xs)"
  "x \<noteq> Recovered \<Longrightarrow> trailing (xs @ [x]) = 0"
  by (simp_all add: trailing_def)

lemma trailing_after: "x \<noteq> Recovered \<Longrightarrow> trailing (us @ x # ws) = trailing ws"
  by (induction ws rule: rev_induct)
    (auto simp: trailing_def takeWhile_append simp flip: append_assoc append_Cons)

lemma takeWhile_replicate: "(\<exists>zs. ys = replicate n x @ zs) \<longleftrightarrow> n \<le> length (takeWhile (\<lambda>y. y = x) ys)"
proof (induction ys arbitrary: n)
  case (Cons y ys)
  then show ?case by (cases n) auto
qed auto

lemma suffix_replicate: "(\<exists>us. ws = us @ replicate n Recovered) \<longleftrightarrow> n \<le> trailing ws"
proof -
  have "(\<exists>us. ws = us @ replicate n Recovered) \<longleftrightarrow> (\<exists>zs. rev ws = replicate n Recovered @ zs)"
    by (metis rev_append rev_replicate rev_rev_ident)
  then show ?thesis by (simp add: trailing_def takeWhile_replicate)
qed

lemma keeps_held_snoc:
  "keeps_held n (ws @ [x]) \<longleftrightarrow> keeps_held n ws \<and> x \<noteq> Gone \<and> trailing (ws @ [x]) < n"
proof -
  have "(\<exists>us vs. ws @ [x] = us @ replicate n Recovered @ vs) \<longleftrightarrow>
      (\<exists>us vs. ws = us @ replicate n Recovered @ vs) \<or> (\<exists>us. ws @ [x] = us @ replicate n Recovered)"
  proof
    assume "\<exists>us vs. ws @ [x] = us @ replicate n Recovered @ vs"
    then obtain us vs where e: "ws @ [x] = us @ replicate n Recovered @ vs" by blast
    show "(\<exists>us vs. ws = us @ replicate n Recovered @ vs) \<or> (\<exists>us. ws @ [x] = us @ replicate n Recovered)"
    proof (cases vs rule: rev_cases)
      case (snoc vs' y)
      then have "ws = us @ replicate n Recovered @ vs'" using e by (simp flip: append_assoc)
      then show ?thesis by blast
    qed (use e in auto)
  next
    assume "(\<exists>us vs. ws = us @ replicate n Recovered @ vs) \<or> (\<exists>us. ws @ [x] = us @ replicate n Recovered)"
    then show "\<exists>us vs. ws @ [x] = us @ replicate n Recovered @ vs"
      by (metis append.right_neutral append_assoc)
  qed
  then show ?thesis unfolding keeps_held_def suffix_replicate by auto
qed

lemma keeps_held_Nil: "0 < n \<Longrightarrow> keeps_held n []"
  by (auto simp: keeps_held_def)

definition held_spec :: "nat \<Rightarrow> sample list \<Rightarrow> bool" where
  "held_spec n xs \<longleftrightarrow> (\<exists>us ws. xs = us @ Low # ws \<and> keeps_held n ws)"

lemma held_spec_snoc:
  assumes "0 < n"
  shows "held_spec n (xs @ [x]) \<longleftrightarrow> x = Low \<or> held_spec n xs \<and> x \<noteq> Gone \<and> trailing (xs @ [x]) < n"
proof -
  have "held_spec n (xs @ [x]) \<longleftrightarrow>
      x = Low \<and> keeps_held n [] \<or> (\<exists>us ws. xs = us @ Low # ws \<and> keeps_held n (ws @ [x]))"
  proof
    assume "held_spec n (xs @ [x])"
    then obtain us ws where e: "xs @ [x] = us @ Low # ws" "keeps_held n ws" by (auto simp: held_spec_def)
    then show "x = Low \<and> keeps_held n [] \<or> (\<exists>us ws. xs = us @ Low # ws \<and> keeps_held n (ws @ [x]))"
      by (cases ws rule: rev_cases) auto
  next
    assume "x = Low \<and> keeps_held n [] \<or> (\<exists>us ws. xs = us @ Low # ws \<and> keeps_held n (ws @ [x]))"
    then show "held_spec n (xs @ [x])"
    proof
      assume "\<exists>us ws. xs = us @ Low # ws \<and> keeps_held n (ws @ [x])"
      then obtain us ws where "xs @ [x] = us @ Low # (ws @ [x])" "keeps_held n (ws @ [x])" by auto
      then show ?thesis unfolding held_spec_def by blast
    qed (auto simp: held_spec_def)
  qed
  moreover have "trailing (ws @ [x]) = trailing (xs @ [x])" if "xs = us @ Low # ws" for us ws
    using trailing_after [of Low us "ws @ [x]"] that by simp
  ultimately show ?thesis using keeps_held_Nil [OF assms]
    by (auto simp: held_spec_def keeps_held_snoc)
qed

lemma pack_run_spec:
  assumes "0 < n"
  shows "fst (fold (pack_step (int n)) xs (False, c)) = held_spec n xs \<and>
    (held_spec n xs \<longrightarrow> snd (fold (pack_step (int n)) xs (False, c)) = int (trailing xs) \<and> trailing xs < n)"
proof (induction xs rule: rev_induct)
  case (snoc x xs)
  obtain h k where hk: "fold (pack_step (int n)) xs (False, c) = (h, k)" by force
  then have IH: "h = held_spec n xs" "held_spec n xs \<Longrightarrow> k = int (trailing xs) \<and> trailing xs < n"
    using snoc by auto
  show ?case unfolding fold_append comp_apply hk held_spec_snoc [OF assms]
    using IH assms by (cases x) auto
qed (simp add: held_spec_def)

lemma ScaleTicks_ge: "2 \<le> t \<Longrightarrow> 2 \<le> ScaleTicks interval t"
  by (simp add: ScaleTicks_def)

definition ex_pack :: "f64 \<Rightarrow> f64 \<Rightarrow> BatteryState" where
  "ex_pack p soc = (NewBatteryState ''b1'')\<lparr>bs_PowerW := p, bs_SOC := soc, bs_Connected := True\<rparr>"

text \<open>
  The reserve hold. From a fresh latch, after any number of ticks (no tick listing a
  pack twice), a pack is held exactly when it was at some tick connected with a state of charge at
  or below the reserve and since then was never absent or disconnected and never read at least two
  points above the reserve for the scaled number of release ticks in a row. Unknown readings and
  readings inside the margin neither arm nor release, and interrupt a recovery.
\<close>

theorem reserve_hold_spec:
  assumes "\<forall>bs \<in> set bss. distinct (map bs_Name bs)"
  shows "hold (fold latch_update bss (newReserveLatch r interval)) n =
    held_spec (nat (ScaleTicks interval reserveReleaseTicks))
      (map (sample_of (socReserve (newReserveLatch r interval)) n) bss)"
proof -
  let ?l = "newReserveLatch r interval"
  have k: "2 \<le> ScaleTicks interval reserveReleaseTicks" by (rule ScaleTicks_ge) (simp add: reserveReleaseTicks_def)
  have "same_pack (pack_of n (fold latch_update bss ?l))
      (fold (pack_step (ScaleTicks interval reserveReleaseTicks)) (map (sample_of (socReserve ?l) n) bss) (False, 0))"
    using latch_run_pack [OF assms, of n ?l] by (simp add: pack_of_def newReserveLatch_def)
  then show ?thesis
    using pack_run_spec [of "nat (ScaleTicks interval reserveReleaseTicks)" "map (sample_of (socReserve ?l) n) bss" 0] k
    by (simp add: same_pack_def pack_of_def)
qed

theorem reserve_hold_spec_witness:
  "hold (fold latch_update [[ex_pack (Fin 0) (Fin 19)], [ex_pack (Fin 0) NaN], [ex_pack (Fin 0) (Fin 23)]]
      (newReserveLatch (Fin 20) 0)) ''b1''"
proof -
  have r: "socReserve (newReserveLatch (Fin 20) 0) = Fin 20" by (simp add: newReserveLatch_def)
  have s: "sample_of (Fin 20) ''b1'' [ex_pack (Fin 0) (Fin 19)] = Low"
    "sample_of (Fin 20) ''b1'' [ex_pack (Fin 0) NaN] = Unknown"
    "sample_of (Fin 20) ''b1'' [ex_pack (Fin 0) (Fin 23)] = Recovered"
    by (simp_all add: sample_of_def classify_def ex_pack_def NewBatteryState_def reserveReleaseMarginPct_def)
  have k: "nat (ScaleTicks 0 reserveReleaseTicks) = Suc 2" by (simp add: ScaleTicks_def reserveReleaseTicks_def)
  have "[Low, Unknown, Recovered] = ([] @ [Low]) @ [Unknown] @ [Recovered]" by simp
  moreover have "held_spec (Suc 2) (([] @ [Low]) @ [Unknown])" and "held_spec (Suc 2) ((([] @ [Low]) @ [Unknown]) @ [Recovered])"
    by (simp_all only: held_spec_snoc [of "Suc 2"] trail_simps sample.distinct sample.simps zero_less_Suc simp_thms)
  ultimately show ?thesis
    by (subst reserve_hold_spec) (simp_all add: r s k)
qed

section \<open>One pack of the protection\<close>

definition over :: "BatteryState \<Rightarrow> bool" where
  "over b \<longleftrightarrow> flt exportComplianceBreachW (bs_PowerW b)"

definition counts :: "string \<Rightarrow> BatterySafetySession \<Rightarrow> int \<times> int" where
  "counts n s = (drainTicks s n, wrongDirTicks s n)"

lemma trip_step_other:
  "n \<noteq> bs_Name b \<Longrightarrow> counts n (fst (trip_step blk r k cmd b acc)) = counts n (fst acc) \<and>
     (n \<in> set (snd (trip_step blk r k cmd b acc)) \<longleftrightarrow> n \<in> set (snd acc))"
  by (auto simp: trip_step_def Let_def counts_def prune_def count_pack_def)

lemma trip_fold_other:
  "n \<notin> bs_Name ` set bs \<Longrightarrow> counts n (fst (fold (trip_step blk r k cmd) bs acc)) = counts n (fst acc) \<and>
     (n \<in> set (snd (fold (trip_step blk r k cmd) bs acc)) \<longleftrightarrow> n \<in> set (snd acc))"
  by (induction bs arbitrary: acc) (use trip_step_other in auto)

lemma trip_step_lastCmdW [simp]: "lastCmdW (fst (trip_step blk r k cmd b acc)) = lastCmdW (fst acc)"
  by (simp add: trip_step_def Let_def prune_def count_pack_def)

lemma trip_fold_lastCmdW [simp]: "lastCmdW (fst (fold (trip_step blk r k cmd) bs acc)) = lastCmdW (fst acc)"
  by (induction bs arbitrary: acc) simp_all

definition next_counts :: "(BatteryState \<Rightarrow> bool) \<Rightarrow> bool \<Rightarrow> BatteryState \<Rightarrow> int \<times> int \<Rightarrow> int \<times> int" where
  "next_counts blk cc b p =
     (if over b \<and> blk b then fst p + 1 else 0, if cc \<and> over b then snd p + 1 else 0)"

definition pack_trips :: "f64 \<Rightarrow> int \<Rightarrow> bool \<Rightarrow> BatteryState \<Rightarrow> int \<times> int \<Rightarrow> bool" where
  "pack_trips r k cc b p \<longleftrightarrow>
     criticalBatteryInversion (bs_PowerW b) (bs_SOC b) r cc \<or> k \<le> fst p \<or> k \<le> snd p"

lemma trip_step_same:
  assumes "bs_Connected b" and "\<not> is_nan (bs_SOC b)" and "bs_Name b = n"
  shows "counts n (fst (trip_step blk r k cmd b acc)) = next_counts blk (cmd n) b (counts n (fst acc))"
    and "n \<in> set (snd (trip_step blk r k cmd b acc)) \<longleftrightarrow>
      n \<in> set (snd acc) \<or> pack_trips r k (cmd n) b (next_counts blk (cmd n) b (counts n (fst acc)))"
  using assms
  by (simp_all add: trip_step_def Let_def counts_def count_pack_def next_counts_def over_def pack_trips_def trips_def)

lemma trip_fold_pack:
  assumes "distinct (map bs_Name bs)" and "b \<in> set bs" and "bs_Connected b" and "\<not> is_nan (bs_SOC b)"
    and "bs_Name b = n" and "n \<notin> set (snd acc)"
  shows "counts n (fst (fold (trip_step blk r k cmd) bs acc)) = next_counts blk (cmd n) b (counts n (fst acc)) \<and>
    (n \<in> set (snd (fold (trip_step blk r k cmd) bs acc)) \<longleftrightarrow>
      pack_trips r k (cmd n) b (next_counts blk (cmd n) b (counts n (fst acc))))"
  using assms(1,2,6)
proof (induction bs arbitrary: acc)
  case (Cons x bs)
  show ?case
  proof (cases "bs_Name x = n")
    case True
    then have nin: "n \<notin> bs_Name ` set bs" using Cons.prems(1) by auto
    then have x: "x = b" using Cons.prems(2) assms(5) by auto
    show ?thesis using trip_fold_other [OF nin] trip_step_same [OF assms(3,4,5)] Cons.prems(3) x by simp
  next
    case False
    then have b: "b \<in> set bs" using Cons.prems(2) assms(5) by auto
    have o: "counts n (fst (trip_step blk r k cmd x acc)) = counts n (fst acc)"
      "n \<notin> set (snd (trip_step blk r k cmd x acc))"
      using trip_step_other [of n x blk r k cmd acc] False Cons.prems(3) by auto
    show ?thesis using Cons.IH [OF _ b o(2)] Cons.prems(1) o(1) by simp
  qed
qed simp

lemma trip_fold_subset: "set (snd (fold (trip_step blk r k cmd) bs acc)) \<subseteq> set (snd acc) \<union> bs_Name ` set bs"
proof (induction bs arbitrary: acc)
  case (Cons x bs)
  have "set (snd (trip_step blk r k cmd x acc)) \<subseteq> insert (bs_Name x) (set (snd acc))"
    by (auto simp: trip_step_def Let_def)
  then show ?case using Cons [of "trip_step blk r k cmd x acc"] by auto
qed simp

end
