(* ===== verification/ConstraintStack.thy ===== *)
theory ConstraintStack
  imports BatterySafety
begin

text \<open>
  internal/orchestrator/constraint/stack.go: the constraint stack as the engine's optimizer. A
  constraint is either a rule of the demand pass, given by its name and its evaluation, or the
  battery protection, which is the one constraint with a pass after arbitration and with a fast
  reflex. The states of the rules, which may share an object, are one store threaded through the
  demand pass. The maps the code walks in sorted order are lists in that
  order; the authorship snapshot, which is only looked up, is a map.
\<close>

section \<open>Setpoints and EVSE keys\<close>

definition projectSetpoint :: "Interval \<Rightarrow> f64" where
  "projectSetpoint iv =
     (if is_nan (iv_Min iv) \<and> is_nan (iv_Max iv) then NaN
      else if \<not> is_nan (iv_Min iv) \<and> \<not> is_nan (iv_Max iv) \<and> feq (iv_Min iv) (iv_Max iv) then iv_Min iv
      else let lo = (if is_nan (iv_Min iv) then NInf else iv_Min iv);
               hi = (if is_nan (iv_Max iv) then PInf else iv_Max iv)
           in fmax lo (fmin hi (Fin 0)))"

text \<open>\<open>strconv.Atoi\<close>: an optional sign and decimal digits, within 64 bits.\<close>

fun digits :: "string \<Rightarrow> int \<Rightarrow> int option" where
  "digits [] acc = Some acc"
| "digits (c # cs) acc =
     (if 48 \<le> (of_char c :: int) \<and> (of_char c :: int) \<le> 57 then digits cs (acc * 10 + (of_char c - 48)) else None)"

definition atoi :: "string \<Rightarrow> int option" where
  "atoi s =
     (let (neg, ds) = (case s of c # cs \<Rightarrow> if c = CHR ''-'' then (True, cs) else if c = CHR ''+'' then (False, cs)
                         else (False, s) | [] \<Rightarrow> (False, []))
      in if ds = [] then None
         else case digits ds 0 of None \<Rightarrow> None
              | Some n \<Rightarrow> let v = (if neg then - n else n) in if in_int64 v then Some v else None)"

definition last_hash :: "string \<Rightarrow> nat option" where
  "last_hash dev =
     (let r = dropWhile (\<lambda>c. c \<noteq> CHR ''#'') (rev dev) in if r = [] then None else Some (length r - 1))"

definition parseEVSEDevice :: "string \<Rightarrow> string \<times> int" where
  "parseEVSEDevice dev =
     (case last_hash dev of
        None \<Rightarrow> (dev, 0)
      | Some i \<Rightarrow> (case atoi (drop (i + 1) dev) of None \<Rightarrow> (dev, 0) | Some n \<Rightarrow> (take i dev, n)))"

section \<open>Commands of a plan\<close>

definition recordBreach :: "ComplianceBreach \<Rightarrow> ComplianceBreach option \<Rightarrow> ComplianceBreach option" where
  "recordBreach b cur =
     (case cur of None \<Rightarrow> Some b
      | Some c \<Rightarrow> if flt (br_ShortfallW c) (br_ShortfallW b) then Some b else Some c)"

definition solar_command :: "Desired \<Rightarrow> string \<Rightarrow> SolarCommand list" where
  "solar_command d dev =
     (case Bound d AxisSolarCeilingW of None \<Rightarrow> []
      | Some iv \<Rightarrow> [\<lparr>sc_Name = dev, sc_CurtailToW = iv_Max iv, sc_Connect = des_Connect d, sc_MRID = ''''\<rparr>])"

definition hasEVSE :: "Desired \<Rightarrow> bool" where
  "hasEVSE d = (case Bound d AxisEVSECurrentA of None \<Rightarrow> False | Some iv \<Rightarrow> \<not> is_nan (iv_Max iv))"

definition battery_command :: "Desired \<Rightarrow> string \<Rightarrow> BatteryCommand list" where
  "battery_command d dev =
     (if Bound d AxisBatterySetpointW \<noteq> None \<or>
         des_Connect d \<noteq> None \<and> Bound d AxisSolarCeilingW = None \<and> \<not> hasEVSE d
      then [\<lparr>bc_Name = dev,
             bc_SetpointW = (case Bound d AxisBatterySetpointW of None \<Rightarrow> NaN | Some iv \<Rightarrow> projectSetpoint iv),
             bc_Connect = des_Connect d, bc_MRID = ''''\<rparr>]
      else [])"

definition evse_command :: "Desired \<Rightarrow> string \<Rightarrow> EVSECommand list" where
  "evse_command d dev =
     (case Bound d AxisEVSECurrentA of
        Some iv \<Rightarrow>
          if hasEVSE d
          then [\<lparr>ec_StationID = fst (parseEVSEDevice dev), ec_ConnectorID = snd (parseEVSEDevice dev),
                 ec_MaxCurrentA = fmax (Fin 0) (iv_Max iv), ec_SetpointW = None,
                 ec_Connect = des_Connect d, ec_MRID = ''''\<rparr>]
          else []
      | None \<Rightarrow> [])"

definition emit_device :: "string \<times> Desired \<Rightarrow> Plan \<Rightarrow> Plan" where
  "emit_device dd plan =
     (let (dev, d) = dd
      in plan\<lparr>SolarCommands := SolarCommands plan @ solar_command d dev,
              BatteryCommands := BatteryCommands plan @ battery_command d dev,
              EVSECommands := EVSECommands plan @ evse_command d dev,
              Decisions := Decisions plan @ Conflicts d\<rparr>)"

definition emitCommands :: "(string \<times> Desired) list \<Rightarrow> Plan \<Rightarrow> Plan" where
  "emitCommands desired plan = fold emit_device desired plan"

section \<open>Authorship\<close>

definition snapshot_authors :: "(string \<times> Desired) list \<Rightarrow> string \<rightharpoonup> string" where
  "snapshot_authors desired =
     fold (\<lambda>(dev, d) m. fold (\<lambda>(axis, src) m. if src \<noteq> '''' then m(axisKey dev axis \<mapsto> src) else m) (Authors d) m)
       desired Map.empty"

definition snapshotBatteryCommands :: "BatteryCommand list \<Rightarrow> string \<rightharpoonup> BatteryCommand" where
  "snapshotBatteryCommands cmds = fold (\<lambda>c m. m(bc_Name c \<mapsto> c)) cmds Map.empty"

definition attributePostArbiterAuthorship ::
  "(string \<rightharpoonup> BatteryCommand) \<Rightarrow> BatteryCommand list \<Rightarrow> string \<Rightarrow> (string \<rightharpoonup> string) \<Rightarrow> string \<rightharpoonup> string" where
  "attributePostArbiterAuthorship before after name authors =
     fold (\<lambda>c m.
       let b = before (bc_Name c);
           setpointChanged = (\<not> is_nan (bc_SetpointW c) \<and>
             (case b of None \<Rightarrow> True | Some b \<Rightarrow> \<not> feq (bc_SetpointW b) (bc_SetpointW c)));
           connectChanged = (bc_Connect c \<noteq> None \<and>
             (case b of None \<Rightarrow> True | Some b \<Rightarrow> bc_Connect b \<noteq> bc_Connect c));
           m = (if setpointChanged then m(axisKey (bc_Name c) AxisBatterySetpointW \<mapsto> name) else m)
       in if connectChanged then m(axisKey (bc_Name c) AxisConnect \<mapsto> name) else m) after authors"

section \<open>The stack\<close>

datatype 's Constraint =
    Rule string "Input \<Rightarrow> Session \<Rightarrow> 's \<Rightarrow> 's \<times> Demand list \<times> ComplianceBreach option"
  | BatteryGuard BatterySafetyConstraint

fun constraint_Name :: "'s Constraint \<Rightarrow> string" where
  "constraint_Name (Rule n _) = n"
| "constraint_Name (BatteryGuard _) = bsc_Name"

record 's Stack =
  constraints :: "'s Constraint list"
  rule_store :: 's
  stk_plant :: Plant
  stk_tickInterval :: duration
  lastAuthors :: "string \<rightharpoonup> string"
  reserve :: reserveLatch

definition NewStack :: "Plant \<Rightarrow> duration \<Rightarrow> 's Constraint list \<Rightarrow> 's \<Rightarrow> 's Stack" where
  "NewStack plant interval cs st0 =
     \<lparr>constraints = cs, rule_store = st0, stk_plant = plant, stk_tickInterval = interval, lastAuthors = Map.empty,
      reserve = newReserveLatch (Fin 0) interval\<rparr>"

definition SetReserveFloor :: "f64 \<Rightarrow> 's Stack \<Rightarrow> 's Stack" where
  "SetReserveFloor pct s =
     (if flt (Fin 0) pct then s\<lparr>reserve := (reserve s)\<lparr>socReserve := pct\<rparr>\<rparr> else s)"

definition SessionNames :: "'s Stack \<Rightarrow> string list" where
  "SessionNames s = map constraint_Name (constraints s)"

definition session :: "'s Stack \<Rightarrow> 's Constraint \<Rightarrow> Session" where
  "session s c = NewSession (constraint_Name c) (stk_tickInterval s)"

text \<open>The demand pass: every rule in order; the protection is skipped.\<close>

fun demand_pass ::
  "duration \<Rightarrow> Input \<Rightarrow> 's Constraint list \<Rightarrow> 's \<Rightarrow> 's \<times> Demand list \<times> ComplianceBreach list" where
  "demand_pass interval inp [] st = (st, [], [])"
| "demand_pass interval inp (BatteryGuard g # cs) st = demand_pass interval inp cs st"
| "demand_pass interval inp (Rule n ev # cs) st =
     (let (st', d, b) = ev inp (NewSession n interval) st;
          (st'', ds, bs) = demand_pass interval inp cs st'
      in (st'', d @ ds, (case b of None \<Rightarrow> bs | Some x \<Rightarrow> x # bs)))"

text \<open>The pass after arbitration: the protection rewrites the battery commands.\<close>

fun post_pass ::
  "duration \<Rightarrow> Input \<Rightarrow> 's Constraint list \<Rightarrow> BatteryCommand list \<times> (string \<rightharpoonup> string) \<Rightarrow>
     's Constraint list \<times> BatteryCommand list \<times> (string \<rightharpoonup> string)" where
  "post_pass interval inp [] acc = ([], acc)"
| "post_pass interval inp (Rule n ev # cs) acc =
     (let (cs', r) = post_pass interval inp cs acc in (Rule n ev # cs', r))"
| "post_pass interval inp (BatteryGuard g # cs) acc =
     (let (g', cmds) = PostArbitrate inp (NewSession bsc_Name interval) g (fst acc);
          authors = attributePostArbiterAuthorship (snapshotBatteryCommands (fst acc)) cmds bsc_Name (snd acc);
          (cs', r) = post_pass interval inp cs (cmds, authors)
      in (BatteryGuard g' # cs', r))"

definition stamp_MRID :: "CSIPControlState option \<Rightarrow> Plan \<Rightarrow> Plan" where
  "stamp_MRID c plan =
     (case c of None \<Rightarrow> plan
      | Some c \<Rightarrow>
          plan\<lparr>BatteryCommands := map (\<lambda>x. x\<lparr>bc_MRID := cc_MRID c\<rparr>) (BatteryCommands plan),
               SolarCommands := map (\<lambda>x. x\<lparr>sc_MRID := cc_MRID c\<rparr>) (SolarCommands plan),
               EVSECommands := map (\<lambda>x. x\<lparr>ec_MRID := cc_MRID c\<rparr>) (EVSECommands plan)\<rparr>)"

definition empty_plan :: "gotime \<Rightarrow> Plan" where
  "empty_plan t =
     \<lparr>pl_Timestamp = t, BatteryCommands = [], SolarCommands = [], EVSECommands = [], Decisions = [],
      Breach = None, Safety = False\<rparr>"

definition plan_time :: "gotime \<Rightarrow> SystemState \<Rightarrow> gotime" where
  "plan_time clock state = (if is_zero_time (st_Timestamp state) then clock else st_Timestamp state)"

definition stack_input :: "'s Stack \<Rightarrow> SystemState \<Rightarrow> Input" where
  "stack_input s state =
     \<lparr>in_State = state, in_Plant = stk_plant s, in_TickSeconds = tickSeconds (stk_tickInterval s),
      DischargeBlocked = Some (blocked (reserve s))\<rparr>"

definition Optimize :: "gotime \<Rightarrow> SystemState \<Rightarrow> 's Stack \<Rightarrow> 's Stack \<times> Plan" where
  "Optimize clock state s0 =
     (let s = s0\<lparr>reserve := latch_update (Batteries state) (reserve s0)\<rparr>;
          inp = stack_input s state;
          (st, demands, breaches) = demand_pass (stk_tickInterval s) inp (constraints s) (rule_store s);
          desired = Resolve demands;
          plan = emitCommands desired ((empty_plan (plan_time clock state))\<lparr>Breach := fold recordBreach breaches None\<rparr>);
          (cs', cmds, authors) = post_pass (stk_tickInterval s) inp (constraints s) (BatteryCommands plan, snapshot_authors desired)
      in (s\<lparr>constraints := cs', rule_store := st, lastAuthors := authors\<rparr>,
          stamp_MRID (CSIPControl state) (plan\<lparr>BatteryCommands := cmds\<rparr>)))"

definition fast_demands :: "SystemState \<Rightarrow> 's Constraint list \<Rightarrow> Demand list" where
  "fast_demands state cs =
     concat (map (\<lambda>c. case c of Rule _ _ \<Rightarrow> [] | BatteryGuard g \<Rightarrow> EvaluateFast state g) cs)"

definition EvaluateSafety :: "gotime \<Rightarrow> SystemState \<Rightarrow> 's Stack \<Rightarrow> Plan" where
  "EvaluateSafety clock state s =
     emitCommands (Resolve (fast_demands state (constraints s)))
       ((empty_plan (plan_time clock state))\<lparr>Safety := True\<rparr>)"

section \<open>Commands: one per device, overridden for good\<close>

lemma emit_fold:
  "BatteryCommands (emitCommands ds p) = BatteryCommands p @ concat (map (\<lambda>(n, d). battery_command d n) ds)"
  "SolarCommands (emitCommands ds p) = SolarCommands p @ concat (map (\<lambda>(n, d). solar_command d n) ds)"
  "EVSECommands (emitCommands ds p) = EVSECommands p @ concat (map (\<lambda>(n, d). evse_command d n) ds)"
  "Breach (emitCommands ds p) = Breach p" "Safety (emitCommands ds p) = Safety p"
  unfolding emitCommands_def
  by (induction ds arbitrary: p) (auto simp: emit_device_def split: prod.split)

lemma battery_command_name: "c \<in> set (battery_command d n) \<Longrightarrow> bc_Name c = n"
  by (simp add: battery_command_def split: if_splits)

lemma battery_command_names: "map bc_Name (battery_command d n) \<in> {[], [n]}"
  by (simp add: battery_command_def)

lemma emit_distinct:
  "distinct (map fst ds) \<Longrightarrow> distinct (map bc_Name (concat (map (\<lambda>(n, d). battery_command d n) ds)))"
proof (induction ds)
  case (Cons x ds)
  obtain n d where x: "x = (n, d)" by force
  have "n \<notin> bc_Name ` set (concat (map (\<lambda>(n, d). battery_command d n) ds))"
    using Cons.prems x battery_command_name by (force simp: image_iff)
  moreover have "distinct (map bc_Name (battery_command d n))" "bc_Name ` set (battery_command d n) \<subseteq> {n}"
    using battery_command_names [of d n] by auto
  moreover have "distinct (map bc_Name (concat (map (\<lambda>(n, d). battery_command d n) ds)))" using Cons by simp
  ultimately show ?case using x unfolding list.map concat.simps map_append distinct_append by auto
qed simp

lemma Resolve_distinct: "distinct (map fst (Resolve demands))"
  by (simp add: Resolve_def deviceOrder_def comp_def)

lemma override_names: "bc_Name ` set (overrideDisconnect n cs) = insert n (bc_Name ` set cs)"
  by (induction cs) auto

lemma override_distinct: "distinct (map bc_Name cs) \<Longrightarrow> distinct (map bc_Name (overrideDisconnect n cs))"
proof (induction cs)
  case (Cons c cs)
  then show ?case using override_names [of n cs] by (auto simp: image_iff)
qed simp

definition disconnects :: "BatteryCommand \<Rightarrow> bool" where
  "disconnects c \<longleftrightarrow> bc_SetpointW c = Fin 0 \<and> bc_Connect c = Some False"

lemma command_of_override:
  "command_of (overrideDisconnect n cs) m = (if m = n
     then Some (case command_of cs n of None \<Rightarrow> \<lparr>bc_Name = n, bc_SetpointW = Fin 0, bc_Connect = Some False, bc_MRID = ''''\<rparr>
                | Some c \<Rightarrow> c\<lparr>bc_SetpointW := Fin 0, bc_Connect := Some False\<rparr>)
     else command_of cs m)"
  by (induction cs) (auto simp: command_of_def)

definition disconnected :: "string \<Rightarrow> BatteryCommand list \<Rightarrow> bool" where
  "disconnected n cs = (case command_of cs n of None \<Rightarrow> False | Some c \<Rightarrow> disconnects c)"

lemma disconnected_override:
  "disconnected m (overrideDisconnect n cs) \<longleftrightarrow> m = n \<or> disconnected m cs"
  by (auto simp: disconnected_def command_of_override disconnects_def split: option.split)

lemma disconnected_overrides:
  "disconnected m (fold overrideDisconnect ns cs) \<longleftrightarrow> m \<in> set ns \<or> disconnected m cs"
  by (induction ns arbitrary: cs) (auto simp: disconnected_override)

lemma overrides_distinct:
  "distinct (map bc_Name cs) \<Longrightarrow> distinct (map bc_Name (fold overrideDisconnect ns cs))"
  by (induction ns arbitrary: cs) (simp_all add: override_distinct)

lemma override_others: "c \<in> set (overrideDisconnect n cs) \<Longrightarrow> c \<in> set cs \<or> disconnects c"
  by (induction cs) (auto simp: disconnects_def split: if_splits)

lemma overrides_others: "c \<in> set (fold overrideDisconnect ns cs) \<Longrightarrow> c \<in> set cs \<or> disconnects c"
proof (induction ns arbitrary: cs)
  case (Cons n ns)
  then show ?case using override_others [of c n cs] by auto
qed simp

section \<open>The passes\<close>


definition guard_pass :: "duration \<Rightarrow> Input \<Rightarrow> BatterySafetyConstraint \<Rightarrow> BatteryCommand list \<Rightarrow>
    BatterySafetyConstraint \<times> BatteryCommand list" where
  "guard_pass iv inp g cmds = PostArbitrate inp (NewSession bsc_Name iv) g cmds"

lemma post_pass_simps:
  "post_pass iv inp (Rule n ev # cs) acc =
     (Rule n ev # fst (post_pass iv inp cs acc), snd (post_pass iv inp cs acc))"
  "post_pass iv inp (BatteryGuard g # cs) acc =
     (let r = guard_pass iv inp g (fst acc);
          q = post_pass iv inp cs (snd r, attributePostArbiterAuthorship (snapshotBatteryCommands (fst acc))
                (snd r) bsc_Name (snd acc))
      in (BatteryGuard (fst r) # fst q, snd q))"
  by (simp_all add: case_prod_unfold Let_def guard_pass_def)

declare post_pass.simps(2,3) [simp del]

lemma guard_pass_cmds:
  "snd (guard_pass iv inp g cmds) = fold overrideDisconnect
     (snd (evaluateTrips inp (ScaleTicks iv batteryReserveDrainTicks)
        (post_chargeCommanded (bsc_sess g) cmds) g)) cmds"
  by (simp add: PostArbitrate_def guard_pass_def NewSession_def Let_def split: prod.split)

lemma post_pass_distinct:
  "distinct (map bc_Name (fst acc)) \<Longrightarrow> distinct (map bc_Name (fst (snd (post_pass iv inp cs acc))))"
proof (induction cs arbitrary: acc)
  case (Cons c cs)
  then show ?case by (cases c) (simp_all add: post_pass_simps Let_def guard_pass_cmds overrides_distinct)
qed simp

lemma post_pass_keeps:
  "disconnected n (fst acc) \<Longrightarrow> disconnected n (fst (snd (post_pass iv inp cs acc)))"
proof (induction cs arbitrary: acc)
  case (Cons c cs)
  then show ?case by (cases c) (simp_all add: post_pass_simps Let_def guard_pass_cmds disconnected_overrides)
qed simp

lemma post_pass_others:
  "c \<in> set (fst (snd (post_pass iv inp cs acc))) \<Longrightarrow> c \<in> set (fst acc) \<or> disconnects c"
proof (induction cs arbitrary: acc)
  case (Cons x cs)
  show ?case
  proof (cases x)
    case (BatteryGuard g)
    have "c \<in> set (snd (guard_pass iv inp g (fst acc))) \<or> disconnects c"
      using Cons.IH [of "(snd (guard_pass iv inp g (fst acc)), _)"] Cons.prems BatteryGuard
      by (simp add: post_pass_simps Let_def)
    then show ?thesis by (auto simp: guard_pass_cmds dest: overrides_others)
  qed (use Cons in \<open>simp add: post_pass_simps\<close>)
qed simp

lemma post_pass_length [simp]: "length (fst (post_pass iv inp cs acc)) = length cs"
proof (induction cs arbitrary: acc)
  case (Cons x cs)
  then show ?case by (cases x) (simp_all add: post_pass_simps Let_def)
qed simp

text \<open>The guard at a position: its session after the pass, and the packs it trips.\<close>

lemma post_pass_guard:
  "i < length cs \<Longrightarrow> cs ! i = BatteryGuard g \<Longrightarrow>
   \<exists>cmds. fst (post_pass iv inp cs acc) ! i = BatteryGuard (fst (guard_pass iv inp g cmds)) \<and>
     (\<forall>n. disconnected n (snd (guard_pass iv inp g cmds)) \<longrightarrow> disconnected n (fst (snd (post_pass iv inp cs acc))))"
proof (induction cs arbitrary: i acc)
  case (Cons x cs)
  show ?case
  proof (cases i)
    case 0
    then have "x = BatteryGuard g" using Cons.prems by simp
    then show ?thesis using 0
      by (auto simp: post_pass_simps Let_def intro!: exI [of _ "fst acc"] post_pass_keeps)
  next
    case (Suc j)
    then show ?thesis using Cons.IH [of j] Cons.prems by (cases x) (auto simp: post_pass_simps Let_def)
  qed
qed simp

section \<open>Runs\<close>

fun run_ticks :: "(gotime \<times> SystemState) list \<Rightarrow> 's Stack \<Rightarrow> 's Stack \<times> Plan list" where
  "run_ticks [] s = (s, [])"
| "run_ticks (x # xs) s =
     (let (s', p) = Optimize (fst x) (snd x) s; (s'', ps) = run_ticks xs s' in (s'', p # ps))"

lemma run_ticks_append:
  "run_ticks (xs @ ys) s =
     (fst (run_ticks ys (fst (run_ticks xs s))), snd (run_ticks xs s) @ snd (run_ticks ys (fst (run_ticks xs s))))"
  by (induction xs arbitrary: s) (simp_all add: case_prod_unfold Let_def)

text \<open>The stack as one tick sees it, the demands of that tick and what arbitration made of them.\<close>

definition ticked :: "SystemState \<Rightarrow> 's Stack \<Rightarrow> 's Stack" where
  "ticked state s = s\<lparr>reserve := latch_update (Batteries state) (reserve s)\<rparr>"

definition tick_pass :: "SystemState \<Rightarrow> 's Stack \<Rightarrow> 's \<times> Demand list \<times> ComplianceBreach list" where
  "tick_pass state s = demand_pass (stk_tickInterval s) (stack_input (ticked state s) state) (constraints s) (rule_store s)"

definition tick_demands :: "SystemState \<Rightarrow> 's Stack \<Rightarrow> Demand list" where
  "tick_demands state s = fst (snd (tick_pass state s))"

definition arbitrated :: "SystemState \<Rightarrow> 's Stack \<Rightarrow> BatteryCommand list" where
  "arbitrated state s = concat (map (\<lambda>(n, d). battery_command d n) (Resolve (tick_demands state s)))"

definition tick_post :: "SystemState \<Rightarrow> 's Stack \<Rightarrow> 's Constraint list \<times> BatteryCommand list \<times> (string \<rightharpoonup> string)" where
  "tick_post state s = post_pass (stk_tickInterval s) (stack_input (ticked state s) state) (constraints s)
     (arbitrated state s, snapshot_authors (Resolve (tick_demands state s)))"

lemma Optimize_fields:
  "constraints (fst (Optimize t state s)) = fst (tick_post state s)"
  "reserve (fst (Optimize t state s)) = latch_update (Batteries state) (reserve s)"
  "stk_tickInterval (fst (Optimize t state s)) = stk_tickInterval s"
  "BatteryCommands (snd (Optimize t state s)) =
     map (\<lambda>c. case CSIPControl state of None \<Rightarrow> c | Some x \<Rightarrow> c\<lparr>bc_MRID := cc_MRID x\<rparr>) (fst (snd (tick_post state s)))"
  "Breach (snd (Optimize t state s)) = fold recordBreach (snd (snd (tick_pass state s))) None"
  by (simp_all add: Optimize_def Let_def tick_post_def tick_pass_def tick_demands_def arbitrated_def ticked_def
      stamp_MRID_def emit_fold case_prod_unfold empty_plan_def split: option.split)

definition stamp :: "CSIPControlState option \<Rightarrow> BatteryCommand \<Rightarrow> BatteryCommand" where
  "stamp x c = (case x of None \<Rightarrow> c | Some x \<Rightarrow> c\<lparr>bc_MRID := cc_MRID x\<rparr>)"

lemma stamp_fields [simp]:
  "bc_Name (stamp x c) = bc_Name c" "bc_SetpointW (stamp x c) = bc_SetpointW c"
  "bc_Connect (stamp x c) = bc_Connect c" "disconnects (stamp x c) = disconnects c"
  by (simp_all add: stamp_def disconnects_def split: option.split)

lemma Optimize_commands:
  "BatteryCommands (snd (Optimize t state s)) = map (stamp (CSIPControl state)) (fst (snd (tick_post state s)))"
  by (simp add: Optimize_fields stamp_def)

lemma arbitrated_distinct: "distinct (map bc_Name (arbitrated state s))"
  unfolding arbitrated_def by (rule emit_distinct [OF Resolve_distinct])

lemma Optimize_distinct: "distinct (map bc_Name (BatteryCommands (snd (Optimize t state s))))"
proof -
  have "distinct (map bc_Name (fst (snd (tick_post state s))))"
    unfolding tick_post_def by (rule post_pass_distinct) (simp add: arbitrated_distinct)
  then show ?thesis by (simp add: Optimize_commands comp_def)
qed

definition shut :: "string \<Rightarrow> Plan \<Rightarrow> bool" where
  "shut n p \<longleftrightarrow> n \<in> bc_Name ` set (BatteryCommands p) \<and>
     (\<forall>c \<in> set (BatteryCommands p). bc_Name c = n \<longrightarrow> disconnects c)"

lemma disconnected_shut:
  assumes "distinct (map bc_Name cs)" and "disconnected n cs" and "BatteryCommands p = map (stamp x) cs"
  shows "shut n p"
proof -
  obtain c where c: "find (\<lambda>c. bc_Name c = n) cs = Some c" "disconnects c"
    using assms(2) by (auto simp: disconnected_def command_of_def split: option.splits)
  then have m: "c \<in> set cs" "bc_Name c = n" by (auto simp: find_Some_iff)
  have i: "inj_on bc_Name (set cs)" using assms(1) by (simp add: distinct_map)
  have u: "d = c" if "d \<in> set cs" "bc_Name d = n" for d
    by (rule inj_onD [OF i _ that(1) m(1)]) (simp only: that(2) m(2))
  have "n \<in> bc_Name ` set (BatteryCommands p)"
    unfolding assms(3) set_map image_image stamp_fields using m by blast
  moreover have "\<forall>c \<in> set (BatteryCommands p). bc_Name c = n \<longrightarrow> disconnects c"
    unfolding assms(3) set_map ball_simps stamp_fields using u c(2) by blast
  ultimately show ?thesis by (simp add: shut_def)
qed

section \<open>A draining pack over several ticks\<close>

definition drains :: "string \<Rightarrow> f64 \<Rightarrow> SystemState \<Rightarrow> bool" where
  "drains n r state \<longleftrightarrow> distinct (map bs_Name (Batteries state)) \<and>
     list_ex (\<lambda>b. bs_Name b = n \<and> bs_Connected b \<and> \<not> is_nan (bs_SOC b) \<and> fle (bs_SOC b) r \<and> over b) (Batteries state)"

lemma drains_blocked:
  assumes "drains n (socReserve (reserve s)) state"
  obtains b where "b \<in> set (Batteries state)" "bs_Name b = n" "bs_Connected b" "\<not> is_nan (bs_SOC b)" "over b"
    "reserveBlocker (stack_input (ticked state s) state) r b"
  using assms that by (auto simp: drains_def list_ex_iff reserveBlocker_def stack_input_def blocked_def ticked_def)

lemma guard_drain:
  fixes g :: BatterySafetyConstraint
  assumes "drains n (socReserve (reserve s)) state"
  defines "inp \<equiv> stack_input (ticked state s) state"
  shows "drainTicks (bsc_sess (fst (guard_pass iv inp g cmds))) n = drainTicks (bsc_sess g) n + 1"
    and "ScaleTicks iv batteryReserveDrainTicks \<le> drainTicks (bsc_sess g) n + 1 \<Longrightarrow>
      disconnected n (snd (guard_pass iv inp g cmds))"
proof -
  let ?k = "ScaleTicks iv batteryReserveDrainTicks" and ?cmd = "post_chargeCommanded (bsc_sess g) cmds"
  obtain b where b: "b \<in> set (Batteries state)" "bs_Name b = n" "bs_Connected b" "\<not> is_nan (bs_SOC b)" "over b"
    "reserveBlocker inp (bsc_socReserve g) b" unfolding inp_def by (rule drains_blocked [OF assms(1)])
  have d: "distinct (map bs_Name (Batteries state))" using assms(1) by (simp add: drains_def)
  have st: "in_State inp = state" by (simp add: inp_def stack_input_def)
  note f = trip_fold_pack [OF d b(1,3,4,2), of "(bsc_sess g, [])" "reserveBlocker inp (bsc_socReserve g)"
    "bsc_socReserve g" ?k ?cmd, simplified]
  have rec: "drainTicks (RecordCommands cs ss) = drainTicks ss" for cs ss
    unfolding RecordCommands_def by (induction cs arbitrary: ss) auto
  show "drainTicks (bsc_sess (fst (guard_pass iv inp g cmds))) n = drainTicks (bsc_sess g) n + 1"
    using f b by (simp add: guard_pass_def PostArbitrate_def evaluateTrips_def case_prod_unfold Let_def rec st
        NewSession_def counts_def next_counts_def)
  assume "?k \<le> drainTicks (bsc_sess g) n + 1"
  then have "n \<in> set (snd (evaluateTrips inp ?k ?cmd g))"
    using f b by (simp add: evaluateTrips_def case_prod_unfold st pack_trips_def next_counts_def counts_def Let_def)
  then show "disconnected n (snd (guard_pass iv inp g cmds))"
    by (simp add: guard_pass_cmds disconnected_overrides)
qed

lemma Optimize_guard:
  assumes "i < length (constraints s)" and "constraints s ! i = BatteryGuard g"
  shows "\<exists>cmds g'. constraints (fst (Optimize t state s)) ! i = BatteryGuard g' \<and>
    g' = fst (guard_pass (stk_tickInterval s) (stack_input (ticked state s) state) g cmds) \<and>
    length (constraints (fst (Optimize t state s))) = length (constraints s) \<and>
    (\<forall>n. disconnected n (snd (guard_pass (stk_tickInterval s) (stack_input (ticked state s) state) g cmds)) \<longrightarrow>
       shut n (snd (Optimize t state s)))"
proof -
  from post_pass_guard [OF assms] obtain cmds where
    "fst (tick_post state s) ! i = BatteryGuard (fst (guard_pass (stk_tickInterval s) (stack_input (ticked state s) state) g cmds))"
    "\<forall>n. disconnected n (snd (guard_pass (stk_tickInterval s) (stack_input (ticked state s) state) g cmds)) \<longrightarrow>
       disconnected n (fst (snd (tick_post state s)))"
    unfolding tick_post_def by blast
  moreover have "distinct (map bc_Name (fst (snd (tick_post state s))))"
    unfolding tick_post_def by (rule post_pass_distinct) (simp add: arbitrated_distinct)
  moreover have "length (constraints (fst (Optimize t state s))) = length (constraints s)"
    by (simp add: Optimize_fields(1) tick_post_def)
  ultimately show ?thesis using disconnected_shut [OF _ _ Optimize_commands] unfolding Optimize_fields(1) by blast
qed

text \<open>The guard at position \<open>i\<close> has counted at least \<open>k\<close> draining ticks of the pack.\<close>

definition counted :: "nat \<Rightarrow> string \<Rightarrow> int \<Rightarrow> 's Stack \<Rightarrow> bool" where
  "counted i n k s \<longleftrightarrow> i < length (constraints s) \<and>
     (\<exists>g. constraints s ! i = BatteryGuard g \<and> k \<le> drainTicks (bsc_sess g) n)"

lemma counted_tick:
  assumes "counted i n k s" and "drains n (socReserve (reserve s)) state"
  shows "counted i n (k + 1) (fst (Optimize t state s))"
    and "ScaleTicks (stk_tickInterval s) batteryReserveDrainTicks \<le> k + 1 \<Longrightarrow> shut n (snd (Optimize t state s))"
proof -
  obtain g where g: "i < length (constraints s)" "constraints s ! i = BatteryGuard g" "k \<le> drainTicks (bsc_sess g) n"
    using assms(1) by (auto simp: counted_def)
  from Optimize_guard [OF g(1,2), of t state] obtain cmds where o:
    "constraints (fst (Optimize t state s)) ! i =
       BatteryGuard (fst (guard_pass (stk_tickInterval s) (stack_input (ticked state s) state) g cmds))"
    "length (constraints (fst (Optimize t state s))) = length (constraints s)"
    "disconnected n (snd (guard_pass (stk_tickInterval s) (stack_input (ticked state s) state) g cmds)) \<Longrightarrow>
       shut n (snd (Optimize t state s))" by blast
  note d = guard_drain [OF assms(2), of "stk_tickInterval s" g cmds]
  show "counted i n (k + 1) (fst (Optimize t state s))" using o(1,2) d(1) g by (simp add: counted_def)
  show "shut n (snd (Optimize t state s))" if "ScaleTicks (stk_tickInterval s) batteryReserveDrainTicks \<le> k + 1"
    using o(3) d(2) g(3) that by simp
qed

lemma guard_nonneg:
  assumes "0 \<le> drainTicks (bsc_sess g) n"
  shows "0 \<le> drainTicks (bsc_sess (fst (guard_pass iv inp g cmds))) n"
proof -
  have s: "0 \<le> drainTicks (fst acc) n \<Longrightarrow> 0 \<le> drainTicks (fst (trip_step blk r k cmd b acc)) n" for acc blk r k cmd b
    by (cases "n = bs_Name b") (auto simp: trip_step_def Let_def prune_def count_pack_def)
  have "0 \<le> drainTicks (fst acc) n \<Longrightarrow> 0 \<le> drainTicks (fst (fold (trip_step blk r k cmd) bs acc)) n" for acc blk r k cmd bs
    by (induction bs arbitrary: acc) (simp_all add: s)
  from this [of "(bsc_sess g, [])"] assms
  have t: "0 \<le> drainTicks (bsc_sess (fst (evaluateTrips inp k cmd g))) n" for k cmd
    by (simp add: evaluateTrips_def case_prod_unfold Let_def)
  have "drainTicks (RecordCommands cs ss) = drainTicks ss" for cs ss
    unfolding RecordCommands_def by (induction cs arbitrary: ss) auto
  then show ?thesis using t by (simp add: guard_pass_def PostArbitrate_def case_prod_unfold Let_def)
qed

lemma counted_0:
  assumes "counted i n 0 s"
  shows "counted i n 0 (fst (Optimize t state s))"
proof -
  obtain g where g: "i < length (constraints s)" "constraints s ! i = BatteryGuard g" "0 \<le> drainTicks (bsc_sess g) n"
    using assms by (auto simp: counted_def)
  from Optimize_guard [OF g(1,2), of t state] obtain cmds where
    "constraints (fst (Optimize t state s)) ! i =
       BatteryGuard (fst (guard_pass (stk_tickInterval s) (stack_input (ticked state s) state) g cmds))"
    "length (constraints (fst (Optimize t state s))) = length (constraints s)" by blast
  then show ?thesis using g guard_nonneg [OF g(3)] by (simp add: counted_def)
qed

lemma run_frame:
  "socReserve (reserve (fst (run_ticks xs s))) = socReserve (reserve s)"
  "stk_tickInterval (fst (run_ticks xs s)) = stk_tickInterval s"
  "length (snd (run_ticks xs s)) = length xs"
  by (induction xs arbitrary: s) (simp_all add: case_prod_unfold Let_def Optimize_fields)

lemma counted_run_0: "counted i n 0 s \<Longrightarrow> counted i n 0 (fst (run_ticks xs s))"
  by (induction xs arbitrary: s) (simp_all add: case_prod_unfold Let_def counted_0)

lemma drains_run:
  assumes "counted i n 0 s" and "\<forall>x \<in> set xs. drains n (socReserve (reserve s)) (snd x)"
  shows "counted i n (int (length xs)) (fst (run_ticks xs s)) \<and>
    (xs \<noteq> [] \<longrightarrow> ScaleTicks (stk_tickInterval s) batteryReserveDrainTicks \<le> int (length xs) \<longrightarrow>
       shut n (last (snd (run_ticks xs s))))"
  using assms
proof (induction xs rule: rev_induct)
  case (snoc x xs)
  let ?s = "fst (run_ticks xs s)"
  have c: "counted i n (int (length xs)) ?s" using snoc by simp
  have d: "drains n (socReserve (reserve ?s)) (snd x)" using snoc.prems(2) by (simp add: run_frame)
  show ?case using counted_tick [OF c d, of "fst x"]
    by (simp add: run_ticks_append case_prod_unfold Let_def run_frame algebra_simps)
qed simp

definition guard_stack :: "Plant \<Rightarrow> duration \<Rightarrow> 's Constraint list \<Rightarrow> 's \<Rightarrow> f64 \<Rightarrow> 's Stack" where
  "guard_stack plant interval cs st0 floor_pct = SetReserveFloor floor_pct (NewStack plant interval cs st0)"

definition site_reserve :: "f64 \<Rightarrow> f64" where
  "site_reserve floor_pct = (if flt (Fin 0) floor_pct then floor_pct else importSOCReserve)"

lemma guard_stack_fields [simp]:
  "constraints (guard_stack plant iv cs st0 p) = cs" "stk_tickInterval (guard_stack plant iv cs st0 p) = iv"
  "socReserve (reserve (guard_stack plant iv cs st0 p)) = site_reserve p"
  by (simp_all add: guard_stack_def SetReserveFloor_def NewStack_def site_reserve_def newReserveLatch_def)

section \<open>Setpoints and breaches\<close>

lemma projectSetpoint_admitted:
  assumes "fle lo hi"
  defines "iv \<equiv> \<lparr>iv_Min = infToNaN lo, iv_Max = infToNaN hi\<rparr>"
  shows "is_nan (projectSetpoint iv) \<or> admits iv (projectSetpoint iv)"
  using assms(1) unfolding iv_def
  by (cases lo; cases hi)
    (auto simp: projectSetpoint_def admits_def infToNaN_def feq_def max_def min_def Let_def)

lemma arbitrated_setpoint:
  assumes "c \<in> set (battery_command (resolve_device ds n) n)"
  shows "is_nan (bc_SetpointW c) \<or>
    (\<exists>iv. Bound (resolve_device ds n) AxisBatterySetpointW = Some iv \<and> admits iv (bc_SetpointW c))"
proof (cases "Bound (resolve_device ds n) AxisBatterySetpointW")
  case None
  then show ?thesis using assms by (simp add: battery_command_def split: if_splits)
next
  case (Some iv)
  let ?a = "resolve_tiers n AxisBatterySetpointW (axis_demands ds n AxisBatterySetpointW)"
  have iv: "iv = \<lparr>iv_Min = infToNaN (acc_lo ?a), iv_Max = infToNaN (acc_hi ?a)\<rparr>"
    using Some by (simp add: resolve_device_fields resolveInterval_def Let_def split: if_splits)
  have "bc_SetpointW c = projectSetpoint iv" using assms Some by (simp add: battery_command_def)
  moreover have "fle (acc_lo ?a) (acc_hi ?a)" using resolve_tiers_good by (simp add: good_def)
  ultimately show ?thesis using projectSetpoint_admitted Some iv by auto
qed

lemma flt_trans: "flt x y \<Longrightarrow> flt y z \<Longrightarrow> flt x z"
  by (cases x; cases y; cases z) (auto simp: flt_def feq_def)

lemma recordBreach_Some: "recordBreach y (Some c) = Some (if flt (br_ShortfallW c) (br_ShortfallW y) then y else c)"
  by (simp add: recordBreach_def)

lemma fold_recordBreach:
  "\<exists>b. fold recordBreach bs (Some c) = Some b \<and> b \<in> set (c # bs) \<and> (b = c \<or> flt (br_ShortfallW c) (br_ShortfallW b)) \<and>
     (\<forall>x \<in> set (c # bs). \<not> flt (br_ShortfallW b) (br_ShortfallW x))"
proof (induction bs arbitrary: c)
  case (Cons y bs)
  let ?k = "if flt (br_ShortfallW c) (br_ShortfallW y) then y else c"
  obtain b where b: "fold recordBreach bs (Some ?k) = Some b" "b \<in> set (?k # bs)"
    "b = ?k \<or> flt (br_ShortfallW ?k) (br_ShortfallW b)"
    "\<forall>x \<in> set (?k # bs). \<not> flt (br_ShortfallW b) (br_ShortfallW x)" using Cons [of ?k] by blast
  have c: "b = c \<or> flt (br_ShortfallW c) (br_ShortfallW b)" using b(3) flt_trans by (auto split: if_splits)
  have "\<not> flt (br_ShortfallW b) (br_ShortfallW c)" using c flt_trans flt_irrefl by blast
  moreover have "\<not> flt (br_ShortfallW b) (br_ShortfallW y)"
    using b(4) c flt_trans by (cases "flt (br_ShortfallW c) (br_ShortfallW y)") auto
  ultimately show ?case using b c by (auto simp: recordBreach_Some split: if_splits)
qed simp

section \<open>Properties\<close>

definition ex_state :: SystemState where
  "ex_state = \<lparr>st_Timestamp = 1, Batteries = [ex_pack (Fin 500) (Fin 15)], Solar = [], EVSEs = [],
     Grid = NewGridState, CSIPControl = None, st_ClockOffset = 0, DailyPlanTarget = None\<rparr>"

definition ex_plant :: Plant where
  "ex_plant = \<lparr>Inverters = Map.empty, plant_Batteries = Map.empty, plant_EVSEs = Map.empty,
     Meter = \<lparr>mp_MeterLagS = Fin 5, mp_FilterAlpha = Fin 1\<rparr>\<rparr>"

text \<open>
  Property C12: a pack that drains its reserve is disconnected. Whatever rules the stack holds and
  whatever happened before, if the battery protection is wired and over as many consecutive ticks
  as the scaled debounce asks for a connected pack measures a discharge of more than 100 W at or
  below the site's reserve, the plan of the last of these ticks commands that pack to 0 W and to
  disconnect, and holds no other command for it.
\<close>

theorem draining_pack_disconnected:
  assumes "i < length cs" and "cs ! i = BatteryGuard (NewBatterySafetyConstraint r)"
    and "\<forall>x \<in> set xs. drains n (site_reserve p) (snd x)"
    and "int (length xs) = ScaleTicks interval batteryReserveDrainTicks"
  shows "shut n (last (snd (run_ticks (before @ xs) (guard_stack plant interval cs st0 p))))"
proof -
  let ?s = "guard_stack plant interval cs st0 p"
  have "counted i n 0 ?s"
    using assms(1,2) by (simp add: counted_def NewBatterySafetyConstraint_def newBatterySafetySession_def)
  then have c: "counted i n 0 (fst (run_ticks before ?s))" by (rule counted_run_0)
  have ne: "xs \<noteq> []" using assms(4) ScaleTicks_ge [of batteryReserveDrainTicks interval]
    by (auto simp: batteryReserveDrainTicks_def)
  have "shut n (last (snd (run_ticks xs (fst (run_ticks before ?s)))))"
    using drains_run [OF c, of xs] assms(3,4) ne by (simp add: run_frame)
  moreover have "snd (run_ticks xs (fst (run_ticks before ?s))) \<noteq> []"
    using ne run_frame(3) [of xs "fst (run_ticks before ?s)"] by auto
  ultimately show ?thesis by (simp add: run_ticks_append)
qed

theorem draining_pack_disconnected_witness:
  "shut ''b1'' (last (snd (run_ticks ([] @ replicate 3 (1, ex_state))
     (guard_stack ex_plant 0 [BatteryGuard (NewBatterySafetyConstraint (Fin 20)) :: unit Constraint] () (Fin 20)))))"
  by (rule draining_pack_disconnected [where i = 0 and r = "Fin 20"])
    (simp_all add: drains_def ex_state_def ex_pack_def NewBatteryState_def over_def exportComplianceBreachW_def
      ScaleTicks_def batteryReserveDrainTicks_def site_reserve_def flt_def feq_def)

text \<open>
  Every battery setpoint of a plan lies inside the interval arbitrated for the pack
  this tick (or commands nothing), unless it is the protection's disconnect to 0 W; and no plan
  commands one pack twice.
\<close>

theorem setpoints_within_bounds:
  "distinct (map bc_Name (BatteryCommands (snd (Optimize t state s)))) \<and>
   list_all (\<lambda>c. disconnects c \<or> is_nan (bc_SetpointW c) \<or>
     (\<exists>iv. Bound (resolve_device (tick_demands state s) (bc_Name c)) AxisBatterySetpointW = Some iv \<and>
        admits iv (bc_SetpointW c))) (BatteryCommands (snd (Optimize t state s)))"
proof -
  have "disconnects c \<or> is_nan (bc_SetpointW c) \<or>
     (\<exists>iv. Bound (resolve_device (tick_demands state s) (bc_Name c)) AxisBatterySetpointW = Some iv \<and>
        admits iv (bc_SetpointW c))"
    if m: "c \<in> set (BatteryCommands (snd (Optimize t state s)))" for c
  proof -
    obtain d where d: "c = stamp (CSIPControl state) d" "d \<in> set (fst (snd (tick_post state s)))"
      using m unfolding Optimize_commands by auto
    have "d \<in> set (arbitrated state s) \<or> disconnects d"
      using post_pass_others [of d] d(2) unfolding tick_post_def by fastforce
    then show ?thesis
    proof
      assume "d \<in> set (arbitrated state s)"
      then obtain n where n: "d \<in> set (battery_command (resolve_device (tick_demands state s) n) n)"
        by (auto simp: arbitrated_def Resolve_def)
      then show ?thesis using arbitrated_setpoint [OF n] battery_command_name [OF n] d(1) by auto
    qed (use d(1) in simp)
  qed
  then show ?thesis using Optimize_distinct by (auto simp: list_all_iff)
qed

text \<open>
  The plan reports the worst breach. When any constraint reports a breach this tick,
  the plan carries one of the reported ones, and no reported breach has a greater shortfall.
\<close>

theorem worst_breach_reported:
  "case Breach (snd (Optimize t state s)) of
     None \<Rightarrow> snd (snd (tick_pass state s)) = []
   | Some b \<Rightarrow> b \<in> set (snd (snd (tick_pass state s))) \<and>
       list_all (\<lambda>x. \<not> flt (br_ShortfallW b) (br_ShortfallW x)) (snd (snd (tick_pass state s)))"
proof (cases "snd (snd (tick_pass state s))")
  case (Cons c bs)
  obtain b where "fold recordBreach bs (Some c) = Some b" "b \<in> set (c # bs)"
    "\<forall>x \<in> set (c # bs). \<not> flt (br_ShortfallW b) (br_ShortfallW x)" using fold_recordBreach by blast
  then show ?thesis using Cons by (simp add: Optimize_fields recordBreach_def list_all_iff)
qed (simp add: Optimize_fields)

section \<open>The fast reflex\<close>

lemma tier_fold_single: "fold (tier_step dev ax) [(t, g)] None = Some (intersectSameTier dev ax g)"
  by (simp add: tier_step_def Let_def)

lemma resolve_replicate:
  assumes "dem_Min x = Fin 0" and "dem_Max x = Fin 0"
  shows "acc_lo (resolve_tiers dev ax (replicate (Suc k) x)) = Fin 0 \<and>
    acc_hi (resolve_tiers dev ax (replicate (Suc k) x)) = Fin 0"
proof -
  have s: "sortDemands (replicate (Suc k) x) = replicate (Suc k) x"
    unfolding sortDemands_def by (rule sort_key_id_if_sorted) (simp only: map_replicate sorted_replicate)
  have g: "groupByTier (replicate (Suc k) x) = [(dem_Tier x, replicate (Suc k) x)]" by (induction k) simp_all
  have b: "lower x = Fin 0" "upper x = Fin 0" using assms by (simp_all add: lower_def upper_def)
  have st: "acc_lo a = Fin 0 \<and> acc_hi a = Fin 0 \<Longrightarrow>
      acc_lo (fold (intersect_step dev ax) (replicate j x) a) = Fin 0 \<and>
      acc_hi (fold (intersect_step dev ax) (replicate j x) a) = Fin 0" for j a
    by (induction j arbitrary: a) (simp_all add: intersect_step_def Let_def b)
  have "acc_lo (intersectSameTier dev ax (replicate (Suc k) x)) = Fin 0 \<and>
      acc_hi (intersectSameTier dev ax (replicate (Suc k) x)) = Fin 0"
    unfolding intersectSameTier_def replicate_Suc fold_simps
    by (rule st) (simp add: intersect_step_def Let_def b)
  then show ?thesis unfolding resolve_tiers_def s g tier_fold_single by simp
qed

definition shut_demands :: "string list \<Rightarrow> Demand list" where
  "shut_demands ns = concat (map disconnectDemands ns)"

lemma shut_demands_axis:
  "axis_demands (shut_demands ns) n AxisBatterySetpointW =
     replicate (length (filter (\<lambda>m. m = n) ns)) (PointDemand n AxisBatterySetpointW (Fin 0) TierSafety bsc_Name)"
  "axis_demands (shut_demands ns) n AxisSolarCeilingW = []"
  "axis_demands (shut_demands ns) n AxisEVSECurrentA = []"
  by (induction ns)
    (auto simp: shut_demands_def disconnectDemands_def axis_demands_def PointDemand_def ConnectDemand_def)

lemma shut_demands_wants: "wants False (shut_demands ns) n = (n \<in> set ns)"
  by (induction ns) (auto simp: shut_demands_def wants_def disconnectDemands_def PointDemand_def ConnectDemand_def)

lemma shut_demands_device:
  assumes "n \<in> set ns"
  shows "battery_command (resolve_device (shut_demands ns) n) n =
      [\<lparr>bc_Name = n, bc_SetpointW = Fin 0, bc_Connect = Some False, bc_MRID = ''''\<rparr>]"
    and "solar_command (resolve_device (shut_demands ns) n) n = []"
    and "evse_command (resolve_device (shut_demands ns) n) n = []"
proof -
  obtain k where k: "length (filter (\<lambda>m. m = n) ns) = Suc k"
    using assms by (cases "length (filter (\<lambda>m. m = n) ns)") (auto simp: filter_empty_conv)
  define x where "x = PointDemand n AxisBatterySetpointW (Fin 0) TierSafety bsc_Name"
  have r: "acc_lo (resolve_tiers n AxisBatterySetpointW (replicate (Suc k) x)) = Fin 0 \<and>
      acc_hi (resolve_tiers n AxisBatterySetpointW (replicate (Suc k) x)) = Fin 0"
    by (rule resolve_replicate) (simp_all add: x_def PointDemand_def)
  have b: "Bound (resolve_device (shut_demands ns) n) AxisBatterySetpointW = Some \<lparr>iv_Min = Fin 0, iv_Max = Fin 0\<rparr>"
    using r by (simp add: resolve_device_fields shut_demands_axis k x_def [symmetric] resolveInterval_def Let_def
        infToNaN_def del: replicate_Suc)
  have s: "Bound (resolve_device (shut_demands ns) n) AxisSolarCeilingW = None"
    "Bound (resolve_device (shut_demands ns) n) AxisEVSECurrentA = None"
    by (simp_all add: resolve_device_fields shut_demands_axis)
  show "battery_command (resolve_device (shut_demands ns) n) n =
      [\<lparr>bc_Name = n, bc_SetpointW = Fin 0, bc_Connect = Some False, bc_MRID = ''''\<rparr>]"
    using assms by (simp add: battery_command_def b projectSetpoint_def resolved_connect shut_demands_wants feq_def)
  show "solar_command (resolve_device (shut_demands ns) n) n = []"
    "evse_command (resolve_device (shut_demands ns) n) n = []"
    by (simp_all add: solar_command_def evse_command_def s)
qed

lemma shut_demands_order: "set (deviceOrder (shut_demands ns)) = set ns"
  by (induction ns) (auto simp: deviceOrder_def shut_demands_def disconnectDemands_def PointDemand_def ConnectDemand_def)

text \<open>The packs some wired protection sees inverted: charge commanded last, discharging near the reserve.\<close>

definition inverted_packs :: "SystemState \<Rightarrow> 's Constraint list \<Rightarrow> string list" where
  "inverted_packs state cs =
     concat (map (\<lambda>c. case c of Rule _ _ \<Rightarrow> []
       | BatteryGuard g \<Rightarrow> map bs_Name (filter (\<lambda>b. bs_Connected b \<and>
            criticalBatteryInversion (bs_PowerW b) (bs_SOC b) (bsc_socReserve g)
              (chargeCommanded (bsc_sess g) (bs_Name b))) (Batteries state))) cs)"

lemma concat_if: "concat (map (\<lambda>b. if P b then f b else []) xs) = concat (map f (filter P xs))"
  by (induction xs) simp_all

lemma fast_demands_shut: "fast_demands state cs = shut_demands (inverted_packs state cs)"
proof -
  have "EvaluateFast state g = shut_demands (map bs_Name (filter (\<lambda>b. bs_Connected b \<and>
      criticalBatteryInversion (bs_PowerW b) (bs_SOC b) (bsc_socReserve g)
        (chargeCommanded (bsc_sess g) (bs_Name b))) (Batteries state)))" for g
    unfolding EvaluateFast_def shut_demands_def by (simp add: concat_if comp_def)
  moreover have "shut_demands (xs @ ys) = shut_demands xs @ shut_demands ys" for xs ys by (simp add: shut_demands_def)
  moreover have "shut_demands [] = []" by (simp add: shut_demands_def)
  ultimately show ?thesis
    unfolding fast_demands_def inverted_packs_def by (induction cs) (auto split: Constraint.split)
qed

text \<open>
  The fast protection loop. Its plan is marked as a safety plan, commands no solar
  inverter and no charger, and commands to 0 W and disconnect exactly the connected packs that
  measure a discharge of more than 100 W within five points of the reserve although their last
  recorded command was a charge; each once.
\<close>

theorem fast_reflex:
  "Safety (EvaluateSafety clock state s) \<and> SolarCommands (EvaluateSafety clock state s) = [] \<and>
   EVSECommands (EvaluateSafety clock state s) = [] \<and>
   BatteryCommands (EvaluateSafety clock state s) =
     map (\<lambda>n. \<lparr>bc_Name = n, bc_SetpointW = Fin 0, bc_Connect = Some False, bc_MRID = ''''\<rparr>)
       (sort (remdups (inverted_packs state (constraints s))))"
proof -
  let ?ns = "inverted_packs state (constraints s)"
  have o: "deviceOrder (shut_demands ?ns) = sort (remdups ?ns)"
    by (rule sorted_distinct_set_unique) (use shut_demands_order [of ?ns] in \<open>simp_all add: deviceOrder_def\<close>)
  have b: "concat (map (\<lambda>n. battery_command (resolve_device (shut_demands ?ns) n) n) ms) =
      map (\<lambda>n. \<lparr>bc_Name = n, bc_SetpointW = Fin 0, bc_Connect = Some False, bc_MRID = ''''\<rparr>) ms \<and>
    concat (map (\<lambda>n. solar_command (resolve_device (shut_demands ?ns) n) n) ms) = [] \<and>
    concat (map (\<lambda>n. evse_command (resolve_device (shut_demands ?ns) n) n) ms) = []" if "set ms \<subseteq> set ?ns" for ms
    using that by (induction ms) (simp_all add: shut_demands_device)
  have "set (sort (remdups ?ns)) \<subseteq> set ?ns" by simp
  note b [OF this]
  then show ?thesis
    by (simp add: EvaluateSafety_def emit_fold fast_demands_shut Resolve_def o comp_def empty_plan_def)
qed

end
