(* ===== verification/GenLimit.thy ===== *)
theory GenLimit
  imports ConstraintStack
begin

text \<open>
  internal/orchestrator/constraint/genlimit.go and genlimit_session.go: the generation cap as a
  rule of the stack. The ceiling is re-derived from the cap every tick; the session carries the cap
  it was reset for and the leaky count of ticks over it.
\<close>

section \<open>The active cap\<close>

definition apW :: "ActivePower \<Rightarrow> f64" where
  "apW ap = fmul (fl (of_int (ap_Value ap))) (pow10 (ap_Multiplier ap))"

definition nanMin :: "f64 \<Rightarrow> f64 \<Rightarrow> f64" where
  "nanMin a b = (if is_nan a then b else if is_nan b then a else fmin a b)"

definition effectiveGenLimitW :: "SystemState \<Rightarrow> f64" where
  "effectiveGenLimitW st =
     (case CSIPControl st of
        None \<Rightarrow> MaxLimitW (Grid st)
      | Some c \<Rightarrow> (case OpModMaxLimW (cc_Base c) of
                    None \<Rightarrow> MaxLimitW (Grid st)
                  | Some ap \<Rightarrow> nanMin (MaxLimitW (Grid st)) (apW ap)))"

record GenSession =
  activeLimitW :: f64
  overCount :: int

definition newGenSession :: GenSession where
  "newGenSession = \<lparr>activeLimitW = NaN, overCount = 0\<rparr>"

definition clearForNoLimit :: "GenSession \<Rightarrow> GenSession" where
  "clearForNoLimit s = s\<lparr>activeLimitW := NaN, overCount := 0\<rparr>"

definition resetForNewLimit :: "f64 \<Rightarrow> GenSession \<Rightarrow> GenSession" where
  "resetForNewLimit limitW s = s\<lparr>activeLimitW := limitW, overCount := 0\<rparr>"

definition gen_Name :: string where "gen_Name = ''gen''"

section \<open>Ceilings\<close>

definition gen_nameplate :: "SystemState \<Rightarrow> f64" where
  "gen_nameplate st = fold (\<lambda>s t. if ss_Connected s then fadd t (ss_MaxW s) else t) (Solar st) (Fin 0)"

definition applyGenControl :: "SystemState \<Rightarrow> f64 \<Rightarrow> Demand list" where
  "applyGenControl st genLimitW =
     (let total = gen_nameplate st in
      if fle total (Fin 0) then []
      else map (\<lambda>s. CeilingDemand (ss_Name s) AxisSolarCeilingW (fmul genLimitW (fdiv (ss_MaxW s) total))
                      TierCompliance gen_Name)
             (filter ss_Connected (Solar st)))"

section \<open>Convergence\<close>

definition reported_generation :: "SystemState \<Rightarrow> f64" where
  "reported_generation st =
     fold (\<lambda>s t. if ss_Connected s \<and> flt (Fin 0) (ss_PowerW s) then fadd t (ss_PowerW s) else t) (Solar st) (Fin 0)"

definition battery_discharge :: "SystemState \<Rightarrow> f64" where
  "battery_discharge st =
     fold (\<lambda>b t. if bs_Connected b \<and> flt (Fin 0) (bs_PowerW b) then fadd t (bs_PowerW b) else t) (Batteries st) (Fin 0)"

definition measuredGenW :: "SystemState \<Rightarrow> f64" where
  "measuredGenW st =
     (let m = reported_generation st in
      if is_nan (NetW (Grid st)) then m
      else let floor_w = fsub (fmax (Fin 0) (fneg (NetW (Grid st)))) (battery_discharge st)
           in if flt m floor_w then floor_w else m)"

definition detectionWindowTicks :: "(f64 \<Rightarrow> int) \<Rightarrow> Input \<Rightarrow> int" where
  "detectionWindowTicks wide inp =
     (let w = fold (\<lambda>s w. if \<not> ss_Connected s then w
                          else let n = ExportDetectionWindowTicks wide (in_Plant inp) (ss_Name s) (in_TickSeconds inp)
                               in if w < n then n else w) (Solar (in_State inp)) 0
      in if w = 0 then DetectionWindowTicks wide (Fin 0) (mp_MeterLagS (Meter (in_Plant inp))) (in_TickSeconds inp) else w)"

definition gen_track :: "f64 \<Rightarrow> GenSession \<Rightarrow> GenSession" where
  "gen_track limitW s =
     (if is_nan (activeLimitW s) \<or> flt exportComplianceBreachW (fabs (fsub limitW (activeLimitW s)))
      then resetForNewLimit limitW s else s\<lparr>activeLimitW := limitW\<rparr>)"

definition gen_over :: "f64 \<Rightarrow> SystemState \<Rightarrow> bool" where
  "gen_over limitW st \<longleftrightarrow> flt (fadd limitW exportComplianceBreachW) (measuredGenW st)"

definition gen_count :: "int \<Rightarrow> bool \<Rightarrow> GenSession \<Rightarrow> GenSession" where
  "gen_count threshold ov s =
     (if ov then (if overCount s < threshold then s\<lparr>overCount := overCount s + 1\<rparr> else s)
      else if 0 < overCount s then s\<lparr>overCount := overCount s - 1\<rparr> else s)"

definition checkConvergence :: "(f64 \<Rightarrow> int) \<Rightarrow> Input \<Rightarrow> f64 \<Rightarrow> GenSession \<Rightarrow> GenSession \<times> ComplianceBreach option" where
  "checkConvergence wide inp limitW s =
     (let st = in_State inp; threshold = detectionWindowTicks wide inp;
          s' = gen_count threshold (gen_over limitW st) (gen_track limitW s)
      in (s', if threshold \<le> overCount s'
              then Some \<lparr>br_MRID = '''', br_LimitType = ''generation'', br_LimitW = limitW,
                         br_MeasuredW = measuredGenW st, br_ShortfallW = fsub (measuredGenW st) limitW,
                         br_Reason = ''inverter output remains above the generation cap after curtailment was commanded'' @
                           '' -- the device is not honouring the command''\<rparr>
              else None))"

definition gen_Evaluate ::
  "(f64 \<Rightarrow> int) \<Rightarrow> Input \<Rightarrow> Session \<Rightarrow> GenSession \<Rightarrow> GenSession \<times> Demand list \<times> ComplianceBreach option" where
  "gen_Evaluate wide inp _ s =
     (let st = in_State inp; limitW = effectiveGenLimitW st in
      if is_nan limitW then (clearForNoLimit s, [], None)
      else let (s', breach) = checkConvergence wide inp limitW s
           in (s', applyGenControl st limitW,
               case breach of None \<Rightarrow> None
               | Some b \<Rightarrow> Some (case CSIPControl st of None \<Rightarrow> b | Some c \<Rightarrow> b\<lparr>br_MRID := cc_MRID c\<rparr>)))"

section \<open>Runs of the rule\<close>

text \<open>One tick: the session and whether a breach was reported.\<close>

definition gen_tick :: "(f64 \<Rightarrow> int) \<Rightarrow> Session \<Rightarrow> Input \<Rightarrow> GenSession \<Rightarrow> GenSession \<times> ComplianceBreach option" where
  "gen_tick wide sess inp s = (let (s', _, b) = gen_Evaluate wide inp sess s in (s', b))"

fun gen_run :: "(f64 \<Rightarrow> int) \<Rightarrow> Session \<Rightarrow> Input list \<Rightarrow> GenSession \<Rightarrow> GenSession \<times> ComplianceBreach option list" where
  "gen_run wide sess [] s = (s, [])"
| "gen_run wide sess (x # xs) s =
     (let (s', b) = gen_tick wide sess x s; (s'', bs) = gen_run wide sess xs s' in (s'', b # bs))"

lemma DetectionWindowTicks_ge: "2 \<le> DetectionWindowTicks wide a b c"
  by (simp add: DetectionWindowTicks_def Let_def)

lemma detectionWindowTicks_ge: "2 \<le> detectionWindowTicks wide inp"
proof -
  have "w = 0 \<or> 2 \<le> w \<Longrightarrow> fold (\<lambda>s w. if \<not> ss_Connected s then w
        else let n = ExportDetectionWindowTicks wide p (ss_Name s) t in if w < n then n else w) xs w = 0 \<or>
      2 \<le> fold (\<lambda>s w. if \<not> ss_Connected s then w
        else let n = ExportDetectionWindowTicks wide p (ss_Name s) t in if w < n then n else w) xs w" for w p t xs
  proof (induction xs arbitrary: w)
    case (Cons x xs)
    have "2 \<le> ExportDetectionWindowTicks wide p (ss_Name x) t"
      by (simp add: ExportDetectionWindowTicks_def DetectionWindowTicks_ge)
    then show ?case using Cons by (simp add: Let_def)
  qed simp
  from this [of 0] show ?thesis
    by (auto simp: detectionWindowTicks_def Let_def DetectionWindowTicks_ge)
qed

definition gen_capped :: "f64 \<Rightarrow> Input \<Rightarrow> bool" where
  "gen_capped limitW inp \<longleftrightarrow> effectiveGenLimitW (in_State inp) = limitW"

lemma gen_tick_fields:
  assumes "effectiveGenLimitW (in_State inp) = limitW" and "\<not> is_nan limitW"
  shows "fst (gen_tick wide sess inp s) =
      gen_count (detectionWindowTicks wide inp) (gen_over limitW (in_State inp)) (gen_track limitW s)"
    and "(snd (gen_tick wide sess inp s) = None) \<longleftrightarrow>
      overCount (gen_count (detectionWindowTicks wide inp) (gen_over limitW (in_State inp)) (gen_track limitW s))
        < detectionWindowTicks wide inp"
  using assms
  by (auto simp: gen_tick_def gen_Evaluate_def checkConvergence_def Let_def split: option.split)

lemma gen_tick_cleared:
  "is_nan (effectiveGenLimitW (in_State inp)) \<Longrightarrow> gen_tick wide sess inp s = (clearForNoLimit s, None)"
  by (simp add: gen_tick_def gen_Evaluate_def Let_def)

lemma gen_track_fields:
  "activeLimitW (gen_track l s) = l" "overCount (gen_track l s) = 0 \<or> overCount (gen_track l s) = overCount s"
  by (simp_all add: gen_track_def resetForNewLimit_def)

lemma gen_track_same: "\<not> nan_or_inf l \<Longrightarrow> activeLimitW s = l \<Longrightarrow> overCount (gen_track l s) = overCount s"
  by (cases l) (auto simp: gen_track_def exportComplianceBreachW_def flt_def)

lemma gen_count_fields [simp]: "activeLimitW (gen_count k ov s) = activeLimitW s"
  by (simp add: gen_count_def)

lemma gen_count_range: "0 \<le> overCount s \<Longrightarrow> 0 < k \<Longrightarrow> 0 \<le> overCount (gen_count k ov s)"
  by (simp add: gen_count_def)

text \<open>A tick that reports a breach saw the generation over the cap, as long as the count is at
  most the window.\<close>

lemma gen_tick_sound:
  assumes "0 \<le> overCount s" and "overCount s \<le> detectionWindowTicks wide inp"
  shows "0 \<le> overCount (fst (gen_tick wide sess inp s)) \<and>
    overCount (fst (gen_tick wide sess inp s)) \<le> detectionWindowTicks wide inp \<and>
    (snd (gen_tick wide sess inp s) = None \<or> gen_over (effectiveGenLimitW (in_State inp)) (in_State inp))"
proof (cases "is_nan (effectiveGenLimitW (in_State inp))")
  case True
  then show ?thesis using detectionWindowTicks_ge [of wide inp]
    by (simp add: gen_tick_cleared clearForNoLimit_def)
next
  case False
  let ?l = "effectiveGenLimitW (in_State inp)" and ?k = "detectionWindowTicks wide inp"
  have t: "0 \<le> overCount (gen_track ?l s)" "overCount (gen_track ?l s) \<le> ?k"
    using gen_track_fields(2) [of ?l s] assms detectionWindowTicks_ge [of wide inp] by auto
  show ?thesis using gen_tick_fields [OF refl False, of wide sess s] t detectionWindowTicks_ge [of wide inp]
    by (auto simp: gen_count_def)
qed

lemma gen_run_sound:
  assumes "\<forall>x \<in> set xs. detectionWindowTicks wide x = k" and "0 \<le> overCount s" and "overCount s \<le> k"
    and "j < length xs" and "snd (gen_run wide sess xs s) ! j \<noteq> None"
  shows "gen_over (effectiveGenLimitW (in_State (xs ! j))) (in_State (xs ! j))"
  using assms
proof (induction xs arbitrary: s j)
  case (Cons x xs)
  note t = gen_tick_sound [of s wide x sess]
  show ?case
  proof (cases j)
    case 0
    then show ?thesis using Cons.prems t by (auto simp: case_prod_unfold Let_def)
  next
    case (Suc i)
    then show ?thesis using Cons.IH [of "fst (gen_tick wide sess x s)" i] Cons.prems t
      by (simp add: case_prod_unfold Let_def)
  qed
qed simp

text \<open>Over the cap on every tick, the count climbs to the window and stays.\<close>

definition holds_over :: "f64 \<Rightarrow> Input \<Rightarrow> bool" where
  "holds_over limitW inp \<longleftrightarrow> effectiveGenLimitW (in_State inp) = limitW \<and> gen_over limitW (in_State inp)"

lemma gen_tick_over:
  assumes "holds_over limitW x" and "\<not> nan_or_inf limitW" and "activeLimitW s = limitW"
    and "0 \<le> overCount s"
  shows "activeLimitW (fst (gen_tick wide sess x s)) = limitW \<and>
    overCount (fst (gen_tick wide sess x s)) \<ge> min (detectionWindowTicks wide x) (overCount s + 1) \<and>
    (snd (gen_tick wide sess x s) = None \<longrightarrow> overCount s + 1 < detectionWindowTicks wide x)"
proof -
  have n: "\<not> is_nan limitW" using assms(2) by (simp add: nan_or_inf_def)
  have e: "effectiveGenLimitW (in_State x) = limitW" and o: "gen_over limitW (in_State x)"
    using assms(1) by (simp_all add: holds_over_def)
  show ?thesis using gen_tick_fields [OF e n, of wide sess s] gen_track_same [OF assms(2,3)]
      gen_track_fields(1) [of limitW s] o by (auto simp: gen_count_def)
qed

lemma gen_run_over:
  assumes "\<not> nan_or_inf limitW" and "\<forall>x \<in> set xs. holds_over limitW x \<and> detectionWindowTicks wide x = k"
    and "activeLimitW s = limitW" and "0 \<le> overCount s" and "xs \<noteq> []" and "k \<le> overCount s + int (length xs)"
  shows "last (snd (gen_run wide sess xs s)) \<noteq> None"
  using assms(2-)
proof (induction xs arbitrary: s)
  case (Cons x xs)
  let ?t = "gen_tick wide sess x s"
  have x: "holds_over limitW x" "detectionWindowTicks wide x = k" using Cons.prems(1) by simp_all
  note t = gen_tick_over [OF x(1) assms(1) Cons.prems(2,3), of wide sess]
  have k: "2 \<le> k" using detectionWindowTicks_ge [of wide x] x(2) by simp
  show ?case
  proof (cases "xs = []")
    case True
    then show ?thesis using t x Cons.prems by (auto simp: case_prod_unfold Let_def)
  next
    case False
    have "last (snd (gen_run wide sess xs (fst ?t))) \<noteq> None"
      using Cons.IH [of "fst ?t"] Cons.prems t x k False by auto
    moreover have "snd (gen_run wide sess xs (fst ?t)) \<noteq> []"
      using False by (cases xs) (auto simp: case_prod_unfold Let_def)
    ultimately show ?thesis by (simp add: case_prod_unfold Let_def)
  qed
qed simp

lemma gen_run_append:
  "gen_run wide sess (xs @ ys) s =
     (fst (gen_run wide sess ys (fst (gen_run wide sess xs s))),
      snd (gen_run wide sess xs s) @ snd (gen_run wide sess ys (fst (gen_run wide sess xs s))))"
  by (induction xs arbitrary: s) (simp_all add: case_prod_unfold Let_def)

lemma gen_run_nonneg: "0 \<le> overCount s \<Longrightarrow> 0 \<le> overCount (fst (gen_run wide sess xs s))"
proof (induction xs arbitrary: s)
  case (Cons x xs)
  have "0 \<le> overCount (fst (gen_tick wide sess x s))"
  proof (cases "is_nan (effectiveGenLimitW (in_State x))")
    case True
    then show ?thesis by (simp add: gen_tick_cleared clearForNoLimit_def)
  next
    case False
    show ?thesis using gen_tick_fields(1) [OF refl False, of wide sess s] gen_track_fields(2) [of "effectiveGenLimitW (in_State x)" s] Cons.prems
      by (auto simp: gen_count_def)
  qed
  then show ?case using Cons.IH by (simp add: case_prod_unfold Let_def)
qed simp

section \<open>Properties\<close>

text \<open>
  A generation cap that is not honoured is reported. Whatever happened before, if over
  as many consecutive ticks as the detection window is long the same finite cap is active and the
  measured generation stays more than 100 W above it, the last of these ticks reports a breach.
\<close>

theorem gen_breach_detected:
  assumes "\<not> nan_or_inf limitW" and "\<forall>x \<in> set xs. holds_over limitW x \<and> detectionWindowTicks wide x = k"
    and "int (length xs) = k" and "xs \<noteq> []"
  shows "last (snd (gen_run wide sess (before @ xs) newGenSession)) \<noteq> None"
proof -
  obtain x ys where xs: "xs = x # ys" using assms(4) by (cases xs) auto
  let ?s = "fst (gen_run wide sess before newGenSession)" and ?t = "gen_tick wide sess x"
  have s: "0 \<le> overCount ?s" by (rule gen_run_nonneg) (simp add: newGenSession_def)
  have n: "\<not> is_nan limitW" using assms(1) by (simp add: nan_or_inf_def)
  have x: "holds_over limitW x" "detectionWindowTicks wide x = k" using assms(2) xs by simp_all
  have k: "2 \<le> k" using detectionWindowTicks_ge [of wide x] x(2) by simp
  then have ys: "ys \<noteq> []" using assms(3) xs by auto
  have e: "effectiveGenLimitW (in_State x) = limitW" "gen_over limitW (in_State x)"
    using x(1) by (simp_all add: holds_over_def)
  have a: "activeLimitW (fst (?t ?s)) = limitW" "1 \<le> overCount (fst (?t ?s))"
    using gen_tick_fields(1) [OF e(1) n, of wide sess ?s] gen_track_fields [of limitW ?s] e(2) s k x(2)
    by (auto simp: gen_count_def)
  have "last (snd (gen_run wide sess ys (fst (?t ?s)))) \<noteq> None"
    by (rule gen_run_over [OF assms(1) _ a(1) _ ys, where k = k]) (use assms(2,3) xs a(2) in auto)
  moreover have "snd (gen_run wide sess ys (fst (?t ?s))) \<noteq> []"
    using ys by (cases ys) (auto simp: case_prod_unfold Let_def)
  ultimately show ?thesis by (simp add: gen_run_append xs case_prod_unfold Let_def)
qed

definition ex_inv :: "string \<Rightarrow> f64 \<Rightarrow> bool \<Rightarrow> SolarState" where
  "ex_inv n p c = \<lparr>ss_Name = n, ss_PowerW = p, ss_MaxW = Fin 5000, ss_Connected = c, ss_Energized = c\<rparr>"

definition ex_sites :: "SolarState list \<Rightarrow> Input" where
  "ex_sites sols =
     \<lparr>in_State = ex_state\<lparr>Solar := sols, Batteries := [], Grid := NewGridState\<lparr>MaxLimitW := Fin 1000\<rparr>\<rparr>,
      in_Plant = ex_plant\<lparr>Inverters := [''slow'' \<mapsto> \<lparr>MaxRampDownWPerS = Fin 500, MaxRampUpWPerS = Fin 100, ip_ControlLatencyS = Fin 10\<rparr>,
        ''fast'' \<mapsto> \<lparr>MaxRampDownWPerS = Fin 500, MaxRampUpWPerS = Fin 100, ip_ControlLatencyS = Fin 4\<rparr>]\<rparr>,
      in_TickSeconds = Fin 3, DischargeBlocked = None\<rparr>"

definition ex_slow :: Input where "ex_slow = ex_sites [ex_inv ''slow'' (Fin 3000) True]"
definition ex_fast :: Input where "ex_fast = ex_sites [ex_inv ''slow'' (Fin 0) False, ex_inv ''fast'' (Fin 400) True]"

lemma ex_windows: "detectionWindowTicks wide ex_slow = 5" "detectionWindowTicks wide ex_fast = 3"
  by (simp_all add: detectionWindowTicks_def ex_slow_def ex_fast_def ex_sites_def ex_inv_def ex_plant_def
      ExportDetectionWindowTicks_def DetectionWindowTicks_def Let_def fceil_def go_int_def in_int64_def)

lemma ex_over:
  "effectiveGenLimitW (in_State ex_slow) = Fin 1000" "effectiveGenLimitW (in_State ex_fast) = Fin 1000"
  "gen_over (Fin 1000) (in_State ex_slow)" "\<not> gen_over (Fin 1000) (in_State ex_fast)"
  by (simp_all add: effectiveGenLimitW_def ex_slow_def ex_fast_def ex_sites_def ex_state_def gen_over_def
      measuredGenW_def reported_generation_def ex_inv_def NewGridState_def exportComplianceBreachW_def flt_def feq_def)

lemma ex_runs:
  "effectiveGenLimitW (in_State ex_slow) = Fin 1000" "holds_over (Fin 1000) ex_slow"
  using ex_over by (simp_all add: holds_over_def)

theorem gen_breach_detected_witness:
  "last (snd (gen_run (\<lambda>_. 0) (NewSession gen_Name 0) ([] @ replicate 5 ex_slow) newGenSession)) \<noteq> None"
  by (rule gen_breach_detected [where limitW = "Fin 1000" and k = 5]) (simp_all add: ex_windows ex_runs)

text \<open>
  No false alarm while the plant is stable. If the detection window is the same on every
  tick, each tick of a run from a fresh session that reports a breach measured a generation more than
  100 W above the cap on that very tick.
\<close>

theorem gen_breach_sound:
  assumes "\<forall>x \<in> set xs. detectionWindowTicks wide x = k" and "j < length xs"
    and "snd (gen_run wide sess xs newGenSession) ! j \<noteq> None"
  shows "gen_over (effectiveGenLimitW (in_State (xs ! j))) (in_State (xs ! j))"
proof -
  have "0 \<le> k" using assms(1,2) detectionWindowTicks_ge [of wide "xs ! j"] nth_mem by fastforce
  then show ?thesis
    by (intro gen_run_sound [OF assms(1) _ _ assms(2,3)]) (simp_all add: newGenSession_def)
qed

text \<open>The run in which a slow inverter is over its cap for five ticks and then disconnects.\<close>

lemma ex_gen_tick:
  "fst (gen_tick wide sess ex_slow s) = gen_count 5 True (gen_track (Fin 1000) s)"
  "fst (gen_tick wide sess ex_fast s) = gen_count 3 False (gen_track (Fin 1000) s)"
  "(snd (gen_tick wide sess ex_slow s) = None) = (overCount (gen_count 5 True (gen_track (Fin 1000) s)) < 5)"
  "(snd (gen_tick wide sess ex_fast s) = None) = (overCount (gen_count 3 False (gen_track (Fin 1000) s)) < 3)"
  using gen_tick_fields [OF ex_over(1), of wide sess s] gen_tick_fields [OF ex_over(2), of wide sess s] ex_over(3,4)
  by (simp_all add: ex_windows)

definition after_ticks :: "nat \<Rightarrow> GenSession" where
  "after_ticks n = \<lparr>activeLimitW = Fin 1000, overCount = int n\<rparr>"

lemma ex_climb:
  "gen_count 5 True (gen_track (Fin 1000) newGenSession) = after_ticks 1"
  "n < 5 \<Longrightarrow> gen_count 5 True (gen_track (Fin 1000) (after_ticks n)) = after_ticks (Suc n)"
  "gen_track (Fin 1000) (after_ticks 5) = after_ticks 5"
  by (simp_all add: gen_count_def gen_track_def newGenSession_def resetForNewLimit_def after_ticks_def
      exportComplianceBreachW_def flt_def)

theorem gen_breach_sound_witness:
  "gen_over (effectiveGenLimitW (in_State (replicate 5 ex_slow ! 4))) (in_State (replicate 5 ex_slow ! 4))"
proof (rule gen_breach_sound [where wide = "\<lambda>_. 0" and k = 5 and sess = "NewSession gen_Name 0"])
  have "replicate 5 ex_slow = [ex_slow, ex_slow, ex_slow, ex_slow, ex_slow]" by (simp add: numeral_eq_Suc)
  then show "snd (gen_run (\<lambda>_. 0) (NewSession gen_Name 0) (replicate 5 ex_slow) newGenSession) ! 4 \<noteq> None"
    by (simp add: case_prod_unfold Let_def ex_gen_tick ex_climb numeral_eq_Suc) (simp add: after_ticks_def)
qed (simp_all add: ex_windows)

text \<open>
  The window is not part of the session, and the count is only capped by the window of
  its own tick. There is a run in which the last tick reports a breach of the cap although the
  generation it measured is below the cap: five ticks over the cap with a slow inverter (window
  five), then one below it after that inverter disconnected (window three).
\<close>

theorem breach_reported_while_compliant:
  "\<exists>xs. last (snd (gen_run (\<lambda>_. 0) (NewSession gen_Name 0) xs newGenSession)) \<noteq> None \<and>
     flt (measuredGenW (in_State (last xs))) (effectiveGenLimitW (in_State (last xs)))"
proof (intro exI conjI)
  let ?xs = "[ex_slow, ex_slow, ex_slow, ex_slow, ex_slow, ex_fast]"
  show "last (snd (gen_run (\<lambda>_. 0) (NewSession gen_Name 0) ?xs newGenSession)) \<noteq> None"
    by (simp add: case_prod_unfold Let_def ex_gen_tick ex_climb numeral_eq_Suc)
      (simp add: after_ticks_def gen_count_def gen_track_def exportComplianceBreachW_def flt_def)
  show "flt (measuredGenW (in_State (last ?xs))) (effectiveGenLimitW (in_State (last ?xs)))"
    by (simp add: ex_over(2)) (simp add: measuredGenW_def ex_fast_def ex_sites_def ex_state_def
        reported_generation_def ex_inv_def NewGridState_def flt_def feq_def)
qed

end
