(* ===== verification/ProvisionFrame.thy ===== *)
theory ProvisionFrame
  imports GoBase
begin

text \<open>
  internal/provision/frame/frame.go: splitting a message into chunks for the radio and putting it
  together again. A byte is \<open>8 word\<close>; the code's offset into the message is the part of the
  message that is left. A reassembly result is an error, nothing yet, or a whole message.
\<close>

section \<open>Chunks\<close>

definition FlagFIN :: byte where "FlagFIN = 1"
definition FlagENC :: byte where "FlagENC = 2"
definition HeaderLength :: nat where "HeaderLength = 2"
definition MaxMessageLength :: nat where "MaxMessageLength = 8 * 1024"

datatype frame_error = ErrPayloadTooSmall | ErrMessageTooLong | ErrShortChunk | ErrSeqGap | ErrEncChanged

definition enc_flags :: "bool \<Rightarrow> byte" where
  "enc_flags encrypted = (if encrypted then FlagENC else 0)"

text \<open>The loop of \<open>Chunk\<close>; it runs at least once, so an empty message gives one chunk.\<close>

function chunk_loop :: "byte \<Rightarrow> nat \<Rightarrow> nat \<Rightarrow> byte list \<Rightarrow> byte list list" where
  "chunk_loop flags n seq rest =
     (if drop n rest = [] \<or> n = 0
      then [[or flags FlagFIN, of_nat seq] @ take n rest]
      else ([flags, of_nat seq] @ take n rest) # chunk_loop flags n (Suc seq) (drop n rest))"
  by pat_completeness auto
termination
  by (relation "measure (\<lambda>(_, _, _, rest). length rest)") auto

declare chunk_loop.simps [simp del]

definition Chunk :: "byte list \<Rightarrow> int \<Rightarrow> bool \<Rightarrow> frame_error + byte list list" where
  "Chunk message attPayloadSize encrypted =
     (let chunkData = wrap64 (attPayloadSize - int HeaderLength) in
      if chunkData < 1 then Inl ErrPayloadTooSmall
      else if MaxMessageLength < length message then Inl ErrMessageTooLong
      else Inr (chunk_loop (enc_flags encrypted) (nat chunkData) 0 message))"

section \<open>Reassembly\<close>

record Reassembler =
  buf :: "byte list"
  expectedSeq :: int
  started :: bool
  encrypted :: bool

definition zero_Reassembler :: Reassembler where
  "zero_Reassembler = \<lparr>buf = [], expectedSeq = 0, started = False, encrypted = False\<rparr>"

definition Encrypted :: "Reassembler \<Rightarrow> bool" where
  "Encrypted r \<longleftrightarrow> started r \<and> encrypted r"

definition has_flag :: "byte \<Rightarrow> byte \<Rightarrow> bool" where
  "has_flag flags f \<longleftrightarrow> and flags f \<noteq> 0"

definition reset :: "Reassembler \<Rightarrow> Reassembler" where
  "reset r = r\<lparr>buf := [], expectedSeq := 0, started := False, encrypted := False\<rparr>"

definition Add :: "byte list \<Rightarrow> Reassembler \<Rightarrow> (frame_error + byte list option) \<times> Reassembler" where
  "Add chunk r =
     (if length chunk < HeaderLength then (Inl ErrShortChunk, r)
      else let flags = chunk ! 0; seq = chunk ! 1; e = has_flag flags FlagENC in
        if seq \<noteq> of_int (expectedSeq r) then (Inl ErrSeqGap, r)
        else if started r \<and> encrypted r \<noteq> e then (Inl ErrEncChanged, r)
        else let r1 = r\<lparr>started := True, encrypted := e, buf := buf r @ drop HeaderLength chunk\<rparr> in
          if MaxMessageLength < length (buf r1) then (Inl ErrMessageTooLong, r1)
          else let r2 = r1\<lparr>expectedSeq := expectedSeq r1 + 1\<rparr> in
            if has_flag flags FlagFIN then (Inr (Some (buf r2)), reset r2) else (Inr None, r2))"

text \<open>Feeding chunks one after another.\<close>

fun feed_chunks :: "byte list list \<Rightarrow> Reassembler \<Rightarrow> (frame_error + byte list option) list \<times> Reassembler" where
  "feed_chunks [] r = ([], r)"
| "feed_chunks (c # cs) r =
     (let (x, r') = Add c r; (xs, r'') = feed_chunks cs r' in (x # xs, r''))"

lemma feed_chunks_append:
  "feed_chunks (xs @ ys) r =
     (fst (feed_chunks xs r) @ fst (feed_chunks ys (snd (feed_chunks xs r))),
      snd (feed_chunks ys (snd (feed_chunks xs r))))"
  by (induction xs arbitrary: r) (simp_all add: case_prod_unfold Let_def)

lemma feed_chunks_length [simp]: "length (fst (feed_chunks cs r)) = length cs"
  by (induction cs arbitrary: r) (simp_all add: case_prod_unfold Let_def)

section \<open>A reassembler in step with the sender\<close>

lemma flags_simps [simp]:
  "has_flag (enc_flags e) FlagENC = e" "\<not> has_flag (enc_flags e) FlagFIN"
  "has_flag (or (enc_flags e) FlagFIN) FlagENC = e" "has_flag (or (enc_flags e) FlagFIN) FlagFIN"
  by (simp_all add: has_flag_def enc_flags_def FlagENC_def FlagFIN_def)

definition in_step :: "bool \<Rightarrow> nat \<Rightarrow> byte list \<Rightarrow> Reassembler \<Rightarrow> bool" where
  "in_step e k got r \<longleftrightarrow> expectedSeq r = int k \<and> buf r = got \<and> (started r \<longrightarrow> encrypted r = e) \<and> (k \<noteq> 0 \<longrightarrow> started r)"

lemma Add_in_step:
  assumes "in_step e k got r" and "length (got @ part) \<le> MaxMessageLength"
  shows "fst (Add ([enc_flags e, of_nat k] @ part) r) = Inr None"
    and "in_step e (Suc k) (got @ part) (snd (Add ([enc_flags e, of_nat k] @ part) r))"
    and "Encrypted (snd (Add ([enc_flags e, of_nat k] @ part) r)) = e"
  using assms by (auto simp: Add_def in_step_def HeaderLength_def Let_def Encrypted_def)

lemma Add_fin:
  assumes "in_step e k got r" and "length (got @ part) \<le> MaxMessageLength"
  shows "Add ([or (enc_flags e) FlagFIN, of_nat k] @ part) r = (Inr (Some (got @ part)), reset r)"
  using assms by (auto simp: Add_def in_step_def HeaderLength_def Let_def reset_def)

lemma feed_loop:
  assumes "0 < n" and "in_step e k got r" and "length (got @ rest) \<le> MaxMessageLength"
  shows "feed_chunks (chunk_loop (enc_flags e) n k rest) r =
    (replicate (length (chunk_loop (enc_flags e) n k rest) - 1) (Inr None) @ [Inr (Some (got @ rest))], zero_Reassembler)"
  using assms(2,3)
proof (induction rest arbitrary: k got r rule: length_induct)
  case (1 rest)
  note l = chunk_loop.simps [of "enc_flags e" n k rest]
  have z: "reset r = zero_Reassembler" by (simp add: reset_def zero_Reassembler_def)
  show ?case
  proof (cases "drop n rest = []")
    case True
    then have "chunk_loop (enc_flags e) n k rest = [[or (enc_flags e) FlagFIN, of_nat k] @ rest]" by (subst l) simp
    then show ?thesis using Add_fin [OF "1.prems"] z by simp
  next
    case False
    let ?c = "[enc_flags e, of_nat k] @ take n rest" and ?cs = "chunk_loop (enc_flags e) n (Suc k) (drop n rest)"
    have c: "chunk_loop (enc_flags e) n k rest = ?c # ?cs" using False assms(1) by (subst l) simp
    have len: "length (got @ take n rest) \<le> MaxMessageLength" using "1.prems"(2) by simp
    note a = Add_in_step [OF "1.prems"(1) len]
    have lt: "length (drop n rest) < length rest" using False assms(1) by simp
    have ne: "?cs \<noteq> []" by (subst chunk_loop.simps) simp
    have "feed_chunks ?cs (snd (Add ?c r)) =
        (replicate (length ?cs - 1) (Inr None) @ [Inr (Some (got @ rest))], zero_Reassembler)"
      using "1.IH" [rule_format, OF lt a(2)] "1.prems"(2) by simp
    then show ?thesis using a(1) ne c by (cases ?cs) (auto simp: case_prod_unfold Let_def)
  qed
qed

lemma zero_in_step: "in_step e 0 [] zero_Reassembler"
  by (simp add: in_step_def zero_Reassembler_def)

lemma Chunk_ok:
  assumes "Chunk m att e = Inr cs"
  shows "cs = chunk_loop (enc_flags e) (nat (wrap64 (att - 2))) 0 m"
    and "0 < nat (wrap64 (att - 2))" and "length m \<le> MaxMessageLength"
  using assms by (auto simp: Chunk_def Let_def HeaderLength_def split: if_splits)

section \<open>Shape of the chunks\<close>

lemma chunk_loop_nonempty [simp]: "chunk_loop f n k rest \<noteq> []"
  by (subst chunk_loop.simps) simp

lemma chunk_loop_nth:
  assumes "i < length (chunk_loop f n k rest)"
  shows "chunk_loop f n k rest ! i =
    [if i = length (chunk_loop f n k rest) - 1 then or f FlagFIN else f, of_nat (k + i)] @ take n (drop (i * n) rest)"
  using assms
proof (induction rest arbitrary: k i rule: length_induct)
  case (1 rest)
  note l = chunk_loop.simps [of f n k rest]
  show ?case
  proof (cases "drop n rest = [] \<or> n = 0")
    case True
    then have "chunk_loop f n k rest = [[or f FlagFIN, of_nat k] @ take n rest]" by (subst l) simp
    then show ?thesis using "1.prems" by simp
  next
    case False
    then have c: "chunk_loop f n k rest = ([f, of_nat k] @ take n rest) # chunk_loop f n (Suc k) (drop n rest)"
      by (subst l) simp
    have lt: "length (drop n rest) < length rest" using False by (cases "length rest") auto
    show ?thesis
    proof (cases i)
      case 0
      then show ?thesis by (simp add: c)
    next
      case (Suc j)
      then have "j < length (chunk_loop f n (Suc k) (drop n rest))" using "1.prems" c by simp
      from "1.IH" [rule_format, OF lt this] show ?thesis using Suc
        by (auto simp: c add.commute)
    qed
  qed
qed

lemma chunk_loop_prefix:
  assumes "0 < n" and "in_step e k got r" and "length (got @ rest) \<le> MaxMessageLength"
    and "i < length (chunk_loop (enc_flags e) n k rest)"
  shows "\<exists>got'. fst (feed_chunks (take i (chunk_loop (enc_flags e) n k rest)) r) = replicate i (Inr None) \<and>
    in_step e (k + i) got' (snd (feed_chunks (take i (chunk_loop (enc_flags e) n k rest)) r))"
  using assms(2-)
proof (induction rest arbitrary: k got r i rule: length_induct)
  case (1 rest)
  note l = chunk_loop.simps [of "enc_flags e" n k rest]
  show ?case
  proof (cases i)
    case 0
    then show ?thesis using "1.prems" by auto
  next
    case (Suc j)
    let ?c = "[enc_flags e, of_nat k] @ take n rest" and ?cs = "chunk_loop (enc_flags e) n (Suc k) (drop n rest)"
    have ne: "drop n rest \<noteq> []"
    proof
      assume "drop n rest = []"
      then have "length (chunk_loop (enc_flags e) n k rest) = 1" by (subst l) simp
      then show False using "1.prems"(3) Suc by simp
    qed
    then have c: "chunk_loop (enc_flags e) n k rest = ?c # ?cs" using assms(1) by (subst l) simp
    have lt: "length (drop n rest) < length rest" using ne assms(1) by (cases "length rest") auto
    have len: "length (got @ take n rest) \<le> MaxMessageLength" "length ((got @ take n rest) @ drop n rest) \<le> MaxMessageLength"
      using "1.prems"(2) by simp_all
    note a = Add_in_step [OF "1.prems"(1) len(1)]
    have j: "j < length ?cs" using "1.prems"(3) Suc c by simp
    show ?thesis using "1.IH" [rule_format, OF lt a(2) len(2) j] a(1) Suc c
      by (auto simp: case_prod_unfold Let_def)
  qed
qed

lemma Add_gap:
  assumes "in_step e k got r" and "of_nat j \<noteq> (of_nat k :: byte)"
  shows "Add ([f, of_nat j] @ part) r = (Inl ErrSeqGap, r)"
  using assms by (simp add: Add_def in_step_def HeaderLength_def Let_def)

lemma of_nat_Suc_neq: "(of_nat (Suc k) :: byte) \<noteq> of_nat k"
  by simp

definition completed :: "(frame_error + byte list option) list \<Rightarrow> byte list list" where
  "completed xs = concat (map (\<lambda>x. case x of Inr (Some m) \<Rightarrow> [m] | _ \<Rightarrow> []) xs)"

lemma completed_simps [simp]:
  "completed [] = []" "completed (xs @ ys) = completed xs @ completed ys"
  "completed (Inr None # xs) = completed xs" "completed (Inl e # xs) = completed xs"
  "completed (Inr (Some m) # xs) = m # completed xs" "completed (replicate k (Inr None)) = []"
  by (simp_all add: completed_def)

section \<open>Properties\<close>

text \<open>
  The framing round trip. Whatever the sizes, flags and number of messages, feeding
  the chunks of one message after another to a fresh reassembler gives exactly the messages, in
  order, without an error, and leaves it ready for the next one.
\<close>

theorem frame_roundtrip:
  assumes "list_all2 (\<lambda>(m, att, e) cs. Chunk m att e = Inr cs) ms css"
  shows "completed (fst (feed_chunks (concat css) zero_Reassembler)) = map fst ms \<and>
    list_all (\<lambda>x. isl x = False) (fst (feed_chunks (concat css) zero_Reassembler)) \<and>
    snd (feed_chunks (concat css) zero_Reassembler) = zero_Reassembler"
  using assms
proof (induction rule: list_all2_induct)
  case (Cons x ms cs css)
  obtain m att e where x: "x = (m, att, e)" by (cases x) auto
  have ok: "Chunk m att e = Inr cs" using Cons.hyps(1) x by simp
  note c = Chunk_ok [OF ok]
  have "feed_chunks cs zero_Reassembler = (replicate (length cs - 1) (Inr None) @ [Inr (Some m)], zero_Reassembler)"
    using feed_loop [OF c(2) zero_in_step [of e], of m] c(1,3) by simp
  then show ?case using Cons.IH x by (auto simp: feed_chunks_append list_all_iff)
qed simp

definition ex_chunks :: "byte list list" where
  "ex_chunks = [[2, 0, 7], [2, 1, 8], [3, 2, 9]]"

lemma ex_Chunk: "Chunk [7, 8, 9] 3 True = Inr ex_chunks"
proof -
  have l: "chunk_loop 2 (Suc 0) k [x] = [[3, of_nat k, x]]" for k x by (subst chunk_loop.simps) (simp add: FlagFIN_def)
  have c: "chunk_loop 2 (Suc 0) k (x # y # zs) = [2, of_nat k, x] # chunk_loop 2 (Suc 0) (Suc k) (y # zs)" for k x y zs
    by (subst chunk_loop.simps) simp
  show ?thesis
    by (simp add: Chunk_def Let_def HeaderLength_def MaxMessageLength_def enc_flags_def FlagENC_def l c ex_chunks_def
        in_int64_def)
qed

theorem frame_roundtrip_witness:
  "completed (fst (feed_chunks (concat [ex_chunks, ex_chunks]) zero_Reassembler)) = [[7, 8, 9], [7, 8, 9]]"
  using frame_roundtrip [of "[([7, 8, 9], 3, True), ([7, 8, 9], 3, True)]" "[ex_chunks, ex_chunks]"] ex_Chunk by simp

text \<open>
  A lost chunk is noticed at once. If any chunk but the last is missing, the chunk
  after it is refused with a sequence gap, and nothing has been delivered by then.
\<close>

theorem lost_chunk_detected:
  assumes "Chunk m att e = Inr cs" and "Suc i < length cs"
  shows "fst (feed_chunks (take i cs @ [cs ! Suc i]) zero_Reassembler) = replicate i (Inr None) @ [Inl ErrSeqGap]"
proof -
  note c = Chunk_ok [OF assms(1)]
  let ?n = "nat (wrap64 (att - 2))"
  obtain got where p: "fst (feed_chunks (take i cs) zero_Reassembler) = replicate i (Inr None)"
    "in_step e (0 + i) got (snd (feed_chunks (take i cs) zero_Reassembler))"
    using chunk_loop_prefix [OF c(2) zero_in_step [of e], of m i] c(1,3) assms(2) by auto
  obtain f part where "cs ! Suc i = [f, of_nat (Suc i)] @ part"
    using chunk_loop_nth [of "Suc i" "enc_flags e" ?n 0 m] c(1) assms(2) by simp
  then have "fst (Add (cs ! Suc i) (snd (feed_chunks (take i cs) zero_Reassembler))) = Inl ErrSeqGap"
    using Add_gap [OF p(2), of "Suc i" f part] by simp
  then show ?thesis using p(1) by (simp add: feed_chunks_append case_prod_unfold Let_def)
qed

theorem lost_chunk_detected_witness:
  "fst (feed_chunks [[2, 0, 7], [3, 2, 9]] zero_Reassembler) = [Inr None, Inl ErrSeqGap]"
  using lost_chunk_detected [OF ex_Chunk, of 1] by (simp add: ex_chunks_def)

text \<open>
  A framing error other than an oversized message does not poison the reassembler. The
  offending chunk is dropped and the state is the one before it, so the correct next chunk continues
  the message.
\<close>

theorem framing_error_keeps_state:
  assumes "Add chunk r = (Inl err, r')" and "err \<noteq> ErrMessageTooLong"
  shows "r' = r"
  using assms by (auto simp: Add_def Let_def split: if_splits)

theorem framing_error_keeps_state_witness:
  "snd (Add [2, 5, 9] zero_Reassembler) = zero_Reassembler"
proof (rule framing_error_keeps_state)
  show "Add [2, 5, 9] zero_Reassembler = (Inl ErrSeqGap, snd (Add [2, 5, 9] zero_Reassembler))"
    by (simp add: Add_def zero_Reassembler_def HeaderLength_def Let_def)
qed simp

end
