(* ===== verification/Sec1.thy ===== *)
theory Sec1
  imports ProvisionFrame
begin

text \<open>
  internal/provision/sec1: the session crypto (session.go) and the constants, wire names and QR
  label of the protocol (protocol.go). The primitives of the standard library (X25519, HKDF-SHA256,
  AES-128-GCM) are a parameter \<open>'p crypto\<close>, \<open>'p\<close> being private keys. The library
  constructs the AEAD from the key, so the code's \<open>key\<close> and \<open>aead\<close> are one option here.
\<close>

section \<open>The primitives\<close>

record 'p crypto =
  cr_public :: "'p \<Rightarrow> byte list"
  cr_valid_public :: "byte list \<Rightarrow> bool"
  cr_ecdh :: "'p \<Rightarrow> byte list \<Rightarrow> byte list option"
  cr_hkdf :: "byte list \<Rightarrow> byte list \<Rightarrow> byte list \<Rightarrow> nat \<Rightarrow> byte list option"
  cr_aead_ok :: "byte list \<Rightarrow> bool"
  cr_seal :: "byte list \<Rightarrow> byte list \<Rightarrow> byte list \<Rightarrow> byte list"
  cr_open :: "byte list \<Rightarrow> byte list \<Rightarrow> byte list \<Rightarrow> byte list option"

definition bytes_of :: "string \<Rightarrow> byte list" where
  "bytes_of s = map (\<lambda>c. of_nat (of_char c)) s"

section \<open>Sessions\<close>

definition HkdfInfo :: string where "HkdfInfo = ''lexa-prov-v1''"
definition KeyLength :: nat where "KeyLength = 16"
definition TagLength :: nat where "TagLength = 16"
definition NonceLength :: nat where "NonceLength = 12"
definition DirectionAppToHub :: byte where "DirectionAppToHub = 1"
definition DirectionHubToApp :: byte where "DirectionHubToApp = 2"

datatype Role = RoleApp | RoleHub

definition sendDirection :: "Role \<Rightarrow> byte" where
  "sendDirection r = (if r = RoleHub then DirectionHubToApp else DirectionAppToHub)"

definition receiveDirection :: "Role \<Rightarrow> byte" where
  "receiveDirection r = (if r = RoleHub then DirectionAppToHub else DirectionHubToApp)"

datatype sec1_error = ErrSessionAborted | ErrNotEstablished | ErrPeerKey | ErrECDH | ErrHKDF | ErrAES

record 'p Session =
  role :: Role
  priv :: 'p
  aead :: "byte list option"
  sendCounter :: "64 word"
  receiveCounter :: "64 word"
  aborted :: bool

definition new_session :: "Role \<Rightarrow> 'p \<Rightarrow> 'p Session" where
  "new_session r p = \<lparr>role = r, priv = p, aead = None, sendCounter = 0, receiveCounter = 0, aborted = False\<rparr>"

definition PublicKey :: "'p crypto \<Rightarrow> 'p Session \<Rightarrow> byte list" where
  "PublicKey cr s = cr_public cr (priv s)"

definition DeriveKey :: "'p crypto \<Rightarrow> byte list \<Rightarrow> string \<Rightarrow> 'p Session \<Rightarrow> sec1_error option \<times> 'p Session" where
  "DeriveKey cr peerPublic pop s =
     (if \<not> cr_valid_public cr peerPublic then (Some ErrPeerKey, s)
      else case cr_ecdh cr (priv s) peerPublic of
        None \<Rightarrow> (Some ErrECDH, s)
      | Some shared \<Rightarrow>
          (case cr_hkdf cr shared (bytes_of pop) (bytes_of HkdfInfo) KeyLength of
             None \<Rightarrow> (Some ErrHKDF, s)
           | Some key \<Rightarrow> if \<not> cr_aead_ok cr key then (Some ErrAES, s) else (None, s\<lparr>aead := Some key\<rparr>)))"

definition IsEstablished :: "'p Session \<Rightarrow> bool" where
  "IsEstablished s \<longleftrightarrow> aead s \<noteq> None"

text \<open>The counter in big-endian order.\<close>

definition put_uint64 :: "64 word \<Rightarrow> byte list" where
  "put_uint64 c = map (\<lambda>k. ucast (drop_bit (8 * k) c)) [7, 6, 5, 4, 3, 2, 1, 0]"

definition NonceFor :: "byte \<Rightarrow> 64 word \<Rightarrow> byte list" where
  "NonceFor direction counter = [direction, 0, 0, 0] @ put_uint64 counter"

definition checkUsable :: "'p Session \<Rightarrow> sec1_error option" where
  "checkUsable s =
     (if aborted s then Some ErrSessionAborted else if aead s = None then Some ErrNotEstablished else None)"

definition Encrypt :: "'p crypto \<Rightarrow> byte list \<Rightarrow> 'p Session \<Rightarrow> (sec1_error + byte list) \<times> 'p Session" where
  "Encrypt cr plaintext s =
     (case checkUsable s of
        Some e \<Rightarrow> (Inl e, s)
      | None \<Rightarrow> (Inr (cr_seal cr (the (aead s)) (NonceFor (sendDirection (role s)) (sendCounter s)) plaintext),
                 s\<lparr>sendCounter := sendCounter s + 1\<rparr>))"

definition Decrypt :: "'p crypto \<Rightarrow> byte list \<Rightarrow> 'p Session \<Rightarrow> (sec1_error + byte list) \<times> 'p Session" where
  "Decrypt cr message s =
     (case checkUsable s of
        Some e \<Rightarrow> (Inl e, s)
      | None \<Rightarrow>
          if length message < TagLength then (Inl ErrSessionAborted, s\<lparr>aborted := True\<rparr>)
          else case cr_open cr (the (aead s)) (NonceFor (receiveDirection (role s)) (receiveCounter s)) message of
                 None \<Rightarrow> (Inl ErrSessionAborted, s\<lparr>aborted := True\<rparr>)
               | Some clear \<Rightarrow> (Inr clear, s\<lparr>receiveCounter := receiveCounter s + 1\<rparr>))"

section \<open>Wire names\<close>

definition UUIDInfo :: string where "UUIDInfo = ''4c455841-0002-4870-b2d7-c36a53c1c9a1''"
definition UUIDSession :: string where "UUIDSession = ''4c455841-0003-4870-b2d7-c36a53c1c9a1''"
definition UUIDWifi :: string where "UUIDWifi = ''4c455841-0004-4870-b2d7-c36a53c1c9a1''"
definition UUIDConfig :: string where "UUIDConfig = ''4c455841-0005-4870-b2d7-c36a53c1c9a1''"
definition UUIDStatus :: string where "UUIDStatus = ''4c455841-0006-4870-b2d7-c36a53c1c9a1''"

datatype ProvisioningState = StateIdle | StateJoining | StateJoined | StateFailed

fun state_Wire :: "ProvisioningState \<Rightarrow> string" where
  "state_Wire StateIdle = ''idle''"
| "state_Wire StateJoining = ''joining''"
| "state_Wire StateJoined = ''joined''"
| "state_Wire StateFailed = ''failed''"

definition ParseProvisioningState :: "string \<Rightarrow> ProvisioningState option" where
  "ParseProvisioningState s =
     (if s = ''idle'' then Some StateIdle else if s = ''joining'' then Some StateJoining
      else if s = ''joined'' then Some StateJoined else if s = ''failed'' then Some StateFailed else None)"

datatype WifiFailureReason = ReasonNotFound | ReasonAuthFailed | ReasonDHCPTimeout | ReasonTimeout | ReasonInternal

fun reason_Wire :: "WifiFailureReason \<Rightarrow> string" where
  "reason_Wire ReasonNotFound = ''not_found''"
| "reason_Wire ReasonAuthFailed = ''auth_failed''"
| "reason_Wire ReasonDHCPTimeout = ''dhcp_timeout''"
| "reason_Wire ReasonTimeout = ''timeout''"
| "reason_Wire ReasonInternal = ''internal''"

definition ParseWifiFailureReason :: "string \<Rightarrow> WifiFailureReason" where
  "ParseWifiFailureReason s =
     (if s = ''not_found'' then ReasonNotFound else if s = ''auth_failed'' then ReasonAuthFailed
      else if s = ''dhcp_timeout'' then ReasonDHCPTimeout else if s = ''timeout'' then ReasonTimeout
      else ReasonInternal)"

lemma wire_roundtrips [simp]:
  "ParseProvisioningState (state_Wire st) = Some st" "ParseWifiFailureReason (reason_Wire r) = r"
  by (cases st; simp add: ParseProvisioningState_def) (cases r; simp add: ParseWifiFailureReason_def)

record HandoffInfo =
  hi_Serial :: string
  hi_IP :: string
  hi_Port :: int
  hi_APICertFP :: string
  hi_Token :: string

section \<open>Counters and nonces\<close>

lemma ucast_bytes:
  fixes c d :: "64 word"
  assumes "\<forall>k \<in> {0, 1, 2, 3, 4, 5, 6, 7}. (ucast (drop_bit (8 * k) c) :: byte) = ucast (drop_bit (8 * k) d)"
  shows "c = d"
proof (rule bit_word_eqI)
  fix i
  assume i: "i < LENGTH(64)"
  define k j where "k = i div 8" and "j = i mod 8"
  then have ij: "i = 8 * k + j" "j < 8" "k < 8" using i by auto
  have "k \<in> {0, 1, 2, 3, 4, 5, 6, 7}" using ij(3) by auto
  then have "(ucast (drop_bit (8 * k) c) :: byte) = ucast (drop_bit (8 * k) d)" by (rule bspec [OF assms])
  then have "bit (ucast (drop_bit (8 * k) c) :: byte) j = bit (ucast (drop_bit (8 * k) d) :: byte) j" by simp
  then show "bit c i = bit d i" using ij by (simp add: bit_ucast_iff bit_drop_bit_eq)
qed

lemma put_uint64_inj: "put_uint64 c = put_uint64 d \<Longrightarrow> c = d"
  by (rule ucast_bytes) (auto simp: put_uint64_def)

lemma NonceFor_inj: "NonceFor a c = NonceFor b d \<longleftrightarrow> a = b \<and> c = d"
  using put_uint64_inj by (auto simp: NonceFor_def)

lemma NonceFor_length [simp]: "length (NonceFor d c) = NonceLength"
  by (simp add: NonceFor_def put_uint64_def NonceLength_def)

lemma of_nat_64_inj: "a < 2 ^ 64 \<Longrightarrow> b < 2 ^ 64 \<Longrightarrow> (of_nat a :: 64 word) = of_nat b \<longleftrightarrow> a = b"
  by (simp add: word_of_nat_eq_iff take_bit_nat_eq_self)

section \<open>A channel\<close>

fun encrypt_all :: "'p crypto \<Rightarrow> byte list list \<Rightarrow> 'p Session \<Rightarrow> (sec1_error + byte list) list \<times> 'p Session" where
  "encrypt_all cr [] s = ([], s)"
| "encrypt_all cr (p # ps) s =
     (let (x, s') = Encrypt cr p s; (xs, s'') = encrypt_all cr ps s' in (x # xs, s''))"

fun decrypt_all :: "'p crypto \<Rightarrow> byte list list \<Rightarrow> 'p Session \<Rightarrow> (sec1_error + byte list) list \<times> 'p Session" where
  "decrypt_all cr [] s = ([], s)"
| "decrypt_all cr (c # cs) s =
     (let (x, s') = Decrypt cr c s; (xs, s'') = decrypt_all cr cs s' in (x # xs, s''))"

fun seals :: "'p crypto \<Rightarrow> byte list \<Rightarrow> byte \<Rightarrow> nat \<Rightarrow> byte list list \<Rightarrow> byte list list" where
  "seals cr k d i [] = []"
| "seals cr k d i (p # ps) = cr_seal cr k (NonceFor d (of_nat i)) p # seals cr k d (Suc i) ps"

lemma encrypt_all_seals:
  assumes "aead s = Some k" and "\<not> aborted s" and "sendCounter s = of_nat i"
  shows "fst (encrypt_all cr ps s) = map Inr (seals cr k (sendDirection (role s)) i ps)"
  using assms
proof (induction ps arbitrary: s i)
  case (Cons p ps)
  let ?s = "s\<lparr>sendCounter := sendCounter s + 1\<rparr>"
  have "fst (encrypt_all cr ps ?s) = map Inr (seals cr k (sendDirection (role ?s)) (Suc i) ps)"
    by (rule Cons.IH) (use Cons.prems in \<open>simp_all add: add.commute\<close>)
  then show ?case using Cons.prems by (simp add: Encrypt_def checkUsable_def case_prod_unfold Let_def)
qed simp

lemma seals_mem: "c \<in> set (seals cr k d i ps) \<Longrightarrow>
    \<exists>j < length ps. c = cr_seal cr k (NonceFor d (of_nat (i + j))) (ps ! j)"
proof (induction ps arbitrary: i)
  case (Cons p ps)
  show ?case
  proof (cases "c = cr_seal cr k (NonceFor d (of_nat i)) p")
    case True
    then show ?thesis by (intro exI [of _ 0]) simp
  next
    case False
    then have "c \<in> set (seals cr k d (Suc i) ps)" using Cons.prems by simp
    from Cons.IH [OF this] obtain j where "j < length ps" "c = cr_seal cr k (NonceFor d (of_nat (Suc i + j))) (ps ! j)"
      by blast
    then show ?thesis by (intro exI [of _ "Suc j"]) simp
  qed
qed simp

text \<open>An AEAD that opens exactly what was sealed under the key and the nonce.\<close>

definition ideal_aead :: "'p crypto \<Rightarrow> byte list \<Rightarrow> bool" where
  "ideal_aead cr k \<longleftrightarrow>
     (\<forall>n p. length n = NonceLength \<longrightarrow>
        cr_open cr k n (cr_seal cr k n p) = Some p \<and> TagLength \<le> length (cr_seal cr k n p)) \<and>
     (\<forall>n n' p. length n = NonceLength \<longrightarrow> length n' = NonceLength \<longrightarrow> n \<noteq> n' \<longrightarrow>
        cr_open cr k n' (cr_seal cr k n p) = None)"

text \<open>How many leading messages are the expected ones.\<close>

fun agree :: "byte list list \<Rightarrow> byte list list \<Rightarrow> nat" where
  "agree (c # cs) (e # es) = (if c = e then Suc (agree cs es) else 0)"
| "agree _ _ = 0"

lemma aborted_all: "aborted s \<Longrightarrow> fst (decrypt_all cr cs s) = replicate (length cs) (Inl ErrSessionAborted)"
  by (induction cs) (simp_all add: Decrypt_def checkUsable_def case_prod_unfold Let_def)

lemma decrypt_refused:
  assumes "aead s = Some k" and "\<not> aborted s"
    and "cr_open cr k (NonceFor (receiveDirection (role s)) (receiveCounter s)) c = None"
  shows "Decrypt cr c s = (Inl ErrSessionAborted, s\<lparr>aborted := True\<rparr>)"
  using assms by (simp add: Decrypt_def checkUsable_def)

lemma decrypt_channel:
  assumes "ideal_aead cr k" and "i + length ps \<le> 2 ^ 64" and "length qs \<le> 2 ^ 64" and "length cs + i \<le> 2 ^ 64"
    and "aead s = Some k" and "\<not> aborted s" and "receiveCounter s = of_nat i" and "role s = RoleHub"
    and "\<forall>c \<in> set cs. c \<in> set (seals cr k DirectionAppToHub 0 (pre @ ps)) \<union> set (seals cr k DirectionHubToApp 0 qs)
      \<or> (\<forall>n. cr_open cr k n c = None)"
    and "length pre = i"
  shows "fst (decrypt_all cr cs s) =
    map Inr (take (agree cs (seals cr k DirectionAppToHub i ps)) ps) @
    replicate (length cs - agree cs (seals cr k DirectionAppToHub i ps)) (Inl ErrSessionAborted)"
  using assms(2-)
proof (induction cs arbitrary: i ps pre s)
  case (Cons c cs)
  let ?n = "NonceFor DirectionAppToHub (of_nat i)"
  have n: "NonceFor (receiveDirection (role s)) (receiveCounter s) = ?n"
    using Cons.prems by (simp add: receiveDirection_def)
  show ?case
  proof (cases "\<exists>p ps'. ps = p # ps' \<and> c = cr_seal cr k ?n p")
    case True
    then obtain p ps' where p: "ps = p # ps'" "c = cr_seal cr k ?n p" by blast
    have "\<not> length c < TagLength" "cr_open cr k ?n c = Some p"
      using assms(1) p(2) by (simp_all add: ideal_aead_def not_less)
    then have d: "Decrypt cr c s = (Inr p, s\<lparr>receiveCounter := receiveCounter s + 1\<rparr>)"
      using Cons.prems(4,5) n by (simp add: Decrypt_def checkUsable_def)
    have "fst (decrypt_all cr cs (s\<lparr>receiveCounter := receiveCounter s + 1\<rparr>)) =
        map Inr (take (agree cs (seals cr k DirectionAppToHub (Suc i) ps')) ps') @
        replicate (length cs - agree cs (seals cr k DirectionAppToHub (Suc i) ps')) (Inl ErrSessionAborted)"
      by (rule Cons.IH [where pre = "pre @ [p]"]) (use Cons.prems p in \<open>simp_all add: add.commute\<close>)
    moreover have "agree (c # cs) (seals cr k DirectionAppToHub i ps) = Suc (agree cs (seals cr k DirectionAppToHub (Suc i) ps'))"
      by (simp add: p)
    ultimately show ?thesis by (simp add: d p(1) case_prod_unfold Let_def)
  next
    case False
    have "cr_open cr k ?n c = None"
    proof (rule ccontr)
      assume o: "cr_open cr k ?n c \<noteq> None"
      have same: "NonceFor d m = ?n" if "c = cr_seal cr k (NonceFor d m) p" for d m p
      proof (rule ccontr)
        assume "NonceFor d m \<noteq> ?n"
        then have "cr_open cr k ?n c = None" using assms(1) that by (simp add: ideal_aead_def)
        then show False using o by simp
      qed
      have "c \<in> set (seals cr k DirectionAppToHub 0 (pre @ ps)) \<or> c \<in> set (seals cr k DirectionHubToApp 0 qs)"
        using Cons.prems(8) o by auto
      then show False
      proof
        assume "c \<in> set (seals cr k DirectionHubToApp 0 qs)"
        then obtain j p where "c = cr_seal cr k (NonceFor DirectionHubToApp (of_nat j)) p"
          using seals_mem [of c cr k DirectionHubToApp 0 qs] by auto
        from same [OF this] show False by (simp add: NonceFor_inj DirectionHubToApp_def DirectionAppToHub_def)
      next
        assume "c \<in> set (seals cr k DirectionAppToHub 0 (pre @ ps))"
        then obtain j where j: "j < length (pre @ ps)" "c = cr_seal cr k (NonceFor DirectionAppToHub (of_nat j)) ((pre @ ps) ! j)"
          using seals_mem [of c cr k DirectionAppToHub 0 "pre @ ps"] by auto
        have "j < 2 ^ 64" "i < 2 ^ 64" using j(1) Cons.prems(1,3,9) by simp_all
        then have "j = i" using same [OF j(2)] by (simp add: NonceFor_inj of_nat_64_inj)
        then have "ps = hd ps # tl ps \<and> c = cr_seal cr k ?n (hd ps)"
          using j Cons.prems(9) by (cases ps) (auto simp: nth_append)
        then show False using False by blast
      qed
    qed
    then have dec: "Decrypt cr c s = (Inl ErrSessionAborted, s\<lparr>aborted := True\<rparr>)"
      using decrypt_refused [OF Cons.prems(4,5)] n by simp
    have "agree (c # cs) (seals cr k DirectionAppToHub i ps) = 0" using False by (cases ps) auto
    then show ?thesis by (simp add: dec case_prod_unfold Let_def aborted_all)
  qed
qed simp

definition fresh :: "Role \<Rightarrow> byte list \<Rightarrow> 'p Session \<Rightarrow> bool" where
  "fresh r k s \<longleftrightarrow> role s = r \<and> aead s = Some k \<and> \<not> aborted s \<and> sendCounter s = 0 \<and> receiveCounter s = 0"

section \<open>Properties\<close>

definition sealed_by :: "'p crypto \<Rightarrow> byte list list \<Rightarrow> 'p Session \<Rightarrow> byte list list" where
  "sealed_by cr ps s = concat (map (\<lambda>x. case x of Inr c \<Rightarrow> [c] | Inl _ \<Rightarrow> []) (fst (encrypt_all cr ps s)))"

lemma sealed_by_seals:
  "aead s = Some k \<Longrightarrow> \<not> aborted s \<Longrightarrow> sendCounter s = 0 \<Longrightarrow>
     sealed_by cr ps s = seals cr k (sendDirection (role s)) 0 ps"
  using encrypt_all_seals [of s k 0 cr ps] by (simp add: sealed_by_def comp_def)

text \<open>
  Property C36: the session is an in-order, replay-free channel. Two endpoints hold the same key; the
  app seals the messages ps and the hub seals qs. Whatever sequence of ciphertexts is delivered to
  the hub (those of the app, in any order and number, those of the hub reflected back, or anything
  that does not open under the key), the hub decrypts exactly the longest run of messages that came
  as they were sent, and refuses everything from the first deviation on: reordering, replay, loss,
  reflection and tampering all end the session.
\<close>

theorem channel_in_order:
  assumes "ideal_aead cr k" and "fresh RoleApp k app" and "fresh RoleHub k hub"
    and "length ps \<le> 2 ^ 64" and "length cs \<le> 2 ^ 64" and "length qs \<le> 2 ^ 64"
    and "\<forall>c \<in> set cs. c \<in> set (sealed_by cr ps app) \<or> c \<in> set (sealed_by cr qs hub) \<or> (\<forall>n. cr_open cr k n c = None)"
  shows "fst (decrypt_all cr cs hub) =
    map Inr (take (agree cs (sealed_by cr ps app)) ps) @
    replicate (length cs - agree cs (sealed_by cr ps app)) (Inl ErrSessionAborted)"
proof -
  have a: "sealed_by cr ps app = seals cr k DirectionAppToHub 0 ps"
    using assms(2) sealed_by_seals [of app k] by (simp add: fresh_def sendDirection_def)
  have b: "sealed_by cr qs hub = seals cr k DirectionHubToApp 0 qs"
    using assms(3) sealed_by_seals [of hub k] by (simp add: fresh_def sendDirection_def)
  show ?thesis unfolding a
    by (rule decrypt_channel [OF assms(1), where pre = "[]" and qs = qs])
      (use assms a b in \<open>simp_all add: fresh_def\<close>)
qed

definition ex_crypto :: "unit crypto" where
  "ex_crypto = \<lparr>cr_public = (\<lambda>_. []), cr_valid_public = (\<lambda>_. True), cr_ecdh = (\<lambda>_ p. Some p),
     cr_hkdf = (\<lambda>s _ _ _. Some s), cr_aead_ok = (\<lambda>_. True),
     cr_seal = (\<lambda>k n p. n @ replicate 16 0 @ p),
     cr_open = (\<lambda>k n c. if take (length n) c = n \<and> length n = 12 \<and> take 16 (drop 12 c) = replicate 16 0
                        then Some (drop 28 c) else None)\<rparr>"

lemma ex_crypto_ideal: "ideal_aead ex_crypto k"
  by (auto simp: ideal_aead_def ex_crypto_def NonceLength_def TagLength_def)

definition ex_session :: "Role \<Rightarrow> unit Session" where
  "ex_session r = (new_session r ())\<lparr>aead := Some [1]\<rparr>"

lemma ex_session_fresh: "fresh r [1] (ex_session r)"
  by (simp add: fresh_def ex_session_def new_session_def)

text \<open>A replayed message ends the session.\<close>

theorem channel_in_order_witness:
  "fst (decrypt_all ex_crypto (concat (replicate 2 (sealed_by ex_crypto [[7]] (ex_session RoleApp)))) (ex_session RoleHub)) =
     [Inr [7], Inl ErrSessionAborted]"
proof -
  let ?c = "cr_seal ex_crypto [1] (NonceFor DirectionAppToHub 0) [7]"
  have s: "sealed_by ex_crypto [[7]] (ex_session RoleApp) = [?c]"
    using sealed_by_seals [of "ex_session RoleApp" "[1]" ex_crypto "[[7]]"]
    by (simp add: ex_session_def new_session_def sendDirection_def)
  have "fst (decrypt_all ex_crypto [?c, ?c] (ex_session RoleHub)) =
      map Inr (take (agree [?c, ?c] [?c]) [[7]]) @ replicate (length [?c, ?c] - agree [?c, ?c] [?c]) (Inl ErrSessionAborted)"
    using channel_in_order [OF ex_crypto_ideal ex_session_fresh ex_session_fresh, of "[[7]]" "[?c, ?c]" "[]"]
    unfolding s by simp
  then show ?thesis by (simp add: s numeral_eq_Suc)
qed

end
