(* ===== verification/Peripheral.thy ===== *)
theory Peripheral
  imports Sec1 GoFloat
begin

text \<open>
  internal/provision/sec1/messages.go, peripheral.go and join_live.go: the messages of the
  commissioning protocol and the hub's end of it. JSON and base64 are parameters (\<open>codec\<close>): the
  model starts at the fields of a parsed object and ends at the fields of the object to print. What
  the hub draws or asks for while it handles a chunk (a key pair, a challenge, a live scan) is part
  of the step's environment. A live join is the request it runs for; its events arrive as steps of
  their own.
\<close>

section \<open>Messages\<close>

record WifiAp =
  ap_SSID :: string
  ap_RSSI :: int
  ap_Sec :: string

datatype Message =
    HelloApp "byte list"
  | HelloHub "byte list" "byte list"
  | Confirm "byte list"
  | OkMsg
  | ErrMsg string
  | ScanRequest
  | WifiScanResult "WifiAp list"
  | Join string "string option"
  | StateMessage ProvisioningState "WifiFailureReason option" "HandoffInfo option"
  | Done

datatype json = JNull | JBool bool | JNum rat | JStr string | JArr "json list" | JObj "(string \<times> json) list"

record codec =
  co_marshal :: "(string \<times> json) list \<Rightarrow> byte list"
  co_unmarshal :: "byte list \<Rightarrow> (string \<times> json) list option"
  co_b64 :: "byte list \<Rightarrow> string"
  co_unb64 :: "string \<Rightarrow> byte list option"
  co_wide_int :: "f64 \<Rightarrow> int"

definition Op :: "Message \<Rightarrow> string" where
  "Op m = (case m of HelloApp _ \<Rightarrow> ''hello'' | HelloHub _ _ \<Rightarrow> ''hello'' | Confirm _ \<Rightarrow> ''confirm''
     | OkMsg \<Rightarrow> ''ok'' | ErrMsg _ \<Rightarrow> ''err'' | ScanRequest \<Rightarrow> ''scan'' | WifiScanResult _ \<Rightarrow> ''scan_result''
     | Join _ _ \<Rightarrow> ''join'' | StateMessage _ _ _ \<Rightarrow> ''state'' | Done \<Rightarrow> ''done'')"

definition ap_fields :: "WifiAp \<Rightarrow> json" where
  "ap_fields ap = JObj [(''ssid'', JStr (ap_SSID ap)), (''rssi'', JNum (of_int (ap_RSSI ap))), (''sec'', JStr (ap_Sec ap))]"

definition handoff_fields :: "HandoffInfo \<Rightarrow> (string \<times> json) list" where
  "handoff_fields h = [(''serial'', JStr (hi_Serial h)), (''ip'', JStr (hi_IP h)), (''port'', JNum (of_int (hi_Port h))),
     (''api_cert_fp'', JStr (hi_APICertFP h)), (''token'', JStr (hi_Token h))]"

definition encode_fields :: "codec \<Rightarrow> Message \<Rightarrow> (string \<times> json) list" where
  "encode_fields co m = (''op'', JStr (Op m)) # (case m of
     HelloApp p \<Rightarrow> [(''pub'', JStr (co_b64 co p))]
   | HelloHub p c \<Rightarrow> [(''pub'', JStr (co_b64 co p)), (''challenge'', JStr (co_b64 co c))]
   | Confirm c \<Rightarrow> [(''challenge'', JStr (co_b64 co c))]
   | ErrMsg e \<Rightarrow> [(''code'', JStr e)]
   | WifiScanResult aps \<Rightarrow> [(''aps'', JArr (map ap_fields aps))]
   | Join ssid None \<Rightarrow> [(''ssid'', JStr ssid)]
   | Join ssid (Some psk) \<Rightarrow> [(''ssid'', JStr ssid), (''psk'', JStr psk)]
   | StateMessage st reason handoff \<Rightarrow>
       (''state'', JStr (state_Wire st))
         # (case reason of None \<Rightarrow> [] | Some r \<Rightarrow> [(''reason'', JStr (reason_Wire r))])
         @ (case handoff of None \<Rightarrow> [] | Some h \<Rightarrow> handoff_fields h)
   | _ \<Rightarrow> [])"

definition Encode :: "codec \<Rightarrow> Message \<Rightarrow> byte list" where
  "Encode co m = co_marshal co (encode_fields co m)"

definition str_of :: "json option \<Rightarrow> string option" where
  "str_of j = (case j of Some (JStr s) \<Rightarrow> Some s | _ \<Rightarrow> None)"

definition stringOr :: "json option \<Rightarrow> string \<Rightarrow> string" where
  "stringOr j d = (case str_of j of Some s \<Rightarrow> s | None \<Rightarrow> d)"

definition trunc_int :: "codec \<Rightarrow> rat \<Rightarrow> int" where
  "trunc_int co q = (case fl q of
       Fin x \<Rightarrow> (let n = (if x < 0 then - \<lfloor>- x\<rfloor> else \<lfloor>x\<rfloor>) in if in_int64 n then n else co_wide_int co (Fin x))
     | y \<Rightarrow> co_wide_int co y)"

definition intOr :: "codec \<Rightarrow> json option \<Rightarrow> int \<Rightarrow> int" where
  "intOr co j d = (case j of Some (JNum q) \<Rightarrow> trunc_int co q | _ \<Rightarrow> d)"

definition requiredB64 :: "codec \<Rightarrow> json option \<Rightarrow> byte list option" where
  "requiredB64 co j =
     (case str_of j of None \<Rightarrow> None | Some s \<Rightarrow> if s = '''' then None else co_unb64 co s)"

definition parseAPs :: "codec \<Rightarrow> json option \<Rightarrow> WifiAp list" where
  "parseAPs co j =
     (case j of
        Some (JArr xs) \<Rightarrow>
          concat (map (\<lambda>x. case x of
              JObj o' \<Rightarrow> [\<lparr>ap_SSID = stringOr (map_of o' ''ssid'') '''', ap_RSSI = intOr co (map_of o' ''rssi'') (- 127),
                          ap_Sec = stringOr (map_of o' ''sec'') ''''\<rparr>]
            | _ \<Rightarrow> []) xs)
      | _ \<Rightarrow> [])"

definition handoffFromMap :: "codec \<Rightarrow> (string \<rightharpoonup> json) \<Rightarrow> HandoffInfo" where
  "handoffFromMap co raw =
     \<lparr>hi_Serial = stringOr (raw ''serial'') '''', hi_IP = stringOr (raw ''ip'') '''', hi_Port = intOr co (raw ''port'') 9100,
      hi_APICertFP = stringOr (raw ''api_cert_fp'') '''', hi_Token = stringOr (raw ''token'') ''''\<rparr>"

definition decodeState :: "codec \<Rightarrow> (string \<rightharpoonup> json) \<Rightarrow> Message option" where
  "decodeState co raw =
     (case ParseProvisioningState (stringOr (raw ''state'') '''') of
        None \<Rightarrow> None
      | Some st \<Rightarrow>
          Some (StateMessage st
            (if st = StateFailed then Some (ParseWifiFailureReason (stringOr (raw ''reason'') '''')) else None)
            (if st = StateJoined then Some (handoffFromMap co raw) else None)))"

definition decode_fields :: "codec \<Rightarrow> (string \<rightharpoonup> json) \<Rightarrow> Message option" where
  "decode_fields co raw =
     (let oper = stringOr (raw ''op'') '''' in
      if oper = ''hello''
      then (case requiredB64 co (raw ''pub'') of
              None \<Rightarrow> None
            | Some pub \<Rightarrow>
                if raw ''challenge'' \<noteq> None
                then map_option (HelloHub pub) (requiredB64 co (raw ''challenge''))
                else Some (HelloApp pub))
      else if oper = ''confirm'' then map_option Confirm (requiredB64 co (raw ''challenge''))
      else if oper = ''ok'' then Some OkMsg
      else if oper = ''err'' then Some (ErrMsg (stringOr (raw ''code'') ''unknown''))
      else if oper = ''scan'' then Some ScanRequest
      else if oper = ''scan_result'' then Some (WifiScanResult (parseAPs co (raw ''aps'')))
      else if oper = ''join'' then Some (Join (stringOr (raw ''ssid'') '''') (str_of (raw ''psk'')))
      else if oper = ''state'' then decodeState co raw
      else if oper = ''done'' then Some Done else None)"

definition Decode :: "codec \<Rightarrow> byte list \<Rightarrow> Message option" where
  "Decode co data = (case co_unmarshal co data of None \<Rightarrow> None | Some fs \<Rightarrow> decode_fields co (map_of fs))"

section \<open>The peripheral\<close>

datatype JoinBehavior =
    JoinSucceeds HandoffInfo nat
  | JoinFails WifiFailureReason nat
  | JoinHangs nat
  | JoinLive bool

datatype periph_error =
    PFrame frame_error | PSec sec1_error | PDecode | PUnexpected string | PNoSession | PRandom | PKey | PScan | PPanic

type_synonym outbound = "string \<times> byte list"

record 'p Peripheral =
  pop :: string
  serial :: string
  scanResults :: "WifiAp list"
  has_asyncSend :: bool
  attPayloadSize :: int
  join_behavior :: JoinBehavior
  reassemblers :: "string \<rightharpoonup> Reassembler"
  session :: "'p Session option"
  challenge :: "byte list option"
  confirmed :: bool
  out :: "outbound list"
  live :: "(string \<times> string option) option"
  PopFailures :: nat
  JoinRequests :: "(string \<times> string option) list"
  DoneReceived :: bool
  SessionAborted :: bool
  LastError :: "periph_error option"

text \<open>What a step may draw: a key pair, a challenge of eight bytes, a live scan (\<open>None\<close>: no
  live scan is wired; \<open>Some None\<close>: it failed).\<close>

record 'p env =
  ev_key :: "'p option"
  ev_random :: "byte list option"
  ev_scan :: "WifiAp list option option"

definition DefaultAttPayloadSize :: int where "DefaultAttPayloadSize = 244"

definition NewPeripheral ::
  "string \<Rightarrow> string \<Rightarrow> WifiAp list \<Rightarrow> bool \<Rightarrow> int \<Rightarrow> JoinBehavior option \<Rightarrow> 'p Peripheral" where
  "NewPeripheral code sn scans async att jb =
     \<lparr>pop = code, serial = sn, scanResults = scans, has_asyncSend = async,
      attPayloadSize = (if att = 0 then DefaultAttPayloadSize else att),
      join_behavior = (case jb of None \<Rightarrow> JoinHangs 0 | Some b \<Rightarrow> b), reassemblers = Map.empty, session = None,
      challenge = None, confirmed = False, out = [], live = None, PopFailures = 0, JoinRequests = [],
      DoneReceived = False, SessionAborted = False, LastError = None\<rparr>"

definition cancelJoin :: "'p Peripheral \<Rightarrow> 'p Peripheral" where
  "cancelJoin p = p\<lparr>live := None\<rparr>"

definition frame_out :: "string \<Rightarrow> byte list \<Rightarrow> bool \<Rightarrow> 'p Peripheral \<Rightarrow> periph_error option \<times> 'p Peripheral" where
  "frame_out uuid payload encrypt p =
     (case Chunk payload (attPayloadSize p) encrypt of
        Inl e \<Rightarrow> (Some (PFrame e), p)
      | Inr chunks \<Rightarrow> (None, p\<lparr>out := out p @ map (Pair uuid) chunks\<rparr>))"

definition send ::
  "'p crypto \<Rightarrow> codec \<Rightarrow> string \<Rightarrow> Message \<Rightarrow> bool \<Rightarrow> 'p Peripheral \<Rightarrow> periph_error option \<times> 'p Peripheral" where
  "send cr co uuid message encrypt p =
     (if \<not> encrypt then frame_out uuid (Encode co message) False p
      else case session p of
        None \<Rightarrow> (Some PPanic, p)
      | Some s \<Rightarrow>
          (case Encrypt cr (Encode co message) s of
             (Inl e, _) \<Rightarrow> (Some (PSec e), p)
           | (Inr ct, s') \<Rightarrow> frame_out uuid ct True (p\<lparr>session := Some s'\<rparr>)))"

definition sendErr :: "'p crypto \<Rightarrow> codec \<Rightarrow> string \<Rightarrow> string \<Rightarrow> 'p Peripheral \<Rightarrow> periph_error option \<times> 'p Peripheral" where
  "sendErr cr co uuid code p = send cr co uuid (ErrMsg code) False p"

definition rejectPop :: "'p Peripheral \<Rightarrow> 'p Peripheral" where
  "rejectPop p = p\<lparr>PopFailures := PopFailures p + 1, session := None, challenge := None, confirmed := False\<rparr>"

definition withSerial :: "'p Peripheral \<Rightarrow> HandoffInfo \<Rightarrow> HandoffInfo" where
  "withSerial p h = (if hi_Serial h = '''' then h\<lparr>hi_Serial := serial p\<rparr> else h)"

definition sessionFor :: "bool \<Rightarrow> 'p Peripheral \<Rightarrow> 'p Session option \<times> 'p Peripheral" where
  "sessionFor enc p =
     (if session p = None \<or> \<not> confirmed p \<or> \<not> enc then (None, p\<lparr>LastError := Some PNoSession\<rparr>)
      else (session p, p))"

definition begin_handshake ::
  "'p crypto \<Rightarrow> codec \<Rightarrow> 'p env \<Rightarrow> byte list \<Rightarrow> 'p Peripheral \<Rightarrow> periph_error option \<times> 'p Peripheral" where
  "begin_handshake cr co ev pub p0 =
     (let p = cancelJoin p0 in
      case ev_key ev of
        None \<Rightarrow> (Some PKey, p)
      | Some k \<Rightarrow>
          (case DeriveKey cr pub (pop p) (new_session RoleHub k) of
             (Some e, _) \<Rightarrow> (Some (PSec e), p)
           | (None, s) \<Rightarrow>
               let p1 = p\<lparr>session := Some s, confirmed := False, challenge := ev_random ev\<rparr> in
               case ev_random ev of
                 None \<Rightarrow> (Some PRandom, p1)
               | Some ch \<Rightarrow> send cr co UUIDSession (HelloHub (PublicKey cr s) ch) False p1))"

definition finish_handshake ::
  "'p crypto \<Rightarrow> codec \<Rightarrow> byte list \<Rightarrow> 'p Session \<Rightarrow> byte list \<Rightarrow> 'p Peripheral \<Rightarrow> periph_error option \<times> 'p Peripheral" where
  "finish_handshake cr co message s ch p0 =
     (case Decrypt cr message s of
        (Inl e, s') \<Rightarrow>
          (let p = p0\<lparr>session := Some s'\<rparr> in
           if e = ErrSessionAborted then sendErr cr co UUIDSession ''pop_mismatch'' (rejectPop p)
           else (Some (PSec e), p))
      | (Inr clear, s') \<Rightarrow>
          (let p = p0\<lparr>session := Some s'\<rparr> in
           case Decode co clear of
             None \<Rightarrow> (Some PDecode, p)
           | Some m \<Rightarrow>
               if m = Confirm ch then send cr co UUIDSession OkMsg True (p\<lparr>confirmed := True\<rparr>)
               else sendErr cr co UUIDSession ''pop_mismatch'' (rejectPop p)))"

definition handleSession ::
  "'p crypto \<Rightarrow> codec \<Rightarrow> 'p env \<Rightarrow> byte list \<Rightarrow> bool \<Rightarrow> 'p Peripheral \<Rightarrow> periph_error option \<times> 'p Peripheral" where
  "handleSession cr co ev message enc p =
     (if \<not> enc
      then (case Decode co message of
              None \<Rightarrow> (Some PDecode, p)
            | Some (HelloApp pub) \<Rightarrow> begin_handshake cr co ev pub p
            | Some _ \<Rightarrow> sendErr cr co UUIDSession ''bad_request'' p)
      else case (session p, challenge p) of
             (Some s, Some ch) \<Rightarrow> finish_handshake cr co message s ch p
           | _ \<Rightarrow> sendErr cr co UUIDSession ''bad_request'' p)"

definition scanAPs :: "'p env \<Rightarrow> 'p Peripheral \<Rightarrow> WifiAp list \<times> 'p Peripheral" where
  "scanAPs ev p =
     (case ev_scan ev of
        None \<Rightarrow> (scanResults p, p)
      | Some None \<Rightarrow> (scanResults p, p\<lparr>LastError := Some PScan\<rparr>)
      | Some (Some aps) \<Rightarrow> (aps, p))"

text \<open>Opening a message of an established session: silence, an error, or its decoded content.\<close>

definition open_message ::
  "'p crypto \<Rightarrow> codec \<Rightarrow> byte list \<Rightarrow> bool \<Rightarrow> 'p Peripheral \<Rightarrow> (periph_error option + Message) \<times> 'p Peripheral" where
  "open_message cr co message enc p0 =
     (case sessionFor enc p0 of
        (None, p) \<Rightarrow> (Inl None, p)
      | (Some s, p) \<Rightarrow>
          (case Decrypt cr message s of
             (Inl e, s') \<Rightarrow>
               (let p1 = p\<lparr>session := Some s'\<rparr> in
                if e = ErrSessionAborted then (Inl None, p1\<lparr>SessionAborted := True\<rparr>) else (Inl (Some (PSec e)), p1))
           | (Inr clear, s') \<Rightarrow>
               (let p1 = p\<lparr>session := Some s'\<rparr> in
                case Decode co clear of None \<Rightarrow> (Inl (Some PDecode), p1) | Some m \<Rightarrow> (Inr m, p1))))"

definition handleWifi ::
  "'p crypto \<Rightarrow> codec \<Rightarrow> 'p env \<Rightarrow> byte list \<Rightarrow> bool \<Rightarrow> 'p Peripheral \<Rightarrow> periph_error option \<times> 'p Peripheral" where
  "handleWifi cr co ev message enc p0 =
     (case open_message cr co message enc p0 of
        (Inl e, p) \<Rightarrow> (e, p)
      | (Inr m, p) \<Rightarrow>
          if m = ScanRequest
          then let (aps, p') = scanAPs ev p in send cr co UUIDWifi (WifiScanResult aps) True p'
          else send cr co UUIDWifi (ErrMsg ''bad_request'') True p)"

fun emitJoining :: "'p crypto \<Rightarrow> codec \<Rightarrow> nat \<Rightarrow> 'p Peripheral \<Rightarrow> periph_error option \<times> 'p Peripheral" where
  "emitJoining cr co 0 p = (None, p)"
| "emitJoining cr co (Suc n) p =
     (case send cr co UUIDStatus (StateMessage StateJoining None None) True p of
        (Some e, p') \<Rightarrow> (Some e, p')
      | (None, p') \<Rightarrow> emitJoining cr co n p')"

definition after_joining ::
  "'p crypto \<Rightarrow> codec \<Rightarrow> nat \<Rightarrow> ('p Peripheral \<Rightarrow> Message) \<Rightarrow> 'p Peripheral \<Rightarrow> periph_error option \<times> 'p Peripheral" where
  "after_joining cr co n msg p =
     (case emitJoining cr co n p of
        (Some e, p') \<Rightarrow> (Some e, p')
      | (None, p') \<Rightarrow> send cr co UUIDStatus (msg p') True p')"

definition runJoin :: "'p crypto \<Rightarrow> codec \<Rightarrow> 'p Peripheral \<Rightarrow> periph_error option \<times> 'p Peripheral" where
  "runJoin cr co p =
     (case join_behavior p of
        JoinSucceeds h n \<Rightarrow> after_joining cr co n (\<lambda>p. StateMessage StateJoined None (Some (withSerial p h))) p
      | JoinFails r n \<Rightarrow> after_joining cr co n (\<lambda>_. StateMessage StateFailed (Some r) None) p
      | JoinHangs n \<Rightarrow> emitJoining cr co n p
      | JoinLive run \<Rightarrow>
          let p' = cancelJoin p in
          (None, if \<not> run \<or> JoinRequests p' = [] then p' else p'\<lparr>live := Some (last (JoinRequests p'))\<rparr>))"

definition handleConfig ::
  "'p crypto \<Rightarrow> codec \<Rightarrow> byte list \<Rightarrow> bool \<Rightarrow> 'p Peripheral \<Rightarrow> periph_error option \<times> 'p Peripheral" where
  "handleConfig cr co message enc p0 =
     (case open_message cr co message enc p0 of
        (Inl e, p) \<Rightarrow> (e, p)
      | (Inr (Join ssid psk), p) \<Rightarrow> runJoin cr co (p\<lparr>JoinRequests := JoinRequests p @ [(ssid, psk)]\<rparr>)
      | (Inr Done, p) \<Rightarrow> (None, p\<lparr>DoneReceived := True\<rparr>)
      | (Inr _, p) \<Rightarrow> send cr co UUIDStatus (ErrMsg ''bad_request'') True p)"

definition process ::
  "'p crypto \<Rightarrow> codec \<Rightarrow> 'p env \<Rightarrow> string \<Rightarrow> byte list \<Rightarrow> 'p Peripheral \<Rightarrow> periph_error option \<times> 'p Peripheral" where
  "process cr co ev uuid chunk p0 =
     (let r = (case reassemblers p0 uuid of None \<Rightarrow> zero_Reassembler | Some r \<Rightarrow> r);
          (res, r') = Add chunk r; p = p0\<lparr>reassemblers := (reassemblers p0)(uuid \<mapsto> r')\<rparr> in
      case res of
        Inl e \<Rightarrow> (Some (PFrame e), p)
      | Inr None \<Rightarrow> (None, p)
      | Inr (Some message) \<Rightarrow>
          let enc = has_flag (chunk ! 0) FlagENC in
          if uuid = UUIDSession then handleSession cr co ev message enc p
          else if uuid = UUIDWifi then handleWifi cr co ev message enc p
          else if uuid = UUIDConfig then handleConfig cr co message enc p
          else (Some (PUnexpected uuid), p))"

definition HandleChunk ::
  "'p crypto \<Rightarrow> codec \<Rightarrow> 'p env \<Rightarrow> string \<Rightarrow> byte list \<Rightarrow> 'p Peripheral \<Rightarrow> outbound list \<times> 'p Peripheral" where
  "HandleChunk cr co ev uuid chunk p0 =
     (let (err, p1) = process cr co ev uuid chunk (p0\<lparr>out := []\<rparr>);
          p2 = (case err of None \<Rightarrow> p1 | Some e \<Rightarrow> p1\<lparr>LastError := Some e\<rparr>)
      in (out p2, p2\<lparr>out := []\<rparr>))"

text \<open>A status of a live join, sent outside the handling of a chunk.\<close>

definition emitStatusAsync ::
  "'p crypto \<Rightarrow> codec \<Rightarrow> ProvisioningState \<Rightarrow> WifiFailureReason option \<Rightarrow> HandoffInfo option \<Rightarrow>
     'p Peripheral \<Rightarrow> outbound list \<times> 'p Peripheral" where
  "emitStatusAsync cr co st reason handoff p =
     (case session p of
        None \<Rightarrow> ([], p)
      | Some s \<Rightarrow>
          if \<not> confirmed p \<or> \<not> has_asyncSend p then ([], p)
          else let h = (if st = StateJoined then map_option (withSerial p) handoff else handoff) in
            case Encrypt cr (Encode co (StateMessage st reason h)) s of
              (Inl e, _) \<Rightarrow> ([], p\<lparr>LastError := Some (PSec e)\<rparr>)
            | (Inr ct, s') \<Rightarrow>
                let p' = p\<lparr>session := Some s'\<rparr> in
                (case Chunk ct (attPayloadSize p) True of
                   Inl e \<Rightarrow> ([], p'\<lparr>LastError := Some (PFrame e)\<rparr>)
                 | Inr chunks \<Rightarrow> (map (Pair UUIDStatus) chunks, p')))"

section \<open>Runs\<close>

datatype 'p event =
    PChunk "'p env" string "byte list"
  | PStatus ProvisioningState "WifiFailureReason option" "HandoffInfo option"

definition periph_step :: "'p crypto \<Rightarrow> codec \<Rightarrow> 'p event \<Rightarrow> 'p Peripheral \<Rightarrow> outbound list \<times> 'p Peripheral" where
  "periph_step cr co e p =
     (case e of PChunk ev uuid chunk \<Rightarrow> HandleChunk cr co ev uuid chunk p
              | PStatus st reason h \<Rightarrow> emitStatusAsync cr co st reason h p)"

fun periph_run :: "'p crypto \<Rightarrow> codec \<Rightarrow> 'p event list \<Rightarrow> 'p Peripheral \<Rightarrow> outbound list \<times> 'p Peripheral" where
  "periph_run cr co [] p = ([], p)"
| "periph_run cr co (e # es) p =
     (let (xs, p') = periph_step cr co e p; (ys, p'') = periph_run cr co es p' in (xs @ ys, p''))"

lemma periph_run_snoc:
  "periph_run cr co (es @ [e]) p =
     (fst (periph_run cr co es p) @ fst (periph_step cr co e (snd (periph_run cr co es p))),
      snd (periph_step cr co e (snd (periph_run cr co es p))))"
  by (induction es arbitrary: p) (simp_all add: case_prod_unfold Let_def)

text \<open>The state after the reassembly of a chunk, before the message is handled.\<close>

definition reassembled :: "string \<Rightarrow> byte list \<Rightarrow> 'p Peripheral \<Rightarrow> (frame_error + byte list option)" where
  "reassembled uuid chunk p =
     fst (Add chunk (case reassemblers p uuid of None \<Rightarrow> zero_Reassembler | Some r \<Rightarrow> r))"

definition after_reassembly :: "string \<Rightarrow> byte list \<Rightarrow> 'p Peripheral \<Rightarrow> 'p Peripheral" where
  "after_reassembly uuid chunk p = p\<lparr>reassemblers := (reassemblers p)(uuid \<mapsto>
     snd (Add chunk (case reassemblers p uuid of None \<Rightarrow> zero_Reassembler | Some r \<Rightarrow> r)))\<rparr>"

definition dispatch ::
  "'p crypto \<Rightarrow> codec \<Rightarrow> 'p env \<Rightarrow> string \<Rightarrow> byte list \<Rightarrow> bool \<Rightarrow> 'p Peripheral \<Rightarrow> periph_error option \<times> 'p Peripheral" where
  "dispatch cr co ev uuid message enc p =
     (if uuid = UUIDSession then handleSession cr co ev message enc p
      else if uuid = UUIDWifi then handleWifi cr co ev message enc p
      else if uuid = UUIDConfig then handleConfig cr co message enc p
      else (Some (PUnexpected uuid), p))"

lemma process_reassembled:
  "process cr co ev uuid chunk p =
     (case reassembled uuid chunk p of
        Inl e \<Rightarrow> (Some (PFrame e), after_reassembly uuid chunk p)
      | Inr None \<Rightarrow> (None, after_reassembly uuid chunk p)
      | Inr (Some m) \<Rightarrow> dispatch cr co ev uuid m (has_flag (chunk ! 0) FlagENC) (after_reassembly uuid chunk p))"
  unfolding process_def dispatch_def reassembled_def after_reassembly_def Let_def case_prod_unfold by (rule refl)

lemma Add_complete:
  "fst (Add chunk r) = Inr (Some m) \<Longrightarrow> has_flag (chunk ! 0) FlagFIN"
  by (auto simp: Add_def Let_def split: if_splits)

section \<open>Sending\<close>

definition plain_out :: "outbound \<Rightarrow> bool" where
  "plain_out x \<longleftrightarrow> \<not> has_flag (snd x ! 0) FlagENC"

lemma chunk_loop_plain:
  "\<not> has_flag flags FlagENC \<Longrightarrow> c \<in> set (chunk_loop flags n k rest) \<Longrightarrow> \<not> has_flag (c ! 0) FlagENC"
proof (induction flags n k rest rule: chunk_loop.induct)
  case (1 flags n k rest)
  have "\<not> has_flag (or flags FlagFIN) FlagENC"
    using 1(2) by (simp add: has_flag_def FlagENC_def FlagFIN_def bit.conj_disj_distrib2)
  then show ?case using 1 by (subst (asm) (2) chunk_loop.simps) (auto split: if_splits)
qed

lemma Chunk_plain: "Chunk payload att False = Inr cs \<Longrightarrow> list_all (\<lambda>c. plain_out (u, c)) cs"
  by (auto simp: Chunk_def Let_def list_all_iff plain_out_def split: if_splits dest!: chunk_loop_plain [rotated])

lemma frame_out_plain:
  "\<exists>xs. snd (frame_out u payload False p) = p\<lparr>out := out p @ xs\<rparr> \<and> list_all plain_out xs"
  by (auto simp: frame_out_def list.pred_map comp_def Chunk_plain split: sum.split intro: exI [of _ "[]"])

lemma send_plain:
  "\<exists>xs. snd (send cr co u m False p) = p\<lparr>out := out p @ xs\<rparr> \<and> list_all plain_out xs"
  by (simp add: send_def frame_out_plain)

lemma frame_out_session [simp]: "session (snd (frame_out u payload e p)) = session p"
  and frame_out_PopFailures [simp]: "PopFailures (snd (frame_out u payload e p)) = PopFailures p"
  by (simp_all add: frame_out_def split: sum.split)

lemma send_PopFailures [simp]: "PopFailures (snd (send cr co u m e p)) = PopFailures p"
  by (simp add: send_def split: option.split prod.split sum.split)

lemma send_session [simp]: "session (snd (send cr co u m e p)) = None \<longleftrightarrow> session p = None"
  by (simp add: send_def split: option.split prod.split sum.split)

section \<open>Nothing happens before a confirm\<close>

text \<open>A session's key comes from the setup code and an ECDH exchange of its own key pair.\<close>

definition keyed :: "'p crypto \<Rightarrow> string \<Rightarrow> 'p Session \<Rightarrow> bool" where
  "keyed cr code s \<longleftrightarrow> role s = RoleHub \<and>
     (\<exists>pub shared k. cr_ecdh cr (priv s) pub = Some shared \<and>
        cr_hkdf cr shared (bytes_of code) (bytes_of HkdfInfo) KeyLength = Some k \<and> aead s = Some k)"

definition confirms :: "'p crypto \<Rightarrow> codec \<Rightarrow> 'p Peripheral \<Rightarrow> 'p event \<Rightarrow> bool" where
  "confirms cr co p e \<longleftrightarrow>
     (\<exists>ev chunk message s ch clear s'. e = PChunk ev UUIDSession chunk \<and>
        reassembled UUIDSession chunk p = Inr (Some message) \<and> has_flag (chunk ! 0) FlagENC \<and>
        session p = Some s \<and> keyed cr (pop p) s \<and> challenge p = Some ch \<and>
        Decrypt cr message s = (Inr clear, s') \<and> Decode co clear = Some (Confirm ch))"

definition quiet :: "'p crypto \<Rightarrow> string \<Rightarrow> 'p Peripheral \<Rightarrow> bool" where
  "quiet cr code p \<longleftrightarrow> pop p = code \<and> \<not> confirmed p \<and> JoinRequests p = [] \<and> \<not> DoneReceived p \<and>
     list_all plain_out (out p) \<and> (\<forall>s. session p = Some s \<longrightarrow> keyed cr code s)"

lemma quiet_send: "quiet cr code p \<Longrightarrow> quiet cr code (snd (send cr co u m False p))"
  using send_plain [of cr co u m p] by (auto simp: quiet_def)

lemma quiet_updates [simp]:
  "quiet cr code (p\<lparr>LastError := x\<rparr>) = quiet cr code p"
  "quiet cr code (p\<lparr>SessionAborted := b\<rparr>) = quiet cr code p"
  "quiet cr code (p\<lparr>reassemblers := rs\<rparr>) = quiet cr code p"
  "quiet cr code (p\<lparr>challenge := c\<rparr>) = quiet cr code p"
  "quiet cr code (p\<lparr>live := l\<rparr>) = quiet cr code p"
  by (simp_all add: quiet_def)

lemma quiet_rejectPop: "quiet cr code p \<Longrightarrow> quiet cr code (rejectPop p)"
  by (simp add: rejectPop_def quiet_def)

lemma quiet_sendErr: "quiet cr code p \<Longrightarrow> quiet cr code (snd (sendErr cr co u c p))"
  by (simp add: sendErr_def quiet_send)

lemma DeriveKey_keyed: "DeriveKey cr pub code (new_session RoleHub k) = (None, s) \<Longrightarrow> keyed cr code s"
  by (auto simp: DeriveKey_def keyed_def new_session_def split: if_splits option.splits) blast

lemma quiet_begin: "quiet cr code p \<Longrightarrow> quiet cr code (snd (begin_handshake cr co ev pub p))"
proof -
  assume q: "quiet cr code p"
  show ?thesis
  proof (cases "ev_key ev")
    case None
    then show ?thesis using q by (simp add: begin_handshake_def cancelJoin_def)
  next
    case (Some k)
    show ?thesis
    proof (cases "fst (DeriveKey cr pub (pop p) (new_session RoleHub k))")
      case None
      define s where "s = snd (DeriveKey cr pub (pop p) (new_session RoleHub k))"
      have d: "DeriveKey cr pub (pop p) (new_session RoleHub k) = (None, s)"
        using None by (simp add: s_def prod_eq_iff)
      have "keyed cr code s" using DeriveKey_keyed [OF d] q by (simp add: quiet_def)
      then have "quiet cr code (p\<lparr>live := None, session := Some s, confirmed := False, challenge := ev_random ev\<rparr>)"
        using q by (simp add: quiet_def)
      then show ?thesis using Some d
        by (auto simp: begin_handshake_def cancelJoin_def Let_def intro: quiet_send split: option.split)
    next
      case e: (Some e)
      then obtain s' where "DeriveKey cr pub (pop p) (new_session RoleHub k) = (Some e, s')"
        by (metis prod.collapse)
      then show ?thesis using Some q by (simp add: begin_handshake_def cancelJoin_def Let_def)
    qed
  qed
qed

lemma Decrypt_keeps: "Decrypt cr m s = (x, s') \<Longrightarrow> role s' = role s \<and> priv s' = priv s \<and> aead s' = aead s"
  by (auto simp: Decrypt_def split: option.splits if_splits)

lemma Decrypt_keyed: "Decrypt cr m s = (x, s') \<Longrightarrow> keyed cr code s' = keyed cr code s"
  using Decrypt_keeps [of cr m s x s'] by (simp add: keyed_def)

lemma quiet_session: "quiet cr code p \<Longrightarrow> keyed cr code s \<Longrightarrow> quiet cr code (p\<lparr>session := Some s\<rparr>)"
  by (simp add: quiet_def)

lemma quiet_finish:
  assumes "quiet cr code p" and "session p = Some s" and "challenge p = Some ch"
    and "\<not> (\<exists>clear s'. Decrypt cr m s = (Inr clear, s') \<and> Decode co clear = Some (Confirm ch))"
  shows "quiet cr code (snd (finish_handshake cr co m s ch p))"
proof -
  have k: "keyed cr code s" using assms(1,2) by (simp add: quiet_def)
  define s' where "s' = snd (Decrypt cr m s)"
  have q: "quiet cr code (p\<lparr>session := Some s'\<rparr>)"
    using Decrypt_keyed [of cr m s "fst (Decrypt cr m s)" s' code] k assms(1) by (simp add: quiet_session s'_def)
  show ?thesis
  proof (cases "fst (Decrypt cr m s)")
    case (Inl e)
    then have "Decrypt cr m s = (Inl e, s')" by (simp add: s'_def prod_eq_iff)
    then show ?thesis using q by (simp add: finish_handshake_def Let_def quiet_sendErr quiet_rejectPop)
  next
    case (Inr clear)
    then have "Decrypt cr m s = (Inr clear, s')" by (simp add: s'_def prod_eq_iff)
    then show ?thesis using q assms(4)
      by (auto simp: finish_handshake_def Let_def quiet_sendErr quiet_rejectPop split: option.split)
  qed
qed

lemma quiet_closed:
  assumes "quiet cr code p"
  shows "quiet cr code (snd (handleWifi cr co ev m enc p))" and "quiet cr code (snd (handleConfig cr co m enc p))"
  using assms by (simp_all add: handleWifi_def handleConfig_def open_message_def sessionFor_def quiet_def)

lemma quiet_process:
  assumes q: "quiet cr code p" and n: "\<not> confirms cr co p (PChunk ev uuid chunk)"
  shows "quiet cr code (snd (process cr co ev uuid chunk p))"
proof (cases "\<exists>m. reassembled uuid chunk p = Inr (Some m)")
  case False
  then show ?thesis using q by (auto simp: process_reassembled after_reassembly_def split: sum.split option.split)
next
  case True
  then obtain m where m: "reassembled uuid chunk p = Inr (Some m)" by blast
  define p' where "p' = after_reassembly uuid chunk p"
  have q': "quiet cr code p'" using q by (simp add: p'_def after_reassembly_def)
  have s: "session p' = session p" "challenge p' = challenge p" by (simp_all add: p'_def after_reassembly_def)
  have "quiet cr code (snd (handleSession cr co ev m (has_flag (chunk ! 0) FlagENC) p'))" if u: "uuid = UUIDSession"
  proof (cases "has_flag (chunk ! 0) FlagENC \<and> session p' \<noteq> None \<and> challenge p' \<noteq> None")
    case True
    then obtain s ch where sc: "session p' = Some s" "challenge p' = Some ch" by blast
    have k: "keyed cr (pop p) s" using q sc s by (simp add: quiet_def)
    have "\<not> (\<exists>clear s'. Decrypt cr m s = (Inr clear, s') \<and> Decode co clear = Some (Confirm ch))"
      using n True sc s k u m unfolding confirms_def by metis
    then show ?thesis using True sc quiet_finish [OF q' sc] by (simp add: handleSession_def)
  next
    case False
    then show ?thesis using q'
      by (auto simp: handleSession_def quiet_sendErr quiet_begin split: option.split Message.split)
  qed
  then show ?thesis using quiet_closed [OF q'] q' by (simp add: process_reassembled m dispatch_def flip: p'_def)
qed

lemma quiet_step:
  assumes q: "quiet cr code p" and n: "\<not> confirms cr co p e"
  shows "quiet cr code (snd (periph_step cr co e p)) \<and> list_all plain_out (fst (periph_step cr co e p))"
proof (cases e)
  case (PChunk ev uuid chunk)
  let ?p = "p\<lparr>out := []\<rparr>"
  have "quiet cr code ?p" using q by (simp add: quiet_def)
  moreover have "\<not> confirms cr co ?p (PChunk ev uuid chunk)"
    using n by (simp add: PChunk confirms_def reassembled_def)
  ultimately have "quiet cr code (snd (process cr co ev uuid chunk ?p))" by (rule quiet_process)
  then show ?thesis
    by (auto simp: PChunk periph_step_def HandleChunk_def Let_def case_prod_unfold quiet_def split: option.split)
next
  case (PStatus st reason h)
  then show ?thesis using q
    by (auto simp: periph_step_def emitStatusAsync_def quiet_def split: option.split)
qed

lemma quiet_run:
  assumes "quiet cr code p"
    and "\<And>pre e post. es = pre @ e # post \<Longrightarrow> \<not> confirms cr co (snd (periph_run cr co pre p)) e"
  shows "quiet cr code (snd (periph_run cr co es p)) \<and> list_all plain_out (fst (periph_run cr co es p))"
  using assms(2)
proof (induction es rule: rev_induct)
  case Nil
  then show ?case using assms(1) by simp
next
  case (snoc e es)
  have i: "quiet cr code (snd (periph_run cr co es p)) \<and> list_all plain_out (fst (periph_run cr co es p))"
    by (rule snoc.IH) (use snoc.prems in \<open>metis append.assoc append_Cons\<close>)
  moreover have "\<not> confirms cr co (snd (periph_run cr co es p)) e" using snoc.prems by blast
  ultimately show ?case using quiet_step [of cr code] by (simp add: periph_run_snoc)
qed

lemma quiet_new: "quiet cr code (NewPeripheral code sn scans async att jb)"
  by (simp add: NewPeripheral_def quiet_def)

section \<open>Guesses\<close>

definition opens_handshake :: "'p event \<Rightarrow> bool" where
  "opens_handshake e =
     (case e of PChunk _ uuid chunk \<Rightarrow> uuid = UUIDSession \<and> has_flag (chunk ! 0) FlagFIN \<and> \<not> has_flag (chunk ! 0) FlagENC
              | PStatus _ _ _ \<Rightarrow> False)"

definition guesses :: "'p Peripheral \<Rightarrow> nat" where
  "guesses p = PopFailures p + (if session p = None then 0 else 1)"

lemma guesses_updates [simp]:
  "guesses (p\<lparr>LastError := x\<rparr>) = guesses p" "guesses (p\<lparr>SessionAborted := b\<rparr>) = guesses p"
  "guesses (p\<lparr>reassemblers := rs\<rparr>) = guesses p" "guesses (p\<lparr>challenge := c\<rparr>) = guesses p"
  "guesses (p\<lparr>live := l\<rparr>) = guesses p" "guesses (p\<lparr>out := xs\<rparr>) = guesses p"
  "guesses (p\<lparr>confirmed := b\<rparr>) = guesses p" "guesses (p\<lparr>JoinRequests := js\<rparr>) = guesses p"
  "guesses (p\<lparr>DoneReceived := b\<rparr>) = guesses p"
  by (simp_all add: guesses_def)

lemma guesses_send [simp]: "guesses (snd (send cr co u m e p)) = guesses p"
  by (simp add: guesses_def)

lemma guesses_sendErr [simp]: "guesses (snd (sendErr cr co u c p)) = guesses p"
  by (simp add: sendErr_def)

lemma guesses_same_session [simp]: "session p = Some s \<Longrightarrow> guesses (p\<lparr>session := Some s'\<rparr>) = guesses p"
  by (simp add: guesses_def)

lemma guesses_reject: "session p \<noteq> None \<Longrightarrow> guesses (rejectPop p) = guesses p"
  by (simp add: guesses_def rejectPop_def)

lemma guesses_begin: "guesses (snd (begin_handshake cr co ev pub p)) \<le> guesses p + 1"
  by (auto simp: begin_handshake_def cancelJoin_def Let_def split: option.split prod.split) (simp add: guesses_def)+

lemma guesses_finish: "session p = Some s \<Longrightarrow> guesses (snd (finish_handshake cr co m s ch p)) = guesses p"
  by (auto simp: finish_handshake_def Let_def guesses_reject split: option.split prod.split sum.split)

lemma guesses_open: "guesses (snd (open_message cr co m enc p)) = guesses p"
  by (auto simp: open_message_def sessionFor_def Let_def split: option.split prod.split sum.split)

lemma guesses_wifi: "guesses (snd (handleWifi cr co ev m enc p)) = guesses p"
  using guesses_open [of cr co m enc p]
  by (auto simp: handleWifi_def scanAPs_def Let_def split: option.split prod.split sum.split)

lemma guesses_joining: "guesses (snd (emitJoining cr co n p)) = guesses p"
proof (induction n arbitrary: p)
  case (Suc n)
  let ?s = "send cr co UUIDStatus (StateMessage StateJoining None None) True p"
  show ?case using Suc [of "snd ?s"] guesses_send [of cr co UUIDStatus "StateMessage StateJoining None None" True p]
    by (cases ?s) (simp split: option.split)
qed simp

lemma guesses_after: "guesses (snd (after_joining cr co n f p)) = guesses p"
  using guesses_joining [of cr co n p] by (cases "emitJoining cr co n p") (simp add: after_joining_def split: option.split)

lemma guesses_join: "guesses (snd (runJoin cr co p)) = guesses p"
  by (simp add: runJoin_def cancelJoin_def Let_def guesses_after guesses_joining split: JoinBehavior.split)

lemma guesses_config: "guesses (snd (handleConfig cr co m enc p)) = guesses p"
  using guesses_open [of cr co m enc p]
  by (auto simp: handleConfig_def guesses_join split: prod.split sum.split Message.split)

lemma guesses_session:
  "guesses (snd (handleSession cr co ev m enc p)) \<le> guesses p + (if enc then 0 else 1)"
  using guesses_begin [of cr co ev _ p]
  by (auto simp: handleSession_def guesses_finish split: option.split Message.split)

lemma guesses_process:
  "guesses (snd (process cr co ev uuid chunk p)) \<le> guesses p + (if opens_handshake (PChunk ev uuid chunk) then 1 else 0)"
proof (cases "\<exists>m. reassembled uuid chunk p = Inr (Some m)")
  case True
  then obtain m where m: "reassembled uuid chunk p = Inr (Some m)" by blast
  define p' where "p' = after_reassembly uuid chunk p"
  have g: "guesses p' = guesses p" by (simp add: p'_def after_reassembly_def)
  have "has_flag (chunk ! 0) FlagFIN" using m unfolding reassembled_def by (rule Add_complete)
  then show ?thesis
    using guesses_session [of cr co ev m "has_flag (chunk ! 0) FlagENC" p'] g
    by (cases "has_flag (chunk ! 0) FlagENC")
      (auto simp: process_reassembled m dispatch_def opens_handshake_def guesses_wifi guesses_config simp flip: p'_def)
next
  case False
  then show ?thesis by (auto simp: process_reassembled after_reassembly_def split: sum.split option.split)
qed

lemma guesses_step:
  "guesses (snd (periph_step cr co e p)) \<le> guesses p + (if opens_handshake e then 1 else 0)"
proof (cases e)
  case (PChunk ev uuid chunk)
  show ?thesis using guesses_process [of cr co ev uuid chunk "p\<lparr>out := []\<rparr>"]
    by (cases "fst (process cr co ev uuid chunk (p\<lparr>out := []\<rparr>))")
      (simp_all add: PChunk periph_step_def HandleChunk_def Let_def case_prod_unfold)
next
  case (PStatus st reason h)
  then show ?thesis
    by (auto simp: periph_step_def emitStatusAsync_def Let_def guesses_def split: option.split prod.split sum.split)
qed

text \<open>Failed guesses are only ever added to.\<close>

lemma sendErr_PopFailures [simp]: "PopFailures (snd (sendErr cr co u c p)) = PopFailures p"
  by (simp add: sendErr_def)

lemma begin_PopFailures: "PopFailures (snd (begin_handshake cr co ev pub p)) = PopFailures p"
  by (auto simp: begin_handshake_def cancelJoin_def Let_def split: option.split prod.split)

lemma finish_PopFailures: "PopFailures p \<le> PopFailures (snd (finish_handshake cr co m s ch p))"
  by (auto simp: finish_handshake_def rejectPop_def Let_def split: option.split prod.split sum.split)

lemma open_PopFailures: "PopFailures (snd (open_message cr co m enc p)) = PopFailures p"
  by (auto simp: open_message_def sessionFor_def Let_def split: option.split prod.split sum.split)

lemma wifi_PopFailures: "PopFailures (snd (handleWifi cr co ev m enc p)) = PopFailures p"
  using open_PopFailures [of cr co m enc p]
  by (auto simp: handleWifi_def scanAPs_def Let_def split: option.split prod.split sum.split)

lemma joining_PopFailures: "PopFailures (snd (emitJoining cr co n p)) = PopFailures p"
proof (induction n arbitrary: p)
  case (Suc n)
  let ?s = "send cr co UUIDStatus (StateMessage StateJoining None None) True p"
  show ?case using Suc [of "snd ?s"] send_PopFailures [of cr co UUIDStatus "StateMessage StateJoining None None" True p]
    by (cases ?s) (simp split: option.split)
qed simp

lemma after_PopFailures: "PopFailures (snd (after_joining cr co n f p)) = PopFailures p"
  using joining_PopFailures [of cr co n p] by (cases "emitJoining cr co n p") (simp add: after_joining_def split: option.split)

lemma config_PopFailures: "PopFailures (snd (handleConfig cr co m enc p)) = PopFailures p"
  using open_PopFailures [of cr co m enc p]
  by (auto simp: handleConfig_def runJoin_def cancelJoin_def Let_def after_PopFailures joining_PopFailures
      split: prod.split sum.split Message.split JoinBehavior.split)

lemma session_PopFailures: "PopFailures p \<le> PopFailures (snd (handleSession cr co ev m enc p))"
  by (auto simp: handleSession_def begin_PopFailures finish_PopFailures split: option.split Message.split)

lemma HandleChunk_PopFailures: "PopFailures p \<le> PopFailures (snd (HandleChunk cr co ev uuid chunk p))"
proof -
  let ?p = "p\<lparr>out := []\<rparr>"
  have a: "PopFailures (after_reassembly uuid chunk ?p) = PopFailures p" by (simp add: after_reassembly_def)
  have "PopFailures p \<le> PopFailures (snd (process cr co ev uuid chunk ?p))"
    using a session_PopFailures [of "after_reassembly uuid chunk ?p"]
    by (auto simp: process_reassembled dispatch_def wifi_PopFailures config_PopFailures split: sum.split option.split)
  then show ?thesis
    by (cases "fst (process cr co ev uuid chunk ?p)") (simp_all add: HandleChunk_def Let_def case_prod_unfold)
qed

lemma status_PopFailures: "PopFailures (snd (emitStatusAsync cr co st reason h p)) = PopFailures p"
  by (auto simp: emitStatusAsync_def Let_def split: option.split prod.split sum.split)

section \<open>Properties\<close>

text \<open>
  Property C19: nothing happens without the setup code. In any run of the peripheral, whatever chunks
  arrive on whatever characteristics, if it was ever confirmed at the end, took a join request or a
  completion, or sent one encrypted chunk, then at some point before an encrypted message on the
  session characteristic was opened with a key derived from its own setup code and an ECDH exchange
  of its own, and it contained the challenge of that handshake.
\<close>

theorem no_access_without_confirm:
  assumes "periph_run cr co es (NewPeripheral code sn scans async att jb) = (xs, p)"
    and "confirmed p \<or> JoinRequests p \<noteq> [] \<or> DoneReceived p \<or> list_ex (\<lambda>x. \<not> plain_out x) xs"
  shows "\<exists>pre e post. es = pre @ e # post \<and>
           confirms cr co (snd (periph_run cr co pre (NewPeripheral code sn scans async att jb))) e"
proof (rule ccontr)
  assume n: "\<not> ?thesis"
  have "quiet cr code p \<and> list_all plain_out xs"
    using quiet_run [OF quiet_new, of es cr co code sn scans async att jb] n assms(1) by fastforce
  then show False using assms(2) by (auto simp: quiet_def list_all_iff list_ex_iff)
qed

definition ex_codec :: codec where
  "ex_codec = \<lparr>co_marshal = (\<lambda>_. [0]),
     co_unmarshal = (\<lambda>bs.
       if bs = [1] then Some [(''op'', JStr ''hello''), (''pub'', JStr ''p'')]
       else if bs = [2] then Some [(''op'', JStr ''confirm''), (''challenge'', JStr ''c'')]
       else if bs = [3] then Some [(''op'', JStr ''join''), (''ssid'', JStr ''home'')] else None),
     co_b64 = (\<lambda>_. ''x''), co_unb64 = (\<lambda>_. Some [9]), co_wide_int = (\<lambda>_. 0)\<rparr>"

definition ex_env :: "unit env" where
  "ex_env = \<lparr>ev_key = Some (), ev_random = Some [9], ev_scan = None\<rparr>"

definition ex_periph :: "unit Peripheral" where
  "ex_periph = NewPeripheral ''A'' ''S'' [] False 0 None"

definition ex_sealed :: "64 word \<Rightarrow> byte \<Rightarrow> byte list" where
  "ex_sealed c b = [3, 0] @ NonceFor DirectionAppToHub c @ replicate 16 0 @ [b]"

definition ex_events :: "unit event list" where
  "ex_events = [PChunk ex_env UUIDSession [1, 0, 1], PChunk ex_env UUIDSession (ex_sealed 0 2),
     PChunk ex_env UUIDConfig (ex_sealed 1 3)]"

lemma ex_join: "JoinRequests (snd (periph_run ex_crypto ex_codec ex_events ex_periph)) = [(''home'', None)]"
  by code_simp

theorem no_access_without_confirm_witness:
  "\<exists>pre e post. ex_events = pre @ e # post \<and> confirms ex_crypto ex_codec (snd (periph_run ex_crypto ex_codec pre ex_periph)) e"
  using no_access_without_confirm [of ex_crypto ex_codec ex_events "''A''" "''S''" "[]" False 0 None
      "fst (periph_run ex_crypto ex_codec ex_events ex_periph)" "snd (periph_run ex_crypto ex_codec ex_events ex_periph)"]
    ex_join unfolding ex_periph_def by simp

text \<open>
  One guess of the setup code per handshake. In every run the failed guesses, plus one
  while a handshake is open, are at most the plaintext messages that arrived complete on the session
  characteristic: an open session refuses a second guess, and a failed one costs a new handshake.
\<close>

theorem one_guess_per_handshake:
  "PopFailures (snd (periph_run cr co es (NewPeripheral code sn scans async att jb)))
     + (if session (snd (periph_run cr co es (NewPeripheral code sn scans async att jb))) = None then 0 else 1)
   \<le> length (filter opens_handshake es)"
proof -
  let ?g = "\<lambda>es. guesses (snd (periph_run cr co es (NewPeripheral code sn scans async att jb)))"
  have "?g es \<le> length (filter opens_handshake es)"
  proof (induction es rule: rev_induct)
    case Nil
    then show ?case by (simp add: guesses_def NewPeripheral_def)
  next
    case (snoc e es)
    then show ?case
      using guesses_step [of cr co e "snd (periph_run cr co es (NewPeripheral code sn scans async att jb))"]
      by (auto simp: periph_run_snoc split: if_splits)
  qed
  then show ?thesis by (simp add: guesses_def)
qed

end
