(* ===== verification/ProvisionGate.thy ===== *)
theory ProvisionGate
  imports Peripheral
begin

text \<open>
  cmd/provision/throttle.go and window.go: when the hub may advertise for commissioning. Instants are
  \<open>gotime\<close>; the clock each method reads is its argument. The content of the window file is an
  option (\<open>None\<close>: it cannot be read), as bytes.
\<close>

section \<open>The throttle\<close>

definition popThrottleThreshold :: int where "popThrottleThreshold = 3"
definition popThrottleBackoff :: duration where "popThrottleBackoff = 5 * 60 * second"

record popThrottle =
  threshold :: int
  backoff :: duration
  failures :: int
  backoffUntil :: gotime

definition newPopThrottle :: popThrottle where
  "newPopThrottle =
     \<lparr>threshold = popThrottleThreshold, backoff = popThrottleBackoff, failures = 0, backoffUntil = zero_time\<rparr>"

definition OnPopFailure :: "gotime \<Rightarrow> popThrottle \<Rightarrow> popThrottle" where
  "OnPopFailure now t =
     (if \<not> is_zero_time (backoffUntil t) then t
      else let t1 = t\<lparr>failures := failures t + 1\<rparr> in
        if threshold t \<le> failures t1 then t1\<lparr>backoffUntil := now + backoff t\<rparr> else t1)"

definition Allow :: "gotime \<Rightarrow> popThrottle \<Rightarrow> bool \<times> popThrottle" where
  "Allow now t =
     (if is_zero_time (backoffUntil t) then (True, t)
      else if now < backoffUntil t then (False, t)
      else (True, t\<lparr>backoffUntil := zero_time, failures := 0\<rparr>))"

definition backingOff :: "gotime \<Rightarrow> popThrottle \<Rightarrow> bool" where
  "backingOff now t \<longleftrightarrow> \<not> is_zero_time (backoffUntil t) \<and> now < backoffUntil t"

section \<open>The re-provision window\<close>

text \<open>\<open>strconv.ParseInt\<close> in base 10 and 64 bits: an optional sign and at least one digit,
  within range. (Underscores are accepted in base 0 only.)\<close>

definition is_digit :: "char \<Rightarrow> bool" where
  "is_digit c \<longleftrightarrow> CHR ''0'' \<le> c \<and> c \<le> CHR ''9''"

definition digit_value :: "char \<Rightarrow> int" where
  "digit_value c = int (of_char c) - 48"

definition digits_value :: "string \<Rightarrow> int" where
  "digits_value s = foldl (\<lambda>n c. 10 * n + digit_value c) 0 s"

definition ParseInt64 :: "string \<Rightarrow> int option" where
  "ParseInt64 s =
     (let (neg, ds) = (case s of [] \<Rightarrow> (False, [])
                       | c # cs \<Rightarrow> if c = CHR ''-'' then (True, cs) else if c = CHR ''+'' then (False, cs) else (False, s));
          n = (if neg then - digits_value ds else digits_value ds)
      in if ds = [] \<or> \<not> list_all is_digit ds \<or> \<not> in_int64 n then None else Some n)"

text \<open>\<open>strings.TrimSpace\<close>: the white space of Unicode, as UTF-8.\<close>

definition space_encodings :: "string list" where
  "space_encodings =
     [[CHR 0x09], [CHR 0x0A], [CHR 0x0B], [CHR 0x0C], [CHR 0x0D], [CHR 0x20], [CHR 0xC2, CHR 0x85], [CHR 0xC2, CHR 0xA0],
      [CHR 0xE1, CHR 0x9A, CHR 0x80]]
     @ map (\<lambda>b. [CHR 0xE2, CHR 0x80, b])
         [CHR 0x80, CHR 0x81, CHR 0x82, CHR 0x83, CHR 0x84, CHR 0x85, CHR 0x86, CHR 0x87, CHR 0x88, CHR 0x89, CHR 0x8A,
          CHR 0xA8, CHR 0xA9, CHR 0xAF]
     @ [[CHR 0xE2, CHR 0x81, CHR 0x9F], [CHR 0xE3, CHR 0x80, CHR 0x80]]"

definition starting_space :: "string list \<Rightarrow> string \<Rightarrow> nat" where
  "starting_space ws s = (case filter (\<lambda>w. take (length w) s = w) ws of [] \<Rightarrow> 0 | w # _ \<Rightarrow> length w)"

function trim_left :: "string list \<Rightarrow> string \<Rightarrow> string" where
  "trim_left ws s =
     (if starting_space ws s = 0 \<or> s = [] then s else trim_left ws (drop (starting_space ws s) s))"
  by pat_completeness auto
termination by (relation "measure (\<lambda>(_, s). length s)") auto

declare trim_left.simps [simp del]

definition TrimSpace :: "string \<Rightarrow> string" where
  "TrimSpace s = rev (trim_left (map rev space_encodings) (rev (trim_left space_encodings s)))"

definition windowOpen :: "string option \<Rightarrow> gotime \<Rightarrow> bool" where
  "windowOpen file now =
     (case file of
        None \<Rightarrow> False
      | Some data \<Rightarrow> (case ParseInt64 (TrimSpace data) of None \<Rightarrow> False | Some ts \<Rightarrow> now < unix_time ts))"

section \<open>The advertising gate and the advertiser\<close>

text \<open>internal/provision/gatt/advertise.go. What \<open>os.Stat\<close> says of the marker file, and
  whether the radio call succeeds, are inputs. A transition reported to \<open>onChange\<close> is the new
  state in a list.\<close>

datatype stat_result = StatOk | StatNotExist | StatError

definition ShouldAdvertise :: "bool option \<Rightarrow> stat_result \<Rightarrow> bool" where
  "ShouldAdvertise window st = (if window = Some True then True else st = StatNotExist)"

record Advertiser =
  advertising :: bool
  stopped :: bool

definition NewAdvertiser :: Advertiser where
  "NewAdvertiser = \<lparr>advertising = False, stopped = False\<rparr>"

text \<open>The gate is asked only when the advertiser is not stopped; asking it may change its state.\<close>

definition Reconcile :: "('g \<Rightarrow> bool \<times> 'g) \<Rightarrow> bool \<Rightarrow> 'g \<Rightarrow> Advertiser \<Rightarrow> bool list \<times> 'g \<times> Advertiser" where
  "Reconcile gate radio_ok g a =
     (if stopped a then ([], g, a)
      else let (want, g') = gate g in
        if want \<and> \<not> advertising a
        then (if radio_ok then ([True], g', a\<lparr>advertising := True\<rparr>) else ([], g', a))
        else if \<not> want \<and> advertising a
        then (if radio_ok then ([False], g', a\<lparr>advertising := False\<rparr>) else ([], g', a))
        else ([], g', a))"

definition Stop :: "Advertiser \<Rightarrow> bool list \<times> Advertiser" where
  "Stop a = (let a1 = a\<lparr>stopped := True\<rparr> in
     if \<not> advertising a then ([], a1) else ([False], a1\<lparr>advertising := False\<rparr>))"

section \<open>The dispatcher\<close>

text \<open>internal/provision/gatt/dispatch.go. The edges reported to the observer are numbers.\<close>

record 'p Dispatcher =
  d_p :: "'p Peripheral"
  last_established :: bool
  last_popFailures :: nat

definition NewDispatcher :: "'p Peripheral \<Rightarrow> 'p Dispatcher" where
  "NewDispatcher p = \<lparr>d_p = p, last_established = False, last_popFailures = 0\<rparr>"

definition observeLocked :: "'p Dispatcher \<Rightarrow> (nat \<times> nat) \<times> 'p Dispatcher" where
  "observeLocked d =
     (let est = confirmed (d_p d); pf = PopFailures (d_p d) in
      ((if est \<and> \<not> last_established d then 1 else 0, pf - last_popFailures d),
       d\<lparr>last_established := est, last_popFailures := max (last_popFailures d) pf\<rparr>))"

definition OnWrite ::
  "'p crypto \<Rightarrow> codec \<Rightarrow> 'p env \<Rightarrow> string \<Rightarrow> byte list \<Rightarrow> 'p Dispatcher \<Rightarrow> outbound list \<times> (nat \<times> nat) \<times> 'p Dispatcher" where
  "OnWrite cr co ev uuid chunk d =
     (let (outs, p) = HandleChunk cr co ev uuid chunk (d_p d);
          (edges, d') = observeLocked (d\<lparr>d_p := p\<rparr>)
      in (outs, edges, d'))"

definition Reset :: "'p Peripheral \<Rightarrow> 'p Dispatcher \<Rightarrow> 'p Dispatcher" where
  "Reset p d = d\<lparr>d_p := p, last_established := False, last_popFailures := 0\<rparr>"

section \<open>The service\<close>

text \<open>The event loop of cmd/provision/main.go with the callbacks it wires: a write on a
  characteristic, a status of a live join, the reconcile tick, a SIGHUP, the shutdown. \<open>np\<close> is
  the peripheral the factory builds.\<close>

record 'p service =
  disp :: "'p Dispatcher"
  throttle :: popThrottle
  adv :: Advertiser

datatype 'p service_event =
    SWrite gotime "'p env" string "byte list"
  | SStatus ProvisioningState "WifiFailureReason option" "HandoffInfo option"
  | STick gotime stat_result "string option" bool
  | SHup gotime stat_result "string option" bool
  | SQuit

definition new_service :: "'p Peripheral \<Rightarrow> 'p service" where
  "new_service np = \<lparr>disp = NewDispatcher np, throttle = newPopThrottle, adv = NewAdvertiser\<rparr>"

definition gate :: "gotime \<Rightarrow> stat_result \<Rightarrow> string option \<Rightarrow> popThrottle \<Rightarrow> bool \<times> popThrottle" where
  "gate now st file t =
     (let (ok, t') = Allow now t in (ok \<and> ShouldAdvertise (Some (windowOpen file now)) st, t'))"

definition reconcile_adv :: "gotime \<Rightarrow> stat_result \<Rightarrow> string option \<Rightarrow> bool \<Rightarrow> 'p service \<Rightarrow> 'p service" where
  "reconcile_adv now st file radio_ok s =
     (let (_, t, a) = Reconcile (gate now st file) radio_ok (throttle s) (adv s) in s\<lparr>throttle := t, adv := a\<rparr>)"

definition service_step ::
  "'p crypto \<Rightarrow> codec \<Rightarrow> 'p Peripheral \<Rightarrow> 'p service_event \<Rightarrow> 'p service \<Rightarrow> outbound list \<times> 'p service" where
  "service_step cr co np e s =
     (case e of
        SWrite now ev uuid chunk \<Rightarrow>
          (let (outs, (_, fails), d) = OnWrite cr co ev uuid chunk (disp s)
           in (outs, s\<lparr>disp := d, throttle := (OnPopFailure now ^^ fails) (throttle s)\<rparr>))
      | SStatus st reason h \<Rightarrow>
          (let (outs, p) = emitStatusAsync cr co st reason h (d_p (disp s))
           in (outs, s\<lparr>disp := (disp s)\<lparr>d_p := p\<rparr>\<rparr>))
      | STick now st file radio_ok \<Rightarrow>
          (let s1 = reconcile_adv now st file radio_ok s
           in ([], if DoneReceived (d_p (disp s1)) then s1\<lparr>disp := Reset np (disp s1)\<rparr> else s1))
      | SHup now st file radio_ok \<Rightarrow> ([], reconcile_adv now st file radio_ok s)
      | SQuit \<Rightarrow> ([], s\<lparr>adv := snd (Stop (adv s))\<rparr>))"

definition service_run ::
  "'p crypto \<Rightarrow> codec \<Rightarrow> 'p Peripheral \<Rightarrow> 'p service_event list \<Rightarrow> 'p service \<Rightarrow> 'p service" where
  "service_run cr co np es s = fold (\<lambda>e s. snd (service_step cr co np e s)) es s"

definition event_time :: "'p service_event \<Rightarrow> gotime option" where
  "event_time e =
     (case e of SWrite now _ _ _ \<Rightarrow> Some now | STick now _ _ _ \<Rightarrow> Some now | SHup now _ _ _ \<Rightarrow> Some now | _ \<Rightarrow> None)"

text \<open>The failed guesses of a run, counted at the peripheral.\<close>

fun failed_guesses :: "'p crypto \<Rightarrow> codec \<Rightarrow> 'p Peripheral \<Rightarrow> 'p service_event list \<Rightarrow> 'p service \<Rightarrow> nat" where
  "failed_guesses cr co np [] s = 0"
| "failed_guesses cr co np (e # es) s =
     (let s' = snd (service_step cr co np e s) in
      (case e of SWrite _ _ _ _ \<Rightarrow> PopFailures (d_p (disp s')) - PopFailures (d_p (disp s)) | _ \<Rightarrow> 0)
        + failed_guesses cr co np es s')"

lemma service_run_simps [simp]:
  "service_run cr co np [] s = s"
  "service_run cr co np (e # es) s = service_run cr co np es (snd (service_step cr co np e s))"
  "service_run cr co np (xs @ ys) s = service_run cr co np ys (service_run cr co np xs s)"
  by (simp_all add: service_run_def)

lemma failed_guesses_append:
  "failed_guesses cr co np (xs @ ys) s =
     failed_guesses cr co np xs s + failed_guesses cr co np ys (service_run cr co np xs s)"
  by (induction xs arbitrary: s) (simp_all add: Let_def)

section \<open>The throttle's windows\<close>

lemma OnPopFailure_backing: "backoffUntil t \<noteq> 0 \<Longrightarrow> (OnPopFailure now ^^ n) t = t"
  by (induction n) (simp_all add: OnPopFailure_def is_zero_time_def)

lemma OnPopFailure_pow_below:
  "backoffUntil t = 0 \<Longrightarrow> failures t + int n < threshold t \<Longrightarrow>
     (OnPopFailure now ^^ n) t = t\<lparr>failures := failures t + int n\<rparr>"
  by (induction n) (simp_all add: OnPopFailure_def is_zero_time_def Let_def)

lemma OnPopFailure_trips:
  assumes "backoffUntil t = 0" and "failures t < threshold t" and "threshold t \<le> failures t + int n" and "now + backoff t \<noteq> 0"
  shows "backoffUntil ((OnPopFailure now ^^ n) t) = now + backoff t"
proof -
  define k where "k = nat (threshold t - failures t - 1)"
  define j where "j = n - (1 + k)"
  have "1 + k \<le> n" using assms(2,3) by (simp add: k_def nat_le_iff)
  then have n: "n = j + (1 + k)" by (simp add: j_def)
  have "(OnPopFailure now ^^ k) t = t\<lparr>failures := failures t + int k\<rparr>"
    using assms(1,2) by (intro OnPopFailure_pow_below) (simp_all add: k_def)
  then have "backoffUntil ((OnPopFailure now ^^ (1 + k)) t) = now + backoff t"
    using assms(1,2) by (simp add: OnPopFailure_def is_zero_time_def Let_def k_def)
  moreover have "(OnPopFailure now ^^ n) t = (OnPopFailure now ^^ j) ((OnPopFailure now ^^ (1 + k)) t)"
    using funpow_add [of j "1 + k" "OnPopFailure now"] by (simp only: n comp_apply)
  ultimately show ?thesis using OnPopFailure_backing [of "(OnPopFailure now ^^ (1 + k)) t" j now] assms(4) by simp
qed

lemma observe_fails:
  "last_popFailures d \<le> PopFailures (d_p d) \<Longrightarrow>
     snd (fst (observeLocked d)) = PopFailures (d_p d) - last_popFailures d
     \<and> d_p (snd (observeLocked d)) = d_p d \<and> last_popFailures (snd (observeLocked d)) = PopFailures (d_p d)"
  by (simp add: observeLocked_def Let_def)

definition tracked :: "'p service \<Rightarrow> bool" where
  "tracked s \<longleftrightarrow> last_popFailures (disp s) = PopFailures (d_p (disp s)) \<and>
     threshold (throttle s) = popThrottleThreshold \<and> backoff (throttle s) = popThrottleBackoff"

lemma OnPopFailure_config [simp]:
  "threshold ((OnPopFailure now ^^ n) t) = threshold t" "backoff ((OnPopFailure now ^^ n) t) = backoff t"
  by (induction n) (simp_all add: OnPopFailure_def Let_def)

lemma write_step:
  assumes "tracked s" and s'_def: "s' = snd (service_step cr co np (SWrite now ev uuid chunk) s)"
  shows "tracked s'" and "adv s' = adv s"
    and "throttle s' = (OnPopFailure now ^^ (PopFailures (d_p (disp s')) - PopFailures (d_p (disp s)))) (throttle s)"
proof -
  define p where "p = snd (HandleChunk cr co ev uuid chunk (d_p (disp s)))"
  define d where "d = (disp s)\<lparr>d_p := p\<rparr>"
  have d: "d_p d = p" "last_popFailures d = PopFailures (d_p (disp s))" using assms(1) by (simp_all add: d_def tracked_def)
  have m: "last_popFailures d \<le> PopFailures (d_p d)"
    unfolding d p_def by (rule HandleChunk_PopFailures)
  have s': "s' = s\<lparr>disp := snd (observeLocked d), throttle := (OnPopFailure now ^^ snd (fst (observeLocked d))) (throttle s)\<rparr>"
    by (simp add: s'_def service_step_def OnWrite_def case_prod_unfold Let_def d_def p_def)
  show "tracked s'" "adv s' = adv s"
    "throttle s' = (OnPopFailure now ^^ (PopFailures (d_p (disp s')) - PopFailures (d_p (disp s)))) (throttle s)"
    using observe_fails [OF m] assms(1) by (simp_all add: s' d tracked_def)
qed

lemma Allow_config [simp]:
  "threshold (snd (Allow now t)) = threshold t" "backoff (snd (Allow now t)) = backoff t"
  by (simp_all add: Allow_def)

lemma gate_throttle [simp]: "snd (gate now st file t) = snd (Allow now t)"
  by (simp add: gate_def case_prod_unfold Let_def)

lemma Reconcile_state:
  "fst (snd (Reconcile g ok t a)) = (if stopped a then t else snd (g t))"
  by (simp add: Reconcile_def case_prod_unfold Let_def)

lemma reconcile_fields [simp]:
  "disp (reconcile_adv now st file ok s) = disp s"
  "throttle (reconcile_adv now st file ok s) = (if stopped (adv s) then throttle s else snd (Allow now (throttle s)))"
  by (simp_all add: reconcile_adv_def case_prod_unfold Let_def Reconcile_state)

lemma tracked_reconcile: "tracked s \<Longrightarrow> tracked (reconcile_adv now st file ok s)"
  by (simp add: tracked_def)

lemma tracked_step:
  assumes "tracked s" and "PopFailures np = 0"
  shows "tracked (snd (service_step cr co np e s))"
proof (cases e)
  case (SWrite now ev uuid chunk)
  then show ?thesis using write_step(1) [OF assms(1) refl] by simp
next
  case (SStatus st reason h)
  then show ?thesis using assms status_PopFailures [of cr co st reason h "d_p (disp s)"]
    by (simp add: service_step_def tracked_def case_prod_unfold Let_def)
next
  case (STick now st w ok)
  then show ?thesis using assms by (simp add: service_step_def tracked_def Let_def Reset_def)
next
  case (SHup now st w ok)
  then show ?thesis using assms by (simp add: service_step_def tracked_def)
next
  case SQuit
  then show ?thesis using assms by (simp add: service_step_def tracked_def)
qed

lemma tracked_run: "tracked s \<Longrightarrow> PopFailures np = 0 \<Longrightarrow> tracked (service_run cr co np es s)"
  by (induction es arbitrary: s) (simp_all add: tracked_step)

lemma Allow_open [simp]: "backoffUntil t = 0 \<Longrightarrow> Allow now t = (True, t)"
  by (simp add: Allow_def is_zero_time_def)

lemma Allow_backing: "backoffUntil t \<noteq> 0 \<Longrightarrow> now < backoffUntil t \<Longrightarrow> Allow now t = (False, t)"
  by (simp add: Allow_def is_zero_time_def)

text \<open>What a step that is not a write does to the throttle.\<close>

lemma other_step:
  assumes "\<And>now ev uuid chunk. e \<noteq> SWrite now ev uuid chunk"
  shows "throttle (snd (service_step cr co np e s)) =
     (case e of STick now _ _ _ \<Rightarrow> if stopped (adv s) then throttle s else snd (Allow now (throttle s))
              | SHup now _ _ _ \<Rightarrow> if stopped (adv s) then throttle s else snd (Allow now (throttle s))
              | _ \<Rightarrow> throttle s)"
proof (cases e)
  case (SWrite now ev uuid chunk)
  then show ?thesis using assms by blast
qed (simp_all add: service_step_def case_prod_unfold Let_def)

text \<open>Before the third failure the throttle counts; no event resets it.\<close>

lemma counting_run:
  assumes "tracked s" and "PopFailures np = 0" and "backoffUntil (throttle s) = 0" and "failures (throttle s) = int k"
    and "k + failed_guesses cr co np es s < 3"
  shows "backoffUntil (throttle (service_run cr co np es s)) = 0
    \<and> failures (throttle (service_run cr co np es s)) = int (k + failed_guesses cr co np es s)"
  using assms(1,3-)
proof (induction es arbitrary: s k)
  case (Cons e es)
  let ?s = "snd (service_step cr co np e s)"
  let ?n = "failed_guesses cr co np [e] s"
  have f: "failed_guesses cr co np (e # es) s = ?n + failed_guesses cr co np es ?s"
    by (simp add: Let_def)
  have "backoffUntil (throttle ?s) = 0 \<and> failures (throttle ?s) = int (k + ?n)"
  proof (cases "\<exists>now ev uuid chunk. e = SWrite now ev uuid chunk")
    case True
    then obtain now ev uuid chunk where e: "e = SWrite now ev uuid chunk" by blast
    have "threshold (throttle s) = 3" using Cons.prems(1) by (simp add: tracked_def popThrottleThreshold_def)
    then show ?thesis
      using write_step(3) [OF Cons.prems(1) refl, of cr co np now ev uuid chunk]
        OnPopFailure_pow_below [of "throttle s" ?n _] Cons.prems(2,3,4) f
      by (simp add: e)
  next
    case False
    then have "throttle ?s = throttle s" using other_step [of e cr co np s] Cons.prems(2)
      by (auto split: service_event.split)
    moreover have "?n = 0" using False by (auto simp: Let_def split: service_event.split)
    ultimately show ?thesis using Cons.prems(2,3) by simp
  qed
  then show ?case
    using Cons.IH [of ?s "k + ?n"] tracked_step [OF Cons.prems(1) assms(2)] Cons.prems(4) f by simp
qed simp

text \<open>While a window is open nothing ends it.\<close>

lemma backing_run:
  assumes "tracked s" and "PopFailures np = 0" and "backoffUntil (throttle s) = u" and "u \<noteq> 0"
    and "\<forall>e \<in> set es. \<forall>now. event_time e = Some now \<longrightarrow> now < u"
  shows "throttle (service_run cr co np es s) = throttle s"
  using assms(1,3,5)
proof (induction es arbitrary: s)
  case (Cons e es)
  let ?s = "snd (service_step cr co np e s)"
  have "throttle ?s = throttle s"
  proof (cases "\<exists>now ev uuid chunk. e = SWrite now ev uuid chunk")
    case True
    then show ?thesis using write_step(3) [OF Cons.prems(1) refl] OnPopFailure_backing [of "throttle s"] Cons.prems(2) assms(4)
      by auto
  next
    case False
    have "\<forall>now. event_time e = Some now \<longrightarrow> Allow now (throttle s) = (False, throttle s)"
      using Cons.prems(2,3) assms(4) by (auto intro: Allow_backing)
    then show ?thesis using other_step [of e cr co np s] False
      by (auto simp: event_time_def split: service_event.splits)
  qed
  then show ?case using Cons.IH [of ?s] tracked_step [OF Cons.prems(1) assms(2)] Cons.prems(2,3) by simp
qed simp

lemma silent_reconcile:
  assumes "backoffUntil (throttle s) \<noteq> 0" and "now < backoffUntil (throttle s)"
  shows "\<not> advertising (adv (reconcile_adv now st file True s)) \<or> stopped (adv s)"
  using Allow_backing [OF assms] by (simp add: reconcile_adv_def Reconcile_def gate_def case_prod_unfold Let_def)

lemma stopped_silent:
  "(stopped (adv s) \<longrightarrow> \<not> advertising (adv s)) \<Longrightarrow>
     (let s' = snd (service_step cr co np e s) in stopped (adv s') \<longrightarrow> \<not> advertising (adv s'))"
proof (cases e)
  case (SWrite now ev uuid chunk)
  assume "stopped (adv s) \<longrightarrow> \<not> advertising (adv s)"
  then show ?thesis by (simp add: SWrite service_step_def case_prod_unfold Let_def)
qed (auto simp: service_step_def case_prod_unfold Let_def reconcile_adv_def Reconcile_def Stop_def)

lemma stopped_silent_run:
  "(stopped (adv s) \<longrightarrow> \<not> advertising (adv s)) \<Longrightarrow>
     stopped (adv (service_run cr co np es s)) \<Longrightarrow> \<not> advertising (adv (service_run cr co np es s))"
  by (induction es arbitrary: s) (use stopped_silent in \<open>fastforce simp: Let_def\<close>)+

lemma reconcile_stopped: "stopped (adv (reconcile_adv now st file ok s)) = stopped (adv s)"
  by (simp add: reconcile_adv_def Reconcile_def case_prod_unfold Let_def)

section \<open>Properties\<close>

text \<open>
  Property C18: brute force is throttled. In any run of the service, let a write be the one with which
  the failed guesses of the setup code, counted at the peripherals over all sessions, reach three.
  Then for the five minutes that follow, whatever else arrives, every reconcile whose radio call
  succeeds leaves the hub off the air.
\<close>

theorem brute_force_throttled:
  assumes "np = NewPeripheral code sn scans async att jb"
    and "failed_guesses cr co np es (new_service np) < 3"
    and "3 \<le> failed_guesses cr co np (es @ [SWrite t ev uuid chunk]) (new_service np)"
    and "0 \<le> t" and "t' < t + popThrottleBackoff"
    and "\<forall>e \<in> set es'. \<forall>now. event_time e = Some now \<longrightarrow> now < t + popThrottleBackoff"
  shows "\<not> advertising (adv (reconcile_adv t' st w True
           (service_run cr co np (es @ SWrite t ev uuid chunk # es') (new_service np))))"
proof -
  let ?s0 = "new_service np"
  define s1 where "s1 = service_run cr co np es ?s0"
  define s2 where "s2 = snd (service_step cr co np (SWrite t ev uuid chunk) s1)"
  define s3 where "s3 = service_run cr co np es' s2"
  have np: "PopFailures np = 0" by (simp add: assms(1) NewPeripheral_def)
  have t0: "tracked ?s0" by (simp add: tracked_def new_service_def NewDispatcher_def newPopThrottle_def np)
  then have t1: "tracked s1" unfolding s1_def by (rule tracked_run [OF _ np])
  have t2: "tracked s2" unfolding s2_def by (rule tracked_step [OF t1 np])
  let ?k = "failed_guesses cr co np es ?s0"
  have c: "backoffUntil (throttle s1) = 0" "failures (throttle s1) = int ?k"
    using counting_run [OF t0 np, of 0 cr co es] assms(2)
    by (simp_all add: new_service_def newPopThrottle_def zero_time_def s1_def)
  have th: "threshold (throttle s1) = 3" "backoff (throttle s1) = popThrottleBackoff"
    using t1 by (simp_all add: tracked_def popThrottleThreshold_def)
  define n where "n = PopFailures (d_p (disp s2)) - PopFailures (d_p (disp s1))"
  have n: "3 \<le> ?k + n" using assms(3) by (simp add: failed_guesses_append Let_def n_def s2_def s1_def)
  have "throttle s2 = (OnPopFailure t ^^ n) (throttle s1)"
    unfolding n_def by (rule write_step(3) [OF t1 s2_def])
  then have u: "backoffUntil (throttle s2) = t + popThrottleBackoff"
    using OnPopFailure_trips [of "throttle s1" n t] c th n assms(2,4)
    by (simp add: popThrottleBackoff_def second_def)
  have nz: "t + popThrottleBackoff \<noteq> 0" using assms(4) by (simp add: popThrottleBackoff_def second_def)
  have "throttle s3 = throttle s2"
    unfolding s3_def by (rule backing_run [OF t2 np u nz assms(6)])
  then have "\<not> advertising (adv (reconcile_adv t' st w True s3)) \<or> stopped (adv s3)"
    using silent_reconcile [of s3 t' st w] u nz assms(5) by simp
  moreover have "\<not> advertising (adv (reconcile_adv t' st w True s3))" if "stopped (adv s3)"
  proof -
    have "\<not> advertising (adv s3)"
      using stopped_silent_run [of ?s0 cr co np "es @ SWrite t ev uuid chunk # es'"] that
      by (simp add: s3_def s2_def s1_def new_service_def NewAdvertiser_def)
    then show ?thesis using that by (simp add: reconcile_adv_def Reconcile_def)
  qed
  ultimately show ?thesis by (auto simp: s3_def s2_def s1_def)
qed

definition ex_hello :: "unit service_event" where
  "ex_hello = SWrite 1 ex_env UUIDSession [1, 0, 1]"

definition ex_bad_confirm :: "unit service_event" where
  "ex_bad_confirm = SWrite 1 ex_env UUIDSession [3, 0, 9]"

definition ex_guessing :: "unit service_event list" where
  "ex_guessing = [ex_hello, ex_bad_confirm, ex_hello, ex_bad_confirm, ex_hello]"

lemma ex_guesses:
  "failed_guesses ex_crypto ex_codec ex_periph ex_guessing (new_service ex_periph) = 2"
  "failed_guesses ex_crypto ex_codec ex_periph (ex_guessing @ [ex_bad_confirm]) (new_service ex_periph) = 3"
  by code_simp+

theorem brute_force_throttled_witness:
  "\<not> advertising (adv (reconcile_adv 200 StatNotExist None True
      (service_run ex_crypto ex_codec ex_periph (ex_guessing @ ex_bad_confirm # []) (new_service ex_periph))))"
  unfolding ex_bad_confirm_def
  by (rule brute_force_throttled [of ex_periph "''A''" "''S''" "[]" False 0 None])
    (use ex_guesses in \<open>simp_all add: ex_periph_def ex_bad_confirm_def popThrottleBackoff_def second_def\<close>)

text \<open>A service whose reassembler on a characteristic waits for the rest of a message, and
  the writes and ticks of clients that start a message afresh there.\<close>

definition waits :: "string \<Rightarrow> Reassembler \<Rightarrow> 'p service \<Rightarrow> bool" where
  "waits u r s \<longleftrightarrow> reassemblers (d_p (disp s)) u = Some r \<and> (of_int (expectedSeq r) :: byte) \<noteq> 0
     \<and> \<not> DoneReceived (d_p (disp s))"

definition fresh_start :: "string \<Rightarrow> 'p service_event \<Rightarrow> bool" where
  "fresh_start u e = (case e of SWrite _ _ uuid chunk \<Rightarrow> uuid = u \<and> chunk ! 1 = 0 | SStatus _ _ _ \<Rightarrow> False | _ \<Rightarrow> True)"

lemma waits_step:
  assumes "waits u r s" and "fresh_start u e"
  shows "waits u r (snd (service_step cr co np e s)) \<and> fst (service_step cr co np e s) = []"
proof (cases e)
  case (SWrite now ev uuid chunk)
  then have c: "uuid = u" "chunk ! 1 = 0" using assms(2) by (simp_all add: fresh_start_def)
  have "Add chunk r = (Inl (if length chunk < HeaderLength then ErrShortChunk else ErrSeqGap), r)"
    using assms(1) c by (auto simp: Add_def waits_def Let_def)
  then obtain err where a: "Add chunk r = (Inl err, r)" by blast
  then show ?thesis using assms(1) c
    by (simp add: SWrite service_step_def OnWrite_def HandleChunk_def process_def waits_def case_prod_unfold Let_def
        observeLocked_def)
next
  case (STick now st w ok)
  then show ?thesis using assms by (simp add: service_step_def waits_def Let_def)
qed (use assms in \<open>simp_all add: service_step_def waits_def fresh_start_def\<close>)

text \<open>
  An abandoned message blocks its characteristic. Once a client has left a message
  unfinished on a characteristic, no later client that starts its messages there at sequence
  number 0 is ever answered on it: each such chunk is refused and the reassembler goes on waiting,
  since nothing but a completed commissioning rebuilds the peripheral.
\<close>

theorem abandoned_message_blocks:
  assumes "waits u r s" and "list_all (fresh_start u) es" and "chunk ! 1 = 0"
  shows "fst (service_step cr co np (SWrite now ev u chunk) (service_run cr co np es s)) = []"
proof -
  have "waits u r (service_run cr co np es s)"
    using assms(1,2) by (induction es arbitrary: s) (auto simp: waits_step)
  then show ?thesis using waits_step [of u r _ "SWrite now ev u chunk"] assms(3) by (simp add: fresh_start_def)
qed

definition ex_abandoned :: "unit service" where
  "ex_abandoned = snd (service_step ex_crypto ex_codec ex_periph (SWrite 1 ex_env UUIDSession [0, 0, 1]) (new_service ex_periph))"

lemma ex_waits: "waits UUIDSession \<lparr>buf = [1], expectedSeq = 1, started = True, encrypted = False\<rparr> ex_abandoned"
  by code_simp

theorem abandoned_message_blocks_witness:
  "fst (service_step ex_crypto ex_codec ex_periph (SWrite 9 ex_env UUIDSession [1, 0, 1])
      (service_run ex_crypto ex_codec ex_periph [ex_hello, STick 5 StatNotExist None True, ex_hello] ex_abandoned)) = []"
  by (rule abandoned_message_blocks [OF ex_waits]) (simp_all add: fresh_start_def ex_hello_def)

end
