(* ===== verification/SpoolCodec.thy ===== *)
theory SpoolCodec
  imports GoBase
begin

text \<open>
  internal/spool/segment.go, the record format of a segment file: length-prefixed records in
  big-endian order. A buffered reader is the list of bytes that are left; a read error other than a
  short read is not modelled. \<open>be_bytes\<close> and \<open>be_word\<close> are \<open>PutUint\<close>
  and \<open>Uint\<close> of encoding/binary.
\<close>

section \<open>Big-endian words\<close>

definition be_bytes :: "nat \<Rightarrow> 'a::len word \<Rightarrow> byte list" where
  "be_bytes n w = map (\<lambda>k. of_nat (unat w div 256 ^ k)) (rev [0..<n])"

definition be_nat :: "byte list \<Rightarrow> nat" where
  "be_nat bs = foldl (\<lambda>n b. 256 * n + unat b) 0 bs"

definition be_word :: "byte list \<Rightarrow> 'a::len word" where
  "be_word bs = of_nat (be_nat bs)"

lemma be_bytes_length [simp]: "length (be_bytes n w) = n"
  by (simp add: be_bytes_def)

lemma be_bytes_fold:
  "foldl (\<lambda>n b. 256 * n + unat (b :: byte)) a (map (\<lambda>k. of_nat (x div 256 ^ k)) (rev [0..<n])) = a * 256 ^ n + x mod 256 ^ n"
proof (induction n arbitrary: a)
  case (Suc n)
  have "x mod 256 ^ Suc n = 256 ^ n * (x div 256 ^ n mod 256) + x mod 256 ^ n"
    using mod_mult2_eq [of x "256 ^ n" 256] by (simp add: mult.commute)
  then show ?case using Suc [of "256 * a + x div 256 ^ n mod 256"]
    by (simp add: unat_of_nat algebra_simps)
qed simp

lemma be_word_bytes:
  fixes w :: "'a::len word"
  assumes "LENGTH('a) \<le> 8 * n"
  shows "(be_word (be_bytes n w) :: 'a word) = w"
proof -
  have "unat w < 2 ^ LENGTH('a)" by simp
  also have "\<dots> \<le> 2 ^ (8 * n)" using assms by (intro power_increasing) simp_all
  also have "(2 :: nat) ^ (8 * n) = 256 ^ n" by (simp add: power_mult)
  finally show ?thesis by (simp add: be_word_def be_nat_def be_bytes_def be_bytes_fold)
qed

section \<open>The format\<close>

definition NumPriorities :: nat where "NumPriorities = 3"
definition lenPrefix :: nat where "lenPrefix = 4"
definition recHeaderBytes :: nat where "recHeaderBytes = 1 + 8 + 2"
definition maxStreamLen :: nat where "maxStreamLen = 2 ^ 16 - 1"
definition maxRecordBytes :: nat where "maxRecordBytes = 16 * 2 ^ 20"

record Record =
  Stream :: "byte list"
  Priority :: int
  Ts :: int64
  Payload :: "byte list"

definition clampPriority :: "int \<Rightarrow> nat" where
  "clampPriority p = (if p < 0 then 0 else if int NumPriorities \<le> p then NumPriorities - 1 else nat p)"

definition recordOnDiskSize :: "nat \<Rightarrow> nat \<Rightarrow> int" where
  "recordOnDiskSize streamLen payloadLen = int (lenPrefix + recHeaderBytes + streamLen + payloadLen)"

definition encodeRecord :: "Record \<Rightarrow> byte list" where
  "encodeRecord r =
     be_bytes 4 (of_nat (recHeaderBytes + length (Stream r) + length (Payload r)) :: 32 word)
     @ [of_nat (clampPriority (Priority r))]
     @ be_bytes 8 (of_int (Ts r) :: 64 word)
     @ be_bytes 2 (of_nat (length (Stream r)) :: 16 word)
     @ Stream r @ Payload r"

datatype read_end = EOF | Torn

definition decodeRecord :: "byte list \<Rightarrow> read_end + Record \<times> nat" where
  "decodeRecord br =
     (if br = [] then Inl EOF
      else if length br < lenPrefix then Inl Torn
      else let l = unat (be_word (take lenPrefix br) :: 32 word) in
        if l < recHeaderBytes \<or> maxRecordBytes < l then Inl Torn
        else if length (drop lenPrefix br) < l then Inl Torn
        else let body = take l (drop lenPrefix br);
                 slen = unat (be_word (take 2 (drop 9 body)) :: 16 word) in
          if l < recHeaderBytes + slen then Inl Torn
          else Inr (\<lparr>Stream = take slen (drop recHeaderBytes body), Priority = uint (body ! 0),
                     Ts = sint (be_word (take 8 (drop 1 body)) :: 64 word),
                     Payload = drop (recHeaderBytes + slen) body\<rparr>, lenPrefix + l))"

definition skipRecord :: "byte list \<Rightarrow> read_end + nat" where
  "skipRecord br =
     (if br = [] then Inl EOF
      else if length br < lenPrefix then Inl Torn
      else let l = unat (be_word (take lenPrefix br) :: 32 word) in
        if l < recHeaderBytes \<or> maxRecordBytes < l then Inl Torn
        else if length (drop lenPrefix br) < l then Inl Torn
        else Inr (lenPrefix + l))"

lemma skipRecord_pos: "skipRecord br = Inr sz \<Longrightarrow> 0 < sz \<and> br \<noteq> []"
  by (auto simp: skipRecord_def Let_def lenPrefix_def split: if_splits)

text \<open>The scan of a segment at open: the number of whole records and the offset after them.\<close>

function scanSegment :: "byte list \<Rightarrow> nat \<times> nat" where
  "scanSegment br =
     (case skipRecord br of
        Inl _ \<Rightarrow> (0, 0)
      | Inr sz \<Rightarrow> let (n, off) = scanSegment (drop sz br) in (n + 1, sz + off))"
  by pat_completeness auto
termination
  by (relation "measure length") (auto dest: skipRecord_pos)

text \<open>The records a reader of a segment gets from a position on, with their sizes.\<close>

lemma decodeRecord_pos: "decodeRecord br = Inr (r, sz) \<Longrightarrow> 0 < sz \<and> br \<noteq> []"
  by (auto simp: decodeRecord_def Let_def lenPrefix_def split: if_splits)

function read_records :: "byte list \<Rightarrow> (Record \<times> nat) list" where
  "read_records br =
     (case decodeRecord br of
        Inl _ \<Rightarrow> []
      | Inr (r, sz) \<Rightarrow> (r, sz) # read_records (drop sz br))"
  by pat_completeness auto
termination
  by (relation "measure length") (auto dest: decodeRecord_pos)

declare scanSegment.simps [simp del] read_records.simps [simp del]

section \<open>Encoding and decoding\<close>

definition fits :: "Record \<Rightarrow> bool" where
  "fits r \<longleftrightarrow> length (Stream r) \<le> maxStreamLen \<and>
     recHeaderBytes + length (Stream r) + length (Payload r) \<le> maxRecordBytes \<and> in_int64 (Ts r)"

text \<open>What a record is read back as.\<close>

definition filed :: "Record \<Rightarrow> Record" where
  "filed r = r\<lparr>Priority := int (clampPriority (Priority r))\<rparr>"

definition rec_size :: "Record \<Rightarrow> nat" where
  "rec_size r = lenPrefix + recHeaderBytes + length (Stream r) + length (Payload r)"

lemma encodeRecord_length [simp]: "length (encodeRecord r) = rec_size r"
  by (simp add: encodeRecord_def rec_size_def lenPrefix_def recHeaderBytes_def)

lemma recordOnDiskSize_eq: "recordOnDiskSize (length (Stream r)) (length (Payload r)) = int (rec_size r)"
  by (simp add: recordOnDiskSize_def rec_size_def)

definition rec_body :: "Record \<Rightarrow> byte list" where
  "rec_body r = [of_nat (clampPriority (Priority r))] @ be_bytes 8 (of_int (Ts r) :: 64 word)
     @ be_bytes 2 (of_nat (length (Stream r)) :: 16 word) @ Stream r @ Payload r"

definition rec_len :: "Record \<Rightarrow> nat" where
  "rec_len r = recHeaderBytes + length (Stream r) + length (Payload r)"

lemma encodeRecord_split: "encodeRecord r = be_bytes 4 (of_nat (rec_len r) :: 32 word) @ rec_body r"
  by (simp add: encodeRecord_def rec_body_def rec_len_def)

lemma rec_body_length [simp]: "length (rec_body r) = rec_len r"
  by (simp add: rec_body_def rec_len_def recHeaderBytes_def)

lemma rec_size_len: "rec_size r = lenPrefix + rec_len r"
  by (simp add: rec_size_def rec_len_def)

lemma len_word:
  assumes "fits r"
  shows "unat (be_word (be_bytes 4 (of_nat (rec_len r) :: 32 word)) :: 32 word) = rec_len r"
proof -
  have "rec_len r < 2 ^ 32" using assms by (simp add: fits_def rec_len_def maxRecordBytes_def)
  then show ?thesis by (simp add: be_word_bytes unat_of_nat)
qed

lemma rec_len_bounds: "fits r \<Longrightarrow> recHeaderBytes \<le> rec_len r \<and> rec_len r \<le> maxRecordBytes"
  by (simp add: fits_def rec_len_def)

lemma stream_word:
  assumes "fits r"
  shows "unat (be_word (be_bytes 2 (of_nat (length (Stream r)) :: 16 word)) :: 16 word) = length (Stream r)"
  using assms by (simp add: be_word_bytes unat_of_nat fits_def maxStreamLen_def)

lemma ts_word:
  assumes "fits r"
  shows "sint (be_word (be_bytes 8 (of_int (Ts r) :: 64 word)) :: 64 word) = Ts r"
  using assms by (simp add: be_word_bytes fits_def in_int64_def sint_sbintrunc' signed_take_bit_int_eq_self)

lemma body_fields:
  "rec_body r ! 0 = of_nat (clampPriority (Priority r))"
  "take 8 (drop 1 (rec_body r)) = be_bytes 8 (of_int (Ts r) :: 64 word)"
  "take 2 (drop 9 (rec_body r)) = be_bytes 2 (of_nat (length (Stream r)) :: 16 word)"
  "take (length (Stream r)) (drop recHeaderBytes (rec_body r)) = Stream r"
  "drop (recHeaderBytes + length (Stream r)) (rec_body r) = Payload r"
proof -
  have d: "drop recHeaderBytes (rec_body r) = Stream r @ Payload r"
    by (simp add: rec_body_def recHeaderBytes_def)
  then show "take (length (Stream r)) (drop recHeaderBytes (rec_body r)) = Stream r"
    "drop (recHeaderBytes + length (Stream r)) (rec_body r) = Payload r"
    using drop_drop [of "length (Stream r)" recHeaderBytes "rec_body r"] by (simp_all add: add.commute)
qed (simp_all add: rec_body_def recHeaderBytes_def)

lemma priority_byte: "uint (of_nat (clampPriority p) :: byte) = int (clampPriority p)"
proof -
  have "clampPriority p < 256" by (auto simp: clampPriority_def NumPriorities_def)
  then show ?thesis by (simp add: uint_nat unat_of_nat)
qed

lemma encode_not_Nil [simp]: "encodeRecord r \<noteq> []"
  by (simp add: encodeRecord_def)

lemma decode_encode:
  assumes "fits r"
  shows "decodeRecord (encodeRecord r @ rest) = Inr (filed r, rec_size r)"
proof -
  have t: "take lenPrefix (encodeRecord r @ rest) = be_bytes 4 (of_nat (rec_len r) :: 32 word)"
    and d: "drop lenPrefix (encodeRecord r @ rest) = rec_body r @ rest"
    by (simp_all add: encodeRecord_split lenPrefix_def)
  have b: "take (rec_len r) (rec_body r @ rest) = rec_body r" by simp
  have l: "\<not> rec_len r < recHeaderBytes" "\<not> maxRecordBytes < rec_len r"
    "\<not> rec_len r < recHeaderBytes + length (Stream r)" "\<not> length (encodeRecord r @ rest) < lenPrefix"
    using rec_len_bounds [OF assms] by (simp_all add: rec_len_def rec_size_def)
  show ?thesis
    unfolding decodeRecord_def t d Let_def len_word [OF assms] b body_fields stream_word [OF assms] ts_word [OF assms] priority_byte
    using l by (simp add: filed_def rec_size_len body_fields)
qed

lemma skip_encode:
  assumes "fits r"
  shows "skipRecord (encodeRecord r @ rest) = Inr (rec_size r)"
proof -
  have t: "take lenPrefix (encodeRecord r @ rest) = be_bytes 4 (of_nat (rec_len r) :: 32 word)"
    and d: "drop lenPrefix (encodeRecord r @ rest) = rec_body r @ rest"
    by (simp_all add: encodeRecord_split lenPrefix_def)
  have l: "\<not> rec_len r < recHeaderBytes" "\<not> maxRecordBytes < rec_len r" "\<not> length (encodeRecord r @ rest) < lenPrefix"
    using rec_len_bounds [OF assms] by (simp_all add: rec_size_def)
  show ?thesis
    unfolding skipRecord_def t d Let_def len_word [OF assms] using l by (simp add: rec_size_len)
qed

text \<open>A record cut short is never read.\<close>

lemma cut_record:
  assumes "fits r" and "k < rec_size r"
  shows "isl (decodeRecord (take k (encodeRecord r)))" and "isl (skipRecord (take k (encodeRecord r)))"
proof -
  have "isl (decodeRecord (take k (encodeRecord r))) \<and> isl (skipRecord (take k (encodeRecord r)))"
  proof (cases "k < lenPrefix")
    case True
    moreover have "min (rec_size r) k = k" using assms(2) by simp
    ultimately show ?thesis by (simp add: decodeRecord_def skipRecord_def)
  next
    case False
    then have t: "take lenPrefix (take k (encodeRecord r)) = be_bytes 4 (of_nat (rec_len r) :: 32 word)"
      by (simp add: encodeRecord_split lenPrefix_def min_def)
    have d: "length (drop lenPrefix (take k (encodeRecord r))) < rec_len r"
      using assms(2) False by (simp add: rec_size_len)
    show ?thesis unfolding decodeRecord_def skipRecord_def t Let_def len_word [OF assms(1)] using d by simp
  qed
  then show "isl (decodeRecord (take k (encodeRecord r)))" "isl (skipRecord (take k (encodeRecord r)))" by simp_all
qed

section \<open>Segments\<close>

definition encode_all :: "Record list \<Rightarrow> byte list" where
  "encode_all rs = concat (map encodeRecord rs)"

lemma encode_all_simps [simp]:
  "encode_all [] = []" "encode_all (r # rs) = encodeRecord r @ encode_all rs"
  "encode_all (rs @ rs') = encode_all rs @ encode_all rs'"
  by (simp_all add: encode_all_def)

definition read_view :: "Record list \<Rightarrow> (Record \<times> nat) list" where
  "read_view rs = map (\<lambda>r. (filed r, rec_size r)) rs"

lemma read_view_simps [simp]:
  "read_view [] = []" "read_view (r # rs) = (filed r, rec_size r) # read_view rs"
  "read_view (rs @ rs') = read_view rs @ read_view rs'" "length (read_view rs) = length rs"
  "(read_view rs = []) = (rs = [])"
  by (simp_all add: read_view_def)

text \<open>The records that survive a cut after \<open>k\<close> bytes.\<close>

fun whole :: "nat \<Rightarrow> Record list \<Rightarrow> Record list" where
  "whole k [] = []"
| "whole k (r # rs) = (if rec_size r \<le> k then r # whole (k - rec_size r) rs else [])"

lemma whole_all: "length (encode_all rs) \<le> k \<Longrightarrow> whole k rs = rs"
  by (induction rs arbitrary: k) auto

lemma whole_prefix: "\<exists>rs'. rs = whole k rs @ rs'"
  by (induction k rs rule: whole.induct) auto

lemma whole_append: "length (encode_all rs) \<le> k \<Longrightarrow> whole k (rs @ rs') = rs @ whole (k - length (encode_all rs)) rs'"
  by (induction rs arbitrary: k) (auto simp: diff_diff_left)

lemma whole_cut: "length (encode_all (whole k rs)) \<le> k"
  by (induction k rs rule: whole.induct) auto

lemma cut_read:
  "list_all fits rs \<Longrightarrow> read_records (take k (encode_all rs)) = read_view (whole k rs) \<and>
     scanSegment (take k (encode_all rs)) = (length (whole k rs), length (encode_all (whole k rs)))"
proof (induction k rs rule: whole.induct)
  case (1 k)
  then show ?case by (simp add: read_records.simps scanSegment.simps decodeRecord_def skipRecord_def)
next
  case (2 k r rs)
  have f: "fits r" using 2(2) by simp
  show ?case
  proof (cases "rec_size r \<le> k")
    case True
    then have t: "take k (encode_all (r # rs)) = encodeRecord r @ take (k - rec_size r) (encode_all rs)" by simp
    show ?thesis unfolding t
      using 2 True by (subst read_records.simps, subst scanSegment.simps) (simp add: decode_encode skip_encode f)
  next
    case False
    then have t: "take k (encode_all (r # rs)) = take k (encodeRecord r)" by simp
    from False have "k < rec_size r" by simp
    from cut_record [OF f this] show ?thesis unfolding t using False
      by (subst read_records.simps, subst scanSegment.simps) (auto simp: isl_def)
  qed
qed

lemma read_all: "list_all fits rs \<Longrightarrow> read_records (encode_all rs) = read_view rs"
  using cut_read [of rs "length (encode_all rs)"] by (simp add: whole_all)

lemma read_from: "list_all fits (rs @ rs') \<Longrightarrow> read_records (drop (length (encode_all rs)) (encode_all (rs @ rs'))) = read_view rs'"
  using read_all [of rs'] by simp

lemma whole_take: "whole k rs = take (length (whole k rs)) rs"
  by (induction k rs rule: whole.induct) auto

lemma whole_max: "length (whole k rs) < length rs \<Longrightarrow> k < length (encode_all (take (Suc (length (whole k rs))) rs))"
  by (induction k rs rule: whole.induct) auto

section \<open>Properties\<close>

text \<open>
  A torn segment is read back up to the last whole record. Whatever records that fit the
  format were written to a segment, and wherever a power cut left its file, the scan at open finds
  the largest number of whole records in it and the offset after them, and the reader returns exactly
  those records, in order, as they were filed.
\<close>

theorem torn_segment_recovered:
  assumes "list_all fits rs"
  shows "\<exists>n \<le> length rs. scanSegment (take k (encode_all rs)) = (n, length (encode_all (take n rs))) \<and>
    read_records (take k (encode_all rs)) = map (\<lambda>r. (filed r, rec_size r)) (take n rs) \<and>
    length (encode_all (take n rs)) \<le> k \<and> (n = length rs \<or> k < length (encode_all (take (Suc n) rs)))"
proof (intro exI conjI)
  let ?n = "length (whole k rs)"
  note [simp] = whole_take [of k rs, symmetric]
  show "scanSegment (take k (encode_all rs)) = (?n, length (encode_all (take ?n rs)))"
    "read_records (take k (encode_all rs)) = map (\<lambda>r. (filed r, rec_size r)) (take ?n rs)"
    using cut_read [OF assms, of k] by (simp_all add: read_view_def)
  show "length (encode_all (take ?n rs)) \<le> k" using whole_cut [of k rs] by simp
  show n: "?n \<le> length rs" using whole_prefix [of rs k] by (metis le_add1 length_append)
  show "?n = length rs \<or> k < length (encode_all (take (Suc ?n) rs))" using whole_max [of k rs] n by linarith
qed

definition ex_rec :: "nat \<Rightarrow> int \<Rightarrow> Record" where
  "ex_rec n p = \<lparr>Stream = [1], Priority = p, Ts = 5, Payload = replicate n 0\<rparr>"

lemma ex_rec_fits: "n \<le> 1000 \<Longrightarrow> fits (ex_rec n p)"
  by (simp add: ex_rec_def fits_def maxStreamLen_def maxRecordBytes_def recHeaderBytes_def in_int64_def)

theorem torn_segment_recovered_witness:
  "\<exists>n \<le> 2. scanSegment (take 30 (encode_all [ex_rec 4 0, ex_rec 4 9])) = (n, length (encode_all (take n [ex_rec 4 0, ex_rec 4 9])))"
  using torn_segment_recovered [of "[ex_rec 4 0, ex_rec 4 9]" 30] ex_rec_fits by fastforce

end
