(* ===== verification/Spool.thy ===== *)
theory Spool
  imports SpoolCodec "HOL-Library.Sublist"
begin

text \<open>
  internal/spool/spool.go and internal.go: the priority-classed, byte-budgeted queue on disk, with
  its recovery at open. A segment file is the bytes written to it (buffered ones included) and the
  number of them known to be on disk; a power cut keeps some prefix between the two. Operations of
  the file system succeed: the error paths, which only count and report, are left out. A class
  directory is its segment files by number and the content of its cursor file, written in one piece
  (tmp and rename). Sequence numbers are natural numbers (the code's 64 bits do not run out).
\<close>

section \<open>State\<close>

record cursor =
  cu_seq :: nat
  cu_off :: int

record segment =
  sg_seq :: nat
  sg_data :: "byte list"
  sg_bytes :: int
  sg_records :: nat
  sg_open :: bool
  sg_synced :: nat

record spool_class =
  segs :: "segment list"
  cl_cursor :: cursor
  nextSeq :: nat
  cursor_file :: "cursor option"

record Spool =
  maxBytes :: int
  classes :: "nat \<Rightarrow> spool_class"
  totalBytes :: int
  segCap :: int
  lastPeekClass :: "nat option"
  dirty :: bool
  lastSync :: gotime
  healthy :: bool
  Appends :: nat
  Commits :: nat
  Drops :: nat

datatype spool_error = StreamTooLong | ExceedsBudget

definition maxSegBytes :: int where "maxSegBytes = 256 * 2 ^ 10"
definition flushInterval :: duration where "flushInterval = 5 * second"

definition zero_cursor :: cursor where "zero_cursor = \<lparr>cu_seq = 0, cu_off = 0\<rparr>"

definition upd_class :: "nat \<Rightarrow> (spool_class \<Rightarrow> spool_class) \<Rightarrow> Spool \<Rightarrow> Spool" where
  "upd_class c f s = s\<lparr>classes := (classes s)(c := f (classes s c))\<rparr>"

definition upd_last :: "('a \<Rightarrow> 'a) \<Rightarrow> 'a list \<Rightarrow> 'a list" where
  "upd_last f xs = (if xs = [] then [] else butlast xs @ [f (last xs)])"

section \<open>Classes\<close>

definition pendingBytes :: "spool_class \<Rightarrow> int" where
  "pendingBytes cl =
     (let total = sum_list (map (\<lambda>sg. if sg_seq sg < cu_seq (cl_cursor cl) then 0
                                      else if sg_seq sg = cu_seq (cl_cursor cl) then sg_bytes sg - cu_off (cl_cursor cl)
                                      else sg_bytes sg) (segs cl))
      in if total < 0 then 0 else total)"

definition topClass :: "Spool \<Rightarrow> nat option" where
  "topClass s = find (\<lambda>c. 0 < pendingBytes (classes s c)) [0..<NumPriorities]"

definition victimClass :: "nat \<Rightarrow> Spool \<Rightarrow> nat option" where
  "victimClass appendClass s = find (\<lambda>c. segs (classes s c) \<noteq> []) (rev [appendClass..<NumPriorities])"

definition evictOldest :: "nat \<Rightarrow> Spool \<Rightarrow> bool \<times> Spool" where
  "evictOldest v s =
     (case segs (classes s v) of
        [] \<Rightarrow> (False, s)
      | sg # rest \<Rightarrow>
          (True,
           (upd_class v (\<lambda>cl. cl\<lparr>segs := rest,
              cl_cursor := (if cu_seq (cl_cursor cl) = sg_seq sg
                then (case rest of [] \<Rightarrow> zero_cursor | sg' # _ \<Rightarrow> \<lparr>cu_seq = sg_seq sg', cu_off = 0\<rparr>)
                else cl_cursor cl)\<rparr>) s)
           \<lparr>totalBytes := totalBytes s - sg_bytes sg, Drops := Drops s + sg_records sg\<rparr>))"

definition segments :: "Spool \<Rightarrow> nat" where
  "segments s = (\<Sum>c<NumPriorities. length (segs (classes s c)))"

lemma victimClass_SomeD: "victimClass a s = Some v \<Longrightarrow> a \<le> v \<and> v < NumPriorities \<and> segs (classes s v) \<noteq> []"
  by (auto simp: victimClass_def find_Some_iff rev_nth)

lemma evict_segments: "v < NumPriorities \<Longrightarrow> segs (classes s v) \<noteq> [] \<Longrightarrow> segments (snd (evictOldest v s)) < segments s"
  unfolding segments_def
  by (rule sum_strict_mono_ex1) (auto simp: evictOldest_def upd_class_def split: list.split)

text \<open>The loop of \<open>Append\<close> that makes room.\<close>

function make_room :: "nat \<Rightarrow> int \<Rightarrow> Spool \<Rightarrow> Spool" where
  "make_room c recBytes s =
     (if totalBytes s + recBytes \<le> maxBytes s then s
      else case victimClass c s of
        None \<Rightarrow> s
      | Some v \<Rightarrow>
          (case evictOldest v s of (False, s') \<Rightarrow> s' | (True, s') \<Rightarrow> make_room c recBytes s'))"
  by pat_completeness auto
termination
proof (relation "measure (\<lambda>(_, _, s). segments s)")
  fix c recBytes s v s' and b :: bool
  assume "victimClass c s = Some v" and e: "(b, s') = evictOldest v s"
  then have "segments (snd (evictOldest v s)) < segments s"
    using victimClass_SomeD evict_segments by blast
  then show "((c, recBytes, s'), (c, recBytes, s)) \<in> measure (\<lambda>(_, _, s). segments s)"
    by (simp flip: e)
qed simp

declare make_room.simps [simp del]

definition newSegment :: "spool_class \<Rightarrow> spool_class" where
  "newSegment cl =
     cl\<lparr>segs := segs cl @ [\<lparr>sg_seq = nextSeq cl, sg_data = [], sg_bytes = 0, sg_records = 0, sg_open = True, sg_synced = 0\<rparr>],
        nextSeq := nextSeq cl + 1\<rparr>"

definition ensureActive :: "int \<Rightarrow> spool_class \<Rightarrow> spool_class" where
  "ensureActive cap cl =
     (if segs cl \<noteq> [] \<and> sg_open (last (segs cl)) then cl
      else if segs cl \<noteq> [] \<and> sg_bytes (last (segs cl)) < cap
      then cl\<lparr>segs := upd_last (\<lambda>sg. sg\<lparr>sg_open := True\<rparr>) (segs cl)\<rparr>
      else newSegment cl)"

definition sync_segment :: "segment \<Rightarrow> segment" where
  "sync_segment sg = (if sg_open sg then sg\<lparr>sg_synced := length (sg_data sg)\<rparr> else sg)"

definition close_segment :: "segment \<Rightarrow> segment" where
  "close_segment sg = (sync_segment sg)\<lparr>sg_open := False\<rparr>"

definition rotate_class :: "spool_class \<Rightarrow> spool_class" where
  "rotate_class cl = cl\<lparr>segs := upd_last close_segment (segs cl)\<rparr>"

definition write_record :: "Record \<Rightarrow> segment \<Rightarrow> segment" where
  "write_record r sg =
     sg\<lparr>sg_data := sg_data sg @ encodeRecord r,
        sg_bytes := sg_bytes sg + recordOnDiskSize (length (Stream r)) (length (Payload r)),
        sg_records := sg_records sg + 1\<rparr>"

definition append_class :: "int \<Rightarrow> Record \<Rightarrow> spool_class \<Rightarrow> spool_class" where
  "append_class cap r cl0 =
     (let cl1 = ensureActive cap cl0; sg = last (segs cl1);
          recBytes = recordOnDiskSize (length (Stream r)) (length (Payload r));
          cl2 = (if 0 < sg_bytes sg \<and> cap < sg_bytes sg + recBytes then newSegment (rotate_class cl1) else cl1)
      in cl2\<lparr>segs := upd_last (write_record r) (segs cl2)\<rparr>)"

definition syncClass :: "spool_class \<Rightarrow> spool_class" where
  "syncClass cl = cl\<lparr>segs := map sync_segment (segs cl)\<rparr>"

definition maybeSync :: "gotime \<Rightarrow> Spool \<Rightarrow> Spool" where
  "maybeSync now s =
     (if \<not> dirty s \<or> time_sub now (lastSync s) < flushInterval then s
      else s\<lparr>classes := (\<lambda>c. syncClass (classes s c)), dirty := False, lastSync := now\<rparr>)"

definition Append :: "gotime \<Rightarrow> Record \<Rightarrow> Spool \<Rightarrow> spool_error option \<times> Spool" where
  "Append now r s =
     (let c = clampPriority (Priority r); recBytes = recordOnDiskSize (length (Stream r)) (length (Payload r)) in
      if maxStreamLen < length (Stream r) then (Some StreamTooLong, s\<lparr>Drops := Drops s + 1\<rparr>)
      else if maxBytes s < recBytes then (Some ExceedsBudget, s\<lparr>Drops := Drops s + 1\<rparr>)
      else let s1 = make_room c recBytes s in
        if maxBytes s1 < totalBytes s1 + recBytes then (None, s1\<lparr>Drops := Drops s1 + 1\<rparr>)
        else let s2 = (upd_class c (append_class (segCap s1) r) s1)\<lparr>totalBytes := totalBytes s1 + recBytes, dirty := True\<rparr>;
                 s3 = maybeSync now s2
             in (None, s3\<lparr>Appends := Appends s3 + 1, healthy := True\<rparr>))"

section \<open>Reading\<close>

text \<open>An entry of a walk: the record, its size, the index of its segment, the offset after it.\<close>

type_synonym entry = "Record \<times> int \<times> nat \<times> int"

fun entries_from :: "nat \<Rightarrow> int \<Rightarrow> (Record \<times> nat) list \<Rightarrow> entry list" where
  "entries_from i off [] = []"
| "entries_from i off ((r, sz) # rs) = (r, int sz, i, off + int sz) # entries_from i (off + int sz) rs"

fun walk :: "nat \<Rightarrow> int \<Rightarrow> segment list \<Rightarrow> entry list" where
  "walk i off [] = []"
| "walk i off (sg # sgs) = entries_from i off (read_records (drop (nat off) (sg_data sg))) @ walk (i + 1) 0 sgs"

fun index_of_seq :: "nat \<Rightarrow> segment list \<Rightarrow> nat option" where
  "index_of_seq q [] = None"
| "index_of_seq q (sg # sgs) = (if sg_seq sg = q then Some 0 else map_option Suc (index_of_seq q sgs))"

definition walkClass :: "spool_class \<Rightarrow> entry list" where
  "walkClass cl =
     (case index_of_seq (cu_seq (cl_cursor cl)) (segs cl) of
        None \<Rightarrow> walk 0 0 (segs cl)
      | Some i \<Rightarrow> walk i (cu_off (cl_cursor cl)) (drop i (segs cl)))"

fun peek_take :: "int \<Rightarrow> int \<Rightarrow> nat \<Rightarrow> int \<Rightarrow> entry list \<Rightarrow> Record list" where
  "peek_take mx maxB n acc [] = []"
| "peek_take mx maxB n acc ((r, sz, _) # es) =
     (if 0 < mx \<and> mx \<le> int n then []
      else if 0 < maxB \<and> 0 < n \<and> maxB < acc + sz then []
      else r # peek_take mx maxB (n + 1) (acc + sz) es)"

definition Peek :: "int \<Rightarrow> int \<Rightarrow> Spool \<Rightarrow> Record list \<times> Spool" where
  "Peek mx maxB s =
     (case topClass s of
        None \<Rightarrow> ([], s)
      | Some c \<Rightarrow> (peek_take mx maxB 0 0 (walkClass (classes s c)), s\<lparr>lastPeekClass := Some c\<rparr>))"

definition gcConsumed :: "nat \<Rightarrow> Spool \<Rightarrow> Spool" where
  "gcConsumed c s =
     (let cl = classes s c; gone = filter (\<lambda>sg. sg_seq sg < cu_seq (cl_cursor cl)) (segs cl) in
      (upd_class c (\<lambda>cl. cl\<lparr>segs := filter (\<lambda>sg. \<not> sg_seq sg < cu_seq (cl_cursor cl)) (segs cl)\<rparr>) s)
        \<lparr>totalBytes := totalBytes s - sum_list (map sg_bytes gone)\<rparr>)"

definition commit_class :: "Spool \<Rightarrow> nat option" where
  "commit_class s =
     (case lastPeekClass s of
        Some c \<Rightarrow> if pendingBytes (classes s c) = 0 then topClass s else Some c
      | None \<Rightarrow> topClass s)"

definition commit_cursor :: "entry \<Rightarrow> spool_class \<Rightarrow> cursor" where
  "commit_cursor e cl =
     (let (_, _, i, off) = e in
      if sg_bytes (segs cl ! i) \<le> off \<and> i + 1 < length (segs cl)
      then \<lparr>cu_seq = sg_seq (segs cl ! (i + 1)), cu_off = 0\<rparr>
      else \<lparr>cu_seq = sg_seq (segs cl ! i), cu_off = off\<rparr>)"

definition Commit :: "int \<Rightarrow> Spool \<Rightarrow> Spool" where
  "Commit n s =
     (if n \<le> 0 then s
      else case commit_class s of
        None \<Rightarrow> s
      | Some c \<Rightarrow>
          let walked = take (nat n) (walkClass (classes s c)) in
          if walked = [] then s
          else let cur = commit_cursor (last walked) (classes s c);
                   s1 = upd_class c (\<lambda>cl. (syncClass cl)\<lparr>cl_cursor := cur, cursor_file := Some cur\<rparr>) s;
                   s2 = gcConsumed c s1
               in s2\<lparr>Commits := Commits s2 + length walked, healthy := True\<rparr>)"

definition OldestTs :: "Spool \<Rightarrow> int64" where
  "OldestTs s =
     (case concat (map (\<lambda>c. if pendingBytes (classes s c) = 0 then []
                            else map (\<lambda>(r, _). Ts r) (take 1 (walkClass (classes s c)))) [0..<NumPriorities]) of
        [] \<Rightarrow> 0
      | t # ts \<Rightarrow> fold (\<lambda>x m. if x < m then x else m) ts t)"

definition class_bytes :: "spool_class \<Rightarrow> int" where
  "class_bytes cl = sum_list (map sg_bytes (segs cl))"

definition accountingOK :: "Spool \<Rightarrow> bool" where
  "accountingOK s \<longleftrightarrow> 0 \<le> totalBytes s \<and> totalBytes s \<le> maxBytes s \<and>
     (\<Sum>c<NumPriorities. class_bytes (classes s c)) = totalBytes s"

definition Healthy :: "Spool \<Rightarrow> bool" where
  "Healthy s \<longleftrightarrow> healthy s \<and> accountingOK s"

definition Close :: "Spool \<Rightarrow> Spool" where
  "Close s = s\<lparr>classes := (\<lambda>c. let cl = classes s c in
     cl\<lparr>segs := map close_segment (segs cl),
        cursor_file := (if segs cl \<noteq> [] then Some (cl_cursor cl) else cursor_file cl)\<rparr>)\<rparr>"

section \<open>Opening\<close>

record class_disk =
  d_files :: "(nat \<times> byte list) list"
  d_cursor :: "cursor option"

definition scan_file :: "nat \<times> byte list \<Rightarrow> segment" where
  "scan_file f =
     (let (records, validLen) = scanSegment (snd f) in
      \<lparr>sg_seq = fst f, sg_data = take validLen (snd f), sg_bytes = int validLen, sg_records = records,
       sg_open = False, sg_synced = validLen\<rparr>)"

definition scanClass :: "(nat \<times> byte list) list \<Rightarrow> segment list \<times> nat" where
  "scanClass files =
     (map scan_file (sort_key fst files), fold (\<lambda>f m. if m < fst f then fst f else m) files 0 + 1)"

definition normalizeCursor :: "cursor \<Rightarrow> segment list \<Rightarrow> cursor" where
  "normalizeCursor cur sgs =
     (if sgs = [] then zero_cursor
      else if cu_seq cur < sg_seq (hd sgs) then \<lparr>cu_seq = sg_seq (hd sgs), cu_off = 0\<rparr>
      else case index_of_seq (cu_seq cur) sgs of
        Some i \<Rightarrow> cur\<lparr>cu_off := (if sg_bytes (sgs ! i) < cu_off cur then sg_bytes (sgs ! i) else cu_off cur)\<rparr>
      | None \<Rightarrow>
          if sg_seq (last sgs) < cu_seq cur then \<lparr>cu_seq = sg_seq (last sgs), cu_off = sg_bytes (last sgs)\<rparr>
          else \<lparr>cu_seq = sg_seq (hd sgs), cu_off = 0\<rparr>)"

definition recoverClass :: "class_disk \<Rightarrow> spool_class" where
  "recoverClass d =
     (let (sgs, next) = scanClass (d_files d);
          cur = (case d_cursor d of
                   Some c \<Rightarrow> c
                 | None \<Rightarrow> if sgs = [] then zero_cursor else \<lparr>cu_seq = sg_seq (hd sgs), cu_off = 0\<rparr>);
          kept = filter (\<lambda>sg. \<not> sg_seq sg < cu_seq cur) sgs
      in \<lparr>segs = kept, cl_cursor = normalizeCursor cur kept, nextSeq = next, cursor_file = d_cursor d\<rparr>)"

definition Open :: "int \<Rightarrow> gotime \<Rightarrow> (nat \<Rightarrow> class_disk) \<Rightarrow> Spool option" where
  "Open maxB now d =
     (if maxB \<le> 0 then None
      else Some \<lparr>maxBytes = maxB, classes = (\<lambda>c. recoverClass (d c)),
             totalBytes = (\<Sum>c<NumPriorities. class_bytes (recoverClass (d c))),
             segCap = maxSegBytes, lastPeekClass = None, dirty = False, lastSync = now, healthy = True,
             Appends = 0, Commits = 0, Drops = 0\<rparr>)"

section \<open>Well-formed segments and classes\<close>

definition seg_ok :: "segment \<Rightarrow> bool" where
  "seg_ok sg \<longleftrightarrow> (\<exists>rs. list_all fits rs \<and> sg_data sg = encode_all rs \<and> sg_records sg = length rs) \<and>
     sg_bytes sg = int (length (sg_data sg)) \<and> sg_synced sg \<le> length (sg_data sg) \<and>
     (\<not> sg_open sg \<longrightarrow> sg_synced sg = length (sg_data sg))"

definition boundary :: "byte list \<Rightarrow> nat \<Rightarrow> bool" where
  "boundary d k \<longleftrightarrow> (\<exists>rs rs'. list_all fits (rs @ rs') \<and> d = encode_all (rs @ rs') \<and> k = length (encode_all rs))"

definition start_off :: "spool_class \<Rightarrow> int" where
  "start_off cl = (if cu_seq (cl_cursor cl) = sg_seq (hd (segs cl)) then cu_off (cl_cursor cl) else 0)"

definition cursor_ok :: "spool_class \<Rightarrow> bool" where
  "cursor_ok cl \<longleftrightarrow> cu_seq (cl_cursor cl) \<le> sg_seq (hd (segs cl)) \<and> 0 \<le> start_off cl \<and>
     boundary (sg_data (hd (segs cl))) (nat (start_off cl)) \<and> nat (start_off cl) \<le> sg_synced (hd (segs cl))"

definition file_before :: "cursor option \<Rightarrow> nat \<Rightarrow> bool" where
  "file_before fo q = (case fo of None \<Rightarrow> True | Some f \<Rightarrow> cu_seq f < q)"

definition file_ok :: "spool_class \<Rightarrow> bool" where
  "file_ok cl \<longleftrightarrow> cursor_file cl = Some (cl_cursor cl) \<or>
     start_off cl = 0 \<and> file_before (cursor_file cl) (sg_seq (hd (segs cl)))"

definition class_ok :: "spool_class \<Rightarrow> bool" where
  "class_ok cl \<longleftrightarrow> list_all seg_ok (segs cl) \<and> sorted_wrt (<) (map sg_seq (segs cl)) \<and>
     cu_seq (cl_cursor cl) < nextSeq cl \<and> file_before (cursor_file cl) (nextSeq cl) \<and>
     (segs cl \<noteq> [] \<longrightarrow> sg_seq (last (segs cl)) + 1 = nextSeq cl \<and> list_all (\<lambda>sg. \<not> sg_open sg) (butlast (segs cl))
        \<and> cursor_ok cl \<and> file_ok cl)"

definition seg_recs :: "byte list \<Rightarrow> Record list" where
  "seg_recs d = map fst (read_records d)"

definition pending :: "spool_class \<Rightarrow> Record list" where
  "pending cl = map fst (walkClass cl)"

lemma seg_recs_Nil [simp]: "seg_recs [] = []"
  by (simp add: seg_recs_def read_records.simps decodeRecord_def)

lemma entries_from_records [simp]: "map fst (entries_from i off es) = map fst es"
  by (induction i off es rule: entries_from.induct) simp_all

lemma walk_records:
  "map fst (walk i off sgs) =
     (case sgs of [] \<Rightarrow> [] | sg # rest \<Rightarrow> seg_recs (drop (nat off) (sg_data sg)) @ concat (map (\<lambda>s. seg_recs (sg_data s)) rest))"
proof -
  have "map fst (walk j 0 xs) = concat (map (\<lambda>s. seg_recs (sg_data s)) xs)" for j xs
    by (induction xs arbitrary: j) (simp_all add: seg_recs_def)
  then show ?thesis by (cases sgs) (simp_all add: seg_recs_def)
qed

lemma index_of_seq_None: "(\<forall>sg \<in> set xs. q < sg_seq sg) \<Longrightarrow> index_of_seq q xs = None"
  by (induction xs) auto

lemma sorted_seq_hd: "sorted_wrt (<) (map sg_seq sgs) \<Longrightarrow> sg \<in> set (tl sgs) \<Longrightarrow> sg_seq (hd sgs) < sg_seq sg"
  by (cases sgs) auto

lemma walkClass_ok:
  assumes "class_ok cl"
  shows "walkClass cl = walk 0 (start_off cl) (segs cl)"
proof (cases "segs cl")
  case Nil
  then show ?thesis by (simp add: walkClass_def)
next
  case (Cons sg rest)
  have le: "cu_seq (cl_cursor cl) \<le> sg_seq sg" and s: "sorted_wrt (<) (map sg_seq (segs cl))"
    using assms by (simp_all add: class_ok_def cursor_ok_def Cons)
  show ?thesis
  proof (cases "cu_seq (cl_cursor cl) = sg_seq sg")
    case True
    then show ?thesis by (simp add: walkClass_def start_off_def Cons)
  next
    case False
    then have "\<forall>x \<in> set (segs cl). cu_seq (cl_cursor cl) < sg_seq x" using le s by (auto simp: Cons)
    then show ?thesis using False by (simp add: walkClass_def start_off_def Cons index_of_seq_None)
  qed
qed

lemma pending_ok:
  "class_ok cl \<Longrightarrow> pending cl =
     (case segs cl of [] \<Rightarrow> []
      | sg # rest \<Rightarrow> seg_recs (drop (nat (start_off cl)) (sg_data sg)) @ concat (map (\<lambda>s. seg_recs (sg_data s)) rest))"
  by (simp add: pending_def walkClass_ok walk_records)

lemma seg_recs_all: "list_all fits rs \<Longrightarrow> seg_recs (encode_all rs) = map filed rs"
  by (simp add: seg_recs_def read_all read_view_def)

lemma boundary_Nil [simp]: "seg_ok sg \<Longrightarrow> boundary (sg_data sg) 0"
proof -
  assume "seg_ok sg"
  then obtain rs where "list_all fits rs" "sg_data sg = encode_all rs" by (auto simp: seg_ok_def)
  then show "boundary (sg_data sg) 0"
    unfolding boundary_def by (intro exI [of _ "[]"] exI [of _ rs]) simp
qed

lemma boundary_le: "boundary d k \<Longrightarrow> k \<le> length d"
  by (auto simp: boundary_def)

lemma boundary_append: "boundary d k \<Longrightarrow> fits r \<Longrightarrow> boundary (d @ encodeRecord r) k"
  unfolding boundary_def
proof (elim exE conjE)
  fix rs rs'
  assume "list_all fits (rs @ rs')" "d = encode_all (rs @ rs')" "k = length (encode_all rs)" "fits r"
  then show "\<exists>rs rs'. list_all fits (rs @ rs') \<and> d @ encodeRecord r = encode_all (rs @ rs') \<and> k = length (encode_all rs)"
    by (intro exI [of _ rs] exI [of _ "rs' @ [r]"]) simp
qed

lemma seg_recs_append:
  assumes "boundary d k" and "fits r"
  shows "seg_recs (drop k (d @ encodeRecord r)) = seg_recs (drop k d) @ [filed r]"
proof -
  from assms(1) obtain rs rs' where f: "list_all fits (rs @ rs')" "d = encode_all (rs @ rs')" "k = length (encode_all rs)"
    by (auto simp: boundary_def)
  have "drop k (d @ encodeRecord r) = encode_all (rs' @ [r])" using f by simp
  moreover have "drop k d = encode_all rs'" using f by simp
  moreover have "list_all fits (rs' @ [r])" "list_all fits rs'" using f(1) assms(2) by simp_all
  ultimately show ?thesis by (simp only: seg_recs_all map_append list.map)
qed

text \<open>Bytes are pending exactly when records are.\<close>

lemma seg_recs_empty: "boundary d k \<Longrightarrow> seg_recs (drop k d) = [] \<longleftrightarrow> length d = k"
proof -
  assume "boundary d k"
  then obtain rs rs' where f: "list_all fits (rs @ rs')" "d = encode_all (rs @ rs')" "k = length (encode_all rs)"
    by (auto simp: boundary_def)
  have "seg_recs (drop k d) = map filed rs'" using f by (simp add: seg_recs_all)
  then show ?thesis using f by (cases rs') (simp_all add: rec_size_def lenPrefix_def)
qed

lemma seg_ok_boundary: "seg_ok sg \<Longrightarrow> seg_recs (sg_data sg) = [] \<longleftrightarrow> sg_data sg = []"
  using seg_recs_empty [of "sg_data sg" 0] by simp

section \<open>The operations on a class\<close>

text \<open>Eviction.\<close>

definition evict_class :: "spool_class \<Rightarrow> spool_class" where
  "evict_class cl = cl\<lparr>segs := tl (segs cl),
     cl_cursor := (if cu_seq (cl_cursor cl) = sg_seq (hd (segs cl))
       then (case tl (segs cl) of [] \<Rightarrow> zero_cursor | sg' # _ \<Rightarrow> \<lparr>cu_seq = sg_seq sg', cu_off = 0\<rparr>)
       else cl_cursor cl)\<rparr>"

lemma evictOldest_eq:
  "segs (classes s v) \<noteq> [] \<Longrightarrow> evictOldest v s =
     (True, (upd_class v evict_class s)\<lparr>totalBytes := totalBytes s - sg_bytes (hd (segs (classes s v))),
        Drops := Drops s + sg_records (hd (segs (classes s v)))\<rparr>)"
  by (cases "segs (classes s v)") (simp_all add: evictOldest_def upd_class_def evict_class_def)

lemma sorted_le_last: "sorted_wrt (<) (map f xs) \<Longrightarrow> x \<in> set xs \<Longrightarrow> f x \<le> (f (last xs) :: nat)"
  by (induction xs) (auto simp: less_imp_le)

lemma seq_less_next: "class_ok cl \<Longrightarrow> sg \<in> set (segs cl) \<Longrightarrow> sg_seq sg < nextSeq cl"
  using sorted_le_last [of sg_seq "segs cl" sg] by (cases "segs cl") (auto simp: class_ok_def less_Suc_eq_le)

lemma evict_ok:
  assumes ok: "class_ok cl" and ne: "segs cl \<noteq> []"
  shows "class_ok (evict_class cl)" and "\<exists>xs. pending cl = xs @ pending (evict_class cl)"
    and "class_bytes (evict_class cl) = class_bytes cl - sg_bytes (hd (segs cl))"
proof -
  obtain sg rest where sg: "segs cl = sg # rest" using ne by (cases "segs cl") auto
  let ?cl = "evict_class cl"
  have next0: "0 < nextSeq cl" using ok by (auto simp: class_ok_def)
  have ok': "list_all seg_ok rest" "sorted_wrt (<) (map sg_seq rest)" "\<forall>x \<in> set rest. sg_seq sg < sg_seq x"
    "cu_seq (cl_cursor cl) \<le> sg_seq sg" "file_ok cl"
    using ok by (simp_all add: class_ok_def sg cursor_ok_def)
  have off: "start_off ?cl = 0" if "rest \<noteq> []"
    using ok'(3,4) that by (cases rest) (auto simp: start_off_def evict_class_def sg)
  show "class_ok ?cl"
  proof (cases rest)
    case Nil
    then show ?thesis using ok next0 by (auto simp: class_ok_def evict_class_def sg zero_cursor_def)
  next
    case (Cons sg' rest')
    have f: "file_before (cursor_file cl) (sg_seq sg')"
      using ok'(3,4,5) by (auto simp: file_ok_def file_before_def sg Cons split: option.splits)
    have n: "sg_seq sg' < nextSeq cl" using seq_less_next [OF ok, of sg'] by (simp add: sg Cons)
    show ?thesis using ok off ok' f n
      by (auto simp: class_ok_def evict_class_def sg Cons cursor_ok_def file_ok_def)
  qed
  then show "\<exists>xs. pending cl = xs @ pending ?cl"
    using ok off by (cases rest) (auto simp: pending_ok sg evict_class_def)
  show "class_bytes ?cl = class_bytes cl - sg_bytes (hd (segs cl))"
    by (simp add: class_bytes_def evict_class_def sg)
qed

text \<open>Changes that keep what a class holds: a segment is replaced by one with the same data.\<close>

definition same_data :: "segment \<Rightarrow> segment \<Rightarrow> bool" where
  "same_data a b \<longleftrightarrow> sg_seq a = sg_seq b \<and> sg_data a = sg_data b \<and> sg_bytes a = sg_bytes b \<and>
     sg_records a = sg_records b \<and> sg_synced a \<le> sg_synced b"

lemma same_data_map: "list_all2 same_data xs ys \<Longrightarrow> map sg_seq ys = map sg_seq xs \<and> map sg_data ys = map sg_data xs
    \<and> map sg_bytes ys = map sg_bytes xs"
  by (induction rule: list_all2_induct) (simp_all add: same_data_def)

lemma same_pending:
  assumes "list_all2 same_data (segs cl) ys"
  shows "pending (cl\<lparr>segs := ys\<rparr>) = pending cl" and "class_bytes (cl\<lparr>segs := ys\<rparr>) = class_bytes cl"
proof -
  have w: "walk i off ys = walk i off xs" if "list_all2 same_data xs ys" for i off xs ys
    using that by (induction i off xs arbitrary: ys rule: walk.induct) (auto simp: list_all2_Cons1 same_data_def)
  have ix: "index_of_seq q ys = index_of_seq q xs" if "list_all2 same_data xs ys" for q xs ys
    using that by (induction rule: list_all2_induct) (simp_all add: same_data_def)
  show "pending (cl\<lparr>segs := ys\<rparr>) = pending cl"
    using w [OF assms] w [OF list_all2_dropI [OF assms]] ix [OF assms]
    by (simp add: pending_def walkClass_def split: option.split)
  show "class_bytes (cl\<lparr>segs := ys\<rparr>) = class_bytes cl"
    using same_data_map [OF assms] by (simp add: class_bytes_def)
qed

lemma same_ok:
  assumes "class_ok cl" and s: "list_all2 same_data (segs cl) ys" and "list_all seg_ok ys"
    and "list_all (\<lambda>sg. \<not> sg_open sg) (butlast ys)"
  shows "class_ok (cl\<lparr>segs := ys\<rparr>)"
proof (cases "segs cl")
  case Nil
  then show ?thesis using assms by (simp add: class_ok_def)
next
  case (Cons sg rest)
  then obtain sg' rest' where ys: "ys = sg' # rest'" and h: "same_data sg sg'" using s by (auto simp: list_all2_Cons1)
  have l: "sg_seq (last ys) = sg_seq (last (segs cl))"
  proof -
    have "last (map sg_seq ys) = last (map sg_seq (segs cl))" using same_data_map [OF s] by simp
    then show ?thesis unfolding ys Cons by (simp only: last_map list.distinct not_False_eq_True)
  qed
  have o': "start_off (cl\<lparr>segs := ys\<rparr>) = start_off cl" using h by (simp add: start_off_def ys Cons same_data_def)
  show ?thesis using assms(1,3,4) l o' same_data_map [OF s] h
    by (auto simp: class_ok_def cursor_ok_def file_ok_def ys Cons same_data_def)
qed

lemma same_data_refl: "list_all2 same_data xs xs"
  by (simp add: list_all2_same same_data_def)

lemma sync_segment_same: "seg_ok sg \<Longrightarrow> same_data sg (sync_segment sg) \<and> seg_ok (sync_segment sg)"
  by (auto simp: same_data_def sync_segment_def seg_ok_def)

lemma close_segment_same: "seg_ok sg \<Longrightarrow> same_data sg (close_segment sg) \<and> seg_ok (close_segment sg)"
  by (auto simp: same_data_def sync_segment_def close_segment_def seg_ok_def)

lemma map_same: "list_all seg_ok xs \<Longrightarrow> (\<And>sg. seg_ok sg \<Longrightarrow> same_data sg (f sg) \<and> seg_ok (f sg)) \<Longrightarrow>
    list_all2 same_data xs (map f xs) \<and> list_all seg_ok (map f xs)"
  by (induction xs) auto

lemma syncClass_ok:
  assumes "class_ok cl"
  shows "class_ok (syncClass cl)" and "pending (syncClass cl) = pending cl" and "class_bytes (syncClass cl) = class_bytes cl"
proof -
  have "list_all seg_ok (segs cl)" using assms by (simp add: class_ok_def)
  from map_same [OF this sync_segment_same]
  have m: "list_all2 same_data (segs cl) (map sync_segment (segs cl))" "list_all seg_ok (map sync_segment (segs cl))" by simp_all
  have "list_all (\<lambda>sg. \<not> sg_open sg) (butlast (map sync_segment (segs cl)))"
    using assms by (cases "segs cl") (auto simp: class_ok_def map_butlast [symmetric] list_all_iff sync_segment_def)
  then show "class_ok (syncClass cl)" "pending (syncClass cl) = pending cl" "class_bytes (syncClass cl) = class_bytes cl"
    using same_ok [OF assms m] same_pending [OF m(1)] by (simp_all add: syncClass_def)
qed

lemma upd_last_snoc [simp]: "upd_last f (xs @ [x]) = xs @ [f x]"
  by (simp add: upd_last_def)

lemma upd_last_same:
  assumes "class_ok cl" and "\<And>sg. seg_ok sg \<Longrightarrow> same_data sg (f sg) \<and> seg_ok (f sg)"
  shows "class_ok (cl\<lparr>segs := upd_last f (segs cl)\<rparr>)"
    and "pending (cl\<lparr>segs := upd_last f (segs cl)\<rparr>) = pending cl"
    and "class_bytes (cl\<lparr>segs := upd_last f (segs cl)\<rparr>) = class_bytes cl"
proof -
  have "list_all2 same_data (segs cl) (upd_last f (segs cl)) \<and> list_all seg_ok (upd_last f (segs cl))
      \<and> list_all (\<lambda>sg. \<not> sg_open sg) (butlast (upd_last f (segs cl)))"
    using assms(1)
  proof (cases "segs cl" rule: rev_cases)
    case (snoc xs x)
    then show ?thesis using assms same_data_refl [of xs] by (simp add: class_ok_def list_all2_appendI)
  qed (simp add: upd_last_def)
  then show "class_ok (cl\<lparr>segs := upd_last f (segs cl)\<rparr>)"
    "pending (cl\<lparr>segs := upd_last f (segs cl)\<rparr>) = pending cl"
    "class_bytes (cl\<lparr>segs := upd_last f (segs cl)\<rparr>) = class_bytes cl"
    using same_ok [OF assms(1)] same_pending by simp_all
qed

text \<open>Appending.\<close>

lemma newSegment_ok:
  assumes "class_ok cl" and "list_all (\<lambda>sg. \<not> sg_open sg) (segs cl)"
  shows "class_ok (newSegment cl)" and "pending (newSegment cl) = pending cl"
    and "class_bytes (newSegment cl) = class_bytes cl"
proof -
  let ?n = "\<lparr>sg_seq = nextSeq cl, sg_data = [], sg_bytes = 0, sg_records = 0, sg_open = True, sg_synced = 0\<rparr>"
  have n: "seg_ok ?n" by (auto simp: seg_ok_def intro: exI [of _ "[]"])
  have lt: "\<forall>sg \<in> set (segs cl). sg_seq sg < nextSeq cl" using seq_less_next [OF assms(1)] by blast
  show ok: "class_ok (newSegment cl)"
  proof (cases "segs cl")
    case Nil
    then show ?thesis using assms(1) n boundary_Nil [OF n]
      by (auto simp: class_ok_def newSegment_def cursor_ok_def start_off_def file_ok_def file_before_def split: option.splits)
  next
    case (Cons sg rest)
    have "start_off (newSegment cl) = start_off cl" by (simp add: start_off_def newSegment_def Cons)
    then show ?thesis using assms n lt
      by (auto simp: class_ok_def newSegment_def cursor_ok_def file_ok_def file_before_def Cons sorted_wrt_append
          split: option.splits)
  qed
  show "pending (newSegment cl) = pending cl"
    using assms(1) by (cases "segs cl") (simp_all add: pending_ok ok, simp_all add: newSegment_def start_off_def)
  show "class_bytes (newSegment cl) = class_bytes cl"
    by (simp add: class_bytes_def newSegment_def)
qed

lemma ensureActive_ok:
  assumes "class_ok cl"
  shows "class_ok (ensureActive cap cl)" and "pending (ensureActive cap cl) = pending cl"
    and "class_bytes (ensureActive cap cl) = class_bytes cl"
    and "segs (ensureActive cap cl) \<noteq> [] \<and> sg_open (last (segs (ensureActive cap cl)))"
proof -
  have o': "same_data sg (sg\<lparr>sg_open := True\<rparr>) \<and> seg_ok (sg\<lparr>sg_open := True\<rparr>)" if "seg_ok sg" for sg
    using that by (simp add: same_data_def seg_ok_def)
  have c: "list_all (\<lambda>sg. \<not> sg_open sg) (segs cl)" if "\<not> (segs cl \<noteq> [] \<and> sg_open (last (segs cl)))"
    using assms that by (cases "segs cl" rule: rev_cases) (auto simp: class_ok_def)
  note [simp] = upd_last_same [OF assms o']
  show "class_ok (ensureActive cap cl)" "pending (ensureActive cap cl) = pending cl"
    "class_bytes (ensureActive cap cl) = class_bytes cl"
    using assms newSegment_ok [OF assms c] unfolding ensureActive_def by (simp_all del: not_False_eq_True) (metis | simp)+
  show "segs (ensureActive cap cl) \<noteq> [] \<and> sg_open (last (segs (ensureActive cap cl)))"
    by (simp add: ensureActive_def newSegment_def upd_last_def)
qed

lemma rotate_ok:
  assumes "class_ok cl"
  shows "class_ok (rotate_class cl)" and "pending (rotate_class cl) = pending cl"
    and "class_bytes (rotate_class cl) = class_bytes cl" and "list_all (\<lambda>sg. \<not> sg_open sg) (segs (rotate_class cl))"
proof -
  show "class_ok (rotate_class cl)" "pending (rotate_class cl) = pending cl" "class_bytes (rotate_class cl) = class_bytes cl"
    using upd_last_same [OF assms close_segment_same] by (simp_all add: rotate_class_def)
  show "list_all (\<lambda>sg. \<not> sg_open sg) (segs (rotate_class cl))"
    using assms by (cases "segs cl" rule: rev_cases) (auto simp: rotate_class_def upd_last_def class_ok_def close_segment_def)
qed

lemma write_ok:
  assumes "class_ok cl" and "segs cl \<noteq> []" and "sg_open (last (segs cl))" and f: "fits r"
  defines "cl' \<equiv> cl\<lparr>segs := upd_last (write_record r) (segs cl)\<rparr>"
  shows "class_ok cl'" and "pending cl' = pending cl @ [filed r]"
    and "class_bytes cl' = class_bytes cl + int (rec_size r)"
proof -
  obtain xs x where sg: "segs cl = xs @ [x]" using assms(2) by (cases "segs cl" rule: rev_cases) auto
  have x: "seg_ok x" "sg_open x" using assms(1,3) by (simp_all add: class_ok_def sg)
  have s: "segs cl' = xs @ [write_record r x]" by (simp add: cl'_def sg)
  have w: "seg_ok (write_record r x)"
  proof -
    from x obtain rs where "list_all fits rs" "sg_data x = encode_all rs" "sg_records x = length rs"
      by (auto simp: seg_ok_def)
    then show ?thesis using x f
      by (auto simp: seg_ok_def write_record_def recordOnDiskSize_eq intro!: exI [of _ "rs @ [r]"])
  qed
  have so: "start_off cl' = start_off cl" by (cases xs) (simp_all add: start_off_def s sg, simp_all add: cl'_def write_record_def)
  show ok: "class_ok cl'"
  proof (cases xs)
    case Nil
    then show ?thesis using assms(1) x w so f s
      by (auto simp: class_ok_def cursor_ok_def file_ok_def sg cl'_def write_record_def boundary_append)
  next
    case (Cons y ys)
    then show ?thesis using assms(1) x w so f s
      by (auto simp: class_ok_def cursor_ok_def file_ok_def sg cl'_def write_record_def)
  qed
  show "pending cl' = pending cl @ [filed r]"
  proof (cases xs)
    case Nil
    have b: "boundary (sg_data x) (nat (start_off cl))" using assms(1) by (simp add: class_ok_def cursor_ok_def sg Nil)
    show ?thesis unfolding pending_ok [OF ok] pending_ok [OF assms(1)]
      using seg_recs_append [OF b f] by (simp add: s sg Nil so) (simp add: write_record_def)
  next
    case (Cons y ys)
    show ?thesis unfolding pending_ok [OF ok] pending_ok [OF assms(1)]
      using seg_recs_append [OF boundary_Nil [OF x(1)] f] by (simp add: s sg Cons so) (simp add: write_record_def)
  qed
  show "class_bytes cl' = class_bytes cl + int (rec_size r)"
    by (simp add: class_bytes_def s sg) (simp add: write_record_def recordOnDiskSize_eq)
qed

lemma append_ok:
  assumes "class_ok cl" and f: "fits r"
  shows "class_ok (append_class cap r cl)" and "pending (append_class cap r cl) = pending cl @ [filed r]"
    and "class_bytes (append_class cap r cl) = class_bytes cl + int (rec_size r)"
proof -
  note e = ensureActive_ok [OF assms(1), of cap]
  note n = newSegment_ok [OF rotate_ok(1,4) [OF e(1)]]
  have o': "segs (newSegment x) \<noteq> [] \<and> sg_open (last (segs (newSegment x)))" for x by (simp add: newSegment_def)
  show "class_ok (append_class cap r cl)" "pending (append_class cap r cl) = pending cl @ [filed r]"
    "class_bytes (append_class cap r cl) = class_bytes cl + int (rec_size r)"
    using write_ok [OF e(1) _ _ f] e(2,3,4) write_ok [OF n(1) _ _ f] n(2,3) rotate_ok(2,3) [OF e(1)] o'
    by (simp_all add: append_class_def Let_def)
qed

text \<open>Reading and consuming.\<close>

lemma entries_from_view:
  "m < length rs \<Longrightarrow> entries_from i off (read_view rs) ! m =
     (filed (rs ! m), int (rec_size (rs ! m)), i, off + int (length (encode_all (take (Suc m) rs))))"
  "m \<le> length rs \<Longrightarrow> drop m (entries_from i off (read_view rs)) =
     entries_from i (off + int (length (encode_all (take m rs)))) (read_view (drop m rs))"
proof -
  have "(m < length rs \<longrightarrow> entries_from i off (read_view rs) ! m =
     (filed (rs ! m), int (rec_size (rs ! m)), i, off + int (length (encode_all (take (Suc m) rs))))) \<and>
    (m \<le> length rs \<longrightarrow> drop m (entries_from i off (read_view rs)) =
     entries_from i (off + int (length (encode_all (take m rs)))) (read_view (drop m rs)))"
  proof (induction rs arbitrary: m off)
    case (Cons r rs)
    show ?case
    proof (cases m)
      case (Suc k)
      show ?thesis using Cons [of k "off + int (rec_size r)"] by (simp add: Suc add.assoc)
    qed simp
  qed simp
  then show "m < length rs \<Longrightarrow> entries_from i off (read_view rs) ! m =
     (filed (rs ! m), int (rec_size (rs ! m)), i, off + int (length (encode_all (take (Suc m) rs))))"
    "m \<le> length rs \<Longrightarrow> drop m (entries_from i off (read_view rs)) =
     entries_from i (off + int (length (encode_all (take m rs)))) (read_view (drop m rs))" by blast+
qed

lemma entries_from_length [simp]: "length (entries_from i off es) = length es"
  by (induction i off es rule: entries_from.induct) simp_all

definition at_entry :: "nat \<Rightarrow> segment list \<Rightarrow> entry list \<Rightarrow> nat \<Rightarrow> bool" where
  "at_entry i sgs es m \<longleftrightarrow>
     (case es ! m of (r, sz, j, off) \<Rightarrow> i \<le> j \<and> j - i < length sgs \<and> 0 \<le> off \<and>
        boundary (sg_data (sgs ! (j - i))) (nat off) \<and>
        map fst (drop (Suc m) es) = map fst (walk j off (drop (j - i) sgs)))"

lemma walk_entry:
  "list_all seg_ok sgs \<Longrightarrow> sgs \<noteq> [] \<longrightarrow> 0 \<le> off \<and> boundary (sg_data (hd sgs)) (nat off) \<Longrightarrow>
     m < length (walk i off sgs) \<Longrightarrow> at_entry i sgs (walk i off sgs) m"
proof (induction sgs arbitrary: i off m)
  case (Cons sg sgs)
  have b: "0 \<le> off" "boundary (sg_data sg) (nat off)" using Cons.prems(2) by simp_all
  then obtain rs rs' where f: "list_all fits (rs @ rs')" "sg_data sg = encode_all (rs @ rs')" "nat off = length (encode_all rs)"
    by (auto simp: boundary_def)
  have rd: "read_records (drop (nat off) (sg_data sg)) = read_view rs'"
    unfolding f(2,3) by (rule read_from [OF f(1)])
  have w: "walk i off (sg # sgs) = entries_from i off (read_view rs') @ walk (i + 1) 0 sgs"
    by (simp add: rd)
  show ?case
  proof (cases "m < length rs'")
    case True
    let ?o = "off + int (length (encode_all (take (Suc m) rs')))"
    have o: "nat ?o = length (encode_all (rs @ take (Suc m) rs'))" using f(3) b(1) by simp
    have d: "sg_data sg = encode_all ((rs @ take (Suc m) rs') @ drop (Suc m) rs')"
      unfolding f(2) by (simp add: encode_all_simps(3) [symmetric] del: encode_all_simps(3))
    have f': "list_all fits ((rs @ take (Suc m) rs') @ drop (Suc m) rs')" using f(1) by simp
    have bo: "boundary (sg_data sg) (nat ?o)" unfolding boundary_def using d f' o by blast
    have rd': "read_records (drop (nat ?o) (sg_data sg)) = read_view (drop (Suc m) rs')"
      unfolding d o by (rule read_from [OF f'])
    show ?thesis unfolding w at_entry_def using True bo b(1) rd'
      by (simp add: nth_append entries_from_view)
  next
    case False
    let ?k = "m - length rs'"
    have k: "?k < length (walk (i + 1) 0 sgs)" using Cons.prems(3) False unfolding w by simp
    have "at_entry (i + 1) sgs (walk (i + 1) 0 sgs) ?k"
      by (rule Cons.IH [OF _ _ k]) (use Cons.prems(1) in \<open>cases sgs; simp\<close>)+
    moreover obtain r sz j off' where e: "walk (i + 1) 0 sgs ! ?k = (r, sz, j, off')" by (metis prod_cases4)
    ultimately have a: "i + 1 \<le> j" and "j - (i + 1) < length sgs" "0 \<le> off'"
      "boundary (sg_data (sgs ! (j - (i + 1)))) (nat off')"
      "map fst (drop (Suc ?k) (walk (i + 1) 0 sgs)) = map fst (walk j off' (drop (j - (i + 1)) sgs))"
      by (simp_all add: at_entry_def)
    moreover have "j - i = Suc (j - (i + 1))" using a by simp
    ultimately show ?thesis unfolding w at_entry_def using False e
      by (simp add: nth_append Suc_diff_le)
  qed
qed simp

lemma seq_filter:
  "sorted_wrt (<) (map sg_seq sgs) \<Longrightarrow> j < length sgs \<Longrightarrow>
     filter (\<lambda>sg. \<not> sg_seq sg < sg_seq (sgs ! j)) sgs = drop j sgs \<and> filter (\<lambda>sg. sg_seq sg < sg_seq (sgs ! j)) sgs = take j sgs"
proof (induction sgs arbitrary: j)
  case (Cons sg sgs)
  show ?case
  proof (cases j)
    case 0
    have "\<forall>x \<in> set sgs. \<not> sg_seq x < sg_seq sg" using Cons.prems(1) by auto
    then show ?thesis by (simp add: 0 filter_empty_conv)
  next
    case (Suc k)
    have "sg_seq sg < sg_seq (sgs ! k)" using Cons.prems Suc by auto
    then show ?thesis using Cons Suc by simp
  qed
qed simp

lemma moved_ok:
  assumes "class_ok cl" and j: "j < length (segs cl)" and "0 \<le> off" and "boundary (sg_data (segs cl ! j)) (nat off)"
    and "list_all (\<lambda>sg. sg_synced sg = length (sg_data sg)) (segs cl)"
  defines "cur \<equiv> \<lparr>cu_seq = sg_seq (segs cl ! j), cu_off = off\<rparr>"
  defines "cl' \<equiv> cl\<lparr>segs := drop j (segs cl), cl_cursor := cur, cursor_file := Some cur\<rparr>"
  shows "class_ok cl'" and "pending cl' = map fst (walk j off (drop j (segs cl)))"
proof -
  have h: "hd (segs cl') = segs cl ! j" "last (segs cl') = last (segs cl)" "segs cl' \<noteq> []" "segs cl \<noteq> []"
    using j by (auto simp: cl'_def hd_drop_conv_nth)
  have so: "start_off cl' = off" unfolding start_off_def h by (simp add: cl'_def cur_def)
  have lt: "sg_seq (segs cl ! j) < nextSeq cl" using seq_less_next [OF assms(1)] j by simp
  have sy: "sg_synced (segs cl ! j) = length (sg_data (segs cl ! j))" using assms(5) j by (simp add: list_all_length)
  have cok: "cursor_ok cl'" unfolding cursor_ok_def so h
    using assms(3,4) boundary_le [OF assms(4)] by (simp add: cl'_def cur_def sy)
  have fo: "file_ok cl'" by (simp add: file_ok_def cl'_def)
  have a: "list_all seg_ok (drop j (segs cl))" "list_all (\<lambda>sg. \<not> sg_open sg) (butlast (drop j (segs cl)))"
    "sorted_wrt (<) (map sg_seq (drop j (segs cl)))"
    using assms(1) h(4) by (auto simp: class_ok_def list_all_iff butlast_drop dest: in_set_dropD intro: sorted_wrt_drop simp flip: drop_map)
  show ok: "class_ok cl'"
    using a cok fo lt h assms(1) by (auto simp: class_ok_def cl'_def cur_def file_before_def)
  show "pending cl' = map fst (walk j off (drop j (segs cl)))"
    unfolding pending_ok [OF ok] so walk_records by (simp add: cl'_def)
qed

definition commit_step :: "nat \<Rightarrow> spool_class \<Rightarrow> spool_class" where
  "commit_step m cl =
     (let cur = commit_cursor (walkClass cl ! (m - 1)) cl in
      (syncClass cl)\<lparr>segs := filter (\<lambda>sg. \<not> sg_seq sg < cu_seq cur) (segs (syncClass cl)), cl_cursor := cur, cursor_file := Some cur\<rparr>)"

lemma syncClass_segs [simp]: "segs (syncClass cl) = map sync_segment (segs cl)"
  by (simp add: syncClass_def)

lemma sync_segment_simps [simp]:
  "sg_seq (sync_segment sg) = sg_seq sg" "sg_data (sync_segment sg) = sg_data sg" "sg_bytes (sync_segment sg) = sg_bytes sg"
  by (simp_all add: sync_segment_def)

lemma walk_data: "map sg_data xs = map sg_data ys \<Longrightarrow> walk i off xs = walk i off ys"
proof (induction xs arbitrary: ys i off)
  case (Cons x xs)
  from Cons.prems obtain y ys' where y: "ys = y # ys'" "sg_data x = sg_data y" "map sg_data xs = map sg_data ys'"
    by (cases ys) simp_all
  show ?case using Cons.IH [OF y(3)] by (simp add: y(1,2))
qed simp

lemma commit_step_ok:
  assumes ok: "class_ok cl" and m: "0 < m" "m \<le> length (pending cl)"
  shows "class_ok (commit_step m cl)" and "pending (commit_step m cl) = drop m (pending cl)"
proof -
  let ?es = "walkClass cl" and ?cl = "syncClass cl"
  have w: "?es = walk 0 (start_off cl) (segs cl)" by (rule walkClass_ok [OF ok])
  have m': "m - 1 < length (walk 0 (start_off cl) (segs cl))" using m by (simp add: pending_def w)
  have so: "list_all seg_ok (segs cl)" using ok by (simp add: class_ok_def)
  have h: "segs cl \<noteq> [] \<longrightarrow> 0 \<le> start_off cl \<and> boundary (sg_data (hd (segs cl))) (nat (start_off cl))"
    using ok by (simp add: class_ok_def cursor_ok_def)
  obtain r sz j off where e: "?es ! (m - 1) = (r, sz, j, off)" by (metis prod_cases4)
  have a: "j < length (segs cl)" "0 \<le> off" "boundary (sg_data (segs cl ! j)) (nat off)"
    "map fst (drop m ?es) = map fst (walk j off (drop j (segs cl)))"
    using walk_entry [OF so h m'] e m(1) by (simp_all add: at_entry_def w)
  have all_synced: "list_all (\<lambda>sg. sg_synced sg = length (sg_data sg)) (segs ?cl)"
    using so by (auto simp: list_all_iff sync_segment_def seg_ok_def)
  have sorted: "sorted_wrt (<) (map sg_seq (segs ?cl))" using ok by (simp add: class_ok_def comp_def)
  have wd: "walk j' off' (drop j' (segs ?cl)) = walk j' off' (drop j' (segs cl))" for j' off'
    by (rule walk_data) (simp add: drop_map)
  have dp: "map fst (drop m ?es) = drop m (pending cl)" by (simp add: pending_def drop_map)
  have step: "class_ok (commit_step m cl) \<and> pending (commit_step m cl) = drop m (pending cl)"
    if "commit_cursor (?es ! (m - 1)) cl = \<lparr>cu_seq = sg_seq (segs ?cl ! j'), cu_off = off'\<rparr>" and j': "j' < length (segs ?cl)"
      and "0 \<le> off'" and "boundary (sg_data (segs ?cl ! j')) (nat off')"
      and "map fst (walk j' off' (drop j' (segs ?cl))) = map fst (drop m ?es)" for j' off'
    using moved_ok [OF syncClass_ok(1) [OF ok] j' that(3,4) all_synced] seq_filter [OF sorted j'] that(5)
    unfolding commit_step_def that(1) Let_def by (simp add: dp)
  have b: "sg_bytes (segs cl ! j) = int (length (sg_data (segs cl ! j)))"
    using so a(1) by (simp add: list_all_length seg_ok_def)
  have "class_ok (commit_step m cl) \<and> pending (commit_step m cl) = drop m (pending cl)"
  proof (cases "sg_bytes (segs cl ! j) \<le> off \<and> j + 1 < length (segs cl)")
    case True
    then have "int (length (sg_data (segs cl ! j))) \<le> off" using b by simp
    then have end': "drop (nat off) (sg_data (segs cl ! j)) = []" by (simp add: le_nat_iff)
    have "map fst (walk (j + 1) 0 (drop (j + 1) (segs cl))) = map fst (drop m ?es)"
      unfolding a(4) using a(1) end' by (simp add: Cons_nth_drop_Suc [symmetric] read_records.simps decodeRecord_def)
    then show ?thesis using True so
      by (intro step [of "j + 1" 0]) (simp_all add: commit_cursor_def e [simplified] wd [simplified] list_all_length)
  next
    case False
    then show ?thesis using a by (intro step [of j off]) (auto simp: commit_cursor_def e [simplified] wd [simplified])
  qed
  then show "class_ok (commit_step m cl)" "pending (commit_step m cl) = drop m (pending cl)" by simp_all
qed

text \<open>A power cut and the recovery.\<close>

definition crash :: "(nat \<Rightarrow> nat) \<Rightarrow> spool_class \<Rightarrow> class_disk" where
  "crash surv cl =
     \<lparr>d_files = map (\<lambda>sg. (sg_seq sg, take (max (sg_synced sg) (surv (sg_seq sg))) (sg_data sg))) (segs cl),
      d_cursor = cursor_file cl\<rparr>"

definition rec_seg :: "(nat \<Rightarrow> nat) \<Rightarrow> segment \<Rightarrow> segment" where
  "rec_seg surv sg = scan_file (sg_seq sg, take (max (sg_synced sg) (surv (sg_seq sg))) (sg_data sg))"

definition durable :: "spool_class \<Rightarrow> Record list" where
  "durable cl =
     (case segs cl of [] \<Rightarrow> []
      | sg # rest \<Rightarrow> seg_recs (drop (nat (start_off cl)) (take (sg_synced sg) (sg_data sg)))
          @ concat (map (\<lambda>s. seg_recs (take (sg_synced s) (sg_data s))) rest))"

lemma whole_mono: "k \<le> k' \<Longrightarrow> prefix (whole k rs) (whole k' rs)"
  by (induction k rs arbitrary: k' rule: whole.induct) auto

lemma take_encode_whole: "list_all fits rs \<Longrightarrow> take (snd (scanSegment (take k (encode_all rs)))) (take k (encode_all rs)) = encode_all (whole k rs)"
proof -
  assume f: "list_all fits rs"
  obtain rs' where rs: "rs = whole k rs @ rs'" using whole_prefix by blast
  have "take (length (encode_all (whole k rs))) (take k (encode_all rs)) = take (length (encode_all (whole k rs))) (encode_all rs)"
    using whole_cut [of k rs] by (simp add: min_def)
  also have "\<dots> = encode_all (whole k rs)" by (subst (2) rs) simp
  finally show ?thesis using cut_read [OF f, of k] by simp
qed

lemma rec_seg_fields:
  assumes "list_all fits rs" and "sg_data sg = encode_all rs"
    and w_def: "w = whole (max (sg_synced sg) (surv (sg_seq sg))) rs"
  shows "sg_seq (rec_seg surv sg) = sg_seq sg" and "sg_data (rec_seg surv sg) = encode_all w"
    and "sg_synced (rec_seg surv sg) = length (encode_all w)" and "\<not> sg_open (rec_seg surv sg)"
    and "seg_ok (rec_seg surv sg)"
proof -
  let ?k = "max (sg_synced sg) (surv (sg_seq sg))"
  have s: "scanSegment (take ?k (encode_all rs)) = (length w, length (encode_all w))"
    using cut_read [OF assms(1), of ?k] by (simp add: w_def)
  have d: "take (length (encode_all w)) (take ?k (encode_all rs)) = encode_all w"
    using take_encode_whole [OF assms(1), of ?k] s by (simp add: w_def)
  obtain rs' where "rs = w @ rs'" using whole_prefix w_def by blast
  then have "list_all fits w" using assms(1) by simp
  then show "sg_seq (rec_seg surv sg) = sg_seq sg" "sg_data (rec_seg surv sg) = encode_all w"
    "sg_synced (rec_seg surv sg) = length (encode_all w)" "\<not> sg_open (rec_seg surv sg)" "seg_ok (rec_seg surv sg)"
    using d by (auto simp: rec_seg_def scan_file_def assms(2) s seg_ok_def)
qed

lemma rec_seg_cut:
  assumes "seg_ok sg" and "boundary (sg_data sg) k" and "k \<le> sg_synced sg"
  shows "boundary (sg_data (rec_seg surv sg)) k"
    and "prefix (seg_recs (drop k (sg_data (rec_seg surv sg)))) (seg_recs (drop k (sg_data sg)))"
    and "prefix (seg_recs (drop k (take (sg_synced sg) (sg_data sg)))) (seg_recs (drop k (sg_data (rec_seg surv sg))))"
proof -
  from assms(2) obtain rs rs' where f: "list_all fits (rs @ rs')" "sg_data sg = encode_all (rs @ rs')" "k = length (encode_all rs)"
    by (auto simp: boundary_def)
  have w: "whole j (rs @ rs') = rs @ whole (j - k) rs'" if "k \<le> j" for j
    using whole_append [of rs j rs'] that f(3) by simp
  let ?j = "max (sg_synced sg) (surv (sg_seq sg))"
  have j: "k \<le> ?j" using assms(3) by simp
  have d: "sg_data (rec_seg surv sg) = encode_all (rs @ whole (?j - k) rs')"
    using rec_seg_fields(2) [OF f(1,2) refl, of surv] w [OF j] by simp
  have f': "list_all fits (whole i rs')" for i
    using f(1) whole_prefix [of rs' i] by (metis list_all_append)
  show "boundary (sg_data (rec_seg surv sg)) k"
    unfolding boundary_def using f f' d by (intro exI [of _ rs] exI [of _ "whole (?j - k) rs'"]) simp
  have r: "seg_recs (drop k (sg_data (rec_seg surv sg))) = map filed (whole (?j - k) rs')"
    using f(3) f' by (simp add: d seg_recs_all)
  have "seg_recs (drop k (sg_data sg)) = map filed rs'" using f by (simp add: seg_recs_all)
  moreover have "prefix (whole (?j - k) rs') rs'" using whole_prefix [of rs' "?j - k"] by (metis prefixI)
  ultimately show "prefix (seg_recs (drop k (sg_data (rec_seg surv sg)))) (seg_recs (drop k (sg_data sg)))"
    unfolding r by (metis map_mono_prefix)
  have "drop k (take (sg_synced sg) (sg_data sg)) = take (sg_synced sg - k) (encode_all rs')"
    using f by (simp only: drop_take) simp
  moreover have "seg_recs (take i (encode_all rs')) = map filed (whole i rs')" for i
    using cut_read [of rs' i] f(1) by (simp add: seg_recs_def read_view_def)
  ultimately have "seg_recs (drop k (take (sg_synced sg) (sg_data sg))) = map filed (whole (sg_synced sg - k) rs')" by simp
  moreover have "prefix (whole (sg_synced sg - k) rs') (whole (?j - k) rs')" by (rule whole_mono) simp
  ultimately show "prefix (seg_recs (drop k (take (sg_synced sg) (sg_data sg)))) (seg_recs (drop k (sg_data (rec_seg surv sg))))"
    unfolding r by (simp add: map_mono_prefix)
qed

lemma rec_seg_closed:
  assumes "seg_ok sg" and "\<not> sg_open sg"
  shows "sg_data (rec_seg surv sg) = sg_data sg"
proof -
  from assms obtain rs where rs: "list_all fits rs" "sg_data sg = encode_all rs" by (auto simp: seg_ok_def)
  have "whole (max (sg_synced sg) (surv (sg_seq sg))) rs = rs"
    using assms rs by (intro whole_all) (simp add: seg_ok_def)
  then show ?thesis using rec_seg_fields(2) [OF rs refl, of surv] rs by simp
qed

lemma fold_max_last:
  "sorted_wrt (<) (map fst fs) \<Longrightarrow> fs \<noteq> [] \<Longrightarrow> (\<forall>f \<in> set fs. m \<le> fst f) \<Longrightarrow>
     fold (\<lambda>f m. if m < fst f then fst f else m) fs m = (fst (last fs) :: nat)"
proof (induction fs arbitrary: m)
  case (Cons f fs)
  have "(if m < fst f then fst f else m) = fst f" using Cons.prems(3) by auto
  moreover have "fold (\<lambda>f m. if m < fst f then fst f else m) fs (fst f) = fst (last fs)" if "fs \<noteq> []"
    using Cons.IH [OF _ that, of "fst f"] Cons.prems(1) by (auto simp: less_imp_le)
  ultimately show ?case by (cases "fs = []") simp_all
qed simp

lemma scan_crash:
  assumes "class_ok cl"
  shows "scanClass (d_files (crash surv cl)) =
     (map (rec_seg surv) (segs cl), if segs cl = [] then 1 else nextSeq cl)"
proof -
  let ?fs = "d_files (crash surv cl)"
  have s: "sorted_wrt (<) (map fst ?fs)" using assms by (simp add: crash_def class_ok_def comp_def)
  have "sorted_wrt (\<le>) (map fst ?fs)" by (rule sorted_wrt_mono_rel [OF _ s]) simp
  then have so: "sort_key fst ?fs = ?fs" by (simp add: sorted_sort_id sort_key_id_if_sorted)
  have m: "map scan_file ?fs = map (rec_seg surv) (segs cl)" by (simp add: crash_def rec_seg_def)
  have n: "fold (\<lambda>f m. if m < fst f then fst f else m) ?fs 0 + 1 = nextSeq cl" if "segs cl \<noteq> []"
  proof -
    have "?fs \<noteq> []" using that by (simp add: crash_def)
    then have "fold (\<lambda>f m. if m < fst f then fst f else m) ?fs 0 = fst (last ?fs)" by (rule fold_max_last [OF s]) simp
    then show ?thesis using assms that by (simp add: crash_def last_map class_ok_def)
  qed
  show ?thesis unfolding scanClass_def so m using n by (simp add: crash_def)
qed

lemma rec_seg_seq [simp]: "sg_seq (rec_seg surv sg) = sg_seq sg"
  by (simp add: rec_seg_def scan_file_def case_prod_unfold Let_def)

lemma recover_cursor:
  assumes ok: "class_ok cl" and ne: "segs cl \<noteq> []"
  shows "segs (recoverClass (crash surv cl)) = map (rec_seg surv) (segs cl)"
    and "cl_cursor (recoverClass (crash surv cl)) = \<lparr>cu_seq = sg_seq (hd (segs cl)), cu_off = start_off cl\<rparr>"
    and "nextSeq (recoverClass (crash surv cl)) = nextSeq cl"
    and "cursor_file (recoverClass (crash surv cl)) = cursor_file cl"
proof -
  obtain sg rest where sg: "segs cl = sg # rest" using ne by (cases "segs cl") auto
  have so: "seg_ok sg" "\<forall>x \<in> set rest. sg_seq sg < sg_seq x" and c: "cursor_ok cl" "file_ok cl"
    using ok by (simp_all add: class_ok_def sg)
  have b: "boundary (sg_data sg) (nat (start_off cl))" "nat (start_off cl) \<le> sg_synced sg" "0 \<le> start_off cl"
    "cu_seq (cl_cursor cl) \<le> sg_seq sg"
    using c by (simp_all add: cursor_ok_def sg)
  obtain rs where rs: "list_all fits rs" "sg_data sg = encode_all rs" using so(1) by (auto simp: seg_ok_def)
  have bt: "sg_bytes (rec_seg surv sg) = int (length (sg_data (rec_seg surv sg)))"
    using rec_seg_fields(5) [OF rs refl, of surv] by (simp add: seg_ok_def)
  have le: "start_off cl \<le> sg_bytes (rec_seg surv sg)"
    using boundary_le [OF rec_seg_cut(1) [OF so(1) b(1,2), of surv]] b(3) by (simp add: bt nat_le_iff)
  have b0: "0 \<le> sg_bytes (rec_seg surv sg)" by (simp add: bt)
  have kept: "filter (\<lambda>s. \<not> sg_seq s < q) (map (rec_seg surv) (segs cl)) = map (rec_seg surv) (segs cl)" if "q \<le> sg_seq sg" for q
    using that so(2) by (auto simp: sg filter_id_conv intro: order.strict_trans1 less_imp_le)
  have norm: "normalizeCursor q (map (rec_seg surv) (segs cl)) = \<lparr>cu_seq = sg_seq sg, cu_off = start_off cl\<rparr>"
    if "cu_seq q < sg_seq sg \<and> start_off cl = 0 \<or> q = \<lparr>cu_seq = sg_seq sg, cu_off = start_off cl\<rparr>" for q
    using that le by (auto simp: normalizeCursor_def sg)
  let ?q = "case cursor_file cl of None \<Rightarrow> \<lparr>cu_seq = sg_seq sg, cu_off = 0\<rparr> | Some f \<Rightarrow> f"
  have cr: "cl_cursor cl = \<lparr>cu_seq = cu_seq (cl_cursor cl), cu_off = cu_off (cl_cursor cl)\<rparr>" by simp
  have q: "cu_seq ?q < sg_seq sg \<and> start_off cl = 0 \<or> ?q = \<lparr>cu_seq = sg_seq sg, cu_off = start_off cl\<rparr>"
  proof (cases "cursor_file cl = Some (cl_cursor cl)")
    case True
    show ?thesis
    proof (cases "cu_seq (cl_cursor cl) = sg_seq sg")
      case eq: True
      then show ?thesis using True cr by (simp add: start_off_def sg)
    next
      case False
      then show ?thesis using True b(4) by (simp add: start_off_def sg)
    qed
  next
    case False
    then have "start_off cl = 0 \<and> file_before (cursor_file cl) (sg_seq sg)" using c(2) by (simp add: file_ok_def sg)
    then show ?thesis by (cases "cursor_file cl") (simp_all add: file_before_def)
  qed
  have ql: "cu_seq ?q \<le> sg_seq sg" using q by auto
  have r: "recoverClass (crash surv cl) = \<lparr>segs = map (rec_seg surv) (segs cl),
      cl_cursor = \<lparr>cu_seq = sg_seq sg, cu_off = start_off cl\<rparr>, nextSeq = nextSeq cl, cursor_file = cursor_file cl\<rparr>"
    using kept [OF ql] norm [OF q]
    by (cases "cursor_file cl") (simp_all add: recoverClass_def scan_crash [OF ok] sg, simp_all add: crash_def sg)
  show "segs (recoverClass (crash surv cl)) = map (rec_seg surv) (segs cl)"
    "cl_cursor (recoverClass (crash surv cl)) = \<lparr>cu_seq = sg_seq (hd (segs cl)), cu_off = start_off cl\<rparr>"
    "nextSeq (recoverClass (crash surv cl)) = nextSeq cl" "cursor_file (recoverClass (crash surv cl)) = cursor_file cl"
    unfolding r by (simp_all add: sg)
qed

lemma recover_ok:
  assumes ok: "class_ok cl" and e: "segs cl = [] \<longrightarrow> cursor_file cl = None"
  shows "class_ok (recoverClass (crash surv cl))"
    and "prefix (pending (recoverClass (crash surv cl))) (pending cl)"
    and "prefix (durable cl) (pending (recoverClass (crash surv cl)))"
proof -
  let ?r = "recoverClass (crash surv cl)"
  have "class_ok ?r \<and> prefix (pending ?r) (pending cl) \<and> prefix (durable cl) (pending ?r)"
  proof (cases "segs cl")
    case Nil
    then have r: "?r = \<lparr>segs = [], cl_cursor = zero_cursor, nextSeq = 1, cursor_file = None\<rparr>"
      using e by (simp add: recoverClass_def scan_crash [OF ok] normalizeCursor_def) (simp add: crash_def)
    have "class_ok ?r" unfolding r by (simp add: class_ok_def zero_cursor_def file_before_def)
    then show ?thesis using ok Nil by (simp add: pending_ok durable_def) (simp add: r)
  next
    case (Cons sg rest)
    then have ne: "segs cl \<noteq> []" by simp
    note rc = recover_cursor [OF ok ne, of surv]
    have so: "list_all seg_ok (segs cl)" and cl: "list_all (\<lambda>sg. \<not> sg_open sg) (butlast (segs cl))"
      and c: "cursor_ok cl" "file_ok cl"
      using ok ne by (simp_all add: class_ok_def)
    have b: "boundary (sg_data sg) (nat (start_off cl))" "nat (start_off cl) \<le> sg_synced sg" "0 \<le> start_off cl"
      using c(1) by (simp_all add: cursor_ok_def Cons)
    have rok: "seg_ok (rec_seg surv x) \<and> \<not> sg_open (rec_seg surv x) \<and> sg_synced (rec_seg surv x) = length (sg_data (rec_seg surv x))"
      if okx: "seg_ok x" for x
    proof -
      from okx obtain rs where rs: "list_all fits rs" "sg_data x = encode_all rs" by (auto simp: seg_ok_def)
      show ?thesis using rec_seg_fields(2-5) [OF rs refl, of surv] by simp
    qed
    have sr: "start_off ?r = start_off cl" unfolding start_off_def [of ?r] rc by (simp add: Cons)
    have b': "boundary (sg_data (rec_seg surv sg)) (nat (start_off cl))"
      using rec_seg_cut(1) [OF _ b(1,2)] so by (simp add: Cons)
    have ck: "cursor_ok ?r" unfolding cursor_ok_def sr rc
      using b b' boundary_le [OF b'] rok so by (simp add: Cons)
    have fk: "file_ok ?r"
    proof (cases "cursor_file cl = Some (cl_cursor cl) \<and> cu_seq (cl_cursor cl) = sg_seq sg")
      case True
      then show ?thesis by (simp add: file_ok_def rc Cons start_off_def)
    next
      case False
      have "cu_seq (cl_cursor cl) \<le> sg_seq sg" using c(1) by (simp add: cursor_ok_def Cons)
      then have "start_off cl = 0 \<and> file_before (cursor_file cl) (sg_seq sg)"
        using c(2) False by (auto simp: file_ok_def Cons file_before_def start_off_def)
      then show ?thesis unfolding file_ok_def sr rc by (simp add: Cons)
    qed
    have l: "sg_seq (last (map (rec_seg surv) (segs cl))) = sg_seq (last (segs cl))" using ne by (simp add: last_map)
    have k: "class_ok ?r"
      unfolding class_ok_def rc
      using ok ck fk so rok seq_less_next [OF ok, of sg] l ne
      by (auto simp: class_ok_def list_all_iff comp_def Cons dest!: in_set_butlastD)
    have p: "prefix (pending ?r) (pending cl) \<and> prefix (durable cl) (pending ?r)"
    proof (cases rest rule: rev_cases)
      case Nil
      have s: "seg_ok sg" using so by (simp add: Cons)
      show ?thesis using rec_seg_cut(2,3) [OF s b(1,2)]
        by (simp add: pending_ok [OF ok] pending_ok [OF k] rc sr durable_def Cons Nil)
    next
      case (snoc xs x)
      have s: "seg_ok x" and sx: "list_all seg_ok (sg # xs)" using so by (simp_all add: Cons snoc)
      have cx: "list_all (\<lambda>sg. \<not> sg_open sg) (sg # xs)" using cl by (simp add: Cons snoc)
      have d: "sg_data (rec_seg surv y) = sg_data y \<and> take (sg_synced y) (sg_data y) = sg_data y" if "y \<in> set (sg # xs)" for y
        using that sx cx rec_seg_closed [of y surv] by (auto simp: list_all_iff seg_ok_def)
      then have m: "map (\<lambda>y. seg_recs (sg_data (rec_seg surv y))) xs = map (\<lambda>y. seg_recs (sg_data y)) xs"
        "map (\<lambda>y. seg_recs (take (sg_synced y) (sg_data y))) xs = map (\<lambda>y. seg_recs (sg_data y)) xs"
        by (auto intro!: map_cong)
      show ?thesis using rec_seg_cut(2,3) [OF s boundary_Nil [OF s], of surv] d [of sg]
        by (simp add: pending_ok [OF ok] pending_ok [OF k] rc sr durable_def Cons snoc comp_def m)
    qed
    show ?thesis using k p by simp
  qed
  then show "class_ok ?r" "prefix (pending ?r) (pending cl)" "prefix (durable cl) (pending ?r)" by simp_all
qed

end
