(* ===== verification/SpoolQueue.thy ===== *)
theory SpoolQueue
  imports Spool
begin

text \<open>
  The spool as a whole: what its operations do to the records pending in each class, the runs of a
  spool (appends, peeks, commits, closing, power cuts and reopening) and the properties of the queue.
\<close>

section \<open>Well-formed spools\<close>

definition spool_ok :: "Spool \<Rightarrow> bool" where
  "spool_ok s \<longleftrightarrow> (\<forall>c. class_ok (classes s c)) \<and> totalBytes s = (\<Sum>c<NumPriorities. class_bytes (classes s c)) \<and>
     totalBytes s \<le> maxBytes s \<and> 0 < maxBytes s"

abbreviation pend :: "Spool \<Rightarrow> nat \<Rightarrow> Record list" where
  "pend s c \<equiv> pending (classes s c)"

lemma upd_class_simps [simp]:
  "classes (upd_class c f s) = (classes s)(c := f (classes s c))" "totalBytes (upd_class c f s) = totalBytes s"
  "maxBytes (upd_class c f s) = maxBytes s" "segCap (upd_class c f s) = segCap s"
  "lastPeekClass (upd_class c f s) = lastPeekClass s" "dirty (upd_class c f s) = dirty s"
  "lastSync (upd_class c f s) = lastSync s"
  by (simp_all add: upd_class_def)

lemma sum_upd:
  fixes f :: "nat \<Rightarrow> int"
  assumes "c < n"
  shows "(\<Sum>k<n. if k = c then x else f k) = (\<Sum>k<n. f k) + x - f c"
  using assms sum.remove [of "{..<n}" c "\<lambda>k. if k = c then x else f k"] sum.remove [of "{..<n}" c f]
  by (simp add: sum.If_cases) 

lemma seg_bytes_nonneg: "class_ok cl \<Longrightarrow> 0 \<le> class_bytes cl"
  by (auto simp: class_ok_def class_bytes_def list_all_iff seg_ok_def intro!: sum_list_nonneg)

lemma clamp_less [simp]: "clampPriority p < NumPriorities"
  by (auto simp: clampPriority_def NumPriorities_def)

lemma evictOldest_ok:
  assumes "spool_ok s" and "v < NumPriorities" and "segs (classes s v) \<noteq> []"
  shows "spool_ok (snd (evictOldest v s))" and "fst (evictOldest v s)"
    and "maxBytes (snd (evictOldest v s)) = maxBytes s"
    and "classes (snd (evictOldest v s)) = (classes s)(v := evict_class (classes s v))"
proof -
  have cok: "class_ok (classes s c)" for c using assms(1) by (simp add: spool_ok_def)
  note e = evict_ok [OF cok assms(3)]
  have "0 \<le> sg_bytes (hd (segs (classes s v)))"
    using cok [of v] assms(3) by (cases "segs (classes s v)") (auto simp: class_ok_def seg_ok_def)
  then show "spool_ok (snd (evictOldest v s))"
    using assms(1) cok e(1,3) unfolding evictOldest_eq [OF assms(3)]
    by (auto simp: spool_ok_def if_distrib [of class_bytes] sum_upd [OF assms(2)] cong: if_cong)
  show "fst (evictOldest v s)" "maxBytes (snd (evictOldest v s)) = maxBytes s"
    "classes (snd (evictOldest v s)) = (classes s)(v := evict_class (classes s v))"
    by (simp_all add: evictOldest_eq [OF assms(3)])
qed

lemma make_room_ok:
  "spool_ok s \<Longrightarrow> spool_ok (make_room c n s) \<and> maxBytes (make_room c n s) = maxBytes s \<and>
     (\<forall>k < c. classes (make_room c n s) k = classes s k) \<and> (\<forall>k. suffix (pend (make_room c n s) k) (pend s k)) \<and>
     (totalBytes (make_room c n s) + n \<le> maxBytes s \<or> (\<forall>k. c \<le> k \<longrightarrow> k < NumPriorities \<longrightarrow> segs (classes (make_room c n s) k) = []))"
proof (induction c n s rule: make_room.induct)
  case (1 c n s)
  show ?case
  proof (cases "totalBytes s + n \<le> maxBytes s")
    case True
    then show ?thesis using 1(2) by (subst (1 2 3 4 5 6) make_room.simps) simp
  next
    case full: False
    show ?thesis
    proof (cases "victimClass c s")
      case None
      then have "make_room c n s = s" using full by (subst make_room.simps) simp
      moreover have "\<forall>k. c \<le> k \<longrightarrow> k < NumPriorities \<longrightarrow> segs (classes s k) = []"
        using None by (simp add: victimClass_def find_None_iff)
      ultimately show ?thesis using 1(2) by simp
    next
      case (Some v)
      note v = victimClass_SomeD [OF Some]
      define s' where "s' = snd (evictOldest v s)"
      have e: "evictOldest v s = (True, s')" using evictOldest_ok(2) [OF 1(2)] v by (simp add: s'_def prod_eq_iff)
      have m: "make_room c n s = make_room c n s'" using full Some e by (subst make_room.simps) simp
      have s': "spool_ok s'" "maxBytes s' = maxBytes s" "classes s' = (classes s)(v := evict_class (classes s v))"
        unfolding s'_def using evictOldest_ok [OF 1(2)] v by simp_all
      have "suffix (pend s' k) (pend s k)" for k
        using evict_ok(2) [of "classes s v"] 1(2) v by (auto simp: s'(3) spool_ok_def suffix_def)
      then show ?thesis using 1(1) [OF full Some e [symmetric] refl s'(1)] s' v unfolding m
        by (auto intro: suffix_order.trans)
    qed
  qed
qed

lemma maybeSync_ok:
  "spool_ok s \<Longrightarrow> spool_ok (maybeSync now s) \<and> (\<forall>k. pend (maybeSync now s) k = pend s k) \<and> maxBytes (maybeSync now s) = maxBytes s"
  using syncClass_ok by (auto simp: maybeSync_def spool_ok_def)

lemma classes_below:
  assumes "spool_ok s" and "\<forall>k. c \<le> k \<longrightarrow> k < NumPriorities \<longrightarrow> segs (classes s k) = []" and "c < NumPriorities"
  shows "totalBytes s = (\<Sum>k<c. class_bytes (classes s k))"
proof -
  have "(\<Sum>k<NumPriorities. class_bytes (classes s k)) = (\<Sum>k<c. class_bytes (classes s k)) + (\<Sum>k\<in>{c..<NumPriorities}. class_bytes (classes s k))"
    using sum.atLeastLessThan_concat [of 0 c NumPriorities "\<lambda>k. class_bytes (classes s k)"] assms(3)
    by (simp add: atLeast0LessThan)
  also have "(\<Sum>k\<in>{c..<NumPriorities}. class_bytes (classes s k)) = 0"
    using assms(2) by (intro sum.neutral) (simp add: class_bytes_def)
  finally show ?thesis using assms(1) by (simp add: spool_ok_def)
qed

lemma room_enough: "totalBytes s + n \<le> maxBytes s \<Longrightarrow> make_room c n s = s"
  by (subst make_room.simps) simp

lemma filed_fits: "length (Stream r) \<le> maxStreamLen \<Longrightarrow> rec_len r \<le> maxRecordBytes \<Longrightarrow> in_int64 (Ts r) \<Longrightarrow> fits r"
  by (simp add: fits_def rec_len_def)

text \<open>What an append does: the result of making room, and whether the record was stored.\<close>

definition stored :: "Record \<Rightarrow> Spool \<Rightarrow> bool" where
  "stored r s \<longleftrightarrow> length (Stream r) \<le> maxStreamLen \<and>
     totalBytes (make_room (clampPriority (Priority r)) (int (rec_size r)) s) + int (rec_size r) \<le> maxBytes s \<and>
     int (rec_size r) \<le> maxBytes s"

lemma Append_ok:
  assumes ok: "spool_ok s" and r: "rec_len r \<le> maxRecordBytes" "in_int64 (Ts r)"
  defines "c \<equiv> clampPriority (Priority r)"
  shows "spool_ok (snd (Append now r s))" and "maxBytes (snd (Append now r s)) = maxBytes s"
    and "stored r s \<Longrightarrow> pend (snd (Append now r s)) k =
      (if k = c then pend (make_room c (int (rec_size r)) s) c @ [filed r] else pend (make_room c (int (rec_size r)) s) k)"
    and "\<not> stored r s \<Longrightarrow> suffix (pend (snd (Append now r s)) k) (pend s k) \<and> (k < c \<longrightarrow> pend (snd (Append now r s)) k = pend s k)"
proof -
  let ?n = "int (rec_size r)" and ?s1 = "make_room c (int (rec_size r)) s"
  note m = make_room_ok [OF ok, of c ?n]
  show g: "spool_ok (snd (Append now r s))" and "maxBytes (snd (Append now r s)) = maxBytes s"
    and "stored r s \<Longrightarrow> pend (snd (Append now r s)) k = (if k = c then pend ?s1 c @ [filed r] else pend ?s1 k)"
    and "\<not> stored r s \<Longrightarrow> suffix (pend (snd (Append now r s)) k) (pend s k) \<and> (k < c \<longrightarrow> pend (snd (Append now r s)) k = pend s k)"
  proof (goal_cases)
    case 1
    show ?case
    proof (cases "stored r s")
      case True
      have f: "fits r" using True r by (simp add: stored_def filed_fits)
      have c1: "class_ok (classes ?s1 c)" using m by (simp add: spool_ok_def)
      note a = append_ok [OF c1 f, of "segCap ?s1"]
      define s2 where "s2 = (upd_class c (append_class (segCap ?s1) r) ?s1)\<lparr>totalBytes := totalBytes ?s1 + ?n, dirty := True\<rparr>"
      have "spool_ok s2" using m a True
        by (auto simp: spool_ok_def s2_def if_distrib [of class_bytes] sum_upd stored_def c_def cong: if_cong)
      from maybeSync_ok [OF this, of now] show ?thesis
        using True m by (simp add: Append_def Let_def recordOnDiskSize_eq stored_def s2_def spool_ok_def flip: c_def)
    next
      case False
      then show ?thesis using ok m by (auto simp: Append_def Let_def recordOnDiskSize_eq stored_def spool_ok_def simp flip: c_def)
    qed
  next
    case 2
    show ?case using m by (auto simp: Append_def Let_def maybeSync_def simp flip: c_def recordOnDiskSize_eq)
  next
    case 3
    have f: "fits r" using 3 r by (simp add: stored_def filed_fits)
    have c1: "class_ok (classes ?s1 c)" using m by (simp add: spool_ok_def)
    note a = append_ok [OF c1 f, of "segCap ?s1"]
    define s2 where "s2 = (upd_class c (append_class (segCap ?s1) r) ?s1)\<lparr>totalBytes := totalBytes ?s1 + ?n, dirty := True\<rparr>"
    have "spool_ok s2" using m a 3
      by (auto simp: spool_ok_def s2_def if_distrib [of class_bytes] sum_upd stored_def c_def cong: if_cong)
    from maybeSync_ok [OF this, of now] show ?case
      using 3 m a(2) by (simp add: Append_def Let_def recordOnDiskSize_eq stored_def s2_def flip: c_def)
  next
    case 4
    then show ?case using m by (auto simp: Append_def Let_def recordOnDiskSize_eq stored_def simp flip: c_def)
  qed
qed

section \<open>Reading and consuming\<close>

lemma pendingBytes_eq:
  assumes "class_ok cl"
  shows "pendingBytes cl = (if segs cl = [] then 0 else class_bytes cl - start_off cl)" and "0 \<le> pendingBytes cl"
proof -
  show n: "0 \<le> pendingBytes cl" by (simp add: pendingBytes_def Let_def)
  show "pendingBytes cl = (if segs cl = [] then 0 else class_bytes cl - start_off cl)"
  proof (cases "segs cl")
    case Nil
    then show ?thesis by (simp add: pendingBytes_def)
  next
    case (Cons sg rest)
    have le: "cu_seq (cl_cursor cl) \<le> sg_seq sg" and b: "boundary (sg_data sg) (nat (start_off cl))"
      and s: "seg_ok sg" and st: "\<forall>x \<in> set rest. sg_seq sg < sg_seq x" and ok: "list_all seg_ok rest"
      using assms by (simp_all add: class_ok_def cursor_ok_def Cons)
    have m: "map (\<lambda>x. if sg_seq x < cu_seq (cl_cursor cl) then 0 else if sg_seq x = cu_seq (cl_cursor cl)
        then sg_bytes x - cu_off (cl_cursor cl) else sg_bytes x) rest = map sg_bytes rest"
      using st le by (intro map_cong) auto
    have p: "0 \<le> sum_list (map sg_bytes rest)" using ok by (intro sum_list_nonneg) (auto simp: list_all_iff seg_ok_def)
    have so: "start_off cl \<le> sg_bytes sg" using boundary_le [OF b] s by (simp add: seg_ok_def nat_le_iff)
    show ?thesis unfolding pendingBytes_def Let_def Cons list.map sum_list.Cons m
      using le p so by (auto simp: Cons class_bytes_def start_off_def)
  qed
qed

lemma pending_empty_iff: "class_ok cl \<Longrightarrow> pending cl = [] \<longleftrightarrow> pendingBytes cl = 0"
proof -
  assume ok: "class_ok cl"
  show ?thesis
  proof (cases "segs cl")
    case Nil
    then show ?thesis using ok by (simp add: pending_ok pendingBytes_def)
  next
    case (Cons sg rest)
    have b: "boundary (sg_data sg) (nat (start_off cl))" and s: "seg_ok sg" and r: "list_all seg_ok rest" and o': "0 \<le> start_off cl"
      using ok by (simp_all add: class_ok_def cursor_ok_def Cons)
    have nn: "\<forall>x \<in> set (map sg_bytes rest). 0 \<le> x" using r by (auto simp: list_all_iff seg_ok_def)
    have le: "start_off cl \<le> sg_bytes sg" using boundary_le [OF b] s by (simp add: seg_ok_def nat_le_iff)
    have "(sum_list (map sg_bytes rest) = 0) = (\<forall>x \<in> set rest. sg_bytes x = 0)"
      using sum_list_nonneg_eq_0_iff [of "map sg_bytes rest"] nn by auto
    also have "\<dots> = (concat (map (\<lambda>s. seg_recs (sg_data s)) rest) = [])"
      using r seg_ok_boundary by (auto simp: list_all_iff seg_ok_def)
    finally have a: "(sum_list (map sg_bytes rest) = 0) = (concat (map (\<lambda>s. seg_recs (sg_data s)) rest) = [])" .
    have h: "(seg_recs (drop (nat (start_off cl)) (sg_data sg)) = []) = (sg_bytes sg = start_off cl)"
      using seg_recs_empty [OF b] s o' by (auto simp: seg_ok_def)
    have p: "0 \<le> sum_list (map sg_bytes rest)" using nn by (intro sum_list_nonneg) blast
    show ?thesis
      using a h p le by (auto simp: pending_ok [OF ok] pendingBytes_eq [OF ok] Cons class_bytes_def)
  qed
qed

lemma topClass_Some: "spool_ok s \<Longrightarrow> topClass s = Some c \<Longrightarrow> c < NumPriorities \<and> pend s c \<noteq> [] \<and> (\<forall>k < c. pend s k = [])"
proof -
  assume ok: "spool_ok s" and t: "topClass s = Some c"
  have p: "pend s k = [] \<longleftrightarrow> \<not> 0 < pendingBytes (classes s k)" for k
    using ok pending_empty_iff pendingBytes_eq(2) by (auto simp: spool_ok_def order.strict_iff_order)
  show ?thesis using t by (auto simp: topClass_def find_Some_iff p)
qed

lemma topClass_None: "spool_ok s \<Longrightarrow> topClass s = None \<longleftrightarrow> (\<forall>k < NumPriorities. pend s k = [])"
proof -
  assume ok: "spool_ok s"
  have p: "pend s k = [] \<longleftrightarrow> \<not> 0 < pendingBytes (classes s k)" for k
    using ok pending_empty_iff pendingBytes_eq(2) by (auto simp: spool_ok_def order.strict_iff_order)
  show ?thesis by (auto simp: topClass_def find_None_iff p)
qed

lemma peek_take_prefix: "prefix (peek_take mx maxB n acc es) (map fst es)"
  by (induction mx maxB n acc es rule: peek_take.induct) auto

lemma peek_take_nonempty: "es \<noteq> [] \<Longrightarrow> peek_take mx maxB 0 0 es \<noteq> []"
  by (cases es) (auto split: if_splits)

lemma Peek_fields: "classes (snd (Peek mx maxB s)) = classes s" "totalBytes (snd (Peek mx maxB s)) = totalBytes s"
  "maxBytes (snd (Peek mx maxB s)) = maxBytes s"
  by (simp_all add: Peek_def split: option.split)

lemma Peek_ok: "spool_ok s \<Longrightarrow> spool_ok (snd (Peek mx maxB s))"
  by (simp add: spool_ok_def Peek_fields)

lemma sum_filter_split:
  "sum_list (map f xs) = sum_list (map f (filter P xs)) + sum_list (map f (filter (\<lambda>x. \<not> P x) xs))" for f :: "'a \<Rightarrow> int"
  by (induction xs) simp_all

lemma filter_bytes_le: "list_all seg_ok xs \<Longrightarrow> sum_list (map sg_bytes (filter P xs)) \<le> sum_list (map sg_bytes xs)"
  by (induction xs) (auto simp: seg_ok_def)

text \<open>A commit is \<open>commit_step\<close> on the class it picks.\<close>

lemma Commit_eq:
  assumes ok: "spool_ok s" and c: "commit_class s = Some c" and n: "0 < n" and "pend s c \<noteq> []"
  defines "m \<equiv> min (nat n) (length (pend s c))"
  shows "classes (Commit n s) = (classes s)(c := commit_step m (classes s c))" and "maxBytes (Commit n s) = maxBytes s"
    and "totalBytes (Commit n s) = totalBytes s - class_bytes (classes s c) + class_bytes (commit_step m (classes s c))"
proof -
  let ?cl = "classes s c"
  let ?w = "take (nat n) (walkClass ?cl)"
  have l: "length ?w = m" "length (walkClass ?cl) = length (pend s c)" by (simp_all add: m_def pending_def min.commute)
  have m0: "0 < m" using n assms(4) by (simp add: m_def)
  have w: "?w \<noteq> []" using l(1) m0 by (metis list.size(3) less_numeral_extra(3))
  have "last ?w = ?w ! (m - 1)" using last_conv_nth [OF w] unfolding l(1) .
  also have "m - 1 < nat n" using m0 unfolding m_def by linarith
  then have "?w ! (m - 1) = walkClass ?cl ! (m - 1)" by simp
  finally have e: "last ?w = walkClass ?cl ! (m - 1)" .
  define cur where "cur = commit_cursor (walkClass ?cl ! (m - 1)) ?cl"
  have C: "Commit n s = (gcConsumed c (upd_class c (\<lambda>cl. (syncClass cl)\<lparr>cl_cursor := cur, cursor_file := Some cur\<rparr>) s))
      \<lparr>Commits := Commits (gcConsumed c (upd_class c (\<lambda>cl. (syncClass cl)\<lparr>cl_cursor := cur, cursor_file := Some cur\<rparr>) s)) + length ?w,
       healthy := True\<rparr>"
    using n c w by (simp add: Commit_def e cur_def Let_def)
  have st: "commit_step m ?cl = (syncClass ?cl)\<lparr>cl_cursor := cur, cursor_file := Some cur, segs := filter (\<lambda>sg. \<not> sg_seq sg < cu_seq cur) (segs (syncClass ?cl))\<rparr>"
    by (rule spool_class.equality) (simp_all add: commit_step_def cur_def Let_def)
  show "classes (Commit n s) = (classes s)(c := commit_step m ?cl)" "maxBytes (Commit n s) = maxBytes s"
    unfolding C st by (simp_all add: gcConsumed_def Let_def upd_class_def)
  have "class_bytes ?cl = class_bytes (syncClass ?cl)" using ok by (simp add: syncClass_ok(3) spool_ok_def)
  also have "\<dots> = sum_list (map sg_bytes (filter (\<lambda>sg. sg_seq sg < cu_seq cur) (segs (syncClass ?cl))))
      + class_bytes (commit_step m ?cl)"
    unfolding st class_bytes_def using sum_filter_split [of sg_bytes "segs (syncClass ?cl)" "\<lambda>sg. sg_seq sg < cu_seq cur"] by simp
  finally show "totalBytes (Commit n s) = totalBytes s - class_bytes ?cl + class_bytes (commit_step m ?cl)"
    unfolding C by (simp add: gcConsumed_def Let_def)
qed

lemma commit_class_Some:
  assumes "spool_ok s" and "commit_class s = Some c" and "\<forall>d. lastPeekClass s = Some d \<longrightarrow> d < NumPriorities"
  shows "c < NumPriorities" and "pend s c \<noteq> []"
proof -
  have p: "pend s k = [] \<longleftrightarrow> pendingBytes (classes s k) = 0" for k
    using assms(1) by (simp add: spool_ok_def pending_empty_iff)
  show "c < NumPriorities" "pend s c \<noteq> []"
    using assms(2,3) topClass_Some [OF assms(1)]
    by (auto simp: commit_class_def p split: option.splits if_splits)
qed

lemma Commit_ok:
  assumes ok: "spool_ok s" and lp: "\<forall>d. lastPeekClass s = Some d \<longrightarrow> d < NumPriorities"
  shows "spool_ok (Commit n s)" and "maxBytes (Commit n s) = maxBytes s" and "lastPeekClass (Commit n s) = lastPeekClass s"
    and "pend (Commit n s) k = (if 0 < n \<and> commit_class s = Some k then drop (nat n) (pend s k) else pend s k)"
proof -
  have "spool_ok (Commit n s) \<and> maxBytes (Commit n s) = maxBytes s \<and>
    pend (Commit n s) k = (if 0 < n \<and> commit_class s = Some k then drop (nat n) (pend s k) else pend s k)"
  proof (cases "0 < n \<and> (\<exists>c. commit_class s = Some c)")
    case True
    then obtain c where n: "0 < n" and c: "commit_class s = Some c" by blast
    note cc = commit_class_Some [OF ok c lp]
    let ?m = "min (nat n) (length (pend s c))"
    note e = Commit_eq [OF ok c n cc(2)]
    have cok: "class_ok (classes s c)" using ok by (simp add: spool_ok_def)
    have m: "0 < ?m" "?m \<le> length (pend s c)" using n cc(2) by simp_all
    note st = commit_step_ok [OF cok m]
    have "class_bytes (commit_step ?m (classes s c)) \<le> class_bytes (classes s c)"
    proof -
      have "class_bytes (classes s c) = class_bytes (syncClass (classes s c))" by (simp add: syncClass_ok(3) [OF cok])
      moreover have "list_all seg_ok (segs (syncClass (classes s c)))" using syncClass_ok(1) [OF cok] by (simp add: class_ok_def)
      ultimately show ?thesis using filter_bytes_le [of "segs (syncClass (classes s c))"]
        by (simp add: commit_step_def Let_def class_bytes_def del: map_map syncClass_segs)
    qed
    then have "spool_ok (Commit n s)"
      using ok st(1) e by (auto simp: spool_ok_def if_distrib [of class_bytes] sum_upd [OF cc(1)] cong: if_cong)
    moreover have "drop ?m (pend s c) = drop (nat n) (pend s c)" by (cases "nat n \<le> length (pend s c)") simp_all
    ultimately show ?thesis using e st(2) n c by auto
  next
    case False
    then have "Commit n s = s" by (auto simp: Commit_def split: option.split)
    then show ?thesis using ok False by auto
  qed
  then show "spool_ok (Commit n s)" "maxBytes (Commit n s) = maxBytes s"
    "pend (Commit n s) k = (if 0 < n \<and> commit_class s = Some k then drop (nat n) (pend s k) else pend s k)" by simp_all
  show "lastPeekClass (Commit n s) = lastPeekClass s"
    by (simp add: Commit_def gcConsumed_def Let_def split: option.split)
qed

section \<open>Closing and reopening\<close>

lemma Close_ok:
  assumes "spool_ok s"
  shows "spool_ok (Close s)" and "pend (Close s) k = pend s k" and "maxBytes (Close s) = maxBytes s"
proof -
  have c: "class_ok (cl\<lparr>segs := map close_segment (segs cl), cursor_file := (if segs cl \<noteq> [] then Some (cl_cursor cl) else cursor_file cl)\<rparr>)
      \<and> pending (cl\<lparr>segs := map close_segment (segs cl), cursor_file := (if segs cl \<noteq> [] then Some (cl_cursor cl) else cursor_file cl)\<rparr>) = pending cl
      \<and> class_bytes (cl\<lparr>segs := map close_segment (segs cl), cursor_file := (if segs cl \<noteq> [] then Some (cl_cursor cl) else cursor_file cl)\<rparr>) = class_bytes cl"
    if ok: "class_ok cl" for cl
  proof -
    have "list_all seg_ok (segs cl)" using ok by (simp add: class_ok_def)
    from map_same [OF this close_segment_same]
    have m: "list_all2 same_data (segs cl) (map close_segment (segs cl))" "list_all seg_ok (map close_segment (segs cl))" by simp_all
    have b: "list_all (\<lambda>sg. \<not> sg_open sg) (butlast (map close_segment (segs cl)))"
      by (auto simp: list_all_iff close_segment_def map_butlast [symmetric])
    define cl1 where "cl1 = cl\<lparr>segs := map close_segment (segs cl)\<rparr>"
    have k: "class_ok cl1" "pending cl1 = pending cl" "class_bytes cl1 = class_bytes cl"
      unfolding cl1_def using same_ok [OF ok m b] same_pending [OF m(1)] by simp_all
    let ?cl2 = "cl1\<lparr>cursor_file := (if segs cl \<noteq> [] then Some (cl_cursor cl) else cursor_file cl)\<rparr>"
    have so: "start_off ?cl2 = start_off cl1" by (simp add: start_off_def)
    have "class_ok ?cl2" using k(1) so by (auto simp: class_ok_def cursor_ok_def file_ok_def file_before_def cl1_def)
    moreover have "pending ?cl2 = pending cl1" by (simp add: pending_def walkClass_def split: option.split)
    moreover have "class_bytes ?cl2 = class_bytes cl1" by (simp add: class_bytes_def)
    ultimately show ?thesis using k by (simp add: cl1_def)
  qed
  show "spool_ok (Close s)" "pend (Close s) k = pend s k" "maxBytes (Close s) = maxBytes s"
    using assms c by (simp_all add: Close_def spool_ok_def Let_def)
qed

lemma recover_bytes:
  assumes "class_ok cl" and "segs cl = [] \<longrightarrow> cursor_file cl = None"
  shows "class_bytes (recoverClass (crash surv cl)) \<le> class_bytes cl"
proof (cases "segs cl = []")
  case True
  then show ?thesis using scan_crash [OF assms(1), of surv] assms(2)
    by (simp add: recoverClass_def class_bytes_def)
next
  case False
  have "sg_bytes (rec_seg surv sg) \<le> sg_bytes sg" if s: "seg_ok sg" for sg
  proof -
    from s obtain rs where rs: "list_all fits rs" "sg_data sg = encode_all rs" by (auto simp: seg_ok_def)
    let ?w = "whole (max (sg_synced sg) (surv (sg_seq sg))) rs"
    obtain rs' where "rs = ?w @ rs'" using whole_prefix by blast
    then have "length (encode_all ?w) \<le> length (encode_all rs)" by (metis encode_all_simps(3) le_add1 length_append)
    then show ?thesis using rec_seg_fields(2,5) [OF rs refl, of surv] s rs(2) by (simp add: seg_ok_def)
  qed
  then show ?thesis using assms(1) False
    by (auto simp: class_bytes_def recover_cursor(1) [OF assms(1) False] comp_def class_ok_def list_all_iff intro!: sum_list_mono)
qed

text \<open>A reopening that the cursor files allow: no class has lost all its segments while its cursor
  file still names one of them.\<close>

definition cursors_named :: "Spool \<Rightarrow> bool" where
  "cursors_named s \<longleftrightarrow> (\<forall>c. segs (classes s c) = [] \<longrightarrow> cursor_file (classes s c) = None)"

definition reopen :: "gotime \<Rightarrow> (nat \<Rightarrow> nat \<Rightarrow> nat) \<Rightarrow> Spool \<Rightarrow> Spool option" where
  "reopen now surv s = Open (maxBytes s) now (\<lambda>c. crash (surv c) (classes s c))"

lemma reopen_ok:
  assumes ok: "spool_ok s" and n: "cursors_named s" and r: "reopen now surv s = Some s'"
  shows "spool_ok s'" and "maxBytes s' = maxBytes s" and "lastPeekClass s' = None"
    and "prefix (pend s' k) (pend s k)" and "prefix (durable (classes s k)) (pend s' k)"
proof -
  have c: "classes s' k = recoverClass (crash (surv k) (classes s k))" for k
    using r by (auto simp: reopen_def Open_def split: if_splits)
  have t: "totalBytes s' = (\<Sum>k<NumPriorities. class_bytes (classes s' k))" "maxBytes s' = maxBytes s" "lastPeekClass s' = None"
    using r by (auto simp: reopen_def Open_def split: if_splits)
  then show "maxBytes s' = maxBytes s" "lastPeekClass s' = None" by simp_all
  have k: "class_ok (classes s c)" "segs (classes s c) = [] \<longrightarrow> cursor_file (classes s c) = None" for c
    using ok n by (simp_all add: spool_ok_def cursors_named_def)
  have "totalBytes s' \<le> totalBytes s"
    using ok recover_bytes [OF k] unfolding t(1) c by (auto simp: spool_ok_def intro!: sum_mono)
  then show "spool_ok s'" using ok t recover_ok(1) [OF k] by (simp add: spool_ok_def c)
  show "prefix (pend s' k) (pend s k)" "prefix (durable (classes s k)) (pend s' k)"
    unfolding c using recover_ok(2,3) [OF k] by simp_all
qed

section \<open>Runs\<close>

definition empty_disk :: "nat \<Rightarrow> class_disk" where
  "empty_disk = (\<lambda>_. \<lparr>d_files = [], d_cursor = None\<rparr>)"

inductive spool_run :: "int \<Rightarrow> Spool \<Rightarrow> bool" for maxB :: int where
  start: "Open maxB now empty_disk = Some s \<Longrightarrow> spool_run maxB s"
| run_append: "spool_run maxB s \<Longrightarrow> rec_len r \<le> maxRecordBytes \<Longrightarrow> in_int64 (Ts r) \<Longrightarrow> spool_run maxB (snd (Append now r s))"
| run_peek: "spool_run maxB s \<Longrightarrow> spool_run maxB (snd (Peek mx mb s))"
| run_commit: "spool_run maxB s \<Longrightarrow> spool_run maxB (Commit n s)"
| run_close: "spool_run maxB s \<Longrightarrow> spool_run maxB (Close s)"
| run_reopen: "spool_run maxB s \<Longrightarrow> cursors_named s \<Longrightarrow> reopen now surv s = Some s' \<Longrightarrow> spool_run maxB s'"

lemma Append_lastPeek: "lastPeekClass (snd (Append now r s)) = lastPeekClass s"
proof -
  have m: "lastPeekClass (make_room c n s) = lastPeekClass s" for c n s
  proof (induction c n s rule: make_room.induct)
    case (1 c n s)
    have e: "lastPeekClass (snd (evictOldest v s)) = lastPeekClass s" for v
      by (simp add: evictOldest_def upd_class_def split: list.split)
    show ?case using 1 e by (subst make_room.simps) (auto split: option.split prod.split bool.split, (metis snd_conv)+)
  qed
  show ?thesis by (simp add: Append_def Let_def maybeSync_def m)
qed

lemma Open_empty: "Open maxB now empty_disk = Some s \<Longrightarrow>
   spool_ok s \<and> maxBytes s = maxB \<and> lastPeekClass s = None"
proof -
  assume o': "Open maxB now empty_disk = Some s"
  have r: "recoverClass (empty_disk c) = \<lparr>segs = [], cl_cursor = zero_cursor, nextSeq = 1, cursor_file = None\<rparr>" for c
    by (simp add: recoverClass_def empty_disk_def scanClass_def normalizeCursor_def)
  have "class_ok \<lparr>segs = [], cl_cursor = zero_cursor, nextSeq = 1, cursor_file = None\<rparr>"
    by (simp add: class_ok_def zero_cursor_def file_before_def)
  then show ?thesis using o' by (auto simp: Open_def spool_ok_def r class_bytes_def split: if_splits)
qed

lemma run_ok: "spool_run maxB s \<Longrightarrow> spool_ok s \<and> maxBytes s = maxB \<and> (\<forall>d. lastPeekClass s = Some d \<longrightarrow> d < NumPriorities)"
proof (induction rule: spool_run.induct)
  case (start now s)
  then show ?case using Open_empty by fastforce
next
  case (run_append s r now)
  then show ?case using Append_ok(1,2) [of s r now] Append_lastPeek [of now r s] by simp
next
  case (run_peek s mx mb)
  then show ?case using topClass_Some [of s] Peek_ok [of s mx mb]
    by (auto simp: Peek_fields) (simp add: Peek_def split: option.splits)
next
  case (run_commit s n)
  then show ?case using Commit_ok(1-3) [of s n] by simp
next
  case (run_close s)
  then show ?case using Close_ok [of s] by (simp add: Close_def)
next
  case (run_reopen s now surv s')
  then show ?case using reopen_ok(1-3) [of s now surv s'] by simp
qed

section \<open>Properties\<close>

text \<open>
  The spool stays within its budget. In every run of a spool (appends, peeks, commits,
  closing, power cuts and reopening in any order) the bytes it accounts for are exactly those of its
  segments and at most the budget it was opened with.
\<close>

theorem spool_within_budget:
  assumes "spool_run maxB s"
  shows "accountingOK s \<and> (\<Sum>c<NumPriorities. class_bytes (classes s c)) \<le> maxB"
proof -
  have ok: "spool_ok s" "maxBytes s = maxB" using run_ok [OF assms] by simp_all
  have "0 \<le> (\<Sum>c<NumPriorities. class_bytes (classes s c))"
    using ok(1) seg_bytes_nonneg by (intro sum_nonneg) (simp add: spool_ok_def)
  then show ?thesis using ok by (simp add: accountingOK_def spool_ok_def)
qed

text \<open>
  Property C17: what is peeked and then committed is delivered once, in order, the most important
  first. In every run, a peek followed by a commit of as many records as were returned removes
  exactly those records from the head of their class and nothing else; every more important class is
  empty at that moment, and nothing is returned only when nothing is pending.
\<close>

theorem peek_commit_delivers:
  assumes "spool_run maxB s" and "Peek mx mb s = (recs, s1)"
  shows "\<exists>c. (\<forall>k. pend s k = (if k = c then recs else []) @ pend (Commit (int (length recs)) s1) k) \<and>
    (\<forall>k < c. pend s k = []) \<and> (recs = [] \<longrightarrow> (\<forall>k < NumPriorities. pend s k = []))"
proof -
  have ok: "spool_ok s" using run_ok [OF assms(1)] by simp
  show ?thesis
  proof (cases "topClass s")
    case None
    then show ?thesis using assms(2) topClass_None [OF ok]
      by (intro exI [of _ 0]) (auto simp: Peek_def Commit_def)
  next
    case (Some c)
    note t = topClass_Some [OF ok Some]
    have s1: "s1 = s\<lparr>lastPeekClass := Some c\<rparr>" and recs: "recs = peek_take mx mb 0 0 (walkClass (classes s c))"
      using assms(2) Some by (simp_all add: Peek_def)
    have ok1: "spool_ok s1" using ok by (simp add: s1 spool_ok_def)
    have cok: "class_ok (classes s c)" using ok by (simp add: spool_ok_def)
    have "walkClass (classes s c) \<noteq> []" using t by (auto simp: pending_def)
    then have ne: "recs \<noteq> []" unfolding recs by (rule peek_take_nonempty)
    obtain zs where z: "pend s c = recs @ zs"
      using peek_take_prefix unfolding recs pending_def by (metis prefix_def)
    have "pendingBytes (classes s c) \<noteq> 0" using t pending_empty_iff [OF cok] by simp
    then have cc: "commit_class s1 = Some c" by (simp add: commit_class_def s1)
    have p: "pend s1 k = pend s k" for k by (simp add: s1)
    have lp: "\<forall>d. lastPeekClass s1 = Some d \<longrightarrow> d < NumPriorities" using t by (simp add: s1)
    have "pend (Commit (int (length recs)) s1) k = (if k = c then zs else pend s k)" for k
      using Commit_ok(4) [OF ok1 lp, of "int (length recs)" k] ne z by (simp add: p cc)
    then show ?thesis using t z ne by (intro exI [of _ c]) auto
  qed
qed

text \<open>
  Property C33: an append never costs more important records. In every run, appending a record leaves
  every more important class as it is; a less important class can only lose its oldest records; its
  own class loses at most its oldest records and gains this one at the end. It is stored whenever it
  fits beside the more important classes, and when it fits within the budget nothing is lost at all.
\<close>

theorem append_protects:
  assumes "spool_run maxB s" and "rec_len r \<le> maxRecordBytes" and "in_int64 (Ts r)"
    and "length (Stream r) \<le> maxStreamLen" and "s' = snd (Append now r s)" and "c = clampPriority (Priority r)"
  shows "(\<forall>k < c. pend s' k = pend s k) \<and> (\<forall>k. k \<noteq> c \<longrightarrow> suffix (pend s' k) (pend s k)) \<and>
    (\<exists>kept new. suffix kept (pend s c) \<and> pend s' c = kept @ new \<and> (new = [] \<or> new = [filed r]) \<and>
      ((\<Sum>k<c. class_bytes (classes s k)) + int (rec_size r) \<le> maxB \<longrightarrow> new = [filed r])) \<and>
    (totalBytes s + int (rec_size r) \<le> maxB \<longrightarrow> (\<forall>k. pend s' k = pend s k @ (if k = c then [filed r] else [])))"
proof -
  have ok: "spool_ok s" "maxBytes s = maxB" using run_ok [OF assms(1)] by simp_all
  let ?n = "int (rec_size r)"
  note m = make_room_ok [OF ok(1), of c ?n]
  note a = Append_ok(3,4) [OF ok(1) assms(2,3), of now, folded assms(6), folded assms(5)]
  have nn: "0 \<le> (\<Sum>k<c. class_bytes (classes s k))"
    using ok(1) seg_bytes_nonneg by (intro sum_nonneg) (simp add: spool_ok_def)
  have st: "stored r s" if "(\<Sum>k<c. class_bytes (classes s k)) + ?n \<le> maxB"
  proof -
    have "totalBytes (make_room c ?n s) + ?n \<le> maxB"
    proof (cases "totalBytes (make_room c ?n s) + ?n \<le> maxBytes s")
      case False
      then have "totalBytes (make_room c ?n s) = (\<Sum>k<c. class_bytes (classes (make_room c ?n s) k))"
        using m by (intro classes_below) (auto simp: assms(6))
      also have "\<dots> = (\<Sum>k<c. class_bytes (classes s k))" using m by (intro sum.cong) auto
      finally show ?thesis using that by simp
    qed (simp add: ok(2))
    then show ?thesis using assms(4) that nn ok(2) by (simp add: stored_def flip: assms(6))
  qed
  have keep: "suffix (pend (make_room c ?n s) k) (pend s k)" for k using m by simp
  have first: "(\<forall>k < c. pend s' k = pend s k) \<and> (\<forall>k. k \<noteq> c \<longrightarrow> suffix (pend s' k) (pend s k))"
    using a m by (cases "stored r s") auto
  have own: "\<exists>kept new. suffix kept (pend s c) \<and> pend s' c = kept @ new \<and> (new = [] \<or> new = [filed r]) \<and>
      ((\<Sum>k<c. class_bytes (classes s k)) + ?n \<le> maxB \<longrightarrow> new = [filed r])"
  proof (cases "stored r s")
    case True
    then show ?thesis using a(1) [of c] keep [of c]
      by (intro exI [of _ "pend (make_room c ?n s) c"] exI [of _ "[filed r]"]) simp
  next
    case False
    then show ?thesis using a(2) [of c] st by (intro exI [of _ "pend s' c"] exI [of _ "[]"]) auto
  qed
  have room: "\<forall>k. pend s' k = pend s k @ (if k = c then [filed r] else [])" if f: "totalBytes s + ?n \<le> maxB"
  proof -
    have "0 \<le> (\<Sum>k<NumPriorities. class_bytes (classes s k))"
      using ok(1) seg_bytes_nonneg by (intro sum_nonneg) (simp add: spool_ok_def)
    moreover have e: "make_room c ?n s = s" using f ok(2) by (intro room_enough) simp
    ultimately have "stored r s" using f ok assms(4) by (simp add: stored_def spool_ok_def flip: assms(6))
    then show ?thesis using a(1) by (simp add: e)
  qed
  show ?thesis using first own room by blast
qed

text \<open>
  Property C32: a power cut loses no committed position and only records that were never on disk. In
  every run, whatever prefix of each file survives beyond what was synced, reopening makes pending,
  class by class, a prefix of what was pending, holding at least everything that was on disk; so no
  committed record comes back and no synced one is lost. The condition is that this reopening, like
  every earlier one of the run, finds no class that has a cursor file but no segment; without it a synced
  record can be lost (\<open>stale_cursor_loses_record\<close>). Removed files stay removed.
\<close>

theorem power_cut_redelivers:
  assumes "spool_run maxB s" and "cursors_named s" and "reopen now surv s = Some s'"
  shows "prefix (durable (classes s k)) (pend s' k) \<and> prefix (pend s' k) (pend s k)"
  using reopen_ok(4,5) [OF _ assms(2,3)] run_ok [OF assms(1)] by blast

section \<open>Concrete runs\<close>

definition ex_s0 :: Spool where "ex_s0 = the (Open 100 0 empty_disk)"
definition ex_s1 :: Spool where "ex_s1 = snd (Append (10 * second) (ex_rec 40 2) ex_s0)"
definition ex_s2 :: Spool where "ex_s2 = snd (Peek 0 0 ex_s1)"
definition ex_s3 :: Spool where "ex_s3 = snd (Append (10 * second) (ex_rec 40 0) ex_s2)"

lemma ex_srun0: "spool_run 100 ex_s0"
  by (rule spool_run.start [of 100 0]) (simp add: ex_s0_def Open_def)

lemma ex_rec_len: "n \<le> 1000 \<Longrightarrow> rec_len (ex_rec n p) \<le> maxRecordBytes \<and> in_int64 (Ts (ex_rec n p)) \<and> length (Stream (ex_rec n p)) \<le> maxStreamLen"
  by (simp add: rec_len_def ex_rec_def recHeaderBytes_def maxRecordBytes_def in_int64_def maxStreamLen_def)

lemma ex_srun1: "spool_run 100 ex_s1"
  unfolding ex_s1_def by (rule run_append [OF ex_srun0]) (use ex_rec_len in simp_all)

lemma ex_srun2: "spool_run 100 ex_s2"
  unfolding ex_s2_def by (rule run_peek [OF ex_srun1])

lemma ex_srun3: "spool_run 100 ex_s3"
  unfolding ex_s3_def by (rule run_append [OF ex_srun2]) (use ex_rec_len in simp_all)

definition no_class :: spool_class where
  "no_class = \<lparr>segs = [], cl_cursor = zero_cursor, nextSeq = 1, cursor_file = None\<rparr>"

definition one_seg :: "Record \<Rightarrow> nat \<Rightarrow> segment" where
  "one_seg r k = \<lparr>sg_seq = 1, sg_data = encodeRecord r, sg_bytes = int (rec_size r), sg_records = 1, sg_open = True, sg_synced = k\<rparr>"

lemma ex_rec_size [simp]: "rec_size (ex_rec n p) = 16 + n"
  by (simp add: rec_size_def ex_rec_def lenPrefix_def recHeaderBytes_def)

lemma ex_clamp [simp]: "clampPriority (Priority (ex_rec n 2)) = 2" "clampPriority (Priority (ex_rec n 0)) = 0"
  by (simp_all add: ex_rec_def clampPriority_def NumPriorities_def)

lemma ex_stream [simp]: "\<not> maxStreamLen < length (Stream (ex_rec n p))"
  by (simp add: ex_rec_def maxStreamLen_def)

lemma ex_s0_eq: "ex_s0 = \<lparr>maxBytes = 100, classes = (\<lambda>_. no_class), totalBytes = 0, segCap = maxSegBytes,
    lastPeekClass = None, dirty = False, lastSync = 0, healthy = True, Appends = 0, Commits = 0, Drops = 0\<rparr>"
  by (simp add: ex_s0_def Open_def recoverClass_def empty_disk_def scanClass_def normalizeCursor_def no_class_def class_bytes_def)

lemma append_no_class: "append_class maxSegBytes r no_class =
    no_class\<lparr>segs := [one_seg r 0], nextSeq := 2\<rparr>"
  by (simp add: append_class_def ensureActive_def newSegment_def no_class_def one_seg_def upd_last_def write_record_def
      recordOnDiskSize_eq)

lemma sync_simps [simp]:
  "syncClass no_class = no_class"
  "syncClass (no_class\<lparr>segs := [one_seg r k], nextSeq := n\<rparr>) = no_class\<lparr>segs := [one_seg r (rec_size r)], nextSeq := n\<rparr>"
  "(\<lambda>c. syncClass (if c = a then x else m c)) = (\<lambda>c. if c = a then syncClass x else syncClass (m c))"
  by (auto simp: syncClass_def no_class_def one_seg_def sync_segment_def)

lemmas ex_times = time_sub_def flushInterval_def second_def max_duration_def min_duration_def

lemma ex_s1_eq: "ex_s1 = ex_s0\<lparr>classes := (\<lambda>_. no_class)(2 := no_class\<lparr>segs := [one_seg (ex_rec 40 2) 56], nextSeq := 2\<rparr>),
    totalBytes := 56, lastSync := 10 * second, Appends := 1\<rparr>"
  by (simp add: ex_s1_def Append_def Let_def ex_s0_eq recordOnDiskSize_eq room_enough append_no_class maybeSync_def
      ex_times upd_class_def) (simp add: fun_eq_iff)

lemma one_seg_ok: "fits r \<Longrightarrow> k \<le> rec_size r \<Longrightarrow> seg_ok (one_seg r k)"
  by (auto simp: seg_ok_def one_seg_def intro!: exI [of _ "[r]"])

lemma ex_fits: "n \<le> 1000 \<Longrightarrow> fits (ex_rec n p)"
  by (rule ex_rec_fits) simp

lemma one_class:
  assumes "fits r" and "k \<le> rec_size r"
  defines "cl \<equiv> no_class\<lparr>segs := [one_seg r k], nextSeq := 2\<rparr>"
  shows "class_ok cl" and "pending cl = [filed r]" and "pendingBytes cl = int (rec_size r)" and "pendingBytes no_class = 0"
    and "walkClass cl = [(filed r, int (rec_size r), 0, int (rec_size r))]"
proof -
  have s: "start_off cl = 0" by (simp add: start_off_def cl_def no_class_def zero_cursor_def one_seg_def)
  note o' = one_seg_ok [OF assms(1,2)]
  have b: "boundary (encodeRecord r) 0" using boundary_Nil [OF o'] by (simp add: one_seg_def)
  show ok: "class_ok cl" using o' b s
    by (simp add: class_ok_def cursor_ok_def file_ok_def) (simp add: cl_def no_class_def zero_cursor_def file_before_def one_seg_def)
  have w: "read_records (encodeRecord r) = [(filed r, rec_size r)]"
    using read_all [of "[r]"] assms(1) by (simp add: read_view_def)
  show "walkClass cl = [(filed r, int (rec_size r), 0, int (rec_size r))]"
    by (simp add: walkClass_ok [OF ok] s) (simp add: cl_def one_seg_def w)
  then show "pending cl = [filed r]" by (simp add: pending_def)
  show "pendingBytes cl = int (rec_size r)" "pendingBytes no_class = 0"
    by (simp_all add: pendingBytes_def cl_def no_class_def zero_cursor_def one_seg_def)
qed

lemma ex_top: "topClass ex_s1 = Some 2"
proof -
  have "[0..<NumPriorities] = [0, 1, 2]" by (simp add: NumPriorities_def upt_rec)
  then show ?thesis using one_class(3,4) [OF ex_fits [of 40 2], of 56] by (simp add: topClass_def ex_s1_eq ex_s0_eq)
qed

lemma ex_s2_eq: "ex_s2 = ex_s1\<lparr>lastPeekClass := Some 2\<rparr>"
  by (simp add: ex_s2_def Peek_def ex_top)

lemma ex_evict: "make_room 0 56 ex_s2 = ex_s2\<lparr>classes := (\<lambda>_. no_class)(2 := no_class\<lparr>nextSeq := 2\<rparr>), totalBytes := 0, Drops := 1\<rparr>"
proof -
  have "rev [0..<NumPriorities] = [2, 1, 0]" by (simp add: NumPriorities_def upt_rec)
  then have v: "victimClass 0 ex_s2 = Some 2" by (simp add: victimClass_def ex_s2_eq ex_s1_eq)
  have e: "evictOldest 2 ex_s2 = (True, ex_s2\<lparr>classes := (\<lambda>_. no_class)(2 := no_class\<lparr>nextSeq := 2\<rparr>), totalBytes := 0, Drops := 1\<rparr>)"
    by (simp add: evictOldest_def upd_class_def ex_s2_eq ex_s1_eq ex_s0_eq no_class_def one_seg_def zero_cursor_def)
  show ?thesis using v e by (subst make_room.simps) (simp add: room_enough ex_s2_eq ex_s1_eq ex_s0_eq)
qed

lemma ex_s3_eq: "ex_s3 = ex_s2\<lparr>classes := (\<lambda>_. no_class)(2 := no_class\<lparr>nextSeq := 2\<rparr>, 0 := no_class\<lparr>segs := [one_seg (ex_rec 40 0) 0], nextSeq := 2\<rparr>),
    totalBytes := 56, Drops := 1, dirty := True, Appends := 2\<rparr>"
  by (simp add: ex_s3_def Append_def Let_def recordOnDiskSize_eq ex_evict maybeSync_def ex_times upd_class_def)
    (simp add: ex_s2_eq ex_s1_eq ex_s0_eq append_no_class second_def)

lemma ex_peek: "Peek 0 0 ex_s1 = ([filed (ex_rec 40 2)], ex_s2)"
proof -
  have "walkClass (classes ex_s1 2) = [(filed (ex_rec 40 2), int (rec_size (ex_rec 40 2)), 0, int (rec_size (ex_rec 40 2)))]"
    using one_class(5) [OF ex_fits [of 40 2], of 56] by (simp add: ex_s1_eq)
  then show ?thesis unfolding ex_s2_def by (simp add: Peek_def ex_top)
qed

lemma spool_within_budget_witness:
  "accountingOK ex_s1 \<and> (\<Sum>c<NumPriorities. class_bytes (classes ex_s1 c)) \<le> 100"
  by (rule spool_within_budget [OF ex_srun1])

lemma peek_commit_delivers_witness:
  "\<exists>c. (\<forall>k. pend ex_s1 k = (if k = c then [filed (ex_rec 40 2)] else []) @ pend (Commit 1 ex_s2) k) \<and>
    (\<forall>k < c. pend ex_s1 k = [])"
  using peek_commit_delivers [OF ex_srun1 ex_peek] by auto

lemma append_protects_witness:
  "pend ex_s3 0 = [filed (ex_rec 40 0)] \<and> suffix (pend ex_s3 2) (pend ex_s2 2)"
proof -
  have p0: "pend ex_s2 0 = []"
    by (simp add: ex_s2_eq ex_s1_eq pending_def walkClass_def) (simp add: no_class_def)
  have "rec_len (ex_rec 40 0) \<le> maxRecordBytes" "in_int64 (Ts (ex_rec 40 0))" "length (Stream (ex_rec 40 0)) \<le> maxStreamLen"
    using ex_rec_len [of 40 0] by simp_all
  note a = append_protects [OF ex_srun2 this ex_s3_def refl]
  show ?thesis using a p0 by (auto simp: suffix_def)
qed

lemma durable_synced:
  "class_ok cl \<Longrightarrow> (\<forall>sg \<in> set (segs cl). sg_synced sg = length (sg_data sg)) \<Longrightarrow> durable cl = pending cl"
  by (auto simp: durable_def pending_ok split: list.split intro!: arg_cong [of _ _ concat] map_cong)

lemma ex_reopen: "\<exists>s'. reopen (20 * second) (\<lambda>_ _. 0) ex_s1 = Some s'"
  by (simp add: reopen_def Open_def ex_s1_eq ex_s0_eq)

lemma power_cut_redelivers_witness:
  "\<exists>s'. reopen (20 * second) (\<lambda>_ _. 0) ex_s1 = Some s' \<and> pend s' 2 = [filed (ex_rec 40 2)]"
proof -
  from ex_reopen obtain s' where r: "reopen (20 * second) (\<lambda>_ _. 0) ex_s1 = Some s'" by blast
  have n: "cursors_named ex_s1" by (simp add: cursors_named_def ex_s1_eq) (simp add: no_class_def)
  have d: "durable (classes ex_s1 2) = pend ex_s1 2"
    using one_class(1) [OF ex_fits [of 40 2], of 56] by (intro durable_synced) (simp_all add: ex_s1_eq one_seg_def)
  have p: "pend ex_s1 2 = [filed (ex_rec 40 2)]" using one_class(2) [OF ex_fits [of 40 2], of 56] by (simp add: ex_s1_eq)
  show ?thesis using power_cut_redelivers [OF ex_srun1 n r, of 2] r unfolding d p
    by (auto simp: prefix_order.antisym)
qed

section \<open>What the spool does not promise\<close>

text \<open>
  The batch that is committed need not be the one that was peeked. There is a run in
  which a batch of a class is peeked, an append evicts that class to make room for its own more
  important record, and the commit of the peeked batch then consumes the appended record, which was
  never returned by a peek.
\<close>

theorem commit_consumes_unseen:
  "\<exists>s recs s1 r now. spool_run 100 s \<and> Peek 0 0 s = (recs, s1) \<and> filed r \<notin> set recs \<and>
     pend (snd (Append now r s1)) 0 = [filed r] \<and>
     pend (Commit (int (length recs)) (snd (Append now r s1))) 0 = []"
proof -
  have u: "[0..<NumPriorities] = [0, 1, 2]" by (simp add: NumPriorities_def upt_rec)
  note o' = one_class [OF ex_fits [of 40 0], of 0]
  have ok: "spool_ok ex_s3" using run_ok [OF ex_srun3] by simp
  have l: "lastPeekClass ex_s3 = Some 2" by (simp add: ex_s3_eq ex_s2_eq)
  have e: "pendingBytes (no_class\<lparr>nextSeq := 2\<rparr>) = 0" by (simp add: pendingBytes_def no_class_def)
  have "topClass ex_s3 = Some 0" using o'(3) by (simp add: topClass_def u ex_s3_eq)
  then have c: "commit_class ex_s3 = Some 0" using e by (simp add: commit_class_def l) (simp add: ex_s3_eq)
  have p: "pend ex_s3 0 = [filed (ex_rec 40 0)]" using o'(2) by (simp add: ex_s3_eq)
  have lp: "\<forall>d. lastPeekClass ex_s3 = Some d \<longrightarrow> d < NumPriorities" by (simp add: l NumPriorities_def)
  have g: "pend (Commit (int (length [filed (ex_rec 40 2)])) ex_s3) 0 = []" using Commit_ok(4) [OF ok lp, of 1 0] c p by simp
  have n: "filed (ex_rec 40 0) \<notin> set [filed (ex_rec 40 2)]" by (simp add: filed_def ex_rec_def clampPriority_def NumPriorities_def)
  show ?thesis
    using ex_srun1 ex_peek n p g unfolding ex_s3_def by blast
qed

text \<open>
  The same class after its batch was committed and an append evicted it: its cursor file still names
  the segment that is gone.
\<close>

definition ex_c :: Spool where "ex_c = Commit 1 ex_s2"
definition ex_s4 :: Spool where "ex_s4 = snd (Append (20 * second) (ex_rec 40 0) ex_c)"

definition stale :: "cursor \<Rightarrow> spool_class" where
  "stale f = \<lparr>segs = [], cl_cursor = zero_cursor, nextSeq = 1, cursor_file = Some f\<rparr>"

lemma ex_srun4: "spool_run 100 ex_s4"
  unfolding ex_s4_def ex_c_def by (rule run_append [OF run_commit [OF ex_srun2]]) (use ex_rec_len in simp_all)

lemma ex_c_class: "classes ex_c 2 = no_class\<lparr>segs := [one_seg (ex_rec 40 2) 56], nextSeq := 2,
    cl_cursor := \<lparr>cu_seq = 1, cu_off = 56\<rparr>, cursor_file := Some \<lparr>cu_seq = 1, cu_off = 56\<rparr>\<rparr>"
  and ex_c_total: "totalBytes ex_c = 56" "maxBytes ex_c = 100"
proof -
  note o' = one_class [OF ex_fits [of 40 2], of 56]
  have ok: "spool_ok ex_s2" using run_ok [OF ex_srun2] by simp
  have cl: "classes ex_s2 2 = no_class\<lparr>segs := [one_seg (ex_rec 40 2) 56], nextSeq := 2\<rparr>" by (simp add: ex_s2_eq ex_s1_eq)
  have lp: "lastPeekClass ex_s2 = Some 2" by (simp add: ex_s2_eq)
  have c: "commit_class ex_s2 = Some 2" using o'(3) lp by (simp add: commit_class_def cl)
  have p: "pend ex_s2 2 = [filed (ex_rec 40 2)]" using o'(2) by (simp add: cl)
  have st: "commit_step 1 (classes ex_s2 2) = no_class\<lparr>segs := [one_seg (ex_rec 40 2) 56], nextSeq := 2,
    cl_cursor := \<lparr>cu_seq = 1, cu_off = 56\<rparr>, cursor_file := Some \<lparr>cu_seq = 1, cu_off = 56\<rparr>\<rparr>"
    using o'(5) unfolding cl
    by (simp add: commit_step_def commit_cursor_def Let_def) (simp add: one_seg_def sync_segment_def syncClass_def)
  note e = Commit_eq [OF ok c, of 1]
  show "classes ex_c 2 = no_class\<lparr>segs := [one_seg (ex_rec 40 2) 56], nextSeq := 2,
    cl_cursor := \<lparr>cu_seq = 1, cu_off = 56\<rparr>, cursor_file := Some \<lparr>cu_seq = 1, cu_off = 56\<rparr>\<rparr>"
    using e(1) p st by (simp add: ex_c_def)
  show "maxBytes ex_c = 100" using e(2) p by (simp add: ex_c_def) (simp add: ex_s2_eq ex_s1_eq ex_s0_eq)
  show "totalBytes ex_c = 56" using e(3) p st by (simp add: ex_c_def class_bytes_def cl) (simp add: ex_s2_eq ex_s1_eq)
qed

lemma ex_s4_facts: "segs (classes ex_s4 2) = []" "cursor_file (classes ex_s4 2) = Some \<lparr>cu_seq = 1, cu_off = 56\<rparr>"
  "totalBytes ex_s4 = 56" "maxBytes ex_s4 = 100"
proof -
  have u: "rev [0..<NumPriorities] = [2, 1, 0]" by (simp add: NumPriorities_def upt_rec)
  have ne: "segs (classes ex_c 2) \<noteq> []" by (simp add: ex_c_class)
  have v: "victimClass 0 ex_c = Some 2" by (simp add: victimClass_def u ex_c_class)
  define s where "s = snd (evictOldest 2 ex_c)"
  have e: "evictOldest 2 ex_c = (True, s)" unfolding s_def evictOldest_eq [OF ne] by simp
  have s: "classes s 2 = evict_class (classes ex_c 2)" "totalBytes s = 0" "maxBytes s = 100"
    by (simp_all add: s_def evictOldest_eq [OF ne] upd_class_def ex_c_class ex_c_total one_seg_def)
  have m: "make_room 0 56 ex_c = s" using v e by (subst make_room.simps) (simp add: ex_c_total room_enough s)
  have "classes ex_s4 2 = syncClass (evict_class (classes ex_c 2)) \<or> classes ex_s4 2 = evict_class (classes ex_c 2)"
    and "totalBytes ex_s4 = 56" "maxBytes ex_s4 = 100"
    by (simp_all add: ex_s4_def Append_def Let_def recordOnDiskSize_eq m s ex_c_total maybeSync_def)
  then show "segs (classes ex_s4 2) = []" "cursor_file (classes ex_s4 2) = Some \<lparr>cu_seq = 1, cu_off = 56\<rparr>"
    "totalBytes ex_s4 = 56" "maxBytes ex_s4 = 100"
    by (auto simp: evict_class_def syncClass_def ex_c_class)
qed


lemma recover_stale: "class_ok cl \<Longrightarrow> segs cl = [] \<Longrightarrow> cursor_file cl = Some f \<Longrightarrow> recoverClass (crash surv cl) = stale f"
  by (simp add: recoverClass_def scan_crash normalizeCursor_def stale_def) (simp add: crash_def)

text \<open>A record appended to such a class is filed in segment 1 again, before the stale cursor.\<close>

lemma stale_append:
  assumes f: "fits r" and c: "cu_seq f = 1" "int (rec_size r) \<le> cu_off f"
    and cl_def: "cl = syncClass (append_class maxSegBytes r (stale f))"
  shows "durable cl = [filed r]" and "pending (recoverClass (crash surv cl)) = []"
proof -
  have cl: "cl = (stale f)\<lparr>segs := [one_seg r (rec_size r)], nextSeq := 2\<rparr>"
    by (simp add: cl_def append_class_def ensureActive_def newSegment_def stale_def one_seg_def upd_last_def write_record_def
        recordOnDiskSize_eq syncClass_def sync_segment_def)
  have s: "start_off cl = 0" by (simp add: start_off_def cl stale_def zero_cursor_def one_seg_def)
  show "durable cl = [filed r]" using seg_recs_all [of "[r]"] f s
    unfolding durable_def cl by (simp add: one_seg_def)
  define sg where "sg = rec_seg surv (one_seg r (rec_size r))"
  have d: "sg_data sg = encodeRecord r" "sg_bytes sg = int (rec_size r)" "sg_seq sg = 1"
  proof -
    note k = rec_seg_fields [of "[r]" "one_seg r (rec_size r)" _ surv, OF _ _ refl] whole_all
    show a: "sg_data sg = encodeRecord r" using k(2) f whole_all [of "[r]"]
      by (simp add: sg_def one_seg_def whole_all)
    show "sg_bytes sg = int (rec_size r)" using k(5) f a by (simp add: sg_def seg_ok_def) (simp add: one_seg_def)
    show "sg_seq sg = 1" by (simp add: sg_def one_seg_def)
  qed
  have sc: "scanClass (d_files (crash surv cl)) = ([sg], 2)" "d_cursor (crash surv cl) = Some f"
    by (simp_all add: crash_def scanClass_def cl stale_def sg_def rec_seg_def one_seg_def)
  have "recoverClass (crash surv cl) = \<lparr>segs = [sg], cl_cursor = f\<lparr>cu_off := int (rec_size r)\<rparr>, nextSeq = 2, cursor_file = Some f\<rparr>"
    using c by (auto simp: recoverClass_def sc d normalizeCursor_def Let_def)
  then show "pending (recoverClass (crash surv cl)) = []"
    using c by (simp add: pending_def walkClass_def d read_records.simps decodeRecord_def)
qed

text \<open>
  A class that eviction emptied keeps its cursor file, and after a restart, when its
  segments are numbered from one again, the old cursor is read as the position in the new segment.
  There is a run in which a record is accepted and synced to disk after such a restart and the next
  restart nevertheless finds nothing pending in its class.
\<close>

theorem stale_cursor_loses_record:
  "\<exists>s s1 s2 r t0 t1 t2 surv. spool_run 100 s \<and> reopen t0 surv s = Some s1 \<and> s2 = snd (Append t1 r s1) \<and>
     durable (classes s2 2) = [filed r] \<and> (\<exists>s3. reopen t2 surv s2 = Some s3 \<and> pend s3 2 = [])"
proof -
  define surv where "surv = (\<lambda>(_::nat) (_::nat). 0::nat)"
  let ?f = "\<lparr>cu_seq = 1, cu_off = 56\<rparr>" and ?r = "ex_rec 20 2"
  have ok: "spool_ok ex_s4" using run_ok [OF ex_srun4] by simp
  have k: "class_ok (classes ex_s4 c)" for c using ok by (simp add: spool_ok_def)
  obtain s1 where s1: "reopen (20 * second) surv ex_s4 = Some s1"
    by (simp add: reopen_def Open_def ex_s4_facts)
  have c1: "classes s1 c = recoverClass (crash (surv c) (classes ex_s4 c))" and f1: "maxBytes s1 = 100" "segCap s1 = maxSegBytes"
    "totalBytes s1 = (\<Sum>c<NumPriorities. class_bytes (classes s1 c))" "lastSync s1 = 20 * second" for c
    using s1 by (auto simp: reopen_def Open_def ex_s4_facts)
  have c12: "classes s1 2 = stale ?f" unfolding c1 by (rule recover_stale [OF k]) (simp_all add: ex_s4_facts)
  have le: "class_bytes (classes s1 c) \<le> class_bytes (classes ex_s4 c)" for c
  proof (cases "segs (classes ex_s4 c) = [] \<and> cursor_file (classes ex_s4 c) \<noteq> None")
    case True
    then obtain f where "cursor_file (classes ex_s4 c) = Some f" by blast
    then show ?thesis using recover_stale [OF k] True unfolding c1 by (simp add: class_bytes_def stale_def)
  next
    case False
    then show ?thesis unfolding c1 by (intro recover_bytes [OF k]) blast
  qed
  have "totalBytes s1 \<le> totalBytes ex_s4"
    unfolding f1(3) using ok le by (auto simp: spool_ok_def intro!: sum_mono)
  then have t1: "totalBytes s1 \<le> 56" by (simp add: ex_s4_facts)
  define s2 where "s2 = snd (Append (30 * second) ?r s1)"
  have "classes s2 2 = syncClass (append_class maxSegBytes ?r (stale ?f))"
    using t1 by (simp add: s2_def Append_def Let_def recordOnDiskSize_eq room_enough f1 maybeSync_def ex_times c12)
  note a = stale_append [OF ex_fits [of 20 2], of ?f, OF _ _ _ this]
  have "maxBytes s2 = 100"
    using t1 by (simp add: s2_def Append_def Let_def recordOnDiskSize_eq room_enough f1 maybeSync_def)
  then obtain s3 where s3: "reopen (40 * second) surv s2 = Some s3" by (simp add: reopen_def Open_def)
  have "classes s3 2 = recoverClass (crash (surv 2) (classes s2 2))"
    using s3 by (auto simp: reopen_def Open_def split: if_splits)
  then have "pend s3 2 = []" using a(2) by simp
  then have e: "\<exists>s3. reopen (40 * second) surv s2 = Some s3 \<and> pend s3 2 = []" using s3 by blast
  show ?thesis
    by (rule exI [of _ ex_s4], rule exI [of _ s1], rule exI [of _ s2], rule exI [of _ ?r], rule exI [of _ "20 * second"],
      rule exI [of _ "30 * second"], rule exI [of _ "40 * second"], rule exI [of _ surv])
      (use ex_srun4 s1 s2_def a(1) e in simp)
qed


end
