(* ===== verification/Planner.thy ===== *)
theory Planner
  imports SiteModel
begin

text \<open>
  internal/orchestrator/planner.go and the tariff of costmodel.go: the daily planner, a dynamic
  program over battery and vehicle charge levels on a grid of 288 five-minute steps. A table of the
  code is a function on its indices; a loop over all transitions is a fold over their list, in the
  order of the code's loops. The predecessor indices are kept as the 16-bit integers they are. What
  the code takes from its surroundings is the argument \<open>env\<close>: the local hour of a Unix time, the
  clock, and what converting a float64 out of the range of \<open>int\<close> gives. Products and sums are
  rounded one by one.
\<close>

section \<open>Tariffs\<close>

record TOUPeriod =
  StartHour :: int
  EndHour :: int
  RatePerKwh :: f64
  tou_Label :: string

record TOUCostModel =
  periods :: "TOUPeriod list"
  defaultRate :: f64
  peakThreshold :: f64

definition hourInPeriod :: "int \<Rightarrow> TOUPeriod \<Rightarrow> bool" where
  "hourInPeriod hour p =
     (if StartHour p \<le> EndHour p then StartHour p \<le> hour \<and> hour < EndHour p
      else StartHour p \<le> hour \<or> hour < EndHour p)"

definition CurrentRate :: "TOUCostModel \<Rightarrow> int \<Rightarrow> f64" where
  "CurrentRate m hour =
     (case find (hourInPeriod hour) (periods m) of Some p \<Rightarrow> RatePerKwh p | None \<Rightarrow> defaultRate m)"

definition IsPeakHour :: "TOUCostModel \<Rightarrow> int \<Rightarrow> bool" where
  "IsPeakHour m hour = fle (peakThreshold m) (CurrentRate m hour)"

definition CurrentPeriodLabel :: "TOUCostModel \<Rightarrow> int \<Rightarrow> string" where
  "CurrentPeriodLabel m hour =
     (case find (hourInPeriod hour) (periods m) of Some p \<Rightarrow> tou_Label p | None \<Rightarrow> ''default'')"

definition ChargeCost :: "TOUCostModel \<Rightarrow> int \<Rightarrow> f64 \<Rightarrow> f64" where
  "ChargeCost m hour energyKwh = fmul (CurrentRate m hour) energyKwh"

definition DischargeSavings :: "TOUCostModel \<Rightarrow> int \<Rightarrow> f64 \<Rightarrow> f64" where
  "DischargeSavings m hour energyKwh = fmul (CurrentRate m hour) energyKwh"

definition DefaultTOUCostModel :: TOUCostModel where
  "DefaultTOUCostModel =
     \<lparr>periods =
        [\<lparr>StartHour = 16, EndHour = 21, RatePerKwh = fl (38 / 100), tou_Label = ''peak''\<rparr>,
         \<lparr>StartHour = 7, EndHour = 16, RatePerKwh = fl (18 / 100), tou_Label = ''partial-peak''\<rparr>,
         \<lparr>StartHour = 21, EndHour = 24, RatePerKwh = fl (10 / 100), tou_Label = ''off-peak''\<rparr>,
         \<lparr>StartHour = 0, EndHour = 7, RatePerKwh = fl (10 / 100), tou_Label = ''off-peak''\<rparr>],
      defaultRate = fl (18 / 100), peakThreshold = fl (30 / 100)\<rparr>"

section \<open>Parameters\<close>

record planner_env =
  local_hour :: "int64 \<Rightarrow> int"
  clock_now :: gotime
  wide :: "f64 \<Rightarrow> int"

record StepConstraint =
  Disconnect :: bool
  ExpLimW :: f64
  ImpLimW :: f64
  MaxLimW :: f64
  FixedW :: f64
  GenLimW :: f64
  LoadLimW :: f64

record PlannerParams =
  Now :: gotime
  WindowStart :: int64
  BattCapacityKwh :: f64
  BattMaxChargeKw :: f64
  BattMaxDischargeKw :: f64
  BattEfficiency :: f64
  InitialBattSocKwh :: f64
  MinBattSocKwh :: f64
  MaxBattSocKwh :: f64
  TerminalSocKwh :: f64
  EVCapacityKwh :: f64
  EVMaxChargeKw :: f64
  EVEfficiency :: f64
  InitialEVSocKwh :: f64
  EVTargetSocKwh :: f64
  EVDepartureUnix :: int64
  EVVoltageV :: f64
  SolarForecastKw :: "f64 list"
  LoadForecastKw :: f64
  LoadProfileKw :: "f64 list"
  ImportPricePerKwh :: "f64 list"
  ExportPricePerKwh :: "f64 list"
  FallbackTOU :: "TOUCostModel option"
  DeliveryTOU :: "TOUCostModel option"
  FixedDailyCharge :: f64
  DERConstraints :: "StepConstraint list"
  SOCStepKwh :: f64
  EVStorage :: bool

definition planSteps :: nat where "planSteps = 288"
definition planStepSec :: int where "planStepSec = 5 * 60"
definition planStepHours :: f64 where "planStepHours = fl (5 / 60)"

definition withDefaults :: "PlannerParams \<Rightarrow> PlannerParams" where
  "withDefaults p =
     p\<lparr>BattEfficiency := zero_default (fl (96 / 100)) (BattEfficiency p),
       EVEfficiency := zero_default (fl (95 / 100)) (EVEfficiency p),
       EVVoltageV := zero_default (Fin 240) (EVVoltageV p),
       SOCStepKwh := zero_default (fl (5 / 10)) (SOCStepKwh p),
       MinBattSocKwh := (if MinBattSocKwh p = Fin 0 \<and> flt (Fin 0) (BattCapacityKwh p)
                         then fmul (fl (10 / 100)) (BattCapacityKwh p) else MinBattSocKwh p)\<rparr>"

definition maxBattSoc :: "PlannerParams \<Rightarrow> f64" where
  "maxBattSoc p = (if flt (Fin 0) (MaxBattSocKwh p) then MaxBattSocKwh p else BattCapacityKwh p)"

definition unconstrained :: StepConstraint where
  "unconstrained = \<lparr>Disconnect = False, ExpLimW = NaN, ImpLimW = NaN, MaxLimW = NaN, FixedW = NaN, GenLimW = NaN, LoadLimW = NaN\<rparr>"

definition planStepConstraint :: "PlannerParams \<Rightarrow> nat \<Rightarrow> StepConstraint" where
  "planStepConstraint p t = (if t < length (DERConstraints p) then DERConstraints p ! t else unconstrained)"

definition planStepSolar :: "PlannerParams \<Rightarrow> nat \<Rightarrow> f64" where
  "planStepSolar p t = (if t < length (SolarForecastKw p) then SolarForecastKw p ! t else Fin 0)"

definition planStepLoad :: "PlannerParams \<Rightarrow> nat \<Rightarrow> f64" where
  "planStepLoad p t = (if t < length (LoadProfileKw p) then LoadProfileKw p ! t else LoadForecastKw p)"

definition planStepImportPrice :: "planner_env \<Rightarrow> PlannerParams \<Rightarrow> nat \<Rightarrow> int64 \<Rightarrow> f64" where
  "planStepImportPrice env p t unixT =
     (if t < length (ImportPricePerKwh p) then ImportPricePerKwh p ! t
      else case FallbackTOU p of Some m \<Rightarrow> CurrentRate m (local_hour env unixT) | None \<Rightarrow> fl (20 / 100))"

definition planStepDeliveryPrice :: "planner_env \<Rightarrow> PlannerParams \<Rightarrow> nat \<Rightarrow> int64 \<Rightarrow> f64" where
  "planStepDeliveryPrice env p t unixT =
     (case DeliveryTOU p of Some m \<Rightarrow> CurrentRate m (local_hour env unixT) | None \<Rightarrow> Fin 0)"

definition planStepImportAllIn :: "planner_env \<Rightarrow> PlannerParams \<Rightarrow> nat \<Rightarrow> int64 \<Rightarrow> f64" where
  "planStepImportAllIn env p t unixT = fadd (planStepImportPrice env p t unixT) (planStepDeliveryPrice env p t unixT)"

definition planStepExportPrice :: "PlannerParams \<Rightarrow> nat \<Rightarrow> f64" where
  "planStepExportPrice p t = (if t < length (ExportPricePerKwh p) then ExportPricePerKwh p ! t else Fin 0)"

text \<open>The clear-sky peak behind the solar forecast.\<close>

definition solarEstMinShape :: f64 where "solarEstMinShape = fl (6 / 10)"

definition estimateSolarPeakKw :: "f64 \<Rightarrow> f64 \<Rightarrow> f64 \<Rightarrow> f64 \<Rightarrow> f64" where
  "estimateSolarPeakKw curKw shape nameplateKw prev =
     (if fle curKw (Fin 0) \<or> flt shape solarEstMinShape then prev
      else let est = fdiv curKw shape;
               est = (if flt (Fin 0) nameplateKw \<and> flt nameplateKw est then nameplateKw else est)
           in if flt prev est then est else prev)"

section \<open>Discretisation\<close>

definition level_at :: "f64 \<Rightarrow> f64 \<Rightarrow> nat \<Rightarrow> f64" where
  "level_at lo stp i = fmul (fround (fdiv (fadd lo (fmul (fl (of_nat i)) stp)) stp)) stp"

definition discretizeLevels :: "planner_env \<Rightarrow> f64 \<Rightarrow> f64 \<Rightarrow> f64 \<Rightarrow> f64 list" where
  "discretizeLevels env lo hi stp =
     (if fle stp (Fin 0) \<or> fle hi lo then [lo]
      else let n = go_int (wide env) (fround (fdiv (fsub hi lo) stp)) + 1;
               n = (if n < 2 then 2 else nat n)
           in (map (level_at lo stp) [0..<n])[0 := lo, n - 1 := hi])"

definition discretizePowers :: "planner_env \<Rightarrow> f64 \<Rightarrow> f64 \<Rightarrow> f64 \<Rightarrow> f64 list" where
  "discretizePowers env lo hi stp0 =
     (let stp = (if fle stp0 (Fin 0) then fl (5 / 10) else stp0);
          n = go_int (wide env) (fround (fdiv (fsub hi lo) stp)) + 1
      in if n < 1 then [Fin 0]
         else (map (level_at lo stp) [0..<nat n])[0 := lo, nat n - 1 := hi])"

definition ev_standards :: "f64 list" where
  "ev_standards = map (\<lambda>a. Fin (of_int a)) [6, 8, 10, 12, 16, 20, 24, 32, 40, 48, 63, 80]"

definition discretizeEVCurrents :: "f64 \<Rightarrow> f64 list" where
  "discretizeEVCurrents maxA =
     (let out = Fin 0 # takeWhile (\<lambda>a. \<not> flt (fadd maxA (fl (5 / 10))) a) ev_standards
      in if length out = 1 \<and> fle (Fin 1) maxA then out @ [maxA] else out)"

definition mirrorSignedLevels :: "f64 list \<Rightarrow> f64 list" where
  "mirrorSignedLevels levels = map fneg (rev (tl levels)) @ levels"

definition closestIdx :: "f64 list \<Rightarrow> f64 \<Rightarrow> nat" where
  "closestIdx levels v =
     (case levels of [] \<Rightarrow> 0
      | x # xs \<Rightarrow>
          fst (fold (\<lambda>(i, l) (best, bestDist). let d = fabs (fsub l v) in if flt d bestDist then (i, d) else (best, bestDist))
                 (enumerate 1 xs) (0, fabs (fsub x v))))"

section \<open>State and action spaces\<close>

definition hasBatt :: "PlannerParams \<Rightarrow> bool" where "hasBatt p = flt (Fin 0) (BattCapacityKwh p)"
definition hasEV :: "PlannerParams \<Rightarrow> bool" where "hasEV p = flt (Fin 0) (EVCapacityKwh p)"

definition battLevels :: "planner_env \<Rightarrow> PlannerParams \<Rightarrow> f64 list" where
  "battLevels env p =
     (if hasBatt p then discretizeLevels env (MinBattSocKwh p) (maxBattSoc p) (SOCStepKwh p) else [Fin 0])"

definition evLevels :: "planner_env \<Rightarrow> PlannerParams \<Rightarrow> f64 list" where
  "evLevels env p = (if hasEV p then discretizeLevels env (Fin 0) (EVCapacityKwh p) (SOCStepKwh p) else [Fin 0])"

definition battPowers :: "planner_env \<Rightarrow> PlannerParams \<Rightarrow> f64 list" where
  "battPowers env p =
     (if hasBatt p then discretizePowers env (fneg (BattMaxChargeKw p)) (BattMaxDischargeKw p) (fl (5 / 10)) else [Fin 0])"

definition evCurrents :: "PlannerParams \<Rightarrow> f64 list" where
  "evCurrents p =
     (if hasEV p \<and> flt (Fin 0) (EVMaxChargeKw p) then
        let v = (if EVVoltageV p = Fin 0 then Fin 240 else EVVoltageV p);
            chargeCurrents = discretizeEVCurrents (fdiv (fmul (EVMaxChargeKw p) (Fin 1000)) v)
        in if EVStorage p then mirrorSignedLevels chargeCurrents else chargeCurrents
      else [Fin 0])"

definition iBatt0 :: "planner_env \<Rightarrow> PlannerParams \<Rightarrow> nat" where
  "iBatt0 env p = closestIdx (battLevels env p) (InitialBattSocKwh p)"

definition iEV0 :: "planner_env \<Rightarrow> PlannerParams \<Rightarrow> nat" where
  "iEV0 env p = (if hasEV p then closestIdx (evLevels env p) (InitialEVSocKwh p) else 0)"

definition window_start :: "PlannerParams \<Rightarrow> int64" where
  "window_start p = WindowStart p - (WindowStart p - planStepSec * go_div (WindowStart p) planStepSec)"

definition evDeptStep :: "PlannerParams \<Rightarrow> nat option" where
  "evDeptStep p =
     (if hasEV p \<and> 0 < EVDepartureUnix p then
        let s = go_div (wrap64 (EVDepartureUnix p - window_start p)) planStepSec
        in if 0 \<le> s \<and> s < int planSteps then Some (nat s) else None
      else None)"

definition evTargetIdx :: "planner_env \<Rightarrow> PlannerParams \<Rightarrow> nat" where
  "evTargetIdx env p =
     (if hasEV p \<and> flt (Fin 0) (EVTargetSocKwh p) then closestIdx (evLevels env p) (EVTargetSocKwh p) else 0)"

definition fixedPwrIdx :: "planner_env \<Rightarrow> PlannerParams \<Rightarrow> nat \<Rightarrow> nat option" where
  "fixedPwrIdx env p t =
     (if t < length (DERConstraints p) \<and> t < planSteps \<and> \<not> is_nan (FixedW (DERConstraints p ! t))
      then Some (closestIdx (battPowers env p) (fdiv (FixedW (DERConstraints p ! t)) (Fin 1000))) else None)"

definition evKwOf :: "PlannerParams \<Rightarrow> nat \<Rightarrow> f64" where
  "evKwOf p ci = fdiv (fmul (evCurrents p ! ci) (EVVoltageV p)) (Fin 1000)"

definition zeroEVIdx :: "PlannerParams \<Rightarrow> nat" where
  "zeroEVIdx p = (case find (\<lambda>ci. feq (evCurrents p ! ci) (Fin 0)) [0..<length (evCurrents p)] of Some ci \<Rightarrow> ci | None \<Rightarrow> 0)"

section \<open>Transitions\<close>

definition eps :: f64 where "eps = fl (1 / 10 ^ 6)"

definition battSoc_after :: "planner_env \<Rightarrow> PlannerParams \<Rightarrow> nat \<Rightarrow> nat \<Rightarrow> f64" where
  "battSoc_after env p i bi =
     (let battKw = battPowers env p ! bi; soc = battLevels env p ! i in
      if flt (Fin 0) battKw then fsub soc (fdiv (fmul battKw planStepHours) (BattEfficiency p))
      else if flt battKw (Fin 0) then fadd soc (fmul (fmul (fneg battKw) planStepHours) (BattEfficiency p))
      else soc)"

definition battDest :: "planner_env \<Rightarrow> PlannerParams \<Rightarrow> nat \<Rightarrow> nat \<Rightarrow> nat option" where
  "battDest env p i bi =
     (if hasBatt p then
        let newBSoc = battSoc_after env p i bi in
        if flt newBSoc (fsub (MinBattSocKwh p) eps) \<or> flt (fadd (maxBattSoc p) eps) newBSoc then None
        else Some (closestIdx (battLevels env p) newBSoc)
      else Some (closestIdx (battLevels env p) (battLevels env p ! i)))"

definition battEffKw :: "planner_env \<Rightarrow> PlannerParams \<Rightarrow> nat \<Rightarrow> nat \<Rightarrow> f64" where
  "battEffKw env p i bi =
     (case battDest env p i bi of
        None \<Rightarrow> Fin 0
      | Some ni \<Rightarrow>
          if hasBatt p then
            let dSoc = fsub (battLevels env p ! ni) (battLevels env p ! i);
                eff = (if flt dSoc (Fin 0) then fdiv (fmul (fneg dSoc) (BattEfficiency p)) planStepHours
                       else if flt (Fin 0) dSoc then fdiv (fneg (fdiv dSoc (BattEfficiency p))) planStepHours
                       else Fin 0)
            in fmax (fneg (BattMaxChargeKw p)) (fmin (BattMaxDischargeKw p) eff)
          else Fin 0)"

definition evDest :: "planner_env \<Rightarrow> PlannerParams \<Rightarrow> nat \<Rightarrow> nat \<Rightarrow> nat option" where
  "evDest env p j ci =
     (let newESoc =
            (if fle (Fin 0) (evKwOf p ci)
             then fadd (evLevels env p ! j) (fmul (fmul (evKwOf p ci) planStepHours) (EVEfficiency p))
             else fadd (evLevels env p ! j) (fdiv (fmul (evKwOf p ci) planStepHours) (EVEfficiency p)))
      in if flt newESoc (fneg eps) \<or> flt (fadd (EVCapacityKwh p) eps) newESoc then None
         else Some (closestIdx (evLevels env p) (fmax (Fin 0) (fmin (EVCapacityKwh p) newESoc))))"

text \<open>Whether a dispatch keeps the limits of a step: export, import, generation, and the gross
  generation and load caps.\<close>

definition over :: "f64 \<Rightarrow> f64 \<Rightarrow> bool" where
  "over x limW \<longleftrightarrow> \<not> is_nan limW \<and> flt (fadd (fdiv limW (Fin 1000)) eps) x"

definition pos_part :: "f64 \<Rightarrow> f64 \<Rightarrow> f64" where
  "pos_part x acc = (if flt (Fin 0) x then fadd acc x else acc)"

definition gross_gen :: "f64 \<Rightarrow> f64 \<Rightarrow> f64 \<Rightarrow> f64" where
  "gross_gen solarKw battKwEff evKw =
     (let gen = pos_part battKwEff solarKw in if flt evKw (Fin 0) then fadd gen (fneg evKw) else gen)"

definition gross_load :: "f64 \<Rightarrow> f64 \<Rightarrow> f64 \<Rightarrow> f64" where
  "gross_load loadKw battKwEff evKw =
     (let ld = fadd loadKw evKw;
          ld = (if flt evKw (Fin 0) then fsub ld evKw else ld)
      in if flt battKwEff (Fin 0) then fadd ld (fneg battKwEff) else ld)"

definition grid_kw :: "PlannerParams \<Rightarrow> nat \<Rightarrow> f64 \<Rightarrow> f64 \<Rightarrow> f64" where
  "grid_kw p t evKw battKwEff = fsub (fsub (fadd (planStepLoad p t) evKw) (planStepSolar p t)) battKwEff"

definition limits_ok :: "PlannerParams \<Rightarrow> nat \<Rightarrow> f64 \<Rightarrow> f64 \<Rightarrow> bool" where
  "limits_ok p t evKw battKwEff \<longleftrightarrow>
     (let c = planStepConstraint p t; g = grid_kw p t evKw battKwEff; solarKw = planStepSolar p t in
      \<not> over (fneg g) (ExpLimW c) \<and> \<not> over g (ImpLimW c) \<and> \<not> over (pos_part battKwEff solarKw) (MaxLimW c) \<and>
      \<not> over (gross_gen solarKw battKwEff evKw) (GenLimW c) \<and> \<not> over (gross_load (planStepLoad p t) battKwEff evKw) (LoadLimW c))"

definition step_time :: "PlannerParams \<Rightarrow> nat \<Rightarrow> int64" where
  "step_time p t = window_start p + int t * planStepSec"

definition step_cost :: "planner_env \<Rightarrow> PlannerParams \<Rightarrow> nat \<Rightarrow> f64 \<Rightarrow> f64" where
  "step_cost env p t g =
     fmul (fmul g planStepHours)
       (if flt (Fin 0) g then planStepImportAllIn env p t (step_time p t) else planStepExportPrice p t)"

text \<open>What the innermost loop allows at a step, with the destination and the cost.\<close>

definition transition ::
  "planner_env \<Rightarrow> PlannerParams \<Rightarrow> nat \<Rightarrow> nat \<times> nat \<Rightarrow> nat \<times> nat \<Rightarrow> ((nat \<times> nat) \<times> f64) option" where
  "transition env p t s a =
     (let (i, j) = s; (bi, ci) = a; evGone = (case evDeptStep p of Some d \<Rightarrow> d < t | None \<Rightarrow> False) in
      if evDeptStep p = Some t \<and> hasEV p \<and> j < evTargetIdx env p then None
      else if Disconnect (planStepConstraint p t) \<and> battPowers env p ! bi \<noteq> Fin 0 then None
      else if (case fixedPwrIdx env p t of Some b \<Rightarrow> bi \<noteq> b | None \<Rightarrow> False) then None
      else case battDest env p i bi of
        None \<Rightarrow> None
      | Some ni \<Rightarrow>
          if (evGone \<or> \<not> hasEV p) \<and> ci \<noteq> zeroEVIdx p then None
          else case evDest env p j ci of
            None \<Rightarrow> None
          | Some nj \<Rightarrow>
              if limits_ok p t (evKwOf p ci) (battEffKw env p i bi)
              then Some ((ni, nj), step_cost env p t (grid_kw p t (evKwOf p ci) (battEffKw env p i bi)))
              else None)"

section \<open>The forward pass\<close>

definition dp_inf :: f64 where "dp_inf = Fin ((2 ^ 1024 - 2 ^ 971) / 2)"

definition wrap16 :: "int \<Rightarrow> int" where "wrap16 x = (x + 2 ^ 15) mod 2 ^ 16 - 2 ^ 15"

record backNode =
  node_src :: "int \<times> int"
  node_cmd :: "int \<times> int"

type_synonym dp_table = "nat \<times> nat \<Rightarrow> f64"
type_synonym back_table = "nat \<times> nat \<Rightarrow> backNode"

definition no_node :: backNode where "no_node = \<lparr>node_src = (- 1, - 1), node_cmd = (0, 0)\<rparr>"

definition makeDP2D :: dp_table where "makeDP2D = (\<lambda>_. dp_inf)"

definition dp_states :: "planner_env \<Rightarrow> PlannerParams \<Rightarrow> (nat \<times> nat) list" where
  "dp_states env p = List.product [0..<length (battLevels env p)] [0..<length (evLevels env p)]"

definition dp_actions :: "planner_env \<Rightarrow> PlannerParams \<Rightarrow> (nat \<times> nat) list" where
  "dp_actions env p = List.product [0..<length (battPowers env p)] [0..<length (evCurrents p)]"

definition relax ::
  "planner_env \<Rightarrow> PlannerParams \<Rightarrow> nat \<Rightarrow> dp_table \<Rightarrow> (nat \<times> nat) \<times> (nat \<times> nat) \<Rightarrow> dp_table \<times> back_table \<Rightarrow> dp_table \<times> back_table" where
  "relax env p t dp sa acc =
     (let (s, a) = sa; (dpNext, back) = acc in
      if fle dp_inf (dp s) then acc
      else case transition env p t s a of
        None \<Rightarrow> acc
      | Some (d, stepCost) \<Rightarrow>
          let nc = fadd (dp s) stepCost in
          if flt nc (dpNext d)
          then (dpNext(d := nc), back(d := \<lparr>node_src = (wrap16 (int (fst s)), wrap16 (int (snd s))),
                                           node_cmd = (wrap16 (int (fst a)), wrap16 (int (snd a)))\<rparr>))
          else acc)"

definition dp_step :: "planner_env \<Rightarrow> PlannerParams \<Rightarrow> nat \<Rightarrow> dp_table \<Rightarrow> dp_table \<times> back_table" where
  "dp_step env p t dp =
     fold (relax env p t dp) (List.product (dp_states env p) (dp_actions env p)) (makeDP2D, \<lambda>_. no_node)"

fun forward :: "planner_env \<Rightarrow> PlannerParams \<Rightarrow> nat \<Rightarrow> dp_table \<times> back_table list" where
  "forward env p 0 = (makeDP2D((iBatt0 env p, iEV0 env p) := Fin 0), [])"
| "forward env p (Suc t) =
     (let (dp, backs) = forward env p t; (dpNext, back) = dp_step env p t dp in (dpNext, backs @ [back]))"

section \<open>The terminal state and the plan\<close>

definition terminal_cost :: "planner_env \<Rightarrow> PlannerParams \<Rightarrow> nat \<times> nat \<Rightarrow> f64 \<Rightarrow> f64" where
  "terminal_cost env p s c =
     (let terminalTarget = (if fle (TerminalSocKwh p) (Fin 0) then InitialBattSocKwh p else TerminalSocKwh p);
          l = battLevels env p ! fst s
      in if hasBatt p \<and> flt l (fsub terminalTarget eps) then fadd c (fmul (Fin 100) (fsub terminalTarget l)) else c)"

definition best_terminal :: "planner_env \<Rightarrow> PlannerParams \<Rightarrow> dp_table \<Rightarrow> nat \<times> nat" where
  "best_terminal env p dp =
     snd (fold (\<lambda>s (bestCost, best).
        if fle dp_inf (dp s) then (bestCost, best)
        else let c = terminal_cost env p s (dp s) in if flt c bestCost then (c, s) else (bestCost, best))
        (dp_states env p) (dp_inf, (iBatt0 env p, iEV0 env p)))"

record PlanInterval =
  Start :: int64
  BattSetpointW :: f64
  EVMaxCurrentA :: f64
  ExpectedGridW :: f64
  MarginalCost :: f64
  SocKwh :: f64
  EVSetpointW :: f64

record DailyPlan =
  BuildTime :: gotime
  dp_WindowStart :: int64
  WindowEnd :: int64
  Intervals :: "PlanInterval list"
  TotalCost :: f64
  EVModelled :: bool

definition interval_of :: "planner_env \<Rightarrow> PlannerParams \<Rightarrow> nat \<Rightarrow> backNode \<Rightarrow> PlanInterval" where
  "interval_of env p t node =
     (let src = nat (fst (node_src node)); found = 0 \<le> fst (node_src node);
          battW = (if hasBatt p \<and> found then fmul (battEffKw env p src (nat (fst (node_cmd node)))) (Fin 1000) else NaN);
          socKwh = (if hasBatt p \<and> found then battLevels env p ! src else NaN);
          evA = (if found then evCurrents p ! nat (snd (node_cmd node)) else Fin 0);
          evKw = fdiv (fmul evA (EVVoltageV p)) (Fin 1000);
          bKw = (let b = fdiv battW (Fin 1000) in if is_nan b then Fin 0 else b);
          gridW = fmul (grid_kw p t evKw bKw) (Fin 1000)
      in \<lparr>Start = step_time p t, BattSetpointW = battW, EVMaxCurrentA = fmax (Fin 0) evA, ExpectedGridW = gridW,
          MarginalCost = step_cost env p t (fdiv gridW (Fin 1000)), SocKwh = socKwh,
          EVSetpointW = (if hasEV p then fmul (fneg evKw) (Fin 1000) else NaN)\<rparr>)"

fun backtrack :: "planner_env \<Rightarrow> PlannerParams \<Rightarrow> back_table list \<Rightarrow> nat \<Rightarrow> nat \<times> nat \<Rightarrow> PlanInterval list" where
  "backtrack env p backs 0 s = []"
| "backtrack env p backs (Suc t) s =
     (let node = (backs ! t) s;
          s' = (if 0 \<le> fst (node_src node) then (nat (fst (node_src node)), nat (snd (node_src node))) else s)
      in backtrack env p backs t s' @ [interval_of env p t node])"

definition DailyPlanner_Plan :: "planner_env \<Rightarrow> PlannerParams \<Rightarrow> DailyPlan" where
  "DailyPlanner_Plan env p0 =
     (let p = withDefaults p0; (dp, backs) = forward env p planSteps;
          intervals = backtrack env p backs planSteps (best_terminal env p dp);
          planCost = fold (\<lambda>iv acc. fadd acc (MarginalCost iv)) intervals (Fin 0)
      in \<lparr>BuildTime = (if is_zero_time (Now p) then clock_now env else Now p),
          dp_WindowStart = window_start p, WindowEnd = window_start p + int planSteps * planStepSec,
          Intervals = intervals, TotalCost = fadd planCost (FixedDailyCharge p),
          EVModelled = (hasEV p \<and> flt (Fin 0) (EVMaxChargeKw p))\<rparr>)"

text \<open>The target of the interval that contains a time.\<close>

definition CurrentTarget :: "DailyPlan option \<Rightarrow> gotime \<Rightarrow> PlanTarget option" where
  "CurrentTarget dp t =
     (case dp of
        None \<Rightarrow> None
      | Some dp \<Rightarrow>
          let unix = time_unix t in
          if unix < dp_WindowStart dp \<or> WindowEnd dp \<le> unix then None
          else let idx = go_div (unix - dp_WindowStart dp) planStepSec in
            if idx < 0 \<or> int planSteps \<le> idx then None
            else let iv = Intervals dp ! nat idx in
              Some \<lparr>pt_BattSetpointW = BattSetpointW iv, pt_EVMaxCurrentA = EVMaxCurrentA iv,
                    pt_EVSetpointW = EVSetpointW iv, pt_EVModelled = EVModelled dp\<rparr>)"

end
