(* ===== verification/PlannerOpt.thy ===== *)
theory PlannerOpt
  imports Planner
begin

text \<open>
  The daily plan against its specification: the schedules the constraints admit, and that the plan is
  the dispatch of a cheapest one. Costs are the rounded sums the code forms, so the comparison is
  exact: rounding is monotone, and the recurrence of the table survives it.
\<close>

section \<open>Arithmetic\<close>

lemma flt_top: "flt x z \<Longrightarrow> x \<noteq> NaN \<and> x \<noteq> PInf"
  by (cases x; cases z) (auto simp: flt_def feq_def)

lemma fadd_mono:
  assumes "fle x y" and "flt (fadd y s) z"
  shows "fle (fadd x s) (fadd y s)"
  using assms(1) flt_top [OF assms(2)]
  by (cases x; cases y; cases s) (simp_all add: fl_mono)

lemma fle_flt_trans: "fle x y \<Longrightarrow> flt y z \<Longrightarrow> flt x z"
  by (metis fle_antisym fle_trans flt_iff)

lemma flt_not_nan: "flt x y \<Longrightarrow> \<not> is_nan x \<and> \<not> is_nan y"
  using fle_not_nan flt_imp_fle by blast

lemma not_flt_fle: "\<not> flt x y \<Longrightarrow> \<not> is_nan x \<Longrightarrow> \<not> is_nan y \<Longrightarrow> fle y x"
  using not_fle_iff by blast

lemma dp_inf_not_nan [simp]: "\<not> is_nan dp_inf"
  by (simp add: dp_inf_def)

section \<open>Indices\<close>

lemma closest_fold_less:
  "(\<forall>(i, l) \<in> set xs. i < n) \<Longrightarrow> fst acc < n \<Longrightarrow>
   fst (fold (\<lambda>(i, l) (best, bestDist). let d = fabs (fsub l v) in if flt d bestDist then (i, d) else (best, bestDist)) xs acc) < n"
  by (induction xs arbitrary: acc) (auto simp: Let_def split: prod.split)

lemma closestIdx_less: "levels \<noteq> [] \<Longrightarrow> closestIdx levels v < length levels"
proof (cases levels)
  case (Cons x xs)
  have "\<forall>(i, l) \<in> set (enumerate 1 xs). i < length levels"
    by (auto simp: Cons in_set_enumerate_eq)
  then show ?thesis unfolding closestIdx_def by (simp only: Cons list.case) (rule closest_fold_less; simp add: Cons)
qed simp

lemma discretizeLevels_not_Nil [simp]: "discretizeLevels env lo hi stp \<noteq> []"
  by (simp add: discretizeLevels_def Let_def)

lemma levels_not_Nil [simp]: "battLevels env p \<noteq> []" "evLevels env p \<noteq> []"
  by (simp_all add: battLevels_def evLevels_def)

lemma battDest_less: "battDest env p i bi = Some ni \<Longrightarrow> ni < length (battLevels env p)"
  by (auto simp: battDest_def Let_def closestIdx_less split: if_splits)

lemma evDest_less: "evDest env p j ci = Some nj \<Longrightarrow> nj < length (evLevels env p)"
  by (auto simp: evDest_def Let_def closestIdx_less split: if_splits)

lemma transition_state: "transition env p t s a = Some (d, sc) \<Longrightarrow> d \<in> set (dp_states env p)"
  using battDest_less evDest_less
  by (auto simp: transition_def dp_states_def Let_def split: prod.splits if_splits option.splits)

lemma initial_state: "(iBatt0 env p, iEV0 env p) \<in> set (dp_states env p)"
  by (simp add: dp_states_def iBatt0_def iEV0_def closestIdx_less)

definition sizes_ok :: "planner_env \<Rightarrow> PlannerParams \<Rightarrow> bool" where
  "sizes_ok env p \<longleftrightarrow> length (battLevels env p) \<le> 2 ^ 15 \<and> length (evLevels env p) \<le> 2 ^ 15 \<and>
     length (battPowers env p) \<le> 2 ^ 15 \<and> length (evCurrents p) \<le> 2 ^ 15"

lemma wrap16_nat: "n < 2 ^ 15 \<Longrightarrow> wrap16 (int n) = int n"
  by (simp add: wrap16_def)

definition node_of :: "nat \<times> nat \<Rightarrow> nat \<times> nat \<Rightarrow> backNode" where
  "node_of s a = \<lparr>node_src = (wrap16 (int (fst s)), wrap16 (int (snd s))), node_cmd = (wrap16 (int (fst a)), wrap16 (int (snd a)))\<rparr>"

lemma node_of_src:
  "sizes_ok env p \<Longrightarrow> s \<in> set (dp_states env p) \<Longrightarrow> node_src (node_of s a) = (int (fst s), int (snd s))"
  by (cases s) (auto simp: node_of_def sizes_ok_def dp_states_def wrap16_nat)

section \<open>Schedules\<close>

text \<open>A schedule lists the actions taken so far, the last one first. \<open>follow\<close> is where it leads from the
  initial state and what it costs, if every action is allowed and the running cost stays below the
  table's infinity.\<close>

type_synonym schedule = "(nat \<times> nat) list"

fun follow :: "planner_env \<Rightarrow> PlannerParams \<Rightarrow> schedule \<Rightarrow> ((nat \<times> nat) \<times> f64) option" where
  "follow env p [] = Some ((iBatt0 env p, iEV0 env p), Fin 0)"
| "follow env p (a # as) =
     (case follow env p as of
        None \<Rightarrow> None
      | Some (s, c) \<Rightarrow>
          if flt c dp_inf \<and> a \<in> set (dp_actions env p) then
            case transition env p (length as) s a of None \<Rightarrow> None | Some (s', sc) \<Rightarrow> Some (s', fadd c sc)
          else None)"

fun dispatched :: "planner_env \<Rightarrow> PlannerParams \<Rightarrow> schedule \<Rightarrow> PlanInterval list" where
  "dispatched env p [] = []"
| "dispatched env p (a # as) =
     dispatched env p as @ [interval_of env p (length as) (node_of (fst (the (follow env p as))) a)]"

lemma follow_state: "follow env p as = Some (s, c) \<Longrightarrow> s \<in> set (dp_states env p)"
  using initial_state transition_state by (cases as) (auto split: option.splits if_splits)

section \<open>One step of the table\<close>

definition step_inv ::
  "planner_env \<Rightarrow> PlannerParams \<Rightarrow> nat \<Rightarrow> dp_table \<Rightarrow> ((nat \<times> nat) \<times> (nat \<times> nat)) set \<Rightarrow> dp_table \<times> back_table \<Rightarrow> bool" where
  "step_inv env p t dp D acc \<longleftrightarrow>
     (\<forall>d. fst acc d = dp_inf \<and> snd acc d = no_node \<or>
        flt (fst acc d) dp_inf \<and> (\<exists>(s, a) \<in> D. \<exists>sc. \<not> fle dp_inf (dp s) \<and> transition env p t s a = Some (d, sc) \<and>
           fst acc d = fadd (dp s) sc \<and> snd acc d = node_of s a)) \<and>
     (\<forall>(s, a) \<in> D. \<forall>d sc. \<not> fle dp_inf (dp s) \<longrightarrow> transition env p t s a = Some (d, sc) \<longrightarrow> \<not> flt (fadd (dp s) sc) (fst acc d))"

lemma step_inv_not_nan: "step_inv env p t dp D acc \<Longrightarrow> \<not> is_nan (fst acc d)"
  unfolding step_inv_def by (metis dp_inf_not_nan flt_not_nan)

lemma flt_trans': "flt x y \<Longrightarrow> flt y z \<Longrightarrow> flt x z"
  using fle_flt_trans flt_imp_fle by blast

lemma relax_inv:
  assumes "step_inv env p t dp D acc"
  shows "step_inv env p t dp (insert sa D) (relax env p t dp sa acc)"
proof -
  obtain s a where sa: "sa = (s, a)" by (cases sa)
  obtain nxt bk where acc: "acc = (nxt, bk)" by (cases acc)
  show ?thesis
  proof (cases "\<not> fle dp_inf (dp s) \<and> transition env p t s a \<noteq> None")
    case False
    then have "relax env p t dp sa acc = acc" by (cases "transition env p t s a") (simp_all add: relax_def sa acc)
    moreover have "step_inv env p t dp (insert sa D) acc"
      using assms False unfolding step_inv_def sa by fastforce
    ultimately show ?thesis by simp
  next
    case True
    then obtain d sc where tr: "transition env p t s a = Some (d, sc)" and o: "\<not> fle dp_inf (dp s)" by auto
    show ?thesis
    proof (cases "flt (fadd (dp s) sc) (nxt d)")
      case better: True
      let ?c = "fadd (dp s) sc" and ?n = "nxt(d := fadd (dp s) sc)" and ?b = "bk(d := node_of s a)"
      have r: "relax env p t dp sa acc = (?n, ?b)"
        using better o tr by (simp add: relax_def sa acc Let_def node_of_def)
      note A = assms [unfolded step_inv_def acc fst_conv snd_conv, THEN conjunct1, rule_format]
        and B = assms [unfolded step_inv_def acc fst_conv snd_conv, THEN conjunct2]
      have low: "flt ?c dp_inf" using A [of d] better flt_trans' by metis
      have first: "?n d' = dp_inf \<and> ?b d' = no_node \<or> flt (?n d') dp_inf \<and> (\<exists>(s, a) \<in> insert sa D. \<exists>sc. \<not> fle dp_inf (dp s) \<and>
          transition env p t s a = Some (d', sc) \<and> ?n d' = fadd (dp s) sc \<and> ?b d' = node_of s a)" for d'
      proof (cases "d' = d")
        case True
        then show ?thesis using low o tr by (simp add: sa)
      next
        case False
        then show ?thesis using A [of d'] by auto
      qed
      have second: "\<not> flt (fadd (dp s') sc') (?n d')"
        if x: "(s', a') \<in> insert sa D" "\<not> fle dp_inf (dp s')" "transition env p t s' a' = Some (d', sc')" for s' a' d' sc'
      proof (cases "(s', a') = (s, a)")
        case True
        then show ?thesis using x(3) tr by simp
      next
        case False
        then have "(s', a') \<in> D" using x(1) by (auto simp: sa)
        then have "\<not> flt (fadd (dp s') sc') (nxt d')" using B x(2,3) by blast
        then show ?thesis using better flt_trans' by auto
      qed
      show ?thesis unfolding r step_inv_def fst_conv snd_conv using first second by blast
    next
      case False
      then have "relax env p t dp sa acc = acc" using o tr by (simp add: relax_def sa acc Let_def)
      moreover have "step_inv env p t dp (insert sa D) acc"
        using assms False o tr unfolding step_inv_def sa acc by fastforce
      ultimately show ?thesis by simp
    qed
  qed
qed

lemma dp_step_inv:
  "step_inv env p t dp (set (dp_states env p) \<times> set (dp_actions env p)) (dp_step env p t dp)"
proof -
  have "step_inv env p t dp (set xs \<union> D) (fold (relax env p t dp) xs acc)" if "step_inv env p t dp D acc" for xs D acc
    using that
  proof (induction xs arbitrary: D acc)
    case (Cons x xs)
    then show ?case using Cons.IH [OF relax_inv [OF Cons.prems, of x]] by simp
  qed simp
  from this [of "{}" "(makeDP2D, \<lambda>_. no_node)" "List.product (dp_states env p) (dp_actions env p)"]
  show ?thesis by (simp add: dp_step_def step_inv_def makeDP2D_def)
qed

section \<open>The forward pass\<close>

text \<open>After \<open>t\<close> steps an entry below infinity is the cost of a schedule, the one that backtracking
  recovers, and at most the cost of every schedule of that length to its state.\<close>

definition dp_inv :: "planner_env \<Rightarrow> PlannerParams \<Rightarrow> nat \<Rightarrow> dp_table \<Rightarrow> back_table list \<Rightarrow> bool" where
  "dp_inv env p t dp backs \<longleftrightarrow> length backs = t \<and>
     (\<forall>s. \<not> is_nan (dp s)) \<and>
     (\<forall>s. \<not> fle dp_inf (dp s) \<longrightarrow> (\<exists>as. length as = t \<and> follow env p as = Some (s, dp s) \<and>
        backtrack env p backs t s = dispatched env p as)) \<and>
     (\<forall>as s c. length as = t \<longrightarrow> follow env p as = Some (s, c) \<longrightarrow> flt c dp_inf \<longrightarrow> fle (dp s) c)"

lemma backtrack_append: "t \<le> length backs \<Longrightarrow> backtrack env p (backs @ bs) t s = backtrack env p backs t s"
  by (induction t arbitrary: s) (simp_all add: nth_append Let_def)

lemma below_inf: "\<not> is_nan x \<Longrightarrow> flt x dp_inf \<longleftrightarrow> \<not> fle dp_inf x"
  using not_fle_iff [of dp_inf x] fle_antisym [of dp_inf x] by (metis dp_inf_not_nan flt_iff)

lemma dp_invD: "dp_inv env p t dp backs \<Longrightarrow> \<not> is_nan (dp s)"
  "dp_inv env p t dp backs \<Longrightarrow> \<not> fle dp_inf (dp s) \<Longrightarrow> flt (dp s) dp_inf"
  by (simp_all only: dp_inv_def below_inf not_False_eq_True)

lemma dp_inv_0: "dp_inv env p 0 (makeDP2D((iBatt0 env p, iEV0 env p) := Fin 0)) []"
proof -
  have "fle dp_inf dp_inf" by (simp add: fle_refl)
  then show ?thesis by (auto simp: dp_inv_def makeDP2D_def dp_inf_def split: if_splits)
qed

lemma dp_inv_Suc:
  assumes sz: "sizes_ok env p" and inv: "dp_inv env p t dp backs" and st: "dp_step env p t dp = (nxt, bk)"
  shows "dp_inv env p (Suc t) nxt (backs @ [bk])"
proof -
  let ?D = "set (dp_states env p) \<times> set (dp_actions env p)"
  have step: "step_inv env p t dp ?D (nxt, bk)" using dp_step_inv [of env p t dp] by (simp add: st)
  note nn = step_inv_not_nan [OF step, unfolded fst_conv]
  have sound: "\<exists>as. length as = Suc t \<and> follow env p as = Some (d, nxt d) \<and>
      backtrack env p (backs @ [bk]) (Suc t) d = dispatched env p as" if low: "\<not> fle dp_inf (nxt d)" for d
  proof -
    have "nxt d \<noteq> dp_inf" using low fle_refl [of dp_inf] by auto
    then obtain s a sc where sa: "(s, a) \<in> ?D" "\<not> fle dp_inf (dp s)" "transition env p t s a = Some (d, sc)"
      "nxt d = fadd (dp s) sc" "bk d = node_of s a"
      using step [unfolded step_inv_def fst_conv snd_conv, THEN conjunct1, rule_format, of d] by blast
    obtain as where as: "length as = t" "follow env p as = Some (s, dp s)" "backtrack env p backs t s = dispatched env p as"
      using inv sa(2) unfolding dp_inv_def by blast
    have "flt (dp s) dp_inf" by (rule dp_invD(2) [OF inv sa(2)])
    then have f: "follow env p (a # as) = Some (d, nxt d)" using as sa by simp
    have n: "node_src (bk d) = (int (fst s), int (snd s))" using sa by (simp add: node_of_src [OF sz])
    have "backtrack env p (backs @ [bk]) (Suc t) d = dispatched env p (a # as)"
      using inv as sa n backtrack_append [of t backs] by (simp add: dp_inv_def nth_append)
    then show ?thesis using f as(1) by (intro exI [of _ "a # as"]) simp
  qed
  have opt: "fle (nxt d) c'" if f: "length as' = Suc t" "follow env p as' = Some (d, c')" "flt c' dp_inf" for as' d c'
  proof -
    obtain a as where as: "as' = a # as" "length as = t" using f(1) by (cases as') auto
    obtain s c sc where s: "follow env p as = Some (s, c)" "flt c dp_inf" "a \<in> set (dp_actions env p)"
      "transition env p t s a = Some (d, sc)" "c' = fadd c sc"
      using f(2) by (auto simp: as split: option.splits if_splits)
    have le: "fle (dp s) c" using inv as(2) s unfolding dp_inv_def by blast
    then have low: "\<not> fle dp_inf (dp s)" using s(2) fle_flt_trans [of dp_inf "dp s"] fle_flt_trans [of "dp s" c dp_inf]
      by (metis flt_irrefl)
    have m: "fle (fadd (dp s) sc) c'" using fadd_mono [OF le] f(3) s(5) by blast
    have "(s, a) \<in> ?D" using s(3) follow_state [OF s(1)] by simp
    then have "\<not> flt (fadd (dp s) sc) (nxt d)"
      using step [unfolded step_inv_def fst_conv snd_conv, THEN conjunct2] low s(4) by blast
    then have "fle (nxt d) (fadd (dp s) sc)" using not_flt_fle nn fle_not_nan [OF m] by blast
    then show ?thesis using m fle_trans by blast
  qed
  have "length (backs @ [bk]) = Suc t" using inv by (simp add: dp_inv_def)
  then show ?thesis unfolding dp_inv_def using nn sound opt by blast
qed

lemma forward_inv: "sizes_ok env p \<Longrightarrow> dp_inv env p t (fst (forward env p t)) (snd (forward env p t))"
proof (induction t)
  case (Suc t)
  then show ?case using dp_inv_Suc [OF Suc.prems Suc.IH]
    by (auto simp: case_prod_unfold Let_def)
qed (simp add: dp_inv_0)

section \<open>The terminal state\<close>

lemma terminal_mono:
  assumes "fle x y" and "flt (terminal_cost env p s y) z"
  shows "fle (terminal_cost env p s x) (terminal_cost env p s y)"
  using assms fadd_mono by (auto simp: terminal_cost_def Let_def split: if_splits)

text \<open>What the scan of the last table keeps: the first state of least penalised cost, if any is below
  infinity.\<close>

definition scan_inv :: "planner_env \<Rightarrow> PlannerParams \<Rightarrow> dp_table \<Rightarrow> (nat \<times> nat) set \<Rightarrow> f64 \<times> (nat \<times> nat) \<Rightarrow> bool" where
  "scan_inv env p dp D acc \<longleftrightarrow>
     (acc = (dp_inf, (iBatt0 env p, iEV0 env p)) \<or>
      \<not> fle dp_inf (dp (snd acc)) \<and> fst acc = terminal_cost env p (snd acc) (dp (snd acc)) \<and> flt (fst acc) dp_inf) \<and>
     (\<forall>s \<in> D. \<not> fle dp_inf (dp s) \<longrightarrow> \<not> flt (terminal_cost env p s (dp s)) (fst acc))"

lemma scan_ok: "scan_inv env p dp D acc \<Longrightarrow> scan_inv env p dp (set xs \<union> D)
   (fold (\<lambda>s (bestCost, best).
        if fle dp_inf (dp s) then (bestCost, best)
        else let c = terminal_cost env p s (dp s) in if flt c bestCost then (c, s) else (bestCost, best)) xs acc)"
proof (induction xs arbitrary: D acc)
  case (Cons s xs)
  obtain b st where acc: "acc = (b, st)" by (cases acc)
  let ?acc = "if fle dp_inf (dp s) then (b, st)
        else let c = terminal_cost env p s (dp s) in if flt c b then (c, s) else (b, st)"
  note A = Cons.prems [unfolded scan_inv_def acc fst_conv snd_conv, THEN conjunct1]
    and B = Cons.prems [unfolded scan_inv_def acc fst_conv snd_conv, THEN conjunct2, rule_format]
  have "scan_inv env p dp (insert s D) ?acc"
  proof (cases "\<not> fle dp_inf (dp s) \<and> flt (terminal_cost env p s (dp s)) b")
    case True
    then have low: "flt (terminal_cost env p s (dp s)) dp_inf" using A flt_trans' by (metis prod.inject)
    have "\<not> flt (terminal_cost env p x (dp x)) (terminal_cost env p s (dp s))"
      if "x \<in> insert s D" "\<not> fle dp_inf (dp x)" for x
      using that B [of x] True flt_trans' by (cases "x = s") (simp, blast)
    then show ?thesis using True low by (simp add: scan_inv_def Let_def)
  next
    case False
    then have "?acc = (b, st)" by (cases "fle dp_inf (dp s)") (simp_all add: Let_def)
    moreover have "\<not> flt (terminal_cost env p x (dp x)) b" if "x \<in> insert s D" "\<not> fle dp_inf (dp x)" for x
      using that B [of x] False by blast
    ultimately show ?thesis using A by (simp only: scan_inv_def fst_conv snd_conv) blast
  qed
  from Cons.IH [OF this] show ?case by (simp add: acc)
qed simp

lemma best_terminal_ok:
  assumes inv: "\<forall>s. \<not> is_nan (dp s)"
    and s: "s \<in> set (dp_states env p)" "\<not> fle dp_inf (dp s)" "flt (terminal_cost env p s (dp s)) dp_inf"
  shows "\<not> fle dp_inf (dp (best_terminal env p dp))"
    and "fle (terminal_cost env p (best_terminal env p dp) (dp (best_terminal env p dp))) (terminal_cost env p s (dp s))"
proof -
  obtain acc where acc: "fold (\<lambda>s (bestCost, best).
        if fle dp_inf (dp s) then (bestCost, best)
        else let c = terminal_cost env p s (dp s) in if flt c bestCost then (c, s) else (bestCost, best))
        (dp_states env p) (dp_inf, (iBatt0 env p, iEV0 env p)) = acc" and b: "best_terminal env p dp = snd acc"
    by (simp add: best_terminal_def)
  have i: "scan_inv env p dp (set (dp_states env p)) acc"
    using scan_ok [of env p dp "{}" "(dp_inf, (iBatt0 env p, iEV0 env p))" "dp_states env p"] unfolding acc
    by (simp add: scan_inv_def)
  have n: "\<not> flt (terminal_cost env p s (dp s)) (fst acc)" using i s unfolding scan_inv_def by blast
  then have "acc \<noteq> (dp_inf, (iBatt0 env p, iEV0 env p))" using s(3) by auto
  then have a: "\<not> fle dp_inf (dp (snd acc))" "fst acc = terminal_cost env p (snd acc) (dp (snd acc))" "flt (fst acc) dp_inf"
    using i unfolding scan_inv_def by blast+
  show "\<not> fle dp_inf (dp (best_terminal env p dp))" using a(1) by (simp add: b)
  have "fle (fst acc) (terminal_cost env p s (dp s))"
    using not_flt_fle [OF n] flt_not_nan [OF s(3)] flt_not_nan [OF a(3)] by blast
  then show "fle (terminal_cost env p (best_terminal env p dp) (dp (best_terminal env p dp))) (terminal_cost env p s (dp s))"
    by (simp add: b a(2))
qed

section \<open>The plan\<close>

definition penalised :: "planner_env \<Rightarrow> PlannerParams \<Rightarrow> schedule \<Rightarrow> f64" where
  "penalised env p as = (case follow env p as of Some (s, c) \<Rightarrow> terminal_cost env p s c | None \<Rightarrow> NaN)"

text \<open>A schedule the planner may choose: 288 allowed actions whose cost stays below the infinity.\<close>

definition admissible :: "planner_env \<Rightarrow> PlannerParams \<Rightarrow> schedule \<Rightarrow> bool" where
  "admissible env p as \<longleftrightarrow> length as = planSteps \<and>
     (case follow env p as of Some (s, c) \<Rightarrow> flt c dp_inf | None \<Rightarrow> False) \<and> flt (penalised env p as) dp_inf"

lemma plan_optimal_core:
  assumes "p = withDefaults p0" and "sizes_ok env p" and "admissible env p bs"
  shows "\<exists>as. admissible env p as \<and> Intervals (DailyPlanner_Plan env p0) = dispatched env p as \<and>
    (\<forall>bs. admissible env p bs \<longrightarrow> fle (penalised env p as) (penalised env p bs))"
proof -
  obtain dp backs where f: "forward env p planSteps = (dp, backs)" by (cases "forward env p planSteps")
  have inv: "dp_inv env p planSteps dp backs" using forward_inv [OF assms(2), of planSteps] by (simp add: f)
  let ?b = "best_terminal env p dp"
  have cheap: "\<not> fle dp_inf (dp ?b) \<and> fle (terminal_cost env p ?b (dp ?b)) (penalised env p cs)" if c: "admissible env p cs" for cs
  proof -
    obtain s c where sc: "follow env p cs = Some (s, c)" "flt c dp_inf" "length cs = planSteps"
      "flt (terminal_cost env p s c) dp_inf"
      using c by (auto simp: admissible_def penalised_def split: option.splits)
    have le: "fle (dp s) c" using inv sc unfolding dp_inv_def by blast
    then have low: "\<not> fle dp_inf (dp s)" using fle_trans sc(2) by (metis below_inf fle_not_nan)
    have t: "fle (terminal_cost env p s (dp s)) (terminal_cost env p s c)" using terminal_mono [OF le sc(4)] .
    have "flt (terminal_cost env p s (dp s)) dp_inf" using fle_flt_trans [OF t sc(4)] .
    note b = best_terminal_ok [where dp = dp, OF _ follow_state [OF sc(1)] low this]
    show ?thesis using b inv t fle_trans by (auto simp: dp_inv_def penalised_def sc(1))
  qed
  have low: "\<not> fle dp_inf (dp ?b)" using cheap [OF assms(3)] by simp
  then obtain as where as: "length as = planSteps" "follow env p as = Some (?b, dp ?b)"
    "backtrack env p backs planSteps ?b = dispatched env p as"
    using inv unfolding dp_inv_def by blast
  have pen: "penalised env p as = terminal_cost env p ?b (dp ?b)" by (simp add: penalised_def as(2))
  have "flt (penalised env p as) dp_inf"
    using cheap [OF assms(3)] assms(3) fle_flt_trans unfolding pen admissible_def by blast
  moreover have "flt (dp ?b) dp_inf" by (rule dp_invD(2) [OF inv low])
  ultimately have "admissible env p as" using as by (simp add: admissible_def)
  moreover have "Intervals (DailyPlanner_Plan env p0) = dispatched env p as"
    by (simp add: DailyPlanner_Plan_def Let_def f as(3) flip: assms(1))
  ultimately show ?thesis using cheap pen by auto
qed

text \<open>
  Property C1: the daily plan is cost-optimal. Whenever some schedule meets all constraints, the plan
  is the dispatch of such a schedule, and no other one is cheaper, the penalty for ending below the
  terminal charge included.
\<close>

theorem plan_optimal:
  assumes "p = withDefaults p0" and "sizes_ok env p" and "admissible env p bs"
  shows "\<exists>as. admissible env p as \<and> Intervals (DailyPlanner_Plan env p0) = dispatched env p as \<and>
    (\<forall>bs. admissible env p bs \<longrightarrow> fle (penalised env p as) (penalised env p bs))"
  by (rule plan_optimal_core [OF assms])

section \<open>What the constraints give\<close>

lemma dispatched_length [simp]: "length (dispatched env p as) = length as"
  by (induction as) simp_all

text \<open>The steps of an admissible schedule: the state it is in before each of them, and the action taken.\<close>

definition planned_state :: "planner_env \<Rightarrow> PlannerParams \<Rightarrow> schedule \<Rightarrow> nat \<Rightarrow> nat \<times> nat" where
  "planned_state env p as t = fst (the (follow env p (drop (length as - t) as)))"

definition planned_action :: "schedule \<Rightarrow> nat \<Rightarrow> nat \<times> nat" where
  "planned_action as t = rev as ! t"

lemma planned_start: "planned_state env p as 0 = (iBatt0 env p, iEV0 env p)"
  by (simp add: planned_state_def)

lemma follow_step:
  assumes "follow env p as = Some (s', c')" and "t < length as"
  shows "planned_state env p as t \<in> set (dp_states env p) \<and> planned_action as t \<in> set (dp_actions env p) \<and>
    (\<exists>sc. transition env p t (planned_state env p as t) (planned_action as t) = Some (planned_state env p as (Suc t), sc)) \<and>
    dispatched env p as ! t = interval_of env p t (node_of (planned_state env p as t) (planned_action as t))"
  using assms
proof (induction as arbitrary: s' c')
  case (Cons a as)
  obtain s c sc where s: "follow env p as = Some (s, c)" "a \<in> set (dp_actions env p)"
    "transition env p (length as) s a = Some (s', sc)"
    using Cons.prems(1) by (auto split: option.splits if_splits)
  have k: "planned_state env p (a # as) u = planned_state env p as u" if "u \<le> length as" for u
    using that by (simp add: planned_state_def Suc_diff_le)
  show ?case
  proof (cases "t = length as")
    case True
    moreover have "planned_state env p as (length as) = s" "planned_state env p (a # as) (Suc (length as)) = s'"
      using s(1) Cons.prems(1) by (simp_all add: planned_state_def del: follow.simps)
    ultimately show ?thesis using s follow_state [OF s(1)] k [of t] by (auto simp: planned_action_def nth_append)
  next
    case False
    then have "t < length as" using Cons.prems(2) by simp
    then show ?thesis using Cons.IH [OF s(1)] k [of t] k [of "Suc t"] by (simp add: planned_action_def nth_append)
  qed
qed simp

lemma transition_limits:
  assumes "transition env p t (i, j) (bi, ci) = Some (d, sc)"
  shows "limits_ok p t (evKwOf p ci) (battEffKw env p i bi)"
    and "Disconnect (planStepConstraint p t) \<Longrightarrow> battPowers env p ! bi = Fin 0"
    and "fixedPwrIdx env p t = Some b \<Longrightarrow> bi = b"
    and "evDeptStep p = Some t \<Longrightarrow> hasEV p \<Longrightarrow> evTargetIdx env p \<le> j"
    and "battDest env p i bi = Some (fst d)" and "evDest env p j ci = Some (snd d)"
    and "evDeptStep p = Some m \<Longrightarrow> m < t \<Longrightarrow> ci = zeroEVIdx p"
  using assms by (auto simp: transition_def Let_def split: if_splits option.splits)

lemma interval_node:
  assumes sz: "sizes_ok env p" and s: "(i, j) \<in> set (dp_states env p)" and a: "(bi, ci) \<in> set (dp_actions env p)"
    and iv_def: "iv = interval_of env p t (node_of (i, j) (bi, ci))"
  shows "hasBatt p \<Longrightarrow> BattSetpointW iv = fmul (battEffKw env p i bi) (Fin 1000)"
    and "hasBatt p \<Longrightarrow> SocKwh iv = battLevels env p ! i"
    and "EVMaxCurrentA iv = fmax (Fin 0) (evCurrents p ! ci)"
    and "hasEV p \<Longrightarrow> EVSetpointW iv = fmul (fneg (evKwOf p ci)) (Fin 1000)"
proof -
  have "wrap16 (int bi) = int bi" "wrap16 (int ci) = int ci" "wrap16 (int i) = int i"
    using sz s a by (auto simp: sizes_ok_def dp_actions_def dp_states_def wrap16_nat)
  then show "hasBatt p \<Longrightarrow> BattSetpointW iv = fmul (battEffKw env p i bi) (Fin 1000)"
    "hasBatt p \<Longrightarrow> SocKwh iv = battLevels env p ! i" "EVMaxCurrentA iv = fmax (Fin 0) (evCurrents p ! ci)"
    "hasEV p \<Longrightarrow> EVSetpointW iv = fmul (fneg (evKwOf p ci)) (Fin 1000)"
    by (simp_all add: iv_def interval_of_def node_of_def Let_def evKwOf_def)
qed

text \<open>The nearest level is at most as far away as any other.\<close>

lemma closest_fold:
  assumes "\<forall>y \<in> set ys. \<not> is_nan (g (snd y))" and "\<not> is_nan (snd c)"
  shows "fle (snd (fold (\<lambda>(i, l) (best, bestDist). let d = g l in if flt d bestDist then (i, d) else (best, bestDist)) ys c)) (snd c) \<and>
    (\<forall>y \<in> set ys. fle (snd (fold (\<lambda>(i, l) (best, bestDist). let d = g l in if flt d bestDist then (i, d) else (best, bestDist)) ys c)) (g (snd y))) \<and>
    (fold (\<lambda>(i, l) (best, bestDist). let d = g l in if flt d bestDist then (i, d) else (best, bestDist)) ys c) \<in>
      insert c ((\<lambda>y. (fst y, g (snd y))) ` set ys)"
  using assms
proof (induction ys arbitrary: c)
  case Nil
  then show ?case by (simp add: fle_refl)
next
  case (Cons y ys)
  let ?c = "if flt (g (snd y)) (snd c) then (fst y, g (snd y)) else c"
  have c: "\<not> is_nan (snd ?c)" "fle (snd ?c) (snd c)" "fle (snd ?c) (g (snd y))"
    using Cons.prems not_fle_iff [of "snd c" "g (snd y)"] by (auto simp: fle_refl intro: flt_imp_fle)
  have "(\<lambda>(i, l) (best, bestDist). let d = g l in if flt d bestDist then (i, d) else (best, bestDist)) y c = ?c"
    by (cases y; cases c) (simp add: Let_def)
  then show ?case using Cons.IH [of ?c] c Cons.prems(1) fle_trans [OF _ c(2)] fle_trans [OF _ c(3)]
    by (simp only: fold_simps list.set) (auto split: if_splits)
qed

lemma closest_dist:
  assumes "\<forall>l \<in> set levels. \<not> is_nan (fabs (fsub l v))" and "k < length levels"
  shows "fle (fabs (fsub (levels ! closestIdx levels v) v)) (fabs (fsub (levels ! k) v))"
proof -
  define g where "g l = fabs (fsub l v)" for l
  obtain x xs where l: "levels = x # xs" using assms(2) by (cases levels) auto
  define r where "r = fold (\<lambda>(i, l) (best, bestDist). let d = g l in if flt d bestDist then (i, d) else (best, bestDist))
    (enumerate 1 xs) (0, g x)"
  have n: "\<forall>y \<in> set (enumerate 1 xs). \<not> is_nan (g (snd y))" "\<not> is_nan (snd (0 :: nat, g x))"
    using assms(1) by (auto simp: l g_def in_set_enumerate_eq)
  have r: "closestIdx levels v = fst r" by (simp add: closestIdx_def l r_def g_def case_prod_unfold)
  note f = closest_fold [OF n, folded r_def]
  have "snd r = g (levels ! fst r)" using f by (auto simp: l in_set_enumerate_eq nth_Cons')
  moreover have "fle (snd r) (g (levels ! k))"
  proof (cases k)
    case (Suc m)
    then have "(k, xs ! m) \<in> set (enumerate 1 xs)" using assms(2) by (simp add: l in_set_enumerate_eq)
    then show ?thesis using f Suc by (force simp: l)
  qed (use f in \<open>simp add: l\<close>)
  ultimately show ?thesis by (simp add: r g_def)
qed

lemma idle_power:
  assumes "battPowers env p ! bi = Fin 0" and "battDest env p i bi = Some ni" and "hasBatt p" and "i < length (battLevels env p)"
    and "\<forall>l \<in> set (battLevels env p). \<exists>q. l = Fin q" and "fle (Fin 0) (BattMaxChargeKw p)" and "fle (Fin 0) (BattMaxDischargeKw p)"
  shows "battEffKw env p i bi = Fin 0"
proof -
  have "battLevels env p ! i \<in> set (battLevels env p)" using assms(4) by (rule nth_mem)
  then obtain q where q: "battLevels env p ! i = Fin q" using assms(5) by blast
  have "battSoc_after env p i bi = battLevels env p ! i" using assms(1) by (simp add: battSoc_after_def Let_def)
  then have ni: "ni = closestIdx (battLevels env p) (Fin q)" using assms(2,3) q by (auto simp: battDest_def Let_def split: if_splits)
  have "\<not> is_nan (fabs (fsub l (Fin q)))" if l: "l \<in> set (battLevels env p)" for l
  proof -
    obtain q' where "l = Fin q'" using assms(5) l by blast
    then show ?thesis using fl_not_nan [of "q' - q"] by (cases "fl (q' - q)") simp_all
  qed
  then have "fle (fabs (fsub (battLevels env p ! ni) (Fin q))) (fabs (fsub (battLevels env p ! i) (Fin q)))"
    using closest_dist [OF _ assms(4), of "Fin q"] unfolding ni by blast
  then have "fle (fabs (fsub (battLevels env p ! ni) (Fin q))) (Fin 0)" by (simp add: q)
  then have "fsub (battLevels env p ! ni) (Fin q) = Fin 0" by (cases "fsub (battLevels env p ! ni) (Fin q)") simp_all
  then have "battEffKw env p i bi = fmax (fneg (BattMaxChargeKw p)) (fmin (BattMaxDischargeKw p) (Fin 0))"
    by (simp add: battEffKw_def assms(2,3) q Let_def)
  moreover have "fmin (BattMaxDischargeKw p) (Fin 0) = Fin 0" using assms(7) by (cases "BattMaxDischargeKw p") (simp_all add: fmin_def flt_iff)
  moreover have "fmax (fneg (BattMaxChargeKw p)) (Fin 0) = Fin 0" using assms(6) by (cases "BattMaxChargeKw p") (simp_all add: fmax_def flt_iff)
  ultimately show ?thesis by simp
qed

text \<open>
  Property C22: the plan keeps the utility's envelope. Whenever some schedule meets all constraints, the
  288 intervals of the plan are the commands of one course of states: it starts at the charges of battery
  and vehicle now, each step leads to the next by the commanded powers, and in each step the powers keep
  that step's export, import, generation, gross generation and gross load limits against the forecast; a
  disconnect step commands no battery power (and its setpoint is 0 W for a battery with finite levels and
  no negative rating) and a fixed-dispatch step the commanded one; at the departure step the vehicle's
  charge on this course has reached the target, and after it the vehicle is not charged.
\<close>

theorem plan_keeps_envelope:
  assumes "p = withDefaults p0" and "sizes_ok env p" and "admissible env p bs"
  shows "\<exists>s a. s 0 = (iBatt0 env p, iEV0 env p) \<and>
    (\<forall>t < planSteps. let iv = Intervals (DailyPlanner_Plan env p0) ! t; (i, j) = s t; (bi, ci) = a t in
       battDest env p i bi = Some (fst (s (Suc t))) \<and> evDest env p j ci = Some (snd (s (Suc t))) \<and>
       (hasBatt p \<longrightarrow> BattSetpointW iv = fmul (battEffKw env p i bi) (Fin 1000) \<and> SocKwh iv = battLevels env p ! i) \<and>
       EVMaxCurrentA iv = fmax (Fin 0) (evCurrents p ! ci) \<and> (hasEV p \<longrightarrow> EVSetpointW iv = fmul (fneg (evKwOf p ci)) (Fin 1000)) \<and>
       limits_ok p t (evKwOf p ci) (battEffKw env p i bi) \<and>
       (Disconnect (planStepConstraint p t) \<longrightarrow> battPowers env p ! bi = Fin 0 \<and>
          (hasBatt p \<and> (\<forall>l \<in> set (battLevels env p). \<exists>q. l = Fin q) \<and> fle (Fin 0) (BattMaxChargeKw p) \<and> fle (Fin 0) (BattMaxDischargeKw p) \<longrightarrow>
             BattSetpointW iv = Fin 0)) \<and>
       (\<forall>b. fixedPwrIdx env p t = Some b \<longrightarrow> bi = b) \<and>
       (evDeptStep p = Some t \<longrightarrow> hasEV p \<longrightarrow> evTargetIdx env p \<le> j) \<and>
       (\<forall>d. evDeptStep p = Some d \<longrightarrow> d < t \<longrightarrow> ci = zeroEVIdx p))"
proof -
  obtain as where as: "admissible env p as" "Intervals (DailyPlanner_Plan env p0) = dispatched env p as"
    using plan_optimal_core [OF assms] by blast
  then obtain e c where f: "follow env p as = Some (e, c)" "length as = planSteps"
    by (auto simp: admissible_def split: option.splits)
  have step: "let iv = Intervals (DailyPlanner_Plan env p0) ! t; (i, j) = planned_state env p as t; (bi, ci) = planned_action as t in
       battDest env p i bi = Some (fst (planned_state env p as (Suc t))) \<and> evDest env p j ci = Some (snd (planned_state env p as (Suc t))) \<and>
       (hasBatt p \<longrightarrow> BattSetpointW iv = fmul (battEffKw env p i bi) (Fin 1000) \<and> SocKwh iv = battLevels env p ! i) \<and>
       EVMaxCurrentA iv = fmax (Fin 0) (evCurrents p ! ci) \<and> (hasEV p \<longrightarrow> EVSetpointW iv = fmul (fneg (evKwOf p ci)) (Fin 1000)) \<and>
       limits_ok p t (evKwOf p ci) (battEffKw env p i bi) \<and>
       (Disconnect (planStepConstraint p t) \<longrightarrow> battPowers env p ! bi = Fin 0 \<and>
          (hasBatt p \<and> (\<forall>l \<in> set (battLevels env p). \<exists>q. l = Fin q) \<and> fle (Fin 0) (BattMaxChargeKw p) \<and> fle (Fin 0) (BattMaxDischargeKw p) \<longrightarrow>
             BattSetpointW iv = Fin 0)) \<and>
       (\<forall>b. fixedPwrIdx env p t = Some b \<longrightarrow> bi = b) \<and>
       (evDeptStep p = Some t \<longrightarrow> hasEV p \<longrightarrow> evTargetIdx env p \<le> j) \<and>
       (\<forall>d. evDeptStep p = Some d \<longrightarrow> d < t \<longrightarrow> ci = zeroEVIdx p)" if tt: "t < planSteps" for t
  proof -
    obtain i j bi ci where ij: "planned_state env p as t = (i, j)" "planned_action as t = (bi, ci)" by (meson surj_pair)
    obtain d where "planned_state env p as (Suc t) = d" by simp
    with ij obtain sc where st: "planned_state env p as t = (i, j)" "planned_action as t = (bi, ci)" "planned_state env p as (Suc t) = d"
      "(i, j) \<in> set (dp_states env p)" "(bi, ci) \<in> set (dp_actions env p)" "transition env p t (i, j) (bi, ci) = Some (d, sc)"
      "Intervals (DailyPlanner_Plan env p0) ! t = interval_of env p t (node_of (i, j) (bi, ci))"
      using follow_step [OF f(1), of t] f(2) tt as(2) by auto
    note iv = interval_node [OF assms(2) st(4,5,7)] and tr = transition_limits [OF st(6)]
    have "i < length (battLevels env p)" using st(4) by (auto simp: dp_states_def)
    then have dis: "battEffKw env p i bi = Fin 0" if "Disconnect (planStepConstraint p t)" "hasBatt p" "\<forall>l \<in> set (battLevels env p). \<exists>q. l = Fin q"
      "fle (Fin 0) (BattMaxChargeKw p)" "fle (Fin 0) (BattMaxDischargeKw p)"
      using idle_power [OF tr(2) tr(5)] that by blast
    show ?thesis unfolding st(1-3) Let_def prod.case
      by (intro conjI impI allI tr(1,2,4-7) iv) (simp_all add: tr iv dis)
  qed
  show ?thesis
    by (rule exI [of _ "planned_state env p as"], rule exI [of _ "planned_action as"], rule conjI [OF planned_start],
        rule allI, rule impI, rule step)
qed

section \<open>A goal out of reach\<close>

text \<open>The charge levels the vehicle can have after a number of steps.\<close>

fun ev_levels_after :: "planner_env \<Rightarrow> PlannerParams \<Rightarrow> nat \<Rightarrow> nat list" where
  "ev_levels_after env p 0 = [iEV0 env p]"
| "ev_levels_after env p (Suc n) =
     remdups (concat (map (\<lambda>j. List.map_filter (evDest env p j) [0..<length (evCurrents p)]) (ev_levels_after env p n)))"

lemma follow_ev_level: "follow env p as = Some (s, c) \<Longrightarrow> snd s \<in> set (ev_levels_after env p (length as))"
proof (induction as arbitrary: s c)
  case (Cons a as)
  obtain s' c' sc where s: "follow env p as = Some (s', c')" "a \<in> set (dp_actions env p)"
    "transition env p (length as) s' a = Some (s, sc)"
    using Cons.prems by (auto split: option.splits if_splits)
  have "evDest env p (snd s') (snd a) = Some (snd s)" using transition_limits(6) [of env p "length as" "fst s'" "snd s'" "fst a" "snd a" s sc] s(3) by simp
  moreover have "snd a < length (evCurrents p)" using s(2) by (auto simp: dp_actions_def)
  ultimately show ?case using Cons.IH [OF s(1)] by (force simp: List.map_filter_def)
qed simp

lemma dp_below: "sizes_ok env p \<Longrightarrow> \<not> fle dp_inf (fst (forward env p t) s) \<Longrightarrow> \<exists>as c. length as = t \<and> follow env p as = Some (s, c)"
  using forward_inv unfolding dp_inv_def by blast

lemma forward_back:
  assumes "t < n"
  shows "snd (forward env p n) ! t = snd (dp_step env p t (fst (forward env p t)))"
  using assms
proof (induction n)
  case (Suc n)
  have l: "length (snd (forward env p n)) = n" for n by (induction n) (simp_all add: case_prod_unfold Let_def)
  show ?case using Suc by (cases "t = n") (simp_all add: case_prod_unfold Let_def nth_append l)
qed simp

text \<open>An entry of the predecessor table is missing or a transition from a state below infinity.\<close>

lemma back_cases:
  assumes "t < n"
  shows "(snd (forward env p n) ! t) d = no_node \<or>
    (\<exists>s a sc. s \<in> set (dp_states env p) \<and> a \<in> set (dp_actions env p) \<and> \<not> fle dp_inf (fst (forward env p t) s) \<and>
       transition env p t s a = Some (d, sc) \<and> (snd (forward env p n) ! t) d = node_of s a)"
  using dp_step_inv [of env p t "fst (forward env p t)", unfolded step_inv_def, THEN conjunct1, rule_format, of d]
  unfolding forward_back [OF assms] by blast

lemma follow_drop: "follow env p as = Some (s, c) \<Longrightarrow> \<exists>s' c'. follow env p (drop n as) = Some (s', c')"
proof (induction as arbitrary: s c n)
  case (Cons a as)
  then show ?case by (cases n) (auto split: option.splits)
qed simp

text \<open>Beyond the departure step no state is below infinity.\<close>

lemma nothing_after_departure:
  assumes sz: "sizes_ok env p" and d: "evDeptStep p = Some d" and un: "\<forall>j \<in> set (ev_levels_after env p d). j < evTargetIdx env p"
    and t: "d < t"
  shows "fle dp_inf (fst (forward env p t) s)"
proof (rule ccontr)
  assume "\<not> fle dp_inf (fst (forward env p t) s)"
  then obtain as c where as: "length as = t" "follow env p as = Some (s, c)" using dp_below [OF sz] by blast
  have "\<exists>s' c'. follow env p (drop (t - Suc d) as) = Some (s', c')"
    using as(2) by (rule follow_drop)
  moreover have "length (drop (t - Suc d) as) = Suc d" using as(1) t by simp
  ultimately obtain a bs s' c' where b: "length bs = d" "follow env p (a # bs) = Some (s', c')"
    by (metis length_Suc_conv)
  then obtain s2 c2 sc where f: "follow env p bs = Some (s2, c2)" "transition env p d s2 a = Some (s', sc)"
    by (auto split: option.splits if_splits)
  have "hasEV p" using d by (auto simp: evDeptStep_def split: if_splits)
  then have "evTargetIdx env p \<le> snd s2"
    using transition_limits(4) [of env p d "fst s2" "snd s2" "fst a" "snd a" s' sc] f(2) d by simp
  then show False using un follow_ev_level [OF f(1)] b(1) by auto
qed

lemma forward_fst: "fst (forward env p (Suc t)) = fst (dp_step env p t (fst (forward env p t)))"
  by (simp add: case_prod_unfold Let_def)

lemma no_node_after_departure:
  assumes sz: "sizes_ok env p" and d: "evDeptStep p = Some d" and un: "\<forall>j \<in> set (ev_levels_after env p d). j < evTargetIdx env p"
    and t: "d \<le> t" "t < n"
  shows "(snd (forward env p n) ! t) s = no_node"
proof -
  have "fle dp_inf (fst (dp_step env p t (fst (forward env p t))) s)"
    using nothing_after_departure [OF sz d un, of "Suc t" s] t(1) unfolding forward_fst by simp
  then have "\<not> flt (fst (dp_step env p t (fst (forward env p t))) s) dp_inf"
    using fle_flt_trans by (metis flt_irrefl)
  then show ?thesis
    using dp_step_inv [of env p t "fst (forward env p t)", unfolded step_inv_def, THEN conjunct1, rule_format, of s]
    unfolding forward_back [OF t(2)] by blast
qed

lemma backtrack_dead:
  assumes "\<And>k s. d \<le> k \<Longrightarrow> k < t \<Longrightarrow> (backs ! k) s = no_node" and "d \<le> t"
  shows "backtrack env p backs t s = backtrack env p backs d s @ map (\<lambda>k. interval_of env p k no_node) [d..<t]"
  using assms
proof (induction t)
  case (Suc t)
  then show ?case by (cases "d = Suc t") (auto simp: no_node_def Let_def le_Suc_eq)
qed simp

text \<open>Charging never lowers the level, and a current that keeps the initial level is zero.\<close>

definition charging_moves :: "planner_env \<Rightarrow> PlannerParams \<Rightarrow> bool" where
  "charging_moves env p \<longleftrightarrow>
     list_all (\<lambda>(j, ci). case evDest env p j ci of None \<Rightarrow> True
        | Some j' \<Rightarrow> j \<le> j' \<and> (j = iEV0 env p \<and> j' = j \<longrightarrow> evCurrents p ! ci = Fin 0))
       (List.product [0..<length (evLevels env p)] [0..<length (evCurrents p)])"

lemma charging_movesD:
  assumes "charging_moves env p" and "(i, j) \<in> set (dp_states env p)" and "(bi, ci) \<in> set (dp_actions env p)" and "evDest env p j ci = Some j'"
  shows "j \<le> j'" and "j = iEV0 env p \<Longrightarrow> j' = j \<Longrightarrow> evCurrents p ! ci = Fin 0"
  using assms by (auto simp: charging_moves_def list_all_iff dp_states_def dp_actions_def split: option.splits)

lemma follow_level_rises: "charging_moves env p \<Longrightarrow> follow env p as = Some (s, c) \<Longrightarrow> iEV0 env p \<le> snd s"
proof (induction as arbitrary: s c)
  case (Cons a as)
  obtain s' c' sc where s: "follow env p as = Some (s', c')" "a \<in> set (dp_actions env p)"
    "transition env p (length as) s' a = Some (s, sc)"
    using Cons.prems(2) by (auto split: option.splits if_splits)
  have "evDest env p (snd s') (snd a) = Some (snd s)"
    using transition_limits(6) [of env p "length as" "fst s'" "snd s'" "fst a" "snd a" s sc] s(3) by simp
  then have "snd s' \<le> snd s"
    using charging_movesD(1) [OF Cons.prems(1), of "fst s'" "snd s'" "fst a" "snd a"] follow_state [OF s(1)] s(2) by simp
  then show ?case using Cons.IH [OF Cons.prems(1) s(1)] by simp
qed auto

lemma no_node_interval [simp]: "EVMaxCurrentA (interval_of env p k no_node) = Fin 0" "is_nan (BattSetpointW (interval_of env p k no_node))"
  by (simp_all add: interval_of_def no_node_def Let_def fmax_def)

lemma backtrack_no_charge:
  assumes sz: "sizes_ok env p" and m: "charging_moves env p" and "t \<le> n" and "iv \<in> set (backtrack env p (snd (forward env p n)) t (i, iEV0 env p))"
  shows "EVMaxCurrentA iv = Fin 0"
  using assms(3,4)
proof (induction t arbitrary: i)
  case (Suc t)
  have t: "t < n" using Suc.prems(1) by simp
  let ?node = "(snd (forward env p n) ! t) (i, iEV0 env p)"
  consider "?node = no_node" | s a sc where "s \<in> set (dp_states env p)" "a \<in> set (dp_actions env p)"
      "\<not> fle dp_inf (fst (forward env p t) s)" "transition env p t s a = Some ((i, iEV0 env p), sc)" "?node = node_of s a"
    using back_cases [OF t, of env p "(i, iEV0 env p)"] by blast
  then show ?case
  proof cases
    case 1
    then have "\<not> 0 \<le> fst (node_src ?node)" by (simp add: no_node_def)
    then have "iv \<in> set (backtrack env p (snd (forward env p n)) t (i, iEV0 env p)) \<or> iv = interval_of env p t no_node"
      using Suc.prems(2) 1 by (simp only: backtrack.simps Let_def if_False set_append Un_iff list.set singleton_iff)
    then show ?thesis using Suc.IH [OF less_imp_le [OF t], of i] by (elim disjE) simp_all
  next
    case 2
    obtain i' j bi ci where sa: "s = (i', j)" "a = (bi, ci)" by (cases s, cases a)
    note st = 2 [unfolded sa]
    have e: "evDest env p j ci = Some (iEV0 env p)" using transition_limits(6) [OF st(4)] by simp
    obtain as c where "follow env p as = Some ((i', j), c)" using dp_below [OF sz st(3)] by blast
    then have "iEV0 env p \<le> j" using follow_level_rises [OF m] by fastforce
    then have j: "j = iEV0 env p" using charging_movesD(1) [OF m st(1,2) e] by simp
    have z: "evCurrents p ! ci = Fin 0" using charging_movesD(2) [OF m st(1,2) e j] j by simp
    have "node_src ?node = (int i', int j)" using node_of_src [OF sz st(1)] by (simp add: st(5))
    then have "iv \<in> set (backtrack env p (snd (forward env p n)) t (i', iEV0 env p)) \<or> iv = interval_of env p t ?node"
      using Suc.prems(2) unfolding backtrack.simps Let_def by (simp add: j disj_commute)
    moreover have "EVMaxCurrentA (interval_of env p t ?node) = Fin 0"
      using interval_node(3) [OF sz st(1,2), where t = t, OF refl] z by (simp add: st(5) fmax_def)
    ultimately show ?thesis using Suc.IH [OF less_imp_le [OF t], of i'] by (elim disjE) simp_all
  qed
qed simp

lemma scan_nothing: "(\<forall>s \<in> set xs. fle dp_inf (dp s)) \<Longrightarrow>
   fold (\<lambda>s (bestCost, best).
        if fle dp_inf (dp s) then (bestCost, best)
        else let c = terminal_cost env p s (dp s) in if flt c bestCost then (c, s) else (bestCost, best)) xs acc = acc"
  by (induction xs arbitrary: acc) auto

text \<open>
  A vehicle goal that cannot be met by its departure suspends the vehicle instead of
  charging it as far as possible. If no charge level reachable by the departure step is the target's,
  every interval of the day's plan has a current limit of 0 A, and from the departure step on the
  battery has no planned setpoint either.
\<close>

theorem unreachable_goal_suspends_ev:
  assumes "p = withDefaults p0" and "sizes_ok env p" and "charging_moves env p" and "evDeptStep p = Some d"
    and "\<forall>j \<in> set (ev_levels_after env p d). j < evTargetIdx env p"
    and "t < planSteps" and "iv = Intervals (DailyPlanner_Plan env p0) ! t"
  shows "EVMaxCurrentA iv = Fin 0 \<and> (d \<le> t \<longrightarrow> is_nan (BattSetpointW iv))"
proof -
  let ?f = "forward env p planSteps"
  have d: "d < planSteps" using assms(4) by (auto simp: evDeptStep_def Let_def split: if_splits)
  have b: "best_terminal env p (fst ?f) = (iBatt0 env p, iEV0 env p)"
    unfolding best_terminal_def using nothing_after_departure [OF assms(2,4,5) d]
    by (subst scan_nothing) simp_all
  let ?early = "backtrack env p (snd ?f) d (iBatt0 env p, iEV0 env p)"
  have i: "Intervals (DailyPlanner_Plan env p0) = ?early @ map (\<lambda>k. interval_of env p k no_node) [d..<planSteps]"
    using backtrack_dead [of d planSteps "snd ?f" env p] no_node_after_departure [OF assms(2,4,5)] d b
    by (simp add: DailyPlanner_Plan_def case_prod_unfold Let_def flip: assms(1))
  have l: "length (backtrack env p bs n s) = n" for bs n s by (induction n arbitrary: s) (simp_all add: Let_def)
  show ?thesis
  proof (cases "t < d")
    case True
    then have "iv \<in> set ?early" using assms(7) by (simp add: i nth_append l)
    then show ?thesis using backtrack_no_charge [OF assms(2,3), of d planSteps iv] d True by simp
  next
    case False
    then have "iv = interval_of env p t no_node" using assms(6,7) by (simp add: i nth_append l)
    then show ?thesis by simp
  qed
qed

section \<open>Concrete plans\<close>

text \<open>Dyadic rationals of at most 53 bits are represented exactly.\<close>

lemma fl_dyadic:
  assumes m: "\<bar>m\<bar> < 2 ^ 53" and k: "k \<le> 1000" and x: "x = of_int m / 2 ^ k"
  shows "fl x = Fin x"
proof (cases "m = 0")
  case False
  define e where "e = fexp x"
  define q where "q = max (- 1074) (e - 52)"
  have x0: "x \<noteq> 0" using False by (simp add: x)
  have p: "(2::rat) ^ k = 2 powi int k" by simp
  have ax: "\<bar>x\<bar> = of_int \<bar>m\<bar> * 2 powi (- int k)" by (simp add: x power_int_minus divide_inverse abs_mult)
  have m2: "of_int \<bar>m\<bar> < (2::rat) ^ 53" using m by (metis of_int_less_iff of_int_numeral of_int_power)
  then have lt: "\<bar>x\<bar> < 2 powi (53 - int k)"
    by (simp add: ax power_int_diff power_int_minus divide_inverse)
  have "2 powi e < (2::rat) powi (53 - int k)" using fexp_bounds [OF x0] lt by (simp add: e_def)
  then have "\<not> 53 - int k \<le> e" using power_int_increasing [of "53 - int k" e "2::rat"] by auto
  then have q: "q \<le> - int k" using k by (simp add: q_def)
  have "\<bar>x\<bar> = of_int (\<bar>m\<bar> * 2 ^ nat (- int k - q)) * 2 powi q"
  proof -
    have "(2::rat) ^ nat (- int k - q) = 2 powi (- int k - q)" using q by (simp flip: power_int_of_nat)
    then show ?thesis using ax by (simp add: power_int_diff)
  qed
  then have r: "rnd x = x" by (intro rnd_exact [where m = "\<bar>m\<bar> * 2 ^ nat (- int k - q)"]) (simp only: ulp_def q_def e_def)
  have "(1::rat) \<le> 2 ^ k" by simp
  then have "\<bar>x\<bar> \<le> of_int \<bar>m\<bar>" using divide_left_mono [of 1 "(2::rat) ^ k" "\<bar>of_int m\<bar>"] by (simp add: x)
  moreover have "(2::rat) ^ 53 < 2 ^ 1024" by (rule power_strict_increasing) simp_all
  ultimately have "\<bar>x\<bar> < 2 ^ 1024" using m2 by (meson order.strict_trans order.strict_trans1)
  then have "- x < 2 ^ 1024" "x < 2 ^ 1024" by (simp_all add: abs_less_iff)
  then show ?thesis by (simp add: fl_def r) 
qed (simp add: x)

lemma fl_dyadics:
  "fl (1 / 2) = Fin (1 / 2)" "fl (1 / 4) = Fin (1 / 4)" "fl (1 / 8) = Fin (1 / 8)" "fl (- (1 / 8)) = Fin (- (1 / 8))" "fl (- (1 / 4)) = Fin (- (1 / 4))" "fl (- (1 / 2)) = Fin (- (1 / 2))"
  using fl_dyadic [of 1 1] fl_dyadic [of 1 2] fl_dyadic [of 1 3] fl_dyadic [of "- 1" 3] fl_dyadic [of "- 1" 2] fl_dyadic [of "- 1" 1]
  by simp_all

definition hour_frac :: rat where "hour_frac = 6004799503160661 / 2 ^ 56"

lemma planStepHours_eq: "planStepHours = Fin hour_frac"
proof -
  have "\<lfloor>18014398509481984 / 3 :: rat\<rfloor> = 6004799503160661" by (simp add: floor_eq_iff)
  then have "rnd (1 / 12) = hour_frac"
    by (subst rnd_eval [of "- 4"]) (simp_all add: power_int_def power_one_over hour_frac_def rne_def Let_def)
  then show ?thesis by (simp add: planStepHours_def fl_def hour_frac_def)
qed

definition ex_env :: planner_env where
  "ex_env = \<lparr>local_hour = (\<lambda>_. 0), clock_now = 0, wide = (\<lambda>_. 0)\<rparr>"

definition ex_site :: PlannerParams where
  "ex_site = \<lparr>Now = second, WindowStart = 0, BattCapacityKwh = Fin 1, BattMaxChargeKw = Fin (1 / 2), BattMaxDischargeKw = Fin (1 / 2),
     BattEfficiency = Fin 1, InitialBattSocKwh = Fin (1 / 2), MinBattSocKwh = Fin (1 / 2), MaxBattSocKwh = Fin 1, TerminalSocKwh = Fin 0,
     EVCapacityKwh = Fin 0, EVMaxChargeKw = Fin 0, EVEfficiency = Fin 1, InitialEVSocKwh = Fin 0, EVTargetSocKwh = Fin 0,
     EVDepartureUnix = 0, EVVoltageV = Fin 250, SolarForecastKw = [], LoadForecastKw = Fin 0, LoadProfileKw = [],
     ImportPricePerKwh = [], ExportPricePerKwh = [], FallbackTOU = None, DeliveryTOU = None, FixedDailyCharge = Fin 0,
     DERConstraints = [], SOCStepKwh = Fin (1 / 2), EVStorage = False\<rparr>"

definition ex_late :: PlannerParams where
  "ex_late = ex_site\<lparr>BattCapacityKwh := Fin 0, SOCStepKwh := Fin (1 / 8), EVCapacityKwh := Fin (1 / 4), EVMaxChargeKw := Fin 1,
     EVTargetSocKwh := Fin (1 / 4), EVDepartureUnix := 300\<rparr>"

lemma ex_defaults: "withDefaults ex_site = ex_site" "withDefaults ex_late = ex_late"
  by (simp_all add: withDefaults_def ex_late_def ex_site_def zero_default_def)

lemma floors: "\<lfloor>3 / 2 :: rat\<rfloor> = 1" "\<lfloor>5 / 2 :: rat\<rfloor> = 2" "\<lfloor>1 / 2 :: rat\<rfloor> = 0"
  by (simp_all add: floor_eq_iff)

lemma ex_levels: "battLevels ex_env ex_site = [Fin (1 / 2), Fin 1]" "evLevels ex_env ex_site = [Fin 0]"
  "battPowers ex_env ex_site = [Fin (- 1 / 2), Fin 0, Fin (1 / 2)]" "evCurrents ex_site = [Fin 0]"
  by (simp_all add: battLevels_def evLevels_def battPowers_def evCurrents_def ex_site_def hasBatt_def hasEV_def discretizeLevels_def
      discretizePowers_def maxBattSoc_def level_at_def go_int_def fround_def in_int64_def fl_dyadics floors Let_def upt_rec)

lemma ex_site_sel [simp]:
  "Now ex_site = second" "WindowStart ex_site = 0" "BattCapacityKwh ex_site = Fin 1" "BattMaxChargeKw ex_site = Fin (1 / 2)"
  "BattMaxDischargeKw ex_site = Fin (1 / 2)" "BattEfficiency ex_site = Fin 1" "InitialBattSocKwh ex_site = Fin (1 / 2)"
  "MinBattSocKwh ex_site = Fin (1 / 2)" "MaxBattSocKwh ex_site = Fin 1" "TerminalSocKwh ex_site = Fin 0" "EVCapacityKwh ex_site = Fin 0"
  "EVMaxChargeKw ex_site = Fin 0" "EVEfficiency ex_site = Fin 1" "EVDepartureUnix ex_site = 0" "EVVoltageV ex_site = Fin 250"
  "SolarForecastKw ex_site = []" "LoadForecastKw ex_site = Fin 0" "LoadProfileKw ex_site = []" "ExportPricePerKwh ex_site = []"
  "DERConstraints ex_site = []"
  by (simp_all add: ex_site_def)

lemma ex_site_has [simp]: "hasBatt ex_site" "\<not> hasEV ex_site" "maxBattSoc ex_site = Fin 1"
  by (simp_all add: hasBatt_def hasEV_def maxBattSoc_def)

lemma eps_bounds: obtains e where "eps = Fin e" "0 \<le> e" "e \<le> 1 / 8"
proof -
  have b: "fle (Fin 0) eps" "fle eps (Fin (1 / 8))"
    using fl_mono [of 0 "1 / 10 ^ 6"] fl_mono [of "1 / 10 ^ 6" "1 / 8"] by (simp_all add: eps_def fl_dyadics)
  then obtain e where e: "eps = Fin e" by (cases eps) simp_all
  show ?thesis by (rule that [OF e]) (use b [unfolded e] in simp_all)
qed

lemma within_eps: "fl x = Fin x \<Longrightarrow> \<not> flt (Fin x) (fsub (Fin x) eps)" "fl y = Fin y \<Longrightarrow> x \<le> y \<Longrightarrow> \<not> flt (fadd (Fin y) eps) (Fin x)"
proof -
  obtain e where e: "eps = Fin e" "0 \<le> e" "e \<le> 1 / 8" by (rule eps_bounds)
  show "\<not> flt (fadd (Fin y) eps) (Fin x)" if "fl y = Fin y" "x \<le> y"
    using fl_mono [of y "y + e"] that e(2) fle_flt_trans [of "Fin y" "fl (y + e)" "Fin x"] unfolding e(1) by auto
  show "\<not> flt (Fin x) (fsub (Fin x) eps)" if "fl x = Fin x"
    using fl_mono [of "x - e" x] that e(2) fle_flt_trans [of "fl (x - e)" "Fin x" "fl (x - e)"] unfolding e(1)
    by (auto simp: flt_iff dest: fle_antisym)
qed

lemma not_below_eps: "0 \<le> x \<Longrightarrow> \<not> flt (Fin x) (fneg eps)"
proof -
  obtain e where e: "eps = Fin e" "0 \<le> e" "e \<le> 1 / 8" by (rule eps_bounds)
  show "0 \<le> x \<Longrightarrow> \<not> flt (Fin x) (fneg eps)" unfolding e(1) using e(2) by simp
qed

lemma ex_site_idle: "transition ex_env ex_site t (0, 0) (1, 0) = Some ((0, 0), Fin 0)"
proof -
  have s: "battSoc_after ex_env ex_site 0 1 = Fin (1 / 2)"
    by (simp add: battSoc_after_def ex_levels Let_def)
  have n: "\<not> flt (fadd (Fin 1) eps) (Fin (1 / 2))" "\<not> flt (Fin (1 / 2)) (fsub (Fin (1 / 2)) eps)"
    using within_eps(2) [of 1 "1 / 2"] within_eps(1) [of "1 / 2"] fl_dyadics(1) by simp_all
  have c: "closestIdx [Fin (1 / 2), Fin 1] (Fin (1 / 2)) = 0" by (simp add: closestIdx_def fl_dyadics Let_def)
  have b: "battDest ex_env ex_site 0 1 = Some 0"
    unfolding battDest_def s Let_def ex_levels ex_site_sel ex_site_has using n c by (simp only: ex_site_has if_True if_False simp_thms)
  have v: "evKwOf ex_site 0 = Fin 0" by (simp add: evKwOf_def ex_levels)
  then have d: "evDest ex_env ex_site 0 0 = Some 0"
    using within_eps(2) [of 0 0] not_below_eps [of 0] by (simp add: evDest_def ex_levels closestIdx_def planStepHours_eq Let_def)
  have k: "battEffKw ex_env ex_site 0 1 = Fin 0"
    by (simp add: battEffKw_def b ex_levels Let_def del: One_nat_def)
  show ?thesis
    by (simp del: One_nat_def add: transition_def b v k d evDeptStep_def planStepConstraint_def unconstrained_def fixedPwrIdx_def zeroEVIdx_def
        limits_ok_def over_def grid_kw_def planStepLoad_def planStepSolar_def step_cost_def planStepExportPrice_def planStepHours_eq ex_levels)
qed

lemma ex_site_follow: "follow ex_env ex_site (replicate n (1, 0)) = Some ((0, 0), Fin 0)"
proof (induction n)
  case 0
  show ?case by (simp add: iBatt0_def iEV0_def ex_levels closestIdx_def fl_dyadics Let_def)
next
  case (Suc n)
  have "flt (Fin 0) dp_inf" by (simp add: dp_inf_def)
  then show ?case using Suc ex_site_idle [of n] by (simp add: dp_actions_def ex_levels)
qed

lemma ex_site_ok: "sizes_ok ex_env ex_site" "admissible ex_env ex_site (replicate 288 (1, 0))"
proof -
  show "sizes_ok ex_env ex_site" by (simp add: sizes_ok_def ex_levels)
  have "\<not> flt (Fin (1 / 2)) (fsub (Fin (1 / 2)) eps)" using within_eps(1) [of "1 / 2"] fl_dyadics(1) by simp
  then have "penalised ex_env ex_site (replicate 288 (1, 0)) = Fin 0"
    unfolding penalised_def ex_site_follow by (simp add: terminal_cost_def ex_levels Let_def)
  then show "admissible ex_env ex_site (replicate 288 (1, 0))"
    unfolding admissible_def ex_site_follow by (simp add: planSteps_def dp_inf_def)
qed

theorem plan_optimal_witness:
  "\<exists>as. admissible ex_env ex_site as \<and> Intervals (DailyPlanner_Plan ex_env ex_site) = dispatched ex_env ex_site as \<and>
    fle (penalised ex_env ex_site as) (penalised ex_env ex_site (replicate 288 (1, 0)))"
  using plan_optimal [OF ex_defaults(1) [symmetric] ex_site_ok] ex_site_ok(2) by blast

theorem plan_keeps_envelope_witness:
  "\<exists>(s :: nat \<Rightarrow> nat \<times> nat) (a :: nat \<Rightarrow> nat \<times> nat). s 0 = (0, 0) \<and> battDest ex_env ex_site (fst (s 0)) (fst (a 0)) = Some (fst (s 1)) \<and>
    battDest ex_env ex_site (fst (s 1)) (fst (a 1)) = Some (fst (s 2)) \<and>
    limits_ok ex_site 1 (evKwOf ex_site (snd (a 1))) (battEffKw ex_env ex_site (fst (s 1)) (fst (a 1))) \<and>
    BattSetpointW (Intervals (DailyPlanner_Plan ex_env ex_site) ! 1) = fmul (battEffKw ex_env ex_site (fst (s 1)) (fst (a 1))) (Fin 1000)"
proof -
  have i: "iBatt0 ex_env ex_site = 0" "iEV0 ex_env ex_site = 0" "hasBatt ex_site" "0 < planSteps" "1 < planSteps"
    using ex_site_follow [of 0] ex_site_has(1) by (simp_all add: planSteps_def)
  obtain s a where s: "s 0 = (iBatt0 ex_env ex_site, iEV0 ex_env ex_site)" and
    k: "\<forall>t < planSteps. let iv = Intervals (DailyPlanner_Plan ex_env ex_site) ! t; (i, j) = s t; (bi, ci) = a t in
       battDest ex_env ex_site i bi = Some (fst (s (Suc t))) \<and>
       BattSetpointW iv = fmul (battEffKw ex_env ex_site i bi) (Fin 1000) \<and>
       limits_ok ex_site t (evKwOf ex_site ci) (battEffKw ex_env ex_site i bi)"
    using plan_keeps_envelope [OF ex_defaults(1) [symmetric] ex_site_ok] i(3) by (simp add: case_prod_unfold Let_def) blast
  have "s 0 = (0, 0)" using s i(1,2) by simp
  then show ?thesis using k [rule_format, OF i(4)] k [rule_format, OF i(5)]
    by (intro exI [of _ s] exI [of _ a]) (simp add: case_prod_unfold Let_def numeral_2_eq_2)
qed

lemma ex_late_sel [simp]:
  "WindowStart ex_late = 0" "EVCapacityKwh ex_late = Fin (1 / 4)" "EVMaxChargeKw ex_late = Fin 1" "EVEfficiency ex_late = Fin 1"
  "EVDepartureUnix ex_late = 300" "EVVoltageV ex_late = Fin 250" "InitialEVSocKwh ex_late = Fin 0"
  "EVTargetSocKwh ex_late = Fin (1 / 4)" "SOCStepKwh ex_late = Fin (1 / 8)" "\<not> EVStorage ex_late" "hasEV ex_late" "\<not> hasBatt ex_late"
  by (simp_all add: ex_late_def ex_site_def hasEV_def hasBatt_def)

lemma fl_halves [simp]: "fl (9 / 2) = Fin (9 / 2)" "fl (1 / 2) = Fin (1 / 2)" "fl (1 / 4) = Fin (1 / 4)" "fl (1 / 8) = Fin (1 / 8)"
  using fl_dyadic [of 9 1] by (simp_all add: fl_dyadics)

lemma ex_late_spaces: "battLevels ex_env ex_late = [Fin 0]" "battPowers ex_env ex_late = [Fin 0]"
  "evLevels ex_env ex_late = [Fin 0, Fin (1 / 8), Fin (1 / 4)]" "evCurrents ex_late = [Fin 0, Fin 4]"
  by (simp_all add: battLevels_def evLevels_def battPowers_def evCurrents_def discretizeLevels_def discretizeEVCurrents_def ev_standards_def
      level_at_def go_int_def fround_def in_int64_def floors Let_def upt_rec)

lemma ex_late_ev [simp]: "evKwOf ex_late 0 = Fin 0" "evKwOf ex_late (Suc 0) = Fin 1"
  by (simp_all add: evKwOf_def ex_late_spaces)

definition late_level :: rat where "late_level = 7505999378950826 / 2 ^ 55"

lemma late_arith [simp]: "fl hour_frac = Fin hour_frac" "fl (1 / 8 + hour_frac) = Fin late_level"
  "fl (1 / 8 - hour_frac) = Fin (1 / 8 - hour_frac)" "fl (1 / 4 - hour_frac) = Fin (6004799503160662 / 2 ^ 55)"
  "fl (late_level - 1 / 8) = Fin (late_level - 1 / 8)" "fl (1 / 8 - late_level) = Fin (1 / 8 - late_level)" "fl (1 / 4 - late_level) = Fin (1 / 4 - late_level)"
  "fl (- hour_frac) = Fin (- hour_frac)" "fl (- late_level) = Fin (- late_level)"
proof -
  show "fl hour_frac = Fin hour_frac" by (rule fl_dyadic [of 6004799503160661 56]) (simp_all add: hour_frac_def)
  show "fl (- hour_frac) = Fin (- hour_frac)" by (rule fl_dyadic [of "- 6004799503160661" 56]) (simp_all add: hour_frac_def)
  show "fl (1 / 8 - hour_frac) = Fin (1 / 8 - hour_frac)" by (rule fl_dyadic [of 3002399751580331 56]) (simp_all add: hour_frac_def)
  show "fl (late_level - 1 / 8) = Fin (late_level - 1 / 8)" by (rule fl_dyadic [of 3002399751580330 55]) (simp_all add: late_level_def)
  show "fl (1 / 8 - late_level) = Fin (1 / 8 - late_level)" by (rule fl_dyadic [of "- 3002399751580330" 55]) (simp_all add: late_level_def)
  show "fl (1 / 4 - late_level) = Fin (1 / 4 - late_level)" by (rule fl_dyadic [of "1501199875790166" 55]) (simp_all add: late_level_def)
  show "fl (- late_level) = Fin (- late_level)" by (rule fl_dyadic [of "- 7505999378950826" 55]) (simp_all add: late_level_def)
  have "\<lfloor>15011998757901653 / 2 :: rat\<rfloor> = 7505999378950826" "\<lfloor>12009599006321323 / 2 :: rat\<rfloor> = 6004799503160661" by (simp_all add: floor_eq_iff)
  then have "rnd (1 / 8 + hour_frac) = late_level" "rnd (1 / 4 - hour_frac) = 6004799503160662 / 2 ^ 55"
    by (subst rnd_eval [of "- 3"]; simp add: power_int_def power_one_over hour_frac_def late_level_def rne_def Let_def)+
  then show "fl (1 / 8 + hour_frac) = Fin late_level" "fl (1 / 4 - hour_frac) = Fin (6004799503160662 / 2 ^ 55)" by (simp_all add: fl_def late_level_def)
qed

lemma ex_late_closest: "closestIdx [Fin 0, Fin (1 / 8), Fin (1 / 4)] (Fin hour_frac) = 1" "closestIdx [Fin 0, Fin (1 / 8), Fin (1 / 4)] (Fin late_level) = 2"
  "closestIdx [Fin 0, Fin (1 / 8), Fin (1 / 4)] (Fin (1 / 8)) = 1" "closestIdx [Fin 0, Fin (1 / 8), Fin (1 / 4)] (Fin 0) = 0"
  "closestIdx [Fin 0, Fin (1 / 8), Fin (1 / 4)] (Fin (1 / 4)) = 2"
  by (simp_all add: closestIdx_def Let_def fl_dyadics) (simp_all add: hour_frac_def late_level_def)

lemma ex_late_hour: "0 \<le> hour_frac" "hour_frac \<le> 1 / 4" "0 \<le> late_level" "late_level \<le> 1 / 4"
  by (simp_all add: hour_frac_def late_level_def)

lemma evDest_within:
  assumes "hasEV ex_late" and "(if fle (Fin 0) (evKwOf ex_late ci) then fadd (evLevels ex_env ex_late ! j) (fmul (fmul (evKwOf ex_late ci) planStepHours) (Fin 1))
      else fadd (evLevels ex_env ex_late ! j) (fdiv (fmul (evKwOf ex_late ci) planStepHours) (Fin 1))) = Fin x" and "0 \<le> x"
  shows "evDest ex_env ex_late j ci = None \<or>
    evDest ex_env ex_late j ci = Some (closestIdx [Fin 0, Fin (1 / 8), Fin (1 / 4)] (Fin (min (1 / 4) x)))"
    and "x \<le> 1 / 4 \<Longrightarrow> evDest ex_env ex_late j ci = Some (closestIdx [Fin 0, Fin (1 / 8), Fin (1 / 4)] (Fin x))"
  unfolding evDest_def ex_late_sel assms(2) Let_def
  using not_below_eps [OF assms(3)] within_eps(2) [of "1 / 4" x] assms(3) by (auto simp: ex_late_spaces)

lemma ex_late_moves: "evDest ex_env ex_late 0 0 = Some 0" "evDest ex_env ex_late 0 1 = Some 1" "evDest ex_env ex_late 1 0 = Some 1"
  "evDest ex_env ex_late 1 1 = Some 2" "evDest ex_env ex_late 2 0 = Some 2" "evDest ex_env ex_late 2 1 = None \<or> evDest ex_env ex_late 2 1 = Some 2"
proof -
  note calc = ex_late_spaces planStepHours_eq
  show "evDest ex_env ex_late 0 0 = Some 0" by (subst evDest_within(2) [where x = 0]) (simp_all add: calc ex_late_closest)
  show "evDest ex_env ex_late 0 1 = Some 1" by (subst evDest_within(2) [where x = hour_frac]) (simp_all add: calc ex_late_closest ex_late_hour [simplified])
  show "evDest ex_env ex_late 1 0 = Some 1" by (subst evDest_within(2) [where x = "1 / 8"]) (simp_all add: calc ex_late_closest)
  show "evDest ex_env ex_late 1 1 = Some 2" by (subst evDest_within(2) [where x = late_level]) (simp_all add: calc ex_late_closest ex_late_hour [simplified])
  show "evDest ex_env ex_late 2 0 = Some 2" by (subst evDest_within(2) [where x = "1 / 4"]) (simp_all add: calc ex_late_closest)
  have "fle (Fin (1 / 4)) (fl (1 / 4 + hour_frac))" "fle (fl (1 / 4 + hour_frac)) (fl 1)" using fl_mono [of "1 / 4" "1 / 4 + hour_frac"] fl_mono [of "1 / 4 + hour_frac" 1] ex_late_hour(1,2) by simp_all
  then obtain x where x: "fl (1 / 4 + hour_frac) = Fin x" "1 / 4 \<le> x" by (cases "fl (1 / 4 + hour_frac)") simp_all
  show "evDest ex_env ex_late 2 1 = None \<or> evDest ex_env ex_late 2 1 = Some 2"
    using evDest_within(1) [of 1 2 x] x by (simp add: calc ex_late_closest min_absorb1)
qed

lemma ex_late_ok: "sizes_ok ex_env ex_late" "charging_moves ex_env ex_late" "evDeptStep ex_late = Some 1"
  "\<forall>j \<in> set (ev_levels_after ex_env ex_late 1). j < evTargetIdx ex_env ex_late"
proof -
  show "sizes_ok ex_env ex_late" by (simp add: sizes_ok_def ex_late_spaces)
  have i: "iEV0 ex_env ex_late = 0" by (simp add: iEV0_def ex_late_spaces ex_late_closest)
  show "charging_moves ex_env ex_late"
    using ex_late_moves by (auto simp: charging_moves_def ex_late_spaces i upt_rec numeral_2_eq_2)
  show "evDeptStep ex_late = Some 1" by (simp add: evDeptStep_def window_start_def planStepSec_def planSteps_def go_div_def wrap64_def)
  have "ev_levels_after ex_env ex_late 1 = [0, 1]"
    using ex_late_moves by (simp add: i ex_late_spaces upt_rec List.map_filter_simps numeral_2_eq_2)
  then show "\<forall>j \<in> set (ev_levels_after ex_env ex_late 1). j < evTargetIdx ex_env ex_late"
    by (simp add: evTargetIdx_def ex_late_spaces ex_late_closest)
qed

theorem unreachable_goal_suspends_ev_witness: "EVMaxCurrentA (Intervals (DailyPlanner_Plan ex_env ex_late) ! 0) = Fin 0"
  using unreachable_goal_suspends_ev [OF ex_defaults(2) [symmetric] ex_late_ok, of 0] by (simp add: planSteps_def)

end
