(* ===== verification/OptState.thy ===== *)
theory OptState
  imports GenLimit Planner
begin

text \<open>
  internal/orchestrator/optimizer.go, first part: the state of \<open>DefaultOptimizer\<close> (its tuning, the
  controller guards of each limit, the debounce counters and the reserve latch), the tick scaling,
  the lookups in a plan under construction, the limits in force and the site's power balance. A plan
  is built by passing it along, as the code passes the pointer; the decision trace, rendered text
  that nothing reads back, is left out. The loops of the rules update the batteries in place while
  they extend the plan: \<open>walk\<close> is that loop. The maps are total functions, a missing entry being
  \<open>False\<close> or 0 as a read of the Go map gives.
\<close>

section \<open>Loops that update a slice in place\<close>

fun walk :: "('acc \<Rightarrow> bool) \<Rightarrow> ('a \<Rightarrow> 'acc \<Rightarrow> 'a \<times> 'acc) \<Rightarrow> 'a list \<Rightarrow> 'acc \<Rightarrow> 'a list \<times> 'acc" where
  "walk stop f [] acc = ([], acc)"
| "walk stop f (x # xs) acc =
     (if stop acc then (x # xs, acc)
      else let (x', acc') = f x acc; (xs', acc'') = walk stop f xs acc' in (x' # xs', acc''))"

lemma walk_inv:
  assumes "\<And>x acc. x \<in> set xs \<Longrightarrow> P acc \<Longrightarrow> P (snd (f x acc))" and "P acc"
  shows "P (snd (walk stop f xs acc))"
  using assms
proof (induction xs arbitrary: acc)
  case (Cons x xs)
  have "P (snd (walk stop f xs (snd (f x acc))))" by (rule Cons.IH) (use Cons.prems in auto)
  then show ?case using Cons.prems(2) by (simp add: case_prod_unfold Let_def)
qed simp

lemma walk_map:
  assumes "\<And>x acc. g (fst (f x acc)) = g x"
  shows "map g (fst (walk stop f xs acc)) = map g xs"
  using assms by (induction xs arbitrary: acc) (simp_all add: case_prod_unfold Let_def)

section \<open>State\<close>

record exportGuard =
  evSetpointA :: f64
  evCmdW :: f64
  batteryAbsorbW :: f64
  exp_safeCount :: int
  exp_activeLimitW :: f64
  filteredExportW :: f64
  solarCeilingW :: f64
  battStallTicks :: int

record importGuard =
  dischargeW :: f64
  imp_safeCount :: int
  evSafeCount :: int
  imp_activeLimitW :: f64
  imp_breachTicks :: int

record genGuard =
  gen_activeLimitW :: f64
  gen_overCount :: int

record ausGenGuard =
  ausGen_activeLimitW :: f64
  ausGen_overCount :: int

record ausLoadGuard =
  ausLoad_activeLimitW :: f64
  evLimitA :: f64
  ausLoad_safeCount :: int
  ausLoad_breachTicks :: int

record DefaultOptimizer =
  CostModel :: "TOUCostModel option"
  SOCReserve :: f64
  SOCFullThreshold :: f64
  ExcessSolarThreshold :: f64
  ExportMarginFrac :: f64
  ExportRelaxCycles :: int
  ImportMarginFrac :: f64
  EVImportCooldownCycles :: int
  expGuard :: exportGuard
  expOverTicks :: int
  expZeroLeverTicks :: int
  impGuard :: importGuard
  opt_genGuard :: genGuard
  EnforceAusLimits :: bool
  opt_ausGenGuard :: ausGenGuard
  opt_ausLoadGuard :: ausLoadGuard
  battDrainTicks :: "string \<Rightarrow> int"
  battWrongDirTicks :: "string \<Rightarrow> int"
  battReserveHold :: "string \<Rightarrow> bool"
  battReserveRecoverTicks :: "string \<Rightarrow> int"
  opt_tickInterval :: duration
  lastBattCmd :: "string \<rightharpoonup> f64"
  costModelOverride :: "TOUCostModel option"

definition new_exportGuard :: "f64 \<Rightarrow> exportGuard" where
  "new_exportGuard limitW =
     \<lparr>evSetpointA = NaN, evCmdW = NaN, batteryAbsorbW = NaN, exp_safeCount = 0, exp_activeLimitW = limitW,
      filteredExportW = NaN, solarCeilingW = NaN, battStallTicks = 0\<rparr>"

definition new_importGuard :: "f64 \<Rightarrow> importGuard" where
  "new_importGuard limitW =
     \<lparr>dischargeW = NaN, imp_safeCount = 0, evSafeCount = 0, imp_activeLimitW = limitW, imp_breachTicks = 0\<rparr>"

definition new_ausLoadGuard :: "f64 \<Rightarrow> ausLoadGuard" where
  "new_ausLoadGuard limitW =
     \<lparr>ausLoad_activeLimitW = limitW, evLimitA = NaN, ausLoad_safeCount = 0, ausLoad_breachTicks = 0\<rparr>"

definition NewDefaultOptimizer :: DefaultOptimizer where
  "NewDefaultOptimizer =
     \<lparr>CostModel = None, SOCReserve = Fin 20, SOCFullThreshold = Fin 95, ExcessSolarThreshold = Fin 100,
      ExportMarginFrac = fl (20 / 100), ExportRelaxCycles = 5, ImportMarginFrac = fl (20 / 100),
      EVImportCooldownCycles = 20, expGuard = new_exportGuard NaN, expOverTicks = 0, expZeroLeverTicks = 0,
      impGuard = new_importGuard NaN, opt_genGuard = \<lparr>gen_activeLimitW = NaN, gen_overCount = 0\<rparr>,
      EnforceAusLimits = False, opt_ausGenGuard = \<lparr>ausGen_activeLimitW = NaN, ausGen_overCount = 0\<rparr>,
      opt_ausLoadGuard = new_ausLoadGuard NaN, battDrainTicks = (\<lambda>_. 0), battWrongDirTicks = (\<lambda>_. 0),
      battReserveHold = (\<lambda>_. False), battReserveRecoverTicks = (\<lambda>_. 0), opt_tickInterval = 0,
      lastBattCmd = Map.empty, costModelOverride = None\<rparr>"

definition SetTickInterval :: "duration \<Rightarrow> DefaultOptimizer \<Rightarrow> DefaultOptimizer" where
  "SetTickInterval d opt = opt\<lparr>opt_tickInterval := d\<rparr>"

definition SwapCostModel :: "TOUCostModel option \<Rightarrow> DefaultOptimizer \<Rightarrow> DefaultOptimizer" where
  "SwapCostModel m opt = opt\<lparr>costModelOverride := m\<rparr>"

definition costModel :: "DefaultOptimizer \<Rightarrow> TOUCostModel option" where
  "costModel opt = (case costModelOverride opt of Some m \<Rightarrow> Some m | None \<Rightarrow> CostModel opt)"

section \<open>Tick scaling\<close>

definition scaleTicks :: "DefaultOptimizer \<Rightarrow> int \<Rightarrow> int" where
  "scaleTicks opt ticks =
     (if opt_tickInterval opt \<le> 0 \<or> opt_tickInterval opt = tunedTickInterval then ticks
      else max 2 (go_int (\<lambda>_. 0) (fround (fdiv (dur_seconds (wrap64 (ticks * tunedTickInterval)))
                                              (dur_seconds (opt_tickInterval opt))))))"

definition scaleRateWPerTick :: "DefaultOptimizer \<Rightarrow> f64 \<Rightarrow> f64" where
  "scaleRateWPerTick opt w =
     (if opt_tickInterval opt \<le> 0 \<or> opt_tickInterval opt = tunedTickInterval then w
      else fmul (fdiv w (dur_seconds tunedTickInterval)) (dur_seconds (opt_tickInterval opt)))"

lemma scaleTicks_ScaleTicks: "scaleTicks opt n = ScaleTicks (opt_tickInterval opt) n"
  by (simp add: scaleTicks_def ScaleTicks_def scaled_ticks_def)

lemma scaleTicks_ge: "2 \<le> n \<Longrightarrow> 2 \<le> scaleTicks opt n"
  by (simp add: scaleTicks_def)

section \<open>Plans under construction\<close>

definition complianceBreachW :: f64 where "complianceBreachW = Fin 100"

definition batt_cmd :: "string \<Rightarrow> f64 \<Rightarrow> bool option \<Rightarrow> BatteryCommand" where
  "batt_cmd n w conn = \<lparr>bc_Name = n, bc_SetpointW = w, bc_Connect = conn, bc_MRID = ''''\<rparr>"

definition solar_cmd :: "string \<Rightarrow> f64 \<Rightarrow> SolarCommand" where
  "solar_cmd n w = \<lparr>sc_Name = n, sc_CurtailToW = w, sc_Connect = None, sc_MRID = ''''\<rparr>"

definition evse_cmd :: "EVSEState \<Rightarrow> f64 \<Rightarrow> EVSECommand" where
  "evse_cmd ev a =
     \<lparr>ec_StationID = es_StationID ev, ec_ConnectorID = es_ConnectorID ev, ec_MaxCurrentA = a,
      ec_SetpointW = None, ec_Connect = None, ec_MRID = ''''\<rparr>"

definition add_batt :: "BatteryCommand \<Rightarrow> Plan \<Rightarrow> Plan" where
  "add_batt c plan = plan\<lparr>BatteryCommands := BatteryCommands plan @ [c]\<rparr>"

definition add_solar :: "SolarCommand \<Rightarrow> Plan \<Rightarrow> Plan" where
  "add_solar c plan = plan\<lparr>SolarCommands := SolarCommands plan @ [c]\<rparr>"

definition add_evse :: "EVSECommand \<Rightarrow> Plan \<Rightarrow> Plan" where
  "add_evse c plan = plan\<lparr>EVSECommands := EVSECommands plan @ [c]\<rparr>"

text \<open>\<open>batteryCommandIndex\<close> and \<open>solarCommandIndex\<close> find the first command of a device. What the code
  does with the index is an update of that command (\<open>upd_first\<close>) or a read of it (\<open>find\<close>).\<close>

definition hasBatteryCommand :: "BatteryCommand list \<Rightarrow> string \<Rightarrow> bool" where
  "hasBatteryCommand cmds n \<longleftrightarrow> n \<in> set (map bc_Name cmds)"

definition hasSolarCommand :: "SolarCommand list \<Rightarrow> string \<Rightarrow> bool" where
  "hasSolarCommand cmds n \<longleftrightarrow> n \<in> set (map sc_Name cmds)"

definition evse_key :: "EVSECommand \<Rightarrow> string \<times> int" where
  "evse_key c = (ec_StationID c, ec_ConnectorID c)"

definition es_key :: "EVSEState \<Rightarrow> string \<times> int" where
  "es_key e = (es_StationID e, es_ConnectorID e)"

definition hasEVSECommand :: "EVSECommand list \<Rightarrow> EVSEState \<Rightarrow> bool" where
  "hasEVSECommand cmds ev \<longleftrightarrow> es_key ev \<in> set (map evse_key cmds)"

fun upd_first :: "('a \<Rightarrow> bool) \<Rightarrow> ('a \<Rightarrow> 'a) \<Rightarrow> 'a list \<Rightarrow> 'a list" where
  "upd_first p f [] = []"
| "upd_first p f (x # xs) = (if p x then f x # xs else x # upd_first p f xs)"

definition upd_batt :: "string \<Rightarrow> (BatteryCommand \<Rightarrow> BatteryCommand) \<Rightarrow> Plan \<Rightarrow> Plan" where
  "upd_batt n f plan = plan\<lparr>BatteryCommands := upd_first (\<lambda>c. bc_Name c = n) f (BatteryCommands plan)\<rparr>"

definition upd_solar :: "string \<Rightarrow> (SolarCommand \<Rightarrow> SolarCommand) \<Rightarrow> Plan \<Rightarrow> Plan" where
  "upd_solar n f plan = plan\<lparr>SolarCommands := upd_first (\<lambda>c. sc_Name c = n) f (SolarCommands plan)\<rparr>"

definition upd_evse :: "EVSEState \<Rightarrow> (EVSECommand \<Rightarrow> EVSECommand) \<Rightarrow> Plan \<Rightarrow> Plan" where
  "upd_evse ev f plan = plan\<lparr>EVSECommands := upd_first (\<lambda>c. evse_key c = es_key ev) f (EVSECommands plan)\<rparr>"

definition opt_recordBreach :: "ComplianceBreach \<Rightarrow> Plan \<Rightarrow> Plan" where
  "opt_recordBreach b plan =
     (case Breach plan of
        None \<Rightarrow> plan\<lparr>Breach := Some b\<rparr>
      | Some b' \<Rightarrow> if flt (br_ShortfallW b') (br_ShortfallW b) then plan\<lparr>Breach := Some b\<rparr> else plan)"

definition breach_of :: "string \<Rightarrow> f64 \<Rightarrow> f64 \<Rightarrow> string \<Rightarrow> ComplianceBreach" where
  "breach_of kind limitW measuredW reason =
     \<lparr>br_MRID = '''', br_LimitType = kind, br_LimitW = limitW, br_MeasuredW = measuredW,
      br_ShortfallW = fsub measuredW limitW, br_Reason = reason\<rparr>"

section \<open>Limits and power balance\<close>

record gridConstraints =
  gc_exportLimitW :: f64
  gc_importLimitW :: f64
  gc_maxLimitW :: f64
  gc_genLimitW :: f64
  gc_loadLimitW :: f64

definition opt_apW :: "ActivePower \<Rightarrow> f64" where
  "opt_apW ap = fmul (fl (of_int (ap_Value ap))) (pow10 (ap_Multiplier ap))"

definition opt_nanMin :: "f64 \<Rightarrow> f64 \<Rightarrow> f64" where
  "opt_nanMin a b = (if is_nan a then b else if is_nan b then a else fmin a b)"

definition csip_min :: "f64 \<Rightarrow> ActivePower option \<Rightarrow> f64" where
  "csip_min x l = (case l of None \<Rightarrow> x | Some ap \<Rightarrow> opt_nanMin x (opt_apW ap))"

definition deriveGridConstraints :: "GridState \<Rightarrow> CSIPControlState option \<Rightarrow> gridConstraints" where
  "deriveGridConstraints g cc =
     (let c = \<lparr>gc_exportLimitW = ExportLimitW g, gc_importLimitW = ImportLimitW g, gc_maxLimitW = MaxLimitW g,
               gc_genLimitW = GenLimitW g, gc_loadLimitW = LoadLimitW g\<rparr>
      in case cc of
           None \<Rightarrow> c
         | Some ctl \<Rightarrow>
             c\<lparr>gc_exportLimitW := csip_min (gc_exportLimitW c) (OpModExpLimW (cc_Base ctl)),
               gc_maxLimitW := csip_min (gc_maxLimitW c) (OpModMaxLimW (cc_Base ctl)),
               gc_importLimitW := csip_min (gc_importLimitW c) (OpModImpLimW (cc_Base ctl))\<rparr>)"

text \<open>The surplus of \<open>computePowerBalance\<close>; its three sums are \<open>TotalSolarW\<close>, \<open>TotalBatteryW\<close> and
  \<open>TotalEVSEW\<close>.\<close>

definition surplus_of :: "SystemState \<Rightarrow> f64" where
  "surplus_of st =
     (if is_nan (NetW (Grid st)) then TotalSolarW st
      else fsub (fneg (NetW (Grid st))) (TotalEVSEW st))"

definition computePowerBalance :: "SystemState \<Rightarrow> f64 \<times> f64 \<times> f64 \<times> f64" where
  "computePowerBalance st = (TotalSolarW st, TotalBatteryW st, TotalEVSEW st, surplus_of st)"

definition margin_of :: "f64 \<Rightarrow> f64" where
  "margin_of m = (if fle m (Fin 0) then fl (20 / 100) else m)"

definition conservative :: "f64 \<Rightarrow> f64 \<Rightarrow> f64" where
  "conservative limitW m = fmul limitW (fsub (Fin 1) (margin_of m))"

definition relax_cycles :: "DefaultOptimizer \<Rightarrow> int" where
  "relax_cycles opt = (if ExportRelaxCycles opt \<le> 0 then 5 else ExportRelaxCycles opt)"

definition ev_cooldown :: "DefaultOptimizer \<Rightarrow> int" where
  "ev_cooldown opt = (if EVImportCooldownCycles opt \<le> 0 then 20 else EVImportCooldownCycles opt)"

definition planExportDischargeCapW :: "DefaultOptimizer \<Rightarrow> gridConstraints \<Rightarrow> SystemState \<Rightarrow> f64" where
  "planExportDischargeCapW opt limits st =
     (if is_nan (gc_exportLimitW limits) then NaN
      else let base =
             (if is_nan (NetW (Grid st)) then Fin 0
              else fsub (fneg (NetW (Grid st)))
                     (fold (\<lambda>b t. if bs_Connected b \<and> \<not> is_nan (bs_PowerW b) then fadd t (bs_PowerW b) else t)
                        (Batteries st) (Fin 0)))
           in fmax (Fin 0) (fsub (conservative (gc_exportLimitW limits) (ExportMarginFrac opt)) base))"

section \<open>The reserve latch\<close>

definition opt_reserveReleaseMarginPct :: f64 where "opt_reserveReleaseMarginPct = Fin 2"
definition opt_reserveReleaseTicks :: int where "opt_reserveReleaseTicks = 3"

definition hold_step :: "int \<Rightarrow> BatteryState \<Rightarrow> DefaultOptimizer \<Rightarrow> DefaultOptimizer" where
  "hold_step release b opt =
     (let n = bs_Name b;
          drop = opt\<lparr>battReserveHold := (battReserveHold opt)(n := False),
                     battReserveRecoverTicks := (battReserveRecoverTicks opt)(n := 0)\<rparr>;
          reset = opt\<lparr>battReserveRecoverTicks := (battReserveRecoverTicks opt)(n := 0)\<rparr> in
      if \<not> bs_Connected b then drop
      else if is_nan (bs_SOC b) then reset
      else if fle (bs_SOC b) (SOCReserve opt) then reset\<lparr>battReserveHold := (battReserveHold opt)(n := True)\<rparr>
      else if \<not> battReserveHold opt n then opt
      else if fle (fadd (SOCReserve opt) opt_reserveReleaseMarginPct) (bs_SOC b)
      then (if release \<le> battReserveRecoverTicks opt n + 1 then drop
            else opt\<lparr>battReserveRecoverTicks := (battReserveRecoverTicks opt)(n := battReserveRecoverTicks opt n + 1)\<rparr>)
      else reset)"

definition updateReserveHolds :: "BatteryState list \<Rightarrow> DefaultOptimizer \<Rightarrow> DefaultOptimizer" where
  "updateReserveHolds bs opt =
     (let opt' = fold (hold_step (scaleTicks opt opt_reserveReleaseTicks)) bs opt;
          seen = set (map bs_Name bs)
      in opt'\<lparr>battReserveHold := (\<lambda>n. battReserveHold opt' n \<and> n \<in> seen),
              battReserveRecoverTicks :=
                (\<lambda>n. if battReserveHold opt' n \<and> n \<notin> seen then 0 else battReserveRecoverTicks opt' n)\<rparr>)"

definition dischargeBlocked :: "DefaultOptimizer \<Rightarrow> BatteryState \<Rightarrow> bool" where
  "dischargeBlocked opt b \<longleftrightarrow>
     battReserveHold opt (bs_Name b) \<or> \<not> is_nan (bs_SOC b) \<and> fle (bs_SOC b) (SOCReserve opt)"

end
