(* ===== verification/OptRules.thy ===== *)
theory OptRules
  imports OptState
begin

text \<open>
  internal/orchestrator/optimizer.go, second part: the rules of the optimizer other than the export
  limit, each in the order and with the early exits of its Go function, and the battery protection.
  A rule takes the batteries as the rules before it have left them (their powers replaced by what has
  been commanded) and the plan so far. A dash in a reason is written as two hyphens, and the numbers
  rendered into the one reason that has some are left out.
\<close>

section \<open>Rule 1: disconnect\<close>

definition csipDisconnectRule :: "CSIPControlState option \<Rightarrow> SystemState \<Rightarrow> Plan \<Rightarrow> Plan option" where
  "csipDisconnectRule cc st plan =
     (case cc of
        None \<Rightarrow> None
      | Some c \<Rightarrow>
          if OpModConnect (cc_Base c) = Some False
          then Some (plan
            \<lparr>BatteryCommands := BatteryCommands plan @ map (\<lambda>b. batt_cmd (bs_Name b) (Fin 0) (Some False)) (Batteries st),
             SolarCommands := SolarCommands plan @ map (\<lambda>s. solar_cmd (ss_Name s) (Fin 0)) (filter ss_Connected (Solar st)),
             EVSECommands := EVSECommands plan @ map (\<lambda>e. evse_cmd e (Fin 0)) (filter es_Connected (EVSEs st))\<rparr>)
          else None)"

section \<open>Rule 2: fixed dispatch\<close>

text \<open>The accumulator is the shortfall, whether the loop was left, and the plan.\<close>

definition fixed_step :: "(BatteryState \<Rightarrow> bool) \<Rightarrow> BatteryState \<Rightarrow> f64 \<times> bool \<times> Plan \<Rightarrow> BatteryState \<times> f64 \<times> bool \<times> Plan" where
  "fixed_step blk b acc =
     (let (shortfallW, left, plan) = acc; available = AvailableDischargeW b in
      if \<not> bs_Connected b \<or> \<not> bs_Energized b \<or> blk b \<or> hasBatteryCommand (BatteryCommands plan) (bs_Name b) \<or>
         flt available (Fin 50)
      then (b, acc)
      else let dispatchW = fmin available shortfallW;
               newSetpoint = fadd (bs_PowerW b) dispatchW;
               shortfallW = fsub shortfallW dispatchW
           in (b\<lparr>bs_PowerW := newSetpoint\<rparr>, shortfallW, fle shortfallW (Fin 1),
               add_batt (batt_cmd (bs_Name b) newSetpoint None) plan))"

definition applyFixedDispatchRule ::
  "CSIPControlState option \<Rightarrow> BatteryState list \<Rightarrow> f64 \<Rightarrow> f64 \<Rightarrow> (BatteryState \<Rightarrow> bool) \<Rightarrow> Plan \<Rightarrow> BatteryState list \<times> Plan" where
  "applyFixedDispatchRule cc bs solarW homeLoadW blk plan =
     (case cc of
        None \<Rightarrow> (bs, plan)
      | Some c \<Rightarrow>
          case OpModFixedW (cc_Base c) of
            None \<Rightarrow> (bs, plan)
          | Some ap \<Rightarrow>
              let targetW = opt_apW ap;
                  availableW = (if is_nan homeLoadW then solarW else fmax (Fin 0) (fsub solarW homeLoadW))
              in if fle targetW availableW then (bs, plan)
                 else let (bs', _, _, plan') =
                        walk (\<lambda>(_, left, _). left) (fixed_step blk) bs (fsub targetW availableW, False, plan)
                      in (bs', plan'))"

section \<open>Rule 2.5: the daily plan\<close>

definition plan_cap :: "BatteryState \<Rightarrow> f64" where
  "plan_cap b = (let c = fadd (bs_MaxDischargeW b) (bs_MaxChargeW b) in if fle c (Fin 0) then Fin 1 else c)"

definition plan_share :: "(BatteryState \<Rightarrow> bool) \<Rightarrow> f64 \<Rightarrow> f64 \<Rightarrow> f64 \<Rightarrow> BatteryState \<Rightarrow> f64" where
  "plan_share blk socFull setW totalCap b =
     (let share = fdiv (fmul setW (plan_cap b)) totalCap;
          share = fmax (fneg (bs_MaxChargeW b)) (fmin (bs_MaxDischargeW b) share)
      in if flt (Fin 0) share \<and> blk b then Fin 0
         else if flt share (Fin 0) \<and> \<not> is_nan (bs_SOC b) \<and> fle socFull (bs_SOC b) then Fin 0
         else share)"

definition plan_step :: "(BatteryState \<Rightarrow> bool) \<Rightarrow> f64 \<Rightarrow> f64 \<Rightarrow> f64 \<Rightarrow> BatteryState \<Rightarrow> Plan \<Rightarrow> BatteryState \<times> Plan" where
  "plan_step blk socFull setW totalCap b plan =
     (if \<not> bs_Connected b then (b, plan)
      else let share = plan_share blk socFull setW totalCap b
           in (b\<lparr>bs_PowerW := share\<rparr>, add_batt (batt_cmd (bs_Name b) share None) plan))"

definition plan_evse :: "PlanTarget \<Rightarrow> EVSEState \<Rightarrow> EVSECommand" where
  "plan_evse target ev =
     (if \<not> is_nan (pt_EVSetpointW target) \<and> flt (Fin 0) (pt_EVSetpointW target)
      then (evse_cmd ev (Fin 0))\<lparr>ec_SetpointW := Some (pt_EVSetpointW target)\<rparr>
      else evse_cmd ev (pt_EVMaxCurrentA target))"

definition applyPlanRule ::
  "PlanTarget option \<Rightarrow> BatteryState list \<Rightarrow> EVSEState list \<Rightarrow> f64 \<Rightarrow> f64 \<Rightarrow> f64 \<Rightarrow> (BatteryState \<Rightarrow> bool) \<Rightarrow> Plan \<Rightarrow>
     BatteryState list \<times> f64 \<times> bool \<times> Plan" where
  "applyPlanRule target bs evses socFull surplusW capW blk plan =
     (case target of
        None \<Rightarrow> (bs, surplusW, False, plan)
      | Some tg \<Rightarrow>
          if is_nan (pt_BattSetpointW tg) then (bs, surplusW, False, plan)
          else let setW = pt_BattSetpointW tg;
                   setW = (if flt (Fin 0) setW \<and> \<not> is_nan capW \<and> flt capW setW then capW else setW);
                   totalCap = fold (\<lambda>b t. if bs_Connected b then fadd t (plan_cap b) else t) bs (Fin 0)
               in if feq totalCap (Fin 0) then (bs, surplusW, False, plan)
                  else let (bs', plan') = walk (\<lambda>_. False) (plan_step blk socFull setW totalCap) bs plan;
                           evs = filter (\<lambda>ev. pt_EVModelled tg \<and> es_Connected ev \<and> es_SessionActive ev) evses
                       in (bs', Fin 0, True, plan'\<lparr>EVSECommands := EVSECommands plan' @ map (plan_evse tg) evs\<rparr>))"

section \<open>Rule 3.1: generation limit\<close>

definition nameplate :: "SolarState list \<Rightarrow> f64" where
  "nameplate sol = fold (\<lambda>s t. if ss_Connected s then fadd t (ss_MaxW s) else t) sol (Fin 0)"

text \<open>Keep the tighter of an earlier ceiling and this one.\<close>

definition tighten :: "f64 \<Rightarrow> SolarCommand \<Rightarrow> SolarCommand" where
  "tighten w c = (if is_nan (sc_CurtailToW c) \<or> flt w (sc_CurtailToW c) then c\<lparr>sc_CurtailToW := w\<rparr> else c)"

definition curtail :: "f64 \<Rightarrow> f64 \<Rightarrow> SolarState \<Rightarrow> Plan \<Rightarrow> Plan" where
  "curtail capW totalW s plan =
     (if \<not> ss_Connected s then plan
      else let w = fmul capW (fdiv (ss_MaxW s) totalW)
           in if hasSolarCommand (SolarCommands plan) (ss_Name s) then upd_solar (ss_Name s) (tighten w) plan
              else add_solar (solar_cmd (ss_Name s) w) plan)"

definition applyGenLimitRule :: "SolarState list \<Rightarrow> f64 \<Rightarrow> Plan \<Rightarrow> Plan" where
  "applyGenLimitRule sol maxLimitW plan =
     (if is_nan maxLimitW \<or> fle (nameplate sol) (Fin 0) then plan
      else fold (curtail maxLimitW (nameplate sol)) sol plan)"

section \<open>Convergence of measured effects\<close>

text \<open>The leaky counter of every convergence check.\<close>

definition leaky :: "int \<Rightarrow> bool \<Rightarrow> int \<Rightarrow> int" where
  "leaky threshold ov n = (if ov then (if n < threshold then n + 1 else n) else if 0 < n then n - 1 else n)"

definition exportBreachTicks :: int where "exportBreachTicks = 3"
definition genBreachTicks :: int where "genBreachTicks = 3"
definition importBreachTicks :: int where "importBreachTicks = 3"

definition checkExportLimitConvergence :: "f64 \<Rightarrow> f64 \<Rightarrow> DefaultOptimizer \<times> Plan \<Rightarrow> DefaultOptimizer \<times> Plan" where
  "checkExportLimitConvergence limitW netW op =
     (let (opt, plan) = op in
      if is_nan limitW then (opt\<lparr>expOverTicks := 0\<rparr>, plan)
      else if is_nan netW then (opt, plan)
      else let exportW = fmax (Fin 0) (fneg netW); threshold = scaleTicks opt exportBreachTicks;
               n = leaky threshold (flt (fadd limitW complianceBreachW) exportW) (expOverTicks opt)
           in (opt\<lparr>expOverTicks := n\<rparr>,
               if threshold \<le> n \<and> Breach plan = None
               then opt_recordBreach (breach_of ''export'' limitW exportW
                      (''export remains over the cap after correction was commanded'' @
                        '' -- the site is not converging to the limit'')) plan
               else plan))"

definition solar_generation :: "SolarState list \<Rightarrow> f64" where
  "solar_generation sol =
     fold (\<lambda>s t. if ss_Connected s \<and> flt (Fin 0) (ss_PowerW s) then fadd t (ss_PowerW s) else t) sol (Fin 0)"

definition pack_discharge :: "BatteryState list \<Rightarrow> f64 \<Rightarrow> f64" where
  "pack_discharge bs =
     fold (\<lambda>b t. if bs_Connected b \<and> flt (Fin 0) (bs_PowerW b) then fadd t (bs_PowerW b) else t) bs"

definition measured_gen :: "SolarState list \<Rightarrow> BatteryState list \<Rightarrow> f64 \<Rightarrow> f64" where
  "measured_gen sol bs netW =
     (let m = solar_generation sol in
      if is_nan netW then m
      else let floorW = fsub (fmax (Fin 0) (fneg netW)) (pack_discharge bs (Fin 0)) in if flt m floorW then floorW else m)"

text \<open>A cap session goes on while the cap drifts by at most 100 W.\<close>

definition new_session :: "f64 \<Rightarrow> f64 \<Rightarrow> bool" where
  "new_session limitW active \<longleftrightarrow> is_nan active \<or> flt complianceBreachW (fabs (fsub limitW active))"

definition checkGenLimitConvergence ::
  "SolarState list \<Rightarrow> BatteryState list \<Rightarrow> f64 \<Rightarrow> f64 \<Rightarrow> DefaultOptimizer \<times> Plan \<Rightarrow> DefaultOptimizer \<times> Plan" where
  "checkGenLimitConvergence sol bs netW limitW op =
     (let (opt, plan) = op in
      if is_nan limitW then (opt\<lparr>opt_genGuard := \<lparr>gen_activeLimitW = NaN, gen_overCount = 0\<rparr>\<rparr>, plan)
      else let g = opt_genGuard opt;
               n0 = (if new_session limitW (gen_activeLimitW g) then 0 else gen_overCount g);
               m = measured_gen sol bs netW; threshold = scaleTicks opt genBreachTicks;
               n = leaky threshold (flt (fadd limitW complianceBreachW) m) n0
           in (opt\<lparr>opt_genGuard := \<lparr>gen_activeLimitW = limitW, gen_overCount = n\<rparr>\<rparr>,
               if threshold \<le> n
               then opt_recordBreach (breach_of ''generation'' limitW m
                      (''inverter output remains above the generation cap after curtailment was commanded'' @
                        '' -- the device is not honouring the command'')) plan
               else plan))"

definition checkImportConvergence :: "f64 \<Rightarrow> f64 \<Rightarrow> DefaultOptimizer \<times> Plan \<Rightarrow> DefaultOptimizer \<times> Plan" where
  "checkImportConvergence limitW netW op =
     (let (opt, plan) = op in
      if is_nan limitW then (opt\<lparr>impGuard := (impGuard opt)\<lparr>imp_breachTicks := 0\<rparr>\<rparr>, plan)
      else if is_nan netW then (opt, plan)
      else let importW = fmax (Fin 0) netW; threshold = scaleTicks opt importBreachTicks;
               n = leaky threshold (flt (fadd limitW complianceBreachW) importW) (imp_breachTicks (impGuard opt))
           in (opt\<lparr>impGuard := (impGuard opt)\<lparr>imp_breachTicks := n\<rparr>\<rparr>,
               if threshold \<le> n \<and> Breach plan = None
               then opt_recordBreach (breach_of ''import'' limitW importW (''import remains over the cap after all levers'' @
                        '' -- a load is not honouring the hub's curtailment/suspend command'')) plan
               else plan))"

section \<open>Rule 3.5: import limit\<close>

definition import_session :: "f64 \<Rightarrow> f64 \<Rightarrow> DefaultOptimizer \<Rightarrow> importGuard" where
  "import_session limitW netW opt =
     (let g = impGuard opt in
      if new_session limitW (imp_activeLimitW g)
      then (new_importGuard limitW)\<lparr>evSafeCount := if \<not> is_nan netW \<and> fle (Fin 0) netW \<and> fle netW limitW then ev_cooldown opt else 0\<rparr>
      else g\<lparr>imp_activeLimitW := limitW\<rparr>)"

text \<open>Hysteresis counts, and the discharge to command with the hold after the last one.\<close>

definition import_counts :: "f64 \<Rightarrow> f64 \<Rightarrow> f64 \<Rightarrow> importGuard \<Rightarrow> importGuard" where
  "import_counts limitW netW importW g =
     g\<lparr>imp_safeCount := if fle importW limitW then imp_safeCount g + 1 else 0,
       evSafeCount := if \<not> is_nan netW \<and> fle (Fin 0) netW \<and> fle netW limitW then evSafeCount g + 1 else 0\<rparr>"

definition import_slew :: "DefaultOptimizer \<Rightarrow> f64 \<Rightarrow> importGuard \<Rightarrow> f64 \<times> importGuard" where
  "import_slew opt targetW g =
     (let prior = dischargeW g in
      if \<not> is_nan prior \<and> flt targetW prior
      then (if imp_safeCount g < relax_cycles opt then (prior, g)
            else (fmax targetW (fsub prior (Fin 250)), g\<lparr>imp_safeCount := 0\<rparr>))
      else (targetW, g))"

text \<open>Commanded charging is stopped, in the plan and in the powers the batteries carry.\<close>

definition halted :: "Plan \<Rightarrow> string set" where
  "halted plan = bc_Name ` {c \<in> set (BatteryCommands plan). flt (bc_SetpointW c) (Fin 0)}"

definition halt_charge :: "BatteryState list \<Rightarrow> Plan \<Rightarrow> BatteryState list \<times> Plan" where
  "halt_charge bs plan =
     (map (\<lambda>b. if bs_Name b \<in> halted plan then b\<lparr>bs_PowerW := Fin 0\<rparr> else b) bs,
      plan\<lparr>BatteryCommands := map (\<lambda>c. if flt (bc_SetpointW c) (Fin 0) then c\<lparr>bc_SetpointW := Fin 0\<rparr> else c) (BatteryCommands plan)\<rparr>)"

definition committed :: "Plan \<Rightarrow> f64" where
  "committed plan = fold (\<lambda>c t. if flt (Fin 0) (bc_SetpointW c) then fadd t (bc_SetpointW c) else t) (BatteryCommands plan) (Fin 0)"

definition commanded_base :: "Plan \<Rightarrow> string \<Rightarrow> f64" where
  "commanded_base plan n =
     (case command_of (BatteryCommands plan) n of
        Some c \<Rightarrow> if flt (Fin 0) (bc_SetpointW c) then bc_SetpointW c else Fin 0
      | None \<Rightarrow> Fin 0)"

text \<open>The accumulator is what is still needed, the total, and the plan.\<close>

definition import_step :: "(BatteryState \<Rightarrow> bool) \<Rightarrow> BatteryState \<Rightarrow> f64 \<times> f64 \<times> Plan \<Rightarrow> BatteryState \<times> f64 \<times> f64 \<times> Plan" where
  "import_step blk b acc =
     (let (remaining, total, plan) = acc; add = fmin (AvailableDischargeW b) remaining in
      if \<not> bs_Connected b \<or> blk b \<or> fle add (Fin 0) then (b, acc)
      else let sp = fadd (commanded_base plan (bs_Name b)) add
           in (b\<lparr>bs_PowerW := sp\<rparr>, fsub remaining add, fadd total add,
               if hasBatteryCommand (BatteryCommands plan) (bs_Name b)
               then upd_batt (bs_Name b) (\<lambda>c. c\<lparr>bc_SetpointW := sp\<rparr>) plan
               else add_batt (batt_cmd (bs_Name b) sp None) plan))"

definition batteryHeadroomReason :: "BatteryState list \<Rightarrow> f64 \<Rightarrow> string" where
  "batteryHeadroomReason bs socR =
     (let lowest = fold (\<lambda>b l. if bs_Connected b \<and> (is_nan l \<or> flt (bs_SOC b) l) then bs_SOC b else l) bs NaN
      in if \<not> is_nan lowest \<and> fle lowest socR then ''battery at SOC reserve; no discharge headroom''
         else ''battery discharge headroom exhausted (at MaxDischargeW)'')"

definition import_defend ::
  "DefaultOptimizer \<Rightarrow> f64 \<Rightarrow> f64 \<Rightarrow> f64 \<Rightarrow> BatteryState list \<Rightarrow> Plan \<Rightarrow> DefaultOptimizer \<times> BatteryState list \<times> Plan" where
  "import_defend opt limitW importW commandedW bs plan =
     (let (bs1, plan1) = halt_charge bs plan;
          c0 = committed plan1;
          (bs2, remaining, total, plan2) =
            walk (\<lambda>(remaining, _, _). flt remaining (Fin 1)) (import_step (dischargeBlocked opt)) bs1
              (fmax (Fin 0) (fsub commandedW c0), c0, plan1);
          opt' = opt\<lparr>impGuard := (impGuard opt)\<lparr>dischargeW := if flt (Fin 0) total then total else NaN\<rparr>\<rparr>
      in (opt', bs2,
          if flt limitW importW \<and> flt complianceBreachW remaining
          then opt_recordBreach (breach_of ''import'' limitW importW (batteryHeadroomReason bs2 (SOCReserve opt))) plan2
          else plan2))"

definition applyImportLimitRule ::
  "BatteryState list \<Rightarrow> f64 \<Rightarrow> f64 \<Rightarrow> DefaultOptimizer \<times> Plan \<Rightarrow> DefaultOptimizer \<times> BatteryState list \<times> Plan" where
  "applyImportLimitRule bs limitW netW op =
     (let (opt, plan) = op in
      if is_nan limitW then (opt\<lparr>impGuard := new_importGuard NaN\<rparr>, bs, plan)
      else let importW = (if is_nan netW then Fin 0 else fmax (Fin 0) netW);
               unconstrainedW = fadd importW (pack_discharge bs (Fin 0));
               g1 = import_counts limitW netW importW (import_session limitW netW opt);
               targetW = fmax (Fin 0) (fsub unconstrainedW (conservative limitW (ImportMarginFrac opt)));
               (commandedW, g2) = import_slew opt targetW g1
           in if flt commandedW (Fin 50) then (opt\<lparr>impGuard := g2\<lparr>dischargeW := NaN\<rparr>\<rparr>, bs, plan)
              else import_defend (opt\<lparr>impGuard := g2\<rparr>) limitW importW commandedW bs plan)"

section \<open>Rules 4 and 5: self-consumption and peak discharge\<close>

text \<open>The accumulator is the surplus and the plan.\<close>

definition keep_charging :: "f64 \<Rightarrow> BatteryState \<Rightarrow> f64 \<times> Plan \<Rightarrow> BatteryState \<times> f64 \<times> Plan" where
  "keep_charging absorbing b acc =
     (let (surplusW, plan) = acc in
      if flt (Fin 0) absorbing \<and> flt (Fin 0) surplusW
      then (b, fsub surplusW absorbing, add_batt (batt_cmd (bs_Name b) (bs_PowerW b) None) plan)
      else (b, acc))"

definition self_step :: "f64 \<Rightarrow> f64 \<Rightarrow> BatteryState \<Rightarrow> f64 \<times> Plan \<Rightarrow> BatteryState \<times> f64 \<times> Plan" where
  "self_step excess socFull b acc =
     (let (surplusW, plan) = acc in
      if \<not> bs_Connected b \<or> \<not> bs_Energized b \<or> hasBatteryCommand (BatteryCommands plan) (bs_Name b) \<or>
         \<not> is_nan (bs_SOC b) \<and> fle socFull (bs_SOC b)
      then (b, acc)
      else let absorbing = (if flt (bs_PowerW b) (Fin 0) then fneg (bs_PowerW b) else Fin 0);
               additional = fmax (Fin 0) (fsub surplusW absorbing)
           in if flt additional excess then keep_charging absorbing b acc
              else let absorb = fmin (AvailableChargeW b) additional
                   in if flt absorb (Fin 50) then keep_charging absorbing b acc
                      else let sp = fsub (bs_PowerW b) absorb
                           in (b\<lparr>bs_PowerW := sp\<rparr>, fsub surplusW (fadd absorb absorbing),
                               add_batt (batt_cmd (bs_Name b) sp None) plan))"

definition applySelfConsumptionRule ::
  "BatteryState list \<Rightarrow> f64 \<Rightarrow> f64 \<Rightarrow> f64 \<Rightarrow> Plan \<Rightarrow> BatteryState list \<times> f64 \<times> Plan" where
  "applySelfConsumptionRule bs surplusW excess socFull plan = walk (\<lambda>_. False) (self_step excess socFull) bs (surplusW, plan)"

text \<open>The accumulator is the surplus, what is left of the discharge cap (NaN: no cap) and the plan.\<close>

definition peak_step :: "bool \<Rightarrow> (BatteryState \<Rightarrow> bool) \<Rightarrow> BatteryState \<Rightarrow> f64 \<times> f64 \<times> Plan \<Rightarrow> BatteryState \<times> f64 \<times> f64 \<times> Plan" where
  "peak_step capped blk b acc =
     (let (surplusW, remainingW, plan) = acc in
      if \<not> bs_Connected b \<or> \<not> bs_Energized b \<or> blk b \<or> flt (AvailableDischargeW b) (Fin 50) \<or>
         capped \<and> flt remainingW (Fin 50)
      then (b, acc)
      else let sp = (if capped then fmin (bs_MaxDischargeW b) remainingW else bs_MaxDischargeW b)
           in if hasBatteryCommand (BatteryCommands plan) (bs_Name b) then (b, acc)
              else (b\<lparr>bs_PowerW := sp\<rparr>, fadd surplusW (fsub sp (bs_PowerW b)),
                    if capped then fsub remainingW sp else remainingW, add_batt (batt_cmd (bs_Name b) sp None) plan))"

definition applyDemandResponseRule ::
  "BatteryState list \<Rightarrow> f64 \<Rightarrow> bool \<Rightarrow> bool \<Rightarrow> f64 \<Rightarrow> (BatteryState \<Rightarrow> bool) \<Rightarrow> Plan \<Rightarrow> BatteryState list \<times> f64 \<times> Plan" where
  "applyDemandResponseRule bs surplusW isDR isPeak maxDischargeW blk plan =
     (if \<not> isDR \<and> \<not> isPeak then (bs, surplusW, plan)
      else let (bs', surplusW', _, plan') =
             walk (\<lambda>_. False) (peak_step (\<not> is_nan maxDischargeW) blk) bs (surplusW, maxDischargeW, plan)
           in (bs', surplusW', plan'))"

section \<open>Rule 6: vehicle charging\<close>

definition minChargeA :: f64 where "minChargeA = Fin 6"

definition ev_voltage :: "EVSEState \<Rightarrow> f64" where
  "ev_voltage ev = (if fle (es_VoltageV ev) (Fin 0) then Fin 230 else es_VoltageV ev)"

text \<open>The current of one charging point, and what it takes from the surplus.\<close>

definition solar_budget_current :: "gridConstraints \<Rightarrow> f64 \<Rightarrow> f64 \<Rightarrow> EVSEState \<Rightarrow> f64 \<times> f64" where
  "solar_budget_current limits netW surplusW ev =
     (let voltage = ev_voltage ev; minChargeW = fmul minChargeA voltage; budgetW = fmax (Fin 0) surplusW in
      if \<not> is_nan (gc_exportLimitW limits) \<and> flt (Fin 0) budgetW \<and> flt budgetW minChargeW
      then let supplementW = fsub minChargeW budgetW;
               headroom = (if \<not> is_nan (gc_importLimitW limits) \<and> \<not> is_nan netW then fsub (gc_importLimitW limits) netW else PInf)
           in (if fle supplementW headroom then minChargeA else Fin 0, surplusW)
      else let limitA = fdiv budgetW voltage
           in if flt limitA minChargeA then (Fin 0, surplusW)
              else let limitA = fmin limitA (es_MaxCurrentA ev) in (limitA, fsub surplusW (fmul limitA voltage)))"

definition ev_current :: "gridConstraints \<Rightarrow> f64 \<Rightarrow> f64 \<Rightarrow> bool \<Rightarrow> f64 \<Rightarrow> EVSEState \<Rightarrow> f64 \<times> f64" where
  "ev_current limits netW solarW suppressed surplusW ev =
     (let voltage = ev_voltage ev; exportL = gc_exportLimitW limits; importL = gc_importLimitW limits in
      if suppressed then (Fin 0, surplusW)
      else if \<not> is_nan importL \<and> \<not> is_nan netW \<and> fle importL netW then (Fin 0, surplusW)
      else if is_nan exportL \<and> is_nan importL
      then (let budgetA = fdiv (fadd surplusW (es_PowerW ev)) voltage
            in if flt (Fin 0) solarW \<and> flt budgetA (es_MaxCurrentA ev) then fmax minChargeA budgetA else es_MaxCurrentA ev, surplusW)
      else if \<not> is_nan exportL \<and> \<not> is_nan netW \<and> fle (Fin 0) netW then (es_MaxCurrentA ev, surplusW)
      else if flt (Fin 0) solarW \<and> flt surplusW (fmul (es_MaxCurrentA ev) voltage)
      then solar_budget_current limits netW surplusW ev
      else (es_MaxCurrentA ev, surplusW))"

definition charge_step :: "gridConstraints \<Rightarrow> f64 \<Rightarrow> f64 \<Rightarrow> bool \<Rightarrow> EVSEState \<Rightarrow> f64 \<times> Plan \<Rightarrow> f64 \<times> Plan" where
  "charge_step limits netW solarW suppressed ev acc =
     (let (surplusW, plan) = acc in
      if \<not> es_Connected ev \<or> \<not> es_SessionActive ev \<or> hasEVSECommand (EVSECommands plan) ev then acc
      else let (a, surplusW') = ev_current limits netW solarW suppressed surplusW ev
           in (surplusW', add_evse (evse_cmd ev a) plan))"

definition applyEVChargingRule ::
  "EVSEState list \<Rightarrow> gridConstraints \<Rightarrow> f64 \<Rightarrow> f64 \<Rightarrow> f64 \<Rightarrow> bool \<Rightarrow> Plan \<Rightarrow> Plan" where
  "applyEVChargingRule evses limits netW solarW surplusW suppressed plan =
     snd (fold (charge_step limits netW solarW suppressed) evses (surplusW, plan))"

section \<open>Restore\<close>

definition restore_solar :: "bool \<Rightarrow> SolarState \<Rightarrow> Plan \<Rightarrow> Plan" where
  "restore_solar capActive s plan =
     (if hasSolarCommand (SolarCommands plan) (ss_Name s) \<or> \<not> ss_Connected s \<and> capActive then plan
      else add_solar (solar_cmd (ss_Name s) NaN) plan)"

definition restore_battery :: "BatteryState \<Rightarrow> Plan \<Rightarrow> Plan" where
  "restore_battery b plan =
     (if bs_Connected b \<and> \<not> hasBatteryCommand (BatteryCommands plan) (bs_Name b) \<and> flt (Fin 0) (bs_MaxDischargeW b)
      then add_batt (batt_cmd (bs_Name b) (Fin 0) (Some True)) plan else plan)"

definition applyRestoreRule :: "SolarState list \<Rightarrow> BatteryState list \<Rightarrow> bool \<Rightarrow> Plan \<Rightarrow> Plan" where
  "applyRestoreRule sol bs capActive plan = fold restore_battery bs (fold (restore_solar capActive) sol plan)"

section \<open>Battery protection\<close>

definition opt_batteryReserveDrainTicks :: int where "opt_batteryReserveDrainTicks = 3"

definition opt_criticalBatteryInversion :: "f64 \<Rightarrow> f64 \<Rightarrow> f64 \<Rightarrow> bool \<Rightarrow> bool" where
  "opt_criticalBatteryInversion powerW soc socR cc \<longleftrightarrow>
     cc \<and> flt complianceBreachW powerW \<and> \<not> is_nan soc \<and> fle soc (fadd socR (Fin 5))"

definition chargeCommandedFor :: "DefaultOptimizer \<Rightarrow> string \<Rightarrow> Plan \<Rightarrow> bool" where
  "chargeCommandedFor opt n plan =
     (case command_of (BatteryCommands plan) n of
        Some c \<Rightarrow> \<not> is_nan (bc_SetpointW c) \<and> flt (bc_SetpointW c) (Fin 0)
      | None \<Rightarrow> (case lastBattCmd opt n of Some sp \<Rightarrow> flt sp (Fin 0) | None \<Rightarrow> False))"

definition force_disconnect :: "string \<Rightarrow> Plan \<Rightarrow> Plan" where
  "force_disconnect n plan =
     (if hasBatteryCommand (BatteryCommands plan) n
      then upd_batt n (\<lambda>c. c\<lparr>bc_SetpointW := Fin 0, bc_Connect := Some False\<rparr>) plan
      else add_batt (batt_cmd n (Fin 0) (Some False)) plan)"

definition safety_step :: "BatteryState \<Rightarrow> DefaultOptimizer \<times> Plan \<Rightarrow> DefaultOptimizer \<times> Plan" where
  "safety_step b op =
     (let (opt, plan) = op; n = bs_Name b in
      if \<not> bs_Connected b \<or> is_nan (bs_SOC b)
      then (opt\<lparr>battDrainTicks := (battDrainTicks opt)(n := 0), battWrongDirTicks := (battWrongDirTicks opt)(n := 0)\<rparr>, plan)
      else let atReserve = (battReserveHold opt n \<or> fle (bs_SOC b) (SOCReserve opt));
               over = flt complianceBreachW (bs_PowerW b);
               cc = chargeCommandedFor opt n plan;
               drain = (if over \<and> atReserve then battDrainTicks opt n + 1 else 0);
               wrong = (if cc \<and> over then battWrongDirTicks opt n + 1 else 0);
               threshold = scaleTicks opt opt_batteryReserveDrainTicks;
               opt' = opt\<lparr>battDrainTicks := (battDrainTicks opt)(n := drain),
                          battWrongDirTicks := (battWrongDirTicks opt)(n := wrong)\<rparr>
           in (opt', if opt_criticalBatteryInversion (bs_PowerW b) (bs_SOC b) (SOCReserve opt) cc \<or> threshold \<le> drain \<or> threshold \<le> wrong
                     then force_disconnect n plan else plan))"

definition checkBatterySafety :: "BatteryState list \<Rightarrow> DefaultOptimizer \<times> Plan \<Rightarrow> DefaultOptimizer \<times> Plan" where
  "checkBatterySafety bs op = fold safety_step bs op"

text \<open>The fast protection pass.\<close>

definition DefaultOptimizer_EvaluateSafety :: "DefaultOptimizer \<Rightarrow> SystemState \<Rightarrow> Plan" where
  "DefaultOptimizer_EvaluateSafety opt st =
     (let plan = (empty_plan (st_Timestamp st))\<lparr>Safety := True\<rparr>
      in plan\<lparr>BatteryCommands :=
           map (\<lambda>b. batt_cmd (bs_Name b) (Fin 0) (Some False))
             (filter (\<lambda>b. bs_Connected b \<and>
                opt_criticalBatteryInversion (bs_PowerW b) (bs_SOC b) (SOCReserve opt)
                  (chargeCommandedFor opt (bs_Name b) (empty_plan (st_Timestamp st)))) (Batteries st))\<rparr>)"

end
