(* ===== verification/OptLimits.thy ===== *)
theory OptLimits
  imports OptRules
begin

text \<open>
  internal/orchestrator/optimizer.go: the export-limit rule (battery, then vehicle, then the sticky
  solar ceiling), split along the sections of the Go function; and auslimits.go: the gross generation
  and gross load caps with their convergence checks.
\<close>

section \<open>Rule 3: what the export rule measures\<close>

definition signed_export :: "SolarState list \<Rightarrow> BatteryState list \<Rightarrow> f64 \<Rightarrow> f64 \<Rightarrow> f64" where
  "signed_export sol bs evseW netW =
     (if \<not> is_nan netW then fneg netW
      else fsub (fold (\<lambda>b t. fadd t (fmax (Fin 0) (bs_PowerW b))) bs (fold (\<lambda>s t. fadd t (ss_PowerW s)) sol (Fin 0))) evseW)"

definition filterAlpha :: f64 where "filterAlpha = fl (4 / 10)"

definition filtered :: "f64 \<Rightarrow> f64 \<Rightarrow> f64" where
  "filtered actualW prevW =
     (if is_nan prevW then actualW else fadd (fmul filterAlpha actualW) (fmul (fl (6 / 10)) prevW))"

definition pack_absorb :: "BatteryState list \<Rightarrow> f64" where
  "pack_absorb bs = fold (\<lambda>b t. if bs_Connected b \<and> flt (bs_PowerW b) (Fin 0) then fadd t (fneg (bs_PowerW b)) else t) bs (Fin 0)"

definition free_session :: "EVSEState list \<Rightarrow> Plan \<Rightarrow> EVSEState option" where
  "free_session evses plan =
     find (\<lambda>ev. es_Connected ev \<and> es_SessionActive ev \<and> \<not> hasEVSECommand (EVSECommands plan) ev) evses"

definition connected_solar :: "SolarState list \<Rightarrow> f64" where
  "connected_solar sol = fold (\<lambda>s t. if ss_Connected s then fadd t (ss_PowerW s) else t) sol (Fin 0)"

definition or_measured :: "f64 \<Rightarrow> f64 \<Rightarrow> f64" where
  "or_measured commanded measured = (if is_nan commanded then measured else commanded)"

definition unconstrained_export :: "SolarState list \<Rightarrow> f64 \<Rightarrow> f64 \<Rightarrow> f64 \<Rightarrow> f64" where
  "unconstrained_export sol signedW battW evW =
     (let u = fadd (fadd signedW battW) evW; t = connected_solar sol in if flt t u then t else u)"

section \<open>Rule 3: battery absorption\<close>

definition socTaperStart :: f64 where "socTaperStart = Fin 80"
definition socStepEstimate :: f64 where "socStepEstimate = Fin 1"

definition taperFactor :: "f64 \<Rightarrow> f64 \<Rightarrow> f64" where
  "taperFactor socFull soc =
     (if is_nan soc \<or> fle soc socTaperStart then Fin 1
      else if fle socFull soc \<or> fle socFull socTaperStart then Fin 0
      else fmax (Fin 0) (fdiv (fsub socFull soc) (fsub socFull socTaperStart)))"

definition ratchet :: "int \<Rightarrow> exportGuard \<Rightarrow> f64 \<Rightarrow> f64 \<Rightarrow> f64" where
  "ratchet relaxCycles g maxNow absorb =
     (if \<not> is_nan (batteryAbsorbW g) \<and> flt absorb (batteryAbsorbW g) \<and> flt absorb maxNow
      then (if exp_safeCount g < relaxCycles then fmin (batteryAbsorbW g) maxNow
            else fmin (fdiv (fadd absorb (batteryAbsorbW g)) (Fin 2)) maxNow)
      else absorb)"

text \<open>The accumulator: absorption commanded, absorption predicted for the next tick, surplus, plan.\<close>

definition absorb_step ::
  "f64 \<Rightarrow> int \<Rightarrow> exportGuard \<Rightarrow> f64 \<Rightarrow> BatteryState \<Rightarrow> f64 \<times> f64 \<times> f64 \<times> Plan \<Rightarrow> BatteryState \<times> f64 \<times> f64 \<times> f64 \<times> Plan" where
  "absorb_step socFull relaxCycles g need b acc =
     (let (total, predicted, surplusW, plan) = acc in
      if \<not> bs_Connected b \<or> hasBatteryCommand (BatteryCommands plan) (bs_Name b) \<or>
         \<not> is_nan (bs_SOC b) \<and> fle socFull (bs_SOC b) \<or> flt (bs_MaxChargeW b) (Fin 50)
      then (b, acc)
      else let maxNow = fmul (bs_MaxChargeW b) (taperFactor socFull (bs_SOC b));
               maxNext = fmul (bs_MaxChargeW b) (taperFactor socFull (fadd (bs_SOC b) socStepEstimate));
               absorb = ratchet relaxCycles g maxNow (fmin maxNow need);
               next = fmin maxNext need
           in if flt absorb (Fin 50) then (b, acc)
              else (b\<lparr>bs_PowerW := fneg absorb\<rparr>, fadd total absorb, fadd predicted next, fsub surplusW absorb,
                    add_batt (batt_cmd (bs_Name b) (fneg absorb) None) plan))"

definition battBreachTicks :: int where "battBreachTicks = 3"
definition opt_battConvergeFrac :: f64 where "opt_battConvergeFrac = fl (1 / 2)"

section \<open>Rule 3: vehicle current\<close>

definition maxTightenA :: f64 where "maxTightenA = Fin 2"
definition maxRelaxA :: f64 where "maxRelaxA = Fin 1"
definition deadbandA :: f64 where "deadbandA = fl (1 / 2)"

text \<open>The slewed current, with the count of safe ticks.\<close>

definition slew_current :: "int \<Rightarrow> exportGuard \<Rightarrow> f64 \<Rightarrow> f64 \<times> int" where
  "slew_current relaxCycles g targetA =
     (let prev = evSetpointA g; diffA = fsub targetA prev in
      if is_nan prev then (minChargeA, exp_safeCount g)
      else if flt (fabs diffA) deadbandA then (prev, exp_safeCount g)
      else if flt (Fin 0) diffA then (fadd prev (fmin diffA maxTightenA), exp_safeCount g)
      else if exp_safeCount g < relaxCycles then (prev, exp_safeCount g)
      else (fmax (fadd prev (fmax diffA (fneg maxRelaxA))) minChargeA, 0))"

definition export_ev ::
  "int \<Rightarrow> f64 \<Rightarrow> f64 \<Rightarrow> f64 \<Rightarrow> f64 \<Rightarrow> f64 \<Rightarrow> EVSEState option \<Rightarrow> exportGuard \<times> f64 \<times> Plan \<Rightarrow> exportGuard \<times> f64 \<times> Plan" where
  "export_ev relaxCycles limitW conservativeW unconstrainedW absorbW predictedW ev acc =
     (case ev of
        None \<Rightarrow> acc
      | Some e \<Rightarrow>
          let (g, surplusW, plan) = acc; voltage = ev_voltage e;
              residual = fsub (fsub unconstrainedW predictedW) conservativeW;
              targetA = fmin (fmax (fdiv residual voltage) minChargeA) (es_MaxCurrentA e);
              (newA, safe) = slew_current relaxCycles g targetA;
              predictedExportW = fsub (fsub unconstrainedW absorbW) (fmul newA voltage);
              boost = fmin (fdiv (fsub predictedExportW limitW) voltage) (fsub (es_MaxCurrentA e) newA);
              newA = (if flt limitW predictedExportW \<and> flt (Fin 0) boost then fadd newA boost else newA)
          in (g\<lparr>exp_safeCount := safe, evSetpointA := newA, evCmdW := fmul newA voltage\<rparr>,
              fsub surplusW (fmul newA voltage), add_evse (evse_cmd e newA) plan))"

section \<open>Rule 3: solar ceiling\<close>

definition ceilGain :: f64 where "ceilGain = fl (1 / 2)"

definition at_least_0 :: "f64 \<Rightarrow> f64" where "at_least_0 x = (if flt x (Fin 0) then Fin 0 else x)"

definition feedback_ceiling :: "DefaultOptimizer \<Rightarrow> f64 \<Rightarrow> f64 \<Rightarrow> f64 \<Rightarrow> f64" where
  "feedback_ceiling opt prevW totalSolarW errorW =
     (if is_nan prevW then at_least_0 (fadd totalSolarW errorW)
      else let desired = at_least_0 (fadd prevW (fmul ceilGain errorW));
               lo = fsub prevW (scaleRateWPerTick opt benchCeilingDropWPerTick);
               hi = fadd prevW (scaleRateWPerTick opt benchCeilingRiseWPerTick)
           in at_least_0 (if flt desired lo then lo else if flt hi desired then hi else desired))"

definition feed_forward :: "f64 \<Rightarrow> f64 \<Rightarrow> f64" where
  "feed_forward ffW desiredW = (if flt ffW desiredW then fmax (Fin 0) ffW else desiredW)"

definition ceiling_cmds :: "SolarState list \<Rightarrow> f64 \<Rightarrow> f64 \<Rightarrow> Plan \<Rightarrow> Plan" where
  "ceiling_cmds sol ceilingW totalW plan =
     plan\<lparr>SolarCommands := SolarCommands plan @
       map (\<lambda>s. solar_cmd (ss_Name s) (fmul ceilingW (fdiv (ss_MaxW s) totalW))) (filter ss_Connected sol)\<rparr>"

section \<open>Rule 3: export limit\<close>

definition export_session :: "f64 \<Rightarrow> exportGuard \<Rightarrow> exportGuard" where
  "export_session limitW g = (if feq limitW (exp_activeLimitW g) then g else new_exportGuard limitW)"

definition stall :: "int \<Rightarrow> f64 \<Rightarrow> f64 \<Rightarrow> int \<Rightarrow> int" where
  "stall threshold absorbW measuredW n =
     leaky threshold (flt complianceBreachW absorbW \<and> flt measuredW (fmul absorbW opt_battConvergeFrac)) n"

text \<open>What the rule works with: the guard with this tick's measurements, the export, the measured
  absorption, the export there would be with the commanded sinks idle, and the free session.\<close>

record exportView =
  xv_guard :: exportGuard
  xv_actualW :: f64
  xv_measuredW :: f64
  xv_unconstrainedW :: f64
  xv_ev :: "EVSEState option"

definition export_view ::
  "SolarState list \<Rightarrow> EVSEState list \<Rightarrow> f64 \<Rightarrow> f64 \<Rightarrow> f64 \<Rightarrow> BatteryState list \<Rightarrow> DefaultOptimizer \<Rightarrow> Plan \<Rightarrow> exportView" where
  "export_view sol evses evseW limitW netW bs opt plan =
     (let g0 = export_session limitW (expGuard opt);
          signedW = signed_export sol bs evseW netW;
          actualW = fmax (Fin 0) signedW;
          filteredW = filtered actualW (filteredExportW g0);
          g1 = g0\<lparr>filteredExportW := filteredW,
                  exp_safeCount := if fle filteredW (conservative limitW (ExportMarginFrac opt)) then exp_safeCount g0 + 1 else 0\<rparr>;
          measuredW = pack_absorb bs;
          ev = free_session evses plan;
          g2 = (if ev = None then g1\<lparr>evSetpointA := NaN, evCmdW := NaN\<rparr> else g1)
      in \<lparr>xv_guard = g2, xv_actualW = actualW, xv_measuredW = measuredW,
          xv_unconstrainedW = unconstrained_export sol signedW (or_measured (batteryAbsorbW g2) measuredW) (or_measured (evCmdW g2) evseW),
          xv_ev = ev\<rparr>)"

text \<open>The battery part: the batteries, the absorption commanded and the one predicted, the guard, the
  surplus and the plan.\<close>

definition export_battery ::
  "DefaultOptimizer \<Rightarrow> exportView \<Rightarrow> f64 \<Rightarrow> BatteryState list \<Rightarrow> f64 \<Rightarrow> Plan \<Rightarrow>
     BatteryState list \<times> f64 \<times> f64 \<times> exportGuard \<times> f64 \<times> Plan" where
  "export_battery opt v conservativeW bs surplusW plan =
     (let g = xv_guard v; measuredW = xv_measuredW v;
          (bs', absorbW, predictedW, surplusW', plan') =
            walk (\<lambda>_. False)
              (absorb_step (SOCFullThreshold opt) (relax_cycles opt) g (fmax (Fin 0) (fsub (xv_unconstrainedW v) conservativeW)))
              bs (Fin 0, Fin 0, surplusW, plan);
          threshold = scaleTicks opt battBreachTicks;
          n = stall threshold absorbW measuredW (battStallTicks g)
      in (bs', absorbW, if threshold \<le> n then measuredW else predictedW,
          g\<lparr>batteryAbsorbW := if flt (Fin 0) absorbW then absorbW else NaN, battStallTicks := n\<rparr>, surplusW', plan'))"

definition export_ceiling ::
  "DefaultOptimizer \<Rightarrow> exportView \<Rightarrow> SolarState list \<Rightarrow> f64 \<Rightarrow> f64 \<Rightarrow> f64 \<Rightarrow> f64 \<Rightarrow> exportGuard \<Rightarrow> f64" where
  "export_ceiling opt v sol evseW conservativeW absorbW predictedW g =
     (let actualW = xv_actualW v; measuredW = xv_measuredW v; totalSolarW = connected_solar sol;
          effectiveW = fsub actualW (fmax (Fin 0) (fsub absorbW measuredW));
          desired1 = feedback_ceiling opt (solarCeilingW g) totalSolarW (fsub conservativeW effectiveW);
          homeSinkW = at_least_0 (fsub (fsub (fsub totalSolarW actualW) measuredW) evseW);
          ffW = fadd (fadd (fadd homeSinkW predictedW) (or_measured (evCmdW g) (Fin 0))) conservativeW;
          desired2 = feed_forward ffW desired1
      in if flt (Fin 0) (nameplate sol) \<and> flt (nameplate sol) desired2 then nameplate sol else desired2)"

definition applyExportLimitRule ::
  "SolarState list \<Rightarrow> EVSEState list \<Rightarrow> f64 \<Rightarrow> f64 \<Rightarrow> f64 \<Rightarrow> f64 \<Rightarrow> BatteryState list \<Rightarrow> DefaultOptimizer \<times> Plan \<Rightarrow>
     DefaultOptimizer \<times> BatteryState list \<times> f64 \<times> Plan" where
  "applyExportLimitRule sol evses evseW limitW netW surplusW bs op =
     (let (opt, plan) = op in
      if is_nan limitW then (opt\<lparr>expGuard := new_exportGuard NaN, expZeroLeverTicks := 0\<rparr>, bs, surplusW, plan)
      else
        let conservativeW = conservative limitW (ExportMarginFrac opt);
            v = export_view sol evses evseW limitW netW bs opt plan;
            (bs', absorbW, predictedW, g3, surplus1, plan1) = export_battery opt v conservativeW bs surplusW plan;
            (g4, surplus2, plan2) =
              export_ev (relax_cycles opt) limitW conservativeW (xv_unconstrainedW v) absorbW predictedW (xv_ev v) (g3, surplus1, plan1);
            ceilingW = export_ceiling opt v sol evseW conservativeW absorbW predictedW g4;
            (g5, plan3) =
              (if flt (Fin 0) (nameplate sol)
               then (g4\<lparr>solarCeilingW := ceilingW\<rparr>, ceiling_cmds sol ceilingW (nameplate sol) plan2) else (g4, plan2));
            threshold = scaleTicks opt exportBreachTicks;
            z = leaky threshold (flt (fadd limitW complianceBreachW) (xv_actualW v) \<and> fle ceilingW complianceBreachW) (expZeroLeverTicks opt)
        in (opt\<lparr>expGuard := g5, expZeroLeverTicks := z\<rparr>, bs', surplus2,
            if threshold \<le> z
            then opt_recordBreach (breach_of ''export'' limitW (xv_actualW v)
                   ''generation curtailed to minimum; battery and EV cannot absorb the surplus'') plan3
            else plan3))"

section \<open>Rule 3.6: gross generation (CSIP-AUS)\<close>

text \<open>The accumulator is the remaining headroom and the batteries; the walk is over the commands.\<close>

definition trim_step :: "BatteryCommand \<Rightarrow> f64 \<times> BatteryState list \<Rightarrow> BatteryCommand \<times> f64 \<times> BatteryState list" where
  "trim_step c acc =
     (let (remaining, bs) = acc; sp = bc_SetpointW c in
      if is_nan sp \<or> fle sp (Fin 0) then (c, acc)
      else let allowed = fmin sp remaining
           in if flt allowed sp
              then (c\<lparr>bc_SetpointW := allowed\<rparr>, fsub remaining allowed,
                    map (\<lambda>b. if bs_Name b = bc_Name c then b\<lparr>bs_PowerW := allowed\<rparr> else b) bs)
              else (c, fsub remaining allowed, bs))"

definition applyAusGenerationLimitRule ::
  "SolarState list \<Rightarrow> BatteryState list \<Rightarrow> f64 \<Rightarrow> Plan \<Rightarrow> BatteryState list \<times> f64 \<times> Plan" where
  "applyAusGenerationLimitRule sol bs genLimitW plan =
     (if is_nan genLimitW then (bs, NaN, plan)
      else let capW = fmax (Fin 0) (fsub genLimitW (solar_generation sol));
               (cmds, remaining, bs') = walk (\<lambda>_. False) trim_step (BatteryCommands plan) (capW, bs);
               plan1 = plan\<lparr>BatteryCommands := cmds\<rparr>;
               committedW = fsub capW remaining;
               ceilingW = fmax (Fin 0) (fsub genLimitW committedW)
           in (bs', remaining,
               if flt (Fin 0) (nameplate sol) then fold (curtail ceilingW (nameplate sol)) sol plan1 else plan1))"

definition ausGenBreachTicks :: int where "ausGenBreachTicks = 3"
definition ausLoadBreachTicks :: int where "ausLoadBreachTicks = 3"

definition gross_measured :: "SolarState list \<Rightarrow> BatteryState list \<Rightarrow> f64 \<Rightarrow> f64" where
  "gross_measured sol bs netW =
     (let m = pack_discharge bs (solar_generation sol) in
      if \<not> is_nan netW \<and> flt m (fneg netW) then fneg netW else m)"

definition checkAusGenerationConvergence ::
  "SolarState list \<Rightarrow> BatteryState list \<Rightarrow> f64 \<Rightarrow> f64 \<Rightarrow> DefaultOptimizer \<times> Plan \<Rightarrow> DefaultOptimizer \<times> Plan" where
  "checkAusGenerationConvergence sol bs netW limitW op =
     (let (opt, plan) = op in
      if is_nan limitW then (opt\<lparr>opt_ausGenGuard := \<lparr>ausGen_activeLimitW = NaN, ausGen_overCount = 0\<rparr>\<rparr>, plan)
      else let g = opt_ausGenGuard opt;
               n0 = (if new_session limitW (ausGen_activeLimitW g) then 0 else ausGen_overCount g);
               m = gross_measured sol bs netW; threshold = scaleTicks opt ausGenBreachTicks;
               n = leaky threshold (flt (fadd limitW complianceBreachW) m) n0
           in (opt\<lparr>opt_ausGenGuard := \<lparr>ausGen_activeLimitW = limitW, ausGen_overCount = n\<rparr>\<rparr>,
               if threshold \<le> n
               then opt_recordBreach (breach_of ''generation-aus'' limitW m
                      (''gross generation (solar + battery discharge) remains above the CSIP-AUS generation cap'' @
                       '' after curtailment was commanded -- a device is not honouring the command'')) plan
               else plan))"

section \<open>Rule 3.7: gross load (CSIP-AUS)\<close>

definition gross_load_of :: "SolarState list \<Rightarrow> BatteryState list \<Rightarrow> f64 \<Rightarrow> f64" where
  "gross_load_of sol bs netW = fmax (Fin 0) (fadd (fadd (solar_generation sol) (pack_discharge bs (Fin 0))) netW)"

definition evseCommandIndex_has :: "EVSECommand list \<Rightarrow> EVSEState \<Rightarrow> bool" where
  "evseCommandIndex_has cmds ev \<longleftrightarrow> es_key ev \<in> set (map evse_key cmds)"

definition mergeAusEVLimit :: "EVSEState list \<Rightarrow> f64 \<Rightarrow> Plan \<Rightarrow> Plan" where
  "mergeAusEVLimit evses limitA plan =
     (case find (\<lambda>ev. es_Connected ev \<and> es_SessionActive ev) evses of
        None \<Rightarrow> plan
      | Some ev \<Rightarrow>
          if evseCommandIndex_has (EVSECommands plan) ev
          then upd_evse ev (\<lambda>c. if flt limitA (ec_MaxCurrentA c) then c\<lparr>ec_MaxCurrentA := limitA\<rparr> else c) plan
          else add_evse (evse_cmd ev limitA) plan)"

definition aus_charge :: "BatteryState list \<Rightarrow> f64" where
  "aus_charge bs =
     fold (\<lambda>b t. if bs_Connected b \<and> \<not> flt (Fin 0) (bs_PowerW b) then fadd t (fneg (bs_PowerW b)) else t) bs (Fin 0)"

text \<open>Shedding commanded charge; the accumulator is the remaining headroom and the charge kept.\<close>

definition shed_step :: "BatteryCommand \<Rightarrow> f64 \<times> f64 \<Rightarrow> BatteryCommand \<times> f64 \<times> f64" where
  "shed_step c acc =
     (let (remaining, kept) = acc; sp = bc_SetpointW c; charge = fneg sp in
      if is_nan sp \<or> fle (Fin 0) sp then (c, acc)
      else if fle charge (fadd remaining (Fin 1)) then (c, fsub remaining charge, fadd kept charge)
      else (c\<lparr>bc_SetpointW := Fin 0\<rparr>, acc))"

definition ausLoadEVMaxRelaxA :: f64 where "ausLoadEVMaxRelaxA = Fin 2"

definition aus_relax :: "DefaultOptimizer \<Rightarrow> f64 \<Rightarrow> ausLoadGuard \<Rightarrow> f64 \<times> ausLoadGuard" where
  "aus_relax opt targetA g =
     (let prior = evLimitA g in
      if \<not> is_nan prior \<and> flt prior targetA
      then let (newA, g') =
                 (if ausLoad_safeCount g < relax_cycles opt then (prior, g)
                  else (fmin targetA (fadd prior ausLoadEVMaxRelaxA), g\<lparr>ausLoad_safeCount := 0\<rparr>))
           in (if flt (Fin 0) newA \<and> flt newA minChargeA
               then (if fle minChargeA targetA then minChargeA else Fin 0) else newA, g')
      else (targetA, g))"

definition aus_target :: "EVSEState list \<Rightarrow> EVSEState \<Rightarrow> f64 \<Rightarrow> f64 \<Rightarrow> f64 \<Rightarrow> f64" where
  "aus_target evses ev conservativeW nonBattLoadW chargeAfterW =
     (let evMeasuredW = fold (\<lambda>e t. if es_Connected e \<and> es_SessionActive e then fadd t (es_PowerW e) else t) evses (Fin 0);
          homeW = fmax (Fin 0) (fsub nonBattLoadW evMeasuredW);
          allowance = fmax (Fin 0) (fsub (fsub conservativeW homeW) chargeAfterW);
          a = fmin (fdiv allowance (ev_voltage ev)) (es_MaxCurrentA ev)
      in if flt a minChargeA then Fin 0 else a)"

definition applyAusLoadLimitRule ::
  "SolarState list \<Rightarrow> BatteryState list \<Rightarrow> EVSEState list \<Rightarrow> f64 \<Rightarrow> f64 \<Rightarrow> DefaultOptimizer \<times> Plan \<Rightarrow> DefaultOptimizer \<times> Plan" where
  "applyAusLoadLimitRule sol bs evses limitW netW op =
     (let (opt, plan) = op in
      if is_nan limitW then (opt\<lparr>opt_ausLoadGuard := new_ausLoadGuard NaN\<rparr>, plan)
      else
        let g0 = (if new_session limitW (ausLoad_activeLimitW (opt_ausLoadGuard opt)) then new_ausLoadGuard limitW
                  else (opt_ausLoadGuard opt)\<lparr>ausLoad_activeLimitW := limitW\<rparr>)
        in if is_nan netW
           then (opt\<lparr>opt_ausLoadGuard := g0\<rparr>, if is_nan (evLimitA g0) then plan else mergeAusEVLimit evses (evLimitA g0) plan)
           else
             let grossW = gross_load_of sol bs netW;
                 g1 = g0\<lparr>ausLoad_safeCount := if fle grossW limitW then ausLoad_safeCount g0 + 1 else 0\<rparr>;
                 conservativeW = conservative limitW (ImportMarginFrac opt);
                 nonBattLoadW = fmax (Fin 0) (fsub grossW (aus_charge bs));
                 allowedW = fmax (Fin 0) (fsub conservativeW nonBattLoadW);
                 (cmds, _, keptW) = walk (\<lambda>_. False) shed_step (BatteryCommands plan) (allowedW, Fin 0);
                 plan1 = plan\<lparr>BatteryCommands := cmds\<rparr>
             in if is_nan (evLimitA g1) \<and> fle grossW limitW then (opt\<lparr>opt_ausLoadGuard := g1\<rparr>, plan1)
                else case find (\<lambda>ev. es_Connected ev \<and> es_SessionActive ev) evses of
                       None \<Rightarrow> (opt\<lparr>opt_ausLoadGuard := g1\<lparr>evLimitA := NaN\<rparr>\<rparr>, plan1)
                     | Some ev \<Rightarrow>
                         let (newA, g2) = aus_relax opt (aus_target evses ev conservativeW nonBattLoadW keptW) g1
                         in (opt\<lparr>opt_ausLoadGuard := g2\<lparr>evLimitA := newA\<rparr>\<rparr>, mergeAusEVLimit evses newA plan1))"

definition checkAusLoadConvergence ::
  "SolarState list \<Rightarrow> BatteryState list \<Rightarrow> f64 \<Rightarrow> f64 \<Rightarrow> DefaultOptimizer \<times> Plan \<Rightarrow> DefaultOptimizer \<times> Plan" where
  "checkAusLoadConvergence sol bs netW limitW op =
     (let (opt, plan) = op in
      if is_nan limitW then (opt\<lparr>opt_ausLoadGuard := (opt_ausLoadGuard opt)\<lparr>ausLoad_breachTicks := 0\<rparr>\<rparr>, plan)
      else if is_nan netW then (opt, plan)
      else let grossW = gross_load_of sol bs netW; threshold = scaleTicks opt ausLoadBreachTicks;
               n = leaky threshold (flt (fadd limitW complianceBreachW) grossW) (ausLoad_breachTicks (opt_ausLoadGuard opt))
           in (opt\<lparr>opt_ausLoadGuard := (opt_ausLoadGuard opt)\<lparr>ausLoad_breachTicks := n\<rparr>\<rparr>,
               if threshold \<le> n \<and> Breach plan = None
               then opt_recordBreach (breach_of ''load-aus'' limitW grossW
                      (''gross load remains over the CSIP-AUS load cap after charge-shed and EV curtailment'' @
                       '' -- the remaining load is not sheddable or a device is not honouring its command'')) plan
               else plan))"

end
