(* ===== verification/Optimizer.thy ===== *)
theory Optimizer
  imports OptLimits
begin

text \<open>
  internal/orchestrator/optimizer.go: \<open>Optimize\<close>, the composition of the rules, and what holds of
  its plans. The environment gives the clock, for a state without a timestamp, and the local hour of
  the server's time, for the tariff.
\<close>

section \<open>Optimize\<close>

definition server_hour :: "planner_env \<Rightarrow> gotime \<Rightarrow> SystemState \<Rightarrow> int" where
  "server_hour env now st = local_hour env (wrap64 (time_unix now + st_ClockOffset st))"

definition is_peak :: "planner_env \<Rightarrow> gotime \<Rightarrow> SystemState \<Rightarrow> DefaultOptimizer \<Rightarrow> bool" where
  "is_peak env now st opt = (case costModel opt of None \<Rightarrow> False | Some cm \<Rightarrow> IsPeakHour cm (server_hour env now st))"

text \<open>The export headroom left for a peak discharge.\<close>

definition tou_cap :: "DefaultOptimizer \<Rightarrow> gridConstraints \<Rightarrow> f64 \<Rightarrow> f64 \<Rightarrow> f64" where
  "tou_cap opt limits netW surplusW =
     (if is_nan (gc_exportLimitW limits) then NaN
      else fmax (Fin 0) (fsub (conservative (gc_exportLimitW limits) (ExportMarginFrac opt))
             (fmax (Fin 0) (if is_nan netW then surplusW else fneg netW))))"

definition ev_suppressed :: "DefaultOptimizer \<Rightarrow> gridConstraints \<Rightarrow> bool" where
  "ev_suppressed opt limits \<longleftrightarrow> \<not> is_nan (gc_importLimitW limits) \<and> evSafeCount (impGuard opt) < ev_cooldown opt"

definition solar_cap_active :: "DefaultOptimizer \<Rightarrow> gridConstraints \<Rightarrow> bool" where
  "solar_cap_active opt limits \<longleftrightarrow>
     \<not> is_nan (gc_exportLimitW limits) \<or> \<not> is_nan (gc_maxLimitW limits) \<or>
     EnforceAusLimits opt \<and> \<not> is_nan (gc_genLimitW limits)"

definition stamp_plan :: "CSIPControlState option \<Rightarrow> Plan \<Rightarrow> Plan" where
  "stamp_plan cc plan =
     (case cc of
        None \<Rightarrow> plan
      | Some c \<Rightarrow> plan
          \<lparr>Breach := map_option (\<lambda>b. b\<lparr>br_MRID := cc_MRID c\<rparr>) (Breach plan),
           BatteryCommands := map (\<lambda>x. x\<lparr>bc_MRID := cc_MRID c\<rparr>) (BatteryCommands plan),
           SolarCommands := map (\<lambda>x. x\<lparr>sc_MRID := cc_MRID c\<rparr>) (SolarCommands plan),
           EVSECommands := map (\<lambda>x. x\<lparr>ec_MRID := cc_MRID c\<rparr>) (EVSECommands plan)\<rparr>)"

definition record_cmds :: "BatteryCommand list \<Rightarrow> DefaultOptimizer \<Rightarrow> DefaultOptimizer" where
  "record_cmds cmds opt =
     fold (\<lambda>c o'. if is_nan (bc_SetpointW c) then o'
                  else o'\<lparr>lastBattCmd := (lastBattCmd o')(bc_Name c \<mapsto> bc_SetpointW c)\<rparr>) cmds opt"

text \<open>Rules 2 and 2.5: the commands the utility or the daily plan dictate. The result is the
  batteries, the surplus, whether the daily plan is followed, and the plan.\<close>

definition dictated :: "SystemState \<Rightarrow> DefaultOptimizer \<Rightarrow> Plan \<Rightarrow> BatteryState list \<times> f64 \<times> bool \<times> Plan" where
  "dictated st opt plan =
     (let limits = deriveGridConstraints (Grid st) (CSIPControl st);
          (bs1, plan1) = applyFixedDispatchRule (CSIPControl st) (Batteries st) (TotalSolarW st) (InferredLoadW st)
                           (dischargeBlocked opt) plan;
          fixed = (case CSIPControl st of None \<Rightarrow> False | Some c \<Rightarrow> OpModFixedW (cc_Base c) \<noteq> None)
      in if fixed then (bs1, surplus_of st, False, plan1)
         else applyPlanRule (DailyPlanTarget st) bs1 (EVSEs st) (SOCFullThreshold opt) (surplus_of st)
                (planExportDischargeCapW opt limits st) (dischargeBlocked opt) plan1)"

text \<open>Rules 3 to 3.6: the compliance rules with their convergence checks. The result carries the cap
  that the gross-generation rule leaves for a peak discharge.\<close>

definition compliance ::
  "SystemState \<Rightarrow> BatteryState list \<Rightarrow> f64 \<Rightarrow> DefaultOptimizer \<times> Plan \<Rightarrow> DefaultOptimizer \<times> BatteryState list \<times> f64 \<times> f64 \<times> Plan" where
  "compliance st bs surplusW op =
     (let limits = deriveGridConstraints (Grid st) (CSIPControl st); netW = NetW (Grid st);
          (opt, bs1, surplus1, plan) =
            applyExportLimitRule (Solar st) (EVSEs st) (TotalEVSEW st) (gc_exportLimitW limits) netW surplusW bs op;
          (opt, plan) = checkExportLimitConvergence (gc_exportLimitW limits) netW (opt, plan);
          plan = applyGenLimitRule (Solar st) (gc_maxLimitW limits) plan;
          (opt, plan) = checkGenLimitConvergence (Solar st) (Batteries st) netW (gc_maxLimitW limits) (opt, plan);
          (opt, bs2, plan) = applyImportLimitRule bs1 (gc_importLimitW limits) netW (opt, plan);
          (opt, plan) = checkImportConvergence (gc_importLimitW limits) netW (opt, plan)
      in if EnforceAusLimits opt
         then let (bs3, capW, plan) = applyAusGenerationLimitRule (Solar st) bs2 (gc_genLimitW limits) plan;
                  (opt, plan) = checkAusGenerationConvergence (Solar st) (Batteries st) netW (gc_genLimitW limits) (opt, plan)
              in (opt, bs3, surplus1, capW, plan)
         else (opt, bs2, surplus1, NaN, plan))"

text \<open>Rules 4 to 6, or only vehicle charging when the daily plan is followed.\<close>

definition economics ::
  "planner_env \<Rightarrow> gotime \<Rightarrow> SystemState \<Rightarrow> DefaultOptimizer \<Rightarrow> bool \<Rightarrow> f64 \<Rightarrow> f64 \<Rightarrow> f64 \<Rightarrow> BatteryState list \<Rightarrow> Plan \<Rightarrow> BatteryState list \<times> Plan" where
  "economics env now st opt followed preplanW ausCapW surplusW bs plan =
     (let limits = deriveGridConstraints (Grid st) (CSIPControl st); netW = NetW (Grid st);
          charge = applyEVChargingRule (EVSEs st) limits netW (TotalSolarW st)
      in if followed then (bs, charge preplanW (ev_suppressed opt limits) plan)
         else let (bs1, surplus1, plan1) = applySelfConsumptionRule bs surplusW (ExcessSolarThreshold opt) (SOCFullThreshold opt) plan;
                  capW = opt_nanMin (tou_cap opt limits netW surplus1) ausCapW;
                  (bs2, surplus2, plan2) =
                    applyDemandResponseRule bs1 surplus1 False (is_peak env now st opt) capW (dischargeBlocked opt) plan1
              in (bs2, charge surplus2 (ev_suppressed opt limits) plan2))"

text \<open>The load cap, the restore rule and the battery protection.\<close>

definition finishing :: "SystemState \<Rightarrow> BatteryState list \<Rightarrow> DefaultOptimizer \<times> Plan \<Rightarrow> DefaultOptimizer \<times> Plan" where
  "finishing st bs op =
     (let limits = deriveGridConstraints (Grid st) (CSIPControl st); netW = NetW (Grid st);
          (opt, plan) =
            (if EnforceAusLimits (fst op)
             then checkAusLoadConvergence (Solar st) (Batteries st) netW (gc_loadLimitW limits)
                    (applyAusLoadLimitRule (Solar st) (Batteries st) (EVSEs st) (gc_loadLimitW limits) netW op)
             else op)
      in checkBatterySafety (Batteries st) (opt, applyRestoreRule (Solar st) bs (solar_cap_active opt limits) plan))"

definition DefaultOptimizer_Optimize :: "planner_env \<Rightarrow> SystemState \<Rightarrow> DefaultOptimizer \<Rightarrow> DefaultOptimizer \<times> Plan" where
  "DefaultOptimizer_Optimize env st opt0 =
     (let now = (if is_zero_time (st_Timestamp st) then clock_now env else st_Timestamp st) in
      case csipDisconnectRule (CSIPControl st) st (empty_plan now) of
        Some plan \<Rightarrow> (opt0, plan)
      | None \<Rightarrow>
          let opt1 = updateReserveHolds (Batteries st) opt0;
              (bs1, surplus1, followed, plan1) = dictated st opt1 (empty_plan now);
              (opt2, bs2, surplus2, capW, plan2) = compliance st bs1 surplus1 (opt1, plan1);
              (bs3, plan3) = economics env now st opt2 followed (surplus_of st) capW surplus2 bs2 plan2;
              (opt3, plan4) = finishing st bs3 (opt2, plan3);
              plan5 = stamp_plan (CSIPControl st) plan4
          in (record_cmds (BatteryCommands plan5) opt3, plan5))"

end
