(* ===== verification/OptProps.thy ===== *)
theory OptProps
  imports Optimizer
begin

text \<open>
  What holds of the optimizer's plans. First how each rule touches the plan: most touch one kind of
  command, and those that add a command for a device check that there is none. Then the composition.
\<close>

section \<open>Frames\<close>

named_theorems plan_simps "what the plan updates leave alone"

lemma add_fields [simp, plan_simps]:
  "BatteryCommands (add_batt c p) = BatteryCommands p @ [c]" "SolarCommands (add_batt c p) = SolarCommands p"
  "EVSECommands (add_batt c p) = EVSECommands p" "Breach (add_batt c p) = Breach p"
  "SolarCommands (add_solar s p) = SolarCommands p @ [s]" "BatteryCommands (add_solar s p) = BatteryCommands p"
  "EVSECommands (add_solar s p) = EVSECommands p" "Breach (add_solar s p) = Breach p"
  "EVSECommands (add_evse e p) = EVSECommands p @ [e]" "BatteryCommands (add_evse e p) = BatteryCommands p"
  "SolarCommands (add_evse e p) = SolarCommands p" "Breach (add_evse e p) = Breach p"
  by (simp_all add: add_batt_def add_solar_def add_evse_def)

lemma upd_fields [simp, plan_simps]:
  "BatteryCommands (upd_batt n f p) = upd_first (\<lambda>c. bc_Name c = n) f (BatteryCommands p)"
  "SolarCommands (upd_batt n f p) = SolarCommands p" "EVSECommands (upd_batt n f p) = EVSECommands p" "Breach (upd_batt n f p) = Breach p"
  "SolarCommands (upd_solar n g p) = upd_first (\<lambda>c. sc_Name c = n) g (SolarCommands p)"
  "BatteryCommands (upd_solar n g p) = BatteryCommands p" "EVSECommands (upd_solar n g p) = EVSECommands p" "Breach (upd_solar n g p) = Breach p"
  "EVSECommands (upd_evse e h p) = upd_first (\<lambda>c. evse_key c = es_key e) h (EVSECommands p)"
  "BatteryCommands (upd_evse e h p) = BatteryCommands p" "SolarCommands (upd_evse e h p) = SolarCommands p" "Breach (upd_evse e h p) = Breach p"
  by (simp_all add: upd_batt_def upd_solar_def upd_evse_def)

lemma cmd_fields [simp]:
  "bc_Name (batt_cmd n w k) = n" "bc_SetpointW (batt_cmd n w k) = w" "bc_Connect (batt_cmd n w k) = k"
  "sc_Name (solar_cmd n w) = n" "sc_CurtailToW (solar_cmd n w) = w" "evse_key (evse_cmd e a) = es_key e"
  "ec_MaxCurrentA (evse_cmd e a) = a"
  by (simp_all add: batt_cmd_def solar_cmd_def evse_cmd_def evse_key_def es_key_def)

lemma breach_fields [simp]:
  "BatteryCommands (opt_recordBreach b p) = BatteryCommands p" "SolarCommands (opt_recordBreach b p) = SolarCommands p"
  "EVSECommands (opt_recordBreach b p) = EVSECommands p" "Breach (opt_recordBreach b p) \<noteq> None"
  by (simp_all add: opt_recordBreach_def split: option.split)

lemma upd_first_map: "(\<And>x. g (f x) = g x) \<Longrightarrow> map g (upd_first p f xs) = map g xs"
  by (induction xs) simp_all

lemma upd_first_set: "x \<in> set (upd_first p f xs) \<Longrightarrow> x \<in> set xs \<or> (\<exists>y \<in> set xs. p y \<and> x = f y)"
  by (induction xs) (auto split: if_splits)

text \<open>Plans that differ in the battery commands only.\<close>

definition batt_only :: "Plan \<Rightarrow> Plan \<Rightarrow> bool" where
  "batt_only p q \<longleftrightarrow> SolarCommands q = SolarCommands p \<and> EVSECommands q = EVSECommands p \<and> Breach q = Breach p"

lemma batt_only_refl [simp]: "batt_only p p"
  and batt_only_trans: "batt_only p q \<Longrightarrow> batt_only q r \<Longrightarrow> batt_only p r"
  and batt_only_add [simp]: "batt_only p (add_batt c q) = batt_only p q"
  and batt_only_upd [simp]: "batt_only p (upd_batt n f q) = batt_only p q"
  and batt_only_added [simp]: "batt_only (add_batt c p) q = batt_only p q"
  by (auto simp: batt_only_def)

section \<open>One command per device\<close>

definition uniq :: "Plan \<Rightarrow> bool" where
  "uniq p \<longleftrightarrow> distinct (map bc_Name (BatteryCommands p)) \<and> distinct (map sc_Name (SolarCommands p)) \<and>
     distinct (map evse_key (EVSECommands p))"

named_theorems uniq_intros "steps that keep one command per device"

lemma uniq_add [uniq_intros]:
  "uniq p \<Longrightarrow> \<not> hasBatteryCommand (BatteryCommands p) n \<Longrightarrow> uniq (add_batt (batt_cmd n w k) p)"
  "uniq p \<Longrightarrow> \<not> hasSolarCommand (SolarCommands p) n \<Longrightarrow> uniq (add_solar (solar_cmd n w) p)"
  "uniq p \<Longrightarrow> \<not> hasEVSECommand (EVSECommands p) e \<Longrightarrow> uniq (add_evse (evse_cmd e a) p)"
  by (simp_all add: uniq_def hasBatteryCommand_def hasSolarCommand_def hasEVSECommand_def)

lemma uniq_upd [uniq_intros]:
  "uniq p \<Longrightarrow> (\<And>c. bc_Name (f c) = bc_Name c) \<Longrightarrow> uniq (upd_batt n f p)"
  "uniq p \<Longrightarrow> (\<And>c. sc_Name (g c) = sc_Name c) \<Longrightarrow> uniq (upd_solar n g p)"
  "uniq p \<Longrightarrow> (\<And>c. evse_key (h c) = evse_key c) \<Longrightarrow> uniq (upd_evse e h p)"
  by (simp_all add: uniq_def upd_first_map)

lemma uniq_breach [simp]: "uniq (opt_recordBreach b p) = uniq p"
  by (simp add: uniq_def)

lemma uniq_fixed: "uniq p \<Longrightarrow> uniq (snd (applyFixedDispatchRule cc bs s h blk p))"
proof -
  assume u: "uniq p"
  have "uniq (snd (snd (snd (walk (\<lambda>(_, left, _). left) (fixed_step blk) bs (w, False, p)))))" for w
    by (rule walk_inv [where P = "\<lambda>a. uniq (snd (snd a))"])
      (auto simp: fixed_step_def Let_def u intro: uniq_intros split: prod.split)
  then show ?thesis using u by (simp add: applyFixedDispatchRule_def Let_def case_prod_unfold split: option.split)
qed

lemma plan_walk:
  "BatteryCommands (snd (walk (\<lambda>_. False) (plan_step blk f w t) bs p)) =
    BatteryCommands p @ map (\<lambda>b. batt_cmd (bs_Name b) (plan_share blk f w t b) None) (filter bs_Connected bs)"
  by (induction bs arbitrary: p) (simp_all add: plan_step_def Let_def case_prod_unfold)

lemma plan_only: "batt_only p (snd (walk (\<lambda>_. False) (plan_step blk f w t) bs p))"
  by (rule walk_inv [where P = "batt_only p"]) (simp_all add: plan_step_def Let_def)

lemma distinct_map_filter: "distinct (map f xs) \<Longrightarrow> distinct (map f (filter P xs))"
  by (induction xs) auto

lemma plan_evse_key [simp]: "evse_key (plan_evse x e) = es_key e"
  by (simp add: plan_evse_def evse_key_def evse_cmd_def es_key_def)

lemma uniq_plan_rule:
  assumes "uniq p" and "BatteryCommands p = []" and "EVSECommands p = []" and "distinct (map bs_Name bs)" and "distinct (map es_key evses)"
  shows "uniq (snd (snd (snd (applyPlanRule tg bs evses f s c blk p))))"
  using assms plan_only plan_walk
  by (auto simp: applyPlanRule_def Let_def case_prod_unfold uniq_def batt_only_def comp_def distinct_map_filter split: option.split)

lemma export_battery_plan:
  assumes "export_battery opt v c bs s p = (bs', a, d, g, s', p')"
  shows "batt_only p p'" and "uniq p \<Longrightarrow> uniq p'"
proof -
  let ?w = "walk (\<lambda>_. False) (absorb_step (SOCFullThreshold opt) (relax_cycles opt) (xv_guard v) (fmax (Fin 0) (fsub (xv_unconstrainedW v) c)))
      bs (Fin 0, Fin 0, s, p)"
  have p': "p' = snd (snd (snd (snd ?w)))" using assms by (auto simp: export_battery_def Let_def case_prod_unfold)
  show "batt_only p p'" unfolding p'
    by (rule walk_inv [where P = "\<lambda>a. batt_only p (snd (snd (snd a)))"]) (auto simp: absorb_step_def Let_def split: prod.split)
  show "uniq p \<Longrightarrow> uniq p'" unfolding p'
    by (rule walk_inv [where P = "\<lambda>a. uniq (snd (snd (snd a)))"])
      (auto simp: absorb_step_def Let_def intro: uniq_intros split: prod.split)
qed

lemma free_session_free: "free_session evses p = Some e \<Longrightarrow> \<not> hasEVSECommand (EVSECommands p) e"
  by (auto simp: free_session_def find_Some_iff)


lemma export_ev_plan:
  assumes "export_ev r l c u a d ev (g, s, p) = (g', s', p')"
  shows "BatteryCommands p' = BatteryCommands p" and "SolarCommands p' = SolarCommands p" and "Breach p' = Breach p"
    and "uniq p \<Longrightarrow> ev = None \<or> \<not> hasEVSECommand (EVSECommands p) (the ev) \<Longrightarrow> uniq p'"
  using assms by (auto simp: export_ev_def Let_def case_prod_unfold split: option.splits intro: uniq_intros)

lemma ceiling_frame [simp]: "BatteryCommands (ceiling_cmds sol w t p) = BatteryCommands p" "EVSECommands (ceiling_cmds sol w t p) = EVSECommands p"
    "Breach (ceiling_cmds sol w t p) = Breach p"
  by (simp_all add: ceiling_cmds_def)

lemma uniq_ceiling: "uniq p \<Longrightarrow> SolarCommands p = [] \<Longrightarrow> distinct (map ss_Name sol) \<Longrightarrow> uniq (ceiling_cmds sol w t p)"
  by (simp add: uniq_def ceiling_cmds_def comp_def distinct_map_filter)

text \<open>The rule as a composition of its parts.\<close>

lemma export_rule_cases:
  assumes "\<not> is_nan l"
  obtains v bs' a d g3 s1 p1 g4 s2 p2 w g5 p3 z where "v = export_view sol evses ew l n bs opt p"
    and "export_battery opt v (conservative l (ExportMarginFrac opt)) bs s p = (bs', a, d, g3, s1, p1)"
    and "export_ev (relax_cycles opt) l (conservative l (ExportMarginFrac opt)) (xv_unconstrainedW v) a d (xv_ev v) (g3, s1, p1) = (g4, s2, p2)"
    and "w = export_ceiling opt v sol ew (conservative l (ExportMarginFrac opt)) a d g4"
    and "g5 = (if flt (Fin 0) (nameplate sol) then g4\<lparr>solarCeilingW := w\<rparr> else g4)"
    and "p3 = (if flt (Fin 0) (nameplate sol) then ceiling_cmds sol w (nameplate sol) p2 else p2)"
    and "z = leaky (scaleTicks opt exportBreachTicks) (flt (fadd l complianceBreachW) (xv_actualW v) \<and> fle w complianceBreachW) (expZeroLeverTicks opt)"
    and "applyExportLimitRule sol evses ew l n s bs (opt, p) =
      (opt\<lparr>expGuard := g5, expZeroLeverTicks := z\<rparr>, bs', s2,
       if scaleTicks opt exportBreachTicks \<le> z
       then opt_recordBreach (breach_of ''export'' l (xv_actualW v) ''generation curtailed to minimum; battery and EV cannot absorb the surplus'') p3
       else p3)"
proof -
  define c where "c = conservative l (ExportMarginFrac opt)"
  define v where "v = export_view sol evses ew l n bs opt p"
  obtain bs' a d g3 s1 p1 where b: "export_battery opt v c bs s p = (bs', a, d, g3, s1, p1)" by (metis prod_cases6)
  obtain g4 s2 p2 where e: "export_ev (relax_cycles opt) l c (xv_unconstrainedW v) a d (xv_ev v) (g3, s1, p1) = (g4, s2, p2)" by (metis prod_cases3)
  show ?thesis
    by (rule that [OF v_def b [unfolded c_def] e [unfolded c_def] refl refl refl refl])
      (simp add: applyExportLimitRule_def assms b e Let_def flip: v_def c_def)
qed

lemma uniq_export:
  assumes "uniq p" and "SolarCommands p = []" and "distinct (map ss_Name sol)"
  shows "uniq (snd (snd (snd (applyExportLimitRule sol evses ew l n s bs (opt, p)))))"
proof (cases "is_nan l")
  case False
  show ?thesis
  proof (rule export_rule_cases [OF False, of sol evses ew n bs opt p s], goal_cases)
    case (1 v bs' a d g3 s1 p1 g4 s2 p2 w g5 p3 z)
    note p1 = export_battery_plan [OF 1(2)]
    have "xv_ev v = None \<or> \<not> hasEVSECommand (EVSECommands p1) (the (xv_ev v))"
      using free_session_free p1(1) 1(1) by (cases "free_session evses p") (auto simp: export_view_def Let_def batt_only_def)
    then have "uniq p2" "SolarCommands p2 = []"
      using export_ev_plan [OF 1(3)] p1 assms(1,2) by (auto simp: batt_only_def)
    then have "uniq p3" using 1(6) assms(3) by (simp add: uniq_ceiling)
    then show ?case using 1(8) by simp
  qed
qed (simp add: applyExportLimitRule_def assms(1))

lemma uniq_curtail: "uniq p \<Longrightarrow> uniq (fold (curtail w t) sol p)"
  by (rule fold_invariant_set [where P = uniq]) (auto simp: curtail_def Let_def tighten_def intro!: uniq_intros)

lemma uniq_import:
  assumes "uniq p"
  shows "uniq (snd (snd (applyImportLimitRule bs l n (opt, p))))"
proof -
  have h: "uniq (snd (halt_charge bs p))" using assms by (simp add: halt_charge_def uniq_def comp_def if_distrib cong: if_cong)
  have "uniq (snd (snd (snd (walk (\<lambda>(remaining, _, _). flt remaining (Fin 1)) (import_step blk) bs' (a, b, snd (halt_charge bs p))))))" for blk bs' a b
    by (rule walk_inv [where P = "\<lambda>a. uniq (snd (snd a))"]) (auto simp: import_step_def Let_def h intro!: uniq_intros split: prod.split)
  then show ?thesis using assms
    by (simp add: applyImportLimitRule_def import_defend_def Let_def case_prod_unfold)
qed

lemma uniq_self: "uniq p \<Longrightarrow> uniq (snd (snd (applySelfConsumptionRule bs s e f p)))"
  unfolding applySelfConsumptionRule_def
  by (rule walk_inv [where P = "\<lambda>a. uniq (snd a)"])
    (auto simp: self_step_def keep_charging_def Let_def intro!: uniq_intros split: prod.split)

lemma uniq_peak: "uniq p \<Longrightarrow> uniq (snd (snd (applyDemandResponseRule bs s d k w blk p)))"
proof -
  assume u: "uniq p"
  have "uniq (snd (snd (snd (walk (\<lambda>_. False) (peak_step c blk) bs (s, w, p)))))" for c
    by (rule walk_inv [where P = "\<lambda>a. uniq (snd (snd a))"])
      (auto simp: peak_step_def Let_def u intro!: uniq_intros split: prod.split)
  then show ?thesis using u by (simp add: applyDemandResponseRule_def Let_def case_prod_unfold)
qed

lemma uniq_charge: "uniq p \<Longrightarrow> uniq (applyEVChargingRule evses l n s w k p)"
  unfolding applyEVChargingRule_def
  by (rule fold_invariant_set [where P = "\<lambda>a. uniq (snd a)"])
    (auto simp: charge_step_def Let_def case_prod_unfold intro!: uniq_intros split: prod.split)

lemma uniq_restore: "uniq p \<Longrightarrow> uniq (applyRestoreRule sol bs k p)"
  unfolding applyRestoreRule_def
  by (intro fold_invariant_set [where P = uniq]) (auto simp: restore_solar_def restore_battery_def intro!: uniq_intros)

lemma uniq_safety: "uniq (snd op) \<Longrightarrow> uniq (snd (checkBatterySafety bs op))"
  unfolding checkBatterySafety_def
  by (rule fold_invariant_set [where P = "\<lambda>a. uniq (snd a)"])
    (auto simp: safety_step_def force_disconnect_def Let_def case_prod_unfold intro!: uniq_intros)

lemma walk_cmds_names: "(\<And>c acc. g (fst (f c acc)) = g c) \<Longrightarrow> map g (fst (walk stop f cs acc)) = map g cs"
  by (rule walk_map)

lemma trim_name [simp]: "bc_Name (fst (trim_step c acc)) = bc_Name c" "bc_Name (fst (shed_step c acc2)) = bc_Name c"
  by (simp_all add: trim_step_def shed_step_def Let_def case_prod_unfold)

lemma uniq_ausgen: "uniq p \<Longrightarrow> uniq (snd (snd (applyAusGenerationLimitRule sol bs l p)))"
proof -
  assume "uniq p"
  then have "uniq (p\<lparr>BatteryCommands := fst (walk (\<lambda>_. False) trim_step (BatteryCommands p) acc)\<rparr>)" for acc
    by (simp add: uniq_def walk_map)
  then show ?thesis using \<open>uniq p\<close> by (simp add: applyAusGenerationLimitRule_def Let_def case_prod_unfold uniq_curtail)
qed

lemma uniq_merge: "uniq p \<Longrightarrow> uniq (mergeAusEVLimit evses a p)"
  by (auto simp: mergeAusEVLimit_def evseCommandIndex_has_def hasEVSECommand_def evse_key_def intro!: uniq_intros split: option.split)

lemma uniq_ausload: "uniq p \<Longrightarrow> uniq (snd (applyAusLoadLimitRule sol bs evses l n (opt, p)))"
proof -
  assume "uniq p"
  then have "uniq (p\<lparr>BatteryCommands := fst (walk (\<lambda>_. False) shed_step (BatteryCommands p) acc)\<rparr>)" for acc
    by (simp add: uniq_def walk_map)
  then show ?thesis using \<open>uniq p\<close>
    by (simp add: applyAusLoadLimitRule_def Let_def case_prod_unfold uniq_merge split: option.split)
qed

lemma uniq_checks:
  "uniq (snd (checkExportLimitConvergence l n op)) = uniq (snd op)"
  "uniq (snd (checkGenLimitConvergence sol bs n l op)) = uniq (snd op)"
  "uniq (snd (checkImportConvergence l n op)) = uniq (snd op)"
  "uniq (snd (checkAusGenerationConvergence sol bs n l op)) = uniq (snd op)"
  "uniq (snd (checkAusLoadConvergence sol bs n l op)) = uniq (snd op)"
  by (simp_all add: checkExportLimitConvergence_def checkGenLimitConvergence_def checkImportConvergence_def
      checkAusGenerationConvergence_def checkAusLoadConvergence_def Let_def case_prod_unfold)

lemma uniq_stamp [simp]: "uniq (stamp_plan cc p) = uniq p"
  by (simp add: stamp_plan_def uniq_def comp_def evse_key_def [abs_def] split: option.split)

section \<open>The composition\<close>

text \<open>Each stage as the sequence of its rules, so that a proof names what it needs.\<close>

definition limits_of :: "SystemState \<Rightarrow> gridConstraints" where
  "limits_of st = deriveGridConstraints (Grid st) (CSIPControl st)"

lemma compliance_cases:
  assumes "compliance st bs s (opt, p) = (opt', bs', s', capW, p')"
  obtains o1 b1 s1 p1 o2 p2 p3 o4 p4 o5 b5 p5 o6 p6 b7 p7 o8 p8
  where "applyExportLimitRule (Solar st) (EVSEs st) (TotalEVSEW st) (gc_exportLimitW (limits_of st)) (NetW (Grid st)) s bs (opt, p) = (o1, b1, s1, p1)"
    and "checkExportLimitConvergence (gc_exportLimitW (limits_of st)) (NetW (Grid st)) (o1, p1) = (o2, p2)"
    and "p3 = applyGenLimitRule (Solar st) (gc_maxLimitW (limits_of st)) p2"
    and "checkGenLimitConvergence (Solar st) (Batteries st) (NetW (Grid st)) (gc_maxLimitW (limits_of st)) (o2, p3) = (o4, p4)"
    and "applyImportLimitRule b1 (gc_importLimitW (limits_of st)) (NetW (Grid st)) (o4, p4) = (o5, b5, p5)"
    and "checkImportConvergence (gc_importLimitW (limits_of st)) (NetW (Grid st)) (o5, p5) = (o6, p6)"
    and "EnforceAusLimits o6 \<Longrightarrow> applyAusGenerationLimitRule (Solar st) b5 (gc_genLimitW (limits_of st)) p6 = (b7, capW, p7)"
    and "EnforceAusLimits o6 \<Longrightarrow> checkAusGenerationConvergence (Solar st) (Batteries st) (NetW (Grid st)) (gc_genLimitW (limits_of st)) (o6, p7) = (o8, p8)"
    and "(opt', bs', s', p') = (if EnforceAusLimits o6 then (o8, b7, s1, p8) else (o6, b5, s1, p6))"
    and "EnforceAusLimits o6 \<or> capW = NaN"
proof -
  let ?L = "limits_of st" and ?n = "NetW (Grid st)"
  obtain o1 b1 s1 p1 where r1: "applyExportLimitRule (Solar st) (EVSEs st) (TotalEVSEW st) (gc_exportLimitW ?L) ?n s bs (opt, p) = (o1, b1, s1, p1)"
    by (metis prod_cases4)
  obtain o2 p2 where r2: "checkExportLimitConvergence (gc_exportLimitW ?L) ?n (o1, p1) = (o2, p2)" by fastforce
  define p3 where "p3 = applyGenLimitRule (Solar st) (gc_maxLimitW ?L) p2"
  obtain o4 p4 where r4: "checkGenLimitConvergence (Solar st) (Batteries st) ?n (gc_maxLimitW ?L) (o2, p3) = (o4, p4)" by fastforce
  obtain o5 b5 p5 where r5: "applyImportLimitRule b1 (gc_importLimitW ?L) ?n (o4, p4) = (o5, b5, p5)" by (metis prod_cases3)
  obtain o6 p6 where r6: "checkImportConvergence (gc_importLimitW ?L) ?n (o5, p5) = (o6, p6)" by fastforce
  obtain b7 c7 p7 where r7: "applyAusGenerationLimitRule (Solar st) b5 (gc_genLimitW ?L) p6 = (b7, c7, p7)" by (metis prod_cases3)
  obtain o8 p8 where r8: "checkAusGenerationConvergence (Solar st) (Batteries st) ?n (gc_genLimitW ?L) (o6, p7) = (o8, p8)" by fastforce
  note r = r1 r2 p3_def [symmetric] r4 r5 r6 r7 r8
  have e: "compliance st bs s (opt, p) = (if EnforceAusLimits o6 then (o8, b7, s1, c7, p8) else (o6, b5, s1, NaN, p6))"
    by (simp add: compliance_def Let_def r [unfolded limits_of_def])
  show ?thesis by (rule that [OF r1 r2 p3_def r4 r5 r6 _ r8]) (use assms e r7 in \<open>auto split: if_splits\<close>)
qed

lemma economics_cases:
  assumes "economics env now st opt followed w c s bs p = (bs', p')"
  obtains (follow) "followed" "bs' = bs" "p' = applyEVChargingRule (EVSEs st) (limits_of st) (NetW (Grid st)) (TotalSolarW st) w (ev_suppressed opt (limits_of st)) p"
  | (react) b1 s1 p1 s2 p2 capW where "\<not> followed"
    and "applySelfConsumptionRule bs s (ExcessSolarThreshold opt) (SOCFullThreshold opt) p = (b1, s1, p1)"
    and "capW = opt_nanMin (tou_cap opt (limits_of st) (NetW (Grid st)) s1) c"
    and "applyDemandResponseRule b1 s1 False (is_peak env now st opt) capW (dischargeBlocked opt) p1 = (bs', s2, p2)"
    and "p' = applyEVChargingRule (EVSEs st) (limits_of st) (NetW (Grid st)) (TotalSolarW st) s2 (ev_suppressed opt (limits_of st)) p2"
proof (cases followed)
  case True
  then show ?thesis using assms by (intro follow) (auto simp: economics_def limits_of_def Let_def)
next
  case False
  obtain b1 s1 p1 where r1: "applySelfConsumptionRule bs s (ExcessSolarThreshold opt) (SOCFullThreshold opt) p = (b1, s1, p1)" by (metis prod_cases3)
  obtain b2 s2 p2 where r2: "applyDemandResponseRule b1 s1 False (is_peak env now st opt)
      (opt_nanMin (tou_cap opt (limits_of st) (NetW (Grid st)) s1) c) (dischargeBlocked opt) p1 = (b2, s2, p2)" by (metis prod_cases3)
  have "economics env now st opt followed w c s bs p =
      (b2, applyEVChargingRule (EVSEs st) (limits_of st) (NetW (Grid st)) (TotalSolarW st) s2 (ev_suppressed opt (limits_of st)) p2)"
    using False by (simp add: economics_def Let_def r1 r2 flip: limits_of_def)
  then show ?thesis using assms r1 r2 False by (intro react) auto
qed

lemma finishing_cases:
  assumes "finishing st bs (opt, p) = (opt', p')"
  obtains o1 p1 o2 p2 o3 p3
  where "applyAusLoadLimitRule (Solar st) (Batteries st) (EVSEs st) (gc_loadLimitW (limits_of st)) (NetW (Grid st)) (opt, p) = (o1, p1)"
    and "checkAusLoadConvergence (Solar st) (Batteries st) (NetW (Grid st)) (gc_loadLimitW (limits_of st)) (o1, p1) = (o2, p2)"
    and "(o3, p3) = (if EnforceAusLimits opt then (o2, p2) else (opt, p))"
    and "checkBatterySafety (Batteries st) (o3, applyRestoreRule (Solar st) bs (solar_cap_active o3 (limits_of st)) p3) = (opt', p')"
proof -
  let ?L = "limits_of st" and ?n = "NetW (Grid st)"
  obtain o1 p1 where r1: "applyAusLoadLimitRule (Solar st) (Batteries st) (EVSEs st) (gc_loadLimitW ?L) ?n (opt, p) = (o1, p1)" by fastforce
  obtain o2 p2 where r2: "checkAusLoadConvergence (Solar st) (Batteries st) ?n (gc_loadLimitW ?L) (o1, p1) = (o2, p2)" by fastforce
  show ?thesis
  proof (cases "EnforceAusLimits opt")
    case True
    then show ?thesis using assms r1 r2 by (intro that [of o1 p1 o2 p2 o2 p2]) (simp_all add: finishing_def Let_def flip: limits_of_def)
  next
    case False
    then show ?thesis using assms r1 r2 by (intro that [of o1 p1 o2 p2 opt p]) (simp_all add: finishing_def Let_def flip: limits_of_def)
  qed
qed

definition ceases :: "SystemState \<Rightarrow> bool" where
  "ceases st \<longleftrightarrow> (case CSIPControl st of None \<Rightarrow> False | Some c \<Rightarrow> OpModConnect (cc_Base c) = Some False)"

lemma optimize_cases:
  assumes "\<not> ceases st" and "DefaultOptimizer_Optimize env st opt = (opt', plan)"
  obtains now o1 b1 s1 followed p1 o2 b2 s2 capW p2 b3 p3 o3 p4
  where "o1 = updateReserveHolds (Batteries st) opt"
    and "dictated st o1 (empty_plan now) = (b1, s1, followed, p1)"
    and "compliance st b1 s1 (o1, p1) = (o2, b2, s2, capW, p2)"
    and "economics env now st o2 followed (surplus_of st) capW s2 b2 p2 = (b3, p3)"
    and "finishing st b3 (o2, p3) = (o3, p4)"
    and "plan = stamp_plan (CSIPControl st) p4" and "opt' = record_cmds (BatteryCommands plan) o3"
    and "now = (if is_zero_time (st_Timestamp st) then clock_now env else st_Timestamp st)"
proof -
  define now where "now = (if is_zero_time (st_Timestamp st) then clock_now env else st_Timestamp st)"
  define o1 where "o1 = updateReserveHolds (Batteries st) opt"
  obtain b1 s1 followed p1 where r1: "dictated st o1 (empty_plan now) = (b1, s1, followed, p1)" by (metis prod_cases4)
  obtain o2 b2 s2 capW p2 where r2: "compliance st b1 s1 (o1, p1) = (o2, b2, s2, capW, p2)" by (metis prod_cases5)
  obtain b3 p3 where r3: "economics env now st o2 followed (surplus_of st) capW s2 b2 p2 = (b3, p3)" by fastforce
  obtain o3 p4 where r4: "finishing st b3 (o2, p3) = (o3, p4)" by fastforce
  have d: "csipDisconnectRule (CSIPControl st) st (empty_plan now) = None"
    using assms(1) by (auto simp: csipDisconnectRule_def ceases_def split: option.splits)
  have "DefaultOptimizer_Optimize env st opt = (record_cmds (BatteryCommands (stamp_plan (CSIPControl st) p4)) o3, stamp_plan (CSIPControl st) p4)"
    using r1 r2 r3 r4 d by (simp add: DefaultOptimizer_Optimize_def Let_def flip: now_def o1_def)
  then show ?thesis using assms(2) r1 r2 r3 r4 by (intro that [OF o1_def r1 r2 r3 r4 _ _ now_def]) auto
qed

definition fixed_power :: "SystemState \<Rightarrow> bool" where
  "fixed_power st \<longleftrightarrow> (case CSIPControl st of None \<Rightarrow> False | Some c \<Rightarrow> OpModFixedW (cc_Base c) \<noteq> None)"

lemma dictated_cases:
  assumes "dictated st opt p = (b1, s1, followed, p1)"
  obtains (fixed) "fixed_power st" "s1 = surplus_of st" "\<not> followed"
      "applyFixedDispatchRule (CSIPControl st) (Batteries st) (TotalSolarW st) (InferredLoadW st) (dischargeBlocked opt) p = (b1, p1)"
  | (plan) "\<not> fixed_power st"
      "applyPlanRule (DailyPlanTarget st) (Batteries st) (EVSEs st) (SOCFullThreshold opt) (surplus_of st)
        (planExportDischargeCapW opt (limits_of st) st) (dischargeBlocked opt) p = (b1, s1, followed, p1)"
proof (cases "fixed_power st")
  case True
  then show ?thesis using assms by (intro fixed) (auto simp: dictated_def Let_def case_prod_unfold fixed_power_def)
next
  case False
  then have "applyFixedDispatchRule (CSIPControl st) bs w h blk q = (bs, q)" for bs w h blk q
    by (auto simp: applyFixedDispatchRule_def fixed_power_def split: option.split)
  then show ?thesis using assms False by (intro plan) (simp_all add: dictated_def Let_def fixed_power_def limits_of_def)
qed

lemma fixed_only: "batt_only p (snd (applyFixedDispatchRule cc bs s h blk p))"
proof -
  have "batt_only p (snd (snd (snd (walk (\<lambda>(_, left, _). left) (fixed_step blk) bs (w, False, p)))))" for w
    by (rule walk_inv [where P = "\<lambda>a. batt_only p (snd (snd a))"]) (auto simp: fixed_step_def Let_def split: prod.split)
  then show ?thesis by (simp add: applyFixedDispatchRule_def Let_def case_prod_unfold split: option.split)
qed

lemma plan_rule_solar: "SolarCommands (snd (snd (snd (applyPlanRule tg bs evses f s c blk p)))) = SolarCommands p"
    "Breach (snd (snd (snd (applyPlanRule tg bs evses f s c blk p)))) = Breach p"
  using plan_only by (simp_all add: applyPlanRule_def Let_def case_prod_unfold batt_only_def split: option.split)

lemma dictated_uniq:
  assumes "dictated st opt (empty_plan now) = (b1, s1, followed, p1)"
    and "distinct (map bs_Name (Batteries st))" and "distinct (map es_key (EVSEs st))"
  shows "uniq p1" and "SolarCommands p1 = []" and "Breach p1 = None"
proof -
  have e: "uniq (empty_plan now)" "BatteryCommands (empty_plan now) = []" "EVSECommands (empty_plan now) = []"
      "SolarCommands (empty_plan now) = []" "Breach (empty_plan now) = None" by (simp_all add: uniq_def empty_plan_def)
  note p = uniq_plan_rule [OF e(1-3) assms(2,3), of "DailyPlanTarget st"] plan_rule_solar [where p = "empty_plan now"]
  show "uniq p1" "SolarCommands p1 = []" "Breach p1 = None"
    using assms(1)
  proof (atomize (full), cases rule: dictated_cases)
    case fixed
    then show "uniq p1 \<and> SolarCommands p1 = [] \<and> Breach p1 = None"
      using uniq_fixed [OF e(1)] fixed_only [of "empty_plan now"] e(4,5) by (metis batt_only_def snd_conv)
  next
    case plan
    then show "uniq p1 \<and> SolarCommands p1 = [] \<and> Breach p1 = None" using p e(4,5) by (metis snd_conv)
  qed
qed

section \<open>A small house\<close>

text \<open>One pack, below the reserve, and one inverter: the site of the examples.\<close>

definition home_env :: planner_env where
  "home_env = \<lparr>local_hour = (\<lambda>_. 17), clock_now = 1, wide = (\<lambda>_. 0)\<rparr>"

definition home_pack :: BatteryState where
  "home_pack = (NewBatteryState ''pack'')
     \<lparr>bs_SOC := Fin 15, bs_MaxChargeW := Fin 5000, bs_MaxDischargeW := Fin 5000, bs_Connected := True, bs_Energized := True\<rparr>"

definition home_inverter :: SolarState where
  "home_inverter = \<lparr>ss_Name = ''roof'', ss_PowerW = Fin 3000, ss_MaxW = Fin 5000, ss_Connected = True, ss_Energized = True\<rparr>"

definition home :: "GridState \<Rightarrow> DERControlBase option \<Rightarrow> SystemState" where
  "home g base =
     \<lparr>st_Timestamp = 1, Batteries = [home_pack], Solar = [home_inverter], EVSEs = [], Grid = g,
      CSIPControl = map_option (\<lambda>b. \<lparr>cc_Source = ''event'', cc_MRID = ''m1'', cc_Base = b, cc_ValidUntil = 0\<rparr>) base,
      st_ClockOffset = 0, DailyPlanTarget = None\<rparr>"

lemma home_sel [simp]:
  "Batteries (home g base) = [home_pack]" "Solar (home g base) = [home_inverter]" "EVSEs (home g base) = []" "Grid (home g base) = g"
  "CSIPControl (home g None) = None" "bs_Name home_pack = ''pack''" "bs_PowerW home_pack = Fin 0" "bs_SOC home_pack = Fin 15"
  "bs_Connected home_pack" "bs_MaxDischargeW home_pack = Fin 5000" "ss_Name home_inverter = ''roof''" "ss_Connected home_inverter"
  by (simp_all add: home_def home_pack_def NewBatteryState_def home_inverter_def)

lemma home_ceases [simp]: "\<not> ceases (home g None)" "ceases (home g (Some b)) \<longleftrightarrow> OpModConnect b = Some False"
  by (auto simp: ceases_def home_def)

lemma home_limits [simp]: "gc_exportLimitW (limits_of (home g None)) = ExportLimitW g" "gc_importLimitW (limits_of (home g None)) = ImportLimitW g"
  "gc_maxLimitW (limits_of (home g None)) = MaxLimitW g"
  by (simp_all add: limits_of_def deriveGridConstraints_def Let_def)

end
