(* ===== verification/OptPlans.thy ===== *)
theory OptPlans
  imports OptProps
begin

text \<open>
  The plans of the optimizer: one command per device and none missing, what a disconnect does, the
  reserve, the generation cap, and the convergence checks over runs.
\<close>

section \<open>One command per device, and none missing\<close>

lemma compliance_uniq:
  assumes "compliance st bs s (opt, p) = (opt', bs', s', c', p')" and "uniq p" and "SolarCommands p = []"
    and "distinct (map ss_Name (Solar st))"
  shows "uniq p'"
proof (rule compliance_cases [OF assms(1)], goal_cases)
  case (1 o1 b1 s1 p1 o2 p2 p3 o4 p4 o5 b5 p5 o6 p6 b7 p7 o8 p8)
  have "uniq p1" using uniq_export [OF assms(2-4)] 1(1) by (metis snd_conv)
  then have "uniq p2" using uniq_checks(1) 1(2) by (metis snd_conv)
  then have "uniq p3" using uniq_curtail 1(3) by (simp add: applyGenLimitRule_def)
  then have "uniq p4" using uniq_checks(2) 1(4) by (metis snd_conv)
  then have "uniq p5" using uniq_import 1(5) by (metis snd_conv)
  then have p6: "uniq p6" using uniq_checks(3) 1(6) by (metis snd_conv)
  then have "EnforceAusLimits o6 \<Longrightarrow> uniq p7" using uniq_ausgen 1(7) by (metis snd_conv)
  then have "EnforceAusLimits o6 \<Longrightarrow> uniq p8" using uniq_checks(4) 1(8) by (metis snd_conv)
  then show ?case using p6 1(9) by (auto split: if_splits)
qed

lemma economics_uniq:
  assumes "economics env now st opt followed w c s bs p = (bs', p')" and "uniq p"
  shows "uniq p'"
  using assms(1)
proof (cases rule: economics_cases)
  case (react b1 s1 p1 s2 p2 capW)
  have "uniq p1" using uniq_self [OF assms(2)] react(2) by (metis snd_conv)
  then have "uniq p2" using uniq_peak react(4) by (metis snd_conv)
  then show ?thesis using react(5) by (simp add: uniq_charge)
qed (simp add: uniq_charge assms(2))

lemma finishing_uniq:
  assumes "finishing st bs (opt, p) = (opt', p')" and "uniq p"
  shows "uniq p'"
proof (rule finishing_cases [OF assms(1)], goal_cases)
  case (1 o1 p1 o2 p2 o3 p3)
  have "uniq p1" using uniq_ausload [OF assms(2)] 1(1) by (metis snd_conv)
  then have "uniq p2" using uniq_checks(5) 1(2) by (metis snd_conv)
  then have "uniq p3" using assms(2) 1(3) by (auto split: if_splits)
  then show ?case using uniq_safety [of "(o3, applyRestoreRule (Solar st) bs (solar_cap_active o3 (limits_of st)) p3)"] uniq_restore 1(4)
    by (metis snd_conv)
qed

definition named_once :: "SystemState \<Rightarrow> bool" where
  "named_once st \<longleftrightarrow> distinct (map bs_Name (Batteries st)) \<and> distinct (map ss_Name (Solar st)) \<and> distinct (map es_key (EVSEs st))"

text \<open>The batteries as the rules pass them on differ in power only.\<close>

definition static :: "BatteryState \<Rightarrow> BatteryState" where "static b = b\<lparr>bs_PowerW := Fin 0\<rparr>"

lemma static_eq: "static b = static b' \<Longrightarrow> bs_Name b = bs_Name b' \<and> bs_Connected b = bs_Connected b' \<and>
    bs_MaxDischargeW b = bs_MaxDischargeW b' \<and> bs_SOC b = bs_SOC b'"
  by (auto simp: static_def dest: arg_cong [where f = bs_Name] arg_cong [where f = bs_Connected] arg_cong [where f = bs_MaxDischargeW] arg_cong [where f = bs_SOC])

lemma static_power [simp]: "static (b\<lparr>bs_PowerW := w\<rparr>) = static b"
  by (simp add: static_def)

lemma static_fixed: "map static (fst (applyFixedDispatchRule cc bs s h blk p)) = map static bs"
proof -
  have "static (fst (fixed_step blk b acc)) = static b" for b acc by (simp add: fixed_step_def Let_def split: prod.split)
  then have "map static (fst (walk stop (fixed_step blk) bs acc)) = map static bs" for stop acc by (rule walk_map)
  then show ?thesis by (simp add: applyFixedDispatchRule_def Let_def case_prod_unfold split: option.split)
qed

lemma static_plan: "map static (fst (applyPlanRule tg bs evses f s c blk p)) = map static bs"
proof -
  have "static (fst (plan_step blk f w t b acc)) = static b" for w t b acc by (simp add: plan_step_def Let_def)
  then have "map static (fst (walk stop (plan_step blk f w t) bs acc)) = map static bs" for stop w t acc by (rule walk_map)
  then show ?thesis by (simp add: applyPlanRule_def Let_def case_prod_unfold split: option.split)
qed

lemma static_export: "map static (fst (snd (applyExportLimitRule sol evses ew l n s bs (opt, p)))) = map static bs"
proof (cases "is_nan l")
  case False
  have a: "static (fst (absorb_step sf r g need b acc)) = static b" for sf r g need b acc
    by (simp add: absorb_step_def Let_def split: prod.split)
  show ?thesis
  proof (rule export_rule_cases [OF False, of sol evses ew n bs opt p s], goal_cases)
    case (1 v bs' a d g3 s1 p1 g4 s2 p2 w g5 p3 z)
    have "map static bs' = map static bs" using 1(2) walk_map [of static, OF a]
      by (auto simp: export_battery_def Let_def case_prod_unfold)
    then show ?case using 1(8) by simp
  qed
qed (simp add: applyExportLimitRule_def)

lemma static_import: "map static (fst (snd (applyImportLimitRule bs l n (opt, p)))) = map static bs"
proof -
  have "static (fst (import_step blk b acc)) = static b" for blk b acc by (simp add: import_step_def Let_def split: prod.split)
  then have "map static (fst (walk stop (import_step blk) xs acc)) = map static xs" for stop blk xs acc by (rule walk_map)
  moreover have "map static (fst (halt_charge bs p)) = map static bs" by (simp add: halt_charge_def)
  ultimately show ?thesis by (simp add: applyImportLimitRule_def import_defend_def Let_def case_prod_unfold)
qed

lemma static_self: "map static (fst (applySelfConsumptionRule bs s e f p)) = map static bs"
  unfolding applySelfConsumptionRule_def
  by (rule walk_map) (simp add: self_step_def keep_charging_def Let_def split: prod.split)

lemma static_peak: "map static (fst (applyDemandResponseRule bs s d k w blk p)) = map static bs"
proof -
  have "static (fst (peak_step c blk b acc)) = static b" for c b acc by (simp add: peak_step_def Let_def split: prod.split)
  then have "map static (fst (walk stop (peak_step c blk) bs acc)) = map static bs" for stop c acc by (rule walk_map)
  then show ?thesis by (simp add: applyDemandResponseRule_def Let_def case_prod_unfold)
qed

lemma static_trim_step: "map static (snd (snd (trim_step c acc))) = map static (snd acc)"
proof -
  have m: "map static (map (\<lambda>b. if P b then b\<lparr>bs_PowerW := w\<rparr> else b) bs) = map static bs" for P w and bs :: "BatteryState list" by simp
  show ?thesis unfolding trim_step_def Let_def by (cases acc) (simp only: prod.case fst_conv snd_conv m split: if_split, simp)
qed

lemma static_trim: "map static (snd (snd (walk (\<lambda>_. False) trim_step cs (r, bs)))) = map static bs"
proof -
  have "map static (snd (snd (walk (\<lambda>_. False) trim_step cs acc))) = map static (snd acc)" for acc
    by (rule walk_inv [where P = "\<lambda>a. map static (snd a) = map static (snd acc)"]) (simp_all only: static_trim_step)
  then show ?thesis by simp
qed

lemma static_ausgen: "map static (fst (applyAusGenerationLimitRule sol bs l p)) = map static bs"
  by (simp add: applyAusGenerationLimitRule_def Let_def case_prod_unfold static_trim)

lemma packs_static:
  assumes "dictated st o1 p0 = (b1, s1, followed, p1)" and "compliance st b1 s1 (o1, p1) = (o2, b2, s2, c, p2)"
    and "economics env now st o2 followed w c s2 b2 p2 = (b3, p3)"
  shows "map static b1 = map static (Batteries st)" and "map static b2 = map static (Batteries st)" and "map static b3 = map static (Batteries st)"
proof -
  show 1: "map static b1 = map static (Batteries st)" using assms(1)
    by (cases rule: dictated_cases) (metis static_fixed fst_conv, metis static_plan fst_conv)
  have "map static b2 = map static b1"
  proof (rule compliance_cases [OF assms(2)], goal_cases)
    case (1 q1 c1 t1 r1 q2 r2 r3 q4 r4 q5 c5 r5 q6 r6 c7 r7 q8 r8)
    have "map static c1 = map static b1" using static_export 1(1) by (metis fst_conv snd_conv)
    moreover have "map static c5 = map static c1" using static_import 1(5) by (metis fst_conv snd_conv)
    moreover have "EnforceAusLimits q6 \<Longrightarrow> map static c7 = map static c5" using static_ausgen 1(7) by (metis fst_conv)
    ultimately show ?case using 1(9) by (auto split: if_splits)
  qed
  then show 2: "map static b2 = map static (Batteries st)" using 1 by simp
  have "map static b3 = map static b2" using assms(3)
  proof (cases rule: economics_cases)
    case (react c1 t1 q1 t2 q2 capW)
    then show ?thesis using static_self static_peak by (metis fst_conv)
  qed simp
  then show "map static b3 = map static (Batteries st)" using 2 by simp
qed

lemma restore_batteries:
  "batt_only p (fold restore_battery bs p)"
  "set (map bc_Name (BatteryCommands p)) \<subseteq> set (map bc_Name (BatteryCommands (fold restore_battery bs p)))"
  "b \<in> set bs \<Longrightarrow> bs_Connected b \<Longrightarrow> flt (Fin 0) (bs_MaxDischargeW b) \<Longrightarrow>
    hasBatteryCommand (BatteryCommands (fold restore_battery bs p)) (bs_Name b)"
proof -
  have grow: "set (map bc_Name (BatteryCommands p)) \<subseteq> set (map bc_Name (BatteryCommands (fold restore_battery bs p)))" for bs p
    by (induction bs arbitrary: p) (force simp: restore_battery_def)+
  show "batt_only p (fold restore_battery bs p)"
    by (rule fold_invariant_set [where P = "batt_only p"]) (simp_all add: restore_battery_def)
  show "set (map bc_Name (BatteryCommands p)) \<subseteq> set (map bc_Name (BatteryCommands (fold restore_battery bs p)))" by (rule grow)
  show "hasBatteryCommand (BatteryCommands (fold restore_battery bs p)) (bs_Name b)"
    if "b \<in> set bs" "bs_Connected b" "flt (Fin 0) (bs_MaxDischargeW b)"
    using that
  proof (induction bs arbitrary: p)
    case (Cons x bs)
    have "hasBatteryCommand (BatteryCommands (restore_battery b p)) (bs_Name b)" using Cons.prems(2,3)
      by (simp add: restore_battery_def hasBatteryCommand_def)
    then show ?case using Cons grow [of "restore_battery x p" bs] by (fastforce simp: hasBatteryCommand_def)
  qed simp
qed

lemma restore_solars:
  "BatteryCommands (fold (restore_solar k) sol p) = BatteryCommands p"
  "s \<in> set sol \<Longrightarrow> ss_Connected s \<or> \<not> k \<Longrightarrow> hasSolarCommand (SolarCommands (fold (restore_solar k) sol p)) (ss_Name s)"
proof -
  have grow: "set (map sc_Name (SolarCommands p)) \<subseteq> set (map sc_Name (SolarCommands (fold (restore_solar k) sol p)))" for sol p
    by (induction sol arbitrary: p) (force simp: restore_solar_def)+
  show "BatteryCommands (fold (restore_solar k) sol p) = BatteryCommands p"
    by (induction sol arbitrary: p) (simp_all add: restore_solar_def)
  show "hasSolarCommand (SolarCommands (fold (restore_solar k) sol p)) (ss_Name s)" if "s \<in> set sol" "ss_Connected s \<or> \<not> k"
    using that
  proof (induction sol arbitrary: p)
    case (Cons x sol)
    have "hasSolarCommand (SolarCommands (restore_solar k s p)) (ss_Name s)" using Cons.prems(2)
      by (auto simp: restore_solar_def hasSolarCommand_def)
    then show ?case using Cons grow [of "restore_solar k x p" sol] by (fastforce simp: hasSolarCommand_def)
  qed simp
qed

lemma safety_grows:
  "set (map bc_Name (BatteryCommands p)) \<subseteq> set (map bc_Name (BatteryCommands (snd (checkBatterySafety bs (opt, p)))))"
  "batt_only p (snd (checkBatterySafety bs (opt, p)))"
proof -
  have m: "map bc_Name (upd_first q (\<lambda>c. c\<lparr>bc_SetpointW := Fin 0, bc_Connect := Some False\<rparr>) cs) = map bc_Name cs" for q cs
    by (rule upd_first_map) simp
  have s: "set (map bc_Name (BatteryCommands (snd op))) \<subseteq> set (map bc_Name (BatteryCommands (snd (safety_step b op))))" for b op
    by (auto simp: safety_step_def force_disconnect_def Let_def case_prod_unfold m simp flip: set_map)
  show "set (map bc_Name (BatteryCommands p)) \<subseteq> set (map bc_Name (BatteryCommands (snd (checkBatterySafety bs (opt, p)))))"
    unfolding checkBatterySafety_def
    by (rule fold_invariant_set [where P = "\<lambda>op. set (map bc_Name (BatteryCommands p)) \<subseteq> set (map bc_Name (BatteryCommands (snd op)))"])
      (use s in \<open>simp_all, blast\<close>)
  show "batt_only p (snd (checkBatterySafety bs (opt, p)))"
    unfolding checkBatterySafety_def
    by (rule fold_invariant_set [where P = "\<lambda>op. batt_only p (snd op)"])
      (simp_all add: safety_step_def force_disconnect_def Let_def case_prod_unfold)
qed

lemma stamp_has [simp]:
  "hasBatteryCommand (BatteryCommands (stamp_plan cc p)) n = hasBatteryCommand (BatteryCommands p) n"
  "hasSolarCommand (SolarCommands (stamp_plan cc p)) n = hasSolarCommand (SolarCommands p) n"
  by (simp_all add: stamp_plan_def hasBatteryCommand_def hasSolarCommand_def image_image split: option.split)

lemma finishing_complete:
  assumes "finishing st bs (opt, p) = (opt', p')"
  shows "b \<in> set bs \<Longrightarrow> bs_Connected b \<Longrightarrow> flt (Fin 0) (bs_MaxDischargeW b) \<Longrightarrow> hasBatteryCommand (BatteryCommands p') (bs_Name b)"
    and "s \<in> set (Solar st) \<Longrightarrow> ss_Connected s \<Longrightarrow> hasSolarCommand (SolarCommands p') (ss_Name s)"
proof -
  obtain q k t where f: "checkBatterySafety (Batteries st) (q, fold restore_battery bs (fold (restore_solar k) (Solar st) t)) = (opt', p')"
    by (rule finishing_cases [OF assms]) (auto simp: applyRestoreRule_def)
  let ?r = "fold restore_battery bs (fold (restore_solar k) (Solar st) t)"
  note g = safety_grows [of ?r "Batteries st" q, unfolded f snd_conv]
  show "hasBatteryCommand (BatteryCommands p') (bs_Name b)" if "b \<in> set bs" "bs_Connected b" "flt (Fin 0) (bs_MaxDischargeW b)"
    using restore_batteries(3) [OF that, of "fold (restore_solar k) (Solar st) t"] g(1) unfolding hasBatteryCommand_def by blast
  show "hasSolarCommand (SolarCommands p') (ss_Name s)" if "s \<in> set (Solar st)" "ss_Connected s"
    using restore_solars(2) [of s "Solar st" k t] that g(2) restore_batteries(1) [of "fold (restore_solar k) (Solar st) t" bs]
    by (simp add: batt_only_def)
qed

lemma optimize_commands:
  assumes "\<not> ceases st" and "DefaultOptimizer_Optimize env st opt = (opt', plan)"
  shows "b \<in> set (Batteries st) \<Longrightarrow> bs_Connected b \<Longrightarrow> flt (Fin 0) (bs_MaxDischargeW b) \<Longrightarrow> hasBatteryCommand (BatteryCommands plan) (bs_Name b)"
    and "s \<in> set (Solar st) \<Longrightarrow> ss_Connected s \<Longrightarrow> hasSolarCommand (SolarCommands plan) (ss_Name s)"
proof -
  have "(\<forall>b \<in> set (Batteries st). bs_Connected b \<and> flt (Fin 0) (bs_MaxDischargeW b) \<longrightarrow> hasBatteryCommand (BatteryCommands plan) (bs_Name b)) \<and>
      (\<forall>s \<in> set (Solar st). ss_Connected s \<longrightarrow> hasSolarCommand (SolarCommands plan) (ss_Name s))"
  proof (rule optimize_cases [OF assms], goal_cases)
    case (1 now o1 b1 s1 followed p1 o2 b2 s2 capW p2 b3 p3 o3 p4)
    have b: "hasBatteryCommand (BatteryCommands p4) (bs_Name b)"
      if "b \<in> set (Batteries st)" "bs_Connected b" "flt (Fin 0) (bs_MaxDischargeW b)" for b
    proof -
      have "static b \<in> static ` set b3" using packs_static(3) [OF 1(2-4)] that(1) by (metis image_eqI set_map)
      then obtain b' where "b' \<in> set b3" "static b = static b'" by auto
      then show ?thesis using finishing_complete(1) [OF 1(5), of b'] static_eq [of b b'] that by simp
    qed
    show ?case using b finishing_complete(2) [OF 1(5)] 1(6) by simp
  qed
  then show "b \<in> set (Batteries st) \<Longrightarrow> bs_Connected b \<Longrightarrow> flt (Fin 0) (bs_MaxDischargeW b) \<Longrightarrow> hasBatteryCommand (BatteryCommands plan) (bs_Name b)"
    and "s \<in> set (Solar st) \<Longrightarrow> ss_Connected s \<Longrightarrow> hasSolarCommand (SolarCommands plan) (ss_Name s)" by simp_all
qed

text \<open>
  Property C6: the plan is the hub's complete intent. Unless the utility orders a disconnect, no
  device gets two commands, every connected battery that can discharge gets one, and so does every
  connected inverter.
\<close>

theorem standing_intent_complete:
  assumes "named_once st" and "\<not> ceases st"
  shows "uniq (snd (DefaultOptimizer_Optimize env st opt)) \<and>
    (\<forall>b \<in> set (Batteries st). bs_Connected b \<and> flt (Fin 0) (bs_MaxDischargeW b) \<longrightarrow>
       hasBatteryCommand (BatteryCommands (snd (DefaultOptimizer_Optimize env st opt))) (bs_Name b)) \<and>
    (\<forall>s \<in> set (Solar st). ss_Connected s \<longrightarrow> hasSolarCommand (SolarCommands (snd (DefaultOptimizer_Optimize env st opt))) (ss_Name s))"
proof -
  obtain opt' plan where p: "DefaultOptimizer_Optimize env st opt = (opt', plan)" by fastforce
  have "uniq plan"
  proof (rule optimize_cases [OF assms(2) p], goal_cases)
    case (1 now o1 b1 s1 followed p1 o2 b2 s2 capW p2 b3 p3 o3 p4)
    note n = assms(1) [unfolded named_once_def]
    have "uniq p4" using finishing_uniq [OF 1(5)] economics_uniq [OF 1(4)] compliance_uniq [OF 1(3)] dictated_uniq [OF 1(2)] n by blast
    then show ?case using 1(6) by simp
  qed
  then show ?thesis using optimize_commands [OF assms(2) p] p by simp
qed

theorem standing_intent_complete_witness:
  "hasBatteryCommand (BatteryCommands (snd (DefaultOptimizer_Optimize home_env (home NewGridState None) NewDefaultOptimizer))) ''pack''"
  using standing_intent_complete [of "home NewGridState None" home_env NewDefaultOptimizer] by (simp add: named_once_def)

section \<open>Disconnect\<close>

text \<open>
  An order to cease energizing wins over everything. The plan disconnects every battery,
  curtails every connected inverter to zero and suspends every connected charging point; nothing else
  is commanded, no rule runs and no state of the optimizer changes. The commands carry no mRID, unlike
  those of any other plan under a control.
\<close>

theorem disconnect_order_wins:
  assumes "ceases st"
  shows "fst (DefaultOptimizer_Optimize env st opt) = opt \<and>
    BatteryCommands (snd (DefaultOptimizer_Optimize env st opt)) =
      map (\<lambda>b. \<lparr>bc_Name = bs_Name b, bc_SetpointW = Fin 0, bc_Connect = Some False, bc_MRID = ''''\<rparr>) (Batteries st) \<and>
    SolarCommands (snd (DefaultOptimizer_Optimize env st opt)) =
      map (\<lambda>s. \<lparr>sc_Name = ss_Name s, sc_CurtailToW = Fin 0, sc_Connect = None, sc_MRID = ''''\<rparr>) (filter ss_Connected (Solar st)) \<and>
    EVSECommands (snd (DefaultOptimizer_Optimize env st opt)) =
      map (\<lambda>e. \<lparr>ec_StationID = es_StationID e, ec_ConnectorID = es_ConnectorID e, ec_MaxCurrentA = Fin 0, ec_SetpointW = None,
        ec_Connect = None, ec_MRID = ''''\<rparr>) (filter es_Connected (EVSEs st))"
  using assms
  by (auto simp: DefaultOptimizer_Optimize_def ceases_def csipDisconnectRule_def empty_plan_def batt_cmd_def solar_cmd_def evse_cmd_def
      split: option.splits)

theorem disconnect_order_wins_witness:
  "BatteryCommands (snd (DefaultOptimizer_Optimize home_env (home NewGridState (Some (no_base\<lparr>OpModConnect := Some False\<rparr>))) NewDefaultOptimizer)) =
     [\<lparr>bc_Name = ''pack'', bc_SetpointW = Fin 0, bc_Connect = Some False, bc_MRID = ''''\<rparr>]"
  using disconnect_order_wins [of "home NewGridState (Some (no_base\<lparr>OpModConnect := Some False\<rparr>))" home_env NewDefaultOptimizer] by simp

section \<open>What the rules keep of the state\<close>

definition blank :: "DefaultOptimizer \<Rightarrow> DefaultOptimizer" where
  "blank opt = opt\<lparr>expGuard := new_exportGuard NaN, expOverTicks := 0, expZeroLeverTicks := 0, impGuard := new_importGuard NaN,
     opt_genGuard := \<lparr>gen_activeLimitW = NaN, gen_overCount = 0\<rparr>, opt_ausGenGuard := \<lparr>ausGen_activeLimitW = NaN, ausGen_overCount = 0\<rparr>,
     opt_ausLoadGuard := new_ausLoadGuard NaN, battDrainTicks := (\<lambda>_. 0), battWrongDirTicks := (\<lambda>_. 0)\<rparr>"

lemma blank_eq:
  assumes "blank o1 = blank o2"
  shows "battReserveHold o1 = battReserveHold o2" "SOCReserve o1 = SOCReserve o2" "opt_tickInterval o1 = opt_tickInterval o2"
    "lastBattCmd o1 = lastBattCmd o2" "EnforceAusLimits o1 = EnforceAusLimits o2" "costModel o1 = costModel o2"
    "battReserveRecoverTicks o1 = battReserveRecoverTicks o2" "SOCFullThreshold o1 = SOCFullThreshold o2"
    "ExcessSolarThreshold o1 = ExcessSolarThreshold o2" "ExportMarginFrac o1 = ExportMarginFrac o2"
proof -
  have f: "f o1 = f o2" if "\<And>opt. f (blank opt) = f opt" for f :: "DefaultOptimizer \<Rightarrow> 'a"
    using that assms by metis
  show "battReserveHold o1 = battReserveHold o2" "SOCReserve o1 = SOCReserve o2" "opt_tickInterval o1 = opt_tickInterval o2"
    "lastBattCmd o1 = lastBattCmd o2" "EnforceAusLimits o1 = EnforceAusLimits o2" "costModel o1 = costModel o2"
    "battReserveRecoverTicks o1 = battReserveRecoverTicks o2" "SOCFullThreshold o1 = SOCFullThreshold o2"
    "ExcessSolarThreshold o1 = ExcessSolarThreshold o2" "ExportMarginFrac o1 = ExportMarginFrac o2"
    by ((rule f, simp add: blank_def costModel_def cong: option.case_cong))+
qed

lemma blank_upd [simp]:
  "blank (opt\<lparr>expGuard := a\<rparr>) = blank opt" "blank (opt\<lparr>expOverTicks := i\<rparr>) = blank opt" "blank (opt\<lparr>expZeroLeverTicks := i\<rparr>) = blank opt"
  "blank (opt\<lparr>impGuard := b\<rparr>) = blank opt" "blank (opt\<lparr>opt_genGuard := c\<rparr>) = blank opt" "blank (opt\<lparr>opt_ausGenGuard := d\<rparr>) = blank opt"
  "blank (opt\<lparr>opt_ausLoadGuard := e\<rparr>) = blank opt" "blank (opt\<lparr>battDrainTicks := f\<rparr>) = blank opt" "blank (opt\<lparr>battWrongDirTicks := f\<rparr>) = blank opt"
  by (simp_all add: blank_def)

lemma blank_rules:
  "blank (fst (applyExportLimitRule sol evses ew l n s bs op)) = blank (fst op)"
  "blank (fst (checkExportLimitConvergence l n op)) = blank (fst op)"
  "blank (fst (checkGenLimitConvergence sol bs n l op)) = blank (fst op)"
  "blank (fst (applyImportLimitRule bs l n op)) = blank (fst op)"
  "blank (fst (checkImportConvergence l n op)) = blank (fst op)"
  "blank (fst (checkAusGenerationConvergence sol bs n l op)) = blank (fst op)"
  "blank (fst (applyAusLoadLimitRule sol bs evses l n op)) = blank (fst op)"
  "blank (fst (checkAusLoadConvergence sol bs n l op)) = blank (fst op)"
  "blank (fst (checkBatterySafety bs op)) = blank (fst op)"
proof -
  show "blank (fst (applyExportLimitRule sol evses ew l n s bs op)) = blank (fst op)"
  proof (cases op; cases "is_nan l")
    fix opt p assume o: "op = (opt, p)" and n: "\<not> is_nan l"
    show ?thesis unfolding o by (rule export_rule_cases [OF n, of sol evses ew n bs opt p s]) simp
  qed (simp add: applyExportLimitRule_def)
  show "blank (fst (checkBatterySafety bs op)) = blank (fst op)" unfolding checkBatterySafety_def
    by (rule fold_invariant_set [where P = "\<lambda>a. blank (fst a) = blank (fst op)"])
      (simp_all add: safety_step_def Let_def case_prod_unfold)
  show "blank (fst (applyImportLimitRule bs l n op)) = blank (fst op)"
    by (simp add: applyImportLimitRule_def import_defend_def Let_def case_prod_unfold)
  show "blank (fst (applyAusLoadLimitRule sol bs evses l n op)) = blank (fst op)"
    unfolding applyAusLoadLimitRule_def Let_def case_prod_unfold
    by (cases "find (\<lambda>ev. es_Connected ev \<and> es_SessionActive ev) evses") simp_all
qed (simp_all add: checkExportLimitConvergence_def checkGenLimitConvergence_def
    checkImportConvergence_def checkAusGenerationConvergence_def checkAusLoadConvergence_def Let_def case_prod_unfold)

lemma blank_compliance:
  assumes "compliance st bs s (opt, p) = (opt', bs', s', c', p')"
  shows "blank opt' = blank opt"
proof (rule compliance_cases [OF assms], goal_cases)
  case (1 o1 b1 s1 p1 o2 p2 p3 o4 p4 o5 b5 p5 o6 p6 b7 p7 o8 p8)
  have "blank o1 = blank opt" using blank_rules(1) 1(1) by (metis fst_conv)
  moreover have "blank o2 = blank o1" using blank_rules(2) 1(2) by (metis fst_conv)
  moreover have "blank o4 = blank o2" using blank_rules(3) 1(4) by (metis fst_conv)
  moreover have "blank o5 = blank o4" using blank_rules(4) 1(5) by (metis fst_conv)
  moreover have "blank o6 = blank o5" using blank_rules(5) 1(6) by (metis fst_conv)
  moreover have "EnforceAusLimits o6 \<Longrightarrow> blank o8 = blank o6" using blank_rules(6) 1(8) by (metis fst_conv)
  ultimately show ?case using 1(9) by (auto split: if_splits)
qed

lemma blank_finishing:
  assumes "finishing st bs (opt, p) = (opt', p')"
  shows "blank opt' = blank opt"
proof (rule finishing_cases [OF assms], goal_cases)
  case (1 o1 p1 o2 p2 o3 p3)
  have "blank o1 = blank opt" using blank_rules(7) 1(1) by (metis fst_conv)
  moreover have "blank o2 = blank o1" using blank_rules(8) 1(2) by (metis fst_conv)
  moreover have "blank opt' = blank o3" using blank_rules(9) 1(4) by (metis fst_conv)
  ultimately show ?case using 1(3) by (auto split: if_splits)
qed

section \<open>The reserve\<close>

lemma walk_both:
  assumes "\<And>x acc. x \<in> set xs \<Longrightarrow> Q x \<Longrightarrow> P acc \<Longrightarrow> Q (fst (f x acc)) \<and> P (snd (f x acc))"
    and "\<forall>x \<in> set xs. Q x" and "P acc"
  shows "(\<forall>x \<in> set (fst (walk stop f xs acc)). Q x) \<and> P (snd (walk stop f xs acc))"
  using assms
proof (induction xs arbitrary: acc)
  case (Cons x xs)
  have f: "Q (fst (f x acc))" "P (snd (f x acc))" using Cons.prems by auto
  have "(\<forall>x \<in> set (fst (walk stop f xs (snd (f x acc)))). Q x) \<and> P (snd (walk stop f xs (snd (f x acc))))"
    by (rule Cons.IH) (use Cons.prems f in auto)
  then show ?case using f Cons.prems by (simp add: case_prod_unfold Let_def)
qed simp

text \<open>A pack that does not discharge and is not told to.\<close>

definition still :: "string \<Rightarrow> BatteryState \<Rightarrow> bool" where
  "still n b \<longleftrightarrow> (bs_Name b = n \<longrightarrow> \<not> flt (Fin 0) (bs_PowerW b))"

definition mute :: "string \<Rightarrow> Plan \<Rightarrow> bool" where
  "mute n p \<longleftrightarrow> (\<forall>c \<in> set (BatteryCommands p). bc_Name c = n \<longrightarrow> \<not> flt (Fin 0) (bc_SetpointW c))"

lemma mute_simps [simp]:
  "mute n (add_batt (batt_cmd m w k) p) \<longleftrightarrow> mute n p \<and> (m = n \<longrightarrow> \<not> flt (Fin 0) w)"
  "mute n (add_solar s p) = mute n p" "mute n (add_evse e p) = mute n p" "mute n (opt_recordBreach b p) = mute n p"
  "mute n (upd_solar m g p) = mute n p" "mute n (upd_evse ev h p) = mute n p" "mute n (ceiling_cmds sol x y p) = mute n p"
  by (auto simp: mute_def)

lemma mute_upd: "mute n p \<Longrightarrow> (\<And>c. bc_Name (f c) = bc_Name c) \<Longrightarrow> (\<And>c. m = n \<Longrightarrow> bc_Name c = n \<Longrightarrow> \<not> flt (Fin 0) (bc_SetpointW (f c))) \<Longrightarrow>
    mute n (upd_batt m f p)"
  by (auto simp: mute_def dest!: upd_first_set)

lemma mute_batts: "BatteryCommands q = BatteryCommands p \<Longrightarrow> mute n q = mute n p"
  by (simp add: mute_def)

lemma blocked_held: "battReserveHold opt n \<Longrightarrow> bs_Name b = n \<Longrightarrow> dischargeBlocked opt b"
  by (simp add: dischargeBlocked_def)

text \<open>Lowering a power that is not positive, by at least 50 W.\<close>

lemma not_pos_sub: "\<not> flt (Fin 0) x \<Longrightarrow> \<not> flt a (Fin 50) \<Longrightarrow> \<not> flt (Fin 0) (fsub x a)"
proof (cases x; cases a)
  fix p q assume "\<not> flt (Fin 0) x" "\<not> flt a (Fin 50)" and x: "x = Fin p" and a: "a = Fin q"
  then have "fle (fl (p - q)) (Fin 0)" by (intro fl_nonpos) simp
  then show "\<not> flt (Fin 0) (fsub x a)" using fle_antisym by (auto simp: x a flt_iff)
qed (auto simp: flt_def feq_def fsub_def)

lemma not_pos_neg: "\<not> flt a (Fin 50) \<Longrightarrow> \<not> flt (Fin 0) (fneg a)"
  by (cases a) (auto simp: flt_def feq_def)

lemma held_fixed:
  assumes "battReserveHold opt n" and "\<forall>b \<in> set bs. still n b" and "mute n p"
  shows "(\<forall>b \<in> set (fst (applyFixedDispatchRule cc bs s h (dischargeBlocked opt) p)). still n b) \<and>
    mute n (snd (applyFixedDispatchRule cc bs s h (dischargeBlocked opt) p))"
proof -
  have "(\<forall>b \<in> set (fst (walk (\<lambda>(_, left, _). left) (fixed_step (dischargeBlocked opt)) bs (w, False, p))). still n b) \<and>
      mute n (snd (snd (snd (walk (\<lambda>(_, left, _). left) (fixed_step (dischargeBlocked opt)) bs (w, False, p)))))" for w
    by (rule walk_both [where P = "\<lambda>a. mute n (snd (snd a))"])
      (use assms blocked_held [OF assms(1)] in \<open>auto simp: fixed_step_def Let_def still_def split: prod.split\<close>)
  then show ?thesis using assms(2,3) by (simp add: applyFixedDispatchRule_def Let_def case_prod_unfold split: option.split)
qed

lemma held_plan:
  assumes "battReserveHold opt n" and "\<forall>b \<in> set bs. still n b" and "mute n p"
    and "applyPlanRule tg bs evses f s c (dischargeBlocked opt) p = (bs', s', followed, p')"
  shows "(\<forall>b \<in> set bs'. still n b) \<and> mute n p'"
proof -
  have sh: "bs_Name b = n \<Longrightarrow> \<not> flt (Fin 0) (plan_share (dischargeBlocked opt) f w t b)" for b w t
    using blocked_held [OF assms(1), of b] by (auto simp: plan_share_def Let_def)
  have w: "(\<forall>b \<in> set (fst (walk (\<lambda>_. False) (plan_step (dischargeBlocked opt) f w t) bs p)). still n b) \<and>
      mute n (snd (walk (\<lambda>_. False) (plan_step (dischargeBlocked opt) f w t) bs p))" for w t
    by (rule walk_both [where P = "mute n"]) (use assms(2,3) sh in \<open>auto simp: plan_step_def Let_def still_def\<close>)
  have e: "mute n (q\<lparr>EVSECommands := x\<rparr>) = mute n q" for q x by (simp add: mute_def)
  show ?thesis using assms(2-) w e by (auto simp: applyPlanRule_def Let_def case_prod_unfold split: option.splits if_splits)
qed

lemma held_export:
  assumes "\<forall>b \<in> set bs. still n b" and "mute n p"
    and "applyExportLimitRule sol evses ew l nw s bs (opt, p) = (opt', bs', s', p')"
  shows "(\<forall>b \<in> set bs'. still n b) \<and> mute n p'"
proof (cases "is_nan l")
  case False
  have w: "(\<forall>b \<in> set (fst (walk (\<lambda>_. False) (absorb_step sf r g need) bs (x, y, z, p))). still n b) \<and>
      mute n (snd (snd (snd (snd (walk (\<lambda>_. False) (absorb_step sf r g need) bs (x, y, z, p))))))" for sf r g need x y z
    by (rule walk_both [where P = "\<lambda>a. mute n (snd (snd (snd a)))"])
      (use assms(1,2) in \<open>auto simp: absorb_step_def Let_def still_def not_pos_neg split: prod.split\<close>)
  show ?thesis
  proof (rule export_rule_cases [OF False, of sol evses ew nw bs opt p s], goal_cases)
    case (1 v b1 a d g3 s1 p1 g4 s2 p2 w g5 p3 z)
    let ?w = "walk (\<lambda>_. False) (absorb_step (SOCFullThreshold opt) (relax_cycles opt) (xv_guard v)
        (fmax (Fin 0) (fsub (xv_unconstrainedW v) (conservative l (ExportMarginFrac opt))))) bs (Fin 0, Fin 0, s, p)"
    have "b1 = fst ?w" "p1 = snd (snd (snd (snd ?w)))" using 1(2) by (auto simp: export_battery_def Let_def case_prod_unfold)
    then have "(\<forall>b \<in> set b1. still n b) \<and> mute n p1" using w by simp
    moreover have "mute n p2 = mute n p1" using export_ev_plan(1) [OF 1(3)] by (rule mute_batts)
    ultimately show ?case using assms(3) 1(6,8) by auto
  qed
qed (use assms in \<open>simp add: applyExportLimitRule_def\<close>)

lemma held_import:
  assumes "battReserveHold opt n" and "\<forall>b \<in> set bs. still n b" and "mute n p"
    and "applyImportLimitRule bs l nw (opt, p) = (opt', bs', p')"
  shows "(\<forall>b \<in> set bs'. still n b) \<and> mute n p'"
proof -
  have h: "\<forall>b \<in> set (fst (halt_charge bs p)). still n b" "mute n (snd (halt_charge bs p))"
    using assms(2,3) by (auto simp: halt_charge_def still_def mute_def)
  have w: "(\<forall>b \<in> set (fst (walk (\<lambda>(remaining, _, _). flt remaining (Fin 1)) (import_step (dischargeBlocked (opt\<lparr>impGuard := g\<rparr>))) (fst (halt_charge bs p)) (x, y, snd (halt_charge bs p)))). still n b) \<and>
      mute n (snd (snd (snd (walk (\<lambda>(remaining, _, _). flt remaining (Fin 1)) (import_step (dischargeBlocked (opt\<lparr>impGuard := g\<rparr>))) (fst (halt_charge bs p)) (x, y, snd (halt_charge bs p))))))" for g x y
  proof (rule walk_both [where P = "\<lambda>a. mute n (snd (snd a))"])
    fix b and acc :: "f64 \<times> f64 \<times> Plan" assume "still n b" "mute n (snd (snd acc))"
    moreover have "bs_Name b = n \<Longrightarrow> dischargeBlocked (opt\<lparr>impGuard := g\<rparr>) b" by (rule blocked_held) (simp_all add: assms(1))
    ultimately show "still n (fst (import_step (dischargeBlocked (opt\<lparr>impGuard := g\<rparr>)) b acc)) \<and>
        mute n (snd (snd (snd (import_step (dischargeBlocked (opt\<lparr>impGuard := g\<rparr>)) b acc))))"
      by (auto simp: import_step_def Let_def still_def split: prod.split intro!: mute_upd)
  qed (use h in simp_all)
  show ?thesis using assms(2-) w by (auto simp: applyImportLimitRule_def import_defend_def Let_def case_prod_unfold split: if_splits)
qed

lemma curtail_batts [simp]: "BatteryCommands (fold (curtail w t) sol p) = BatteryCommands p"
  by (induction sol arbitrary: p) (simp_all add: curtail_def Let_def)

lemma check_batts [simp]:
  "BatteryCommands (snd (checkExportLimitConvergence l n op)) = BatteryCommands (snd op)"
  "BatteryCommands (snd (checkGenLimitConvergence sol bs n l op)) = BatteryCommands (snd op)"
  "BatteryCommands (snd (checkImportConvergence l n op)) = BatteryCommands (snd op)"
  "BatteryCommands (snd (checkAusGenerationConvergence sol bs n l op)) = BatteryCommands (snd op)"
  "BatteryCommands (snd (checkAusLoadConvergence sol bs n l op)) = BatteryCommands (snd op)"
  by (simp_all add: checkExportLimitConvergence_def checkGenLimitConvergence_def checkImportConvergence_def
      checkAusGenerationConvergence_def checkAusLoadConvergence_def Let_def case_prod_unfold)

lemma charge_batts [simp]: "BatteryCommands (applyEVChargingRule evses l n s w k p) = BatteryCommands p"
  unfolding applyEVChargingRule_def
  by (rule fold_invariant_set [where P = "\<lambda>a. BatteryCommands (snd a) = BatteryCommands p"])
    (simp_all add: charge_step_def Let_def case_prod_unfold)

lemma merge_batts [simp]: "BatteryCommands (mergeAusEVLimit evses a p) = BatteryCommands p"
  by (simp add: mergeAusEVLimit_def split: option.split)

lemma held_ausgen:
  assumes "\<forall>b \<in> set bs. still n b" and "mute n p" and "applyAusGenerationLimitRule sol bs l p = (bs', c, p')"
  shows "(\<forall>b \<in> set bs'. still n b) \<and> mute n p'"
proof -
  let ?Q = "\<lambda>c :: BatteryCommand. bc_Name c = n \<longrightarrow> \<not> flt (Fin 0) (bc_SetpointW c)"
  have w: "(\<forall>c \<in> set (fst (walk (\<lambda>_. False) trim_step (BatteryCommands p) (r, bs))). ?Q c) \<and>
      (\<forall>b \<in> set (snd (snd (walk (\<lambda>_. False) trim_step (BatteryCommands p) (r, bs)))). still n b)" for r
  proof (rule walk_both [where P = "\<lambda>a. \<forall>b \<in> set (snd a). still n b"])
    fix c :: BatteryCommand and acc :: "f64 \<times> BatteryState list"
    assume c: "?Q c" and a: "\<forall>b \<in> set (snd acc). still n b"
    have "\<not> is_nan x \<Longrightarrow> \<not> fle x (Fin 0) \<Longrightarrow> flt (Fin 0) x" for x using not_fle_iff [of x "Fin 0"] by simp
    then show "?Q (fst (trim_step c acc)) \<and> (\<forall>b \<in> set (snd (snd (trim_step c acc))). still n b)"
      using c a by (auto simp: trim_step_def Let_def still_def split: prod.split)
  qed (use assms(1,2) in \<open>simp_all add: mute_def\<close>)
  have "p' = p \<and> bs' = bs \<or> (\<exists>r. BatteryCommands p' = fst (walk (\<lambda>_. False) trim_step (BatteryCommands p) (r, bs)) \<and>
      bs' = snd (snd (walk (\<lambda>_. False) trim_step (BatteryCommands p) (r, bs))))"
    using assms(3) by (auto simp: applyAusGenerationLimitRule_def Let_def case_prod_unfold split: if_splits)
  then show ?thesis using w assms(1,2) unfolding mute_def by metis
qed

lemma held_compliance:
  assumes "compliance st bs s (opt, p) = (opt', bs', s', c', p')" and "battReserveHold opt n" and "\<forall>b \<in> set bs. still n b" and "mute n p"
  shows "(\<forall>b \<in> set bs'. still n b) \<and> mute n p'"
proof (rule compliance_cases [OF assms(1)], goal_cases)
  case (1 o1 b1 s1 p1 o2 p2 p3 o4 p4 o5 b5 p5 o6 p6 b7 p7 o8 p8)
  note e = held_export [OF assms(3,4) 1(1)]
  have "mute n p4" using e mute_batts [of p4 p1 n] 1(2,3,4) check_batts(1,2)
    by (metis (no_types) applyGenLimitRule_def curtail_batts snd_conv)
  moreover have "blank o4 = blank opt" using blank_rules(1-3) 1(1,2,4) by (metis fst_conv)
  ultimately have i: "(\<forall>b \<in> set b5. still n b) \<and> mute n p5"
    using held_import [OF _ _ _ 1(5)] e blank_eq(1) assms(2) by metis
  then have m6: "mute n p6" using mute_batts check_batts(3) 1(6) by (metis snd_conv)
  have "EnforceAusLimits o6 \<Longrightarrow> (\<forall>b \<in> set b7. still n b) \<and> mute n p8"
    using held_ausgen [OF _ m6 1(7)] i mute_batts check_batts(4) 1(8) by (metis snd_conv)
  then show ?case using 1(9) i m6 by (auto split: if_splits)
qed

lemma held_self:
  assumes "\<forall>b \<in> set bs. still n b" and "mute n p" and "applySelfConsumptionRule bs s e f p = (bs', s', p')"
  shows "(\<forall>b \<in> set bs'. still n b) \<and> mute n p'"
proof -
  have "(\<forall>b \<in> set (fst (walk (\<lambda>_. False) (self_step e f) bs (s, p))). still n b) \<and> mute n (snd (snd (walk (\<lambda>_. False) (self_step e f) bs (s, p))))"
    by (rule walk_both [where P = "\<lambda>a. mute n (snd a)"])
      (use assms(1,2) in \<open>auto simp: self_step_def keep_charging_def Let_def still_def not_pos_sub split: prod.split\<close>)
  then show ?thesis using assms(3) by (simp add: applySelfConsumptionRule_def)
qed

lemma held_peak:
  assumes "battReserveHold opt n" and "\<forall>b \<in> set bs. still n b" and "mute n p"
    and "applyDemandResponseRule bs s d k w (dischargeBlocked opt) p = (bs', s', p')"
  shows "(\<forall>b \<in> set bs'. still n b) \<and> mute n p'"
proof -
  have "(\<forall>b \<in> set (fst (walk (\<lambda>_. False) (peak_step c (dischargeBlocked opt)) bs (s, w, p))). still n b) \<and>
      mute n (snd (snd (snd (walk (\<lambda>_. False) (peak_step c (dischargeBlocked opt)) bs (s, w, p)))))" for c
    by (rule walk_both [where P = "\<lambda>a. mute n (snd (snd a))"])
      (use assms(2,3) blocked_held [OF assms(1)] in \<open>auto simp: peak_step_def Let_def still_def split: prod.split\<close>)
  then show ?thesis using assms(2-) by (auto simp: applyDemandResponseRule_def Let_def case_prod_unfold split: if_splits)
qed

lemma held_economics:
  assumes "economics env now st opt followed w c s bs p = (bs', p')" and "battReserveHold opt n"
    and "\<forall>b \<in> set bs. still n b" and "mute n p"
  shows "mute n p'"
  using assms(1)
proof (cases rule: economics_cases)
  case follow
  then show ?thesis using assms(4) mute_batts by (metis charge_batts)
next
  case (react b1 s1 p1 s2 p2 capW)
  note h = held_self [OF assms(3,4) react(2)]
  show ?thesis using held_peak [OF assms(2) _ _ react(4)] h react(5) mute_batts by (metis charge_batts)
qed

lemma held_safety: "mute n (snd op) \<Longrightarrow> mute n (snd (checkBatterySafety bs op))"
  unfolding checkBatterySafety_def
  by (rule fold_invariant_set [where P = "\<lambda>a. mute n (snd a)"])
    (auto simp: safety_step_def force_disconnect_def Let_def case_prod_unfold intro!: mute_upd)

lemma held_restore: "mute n p \<Longrightarrow> mute n (applyRestoreRule sol bs k p)"
proof -
  assume "mute n p"
  moreover have "mute n (fold (restore_solar k) sol p) = mute n p" by (rule mute_batts) (rule restore_solars(1))
  ultimately show ?thesis unfolding applyRestoreRule_def
    by (intro fold_invariant_set [where P = "mute n" and xs = bs]) (auto simp: restore_battery_def)
qed

lemma held_ausload:
  assumes "mute n p" shows "mute n (snd (applyAusLoadLimitRule sol bs evses l nw (opt, p)))"
proof -
  let ?Q = "\<lambda>c :: BatteryCommand. bc_Name c = n \<longrightarrow> \<not> flt (Fin 0) (bc_SetpointW c)"
  have "(\<forall>c \<in> set (fst (walk (\<lambda>_. False) shed_step (BatteryCommands p) a)). ?Q c) \<and> True" for a
    by (rule walk_both [where P = "\<lambda>_. True"])
      (use assms in \<open>auto simp: shed_step_def Let_def mute_def split: prod.split\<close>)
  then have "mute n (p\<lparr>BatteryCommands := fst (walk (\<lambda>_. False) shed_step (BatteryCommands p) a)\<rparr>)" for a by (simp add: mute_def)
  moreover have "mute n (mergeAusEVLimit evses a q) = mute n q" for a q by (rule mute_batts) simp
  ultimately show ?thesis using assms
    by (simp add: applyAusLoadLimitRule_def Let_def case_prod_unfold split: option.split)
qed

lemma held_finishing:
  assumes "finishing st bs (opt, p) = (opt', p')" and "mute n p"
  shows "mute n p'"
proof (rule finishing_cases [OF assms(1)], goal_cases)
  case (1 o1 p1 o2 p2 o3 p3)
  have "mute n p1" using held_ausload [OF assms(2)] 1(1) by (metis snd_conv)
  then have "mute n p2" using mute_batts check_batts(5) 1(2) by (metis snd_conv)
  then have "mute n p3" using assms(2) 1(3) by (auto split: if_splits)
  then show ?case using held_safety [of n "(o3, applyRestoreRule (Solar st) bs (solar_cap_active o3 (limits_of st)) p3)"] held_restore 1(4)
    by (metis snd_conv)
qed

lemma mute_stamp [simp]: "mute n (stamp_plan cc p) = mute n p"
  by (simp add: stamp_plan_def mute_def split: option.split)

text \<open>
  Property C4: the reserve is not spent. While a pack's reserve hold is latched after this tick's
  update, and the pack is not measured discharging, no command of the plan discharges it, whatever
  fixed dispatch, daily plan, limits, tariff and control are in force.
\<close>

theorem held_pack_not_discharged:
  assumes "battReserveHold (updateReserveHolds (Batteries st) opt) n"
    and "\<forall>b \<in> set (Batteries st). bs_Name b = n \<longrightarrow> \<not> flt (Fin 0) (bs_PowerW b)"
    and "c \<in> set (BatteryCommands (snd (DefaultOptimizer_Optimize env st opt)))" and "bc_Name c = n"
  shows "\<not> flt (Fin 0) (bc_SetpointW c)"
proof (cases "ceases st")
  case True
  then show ?thesis using assms(3)
    by (auto simp: DefaultOptimizer_Optimize_def ceases_def csipDisconnectRule_def empty_plan_def batt_cmd_def split: option.splits)
next
  case False
  obtain opt' plan where p: "DefaultOptimizer_Optimize env st opt = (opt', plan)" by fastforce
  have "mute n plan"
  proof (rule optimize_cases [OF False p], goal_cases)
    case (1 now o1 b1 s1 followed p1 o2 b2 s2 capW p2 b3 p3 o3 p4)
    have h: "battReserveHold o1 n" "\<forall>b \<in> set (Batteries st). still n b" "mute n (empty_plan now)"
      using assms(1,2) 1(1) by (simp_all add: still_def mute_def empty_plan_def)
    have "(\<forall>b \<in> set b1. still n b) \<and> mute n p1" using 1(2)
      by (cases rule: dictated_cases) (use held_fixed [OF h] held_plan [OF h] in \<open>metis fst_conv snd_conv\<close>)+
    then have 2: "(\<forall>b \<in> set b2. still n b) \<and> mute n p2" using held_compliance [OF 1(3) h(1)] by blast
    have "battReserveHold o2 n" using blank_compliance [OF 1(3)] blank_eq(1) h(1) by metis
    then have "mute n p3" using held_economics [OF 1(4)] 2 by blast
    then show ?case using held_finishing [OF 1(5)] 1(6) by simp
  qed
  then show ?thesis using assms(3,4) p by (simp add: mute_def)
qed

theorem held_pack_not_discharged_witness:
  "\<exists>c. c \<in> set (BatteryCommands (snd (DefaultOptimizer_Optimize home_env (home NewGridState None) NewDefaultOptimizer))) \<and>
     bc_Name c = ''pack'' \<and> \<not> flt (Fin 0) (bc_SetpointW c)"
proof -
  obtain opt' plan where p: "DefaultOptimizer_Optimize home_env (home NewGridState None) NewDefaultOptimizer = (opt', plan)" by fastforce
  have "hasBatteryCommand (BatteryCommands plan) (bs_Name home_pack)" by (rule optimize_commands(1) [OF _ p]) simp_all
  then obtain c where c: "c \<in> set (BatteryCommands plan)" "bc_Name c = ''pack''" by (auto simp: hasBatteryCommand_def)
  have "battReserveHold (updateReserveHolds [home_pack] NewDefaultOptimizer) ''pack''"
    by (simp add: updateReserveHolds_def hold_step_def Let_def NewDefaultOptimizer_def)
  then have "\<not> flt (Fin 0) (bc_SetpointW c)"
    using held_pack_not_discharged [of "home NewGridState None" NewDefaultOptimizer "''pack''" c home_env] c p by simp
  then show ?thesis using c p by auto
qed

end
