(* ===== verification/OptBreach.thy ===== *)
theory OptBreach
  imports OptPlans
begin

text \<open>
  Runs of the optimizer under a limit that the site does not keep: what the convergence checks
  promise. The checks share a contract, the locale \<open>sustained_breach\<close>: a counter that climbs on every
  tick over the limit and reports once it reaches the threshold.
\<close>

section \<open>The contract\<close>

fun run_of :: "('x \<Rightarrow> 's \<Rightarrow> 's \<times> 'p) \<Rightarrow> 'x list \<Rightarrow> 's \<Rightarrow> 's \<times> 'p list" where
  "run_of tick [] s = (s, [])"
| "run_of tick (x # xs) s = (let (s', p) = tick x s; (s'', ps) = run_of tick xs s' in (s'', p # ps))"

lemma run_of_length [simp]: "length (snd (run_of tick xs s)) = length xs"
  by (induction xs arbitrary: s) (simp_all add: case_prod_unfold Let_def)

lemma run_of_append:
  "run_of tick (xs @ ys) s =
     (fst (run_of tick ys (fst (run_of tick xs s))), snd (run_of tick xs s) @ snd (run_of tick ys (fst (run_of tick xs s))))"
  by (induction xs arbitrary: s) (simp_all add: case_prod_unfold Let_def)

locale sustained_breach =
  fixes tick :: "'x \<Rightarrow> 's \<Rightarrow> 's \<times> 'p" and reported :: "'p \<Rightarrow> bool" and cnt :: "'s \<Rightarrow> int" and over :: "'x \<Rightarrow> bool"
    and inv :: "'s \<Rightarrow> bool" and k :: int
  assumes keeps: "inv s \<Longrightarrow> over x \<Longrightarrow> inv (fst (tick x s))"
    and climbs: "inv s \<Longrightarrow> over x \<Longrightarrow> 0 \<le> cnt s \<Longrightarrow> min k (cnt s + 1) \<le> cnt (fst (tick x s))"
    and reports: "inv s \<Longrightarrow> over x \<Longrightarrow> 0 \<le> cnt s \<Longrightarrow> k \<le> cnt s + 1 \<Longrightarrow> reported (snd (tick x s))"
    and positive: "0 < k"
begin

lemma reported_by_threshold:
  assumes "inv s" and "0 \<le> cnt s" and "\<forall>x \<in> set xs. over x" and "xs \<noteq> []" and "k \<le> cnt s + int (length xs)"
  shows "reported (last (snd (run_of tick xs s)))"
  using assms
proof (induction xs arbitrary: s)
  case (Cons x xs)
  show ?case
  proof (cases "xs = []")
    case True
    then show ?thesis using Cons.prems reports [of s x] by (simp add: case_prod_unfold Let_def)
  next
    case False
    have c: "min k (cnt s + 1) \<le> cnt (fst (tick x s))" using climbs [of s x] Cons.prems by simp
    have "reported (last (snd (run_of tick xs (fst (tick x s)))))"
      by (rule Cons.IH) (use Cons.prems keeps [of s x] c positive False in \<open>auto simp: min_def split: if_splits\<close>)
    moreover have "snd (run_of tick xs (fst (tick x s))) \<noteq> []" using False run_of_length [of tick xs] by (metis length_0_conv)
    ultimately show ?thesis by (simp add: case_prod_unfold Let_def)
  qed
qed simp

end

section \<open>What keeps a breach and the counters\<close>

lemma curtail_breach [simp]: "Breach (fold (curtail w t) sol p) = Breach p"
  by (induction sol arbitrary: p) (simp_all add: curtail_def Let_def)

definition breached :: "Plan \<Rightarrow> bool" where "breached p \<longleftrightarrow> Breach p \<noteq> None"

lemma breached_record [simp]: "breached (opt_recordBreach b p)"
  unfolding breached_def by (rule breach_fields)

lemma none_breached: "Breach p = None \<longleftrightarrow> \<not> breached p"
  by (simp add: breached_def)

lemma breached_cong: "Breach p = Breach q \<Longrightarrow> breached p = breached q"
  by (simp only: breached_def)

lemma breach_checks:
  "breached (snd op) \<Longrightarrow> breached (snd (checkGenLimitConvergence sol bs n l op))"
  "breached (snd op) \<Longrightarrow> breached (snd (checkImportConvergence l n op))"
  "breached (snd op) \<Longrightarrow> breached (snd (checkAusGenerationConvergence sol bs n l op))"
  "breached (snd op) \<Longrightarrow> breached (snd (checkAusLoadConvergence sol bs n l op))"
  by (auto simp: checkGenLimitConvergence_def checkImportConvergence_def
      checkAusGenerationConvergence_def checkAusLoadConvergence_def Let_def case_prod_unfold)

lemma breach_import: "breached p \<Longrightarrow> breached (snd (snd (applyImportLimitRule bs l n (opt, p))))"
proof -
  assume a: "breached p"
  have h: "Breach (snd (halt_charge bs p)) = Breach p" by (simp add: halt_charge_def)
  have w: "breached (snd (snd (snd (walk (\<lambda>(remaining, _, _). flt remaining (Fin 1)) (import_step blk) bs' (x, y, snd (halt_charge bs p))))))" for blk bs' x y
    by (rule walk_inv [where P = "\<lambda>a. breached (snd (snd a))"])
      (use breached_cong [OF h] a in \<open>auto simp: import_step_def Let_def breached_def split: prod.split\<close>)
  show ?thesis using a w by (simp add: applyImportLimitRule_def import_defend_def Let_def case_prod_unfold)
qed

lemma breach_ausgen: "Breach (snd (snd (applyAusGenerationLimitRule sol bs l p))) = Breach p"
  by (simp add: applyAusGenerationLimitRule_def Let_def case_prod_unfold)

lemma breach_self: "Breach (snd (snd (applySelfConsumptionRule bs s e f p))) = Breach p"
  unfolding applySelfConsumptionRule_def
  by (rule walk_inv [where P = "\<lambda>a. Breach (snd a) = Breach p"]) (auto simp: self_step_def keep_charging_def Let_def split: prod.split)

lemma breach_peak: "Breach (snd (snd (applyDemandResponseRule bs s d k w blk p))) = Breach p"
proof -
  have "Breach (snd (snd (snd (walk (\<lambda>_. False) (peak_step c blk) bs (s, w, p))))) = Breach p" for c
    by (rule walk_inv [where P = "\<lambda>a. Breach (snd (snd a)) = Breach p"]) (auto simp: peak_step_def Let_def split: prod.split)
  then show ?thesis by (simp add: applyDemandResponseRule_def Let_def case_prod_unfold)
qed

lemma breach_charge: "Breach (applyEVChargingRule evses l n s w k p) = Breach p"
  unfolding applyEVChargingRule_def
  by (rule fold_invariant_set [where P = "\<lambda>a. Breach (snd a) = Breach p"]) (auto simp: charge_step_def Let_def case_prod_unfold)

lemma breach_economics: "economics env now st opt followed w c s bs p = (bs', p') \<Longrightarrow> Breach p' = Breach p"
proof (erule economics_cases)
  fix b1 s1 p1 s2 p2 capW
  assume "applySelfConsumptionRule bs s (ExcessSolarThreshold opt) (SOCFullThreshold opt) p = (b1, s1, p1)"
    "applyDemandResponseRule b1 s1 False (is_peak env now st opt) capW (dischargeBlocked opt) p1 = (bs', s2, p2)"
    "p' = applyEVChargingRule (EVSEs st) (limits_of st) (NetW (Grid st)) (TotalSolarW st) s2 (ev_suppressed opt (limits_of st)) p2"
  then show ?thesis using breach_self breach_peak breach_charge by (metis snd_conv)
qed (simp add: breach_charge)

lemma breach_finishing:
  assumes "finishing st bs (opt, p) = (opt', p')" and "breached p"
  shows "breached p'"
proof (rule finishing_cases [OF assms(1)], goal_cases)
  case (1 o1 p1 o2 p2 o3 p3)
  have m: "Breach (mergeAusEVLimit evses a q) = Breach q" for evses a q by (simp add: mergeAusEVLimit_def split: option.split)
  have "Breach (snd (applyAusLoadLimitRule sol bs' evses l nw (opt, p))) = Breach p" for sol bs' evses l nw
    by (simp add: applyAusLoadLimitRule_def Let_def case_prod_unfold m split: option.split)
  then have "breached p1" using 1(1) assms(2) breached_cong by (metis snd_conv)
  then have "breached p2" using breach_checks(4) 1(2) by (metis snd_conv)
  then have p3: "breached p3" using assms(2) 1(3) by (auto split: if_splits)
  have r: "Breach (applyRestoreRule (Solar st) bs k p3) = Breach p3" for k
  proof -
    have "Breach (fold (restore_solar k) sol q) = Breach q" for sol q
      by (induction sol arbitrary: q) (simp_all add: restore_solar_def)
    then show ?thesis using restore_batteries(1) [of "fold (restore_solar k) (Solar st) p3" bs] by (simp add: applyRestoreRule_def batt_only_def)
  qed
  show ?case using safety_grows(2) [of "applyRestoreRule (Solar st) bs (solar_cap_active o3 (limits_of st)) p3" "Batteries st" o3] r p3 1(4)
    by (simp add: batt_only_def breached_def)
qed

lemma breach_stamp [simp]: "breached (stamp_plan cc p) = breached p"
  by (simp add: breached_def stamp_plan_def split: option.split)

lemma record_frame: "f (record_cmds cs opt) = f opt" if "\<And>o' m. f (o'\<lparr>lastBattCmd := m\<rparr>) = f o'"
  unfolding record_cmds_def by (rule fold_invariant_set [where P = "\<lambda>o'. f o' = f opt"]) (simp_all add: that)

lemma holds_frame: "f (updateReserveHolds bs opt) = f opt"
  if "\<And>o' h r. f (o'\<lparr>battReserveHold := h, battReserveRecoverTicks := r\<rparr>) = f o'"
    "\<And>o' h. f (o'\<lparr>battReserveHold := h\<rparr>) = f o'" "\<And>o' r. f (o'\<lparr>battReserveRecoverTicks := r\<rparr>) = f o'"
proof -
  have "f (fold (hold_step k) bs opt) = f opt" for k
    by (rule fold_invariant_set [where P = "\<lambda>o'. f o' = f opt"]) (simp_all add: hold_step_def Let_def that)
  then show ?thesis by (simp add: updateReserveHolds_def Let_def that)
qed

lemma export_rule_over: "expOverTicks (fst (applyExportLimitRule sol evses ew l n s bs (opt, p))) = expOverTicks opt"
  "impGuard (fst (applyExportLimitRule sol evses ew l n s bs (opt, p))) = impGuard opt"
proof -
  have "expOverTicks (fst (applyExportLimitRule sol evses ew l n s bs (opt, p))) = expOverTicks opt \<and>
      impGuard (fst (applyExportLimitRule sol evses ew l n s bs (opt, p))) = impGuard opt"
  proof (cases "is_nan l")
    case False
    show ?thesis by (rule export_rule_cases [OF False, of sol evses ew n bs opt p s]) simp
  qed (simp add: applyExportLimitRule_def)
  then show "expOverTicks (fst (applyExportLimitRule sol evses ew l n s bs (opt, p))) = expOverTicks opt"
    "impGuard (fst (applyExportLimitRule sol evses ew l n s bs (opt, p))) = impGuard opt" by simp_all
qed

lemma check_over:
  "expOverTicks (fst (checkGenLimitConvergence sol bs n l op)) = expOverTicks (fst op)"
  "expOverTicks (fst (applyImportLimitRule xs l n op)) = expOverTicks (fst op)"
  "expOverTicks (fst (checkImportConvergence l n op)) = expOverTicks (fst op)"
  "expOverTicks (fst (checkAusGenerationConvergence sol bs n l op)) = expOverTicks (fst op)"
  "expOverTicks (fst (checkAusLoadConvergence sol bs n l op)) = expOverTicks (fst op)"
  "impGuard (fst (checkExportLimitConvergence l n op)) = impGuard (fst op)"
  "impGuard (fst (checkGenLimitConvergence sol bs n l op)) = impGuard (fst op)"
  "impGuard (fst (checkAusGenerationConvergence sol bs n l op)) = impGuard (fst op)"
  "impGuard (fst (checkAusLoadConvergence sol bs n l op)) = impGuard (fst op)"
  by (simp_all add: checkExportLimitConvergence_def checkGenLimitConvergence_def applyImportLimitRule_def import_defend_def
    checkImportConvergence_def checkAusGenerationConvergence_def checkAusLoadConvergence_def Let_def case_prod_unfold)

lemma ausload_over:
  "expOverTicks (fst (applyAusLoadLimitRule sol bs evses l n op)) = expOverTicks (fst op)"
  "impGuard (fst (applyAusLoadLimitRule sol bs evses l n op)) = impGuard (fst op)"
  unfolding applyAusLoadLimitRule_def Let_def case_prod_unfold
  by (cases "find (\<lambda>ev. es_Connected ev \<and> es_SessionActive ev) evses"; simp)+

lemma safety_over:
  "expOverTicks (fst (checkBatterySafety bs op)) = expOverTicks (fst op)" "impGuard (fst (checkBatterySafety bs op)) = impGuard (fst op)"
  unfolding checkBatterySafety_def
  by (rule fold_invariant_set [where P = "\<lambda>a. expOverTicks (fst a) = expOverTicks (fst op)"],
      simp_all add: safety_step_def Let_def case_prod_unfold)
    (rule fold_invariant_set [where P = "\<lambda>a. impGuard (fst a) = impGuard (fst op)"],
      simp_all add: safety_step_def Let_def case_prod_unfold)

lemma finishing_over:
  assumes "finishing st bs (opt, p) = (opt', p')"
  shows "expOverTicks opt' = expOverTicks opt" and "impGuard opt' = impGuard opt"
proof -
  have "expOverTicks opt' = expOverTicks opt \<and> impGuard opt' = impGuard opt"
  proof (rule finishing_cases [OF assms], goal_cases)
    case (1 o1 p1 o2 p2 o3 p3)
    have "expOverTicks o1 = expOverTicks opt \<and> impGuard o1 = impGuard opt" using ausload_over 1(1) by (metis fst_conv)
    moreover have "expOverTicks o2 = expOverTicks o1 \<and> impGuard o2 = impGuard o1" using check_over(5,9) 1(2) by (metis fst_conv)
    moreover have "expOverTicks opt' = expOverTicks o3 \<and> impGuard opt' = impGuard o3" using safety_over 1(4) by (metis fst_conv)
    ultimately show ?case using 1(3) by (auto split: if_splits)
  qed
  then show "expOverTicks opt' = expOverTicks opt" and "impGuard opt' = impGuard opt" by simp_all
qed

section \<open>Export and import limits\<close>

text \<open>The site is over a limit by more than the 100 W of noise, on a metered tick without a disconnect.\<close>

definition export_over :: "SystemState \<Rightarrow> bool" where
  "export_over st \<longleftrightarrow> \<not> ceases st \<and> \<not> is_nan (NetW (Grid st)) \<and> \<not> is_nan (gc_exportLimitW (limits_of st)) \<and>
     flt (fadd (gc_exportLimitW (limits_of st)) complianceBreachW) (fmax (Fin 0) (fneg (NetW (Grid st))))"

definition import_over :: "f64 \<Rightarrow> SystemState \<Rightarrow> bool" where
  "import_over l st \<longleftrightarrow> \<not> ceases st \<and> \<not> is_nan (NetW (Grid st)) \<and> gc_importLimitW (limits_of st) = l \<and>
     flt (fadd l complianceBreachW) (fmax (Fin 0) (NetW (Grid st)))"

lemma check_export_tick:
  assumes "checkExportLimitConvergence l n (o1, p) = (o2, q)" and "\<not> is_nan l" and "\<not> is_nan n"
    and "flt (fadd l complianceBreachW) (fmax (Fin 0) (fneg n))"
  shows "expOverTicks o2 = leaky (scaleTicks o1 exportBreachTicks) True (expOverTicks o1)"
    and "scaleTicks o1 exportBreachTicks \<le> expOverTicks o2 \<Longrightarrow> breached q"
proof -
  have e: "o2 = o1\<lparr>expOverTicks := leaky (scaleTicks o1 exportBreachTicks) True (expOverTicks o1)\<rparr>"
    using assms by (simp add: checkExportLimitConvergence_def Let_def)
  then show "expOverTicks o2 = leaky (scaleTicks o1 exportBreachTicks) True (expOverTicks o1)" by simp
  show "breached q" if "scaleTicks o1 exportBreachTicks \<le> expOverTicks o2"
    using assms that e by (cases "Breach p = None") (auto simp: checkExportLimitConvergence_def Let_def none_breached)
qed

lemma export_tick:
  assumes "export_over st" and "DefaultOptimizer_Optimize env st opt = (opt', plan)"
  shows "expOverTicks opt' = leaky (scaleTicks opt exportBreachTicks) True (expOverTicks opt)"
    and "scaleTicks opt exportBreachTicks \<le> expOverTicks opt' \<Longrightarrow> breached plan"
    and "opt_tickInterval opt' = opt_tickInterval opt"
proof -
  let ?k = "scaleTicks opt exportBreachTicks" and ?l = "gc_exportLimitW (limits_of st)" and ?n = "NetW (Grid st)"
  have nc: "\<not> ceases st" using assms(1) by (simp add: export_over_def)
  have "expOverTicks opt' = leaky ?k True (expOverTicks opt) \<and> (?k \<le> expOverTicks opt' \<longrightarrow> breached plan) \<and>
      opt_tickInterval opt' = opt_tickInterval opt"
  proof (rule optimize_cases [OF nc assms(2)], goal_cases)
    case (1 now o1 b1 s1 followed p1 o2 b2 s2 capW p2 b3 p3 o3 p4)
    have o1: "expOverTicks o1 = expOverTicks opt" "opt_tickInterval o1 = opt_tickInterval opt"
      unfolding 1(1) using holds_frame [where f = expOverTicks] holds_frame [where f = opt_tickInterval] by simp_all
    have c: "expOverTicks o2 = leaky ?k True (expOverTicks opt) \<and> (?k \<le> expOverTicks o2 \<longrightarrow> breached p2)"
    proof (rule compliance_cases [OF 1(3)], goal_cases)
      case (1 q1 c1 t1 r1 q2 r2 r3 q4 r4 q5 c5 r5 q6 r6 c7 r7 q8 r8)
      have q1: "expOverTicks q1 = expOverTicks opt" "opt_tickInterval q1 = opt_tickInterval opt"
        using export_rule_over(1) 1(1) o1 blank_rules(1) blank_eq(3) by (metis fst_conv)+
      then have t: "scaleTicks q1 n = scaleTicks opt n" for n by (simp add: scaleTicks_def)
      have q2: "expOverTicks q2 = leaky ?k True (expOverTicks opt)" "?k \<le> expOverTicks q2 \<longrightarrow> breached r2"
        using check_export_tick [OF 1(2)] assms(1) q1(1) t by (simp_all add: export_over_def)
      have "expOverTicks q6 = expOverTicks q2" using check_over(1-3) 1(4-6) by (metis fst_conv)
      moreover have "EnforceAusLimits q6 \<Longrightarrow> expOverTicks q8 = expOverTicks q6" using check_over(4) 1(8) by (metis fst_conv)
      moreover have "breached r2 \<Longrightarrow> breached r6"
        using breach_checks(1,2) breach_import 1(3-6) breached_cong [of r3 r2]
        by (metis applyGenLimitRule_def curtail_breach snd_conv)
      moreover have "EnforceAusLimits q6 \<Longrightarrow> breached r6 \<Longrightarrow> breached r8"
        using breach_ausgen breached_cong breach_checks(3) 1(7,8) by (metis snd_conv)
      ultimately show ?case using q2 1(9) by (auto split: if_splits)
    qed
    have "breached p2 \<Longrightarrow> breached plan"
      using breach_economics [OF 1(4)] breach_finishing [OF 1(5)] breached_cong 1(6) by (metis breach_stamp)
    moreover have "expOverTicks opt' = expOverTicks o2"
      unfolding 1(7) using record_frame [where f = expOverTicks] finishing_over(1) [OF 1(5)] by simp
    moreover have "opt_tickInterval opt' = opt_tickInterval opt"
      unfolding 1(7) using record_frame [where f = opt_tickInterval] blank_eq(3) [OF blank_finishing [OF 1(5)]]
        blank_eq(3) [OF blank_compliance [OF 1(3)]] o1(2) by simp
    ultimately show ?case using c by simp
  qed
  then show "expOverTicks opt' = leaky ?k True (expOverTicks opt)" "?k \<le> expOverTicks opt' \<Longrightarrow> breached plan"
    "opt_tickInterval opt' = opt_tickInterval opt" by simp_all
qed

interpretation export_check: sustained_breach "DefaultOptimizer_Optimize env" breached expOverTicks export_over
    "\<lambda>opt. opt_tickInterval opt = interval" "ScaleTicks interval exportBreachTicks" for env interval
proof
  fix opt :: DefaultOptimizer and st assume i: "opt_tickInterval opt = interval" and ov: "export_over st"
  obtain opt' plan where o: "DefaultOptimizer_Optimize env st opt = (opt', plan)" by fastforce
  have k: "scaleTicks opt exportBreachTicks = ScaleTicks interval exportBreachTicks" by (simp add: scaleTicks_ScaleTicks i)
  note t = export_tick [OF ov o, unfolded k]
  show "opt_tickInterval (fst (DefaultOptimizer_Optimize env st opt)) = interval" by (simp add: o t i)
  show "min (ScaleTicks interval exportBreachTicks) (expOverTicks opt + 1) \<le> expOverTicks (fst (DefaultOptimizer_Optimize env st opt))"
    using t(1) by (simp add: o leaky_def)
  show "breached (snd (DefaultOptimizer_Optimize env st opt))" if "ScaleTicks interval exportBreachTicks \<le> expOverTicks opt + 1"
    using that t(1,2) by (auto simp: o leaky_def split: if_splits)
next
  show "0 < ScaleTicks interval exportBreachTicks" using scaleTicks_ge [of 3 "SetTickInterval interval NewDefaultOptimizer"]
    by (simp add: scaleTicks_ScaleTicks SetTickInterval_def exportBreachTicks_def)
qed

text \<open>
  Property C25: an export over the cap is reported to the utility however the cap moves. If the site
  exports more than 100 W over the cap in force on as many consecutive metered ticks as the scaled
  threshold, the last plan carries a breach, whatever the optimizer did before and even if the cap
  changes on every tick.
\<close>

theorem export_breach_reported:
  assumes "\<forall>st \<in> set sts. export_over st" and "0 \<le> expOverTicks opt" and "sts \<noteq> []"
    and "ScaleTicks (opt_tickInterval opt) exportBreachTicks \<le> int (length sts)"
  shows "Breach (last (snd (run_of (DefaultOptimizer_Optimize env) sts opt))) \<noteq> None"
  using export_check.reported_by_threshold [OF refl assms(2,1,3), of env] assms(2,4) unfolding breached_def by linarith

theorem export_breach_reported_witness:
  "Breach (last (snd (run_of (DefaultOptimizer_Optimize home_env)
     (replicate 3 (home (NewGridState\<lparr>NetW := Fin (- 5000), ExportLimitW := Fin 1000\<rparr>) None)) NewDefaultOptimizer))) \<noteq> None"
  by (rule export_breach_reported) (simp_all add: export_over_def NewGridState_def NewDefaultOptimizer_def ScaleTicks_def exportBreachTicks_def
      complianceBreachW_def fmax_def flt_def feq_def)

lemma same_session: "\<not> is_nan l \<Longrightarrow> \<not> new_session l l"
  by (cases l) (simp_all add: new_session_def complianceBreachW_def fsub_def flt_def feq_def)

lemma import_rule_guard:
  assumes "\<not> is_nan l" and "\<not> new_session l (imp_activeLimitW (impGuard opt))"
  shows "imp_breachTicks (impGuard (fst (applyImportLimitRule bs l n (opt, p)))) = imp_breachTicks (impGuard opt)"
    and "imp_activeLimitW (impGuard (fst (applyImportLimitRule bs l n (opt, p)))) = l"
proof -
  have g: "imp_breachTicks (import_session l n opt) = imp_breachTicks (impGuard opt)" "imp_activeLimitW (import_session l n opt) = l"
    using assms by (simp_all add: import_session_def Let_def)
  have s: "imp_breachTicks (snd (import_slew opt w g)) = imp_breachTicks g \<and> imp_activeLimitW (snd (import_slew opt w g)) = imp_activeLimitW g" for w g
    by (simp add: import_slew_def Let_def)
  have d: "imp_breachTicks (impGuard (fst (import_defend opt' l i c bs p))) = imp_breachTicks (impGuard opt') \<and>
      imp_activeLimitW (impGuard (fst (import_defend opt' l i c bs p))) = imp_activeLimitW (impGuard opt')" for opt' i c
    by (simp add: import_defend_def Let_def case_prod_unfold)
  show "imp_breachTicks (impGuard (fst (applyImportLimitRule bs l n (opt, p)))) = imp_breachTicks (impGuard opt)"
    "imp_activeLimitW (impGuard (fst (applyImportLimitRule bs l n (opt, p)))) = l"
    using assms(1) by (simp_all add: applyImportLimitRule_def Let_def case_prod_unfold d s import_counts_def g)
qed

lemma check_import_tick:
  assumes "checkImportConvergence l n (o1, p) = (o2, q)" and "\<not> is_nan l" and "\<not> is_nan n"
    and "flt (fadd l complianceBreachW) (fmax (Fin 0) n)"
  shows "impGuard o2 = (impGuard o1)\<lparr>imp_breachTicks := leaky (scaleTicks o1 importBreachTicks) True (imp_breachTicks (impGuard o1))\<rparr>"
    and "scaleTicks o1 importBreachTicks \<le> imp_breachTicks (impGuard o2) \<Longrightarrow> breached q"
proof -
  have e: "o2 = o1\<lparr>impGuard := (impGuard o1)\<lparr>imp_breachTicks := leaky (scaleTicks o1 importBreachTicks) True (imp_breachTicks (impGuard o1))\<rparr>\<rparr>"
    using assms by (simp add: checkImportConvergence_def Let_def)
  then show "impGuard o2 = (impGuard o1)\<lparr>imp_breachTicks := leaky (scaleTicks o1 importBreachTicks) True (imp_breachTicks (impGuard o1))\<rparr>" by simp
  show "breached q" if "scaleTicks o1 importBreachTicks \<le> imp_breachTicks (impGuard o2)"
    using assms that e by (cases "Breach p = None") (auto simp: checkImportConvergence_def Let_def none_breached)
qed

lemma import_tick:
  assumes "import_over l st" and "\<not> new_session l (imp_activeLimitW (impGuard opt))"
    and "DefaultOptimizer_Optimize env st opt = (opt', plan)"
  shows "imp_breachTicks (impGuard opt') = leaky (scaleTicks opt importBreachTicks) True (imp_breachTicks (impGuard opt))"
    and "imp_activeLimitW (impGuard opt') = l"
    and "scaleTicks opt importBreachTicks \<le> imp_breachTicks (impGuard opt') \<Longrightarrow> breached plan"
    and "opt_tickInterval opt' = opt_tickInterval opt"
proof -
  let ?k = "scaleTicks opt importBreachTicks"
  have nc: "\<not> ceases st" and nn: "\<not> is_nan (NetW (Grid st))" and l: "gc_importLimitW (limits_of st) = l"
    and ov: "flt (fadd l complianceBreachW) (fmax (Fin 0) (NetW (Grid st)))" using assms(1) by (simp_all add: import_over_def)
  have nl: "\<not> is_nan l" using fle_not_nan [OF flt_imp_fle [OF ov]] by (cases l) simp_all
  have "(imp_breachTicks (impGuard opt') = leaky ?k True (imp_breachTicks (impGuard opt)) \<and> imp_activeLimitW (impGuard opt') = l) \<and>
      (?k \<le> imp_breachTicks (impGuard opt') \<longrightarrow> breached plan) \<and> opt_tickInterval opt' = opt_tickInterval opt"
  proof (rule optimize_cases [OF nc assms(3)], goal_cases)
    case (1 now o1 b1 s1 followed p1 o2 b2 s2 capW p2 b3 p3 o3 p4)
    have o1: "impGuard o1 = impGuard opt" "opt_tickInterval o1 = opt_tickInterval opt"
      unfolding 1(1) using holds_frame [where f = impGuard] holds_frame [where f = opt_tickInterval] by simp_all
    have c: "imp_breachTicks (impGuard o2) = leaky ?k True (imp_breachTicks (impGuard opt)) \<and> imp_activeLimitW (impGuard o2) = l \<and>
        (?k \<le> imp_breachTicks (impGuard o2) \<longrightarrow> breached p2)"
    proof (rule compliance_cases [OF 1(3)], goal_cases)
      case (1 q1 c1 t1 r1 q2 r2 r3 q4 r4 q5 c5 r5 q6 r6 c7 r7 q8 r8)
      have q4: "impGuard q4 = impGuard opt"
        using arg_cong [OF 1(1), of "\<lambda>x. impGuard (fst x)"] arg_cong [OF 1(2), of "\<lambda>x. impGuard (fst x)"]
          arg_cong [OF 1(4), of "\<lambda>x. impGuard (fst x)"] o1(1) by (simp add: export_rule_over check_over)
      have "blank q5 = blank o1"
        using 1(1,2,4,5) [THEN arg_cong, of "\<lambda>x. blank (fst x)"] by (simp add: blank_rules)
      then have "opt_tickInterval q5 = opt_tickInterval opt" unfolding o1(2) [symmetric] by (rule blank_eq)
      then have t: "scaleTicks q5 n = scaleTicks opt n" for n by (simp add: scaleTicks_def)
      have q5: "imp_breachTicks (impGuard q5) = imp_breachTicks (impGuard opt)" "imp_activeLimitW (impGuard q5) = l"
        using import_rule_guard [OF nl, of q4 c1 "NetW (Grid st)" r4] assms(2) q4 1(5) [unfolded l] by simp_all
      have q6: "imp_breachTicks (impGuard q6) = leaky ?k True (imp_breachTicks (impGuard opt))" "imp_activeLimitW (impGuard q6) = l"
        "?k \<le> imp_breachTicks (impGuard q6) \<longrightarrow> breached r6"
        using check_import_tick [OF 1(6)] nl nn ov l q5 t by simp_all
      moreover have "EnforceAusLimits q6 \<Longrightarrow> impGuard q8 = impGuard q6" using check_over(8) 1(8) by (metis fst_conv)
      moreover have "EnforceAusLimits q6 \<Longrightarrow> breached r6 \<Longrightarrow> breached r8"
        using breach_ausgen breached_cong breach_checks(3) 1(7,8) by (metis snd_conv)
      ultimately show ?case using 1(9) by (auto split: if_splits)
    qed
    have "breached p2 \<Longrightarrow> breached plan"
      using breach_economics [OF 1(4)] breach_finishing [OF 1(5)] breached_cong 1(6) by (metis breach_stamp)
    moreover have "impGuard opt' = impGuard o2"
      unfolding 1(7) using record_frame [where f = impGuard] finishing_over(2) [OF 1(5)] by simp
    moreover have "opt_tickInterval opt' = opt_tickInterval opt"
      unfolding 1(7) using record_frame [where f = opt_tickInterval] blank_eq(3) [OF blank_finishing [OF 1(5)]]
        blank_eq(3) [OF blank_compliance [OF 1(3)]] o1(2) by simp
    ultimately show ?case using c by simp
  qed
  then show "imp_breachTicks (impGuard opt') = leaky ?k True (imp_breachTicks (impGuard opt))" "imp_activeLimitW (impGuard opt') = l"
    "?k \<le> imp_breachTicks (impGuard opt') \<Longrightarrow> breached plan" "opt_tickInterval opt' = opt_tickInterval opt" by simp_all
qed

interpretation import_check: sustained_breach "DefaultOptimizer_Optimize env" breached "\<lambda>opt. imp_breachTicks (impGuard opt)" "import_over l"
    "\<lambda>opt. opt_tickInterval opt = interval \<and> \<not> new_session l (imp_activeLimitW (impGuard opt))" "ScaleTicks interval importBreachTicks" for env l interval
proof
  fix opt :: DefaultOptimizer and st
  assume i: "opt_tickInterval opt = interval \<and> \<not> new_session l (imp_activeLimitW (impGuard opt))" and ov: "import_over l st"
  obtain opt' plan where o: "DefaultOptimizer_Optimize env st opt = (opt', plan)" by fastforce
  have k: "scaleTicks opt importBreachTicks = ScaleTicks interval importBreachTicks" by (simp add: scaleTicks_ScaleTicks i)
  note t = import_tick [OF ov _ o, unfolded k]
  have nl: "\<not> is_nan l" using ov by (cases l) (auto simp: import_over_def dest: flt_imp_fle fle_not_nan)
  show "opt_tickInterval (fst (DefaultOptimizer_Optimize env st opt)) = interval \<and>
      \<not> new_session l (imp_activeLimitW (impGuard (fst (DefaultOptimizer_Optimize env st opt))))"
    using t(2,4) i same_session [OF nl] by (simp add: o)
  show "min (ScaleTicks interval importBreachTicks) (imp_breachTicks (impGuard opt) + 1) \<le>
      imp_breachTicks (impGuard (fst (DefaultOptimizer_Optimize env st opt)))"
    using t(1) i by (simp add: o leaky_def)
  show "breached (snd (DefaultOptimizer_Optimize env st opt))" if "ScaleTicks interval importBreachTicks \<le> imp_breachTicks (impGuard opt) + 1"
    using that t(1,3) i by (auto simp: o leaky_def split: if_splits)
next
  show "0 < ScaleTicks interval importBreachTicks" using scaleTicks_ge [of 3 "SetTickInterval interval NewDefaultOptimizer"]
    by (simp add: scaleTicks_ScaleTicks SetTickInterval_def importBreachTicks_def)
qed

text \<open>
  An import over the cap is reported within its session. Once the cap is the one the
  import guard works on, or within 100 W of it, an import of more than 100 W over it on as many
  consecutive metered ticks as the scaled threshold ends in a breach.
\<close>

theorem import_breach_reported:
  assumes "\<forall>st \<in> set sts. import_over l st" and "0 \<le> imp_breachTicks (impGuard opt)" and "sts \<noteq> []"
    and "\<not> new_session l (imp_activeLimitW (impGuard opt))"
    and "ScaleTicks (opt_tickInterval opt) importBreachTicks \<le> int (length sts)"
  shows "Breach (last (snd (run_of (DefaultOptimizer_Optimize env) sts opt))) \<noteq> None"
  using import_check.reported_by_threshold [OF _ assms(2,1,3), of "opt_tickInterval opt" env] assms(2,4,5) unfolding breached_def by simp

theorem import_breach_reported_witness:
  "Breach (last (snd (run_of (DefaultOptimizer_Optimize home_env)
     (replicate 3 (home (NewGridState\<lparr>NetW := Fin 5000, ImportLimitW := Fin 1000\<rparr>) None))
     (NewDefaultOptimizer\<lparr>impGuard := new_importGuard (Fin 1000)\<rparr>)))) \<noteq> None"
  by (rule import_breach_reported [where l = "Fin 1000"]) (simp_all add: import_over_def NewGridState_def NewDefaultOptimizer_def
      ScaleTicks_def importBreachTicks_def complianceBreachW_def fmax_def flt_def feq_def new_importGuard_def new_session_def)

section \<open>A generation cap that keeps moving\<close>

definition only_gen_cap :: "SystemState \<Rightarrow> bool" where
  "only_gen_cap st \<longleftrightarrow> \<not> ceases st \<and> is_nan (gc_exportLimitW (limits_of st)) \<and> is_nan (gc_importLimitW (limits_of st)) \<and>
     \<not> is_nan (gc_maxLimitW (limits_of st))"

definition gen_cap :: "SystemState \<Rightarrow> f64" where "gen_cap st = gc_maxLimitW (limits_of st)"

lemma dictated_breach:
  assumes "dictated st opt (empty_plan now) = (b1, s1, followed, p1)"
  shows "Breach p1 = None"
  using assms
proof (cases rule: dictated_cases)
  case fixed
  then show ?thesis using fixed_only [of "empty_plan now"] by (metis batt_only_def empty_plan_def Plan.select_convs(6) snd_conv)
next
  case plan
  then show ?thesis using plan_rule_solar(2) [where p = "empty_plan now"] by (metis empty_plan_def Plan.select_convs(6) snd_conv)
qed

lemma gen_guard_frame:
  "opt_genGuard (fst (applyExportLimitRule sol evses ew l n s bs (opt, p))) = opt_genGuard opt"
  "opt_genGuard (fst (checkExportLimitConvergence l n op)) = opt_genGuard (fst op)"
  "opt_genGuard (fst (applyImportLimitRule bs l n op)) = opt_genGuard (fst op)"
  "opt_genGuard (fst (checkImportConvergence l n op)) = opt_genGuard (fst op)"
  "opt_genGuard (fst (checkBatterySafety bs op)) = opt_genGuard (fst op)"
proof -
  show "opt_genGuard (fst (applyExportLimitRule sol evses ew l n s bs (opt, p))) = opt_genGuard opt"
  proof (cases "is_nan l")
    case False
    show ?thesis by (rule export_rule_cases [OF False, of sol evses ew n bs opt p s]) simp
  qed (simp add: applyExportLimitRule_def)
  show "opt_genGuard (fst (checkBatterySafety bs op)) = opt_genGuard (fst op)" unfolding checkBatterySafety_def
    by (rule fold_invariant_set [where P = "\<lambda>a. opt_genGuard (fst a) = opt_genGuard (fst op)"]) (simp_all add: safety_step_def Let_def case_prod_unfold)
qed (simp_all add: checkExportLimitConvergence_def applyImportLimitRule_def import_defend_def checkImportConvergence_def Let_def case_prod_unfold)

lemma check_gen_fresh:
  assumes "checkGenLimitConvergence sol bs n l (o1, p) = (o2, q)" and "\<not> is_nan l" and "new_session l (gen_activeLimitW (opt_genGuard o1))"
  shows "gen_activeLimitW (opt_genGuard o2) = l" and "q = p"
proof -
  have k: "2 \<le> scaleTicks o1 genBreachTicks" using scaleTicks_ge [of genBreachTicks o1] by (simp add: genBreachTicks_def)
  then have n: "\<not> scaleTicks o1 genBreachTicks \<le> leaky (scaleTicks o1 genBreachTicks) ov 0" for ov by (simp add: leaky_def)
  show "q = p" "gen_activeLimitW (opt_genGuard o2) = l"
    using assms n by (auto simp: checkGenLimitConvergence_def Let_def)
qed

lemma gen_churn_tick:
  assumes "only_gen_cap st" and "\<not> EnforceAusLimits opt" and "new_session (gen_cap st) (gen_activeLimitW (opt_genGuard opt))"
    and "DefaultOptimizer_Optimize env st opt = (opt', plan)"
  shows "Breach plan = None" and "gen_activeLimitW (opt_genGuard opt') = gen_cap st" and "\<not> EnforceAusLimits opt'"
proof -
  have nc: "\<not> ceases st" and x: "is_nan (gc_exportLimitW (limits_of st))" and i: "is_nan (gc_importLimitW (limits_of st))"
    and g: "\<not> is_nan (gen_cap st)" using assms(1) by (simp_all add: only_gen_cap_def gen_cap_def)
  have "Breach plan = None \<and> gen_activeLimitW (opt_genGuard opt') = gen_cap st \<and> \<not> EnforceAusLimits opt'"
  proof (rule optimize_cases [OF nc assms(4)], goal_cases)
    case (1 now o1 b1 s1 followed p1 o2 b2 s2 capW p2 b3 p3 o3 p4)
    have o1: "opt_genGuard o1 = opt_genGuard opt" "EnforceAusLimits o1 = EnforceAusLimits opt"
      unfolding 1(1) using holds_frame [where f = opt_genGuard] holds_frame [where f = EnforceAusLimits] by simp_all
    have p1: "Breach p1 = None" by (rule dictated_breach [OF 1(2)])
    have e2: "\<not> EnforceAusLimits o2" using blank_eq(5) [OF blank_compliance [OF 1(3)]] o1(2) assms(2) by simp
    have c: "Breach p2 = None \<and> gen_activeLimitW (opt_genGuard o2) = gen_cap st"
    proof (rule compliance_cases [OF 1(3)], goal_cases)
      case (1 q1 c1 t1 r1 q2 r2 r3 q4 r4 q5 c5 r5 q6 r6 c7 r7 q8 r8)
      have "opt_genGuard q2 = opt_genGuard opt"
        using 1(1,2) [THEN arg_cong, of "\<lambda>x. opt_genGuard (fst x)"] o1(1) by (simp add: gen_guard_frame)
      moreover have r3: "Breach r3 = None" using 1(1-3) x p1 by (auto simp: applyExportLimitRule_def checkExportLimitConvergence_def applyGenLimitRule_def)
      ultimately have q4: "gen_activeLimitW (opt_genGuard q4) = gen_cap st" "Breach r4 = None"
        using check_gen_fresh [OF 1(4)] g assms(3) by (simp_all add: gen_cap_def)
      have r6: "Breach r6 = None" using 1(5,6) i q4(2) by (auto simp: applyImportLimitRule_def checkImportConvergence_def)
      have "opt_genGuard q6 = opt_genGuard q4"
        using 1(5,6) [THEN arg_cong, of "\<lambda>x. opt_genGuard (fst x)"] by (simp add: gen_guard_frame)
      moreover have "\<not> EnforceAusLimits q6" using 1(9) e2 1(8) blank_rules(6) blank_eq(5) by (metis Pair_inject fst_conv)
      ultimately show ?case using r6 q4 1(9) by (auto split: if_splits)
    qed
    have p4: "Breach p4 = None" "opt_genGuard o3 = opt_genGuard o2"
    proof -
      have b3: "Breach p3 = None" using breach_economics [OF 1(4)] c by simp
      have "Breach (fold (restore_solar k) sol q) = Breach q" for k sol q by (induction sol arbitrary: q) (simp_all add: restore_solar_def)
      then have r: "Breach (applyRestoreRule (Solar st) b3 k p3) = None" for k
        using restore_batteries(1) [of "fold (restore_solar k) (Solar st) p3" b3] b3 by (simp add: applyRestoreRule_def batt_only_def)
      have "checkBatterySafety (Batteries st) (o2, applyRestoreRule (Solar st) b3 (solar_cap_active o2 (limits_of st)) p3) = (o3, p4)"
        by (rule finishing_cases [OF 1(5)]) (use e2 in auto)
      then show "Breach p4 = None" "opt_genGuard o3 = opt_genGuard o2"
        using safety_grows(2) [of "applyRestoreRule (Solar st) b3 (solar_cap_active o2 (limits_of st)) p3" "Batteries st" o2] r
          gen_guard_frame(5) [of "Batteries st" "(o2, applyRestoreRule (Solar st) b3 (solar_cap_active o2 (limits_of st)) p3)"]
        by (simp_all add: batt_only_def)
    qed
    have "Breach plan = None" using breach_stamp p4(1) 1(6) by (metis none_breached)
    moreover have "opt_genGuard opt' = opt_genGuard o3" "EnforceAusLimits opt' = EnforceAusLimits o3"
      unfolding 1(7) using record_frame [where f = opt_genGuard] record_frame [where f = EnforceAusLimits] by simp_all
    moreover have "\<not> EnforceAusLimits o3" using blank_eq(5) [OF blank_finishing [OF 1(5)]] e2 by simp
    ultimately show ?case using c p4(2) by simp
  qed
  then show "Breach plan = None" and "gen_activeLimitW (opt_genGuard opt') = gen_cap st" and "\<not> EnforceAusLimits opt'" by simp_all
qed

text \<open>
  A generation cap that keeps moving is never reported as broken. If a generation cap is
  the only limit, its value changes by more than 100 W from every tick to the next, and gross caps are
  not enforced, then no plan of the run carries a breach, however far the generation stays over all of
  the caps: every change starts the count anew. (The export limit counts on: \<open>export_breach_reported\<close>.)
\<close>

theorem moving_gen_cap_never_reported:
  assumes "\<forall>st \<in> set sts. only_gen_cap st" and "\<not> EnforceAusLimits opt"
    and "sts = [] \<or> new_session (gen_cap (hd sts)) (gen_activeLimitW (opt_genGuard opt))"
    and "successively (\<lambda>st st'. new_session (gen_cap st') (gen_cap st)) sts"
  shows "\<forall>p \<in> set (snd (run_of (DefaultOptimizer_Optimize env) sts opt)). Breach p = None"
  using assms
proof (induction sts arbitrary: opt)
  case (Cons st sts)
  obtain opt' plan where o: "DefaultOptimizer_Optimize env st opt = (opt', plan)" by fastforce
  note t = gen_churn_tick [OF _ Cons.prems(2) _ o]
  have "\<forall>p \<in> set (snd (run_of (DefaultOptimizer_Optimize env) sts opt')). Breach p = None"
    by (rule Cons.IH) (use Cons.prems t in \<open>auto simp: successively_Cons\<close>)
  then show ?case using t Cons.prems by (simp add: o Let_def case_prod_unfold)
qed simp

theorem moving_gen_cap_never_reported_witness:
  "list_all (\<lambda>p. Breach p = None) (snd (run_of (DefaultOptimizer_Optimize home_env)
     (map (\<lambda>l. home (NewGridState\<lparr>MaxLimitW := l\<rparr>) None) [Fin 1000, Fin 2000, Fin 1000, Fin 2000]) NewDefaultOptimizer))"
  using moving_gen_cap_never_reported [of "map (\<lambda>l. home (NewGridState\<lparr>MaxLimitW := l\<rparr>) None) [Fin 1000, Fin 2000, Fin 1000, Fin 2000]"
      NewDefaultOptimizer home_env]
  by (simp add: list_all_iff only_gen_cap_def gen_cap_def NewGridState_def NewDefaultOptimizer_def new_session_def complianceBreachW_def)

end
