(* ===== verification/OptLoop.thy ===== *)
theory OptLoop
  imports OptBreach
begin

text \<open>
  The optimizer in a loop with one ideal pack: what it commands on a tick is what it measures on the
  next. The theorems show where the rules, which read a measured power that their own command has
  produced, do not settle. Powers are whole watts.
\<close>

section \<open>The loop\<close>

definition commanded :: "f64 \<Rightarrow> Plan \<Rightarrow> f64" where
  "commanded w p = (case BatteryCommands p of [] \<Rightarrow> w | c # _ \<Rightarrow> bc_SetpointW c)"

fun loop :: "planner_env \<Rightarrow> (f64 \<Rightarrow> SystemState) \<Rightarrow> nat \<Rightarrow> f64 \<Rightarrow> DefaultOptimizer \<Rightarrow> (f64 \<times> ComplianceBreach option) list" where
  "loop env site 0 w opt = []"
| "loop env site (Suc k) w opt =
     (let (opt', p) = DefaultOptimizer_Optimize env (site w) opt
      in (commanded w p, Breach p) # loop env site k (commanded w p) opt')"

text \<open>Two modes that take turns: a tick in one leads to the other.\<close>

lemma loop_alternates:
  assumes "\<And>up w opt opt' p. mode up w opt \<Longrightarrow> DefaultOptimizer_Optimize env (site w) opt = (opt', p) \<Longrightarrow>
      commanded w p = next_w up \<and> Breach p = None \<and> mode (\<not> up) (next_w up) opt'"
    and "mode up w opt"
  shows "loop env site k w opt = map (\<lambda>j. (next_w (if even j then up else \<not> up), None :: ComplianceBreach option)) [0..<k]"
  using assms(2)
proof (induction k arbitrary: up w opt)
  case (Suc k)
  obtain opt' p where o: "DefaultOptimizer_Optimize env (site w) opt = (opt', p)" by fastforce
  let ?m = "\<lambda>up k. map (\<lambda>j. (next_w (if even j then up else \<not> up), None :: ComplianceBreach option)) [0..<k]"
  have "?m up (Suc k) = (next_w up, None) # ?m (\<not> up) k"
    unfolding upt_conv_Cons [OF zero_less_Suc] map_Suc_upt [symmetric] by (auto simp: comp_def)
  moreover have "loop env site (Suc k) w opt = (next_w up, None) # ?m (\<not> up) k"
    using Suc.IH [of "\<not> up" "next_w up" opt'] assms(1) [OF Suc.prems o] o by simp
  ultimately show ?case by (simp only:)
qed simp

section \<open>Whole watts\<close>

definition W :: "int \<Rightarrow> f64" where "W n = Fin (of_int n)"

lemma W_simps [simp]:
  "W a = W b \<longleftrightarrow> a = b" "flt (W a) (W b) \<longleftrightarrow> a < b" "fle (W a) (W b) \<longleftrightarrow> a \<le> b" "feq (W a) (W b) \<longleftrightarrow> a = b" "\<not> is_nan (W a)"
  "fmin (W a) (W b) = W (min a b)" "fmax (W a) (W b) = W (max a b)" "fneg (W a) = W (- a)" "fabs (W a) = W \<bar>a\<bar>"
  by (auto simp: W_def of_int_min of_int_max feq_def)

lemma W_arith:
  "\<bar>a + b\<bar> \<le> 2 ^ 53 \<Longrightarrow> fadd (W a) (W b) = W (a + b)" "\<bar>a - b\<bar> \<le> 2 ^ 53 \<Longrightarrow> fsub (W a) (W b) = W (a - b)"
  using fl_of_int [of "a + b"] fl_of_int [of "a - b"] by (simp_all add: W_def)

lemma W_Fin: "Fin 0 = W 0" "Fin 1 = W 1" "Fin (numeral n) = W (numeral n)"
  by (simp_all add: W_def)

section \<open>A site with one pack\<close>

text \<open>One connected pack well above the reserve, a load of its own and no other device.\<close>

definition loop_pack :: "int \<Rightarrow> f64 \<Rightarrow> BatteryState" where
  "loop_pack m w = (NewBatteryState ''pack'')
     \<lparr>bs_PowerW := w, bs_SOC := W 60, bs_MaxChargeW := W m, bs_MaxDischargeW := W m, bs_Connected := True, bs_Energized := True\<rparr>"

lemma loop_pack_sel [simp]:
  "bs_Name (loop_pack m w) = ''pack''" "bs_PowerW (loop_pack m w) = w" "bs_SOC (loop_pack m w) = W 60"
  "bs_MaxDischargeW (loop_pack m w) = W m" "bs_MaxChargeW (loop_pack m w) = W m" "bs_Connected (loop_pack m w)" "bs_Energized (loop_pack m w)"
  "(loop_pack m w)\<lparr>bs_PowerW := w'\<rparr> = loop_pack m w'"
  by (simp_all add: loop_pack_def NewBatteryState_def)

definition loop_site :: "int \<Rightarrow> int \<Rightarrow> f64 \<Rightarrow> CSIPControlState option \<Rightarrow> f64 \<Rightarrow> SystemState" where
  "loop_site m load importL cc w =
     \<lparr>st_Timestamp = 1, Batteries = [loop_pack m w], Solar = [], EVSEs = [],
      Grid = NewGridState\<lparr>NetW := fsub (W load) w, ImportLimitW := importL\<rparr>, CSIPControl = cc, st_ClockOffset = 0,
      DailyPlanTarget = None\<rparr>"

lemma loop_site_sel [simp]:
  "Batteries (loop_site m load l cc w) = [loop_pack m w]" "Solar (loop_site m load l cc w) = []" "EVSEs (loop_site m load l cc w) = []"
  "CSIPControl (loop_site m load l cc w) = cc" "DailyPlanTarget (loop_site m load l cc w) = None"
  "NetW (Grid (loop_site m load l cc w)) = fsub (W load) w" "ImportLimitW (Grid (loop_site m load l cc w)) = l"
  "st_ClockOffset (loop_site m load l cc w) = 0"
  by (simp_all add: loop_site_def)

lemma loop_site_derived [simp]:
  "TotalSolarW (loop_site m load l cc w) = W 0" "TotalEVSEW (loop_site m load l cc w) = W 0"
  "TotalBatteryW (loop_site m load l cc w) = fadd (W 0) w"
  by (simp_all add: TotalSolarW_def TotalEVSEW_def TotalBatteryW_def W_Fin)

text \<open>An optimizer with the default thresholds and no reserve hold.\<close>

definition default_tuning :: "DefaultOptimizer \<Rightarrow> bool" where
  "default_tuning opt \<longleftrightarrow> SOCReserve opt = Fin 20 \<and> SOCFullThreshold opt = Fin 95 \<and> ExcessSolarThreshold opt = Fin 100 \<and>
     \<not> EnforceAusLimits opt \<and> battReserveHold opt = (\<lambda>_. False) \<and> ImportMarginFrac opt = fl (20 / 100)"

lemma default_new: "default_tuning NewDefaultOptimizer" "default_tuning (NewDefaultOptimizer\<lparr>CostModel := m\<rparr>)"
  by (simp_all add: default_tuning_def NewDefaultOptimizer_def)

lemma default_blank:
  assumes "blank o1 = blank o2"
  shows "default_tuning o1 = default_tuning o2"
proof -
  have "ImportMarginFrac o1 = ImportMarginFrac o2" using arg_cong [OF assms, of ImportMarginFrac] by (simp add: blank_def)
  then show ?thesis unfolding default_tuning_def by (simp add: blank_eq(1,2,5,8,9) [OF assms])
qed

lemma no_hold:
  assumes "default_tuning opt"
  shows "default_tuning (updateReserveHolds [loop_pack m w] opt)" and "impGuard (updateReserveHolds [loop_pack m w] opt) = impGuard opt"
    and "costModel (updateReserveHolds [loop_pack m w] opt) = costModel opt" and "opt_tickInterval (updateReserveHolds [loop_pack m w] opt) = opt_tickInterval opt"
  using assms
  by (simp_all add: default_tuning_def updateReserveHolds_def hold_step_def Let_def W_Fin costModel_def cong: option.case_cong)

lemma not_blocked: "default_tuning opt \<Longrightarrow> \<not> dischargeBlocked opt (loop_pack m w)"
  by (simp add: default_tuning_def dischargeBlocked_def W_Fin)

lemma safe_pack:
  assumes "default_tuning opt" and "BatteryCommands p = [c]" and "bc_Name c = ''pack''" and "\<not> flt (bc_SetpointW c) (Fin 0)"
  shows "snd (checkBatterySafety [loop_pack m w] (opt, p)) = p"
proof -
  have "\<not> chargeCommandedFor opt ''pack'' p" using assms by (simp add: chargeCommandedFor_def command_of_def)
  moreover have "2 \<le> scaleTicks opt opt_batteryReserveDrainTicks" by (rule scaleTicks_ge) (simp add: opt_batteryReserveDrainTicks_def)
  ultimately show ?thesis using assms(1)
    by (simp add: checkBatterySafety_def safety_step_def Let_def default_tuning_def opt_criticalBatteryInversion_def W_Fin)
qed

section \<open>A tick of the loop\<close>

text \<open>What is left of the rules at such a site: fixed dispatch, the import limit with its check,
  self-consumption, peak discharge and the restore rule.\<close>

lemma loop_tick:
  assumes "default_tuning opt" and "\<not> ceases (loop_site m load l cc w)"
    and "is_nan (gc_exportLimitW (limits_of (loop_site m load l cc w)))" and "is_nan (gc_maxLimitW (limits_of (loop_site m load l cc w)))"
    and "DefaultOptimizer_Optimize env (loop_site m load l cc w) opt = (opt', plan)"
  obtains now b1 p1 o4 o5 b5 p5 o6 p6 b7 s7 p7 b8 s8 p8 o9 p9
  where "applyFixedDispatchRule cc [loop_pack m w] (W 0) (InferredLoadW (loop_site m load l cc w))
      (dischargeBlocked (updateReserveHolds [loop_pack m w] opt)) (empty_plan now) = (b1, p1)"
    and "applyImportLimitRule b1 (gc_importLimitW (limits_of (loop_site m load l cc w))) (fsub (W load) w) (o4, p1) = (o5, b5, p5)"
    and "checkImportConvergence (gc_importLimitW (limits_of (loop_site m load l cc w))) (fsub (W load) w) (o5, p5) = (o6, p6)"
    and "applySelfConsumptionRule b5 (surplus_of (loop_site m load l cc w)) (Fin 100) (Fin 95) p6 = (b7, s7, p7)"
    and "applyDemandResponseRule b7 s7 False (is_peak env now (loop_site m load l cc w) o6) NaN (dischargeBlocked o6) p7 = (b8, s8, p8)"
    and "checkBatterySafety [loop_pack m w] (o6, fold restore_battery b8 p8) = (o9, p9)"
    and "plan = stamp_plan cc p9" and "opt' = record_cmds (BatteryCommands plan) o9"
    and "impGuard o4 = impGuard opt" and "default_tuning o4" and "default_tuning o5" and "default_tuning o6" and "costModel o6 = costModel opt"
proof -
  let ?st = "loop_site m load l cc w"
  show ?thesis
  proof (rule optimize_cases [OF assms(2,5)], goal_cases)
    case (1 now o1 b1 s1 followed p1 o2 b2 s2 capW p2 b3 p3 o3 p4)
    note econ = 1(4) and fin = 1(5) and pl = 1(6,7) and o1 = 1(1)
    have d1: "default_tuning o1" "impGuard o1 = impGuard opt" "costModel o1 = costModel opt" using no_hold [OF assms(1)] 1(1) by simp_all
    have 2: "s1 = surplus_of ?st" "\<not> followed" "applyFixedDispatchRule cc [loop_pack m w] (W 0) (InferredLoadW ?st) (dischargeBlocked o1) (empty_plan now) = (b1, p1)"
      using 1(2) unfolding dictated_def Let_def by (auto simp: case_prod_unfold applyPlanRule_def split: if_splits)
    show ?case
    proof (rule compliance_cases [OF 1(3)], goal_cases)
      case (1 q1 c1 t1 r1 q2 r2 r3 q4 r4 q5 c5 r5 q6 r6 c7 r7 q8 r8)
      have n: "impGuard q4 = impGuard o1" "blank q4 = blank o1" "r4 = p1" "c1 = b1" "t1 = s1"
        using 1(1-4) assms(3,4) by (auto simp: applyExportLimitRule_def checkExportLimitConvergence_def applyGenLimitRule_def checkGenLimitConvergence_def)
      have b5: "blank q5 = blank o1" using blank_rules(4) 1(5) n(2) by (metis fst_conv)
      have b6: "blank q6 = blank o1" using blank_rules(5) 1(6) b5 by (metis fst_conv)
      note d = default_blank [OF n(2), unfolded] default_blank [OF b5] default_blank [OF b6]
      have 3: "o2 = q6" "b2 = c5" "s2 = s1" "p2 = r6" "capW = NaN"
        using 1(9,10) d(3) d1(1) n(5) by (auto simp: default_tuning_def split: if_splits)
      have x: "ExcessSolarThreshold o2 = Fin 100" "SOCFullThreshold o2 = Fin 95" "costModel o2 = costModel opt" "\<not> EnforceAusLimits o2"
        using d(3) d1(1) 3(1) blank_eq(6) [OF b6] d1(3) by (simp_all add: default_tuning_def)
      obtain b7 s7 p7 b8 s8 p8 where e: "applySelfConsumptionRule c5 s1 (Fin 100) (Fin 95) r6 = (b7, s7, p7)"
        "applyDemandResponseRule b7 s7 False (is_peak env now ?st q6) NaN (dischargeBlocked q6) p7 = (b8, s8, p8)" "b3 = b8" "p3 = p8"
      proof (rule economics_cases [OF econ], goal_cases)
        case (2 b1 s1 p1 s2 p2 c)
        have "c = NaN" using 2(4) assms(3) 3(5) by (simp add: tou_cap_def opt_nanMin_def is_nan_def)
        then show ?case using 2 x 3 by (intro 2(1) [of b1 s1 p1 b3 s2 p3]) (simp_all add: applyEVChargingRule_def)
      qed (use 2(2) in simp)
      have f: "checkBatterySafety [loop_pack m w] (q6, fold restore_battery b8 p8) = (o3, p4)"
        by (rule finishing_cases [OF fin]) (use x(4) 3(1) e(3,4) in \<open>simp add: applyRestoreRule_def\<close>)
      show ?case
        by (rule that [OF 2(3) [unfolded o1, unfolded loop_site_sel] 1(5) [unfolded n(3,4) loop_site_sel] 1(6) [unfolded loop_site_sel] _ _ f pl [unfolded loop_site_sel]])
          (use 1(5,6) e(1,2) n d d1 2(1) x(3) 3(1) in \<open>simp_all\<close>)
    qed
  qed
qed

lemma after_tick:
  assumes "checkBatterySafety bs (o6, p) = (o9, p9)" and "opt' = record_cmds cs o9"
  shows "default_tuning opt' = default_tuning o6" and "costModel opt' = costModel o6" and "impGuard opt' = impGuard o6"
    and "opt_tickInterval opt' = opt_tickInterval o6"
proof -
  have b: "blank o9 = blank o6" using blank_rules(9) assms(1) by (metis fst_conv)
  have g: "impGuard o9 = impGuard o6" using safety_over(2) assms(1) by (metis fst_conv)
  have c: "f opt' = f o9" if "\<And>o' m. f (o'\<lparr>lastBattCmd := m\<rparr>) = f o'" for f :: "DefaultOptimizer \<Rightarrow> 'a"
    unfolding assms(2) by (rule record_frame) (rule that)
  show "default_tuning opt' = default_tuning o6" using c [of default_tuning] default_blank [OF b] by (simp add: default_tuning_def)
  show "costModel opt' = costModel o6" using c [of costModel] blank_eq(6) [OF b] by (simp add: costModel_def cong: option.case_cong)
  show "impGuard opt' = impGuard o6" "opt_tickInterval opt' = opt_tickInterval o6"
    using c [of impGuard] c [of opt_tickInterval] g blank_eq(3) [OF b] by simp_all
qed

lemma restore_single:
  "BatteryCommands p = [] \<Longrightarrow> 0 < m \<Longrightarrow> restore_battery (loop_pack m w) p = add_batt (batt_cmd ''pack'' (W 0) (Some True)) p"
  "BatteryCommands p = [c] \<Longrightarrow> bc_Name c = ''pack'' \<Longrightarrow> restore_battery (loop_pack m w) p = p"
  by (simp_all add: restore_battery_def hasBatteryCommand_def W_Fin)

lemma empty_plan_cmds [simp]: "BatteryCommands (empty_plan now) = []" "Breach (empty_plan now) = None"
  by (simp_all add: empty_plan_def)

text \<open>A pack that does not charge is left alone by self-consumption while the site imports.\<close>

lemma idle_self:
  assumes "0 \<le> w" and "s \<le> 0" and "- s \<le> 2 ^ 50"
  shows "applySelfConsumptionRule [loop_pack m (W w)] (W s) (Fin 100) (Fin 95) p = ([loop_pack m (W w)], W s, p)"
  using assms by (simp add: applySelfConsumptionRule_def self_step_def keep_charging_def Let_def W_Fin W_arith)

section \<open>Peak discharge\<close>

lemma peak_single:
  assumes "BatteryCommands p = []" and "\<not> blk (loop_pack m (W w))" and "0 \<le> w" and "w \<le> m" and "m \<le> 2 ^ 50"
  shows "applyDemandResponseRule [loop_pack m (W w)] s False True NaN blk p =
    (if m - w < 50 then ([loop_pack m (W w)], s, p)
     else ([loop_pack m (W m)], fadd s (W (m - w)), add_batt (batt_cmd ''pack'' (W m) None) p))"
  using assms by (simp add: applyDemandResponseRule_def peak_step_def hasBatteryCommand_def AvailableDischargeW_def Let_def W_Fin W_arith)

lemma peak_tick:
  assumes "default_tuning opt" and "costModel opt = Some cm" and "\<forall>t. IsPeakHour cm (local_hour env t)"
    and "50 \<le> m" and "m \<le> load" and "load \<le> 2 ^ 50" and "w = 0 \<or> w = m"
    and "DefaultOptimizer_Optimize env (loop_site m load NaN None (W w)) opt = (opt', plan)"
  shows "commanded (W w) plan = (if w = 0 then W m else W 0)" and "Breach plan = None" and "default_tuning opt'" and "costModel opt' = Some cm"
proof -
  let ?st = "loop_site m load NaN None (W w)"
  have s: "\<not> ceases ?st" "is_nan (gc_exportLimitW (limits_of ?st))" "is_nan (gc_maxLimitW (limits_of ?st))" "gc_importLimitW (limits_of ?st) = NaN"
    by (simp_all add: ceases_def limits_of_def deriveGridConstraints_def Let_def loop_site_def NewGridState_def)
  have w: "0 \<le> w" "w \<le> m" using assms(4,7) by auto
  have sp: "surplus_of ?st = W (w - load)"
    using assms(5,6) w by (simp add: surplus_of_def W_arith)
  have "(commanded (W w) plan = (if w = 0 then W m else W 0) \<and> Breach plan = None) \<and> default_tuning opt' \<and> costModel opt' = Some cm"
  proof (rule loop_tick [OF assms(1) s(1-3) assms(8)], goal_cases)
    case (1 now b1 p1 o4 o5 b5 p5 o6 p6 b7 s7 p7 b8 s8 p8 o9 p9)
    have a: "b1 = [loop_pack m (W w)]" "p1 = empty_plan now" using 1(1) by (simp_all add: applyFixedDispatchRule_def)
    have b: "b5 = [loop_pack m (W w)]" "p5 = empty_plan now" "p6 = empty_plan now"
      using 1(2,3) a s(4) by (auto simp: applyImportLimitRule_def checkImportConvergence_def)
    have c: "b7 = [loop_pack m (W w)]" "s7 = W (w - load)" "p7 = empty_plan now"
      using 1(4) idle_self [of w "w - load" m] w assms(5,6) sp b by simp_all
    have pk: "is_peak env now ?st o6" using 1(13) assms(2,3) by (simp add: is_peak_def server_hour_def)
    have d: "applyDemandResponseRule [loop_pack m (W w)] (W (w - load)) False True NaN (dischargeBlocked o6) (empty_plan now) = (b8, s8, p8)"
      using 1(5) pk c by simp
    have r: "fold restore_battery b8 p8 =
        add_batt (if w = 0 then batt_cmd ''pack'' (W m) None else batt_cmd ''pack'' (W 0) (Some True)) (empty_plan now)"
      using d peak_single [of "empty_plan now" "dischargeBlocked o6" m w] not_blocked [OF 1(12)] w assms(4-7)
      by (auto simp: restore_single split: if_splits)
    have "p9 = fold restore_battery b8 p8"
      using safe_pack [OF 1(12), of "fold restore_battery b8 p8" _ m "W w"] r 1(6) assms(4) by (simp add: W_Fin)
    then show ?case using r 1(7,13) after_tick [OF 1(6,8)] 1(12) assms(2) by (simp add: stamp_plan_def commanded_def)
  qed
  then show "commanded (W w) plan = (if w = 0 then W m else W 0)" and "Breach plan = None" and "default_tuning opt'" and "costModel opt' = Some cm" by simp_all
qed

definition always_peak :: TOUCostModel where
  "always_peak = \<lparr>periods = [], defaultRate = Fin 1, peakThreshold = Fin 0\<rparr>"

lemma always_peak: "IsPeakHour always_peak h"
  by (simp add: IsPeakHour_def CurrentRate_def always_peak_def)

text \<open>
  In a peak hour the pack is switched on and off. If a pack that follows its commands
  supplies a load of at least its power in a peak hour, and no limit, control or daily plan is in
  force, then the commands of successive ticks alternate between full discharge and 0 W: a pack already
  at full power has no discharge left to offer, gets no command, and is set to idle.
\<close>

theorem peak_discharge_alternates:
  assumes "default_tuning opt" and "costModel opt = Some cm" and "\<forall>t. IsPeakHour cm (local_hour env t)"
    and "50 \<le> m" and "m \<le> load" and "load \<le> 2 ^ 50"
  shows "loop env (loop_site m load NaN None) k (W 0) opt = map (\<lambda>j. (if even j then W m else W 0, None)) [0..<k]"
proof -
  let ?mode = "\<lambda>up w opt. w = (if up then W 0 else W m) \<and> default_tuning opt \<and> costModel opt = Some cm"
  have "loop env (loop_site m load NaN None) k (W 0) opt =
      map (\<lambda>j. ((\<lambda>up. if up then W m else W 0) (if even j then True else \<not> True), None)) [0..<k]"
    by (rule loop_alternates [where mode = ?mode])
      (use assms in \<open>auto dest: peak_tick [of _ cm env m load 0] peak_tick [of _ cm env m load m]\<close>)
  then show ?thesis by (simp add: if_distrib cong: if_cong)
qed

theorem peak_discharge_alternates_witness:
  "loop home_env (loop_site 5000 8000 NaN None) 4 (W 0) (NewDefaultOptimizer\<lparr>CostModel := Some always_peak\<rparr>) =
     [(W 5000, None), (W 0, None), (W 5000, None), (W 0, None)]"
  by (subst peak_discharge_alternates [where cm = always_peak])
    (simp_all add: default_new upt_rec always_peak costModel_def NewDefaultOptimizer_def default_tuning_def)

section \<open>Defending an import cap\<close>

lemma conservative_0: "default_tuning opt \<Longrightarrow> conservative (W 0) (ImportMarginFrac opt) = W 0"
proof -
  assume "default_tuning opt"
  then have m: "ImportMarginFrac opt = fl (20 / 100)" by (simp add: default_tuning_def)
  obtain q where q: "margin_of (fl (20 / 100)) = Fin q" "\<bar>q\<bar> \<le> 3"
    using fl_finite [of "20 / 100"] rnd_abs_le [of "20 / 100"] by (auto simp: margin_of_def)
  have "2 * \<bar>1 - q\<bar> + 1 \<le> 9" using q(2) abs_triangle_ineq4 [of 1 q] by simp
  then have "fl (1 - q) = Fin (rnd (1 - q))" by (intro fl_finite) (rule order.strict_trans1, assumption, simp)
  then show ?thesis unfolding conservative_def m q(1) by (simp add: W_def)
qed

lemma commanded_kept:
  assumes "BatteryCommands p = [c]" and "bc_Name c = ''pack''"
  shows "applySelfConsumptionRule [loop_pack m w] s e f p = ([loop_pack m w], s, p)"
    and "applyDemandResponseRule [loop_pack m w] s d k x blk p = ([loop_pack m w], s, p)"
  using assms by (simp_all add: applySelfConsumptionRule_def self_step_def applyDemandResponseRule_def peak_step_def hasBatteryCommand_def Let_def)

lemma import_single:
  assumes "default_tuning opt" and "0 \<le> w" and "w \<le> d" and "d < m" and "m \<le> 2 ^ 50" and "50 \<le> d"
    and "is_nan (imp_activeLimitW (impGuard opt)) \<or> imp_activeLimitW (impGuard opt) = W 0"
    and "is_nan (dischargeW (impGuard opt)) \<or> (\<exists>p \<le> d. dischargeW (impGuard opt) = W p)"
    and "applyImportLimitRule [loop_pack m (W w)] (W 0) (W (d - w)) (opt, empty_plan now) = (opt', b5, p5)"
    and "w = d \<or> d \<le> m - w"
  shows "b5 = [loop_pack m (W (min (m - w) d))]" and "p5 = add_batt (batt_cmd ''pack'' (W (min (m - w) d)) None) (empty_plan now)"
    and "imp_activeLimitW (impGuard opt') = W 0" and "dischargeW (impGuard opt') = W (min (m - w) d)"
    and "imp_breachTicks (impGuard opt') = (if is_nan (imp_activeLimitW (impGuard opt)) then 0 else imp_breachTicks (impGuard opt))"
proof -
  let ?g = "import_counts (W 0) (W (d - w)) (W (d - w)) (import_session (W 0) (W (d - w)) opt)"
  have s: "imp_activeLimitW ?g = W 0" "is_nan (dischargeW ?g) \<or> (\<exists>p \<le> d. dischargeW ?g = W p)"
    "imp_breachTicks ?g = (if is_nan (imp_activeLimitW (impGuard opt)) then 0 else imp_breachTicks (impGuard opt))"
    using assms(7,8) by (auto simp: import_counts_def import_session_def new_session_def Let_def new_importGuard_def complianceBreachW_def W_Fin W_arith)
  have l: "import_slew opt (W d) ?g = (W d, ?g)" using s(2) by (auto simp: import_slew_def Let_def)
  have u: "fmax (Fin 0) (W (d - w)) = W (d - w)" "fadd (W (d - w)) (pack_discharge [loop_pack m (W w)] (Fin 0)) = W d"
    using assms(2-5) by (simp_all add: pack_discharge_def W_Fin W_arith)
  have t: "fmax (Fin 0) (fsub (W d) (conservative (W 0) (ImportMarginFrac opt))) = W d"
    using assms(2-5) conservative_0 [OF assms(1)] by (simp add: W_Fin W_arith)
  have d: "import_defend (opt\<lparr>impGuard := ?g\<rparr>) (W 0) (W (d - w)) (W d) [loop_pack m (W w)] (empty_plan now) = (opt', b5, p5)"
    using assms(9) l u t assms(6) by (simp add: applyImportLimitRule_def Let_def W_Fin)
  have b: "\<not> dischargeBlocked (opt\<lparr>impGuard := ?g\<rparr>) (loop_pack m (W w))"
    using assms(1) by (simp add: default_tuning_def dischargeBlocked_def W_Fin)
  have h: "halt_charge [loop_pack m (W w)] (empty_plan now) = ([loop_pack m (W w)], empty_plan now)" "committed (empty_plan now) = W 0"
    by (simp_all add: halt_charge_def halted_def committed_def empty_plan_def W_Fin)
  have "fmin (AvailableDischargeW (loop_pack m (W w))) (W d) = W (min (m - w) d)"
    using assms(2-6) by (simp add: AvailableDischargeW_def W_Fin W_arith)
  then have i: "walk (\<lambda>(remaining, _, _). flt remaining (Fin 1)) (import_step (dischargeBlocked (opt\<lparr>impGuard := ?g\<rparr>))) [loop_pack m (W w)] (W d, W 0, empty_plan now)
      = ([loop_pack m (W (min (m - w) d))], W (d - min (m - w) d), W (min (m - w) d), add_batt (batt_cmd ''pack'' (W (min (m - w) d)) None) (empty_plan now))"
    using assms(2-6) b by (simp add: import_step_def commanded_base_def command_of_def hasBatteryCommand_def Let_def W_Fin W_arith)
  have x: "fmax (Fin 0) (fsub (W d) (W 0)) = W d" using assms(2-6) by (simp add: W_Fin W_arith)
  have y: "(flt (W 0) (W (d - w)) \<and> flt complianceBreachW (W (d - min (m - w) d))) = False" "flt (Fin 0) (W (min (m - w) d)) = True"
    using assms(2-6,10) by (auto simp: complianceBreachW_def W_Fin)
  have "import_defend (opt\<lparr>impGuard := ?g\<rparr>) (W 0) (W (d - w)) (W d) [loop_pack m (W w)] (empty_plan now) =
      (opt\<lparr>impGuard := ?g\<lparr>dischargeW := W (min (m - w) d)\<rparr>\<rparr>, [loop_pack m (W (min (m - w) d))],
        add_batt (batt_cmd ''pack'' (W (min (m - w) d)) None) (empty_plan now))"
    unfolding import_defend_def h(1) Let_def prod.case h(2) x i y by simp
  then have e: "(opt', b5, p5) = (opt\<lparr>impGuard := ?g\<lparr>dischargeW := W (min (m - w) d)\<rparr>\<rparr>, [loop_pack m (W (min (m - w) d))],
      add_batt (batt_cmd ''pack'' (W (min (m - w) d)) None) (empty_plan now))" using d by simp
  then show "b5 = [loop_pack m (W (min (m - w) d))]" and "p5 = add_batt (batt_cmd ''pack'' (W (min (m - w) d)) None) (empty_plan now)"
    and "imp_activeLimitW (impGuard opt') = W 0" and "dischargeW (impGuard opt') = W (min (m - w) d)"
    and "imp_breachTicks (impGuard opt') = (if is_nan (imp_activeLimitW (impGuard opt)) then 0 else imp_breachTicks (impGuard opt))"
    using s(1,3) by simp_all
qed

text \<open>The guard of the import limit in the two modes: about to command the full need, or the rest.\<close>

definition guard_ok :: "int \<Rightarrow> int \<Rightarrow> importGuard \<Rightarrow> bool" where
  "guard_ok d n g \<longleftrightarrow> (is_nan (dischargeW g) \<or> (\<exists>p \<le> d. dischargeW g = W p)) \<and>
     (is_nan (imp_activeLimitW g) \<or> imp_activeLimitW g = W 0 \<and> 0 \<le> imp_breachTicks g \<and> imp_breachTicks g \<le> n)"

lemma cap_tick:
  assumes "default_tuning opt" and "guard_ok d (if w = d then 1 else 0) (impGuard opt)"
    and "0 \<le> w" and "w = d \<or> d \<le> m - w" and "w \<le> d" and "d < m" and "m \<le> 2 ^ 50" and "50 \<le> d"
    and "DefaultOptimizer_Optimize env (loop_site m d (W 0) None (W w)) opt = (opt', plan)"
  shows "commanded (W w) plan = W (min (m - w) d)" and "Breach plan = None" and "default_tuning opt'"
    and "guard_ok d (if w = d then 0 else 1) (impGuard opt')"
proof -
  let ?st = "loop_site m d (W 0) None (W w)" and ?v = "min (m - w) d"
  have s: "\<not> ceases ?st" "is_nan (gc_exportLimitW (limits_of ?st))" "is_nan (gc_maxLimitW (limits_of ?st))" "gc_importLimitW (limits_of ?st) = W 0"
    by (simp_all add: ceases_def limits_of_def deriveGridConstraints_def Let_def loop_site_def NewGridState_def)
  have n: "fsub (W d) (W w) = W (d - w)" using assms(3,5-7) by (simp add: W_arith)
  have "(commanded (W w) plan = W ?v \<and> Breach plan = None) \<and> default_tuning opt' \<and> guard_ok d (if w = d then 0 else 1) (impGuard opt')"
  proof (rule loop_tick [OF assms(1) s(1-3) assms(9)], goal_cases)
    case (1 now b1 p1 o4 o5 b5 p5 o6 p6 b7 s7 p7 b8 s8 p8 o9 p9)
    let ?p = "add_batt (batt_cmd ''pack'' (W ?v) None) (empty_plan now)"
    have a: "b1 = [loop_pack m (W w)]" "p1 = empty_plan now" using 1(1) by (simp_all add: applyFixedDispatchRule_def)
    note i = import_single [OF 1(10) assms(3,5-8) _ _ 1(2) [unfolded a s(4) n] assms(4)]
    have g: "is_nan (imp_activeLimitW (impGuard o4)) \<or> imp_activeLimitW (impGuard o4) = W 0"
      "is_nan (dischargeW (impGuard o4)) \<or> (\<exists>p \<le> d. dischargeW (impGuard o4) = W p)"
      using assms(2) 1(9) by (auto simp: guard_ok_def)
    note i = i [OF g]
    have t5: "0 \<le> imp_breachTicks (impGuard o5)" "imp_breachTicks (impGuard o5) \<le> (if w = d then 1 else 0)"
      using i(5) assms(2) 1(9) by (auto simp: guard_ok_def)
    have th: "2 \<le> scaleTicks o5 importBreachTicks" by (rule scaleTicks_ge) (simp add: importBreachTicks_def)
    have c: "p6 = ?p" "impGuard o6 = (impGuard o5)\<lparr>imp_breachTicks := imp_breachTicks (impGuard o6)\<rparr>"
      "0 \<le> imp_breachTicks (impGuard o6)" "imp_breachTicks (impGuard o6) \<le> (if w = d then 0 else 1)"
    proof -
      have l: "leaky k b x \<le> (if w = d then 0 else 1)" "0 \<le> leaky k b x"
        if "x = imp_breachTicks (impGuard o5)" "w = d \<longrightarrow> \<not> b" for b k x
        using that t5 by (auto simp: leaky_def)
      have o: "(w = d \<longrightarrow> \<not> flt (fadd (W 0) complianceBreachW) (W (d - w)))" using assms(5) by (auto simp: complianceBreachW_def W_Fin W_arith)
      have m: "fmax (Fin 0) (W (d - w)) = W (d - w)" using assms(5) by (simp add: W_Fin)
      have nb: "\<not> scaleTicks o5 importBreachTicks \<le> leaky k (flt (fadd (W 0) complianceBreachW) (W (d - w))) (imp_breachTicks (impGuard o5))" for k
        using l(1) [OF refl o, of k] th by (auto split: if_splits)
      have "(o6, p6) = (o5\<lparr>impGuard := (impGuard o5)\<lparr>imp_breachTicks := leaky (scaleTicks o5 importBreachTicks)
          (flt (fadd (W 0) complianceBreachW) (W (d - w))) (imp_breachTicks (impGuard o5))\<rparr>\<rparr>, ?p)"
        using 1(3) nb unfolding i(1,2) s(4) n checkImportConvergence_def Let_def m by simp
      then show "p6 = ?p" "impGuard o6 = (impGuard o5)\<lparr>imp_breachTicks := imp_breachTicks (impGuard o6)\<rparr>"
        "0 \<le> imp_breachTicks (impGuard o6)" "imp_breachTicks (impGuard o6) \<le> (if w = d then 0 else 1)"
        using l [OF refl o] by simp_all
    qed
    have e: "p7 = ?p" "b7 = [loop_pack m (W ?v)]" using 1(4) commanded_kept(1) [of ?p] unfolding c(1) i(1) by simp_all
    have f: "p8 = ?p" "b8 = [loop_pack m (W ?v)]" using 1(5) commanded_kept(2) [of ?p] unfolding e by simp_all
    have "\<not> min (m - w) d < 0" using assms(3-8) by auto
    then have "p9 = ?p" using 1(6) safe_pack [OF 1(12), of ?p _ m "W w"] restore_single(2) [of ?p] unfolding f by (simp add: W_Fin)
    moreover have "dischargeW (impGuard o6) = W ?v" "imp_activeLimitW (impGuard o6) = W 0"
      using c(2) [THEN arg_cong, of dischargeW] c(2) [THEN arg_cong, of imp_activeLimitW] i(3,4) by simp_all
    then have "guard_ok d (if w = d then 0 else 1) (impGuard o6)" using c(3,4) by (simp add: guard_ok_def)
    ultimately show ?case using 1(7) after_tick [OF 1(6,8)] 1(12)
      by (simp add: stamp_plan_def commanded_def)
  qed
  then show "commanded (W w) plan = W (min (m - w) d)" and "Breach plan = None" and "default_tuning opt'"
    and "guard_ok d (if w = d then 0 else 1) (impGuard opt')" by simp_all
qed



section \<open>Fixed dispatch\<close>

definition dispatch :: "int \<Rightarrow> CSIPControlState" where
  "dispatch v = \<lparr>cc_Source = ''event'', cc_MRID = ''m1'',
     cc_Base = no_base\<lparr>OpModFixedW := Some \<lparr>ap_Multiplier = 0, ap_Value = v\<rparr>\<rparr>, cc_ValidUntil = 0\<rparr>"

lemma dispatch_watts: "\<bar>v\<bar> \<le> 2 ^ 50 \<Longrightarrow> opt_apW \<lparr>ap_Multiplier = 0, ap_Value = v\<rparr> = W v"
  using fl_of_int [of v] by (simp add: opt_apW_def pow10_def W_def)

lemma fixed_single:
  assumes "BatteryCommands p = []" and "\<not> blk (loop_pack m (W w))" and "0 \<le> w" and "w + v \<le> m" and "50 \<le> v" and "m \<le> 2 ^ 50" and "0 \<le> load" and "load \<le> 2 ^ 50"
  shows "applyFixedDispatchRule (Some (dispatch v)) [loop_pack m (W w)] (W 0) (W load) blk p =
    ([loop_pack m (W (w + v))], add_batt (batt_cmd ''pack'' (W (w + v)) None) p)"
  using assms dispatch_watts [of v]
  by (simp add: applyFixedDispatchRule_def dispatch_def no_base_def fixed_step_def hasBatteryCommand_def AvailableDischargeW_def Let_def W_Fin W_arith)

lemma dispatch_tick:
  assumes "default_tuning opt" and "0 \<le> w" and "w + v \<le> m" and "50 \<le> v" and "m \<le> 2 ^ 50" and "0 \<le> load" and "load \<le> 2 ^ 50"
    and "DefaultOptimizer_Optimize env (loop_site m load NaN (Some (dispatch v)) (W w)) opt = (opt', plan)"
  shows "commanded (W w) plan = W (w + v)" and "Breach plan = None" and "default_tuning opt'"
proof -
  let ?st = "loop_site m load NaN (Some (dispatch v)) (W w)"
  have s: "\<not> ceases ?st" "is_nan (gc_exportLimitW (limits_of ?st))" "is_nan (gc_maxLimitW (limits_of ?st))" "gc_importLimitW (limits_of ?st) = NaN"
    by (simp_all add: ceases_def limits_of_def deriveGridConstraints_def Let_def loop_site_def NewGridState_def dispatch_def no_base_def csip_min_def)
  have l: "InferredLoadW ?st = W load" using assms(2-7) by (simp add: InferredLoadW_def W_Fin W_arith)
  have "(commanded (W w) plan = W (w + v) \<and> Breach plan = None) \<and> default_tuning opt'"
  proof (rule loop_tick [OF assms(1) s(1-3) assms(8)], goal_cases)
    case (1 now b1 p1 o4 o5 b5 p5 o6 p6 b7 s7 p7 b8 s8 p8 o9 p9)
    let ?p = "add_batt (batt_cmd ''pack'' (W (w + v)) None) (empty_plan now)"
    have a: "b1 = [loop_pack m (W (w + v))]" "p1 = ?p"
      using 1(1) fixed_single [of "empty_plan now" _ m w v load] not_blocked [OF no_hold(1) [OF assms(1)]] assms(2-7) by (simp_all add: l)
    have b: "b5 = [loop_pack m (W (w + v))]" "p5 = ?p" "p6 = ?p"
      using 1(2,3) a s(4) by (auto simp: applyImportLimitRule_def checkImportConvergence_def)
    have e: "p7 = ?p" "b7 = [loop_pack m (W (w + v))]" using 1(4) commanded_kept(1) [of ?p] unfolding b by simp_all
    have f: "p8 = ?p" "b8 = [loop_pack m (W (w + v))]" using 1(5) commanded_kept(2) [of ?p] unfolding e by simp_all
    have "\<not> w + v < 0" using assms(2,4) by simp
    then have "p9 = ?p" using 1(6) safe_pack [OF 1(12), of ?p _ m "W w"] restore_single(2) [of ?p] unfolding f by (simp add: W_Fin)
    then show ?case using 1(7) after_tick [OF 1(6,8)] 1(12) by (simp add: stamp_plan_def commanded_def)
  qed
  then show "commanded (W w) plan = W (w + v)" and "Breach plan = None" and "default_tuning opt'" by simp_all
qed

text \<open>
  A dispatch order is exceeded more on every tick. If the utility orders a fixed dispatch
  of \<open>v\<close> watts from a site without generation, a pack that follows its commands is told to discharge
  at \<open>v\<close>, then \<open>2 v\<close>, then \<open>3 v\<close>, as long as its power allows: the order is compared with the
  generation alone, and the whole of it is added to the discharge already measured.
\<close>

theorem fixed_dispatch_climbs:
  assumes "default_tuning opt" and "50 \<le> v" and "int k * v \<le> m" and "m \<le> 2 ^ 50" and "0 \<le> load" and "load \<le> 2 ^ 50"
  shows "loop env (loop_site m load NaN (Some (dispatch v))) k (W 0) opt = map (\<lambda>j. (W (int (j + 1) * v), None)) [0..<k]"
proof -
  have "loop env (loop_site m load NaN (Some (dispatch v))) k (W (int i * v)) opt = map (\<lambda>j. (W (int (j + 1) * v), None)) [i..<i + k]"
    if "int (i + k) * v \<le> m" "default_tuning opt" for i opt
    using that
  proof (induction k arbitrary: i opt)
    case (Suc k)
    obtain opt' p where o: "DefaultOptimizer_Optimize env (loop_site m load NaN (Some (dispatch v)) (W (int i * v))) opt = (opt', p)" by fastforce
    have "int i * v + v \<le> int (i + Suc k) * v" using assms(2) by (simp add: algebra_simps)
    note t = dispatch_tick [OF Suc.prems(2) _ order_trans [OF this Suc.prems(1)] assms(2,4-6) o]
    have i: "int i * v + v = int (Suc i) * v" by (simp add: algebra_simps)
    have "loop env (loop_site m load NaN (Some (dispatch v))) k (W (int (Suc i) * v)) opt' = map (\<lambda>j. (W (int (j + 1) * v), None)) [Suc i..<Suc i + k]"
      by (rule Suc.IH) (use Suc.prems(1) t(3) assms(2) in simp_all)
    moreover have "[i..<i + Suc k] = i # [Suc i..<Suc i + k]" by (simp add: upt_conv_Cons)
    ultimately show ?case using t o assms(2) i by (simp del: upt_Suc)
  qed simp
  from this [of 0 opt] show ?thesis using assms(1,3) by simp
qed

theorem fixed_dispatch_climbs_witness:
  "loop home_env (loop_site 5000 500 NaN (Some (dispatch 1000))) 4 (W 0) NewDefaultOptimizer =
     [(W 1000, None), (W 2000, None), (W 3000, None), (W 4000, None)]"
  by (subst fixed_dispatch_climbs) (simp_all add: default_new upt_rec)

end
