(* ===== verification/OptAgree.thy ===== *)
theory OptAgree
  imports OptProps
begin

text \<open>
  The rule-based optimizer and the constraint stack both hold a reserve latch and a battery
  protection, written twice (optimizer.go and constraint/reservehold.go, batterysafety.go). This theory
  shows that the two agree: the same latch, the same counters, the same disconnects.
\<close>

section \<open>Abstraction\<close>

definition latch_of :: "DefaultOptimizer \<Rightarrow> reserveLatch" where
  "latch_of opt = \<lparr>socReserve = SOCReserve opt, latch_tickInterval = opt_tickInterval opt, hold = battReserveHold opt,
     recoverTicks = battReserveRecoverTicks opt\<rparr>"

definition session_of :: "DefaultOptimizer \<Rightarrow> BatterySafetySession" where
  "session_of opt = \<lparr>drainTicks = battDrainTicks opt, wrongDirTicks = battWrongDirTicks opt, lastCmdW = lastBattCmd opt\<rparr>"

definition protection_of :: "DefaultOptimizer \<Rightarrow> BatterySafetyConstraint" where
  "protection_of opt = \<lparr>bsc_sess = session_of opt, bsc_socReserve = SOCReserve opt\<rparr>"

section \<open>The latch\<close>

lemma hold_step_latch: "latch_of (hold_step k b opt) = latch_step k b (latch_of opt)"
  by (simp add: hold_step_def latch_step_def latch_of_def Let_def opt_reserveReleaseMarginPct_def reserveReleaseMarginPct_def)

lemma holds_latch: "latch_of (updateReserveHolds bs opt) = latch_update bs (latch_of opt)"
proof -
  have "latch_of (fold (hold_step k) bs opt) = fold (latch_step k) bs (latch_of opt)" for k
    by (induction bs arbitrary: opt) (simp_all add: hold_step_latch)
  moreover have "scaleTicks opt opt_reserveReleaseTicks = ScaleTicks (latch_tickInterval (latch_of opt)) reserveReleaseTicks"
    by (simp add: scaleTicks_ScaleTicks latch_of_def opt_reserveReleaseTicks_def reserveReleaseTicks_def)
  moreover have "latch_of (o'\<lparr>battReserveHold := (\<lambda>n. battReserveHold o' n \<and> n \<in> S),
      battReserveRecoverTicks := (\<lambda>n. if battReserveHold o' n \<and> n \<notin> S then 0 else battReserveRecoverTicks o' n)\<rparr>) = drop_unseen S (latch_of o')" for o' S
    by (simp add: latch_of_def drop_unseen_def fun_eq_iff)
  ultimately show ?thesis by (simp add: updateReserveHolds_def latch_update_def Let_def)
qed

lemma blocked_latch: "blocked (latch_of opt) b = dischargeBlocked opt b"
  by (simp add: blocked_def dischargeBlocked_def latch_of_def)

section \<open>Commands\<close>

lemma override_upd:
  "overrideDisconnect n cs =
     (if n \<in> set (map bc_Name cs) then upd_first (\<lambda>c. bc_Name c = n) (\<lambda>c. c\<lparr>bc_SetpointW := Fin 0, bc_Connect := Some False\<rparr>) cs
      else cs @ [batt_cmd n (Fin 0) (Some False)])"
  by (induction cs) (auto simp: batt_cmd_def)

lemma force_override: "BatteryCommands (force_disconnect n p) = overrideDisconnect n (BatteryCommands p)"
  by (simp add: force_disconnect_def override_upd hasBatteryCommand_def)

lemma command_override: "m \<noteq> n \<Longrightarrow> command_of (overrideDisconnect m cs) n = command_of cs n"
  by (induction cs) (auto simp: command_of_def)

lemma command_overrides: "n \<notin> set ms \<Longrightarrow> command_of (fold overrideDisconnect ms cs) n = command_of cs n"
  by (induction ms arbitrary: cs) (auto simp: command_override)

section \<open>The protection\<close>

lemma record_session: "session_of (record_cmds cs opt) = RecordCommands cs (session_of opt)"
  unfolding record_cmds_def RecordCommands_def
  by (induction cs arbitrary: opt) (simp_all add: session_of_def)

lemma critical_agrees: "opt_criticalBatteryInversion w soc r cc = criticalBatteryInversion w soc r cc"
  by (simp add: opt_criticalBatteryInversion_def criticalBatteryInversion_def complianceBreachW_def exportComplianceBreachW_def)

lemma safety_step_agrees:
  assumes "bs_Connected b" and "\<not> is_nan (bs_SOC b)"
  shows "session_of (fst (safety_step b (opt, p))) =
      count_pack (dischargeBlocked opt) (chargeCommandedFor opt (bs_Name b) p) b (session_of opt)"
    and "BatteryCommands (snd (safety_step b (opt, p))) =
      (if trips (SOCReserve opt) (scaleTicks opt opt_batteryReserveDrainTicks) (chargeCommandedFor opt (bs_Name b) p) b
            (count_pack (dischargeBlocked opt) (chargeCommandedFor opt (bs_Name b) p) b (session_of opt))
       then overrideDisconnect (bs_Name b) (BatteryCommands p) else BatteryCommands p)"
proof -
  have r: "(battReserveHold opt (bs_Name b) \<or> fle (bs_SOC b) (SOCReserve opt)) = dischargeBlocked opt b"
    using assms by (simp add: dischargeBlocked_def)
  show "session_of (fst (safety_step b (opt, p))) =
      count_pack (dischargeBlocked opt) (chargeCommandedFor opt (bs_Name b) p) b (session_of opt)"
    using assms by (simp add: safety_step_def Let_def r session_of_def count_pack_def complianceBreachW_def exportComplianceBreachW_def)
  show "BatteryCommands (snd (safety_step b (opt, p))) =
      (if trips (SOCReserve opt) (scaleTicks opt opt_batteryReserveDrainTicks) (chargeCommandedFor opt (bs_Name b) p) b
            (count_pack (dischargeBlocked opt) (chargeCommandedFor opt (bs_Name b) p) b (session_of opt))
       then overrideDisconnect (bs_Name b) (BatteryCommands p) else BatteryCommands p)"
    using assms by (simp add: safety_step_def Let_def r session_of_def count_pack_def trips_def complianceBreachW_def exportComplianceBreachW_def
        critical_agrees force_override)
qed

lemma safety_step_frame:
  "battReserveHold (fst (safety_step b op)) = battReserveHold (fst op)" "SOCReserve (fst (safety_step b op)) = SOCReserve (fst op)"
  "opt_tickInterval (fst (safety_step b op)) = opt_tickInterval (fst op)" "lastBattCmd (fst (safety_step b op)) = lastBattCmd (fst op)"
  "battReserveRecoverTicks (fst (safety_step b op)) = battReserveRecoverTicks (fst op)"
  by (simp_all add: safety_step_def Let_def case_prod_unfold)

lemma protection_frame:
  "battReserveHold (fst (checkBatterySafety bs op)) = battReserveHold (fst op)" "SOCReserve (fst (checkBatterySafety bs op)) = SOCReserve (fst op)"
  "opt_tickInterval (fst (checkBatterySafety bs op)) = opt_tickInterval (fst op)" "lastBattCmd (fst (checkBatterySafety bs op)) = lastBattCmd (fst op)"
  "battReserveRecoverTicks (fst (checkBatterySafety bs op)) = battReserveRecoverTicks (fst op)"
  unfolding checkBatterySafety_def
  by (induction bs arbitrary: op) (simp_all add: safety_step_frame)

lemma record_fields:
  "battReserveHold (record_cmds cs opt) = battReserveHold opt" "SOCReserve (record_cmds cs opt) = SOCReserve opt"
  "opt_tickInterval (record_cmds cs opt) = opt_tickInterval opt" "battReserveRecoverTicks (record_cmds cs opt) = battReserveRecoverTicks opt"
  unfolding record_cmds_def by (induction cs arbitrary: opt) simp_all

text \<open>The loops side by side. The commands of the packs still to come are those of the start.\<close>

lemma safety_fold_agrees:
  assumes "distinct (map bs_Name bs)" and "set (map bs_Name bs) \<inter> set tr = {}" and "BatteryCommands p = fold overrideDisconnect tr cmds"
    and "checkBatterySafety bs (opt, p) = (opt', p')"
  shows "\<exists>tr'. fold (trip_step (dischargeBlocked opt) (SOCReserve opt) (scaleTicks opt opt_batteryReserveDrainTicks)
        (post_chargeCommanded (session_of opt) cmds)) bs (session_of opt, tr) = (session_of opt', tr') \<and>
      BatteryCommands p' = fold overrideDisconnect tr' cmds"
proof -
  have "\<exists>tr'. fold (trip_step blk r th cc) bs (session_of opt, tr) = (session_of opt', tr') \<and> BatteryCommands p' = fold overrideDisconnect tr' cmds"
    if "blk = dischargeBlocked opt" "r = SOCReserve opt" "th = scaleTicks opt opt_batteryReserveDrainTicks"
      "cc = post_chargeCommanded s0 cmds" "lastCmdW s0 = lastBattCmd opt" for blk r th cc s0
    using assms that
  proof (induction bs arbitrary: opt p tr)
    case (Cons b bs)
    let ?n = "bs_Name b"
    obtain o1 p1 where st: "safety_step b (opt, p) = (o1, p1)" by fastforce
    have f: "blk = dischargeBlocked o1" "r = SOCReserve o1" "th = scaleTicks o1 opt_batteryReserveDrainTicks" "lastCmdW s0 = lastBattCmd o1"
      using Cons.prems(5-7,9) safety_step_frame [of b "(opt, p)"] st by (auto simp: dischargeBlocked_def scaleTicks_def)
    have c: "chargeCommandedFor opt ?n p = cc ?n" using Cons.prems(2,3,8,9)
      by (simp add: chargeCommandedFor_def post_chargeCommanded_def command_overrides chargeCommanded_def split: option.split)
    have rest: "checkBatterySafety bs (o1, p1) = (opt', p')" using Cons.prems(4) st by (simp add: checkBatterySafety_def)
    show ?case
    proof (cases "bs_Connected b \<and> \<not> is_nan (bs_SOC b)")
      case False
      then have "session_of o1 = prune ?n (session_of opt)" "BatteryCommands p1 = fold overrideDisconnect tr cmds"
        using st Cons.prems(3) by (auto simp: safety_step_def prune_def session_of_def Let_def)
      then show ?thesis using Cons.IH [OF _ _ _ rest f(1-3) Cons.prems(8) f(4), of tr] Cons.prems(1,2) False by (auto simp: trip_step_def)
    next
      case True
      let ?tr = "if trips r th (cc ?n) b (session_of o1) then tr @ [?n] else tr"
      note a = safety_step_agrees [of b opt p, unfolded c st fst_conv snd_conv, folded Cons.prems(5-7)]
      have "BatteryCommands p1 = fold overrideDisconnect ?tr cmds" using a True Cons.prems(3) by simp
      moreover have "trip_step blk r th cc b (session_of opt, tr) = (session_of o1, ?tr)" using True a by (simp add: trip_step_def Let_def)
      ultimately show ?thesis using Cons.IH [OF _ _ _ rest f(1-3) Cons.prems(8) f(4), of ?tr] Cons.prems(1,2) by auto
    qed
  qed (auto simp: checkBatterySafety_def)
  from this [OF refl refl refl refl, of "session_of opt"] show ?thesis by (simp add: session_of_def)
qed

text \<open>
  Property C9: the two implementations protect a battery alike. From the same latch, counters and
  last commands, the latch update and the protection pass of the rule-based optimizer and those of
  the constraint stack end in the same latch, counters and last commands, and make the same of
  the battery commands of the plan.
\<close>

theorem protection_agrees:
  assumes "distinct (map bs_Name (Batteries st))" and "sess_tickInterval s = opt_tickInterval opt" and "in_State inp = st"
    and "opt1 = updateReserveHolds (Batteries st) opt" and "DischargeBlocked inp = Some (blocked (latch_update (Batteries st) (latch_of opt)))"
    and "checkBatterySafety (Batteries st) (opt1, plan) = (opt2, plan')" and "opt3 = record_cmds (BatteryCommands plan') opt2"
  shows "latch_of opt3 = latch_update (Batteries st) (latch_of opt) \<and>
    PostArbitrate inp s (protection_of opt1) (BatteryCommands plan) = (protection_of opt3, BatteryCommands plan')"
proof -
  let ?bs = "Batteries st"
  have l1: "latch_of opt1 = latch_update ?bs (latch_of opt)" using assms(4) by (simp add: holds_latch)
  have f: "latch_of opt2 = latch_of opt1" "lastBattCmd opt2 = lastBattCmd opt1" "SOCReserve opt2 = SOCReserve opt1"
    using protection_frame [of ?bs "(opt1, plan)"] assms(6) by (simp_all add: latch_of_def)
  have r: "latch_of opt3 = latch_of opt2" "SOCReserve opt3 = SOCReserve opt2" "session_of opt3 = RecordCommands (BatteryCommands plan') (session_of opt2)"
    using record_fields [of "BatteryCommands plan'" opt2] by (simp_all add: assms(7) record_session latch_of_def)
  have i: "opt_tickInterval opt1 = opt_tickInterval opt" using arg_cong [OF l1, of latch_tickInterval] by (simp add: latch_of_def)
  have th: "scaleTicks opt1 opt_batteryReserveDrainTicks = ScaleTicks (sess_tickInterval s) batteryReserveDrainTicks"
    by (simp add: scaleTicks_ScaleTicks i assms(2) opt_batteryReserveDrainTicks_def batteryReserveDrainTicks_def)
  have b: "reserveBlocker inp w = dischargeBlocked opt1" for w
    using assms(5) by (simp add: reserveBlocker_def blocked_latch fun_eq_iff flip: l1)
  obtain tr where tr: "fold (trip_step (dischargeBlocked opt1) (SOCReserve opt1) (ScaleTicks (sess_tickInterval s) batteryReserveDrainTicks)
      (post_chargeCommanded (session_of opt1) (BatteryCommands plan))) ?bs (session_of opt1, []) = (session_of opt2, tr)"
    "BatteryCommands plan' = fold overrideDisconnect tr (BatteryCommands plan)"
    using safety_fold_agrees [OF assms(1) _ _ assms(6), of "[]" "BatteryCommands plan"] unfolding th by auto
  show ?thesis using f r l1 tr by (simp add: PostArbitrate_def evaluateTrips_def protection_of_def assms(3) b Let_def)
qed

theorem protection_agrees_witness:
  "PostArbitrate \<lparr>in_State = home NewGridState None, in_Plant = ex_plant, in_TickSeconds = Fin 3,
      DischargeBlocked = Some (blocked (latch_update [home_pack] (latch_of NewDefaultOptimizer)))\<rparr>
     (NewSession ''battery-safety'' 0) (protection_of (updateReserveHolds [home_pack] NewDefaultOptimizer)) [] =
   (protection_of (fst (checkBatterySafety [home_pack] (updateReserveHolds [home_pack] NewDefaultOptimizer, empty_plan 1))), [])"
proof -
  let ?o = "updateReserveHolds [home_pack] NewDefaultOptimizer"
  obtain opt2 p where c: "checkBatterySafety [home_pack] (?o, empty_plan 1) = (opt2, p)" by fastforce
  have "scaleTicks ?o opt_batteryReserveDrainTicks \<ge> 2" by (rule scaleTicks_ge) (simp add: opt_batteryReserveDrainTicks_def)
  then have p: "BatteryCommands p = []" using c
    by (auto simp: checkBatterySafety_def safety_step_def Let_def complianceBreachW_def opt_criticalBatteryInversion_def empty_plan_def)
  then show ?thesis
    using protection_agrees [OF _ _ _ refl _ _ refl, of "home NewGridState None" "NewSession ''battery-safety'' 0" NewDefaultOptimizer
        "\<lparr>in_State = home NewGridState None, in_Plant = ex_plant, in_TickSeconds = Fin 3,
          DischargeBlocked = Some (blocked (latch_update [home_pack] (latch_of NewDefaultOptimizer)))\<rparr>" "empty_plan 1" opt2 p] c
    by (simp add: NewSession_def NewDefaultOptimizer_def [THEN arg_cong, of opt_tickInterval] record_cmds_def empty_plan_def)
qed

end
