(* ===== verification/StackRules.thy ===== *)
theory StackRules
  imports OptLimits
begin

text \<open>
  internal/orchestrator/constraint: the compliance rules of the stack besides the generation cap. The
  import cap with the cooldown it shares with the economics rule (importlimit.go, importlimit_session.go,
  evcooldown.go), the export cap (export.go, export_session.go) and the gross generation and gross load
  caps of CSIP-AUS (genlimaus.go, loadlimaus.go). A rule takes the tick's input and its session and
  gives the new session, the demands and the breach. The measurements these files copy from the
  rule-based optimizer are the folds of \<open>OptRules\<close> and \<open>OptLimits\<close>. A dash in a reason is written as
  two hyphens, and the numbers rendered into the one reason that has some are left out.
\<close>

section \<open>Keys of charging points\<close>

fun digit_chars :: "nat \<Rightarrow> string" where
  "digit_chars n = (if n < 10 then [char_of (48 + n)] else digit_chars (n div 10) @ [char_of (48 + n mod 10)])"

declare digit_chars.simps [simp del]

definition itoa :: "int \<Rightarrow> string" where
  "itoa n = (if n < 0 then CHR ''-'' # digit_chars (nat (- n)) else digit_chars (nat n))"

definition evseKey :: "string \<Rightarrow> int \<Rightarrow> string" where
  "evseKey station connector = station @ CHR ''#'' # itoa connector"

section \<open>Parts the rules share\<close>

definition override_min :: "f64 \<Rightarrow> (DERControlBase \<Rightarrow> ActivePower option) \<Rightarrow> SystemState \<Rightarrow> f64" where
  "override_min limitW sel st =
     (case CSIPControl st of None \<Rightarrow> limitW
      | Some c \<Rightarrow> (case sel (cc_Base c) of None \<Rightarrow> limitW | Some ap \<Rightarrow> nanMin limitW (apW ap)))"

definition effectiveExportLimitW :: "SystemState \<Rightarrow> f64" where
  "effectiveExportLimitW st = override_min (ExportLimitW (Grid st)) OpModExpLimW st"

definition effectiveImportLimitW :: "SystemState \<Rightarrow> f64" where
  "effectiveImportLimitW st = override_min (ImportLimitW (Grid st)) OpModImpLimW st"

text \<open>A cap that moves by more than 100 W opens a new session.\<close>

definition cap_changed :: "f64 \<Rightarrow> f64 \<Rightarrow> bool" where
  "cap_changed limitW active \<longleftrightarrow> is_nan active \<or> flt exportComplianceBreachW (fabs (fsub limitW active))"

definition stamp_breach :: "SystemState \<Rightarrow> ComplianceBreach option \<Rightarrow> ComplianceBreach option" where
  "stamp_breach st b =
     (case CSIPControl st of None \<Rightarrow> b | Some c \<Rightarrow> map_option (\<lambda>x. x\<lparr>br_MRID := cc_MRID c\<rparr>) b)"

definition inverter_window :: "(f64 \<Rightarrow> int) \<Rightarrow> Input \<Rightarrow> int \<Rightarrow> int" where
  "inverter_window cv inp w0 =
     fold (\<lambda>s w. if \<not> ss_Connected s then w
                 else max w (ExportDetectionWindowTicks cv (in_Plant inp) (ss_Name s) (in_TickSeconds inp)))
       (Solar (in_State inp)) w0"

definition battery_window :: "(f64 \<Rightarrow> int) \<Rightarrow> Input \<Rightarrow> int \<Rightarrow> int" where
  "battery_window cv inp w0 =
     fold (\<lambda>b w. if \<not> bs_Connected b then w
                 else max w (ImportDetectionWindowTicks cv (in_Plant inp) (bs_Name b) (in_TickSeconds inp)))
       (Batteries (in_State inp)) w0"

definition or_meter_lag :: "(f64 \<Rightarrow> int) \<Rightarrow> Input \<Rightarrow> int \<Rightarrow> int" where
  "or_meter_lag cv inp w =
     (if w = 0 then DetectionWindowTicks cv (Fin 0) (mp_MeterLagS (Meter (in_Plant inp))) (in_TickSeconds inp) else w)"

section \<open>The cooldown of vehicle charging\<close>

record EVImportCooldown =
  cd_safeCount :: int
  cd_activeLimitW :: f64

definition NewEVImportCooldown :: EVImportCooldown where
  "NewEVImportCooldown = \<lparr>cd_safeCount = 0, cd_activeLimitW = NaN\<rparr>"

definition cd_clear :: "EVImportCooldown \<Rightarrow> EVImportCooldown" where
  "cd_clear cd = cd\<lparr>cd_safeCount := 0, cd_activeLimitW := NaN\<rparr>"

definition cd_arrival :: "f64 \<Rightarrow> bool \<Rightarrow> int \<Rightarrow> EVImportCooldown \<Rightarrow> EVImportCooldown" where
  "cd_arrival limitW compliant seed cd = cd\<lparr>cd_activeLimitW := limitW, cd_safeCount := if compliant then seed else 0\<rparr>"

definition cd_sameCap :: "f64 \<Rightarrow> EVImportCooldown \<Rightarrow> EVImportCooldown" where
  "cd_sameCap limitW cd = cd\<lparr>cd_activeLimitW := limitW\<rparr>"

definition cd_advance :: "bool \<Rightarrow> EVImportCooldown \<Rightarrow> EVImportCooldown" where
  "cd_advance compliant cd = cd\<lparr>cd_safeCount := if compliant then cd_safeCount cd + 1 else 0\<rparr>"

definition Suppressed :: "EVImportCooldown \<Rightarrow> int \<Rightarrow> bool" where
  "Suppressed cd cycles \<longleftrightarrow> cd_safeCount cd < cycles"

section \<open>The import cap\<close>

record ImportSession =
  isn_dischargeW :: f64
  isn_safeCount :: int
  isn_activeLimitW :: f64
  isn_breachTicks :: int

definition newImportSession :: "f64 \<Rightarrow> ImportSession" where
  "newImportSession limitW = \<lparr>isn_dischargeW = NaN, isn_safeCount = 0, isn_activeLimitW = limitW, isn_breachTicks = 0\<rparr>"

definition importRelaxCycle :: int where "importRelaxCycle = 5"
definition importMaxRelaxW :: f64 where "importMaxRelaxW = Fin 250"

text \<open>The margin is a constant expression of the source, \<open>1 - 0.20\<close> computed exactly.\<close>

definition import_conservative :: "f64 \<Rightarrow> f64" where
  "import_conservative limitW = fmul limitW (fl (8 / 10))"

definition import_compliant :: "f64 \<Rightarrow> f64 \<Rightarrow> bool" where
  "import_compliant limitW netW \<longleftrightarrow> \<not> is_nan netW \<and> fle (Fin 0) netW \<and> fle netW limitW"

definition evCooldown :: "(f64 \<Rightarrow> int) \<Rightarrow> Session \<Rightarrow> int" where
  "evCooldown cv s = max 4 (go_int cv (fdiv (Fin 60) (tickSeconds (sess_tickInterval s))))"

definition manageSession ::
  "(f64 \<Rightarrow> int) \<Rightarrow> Session \<Rightarrow> f64 \<Rightarrow> f64 \<Rightarrow> ImportSession \<times> EVImportCooldown \<Rightarrow> ImportSession \<times> EVImportCooldown" where
  "manageSession cv s limitW netW sc =
     (let (sess, cd) = sc in
      if cap_changed limitW (isn_activeLimitW sess)
      then (newImportSession limitW, cd_arrival limitW (import_compliant limitW netW) (evCooldown cv s) cd)
      else (sess\<lparr>isn_activeLimitW := limitW\<rparr>, cd_sameCap limitW cd))"

definition discharge_slew :: "f64 \<Rightarrow> ImportSession \<Rightarrow> f64 \<times> ImportSession" where
  "discharge_slew targetW sess =
     (let prior = isn_dischargeW sess in
      if \<not> is_nan prior \<and> flt targetW prior
      then (if isn_safeCount sess < importRelaxCycle then (prior, sess)
            else (fmax targetW (fsub prior importMaxRelaxW), sess\<lparr>isn_safeCount := 0\<rparr>))
      else (targetW, sess))"

definition import_Name :: string where "import_Name = ''import''"

text \<open>The loop over the batteries: demands, what is still needed, what has been commanded.\<close>

fun import_distribute :: "(BatteryState \<Rightarrow> bool) \<Rightarrow> BatteryState list \<Rightarrow> f64 \<Rightarrow> f64 \<Rightarrow> Demand list \<times> f64 \<times> f64" where
  "import_distribute blk [] remaining totalW = ([], remaining, totalW)"
| "import_distribute blk (b # bs) remaining totalW =
     (if flt remaining (Fin 1) then ([], remaining, totalW)
      else let add = fmin (AvailableDischargeW b) remaining in
        if \<not> bs_Connected b \<or> blk b \<or> fle add (Fin 0) then import_distribute blk bs remaining totalW
        else let (ds, r, t) = import_distribute blk bs (fsub remaining add) (fadd totalW add)
             in (PointDemand (bs_Name b) AxisBatterySetpointW add TierCompliance import_Name # ds, r, t))"

definition applyImportControl ::
  "SystemState \<Rightarrow> f64 \<Rightarrow> (BatteryState \<Rightarrow> bool) \<Rightarrow> ImportSession \<times> EVImportCooldown \<Rightarrow>
     (ImportSession \<times> EVImportCooldown) \<times> Demand list \<times> ComplianceBreach option" where
  "applyImportControl st limitW blk sc =
     (let (s0, cd0) = sc; netW = NetW (Grid st);
          importW = (if is_nan netW then Fin 0 else fmax (Fin 0) netW);
          unconstrainedW = fadd importW (pack_discharge (Batteries st) (Fin 0));
          s1 = s0\<lparr>isn_safeCount := if fle importW limitW then isn_safeCount s0 + 1 else 0\<rparr>;
          cd = cd_advance (import_compliant limitW netW) cd0;
          (commandedW, s2) = discharge_slew (fmax (Fin 0) (fsub unconstrainedW (import_conservative limitW))) s1
      in if flt commandedW (Fin 50) then ((s2\<lparr>isn_dischargeW := NaN\<rparr>, cd), [], None)
         else let (ds, remaining, total) = import_distribute blk (Batteries st) commandedW (Fin 0)
              in ((s2\<lparr>isn_dischargeW := if flt (Fin 0) total then total else NaN\<rparr>, cd), ds,
                  if flt limitW importW \<and> flt exportComplianceBreachW remaining
                  then Some (breach_of ''import'' limitW importW (batteryHeadroomReason (Batteries st) importSOCReserve))
                  else None))"

definition import_window :: "(f64 \<Rightarrow> int) \<Rightarrow> Input \<Rightarrow> int" where
  "import_window cv inp = or_meter_lag cv inp (battery_window cv inp 0)"

definition import_checkConvergence :: "(f64 \<Rightarrow> int) \<Rightarrow> Input \<Rightarrow> f64 \<Rightarrow> ImportSession \<Rightarrow> ImportSession \<times> ComplianceBreach option" where
  "import_checkConvergence cv inp limitW sess =
     (let netW = NetW (Grid (in_State inp)) in
      if is_nan netW then (sess, None)
      else let importW = fmax (Fin 0) netW; threshold = import_window cv inp;
               n = leaky threshold (flt (fadd limitW exportComplianceBreachW) importW) (isn_breachTicks sess)
           in (sess\<lparr>isn_breachTicks := n\<rparr>,
               if threshold \<le> n
               then Some (breach_of ''import'' limitW importW (''import remains over the cap after all levers'' @
                      '' -- a load is not honouring the hub's curtailment/suspend command''))
               else None))"

definition import_Evaluate ::
  "(f64 \<Rightarrow> int) \<Rightarrow> Input \<Rightarrow> Session \<Rightarrow> ImportSession \<times> EVImportCooldown \<Rightarrow>
     (ImportSession \<times> EVImportCooldown) \<times> Demand list \<times> ComplianceBreach option" where
  "import_Evaluate cv inp s sc =
     (let st = in_State inp; limitW = effectiveImportLimitW st in
      if is_nan limitW then ((newImportSession NaN, cd_clear (snd sc)), [], None)
      else let ((s1, cd), ds, headroom) =
                 applyImportControl st limitW (reserveBlocker inp importSOCReserve) (manageSession cv s limitW (NetW (Grid st)) sc);
               (s2, conv) = import_checkConvergence cv inp limitW s1
           in ((s2, cd), ds, stamp_breach st (if headroom = None then conv else headroom)))"

section \<open>The export cap\<close>

text \<open>The controller of the export session is the guard of the rule-based optimizer, field for field.
  It is reset whenever the cap changes; the two counters beside it only when the cap clears.\<close>

record ExportSession =
  exs_ctrl :: exportGuard
  exs_overTicks :: int
  exs_zeroLeverTicks :: int

definition newExportSession :: ExportSession where
  "newExportSession = \<lparr>exs_ctrl = new_exportGuard NaN, exs_overTicks = 0, exs_zeroLeverTicks = 0\<rparr>"

definition resetControllerForNewLimit :: "f64 \<Rightarrow> ExportSession \<Rightarrow> ExportSession" where
  "resetControllerForNewLimit limitW s = s\<lparr>exs_ctrl := new_exportGuard limitW\<rparr>"

definition export_Name :: string where "export_Name = ''export''"
definition exportMarginFrac :: f64 where "exportMarginFrac = fl (20 / 100)"
definition exportRelaxCycles :: int where "exportRelaxCycles = 5"
definition exportBattBreachTicks :: int where "exportBattBreachTicks = 3"
definition exportSOCFull :: f64 where "exportSOCFull = Fin 95"

definition export_conservative :: "f64 \<Rightarrow> f64" where
  "export_conservative limitW = fmul limitW (fsub (Fin 1) exportMarginFrac)"

definition alpha_filtered :: "f64 \<Rightarrow> f64 \<Rightarrow> f64 \<Rightarrow> f64" where
  "alpha_filtered alpha actualW prevW =
     (if is_nan prevW then actualW else fadd (fmul alpha actualW) (fmul (fsub (Fin 1) alpha) prevW))"

definition active_session :: "EVSEState list \<Rightarrow> EVSEState option" where
  "active_session evses = find (\<lambda>ev. es_Connected ev \<and> es_SessionActive ev) evses"

definition plant_battery :: "Plant \<Rightarrow> string \<Rightarrow> BatteryPlant" where
  "plant_battery p n = battery_WithDefaults
     (case plant_Batteries p n of Some bp \<Rightarrow> bp
      | None \<Rightarrow> \<lparr>CapacityKWh = Fin 0, SOCTaperStartPct = Fin 0, TaperCurve = [], ConvergeFrac = Fin 0,
                 SOCStepPctPerTickOverride = Fin 0, bp_ControlLatencyS = Fin 0\<rparr>)"

definition pack_taper :: "f64 \<Rightarrow> f64 \<Rightarrow> f64" where
  "pack_taper start soc =
     (if is_nan soc \<or> fle soc start then Fin 1
      else if fle exportSOCFull soc \<or> fle exportSOCFull start then Fin 0
      else fmax (Fin 0) (fdiv (fsub exportSOCFull soc) (fsub exportSOCFull start)))"

text \<open>What the controller sees: the session's controller with this tick's filter, count and free
  session, the export, the measured absorption and the export with the commanded sinks idle.\<close>

definition stack_view :: "Input \<Rightarrow> f64 \<Rightarrow> exportGuard \<Rightarrow> exportView" where
  "stack_view inp limitW g0 =
     (let st = in_State inp; evseW = TotalEVSEW st;
          signedW = signed_export (Solar st) (Batteries st) evseW (NetW (Grid st));
          actualW = fmax (Fin 0) signedW;
          filteredW = alpha_filtered (mp_FilterAlpha (meter_WithDefaults (Meter (in_Plant inp)))) actualW (filteredExportW g0);
          g1 = g0\<lparr>filteredExportW := filteredW,
                  exp_safeCount := if fle filteredW (export_conservative limitW) then exp_safeCount g0 + 1 else 0\<rparr>;
          measuredW = pack_absorb (Batteries st);
          ev = active_session (EVSEs st);
          g2 = (if ev = None then g1\<lparr>evSetpointA := NaN, evCmdW := NaN\<rparr> else g1)
      in \<lparr>xv_guard = g2, xv_actualW = actualW, xv_measuredW = measuredW,
          xv_unconstrainedW = unconstrained_export (Solar st) signedW (or_measured (batteryAbsorbW g2) measuredW) (or_measured (evCmdW g2) evseW),
          xv_ev = ev\<rparr>)"

text \<open>The accumulator: the demands, the absorption commanded and the one predicted.\<close>

definition absorb_demand :: "Input \<Rightarrow> exportGuard \<Rightarrow> f64 \<Rightarrow> BatteryState \<Rightarrow> Demand list \<times> f64 \<times> f64 \<Rightarrow> Demand list \<times> f64 \<times> f64" where
  "absorb_demand inp g need b acc =
     (let (ds, total, predicted) = acc in
      if \<not> bs_Connected b \<or> \<not> is_nan (bs_SOC b) \<and> fle exportSOCFull (bs_SOC b) \<or> flt (bs_MaxChargeW b) (Fin 50) then acc
      else let bp = plant_battery (in_Plant inp) (bs_Name b);
               maxNow = fmul (bs_MaxChargeW b) (pack_taper (SOCTaperStartPct bp) (bs_SOC b));
               maxNext = fmul (bs_MaxChargeW b) (pack_taper (SOCTaperStartPct bp) (fadd (bs_SOC b) (SOCStepPctPerTickOverride bp)));
               absorb = ratchet exportRelaxCycles g maxNow (fmin maxNow need)
           in if flt absorb (Fin 50) then acc
              else (ds @ [PointDemand (bs_Name b) AxisBatterySetpointW (fneg absorb) TierCompliance export_Name],
                    fadd total absorb, fadd predicted (fmin maxNext need)))"

definition representativeConvergeFrac :: "Input \<Rightarrow> f64" where
  "representativeConvergeFrac inp =
     (case find bs_Connected (Batteries (in_State inp)) of
        Some b \<Rightarrow> ConvergeFrac (plant_battery (in_Plant inp) (bs_Name b))
      | None \<Rightarrow> battConvergeFrac)"

text \<open>The battery part: demands, absorption commanded and predicted, controller.\<close>

definition stack_absorb :: "Input \<Rightarrow> Session \<Rightarrow> exportView \<Rightarrow> f64 \<Rightarrow> Demand list \<times> f64 \<times> f64 \<times> exportGuard" where
  "stack_absorb inp s v conservativeW =
     (let g = xv_guard v; measuredW = xv_measuredW v;
          (ds, absorbW, predictedW) =
            fold (absorb_demand inp g (fmax (Fin 0) (fsub (xv_unconstrainedW v) conservativeW))) (Batteries (in_State inp)) ([], Fin 0, Fin 0);
          threshold = ScaleTicks (sess_tickInterval s) exportBattBreachTicks;
          n = leaky threshold (flt exportComplianceBreachW absorbW \<and> flt measuredW (fmul absorbW (representativeConvergeFrac inp))) (battStallTicks g)
      in (ds, absorbW, if threshold \<le> n then measuredW else predictedW,
          g\<lparr>batteryAbsorbW := if flt (Fin 0) absorbW then absorbW else NaN, battStallTicks := n\<rparr>))"

text \<open>The vehicle current is computed for the controller, not demanded.\<close>

definition position_ev :: "f64 \<Rightarrow> f64 \<Rightarrow> f64 \<Rightarrow> f64 \<Rightarrow> f64 \<Rightarrow> EVSEState option \<Rightarrow> exportGuard \<Rightarrow> exportGuard" where
  "position_ev limitW conservativeW unconstrainedW absorbW predictedW ev g =
     (case ev of
        None \<Rightarrow> g
      | Some e \<Rightarrow>
          let voltage = ev_voltage e;
              targetA = fmin (fmax (fdiv (fsub (fsub unconstrainedW predictedW) conservativeW) voltage) minChargeA) (es_MaxCurrentA e);
              (newA, safe) = slew_current exportRelaxCycles g targetA;
              predictedExportW = fsub (fsub unconstrainedW absorbW) (fmul newA voltage);
              boost = fmin (fdiv (fsub predictedExportW limitW) voltage) (fsub (es_MaxCurrentA e) newA);
              newA = (if flt limitW predictedExportW \<and> flt (Fin 0) boost then fadd newA boost else newA)
          in g\<lparr>exp_safeCount := safe, evSetpointA := newA, evCmdW := fmul newA voltage\<rparr>)"

definition plant_inverter :: "Plant \<Rightarrow> string \<Rightarrow> InverterPlant" where
  "plant_inverter p n = inverter_WithDefaults
     (case Inverters p n of Some ip \<Rightarrow> ip | None \<Rightarrow> \<lparr>MaxRampDownWPerS = Fin 0, MaxRampUpWPerS = Fin 0, ip_ControlLatencyS = Fin 0\<rparr>)"

definition ceilingSlewW :: "Input \<Rightarrow> f64 \<times> f64" where
  "ceilingSlewW inp =
     (let ip = (case find ss_Connected (Solar (in_State inp)) of
                  Some x \<Rightarrow> plant_inverter (in_Plant inp) (ss_Name x)
                | None \<Rightarrow> inverter_WithDefaults \<lparr>MaxRampDownWPerS = Fin 0, MaxRampUpWPerS = Fin 0, ip_ControlLatencyS = Fin 0\<rparr>);
          tick = (if fle (in_TickSeconds inp) (Fin 0) then dur_seconds tunedTickInterval else in_TickSeconds inp)
      in (fmul (MaxRampDownWPerS ip) tick, fmul (MaxRampUpWPerS ip) tick))"

definition slewed_ceiling :: "f64 \<times> f64 \<Rightarrow> f64 \<Rightarrow> f64 \<Rightarrow> f64 \<Rightarrow> f64" where
  "slewed_ceiling slewW prevW totalSolarW errorW =
     (if is_nan prevW then at_least_0 (fadd totalSolarW errorW)
      else let desired = at_least_0 (fadd prevW (fmul ceilGain errorW));
               lo = fsub prevW (fst slewW); hi = fadd prevW (snd slewW)
           in at_least_0 (if flt desired lo then lo else if flt hi desired then hi else desired))"

definition stack_ceiling :: "Input \<Rightarrow> exportView \<Rightarrow> f64 \<Rightarrow> f64 \<Rightarrow> f64 \<Rightarrow> exportGuard \<Rightarrow> f64" where
  "stack_ceiling inp v conservativeW absorbW predictedW g =
     (let st = in_State inp; sol = Solar st; actualW = xv_actualW v; measuredW = xv_measuredW v; totalSolarW = connected_solar sol;
          effectiveW = fsub actualW (fmax (Fin 0) (fsub absorbW measuredW));
          desired1 = slewed_ceiling (ceilingSlewW inp) (solarCeilingW g) totalSolarW (fsub conservativeW effectiveW);
          homeSinkW = at_least_0 (fsub (fsub (fsub totalSolarW actualW) measuredW) (TotalEVSEW st));
          ffW = fadd (fadd (fadd homeSinkW predictedW) (or_measured (evCmdW g) (Fin 0))) conservativeW;
          desired2 = feed_forward ffW desired1
      in if flt (Fin 0) (nameplate sol) \<and> flt (nameplate sol) desired2 then nameplate sol else desired2)"

definition ceiling_demands :: "SolarState list \<Rightarrow> f64 \<Rightarrow> string \<Rightarrow> Demand list" where
  "ceiling_demands sol ceilingW name =
     map (\<lambda>s. CeilingDemand (ss_Name s) AxisSolarCeilingW (fmul ceilingW (fdiv (ss_MaxW s) (nameplate sol))) TierCompliance name)
       (filter ss_Connected sol)"

definition export_window :: "(f64 \<Rightarrow> int) \<Rightarrow> Input \<Rightarrow> int" where
  "export_window cv inp = or_meter_lag cv inp (inverter_window cv inp 0)"

definition applyExportControl ::
  "(f64 \<Rightarrow> int) \<Rightarrow> Input \<Rightarrow> Session \<Rightarrow> f64 \<Rightarrow> ExportSession \<Rightarrow> ExportSession \<times> Demand list \<times> ComplianceBreach option" where
  "applyExportControl cv inp s limitW sess =
     (let sol = Solar (in_State inp); conservativeW = export_conservative limitW;
          v = stack_view inp limitW (exs_ctrl sess);
          (ds, absorbW, predictedW, g3) = stack_absorb inp s v conservativeW;
          g4 = position_ev limitW conservativeW (xv_unconstrainedW v) absorbW predictedW (xv_ev v) g3;
          ceilingW = stack_ceiling inp v conservativeW absorbW predictedW g4;
          (g5, cs) = (if flt (Fin 0) (nameplate sol)
                      then (g4\<lparr>solarCeilingW := ceilingW\<rparr>, ceiling_demands sol ceilingW export_Name) else (g4, []));
          threshold = export_window cv inp;
          z = leaky threshold (flt (fadd limitW exportComplianceBreachW) (xv_actualW v) \<and> fle ceilingW exportComplianceBreachW)
                (exs_zeroLeverTicks sess)
      in (sess\<lparr>exs_ctrl := g5, exs_zeroLeverTicks := z\<rparr>, ds @ cs,
          if threshold \<le> z
          then Some (breach_of ''export'' limitW (xv_actualW v)
                 ''generation curtailed to minimum; battery and EV cannot absorb the surplus'')
          else None))"

definition export_checkConvergence :: "(f64 \<Rightarrow> int) \<Rightarrow> Input \<Rightarrow> f64 \<Rightarrow> ExportSession \<Rightarrow> ExportSession \<times> ComplianceBreach option" where
  "export_checkConvergence cv inp limitW sess =
     (let netW = NetW (Grid (in_State inp)) in
      if is_nan netW then (sess, None)
      else let exportW = fmax (Fin 0) (fneg netW); threshold = export_window cv inp;
               n = leaky threshold (flt (fadd limitW exportComplianceBreachW) exportW) (exs_overTicks sess)
           in (sess\<lparr>exs_overTicks := n\<rparr>,
               if threshold \<le> n
               then Some (breach_of ''export'' limitW exportW (''export remains over the cap after correction was commanded'' @
                      '' -- the site is not converging to the limit''))
               else None))"

definition export_Evaluate ::
  "(f64 \<Rightarrow> int) \<Rightarrow> Input \<Rightarrow> Session \<Rightarrow> ExportSession \<Rightarrow> ExportSession \<times> Demand list \<times> ComplianceBreach option" where
  "export_Evaluate cv inp s sess =
     (let st = in_State inp; limitW = effectiveExportLimitW st in
      if is_nan limitW then (newExportSession, [], None)
      else let s0 = (if feq limitW (exp_activeLimitW (exs_ctrl sess)) then sess else resetControllerForNewLimit limitW sess);
               (s1, ds, zeroLever) = applyExportControl cv inp s limitW s0;
               (s2, conv) = export_checkConvergence cv inp limitW s1
           in (s2, ds, stamp_breach st (if zeroLever = None then conv else zeroLever)))"

section \<open>The gross generation cap\<close>

record AusGenSession =
  ags_activeLimitW :: f64
  ags_overCount :: int

definition newAusGenSession :: "f64 \<Rightarrow> AusGenSession" where
  "newAusGenSession limitW = \<lparr>ags_activeLimitW = limitW, ags_overCount = 0\<rparr>"

definition ausgen_Name :: string where "ausgen_Name = ''gen-aus''"

definition rating_sum :: "(BatteryState \<Rightarrow> f64) \<Rightarrow> BatteryState list \<Rightarrow> f64" where
  "rating_sum rating bs = fold (\<lambda>b t. if bs_Connected b then fadd t (fmax (Fin 0) (rating b)) else t) bs (Fin 0)"

definition rating_share :: "(BatteryState \<Rightarrow> f64) \<Rightarrow> f64 \<Rightarrow> f64 \<Rightarrow> BatteryState \<Rightarrow> f64" where
  "rating_share rating capW totalW b =
     (if flt (Fin 0) totalW then fdiv (fmul capW (fmax (Fin 0) (rating b))) totalW else capW)"

definition applyGenControl_aus :: "SystemState \<Rightarrow> f64 \<Rightarrow> Demand list" where
  "applyGenControl_aus st limitW =
     (let capW = fmax (Fin 0) (fsub limitW (solar_generation (Solar st)));
          totalW = rating_sum bs_MaxDischargeW (Batteries st)
      in map (\<lambda>b. CeilingDemand (bs_Name b) AxisBatterySetpointW (rating_share bs_MaxDischargeW capW totalW b) TierCompliance ausgen_Name)
           (filter bs_Connected (Batteries st)) @
         (if flt (Fin 0) (nameplate (Solar st)) then ceiling_demands (Solar st) limitW ausgen_Name else []))"

definition ausgen_window :: "(f64 \<Rightarrow> int) \<Rightarrow> Input \<Rightarrow> int" where
  "ausgen_window cv inp = or_meter_lag cv inp (battery_window cv inp (inverter_window cv inp 0))"

definition ausgen_checkConvergence :: "(f64 \<Rightarrow> int) \<Rightarrow> Input \<Rightarrow> f64 \<Rightarrow> AusGenSession \<Rightarrow> AusGenSession \<times> ComplianceBreach option" where
  "ausgen_checkConvergence cv inp limitW sess =
     (let st = in_State inp;
          n0 = (if cap_changed limitW (ags_activeLimitW sess) then 0 else ags_overCount sess);
          m = gross_measured (Solar st) (Batteries st) (NetW (Grid st)); threshold = ausgen_window cv inp;
          n = leaky threshold (flt (fadd limitW exportComplianceBreachW) m) n0
      in (\<lparr>ags_activeLimitW = limitW, ags_overCount = n\<rparr>,
          if threshold \<le> n
          then Some (breach_of ''generation-aus'' limitW m
                 (''gross generation (solar + battery discharge) remains above the CSIP-AUS generation cap'' @
                  '' after curtailment was commanded -- a device is not honouring the command''))
          else None))"

definition ausgen_Evaluate ::
  "(f64 \<Rightarrow> int) \<Rightarrow> Input \<Rightarrow> Session \<Rightarrow> AusGenSession \<Rightarrow> AusGenSession \<times> Demand list \<times> ComplianceBreach option" where
  "ausgen_Evaluate cv inp _ sess =
     (let st = in_State inp; limitW = GenLimitW (Grid st) in
      if is_nan limitW then (newAusGenSession NaN, [], None)
      else let (sess', b) = ausgen_checkConvergence cv inp limitW sess
           in (sess', applyGenControl_aus st limitW, stamp_breach st b))"

section \<open>The gross load cap\<close>

record AusLoadSession =
  als_activeLimitW :: f64
  als_evLimitA :: f64
  als_safeCount :: int
  als_breachTicks :: int

definition newAusLoadSession :: "f64 \<Rightarrow> AusLoadSession" where
  "newAusLoadSession limitW = \<lparr>als_activeLimitW = limitW, als_evLimitA = NaN, als_safeCount = 0, als_breachTicks = 0\<rparr>"

definition ausload_Name :: string where "ausload_Name = ''load-aus''"
definition ausLoadRelaxCycle :: int where "ausLoadRelaxCycle = importRelaxCycle"
definition ausLoadEVMaxRelax :: f64 where "ausLoadEVMaxRelax = Fin 2"

definition grossLoadW :: "SystemState \<Rightarrow> f64" where
  "grossLoadW st =
     (if is_nan (NetW (Grid st)) then NaN
      else fmax (Fin 0) (fadd (fadd (solar_generation (Solar st)) (pack_discharge (Batteries st) (Fin 0))) (NetW (Grid st))))"

definition ev_ceiling :: "EVSEState \<Rightarrow> f64 \<Rightarrow> Demand" where
  "ev_ceiling ev a = CeilingDemand (evseKey (es_StationID ev) (es_ConnectorID ev)) AxisEVSECurrentA a TierCompliance ausload_Name"

definition stickyEVDemand :: "SystemState \<Rightarrow> AusLoadSession \<Rightarrow> Demand list" where
  "stickyEVDemand st sess =
     (if is_nan (als_evLimitA sess) then []
      else case active_session (EVSEs st) of None \<Rightarrow> [] | Some ev \<Rightarrow> [ev_ceiling ev (als_evLimitA sess)])"

text \<open>A floor on the battery setpoint bounds the charge.\<close>

definition charge_floor :: "f64 \<Rightarrow> BatteryState \<Rightarrow> Demand" where
  "charge_floor share b =
     \<lparr>dem_Device = bs_Name b, dem_Axis = AxisBatterySetpointW, dem_Min = fneg share, dem_Max = NaN, dem_Connect = None,
      dem_Tier = TierCompliance, dem_Source = ausload_Name\<rparr>"

definition charge_floors :: "SystemState \<Rightarrow> f64 \<Rightarrow> Demand list" where
  "charge_floors st allowedW =
     map (\<lambda>b. charge_floor (rating_share bs_MaxChargeW allowedW (rating_sum bs_MaxChargeW (Batteries st)) b) b)
       (filter bs_Connected (Batteries st))"

definition load_target :: "SystemState \<Rightarrow> EVSEState \<Rightarrow> f64 \<Rightarrow> f64 \<Rightarrow> f64 \<Rightarrow> f64" where
  "load_target st ev conservativeW nonBattLoadW chargeW =
     (let evMeasuredW = fold (\<lambda>e t. if es_Connected e \<and> es_SessionActive e then fadd t (es_PowerW e) else t) (EVSEs st) (Fin 0);
          homeW = fmax (Fin 0) (fsub nonBattLoadW evMeasuredW);
          allowedW = fmax (Fin 0) (fsub conservativeW nonBattLoadW);
          chargeAfterW = (if flt (fadd allowedW (Fin 1)) chargeW then Fin 0 else chargeW);
          allowance = fmax (Fin 0) (fsub (fsub conservativeW homeW) chargeAfterW);
          a = fmin (fdiv allowance (ev_voltage ev)) (es_MaxCurrentA ev)
      in if flt a minChargeA then Fin 0 else a)"

definition load_relax :: "f64 \<Rightarrow> AusLoadSession \<Rightarrow> f64 \<times> AusLoadSession" where
  "load_relax targetA sess =
     (let prior = als_evLimitA sess in
      if \<not> is_nan prior \<and> flt prior targetA
      then let (newA, sess') =
                 (if als_safeCount sess < ausLoadRelaxCycle then (prior, sess)
                  else (fmin targetA (fadd prior ausLoadEVMaxRelax), sess\<lparr>als_safeCount := 0\<rparr>))
           in (if flt (Fin 0) newA \<and> flt newA minChargeA
               then (if fle minChargeA targetA then minChargeA else Fin 0) else newA, sess')
      else (targetA, sess))"

definition applyLoadControl :: "SystemState \<Rightarrow> f64 \<Rightarrow> AusLoadSession \<Rightarrow> AusLoadSession \<times> Demand list" where
  "applyLoadControl st limitW s0 =
     (let gross = grossLoadW st in
      if is_nan gross then (s0, stickyEVDemand st s0)
      else let s1 = s0\<lparr>als_safeCount := if fle gross limitW then als_safeCount s0 + 1 else 0\<rparr>;
               conservativeW = import_conservative limitW;
               chargeW = pack_absorb (Batteries st);
               nonBattLoadW = fmax (Fin 0) (fsub gross chargeW);
               floors = charge_floors st (fmax (Fin 0) (fsub conservativeW nonBattLoadW))
           in if is_nan (als_evLimitA s1) \<and> fle gross limitW then (s1, floors)
              else case active_session (EVSEs st) of
                     None \<Rightarrow> (s1\<lparr>als_evLimitA := NaN\<rparr>, floors)
                   | Some ev \<Rightarrow>
                       let (newA, s2) = load_relax (load_target st ev conservativeW nonBattLoadW chargeW) s1
                       in (s2\<lparr>als_evLimitA := newA\<rparr>, floors @ [ev_ceiling ev newA]))"

definition ausload_window :: "(f64 \<Rightarrow> int) \<Rightarrow> Input \<Rightarrow> int" where
  "ausload_window cv inp = or_meter_lag cv inp (battery_window cv inp 0)"

definition ausload_checkConvergence :: "(f64 \<Rightarrow> int) \<Rightarrow> Input \<Rightarrow> f64 \<Rightarrow> AusLoadSession \<Rightarrow> AusLoadSession \<times> ComplianceBreach option" where
  "ausload_checkConvergence cv inp limitW sess =
     (let gross = grossLoadW (in_State inp) in
      if is_nan gross then (sess, None)
      else let threshold = ausload_window cv inp;
               n = leaky threshold (flt (fadd limitW exportComplianceBreachW) gross) (als_breachTicks sess)
           in (sess\<lparr>als_breachTicks := n\<rparr>,
               if threshold \<le> n
               then Some (breach_of ''load-aus'' limitW gross
                      (''gross load remains over the CSIP-AUS load cap after charge-shed and EV curtailment'' @
                       '' -- the remaining load is not sheddable or a device is not honouring its command''))
               else None))"

definition ausload_Evaluate ::
  "(f64 \<Rightarrow> int) \<Rightarrow> Input \<Rightarrow> Session \<Rightarrow> AusLoadSession \<Rightarrow> AusLoadSession \<times> Demand list \<times> ComplianceBreach option" where
  "ausload_Evaluate cv inp _ sess =
     (let st = in_State inp; limitW = LoadLimitW (Grid st) in
      if is_nan limitW then (newAusLoadSession NaN, [], None)
      else let s0 = (if cap_changed limitW (als_activeLimitW sess) then newAusLoadSession limitW else sess\<lparr>als_activeLimitW := limitW\<rparr>);
               (s1, ds) = applyLoadControl st limitW s0;
               (s2, b) = ausload_checkConvergence cv inp limitW s1
           in (s2, ds, stamp_breach st b))"

end
