(* ===== verification/StackEconomics.thy ===== *)
theory StackEconomics
  imports StackRules Optimizer
begin

text \<open>
  internal/orchestrator/constraint/economics.go and passthrough.go: what the two modes of the hub propose
  below the caps, the cost-optimal dispatch in optimizer mode and the utility's own control in gateway
  mode; the rules as constraints of the stack, and the two stacks the hub builds (cmd/hub/main.go). The
  plant's device maps, which the proposals walk in no order, are lists of names with a lookup.
\<close>

section \<open>The economics layer's own plan\<close>

text \<open>The packs and charging points commanded so far can be read off the demands emitted so far.\<close>

definition economics_Name :: string where "economics_Name = ''economics''"

type_synonym ecoPlan = "Demand list"

definition eco_hasBattery :: "ecoPlan \<Rightarrow> string \<Rightarrow> bool" where
  "eco_hasBattery e n \<longleftrightarrow> (\<exists>d \<in> set e. dem_Axis d = AxisBatterySetpointW \<and> dem_Device d = n)"

definition eco_setBattery :: "string \<Rightarrow> f64 \<Rightarrow> ecoPlan \<Rightarrow> ecoPlan" where
  "eco_setBattery n w e = e @ [PointDemand n AxisBatterySetpointW w TierEconomics economics_Name]"

definition eco_hasEVSE :: "ecoPlan \<Rightarrow> EVSEState \<Rightarrow> bool" where
  "eco_hasEVSE e ev \<longleftrightarrow>
     (\<exists>d \<in> set e. dem_Axis d = AxisEVSECurrentA \<and> dem_Device d = evseKey (es_StationID ev) (es_ConnectorID ev))"

definition eco_setEVSE :: "EVSEState \<Rightarrow> f64 \<Rightarrow> ecoPlan \<Rightarrow> ecoPlan" where
  "eco_setEVSE ev a e = e @ [PointDemand (evseKey (es_StationID ev) (es_ConnectorID ev)) AxisEVSECurrentA a TierEconomics economics_Name]"

record EconomicsConstraint =
  eco_costModel :: "TOUCostModel option"
  eco_socReserve :: f64
  eco_socFull :: f64
  eco_excessSolarThreshold :: f64
  eco_exportMarginFrac :: f64
  eco_evImportCooldownCycles :: int

definition economicSurplusW :: "SystemState \<Rightarrow> f64" where
  "economicSurplusW st =
     (if is_nan (NetW (Grid st)) then TotalSolarW st else fsub (fneg (NetW (Grid st))) (TotalEVSEW st))"

section \<open>Fixed dispatch\<close>

text \<open>The accumulator is the shortfall, whether the loop was left, and the demands.\<close>

definition eco_fixed_step :: "(BatteryState \<Rightarrow> bool) \<Rightarrow> BatteryState \<Rightarrow> f64 \<times> bool \<times> ecoPlan \<Rightarrow> BatteryState \<times> f64 \<times> bool \<times> ecoPlan" where
  "eco_fixed_step blk b acc =
     (let (shortfallW, left, e) = acc; available = AvailableDischargeW b in
      if \<not> bs_Connected b \<or> \<not> bs_Energized b \<or> blk b \<or> eco_hasBattery e (bs_Name b) \<or> flt available (Fin 50)
      then (b, acc)
      else let dispatchW = fmin available shortfallW;
               newSetpoint = fadd (bs_PowerW b) dispatchW;
               shortfallW = fsub shortfallW dispatchW
           in (b\<lparr>bs_PowerW := newSetpoint\<rparr>, shortfallW, fle shortfallW (Fin 1), eco_setBattery (bs_Name b) newSetpoint e))"

definition applyFixedDispatch ::
  "CSIPControlState option \<Rightarrow> BatteryState list \<Rightarrow> f64 \<Rightarrow> f64 \<Rightarrow> (BatteryState \<Rightarrow> bool) \<Rightarrow> ecoPlan \<Rightarrow> BatteryState list \<times> ecoPlan" where
  "applyFixedDispatch cc bs solarW homeLoadW blk e =
     (case cc of
        None \<Rightarrow> (bs, e)
      | Some c \<Rightarrow>
          case OpModFixedW (cc_Base c) of
            None \<Rightarrow> (bs, e)
          | Some ap \<Rightarrow>
              let targetW = apW ap;
                  availableW = (if is_nan homeLoadW then solarW else fmax (Fin 0) (fsub solarW homeLoadW))
              in if fle targetW availableW then (bs, e)
                 else let (bs', _, _, e') =
                        walk (\<lambda>(_, left, _). left) (eco_fixed_step blk) bs (fsub targetW availableW, False, e)
                      in (bs', e'))"

section \<open>Following the daily plan\<close>

definition eco_conservative :: "EconomicsConstraint \<Rightarrow> f64 \<Rightarrow> f64" where
  "eco_conservative c limitW = conservative limitW (eco_exportMarginFrac c)"

definition eco_planCapW :: "EconomicsConstraint \<Rightarrow> SystemState \<Rightarrow> f64" where
  "eco_planCapW c st =
     (let limitW = effectiveExportLimitW st in
      if is_nan limitW then NaN
      else let base =
             (if is_nan (NetW (Grid st)) then Fin 0
              else fsub (fneg (NetW (Grid st)))
                     (fold (\<lambda>b t. if bs_Connected b \<and> \<not> is_nan (bs_PowerW b) then fadd t (bs_PowerW b) else t)
                        (Batteries st) (Fin 0)))
           in fmax (Fin 0) (fsub (eco_conservative c limitW) base))"

definition eco_plan_step :: "(BatteryState \<Rightarrow> bool) \<Rightarrow> f64 \<Rightarrow> f64 \<Rightarrow> f64 \<Rightarrow> BatteryState \<Rightarrow> ecoPlan \<Rightarrow> BatteryState \<times> ecoPlan" where
  "eco_plan_step blk socFull setW totalCap b e =
     (if \<not> bs_Connected b then (b, e)
      else let share = plan_share blk socFull setW totalCap b
           in (b\<lparr>bs_PowerW := share\<rparr>, eco_setBattery (bs_Name b) share e))"

definition eco_applyPlan ::
  "PlanTarget option \<Rightarrow> BatteryState list \<Rightarrow> EVSEState list \<Rightarrow> f64 \<Rightarrow> f64 \<Rightarrow> f64 \<Rightarrow> (BatteryState \<Rightarrow> bool) \<Rightarrow> ecoPlan \<Rightarrow>
     BatteryState list \<times> f64 \<times> bool \<times> ecoPlan" where
  "eco_applyPlan target bs evses socFull surplusW capW blk e =
     (case target of
        None \<Rightarrow> (bs, surplusW, False, e)
      | Some tg \<Rightarrow>
          if is_nan (pt_BattSetpointW tg) then (bs, surplusW, False, e)
          else let setW = pt_BattSetpointW tg;
                   setW = (if flt (Fin 0) setW \<and> \<not> is_nan capW \<and> flt capW setW then capW else setW);
                   totalCap = fold (\<lambda>b t. if bs_Connected b then fadd t (plan_cap b) else t) bs (Fin 0)
               in if feq totalCap (Fin 0) then (bs, surplusW, False, e)
                  else let (bs', e') = walk (\<lambda>_. False) (eco_plan_step blk socFull setW totalCap) bs e
                       in (bs', Fin 0, True,
                           fold (\<lambda>ev. eco_setEVSE ev (pt_EVMaxCurrentA tg))
                             (filter (\<lambda>ev. es_Connected ev \<and> es_SessionActive ev) evses) e'))"

section \<open>Self-consumption and peak discharge\<close>

text \<open>The accumulator is the surplus and the demands.\<close>

definition eco_keep_charging :: "f64 \<Rightarrow> BatteryState \<Rightarrow> f64 \<times> ecoPlan \<Rightarrow> BatteryState \<times> f64 \<times> ecoPlan" where
  "eco_keep_charging absorbing b acc =
     (let (surplusW, e) = acc in
      if flt (Fin 0) absorbing \<and> flt (Fin 0) surplusW
      then (b, fsub surplusW absorbing, eco_setBattery (bs_Name b) (bs_PowerW b) e)
      else (b, acc))"

definition eco_self_step :: "f64 \<Rightarrow> f64 \<Rightarrow> BatteryState \<Rightarrow> f64 \<times> ecoPlan \<Rightarrow> BatteryState \<times> f64 \<times> ecoPlan" where
  "eco_self_step excess socFull b acc =
     (let (surplusW, e) = acc in
      if \<not> bs_Connected b \<or> \<not> bs_Energized b \<or> eco_hasBattery e (bs_Name b) \<or> \<not> is_nan (bs_SOC b) \<and> fle socFull (bs_SOC b)
      then (b, acc)
      else let absorbing = (if flt (bs_PowerW b) (Fin 0) then fneg (bs_PowerW b) else Fin 0);
               additional = fmax (Fin 0) (fsub surplusW absorbing)
           in if flt additional excess then eco_keep_charging absorbing b acc
              else let absorb = fmin (AvailableChargeW b) additional
                   in if flt absorb (Fin 50) then eco_keep_charging absorbing b acc
                      else let sp = fsub (bs_PowerW b) absorb
                           in (b\<lparr>bs_PowerW := sp\<rparr>, fsub surplusW (fadd absorb absorbing), eco_setBattery (bs_Name b) sp e))"

definition applySelfConsumption ::
  "BatteryState list \<Rightarrow> f64 \<Rightarrow> f64 \<Rightarrow> f64 \<Rightarrow> ecoPlan \<Rightarrow> BatteryState list \<times> f64 \<times> ecoPlan" where
  "applySelfConsumption bs surplusW excess socFull e = walk (\<lambda>_. False) (eco_self_step excess socFull) bs (surplusW, e)"

definition eco_server_hour :: "planner_env \<Rightarrow> SystemState \<Rightarrow> int" where
  "eco_server_hour env st = local_hour env (wrap64 (time_unix (st_Timestamp st) + st_ClockOffset st))"

definition eco_tou_cap :: "EconomicsConstraint \<Rightarrow> f64 \<Rightarrow> f64 \<Rightarrow> f64 \<Rightarrow> f64" where
  "eco_tou_cap c exportLimit netW surplusW =
     (if is_nan exportLimit then NaN
      else fmax (Fin 0) (fsub (eco_conservative c exportLimit) (fmax (Fin 0) (if is_nan netW then surplusW else fneg netW))))"

text \<open>The accumulator is the surplus, what is left of the discharge cap (NaN: no cap) and the demands.\<close>

definition eco_peak_step :: "bool \<Rightarrow> (BatteryState \<Rightarrow> bool) \<Rightarrow> BatteryState \<Rightarrow> f64 \<times> f64 \<times> ecoPlan \<Rightarrow> BatteryState \<times> f64 \<times> f64 \<times> ecoPlan" where
  "eco_peak_step capped blk b acc =
     (let (surplusW, remainingW, e) = acc in
      if \<not> bs_Connected b \<or> \<not> bs_Energized b \<or> blk b \<or> flt (AvailableDischargeW b) (Fin 50) \<or>
         capped \<and> flt remainingW (Fin 50)
      then (b, acc)
      else let sp = (if capped then fmin (bs_MaxDischargeW b) remainingW else bs_MaxDischargeW b)
           in if eco_hasBattery e (bs_Name b) then (b, acc)
              else (b\<lparr>bs_PowerW := sp\<rparr>, fadd surplusW (fsub sp (bs_PowerW b)),
                    if capped then fsub remainingW sp else remainingW, eco_setBattery (bs_Name b) sp e))"

definition applyTOU ::
  "planner_env \<Rightarrow> EconomicsConstraint \<Rightarrow> SystemState \<Rightarrow> BatteryState list \<Rightarrow> f64 \<Rightarrow> f64 \<Rightarrow> (BatteryState \<Rightarrow> bool) \<Rightarrow> ecoPlan \<Rightarrow>
     BatteryState list \<times> f64 \<times> ecoPlan" where
  "applyTOU env c st bs surplusW exportLimit blk e =
     (case eco_costModel c of
        None \<Rightarrow> (bs, surplusW, e)
      | Some cm \<Rightarrow>
          if \<not> IsPeakHour cm (eco_server_hour env st) then (bs, surplusW, e)
          else let capW = eco_tou_cap c exportLimit (NetW (Grid st)) surplusW;
                   (bs', surplusW', _, e') = walk (\<lambda>_. False) (eco_peak_step (\<not> is_nan capW) blk) bs (surplusW, capW, e)
               in (bs', surplusW', e'))"

section \<open>Vehicle charging\<close>

definition eco_budget_current :: "f64 \<Rightarrow> f64 \<Rightarrow> f64 \<Rightarrow> f64 \<Rightarrow> EVSEState \<Rightarrow> f64" where
  "eco_budget_current exportLimit importLimit netW surplusW ev =
     (let voltage = ev_voltage ev; minChargeW = fmul minChargeA voltage; budgetW = fmax (Fin 0) surplusW in
      if \<not> is_nan exportLimit \<and> flt (Fin 0) budgetW \<and> flt budgetW minChargeW
      then let headroom = (if \<not> is_nan importLimit \<and> \<not> is_nan netW then fsub importLimit netW else PInf)
           in if fle (fsub minChargeW budgetW) headroom then minChargeA else Fin 0
      else let limitA = fdiv budgetW voltage
           in if flt limitA minChargeA then Fin 0 else fmin limitA (es_MaxCurrentA ev))"

definition eco_current :: "f64 \<Rightarrow> f64 \<Rightarrow> f64 \<Rightarrow> f64 \<Rightarrow> bool \<Rightarrow> f64 \<Rightarrow> EVSEState \<Rightarrow> f64" where
  "eco_current exportLimit importLimit netW solarW suppressed surplusW ev =
     (let voltage = ev_voltage ev in
      if suppressed then Fin 0
      else if \<not> is_nan importLimit \<and> \<not> is_nan netW \<and> fle importLimit netW then Fin 0
      else if is_nan exportLimit \<and> is_nan importLimit
      then (let budgetA = fdiv (fadd surplusW (es_PowerW ev)) voltage
            in if flt (Fin 0) solarW \<and> flt budgetA (es_MaxCurrentA ev) then fmax minChargeA budgetA else es_MaxCurrentA ev)
      else if \<not> is_nan exportLimit \<and> \<not> is_nan netW \<and> fle (Fin 0) netW then es_MaxCurrentA ev
      else if flt (Fin 0) solarW \<and> flt surplusW (fmul (es_MaxCurrentA ev) voltage)
      then eco_budget_current exportLimit importLimit netW surplusW ev
      else es_MaxCurrentA ev)"

definition eco_charge_step :: "(EVSEState \<Rightarrow> f64) \<Rightarrow> EVSEState \<Rightarrow> ecoPlan \<Rightarrow> ecoPlan" where
  "eco_charge_step current ev e =
     (if \<not> es_Connected ev \<or> \<not> es_SessionActive ev \<or> eco_hasEVSE e ev then e else eco_setEVSE ev (current ev) e)"

definition applyEVCharging ::
  "EVSEState list \<Rightarrow> f64 \<Rightarrow> f64 \<Rightarrow> f64 \<Rightarrow> f64 \<Rightarrow> f64 \<Rightarrow> bool \<Rightarrow> ecoPlan \<Rightarrow> ecoPlan" where
  "applyEVCharging evses exportLimit importLimit netW solarW surplusW suppressed e =
     fold (eco_charge_step (eco_current exportLimit importLimit netW solarW suppressed surplusW)) evses e"

text \<open>Without an import rule there is no cooldown to read, and nothing is suppressed.\<close>

definition evImportSuppressed :: "EconomicsConstraint \<Rightarrow> EVImportCooldown option \<Rightarrow> f64 \<Rightarrow> bool" where
  "evImportSuppressed c cd importLimit \<longleftrightarrow>
     \<not> is_nan importLimit \<and> (case cd of None \<Rightarrow> False | Some x \<Rightarrow> Suppressed x (eco_evImportCooldownCycles c))"

definition eco_disconnected :: "SystemState \<Rightarrow> bool" where
  "eco_disconnected st \<longleftrightarrow> (case CSIPControl st of None \<Rightarrow> False | Some cc \<Rightarrow> OpModConnect (cc_Base cc) = Some False)"

definition eco_fixed :: "SystemState \<Rightarrow> bool" where
  "eco_fixed st \<longleftrightarrow> (case CSIPControl st of None \<Rightarrow> False | Some cc \<Rightarrow> OpModFixedW (cc_Base cc) \<noteq> None)"

definition economics_Evaluate ::
  "planner_env \<Rightarrow> EconomicsConstraint \<Rightarrow> EVImportCooldown option \<Rightarrow> Input \<Rightarrow> Demand list" where
  "economics_Evaluate env c cd inp =
     (let st = in_State inp in
      if eco_disconnected st then []
      else
        let blk = reserveBlocker inp (eco_socReserve c); netW = NetW (Grid st); solarW = TotalSolarW st;
            exportLimit = effectiveExportLimitW st; importLimit = effectiveImportLimitW st;
            (bs1, e1) = applyFixedDispatch (CSIPControl st) (Batteries st) solarW (InferredLoadW st) blk [];
            (bs2, surplus2, followed, e2) =
              (if eco_fixed st then (bs1, economicSurplusW st, False, e1)
               else eco_applyPlan (DailyPlanTarget st) bs1 (EVSEs st) (eco_socFull c) (economicSurplusW st) (eco_planCapW c st) blk e1)
        in if followed then e2
           else let (bs3, surplus3, e3) = applySelfConsumption bs2 surplus2 (eco_excessSolarThreshold c) (eco_socFull c) e2;
                    (bs4, surplus4, e4) = applyTOU env c st bs3 surplus3 exportLimit blk e3
                in applyEVCharging (EVSEs st) exportLimit importLimit netW solarW surplus4 (evImportSuppressed c cd importLimit) e4)"

section \<open>Passthrough\<close>

record GatewayEVSEPolicy =
  pol_Mode :: string
  WindowStartHH :: int
  WindowEndHH :: int
  FullCurrentA :: f64

definition policy_WithDefaults :: "GatewayEVSEPolicy \<Rightarrow> GatewayEVSEPolicy" where
  "policy_WithDefaults p =
     \<lparr>pol_Mode = (if pol_Mode p = '''' then ''scheduled'' else pol_Mode p),
      WindowStartHH = (if WindowStartHH p = 0 then 23 else WindowStartHH p),
      WindowEndHH = (if WindowEndHH p = 0 then 7 else WindowEndHH p),
      FullCurrentA = zero_default (Fin 32) (FullCurrentA p)\<rparr>"

definition inWindow :: "int \<Rightarrow> int \<Rightarrow> int \<Rightarrow> bool" where
  "inWindow hour start end_hh =
     (if start = end_hh then False
      else if start < end_hh then start \<le> hour \<and> hour < end_hh
      else start \<le> hour \<or> hour < end_hh)"

definition currentLimitA :: "GatewayEVSEPolicy \<Rightarrow> int \<Rightarrow> f64" where
  "currentLimitA p hour =
     (if pol_Mode p = ''full'' then FullCurrentA p
      else if inWindow hour (WindowStartHH p) (WindowEndHH p) then FullCurrentA p
      else Fin 0)"

text \<open>The names of the plant's devices, in the order the loops over its maps take this tick. The order is
  free in Go; arbitration sorts the demands.\<close>

record device_names =
  dn_Inverters :: "string list"
  dn_Batteries :: "string list"
  dn_EVSEs :: "string list"

definition solar_proposals :: "CSIPControlState option \<Rightarrow> string list \<Rightarrow> Demand list" where
  "solar_proposals ctl names =
     map (\<lambda>n. case ctl of
            Some c \<Rightarrow> (case OpModMaxLimW (cc_Base c) of
               Some ap \<Rightarrow> CeilingDemand n AxisSolarCeilingW (apW ap) TierEconomics ''csip-maxlim''
             | None \<Rightarrow> CeilingDemand n AxisSolarCeilingW NaN TierEconomics ''csip-restore'')
          | None \<Rightarrow> CeilingDemand n AxisSolarCeilingW NaN TierEconomics ''csip-restore'') names"

definition battery_proposals :: "CSIPControlState option \<Rightarrow> string list \<Rightarrow> Demand list" where
  "battery_proposals ctl names =
     map (\<lambda>n. case ctl of
            Some c \<Rightarrow> (case OpModFixedW (cc_Base c) of
               Some ap \<Rightarrow> PointDemand n AxisBatterySetpointW (apW ap) TierEconomics ''csip-fixedw''
             | None \<Rightarrow> PointDemand n AxisBatterySetpointW (Fin 0) TierEconomics ''csip-idle'')
          | None \<Rightarrow> PointDemand n AxisBatterySetpointW (Fin 0) TierEconomics ''csip-idle'') names"

definition connect_proposals :: "CSIPControlState option \<Rightarrow> device_names \<Rightarrow> Demand list" where
  "connect_proposals ctl names =
     (case ctl of
        None \<Rightarrow> []
      | Some c \<Rightarrow> (case OpModConnect (cc_Base c) of
          None \<Rightarrow> []
        | Some connect \<Rightarrow> map (\<lambda>n. ConnectDemand n connect TierEconomics ''csip-connect'')
                            (dn_Inverters names @ dn_Batteries names @ dn_EVSEs names)))"

definition passthrough_Evaluate :: "planner_env \<Rightarrow> GatewayEVSEPolicy \<Rightarrow> device_names \<Rightarrow> Input \<Rightarrow> Demand list" where
  "passthrough_Evaluate env policy names inp =
     (let ctl = CSIPControl (in_State inp); hour = local_hour env (time_unix (st_Timestamp (in_State inp)))
      in solar_proposals ctl (dn_Inverters names) @ battery_proposals ctl (dn_Batteries names) @
         connect_proposals ctl names @
         map (\<lambda>n. CeilingDemand n AxisEVSECurrentA (currentLimitA policy hour) TierEconomics ''gateway-evse'') (dn_EVSEs names))"

section \<open>The rules as constraints\<close>

text \<open>The store: one session per rule and the cooldown, which the import rule writes and the economics
  rule reads.\<close>

record rule_states =
  rs_export :: ExportSession
  rs_gen :: GenSession
  rs_import :: ImportSession
  rs_cooldown :: EVImportCooldown
  rs_ausgen :: AusGenSession
  rs_ausload :: AusLoadSession

definition new_rule_states :: rule_states where
  "new_rule_states =
     \<lparr>rs_export = newExportSession, rs_gen = newGenSession, rs_import = newImportSession NaN,
      rs_cooldown = NewEVImportCooldown, rs_ausgen = newAusGenSession NaN, rs_ausload = newAusLoadSession NaN\<rparr>"

definition export_rule :: "(f64 \<Rightarrow> int) \<Rightarrow> rule_states Constraint" where
  "export_rule cv = Rule export_Name
     (\<lambda>inp s x. let (e, ds, b) = export_Evaluate cv inp s (rs_export x) in (x\<lparr>rs_export := e\<rparr>, ds, b))"

definition gen_rule :: "(f64 \<Rightarrow> int) \<Rightarrow> rule_states Constraint" where
  "gen_rule cv = Rule gen_Name
     (\<lambda>inp s x. let (g, ds, b) = gen_Evaluate cv inp s (rs_gen x) in (x\<lparr>rs_gen := g\<rparr>, ds, b))"

definition import_rule :: "(f64 \<Rightarrow> int) \<Rightarrow> rule_states Constraint" where
  "import_rule cv = Rule import_Name
     (\<lambda>inp s x. let ((i, cd), ds, b) = import_Evaluate cv inp s (rs_import x, rs_cooldown x)
                in (x\<lparr>rs_import := i, rs_cooldown := cd\<rparr>, ds, b))"

definition ausgen_rule :: "(f64 \<Rightarrow> int) \<Rightarrow> rule_states Constraint" where
  "ausgen_rule cv = Rule ausgen_Name
     (\<lambda>inp s x. let (g, ds, b) = ausgen_Evaluate cv inp s (rs_ausgen x) in (x\<lparr>rs_ausgen := g\<rparr>, ds, b))"

definition ausload_rule :: "(f64 \<Rightarrow> int) \<Rightarrow> rule_states Constraint" where
  "ausload_rule cv = Rule ausload_Name
     (\<lambda>inp s x. let (l, ds, b) = ausload_Evaluate cv inp s (rs_ausload x) in (x\<lparr>rs_ausload := l\<rparr>, ds, b))"

definition economics_rule :: "planner_env \<Rightarrow> EconomicsConstraint \<Rightarrow> rule_states Constraint" where
  "economics_rule env c = Rule economics_Name
     (\<lambda>inp s x. (x, economics_Evaluate env c (Some (rs_cooldown x)) inp, None))"

definition passthrough_rule :: "planner_env \<Rightarrow> GatewayEVSEPolicy \<Rightarrow> device_names \<Rightarrow> rule_states Constraint" where
  "passthrough_rule env policy names = Rule ''csip-passthrough''
     (\<lambda>inp s x. (x, passthrough_Evaluate env (policy_WithDefaults policy) names inp, None))"

section \<open>The stacks of the hub\<close>

datatype ConstraintMode = ModeOff | ModeShadow | ModeActive

text \<open>The constraints that are not switched off, and the names of those whose values are actuated.\<close>

definition site_constraints ::
  "planner_env \<Rightarrow> (f64 \<Rightarrow> int) \<Rightarrow> f64 \<Rightarrow> EconomicsConstraint \<Rightarrow> (string \<times> string \<times> rule_states Constraint) list" where
  "site_constraints env cv socR eco =
     [(''battery_safety'', bsc_Name, BatteryGuard (NewBatterySafetyConstraint socR)),
      (''export'', export_Name, export_rule cv), (''gen'', gen_Name, gen_rule cv), (''import'', import_Name, import_rule cv),
      (''gen_aus'', ausgen_Name, ausgen_rule cv), (''load_aus'', ausload_Name, ausload_rule cv),
      (''economics'', economics_Name, economics_rule env eco)]"

definition shadow_constraints ::
  "(string \<Rightarrow> ConstraintMode) \<Rightarrow> (string \<times> string \<times> rule_states Constraint) list \<Rightarrow> rule_states Constraint list" where
  "shadow_constraints modes cs = map (\<lambda>(_, _, c). c) (filter (\<lambda>(key, _, _). modes key \<noteq> ModeOff) cs)"

definition active_names ::
  "(string \<Rightarrow> ConstraintMode) \<Rightarrow> (string \<times> string \<times> rule_states Constraint) list \<Rightarrow> string set" where
  "active_names modes cs = (\<lambda>(_, n, _). n) ` {x \<in> set cs. modes (fst x) = ModeActive}"

definition shadow_stack ::
  "planner_env \<Rightarrow> (f64 \<Rightarrow> int) \<Rightarrow> Plant \<Rightarrow> duration \<Rightarrow> (string \<Rightarrow> ConstraintMode) \<Rightarrow> f64 \<Rightarrow> EconomicsConstraint \<Rightarrow> rule_states Stack" where
  "shadow_stack env cv plant interval modes socR eco =
     SetReserveFloor socR (NewStack plant interval (shadow_constraints modes (site_constraints env cv socR eco)) new_rule_states)"

definition gateway_constraints ::
  "planner_env \<Rightarrow> (f64 \<Rightarrow> int) \<Rightarrow> f64 \<Rightarrow> GatewayEVSEPolicy \<Rightarrow> device_names \<Rightarrow> rule_states Constraint list" where
  "gateway_constraints env cv socR policy names =
     [BatteryGuard (NewBatterySafetyConstraint socR), export_rule cv, gen_rule cv, import_rule cv,
      passthrough_rule env policy names]"

definition gateway_stack ::
  "planner_env \<Rightarrow> (f64 \<Rightarrow> int) \<Rightarrow> Plant \<Rightarrow> duration \<Rightarrow> f64 \<Rightarrow> GatewayEVSEPolicy \<Rightarrow> device_names \<Rightarrow> rule_states Stack" where
  "gateway_stack env cv plant interval socR policy names =
     SetReserveFloor socR (NewStack plant interval (gateway_constraints env cv socR policy names) new_rule_states)"

end
