(* ===== verification/StackProps.thy ===== *)
theory StackProps
  imports StackEconomics OptProps
begin

text \<open>
  What the compliance rules and the two stacks of the hub guarantee: an export over the cap is reported
  through any rewriting of the cap, vehicle charging stays suspended after an import violation, and in
  gateway mode the plan is the utility's control, device by device.
\<close>

section \<open>The gateway stack tick by tick\<close>

definition gateway_rules ::
  "planner_env \<Rightarrow> (f64 \<Rightarrow> int) \<Rightarrow> GatewayEVSEPolicy \<Rightarrow> device_names \<Rightarrow> rule_states Constraint list" where
  "gateway_rules env cv policy names = [export_rule cv, gen_rule cv, import_rule cv, passthrough_rule env policy names]"

definition gateway_shaped ::
  "planner_env \<Rightarrow> (f64 \<Rightarrow> int) \<Rightarrow> GatewayEVSEPolicy \<Rightarrow> device_names \<Rightarrow> rule_states Stack \<Rightarrow> bool" where
  "gateway_shaped env cv policy names s \<longleftrightarrow> (\<exists>g. constraints s = BatteryGuard g # gateway_rules env cv policy names)"

definition tick_input :: "rule_states Stack \<Rightarrow> SystemState \<Rightarrow> Input" where
  "tick_input s state = stack_input (ticked state s) state"

lemma gateway_stack_shaped [simp]: "gateway_shaped env cv policy names (gateway_stack env cv plant iv socR policy names)"
  by (simp add: gateway_shaped_def gateway_stack_def SetReserveFloor_def NewStack_def gateway_constraints_def gateway_rules_def)

lemma gateway_stack_fields [simp]:
  "stk_plant (gateway_stack env cv plant iv socR policy names) = plant"
  "stk_tickInterval (gateway_stack env cv plant iv socR policy names) = iv"
  "rule_store (gateway_stack env cv plant iv socR policy names) = new_rule_states"
  by (simp_all add: gateway_stack_def SetReserveFloor_def NewStack_def)

lemma post_pass_rules: "list_all (\<lambda>c. \<exists>n ev. c = Rule n ev) cs \<Longrightarrow> post_pass iv inp cs acc = (cs, acc)"
  by (induction cs arbitrary: acc) (auto simp: post_pass_simps)

lemma gateway_rules_are_rules: "list_all (\<lambda>c. \<exists>n ev. c = Rule n ev) (gateway_rules env cv policy names)"
  by (simp add: gateway_rules_def export_rule_def gen_rule_def import_rule_def passthrough_rule_def)

lemma gateway_shaped_tick: "gateway_shaped env cv policy names s \<Longrightarrow> gateway_shaped env cv policy names (fst (Optimize t state s))"
  by (auto simp: gateway_shaped_def Optimize_fields(1) tick_post_def post_pass_simps post_pass_rules [OF gateway_rules_are_rules] Let_def)

lemma Optimize_more:
  "stk_plant (fst (Optimize t state s)) = stk_plant s"
  "rule_store (fst (Optimize t state s)) = fst (tick_pass state s)"
  by (simp_all add: Optimize_def Let_def tick_pass_def ticked_def case_prod_unfold)

text \<open>The demand pass of the gateway stack, rule by rule.\<close>

lemma gateway_pass:
  assumes "gateway_shaped env cv policy names s"
  obtains e d1 b1 g d2 b2 i cd d3 b3 where
    "export_Evaluate cv (tick_input s state) (NewSession export_Name (stk_tickInterval s)) (rs_export (rule_store s)) = (e, d1, b1)"
    and "gen_Evaluate cv (tick_input s state) (NewSession gen_Name (stk_tickInterval s)) (rs_gen (rule_store s)) = (g, d2, b2)"
    and "import_Evaluate cv (tick_input s state) (NewSession import_Name (stk_tickInterval s))
           (rs_import (rule_store s), rs_cooldown (rule_store s)) = ((i, cd), d3, b3)"
    and "fst (tick_pass state s) = (rule_store s)\<lparr>rs_export := e, rs_gen := g, rs_import := i, rs_cooldown := cd\<rparr>"
    and "tick_demands state s = d1 @ d2 @ d3 @ passthrough_Evaluate env (policy_WithDefaults policy) names (tick_input s state)"
    and "Breach (snd (Optimize t state s)) = fold recordBreach (List.map_filter id [b1, b2, b3]) None"
proof -
  obtain e d1 b1 where 1: "export_Evaluate cv (tick_input s state) (NewSession export_Name (stk_tickInterval s)) (rs_export (rule_store s)) = (e, d1, b1)"
    by (metis prod_cases3)
  obtain g d2 b2 where 2: "gen_Evaluate cv (tick_input s state) (NewSession gen_Name (stk_tickInterval s)) (rs_gen (rule_store s)) = (g, d2, b2)"
    by (metis prod_cases3)
  obtain i cd d3 b3 where 3: "import_Evaluate cv (tick_input s state) (NewSession import_Name (stk_tickInterval s))
      (rs_import (rule_store s), rs_cooldown (rule_store s)) = ((i, cd), d3, b3)" by (metis prod_cases3 surj_pair)
  obtain q where q: "constraints s = BatteryGuard q # gateway_rules env cv policy names" using assms by (auto simp: gateway_shaped_def)
  have p: "tick_pass state s =
      ((rule_store s)\<lparr>rs_export := e, rs_gen := g, rs_import := i, rs_cooldown := cd\<rparr>,
       d1 @ d2 @ d3 @ passthrough_Evaluate env (policy_WithDefaults policy) names (tick_input s state), List.map_filter id [b1, b2, b3])"
    using 1 2 3 unfolding tick_pass_def q gateway_rules_def
    by (auto simp: export_rule_def gen_rule_def import_rule_def passthrough_rule_def tick_input_def map_filter_simps split: option.split)
  show thesis by (rule that [OF 1 2 3]) (use p in \<open>simp_all add: tick_demands_def Optimize_fields(5)\<close>)
qed

lemma gateway_shaped_run: "gateway_shaped env cv policy names s \<Longrightarrow> gateway_shaped env cv policy names (fst (run_ticks xs s)) \<and>
    stk_plant (fst (run_ticks xs s)) = stk_plant s \<and> stk_tickInterval (fst (run_ticks xs s)) = stk_tickInterval s"
  by (induction xs arbitrary: s) (simp_all add: case_prod_unfold Let_def gateway_shaped_tick Optimize_more Optimize_fields(3))

lemma recordBreach_fold: "fold recordBreach bs (Some b) \<noteq> None"
  by (induction bs arbitrary: b) (auto simp: recordBreach_def)

lemma recordBreach_none: "fold recordBreach (List.map_filter id bs) None = None \<longleftrightarrow> list_all (\<lambda>b. b = None) bs"
proof (induction bs)
  case (Cons b bs)
  have "recordBreach x None = Some x" for x by (simp add: recordBreach_def)
  then show ?case using Cons recordBreach_fold by (cases b) (simp_all add: map_filter_simps)
qed (simp add: map_filter_simps)

section \<open>Export over the cap\<close>

text \<open>A state seen from a plant and an interval, as the stack hands it to its rules.\<close>

definition seen :: "Plant \<Rightarrow> duration \<Rightarrow> SystemState \<Rightarrow> Input" where
  "seen plant iv st = \<lparr>in_State = st, in_Plant = plant, in_TickSeconds = tickSeconds iv, DischargeBlocked = None\<rparr>"

definition over_export :: "(f64 \<Rightarrow> int) \<Rightarrow> Plant \<Rightarrow> duration \<Rightarrow> int \<Rightarrow> SystemState \<Rightarrow> bool" where
  "over_export cv plant iv k st \<longleftrightarrow>
     \<not> is_nan (effectiveExportLimitW st) \<and> \<not> is_nan (NetW (Grid st)) \<and>
     flt (fadd (effectiveExportLimitW st) exportComplianceBreachW) (fmax (Fin 0) (fneg (NetW (Grid st)))) \<and>
     export_window cv (seen plant iv st) = k"

lemma window_cong:
  assumes "in_State a = in_State b" and "in_Plant a = in_Plant b" and "in_TickSeconds a = in_TickSeconds b"
  shows "export_window cv a = export_window cv b" and "import_window cv a = import_window cv b"
  unfolding export_window_def import_window_def or_meter_lag_def inverter_window_def battery_window_def assms by (rule refl)+

lemma tick_input_fields [simp]:
  "in_State (tick_input s st) = st" "in_Plant (tick_input s st) = stk_plant s"
  "in_TickSeconds (tick_input s st) = tickSeconds (stk_tickInterval s)"
  "in_State (seen p iv st) = st" "in_Plant (seen p iv st) = p" "in_TickSeconds (seen p iv st) = tickSeconds iv"
  by (simp_all add: tick_input_def stack_input_def ticked_def seen_def)

lemma window_seen:
  "export_window cv (tick_input s st) = export_window cv (seen (stk_plant s) (stk_tickInterval s) st)"
  "import_window cv (tick_input s st) = import_window cv (seen (stk_plant s) (stk_tickInterval s) st)"
  by (rule window_cong; simp)+

lemma fold_max_ge: "(w::int) \<le> fold (\<lambda>x w. if p x then w else max w (f x)) xs w"
proof (induction xs arbitrary: w)
  case (Cons x xs)
  have "max w (f x) \<le> fold (\<lambda>x w. if p x then w else max w (f x)) xs (max w (f x))" by (rule Cons)
  then show ?case using Cons [of w] by auto
qed simp

lemma windows_positive:
  "0 < export_window cv inp" "0 < import_window cv inp" "0 < ausload_window cv inp" "0 < ausgen_window cv inp"
proof -
  have b: "0 \<le> w \<Longrightarrow> 0 \<le> battery_window cv inp w" "0 \<le> w \<Longrightarrow> 0 \<le> inverter_window cv inp w" for w
    unfolding battery_window_def inverter_window_def by (rule order_trans, assumption, rule fold_max_ge)+
  have "0 \<le> w \<Longrightarrow> 0 < or_meter_lag cv inp w" for w
    using DetectionWindowTicks_ge [of cv "Fin 0" "mp_MeterLagS (Meter (in_Plant inp))" "in_TickSeconds inp"] by (auto simp: or_meter_lag_def)
  then show "0 < export_window cv inp" "0 < import_window cv inp" "0 < ausload_window cv inp" "0 < ausgen_window cv inp"
    using b by (simp_all add: export_window_def import_window_def ausload_window_def ausgen_window_def)
qed

lemma leaky_bounds: "0 \<le> n \<Longrightarrow> 0 < k \<Longrightarrow> 0 \<le> leaky k ov n"
  by (simp add: leaky_def)

lemma stamp_breach_none [simp]: "stamp_breach st b = None \<longleftrightarrow> b = None"
  by (simp add: stamp_breach_def split: option.split)

lemma export_control_over: "exs_overTicks (fst (applyExportControl cv inp s l sess)) = exs_overTicks sess"
  by (simp add: applyExportControl_def Let_def split: prod.split)

text \<open>One tick of the export rule. The count of ticks over the cap is that of the session before, whether
  the cap has been rewritten or not.\<close>

lemma export_tick_over:
  assumes "\<not> is_nan (effectiveExportLimitW (in_State inp))" and "\<not> is_nan (NetW (Grid (in_State inp)))"
    and "export_Evaluate cv inp s sess = (sess', ds, b)"
  shows "exs_overTicks sess' = leaky (export_window cv inp)
      (flt (fadd (effectiveExportLimitW (in_State inp)) exportComplianceBreachW) (fmax (Fin 0) (fneg (NetW (Grid (in_State inp))))))
      (exs_overTicks sess)"
    and "export_window cv inp \<le> exs_overTicks sess' \<Longrightarrow> b \<noteq> None"
proof -
  let ?l = "effectiveExportLimitW (in_State inp)"
  let ?s0 = "if feq ?l (exp_activeLimitW (exs_ctrl sess)) then sess else resetControllerForNewLimit ?l sess"
  obtain s1 d z where c: "applyExportControl cv inp s ?l ?s0 = (s1, d, z)" by (metis prod_cases3)
  obtain s2 v where v: "export_checkConvergence cv inp ?l s1 = (s2, v)" by fastforce
  have e: "sess' = s2" "b = stamp_breach (in_State inp) (if z = None then v else z)"
    using assms(1,3) c v by (auto simp: export_Evaluate_def Let_def)
  have o1: "exs_overTicks s1 = exs_overTicks sess"
    using export_control_over [of cv inp s ?l ?s0] c by (simp add: resetControllerForNewLimit_def)
  show "exs_overTicks sess' = leaky (export_window cv inp) (flt (fadd ?l exportComplianceBreachW)
      (fmax (Fin 0) (fneg (NetW (Grid (in_State inp)))))) (exs_overTicks sess)"
    using v assms(2) by (auto simp: e o1 export_checkConvergence_def Let_def)
  show "export_window cv inp \<le> exs_overTicks sess' \<Longrightarrow> b \<noteq> None"
    using v assms(2) by (auto simp: e export_checkConvergence_def Let_def)
qed

lemma export_tick_nonneg:
  assumes "0 \<le> exs_overTicks sess" and "export_Evaluate cv inp s sess = (sess', ds, b)"
  shows "0 \<le> exs_overTicks sess'"
proof (cases "is_nan (effectiveExportLimitW (in_State inp))")
  case True
  then show ?thesis using assms by (auto simp: export_Evaluate_def newExportSession_def)
next
  case l: False
  show ?thesis
  proof (cases "is_nan (NetW (Grid (in_State inp)))")
    case True
    then show ?thesis using assms l export_control_over
      by (auto simp: export_Evaluate_def export_checkConvergence_def resetControllerForNewLimit_def Let_def split: prod.splits if_splits
          dest: arg_cong [of _ _ "\<lambda>x. exs_overTicks (fst x)"])
  next
    case False
    then show ?thesis using export_tick_over(1) [OF l _ assms(2)] assms(1) by (simp add: leaky_def)
  qed
qed

text \<open>The whole stack: the export session of the store, tick by tick.\<close>

definition exs_of :: "rule_states Stack \<Rightarrow> int" where
  "exs_of s = exs_overTicks (rs_export (rule_store s))"

lemma gateway_tick_over:
  assumes "gateway_shaped env cv policy names s" and "over_export cv (stk_plant s) (stk_tickInterval s) k st"
  shows "exs_of (fst (Optimize t st s)) = leaky k True (exs_of s)"
    and "k \<le> exs_of (fst (Optimize t st s)) \<Longrightarrow> Breach (snd (Optimize t st s)) \<noteq> None"
proof -
  obtain e d1 b1 g d2 b2 i cd d3 b3 where r:
    "export_Evaluate cv (tick_input s st) (NewSession export_Name (stk_tickInterval s)) (rs_export (rule_store s)) = (e, d1, b1)"
    "fst (tick_pass st s) = (rule_store s)\<lparr>rs_export := e, rs_gen := g, rs_import := i, rs_cooldown := cd\<rparr>"
    "Breach (snd (Optimize t st s)) = fold recordBreach (List.map_filter id [b1, b2, b3]) None"
    using gateway_pass [OF assms(1), of st t] by metis
  have k: "export_window cv (tick_input s st) = k" using assms(2) by (simp add: over_export_def window_seen)
  note o = export_tick_over [OF _ _ r(1), unfolded tick_input_fields k]
  show c: "exs_of (fst (Optimize t st s)) = leaky k True (exs_of s)"
    using o(1) assms(2) by (simp add: over_export_def exs_of_def Optimize_more r(2))
  assume "k \<le> exs_of (fst (Optimize t st s))"
  then have "b1 \<noteq> None" using o(2) assms(2) by (simp add: over_export_def exs_of_def Optimize_more r(2))
  then show "Breach (snd (Optimize t st s)) \<noteq> None" using recordBreach_none [of "[b1, b2, b3]"] r(3) by simp
qed

lemma gateway_tick_nonneg:
  assumes "gateway_shaped env cv policy names s" and "0 \<le> exs_of s"
  shows "0 \<le> exs_of (fst (Optimize t st s))"
proof -
  obtain e d1 b1 g i cd where r:
    "export_Evaluate cv (tick_input s st) (NewSession export_Name (stk_tickInterval s)) (rs_export (rule_store s)) = (e, d1, b1)"
    "fst (tick_pass st s) = (rule_store s)\<lparr>rs_export := e, rs_gen := g, rs_import := i, rs_cooldown := cd\<rparr>"
    using gateway_pass [OF assms(1), of st] by metis
  show ?thesis using export_tick_nonneg [OF _ r(1)] assms(2) by (simp add: exs_of_def Optimize_more r(2))
qed

lemma gateway_run_nonneg:
  "gateway_shaped env cv policy names s \<Longrightarrow> 0 \<le> exs_of s \<Longrightarrow> 0 \<le> exs_of (fst (run_ticks xs s))"
  by (induction xs arbitrary: s) (simp_all add: case_prod_unfold Let_def gateway_shaped_tick gateway_tick_nonneg)

lemma run_ticks_length: "length (snd (run_ticks xs s)) = length xs"
  by (induction xs arbitrary: s) (simp_all add: case_prod_unfold Let_def)

lemma gateway_run_over:
  assumes "gateway_shaped env cv policy names s" and "\<forall>x \<in> set xs. over_export cv (stk_plant s) (stk_tickInterval s) k (snd x)"
    and "0 \<le> exs_of s" and "xs \<noteq> []" and "k \<le> exs_of s + int (length xs)"
  shows "Breach (last (snd (run_ticks xs s))) \<noteq> None"
  using assms
proof (induction xs arbitrary: s)
  case (Cons x xs)
  let ?s = "fst (Optimize (fst x) (snd x) s)"
  note o = gateway_tick_over [OF Cons.prems(1), of k "snd x" "fst x"]
  have x: "over_export cv (stk_plant s) (stk_tickInterval s) k (snd x)" using Cons.prems(2) by simp
  have c: "min k (exs_of s + 1) \<le> exs_of ?s" using o(1) [OF x] by (simp add: leaky_def)
  show ?case
  proof (cases "xs = []")
    case True
    then show ?thesis using o(2) [OF x] c Cons.prems(5) by (simp add: case_prod_unfold Let_def)
  next
    case False
    have l: "snd (run_ticks xs ?s) \<noteq> []" using False run_ticks_length [of xs ?s] by auto
    have "Breach (last (snd (run_ticks xs ?s))) \<noteq> None"
    proof (rule Cons.IH)
      show "gateway_shaped env cv policy names ?s" by (rule gateway_shaped_tick [OF Cons.prems(1)])
      show "\<forall>x \<in> set xs. over_export cv (stk_plant ?s) (stk_tickInterval ?s) k (snd x)"
        using Cons.prems(2) by (simp add: Optimize_more Optimize_fields(3))
      show "0 \<le> exs_of ?s" by (rule gateway_tick_nonneg [OF Cons.prems(1,3)])
      have "1 \<le> int (length xs)" using False by (cases xs) simp_all
      then show "k \<le> exs_of ?s + int (length xs)" using c Cons.prems(5) by simp
    qed (rule False)
    then show ?thesis using l by (simp add: case_prod_unfold Let_def)
  qed
qed simp

text \<open>
  Property C3: rewriting the export cap does not hide a violation. Whatever happened before, if over as
  many consecutive ticks as the detection window is long an export cap, possibly another one at every
  tick, is in force and the meter shows an export of more than 100 W above it, the plan the gateway
  stack makes at the last of these ticks reports a breach.
\<close>

theorem churned_export_cap_reported:
  assumes "\<forall>x \<in> set xs. over_export cv plant iv k (snd x)" and "k \<le> int (length xs)" and "xs \<noteq> []"
  shows "Breach (last (snd (run_ticks (before @ xs) (gateway_stack env cv plant iv socR policy names)))) \<noteq> None"
proof -
  let ?s = "gateway_stack env cv plant iv socR policy names"
  let ?s' = "fst (run_ticks before ?s)"
  have g: "gateway_shaped env cv policy names ?s'" "stk_plant ?s' = plant" "stk_tickInterval ?s' = iv"
    using gateway_shaped_run [where xs = before, OF gateway_stack_shaped] by simp_all
  have n: "0 \<le> exs_of ?s'"
    by (rule gateway_run_nonneg [OF gateway_stack_shaped]) (simp add: exs_of_def new_rule_states_def newExportSession_def)
  have "Breach (last (snd (run_ticks xs ?s'))) \<noteq> None"
  proof (rule gateway_run_over [OF g(1) _ n assms(3)])
    show "\<forall>x \<in> set xs. over_export cv (stk_plant ?s') (stk_tickInterval ?s') k (snd x)" using assms(1) by (simp only: g(2,3))
    show "k \<le> exs_of ?s' + int (length xs)" using assms(2) n by linarith
  qed
  moreover have "snd (run_ticks xs ?s') \<noteq> []" using run_ticks_length [of xs ?s'] assms(3) by auto
  ultimately show ?thesis by (simp add: run_ticks_append)
qed

definition capped_export :: "rat \<Rightarrow> SystemState" where
  "capped_export limitW = home (NewGridState\<lparr>NetW := Fin (- 3000), ExportLimitW := Fin limitW\<rparr>) None"

definition ex_site :: Plant where "ex_site = ex_plant\<lparr>Meter := \<lparr>mp_MeterLagS = Fin 6, mp_FilterAlpha = Fin 1\<rparr>\<rparr>"

lemma ex_site_window: "DetectionWindowTicks cv (Fin 0) (Fin 6) (Fin 3) = 2"
  by (simp add: DetectionWindowTicks_def Let_def fceil_def go_int_def in_int64_def)

lemma ex_site_fields [simp]: "Meter ex_site = \<lparr>mp_MeterLagS = Fin 6, mp_FilterAlpha = Fin 1\<rparr>" "Inverters ex_site = Map.empty"
  "plant_Batteries ex_site = Map.empty"
  by (simp_all add: ex_site_def ex_plant_def)

lemma ex_site_windows:
  "Solar st = [home_inverter] \<Longrightarrow> export_window cv (seen ex_site 0 st) = 2"
  "Batteries st = [home_pack] \<Longrightarrow> import_window cv (seen ex_site 0 st) = 2"
  by (simp_all add: export_window_def import_window_def or_meter_lag_def inverter_window_def battery_window_def home_inverter_def home_pack_def
      ExportDetectionWindowTicks_def ImportDetectionWindowTicks_def tickSeconds_def ex_site_window)

lemma capped_export_over: "over_export (\<lambda>_. 0) ex_site 0 2 (capped_export 500)" "over_export (\<lambda>_. 0) ex_site 0 2 (capped_export 800)"
  by (simp_all add: over_export_def ex_site_windows capped_export_def effectiveExportLimitW_def override_min_def NewGridState_def
      exportComplianceBreachW_def)

theorem churned_export_cap_reported_witness:
  "Breach (last (snd (run_ticks ([] @ [(1, capped_export 500), (2, capped_export 800)])
     (gateway_stack home_env (\<lambda>_. 0) ex_site 0 (Fin 20) \<lparr>pol_Mode = ''full'', WindowStartHH = 0, WindowEndHH = 0, FullCurrentA = Fin 0\<rparr>
        \<lparr>dn_Inverters = [''roof''], dn_Batteries = [''pack''], dn_EVSEs = []\<rparr>)))) \<noteq> None"
  by (rule churned_export_cap_reported [where k = 2]) (simp_all add: capped_export_over)

section \<open>Axes with demands of one tier\<close>

lemma one_group:
  "ds \<noteq> [] \<Longrightarrow> \<forall>d \<in> set ds. dem_Tier d = T \<Longrightarrow> groupByTier ds = [(T, ds)]"
proof (induction ds)
  case (Cons d ds)
  then show ?case by (cases "ds = []") simp_all
qed simp

lemma resolve_one_tier:
  assumes "g \<noteq> []" and "\<forall>d \<in> set g. dem_Tier d = T"
  shows "resolve_tiers dev ax g = intersectSameTier dev ax (sortDemands g)"
proof -
  have "sortDemands g \<noteq> []" using assms(1) sortDemands_set [of g] by (metis set_empty2)
  then have "groupByTier (sortDemands g) = [(T, sortDemands g)]" using assms(2) by (simp add: one_group)
  then show ?thesis by (simp add: resolve_tiers_def tier_step_def Let_def)
qed

lemma one_tier_hi:
  assumes "\<forall>d \<in> set g. dem_Tier d = T" and "d \<in> set g"
  shows "fle (acc_hi (resolve_tiers dev ax g)) (upper d)"
  using assms intersect_hi_le [of d "sortDemands g" dev ax] by (subst resolve_one_tier) auto

text \<open>The charging commands of a plan whose charging demands are proposals of at most 0 A.\<close>

lemma zero_current:
  assumes "\<forall>d \<in> set ds. dem_Axis d = AxisEVSECurrentA \<longrightarrow> dem_Tier d = TierEconomics \<and> upper d = Fin 0"
  shows "\<forall>c \<in> set (EVSECommands (emitCommands (Resolve ds) (empty_plan t))). ec_MaxCurrentA c = Fin 0"
proof
  fix c
  assume "c \<in> set (EVSECommands (emitCommands (Resolve ds) (empty_plan t)))"
  then obtain dev where c: "c \<in> set (evse_command (resolve_device ds dev) dev)"
    by (auto simp: emit_fold Resolve_def empty_plan_def)
  let ?g = "axis_demands ds dev AxisEVSECurrentA"
  have g: "?g \<noteq> []" using c by (auto simp: evse_command_def resolve_device_fields split: if_splits)
  then have iv: "Bound (resolve_device ds dev) AxisEVSECurrentA = Some (fst (resolveInterval dev AxisEVSECurrentA ?g))"
    by (simp add: resolve_device_fields)
  obtain d where d: "d \<in> set ?g" using g by (meson last_in_set)
  have all: "\<forall>d \<in> set ?g. dem_Tier d = TierEconomics \<and> upper d = Fin 0" using assms by (auto simp: axis_demands_def)
  then have hi: "fle (acc_hi (resolve_tiers dev AxisEVSECurrentA ?g)) (Fin 0)" using one_tier_hi [OF _ d, of TierEconomics] d by auto
  have "hasEVSE (resolve_device ds dev)" using c iv by (simp add: evse_command_def split: if_splits)
  then have n: "\<not> is_nan (infToNaN (acc_hi (resolve_tiers dev AxisEVSECurrentA ?g)))"
    by (simp add: hasEVSE_def iv resolveInterval_def Let_def)
  have "ec_MaxCurrentA c = fmax (Fin 0) (infToNaN (acc_hi (resolve_tiers dev AxisEVSECurrentA ?g)))"
    using c iv by (simp add: evse_command_def resolveInterval_def Let_def split: if_splits)
  then show "ec_MaxCurrentA c = Fin 0" using hi n
    by (cases "acc_hi (resolve_tiers dev AxisEVSECurrentA ?g)") (simp_all add: infToNaN_def max_def)
qed

lemma Optimize_evse:
  "EVSECommands (snd (Optimize t state s)) =
     map (\<lambda>c. case CSIPControl state of None \<Rightarrow> c | Some x \<Rightarrow> c\<lparr>ec_MRID := cc_MRID x\<rparr>)
       (EVSECommands (emitCommands (Resolve (tick_demands state s)) (empty_plan (plan_time t state))))"
  by (simp add: Optimize_def Let_def tick_demands_def tick_pass_def ticked_def stamp_MRID_def emit_fold case_prod_unfold split: option.split)

section \<open>Vehicle charging after an import violation\<close>

definition uncharged :: "Demand list \<Rightarrow> bool" where
  "uncharged ds \<longleftrightarrow> list_all (\<lambda>d. dem_Axis d \<noteq> AxisEVSECurrentA) ds"

lemma uncharged_simps [simp]:
  "uncharged []" "uncharged (d # ds) \<longleftrightarrow> dem_Axis d \<noteq> AxisEVSECurrentA \<and> uncharged ds" "uncharged (xs @ ys) \<longleftrightarrow> uncharged xs \<and> uncharged ys"
  by (simp_all add: uncharged_def)

lemma demand_axis [simp]:
  "dem_Axis (PointDemand n ax w k src) = ax" "dem_Axis (CeilingDemand n ax w k src) = ax" "dem_Axis (ConnectDemand n c k src) = AxisConnect"
  by (simp_all add: PointDemand_def CeilingDemand_def ConnectDemand_def)

lemma uncharged_map [simp]: "uncharged (map f xs) \<longleftrightarrow> list_all (\<lambda>x. dem_Axis (f x) \<noteq> AxisEVSECurrentA) xs"
  by (simp add: uncharged_def list_all_iff)

lemma absorb_uncharged: "uncharged (fst acc) \<Longrightarrow> uncharged (fst (fold (absorb_demand inp g need) bs acc))"
proof (induction bs arbitrary: acc)
  case (Cons b bs)
  have "uncharged (fst (absorb_demand inp g need b acc))" using Cons.prems
    by (cases acc) (simp add: absorb_demand_def Let_def)
  then show ?case using Cons.IH by simp
qed simp

lemma distribute_uncharged: "uncharged (fst (import_distribute blk bs r w))"
  by (induction blk bs r w rule: import_distribute.induct) (simp_all add: Let_def case_prod_unfold)

lemma rules_uncharged:
  "uncharged (fst (snd (export_Evaluate cv inp s e)))" "uncharged (fst (snd (gen_Evaluate cv inp s g)))"
  "uncharged (fst (snd (import_Evaluate cv inp s i)))" "uncharged (fst (snd (ausgen_Evaluate cv inp s a)))"
proof -
  have "uncharged (fst (stack_absorb inp s v w))" for v w
    using absorb_uncharged [of "([], Fin 0, Fin 0)"] by (simp add: stack_absorb_def Let_def case_prod_unfold)
  then have "uncharged (fst (snd (applyExportControl cv inp s l e)))" for l e
    by (simp add: applyExportControl_def Let_def case_prod_unfold ceiling_demands_def list_all_iff)
  then show "uncharged (fst (snd (export_Evaluate cv inp s e)))" by (simp add: export_Evaluate_def Let_def case_prod_unfold)
  show "uncharged (fst (snd (gen_Evaluate cv inp s g)))"
    by (simp add: gen_Evaluate_def applyGenControl_def Let_def case_prod_unfold list_all_iff)
  have "uncharged (fst (snd (applyImportControl st l blk sc)))" for st l blk sc
    by (simp add: applyImportControl_def Let_def case_prod_unfold distribute_uncharged)
  then show "uncharged (fst (snd (import_Evaluate cv inp s i)))" by (simp add: import_Evaluate_def Let_def case_prod_unfold)
  show "uncharged (fst (snd (ausgen_Evaluate cv inp s a)))"
    by (simp add: ausgen_Evaluate_def applyGenControl_aus_def ceiling_demands_def Let_def case_prod_unfold list_all_iff)
qed

definition shadow_rules :: "planner_env \<Rightarrow> (f64 \<Rightarrow> int) \<Rightarrow> EconomicsConstraint \<Rightarrow> rule_states Constraint list" where
  "shadow_rules env cv eco =
     [export_rule cv, gen_rule cv, import_rule cv, ausgen_rule cv, ausload_rule cv, economics_rule env eco]"

definition shadow_shaped :: "planner_env \<Rightarrow> (f64 \<Rightarrow> int) \<Rightarrow> EconomicsConstraint \<Rightarrow> rule_states Stack \<Rightarrow> bool" where
  "shadow_shaped env cv eco s \<longleftrightarrow> (\<exists>g. constraints s = BatteryGuard g # shadow_rules env cv eco)"

lemma shadow_stack_shaped:
  "\<forall>key. modes key \<noteq> ModeOff \<Longrightarrow> shadow_shaped env cv eco (shadow_stack env cv plant iv modes socR eco)"
  by (simp add: shadow_shaped_def shadow_stack_def SetReserveFloor_def NewStack_def shadow_constraints_def site_constraints_def shadow_rules_def)

lemma shadow_rules_are_rules: "list_all (\<lambda>c. \<exists>n ev. c = Rule n ev) (shadow_rules env cv eco)"
  by (simp add: shadow_rules_def export_rule_def gen_rule_def import_rule_def ausgen_rule_def ausload_rule_def economics_rule_def)

lemma shadow_shaped_tick: "shadow_shaped env cv eco s \<Longrightarrow> shadow_shaped env cv eco (fst (Optimize t state s))"
  by (auto simp: shadow_shaped_def Optimize_fields(1) tick_post_def post_pass_simps post_pass_rules [OF shadow_rules_are_rules] Let_def)

text \<open>What a tick makes of the import session and the cooldown, and which charging demands it has.\<close>

lemma shadow_pass:
  assumes "shadow_shaped env cv eco s"
  obtains i cd d3 b3 ds d5 where
    "import_Evaluate cv (tick_input s state) (NewSession import_Name (stk_tickInterval s))
       (rs_import (rule_store s), rs_cooldown (rule_store s)) = ((i, cd), d3, b3)"
    and "rs_import (fst (tick_pass state s)) = i" and "rs_cooldown (fst (tick_pass state s)) = cd"
    and "tick_demands state s = ds @ d5 @ economics_Evaluate env eco (Some cd) (tick_input s state)"
    and "uncharged ds" and "is_nan (LoadLimitW (Grid state)) \<Longrightarrow> d5 = []"
proof -
  let ?inp = "tick_input s state"
  obtain e d1 b1 where 1: "export_Evaluate cv ?inp (NewSession export_Name (stk_tickInterval s)) (rs_export (rule_store s)) = (e, d1, b1)"
    by (metis prod_cases3)
  obtain g d2 b2 where 2: "gen_Evaluate cv ?inp (NewSession gen_Name (stk_tickInterval s)) (rs_gen (rule_store s)) = (g, d2, b2)"
    by (metis prod_cases3)
  obtain i cd d3 b3 where 3: "import_Evaluate cv ?inp (NewSession import_Name (stk_tickInterval s))
      (rs_import (rule_store s), rs_cooldown (rule_store s)) = ((i, cd), d3, b3)" by (metis prod_cases3 surj_pair)
  obtain a d4 b4 where 4: "ausgen_Evaluate cv ?inp (NewSession ausgen_Name (stk_tickInterval s)) (rs_ausgen (rule_store s)) = (a, d4, b4)"
    by (metis prod_cases3)
  obtain l d5 b5 where 5: "ausload_Evaluate cv ?inp (NewSession ausload_Name (stk_tickInterval s)) (rs_ausload (rule_store s)) = (l, d5, b5)"
    by (metis prod_cases3)
  obtain q where q: "constraints s = BatteryGuard q # shadow_rules env cv eco" using assms by (auto simp: shadow_shaped_def)
  have p: "fst (tick_pass state s) =
       (rule_store s)\<lparr>rs_export := e, rs_gen := g, rs_import := i, rs_cooldown := cd, rs_ausgen := a, rs_ausload := l\<rparr>"
    "tick_demands state s = (d1 @ d2 @ d3 @ d4) @ d5 @ economics_Evaluate env eco (Some cd) ?inp"
    using 1 2 3 4 5 unfolding tick_demands_def tick_pass_def q shadow_rules_def
    by (simp_all add: export_rule_def gen_rule_def import_rule_def ausgen_rule_def ausload_rule_def economics_rule_def tick_input_def)
  show thesis
  proof (rule that [OF 3 _ _ p(2)])
    show "uncharged (d1 @ d2 @ d3 @ d4)"
      using arg_cong [OF 1, of "\<lambda>x. fst (snd x)"] arg_cong [OF 2, of "\<lambda>x. fst (snd x)"] arg_cong [OF 3, of "\<lambda>x. fst (snd x)"]
        arg_cong [OF 4, of "\<lambda>x. fst (snd x)"] rules_uncharged by (metis fst_conv snd_conv uncharged_simps(3))
    show "is_nan (LoadLimitW (Grid state)) \<Longrightarrow> d5 = []" using 5 by (simp add: ausload_Evaluate_def)
  qed (simp_all add: p(1))
qed

text \<open>The cooldown of one tick.\<close>

lemma import_control_fields:
  "isn_activeLimitW (fst (fst (applyImportControl st l blk (x, cd)))) = isn_activeLimitW x"
  "snd (fst (applyImportControl st l blk (x, cd))) = cd_advance (import_compliant l (NetW (Grid st))) cd"
  by (simp_all add: applyImportControl_def discharge_slew_def Let_def case_prod_unfold)

lemma import_tick_cooldown:
  assumes "import_Evaluate cv inp s (sess, cd) = ((sess', cd'), ds, b)" and "effectiveImportLimitW (in_State inp) = limitW" and "\<not> is_nan limitW"
  shows "isn_activeLimitW sess' = limitW"
    and "cd' = cd_advance (import_compliant limitW (NetW (Grid (in_State inp)))) (snd (manageSession cv s limitW (NetW (Grid (in_State inp))) (sess, cd)))"
proof -
  let ?m = "manageSession cv s limitW (NetW (Grid (in_State inp))) (sess, cd)"
  let ?c = "applyImportControl (in_State inp) limitW (reserveBlocker inp importSOCReserve) ?m"
  have m: "isn_activeLimitW (fst ?m) = limitW" by (simp add: manageSession_def newImportSession_def)
  have e: "((sess', cd'), ds, b) = ((fst (import_checkConvergence cv inp limitW (fst (fst ?c))), snd (fst ?c)), fst (snd ?c),
      stamp_breach (in_State inp) (if snd (snd ?c) = None then snd (import_checkConvergence cv inp limitW (fst (fst ?c))) else snd (snd ?c)))"
    using assms by (simp add: import_Evaluate_def Let_def case_prod_unfold)
  show "isn_activeLimitW sess' = limitW"
    using e m import_control_fields(1) [of "in_State inp" limitW "reserveBlocker inp importSOCReserve" "fst ?m" "snd ?m"]
    by (simp add: import_checkConvergence_def Let_def)
  show "cd' = cd_advance (import_compliant limitW (NetW (Grid (in_State inp)))) (snd ?m)"
    using e import_control_fields(2) [of "in_State inp" limitW "reserveBlocker inp importSOCReserve" "fst ?m" "snd ?m"] by simp
qed

definition cooling :: "f64 \<Rightarrow> int \<Rightarrow> rule_states Stack \<Rightarrow> bool" where
  "cooling limitW n s \<longleftrightarrow> isn_activeLimitW (rs_import (rule_store s)) = limitW \<and> cd_safeCount (rs_cooldown (rule_store s)) \<le> n"

lemma cooling_tick:
  assumes "shadow_shaped env cv eco s" and "effectiveImportLimitW st = limitW" and "\<not> nan_or_inf limitW"
  shows "\<not> import_compliant limitW (NetW (Grid st)) \<Longrightarrow> cooling limitW 0 (fst (Optimize t st s))"
    and "0 \<le> n \<Longrightarrow> cooling limitW n s \<Longrightarrow> cooling limitW (n + 1) (fst (Optimize t st s))"
    and "0 \<le> n \<Longrightarrow> cooling limitW n s \<Longrightarrow> cd_safeCount (rs_cooldown (fst (tick_pass st s))) \<le> n + 1"
proof -
  obtain i cd d3 b3 ds d5 where r: "import_Evaluate cv (tick_input s st) (NewSession import_Name (stk_tickInterval s))
       (rs_import (rule_store s), rs_cooldown (rule_store s)) = ((i, cd), d3, b3)"
    "rs_import (fst (tick_pass st s)) = i" "rs_cooldown (fst (tick_pass st s)) = cd"
    using shadow_pass [OF assms(1), of st] by metis
  have nn: "\<not> is_nan limitW" using assms(3) by (simp add: nan_or_inf_def)
  note c = import_tick_cooldown [OF r(1), unfolded tick_input_fields, OF assms(2) nn]
  show "\<not> import_compliant limitW (NetW (Grid st)) \<Longrightarrow> cooling limitW 0 (fst (Optimize t st s))"
    using c by (simp add: cooling_def Optimize_more r cd_advance_def)
  obtain q where q: "limitW = Fin q" using assms(3) by (cases limitW) auto
  have same: "cooling limitW n s \<Longrightarrow> cd_safeCount (snd (manageSession cv (NewSession import_Name (stk_tickInterval s)) limitW (NetW (Grid st))
      (rs_import (rule_store s), rs_cooldown (rule_store s)))) \<le> n"
    by (simp add: cooling_def manageSession_def cap_changed_def q exportComplianceBreachW_def cd_sameCap_def)
  show "0 \<le> n \<Longrightarrow> cooling limitW n s \<Longrightarrow> cooling limitW (n + 1) (fst (Optimize t st s))"
    using c same by (simp add: cooling_def Optimize_more r cd_advance_def)
  show "0 \<le> n \<Longrightarrow> cooling limitW n s \<Longrightarrow> cd_safeCount (rs_cooldown (fst (tick_pass st s))) \<le> n + 1"
    using c same by (simp add: r cd_advance_def)
qed

lemma cooling_run:
  assumes "shadow_shaped env cv eco s" and "\<forall>x \<in> set xs. effectiveImportLimitW (snd x) = limitW" and "\<not> nan_or_inf limitW"
    and "0 \<le> n" and "cooling limitW n s"
  shows "shadow_shaped env cv eco (fst (run_ticks xs s)) \<and> cooling limitW (n + int (length xs)) (fst (run_ticks xs s))"
  using assms
proof (induction xs arbitrary: s n)
  case (Cons x xs)
  let ?s = "fst (Optimize (fst x) (snd x) s)"
  have l: "effectiveImportLimitW (snd x) = limitW" using Cons.prems(2) by simp
  have "cooling limitW (n + 1) ?s" by (rule cooling_tick(2) [OF Cons.prems(1) l Cons.prems(3-5)])
  then show ?case using Cons.IH [OF shadow_shaped_tick [OF Cons.prems(1)], of "n + 1"] Cons.prems
    by (simp add: case_prod_unfold Let_def algebra_simps)
qed simp

lemma shadow_shaped_run: "shadow_shaped env cv eco s \<Longrightarrow> shadow_shaped env cv eco (fst (run_ticks xs s))"
  by (induction xs arbitrary: s) (simp_all add: case_prod_unfold Let_def shadow_shaped_tick)

text \<open>What the economics rule proposes while charging is suppressed.\<close>

definition unplanned :: "SystemState \<Rightarrow> bool" where
  "unplanned st \<longleftrightarrow> eco_fixed st \<or> (case DailyPlanTarget st of None \<Rightarrow> True | Some tg \<Rightarrow> is_nan (pt_BattSetpointW tg))"

definition held_current :: "Demand list \<Rightarrow> bool" where
  "held_current ds \<longleftrightarrow> (\<forall>d \<in> set ds. dem_Axis d = AxisEVSECurrentA \<longrightarrow> dem_Tier d = TierEconomics \<and> upper d = Fin 0)"

lemma held_current_simps [simp]:
  "held_current []" "held_current (xs @ ys) \<longleftrightarrow> held_current xs \<and> held_current ys"
  by (auto simp: held_current_def)

lemma uncharged_held: "uncharged ds \<Longrightarrow> held_current ds"
  by (auto simp: uncharged_def held_current_def list_all_iff)

lemma eco_set_uncharged [simp]: "uncharged (eco_setBattery n w e) \<longleftrightarrow> uncharged e"
  by (simp add: eco_setBattery_def)

lemma eco_steps_uncharged:
  "uncharged (snd (snd acc)) \<Longrightarrow> uncharged (snd (snd (snd (eco_fixed_step blk b acc))))"
  "uncharged (snd acc') \<Longrightarrow> uncharged (snd (snd (eco_self_step x f b acc')))"
  "uncharged (snd (snd acc'')) \<Longrightarrow> uncharged (snd (snd (snd (eco_peak_step capped blk b acc''))))"
  by (auto simp: eco_fixed_step_def eco_self_step_def eco_keep_charging_def eco_peak_step_def Let_def split: prod.splits)

lemma eco_rules_uncharged:
  "uncharged e \<Longrightarrow> uncharged (snd (applyFixedDispatch cc bs sw hw blk e))"
  "uncharged e \<Longrightarrow> uncharged (snd (snd (applySelfConsumption bs w x f e)))"
  "uncharged e \<Longrightarrow> uncharged (snd (snd (applyTOU env c st bs w l blk e)))"
proof -
  show "uncharged e \<Longrightarrow> uncharged (snd (applyFixedDispatch cc bs sw hw blk e))"
    using walk_inv [where P = "\<lambda>acc. uncharged (snd (snd acc))" and f = "eco_fixed_step blk" and xs = bs and stop = "\<lambda>(_, left, _). left"]
    by (auto simp: applyFixedDispatch_def Let_def eco_steps_uncharged case_prod_unfold split: option.split)
  show "uncharged e \<Longrightarrow> uncharged (snd (snd (applySelfConsumption bs w x f e)))"
    using walk_inv [where P = "\<lambda>acc. uncharged (snd acc)" and f = "eco_self_step x f" and xs = bs and stop = "\<lambda>_. False"]
    by (auto simp: applySelfConsumption_def eco_steps_uncharged)
  show "uncharged e \<Longrightarrow> uncharged (snd (snd (applyTOU env c st bs w l blk e)))"
    using walk_inv [where P = "\<lambda>acc. uncharged (snd (snd acc))" and f = "eco_peak_step k blk" and xs = bs and stop = "\<lambda>_. False" for k]
    by (auto simp: applyTOU_def Let_def eco_steps_uncharged case_prod_unfold split: option.split)
qed

lemma charging_held: "held_current e \<Longrightarrow> held_current (applyEVCharging evses x l nw sw w True e)"
proof -
  have c: "eco_current x l nw sw True w = (\<lambda>_. Fin 0)" by (simp add: eco_current_def fun_eq_iff)
  have "held_current e \<Longrightarrow> held_current (eco_charge_step (\<lambda>_. Fin 0) ev e)" for ev e
    by (auto simp: eco_charge_step_def eco_setEVSE_def held_current_def PointDemand_def upper_def)
  then have "held_current e \<Longrightarrow> held_current (fold (eco_charge_step (\<lambda>_. Fin 0)) evs e)" for evs e
    by (induction evs arbitrary: e) simp_all
  then show "held_current e \<Longrightarrow> held_current (applyEVCharging evses x l nw sw w True e)"
    by (simp add: applyEVCharging_def c)
qed

lemma economics_held:
  assumes "unplanned (in_State inp)" and "evImportSuppressed c cd (effectiveImportLimitW (in_State inp))"
  shows "held_current (economics_Evaluate env c cd inp)"
proof -
  let ?st = "in_State inp" and ?blk = "reserveBlocker inp (eco_socReserve c)"
  obtain bs1 e1 where 1: "applyFixedDispatch (CSIPControl ?st) (Batteries ?st) (TotalSolarW ?st) (InferredLoadW ?st) ?blk [] = (bs1, e1)"
    by fastforce
  obtain bs2 w2 f2 e2 where 2: "(if eco_fixed ?st then (bs1, economicSurplusW ?st, False, e1)
      else eco_applyPlan (DailyPlanTarget ?st) bs1 (EVSEs ?st) (eco_socFull c) (economicSurplusW ?st) (eco_planCapW c ?st) ?blk e1) = (bs2, w2, f2, e2)"
    by (metis prod_cases4)
  obtain bs3 w3 e3 where 3: "applySelfConsumption bs2 w2 (eco_excessSolarThreshold c) (eco_socFull c) e2 = (bs3, w3, e3)" by (metis prod_cases3)
  obtain bs4 w4 e4 where 4: "applyTOU env c ?st bs3 w3 (effectiveExportLimitW ?st) ?blk e3 = (bs4, w4, e4)" by (metis prod_cases3)
  have f: "\<not> f2" "e2 = e1" using 2 assms(1) by (auto simp: unplanned_def eco_applyPlan_def split: if_splits option.splits)
  have "uncharged e1" using eco_rules_uncharged(1) [of "[]"] 1 by (metis snd_conv uncharged_simps(1))
  then have "uncharged e3" using eco_rules_uncharged(2) [of e2 bs2 w2] 3 f(2) by (metis snd_conv)
  then have "uncharged e4" using eco_rules_uncharged(3) [of e3 env c ?st bs3 w3] 4 by (metis snd_conv)
  then have "held_current (applyEVCharging (EVSEs ?st) (effectiveExportLimitW ?st) (effectiveImportLimitW ?st) (NetW (Grid ?st)) (TotalSolarW ?st) w4 True e4)"
    by (intro charging_held uncharged_held)
  then show ?thesis using assms(2) f(1) by (simp add: economics_Evaluate_def Let_def 1 2 3 4 del: if_split)
qed

text \<open>
  Property C13: vehicles stay suspended after an import violation. In the stack of all rules, whatever
  happened before, once the site has been seen not importing within a finite import cap, no plan made
  under the same cap commands a vehicle any current for as many ticks as the cooldown is long, unless
  the daily plan is being followed or a cap on gross load is in force.
\<close>

theorem charging_held_after_import_violation:
  assumes "\<forall>key. modes key \<noteq> ModeOff" and "\<not> nan_or_inf limitW"
    and "effectiveImportLimitW (snd v) = limitW" and "\<not> import_compliant limitW (NetW (Grid (snd v)))"
    and "\<forall>x \<in> set xs. effectiveImportLimitW (snd x) = limitW" and "effectiveImportLimitW st = limitW"
    and "unplanned st" and "is_nan (LoadLimitW (Grid st))" and "int (length xs) + 1 < eco_evImportCooldownCycles eco"
  shows "list_all (\<lambda>c. ec_MaxCurrentA c = Fin 0)
    (EVSECommands (snd (Optimize t st (fst (run_ticks (before @ v # xs) (shadow_stack env cv plant iv modes socR eco))))))"
proof -
  let ?before = "fst (run_ticks before (shadow_stack env cv plant iv modes socR eco))"
  let ?after = "fst (Optimize (fst v) (snd v) ?before)"
  let ?s = "fst (run_ticks (before @ v # xs) (shadow_stack env cv plant iv modes socR eco))"
  have s: "?s = fst (run_ticks xs ?after)" by (simp add: run_ticks_append case_prod_unfold Let_def)
  have sh: "shadow_shaped env cv eco ?before" using shadow_shaped_run [OF shadow_stack_shaped [OF assms(1)]] .
  have "cooling limitW 0 ?after" using cooling_tick(1) [OF sh assms(3,2,4)] by simp
  then have r: "shadow_shaped env cv eco ?s" "cooling limitW (int (length xs)) ?s"
    using cooling_run [OF shadow_shaped_tick [OF sh] assms(5,2), of 0 "fst v" "snd v"] unfolding s by simp_all
  obtain cd ds d5 where p: "rs_cooldown (fst (tick_pass st ?s)) = cd"
    "tick_demands st ?s = ds @ d5 @ economics_Evaluate env eco (Some cd) (tick_input ?s st)" "uncharged ds" "is_nan (LoadLimitW (Grid st)) \<Longrightarrow> d5 = []"
    using shadow_pass [OF r(1), of st] by metis
  have "cd_safeCount cd \<le> int (length xs) + 1" using cooling_tick(3) [OF r(1) assms(6,2) _ r(2)] p(1) by simp
  then have "evImportSuppressed eco (Some cd) (effectiveImportLimitW (in_State (tick_input ?s st)))"
    using assms(2,6,9) by (simp add: evImportSuppressed_def Suppressed_def nan_or_inf_def)
  then have "held_current (economics_Evaluate env eco (Some cd) (tick_input ?s st))" using economics_held assms(7) by simp
  then have "held_current (tick_demands st ?s)" using p(2,4) uncharged_held [OF p(3)] assms(8) by simp
  then show ?thesis using zero_current [of "tick_demands st ?s"]
    by (auto simp: held_current_def Optimize_evse list_all_iff split: option.split)
qed

definition ex_eco :: EconomicsConstraint where
  "ex_eco = \<lparr>eco_costModel = None, eco_socReserve = Fin 20, eco_socFull = Fin 95, eco_excessSolarThreshold = Fin 100,
     eco_exportMarginFrac = Fin 0, eco_evImportCooldownCycles = 20\<rparr>"

definition garage :: EVSEState where
  "garage = \<lparr>es_StationID = ''cs1'', es_ConnectorID = 1, es_Connected = True, es_SessionActive = True, es_CurrentA = Fin 0,
     es_MaxCurrentA = Fin 16, es_VoltageV = Fin 230, es_PowerW = Fin 0, es_Status = ''Charging'', es_SOC = NaN, es_EnergyWh = Fin 0\<rparr>"

definition importing :: "rat \<Rightarrow> SystemState" where
  "importing w = (home (NewGridState\<lparr>NetW := Fin w, ImportLimitW := Fin 1000\<rparr>) None)\<lparr>EVSEs := [garage]\<rparr>"

theorem charging_held_after_import_violation_witness:
  "list_all (\<lambda>c. ec_MaxCurrentA c = Fin 0) (EVSECommands (snd (Optimize 3 (importing 200)
     (fst (run_ticks ([] @ (1, importing 3000) # [(2, importing 300)])
        (shadow_stack home_env (\<lambda>_. 0) ex_site 0 (\<lambda>_. ModeShadow) (Fin 20) ex_eco))))))"
  by (rule charging_held_after_import_violation [where limitW = "Fin 1000"])
    (simp_all add: importing_def home_def effectiveImportLimitW_def override_min_def import_compliant_def unplanned_def NewGridState_def ex_eco_def)

end
