(* ===== verification/EconomicsProps.thy ===== *)
theory EconomicsProps
  imports StackProps
begin

text \<open>
  The economics rule of the stack beside the rules of the optimizer it restates, and what it makes of a
  cooldown nobody keeps.
\<close>

section \<open>Following the daily plan\<close>

definition as_demand :: "BatteryCommand \<Rightarrow> Demand" where
  "as_demand c = PointDemand (bc_Name c) AxisBatterySetpointW (bc_SetpointW c) TierEconomics economics_Name"

definition vehicle_order :: "PlanTarget \<Rightarrow> EVSEState \<Rightarrow> Demand" where
  "vehicle_order tg ev =
     PointDemand (evseKey (es_StationID ev) (es_ConnectorID ev)) AxisEVSECurrentA (pt_EVMaxCurrentA tg) TierEconomics economics_Name"

lemma plan_walks:
  "fst (walk (\<lambda>_. False) (plan_step blk full setW cap) bs p) = fst (walk (\<lambda>_. False) (eco_plan_step blk full setW cap) bs e) \<and>
   (\<exists>cs. BatteryCommands (snd (walk (\<lambda>_. False) (plan_step blk full setW cap) bs p)) = BatteryCommands p @ cs \<and>
     snd (walk (\<lambda>_. False) (eco_plan_step blk full setW cap) bs e) = e @ map as_demand cs) \<and>
   EVSECommands (snd (walk (\<lambda>_. False) (plan_step blk full setW cap) bs p)) = EVSECommands p"
proof (induction bs arbitrary: p e)
  case (Cons b bs)
  show ?case
  proof (cases "bs_Connected b")
    case True
    let ?w = "plan_share blk full setW cap b"
    let ?c = "batt_cmd (bs_Name b) ?w None"
    obtain cs where "BatteryCommands (snd (walk (\<lambda>_. False) (plan_step blk full setW cap) bs (add_batt ?c p))) = BatteryCommands (add_batt ?c p) @ cs"
      "snd (walk (\<lambda>_. False) (eco_plan_step blk full setW cap) bs (eco_setBattery (bs_Name b) ?w e)) = eco_setBattery (bs_Name b) ?w e @ map as_demand cs"
      using Cons.IH by metis
    moreover have "plan_step blk full setW cap b p = (b\<lparr>bs_PowerW := ?w\<rparr>, add_batt ?c p)"
      "eco_plan_step blk full setW cap b e = (b\<lparr>bs_PowerW := ?w\<rparr>, eco_setBattery (bs_Name b) ?w e)"
      using True by (simp_all add: plan_step_def eco_plan_step_def Let_def)
    moreover have "as_demand ?c = PointDemand (bs_Name b) AxisBatterySetpointW ?w TierEconomics economics_Name"
      by (simp add: as_demand_def batt_cmd_def)
    ultimately show ?thesis using Cons.IH [of "add_batt ?c p" "eco_setBattery (bs_Name b) ?w e"]
      by (auto simp: case_prod_unfold add_batt_def eco_setBattery_def intro!: exI [of _ "?c # cs"])
  next
    case False
    then have "plan_step blk full setW cap b p = (b, p)" "eco_plan_step blk full setW cap b e = (b, e)"
      by (simp_all add: plan_step_def eco_plan_step_def)
    then show ?thesis using Cons.IH [of p e] by (simp add: case_prod_unfold Let_def)
  qed
qed auto

lemma set_vehicles: "fold (\<lambda>ev. eco_setEVSE ev (pt_EVMaxCurrentA tg)) evs e = e @ map (vehicle_order tg) evs"
  by (induction evs arbitrary: e) (simp_all add: eco_setEVSE_def vehicle_order_def)

text \<open>
  The economics rule follows the daily plan as the optimizer does. From the same devices
  and the same target both leave the same batteries, surplus and verdict, and the rule's proposals are
  the optimizer's battery commands one by one; it then commands every charging vehicle to the plan's
  current, while the optimizer leaves the vehicles alone when the plan was made without a vehicle.
\<close>

theorem plan_following_agrees:
  assumes "applyPlanRule target bs evses full surplusW capW blk p = (bs1, surplus1, followed1, p1)"
    and "eco_applyPlan target bs evses full surplusW capW blk [] = (bs2, surplus2, followed2, e)"
    and "BatteryCommands p = []" and "EVSECommands p = []"
  shows "bs1 = bs2 \<and> surplus1 = surplus2 \<and> followed1 = followed2 \<and>
    e = map as_demand (BatteryCommands p1) @
      (if followed1 then map (vehicle_order (the target)) (filter (\<lambda>ev. es_Connected ev \<and> es_SessionActive ev) evses) else []) \<and>
    map (\<lambda>c. (ec_StationID c, ec_ConnectorID c)) (EVSECommands p1) =
      (if followed1 \<and> pt_EVModelled (the target)
       then map (\<lambda>ev. (es_StationID ev, es_ConnectorID ev)) (filter (\<lambda>ev. es_Connected ev \<and> es_SessionActive ev) evses) else [])"
proof (cases target)
  case (Some tg)
  let ?setW = "if flt (Fin 0) (pt_BattSetpointW tg) \<and> \<not> is_nan capW \<and> flt capW (pt_BattSetpointW tg) then capW else pt_BattSetpointW tg"
  let ?cap = "fold (\<lambda>b t. if bs_Connected b then fadd t (plan_cap b) else t) bs (Fin 0)"
  obtain cs where w: "fst (walk (\<lambda>_. False) (plan_step blk full ?setW ?cap) bs p) = fst (walk (\<lambda>_. False) (eco_plan_step blk full ?setW ?cap) bs [])"
    "BatteryCommands (snd (walk (\<lambda>_. False) (plan_step blk full ?setW ?cap) bs p)) = cs"
    "snd (walk (\<lambda>_. False) (eco_plan_step blk full ?setW ?cap) bs []) = map as_demand cs"
    "EVSECommands (snd (walk (\<lambda>_. False) (plan_step blk full ?setW ?cap) bs p)) = []"
    using plan_walks [of blk full ?setW ?cap bs p "[]"] assms(3,4) by auto
  have n: "ec_StationID (plan_evse tg ev) = es_StationID ev" "ec_ConnectorID (plan_evse tg ev) = es_ConnectorID ev" for ev
    by (simp_all add: plan_evse_def evse_cmd_def)
  consider "is_nan (pt_BattSetpointW tg) \<or> feq ?cap (Fin 0)" | "\<not> is_nan (pt_BattSetpointW tg)" "\<not> feq ?cap (Fin 0)" by blast
  then show ?thesis
  proof cases
    case 1
    then show ?thesis using assms Some by (auto simp: applyPlanRule_def eco_applyPlan_def Let_def split: if_splits)
  next
    case 2
    have "bs1 = fst (walk (\<lambda>_. False) (plan_step blk full ?setW ?cap) bs p)" "surplus1 = Fin 0" "followed1"
      "BatteryCommands p1 = cs" "EVSECommands p1 = map (plan_evse tg) (filter (\<lambda>ev. pt_EVModelled tg \<and> es_Connected ev \<and> es_SessionActive ev) evses)"
      using assms(1) 2 Some w(2,4) by (auto simp: applyPlanRule_def Let_def case_prod_unfold)
    moreover have "bs2 = fst (walk (\<lambda>_. False) (eco_plan_step blk full ?setW ?cap) bs [])" "surplus2 = Fin 0" "followed2"
      "e = map as_demand cs @ map (vehicle_order tg) (filter (\<lambda>ev. es_Connected ev \<and> es_SessionActive ev) evses)"
      using assms(2) 2 Some w(3) by (auto simp: eco_applyPlan_def Let_def case_prod_unfold set_vehicles)
    ultimately show ?thesis using Some w(1) by (simp add: n comp_def)
  qed
qed (use assms in \<open>auto simp: applyPlanRule_def eco_applyPlan_def\<close>)

definition stale_plan :: PlanTarget where
  "stale_plan = \<lparr>pt_BattSetpointW = Fin 1000, pt_EVMaxCurrentA = Fin 0, pt_EVSetpointW = NaN, pt_EVModelled = False\<rparr>"

theorem plan_following_agrees_witness:
  "(let (bs1, s1, f1, p1) = applyPlanRule (Some stale_plan) [home_pack] [garage] (Fin 95) (Fin 0) NaN (\<lambda>_. True) (empty_plan 0);
        (bs2, s2, f2, e) = eco_applyPlan (Some stale_plan) [home_pack] [garage] (Fin 95) (Fin 0) NaN (\<lambda>_. True) []
    in bs1 = bs2 \<and> f1 \<and> EVSECommands p1 = [] \<and>
       e = map as_demand (BatteryCommands p1) @ [PointDemand ''cs1#1'' AxisEVSECurrentA (Fin 0) TierEconomics economics_Name])"
proof -
  obtain bs1 s1 f1 p1 where 1: "applyPlanRule (Some stale_plan) [home_pack] [garage] (Fin 95) (Fin 0) NaN (\<lambda>_. True) (empty_plan 0) = (bs1, s1, f1, p1)"
    by (metis prod_cases4)
  obtain bs2 s2 f2 e where 2: "eco_applyPlan (Some stale_plan) [home_pack] [garage] (Fin 95) (Fin 0) NaN (\<lambda>_. True) [] = (bs2, s2, f2, e)"
    by (metis prod_cases4)
  have "f1" using 1 by (auto simp: applyPlanRule_def stale_plan_def home_pack_def NewBatteryState_def plan_cap_def feq_def Let_def case_prod_unfold split: if_splits)
  moreover have "evseKey ''cs1'' 1 = ''cs1#1''" by code_simp
  ultimately show ?thesis using plan_following_agrees [OF 1 2] unfolding 1 2 prod.case by (simp add: empty_plan_def stale_plan_def garage_def vehicle_order_def)
qed

section \<open>A cooldown nobody keeps\<close>

text \<open>The constraints of a stack without the import rule.\<close>

definition importless :: "planner_env \<Rightarrow> (f64 \<Rightarrow> int) \<Rightarrow> EconomicsConstraint \<Rightarrow> rule_states Constraint \<Rightarrow> bool" where
  "importless env cv eco c \<longleftrightarrow>
     (\<exists>g. c = BatteryGuard g) \<or> c \<in> {export_rule cv, gen_rule cv, ausgen_rule cv, ausload_rule cv, economics_rule env eco}"

lemma importless_pass:
  assumes "list_all (importless env cv eco) cs"
  shows "rs_cooldown (fst (demand_pass iv inp cs x)) = rs_cooldown x"
    and "unplanned (in_State inp) \<Longrightarrow> evImportSuppressed eco (Some (rs_cooldown x)) (effectiveImportLimitW (in_State inp)) \<Longrightarrow>
      is_nan (LoadLimitW (Grid (in_State inp))) \<Longrightarrow> held_current (fst (snd (demand_pass iv inp cs x)))"
proof -
  have keeps: "rs_cooldown (fst (ev inp s x)) = rs_cooldown x" if "importless env cv eco (Rule n ev)" for n ev s x
    using that by (auto simp: importless_def export_rule_def gen_rule_def ausgen_rule_def ausload_rule_def economics_rule_def case_prod_unfold Let_def)
  show "rs_cooldown (fst (demand_pass iv inp cs x)) = rs_cooldown x" using assms
  proof (induction cs arbitrary: x)
    case (Cons c cs)
    then show ?case
    proof (cases c)
      case (Rule n ev)
      then show ?thesis using Cons keeps [of n ev] by (simp add: case_prod_unfold Let_def)
    qed simp
  qed simp
  assume st: "unplanned (in_State inp)" "is_nan (LoadLimitW (Grid (in_State inp)))"
  have held: "held_current (fst (snd (ev inp s x)))"
    if "importless env cv eco (Rule n ev)" "evImportSuppressed eco (Some (rs_cooldown x)) (effectiveImportLimitW (in_State inp))" for n ev s x
    using that(1) uncharged_held [OF rules_uncharged(1)] uncharged_held [OF rules_uncharged(2)] uncharged_held [OF rules_uncharged(4)]
      economics_held [OF st(1) that(2)] st(2)
    by (auto simp: importless_def export_rule_def gen_rule_def ausgen_rule_def ausload_rule_def economics_rule_def ausload_Evaluate_def
        case_prod_unfold Let_def)
  assume "evImportSuppressed eco (Some (rs_cooldown x)) (effectiveImportLimitW (in_State inp))"
  with assms show "held_current (fst (snd (demand_pass iv inp cs x)))"
  proof (induction cs arbitrary: x)
    case (Cons c cs)
    then show ?case
    proof (cases c)
      case (Rule n ev)
      then show ?thesis using Cons keeps [of n ev] held [of n ev] by (simp add: case_prod_unfold Let_def)
    qed simp
  qed simp
qed

lemma importless_post:
  "list_all (importless env cv eco) cs \<Longrightarrow> list_all (importless env cv eco) (fst (post_pass iv inp cs acc))"
proof (induction cs arbitrary: acc)
  case (Cons c cs)
  then show ?case by (cases c) (simp_all add: post_pass_simps Let_def case_prod_unfold importless_def)
qed simp

lemma importless_run:
  "list_all (importless env cv eco) (constraints s) \<Longrightarrow>
     list_all (importless env cv eco) (constraints (fst (run_ticks xs s))) \<and>
     rs_cooldown (rule_store (fst (run_ticks xs s))) = rs_cooldown (rule_store s)"
proof (induction xs arbitrary: s)
  case (Cons x xs)
  let ?s = "fst (Optimize (fst x) (snd x) s)"
  have "list_all (importless env cv eco) (constraints ?s)"
    using Cons.prems by (simp add: Optimize_fields(1) tick_post_def importless_post)
  moreover have "rs_cooldown (rule_store ?s) = rs_cooldown (rule_store s)"
    using importless_pass(1) [OF Cons.prems] by (simp add: Optimize_more tick_pass_def)
  ultimately show ?case using Cons.IH [of ?s] by (simp add: case_prod_unfold Let_def)
qed simp

text \<open>
  Without the import rule a vehicle never charges under an import cap. When the import
  constraint is switched off the hub still hands the economics rule the shared cooldown, which then
  never advances: whatever happened before, no plan under an import cap commands a vehicle any current,
  unless the daily plan is being followed or a cap on gross load is in force.
\<close>

theorem charging_stuck_without_import_rule:
  assumes "modes ''import'' = ModeOff" and "0 < eco_evImportCooldownCycles eco"
    and "\<not> is_nan (effectiveImportLimitW st)" and "unplanned st" and "is_nan (LoadLimitW (Grid st))"
  shows "list_all (\<lambda>c. ec_MaxCurrentA c = Fin 0)
    (EVSECommands (snd (Optimize t st (fst (run_ticks before (shadow_stack env cv plant iv modes socR eco))))))"
proof -
  let ?start = "shadow_stack env cv plant iv modes socR eco"
  let ?s = "fst (run_ticks before ?start)"
  have "list_all (importless env cv eco) (constraints ?start)"
    using assms(1) by (auto simp: shadow_stack_def SetReserveFloor_def NewStack_def shadow_constraints_def site_constraints_def importless_def)
  note r = importless_run [OF this, of before]
  have "rs_cooldown (rule_store ?start) = NewEVImportCooldown"
    by (simp add: shadow_stack_def SetReserveFloor_def NewStack_def new_rule_states_def)
  then have "evImportSuppressed eco (Some (rs_cooldown (rule_store ?s))) (effectiveImportLimitW st)"
    using r assms(2,3) by (simp add: evImportSuppressed_def Suppressed_def NewEVImportCooldown_def)
  then have "held_current (tick_demands st ?s)"
    using importless_pass(2) [OF r [THEN conjunct1], of "tick_input ?s st" "rule_store ?s"] assms(4,5)
    unfolding tick_demands_def tick_pass_def tick_input_def [symmetric] by simp
  then show ?thesis using zero_current [of "tick_demands st ?s"]
    by (auto simp: held_current_def Optimize_evse list_all_iff split: option.split)
qed

theorem charging_stuck_without_import_rule_witness:
  "list_all (\<lambda>c. ec_MaxCurrentA c = Fin 0) (EVSECommands (snd (Optimize 3 (importing 200)
     (fst (run_ticks [(1, importing 300), (2, importing 200)]
        (shadow_stack home_env (\<lambda>_. 0) ex_site 0 (\<lambda>key. if key = ''import'' then ModeOff else ModeShadow) (Fin 20) ex_eco))))))"
  by (rule charging_stuck_without_import_rule)
    (simp_all add: importing_def home_def effectiveImportLimitW_def override_min_def unplanned_def NewGridState_def ex_eco_def)

end
