(* ===== verification/GatewayProps.thy ===== *)
theory GatewayProps
  imports StackProps OptLoop
begin

text \<open>
  Gateway mode: without a cap the plan is the utility's control, device by device (passthrough.go through
  the whole of the stack); and what the economics rule makes of a plan and of a cooldown nobody keeps.
\<close>

section \<open>One demand on an axis\<close>

lemma intersect_one:
  "intersectSameTier dev ax [d] = intersect_step dev ax d \<lparr>acc_lo = NInf, acc_hi = PInf, acc_author = '''', acc_conflicts = []\<rparr>"
  by (simp add: intersectSameTier_def)

lemma resolve_one: "fst (resolveInterval dev ax [d]) =
    (if fle (lower d) (upper d) then \<lparr>iv_Min = infToNaN (lower d), iv_Max = infToNaN (upper d)\<rparr> else fst (resolveInterval dev ax [d]))"
proof (cases "fle (lower d) (upper d)")
  case True
  have "resolve_tiers dev ax [d] = intersectSameTier dev ax (sortDemands [d])" by (rule resolve_one_tier [where T = "dem_Tier d"]) simp_all
  then have "resolve_tiers dev ax [d] = intersectSameTier dev ax [d]" by (simp add: sortDemands_def)
  then show ?thesis using True bounds_not_nan [of d] by (simp add: resolveInterval_def intersect_one intersect_step_def Let_def)
qed simp

lemma bound_point:
  assumes "axis_demands ds dev ax = [PointDemand n ax (Fin q) k src]" and "ax \<noteq> AxisConnect"
  shows "Bound (resolve_device ds dev) ax = Some \<lparr>iv_Min = Fin q, iv_Max = Fin q\<rparr>"
  using assms resolve_one [of dev ax "PointDemand n ax (Fin q) k src"]
  by (simp add: resolve_device_fields PointDemand_def lower_def upper_def infToNaN_def)

lemma bound_ceiling:
  assumes "axis_demands ds dev ax = [CeilingDemand n ax w k src]" and "ax \<noteq> AxisConnect" and "\<not> is_inf w"
  shows "Bound (resolve_device ds dev) ax = Some \<lparr>iv_Min = NaN, iv_Max = w\<rparr>"
  using assms resolve_one [of dev ax "CeilingDemand n ax w k src"]
  by (cases w) (simp_all add: resolve_device_fields CeilingDemand_def lower_def upper_def infToNaN_def)

lemma filter_one: "distinct xs \<Longrightarrow> x \<in> set xs \<Longrightarrow> filter (\<lambda>y. y = x) xs = [x]"
  by (induction xs) (auto simp: filter_empty_conv)

lemma filter_map_one:
  assumes "distinct xs" and "x \<in> set xs" and "\<And>y. dem_Device (f y) = y"
  shows "filter (\<lambda>d. dem_Device d = x) (map f xs) = [f x]"
  using filter_one [OF assms(1,2)] assms(3) by (simp add: filter_map comp_def)

section \<open>The passthrough's demands\<close>

definition evse_proposals :: "f64 \<Rightarrow> string list \<Rightarrow> Demand list" where
  "evse_proposals a names = map (\<lambda>n. CeilingDemand n AxisEVSECurrentA a TierEconomics ''gateway-evse'') names"

lemma demand_device [simp]:
  "dem_Device (PointDemand n ax w k src) = n" "dem_Device (CeilingDemand n ax w k src) = n" "dem_Device (ConnectDemand n c k src) = n"
  by (simp_all add: PointDemand_def CeilingDemand_def ConnectDemand_def)

lemma axis_demands_append: "axis_demands (xs @ ys) dev ax = axis_demands xs dev ax @ axis_demands ys dev ax"
  by (simp add: axis_demands_def)

lemma axis_demands_map:
  assumes "\<And>y. dem_Axis (f y) = ax'" and "\<And>y. dem_Device (f y) = y"
  shows "axis_demands (map f xs) dev ax = (if ax = ax' then map f (filter (\<lambda>y. y = dev) xs) else [])"
  using assms by (simp add: axis_demands_def filter_map comp_def)

definition fixed_of :: "CSIPControlState option \<Rightarrow> f64" where
  "fixed_of ctl = (case ctl of None \<Rightarrow> Fin 0 | Some c \<Rightarrow> (case OpModFixedW (cc_Base c) of None \<Rightarrow> Fin 0 | Some ap \<Rightarrow> apW ap))"

definition connect_of :: "CSIPControlState option \<Rightarrow> bool option" where
  "connect_of ctl = (case ctl of None \<Rightarrow> None | Some c \<Rightarrow> OpModConnect (cc_Base c))"

lemma proposals_of_axis:
  "axis_demands (solar_proposals ctl names) dev ax =
     (if ax = AxisSolarCeilingW then solar_proposals ctl (filter (\<lambda>y. y = dev) names) else [])"
  "axis_demands (battery_proposals ctl names) dev ax =
     (if ax = AxisBatterySetpointW then battery_proposals ctl (filter (\<lambda>y. y = dev) names) else [])"
  "axis_demands (evse_proposals a names) dev ax =
     (if ax = AxisEVSECurrentA then evse_proposals a (filter (\<lambda>y. y = dev) names) else [])"
  unfolding solar_proposals_def battery_proposals_def evse_proposals_def
  by (rule axis_demands_map; simp split: option.split)+

lemma connect_of_axis:
  "axis_demands (connect_proposals ctl names) dev ax =
     (if ax = AxisConnect then
        (case connect_of ctl of None \<Rightarrow> []
         | Some c \<Rightarrow> map (\<lambda>n. ConnectDemand n c TierEconomics ''csip-connect'')
             (filter (\<lambda>y. y = dev) (dn_Inverters names @ dn_Batteries names @ dn_EVSEs names)))
      else [])"
proof -
  have "axis_demands (map (\<lambda>n. ConnectDemand n c TierEconomics ''csip-connect'') xs) dev x =
      (if x = AxisConnect then map (\<lambda>n. ConnectDemand n c TierEconomics ''csip-connect'') (filter (\<lambda>y. y = dev) xs) else [])" for c xs x
    by (rule axis_demands_map) simp_all
  moreover have "axis_demands [] dev x = []" for x by (simp add: axis_demands_def)
  ultimately show ?thesis by (simp add: connect_proposals_def connect_of_def axis_demands_append split: option.split)
qed

lemma resolveConnect_same:
  assumes "g \<noteq> []" and "\<forall>d \<in> set g. dem_Connect d = Some c"
  shows "fst (resolveConnect dev g) = Some c"
proof -
  have "list_ex (\<lambda>d. dem_Connect d = Some x) (sortDemands g) = (x = c)" for x
    using assms by (cases g) (auto simp: list_ex_iff)
  then show ?thesis by (cases c) (simp_all add: resolveConnect_def Let_def)
qed

definition gateway_demands :: "CSIPControlState option \<Rightarrow> f64 \<Rightarrow> device_names \<Rightarrow> Demand list" where
  "gateway_demands ctl a names =
     solar_proposals ctl (dn_Inverters names) @ battery_proposals ctl (dn_Batteries names) @ connect_proposals ctl names @
     evse_proposals a (dn_EVSEs names)"

lemma gateway_connect:
  assumes "n \<in> set (dn_Inverters names @ dn_Batteries names @ dn_EVSEs names)"
  shows "des_Connect (resolve_device (gateway_demands ctl a names) n) = connect_of ctl"
proof -
  have e: "filter (\<lambda>y. y = n) (dn_Inverters names @ dn_Batteries names @ dn_EVSEs names) \<noteq> []" using assms by (auto simp: filter_empty_conv)
  have ax: "axis_demands (gateway_demands ctl a names) n AxisConnect = axis_demands (connect_proposals ctl names) n AxisConnect"
    by (simp add: gateway_demands_def axis_demands_append proposals_of_axis)
  show ?thesis
  proof (cases "connect_of ctl")
    case None
    then show ?thesis by (simp add: resolve_device_fields ax connect_of_axis)
  next
    case (Some c)
    have "fst (resolveConnect n (axis_demands (connect_proposals ctl names) n AxisConnect)) = Some c"
      by (rule resolveConnect_same) (use e Some in \<open>auto simp: connect_of_axis ConnectDemand_def\<close>)
    then show ?thesis using Some by (simp add: resolve_device_fields ax)
  qed
qed

lemma gateway_bounds:
  "distinct (dn_Inverters names) \<Longrightarrow> n \<in> set (dn_Inverters names) \<Longrightarrow>
     (case ctl of None \<Rightarrow> True | Some c \<Rightarrow> OpModMaxLimW (cc_Base c) = None) \<Longrightarrow>
     Bound (resolve_device (gateway_demands ctl a names) n) AxisSolarCeilingW = Some \<lparr>iv_Min = NaN, iv_Max = NaN\<rparr>"
  "distinct (dn_Batteries names) \<Longrightarrow> n \<in> set (dn_Batteries names) \<Longrightarrow> fixed_of ctl = Fin q \<Longrightarrow>
     Bound (resolve_device (gateway_demands ctl a names) n) AxisBatterySetpointW = Some \<lparr>iv_Min = Fin q, iv_Max = Fin q\<rparr>"
  "distinct (dn_EVSEs names) \<Longrightarrow> n \<in> set (dn_EVSEs names) \<Longrightarrow> \<not> nan_or_inf a \<Longrightarrow>
     Bound (resolve_device (gateway_demands ctl a names) n) AxisEVSECurrentA = Some \<lparr>iv_Min = NaN, iv_Max = a\<rparr>"
proof -
  let ?d = "gateway_demands ctl a names"
  have ax: "axis_demands ?d n AxisSolarCeilingW = solar_proposals ctl (filter (\<lambda>y. y = n) (dn_Inverters names))"
    "axis_demands ?d n AxisBatterySetpointW = battery_proposals ctl (filter (\<lambda>y. y = n) (dn_Batteries names))"
    "axis_demands ?d n AxisEVSECurrentA = evse_proposals a (filter (\<lambda>y. y = n) (dn_EVSEs names))"
    by (simp_all add: gateway_demands_def axis_demands_append proposals_of_axis connect_of_axis)
  show "Bound (resolve_device ?d n) AxisSolarCeilingW = Some \<lparr>iv_Min = NaN, iv_Max = NaN\<rparr>"
    if "distinct (dn_Inverters names)" "n \<in> set (dn_Inverters names)" "case ctl of None \<Rightarrow> True | Some c \<Rightarrow> OpModMaxLimW (cc_Base c) = None"
  proof -
    have "solar_proposals ctl [n] = [CeilingDemand n AxisSolarCeilingW NaN TierEconomics ''csip-restore'']"
      using that(3) by (cases ctl) (simp_all add: solar_proposals_def)
    then show ?thesis by (intro bound_ceiling) (simp_all add: ax filter_one [OF that(1,2)])
  qed
  show "Bound (resolve_device ?d n) AxisBatterySetpointW = Some \<lparr>iv_Min = Fin q, iv_Max = Fin q\<rparr>"
    if "distinct (dn_Batteries names)" "n \<in> set (dn_Batteries names)" "fixed_of ctl = Fin q"
    using that filter_one [OF that(1,2)] bound_point [of ?d n AxisBatterySetpointW n q TierEconomics]
    by (auto simp: ax battery_proposals_def fixed_of_def split: option.splits)
  show "Bound (resolve_device ?d n) AxisEVSECurrentA = Some \<lparr>iv_Min = NaN, iv_Max = a\<rparr>"
    if "distinct (dn_EVSEs names)" "n \<in> set (dn_EVSEs names)" "\<not> nan_or_inf a"
    by (rule bound_ceiling [where n = n and k = TierEconomics and src = "''gateway-evse''"])
      (use that filter_one [OF that(1,2)] in \<open>simp_all add: ax evse_proposals_def nan_or_inf_def\<close>)
qed

section \<open>Commands that survive the protection\<close>

lemma override_kept: "c \<in> set cs \<Longrightarrow> \<exists>c' \<in> set (overrideDisconnect n cs). bc_Name c' = bc_Name c \<and> (c' = c \<or> disconnects c')"
  by (induction cs) (auto simp: disconnects_def)

lemma overrides_kept:
  "c \<in> set cs \<Longrightarrow> \<exists>c' \<in> set (fold overrideDisconnect ns cs). bc_Name c' = bc_Name c \<and> (c' = c \<or> disconnects c')"
proof (induction ns arbitrary: c cs)
  case (Cons n ns)
  obtain d where d: "d \<in> set (overrideDisconnect n cs)" "bc_Name d = bc_Name c" "d = c \<or> disconnects d" using override_kept [OF Cons.prems] by blast
  then show ?case using Cons.IH [OF d(1)] by (auto simp: d(2))
qed auto

lemma post_pass_kept:
  "c \<in> set (fst acc) \<Longrightarrow> \<exists>c' \<in> set (fst (snd (post_pass iv inp cs acc))). bc_Name c' = bc_Name c \<and> (c' = c \<or> disconnects c')"
proof (induction cs arbitrary: acc c)
  case (Cons x cs)
  show ?case
  proof (cases x)
    case (Rule n ev)
    then show ?thesis using Cons by (simp add: post_pass_simps)
  next
    case (BatteryGuard g)
    obtain d where d: "d \<in> set (snd (guard_pass iv inp g (fst acc)))" "bc_Name d = bc_Name c" "d = c \<or> disconnects d"
      using overrides_kept [OF Cons.prems] unfolding guard_pass_cmds by blast
    have "\<exists>c' \<in> set (fst (snd (post_pass iv inp cs (snd (guard_pass iv inp g (fst acc)), m)))). bc_Name c' = bc_Name d \<and> (c' = d \<or> disconnects c')" for m
      by (rule Cons.IH) (simp add: d(1))
    then show ?thesis using BatteryGuard d(2,3) by (fastforce simp: post_pass_simps Let_def)
  qed
qed auto

lemma Optimize_solar:
  "SolarCommands (snd (Optimize t state s)) =
     map (\<lambda>c. case CSIPControl state of None \<Rightarrow> c | Some x \<Rightarrow> c\<lparr>sc_MRID := cc_MRID x\<rparr>)
       (SolarCommands (emitCommands (Resolve (tick_demands state s)) (empty_plan (plan_time t state))))"
  by (simp add: Optimize_def Let_def tick_demands_def tick_pass_def ticked_def stamp_MRID_def emit_fold case_prod_unfold split: option.split)

lemma emitted:
  assumes "n \<in> dem_Device ` set ds"
  shows "c \<in> set (solar_command (resolve_device ds n) n) \<Longrightarrow> c \<in> set (SolarCommands (emitCommands (Resolve ds) p))"
    and "b \<in> set (battery_command (resolve_device ds n) n) \<Longrightarrow> b \<in> set (BatteryCommands (emitCommands (Resolve ds) p))"
    and "e \<in> set (evse_command (resolve_device ds n) n) \<Longrightarrow> e \<in> set (EVSECommands (emitCommands (Resolve ds) p))"
  using assms by (auto simp: emit_fold Resolve_def deviceOrder_def)

section \<open>The plan of the gateway\<close>

definition uncapped :: "SystemState \<Rightarrow> bool" where
  "uncapped st \<longleftrightarrow> is_nan (effectiveExportLimitW st) \<and> is_nan (effectiveGenLimitW st) \<and> is_nan (effectiveImportLimitW st) \<and>
     (case CSIPControl st of None \<Rightarrow> True | Some c \<Rightarrow> OpModMaxLimW (cc_Base c) = None)"

definition offered :: "planner_env \<Rightarrow> GatewayEVSEPolicy \<Rightarrow> SystemState \<Rightarrow> f64" where
  "offered env policy st = currentLimitA (policy_WithDefaults policy) (local_hour env (time_unix (st_Timestamp st)))"

lemma gateway_quiet:
  assumes "gateway_shaped env cv policy names s" and "uncapped st"
  shows "tick_demands st s = gateway_demands (CSIPControl st) (offered env policy st) names"
proof -
  obtain e d1 b1 g d2 b2 i cd d3 b3 where r:
    "export_Evaluate cv (tick_input s st) (NewSession export_Name (stk_tickInterval s)) (rs_export (rule_store s)) = (e, d1, b1)"
    "gen_Evaluate cv (tick_input s st) (NewSession gen_Name (stk_tickInterval s)) (rs_gen (rule_store s)) = (g, d2, b2)"
    "import_Evaluate cv (tick_input s st) (NewSession import_Name (stk_tickInterval s)) (rs_import (rule_store s), rs_cooldown (rule_store s)) = ((i, cd), d3, b3)"
    "tick_demands st s = d1 @ d2 @ d3 @ passthrough_Evaluate env (policy_WithDefaults policy) names (tick_input s st)"
    using gateway_pass [OF assms(1), of st] by metis
  have "d1 = []" "d2 = []" "d3 = []" using r(1-3) assms(2)
    by (auto simp: uncapped_def export_Evaluate_def gen_Evaluate_def import_Evaluate_def Let_def)
  then show ?thesis using r(4)
    by (simp add: passthrough_Evaluate_def gateway_demands_def evse_proposals_def offered_def Let_def)
qed

lemma devices_of_map: "(\<And>n. dem_Device (f n) = n) \<Longrightarrow> dem_Device ` set (map f ns) = set ns"
  by (simp add: image_image)

lemma proposal_devices:
  "dem_Device ` set (solar_proposals ctl ns) = set ns" "dem_Device ` set (battery_proposals ctl ns) = set ns"
  "dem_Device ` set (evse_proposals a ns) = set ns"
  unfolding solar_proposals_def battery_proposals_def evse_proposals_def
  by (rule devices_of_map; simp split: option.split)+

lemma gateway_devices:
  "n \<in> set (dn_Inverters names @ dn_Batteries names @ dn_EVSEs names) \<Longrightarrow> n \<in> dem_Device ` set (gateway_demands ctl a names)"
  by (simp add: gateway_demands_def image_Un proposal_devices) blast

lemma gateway_solar:
  assumes "n \<in> set (dn_Inverters names)" and "distinct (dn_Inverters names)"
    and "case ctl of None \<Rightarrow> True | Some c \<Rightarrow> OpModMaxLimW (cc_Base c) = None"
  shows "\<lparr>sc_Name = n, sc_CurtailToW = NaN, sc_Connect = connect_of ctl, sc_MRID = ''''\<rparr>
    \<in> set (SolarCommands (emitCommands (Resolve (gateway_demands ctl a names)) p))"
proof (rule emitted(1) [of n])
  show "n \<in> dem_Device ` set (gateway_demands ctl a names)" using assms(1) by (simp add: gateway_devices)
  show "\<lparr>sc_Name = n, sc_CurtailToW = NaN, sc_Connect = connect_of ctl, sc_MRID = ''''\<rparr>
      \<in> set (solar_command (resolve_device (gateway_demands ctl a names) n) n)"
    using gateway_connect [of n names ctl a] gateway_bounds(1) [OF assms(2,1,3), of a] assms(1) by (simp add: solar_command_def)
qed

lemma gateway_battery:
  assumes "n \<in> set (dn_Batteries names)" and "distinct (dn_Batteries names)" and "fixed_of ctl = Fin q"
  shows "\<lparr>bc_Name = n, bc_SetpointW = Fin q, bc_Connect = connect_of ctl, bc_MRID = ''''\<rparr>
    \<in> set (BatteryCommands (emitCommands (Resolve (gateway_demands ctl a names)) p))"
proof (rule emitted(2) [of n])
  show "n \<in> dem_Device ` set (gateway_demands ctl a names)" using assms(1) by (simp add: gateway_devices)
  show "\<lparr>bc_Name = n, bc_SetpointW = Fin q, bc_Connect = connect_of ctl, bc_MRID = ''''\<rparr>
      \<in> set (battery_command (resolve_device (gateway_demands ctl a names) n) n)"
    using gateway_connect [of n names ctl a] gateway_bounds(2) [OF assms(2,1,3), of a] assms(1)
    by (simp add: battery_command_def projectSetpoint_def feq_def)
qed

lemma gateway_evse:
  assumes "n \<in> set (dn_EVSEs names)" and "distinct (dn_EVSEs names)" and "\<not> nan_or_inf a"
  shows "\<lparr>ec_StationID = fst (parseEVSEDevice n), ec_ConnectorID = snd (parseEVSEDevice n), ec_MaxCurrentA = fmax (Fin 0) a, ec_SetpointW = None,
      ec_Connect = connect_of ctl, ec_MRID = ''''\<rparr> \<in> set (EVSECommands (emitCommands (Resolve (gateway_demands ctl a names)) p))"
proof (rule emitted(3) [of n])
  show "n \<in> dem_Device ` set (gateway_demands ctl a names)" using assms(1) by (simp add: gateway_devices)
  show "\<lparr>ec_StationID = fst (parseEVSEDevice n), ec_ConnectorID = snd (parseEVSEDevice n), ec_MaxCurrentA = fmax (Fin 0) a, ec_SetpointW = None,
      ec_Connect = connect_of ctl, ec_MRID = ''''\<rparr> \<in> set (evse_command (resolve_device (gateway_demands ctl a names) n) n)"
    using gateway_connect [of n names ctl a] gateway_bounds(3) [OF assms(2,1,3), of ctl] assms(1,3)
    by (simp add: evse_command_def hasEVSE_def nan_or_inf_def)
qed

lemma gateway_battery_command:
  assumes "gateway_shaped env cv policy names s" and "distinct (dn_Batteries names)" and "uncapped st"
    and "fixed_of (CSIPControl st) = Fin q" and "n \<in> set (dn_Batteries names)"
  shows "\<exists>c \<in> set (BatteryCommands (snd (Optimize t st s))). bc_Name c = n \<and>
    (disconnects c \<or> bc_SetpointW c = Fin q \<and> bc_Connect c = connect_of (CSIPControl st))"
proof -
  let ?ctl = "CSIPControl st"
  let ?c = "\<lparr>bc_Name = n, bc_SetpointW = Fin q, bc_Connect = connect_of ?ctl, bc_MRID = ''''\<rparr>"
  have "?c \<in> set (BatteryCommands (emitCommands (Resolve (tick_demands st s)) (empty_plan (plan_time t st))))"
    unfolding gateway_quiet [OF assms(1,3)] by (rule gateway_battery [OF assms(5,2,4)])
  then have "?c \<in> set (arbitrated st s)" by (simp add: arbitrated_def emit_fold empty_plan_def)
  then obtain c where c: "c \<in> set (fst (snd (tick_post st s)))" "bc_Name c = n" "c = ?c \<or> disconnects c"
    using post_pass_kept [of ?c "(arbitrated st s, snapshot_authors (Resolve (tick_demands st s)))"] unfolding tick_post_def by fastforce
  from c(3) have "disconnects c \<or> bc_SetpointW c = Fin q \<and> bc_Connect c = connect_of ?ctl" by auto
  then show ?thesis unfolding Optimize_commands using c(1,2) by (intro bexI [of _ "stamp ?ctl c"]) auto
qed


definition ordered :: "int \<Rightarrow> SystemState" where
  "ordered w = (home NewGridState None)\<lparr>EVSEs := [garage], CSIPControl := Some (dispatch w)\<rparr>"

definition owner :: GatewayEVSEPolicy where
  "owner = \<lparr>pol_Mode = ''full'', WindowStartHH = 0, WindowEndHH = 0, FullCurrentA = Fin 16\<rparr>"

definition house :: device_names where
  "house = \<lparr>dn_Inverters = [''roof''], dn_Batteries = [''pack''], dn_EVSEs = [''cs1'']\<rparr>"

lemma ordered_fields:
  "CSIPControl (ordered v) = Some (dispatch v)" "uncapped (ordered v)" "offered env owner st = Fin 16"
  "\<bar>v\<bar> \<le> 2 ^ 50 \<Longrightarrow> fixed_of (Some (dispatch v)) = W v"
  using fl_of_int [of v]
  by (simp_all add: ordered_def uncapped_def effectiveExportLimitW_def effectiveGenLimitW_def effectiveImportLimitW_def override_min_def dispatch_def
      no_base_def home_def NewGridState_def offered_def owner_def policy_WithDefaults_def currentLimitA_def zero_default_def fixed_of_def apW_def
      pow10_def W_def)


end
