(* ===== verification/StackTypes.thy ===== *)
theory StackTypes
  imports EconomicsProps GatewayProps
begin

text \<open>
  The typing of the stack: which demands its rules may emit for which devices, that every rule emits
  only such demands, and that therefore a plan commands each device with the command of its class; and
  the round trip of the names of charging points between the rules and the plan.
\<close>

section \<open>Typed demands\<close>

text \<open>A demand of the stack's rules bounds the axis of the class of its device, wants no connect state,
  names its source and is not of the safety tier, which is the protection's alone.\<close>

definition axis_devices :: "SystemState \<Rightarrow> Axis \<Rightarrow> string list" where
  "axis_devices st ax =
     (case ax of AxisSolarCeilingW \<Rightarrow> map ss_Name (Solar st)
      | AxisBatterySetpointW \<Rightarrow> map bs_Name (Batteries st)
      | AxisEVSECurrentA \<Rightarrow> map (\<lambda>e. evseKey (es_StationID e) (es_ConnectorID e)) (EVSEs st)
      | AxisConnect \<Rightarrow> [])"

definition well_typed :: "(Axis \<Rightarrow> string list) \<Rightarrow> Demand \<Rightarrow> bool" where
  "well_typed devices d \<longleftrightarrow>
     dem_Device d \<in> set (devices (dem_Axis d)) \<and> dem_Connect d = None \<and> dem_Tier d \<noteq> TierSafety \<and> dem_Source d \<noteq> ''''"

lemma typed_demands:
  "well_typed dv (PointDemand n ax w k src) \<longleftrightarrow> n \<in> set (dv ax) \<and> k \<noteq> TierSafety \<and> src \<noteq> ''''"
  "well_typed dv (CeilingDemand n ax w k src) \<longleftrightarrow> n \<in> set (dv ax) \<and> k \<noteq> TierSafety \<and> src \<noteq> ''''"
  by (simp_all add: well_typed_def PointDemand_def CeilingDemand_def)

lemmas rule_names = export_Name_def gen_Name_def import_Name_def ausgen_Name_def ausload_Name_def economics_Name_def

section \<open>The compliance rules\<close>

lemma absorb_typed:
  assumes "list_all (well_typed dv) (fst acc)" and "set (map bs_Name bs) \<subseteq> set (dv AxisBatterySetpointW)"
  shows "list_all (well_typed dv) (fst (fold (absorb_demand inp g need) bs acc))"
  using assms
proof (induction bs arbitrary: acc)
  case (Cons b bs)
  have "list_all (well_typed dv) (fst (absorb_demand inp g need b acc))"
    using Cons.prems by (auto simp: absorb_demand_def Let_def case_prod_unfold typed_demands rule_names)
  then show ?case using Cons by simp
qed simp

lemma export_typed: "list_all (well_typed (axis_devices (in_State inp))) (fst (snd (export_Evaluate cv inp s e)))"
proof -
  let ?dv = "axis_devices (in_State inp)"
  have "list_all (well_typed ?dv) (fst (stack_absorb inp s v w))" for v w
    using absorb_typed [of ?dv "([], Fin 0, Fin 0)" "Batteries (in_State inp)"]
    by (simp add: stack_absorb_def Let_def case_prod_unfold axis_devices_def)
  then have "list_all (well_typed ?dv) (fst (snd (applyExportControl cv inp s l x)))" for l x
    by (auto simp: applyExportControl_def Let_def case_prod_unfold ceiling_demands_def list_all_iff typed_demands axis_devices_def rule_names)
  then show ?thesis by (simp add: export_Evaluate_def Let_def case_prod_unfold)
qed

lemma gen_typed: "list_all (well_typed (axis_devices (in_State inp))) (fst (snd (gen_Evaluate cv inp s g)))"
  by (auto simp: gen_Evaluate_def applyGenControl_def Let_def case_prod_unfold list_all_iff typed_demands axis_devices_def rule_names)

lemma distribute_typed:
  "set (map bs_Name bs) \<subseteq> set (dv AxisBatterySetpointW) \<Longrightarrow> list_all (well_typed dv) (fst (import_distribute blk bs r w))"
  by (induction blk bs r w rule: import_distribute.induct) (auto simp: Let_def case_prod_unfold typed_demands rule_names)

lemma import_typed: "list_all (well_typed (axis_devices (in_State inp))) (fst (snd (import_Evaluate cv inp s i)))"
proof -
  have "list_all (well_typed (axis_devices st)) (fst (snd (applyImportControl st l blk sc)))" for st l blk sc
    by (simp add: applyImportControl_def Let_def case_prod_unfold distribute_typed axis_devices_def)
  then show ?thesis by (simp add: import_Evaluate_def Let_def case_prod_unfold)
qed

lemma ausgen_typed: "list_all (well_typed (axis_devices (in_State inp))) (fst (snd (ausgen_Evaluate cv inp s a)))"
  by (auto simp: ausgen_Evaluate_def applyGenControl_aus_def ceiling_demands_def Let_def case_prod_unfold list_all_iff typed_demands
      axis_devices_def rule_names)

lemma active_session_in: "active_session evs = Some e \<Longrightarrow> e \<in> set evs"
  unfolding active_session_def by (metis (no_types, lifting) find_Some_iff nth_mem)

lemma ausload_typed: "list_all (well_typed (axis_devices (in_State inp))) (fst (snd (ausload_Evaluate cv inp s l)))"
proof -
  have e: "well_typed (axis_devices st) (ev_ceiling ev a)" if "active_session (EVSEs st) = Some ev" for st ev a
    using active_session_in [OF that] by (auto simp: ev_ceiling_def typed_demands axis_devices_def rule_names)
  have f: "list_all (well_typed (axis_devices st)) (charge_floors st w)" for st w
    by (auto simp: charge_floors_def charge_floor_def well_typed_def axis_devices_def list_all_iff rule_names)
  have "list_all (well_typed (axis_devices st)) (snd (applyLoadControl st w x))" for st w x
    using e f by (simp add: applyLoadControl_def stickyEVDemand_def Let_def case_prod_unfold split: option.split)
  then show ?thesis by (simp add: ausload_Evaluate_def Let_def case_prod_unfold)
qed

section \<open>The economics rule\<close>

lemma eco_set_typed [simp]:
  "list_all (well_typed dv) (eco_setBattery n w e) \<longleftrightarrow> list_all (well_typed dv) e \<and> n \<in> set (dv AxisBatterySetpointW)"
  "list_all (well_typed dv) (eco_setEVSE ev a e) \<longleftrightarrow>
     list_all (well_typed dv) e \<and> evseKey (es_StationID ev) (es_ConnectorID ev) \<in> set (dv AxisEVSECurrentA)"
  by (simp_all add: eco_setBattery_def eco_setEVSE_def typed_demands rule_names)

lemma eco_steps_typed:
  assumes "bs_Name b \<in> set (dv AxisBatterySetpointW)"
  shows "list_all (well_typed dv) (snd (snd acc)) \<Longrightarrow> list_all (well_typed dv) (snd (snd (snd (eco_fixed_step blk b acc))))"
    and "list_all (well_typed dv) (snd acc') \<Longrightarrow> list_all (well_typed dv) (snd (snd (eco_self_step x f b acc')))"
    and "list_all (well_typed dv) (snd (snd acc'')) \<Longrightarrow> list_all (well_typed dv) (snd (snd (snd (eco_peak_step capped blk b acc''))))"
    and "list_all (well_typed dv) e \<Longrightarrow> list_all (well_typed dv) (snd (eco_plan_step blk full w cap b e))"
  using assms
  by (auto simp: eco_fixed_step_def eco_self_step_def eco_keep_charging_def eco_peak_step_def eco_plan_step_def Let_def split: prod.splits)

lemma eco_steps_names [simp]:
  "bs_Name (fst (eco_fixed_step blk b acc)) = bs_Name b" "bs_Name (fst (eco_self_step x f b acc')) = bs_Name b"
  "bs_Name (fst (eco_peak_step capped blk b acc'')) = bs_Name b" "bs_Name (fst (eco_plan_step blk full w cap b e)) = bs_Name b"
  by (simp_all add: eco_fixed_step_def eco_self_step_def eco_keep_charging_def eco_peak_step_def eco_plan_step_def Let_def split: prod.split)

lemma eco_rules_typed:
  assumes "set (map bs_Name bs) \<subseteq> set (dv AxisBatterySetpointW)" and "list_all (well_typed dv) e"
  shows "list_all (well_typed dv) (snd (applyFixedDispatch cc bs sw hw blk e)) \<and> map bs_Name (fst (applyFixedDispatch cc bs sw hw blk e)) = map bs_Name bs"
    and "list_all (well_typed dv) (snd (snd (applySelfConsumption bs w x f e))) \<and> map bs_Name (fst (applySelfConsumption bs w x f e)) = map bs_Name bs"
    and "list_all (well_typed dv) (snd (snd (applyTOU env c st bs w l blk e)))"
proof -
  have n: "bs_Name b \<in> set (dv AxisBatterySetpointW)" if "b \<in> set bs" for b using assms(1) that by auto
  have "list_all (well_typed dv) (snd (snd (snd (walk stop (eco_fixed_step blk) bs acc))))" if "list_all (well_typed dv) (snd (snd acc))" for stop acc
    by (rule walk_inv [where P = "\<lambda>acc. list_all (well_typed dv) (snd (snd acc))"]) (use n that in \<open>simp_all add: eco_steps_typed\<close>)
  then show "list_all (well_typed dv) (snd (applyFixedDispatch cc bs sw hw blk e)) \<and> map bs_Name (fst (applyFixedDispatch cc bs sw hw blk e)) = map bs_Name bs"
    using assms(2) by (simp add: applyFixedDispatch_def Let_def case_prod_unfold walk_map split: option.split)
  have "list_all (well_typed dv) (snd (snd (walk stop (eco_self_step x f) bs acc)))" if "list_all (well_typed dv) (snd acc)" for stop acc
    by (rule walk_inv [where P = "\<lambda>acc. list_all (well_typed dv) (snd acc)"]) (use n that in \<open>simp_all add: eco_steps_typed\<close>)
  then show "list_all (well_typed dv) (snd (snd (applySelfConsumption bs w x f e))) \<and> map bs_Name (fst (applySelfConsumption bs w x f e)) = map bs_Name bs"
    using assms(2) by (simp add: applySelfConsumption_def walk_map)
  have "list_all (well_typed dv) (snd (snd (snd (walk stop (eco_peak_step k blk) bs acc))))" if "list_all (well_typed dv) (snd (snd acc))" for stop k acc
    by (rule walk_inv [where P = "\<lambda>acc. list_all (well_typed dv) (snd (snd acc))"]) (use n that in \<open>simp_all add: eco_steps_typed\<close>)
  then show "list_all (well_typed dv) (snd (snd (applyTOU env c st bs w l blk e)))"
    using assms(2) by (simp add: applyTOU_def Let_def case_prod_unfold split: option.split)
qed

lemma eco_plan_typed:
  assumes "set (map bs_Name bs) \<subseteq> set (dv AxisBatterySetpointW)" and "list_all (well_typed dv) e"
    and "set (map (\<lambda>ev. evseKey (es_StationID ev) (es_ConnectorID ev)) evs) \<subseteq> set (dv AxisEVSECurrentA)"
  shows "list_all (well_typed dv) (snd (snd (snd (eco_applyPlan tg bs evs full w capW blk e)))) \<and>
    map bs_Name (fst (eco_applyPlan tg bs evs full w capW blk e)) = map bs_Name bs"
proof -
  have n: "bs_Name b \<in> set (dv AxisBatterySetpointW)" if "b \<in> set bs" for b using assms(1) that by auto
  have "list_all (well_typed dv) (snd (walk stop (eco_plan_step blk full v cap) bs acc))" if "list_all (well_typed dv) acc" for stop v cap acc
    by (rule walk_inv [where P = "list_all (well_typed dv)"]) (use n that in \<open>simp_all add: eco_steps_typed\<close>)
  moreover have "list_all (well_typed dv) (fold (\<lambda>ev. eco_setEVSE ev a) xs acc)"
    if "list_all (well_typed dv) acc" "set xs \<subseteq> set evs" for xs a acc
    using that
  proof (induction xs arbitrary: acc)
    case (Cons y ys)
    then show ?case using assms(3) by auto
  qed simp
  ultimately show ?thesis using assms(2)
    by (simp add: eco_applyPlan_def Let_def case_prod_unfold walk_map split: option.split)
qed

lemma charging_typed:
  assumes "list_all (well_typed dv) e" and "set (map (\<lambda>ev. evseKey (es_StationID ev) (es_ConnectorID ev)) evs) \<subseteq> set (dv AxisEVSECurrentA)"
  shows "list_all (well_typed dv) (applyEVCharging evs x l nw sw w k e)"
proof -
  have "list_all (well_typed dv) (fold (eco_charge_step f) evs e)" for f
    using assms by (induction evs arbitrary: e) (simp_all add: eco_charge_step_def)
  then show ?thesis by (simp add: applyEVCharging_def)
qed

lemma economics_typed: "list_all (well_typed (axis_devices (in_State inp))) (economics_Evaluate env c cd inp)"
proof -
  let ?st = "in_State inp" and ?blk = "reserveBlocker inp (eco_socReserve c)"
  let ?dv = "axis_devices ?st"
  have dv: "set (map bs_Name (Batteries ?st)) \<subseteq> set (?dv AxisBatterySetpointW)"
    "set (map (\<lambda>ev. evseKey (es_StationID ev) (es_ConnectorID ev)) (EVSEs ?st)) \<subseteq> set (?dv AxisEVSECurrentA)"
    by (simp_all add: axis_devices_def)
  obtain bs1 e1 where 1: "applyFixedDispatch (CSIPControl ?st) (Batteries ?st) (TotalSolarW ?st) (InferredLoadW ?st) ?blk [] = (bs1, e1)"
    by fastforce
  have t1: "list_all (well_typed ?dv) e1" "map bs_Name bs1 = map bs_Name (Batteries ?st)"
    using eco_rules_typed(1) [where bs = "Batteries ?st" and dv = ?dv and e = "[]" and cc = "CSIPControl ?st"
        and sw = "TotalSolarW ?st" and hw = "InferredLoadW ?st" and blk = ?blk] dv(1) 1 by simp_all
  obtain bs2 w2 f2 e2 where 2: "(if eco_fixed ?st then (bs1, economicSurplusW ?st, False, e1)
      else eco_applyPlan (DailyPlanTarget ?st) bs1 (EVSEs ?st) (eco_socFull c) (economicSurplusW ?st) (eco_planCapW c ?st) ?blk e1) = (bs2, w2, f2, e2)"
    by (metis prod_cases4)
  have t2: "list_all (well_typed ?dv) e2 \<and> map bs_Name bs2 = map bs_Name (Batteries ?st)"
  proof (cases "eco_fixed ?st")
    case False
    have "set (map bs_Name bs1) \<subseteq> set (?dv AxisBatterySetpointW)" unfolding t1(2) by (rule dv(1))
    then show ?thesis using eco_plan_typed [where bs = bs1 and dv = ?dv and e = e1 and evs = "EVSEs ?st" and tg = "DailyPlanTarget ?st"
          and full = "eco_socFull c" and w = "economicSurplusW ?st" and capW = "eco_planCapW c ?st" and blk = ?blk] t1 dv(2) 2 False
      by simp
  qed (use 2 t1 in simp)
  obtain bs3 w3 e3 where 3: "applySelfConsumption bs2 w2 (eco_excessSolarThreshold c) (eco_socFull c) e2 = (bs3, w3, e3)" by (metis prod_cases3)
  have s2: "set (map bs_Name bs2) \<subseteq> set (?dv AxisBatterySetpointW)" using t2 dv(1) by metis
  have t3: "list_all (well_typed ?dv) e3" "map bs_Name bs3 = map bs_Name bs2"
    using eco_rules_typed(2) [where bs = bs2 and dv = ?dv and e = e2 and w = w2 and x = "eco_excessSolarThreshold c" and f = "eco_socFull c"]
      s2 t2 3 by simp_all
  obtain bs4 w4 e4 where 4: "applyTOU env c ?st bs3 w3 (effectiveExportLimitW ?st) ?blk e3 = (bs4, w4, e4)" by (metis prod_cases3)
  have s3: "set (map bs_Name bs3) \<subseteq> set (?dv AxisBatterySetpointW)" unfolding t3(2) by (rule s2)
  have t4: "list_all (well_typed ?dv) e4"
    using eco_rules_typed(3) [where bs = bs3 and dv = ?dv and e = e3 and env = env and c = c and st = ?st and w = w3
        and l = "effectiveExportLimitW ?st" and blk = ?blk] s3 t3(1) 4 by simp
  show ?thesis using t2 charging_typed [OF t4 dv(2)]
    by (simp add: economics_Evaluate_def Let_def 1 2 3 4)
qed

section \<open>The stack\<close>

text \<open>The constraints a shadow stack is built of, whatever the modes.\<close>

definition site_rule :: "planner_env \<Rightarrow> (f64 \<Rightarrow> int) \<Rightarrow> EconomicsConstraint \<Rightarrow> rule_states Constraint \<Rightarrow> bool" where
  "site_rule env cv eco c \<longleftrightarrow> c = import_rule cv \<or> importless env cv eco c"

lemma site_rule_typed:
  assumes "site_rule env cv eco (Rule n ev)"
  shows "list_all (well_typed (axis_devices (in_State inp))) (fst (snd (ev inp s x)))"
  using assms export_typed gen_typed import_typed ausgen_typed ausload_typed economics_typed
  by (auto simp: site_rule_def importless_def export_rule_def gen_rule_def import_rule_def ausgen_rule_def ausload_rule_def economics_rule_def
      case_prod_unfold Let_def)

lemma demand_pass_typed:
  "list_all (site_rule env cv eco) cs \<Longrightarrow>
     list_all (well_typed (axis_devices (in_State inp))) (fst (snd (demand_pass iv inp cs x)))"
proof (induction cs arbitrary: x)
  case (Cons c cs)
  show ?case
  proof (cases c)
    case (Rule n ev)
    then show ?thesis using Cons site_rule_typed [of env cv eco n ev inp] by (simp add: case_prod_unfold Let_def)
  qed (use Cons in simp)
qed simp

lemma post_pass_all:
  assumes "list_all P cs" and "\<And>g. P (BatteryGuard g)"
  shows "list_all P (fst (post_pass iv inp cs acc))"
  using assms(1)
proof (induction cs arbitrary: acc)
  case (Cons c cs)
  then show ?case using assms(2) by (cases c) (simp_all add: post_pass_simps Let_def case_prod_unfold)
qed simp

lemma site_rules_run:
  "list_all (site_rule env cv eco) (constraints s) \<Longrightarrow> list_all (site_rule env cv eco) (constraints (fst (run_ticks xs s)))"
proof (induction xs arbitrary: s)
  case (Cons x xs)
  have "list_all (site_rule env cv eco) (constraints (fst (Optimize (fst x) (snd x) s)))"
    unfolding Optimize_fields(1) tick_post_def
    by (rule post_pass_all [OF Cons.prems]) (simp add: site_rule_def importless_def)
  then show ?case using Cons.IH by (simp add: case_prod_unfold Let_def)
qed simp

lemma shadow_stack_rules: "list_all (site_rule env cv eco) (constraints (shadow_stack env cv plant iv modes socR eco))"
  by (auto simp: shadow_stack_def SetReserveFloor_def NewStack_def shadow_constraints_def site_constraints_def site_rule_def importless_def)

text \<open>What a typed demand list makes of the devices.\<close>

lemma bound_device:
  assumes "list_all (well_typed dv) ds" and "Bound (resolve_device ds n) ax \<noteq> None" and "ax \<noteq> AxisConnect"
  shows "n \<in> set (dv ax)"
proof -
  have "axis_demands ds n ax \<noteq> []" using assms(2,3) by (auto simp: resolve_device_fields split: if_splits)
  then obtain d where "d \<in> set ds" "dem_Device d = n" "dem_Axis d = ax"
    by (auto simp: axis_demands_def filter_empty_conv)
  then show ?thesis using assms(1) by (auto simp: list_all_iff well_typed_def)
qed

lemma no_connect: "list_all (well_typed dv) ds \<Longrightarrow> des_Connect (resolve_device ds n) = None"
proof -
  assume t: "list_all (well_typed dv) ds"
  have "\<not> list_ex (\<lambda>d. dem_Connect d = Some v) (sortDemands (axis_demands ds n AxisConnect))" for v
    using t by (auto simp: list_ex_iff list_all_iff well_typed_def axis_demands_def)
  then show ?thesis by (simp add: resolve_device_fields resolveConnect_def Let_def)
qed

lemma trip_names:
  "set (snd (fold (trip_step blk r k cmd) bs acc)) \<subseteq> set (snd acc) \<union> bs_Name ` set bs"
proof (induction bs arbitrary: acc)
  case (Cons b bs)
  have "set (snd (trip_step blk r k cmd b acc)) \<subseteq> insert (bs_Name b) (set (snd acc))"
    by (auto simp: trip_step_def Let_def)
  then show ?case using Cons [of "trip_step blk r k cmd b acc"] by auto
qed simp

lemma overrides_names: "bc_Name ` set (fold overrideDisconnect ns cs) = set ns \<union> bc_Name ` set cs"
  by (induction ns arbitrary: cs) (auto simp: override_names)

lemma guard_names:
  "bc_Name ` set (fst (snd (post_pass iv inp cs acc))) \<subseteq> bc_Name ` set (fst acc) \<union> bs_Name ` set (Batteries (in_State inp))"
proof (induction cs arbitrary: acc)
  case (Cons c cs)
  show ?case
  proof (cases c)
    case (BatteryGuard g)
    have "set (snd (evaluateTrips inp k cmd g)) \<subseteq> bs_Name ` set (Batteries (in_State inp))" for k cmd
      using trip_names [where acc = "(bsc_sess g, [])"] by (simp add: evaluateTrips_def case_prod_unfold Let_def)
    then have "bc_Name ` set (snd (guard_pass iv inp g (fst acc))) \<subseteq> bc_Name ` set (fst acc) \<union> bs_Name ` set (Batteries (in_State inp))"
      unfolding guard_pass_cmds overrides_names by blast
    moreover have "bc_Name ` set (fst (snd (post_pass iv inp cs (snd (guard_pass iv inp g (fst acc)), w)))) \<subseteq>
        bc_Name ` set (snd (guard_pass iv inp g (fst acc))) \<union> bs_Name ` set (Batteries (in_State inp))" for w
      using Cons.IH [of "(snd (guard_pass iv inp g (fst acc)), w)"] by simp
    ultimately have "bc_Name ` set (fst (snd (post_pass iv inp cs (snd (guard_pass iv inp g (fst acc)), w)))) \<subseteq>
        bc_Name ` set (fst acc) \<union> bs_Name ` set (Batteries (in_State inp))" for w
      by (meson Un_least Un_upper2 order_trans)
    then show ?thesis by (simp add: BatteryGuard post_pass_simps Let_def)
  qed (use Cons in \<open>simp add: post_pass_simps\<close>)
qed simp

text \<open>The commands of a plan, by class.\<close>

lemma typed_commands:
  assumes "list_all (well_typed dv) ds"
  shows "battery_command (resolve_device ds n) n \<noteq> [] \<Longrightarrow> n \<in> set (dv AxisBatterySetpointW)"
    and "solar_command (resolve_device ds n) n \<noteq> [] \<Longrightarrow> n \<in> set (dv AxisSolarCeilingW)"
    and "evse_command (resolve_device ds n) n \<noteq> [] \<Longrightarrow> n \<in> set (dv AxisEVSECurrentA)"
  using bound_device [OF assms, of n] no_connect [OF assms, of n]
  by (auto simp: battery_command_def solar_command_def evse_command_def split: if_splits option.splits)

lemma emitted_only:
  assumes "c \<in> set (concat (map (\<lambda>(n, d). f d n) (Resolve ds)))"
  obtains n where "c \<in> set (f (resolve_device ds n) n)"
  using assms by (auto simp: Resolve_def)

section \<open>The names of charging points\<close>

text \<open>The plan splits the name of a charging point at its last mark and reads the number behind it, and
  gets the station and the connector the rules made the name of, whatever the name of the station.\<close>

lemma of_char_digit: "n < 10 \<Longrightarrow> (of_char (char_of (48 + n :: nat) :: char) :: int) = 48 + int n"
  unfolding of_nat_of_char [where 'a = int, symmetric] of_char_of by simp

lemma digits_append: "digits (xs @ ys) a = (case digits xs a of None \<Rightarrow> None | Some b \<Rightarrow> digits ys b)"
  by (induction xs arbitrary: a) auto

lemma digits_chars: "digits (digit_chars n) 0 = Some (int n)"
proof (induction n rule: digit_chars.induct)
  case (1 n)
  have s: "int (n div 10) * 10 + int (n mod 10) = int n" by presburger
  show ?case
  proof (cases "n < 10")
    case True
    then show ?thesis using of_char_digit [of n] by (subst digit_chars.simps) simp
  next
    case False
    have "digits (digit_chars n) 0 = Some (int (n div 10) * 10 + int (n mod 10))"
      using 1 False of_char_digit [of "n mod 10"] by (subst digit_chars.simps) (simp add: digits_append)
    then show ?thesis unfolding s .
  qed
qed

lemma digit_chars_digits: "c \<in> set (digit_chars n) \<Longrightarrow> 48 \<le> (of_char c :: int) \<and> (of_char c :: int) \<le> 57"
proof (induction n rule: digit_chars.induct)
  case (1 n)
  have "48 \<le> (of_char (char_of (48 + k) :: char) :: int) \<and> (of_char (char_of (48 + k) :: char) :: int) \<le> 57" if "k < 10" for k :: nat
    using of_char_digit [OF that] that by simp
  from this [of n] this [of "n mod 10"] 1 show ?case by (subst (asm) (2) digit_chars.simps) (auto split: if_splits)
qed

lemma digit_chars_plain:
  "CHR ''-'' \<notin> set (digit_chars n)" "CHR ''+'' \<notin> set (digit_chars n)" "CHR ''#'' \<notin> set (digit_chars n)"
  using digit_chars_digits [of _ n] by fastforce+

lemma digit_chars_some: "digit_chars n \<noteq> []"
  by (subst digit_chars.simps) simp

lemma atoi_itoa: "in_int64 k \<Longrightarrow> atoi (itoa k) = Some k"
proof -
  assume k: "in_int64 k"
  show ?thesis
  proof (cases "k < 0")
    case False
    obtain c cs where c: "digit_chars (nat k) = c # cs" using digit_chars_some by (metis list.exhaust)
    then have "c \<noteq> CHR ''-''" "c \<noteq> CHR ''+''" using digit_chars_plain [of "nat k"] by auto
    then show ?thesis using digits_chars [of "nat k"] k False by (simp add: atoi_def itoa_def c)
  qed (use k digits_chars [of "nat (- k)"] digit_chars_some in \<open>simp add: atoi_def itoa_def\<close>)
qed

lemma last_hash_key: "CHR ''#'' \<notin> set t \<Longrightarrow> last_hash (s @ CHR ''#'' # t) = Some (length s)"
  by (simp add: last_hash_def Let_def dropWhile_append)

lemma key_parses: "in_int64 k \<Longrightarrow> parseEVSEDevice (evseKey s k) = (s, k)"
proof -
  assume k: "in_int64 k"
  have "CHR ''#'' \<notin> set (itoa k)" by (auto simp: itoa_def digit_chars_plain)
  then show ?thesis by (simp add: parseEVSEDevice_def evseKey_def last_hash_key atoi_itoa [OF k])
qed

section \<open>The devices of a plan\<close>

text \<open>A plan is well typed for a site when its commands name the site's devices, each by the command of
  its class.\<close>

definition plan_well_typed :: "SystemState \<Rightarrow> Plan \<Rightarrow> bool" where
  "plan_well_typed st p \<longleftrightarrow>
     set (map bc_Name (BatteryCommands p)) \<subseteq> set (map bs_Name (Batteries st)) \<and>
     set (map sc_Name (SolarCommands p)) \<subseteq> set (map ss_Name (Solar st)) \<and>
     set (map (\<lambda>c. (ec_StationID c, ec_ConnectorID c)) (EVSECommands p)) \<subseteq>
       set (map (\<lambda>e. (es_StationID e, es_ConnectorID e)) (EVSEs st))"

lemma arbitrated_typed:
  assumes "list_all (well_typed (axis_devices st)) (tick_demands st s)"
  shows "bc_Name ` set (arbitrated st s) \<subseteq> bs_Name ` set (Batteries st)"
proof
  fix m
  assume "m \<in> bc_Name ` set (arbitrated st s)"
  then obtain c where c: "c \<in> set (arbitrated st s)" "m = bc_Name c" by blast
  obtain n where n: "c \<in> set (battery_command (resolve_device (tick_demands st s) n) n)"
    using c(1) unfolding arbitrated_def by (rule emitted_only)
  then have "n \<in> set (axis_devices st AxisBatterySetpointW)" using typed_commands(1) [OF assms, of n] by (metis empty_iff empty_set)
  then show "m \<in> bs_Name ` set (Batteries st)"
    using battery_command_name [OF n] c(2) by (simp add: axis_devices_def)
qed

lemma emitted_typed:
  assumes "list_all (well_typed (axis_devices st)) ds"
    and "c \<in> set (SolarCommands (emitCommands (Resolve ds) (empty_plan t)))"
  shows "sc_Name c \<in> ss_Name ` set (Solar st)"
proof -
  have "c \<in> set (concat (map (\<lambda>(n, d). solar_command d n) (Resolve ds)))" using assms(2) by (simp add: emit_fold empty_plan_def)
  then obtain n where n: "c \<in> set (solar_command (resolve_device ds n) n)" by (rule emitted_only)
  then have "sc_Name c = n" by (auto simp: solar_command_def split: option.splits)
  moreover have "n \<in> set (axis_devices st AxisSolarCeilingW)" using typed_commands(2) [OF assms(1), of n] n by (metis empty_iff empty_set)
  ultimately show ?thesis by (simp add: axis_devices_def)
qed

lemma emitted_evse_typed:
  assumes "list_all (well_typed (axis_devices st)) ds"
    and "c \<in> set (EVSECommands (emitCommands (Resolve ds) (empty_plan t)))"
    and "list_all (\<lambda>e. in_int64 (es_ConnectorID e)) (EVSEs st)"
  shows "(ec_StationID c, ec_ConnectorID c) \<in> (\<lambda>e. (es_StationID e, es_ConnectorID e)) ` set (EVSEs st)"
proof -
  have "c \<in> set (concat (map (\<lambda>(n, d). evse_command d n) (Resolve ds)))" using assms(2) by (simp add: emit_fold empty_plan_def)
  then obtain n where n: "c \<in> set (evse_command (resolve_device ds n) n)" by (rule emitted_only)
  then have p: "(ec_StationID c, ec_ConnectorID c) = parseEVSEDevice n" by (auto simp: evse_command_def split: option.splits if_splits)
  have "n \<in> set (axis_devices st AxisEVSECurrentA)" using typed_commands(3) [OF assms(1), of n] n by (metis empty_iff empty_set)
  then obtain e where e: "e \<in> set (EVSEs st)" "n = evseKey (es_StationID e) (es_ConnectorID e)" by (auto simp: axis_devices_def)
  moreover have "in_int64 (es_ConnectorID e)" using assms(3) e(1) by (simp add: list_all_iff)
  ultimately show ?thesis using p key_parses by auto
qed

lemma optimized_typed:
  assumes "list_all (site_rule env cv eco) (constraints s)" and "list_all (\<lambda>e. in_int64 (es_ConnectorID e)) (EVSEs st)"
  shows "plan_well_typed st (snd (Optimize t st s))"
proof -
  have ds: "list_all (well_typed (axis_devices st)) (tick_demands st s)"
    using demand_pass_typed [OF assms(1), of "stack_input (ticked st s) st"]
    by (simp add: tick_demands_def tick_pass_def stack_input_def)
  have "bc_Name ` set (fst (snd (tick_post st s))) \<subseteq> bc_Name ` set (arbitrated st s) \<union> bs_Name ` set (Batteries st)"
    using guard_names [of "stk_tickInterval s" "stack_input (ticked st s) st" "constraints s"] unfolding tick_post_def
    by (metis fst_conv stack_input_def Input.select_convs(1))
  then have b: "set (map bc_Name (BatteryCommands (snd (Optimize t st s)))) \<subseteq> set (map bs_Name (Batteries st))"
    using arbitrated_typed [OF ds] unfolding Optimize_commands by auto
  have "sc_Name (case x of None \<Rightarrow> c | Some y \<Rightarrow> c\<lparr>sc_MRID := cc_MRID y\<rparr>) = sc_Name c" for x :: "CSIPControlState option" and c :: SolarCommand
    by (simp split: option.split)
  then have v: "set (map sc_Name (SolarCommands (snd (Optimize t st s)))) \<subseteq> set (map ss_Name (Solar st))"
    using emitted_typed [OF ds] unfolding Optimize_solar by auto
  have "ec_StationID (case x of None \<Rightarrow> c | Some y \<Rightarrow> c\<lparr>ec_MRID := cc_MRID y\<rparr>) = ec_StationID c \<and>
      ec_ConnectorID (case x of None \<Rightarrow> c | Some y \<Rightarrow> c\<lparr>ec_MRID := cc_MRID y\<rparr>) = ec_ConnectorID c" for x :: "CSIPControlState option" and c :: EVSECommand
    by (simp split: option.split)
  then have "set (map (\<lambda>c. (ec_StationID c, ec_ConnectorID c)) (EVSECommands (snd (Optimize t st s)))) \<subseteq>
      set (map (\<lambda>e. (es_StationID e, es_ConnectorID e)) (EVSEs st))"
    using emitted_evse_typed [OF ds _ assms(2)] unfolding Optimize_evse by (auto simp: comp_def)
  then show ?thesis using b v by (simp add: plan_well_typed_def)
qed

text \<open>
  Property C39: the plans of the shadow stack are well typed. Whatever modes the constraints are in and
  whatever ticks came before, every command of a plan names a device of the site it was made for, a
  battery command a battery, a solar command an inverter, a charging command a station with one of its
  connectors: no rule bounds an axis a device does not have, the protection disconnects packs only, and the
  name the rules give a charging point is split into the same station and connector again.
\<close>

theorem stack_plans_well_typed:
  assumes "list_all (\<lambda>e. in_int64 (es_ConnectorID e)) (EVSEs st)"
  shows "plan_well_typed st (snd (Optimize t st (fst (run_ticks before (shadow_stack env cv plant iv modes socR eco)))))"
  by (rule optimized_typed [OF site_rules_run [OF shadow_stack_rules] assms])

theorem stack_plans_well_typed_witness:
  "plan_well_typed (ordered 3000) (snd (Optimize 2 (ordered 3000)
     (fst (run_ticks [(1, capped_export 500)] (shadow_stack home_env (\<lambda>_. 0) ex_site 0 (\<lambda>_. ModeShadow) (Fin 20) ex_eco)))))"
  by (rule stack_plans_well_typed) (simp add: ordered_def garage_def in_int64_def)

end
