(* ===== verification/ShadowWrapper.thy ===== *)
theory ShadowWrapper
  imports StackEconomics Optimizer
begin

text \<open>
  internal/orchestrator/constraint/shadow.go: the wrapper that runs the candidate stack beside the
  optimizer, compares the two plans axis by axis, and composes the axes of active constraints into the
  plan that is actuated. Both optimizers are parameters: a legacy optimizer always gives a plan, a
  candidate may panic (\<open>None\<close>), which the wrapper catches and latches. The texts of a divergence are
  kept as the values they print.
\<close>

section \<open>Tolerances and divergences\<close>

record Tolerances =
  WattAbs :: f64
  WattFrac :: f64
  tol_CurrentA :: f64
  BreachDebounceTicks :: int

definition DefaultTolerances :: Tolerances where
  "DefaultTolerances = \<lparr>WattAbs = Fin 150, WattFrac = fl (5 / 100), tol_CurrentA = fl (5 / 10), BreachDebounceTicks = 2\<rparr>"

definition wattsAgree :: "Tolerances \<Rightarrow> f64 \<Rightarrow> f64 \<Rightarrow> bool" where
  "wattsAgree tol legacy candidate =
     (let band = fmax (WattAbs tol) (fmul (WattFrac tol) (fmax (fabs legacy) (fabs candidate)))
      in fle (fabs (fsub legacy candidate)) band)"

datatype Shown = ShownNone | ShownW f64 | ShownA f64 | ShownConnect bool | ShownBreach string

definition fmtW :: "f64 \<Rightarrow> Shown" where
  "fmtW v = (if is_nan v then ShownNone else ShownW v)"

definition fmtConnect :: "bool option \<Rightarrow> Shown" where
  "fmtConnect c = (case c of None \<Rightarrow> ShownNone | Some b \<Rightarrow> ShownConnect b)"

record AxisDivergence =
  ad_Device :: string
  ad_Axis :: string
  ad_Legacy :: Shown
  ad_Candidate :: Shown
  ad_Delta :: "f64 option"
  ad_Author :: string

definition one_sided :: "string \<Rightarrow> string \<Rightarrow> Shown \<Rightarrow> Shown \<Rightarrow> AxisDivergence" where
  "one_sided device axis l c =
     \<lparr>ad_Device = device, ad_Axis = axis, ad_Legacy = l, ad_Candidate = c, ad_Delta = None, ad_Author = ''''\<rparr>"

definition wattAxis :: "string \<Rightarrow> Axis \<Rightarrow> f64 \<Rightarrow> f64 \<Rightarrow> AxisDivergence" where
  "wattAxis device axis legacy candidate =
     (one_sided device (Axis_String axis) (fmtW legacy) (fmtW candidate))\<lparr>ad_Delta := Some (fsub candidate legacy)\<rparr>"

section \<open>Differences of two plans\<close>

definition diffSolar :: "Tolerances \<Rightarrow> Plan \<Rightarrow> Plan \<Rightarrow> AxisDivergence list" where
  "diffSolar tol legacy candidate =
     (let ceil = fold (\<lambda>c m. m(sc_Name c \<mapsto> sc_CurtailToW c)) (SolarCommands legacy) Map.empty in
      concat (map (\<lambda>c.
        if is_nan (sc_CurtailToW c) then []
        else case ceil (sc_Name c) of
               Some lv \<Rightarrow>
                 if \<not> is_nan lv
                 then (if wattsAgree tol lv (sc_CurtailToW c) then [] else [wattAxis (sc_Name c) AxisSolarCeilingW lv (sc_CurtailToW c)])
                 else [one_sided (sc_Name c) (Axis_String AxisSolarCeilingW) ShownNone (fmtW (sc_CurtailToW c))]
             | None \<Rightarrow> [one_sided (sc_Name c) (Axis_String AxisSolarCeilingW) ShownNone (fmtW (sc_CurtailToW c))])
        (SolarCommands candidate)))"

definition diff_setpoint :: "Tolerances \<Rightarrow> BatteryCommand option \<Rightarrow> BatteryCommand \<Rightarrow> AxisDivergence list" where
  "diff_setpoint tol lb c =
     (if is_nan (bc_SetpointW c) then []
      else case lb of
             Some l \<Rightarrow>
               if \<not> is_nan (bc_SetpointW l)
               then (if wattsAgree tol (bc_SetpointW l) (bc_SetpointW c) then []
                     else [wattAxis (bc_Name c) AxisBatterySetpointW (bc_SetpointW l) (bc_SetpointW c)])
               else [one_sided (bc_Name c) (Axis_String AxisBatterySetpointW) ShownNone (fmtW (bc_SetpointW c))]
           | None \<Rightarrow> [one_sided (bc_Name c) (Axis_String AxisBatterySetpointW) ShownNone (fmtW (bc_SetpointW c))])"

definition diff_connect :: "BatteryCommand option \<Rightarrow> BatteryCommand \<Rightarrow> AxisDivergence list" where
  "diff_connect lb c =
     (let l = (case lb of None \<Rightarrow> None | Some x \<Rightarrow> bc_Connect x) in
      if bc_Connect c \<noteq> None \<and> l \<noteq> bc_Connect c
      then [one_sided (bc_Name c) (Axis_String AxisConnect) (fmtConnect l) (fmtConnect (bc_Connect c))] else [])"

definition diffBattery :: "Tolerances \<Rightarrow> Plan \<Rightarrow> Plan \<Rightarrow> AxisDivergence list" where
  "diffBattery tol legacy candidate =
     (let leg = snapshotBatteryCommands (BatteryCommands legacy) in
      concat (map (\<lambda>c. diff_setpoint tol (leg (bc_Name c)) c @ diff_connect (leg (bc_Name c)) c) (BatteryCommands candidate)))"

definition diffEVSE :: "Tolerances \<Rightarrow> Plan \<Rightarrow> Plan \<Rightarrow> AxisDivergence list" where
  "diffEVSE tol legacy candidate =
     (let leg = fold (\<lambda>c m. m((ec_StationID c, ec_ConnectorID c) \<mapsto> ec_MaxCurrentA c)) (EVSECommands legacy) Map.empty in
      concat (map (\<lambda>c.
        let dev = evseKey (ec_StationID c) (ec_ConnectorID c) in
        case leg (ec_StationID c, ec_ConnectorID c) of
          Some lv \<Rightarrow>
            if fle (fabs (fsub lv (ec_MaxCurrentA c))) (tol_CurrentA tol) then []
            else [(one_sided dev (Axis_String AxisEVSECurrentA) (ShownA lv) (ShownA (ec_MaxCurrentA c)))
                    \<lparr>ad_Delta := Some (fsub (ec_MaxCurrentA c) lv)\<rparr>]
        | None \<Rightarrow> [one_sided dev (Axis_String AxisEVSECurrentA) ShownNone (ShownA (ec_MaxCurrentA c))])
        (EVSECommands candidate)))"

text \<open>The breach axis, with the count of consecutive ticks on which only the candidate sees a breach.\<close>

definition diffBreach :: "Tolerances \<Rightarrow> Plan \<Rightarrow> Plan \<Rightarrow> int \<Rightarrow> int \<times> AxisDivergence option" where
  "diffBreach tol legacy candidate mismatch =
     (case Breach candidate of
        None \<Rightarrow> (0, None)
      | Some c \<Rightarrow>
          (case Breach legacy of
             Some l \<Rightarrow>
               (0, if br_LimitType l = br_LimitType c then None
                   else Some (one_sided ''grid'' ''breach'' (ShownBreach (br_LimitType l)) (ShownBreach (br_LimitType c))))
           | None \<Rightarrow>
               let m = mismatch + 1
               in (m, if m \<le> BreachDebounceTicks tol then None
                      else Some (one_sided ''grid'' ''breach'' ShownNone (ShownBreach (br_LimitType c))))))"

section \<open>The snapshot of a divergence record\<close>

definition nanPtr :: "f64 \<Rightarrow> f64 option" where
  "nanPtr v = (if is_nan v then None else Some v)"

record BatterySnap =
  bn_Name :: string
  bn_PowerW :: f64
  bn_SOC :: "f64 option"
  bn_Connected :: bool

record SolarSnap =
  sn_Name :: string
  sn_PowerW :: f64
  sn_Connected :: bool

record EVSESnap =
  en_StationID :: string
  en_ConnectorID :: int
  en_PowerW :: f64
  en_SessionActive :: bool

record StateSnapshot =
  GridNetW :: "f64 option"
  snap_ImportLimitW :: "f64 option"
  snap_ExportLimitW :: "f64 option"
  snap_MaxLimitW :: "f64 option"
  CSIP :: string
  snap_Batteries :: "BatterySnap list"
  snap_Solar :: "SolarSnap list"
  snap_EVSEs :: "EVSESnap list"

definition snapshot :: "SystemState \<Rightarrow> StateSnapshot" where
  "snapshot st =
     \<lparr>GridNetW = nanPtr (NetW (Grid st)), snap_ImportLimitW = nanPtr (ImportLimitW (Grid st)),
      snap_ExportLimitW = nanPtr (ExportLimitW (Grid st)), snap_MaxLimitW = nanPtr (MaxLimitW (Grid st)),
      CSIP = (case CSIPControl st of None \<Rightarrow> '''' | Some c \<Rightarrow> cc_Source c @ ''('' @ cc_MRID c @ '')''),
      snap_Batteries = map (\<lambda>b. \<lparr>bn_Name = bs_Name b, bn_PowerW = bs_PowerW b, bn_SOC = nanPtr (bs_SOC b), bn_Connected = bs_Connected b\<rparr>)
                         (Batteries st),
      snap_Solar = map (\<lambda>s. \<lparr>sn_Name = ss_Name s, sn_PowerW = ss_PowerW s, sn_Connected = ss_Connected s\<rparr>) (Solar st),
      snap_EVSEs = map (\<lambda>e. \<lparr>en_StationID = es_StationID e, en_ConnectorID = es_ConnectorID e, en_PowerW = es_PowerW e,
                              en_SessionActive = es_SessionActive e\<rparr>) (EVSEs st)\<rparr>"

record Divergence =
  dv_Ts :: int64
  dv_Axes :: "AxisDivergence list"
  dv_State :: StateSnapshot
  CandidateSessions :: "string list"
  Total :: "64 word"
  Suppressed_count :: "64 word"

section \<open>The wrapper\<close>

text \<open>\<open>active\<close> is the map of active constraints as its entries; the counters are the code's uint64.
  A counter of a map starts at 0 when its key is first used.\<close>

record Wrapper =
  tol :: Tolerances
  rateLimit :: duration
  divergence_count :: "64 word"
  safetyCount :: "64 word"
  panics :: "64 word"
  latched :: bool
  axisCounts :: "string \<Rightarrow> 64 word"
  active :: "(string \<times> bool) list"
  legacyDropped :: "string \<Rightarrow> 64 word"
  activeFallback :: "64 word"
  breachMismatch :: int
  lastEmit :: "string \<rightharpoonup> gotime"
  suppressed :: "string \<Rightarrow> 64 word"

definition Wrap :: "Tolerances option \<Rightarrow> duration \<Rightarrow> (string \<times> bool) list \<Rightarrow> Wrapper" where
  "Wrap t rl act =
     \<lparr>tol = (case t of None \<Rightarrow> DefaultTolerances | Some x \<Rightarrow> x), rateLimit = (if rl \<le> 0 then 60 * second else rl),
      divergence_count = 0, safetyCount = 0, panics = 0, latched = False, axisCounts = (\<lambda>_. 0), active = act,
      legacyDropped = (\<lambda>_. 0), activeFallback = 0, breachMismatch = 0, lastEmit = Map.empty, suppressed = (\<lambda>_. 0)\<rparr>"

definition is_active :: "Wrapper \<Rightarrow> string \<Rightarrow> bool" where
  "is_active w n \<longleftrightarrow> map_of (active w) n = Some True"

definition bumpAxis :: "string \<Rightarrow> Wrapper \<Rightarrow> Wrapper" where
  "bumpAxis key w = w\<lparr>axisCounts := (axisCounts w)(key := axisCounts w key + 1)\<rparr>"

definition bumpDropped :: "string \<Rightarrow> Wrapper \<Rightarrow> Wrapper" where
  "bumpDropped axis w = w\<lparr>legacyDropped := (legacyDropped w)(axis := legacyDropped w axis + 1)\<rparr>"

definition tripLatch :: "Wrapper \<Rightarrow> Wrapper" where
  "tripLatch w = w\<lparr>panics := panics w + 1, latched := True\<rparr>"

definition breachOwner :: "string \<Rightarrow> string" where
  "breachOwner t =
     (if t = ''export'' then ''export'' else if t = ''generation'' then ''gen'' else if t = ''import'' then ''import''
      else if t = ''generation-aus'' then ''gen-aus'' else if t = ''load-aus'' then ''load-aus'' else '''')"

definition attributeAndFilter :: "Wrapper \<Rightarrow> (string \<rightharpoonup> string) \<Rightarrow> AxisDivergence list \<Rightarrow> AxisDivergence list" where
  "attributeAndFilter w authors axes =
     concat (map (\<lambda>a. case authors (ad_Device a @ ''/'' @ ad_Axis a) of
                        Some src \<Rightarrow> if src = '''' then [a] else if is_active w src then [] else [a\<lparr>ad_Author := src\<rparr>]
                      | None \<Rightarrow> [a]) axes)"

fun join_with :: "string \<Rightarrow> string list \<Rightarrow> string" where
  "join_with sep [] = ''''"
| "join_with sep [x] = x"
| "join_with sep (x # y # xs) = x @ sep @ join_with sep (y # xs)"

definition signature :: "AxisDivergence list \<Rightarrow> string" where
  "signature axes = join_with '','' (sort (map (\<lambda>a. ad_Device a @ ''/'' @ ad_Axis a) axes))"

definition timestampOf :: "Plan \<Rightarrow> Plan \<Rightarrow> gotime \<Rightarrow> int64" where
  "timestampOf legacy candidate now =
     (if \<not> is_zero_time (pl_Timestamp legacy) then time_unix (pl_Timestamp legacy)
      else if \<not> is_zero_time (pl_Timestamp candidate) then time_unix (pl_Timestamp candidate)
      else time_unix now)"

definition allow :: "string \<Rightarrow> gotime \<Rightarrow> Wrapper \<Rightarrow> bool \<times> Wrapper" where
  "allow sig now w =
     (let limited = (case lastEmit w sig of None \<Rightarrow> False | Some l \<Rightarrow> time_sub now l < rateLimit w)
      in if limited then (False, w) else (True, w\<lparr>lastEmit := (lastEmit w)(sig \<mapsto> now)\<rparr>))"

text \<open>One comparison: the breach axis first, which counts every tick, then the commands, then the
  counters and the rate-limited record.\<close>

definition diverging :: "Wrapper \<Rightarrow> Plan \<Rightarrow> Plan \<Rightarrow> (string \<rightharpoonup> string) \<Rightarrow> int \<times> AxisDivergence list" where
  "diverging w legacy candidate authors =
     (let (m, bd) = diffBreach (tol w) legacy candidate (breachMismatch w);
          keep = (case Breach candidate of None \<Rightarrow> True | Some c \<Rightarrow> \<not> is_active w (breachOwner (br_LimitType c)));
          breach = (case bd of None \<Rightarrow> [] | Some d \<Rightarrow> if keep then [d] else [])
      in (m, attributeAndFilter w authors
               (breach @ diffSolar (tol w) legacy candidate @ diffBattery (tol w) legacy candidate @ diffEVSE (tol w) legacy candidate)))"

definition count_divergence :: "string \<Rightarrow> AxisDivergence list \<Rightarrow> Wrapper \<Rightarrow> Wrapper" where
  "count_divergence prefx axes w =
     fold (\<lambda>a. bumpAxis (prefx @ ad_Axis a)) axes
       (if prefx \<noteq> '''' then w\<lparr>safetyCount := safetyCount w + 1\<rparr> else w\<lparr>divergence_count := divergence_count w + 1\<rparr>)"

definition compare_plans ::
  "SystemState \<Rightarrow> Plan \<Rightarrow> Plan \<Rightarrow> string \<Rightarrow> (string \<rightharpoonup> string) \<Rightarrow> string list \<Rightarrow> gotime \<Rightarrow> Wrapper \<Rightarrow> Wrapper \<times> Divergence list" where
  "compare_plans st legacy candidate prefx authors names now w0 =
     (let (m, axes) = diverging w0 legacy candidate authors;
          w = w0\<lparr>breachMismatch := m\<rparr>
      in if axes = [] then (w, [])
         else let w = count_divergence prefx axes w;
                  sig = prefx @ signature axes;
                  (ok, w) = allow sig now w
              in if \<not> ok then (w\<lparr>suppressed := (suppressed w)(sig := suppressed w sig + 1)\<rparr>, [])
                 else (w\<lparr>suppressed := (suppressed w)(sig := 0)\<rparr>,
                       [\<lparr>dv_Ts = timestampOf legacy candidate now, dv_Axes = axes, dv_State = snapshot st, CandidateSessions = names,
                         Total = (if prefx \<noteq> '''' then safetyCount w else divergence_count w), Suppressed_count = suppressed w sig\<rparr>]))"

section \<open>Composition of active axes\<close>

definition ownsActive :: "Wrapper \<Rightarrow> (string \<rightharpoonup> string) \<Rightarrow> string \<Rightarrow> Axis \<Rightarrow> bool" where
  "ownsActive w authors device axis \<longleftrightarrow>
     (case authors (axisKey device axis) of None \<Rightarrow> False | Some src \<Rightarrow> src \<noteq> '''' \<and> is_active w src)"

fun composeSolarAxis :: "SolarCommand list \<Rightarrow> SolarCommand \<Rightarrow> Wrapper \<Rightarrow> SolarCommand list \<times> Wrapper" where
  "composeSolarAxis [] cmd w = ([cmd], w)"
| "composeSolarAxis (d # ds) cmd w =
     (if sc_Name d = sc_Name cmd
      then (d\<lparr>sc_CurtailToW := sc_CurtailToW cmd\<rparr> # ds, bumpDropped (Axis_String AxisSolarCeilingW) w)
      else let (ds', w') = composeSolarAxis ds cmd w in (d # ds', w'))"

text \<open>The setpoint and the connect axis of one battery, when they are owned.\<close>

definition setpointOwned :: "Wrapper \<Rightarrow> (string \<rightharpoonup> string) \<Rightarrow> BatteryCommand \<Rightarrow> bool" where
  "setpointOwned w authors cmd \<longleftrightarrow> \<not> is_nan (bc_SetpointW cmd) \<and> ownsActive w authors (bc_Name cmd) AxisBatterySetpointW"

definition connectOwned :: "Wrapper \<Rightarrow> (string \<rightharpoonup> string) \<Rightarrow> BatteryCommand \<Rightarrow> bool" where
  "connectOwned w authors cmd \<longleftrightarrow> bc_Connect cmd \<noteq> None \<and> ownsActive w authors (bc_Name cmd) AxisConnect"

definition overwrite_battery :: "bool \<Rightarrow> bool \<Rightarrow> BatteryCommand \<Rightarrow> BatteryCommand \<Rightarrow> BatteryCommand" where
  "overwrite_battery sp cn cmd d =
     (let d = (if sp then d\<lparr>bc_SetpointW := bc_SetpointW cmd\<rparr> else d) in if cn then d\<lparr>bc_Connect := bc_Connect cmd\<rparr> else d)"

fun overwrite_first :: "bool \<Rightarrow> bool \<Rightarrow> BatteryCommand list \<Rightarrow> BatteryCommand \<Rightarrow> Wrapper \<Rightarrow> BatteryCommand list \<times> Wrapper" where
  "overwrite_first sp cn [] cmd w =
     ([overwrite_battery sp cn cmd \<lparr>bc_Name = bc_Name cmd, bc_SetpointW = NaN, bc_Connect = None, bc_MRID = ''''\<rparr>], w)"
| "overwrite_first sp cn (d # ds) cmd w =
     (if bc_Name d = bc_Name cmd
      then (overwrite_battery sp cn cmd d # ds,
            (let w = (if sp then bumpDropped (Axis_String AxisBatterySetpointW) w else w)
             in if cn then bumpDropped (Axis_String AxisConnect) w else w))
      else let (ds', w') = overwrite_first sp cn ds cmd w in (d # ds', w'))"

definition composeBatteryAxes ::
  "BatteryCommand list \<Rightarrow> BatteryCommand \<Rightarrow> (string \<rightharpoonup> string) \<Rightarrow> Wrapper \<Rightarrow> BatteryCommand list \<times> Wrapper" where
  "composeBatteryAxes dst cmd authors w =
     (if \<not> setpointOwned w authors cmd \<and> \<not> connectOwned w authors cmd then (dst, w)
      else overwrite_first (setpointOwned w authors cmd) (connectOwned w authors cmd) dst cmd w)"

fun overwrite_evse :: "EVSECommand list \<Rightarrow> EVSECommand \<Rightarrow> Wrapper \<Rightarrow> EVSECommand list \<times> Wrapper" where
  "overwrite_evse [] cmd w = ([cmd], w)"
| "overwrite_evse (d # ds) cmd w =
     (if ec_StationID d = ec_StationID cmd \<and> ec_ConnectorID d = ec_ConnectorID cmd
      then (d\<lparr>ec_MaxCurrentA := ec_MaxCurrentA cmd\<rparr> # ds, bumpDropped (Axis_String AxisEVSECurrentA) w)
      else let (ds', w') = overwrite_evse ds cmd w in (d # ds', w'))"

definition composeEVSEAxis ::
  "EVSECommand list \<Rightarrow> EVSECommand \<Rightarrow> (string \<rightharpoonup> string) \<Rightarrow> Wrapper \<Rightarrow> EVSECommand list \<times> Wrapper" where
  "composeEVSEAxis dst cmd authors w =
     (if \<not> ownsActive w authors (evseKey (ec_StationID cmd) (ec_ConnectorID cmd)) AxisEVSECurrentA then (dst, w)
      else overwrite_evse dst cmd w)"

definition composeBreach :: "ComplianceBreach option \<Rightarrow> ComplianceBreach option \<Rightarrow> Wrapper \<Rightarrow> ComplianceBreach option \<times> Wrapper" where
  "composeBreach legacy candidate w =
     (let owned = (\<lambda>b. is_active w (breachOwner (br_LimitType b)));
          (l, w) = (case legacy of Some b \<Rightarrow> if owned b then (None, bumpDropped ''breach'' w) else (legacy, w) | None \<Rightarrow> (None, w));
          c = (case candidate of Some b \<Rightarrow> if owned b then candidate else None | None \<Rightarrow> None)
      in (case (l, c) of
            (None, _) \<Rightarrow> c
          | (_, None) \<Rightarrow> l
          | (Some x, Some y) \<Rightarrow> if fle (br_ShortfallW x) (br_ShortfallW y) then c else l, w))"

definition compose_solar :: "(string \<rightharpoonup> string) \<Rightarrow> SolarCommand \<Rightarrow> SolarCommand list \<times> Wrapper \<Rightarrow> SolarCommand list \<times> Wrapper" where
  "compose_solar authors c acc =
     (let (dst, w) = acc in
      if is_nan (sc_CurtailToW c) \<or> \<not> ownsActive w authors (sc_Name c) AxisSolarCeilingW then acc
      else composeSolarAxis dst c w)"

definition compose :: "Plan \<Rightarrow> Plan \<Rightarrow> (string \<rightharpoonup> string) \<Rightarrow> Wrapper \<Rightarrow> Plan \<times> Wrapper" where
  "compose legacy candidate authors w =
     (let (sol, w) = fold (compose_solar authors) (SolarCommands candidate) (SolarCommands legacy, w);
          (bat, w) = fold (\<lambda>c (dst, w). composeBatteryAxes dst c authors w) (BatteryCommands candidate) (BatteryCommands legacy, w);
          (evs, w) = fold (\<lambda>c (dst, w). composeEVSEAxis dst c authors w) (EVSECommands candidate) (EVSECommands legacy, w);
          (b, w) = composeBreach (Breach legacy) (Breach candidate) w
      in (legacy\<lparr>SolarCommands := sol, BatteryCommands := bat, EVSECommands := evs, Breach := b\<rparr>, w))"

section \<open>Running the two optimizers\<close>

text \<open>The operations of the two interfaces: a tick, the safety evaluation, and what only a stack has, its
  authors and the names of its constraints. The operations of the candidate may panic.\<close>

record 'l legacy_ops =
  leg_Optimize :: "SystemState \<Rightarrow> 'l \<Rightarrow> 'l \<times> Plan"
  leg_EvaluateSafety :: "SystemState \<Rightarrow> 'l \<Rightarrow> 'l \<times> Plan"

record 'c candidate_ops =
  cand_Optimize :: "SystemState \<Rightarrow> 'c \<Rightarrow> 'c \<times> Plan option"
  cand_EvaluateSafety :: "SystemState \<Rightarrow> 'c \<Rightarrow> 'c \<times> Plan option"
  cand_AxisAuthors :: "'c \<Rightarrow> string \<rightharpoonup> string"
  cand_SessionNames :: "'c \<Rightarrow> string list"

record ('l, 'c) shadowed =
  wrapper :: Wrapper
  legacy :: 'l
  candidate :: 'c

definition wrapper_Optimize ::
  "'l legacy_ops \<Rightarrow> 'c candidate_ops \<Rightarrow> gotime \<Rightarrow> SystemState \<Rightarrow> ('l, 'c) shadowed \<Rightarrow> ('l, 'c) shadowed \<times> Plan \<times> Divergence list" where
  "wrapper_Optimize lo co now st s =
     (let (l, lp) = leg_Optimize lo st (legacy s); w = wrapper s; s = s\<lparr>legacy := l\<rparr> in
      if active w = [] then
        (if latched w then (s, lp, [])
         else case cand_Optimize co st (candidate s) of
                (c, None) \<Rightarrow> (s\<lparr>candidate := c, wrapper := tripLatch w\<rparr>, lp, [])
              | (c, Some cp) \<Rightarrow>
                  let (w, ds) = compare_plans st lp cp '''' (cand_AxisAuthors co c) (cand_SessionNames co c) now w
                  in (s\<lparr>candidate := c, wrapper := w\<rparr>, lp, ds))
      else if latched w then (s\<lparr>wrapper := w\<lparr>activeFallback := activeFallback w + 1\<rparr>\<rparr>, lp, [])
      else case cand_Optimize co st (candidate s) of
             (c, None) \<Rightarrow> (s\<lparr>candidate := c, wrapper := (tripLatch w)\<lparr>activeFallback := activeFallback w + 1\<rparr>\<rparr>, lp, [])
           | (c, Some cp) \<Rightarrow>
               let authors = cand_AxisAuthors co c;
                   (p, w) = compose lp cp authors w;
                   (w, ds) = compare_plans st lp cp '''' authors (cand_SessionNames co c) now w
               in (s\<lparr>candidate := c, wrapper := w\<rparr>, p, ds))"

definition wrapper_EvaluateSafety ::
  "'l legacy_ops \<Rightarrow> 'c candidate_ops \<Rightarrow> gotime \<Rightarrow> SystemState \<Rightarrow> ('l, 'c) shadowed \<Rightarrow> ('l, 'c) shadowed \<times> Plan \<times> Divergence list" where
  "wrapper_EvaluateSafety lo co now st s =
     (let (l, lp) = leg_EvaluateSafety lo st (legacy s); w = wrapper s; s = s\<lparr>legacy := l\<rparr> in
      if latched w then (s, lp, [])
      else case cand_EvaluateSafety co st (candidate s) of
             (c, None) \<Rightarrow> (s\<lparr>candidate := c, wrapper := tripLatch w\<rparr>, lp, [])
           | (c, Some cp) \<Rightarrow>
               let (w, ds) = compare_plans st lp cp ''safety:'' Map.empty (cand_SessionNames co c) now w
               in (s\<lparr>candidate := c, wrapper := w\<rparr>, lp, ds))"

section \<open>The hub's two optimizers\<close>

definition default_ops :: "planner_env \<Rightarrow> DefaultOptimizer legacy_ops" where
  "default_ops env =
     \<lparr>leg_Optimize = DefaultOptimizer_Optimize env, leg_EvaluateSafety = (\<lambda>st opt. (opt, DefaultOptimizer_EvaluateSafety opt st))\<rparr>"

text \<open>A stack has one clock, read when a state has no time of its own. Its rules do not panic.\<close>

definition stack_ops :: "gotime \<Rightarrow> 's Stack candidate_ops" where
  "stack_ops clock =
     \<lparr>cand_Optimize = (\<lambda>st s. let (s', p) = Optimize clock st s in (s', Some p)),
      cand_EvaluateSafety = (\<lambda>st s. (s, Some (EvaluateSafety clock st s))),
      cand_AxisAuthors = lastAuthors, cand_SessionNames = SessionNames\<rparr>"

definition active_entries :: "(string \<Rightarrow> ConstraintMode) \<Rightarrow> (string \<times> string \<times> 's Constraint) list \<Rightarrow> (string \<times> bool) list" where
  "active_entries modes cs = map (\<lambda>(_, n, _). (n, True)) (filter (\<lambda>(key, _, _). modes key = ModeActive) cs)"

definition hub_shadowed ::
  "planner_env \<Rightarrow> (f64 \<Rightarrow> int) \<Rightarrow> Plant \<Rightarrow> duration \<Rightarrow> (string \<Rightarrow> ConstraintMode) \<Rightarrow> EconomicsConstraint \<Rightarrow> DefaultOptimizer \<Rightarrow>
     (DefaultOptimizer, rule_states Stack) shadowed" where
  "hub_shadowed env cv plant iv modes eco opt =
     \<lparr>wrapper = Wrap None 0 (active_entries modes (site_constraints env cv (SOCReserve opt) eco)), legacy = opt,
      candidate = shadow_stack env cv plant iv modes (SOCReserve opt) eco\<rparr>"

end
