(* ===== verification/ShadowProps.thy ===== *)
theory ShadowProps
  imports ShadowWrapper GatewayProps
begin

text \<open>
  What the wrapper around the optimizer guarantees: without an active constraint, or after a panic of
  the candidate, the plan is the optimizer's; with active constraints each axis has one author; and how
  breaches and divergences are reported.
\<close>

section \<open>Sequences of ticks\<close>

text \<open>The engine alternates full ticks and passes of the fast protection loop.\<close>

datatype hub_event = EconTick gotime SystemState | FastTick gotime SystemState

fun shadow_step ::
  "'l legacy_ops \<Rightarrow> 'c candidate_ops \<Rightarrow> hub_event \<Rightarrow> ('l, 'c) shadowed \<Rightarrow> ('l, 'c) shadowed \<times> Plan \<times> Divergence list" where
  "shadow_step lo co (EconTick now st) s = wrapper_Optimize lo co now st s"
| "shadow_step lo co (FastTick now st) s = wrapper_EvaluateSafety lo co now st s"

fun shadow_run ::
  "'l legacy_ops \<Rightarrow> 'c candidate_ops \<Rightarrow> hub_event list \<Rightarrow> ('l, 'c) shadowed \<Rightarrow> ('l, 'c) shadowed \<times> (Plan \<times> Divergence list) list" where
  "shadow_run lo co [] s = (s, [])"
| "shadow_run lo co (x # xs) s =
     (let (s', r) = shadow_step lo co x s; (s'', rs) = shadow_run lo co xs s' in (s'', r # rs))"

fun legacy_step :: "'l legacy_ops \<Rightarrow> hub_event \<Rightarrow> 'l \<Rightarrow> 'l \<times> Plan" where
  "legacy_step lo (EconTick now st) l = leg_Optimize lo st l"
| "legacy_step lo (FastTick now st) l = leg_EvaluateSafety lo st l"

fun legacy_run :: "'l legacy_ops \<Rightarrow> hub_event list \<Rightarrow> 'l \<Rightarrow> 'l \<times> Plan list" where
  "legacy_run lo [] l = (l, [])"
| "legacy_run lo (x # xs) l = (let (l', p) = legacy_step lo x l; (l'', ps) = legacy_run lo xs l' in (l'', p # ps))"

section \<open>The counters do not decide\<close>

text \<open>What the plan depends on.\<close>

definition same_setup :: "Wrapper \<Rightarrow> Wrapper \<Rightarrow> bool" where
  "same_setup v w \<longleftrightarrow> active v = active w \<and> latched v = latched w \<and> tol v = tol w \<and> rateLimit v = rateLimit w"

lemma same_setup_refl [simp]: "same_setup w w"
  by (simp add: same_setup_def)

lemma same_setup_trans: "same_setup u v \<Longrightarrow> same_setup v w \<Longrightarrow> same_setup u w"
  by (simp add: same_setup_def)

lemma bump_setup [simp]: "same_setup (bumpAxis k w) w" "same_setup (bumpDropped k w) w"
  by (simp_all add: same_setup_def bumpAxis_def bumpDropped_def)

lemma count_setup: "same_setup (count_divergence p axes w) w"
proof -
  have "same_setup (fold (\<lambda>a. bumpAxis (f a)) axes v) v" for f :: "AxisDivergence \<Rightarrow> string" and v
  proof (induction axes arbitrary: v)
    case (Cons a axes)
    then show ?case using same_setup_trans [OF Cons.IH bump_setup(1)] by simp
  qed simp
  then show ?thesis unfolding count_divergence_def by (rule same_setup_trans) (simp add: same_setup_def)
qed

lemma compare_setup: "same_setup (fst (compare_plans st l c p a ns now w)) w"
proof -
  obtain m axes where d: "diverging w l c a = (m, axes)" by fastforce
  have "same_setup (count_divergence p axes (w\<lparr>breachMismatch := m\<rparr>)) w"
    using same_setup_trans [OF count_setup] by (simp add: same_setup_def)
  then show ?thesis by (simp add: compare_plans_def d allow_def Let_def same_setup_def split: option.split)
qed

lemma composeSolar_setup: "same_setup (snd (composeSolarAxis ds c w)) w"
  by (induction ds) (simp_all add: case_prod_unfold Let_def)

lemma overwrite_first_setup: "same_setup (snd (overwrite_first sp cn ds c w)) w"
proof (induction ds)
  case (Cons d ds)
  then show ?case using same_setup_trans [OF bump_setup(2) bump_setup(2)] by (simp add: case_prod_unfold Let_def)
qed simp

lemma overwrite_evse_setup: "same_setup (snd (overwrite_evse ds c w)) w"
  by (induction ds) (simp_all add: case_prod_unfold Let_def)

lemma compose_folds_setup:
  "same_setup (snd (fold (compose_solar a) cs (ds, w))) w"
  "same_setup (snd (fold (\<lambda>c (dst, w). composeBatteryAxes dst c a w) bs (es, w))) w"
  "same_setup (snd (fold (\<lambda>c (dst, w). composeEVSEAxis dst c a w) vs (fs, w))) w"
proof -
  show "same_setup (snd (fold (compose_solar a) cs (ds, w))) w"
  proof (induction cs arbitrary: ds w)
    case (Cons c cs)
    then show ?case using same_setup_trans [OF Cons.IH composeSolar_setup [of ds c w]]
      by (cases "composeSolarAxis ds c w") (simp add: compose_solar_def)
  qed simp
  show "same_setup (snd (fold (\<lambda>c (dst, w). composeBatteryAxes dst c a w) bs (es, w))) w"
  proof (induction bs arbitrary: es w)
    case (Cons c cs)
    have "same_setup (snd (composeBatteryAxes es c a w)) w" by (simp add: composeBatteryAxes_def overwrite_first_setup)
    then show ?case using same_setup_trans [OF Cons.IH] by (cases "composeBatteryAxes es c a w") simp
  qed simp
  show "same_setup (snd (fold (\<lambda>c (dst, w). composeEVSEAxis dst c a w) vs (fs, w))) w"
  proof (induction vs arbitrary: fs w)
    case (Cons c cs)
    have "same_setup (snd (composeEVSEAxis fs c a w)) w" by (simp add: composeEVSEAxis_def overwrite_evse_setup)
    then show ?case using same_setup_trans [OF Cons.IH] by (cases "composeEVSEAxis fs c a w") simp
  qed simp
qed

section \<open>Plans of the optimizer alone\<close>

definition keeps_setup :: "Wrapper \<Rightarrow> Wrapper \<Rightarrow> bool" where
  "keeps_setup v w \<longleftrightarrow> active v = active w \<and> (latched w \<longrightarrow> latched v)"

lemma keeps_setup_simps [simp]:
  "keeps_setup w w" "keeps_setup (tripLatch w) w" "keeps_setup (w\<lparr>activeFallback := n\<rparr>) w"
  "keeps_setup (tripLatch w\<lparr>activeFallback := n\<rparr>) w" "keeps_setup (fst (compare_plans st l c p a ns now w)) w"
  using compare_setup [of st l c p a ns now w] by (simp_all add: keeps_setup_def tripLatch_def same_setup_def)

lemma passive_tick:
  assumes "active (wrapper s) = [] \<or> latched (wrapper s)"
  obtains s' ds where "wrapper_Optimize lo co now st s = (s', snd (leg_Optimize lo st (legacy s)), ds)"
    and "legacy s' = fst (leg_Optimize lo st (legacy s))" and "keeps_setup (wrapper s') (wrapper s)"
proof (cases "latched (wrapper s)")
  case True
  show thesis
    by (rule that [of "s\<lparr>legacy := fst (leg_Optimize lo st (legacy s)),
          wrapper := (if active (wrapper s) = [] then wrapper s else (wrapper s)\<lparr>activeFallback := activeFallback (wrapper s) + 1\<rparr>)\<rparr>" "[]"])
      (use True in \<open>simp_all add: wrapper_Optimize_def case_prod_unfold Let_def\<close>)
next
  case False
  then have a: "active (wrapper s) = []" using assms by simp
  obtain c r where c: "cand_Optimize co st (candidate s) = (c, r)" by force
  show thesis
  proof (cases r)
    case None
    show thesis
      by (rule that [of "s\<lparr>legacy := fst (leg_Optimize lo st (legacy s)), candidate := c, wrapper := tripLatch (wrapper s)\<rparr>" "[]"])
        (use a False c None in \<open>simp_all add: wrapper_Optimize_def case_prod_unfold Let_def\<close>)
  next
    case (Some cp)
    let ?r = "compare_plans st (snd (leg_Optimize lo st (legacy s))) cp '''' (cand_AxisAuthors co c) (cand_SessionNames co c) now (wrapper s)"
    show thesis
      by (rule that [of "s\<lparr>legacy := fst (leg_Optimize lo st (legacy s)), candidate := c, wrapper := fst ?r\<rparr>" "snd ?r"])
        (use a False c Some in \<open>simp_all add: wrapper_Optimize_def case_prod_unfold Let_def\<close>)
  qed
qed

lemma safety_pass:
  obtains s' ds where "wrapper_EvaluateSafety lo co now st s = (s', snd (leg_EvaluateSafety lo st (legacy s)), ds)"
    and "legacy s' = fst (leg_EvaluateSafety lo st (legacy s))" and "keeps_setup (wrapper s') (wrapper s)"
proof (cases "latched (wrapper s)")
  case True
  show thesis
    by (rule that [of "s\<lparr>legacy := fst (leg_EvaluateSafety lo st (legacy s))\<rparr>" "[]"])
      (use True in \<open>simp_all add: wrapper_EvaluateSafety_def case_prod_unfold Let_def\<close>)
next
  case False
  obtain c r where c: "cand_EvaluateSafety co st (candidate s) = (c, r)" by force
  show thesis
  proof (cases r)
    case None
    show thesis
      by (rule that [of "s\<lparr>legacy := fst (leg_EvaluateSafety lo st (legacy s)), candidate := c, wrapper := tripLatch (wrapper s)\<rparr>" "[]"])
        (use False c None in \<open>simp_all add: wrapper_EvaluateSafety_def case_prod_unfold Let_def\<close>)
  next
    case (Some cp)
    let ?r = "compare_plans st (snd (leg_EvaluateSafety lo st (legacy s))) cp ''safety:'' Map.empty (cand_SessionNames co c) now (wrapper s)"
    show thesis
      by (rule that [of "s\<lparr>legacy := fst (leg_EvaluateSafety lo st (legacy s)), candidate := c, wrapper := fst ?r\<rparr>" "snd ?r"])
        (use False c Some in \<open>simp_all add: wrapper_EvaluateSafety_def case_prod_unfold Let_def\<close>)
  qed
qed

lemma passive_step:
  assumes "active (wrapper s) = [] \<or> latched (wrapper s)"
  obtains s' ds where "shadow_step lo co x s = (s', snd (legacy_step lo x (legacy s)), ds)"
    and "legacy s' = fst (legacy_step lo x (legacy s))" and "keeps_setup (wrapper s') (wrapper s)"
proof (cases x)
  case (EconTick now st)
  obtain s' ds where "wrapper_Optimize lo co now st s = (s', snd (leg_Optimize lo st (legacy s)), ds)"
    "legacy s' = fst (leg_Optimize lo st (legacy s))" "keeps_setup (wrapper s') (wrapper s)"
    by (rule passive_tick [OF assms, of lo co now st])
  then show thesis using that [of s' ds] EconTick by simp
next
  case (FastTick now st)
  obtain s' ds where "wrapper_EvaluateSafety lo co now st s = (s', snd (leg_EvaluateSafety lo st (legacy s)), ds)"
    "legacy s' = fst (leg_EvaluateSafety lo st (legacy s))" "keeps_setup (wrapper s') (wrapper s)"
    by (rule safety_pass [of lo co now st s])
  then show thesis using that [of s' ds] FastTick by simp
qed

lemma passive_run:
  assumes "active (wrapper s) = [] \<or> latched (wrapper s)"
  shows "map fst (snd (shadow_run lo co xs s)) = snd (legacy_run lo xs (legacy s))"
  using assms
proof (induction xs arbitrary: s)
  case (Cons x xs)
  obtain s' ds where s: "shadow_step lo co x s = (s', snd (legacy_step lo x (legacy s)), ds)"
    "legacy s' = fst (legacy_step lo x (legacy s))" "keeps_setup (wrapper s') (wrapper s)"
    using passive_step [OF Cons.prems] by metis
  then have "active (wrapper s') = [] \<or> latched (wrapper s')" using Cons.prems by (auto simp: keeps_setup_def)
  then show ?case using Cons.IH [of s'] s(1,2) by (simp add: case_prod_unfold Let_def)
qed simp

text \<open>
  Property C26: a shadowed candidate is invisible. As long as no constraint is active, the plans of
  every sequence of full ticks and fast protection passes are those of the optimizer running alone,
  whatever the candidate plans, and also when it panics.
\<close>

theorem shadow_is_invisible:
  assumes "active (wrapper s) = []"
  shows "map fst (snd (shadow_run lo co xs s)) = snd (legacy_run lo xs (legacy s))"
  using passive_run [of s lo co xs] assms by simp

text \<open>
  A panic of the candidate falls back for good. Whatever constraints are active, from the
  tick on which the candidate panics every plan is the optimizer's own, and the tick is counted as a
  fallback when there are active constraints.
\<close>

theorem candidate_panic_falls_back:
  assumes "cand_Optimize co st (candidate s) = (c, None)" and "\<not> latched (wrapper s)"
  shows "map fst (snd (shadow_run lo co (EconTick now st # xs) s)) = snd (legacy_run lo (EconTick now st # xs) (legacy s)) \<and>
    panics (wrapper (fst (wrapper_Optimize lo co now st s))) = panics (wrapper s) + 1 \<and>
    (active (wrapper s) \<noteq> [] \<longrightarrow> activeFallback (wrapper (fst (wrapper_Optimize lo co now st s))) = activeFallback (wrapper s) + 1)"
proof -
  let ?s = "s\<lparr>legacy := fst (leg_Optimize lo st (legacy s)), candidate := c,
    wrapper := (if active (wrapper s) = [] then tripLatch (wrapper s)
                else (tripLatch (wrapper s))\<lparr>activeFallback := activeFallback (wrapper s) + 1\<rparr>)\<rparr>"
  have s: "wrapper_Optimize lo co now st s = (?s, snd (leg_Optimize lo st (legacy s)), [])"
    using assms by (simp add: wrapper_Optimize_def case_prod_unfold Let_def)
  have "map fst (snd (shadow_run lo co xs ?s)) = snd (legacy_run lo xs (legacy ?s))" by (rule passive_run) (simp add: tripLatch_def)
  then show ?thesis by (simp add: s case_prod_unfold Let_def tripLatch_def)
qed

section \<open>One author per axis\<close>

definition setpoint_in :: "string \<Rightarrow> BatteryCommand list \<Rightarrow> f64" where
  "setpoint_in n cs = (case find (\<lambda>c. bc_Name c = n) cs of None \<Rightarrow> NaN | Some c \<Rightarrow> bc_SetpointW c)"

definition connect_in :: "string \<Rightarrow> BatteryCommand list \<Rightarrow> bool option" where
  "connect_in n cs = (case find (\<lambda>c. bc_Name c = n) cs of None \<Rightarrow> None | Some c \<Rightarrow> bc_Connect c)"

definition ceiling_in :: "string \<Rightarrow> SolarCommand list \<Rightarrow> f64" where
  "ceiling_in n cs = (case find (\<lambda>c. sc_Name c = n) cs of None \<Rightarrow> NaN | Some c \<Rightarrow> sc_CurtailToW c)"

definition current_in :: "string \<Rightarrow> int \<Rightarrow> EVSECommand list \<Rightarrow> f64 option" where
  "current_in n k cs = map_option ec_MaxCurrentA (find (\<lambda>c. ec_StationID c = n \<and> ec_ConnectorID c = k) cs)"

lemma axis_in_simps [simp]:
  "setpoint_in n [] = NaN" "connect_in n [] = None" "ceiling_in n [] = NaN" "current_in n k [] = None"
  "setpoint_in n (c # cs) = (if bc_Name c = n then bc_SetpointW c else setpoint_in n cs)"
  "connect_in n (c # cs) = (if bc_Name c = n then bc_Connect c else connect_in n cs)"
  "ceiling_in n (d # ds) = (if sc_Name d = n then sc_CurtailToW d else ceiling_in n ds)"
  "current_in n k (e # es) = (if ec_StationID e = n \<and> ec_ConnectorID e = k then Some (ec_MaxCurrentA e) else current_in n k es)"
  by (simp_all add: setpoint_in_def connect_in_def ceiling_in_def current_in_def)

lemma axis_in_absent:
  "n \<notin> bc_Name ` set cs \<Longrightarrow> setpoint_in n cs = NaN" "n \<notin> bc_Name ` set cs \<Longrightarrow> connect_in n cs = None"
  by (induction cs) auto

lemma ceiling_in_absent: "n \<notin> sc_Name ` set ds \<Longrightarrow> ceiling_in n ds = NaN"
  by (induction ds) auto

lemma owns_setup: "same_setup v w \<Longrightarrow> ownsActive v a n ax = ownsActive w a n ax"
  by (simp add: ownsActive_def is_active_def same_setup_def cong: option.case_cong)

lemma overwrite_battery_fields [simp]:
  "bc_Name (overwrite_battery sp cn c d) = bc_Name d"
  "bc_SetpointW (overwrite_battery sp cn c d) = (if sp then bc_SetpointW c else bc_SetpointW d)"
  "bc_Connect (overwrite_battery sp cn c d) = (if cn then bc_Connect c else bc_Connect d)"
  by (simp_all add: overwrite_battery_def)

lemma overwrite_first_axes:
  "setpoint_in n (fst (overwrite_first sp cn ds c w)) = (if sp \<and> bc_Name c = n then bc_SetpointW c else setpoint_in n ds)"
  "connect_in n (fst (overwrite_first sp cn ds c w)) = (if cn \<and> bc_Name c = n then bc_Connect c else connect_in n ds)"
  by (induction ds) (auto simp: case_prod_unfold Let_def)

lemma composeSolar_axes: "ceiling_in n (fst (composeSolarAxis ds c w)) = (if sc_Name c = n then sc_CurtailToW c else ceiling_in n ds)"
  by (induction ds) (simp_all add: case_prod_unfold Let_def)

lemma overwrite_evse_axes:
  "current_in n k (fst (overwrite_evse ds c w)) =
     (if ec_StationID c = n \<and> ec_ConnectorID c = k then Some (ec_MaxCurrentA c) else current_in n k ds)"
  by (induction ds) (auto simp: case_prod_unfold Let_def)

lemma battery_axes:
  assumes "distinct (map bc_Name cs)"
  shows "setpoint_in n (fst (fold (\<lambda>c (dst, w). composeBatteryAxes dst c a w) cs (ds, w))) =
      (if ownsActive w a n AxisBatterySetpointW \<and> \<not> is_nan (setpoint_in n cs) then setpoint_in n cs else setpoint_in n ds)"
    and "connect_in n (fst (fold (\<lambda>c (dst, w). composeBatteryAxes dst c a w) cs (ds, w))) =
      (if ownsActive w a n AxisConnect \<and> connect_in n cs \<noteq> None then connect_in n cs else connect_in n ds)"
proof -
  have "setpoint_in n (fst (fold (\<lambda>c (dst, w). composeBatteryAxes dst c a w) cs (ds, w))) =
      (if ownsActive w a n AxisBatterySetpointW \<and> \<not> is_nan (setpoint_in n cs) then setpoint_in n cs else setpoint_in n ds) \<and>
    connect_in n (fst (fold (\<lambda>c (dst, w). composeBatteryAxes dst c a w) cs (ds, w))) =
      (if ownsActive w a n AxisConnect \<and> connect_in n cs \<noteq> None then connect_in n cs else connect_in n ds)"
    using assms
  proof (induction cs arbitrary: ds w)
    case (Cons c cs)
    obtain ds' w' where s: "composeBatteryAxes ds c a w = (ds', w')" by force
    have "same_setup (snd (composeBatteryAxes ds c a w)) w" by (simp add: composeBatteryAxes_def overwrite_first_setup)
    then have w': "same_setup w' w" by (simp add: s)
    have d: "setpoint_in n ds' = (if setpointOwned w a c \<and> bc_Name c = n then bc_SetpointW c else setpoint_in n ds)"
      "connect_in n ds' = (if connectOwned w a c \<and> bc_Name c = n then bc_Connect c else connect_in n ds)"
      using s overwrite_first_axes [of n "setpointOwned w a c" "connectOwned w a c" ds c w]
      by (auto simp: composeBatteryAxes_def split: if_splits)
    show ?case using Cons.IH [of ds' w'] Cons.prems
      by (auto simp: s d owns_setup [OF w'] setpointOwned_def connectOwned_def axis_in_absent)
  qed simp
  then show "setpoint_in n (fst (fold (\<lambda>c (dst, w). composeBatteryAxes dst c a w) cs (ds, w))) =
      (if ownsActive w a n AxisBatterySetpointW \<and> \<not> is_nan (setpoint_in n cs) then setpoint_in n cs else setpoint_in n ds)"
    "connect_in n (fst (fold (\<lambda>c (dst, w). composeBatteryAxes dst c a w) cs (ds, w))) =
      (if ownsActive w a n AxisConnect \<and> connect_in n cs \<noteq> None then connect_in n cs else connect_in n ds)" by blast+
qed

lemma solar_axes:
  assumes "distinct (map sc_Name cs)"
  shows "ceiling_in n (fst (fold (compose_solar a) cs (ds, w))) =
      (if ownsActive w a n AxisSolarCeilingW \<and> \<not> is_nan (ceiling_in n cs) then ceiling_in n cs else ceiling_in n ds)"
  using assms
proof (induction cs arbitrary: ds w)
  case (Cons c cs)
  obtain ds' w' where s: "compose_solar a c (ds, w) = (ds', w')" by force
  have w': "same_setup w' w"
    using s composeSolar_setup [of ds c w] by (auto simp: compose_solar_def split: if_splits)
  have d: "ceiling_in n ds' = (if \<not> is_nan (sc_CurtailToW c) \<and> ownsActive w a n AxisSolarCeilingW \<and> sc_Name c = n then sc_CurtailToW c
      else ceiling_in n ds)"
    using s composeSolar_axes [of n ds c w] by (auto simp: compose_solar_def split: if_splits)
  show ?case using Cons.IH [of ds' w'] Cons.prems by (auto simp: s d owns_setup [OF w'] ceiling_in_absent)
qed simp

lemma evse_axes:
  "current_in n k (fst (fold (\<lambda>c (dst, w). composeEVSEAxis dst c a w) cs (ds, w))) =
     (if ownsActive w a (evseKey n k) AxisEVSECurrentA \<and> current_in n k (rev cs) \<noteq> None then current_in n k (rev cs) else current_in n k ds)"
proof (induction cs arbitrary: ds rule: rev_induct)
  case (snoc c cs)
  let ?acc = "fold (\<lambda>c (dst, w). composeEVSEAxis dst c a w) cs (ds, w)"
  have "ownsActive (snd ?acc) a m ax = ownsActive w a m ax" for m ax by (rule owns_setup [OF compose_folds_setup(3)])
  then show ?case using snoc overwrite_evse_axes [of n k "fst ?acc" c "snd ?acc"]
    by (auto simp: composeEVSEAxis_def case_prod_unfold)
qed simp

lemma compose_axes:
  assumes "distinct (map bc_Name (BatteryCommands cp))" and "distinct (map sc_Name (SolarCommands cp))"
  shows "setpoint_in n (BatteryCommands (fst (compose lp cp a w))) =
      (if ownsActive w a n AxisBatterySetpointW \<and> \<not> is_nan (setpoint_in n (BatteryCommands cp)) then setpoint_in n (BatteryCommands cp)
       else setpoint_in n (BatteryCommands lp))"
    and "connect_in n (BatteryCommands (fst (compose lp cp a w))) =
      (if ownsActive w a n AxisConnect \<and> connect_in n (BatteryCommands cp) \<noteq> None then connect_in n (BatteryCommands cp)
       else connect_in n (BatteryCommands lp))"
    and "ceiling_in n (SolarCommands (fst (compose lp cp a w))) =
      (if ownsActive w a n AxisSolarCeilingW \<and> \<not> is_nan (ceiling_in n (SolarCommands cp)) then ceiling_in n (SolarCommands cp)
       else ceiling_in n (SolarCommands lp))"
    and "current_in m k (EVSECommands (fst (compose lp cp a w))) =
      (if ownsActive w a (evseKey m k) AxisEVSECurrentA \<and> current_in m k (rev (EVSECommands cp)) \<noteq> None
       then current_in m k (rev (EVSECommands cp)) else current_in m k (EVSECommands lp))"
proof -
  let ?s = "fold (compose_solar a) (SolarCommands cp) (SolarCommands lp, w)"
  let ?b = "fold (\<lambda>c (dst, w). composeBatteryAxes dst c a w) (BatteryCommands cp) (BatteryCommands lp, snd ?s)"
  let ?e = "fold (\<lambda>c (dst, w). composeEVSEAxis dst c a w) (EVSECommands cp) (EVSECommands lp, snd ?b)"
  have p: "SolarCommands (fst (compose lp cp a w)) = fst ?s" "BatteryCommands (fst (compose lp cp a w)) = fst ?b"
    "EVSECommands (fst (compose lp cp a w)) = fst ?e" by (simp_all add: compose_def case_prod_unfold Let_def)
  have s: "ownsActive (snd ?s) a m ax = ownsActive w a m ax" for m ax by (rule owns_setup [OF compose_folds_setup(1)])
  have b: "ownsActive (snd ?b) a m ax = ownsActive w a m ax" for m ax
    by (rule owns_setup [OF same_setup_trans [OF compose_folds_setup(2) compose_folds_setup(1)]])
  show "setpoint_in n (BatteryCommands (fst (compose lp cp a w))) =
      (if ownsActive w a n AxisBatterySetpointW \<and> \<not> is_nan (setpoint_in n (BatteryCommands cp)) then setpoint_in n (BatteryCommands cp)
       else setpoint_in n (BatteryCommands lp))" unfolding p battery_axes(1) [OF assms(1)] s by (rule refl)
  show "connect_in n (BatteryCommands (fst (compose lp cp a w))) =
      (if ownsActive w a n AxisConnect \<and> connect_in n (BatteryCommands cp) \<noteq> None then connect_in n (BatteryCommands cp)
       else connect_in n (BatteryCommands lp))" unfolding p battery_axes(2) [OF assms(1)] s by (rule refl)
  show "ceiling_in n (SolarCommands (fst (compose lp cp a w))) =
      (if ownsActive w a n AxisSolarCeilingW \<and> \<not> is_nan (ceiling_in n (SolarCommands cp)) then ceiling_in n (SolarCommands cp)
       else ceiling_in n (SolarCommands lp))" unfolding p solar_axes [OF assms(2)] by (rule refl)
  show "current_in m k (EVSECommands (fst (compose lp cp a w))) =
      (if ownsActive w a (evseKey m k) AxisEVSECurrentA \<and> current_in m k (rev (EVSECommands cp)) \<noteq> None
       then current_in m k (rev (EVSECommands cp)) else current_in m k (EVSECommands lp))" unfolding p evse_axes b by (rule refl)
qed

text \<open>The axes of a composed plan: the candidate's value where it has one that is owned, else the optimizer's.\<close>

definition axes_composed :: "(string \<Rightarrow> Axis \<Rightarrow> bool) \<Rightarrow> Plan \<Rightarrow> Plan \<Rightarrow> Plan \<Rightarrow> bool" where
  "axes_composed owned lp cp p \<longleftrightarrow>
     (\<forall>n. setpoint_in n (BatteryCommands p) =
        (if owned n AxisBatterySetpointW \<and> \<not> is_nan (setpoint_in n (BatteryCommands cp)) then setpoint_in n (BatteryCommands cp)
         else setpoint_in n (BatteryCommands lp)) \<and>
      connect_in n (BatteryCommands p) =
        (if owned n AxisConnect \<and> connect_in n (BatteryCommands cp) \<noteq> None then connect_in n (BatteryCommands cp)
         else connect_in n (BatteryCommands lp)) \<and>
      ceiling_in n (SolarCommands p) =
        (if owned n AxisSolarCeilingW \<and> \<not> is_nan (ceiling_in n (SolarCommands cp)) then ceiling_in n (SolarCommands cp)
         else ceiling_in n (SolarCommands lp)))"

text \<open>The interface the wrapper relies on: a candidate commands a battery and an inverter at most once
  in a plan.\<close>

locale plan_author =
  fixes co :: "'c candidate_ops"
  assumes one_battery_command: "cand_Optimize co st c = (c', Some p) \<Longrightarrow> distinct (map bc_Name (BatteryCommands p))"
    and one_solar_command: "cand_Optimize co st c = (c', Some p) \<Longrightarrow> distinct (map sc_Name (SolarCommands p))"
begin

lemma composed_tick:
  assumes "cand_Optimize co st (candidate s) = (c, Some cp)" and "active (wrapper s) \<noteq> []" and "\<not> latched (wrapper s)"
  shows "axes_composed (ownsActive (wrapper s) (cand_AxisAuthors co c)) (snd (leg_Optimize lo st (legacy s))) cp
    (fst (snd (wrapper_Optimize lo co now st s)))"
proof -
  have "fst (snd (wrapper_Optimize lo co now st s)) = fst (compose (snd (leg_Optimize lo st (legacy s))) cp (cand_AxisAuthors co c) (wrapper s))"
    using assms by (simp add: wrapper_Optimize_def case_prod_unfold Let_def)
  then show ?thesis
    using compose_axes(1-3) [OF one_battery_command one_solar_command, OF assms(1) assms(1)] by (simp add: axes_composed_def)
qed

end

lemma solar_command_names: "map sc_Name (solar_command d n) \<in> {[], [n]}"
  by (simp add: solar_command_def split: option.split)

lemma solar_distinct:
  "distinct (map fst ds) \<Longrightarrow> distinct (map sc_Name (concat (map (\<lambda>(n, d). solar_command d n) ds))) \<and>
     sc_Name ` set (concat (map (\<lambda>(n, d). solar_command d n) ds)) \<subseteq> fst ` set ds"
proof (induction ds)
  case (Cons x ds)
  obtain n d where x: "x = (n, d)" by force
  obtain cs where cs: "concat (map (\<lambda>(n, d). solar_command d n) ds) = cs" by simp
  have "distinct (map sc_Name cs)" "sc_Name ` set cs \<subseteq> fst ` set ds" "n \<notin> fst ` set ds" "distinct (map fst ds)"
    using Cons unfolding x cs by simp_all
  moreover have "distinct (map sc_Name (solar_command d n))" "sc_Name ` set (solar_command d n) \<subseteq> {n}"
    using solar_command_names [of d n] by auto
  moreover have "concat (map (\<lambda>(n, d). solar_command d n) (x # ds)) = solar_command d n @ cs" by (simp add: x cs)
  ultimately show ?case by (auto simp: x)
qed simp

lemma stack_solar_distinct: "distinct (map sc_Name (SolarCommands (snd (Optimize t state s))))"
proof -
  have "SolarCommands (snd (Optimize t state s)) = map (\<lambda>c. case CSIPControl state of None \<Rightarrow> c | Some x \<Rightarrow> c\<lparr>sc_MRID := cc_MRID x\<rparr>)
       (concat (map (\<lambda>(n, d). solar_command d n) (Resolve (tick_demands state s))))"
    by (simp add: Optimize_def Let_def tick_demands_def tick_pass_def ticked_def stamp_MRID_def emit_fold empty_plan_def case_prod_unfold
        split: option.split)
  then have "map sc_Name (SolarCommands (snd (Optimize t state s))) =
      map sc_Name (concat (map (\<lambda>(n, d). solar_command d n) (Resolve (tick_demands state s))))"
    by (simp add: comp_def split: option.split)
  then show ?thesis using solar_distinct [OF Resolve_distinct] by simp
qed

interpretation stack_author: plan_author "stack_ops clock"
  by unfold_locales (auto simp: stack_ops_def case_prod_unfold Let_def Optimize_distinct stack_solar_distinct)

text \<open>
  Property C2: with active constraints every axis of the plan has one author. In every tick that
  composes, the setpoint and the connect order of a battery and the ceiling of an inverter are the
  stack's where an active constraint authored a value, and the optimizer's otherwise.
\<close>

theorem composed_axes_single_author:
  assumes "active (wrapper s) \<noteq> []" and "\<not> latched (wrapper s)"
  shows "axes_composed (ownsActive (wrapper s) (lastAuthors (fst (Optimize clock st (candidate s)))))
    (snd (DefaultOptimizer_Optimize env st (legacy s))) (snd (Optimize clock st (candidate s)))
    (fst (snd (wrapper_Optimize (default_ops env) (stack_ops clock) now st s)))"
proof -
  have "cand_Optimize (stack_ops clock) st (candidate s) =
      (fst (Optimize clock st (candidate s)), Some (snd (Optimize clock st (candidate s))))"
    by (simp add: stack_ops_def case_prod_unfold Let_def)
  then show ?thesis
    using stack_author.composed_tick [where lo = "default_ops env" and now = now, OF _ assms] by (simp add: stack_ops_def default_ops_def)
qed

section \<open>A disconnect order and an active cap\<close>

lemma lone_ceiling:
  assumes "src \<noteq> ''''"
  shows "resolve_device [CeilingDemand n AxisSolarCeilingW (Fin q) k src] n =
    \<lparr>des_Device = n, Bounds = [(AxisSolarCeilingW, \<lparr>iv_Min = NaN, iv_Max = Fin q\<rparr>)], Authors = [(AxisSolarCeilingW, src)],
     des_Connect = None, Conflicts = []\<rparr>"
  using assms by (simp add: resolve_device_def axisOrder_def resolve_axis_def resolveInterval_def resolve_tiers_def sortDemands_def tier_step_def
      intersect_one intersect_step_def CeilingDemand_def lower_def upper_def infToNaN_def flt_def feq_def Let_def)

lemma lone_Resolve: "Resolve [d] = [(dem_Device d, resolve_device [d] (dem_Device d))]"
  by (simp add: Resolve_def deviceOrder_def)

definition gen_only :: "SystemState \<Rightarrow> SolarState \<Rightarrow> int \<Rightarrow> int \<Rightarrow> bool" where
  "gen_only st roof m q \<longleftrightarrow> Solar st = [roof] \<and> ss_Connected roof \<and> ss_MaxW roof = W m \<and> effectiveGenLimitW st = W q \<and>
     0 < m \<and> m \<le> 2 ^ 50 \<and> 0 < q \<and> q \<le> 2 ^ 50"

lemma W_mult_one: "\<bar>q\<bar> \<le> 2 ^ 53 \<Longrightarrow> fmul (W q) (Fin 1) = W q"
  using fl_of_int [of q] by (simp add: W_def)

lemma W_div_self: "0 < m \<Longrightarrow> fdiv (W m) (W m) = Fin 1"
  by (simp add: W_def)

lemma gen_only_demand:
  assumes "gen_only st roof m q"
  shows "applyGenControl st (W q) = [CeilingDemand (ss_Name roof) AxisSolarCeilingW (W q) TierCompliance gen_Name]"
proof -
  have "gen_nameplate st = W m" "\<not> fle (W m) (Fin 0)" using assms W_arith(1) [of 0 m]
    by (simp_all add: gen_only_def gen_nameplate_def W_Fin)
  then show ?thesis using assms by (simp add: gen_only_def applyGenControl_def Let_def W_div_self W_mult_one)
qed

lemma Optimize_authors: "lastAuthors (fst (Optimize t state s)) = snd (snd (tick_post state s))"
  by (simp add: Optimize_def Let_def tick_post_def tick_pass_def tick_demands_def arbitrated_def ticked_def emit_fold case_prod_unfold empty_plan_def)

lemma gen_only_tick:
  assumes "constraints c = [gen_rule cv]" and "gen_only st roof m q"
  shows "ceiling_in (ss_Name roof) (SolarCommands (snd (Optimize clock st c))) = W q"
    and "lastAuthors (fst (Optimize clock st c)) (axisKey (ss_Name roof) AxisSolarCeilingW) = Some gen_Name"
proof -
  let ?d = "CeilingDemand (ss_Name roof) AxisSolarCeilingW (W q) TierCompliance gen_Name"
  obtain g b where e: "gen_Evaluate cv (tick_input c st) (NewSession gen_Name (stk_tickInterval c)) (rs_gen (rule_store c)) = (g, [?d], b)"
    using assms(2) gen_only_demand [OF assms(2)]
    by (simp add: gen_Evaluate_def gen_only_def Let_def case_prod_unfold)
  have d: "tick_demands st c = [?d]"
    using e by (simp add: tick_demands_def tick_pass_def assms(1) gen_rule_def tick_input_def)
  have r: "Resolve [?d] = [(ss_Name roof, \<lparr>des_Device = ss_Name roof, Bounds = [(AxisSolarCeilingW, \<lparr>iv_Min = NaN, iv_Max = W q\<rparr>)],
      Authors = [(AxisSolarCeilingW, gen_Name)], des_Connect = None, Conflicts = []\<rparr>)]"
    using lone_ceiling [of gen_Name "ss_Name roof" "of_int q" TierCompliance] by (simp add: lone_Resolve W_def gen_Name_def)
  show "ceiling_in (ss_Name roof) (SolarCommands (snd (Optimize clock st c))) = W q"
    unfolding Optimize_solar d r by (simp add: emit_fold solar_command_def Bound_def empty_plan_def split: option.split)
  have "lastAuthors (fst (Optimize clock st c)) = snapshot_authors (Resolve (tick_demands st c))"
    by (simp add: Optimize_authors tick_post_def assms(1) post_pass_rules gen_rule_def)
  then show "lastAuthors (fst (Optimize clock st c)) (axisKey (ss_Name roof) AxisSolarCeilingW) = Some gen_Name"
    unfolding d r by (simp add: snapshot_authors_def gen_Name_def)
qed

lemma ceased_ceiling:
  assumes "CSIPControl st = Some c" and "OpModConnect (cc_Base c) = Some False" and "Solar st = [roof]" and "ss_Connected roof"
  shows "ceiling_in (ss_Name roof) (SolarCommands (snd (DefaultOptimizer_Optimize env st opt))) = Fin 0"
  using assms by (simp add: DefaultOptimizer_Optimize_def csipDisconnectRule_def solar_cmd_def empty_plan_def Let_def)

text \<open>
  Property C7: an active cap defeats a disconnect order. When the generation constraint is active and
  the utility orders the site to cease to energize while a generation cap is in force, the optimizer
  curtails the inverter to 0 W and the composed plan lifts it to the cap: the rules of the stack do not
  know the disconnect order, and composition replaces the ceiling instead of keeping the tighter one.
\<close>

theorem active_cap_defeats_disconnect:
  assumes "constraints (candidate s) = [gen_rule cv]" and "is_active (wrapper s) gen_Name" and "\<not> latched (wrapper s)"
    and "CSIPControl st = Some c" and "OpModConnect (cc_Base c) = Some False" and "gen_only st roof m q"
  shows "ceiling_in (ss_Name roof) (SolarCommands (snd (DefaultOptimizer_Optimize env st (legacy s)))) = Fin 0 \<and>
    ceiling_in (ss_Name roof) (SolarCommands (fst (snd (wrapper_Optimize (default_ops env) (stack_ops clock) now st s)))) = W q"
proof -
  let ?r = "Optimize clock st (candidate s)"
  have a: "active (wrapper s) \<noteq> []" using assms(2) by (auto simp: is_active_def)
  have "cand_Optimize (stack_ops clock) st (candidate s) = (fst ?r, Some (snd ?r))"
    by (simp add: stack_ops_def case_prod_unfold Let_def)
  note composed = stack_author.composed_tick [where lo = "default_ops env" and now = now, OF this a assms(3)]
  note g = gen_only_tick [OF assms(1,6), of clock]
  have "ownsActive (wrapper s) (lastAuthors (fst ?r)) (ss_Name roof) AxisSolarCeilingW"
    using assms(2) by (simp add: ownsActive_def g(2) gen_Name_def)
  then show ?thesis using composed g(1) ceased_ceiling [OF assms(4,5), of roof env "legacy s"] assms(6)
    by (simp add: axes_composed_def stack_ops_def gen_only_def)
qed

definition ceased :: "int \<Rightarrow> SystemState" where
  "ceased w = (home NewGridState None)\<lparr>CSIPControl := Some \<lparr>cc_Source = ''event'', cc_MRID = ''m1'',
     cc_Base = no_base\<lparr>OpModConnect := Some False, OpModMaxLimW := Some \<lparr>ap_Multiplier = 0, ap_Value = w\<rparr>\<rparr>, cc_ValidUntil = 0\<rparr>\<rparr>"

definition gen_active :: "string \<Rightarrow> ConstraintMode" where
  "gen_active key = (if key = ''gen'' then ModeActive else ModeOff)"

definition hub_gen_active :: "(DefaultOptimizer, rule_states Stack) shadowed" where
  "hub_gen_active = hub_shadowed home_env (\<lambda>_. 0) ex_site 0 gen_active ex_eco NewDefaultOptimizer"

lemma hub_gen_active_fields:
  "constraints (candidate hub_gen_active) = [gen_rule (\<lambda>_. 0)]" "active (wrapper hub_gen_active) = [(''gen'', True)]"
  "\<not> latched (wrapper hub_gen_active)" "tol (wrapper hub_gen_active) = DefaultTolerances"
  by (simp_all add: hub_gen_active_def hub_shadowed_def Wrap_def shadow_stack_def SetReserveFloor_def NewStack_def shadow_constraints_def
      site_constraints_def active_entries_def gen_active_def gen_Name_def)

lemma ceased_limits: "\<bar>w\<bar> \<le> 2 ^ 50 \<Longrightarrow> effectiveGenLimitW (ceased w) = W w"
  using fl_of_int [of w]
  by (simp add: ceased_def effectiveGenLimitW_def no_base_def home_def NewGridState_def apW_def pow10_def nanMin_def W_def)

theorem active_cap_defeats_disconnect_witness:
  "ceiling_in ''roof'' (SolarCommands (snd (DefaultOptimizer_Optimize home_env (ceased 3000) NewDefaultOptimizer))) = Fin 0 \<and>
   ceiling_in ''roof'' (SolarCommands (fst (snd (wrapper_Optimize (default_ops home_env) (stack_ops 1) 1 (ceased 3000) hub_gen_active)))) = W 3000"
proof -
  have s: "gen_only (ceased 3000) home_inverter 5000 3000"
    unfolding gen_only_def using ceased_limits [of 3000] by (simp add: ceased_def home_inverter_def W_def)
  have c: "CSIPControl (ceased 3000) = Some (the (CSIPControl (ceased 3000)))"
    "OpModConnect (cc_Base (the (CSIPControl (ceased 3000)))) = Some False" by (simp_all add: ceased_def)
  have "legacy hub_gen_active = NewDefaultOptimizer" by (simp add: hub_gen_active_def hub_shadowed_def)
  then show ?thesis
    using active_cap_defeats_disconnect [OF hub_gen_active_fields(1) _ hub_gen_active_fields(3) c s, of home_env 1 1]
    by (simp add: is_active_def hub_gen_active_fields gen_Name_def)
qed

theorem composed_axes_single_author_witness:
  "axes_composed (ownsActive (wrapper hub_gen_active) (lastAuthors (fst (Optimize 1 (ceased 3000) (candidate hub_gen_active)))))
     (snd (DefaultOptimizer_Optimize home_env (ceased 3000) (legacy hub_gen_active))) (snd (Optimize 1 (ceased 3000) (candidate hub_gen_active)))
     (fst (snd (wrapper_Optimize (default_ops home_env) (stack_ops 1) 1 (ceased 3000) hub_gen_active)))"
  by (rule composed_axes_single_author) (simp_all add: hub_gen_active_fields)

theorem shadow_is_invisible_witness:
  "map fst (snd (shadow_run (default_ops home_env) (stack_ops 1) [FastTick 1 (ceased 3000), EconTick 2 (ceased 3000)]
     (hub_shadowed home_env (\<lambda>_. 0) ex_site 0 (\<lambda>_. ModeShadow) ex_eco NewDefaultOptimizer))) =
   snd (legacy_run (default_ops home_env) [FastTick 1 (ceased 3000), EconTick 2 (ceased 3000)] NewDefaultOptimizer)"
proof -
  let ?s = "hub_shadowed home_env (\<lambda>_. 0) ex_site 0 (\<lambda>_. ModeShadow) ex_eco NewDefaultOptimizer"
  have "active (wrapper ?s) = []" "legacy ?s = NewDefaultOptimizer" by (simp_all add: hub_shadowed_def Wrap_def active_entries_def)
  then show ?thesis
    using shadow_is_invisible [of ?s "default_ops home_env" "stack_ops 1" "[FastTick 1 (ceased 3000), EconTick 2 (ceased 3000)]"]
    by (simp del: shadow_run.simps legacy_run.simps)
qed

theorem candidate_panic_falls_back_witness:
  "map fst (snd (shadow_run (default_ops home_env) ((stack_ops 1)\<lparr>cand_Optimize := (\<lambda>st s. (s, None))\<rparr>) [EconTick 1 (ceased 3000)] hub_gen_active)) =
     snd (legacy_run (default_ops home_env) [EconTick 1 (ceased 3000)] NewDefaultOptimizer) \<and>
   activeFallback (wrapper (fst (wrapper_Optimize (default_ops home_env) ((stack_ops 1)\<lparr>cand_Optimize := (\<lambda>st s. (s, None))\<rparr>) 1 (ceased 3000)
     hub_gen_active))) = activeFallback (wrapper hub_gen_active) + 1"
proof -
  have "legacy hub_gen_active = NewDefaultOptimizer" by (simp add: hub_gen_active_def hub_shadowed_def)
  then show ?thesis
    using candidate_panic_falls_back [of "(stack_ops 1)\<lparr>cand_Optimize := (\<lambda>st s. (s, None))\<rparr>" "ceased 3000" hub_gen_active
        "candidate hub_gen_active" "default_ops home_env" 1 "[]"]
    by (simp add: hub_gen_active_fields)
qed

section \<open>Breaches\<close>

lemma composeBreach_setup: "same_setup v w \<Longrightarrow> fst (composeBreach l c v) = fst (composeBreach l c w)"
  by (simp add: composeBreach_def is_active_def same_setup_def case_prod_unfold Let_def split: option.split)

lemma compose_breach: "Breach (fst (compose lp cp a w)) = fst (composeBreach (Breach lp) (Breach cp) w)"
proof -
  let ?s = "snd (fold (compose_solar a) (SolarCommands cp) (SolarCommands lp, w))"
  let ?b = "snd (fold (\<lambda>c (dst, w). composeBatteryAxes dst c a w) (BatteryCommands cp) (BatteryCommands lp, ?s))"
  let ?e = "snd (fold (\<lambda>c (dst, w). composeEVSEAxis dst c a w) (EVSECommands cp) (EVSECommands lp, ?b))"
  have "same_setup ?e w"
    by (rule same_setup_trans [OF compose_folds_setup(3) same_setup_trans [OF compose_folds_setup(2) compose_folds_setup(1)]])
  moreover have "Breach (fst (compose lp cp a w)) = fst (composeBreach (Breach lp) (Breach cp) ?e)"
    unfolding compose_def Let_def by (simp add: split_beta del: split_paired_All)
  ultimately show ?thesis using composeBreach_setup by simp
qed

text \<open>
  Property C28: a breach of a shadowed constraint hides the breach of an active one. A plan has room for
  one breach, and composition drops the optimizer's own breach when its limit belongs to an active
  constraint. So when the optimizer's own breach, if it has one, is of an active limit and the stack's
  worst breach belongs to a constraint that is not active, the composed plan reports nothing although an
  active constraint saw a breach of its limit; without the other breach the active constraint's is
  reported.
\<close>

theorem shadowed_breach_hides_active:
  assumes "case Breach lp of None \<Rightarrow> True | Some b \<Rightarrow> is_active w (breachOwner (br_LimitType b))"
    and "is_active w (breachOwner (br_LimitType own))"
    and "\<not> is_active w (breachOwner (br_LimitType other))" and "flt (br_ShortfallW own) (br_ShortfallW other)"
    and "Breach cp = fold recordBreach [own, other] None" and "Breach cp' = fold recordBreach [own] None"
  shows "Breach (fst (compose lp cp authors w)) = None \<and> Breach (fst (compose lp cp' authors w)) = Some own"
proof -
  have c: "Breach cp = Some other" "Breach cp' = Some own" using assms(4-6) by (simp_all add: recordBreach_def)
  show ?thesis using assms(1-3) by (cases "Breach lp") (simp_all add: compose_breach c composeBreach_def)
qed

definition a_breach :: "string \<Rightarrow> rat \<Rightarrow> ComplianceBreach" where
  "a_breach t w = \<lparr>br_MRID = '''', br_LimitType = t, br_LimitW = Fin 0, br_MeasuredW = Fin w, br_ShortfallW = Fin w, br_Reason = ''''\<rparr>"

theorem shadowed_breach_hides_active_witness:
  "Breach (fst (compose ((empty_plan 1)\<lparr>Breach := Some (a_breach ''export'' 500)\<rparr>)
     ((empty_plan 1)\<lparr>Breach := fold recordBreach [a_breach ''export'' 500, a_breach ''generation-aus'' 800] None\<rparr>) Map.empty
     (Wrap None 0 [(''export'', True)]))) = None \<and>
   Breach (fst (compose ((empty_plan 1)\<lparr>Breach := Some (a_breach ''export'' 500)\<rparr>)
     ((empty_plan 1)\<lparr>Breach := fold recordBreach [a_breach ''export'' 500] None\<rparr>) Map.empty
     (Wrap None 0 [(''export'', True)]))) = Some (a_breach ''export'' 500)"
  by (rule shadowed_breach_hides_active [where other = "a_breach ''generation-aus'' 800" and own = "a_breach ''export'' 500"])
    (simp_all add: a_breach_def breachOwner_def is_active_def Wrap_def del: fold_simps)

section \<open>The breach debounce and the fast passes\<close>

text \<open>A breach divergence of the stack alone.\<close>

definition only_candidate :: "AxisDivergence \<Rightarrow> bool" where
  "only_candidate a \<longleftrightarrow> ad_Axis a = ''breach'' \<and> ad_Legacy a = ShownNone"

definition silent :: "Plan \<times> Divergence list \<Rightarrow> bool" where
  "silent r \<longleftrightarrow> \<not> list_ex (\<lambda>d. list_ex only_candidate (dv_Axes d)) (snd r)"

lemma axis_divergences:
  "\<not> list_ex only_candidate (diffSolar t lp cp)" "\<not> list_ex only_candidate (diffBattery t lp cp)" "\<not> list_ex only_candidate (diffEVSE t lp cp)"
  by (auto simp: list_ex_iff diffSolar_def diffBattery_def diffEVSE_def diff_setpoint_def diff_connect_def wattAxis_def one_sided_def
      only_candidate_def Axis_String_def Let_def split: if_splits option.splits)

lemma attribute_only_candidate:
  "\<not> list_ex only_candidate axes \<Longrightarrow> \<not> list_ex only_candidate (attributeAndFilter w authors axes)"
  by (fastforce simp: list_ex_iff attributeAndFilter_def only_candidate_def split: if_splits option.splits)

lemma compare_silent:
  assumes "case snd (diffBreach (tol w) lp cp (breachMismatch w)) of None \<Rightarrow> True | Some d \<Rightarrow> \<not> only_candidate d"
  shows "silent (p, snd (compare_plans st lp cp prefx authors ns now w))"
proof -
  obtain m bd where b: "diffBreach (tol w) lp cp (breachMismatch w) = (m, bd)" by force
  obtain axes where d: "diverging w lp cp authors = (m, axes)" by (simp add: diverging_def b)
  have "\<not> list_ex only_candidate axes"
    using d assms axis_divergences [of "tol w" lp cp]
    by (auto simp: diverging_def b intro!: attribute_only_candidate split: option.splits if_splits)
  then show ?thesis by (simp add: compare_plans_def d silent_def allow_def Let_def split: option.split)
qed

lemma compare_fields: "tol (fst (compare_plans st lp cp prefx authors ns now w)) = tol w"
  "active (fst (compare_plans st lp cp prefx authors ns now w)) = active w"
  using compare_setup by (simp_all add: same_setup_def)

lemma stack_ops_fields [simp]:
  "cand_Optimize (stack_ops clock) st c = (fst (Optimize clock st c), Some (snd (Optimize clock st c)))"
  "cand_EvaluateSafety (stack_ops clock) st c = (c, Some (EvaluateSafety clock st c))"
  "cand_AxisAuthors (stack_ops clock) = lastAuthors" "cand_SessionNames (stack_ops clock) = SessionNames"
  by (simp_all add: stack_ops_def case_prod_unfold Let_def)

lemma compare_mismatch:
  "breachMismatch (fst (compare_plans st lp cp prefx authors ns now w)) = fst (diffBreach (tol w) lp cp (breachMismatch w))"
proof -
  obtain m bd where b: "diffBreach (tol w) lp cp (breachMismatch w) = (m, bd)" by force
  obtain axes where d: "diverging w lp cp authors = (m, axes)" by (simp add: diverging_def b)
  have k: "breachMismatch (count_divergence prefx axes v) = breachMismatch v" for v
  proof -
    have "breachMismatch (fold (\<lambda>a. bumpAxis (f a)) xs u) = breachMismatch u" for xs u and f :: "AxisDivergence \<Rightarrow> string"
      by (induction xs arbitrary: u) (simp_all add: bumpAxis_def)
    then show ?thesis by (simp add: count_divergence_def)
  qed
  then show ?thesis by (simp add: compare_plans_def d b allow_def Let_def split: option.split)
qed

text \<open>A fast pass of the stack, and a full tick after it.\<close>

lemma fast_silent:
  assumes "shadow_step lo (stack_ops clock) (FastTick t st) s = (s', r)" and "active (wrapper s) = []"
  shows "silent r" and "latched (wrapper s') \<or> breachMismatch (wrapper s') = 0" and "active (wrapper s') = []"
    and "tol (wrapper s') = tol (wrapper s)"
proof -
  let ?cp = "EvaluateSafety clock st (candidate s)" and ?lp = "snd (leg_EvaluateSafety lo st (legacy s))"
  let ?r = "compare_plans st ?lp ?cp ''safety:'' Map.empty (SessionNames (candidate s)) t (wrapper s)"
  have d: "diffBreach (tol (wrapper s)) ?lp ?cp (breachMismatch (wrapper s)) = (0, None)"
    by (simp add: diffBreach_def EvaluateSafety_def emit_fold empty_plan_def)
  have e: "(s', r) = (if latched (wrapper s) then (s\<lparr>legacy := fst (leg_EvaluateSafety lo st (legacy s))\<rparr>, ?lp, [])
      else (s\<lparr>legacy := fst (leg_EvaluateSafety lo st (legacy s)), candidate := candidate s, wrapper := fst ?r\<rparr>, ?lp, snd ?r))"
    using assms(1) by (cases "latched (wrapper s)") (simp_all add: wrapper_EvaluateSafety_def case_prod_unfold Let_def)
  show "silent r" "latched (wrapper s') \<or> breachMismatch (wrapper s') = 0" "active (wrapper s') = []" "tol (wrapper s') = tol (wrapper s)"
    using e compare_silent [of "wrapper s" ?lp ?cp] d assms(2)
    by (simp_all add: compare_fields compare_mismatch silent_def split: if_splits)
qed

lemma econ_silent:
  assumes "shadow_step lo (stack_ops clock) (EconTick t st) s = (s', r)" and "active (wrapper s) = []"
    and "latched (wrapper s) \<or> breachMismatch (wrapper s) = 0" and "1 \<le> BreachDebounceTicks (tol (wrapper s))"
  shows "silent r" and "active (wrapper s') = []" and "tol (wrapper s') = tol (wrapper s)"
proof -
  let ?o = "Optimize clock st (candidate s)" and ?lp = "snd (leg_Optimize lo st (legacy s))"
  let ?r = "compare_plans st ?lp (snd ?o) '''' (lastAuthors (fst ?o)) (SessionNames (fst ?o)) t (wrapper s)"
  have d: "case snd (diffBreach (tol (wrapper s)) ?lp (snd ?o) (breachMismatch (wrapper s))) of None \<Rightarrow> True | Some d \<Rightarrow> \<not> only_candidate d"
    if "\<not> latched (wrapper s)"
    using that assms(3,4) by (auto simp: diffBreach_def only_candidate_def one_sided_def Let_def split: option.split)
  have e: "(s', r) = (if latched (wrapper s) then (s\<lparr>legacy := fst (leg_Optimize lo st (legacy s))\<rparr>, ?lp, [])
      else (s\<lparr>legacy := fst (leg_Optimize lo st (legacy s)), candidate := fst ?o, wrapper := fst ?r\<rparr>, ?lp, snd ?r))"
    using assms(1,2) by (cases "latched (wrapper s)") (simp_all add: wrapper_Optimize_def case_prod_unfold Let_def)
  show "silent r" "active (wrapper s') = []" "tol (wrapper s') = tol (wrapper s)"
    using e compare_silent [of "wrapper s" ?lp "snd ?o", OF d] assms(2)
    by (simp_all add: compare_fields silent_def split: if_splits)
qed

text \<open>The loop of the engine: fast passes between the full ticks, at least one before each.\<close>

fun engine_loop :: "((gotime \<times> SystemState) list \<times> (gotime \<times> SystemState) \<times> (gotime \<times> SystemState)) list \<Rightarrow> hub_event list" where
  "engine_loop [] = []"
| "engine_loop ((fs, f, e) # xs) =
     map (\<lambda>x. FastTick (fst x) (snd x)) fs @ FastTick (fst f) (snd f) # EconTick (fst e) (snd e) # engine_loop xs"

lemma fasts_silent:
  assumes "active (wrapper s) = []"
  shows "list_all silent (snd (shadow_run lo (stack_ops clock) (map (\<lambda>x. FastTick (fst x) (snd x)) fs) s)) \<and>
    active (wrapper (fst (shadow_run lo (stack_ops clock) (map (\<lambda>x. FastTick (fst x) (snd x)) fs) s))) = [] \<and>
    tol (wrapper (fst (shadow_run lo (stack_ops clock) (map (\<lambda>x. FastTick (fst x) (snd x)) fs) s))) = tol (wrapper s)"
  using assms
proof (induction fs arbitrary: s)
  case (Cons f fs)
  obtain s' r where s: "shadow_step lo (stack_ops clock) (FastTick (fst f) (snd f)) s = (s', r)" by (metis surj_pair)
  note q = fast_silent [OF s Cons.prems]
  show ?case using Cons.IH [of s'] q s by (simp add: case_prod_unfold Let_def)
qed simp

lemma shadow_run_append:
  "shadow_run lo co (xs @ ys) s =
     (let (s', rs) = shadow_run lo co xs s; (s'', qs) = shadow_run lo co ys s' in (s'', rs @ qs))"
  by (induction xs arbitrary: s) (simp_all add: case_prod_unfold Let_def)

section \<open>What the debounce counts\<close>

text \<open>The ticks on which the stack reports a breach and the optimizer none.\<close>

fun stack_only :: "'l legacy_ops \<Rightarrow> gotime \<Rightarrow> hub_event list \<Rightarrow> ('l, 's Stack) shadowed \<Rightarrow> bool" where
  "stack_only lo clock [] s \<longleftrightarrow> True"
| "stack_only lo clock (x # xs) s \<longleftrightarrow>
     (case x of
        EconTick now st \<Rightarrow> Breach (snd (Optimize clock st (candidate s))) \<noteq> None \<and> Breach (snd (leg_Optimize lo st (legacy s))) = None
      | FastTick now st \<Rightarrow> True) \<and>
     stack_only lo clock xs (fst (shadow_step lo (stack_ops clock) x s))"

text \<open>The full ticks of the loop without its fast passes.\<close>

definition full_ticks :: "((gotime \<times> SystemState) list \<times> (gotime \<times> SystemState) \<times> (gotime \<times> SystemState)) list \<Rightarrow> hub_event list" where
  "full_ticks xs = map (\<lambda>(fs, f, e). EconTick (fst e) (snd e)) xs"

definition breach_count :: "('l, 'c) shadowed \<Rightarrow> 64 word" where
  "breach_count s = axisCounts (wrapper s) ''breach''"

lemma count_divergence_axes:
  "axisCounts (count_divergence prefx axes w) k = axisCounts w k + of_nat (length (filter (\<lambda>a. prefx @ ad_Axis a = k) axes))"
proof -
  have "axisCounts (fold (\<lambda>a. bumpAxis (prefx @ ad_Axis a)) axes v) k =
      axisCounts v k + of_nat (length (filter (\<lambda>a. prefx @ ad_Axis a = k) axes))" for v
    by (induction axes arbitrary: v) (simp_all add: bumpAxis_def)
  then show ?thesis by (simp add: count_divergence_def)
qed

lemma compare_axes:
  "axisCounts (fst (compare_plans st lp cp prefx authors ns now w)) k =
     axisCounts w k + of_nat (length (filter (\<lambda>a. prefx @ ad_Axis a = k) (snd (diverging w lp cp authors))))"
proof -
  obtain m axes where d: "diverging w lp cp authors = (m, axes)" by fastforce
  show ?thesis by (simp add: compare_plans_def d allow_def Let_def count_divergence_axes split: option.split)
qed

lemma battery_axis_names:
  "a \<in> set (diff_setpoint t l c) \<Longrightarrow> ad_Axis a \<noteq> ''breach''" "a \<in> set (diff_connect l c) \<Longrightarrow> ad_Axis a \<noteq> ''breach''"
  by (auto simp: diff_setpoint_def diff_connect_def wattAxis_def one_sided_def Axis_String_def Let_def split: if_splits option.splits)

lemma axis_names:
  "a \<in> set (diffSolar t lp cp) \<Longrightarrow> ad_Axis a \<noteq> ''breach''" "a \<in> set (diffBattery t lp cp) \<Longrightarrow> ad_Axis a \<noteq> ''breach''"
  "a \<in> set (diffEVSE t lp cp) \<Longrightarrow> ad_Axis a \<noteq> ''breach''"
proof -
  show "a \<in> set (diffBattery t lp cp) \<Longrightarrow> ad_Axis a \<noteq> ''breach''"
    using battery_axis_names by (auto simp: diffBattery_def Let_def)
qed (auto simp: diffSolar_def diffEVSE_def wattAxis_def one_sided_def Axis_String_def Let_def split: if_splits option.splits)

lemma attribute_axes:
  assumes "active w = []"
  shows "map ad_Axis (attributeAndFilter w authors axes) = map ad_Axis axes"
  using assms by (induction axes) (auto simp: attributeAndFilter_def is_active_def split: option.split)

lemma breach_divergences:
  assumes "active w = []"
  shows "length (filter (\<lambda>a. ad_Axis a = ''breach'') (snd (diverging w lp cp authors))) =
    (case snd (diffBreach (tol w) lp cp (breachMismatch w)) of None \<Rightarrow> 0 | Some d \<Rightarrow> 1)"
proof -
  obtain m bd where b: "diffBreach (tol w) lp cp (breachMismatch w) = (m, bd)" by force
  have n: "ad_Axis d = ''breach''" if "bd = Some d" for d
    using b that by (auto simp: diffBreach_def one_sided_def Let_def split: option.splits if_splits)
  have l: "length (filter (\<lambda>a. ad_Axis a = ''breach'') xs) = length (filter (\<lambda>k. k = ''breach'') (map ad_Axis xs))" for xs
    by (induction xs) simp_all
  let ?r = "diffSolar (tol w) lp cp @ diffBattery (tol w) lp cp @ diffEVSE (tol w) lp cp"
  have f: "filter (\<lambda>k. k = ''breach'') (map ad_Axis ?r) = []"
    using axis_names by (auto simp: filter_empty_conv)
  have "snd (diverging w lp cp authors) =
      attributeAndFilter w authors ((case bd of None \<Rightarrow> [] | Some d \<Rightarrow> [d]) @ ?r)"
    using assms by (simp add: diverging_def b is_active_def Let_def split: option.split)
  then show ?thesis using f by (simp add: b l attribute_axes [OF assms] n split: option.split)
qed

lemma fast_count:
  assumes "shadow_step lo (stack_ops clock) (FastTick t st) s = (s', r)" and "active (wrapper s) = []"
  shows "breach_count s' = breach_count s"
proof -
  let ?cp = "EvaluateSafety clock st (candidate s)" and ?lp = "snd (leg_EvaluateSafety lo st (legacy s))"
  have "axisCounts (wrapper s') = axisCounts (wrapper s) \<or>
      wrapper s' = fst (compare_plans st ?lp ?cp ''safety:'' Map.empty (SessionNames (candidate s)) t (wrapper s))"
    using assms(1) by (cases "latched (wrapper s)") (auto simp: wrapper_EvaluateSafety_def case_prod_unfold Let_def)
  then show ?thesis by (auto simp: breach_count_def compare_axes)
qed

text \<open>A full tick on which only the stack reports a breach.\<close>

lemma econ_count:
  assumes "shadow_step lo (stack_ops clock) (EconTick t st) s = (s', r)" and "active (wrapper s) = []" and "\<not> latched (wrapper s)"
    and "Breach (snd (Optimize clock st (candidate s))) \<noteq> None" and "Breach (snd (leg_Optimize lo st (legacy s))) = None"
  shows "breach_count s' = (if breachMismatch (wrapper s) + 1 \<le> BreachDebounceTicks (tol (wrapper s)) then breach_count s else breach_count s + 1)"
    and "breachMismatch (wrapper s') = breachMismatch (wrapper s) + 1" and "\<not> latched (wrapper s')"
    and "active (wrapper s') = []" and "tol (wrapper s') = tol (wrapper s)"
proof -
  let ?o = "Optimize clock st (candidate s)" and ?lp = "snd (leg_Optimize lo st (legacy s))"
  let ?r = "compare_plans st ?lp (snd ?o) '''' (lastAuthors (fst ?o)) (SessionNames (fst ?o)) t (wrapper s)"
  have w: "wrapper s' = fst ?r" using assms(1-3) by (auto simp: wrapper_Optimize_def case_prod_unfold Let_def)
  obtain d where b: "diffBreach (tol (wrapper s)) ?lp (snd ?o) (breachMismatch (wrapper s)) =
      (breachMismatch (wrapper s) + 1, if breachMismatch (wrapper s) + 1 \<le> BreachDebounceTicks (tol (wrapper s)) then None else Some d)"
    using assms(4,5) by (auto simp: diffBreach_def Let_def)
  show "breach_count s' = (if breachMismatch (wrapper s) + 1 \<le> BreachDebounceTicks (tol (wrapper s)) then breach_count s else breach_count s + 1)"
    by (simp add: breach_count_def w compare_axes breach_divergences [OF assms(2)] b)
  show "breachMismatch (wrapper s') = breachMismatch (wrapper s) + 1" unfolding w compare_mismatch b by simp
  show "\<not> latched (wrapper s')" "active (wrapper s') = []" "tol (wrapper s') = tol (wrapper s)"
    using compare_setup [of st ?lp "snd ?o" "''''"] assms(2,3) by (simp_all add: w same_setup_def)
qed

lemma full_ticks_count:
  assumes "active (wrapper s) = []" and "\<not> latched (wrapper s)" and "breachMismatch (wrapper s) = int m"
    and "stack_only lo clock (full_ticks xs) s"
  shows "breach_count (fst (shadow_run lo (stack_ops clock) (full_ticks xs) s)) =
    breach_count s + of_nat (length xs - (nat (BreachDebounceTicks (tol (wrapper s))) - m))"
  using assms
proof (induction xs arbitrary: s m)
  case (Cons x xs)
  obtain fs f e where x: "x = (fs, f, e)" by (metis prod_cases3)
  obtain s' r where 1: "shadow_step lo (stack_ops clock) (EconTick (fst e) (snd e)) s = (s', r)" by (metis surj_pair)
  have o: "Breach (snd (Optimize clock (snd e) (candidate s))) \<noteq> None" "Breach (snd (leg_Optimize lo (snd e) (legacy s))) = None"
    "stack_only lo clock (full_ticks xs) s'"
    using Cons.prems(4) 1 by (simp_all add: full_ticks_def x del: shadow_step.simps)
  note c = econ_count [OF 1 Cons.prems(1,2) o(1,2)]
  have i: "breach_count (fst (shadow_run lo (stack_ops clock) (full_ticks xs) s')) =
      breach_count s' + of_nat (length xs - (nat (BreachDebounceTicks (tol (wrapper s))) - Suc m))"
    using Cons.IH [OF c(4,3) _ o(3), of "Suc m"] c(2,5) Cons.prems(3) by simp
  have "shadow_run lo (stack_ops clock) (full_ticks (x # xs)) s = (fst (shadow_run lo (stack_ops clock) (full_ticks xs) s'), r # snd (shadow_run lo (stack_ops clock) (full_ticks xs) s'))"
    using 1 by (simp add: full_ticks_def x case_prod_unfold Let_def del: shadow_step.simps)
  moreover have "Suc m \<le> nat (BreachDebounceTicks (tol (wrapper s))) \<Longrightarrow>
      length xs - (nat (BreachDebounceTicks (tol (wrapper s))) - Suc m) = length (x # xs) - (nat (BreachDebounceTicks (tol (wrapper s))) - m)"
    by simp
  moreover have "\<not> Suc m \<le> nat (BreachDebounceTicks (tol (wrapper s))) \<Longrightarrow>
      Suc (length xs - (nat (BreachDebounceTicks (tol (wrapper s))) - Suc m)) = length (x # xs) - (nat (BreachDebounceTicks (tol (wrapper s))) - m)"
    by simp
  moreover have "(breachMismatch (wrapper s) + 1 \<le> BreachDebounceTicks (tol (wrapper s))) = (Suc m \<le> nat (BreachDebounceTicks (tol (wrapper s))))"
    using Cons.prems(3) by linarith
  ultimately show ?case using i c(1) by (simp del: of_nat_Suc) (metis (no_types, lifting) add.assoc add.commute of_nat_Suc)
qed (simp add: full_ticks_def)

lemma fasts_count:
  assumes "active (wrapper s) = []"
  shows "breach_count (fst (shadow_run lo (stack_ops clock) (map (\<lambda>x. FastTick (fst x) (snd x)) fs) s)) = breach_count s"
  using assms
proof (induction fs arbitrary: s)
  case (Cons f fs)
  obtain s' r where s: "shadow_step lo (stack_ops clock) (FastTick (fst f) (snd f)) s = (s', r)" by (metis surj_pair)
  show ?case using Cons.IH [of s'] fast_silent(3) [OF s Cons.prems] fast_count [OF s Cons.prems] s
    by (simp add: case_prod_unfold Let_def del: shadow_step.simps)
qed simp

lemma stack_only_append:
  "stack_only lo clock (xs @ ys) s \<longleftrightarrow>
     stack_only lo clock xs s \<and> stack_only lo clock ys (fst (shadow_run lo (stack_ops clock) xs s))"
  by (induction xs arbitrary: s) (simp_all add: case_prod_unfold Let_def)

lemma latched_step:
  assumes "latched (wrapper s)" and "active (wrapper s) = []"
  shows "breach_count (fst (shadow_step lo co (EconTick t st) s)) = breach_count s"
  using assms by (simp add: wrapper_Optimize_def breach_count_def case_prod_unfold Let_def)

lemma engine_loop_silent:
  assumes "active (wrapper s) = []" and "1 \<le> BreachDebounceTicks (tol (wrapper s))"
  shows "list_all silent (snd (shadow_run lo (stack_ops clock) (engine_loop xs) s)) \<and>
    (stack_only lo clock (engine_loop xs) s \<longrightarrow>
       breach_count (fst (shadow_run lo (stack_ops clock) (engine_loop xs) s)) = breach_count s)"
  using assms
proof (induction xs arbitrary: s)
  case (Cons x xs)
  obtain fs f e where x: "x = (fs, f, e)" by (metis prod_cases3)
  obtain s1 r1 where 1: "shadow_run lo (stack_ops clock) (map (\<lambda>x. FastTick (fst x) (snd x)) fs) s = (s1, r1)" by (metis surj_pair)
  have a: "list_all silent r1" "active (wrapper s1) = []" "tol (wrapper s1) = tol (wrapper s)" "breach_count s1 = breach_count s"
    using fasts_silent [OF Cons.prems(1), of lo clock fs] fasts_count [OF Cons.prems(1), of lo clock fs] 1 by simp_all
  obtain s2 r2 where 2: "shadow_step lo (stack_ops clock) (FastTick (fst f) (snd f)) s1 = (s2, r2)" by (metis surj_pair)
  note b = fast_silent [OF 2 a(2)] fast_count [OF 2 a(2)]
  obtain s3 r3 where 3: "shadow_step lo (stack_ops clock) (EconTick (fst e) (snd e)) s2 = (s3, r3)" by (metis surj_pair)
  note c = econ_silent [OF 3 b(3,2)]
  have i: "list_all silent (snd (shadow_run lo (stack_ops clock) (engine_loop xs) s3))"
    "stack_only lo clock (engine_loop xs) s3 \<Longrightarrow>
       breach_count (fst (shadow_run lo (stack_ops clock) (engine_loop xs) s3)) = breach_count s3"
    using Cons.IH [of s3] c a b Cons.prems(2) by simp_all
  have s: "list_all silent (snd (shadow_run lo (stack_ops clock) (engine_loop (x # xs)) s))"
    "fst (shadow_run lo (stack_ops clock) (engine_loop (x # xs)) s) = fst (shadow_run lo (stack_ops clock) (engine_loop xs) s3)"
    using a b c i(1) Cons.prems(2) 1 2 3 by (simp_all add: x shadow_run_append case_prod_unfold Let_def del: shadow_step.simps)
  have "breach_count s3 = breach_count s2" "stack_only lo clock (engine_loop xs) s3" if o: "stack_only lo clock (engine_loop (x # xs)) s"
  proof -
    have k: "Breach (snd (Optimize clock (snd e) (candidate s2))) \<noteq> None" "Breach (snd (leg_Optimize lo (snd e) (legacy s2))) = None"
      "stack_only lo clock (engine_loop xs) s3"
      using o 1 2 3 by (simp_all add: x stack_only_append del: shadow_step.simps)
    show "stack_only lo clock (engine_loop xs) s3" by (rule k(3))
    show "breach_count s3 = breach_count s2"
    proof (cases "latched (wrapper s2)")
      case True
      then show ?thesis using latched_step [of s2 lo "stack_ops clock" "fst e" "snd e"] b(3) 3 by simp
    next
      case False
      then show ?thesis using econ_count(1) [OF 3 b(3) False k(1,2)] b(2,4) a(3) Cons.prems(2) by simp
    qed
  qed
  then show ?case using s i(2) a(4) b(5) by simp
qed simp

text \<open>
  Property C15: the fast protection loop silences the breach comparison. A breach that only the stack
  sees is to count as a divergence once it has lasted for more than the debounce: the full ticks alone
  count every such tick after as many as the debounce has. The comparison of the fast pass, whose plans never carry a
  breach, resets the count: with a fast pass before each full tick, as the engine runs them, no such
  divergence is ever recorded, and the counter of the axis stays, however long the stack reports a
  breach that the optimizer does not.
\<close>

theorem fast_loop_hides_breach_mismatch:
  assumes "active (wrapper s) = []" and "1 \<le> BreachDebounceTicks (tol (wrapper s))"
  shows "list_all silent (snd (shadow_run lo (stack_ops clock) (engine_loop xs) s)) \<and>
    (stack_only lo clock (engine_loop xs) s \<longrightarrow>
       breach_count (fst (shadow_run lo (stack_ops clock) (engine_loop xs) s)) = breach_count s) \<and>
    (\<not> latched (wrapper s) \<and> breachMismatch (wrapper s) = 0 \<and> stack_only lo clock (full_ticks xs) s \<longrightarrow>
       breach_count (fst (shadow_run lo (stack_ops clock) (full_ticks xs) s)) =
         breach_count s + of_nat (length xs - nat (BreachDebounceTicks (tol (wrapper s)))))"
  using engine_loop_silent [OF assms] full_ticks_count [OF assms(1), of 0] by simp

text \<open>The stack of the generation rule alone, under a cap that the site exceeds.\<close>

lemma gen_only_pass:
  assumes "constraints c = [gen_rule cv]"
  shows "rs_gen (rule_store (fst (Optimize clock st c))) =
      fst (gen_tick cv (NewSession gen_Name (stk_tickInterval c)) (tick_input c st) (rs_gen (rule_store c)))"
    and "Breach (snd (Optimize clock st c)) = snd (gen_tick cv (NewSession gen_Name (stk_tickInterval c)) (tick_input c st) (rs_gen (rule_store c)))"
    and "constraints (fst (Optimize clock st c)) = [gen_rule cv]"
  using assms
  by (simp_all add: Optimize_more Optimize_fields tick_post_def tick_pass_def gen_rule_def tick_input_def gen_tick_def post_pass_simps
      recordBreach_def case_prod_unfold Let_def split: option.split)

definition gen_watching :: "int \<Rightarrow> rule_states Stack \<Rightarrow> bool" where
  "gen_watching n c \<longleftrightarrow> constraints c = [gen_rule (\<lambda>_. 0)] \<and> stk_plant c = ex_site \<and> stk_tickInterval c = 0 \<and>
     activeLimitW (rs_gen (rule_store c)) = W 1000 \<and> n \<le> overCount (rs_gen (rule_store c))"

lemma ceased_over: "holds_over (W 1000) (tick_input c (ceased 1000))"
  using ceased_limits [of 1000]
  by (simp add: holds_over_def tick_input_def stack_input_def gen_over_def measuredGenW_def reported_generation_def exportComplianceBreachW_def
      ceased_def home_inverter_def NewGridState_def W_def)

lemma ceased_window:
  "stk_plant c = ex_site \<Longrightarrow> stk_tickInterval c = 0 \<Longrightarrow> detectionWindowTicks cv (tick_input c (ceased 1000)) = 2"
  using ex_site_window [of cv]
  by (simp add: detectionWindowTicks_def tick_input_def stack_input_def ticked_def ceased_def ExportDetectionWindowTicks_def home_inverter_def
      tickSeconds_def)

lemma gen_watching_tick:
  assumes "gen_watching 1 c"
  shows "Breach (snd (Optimize clock (ceased 1000) c)) \<noteq> None" and "gen_watching 1 (fst (Optimize clock (ceased 1000) c))"
proof -
  have c: "constraints c = [gen_rule (\<lambda>_. 0)]" "stk_plant c = ex_site" "stk_tickInterval c = 0" "activeLimitW (rs_gen (rule_store c)) = W 1000"
    "1 \<le> overCount (rs_gen (rule_store c))" using assms by (simp_all add: gen_watching_def)
  note g = gen_tick_over [OF ceased_over [of c] _ c(4), where wide = "\<lambda>_. 0" and sess = "NewSession gen_Name 0"]
  show "Breach (snd (Optimize clock (ceased 1000) c)) \<noteq> None" "gen_watching 1 (fst (Optimize clock (ceased 1000) c))"
    using g c(5) ceased_window [OF c(2,3), of "\<lambda>_. 0"]
    by (auto simp: gen_watching_def gen_only_pass [OF c(1)] Optimize_more(1) Optimize_fields(3) c(2,3) W_def)
qed

lemma cease_plan_breach: "Breach (snd (DefaultOptimizer_Optimize env (ceased w) opt)) = None"
  by (simp add: DefaultOptimizer_Optimize_def csipDisconnectRule_def ceased_def empty_plan_def Let_def)

lemma candidate_step:
  "candidate (fst (shadow_step lo (stack_ops clock) (FastTick t st) s)) = candidate s"
  "candidate (fst (shadow_step lo (stack_ops clock) (EconTick t st) s)) \<in> {candidate s, fst (Optimize clock st (candidate s))}"
  by (simp_all add: wrapper_EvaluateSafety_def wrapper_Optimize_def case_prod_unfold Let_def)

lemma gen_watching_stack_only:
  assumes "gen_watching 1 (candidate s)" and "list_all (\<lambda>x. case x of EconTick t st \<Rightarrow> st = ceased 1000 | FastTick t st \<Rightarrow> True) xs"
  shows "stack_only (default_ops env) clock xs s"
  using assms
proof (induction xs arbitrary: s)
  case (Cons x xs)
  have "gen_watching 1 (candidate (fst (shadow_step (default_ops env) (stack_ops clock) x s)))"
  proof (cases x)
    case (EconTick t st)
    then show ?thesis
      using candidate_step(2) [of "default_ops env" clock t st s] gen_watching_tick(2) [OF Cons.prems(1), of clock] Cons.prems
      by (auto simp del: shadow_step.simps)
  qed (use Cons.prems(1) in \<open>simp add: candidate_step(1) del: shadow_step.simps\<close>)
  then show ?case
    using Cons.IH Cons.prems gen_watching_tick(1) [OF Cons.prems(1), of clock]
    by (auto simp: cease_plan_breach default_ops_def simp del: shadow_step.simps split: hub_event.split)
qed simp

definition gen_shadowed :: "string \<Rightarrow> ConstraintMode" where
  "gen_shadowed key = (if key = ''gen'' then ModeShadow else ModeOff)"

text \<open>The hub with the generation constraint in shadow, after its first full tick; four rounds of its loop.\<close>

definition hub_gen_shadowed :: "(DefaultOptimizer, rule_states Stack) shadowed" where
  "hub_gen_shadowed = fst (shadow_step (default_ops home_env) (stack_ops 1) (EconTick 1 (ceased 1000))
     (hub_shadowed home_env (\<lambda>_. 0) ex_site 0 gen_shadowed ex_eco NewDefaultOptimizer))"

definition four_rounds :: "((gotime \<times> SystemState) list \<times> (gotime \<times> SystemState) \<times> (gotime \<times> SystemState)) list" where
  "four_rounds = [([], (2, ceased 1000), (3, ceased 1000)), ([(4, ceased 1000)], (5, ceased 1000), (6, ceased 1000)),
     ([], (7, ceased 1000), (8, ceased 1000)), ([], (9, ceased 1000), (10, ceased 1000))]"

lemma hub_gen_shadowed_start:
  "gen_watching 1 (candidate hub_gen_shadowed)" "active (wrapper hub_gen_shadowed) = []" "\<not> latched (wrapper hub_gen_shadowed)"
  "breachMismatch (wrapper hub_gen_shadowed) = 0" "BreachDebounceTicks (tol (wrapper hub_gen_shadowed)) = 2" "breach_count hub_gen_shadowed = 0"
proof -
  let ?s = "hub_shadowed home_env (\<lambda>_. 0) ex_site 0 gen_shadowed ex_eco NewDefaultOptimizer"
  let ?c = "candidate ?s" and ?l = "W 1000"
  let ?o = "Optimize 1 (ceased 1000) ?c" and ?lp = "snd (DefaultOptimizer_Optimize home_env (ceased 1000) NewDefaultOptimizer)"
  have w: "active (wrapper ?s) = []" "\<not> latched (wrapper ?s)" "breachMismatch (wrapper ?s) = 0" "tol (wrapper ?s) = DefaultTolerances"
    "axisCounts (wrapper ?s) = (\<lambda>_. 0)" "legacy ?s = NewDefaultOptimizer"
    by (simp_all add: hub_shadowed_def Wrap_def active_entries_def site_constraints_def gen_shadowed_def)
  have c: "constraints ?c = [gen_rule (\<lambda>_. 0)]" "stk_plant ?c = ex_site" "stk_tickInterval ?c = 0" "rs_gen (rule_store ?c) = newGenSession"
    by (simp_all add: hub_shadowed_def shadow_stack_def SetReserveFloor_def NewStack_def shadow_constraints_def site_constraints_def
        gen_shadowed_def new_rule_states_def)
  have l: "effectiveGenLimitW (in_State (tick_input ?c (ceased 1000))) = ?l" "gen_over ?l (in_State (tick_input ?c (ceased 1000)))" "\<not> is_nan ?l"
    using ceased_over [of ?c] by (simp_all add: holds_over_def W_def)
  have o: "gen_over ?l (ceased 1000)" using l(2) by (simp add: tick_input_def stack_input_def)
  have k: "gen_track ?l newGenSession = \<lparr>activeLimitW = ?l, overCount = 0\<rparr>"
    by (simp add: gen_track_def newGenSession_def resetForNewLimit_def)
  note g = gen_tick_fields [OF l(1,3), of "\<lambda>_. 0" "NewSession gen_Name 0" newGenSession, unfolded ceased_window [OF c(2,3)] k]
  have b: "Breach (snd ?o) = None"
    using g(2) by (simp add: gen_only_pass [OF c(1)] c o l(2) gen_count_def)
  have g1: "gen_watching 1 (fst ?o)"
    using g(1) by (simp add: gen_watching_def gen_only_pass [OF c(1)] Optimize_more(1) Optimize_fields(3) c o gen_count_def)
  have s: "hub_gen_shadowed = ?s\<lparr>legacy := fst (DefaultOptimizer_Optimize home_env (ceased 1000) NewDefaultOptimizer), candidate := fst ?o,
      wrapper := fst (compare_plans (ceased 1000) ?lp (snd ?o) '''' (lastAuthors (fst ?o)) (SessionNames (fst ?o)) 1 (wrapper ?s))\<rparr>"
    using w by (simp add: hub_gen_shadowed_def wrapper_Optimize_def default_ops_def case_prod_unfold Let_def)
  show "gen_watching 1 (candidate hub_gen_shadowed)" unfolding s using g1 by simp
  show "active (wrapper hub_gen_shadowed) = []" "\<not> latched (wrapper hub_gen_shadowed)" "BreachDebounceTicks (tol (wrapper hub_gen_shadowed)) = 2"
    using compare_setup [of "ceased 1000" ?lp "snd ?o" "''''"] w by (simp_all add: s same_setup_def DefaultTolerances_def)
  show "breachMismatch (wrapper hub_gen_shadowed) = 0" "breach_count hub_gen_shadowed = 0"
    using w(5) by (simp_all add: s compare_mismatch breach_count_def compare_axes breach_divergences [OF w(1)] diffBreach_def b)
qed

theorem fast_loop_hides_breach_mismatch_witness:
  "list_all silent (snd (shadow_run (default_ops home_env) (stack_ops 1) (engine_loop four_rounds) hub_gen_shadowed)) \<and>
   stack_only (default_ops home_env) 1 (engine_loop four_rounds) hub_gen_shadowed \<and>
   breach_count (fst (shadow_run (default_ops home_env) (stack_ops 1) (engine_loop four_rounds) hub_gen_shadowed)) = 0 \<and>
   breach_count (fst (shadow_run (default_ops home_env) (stack_ops 1) (full_ticks four_rounds) hub_gen_shadowed)) = 2"
proof -
  have "stack_only (default_ops home_env) 1 (engine_loop four_rounds) hub_gen_shadowed"
    "stack_only (default_ops home_env) 1 (full_ticks four_rounds) hub_gen_shadowed"
    by (rule gen_watching_stack_only [OF hub_gen_shadowed_start(1)]; simp add: four_rounds_def full_ticks_def)+
  moreover have "length four_rounds = 4" by (simp add: four_rounds_def)
  ultimately show ?thesis
    using fast_loop_hides_breach_mismatch [OF hub_gen_shadowed_start(2), of "default_ops home_env" 1 four_rounds] hub_gen_shadowed_start(3-6)
    by simp
qed

end
