(* ===== verification/HubMode.thy ===== *)
theory HubMode
  imports ShadowProps
begin

text \<open>
  cmd/hub/mode.go and the loop of internal/orchestrator/engine.go: the switch between the two authors of
  plans, the optimizer and the gateway stack, and the engine that calls the current author on full ticks
  and always the optimizer's safety evaluation between them. The optimizer is a parameter, as for the
  shadow wrapper; the gateway author is a stack.
\<close>

section \<open>The mode manager\<close>

record IntentMeta =
  im_ID :: string
  im_Origin :: string
  im_Actor :: string
  im_IssuedAt :: int64
  im_TTLS :: int

datatype mode_effect =
    JournalModeChange string string string string string
  | GatewayGauge bool
  | WakeEngine
  | PublishMode string int64 string string

record ('o, 's) modeManager =
  hub_mode :: string
  bootSealed :: bool
  mm_optimizer :: 'o
  mm_gateway :: "'s Stack"

definition newModeManager :: "string \<Rightarrow> 'o \<Rightarrow> 's Stack \<Rightarrow> ('o, 's) modeManager \<times> mode_effect list" where
  "newModeManager initialMode opt gw =
     (let mode = (if initialMode \<noteq> ''optimizer'' \<and> initialMode \<noteq> ''gateway'' then ''optimizer'' else initialMode)
      in (\<lparr>hub_mode = mode, bootSealed = False, mm_optimizer = opt, mm_gateway = gw\<rparr>, [GatewayGauge (mode = ''gateway'')]))"

definition mode_Optimize ::
  "'o legacy_ops \<Rightarrow> gotime \<Rightarrow> SystemState \<Rightarrow> ('o, 's) modeManager \<Rightarrow> ('o, 's) modeManager \<times> Plan" where
  "mode_Optimize lo clock st m =
     (if hub_mode m = ''gateway''
      then let (g, p) = Optimize clock st (mm_gateway m) in (m\<lparr>mm_gateway := g\<rparr>, p)
      else let (o', p) = leg_Optimize lo st (mm_optimizer m) in (m\<lparr>mm_optimizer := o'\<rparr>, p))"

definition mode_EvaluateSafety :: "'o legacy_ops \<Rightarrow> SystemState \<Rightarrow> ('o, 's) modeManager \<Rightarrow> ('o, 's) modeManager \<times> Plan" where
  "mode_EvaluateSafety lo st m =
     (let (o', p) = leg_EvaluateSafety lo st (mm_optimizer m) in (m\<lparr>mm_optimizer := o'\<rparr>, p))"

definition publishModeStatus :: "string \<Rightarrow> string \<Rightarrow> string \<Rightarrow> gotime \<Rightarrow> mode_effect" where
  "publishModeStatus mode actor intent now = PublishMode mode (time_unix now) actor intent"

text \<open>A request: the outcome, what is done in order, and the manager.\<close>

definition mode_request ::
  "string \<Rightarrow> IntentMeta \<Rightarrow> gotime \<Rightarrow> ('o, 's) modeManager \<Rightarrow> string \<times> mode_effect list \<times> ('o, 's) modeManager" where
  "mode_request mode meta now m =
     (if hub_mode m = mode then (''duplicate'', [], m)
      else (''applied'',
            [JournalModeChange (hub_mode m) mode (im_Actor meta) (im_Origin meta) (im_ID meta), GatewayGauge (mode = ''gateway''),
             WakeEngine, publishModeStatus mode (im_Actor meta) (im_ID meta) now],
            m\<lparr>hub_mode := mode\<rparr>))"

definition onModeStatus :: "string \<Rightarrow> ('o, 's) modeManager \<Rightarrow> ('o, 's) modeManager \<times> mode_effect list" where
  "onModeStatus mode m =
     (if bootSealed m \<or> mode \<noteq> ''optimizer'' \<and> mode \<noteq> ''gateway'' then (m, [])
      else (m\<lparr>hub_mode := mode\<rparr>, [GatewayGauge (mode = ''gateway'')]))"

definition SealBoot :: "gotime \<Rightarrow> ('o, 's) modeManager \<Rightarrow> ('o, 's) modeManager \<times> mode_effect list" where
  "SealBoot now m = (m\<lparr>bootSealed := True\<rparr>, [publishModeStatus (hub_mode m) '''' '''' now])"

section \<open>The engine's loop\<close>

text \<open>The number of fast ticks per full tick, from the two intervals, and one turn of the loop: a forced
  tick starts the count again.\<close>

definition fast_loop :: "duration \<Rightarrow> duration \<Rightarrow> bool" where
  "fast_loop interval safetyInterval \<longleftrightarrow> 0 < safetyInterval \<and> safetyInterval < interval"

definition econEvery :: "(f64 \<Rightarrow> int) \<Rightarrow> duration \<Rightarrow> duration \<Rightarrow> int" where
  "econEvery cv interval safetyInterval =
     (if fast_loop interval safetyInterval
      then max 1 (go_int cv (fround (fdiv (fl (of_int interval)) (fl (of_int safetyInterval))))) else 1)"

datatype engine_signal = UrgentWake | Ticker
datatype engine_pass = FullTick | SafetyTick

definition engine_turn :: "bool \<Rightarrow> int \<Rightarrow> engine_signal \<Rightarrow> int \<Rightarrow> int \<times> engine_pass" where
  "engine_turn fast every sig n =
     (case sig of
        UrgentWake \<Rightarrow> (0, FullTick)
      | Ticker \<Rightarrow> if \<not> fast \<or> every \<le> n + 1 then (0, FullTick) else (n + 1, SafetyTick))"

fun engine_run :: "bool \<Rightarrow> int \<Rightarrow> engine_signal list \<Rightarrow> int \<Rightarrow> int \<times> engine_pass list" where
  "engine_run fast every [] n = (n, [])"
| "engine_run fast every (s # ss) n =
     (let (n', p) = engine_turn fast every s n; (n'', ps) = engine_run fast every ss n' in (n'', p # ps))"

section \<open>The safety evaluation in gateway mode\<close>

fun mode_step ::
  "'o legacy_ops \<Rightarrow> gotime \<Rightarrow> hub_event \<Rightarrow> ('o, 's) modeManager \<Rightarrow> ('o, 's) modeManager \<times> Plan" where
  "mode_step lo clock (EconTick now st) m = mode_Optimize lo clock st m"
| "mode_step lo clock (FastTick now st) m = mode_EvaluateSafety lo st m"

fun mode_run :: "'o legacy_ops \<Rightarrow> gotime \<Rightarrow> hub_event list \<Rightarrow> ('o, 's) modeManager \<Rightarrow> ('o, 's) modeManager \<times> Plan list" where
  "mode_run lo clock [] m = (m, [])"
| "mode_run lo clock (x # xs) m =
     (let (m', p) = mode_step lo clock x m; (m'', ps) = mode_run lo clock xs m' in (m'', p # ps))"

lemma gateway_mode_run:
  assumes "hub_mode m = ''gateway''"
  shows "hub_mode (fst (mode_run (default_ops env) clock xs m)) = ''gateway'' \<and>
    mm_optimizer (fst (mode_run (default_ops env) clock xs m)) = mm_optimizer m"
  using assms
proof (induction xs arbitrary: m)
  case (Cons x xs)
  have "hub_mode (fst (mode_step (default_ops env) clock x m)) = ''gateway'' \<and>
      mm_optimizer (fst (mode_step (default_ops env) clock x m)) = mm_optimizer m"
    using Cons.prems by (cases x) (simp_all add: mode_Optimize_def mode_EvaluateSafety_def default_ops_def case_prod_unfold Let_def)
  then show ?case using Cons.IH [of "fst (mode_step (default_ops env) clock x m)"] by (simp add: case_prod_unfold Let_def)
qed simp

lemma gateway_mode_stack:
  assumes "hub_mode m = ''gateway''" and "gateway_shaped env' cv policy names (mm_gateway m)"
  shows "gateway_shaped env' cv policy names (mm_gateway (fst (mode_run (default_ops env) clock xs m)))"
  using assms
proof (induction xs arbitrary: m)
  case (Cons x xs)
  have "hub_mode (fst (mode_step (default_ops env) clock x m)) = ''gateway''"
    using Cons.prems(1) by (cases x) (simp_all add: mode_Optimize_def mode_EvaluateSafety_def case_prod_unfold Let_def)
  moreover have "gateway_shaped env' cv policy names (mm_gateway (fst (mode_step (default_ops env) clock x m)))"
    using Cons.prems gateway_shaped_tick
    by (cases x) (auto simp: mode_Optimize_def mode_EvaluateSafety_def case_prod_unfold Let_def)
  ultimately show ?case using Cons.IH [of "fst (mode_step (default_ops env) clock x m)"] by (simp add: case_prod_unfold Let_def)
qed simp

text \<open>
  Property C5: in gateway mode the safety evaluation trips packs that obey the utility. It is always the
  optimizer's, which infers the intent from the last command of the optimizer itself, and gateway mode
  never updates that. A pack the optimizer last told to charge, which the gateway's plan then tells to
  supply the utility's fixed power and which does so near the reserve, is disconnected by the next fast
  pass, however long the gateway has been in charge.
\<close>

theorem gateway_dispatch_tripped:
  assumes "hub_mode m = ''gateway''" and "gateway_shaped env' cv policy names (mm_gateway m)"
    and "lastBattCmd (mm_optimizer m) n = Some charge" and "flt charge (Fin 0)"
    and "distinct (dn_Batteries names)" and "n \<in> set (dn_Batteries names)" and "uncapped st" and "fixed_of (CSIPControl st) = Fin q"
    and "b \<in> set (Batteries st')" and "bs_Name b = n" and "bs_Connected b" and "bs_PowerW b = Fin q" and "100 < q"
    and "\<not> is_nan (bs_SOC b)" and "fle (bs_SOC b) (fadd (SOCReserve (mm_optimizer m)) (Fin 5))"
    and "mode_run (default_ops env) clock (before @ [EconTick t st, FastTick t' st']) m = (m', ps @ [plan, safety])"
    and "length ps = length before"
  shows "(\<exists>c \<in> set (BatteryCommands plan). bc_Name c = n \<and> (disconnects c \<or> bc_SetpointW c = Fin q)) \<and>
    (\<exists>c \<in> set (BatteryCommands safety). bc_Name c = n \<and> disconnects c)"
proof -
  have app: "mode_run lo clock (xs @ ys) k = (let (m', ps) = mode_run lo clock xs k; (m'', qs) = mode_run lo clock ys m' in (m'', ps @ qs))"
    for lo :: "DefaultOptimizer legacy_ops" and xs ys and k :: "(DefaultOptimizer, rule_states) modeManager"
    by (induction xs arbitrary: k) (simp_all add: case_prod_unfold Let_def)
  have len: "length (snd (mode_run lo clock xs k)) = length xs"
    for lo :: "DefaultOptimizer legacy_ops" and xs and k :: "(DefaultOptimizer, rule_states) modeManager"
    by (induction xs arbitrary: k) (simp_all add: case_prod_unfold Let_def)
  let ?k = "fst (mode_run (default_ops env) clock before m)"
  have k: "hub_mode ?k = ''gateway''" "mm_optimizer ?k = mm_optimizer m" using gateway_mode_run [OF assms(1)] by blast+
  have "plan = snd (Optimize clock st (mm_gateway ?k))"
    and s: "safety = DefaultOptimizer_EvaluateSafety (mm_optimizer m) st'"
    using assms(16,17) len [of "default_ops env" before m] k
    by (auto simp: app mode_Optimize_def mode_EvaluateSafety_def default_ops_def case_prod_unfold Let_def)
  moreover have "gateway_shaped env' cv policy names (mm_gateway ?k)" by (rule gateway_mode_stack [OF assms(1,2)])
  ultimately have "\<exists>c \<in> set (BatteryCommands plan). bc_Name c = n \<and> (disconnects c \<or> bc_SetpointW c = Fin q)"
    using gateway_battery_command [OF _ assms(5,7,8,6)] by blast
  moreover have "opt_criticalBatteryInversion (bs_PowerW b) (bs_SOC b) (SOCReserve (mm_optimizer m))
      (chargeCommandedFor (mm_optimizer m) (bs_Name b) (empty_plan (st_Timestamp st')))"
    using assms(3,4,10,12-15)
    by (simp add: opt_criticalBatteryInversion_def chargeCommandedFor_def empty_plan_def complianceBreachW_def command_of_def)
  then have "\<exists>c \<in> set (BatteryCommands safety). bc_Name c = n \<and> disconnects c"
    using assms(9-11) by (force simp: s DefaultOptimizer_EvaluateSafety_def batt_cmd_def disconnects_def)
  ultimately show ?thesis ..
qed

definition charged_manager :: "(DefaultOptimizer, rule_states) modeManager" where
  "charged_manager =
     \<lparr>hub_mode = ''gateway'', bootSealed = True, mm_optimizer = NewDefaultOptimizer\<lparr>lastBattCmd := [''pack'' \<mapsto> Fin (- 1000)]\<rparr>,
      mm_gateway = gateway_stack home_env (\<lambda>_. 0) ex_site 0 (Fin 20) owner house\<rparr>"

definition supplying :: SystemState where
  "supplying = (ordered 3000)\<lparr>Batteries := [home_pack\<lparr>bs_PowerW := Fin 3000, bs_SOC := Fin 22\<rparr>]\<rparr>"

theorem gateway_dispatch_tripped_witness:
  "\<exists>m' plan safety.
     mode_run (default_ops home_env) 1 [EconTick 1 (ordered 3000), FastTick 2 supplying] charged_manager = (m', [plan, safety]) \<and>
     (\<exists>c \<in> set (BatteryCommands plan). bc_Name c = ''pack'' \<and> (disconnects c \<or> bc_SetpointW c = Fin 3000)) \<and>
     (\<exists>c \<in> set (BatteryCommands safety). bc_Name c = ''pack'' \<and> disconnects c)"
proof -
  obtain m' plan safety where r: "mode_run (default_ops home_env) 1 [EconTick 1 (ordered 3000), FastTick 2 supplying] charged_manager = (m', [plan, safety])"
    by (simp add: case_prod_unfold Let_def)
  have f: "fixed_of (CSIPControl (ordered 3000)) = Fin 3000" using ordered_fields(4) [of 3000] by (simp add: ordered_fields W_def)
  have fl: "fadd (Fin 20) (Fin 5) = Fin 25" by simp
  show ?thesis
    using r gateway_dispatch_tripped [where env = home_env and clock = 1 and m = charged_manager and env' = home_env and cv = "\<lambda>_. 0"
        and policy = owner and names = house and n = "''pack''" and charge = "Fin (- 1000)" and st = "ordered 3000" and q = 3000
        and b = "home_pack\<lparr>bs_PowerW := Fin 3000, bs_SOC := Fin 22\<rparr>" and st' = supplying and before = "[]" and t = 1 and t' = 2
        and m' = m' and ps = "[]" and plan = plan and safety = safety, OF _ _ _ _ _ _ ordered_fields(2) f]
    by (simp add: charged_manager_def house_def supplying_def home_pack_def NewBatteryState_def NewDefaultOptimizer_def del: mode_run.simps)
qed

section \<open>The mode after boot\<close>

datatype mode_event = Request string IntentMeta gotime | ModeStatusMessage string | Pass hub_event

fun mode_react :: "'o legacy_ops \<Rightarrow> gotime \<Rightarrow> mode_event \<Rightarrow> ('o, 's) modeManager \<Rightarrow> ('o, 's) modeManager" where
  "mode_react lo clock (Request mode meta now) m = snd (snd (mode_request mode meta now m))"
| "mode_react lo clock (ModeStatusMessage mode) m = fst (onModeStatus mode m)"
| "mode_react lo clock (Pass x) m = fst (mode_step lo clock x m)"

fun requested :: "mode_event list \<Rightarrow> string \<Rightarrow> string" where
  "requested [] mode = mode"
| "requested (Request r _ _ # xs) mode = requested xs r"
| "requested (_ # xs) mode = requested xs mode"

text \<open>
  After boot only a request changes the author. Once the boot is sealed the mode is that
  of the last request, whatever status messages arrive in between.
\<close>

theorem mode_only_by_request:
  "hub_mode (fold (mode_react lo clock) xs (fst (SealBoot now m))) = requested xs (hub_mode m)"
proof -
  have "hub_mode (fold (mode_react lo clock) xs k) = requested xs (hub_mode k)" if "bootSealed k" for k :: "('a, 'b) modeManager"
    using that
  proof (induction xs arbitrary: k)
    case (Cons x xs)
    have "bootSealed (mode_react lo clock x k)" "hub_mode (mode_react lo clock x k) = requested [x] (hub_mode k)"
    proof (atomize(full), cases x)
      case (Pass e)
      then show "bootSealed (mode_react lo clock x k) \<and> hub_mode (mode_react lo clock x k) = requested [x] (hub_mode k)"
        using Cons.prems by (cases e) (simp_all add: mode_Optimize_def mode_EvaluateSafety_def case_prod_unfold Let_def)
    qed (use Cons.prems in \<open>simp_all add: mode_request_def onModeStatus_def\<close>)
    then show ?case using Cons.IH by (cases x) simp_all
  qed simp
  then show ?thesis by (simp add: SealBoot_def)
qed

section \<open>The cadence of full ticks\<close>

lemma full_tick_due:
  assumes "every \<le> n + int (length ss)" and "ss \<noteq> []"
  shows "FullTick \<in> set (snd (engine_run fast every ss n))"
  using assms
proof (induction ss arbitrary: n)
  case (Cons s ss)
  show ?case
  proof (cases "snd (engine_turn fast every s n) = FullTick")
    case True
    then show ?thesis by (cases "engine_turn fast every s n") (simp add: case_prod_unfold Let_def)
  next
    case False
    then have t: "engine_turn fast every s n = (n + 1, SafetyTick)" "n + 1 < every"
      by (auto simp: engine_turn_def split: engine_signal.splits if_splits)
    then have "ss \<noteq> []" using Cons.prems(1) by auto
    then show ?thesis using Cons.IH [of "n + 1"] Cons.prems(1) t by (simp add: case_prod_unfold Let_def)
  qed
qed simp

lemma engine_run_append: "engine_run fast every (xs @ ys) n =
    (let (n', ps) = engine_run fast every xs n; (n'', qs) = engine_run fast every ys n' in (n'', ps @ qs))"
  by (induction xs arbitrary: n) (simp_all add: case_prod_unfold Let_def)

lemma engine_run_length [simp]: "length (snd (engine_run fast every xs n)) = length xs"
  by (induction xs arbitrary: n) (simp_all add: case_prod_unfold Let_def)

lemma engine_count: "0 \<le> n \<Longrightarrow> 0 \<le> fst (engine_run fast every xs n)"
proof (induction xs arbitrary: n)
  case (Cons x xs)
  have "0 \<le> fst (engine_turn fast every x n)" using Cons.prems by (simp add: engine_turn_def split: engine_signal.split)
  then show ?case using Cons.IH by (simp add: case_prod_unfold Let_def)
qed simp

text \<open>
  Property C37: full ticks come at their interval. In every run of the engine's loop, however ticks and
  forced wakes are mixed, any stretch of as many turns as there are fast ticks per interval holds a full
  tick.
\<close>

theorem full_tick_in_every_interval:
  assumes "ss = before @ window @ after" and "int (length window) = econEvery cv interval safetyInterval"
  shows "FullTick \<in> set (take (length window) (drop (length before)
    (snd (engine_run (fast_loop interval safetyInterval) (econEvery cv interval safetyInterval) ss 0))))"
proof -
  let ?f = "fast_loop interval safetyInterval" and ?e = "econEvery cv interval safetyInterval"
  let ?n = "fst (engine_run ?f ?e before 0)"
  have "1 \<le> ?e" by (simp add: econEvery_def)
  then have w: "window \<noteq> []" using assms(2) by auto
  have "FullTick \<in> set (snd (engine_run ?f ?e window ?n))"
    by (rule full_tick_due [OF _ w]) (use assms(2) engine_count [of 0 ?f ?e before] in simp)
  moreover have "take (length window) (drop (length before) (snd (engine_run ?f ?e ss 0))) = snd (engine_run ?f ?e window ?n)"
    by (simp add: assms(1) engine_run_append case_prod_unfold Let_def)
  ultimately show ?thesis by simp
qed

theorem full_tick_in_every_interval_witness:
  "FullTick \<in> set (take 3 (drop 2 (snd (engine_run (fast_loop (3 * second) second) (econEvery (\<lambda>_. 0) (3 * second) second)
     [Ticker, UrgentWake, Ticker, Ticker, Ticker, Ticker] 0))))"
proof -
  have "\<lfloor>7 / 2 :: rat\<rfloor> = 3" by (simp add: floor_eq_iff)
  then have e: "econEvery (\<lambda>_. 0) (3 * second) second = 3"
    by (simp add: econEvery_def fast_loop_def second_def go_int_def fround_def in_int64_def Let_def)
  show ?thesis
    using full_tick_in_every_interval [of "[Ticker, UrgentWake, Ticker, Ticker, Ticker, Ticker]" "[Ticker, UrgentWake]" "[Ticker, Ticker, Ticker]"
        "[Ticker]" "\<lambda>_. 0" "3 * second" second]
    unfolding e by (simp add: numeral_2_eq_2 numeral_3_eq_3 del: engine_run.simps)
qed

end
