(* ===== verification/HubReader.thy ===== *)
theory HubReader
  imports SiteModel UtilityTime
begin

text \<open>
  cmd/hub/state.go and the limits half of cmd/hub/openadr_adopt.go: the reader that keeps what the bus
  delivers (measurements, battery metrics, charging points, the utility's control, the capacity limits
  of OpenADR) and assembles the state of the site the engine plans on. A time stamp is an
  optional reading of the clock, \<open>None\<close> for Go's zero time; every operation takes the reading
  \<open>time.Now\<close> returns during it. The loop over the charging points follows the order in which Go
  visits the map's keys, an argument. The journal is the list of the events appended, or \<open>None\<close>
  when there is none; the requests for a new walk are the list of their reasons. Log lines and the
  mutex are not modelled.
\<close>

section \<open>Messages and configuration\<close>

record DeviceConfig =
  dc_Name :: string
  dc_Role :: string
  dc_MaxW :: f64

record Measurement =
  m_Device :: string
  m_W :: "f64 option"
  m_VoltageV :: "f64 option"
  m_Hz :: "f64 option"

record BattMetrics =
  bm_SOC :: "f64 option"
  bm_SOH :: "f64 option"
  bm_CapacityWh :: "f64 option"
  bm_MaxChargeW :: "f64 option"
  bm_MaxDischargeW :: "f64 option"

record EVSEMsg =
  em_StationID :: string
  em_ConnectorID :: int
  em_Connected :: bool
  em_SessionActive :: bool
  em_CurrentA :: "f64 option"
  em_MaxCurrentA :: "f64 option"
  em_VoltageV :: "f64 option"
  em_PowerW :: "f64 option"
  em_SOC :: "f64 option"
  em_EnergyWh :: "f64 option"
  em_Status :: string

record DefaultDERControlMsg =
  df_MRID :: string
  df_Connect :: "bool option"
  df_Energize :: "bool option"
  df_ExpLimW :: "f64 option"
  df_ImpLimW :: "f64 option"
  df_MaxLimW :: "f64 option"
  df_GenLimW :: "f64 option"
  df_LoadLimW :: "f64 option"
  df_FixedW :: "f64 option"

text \<open>The fields of the retained control message that the reader reads.\<close>

record ControlMsg =
  ac_Source :: string
  ac_MRID :: string
  ac_Connect :: "bool option"
  ac_ExpLimW :: "f64 option"
  ac_ImpLimW :: "f64 option"
  ac_MaxLimW :: "f64 option"
  ac_FixedW :: "f64 option"
  ac_ClockOffset :: int64
  ac_ValidUntil :: int64
  ac_Energize :: "bool option"
  ac_GenLimW :: "f64 option"
  ac_LoadLimW :: "f64 option"
  DefaultFallback :: "DefaultDERControlMsg option"
  ServerTs :: int64
  ac_Ts :: int64

record OpenADRLimits =
  ol_ImpLimW :: "f64 option"
  ol_ExpLimW :: "f64 option"
  ol_ValidUntil :: int64

section \<open>The reader's state\<close>

definition measStaleAfter :: duration where "measStaleAfter = 60 * second"
definition evseStaleAfter :: duration where "evseStaleAfter = 90 * second"
definition meterFrozenAfter :: duration where "meterFrozenAfter = 30 * second"
definition meterFrozenNoiseW :: f64 where "meterFrozenNoiseW = Fin 10"
definition solarMovingWindow :: duration where "solarMovingWindow = 20 * second"
definition expiryConfirmWindowS :: f64 where "expiryConfirmWindowS = Fin 9"
definition rewalkRateLimit :: duration where "rewalkRateLimit = 10 * second"
definition openADRBindEps :: f64 where "openADRBindEps = Fin 1"

definition since :: "reading \<Rightarrow> reading \<Rightarrow> duration" where
  "since now t = time_sub (mono now) (mono t)"

definition confirmTicksFor :: "(f64 \<Rightarrow> int) \<Rightarrow> duration \<Rightarrow> int" where
  "confirmTicksFor cv engineInterval =
     (let iv = (if engineInterval \<le> 0 then 15 * second else engineInterval)
      in max 2 (go_int cv (fceil (fdiv expiryConfirmWindowS (dur_seconds iv)))))"

record measSnapshot =
  ms_W :: f64
  ms_V :: f64
  ms_Hz :: f64
  ms_at :: "reading option"
  wChangedAt :: "reading option"

text \<open>Go's zero value, which a device outside the configuration starts with.\<close>

definition zero_snapshot :: measSnapshot where
  "zero_snapshot = \<lparr>ms_W = Fin 0, ms_V = Fin 0, ms_Hz = Fin 0, ms_at = None, wChangedAt = None\<rparr>"

definition meas_fresh :: "reading \<Rightarrow> measSnapshot \<Rightarrow> bool" where
  "meas_fresh now s \<longleftrightarrow> (case ms_at s of None \<Rightarrow> False | Some t \<Rightarrow> since now t \<le> measStaleAfter)"

definition frozenW :: "reading \<Rightarrow> measSnapshot \<Rightarrow> bool" where
  "frozenW now s \<longleftrightarrow>
     meas_fresh now s \<and> (case wChangedAt s of None \<Rightarrow> False | Some t \<Rightarrow> meterFrozenAfter < since now t)"

record evseSnapshot =
  esn_msg :: EVSEMsg
  esn_at :: reading

definition evse_fresh :: "reading \<Rightarrow> evseSnapshot \<Rightarrow> bool" where
  "evse_fresh now s \<longleftrightarrow> since now (esn_at s) \<le> evseStaleAfter"

record openADRLimitsSnapshot =
  have_limits :: bool
  impLimW :: f64
  expLimW :: f64
  validUntil :: int64

datatype jevent =
    ControlReleased string string int64
  | ControlAdopted ControlMsg int64

record MQTTSystemReader =
  lastMeas :: "string \<rightharpoonup> measSnapshot"
  lastBattMet :: "string \<rightharpoonup> BattMetrics"
  lastEVSE :: "string \<rightharpoonup> evseSnapshot"
  lastCSIP :: "ControlMsg option"
  clockOffset :: int64
  utclk :: Clock
  clockStepped :: bool
  lastCSIPMRID :: string
  lastCSIPChangedAt :: "reading option"
  expiry :: DebouncedExpiry
  stale :: "string list"
  devices :: "DeviceConfig list"
  hub_journal :: "jevent list option"
  retainedAdoptionMaxAge :: duration
  lastCSIPStaleSuspect :: bool
  rewalks :: "string list option"
  lastRewalkPublish :: "reading option"
  openADRLimits :: openADRLimitsSnapshot
  openADRBindImport :: bool
  openADRBindExport :: bool
  openADRLimitsExpiredLogged :: bool

definition newMQTTSystemReader :: "(f64 \<Rightarrow> int) \<Rightarrow> DeviceConfig list \<Rightarrow> duration \<Rightarrow> bool \<Rightarrow> MQTTSystemReader" where
  "newMQTTSystemReader cv devs engineInterval jw =
     \<lparr>lastMeas = map_of (map (\<lambda>d. (dc_Name d, \<lparr>ms_W = NaN, ms_V = NaN, ms_Hz = NaN, ms_at = None, wChangedAt = None\<rparr>)) devs),
      lastBattMet = Map.empty, lastEVSE = Map.empty, lastCSIP = None, clockOffset = 0, utclk = New 0 0,
      clockStepped = False, lastCSIPMRID = '''', lastCSIPChangedAt = None,
      expiry = \<lparr>Confirm = confirmTicksFor cv engineInterval, count = 0\<rparr>, stale = [], devices = devs,
      hub_journal = (if jw then Some [] else None), retainedAdoptionMaxAge = 0, lastCSIPStaleSuspect = False,
      rewalks = None, lastRewalkPublish = None,
      openADRLimits = \<lparr>have_limits = False, impLimW = Fin 0, expLimW = Fin 0, validUntil = 0\<rparr>,
      openADRBindImport = False, openADRBindExport = False, openADRLimitsExpiredLogged = False\<rparr>"

definition SetRetainedAdoptionMaxAge :: "duration \<Rightarrow> MQTTSystemReader \<Rightarrow> MQTTSystemReader" where
  "SetRetainedAdoptionMaxAge d r = r\<lparr>retainedAdoptionMaxAge := d\<rparr>"

definition SetRewalkHandler :: "MQTTSystemReader \<Rightarrow> MQTTSystemReader" where
  "SetRewalkHandler r = r\<lparr>rewalks := Some []\<rparr>"

text \<open>\<open>requestRewalkLocked\<close> and its locked wrapper.\<close>

definition RequestRewalk :: "reading \<Rightarrow> string \<Rightarrow> MQTTSystemReader \<Rightarrow> MQTTSystemReader" where
  "RequestRewalk now reason r =
     (case rewalks r of
        None \<Rightarrow> r
      | Some ws \<Rightarrow>
          if (case lastRewalkPublish r of None \<Rightarrow> False | Some t \<Rightarrow> since now t < rewalkRateLimit) then r
          else r\<lparr>lastRewalkPublish := Some now, rewalks := Some (ws @ [reason])\<rparr>)"

section \<open>Arriving messages\<close>

definition measured_W :: "reading \<Rightarrow> f64 option \<Rightarrow> measSnapshot \<Rightarrow> measSnapshot" where
  "measured_W now w s =
     (case w of
        None \<Rightarrow> s
      | Some x \<Rightarrow>
          s\<lparr>wChangedAt := if is_nan (ms_W s) \<or> flt meterFrozenNoiseW (fabs (fsub x (ms_W s))) then Some now else wChangedAt s,
            ms_W := x\<rparr>)"

definition onMeasurement :: "reading \<Rightarrow> Measurement \<Rightarrow> MQTTSystemReader \<Rightarrow> MQTTSystemReader" where
  "onMeasurement now msg r =
     (let s = (case lastMeas r (m_Device msg) of None \<Rightarrow> zero_snapshot | Some s \<Rightarrow> s);
          s = measured_W now (m_W msg) s;
          s = (case m_VoltageV msg of None \<Rightarrow> s | Some v \<Rightarrow> s\<lparr>ms_V := v\<rparr>);
          s = (case m_Hz msg of None \<Rightarrow> s | Some h \<Rightarrow> s\<lparr>ms_Hz := h\<rparr>)
      in r\<lparr>lastMeas := (lastMeas r)(m_Device msg \<mapsto> s\<lparr>ms_at := Some now\<rparr>)\<rparr>)"

definition onBattMetrics :: "string \<Rightarrow> BattMetrics \<Rightarrow> MQTTSystemReader \<Rightarrow> MQTTSystemReader" where
  "onBattMetrics dev msg r = r\<lparr>lastBattMet := (lastBattMet r)(dev \<mapsto> msg)\<rparr>"

definition controlIsReal :: "ControlMsg option \<Rightarrow> bool" where
  "controlIsReal c = (case c of None \<Rightarrow> False | Some m \<Rightarrow> ac_Source m \<noteq> '''' \<and> ac_Source m \<noteq> ''none'')"

definition serverTsOf :: "ControlMsg \<Rightarrow> int64" where
  "serverTsOf msg = (if ServerTs msg \<noteq> 0 then ServerTs msg else wrap64 (ac_Ts msg + ac_ClockOffset msg))"

definition floatPtrEqual :: "f64 option \<Rightarrow> f64 option \<Rightarrow> bool" where
  "floatPtrEqual a b = (case (a, b) of (Some x, Some y) \<Rightarrow> feq x y | (None, None) \<Rightarrow> True | _ \<Rightarrow> False)"

definition controlChanged :: "ControlMsg option \<Rightarrow> ControlMsg \<Rightarrow> bool" where
  "controlChanged prev cur =
     (case prev of
        None \<Rightarrow> True
      | Some p \<Rightarrow>
          ac_Source p \<noteq> ac_Source cur \<or> ac_MRID p \<noteq> ac_MRID cur \<or> ac_Connect p \<noteq> ac_Connect cur \<or>
          \<not> floatPtrEqual (ac_ExpLimW p) (ac_ExpLimW cur) \<or> \<not> floatPtrEqual (ac_ImpLimW p) (ac_ImpLimW cur) \<or>
          \<not> floatPtrEqual (ac_MaxLimW p) (ac_MaxLimW cur) \<or> \<not> floatPtrEqual (ac_FixedW p) (ac_FixedW cur) \<or>
          ac_ValidUntil p \<noteq> ac_ValidUntil cur)"

definition journal_append :: "jevent list \<Rightarrow> MQTTSystemReader \<Rightarrow> MQTTSystemReader" where
  "journal_append es r = r\<lparr>hub_journal := map_option (\<lambda>j. j @ es) (hub_journal r)\<rparr>"

definition journalControlChange :: "ControlMsg option \<Rightarrow> ControlMsg \<Rightarrow> MQTTSystemReader \<Rightarrow> MQTTSystemReader" where
  "journalControlChange prev cur r =
     (if hub_journal r = None \<or> \<not> controlChanged prev cur then r
      else let isReal = controlIsReal (Some cur); srvT = wrap64 (ac_Ts cur + ac_ClockOffset cur);
               released = (case prev of
                   None \<Rightarrow> []
                 | Some p \<Rightarrow> if controlIsReal prev \<and> (\<not> isReal \<or> ac_MRID p \<noteq> ac_MRID cur)
                            then [ControlReleased (ac_MRID p) (if isReal then ''replaced'' else ''cleared'') srvT] else [])
           in journal_append (released @ (if isReal then [ControlAdopted cur srvT] else [])) r)"

text \<open>The whole seconds of a duration, as \<open>int64(d.Seconds())\<close> gives them.\<close>

definition whole_seconds :: "duration \<Rightarrow> int64" where
  "whole_seconds d = f64_to_int64 (duration_seconds d)"

definition onCSIPControl :: "reading \<Rightarrow> ControlMsg \<Rightarrow> MQTTSystemReader \<Rightarrow> MQTTSystemReader" where
  "onCSIPControl now msg r0 =
     (let r = r0\<lparr>lastCSIP := Some msg, clockOffset := ac_ClockOffset msg\<rparr>;
          anchorTs = serverTsOf msg;
          prevServerNow = ServerNow (utclk r) now;
          r = r\<lparr>utclk := Anchor (utclk r) anchorTs now\<rparr>;
          r = (if ac_MRID msg \<noteq> lastCSIPMRID r then r\<lparr>lastCSIPMRID := ac_MRID msg, lastCSIPChangedAt := Some now\<rparr> else r);
          r = journalControlChange (lastCSIP r0) msg r;
          r = r\<lparr>lastCSIPStaleSuspect := False\<rparr>
      in if controlIsReal (Some msg) \<and> 0 < retainedAdoptionMaxAge r \<and>
            whole_seconds (retainedAdoptionMaxAge r) < wrap64 (prevServerNow - anchorTs)
         then RequestRewalk now ''stale'' (r\<lparr>lastCSIPStaleSuspect := True\<rparr>) else r)"

definition ControlAdoptionAge :: "reading \<Rightarrow> MQTTSystemReader \<Rightarrow> duration" where
  "ControlAdoptionAge now r = (case lastCSIPChangedAt r of None \<Rightarrow> 0 | Some t \<Rightarrow> since now t)"

text \<open>The reader keeps one charging point per station.\<close>

definition onEVSEState :: "reading \<Rightarrow> EVSEMsg \<Rightarrow> MQTTSystemReader \<Rightarrow> MQTTSystemReader \<times> bool" where
  "onEVSEState now msg r =
     (let before = (case lastEVSE r (em_StationID msg) of None \<Rightarrow> False | Some s \<Rightarrow> em_SessionActive (esn_msg s))
      in (r\<lparr>lastEVSE := (lastEVSE r)(em_StationID msg \<mapsto> \<lparr>esn_msg = msg, esn_at = now\<rparr>)\<rparr>, em_SessionActive msg \<and> \<not> before))"

definition onOpenADRLimits :: "OpenADRLimits \<Rightarrow> MQTTSystemReader \<Rightarrow> MQTTSystemReader" where
  "onOpenADRLimits msg r =
     r\<lparr>openADRLimits := \<lparr>have_limits = True,
        impLimW = (case ol_ImpLimW msg of None \<Rightarrow> NaN | Some w \<Rightarrow> w),
        expLimW = (case ol_ExpLimW msg of None \<Rightarrow> NaN | Some w \<Rightarrow> w),
        validUntil = ol_ValidUntil msg\<rparr>\<rparr>"

section \<open>Conversions\<close>

text \<open>\<open>int16\<close> of a float out of range is left open by the language (\<open>cv\<close>).\<close>

definition go_int16 :: "(f64 \<Rightarrow> int) \<Rightarrow> f64 \<Rightarrow> int" where
  "go_int16 cv x =
     (case x of Fin q \<Rightarrow> let n = (if q < 0 then - \<lfloor>- q\<rfloor> else \<lfloor>q\<rfloor>) in if - 32768 \<le> n \<and> n \<le> 32767 then n else cv x
      | _ \<Rightarrow> cv x)"

definition beyond16 :: "f64 \<Rightarrow> bool" where
  "beyond16 w \<longleftrightarrow> flt (Fin 32767) w \<or> flt w (Fin (- 32768))"

fun scale_down :: "nat \<Rightarrow> int \<Rightarrow> f64 \<Rightarrow> f64 \<times> int" where
  "scale_down 0 m10 w = (w, m10)"
| "scale_down (Suc k) m10 w = (if beyond16 w then scale_down k (m10 + 1) (fdiv w (Fin 10)) else (w, m10))"

definition wattsToActivePower :: "(f64 \<Rightarrow> int) \<Rightarrow> f64 \<Rightarrow> ActivePower" where
  "wattsToActivePower cv w =
     (let (v, m10) = scale_down 9 0 w in \<lparr>ap_Multiplier = m10, ap_Value = go_int16 cv (fround v)\<rparr>)"

definition busToCSIPControl :: "(f64 \<Rightarrow> int) \<Rightarrow> ControlMsg \<Rightarrow> CSIPControlState option" where
  "busToCSIPControl cv msg =
     (if ac_Source msg = ''none'' \<or> ac_Source msg = '''' then None
      else Some \<lparr>cc_Source = ac_Source msg, cc_MRID = ac_MRID msg,
        cc_Base = no_base\<lparr>OpModConnect := ac_Connect msg,
          OpModExpLimW := map_option (wattsToActivePower cv) (ac_ExpLimW msg),
          OpModImpLimW := map_option (wattsToActivePower cv) (ac_ImpLimW msg),
          OpModMaxLimW := map_option (wattsToActivePower cv) (ac_MaxLimW msg),
          OpModFixedW := map_option (wattsToActivePower cv) (ac_FixedW msg)\<rparr>,
        cc_ValidUntil = ac_ValidUntil msg\<rparr>)"

definition deref :: "f64 option \<Rightarrow> f64" where
  "deref p = (case p of None \<Rightarrow> Fin 0 | Some x \<Rightarrow> x)"

definition busToEVSEState :: "EVSEMsg \<Rightarrow> EVSEState" where
  "busToEVSEState msg =
     \<lparr>es_StationID = em_StationID msg, es_ConnectorID = em_ConnectorID msg, es_Connected = em_Connected msg,
      es_SessionActive = em_SessionActive msg, es_CurrentA = deref (em_CurrentA msg), es_MaxCurrentA = deref (em_MaxCurrentA msg),
      es_VoltageV = deref (em_VoltageV msg), es_PowerW = deref (em_PowerW msg), es_Status = em_Status msg,
      es_SOC = (case em_SOC msg of None \<Rightarrow> NaN | Some x \<Rightarrow> x), es_EnergyWh = deref (em_EnergyWh msg)\<rparr>"

section \<open>Assembling the state\<close>

definition snap_of :: "MQTTSystemReader \<Rightarrow> string \<Rightarrow> measSnapshot" where
  "snap_of r n = (case lastMeas r n of None \<Rightarrow> zero_snapshot | Some s \<Rightarrow> s)"

definition noteStaleness :: "string \<Rightarrow> measSnapshot \<Rightarrow> reading \<Rightarrow> string list \<Rightarrow> string list" where
  "noteStaleness n s now st =
     (case ms_at s of
        None \<Rightarrow> st
      | Some t \<Rightarrow> if measStaleAfter < since now t then List.insert n st else removeAll n st)"

definition worldMoving :: "reading \<Rightarrow> MQTTSystemReader \<Rightarrow> bool" where
  "worldMoving now r = list_ex (\<lambda>d. (dc_Role d = ''inverter'' \<or> dc_Role d = ''battery'') \<and>
     (case wChangedAt (snap_of r (dc_Name d)) of None \<Rightarrow> False | Some t \<Rightarrow> since now t < solarMovingWindow)) (devices r)"

definition measured :: "reading \<Rightarrow> measSnapshot \<Rightarrow> bool" where
  "measured now s \<longleftrightarrow> meas_fresh now s \<and> \<not> is_nan (ms_W s)"

definition battery_seen :: "reading \<Rightarrow> DeviceConfig \<Rightarrow> measSnapshot \<Rightarrow> BatteryState" where
  "battery_seen now dc s =
     (let b = NewBatteryState (dc_Name dc);
          b = (if measured now s then b\<lparr>bs_PowerW := ms_W s, bs_Connected := True, bs_Energized := True\<rparr> else b)
      in b\<lparr>bs_MaxChargeW := dc_MaxW dc, bs_MaxDischargeW := dc_MaxW dc\<rparr>)"

definition or_keep :: "f64 option \<Rightarrow> f64 \<Rightarrow> f64" where
  "or_keep x d = (case x of None \<Rightarrow> d | Some v \<Rightarrow> v)"

definition or_positive :: "f64 option \<Rightarrow> f64 \<Rightarrow> f64" where
  "or_positive x d = (case x of None \<Rightarrow> d | Some v \<Rightarrow> if flt (Fin 0) v then v else d)"

definition battery_metrics :: "BattMetrics option \<Rightarrow> BatteryState \<Rightarrow> BatteryState" where
  "battery_metrics bm b =
     (case bm of
        None \<Rightarrow> b
      | Some m \<Rightarrow> b\<lparr>bs_SOC := or_keep (bm_SOC m) (bs_SOC b), bs_SOH := or_keep (bm_SOH m) (bs_SOH b),
          bs_CapacityWh := or_keep (bm_CapacityWh m) (bs_CapacityWh b),
          bs_MaxChargeW := or_positive (bm_MaxChargeW m) (bs_MaxChargeW b),
          bs_MaxDischargeW := or_positive (bm_MaxDischargeW m) (bs_MaxDischargeW b)\<rparr>)"

definition solar_seen :: "reading \<Rightarrow> DeviceConfig \<Rightarrow> measSnapshot \<Rightarrow> SolarState" where
  "solar_seen now dc s =
     (let on = measured now s
      in \<lparr>ss_Name = dc_Name dc, ss_PowerW = if on then fmax (Fin 0) (ms_W s) else Fin 0, ss_MaxW = dc_MaxW dc,
          ss_Connected = on, ss_Energized = on\<rparr>)"

definition meter_seen :: "measSnapshot \<Rightarrow> GridState \<Rightarrow> GridState" where
  "meter_seen s g =
     (let g = (if is_nan (ms_W s) then g
               else g\<lparr>NetW := if is_nan (NetW g) then ms_W s else fadd (NetW g) (ms_W s)\<rparr>);
          g = (if is_nan (ms_Hz s) then g else g\<lparr>FrequencyHz := ms_Hz s\<rparr>)
      in if is_nan (ms_V s) then g else g\<lparr>VoltageV := ms_V s\<rparr>)"

definition frozen_key :: "string \<Rightarrow> string" where
  "frozen_key n = n @ '':frozen''"

definition read_device :: "MQTTSystemReader \<Rightarrow> reading \<Rightarrow> bool \<Rightarrow> DeviceConfig \<Rightarrow>
    string list \<times> SystemState \<Rightarrow> string list \<times> SystemState" where
  "read_device r now moving dc acc =
     (let s = snap_of r (dc_Name dc); (st0, state) = acc; st = noteStaleness (dc_Name dc) s now st0 in
      if dc_Role dc = ''battery''
      then (st, state\<lparr>Batteries := Batteries state @ [battery_metrics (lastBattMet r (dc_Name dc)) (battery_seen now dc s)]\<rparr>)
      else if dc_Role dc = ''inverter'' then (st, state\<lparr>Solar := Solar state @ [solar_seen now dc s]\<rparr>)
      else if dc_Role dc = ''meter''
      then let frozen = moving \<and> frozenW now s in
           if \<not> meas_fresh now s \<or> frozen
           then (if frozen then List.insert (frozen_key (dc_Name dc)) st else st, state)
           else (removeAll (frozen_key (dc_Name dc)) st, state\<lparr>Grid := meter_seen s (Grid state)\<rparr>)
      else (st, state))"

text \<open>The control that remains when an event has expired.\<close>

definition fallback_of :: "ControlMsg \<Rightarrow> ControlMsg option" where
  "fallback_of c =
     map_option (\<lambda>fb. \<lparr>ac_Source = ''default'', ac_MRID = df_MRID fb, ac_Connect = df_Connect fb,
        ac_ExpLimW = df_ExpLimW fb, ac_ImpLimW = df_ImpLimW fb, ac_MaxLimW = df_MaxLimW fb, ac_FixedW = df_FixedW fb,
        ac_ClockOffset = ac_ClockOffset c, ac_ValidUntil = 0, ac_Energize = df_Energize fb, ac_GenLimW = df_GenLimW fb,
        ac_LoadLimW = df_LoadLimW fb, DefaultFallback = None, ServerTs = 0, ac_Ts = 0\<rparr>) (DefaultFallback c)"

definition expire_control :: "int64 \<Rightarrow> MQTTSystemReader \<Rightarrow> MQTTSystemReader" where
  "expire_control serverNow r =
     (let expired = (case lastCSIP r of None \<Rightarrow> False | Some c \<Rightarrow> Expired (ac_ValidUntil c) serverNow);
          (fired, e) = Observe (expiry r) expired;
          r = r\<lparr>expiry := e\<rparr>
      in case lastCSIP r of
           None \<Rightarrow> r
         | Some c \<Rightarrow> if fired then (journal_append [ControlReleased (ac_MRID c) ''expired'' serverNow] r)\<lparr>lastCSIP := fallback_of c\<rparr> else r)"

definition adopt_control :: "(f64 \<Rightarrow> int) \<Rightarrow> ControlMsg option \<Rightarrow> SystemState \<Rightarrow> SystemState" where
  "adopt_control cv held state =
     (case held of
        None \<Rightarrow> state
      | Some c \<Rightarrow>
          (case busToCSIPControl cv c of
             None \<Rightarrow> state\<lparr>CSIPControl := None\<rparr>
           | Some cs \<Rightarrow> state\<lparr>CSIPControl := Some cs,
               Grid := (Grid state)\<lparr>GenLimitW := or_keep (ac_GenLimW c) (GenLimitW (Grid state)),
                 LoadLimitW := or_keep (ac_LoadLimW c) (LoadLimitW (Grid state))\<rparr>\<rparr>))"

definition bound_by_openadr :: "f64 \<Rightarrow> f64 option \<Rightarrow> bool" where
  "bound_by_openadr limit csip =
     (let c = or_keep csip NaN in is_nan c \<or> flt limit (fsub c openADRBindEps))"

definition mergeOpenADRLimitsLocked :: "int64 \<Rightarrow> MQTTSystemReader \<times> GridState \<Rightarrow> MQTTSystemReader \<times> GridState" where
  "mergeOpenADRLimitsLocked now_s rg =
     (let (r0, g) = rg; l = openADRLimits r0;
          r = r0\<lparr>openADRBindImport := False, openADRBindExport := False\<rparr>
      in if \<not> have_limits l then (r, g)
         else if validUntil l \<noteq> 0 \<and> validUntil l \<le> now_s then (r\<lparr>openADRLimitsExpiredLogged := True\<rparr>, g)
         else let r = r\<lparr>openADRLimitsExpiredLogged := False\<rparr>; csip = lastCSIP r;
                  (r, g) = (if is_nan (impLimW l) then (r, g)
                    else (r\<lparr>openADRBindImport := bound_by_openadr (impLimW l) (Option.bind csip ac_ImpLimW)\<rparr>, g\<lparr>ImportLimitW := impLimW l\<rparr>))
              in if is_nan (expLimW l) then (r, g)
                 else (r\<lparr>openADRBindExport := bound_by_openadr (expLimW l) (Option.bind csip ac_ExpLimW)\<rparr>, g\<lparr>ExportLimitW := expLimW l\<rparr>))"

definition OpenADRBoundAxis :: "MQTTSystemReader \<Rightarrow> string \<Rightarrow> bool" where
  "OpenADRBoundAxis r limitType =
     (if limitType = ''import'' then openADRBindImport r
      else if limitType = ''export'' then openADRBindExport r else False)"

definition localStepEdge :: "bool \<Rightarrow> bool \<Rightarrow> bool" where
  "localStepEdge before stepped = (if stepped \<and> \<not> before then True else if \<not> stepped \<and> before then False else before)"

definition read_evse :: "reading \<Rightarrow> evseSnapshot \<Rightarrow> EVSEState" where
  "read_evse now s =
     (let e = busToEVSEState (esn_msg s)
      in if evse_fresh now s then e else e\<lparr>es_Connected := False, es_SessionActive := False\<rparr>)"

definition blank_state :: "reading \<Rightarrow> SystemState" where
  "blank_state now = \<lparr>st_Timestamp = wall now, Batteries = [], Solar = [], EVSEs = [], Grid = NewGridState,
     CSIPControl = None, st_ClockOffset = 0, DailyPlanTarget = None\<rparr>"

definition ReadSafetyState :: "reading \<Rightarrow> MQTTSystemReader \<Rightarrow> SystemState" where
  "ReadSafetyState now r =
     (blank_state now)\<lparr>Batteries :=
        map (\<lambda>dc. let b = battery_seen now dc (snap_of r (dc_Name dc))
                  in b\<lparr>bs_SOC := or_keep (Option.bind (lastBattMet r (dc_Name dc)) bm_SOC) (bs_SOC b)\<rparr>)
          (filter (\<lambda>dc. dc_Role dc = ''battery'') (devices r))\<rparr>"

definition ReadSystemState :: "(f64 \<Rightarrow> int) \<Rightarrow> reading \<Rightarrow> string list \<Rightarrow> MQTTSystemReader \<Rightarrow> MQTTSystemReader \<times> SystemState" where
  "ReadSystemState cv now stations r0 =
     (let (st, state) = fold (read_device r0 now (worldMoving now r0)) (devices r0) (stale r0, blank_state now);
          serverNow = ServerNow (utclk r0) now;
          r = expire_control serverNow (r0\<lparr>stale := st\<rparr>);
          state = adopt_control cv (lastCSIP r) state;
          (r, g) = mergeOpenADRLimitsLocked (time_unix (wall now)) (r, Grid state);
          r = r\<lparr>clockStepped := localStepEdge (clockStepped r) (snd (LocalStep (utclk r) now))\<rparr>
      in (r, state\<lparr>Grid := g, st_ClockOffset := wrap64 (serverNow - time_unix (wall now)),
            EVSEs := map (read_evse now) (List.map_filter (lastEVSE r) stations)\<rparr>))"

end
