(* ===== verification/BreachEpisodes.thy ===== *)
theory BreachEpisodes
  imports HubReader StackRules
begin

text \<open>
  cmd/hub/breach.go and cmd/hub/snapshot.go, with the part of cmd/hub/main.go that wires them: the one
  owner of the breach episodes the utility is told about. It merges what the optimizer measures at the
  meter with what the device services report, emits an alert at each edge, and keeps the identity of the
  open episode in a snapshot file, so that a restart does not report it again. The file is the value
  \<open>disk\<close> (a save that fails leaves it, since the new contents appear by a rename); its JSON is the datatype
  \<open>file_content\<close>. The order in which Go visits the map of the devices is an argument. The event
  journal is written and never read here; it is not modelled.
\<close>

section \<open>State\<close>

record deviceEvidence =
  de_mrid :: string
  nonConverged :: bool
  de_issuedAt :: int64

record breachSnapshot =
  bsn_EpisodeID :: string
  bsn_MRID :: string
  bsn_Counter :: int

record hubSnapshot =
  sn_V :: int
  WrittenAt :: int64
  ActiveBreach :: "breachSnapshot option"

datatype file_content = NoFile | CorruptFile | SnapshotFile hubSnapshot

record breachEpisodes =
  be_activeMRID :: string
  episodeID :: string
  counter :: int
  planBreach :: "ComplianceBreach option"
  deviceReports :: "string \<rightharpoonup> deviceEvidence"
  snapPath :: string
  disk :: file_content

definition newBreachEpisodes :: "string \<Rightarrow> file_content \<Rightarrow> breachEpisodes" where
  "newBreachEpisodes path content =
     \<lparr>be_activeMRID = '''', episodeID = '''', counter = 0, planBreach = None, deviceReports = Map.empty,
      snapPath = path, disk = content\<rparr>"

record breachEvidence =
  bev_mrid :: string
  bev_limitType :: string
  bev_limitW :: f64
  bev_measuredW :: f64
  bev_shortfallW :: f64
  bev_reason :: string
  bev_issuedAt :: int64

record ComplianceAlert =
  al_MRID :: string
  al_LimitType :: string
  al_LimitW :: f64
  al_MeasuredW :: f64
  al_ShortfallW :: f64
  al_Reason :: string
  al_Active :: bool
  al_EpisodeID :: string

record ReconcileReport =
  rr_Kind :: string
  rr_DeviceClass :: string
  rr_DeviceID :: string
  rr_MRID :: string
  rr_IssuedAt :: int64
  rr_Axis :: string

text \<open>What a call meets: the time, the order of the map's keys, and whether a save succeeds.\<close>

record call_env =
  ce_now :: gotime
  ce_walk :: "string list"
  ce_saves :: bool

section \<open>The snapshot file\<close>

definition hubSnapshotV :: int where "hubSnapshotV = 1"
definition DefaultSnapshotMaxAgeS :: int where "DefaultSnapshotMaxAgeS = 300"

text \<open>The configured bound; \<open>None\<close> is a configuration without the block.\<close>

definition snapshot_maxAge :: "int option \<Rightarrow> duration" where
  "snapshot_maxAge sc =
     (case sc of
        None \<Rightarrow> DefaultSnapshotMaxAgeS * second
      | Some s \<Rightarrow> if s \<le> 0 then DefaultSnapshotMaxAgeS * second else wrap64 (s * second))"

definition snapshotLocked :: "gotime \<Rightarrow> breachEpisodes \<Rightarrow> hubSnapshot" where
  "snapshotLocked now b =
     \<lparr>sn_V = 0, WrittenAt = time_unix now,
      ActiveBreach = if be_activeMRID b \<noteq> ''''
        then Some \<lparr>bsn_EpisodeID = episodeID b, bsn_MRID = be_activeMRID b, bsn_Counter = counter b\<rparr> else None\<rparr>"

definition saveHubSnapshot :: "gotime \<Rightarrow> hubSnapshot \<Rightarrow> file_content" where
  "saveHubSnapshot now snap =
     SnapshotFile (snap\<lparr>sn_V := hubSnapshotV, WrittenAt := if WrittenAt snap = 0 then time_unix now else WrittenAt snap\<rparr>)"

definition writeSnapshotLocked :: "call_env \<Rightarrow> breachEpisodes \<Rightarrow> breachEpisodes" where
  "writeSnapshotLocked e b =
     (if snapPath b = '''' \<or> \<not> ce_saves e then b
      else b\<lparr>disk := saveHubSnapshot (ce_now e) (snapshotLocked (ce_now e) b)\<rparr>)"

definition ResaveIfActive :: "call_env \<Rightarrow> breachEpisodes \<Rightarrow> breachEpisodes" where
  "ResaveIfActive e b = (if be_activeMRID b = '''' \<or> snapPath b = '''' then b else writeSnapshotLocked e b)"

datatype snapshot_error = ErrNotFound | ErrCorrupt | ErrSnapshotVersion | ErrSnapshotStale

definition loadHubSnapshot :: "file_content \<Rightarrow> duration \<Rightarrow> gotime \<Rightarrow> snapshot_error + hubSnapshot" where
  "loadHubSnapshot f maxAge now =
     (case f of
        NoFile \<Rightarrow> Inl ErrNotFound
      | CorruptFile \<Rightarrow> Inl ErrCorrupt
      | SnapshotFile snap \<Rightarrow>
          if sn_V snap \<noteq> hubSnapshotV then Inl ErrSnapshotVersion
          else let age = wrap64 (time_unix now - WrittenAt snap)
               in if age < 0 \<or> maxAge < wrap64 (age * second) then Inl ErrSnapshotStale else Inr snap)"

definition Restore :: "string \<Rightarrow> string \<Rightarrow> int \<Rightarrow> breachEpisodes \<Rightarrow> breachEpisodes" where
  "Restore mrid episode c b =
     (if mrid = '''' \<or> episode = '''' then b
      else b\<lparr>be_activeMRID := mrid, episodeID := episode, counter := if counter b < c then c else counter b\<rparr>)"

text \<open>The restore at start, as \<open>main\<close> does it.\<close>

definition start_episodes :: "string \<Rightarrow> bool \<Rightarrow> duration \<Rightarrow> gotime \<Rightarrow> file_content \<Rightarrow> breachEpisodes" where
  "start_episodes path enabled maxAge now content =
     (let b = newBreachEpisodes path content
      in if enabled \<and> path \<noteq> ''''
         then (case loadHubSnapshot content maxAge now of
                 Inl _ \<Rightarrow> b
               | Inr snap \<Rightarrow> (case ActiveBreach snap of None \<Rightarrow> b
                                | Some x \<Rightarrow> Restore (bsn_MRID x) (bsn_EpisodeID x) (bsn_Counter x) b))
         else b)"

section \<open>Evidence and edges\<close>

text \<open>The walk over the device reports: an entry of the active episode ends it, otherwise the least
  non-empty mRID is kept, with the time of issue of its document.\<close>

fun scan_reports :: "string \<Rightarrow> deviceEvidence list \<Rightarrow> string \<times> int64 \<Rightarrow> string \<times> int64" where
  "scan_reports active [] best = best"
| "scan_reports active (dr # drs) best =
     (if \<not> nonConverged dr \<or> de_mrid dr = '''' then scan_reports active drs best
      else if de_mrid dr = active then (de_mrid dr, de_issuedAt dr)
      else if fst best = '''' \<or> de_mrid dr < fst best then scan_reports active drs (de_mrid dr, de_issuedAt dr)
      else scan_reports active drs best)"

definition effectiveBreach :: "call_env \<Rightarrow> breachEpisodes \<Rightarrow> breachEvidence option" where
  "effectiveBreach e b =
     (case planBreach b of
        Some pb \<Rightarrow> Some \<lparr>bev_mrid = br_MRID pb, bev_limitType = br_LimitType pb, bev_limitW = br_LimitW pb,
          bev_measuredW = br_MeasuredW pb, bev_shortfallW = br_ShortfallW pb, bev_reason = br_Reason pb,
          bev_issuedAt = time_unix (ce_now e)\<rparr>
      | None \<Rightarrow>
          (let (best, issued) = scan_reports (be_activeMRID b) (List.map_filter (deviceReports b) (ce_walk e)) ('''', 0)
           in if best = '''' then None
              else Some \<lparr>bev_mrid = best, bev_limitType = ''device'', bev_limitW = Fin 0, bev_measuredW = Fin 0,
                bev_shortfallW = Fin 0, bev_reason = ''device not converged (reconciler)'', bev_issuedAt = issued\<rparr>))"

definition episode_name :: "string \<Rightarrow> int64 \<Rightarrow> int \<Rightarrow> string" where
  "episode_name mrid issued c = mrid @ ''@'' @ itoa issued @ ''#'' @ itoa c"

definition begin_alert :: "breachEvidence \<Rightarrow> string \<Rightarrow> ComplianceAlert" where
  "begin_alert ev ep =
     \<lparr>al_MRID = bev_mrid ev, al_LimitType = bev_limitType ev, al_LimitW = bev_limitW ev, al_MeasuredW = bev_measuredW ev,
      al_ShortfallW = bev_shortfallW ev, al_Reason = bev_reason ev, al_Active = True, al_EpisodeID = ep\<rparr>"

definition end_alert :: "string \<Rightarrow> string \<Rightarrow> ComplianceAlert" where
  "end_alert mrid ep =
     \<lparr>al_MRID = mrid, al_LimitType = '''', al_LimitW = Fin 0, al_MeasuredW = Fin 0, al_ShortfallW = Fin 0,
      al_Reason = '''', al_Active = False, al_EpisodeID = ep\<rparr>"

definition emit :: "call_env \<Rightarrow> breachEpisodes \<Rightarrow> breachEpisodes \<times> ComplianceAlert list" where
  "emit e b =
     (case effectiveBreach e b of
        Some ev \<Rightarrow>
          if bev_mrid ev \<noteq> be_activeMRID b
          then let c = (counter b + 1) mod 2 ^ 64; ep = episode_name (bev_mrid ev) (bev_issuedAt ev) c
               in (writeSnapshotLocked e (b\<lparr>counter := c, be_activeMRID := bev_mrid ev, episodeID := ep\<rparr>), [begin_alert ev ep])
          else (b, [])
      | None \<Rightarrow>
          if be_activeMRID b \<noteq> ''''
          then (writeSnapshotLocked e (b\<lparr>be_activeMRID := '''', episodeID := ''''\<rparr>), [end_alert (be_activeMRID b) (episodeID b)])
          else (b, []))"

definition OnPlan :: "call_env \<Rightarrow> Plan \<Rightarrow> breachEpisodes \<Rightarrow> breachEpisodes \<times> ComplianceAlert list" where
  "OnPlan e plan b = (if Safety plan then (b, []) else emit e (b\<lparr>planBreach := Breach plan\<rparr>))"

definition OnReport :: "call_env \<Rightarrow> ReconcileReport \<Rightarrow> breachEpisodes \<Rightarrow> breachEpisodes \<times> ComplianceAlert list" where
  "OnReport e rep b =
     (if rr_Kind rep = ''NonConvergedBegin''
      then if rr_MRID rep = '''' then (b, [])
           else emit e (b\<lparr>deviceReports := (deviceReports b)(rr_DeviceID rep \<mapsto>
                  \<lparr>de_mrid = rr_MRID rep, nonConverged = True, de_issuedAt = rr_IssuedAt rep\<rparr>)\<rparr>)
      else if rr_Kind rep = ''NonConvergedEnd''
      then let d = (case deviceReports b (rr_DeviceID rep) of
                      None \<Rightarrow> \<lparr>de_mrid = '''', nonConverged = False, de_issuedAt = 0\<rparr> | Some d \<Rightarrow> d)
           in emit e (b\<lparr>deviceReports := (deviceReports b)(rr_DeviceID rep \<mapsto> d\<lparr>nonConverged := False\<rparr>)\<rparr>)
      else (b, []))"

definition episode_Active :: "breachEpisodes \<Rightarrow> bool" where
  "episode_Active b \<longleftrightarrow> be_activeMRID b \<noteq> ''''"

section \<open>The plan observer's gate\<close>

text \<open>A plan whose breach is of an axis that only OpenADR caps is shown to the component without it.\<close>

definition breachForEpisodes :: "MQTTSystemReader \<Rightarrow> Plan \<Rightarrow> Plan" where
  "breachForEpisodes r plan =
     (case Breach plan of
        None \<Rightarrow> plan
      | Some br \<Rightarrow> if OpenADRBoundAxis r (br_LimitType br) then plan\<lparr>Breach := None\<rparr> else plan)"

definition observe_plan :: "call_env \<Rightarrow> MQTTSystemReader \<Rightarrow> Plan \<Rightarrow> breachEpisodes \<Rightarrow> breachEpisodes \<times> ComplianceAlert list" where
  "observe_plan e r plan b = OnPlan e (breachForEpisodes r plan) b"

end
