(* ===== verification/TickPlans.thy ===== *)
theory TickPlans
  imports OptBreach
begin

text \<open>
  The plans of the optimizer's full ticks as the observers of the engine see them: none is marked as a
  safety plan, a breach carries the control in force, and the first plan of a new optimizer has none.
\<close>

section \<open>Full ticks are not safety plans\<close>

lemma safety_adds [simp]:
  "Safety (add_batt c p) = Safety p" "Safety (add_solar d p) = Safety p" "Safety (add_evse e p) = Safety p"
  "Safety (upd_batt n f p) = Safety p" "Safety (upd_solar n g p) = Safety p" "Safety (upd_evse ev h p) = Safety p"
  "Safety (opt_recordBreach b p) = Safety p"
  by (simp_all add: add_batt_def add_solar_def add_evse_def upd_batt_def upd_solar_def upd_evse_def opt_recordBreach_def split: option.split)

lemma safety_dictated: "Safety (snd (snd (snd (dictated st opt p)))) = Safety p"
proof -
  have "Safety (snd (snd (snd (walk (\<lambda>(_, left, _). left) (fixed_step blk) bs (w, False, q))))) = Safety q" for blk bs w q
    by (rule walk_inv [where P = "\<lambda>a. Safety (snd (snd a)) = Safety q"]) (auto simp: fixed_step_def Let_def split: prod.split)
  then have f: "Safety (snd (applyFixedDispatchRule cc bs s h blk q)) = Safety q" for cc bs s h blk q
    by (simp add: applyFixedDispatchRule_def Let_def case_prod_unfold split: option.split)
  have "Safety (snd (walk (\<lambda>_. False) (plan_step blk full w t) bs q)) = Safety q" for blk full w t bs q
    by (rule walk_inv [where P = "\<lambda>a. Safety a = Safety q"]) (simp_all add: plan_step_def Let_def)
  then have p: "Safety (snd (snd (snd (applyPlanRule tg bs evses full s c blk q)))) = Safety q" for tg bs evses full s c blk q
    by (simp add: applyPlanRule_def Let_def case_prod_unfold split: option.split)
  show ?thesis by (simp add: dictated_def Let_def case_prod_unfold f p split: option.split)
qed

lemma safety_battery:
  assumes "export_battery opt v c bs s p = (bs', a, d, g, s', p')"
  shows "Safety p' = Safety p"
proof -
  let ?w = "walk (\<lambda>_. False) (absorb_step (SOCFullThreshold opt) (relax_cycles opt) (xv_guard v) (fmax (Fin 0) (fsub (xv_unconstrainedW v) c)))
      bs (Fin 0, Fin 0, s, p)"
  have p': "p' = snd (snd (snd (snd ?w)))" using assms by (auto simp: export_battery_def Let_def case_prod_unfold)
  show ?thesis unfolding p'
    by (rule walk_inv [where P = "\<lambda>a. Safety (snd (snd (snd a))) = Safety p"]) (auto simp: absorb_step_def Let_def split: prod.split)
qed

lemma safety_export: "Safety (snd (snd (snd (applyExportLimitRule sol evses ew l n s bs (opt, p))))) = Safety p"
proof (cases "is_nan l")
  case False
  show ?thesis
  proof (rule export_rule_cases [OF False, of sol evses ew n bs opt p s], goal_cases)
    case (1 v bs' a d g3 s1 p1 g4 s2 p2 w g5 p3 z)
    have "Safety p1 = Safety p" by (rule safety_battery [OF 1(2)])
    moreover have "Safety p2 = Safety p1" using 1(3) by (auto simp: export_ev_def Let_def case_prod_unfold split: option.splits)
    moreover have "Safety p3 = Safety p2" using 1(6) by (simp add: ceiling_cmds_def)
    ultimately show ?case using 1(8) by simp
  qed
qed (simp add: applyExportLimitRule_def)

lemma safety_import: "Safety (snd (snd (applyImportLimitRule bs l n (opt, p)))) = Safety p"
proof -
  have h: "Safety (snd (halt_charge bs p)) = Safety p" by (simp add: halt_charge_def)
  have "Safety (snd (snd (snd (walk (\<lambda>(remaining, _, _). flt remaining (Fin 1)) (import_step blk) bs' (x, y, snd (halt_charge bs p)))))) = Safety p"
    for blk bs' x y
    by (rule walk_inv [where P = "\<lambda>a. Safety (snd (snd a)) = Safety p"]) (auto simp: import_step_def Let_def h split: prod.split)
  then show ?thesis by (simp add: applyImportLimitRule_def import_defend_def Let_def case_prod_unfold)
qed

lemma safety_checks:
  "Safety (snd (checkExportLimitConvergence l n op)) = Safety (snd op)"
  "Safety (snd (checkGenLimitConvergence sol bs n l op)) = Safety (snd op)"
  "Safety (snd (checkImportConvergence l n op)) = Safety (snd op)"
  "Safety (snd (checkAusGenerationConvergence sol bs n l op)) = Safety (snd op)"
  "Safety (snd (checkAusLoadConvergence sol bs n l op)) = Safety (snd op)"
  by (simp_all add: checkExportLimitConvergence_def checkGenLimitConvergence_def checkImportConvergence_def
      checkAusGenerationConvergence_def checkAusLoadConvergence_def Let_def case_prod_unfold)

lemma safety_curtail: "Safety (fold (curtail w t) sol p) = Safety p"
  by (induction sol arbitrary: p) (simp_all add: curtail_def Let_def)

lemma safety_compliance:
  assumes "compliance st bs s (opt, p) = (opt', bs', s', capW, p')"
  shows "Safety p' = Safety p"
proof (rule compliance_cases [OF assms], goal_cases)
  case (1 o1 b1 s1 p1 o2 p2 p3 o4 p4 o5 b5 p5 o6 p6 b7 p7 o8 p8)
  have "Safety p1 = Safety p" using safety_export 1(1) by (metis snd_conv)
  moreover have "Safety p2 = Safety p1" using safety_checks(1) 1(2) by (metis snd_conv)
  moreover have "Safety p3 = Safety p2" using 1(3) by (simp add: applyGenLimitRule_def safety_curtail)
  moreover have "Safety p4 = Safety p3" using safety_checks(2) 1(4) by (metis snd_conv)
  moreover have "Safety p5 = Safety p4" using safety_import 1(5) by (metis snd_conv)
  moreover have "Safety p6 = Safety p5" using safety_checks(3) 1(6) by (metis snd_conv)
  moreover have "EnforceAusLimits o6 \<Longrightarrow> Safety p7 = Safety p6"
    using 1(7) by (auto simp: applyAusGenerationLimitRule_def Let_def case_prod_unfold safety_curtail split: if_splits)
  moreover have "EnforceAusLimits o6 \<Longrightarrow> Safety p8 = Safety p7" using safety_checks(4) 1(8) by (metis snd_conv)
  ultimately show ?case using 1(9) by (auto split: if_splits)
qed

lemma safety_charge: "Safety (applyEVChargingRule evses l n s w k p) = Safety p"
  unfolding applyEVChargingRule_def
  by (rule fold_invariant_set [where P = "\<lambda>a. Safety (snd a) = Safety p"]) (auto simp: charge_step_def Let_def case_prod_unfold)

lemma safety_economics: "economics env now st opt followed w c s bs p = (bs', p') \<Longrightarrow> Safety p' = Safety p"
proof (erule economics_cases)
  fix b1 s1 p1 s2 p2 capW
  assume a: "applySelfConsumptionRule bs s (ExcessSolarThreshold opt) (SOCFullThreshold opt) p = (b1, s1, p1)"
    "applyDemandResponseRule b1 s1 False (is_peak env now st opt) capW (dischargeBlocked opt) p1 = (bs', s2, p2)"
    "p' = applyEVChargingRule (EVSEs st) (limits_of st) (NetW (Grid st)) (TotalSolarW st) s2 (ev_suppressed opt (limits_of st)) p2"
  have "Safety (snd (snd (applySelfConsumptionRule bs s e f p))) = Safety p" for e f
    unfolding applySelfConsumptionRule_def
    by (rule walk_inv [where P = "\<lambda>a. Safety (snd a) = Safety p"]) (auto simp: self_step_def keep_charging_def Let_def split: prod.split)
  then have "Safety p1 = Safety p" using a(1) by (metis snd_conv)
  moreover have "Safety (snd (snd (snd (walk (\<lambda>_. False) (peak_step k blk) xs (x, y, p1))))) = Safety p1" for k blk xs x y
    by (rule walk_inv [where P = "\<lambda>a. Safety (snd (snd a)) = Safety p1"]) (auto simp: peak_step_def Let_def split: prod.split)
  then have "Safety p2 = Safety p1" using a(2) by (auto simp: applyDemandResponseRule_def Let_def case_prod_unfold split: if_splits)
  ultimately show ?thesis using a(3) safety_charge by simp
qed (simp add: safety_charge)

lemma safety_finishing:
  assumes "finishing st bs (opt, p) = (opt', p')"
  shows "Safety p' = Safety p"
proof (rule finishing_cases [OF assms], goal_cases)
  case (1 o1 p1 o2 p2 o3 p3)
  have m: "Safety (mergeAusEVLimit evses a q) = Safety q" for evses a q by (simp add: mergeAusEVLimit_def split: option.split)
  have "Safety (snd (applyAusLoadLimitRule sol bs' evses l nw (opt, p))) = Safety p" for sol bs' evses l nw
    by (simp add: applyAusLoadLimitRule_def Let_def case_prod_unfold m split: option.split)
  then have "Safety p1 = Safety p" using 1(1) by (metis snd_conv)
  moreover have "Safety p2 = Safety p1" using safety_checks(5) 1(2) by (metis snd_conv)
  ultimately have p3: "Safety p3 = Safety p" using 1(3) by (auto split: if_splits)
  have "Safety (fold (restore_solar k) sol q) = Safety q" for k sol q
    by (induction sol arbitrary: q) (simp_all add: restore_solar_def)
  moreover have "Safety (fold restore_battery xs q) = Safety q" for xs q
    by (induction xs arbitrary: q) (simp_all add: restore_battery_def)
  ultimately have r: "Safety (applyRestoreRule (Solar st) bs k p3) = Safety p" for k by (simp add: applyRestoreRule_def p3)
  have f: "Safety (force_disconnect n q) = Safety q" for n q by (simp add: force_disconnect_def)
  have "Safety (snd (checkBatterySafety bs' oq)) = Safety (snd oq)" for bs' oq
    unfolding checkBatterySafety_def
    by (rule fold_invariant_set [where P = "\<lambda>a. Safety (snd a) = Safety (snd oq)"]) (simp_all add: safety_step_def Let_def case_prod_unfold f)
  then show ?case using 1(4) r by (metis snd_conv)
qed

lemma tick_plan:
  assumes "\<not> ceases st" and "DefaultOptimizer_Optimize env st opt = (opt', plan)"
  shows "\<not> Safety plan" and "CSIPControl st = Some c \<Longrightarrow> Breach plan = Some br \<Longrightarrow> br_MRID br = cc_MRID c"
proof -
  have "\<not> Safety plan \<and> (CSIPControl st = Some c \<longrightarrow> Breach plan = Some br \<longrightarrow> br_MRID br = cc_MRID c)"
  proof (rule optimize_cases [OF assms], goal_cases)
    case (1 now o1 b1 s1 followed p1 o2 b2 s2 capW p2 b3 p3 o3 p4)
    have "Safety p1 = False" using safety_dictated [of st o1 "empty_plan now"] 1(2) by (simp add: empty_plan_def)
    then have "\<not> Safety p4" using safety_compliance [OF 1(3)] safety_economics [OF 1(4)] safety_finishing [OF 1(5)] by simp
    then show ?case using 1(6) by (auto simp: stamp_plan_def split: option.splits)
  qed
  then show "\<not> Safety plan" "CSIPControl st = Some c \<Longrightarrow> Breach plan = Some br \<Longrightarrow> br_MRID br = cc_MRID c" by blast+
qed

section \<open>The first plan of a new optimizer\<close>

text \<open>No limit has been over its cap on any tick yet.\<close>

definition unstarted :: "DefaultOptimizer \<Rightarrow> bool" where
  "unstarted opt \<longleftrightarrow> expOverTicks opt = 0 \<and> expZeroLeverTicks opt = 0 \<and> gen_overCount (opt_genGuard opt) = 0 \<and>
     \<not> EnforceAusLimits opt"

lemma leaky_first: "2 \<le> k \<Longrightarrow> \<not> k \<le> leaky k ov 0"
  by (simp add: leaky_def)

lemma checks_first:
  "checkExportLimitConvergence l n (o1, p) = (o2, q) \<Longrightarrow> expOverTicks o1 = 0 \<Longrightarrow> q = p"
  "checkGenLimitConvergence sol bs n' l' (o1, p) = (o2, q) \<Longrightarrow> gen_overCount (opt_genGuard o1) = 0 \<Longrightarrow> q = p"
  using leaky_first [OF scaleTicks_ge, of exportBreachTicks] leaky_first [OF scaleTicks_ge, of genBreachTicks]
  by (auto simp: checkExportLimitConvergence_def checkGenLimitConvergence_def Let_def exportBreachTicks_def genBreachTicks_def split: if_splits)

lemma export_first:
  assumes "expZeroLeverTicks opt = 0" and "Breach p = None"
  shows "Breach (snd (snd (snd (applyExportLimitRule sol evses ew l n s bs (opt, p))))) = None"
proof (cases "is_nan l")
  case False
  have k: "\<not> scaleTicks opt exportBreachTicks \<le> leaky (scaleTicks opt exportBreachTicks) ov 0" for ov
    by (rule leaky_first [OF scaleTicks_ge]) (simp add: exportBreachTicks_def)
  show ?thesis
  proof (rule export_rule_cases [OF False, of sol evses ew n bs opt p s], goal_cases)
    case (1 v bs' a d g3 s1 p1 g4 s2 p2 w g5 p3 z)
    have "Breach p1 = None" using export_battery_plan(1) [OF 1(2)] assms(2) by (simp add: batt_only_def)
    then have "Breach p3 = None" using export_ev_plan(3) [OF 1(3)] 1(6) by simp
    moreover have "\<not> scaleTicks opt exportBreachTicks \<le> z" unfolding 1(7) assms(1) by (rule k)
    ultimately show ?case using 1(8) by simp
  qed
qed (simp add: applyExportLimitRule_def assms)

lemma first_plan_clear:
  assumes "\<not> ceases st" and "is_nan (gc_importLimitW (limits_of st))" and "unstarted opt"
    and "DefaultOptimizer_Optimize env st opt = (opt', plan)"
  shows "Breach plan = None"
proof (rule optimize_cases [OF assms(1,4)], goal_cases)
  case (1 now o1 b1 s1 followed p1 o2 b2 s2 capW p2 b3 p3 o3 p4)
  have o1: "expOverTicks o1 = 0" "expZeroLeverTicks o1 = 0" "gen_overCount (opt_genGuard o1) = 0" "\<not> EnforceAusLimits o1"
    unfolding 1(1) using assms(3) holds_frame [where f = expOverTicks] holds_frame [where f = expZeroLeverTicks]
      holds_frame [where f = opt_genGuard] holds_frame [where f = EnforceAusLimits] by (simp_all add: unstarted_def)
  have e2: "\<not> EnforceAusLimits o2" using blank_eq(5) [OF blank_compliance [OF 1(3)]] o1(4) by simp
  have p2: "Breach p2 = None"
  proof (rule compliance_cases [OF 1(3)], goal_cases)
    case (1 q1 c1 t1 r1 q2 r2 r3 q4 r4 q5 c5 r5 q6 r6 c7 r7 q8 r8)
    have r1: "Breach r1 = None" using export_first [OF o1(2) dictated_breach [OF \<open>dictated st o1 (empty_plan now) = (b1, s1, followed, p1)\<close>]] 1(1)
      by (metis snd_conv)
    have q1: "expOverTicks q1 = 0" using export_rule_over(1) 1(1) o1(1) by (metis fst_conv)
    have r2: "r2 = r1" by (rule checks_first(1) [OF 1(2) q1])
    have "gen_overCount (opt_genGuard q2) = 0"
      using 1(1,2) [THEN arg_cong, of "\<lambda>x. opt_genGuard (fst x)"] o1(3) by (simp add: gen_guard_frame)
    then have "r4 = r3" by (rule checks_first(2) [OF 1(4)])
    moreover have "Breach r3 = None" using 1(3) r1 r2 by (simp add: applyGenLimitRule_def)
    ultimately have r6: "Breach r6 = None" using 1(5,6) assms(2) by (auto simp: applyImportLimitRule_def checkImportConvergence_def)
    have "\<not> EnforceAusLimits q6" using 1(9) e2 1(8) blank_rules(6) blank_eq(5) by (metis Pair_inject fst_conv)
    then show ?case using r6 1(9) by (auto split: if_splits)
  qed
  have b3: "Breach p3 = None" using breach_economics [OF 1(4)] p2 by simp
  have "Breach (fold (restore_solar k) sol q) = Breach q" for k sol q by (induction sol arbitrary: q) (simp_all add: restore_solar_def)
  then have r: "Breach (applyRestoreRule (Solar st) b3 k p3) = None" for k
    using restore_batteries(1) [of "fold (restore_solar k) (Solar st) p3" b3] b3 by (simp add: applyRestoreRule_def batt_only_def)
  have "checkBatterySafety (Batteries st) (o2, applyRestoreRule (Solar st) b3 (solar_cap_active o2 (limits_of st)) p3) = (o3, p4)"
    by (rule finishing_cases [OF 1(5)]) (use e2 in auto)
  then have "Breach p4 = None"
    using safety_grows(2) [of "applyRestoreRule (Solar st) b3 (solar_cap_active o2 (limits_of st)) p3" "Batteries st" o2] r
    by (simp add: batt_only_def)
  then show ?case using breach_stamp 1(6) by (metis none_breached)
qed

end
