(* ===== verification/BreachProps.thy ===== *)
theory BreachProps
  imports BreachEpisodes Responses StackTypes TickPlans
begin

text \<open>
  What the breach episodes promise: the pairing of the alerts and the names of the episodes, what the
  utility's response tracker makes of the alerts, what a restart keeps, and where evidence of one source
  hides that of another.
\<close>

section \<open>Runs\<close>

datatype hub_input =
    InPlan call_env Plan
  | InReport call_env ReconcileReport
  | InResave call_env

fun be_step :: "hub_input \<Rightarrow> breachEpisodes \<Rightarrow> breachEpisodes \<times> ComplianceAlert list" where
  "be_step (InPlan e p) b = OnPlan e p b"
| "be_step (InReport e r) b = OnReport e r b"
| "be_step (InResave e) b = (ResaveIfActive e b, [])"

fun be_run :: "hub_input list \<Rightarrow> breachEpisodes \<Rightarrow> breachEpisodes \<times> ComplianceAlert list" where
  "be_run [] b = (b, [])"
| "be_run (x # xs) b = (let (b', as) = be_step x b; (b'', as') = be_run xs b' in (b'', as @ as'))"

lemma be_run_append:
  "be_run (xs @ ys) b = (fst (be_run ys (fst (be_run xs b))), snd (be_run xs b) @ snd (be_run ys (fst (be_run xs b))))"
  by (induction xs arbitrary: b) (simp_all add: case_prod_unfold Let_def)

text \<open>The open episode: its control and its name.\<close>

definition open_episode :: "breachEpisodes \<Rightarrow> string \<times> string" where
  "open_episode b = (be_activeMRID b, episodeID b)"

lemma write_fields [simp]:
  "open_episode (writeSnapshotLocked e b) = open_episode b" "be_activeMRID (writeSnapshotLocked e b) = be_activeMRID b"
  "episodeID (writeSnapshotLocked e b) = episodeID b" "counter (writeSnapshotLocked e b) = counter b"
  "planBreach (writeSnapshotLocked e b) = planBreach b" "deviceReports (writeSnapshotLocked e b) = deviceReports b"
  by (simp_all add: open_episode_def writeSnapshotLocked_def)

text \<open>A call keeps the episode silently, opens one under the next number, or closes the open one.\<close>

lemma emit_edges:
  assumes "emit e b = (b', as)"
  obtains (same) "b' = b" "as = []"
  | (start) ev ep where "effectiveBreach e b = Some ev" "bev_mrid ev \<noteq> be_activeMRID b" "counter b' = (counter b + 1) mod 2 ^ 64"
      "ep = episode_name (bev_mrid ev) (bev_issuedAt ev) (counter b')" "open_episode b' = (bev_mrid ev, ep)" "as = [begin_alert ev ep]"
      "planBreach b' = planBreach b" "deviceReports b' = deviceReports b"
  | (stop) "effectiveBreach e b = None" "be_activeMRID b \<noteq> ''''" "open_episode b' = ('''', '''')" "counter b' = counter b"
      "as = [end_alert (be_activeMRID b) (episodeID b)]" "planBreach b' = planBreach b" "deviceReports b' = deviceReports b"
  using assms by (auto simp: emit_def open_episode_def Let_def split: option.splits if_splits)

lemma step_edges:
  assumes "be_step x b = (b', as)"
  obtains (same) "open_episode b' = open_episode b" "counter b' = counter b" "as = []"
  | (start) ev ep where "bev_mrid ev \<noteq> be_activeMRID b" "counter b' = (counter b + 1) mod 2 ^ 64"
      "ep = episode_name (bev_mrid ev) (bev_issuedAt ev) (counter b')" "open_episode b' = (bev_mrid ev, ep)" "as = [begin_alert ev ep]"
  | (stop) "be_activeMRID b \<noteq> ''''" "open_episode b' = ('''', '''')" "counter b' = counter b"
      "as = [end_alert (be_activeMRID b) (episodeID b)]"
proof -
  have resave: "open_episode (ResaveIfActive e b) = open_episode b" "counter (ResaveIfActive e b) = counter b" for e
    by (simp_all add: ResaveIfActive_def)
  have c: "(\<exists>e b0. be_activeMRID b0 = be_activeMRID b \<and> episodeID b0 = episodeID b \<and> counter b0 = counter b \<and> emit e b0 = (b', as)) \<or>
      open_episode b' = open_episode b \<and> counter b' = counter b \<and> as = []"
  proof (cases x)
    case (InPlan e p)
    then show ?thesis using assms by (auto simp: OnPlan_def split: if_splits intro!: exI [of _ e] exI [of _ "b\<lparr>planBreach := Breach p\<rparr>"])
  next
    case (InReport e r)
    then show ?thesis using assms by (auto simp: OnReport_def Let_def split: if_splits intro!: exI [of _ e] exI [of _ "b\<lparr>deviceReports := _\<rparr>"])
  next
    case (InResave e)
    then show ?thesis using assms resave by auto
  qed
  then show ?thesis
  proof (elim disjE exE conjE)
    fix e b0 assume b0: "be_activeMRID b0 = be_activeMRID b" "episodeID b0 = episodeID b" "counter b0 = counter b" and em: "emit e b0 = (b', as)"
    from em show ?thesis
      by (cases rule: emit_edges) (use b0 in \<open>auto simp: open_episode_def intro: same start stop\<close>)
  qed (rule same, assumption+)
qed

section \<open>Alerts in pairs\<close>

text \<open>An alert stream read from an open episode (\<open>('''', '''')\<close> when there is none): a begin names a
  control other than the open one, an end names the open episode.\<close>

fun paired :: "string \<times> string \<Rightarrow> ComplianceAlert list \<Rightarrow> (string \<times> string) option" where
  "paired cur [] = Some cur"
| "paired cur (a # as) =
     (if al_Active a
      then if al_MRID a = fst cur then None else paired (al_MRID a, al_EpisodeID a) as
      else if fst cur = '''' \<or> (al_MRID a, al_EpisodeID a) \<noteq> cur then None else paired ('''', '''') as)"

lemma alert_fields [simp]:
  "al_Active (begin_alert ev ep)" "al_MRID (begin_alert ev ep) = bev_mrid ev" "al_EpisodeID (begin_alert ev ep) = ep"
  "\<not> al_Active (end_alert m ep)" "al_MRID (end_alert m ep) = m" "al_EpisodeID (end_alert m ep) = ep"
  by (simp_all add: begin_alert_def end_alert_def)

lemma run_paired: "be_run xs b = (b', as) \<Longrightarrow> paired (open_episode b) as = Some (open_episode b')"
proof (induction xs arbitrary: b as)
  case (Cons x xs)
  obtain b1 as1 where s: "be_step x b = (b1, as1)" by fastforce
  obtain as2 where r: "be_run xs b1 = (b', as2)" "as = as1 @ as2" using Cons.prems s by (auto simp: Let_def case_prod_unfold prod_eq_iff)
  show ?case using Cons.IH [OF r(1)] r(2)
    by (cases rule: step_edges [OF s]) (auto simp: open_episode_def)
qed simp

text \<open>The names of the episodes a run opens carry its numbers.\<close>

definition begun :: "ComplianceAlert list \<Rightarrow> string list" where
  "begun as = map al_EpisodeID (filter al_Active as)"

lemma name_number: "in_int64 c \<Longrightarrow> snd (parseEVSEDevice (episode_name m i c)) = c"
proof -
  assume c: "in_int64 c"
  have "episode_name m i c = evseKey (m @ ''@'' @ itoa i) c" by (simp add: episode_name_def evseKey_def)
  then show ?thesis using key_parses [OF c] by simp
qed

lemma run_numbers:
  assumes "be_run xs b = (b', as)" and "0 \<le> counter b" and "counter b + int (length xs) < 2 ^ 63"
  shows "counter b \<le> counter b' \<and> counter b' \<le> counter b + int (length xs) \<and> distinct (begun as) \<and>
    (\<forall>ep \<in> set (begun as). counter b < snd (parseEVSEDevice ep) \<and> snd (parseEVSEDevice ep) \<le> counter b')"
  using assms
proof (induction xs arbitrary: b as)
  case (Cons x xs)
  obtain b1 as1 where s: "be_step x b = (b1, as1)" by fastforce
  obtain as2 where r: "be_run xs b1 = (b', as2)" "as = as1 @ as2" using Cons.prems s by (auto simp: Let_def case_prod_unfold prod_eq_iff)
  show ?case using s
  proof (cases rule: step_edges)
    case same
    then show ?thesis using Cons.IH [OF r(1)] Cons.prems r(2) by auto
  next
    case (start ev ep)
    have c: "counter b1 = counter b + 1" using start(2) Cons.prems(2,3) by simp
    have "snd (parseEVSEDevice ep) = counter b1" unfolding start(3)
      by (rule name_number) (use c Cons.prems(2,3) in \<open>simp add: in_int64_def\<close>)
    then show ?thesis using Cons.IH [OF r(1)] c Cons.prems r(2) start(5) by (fastforce simp: begun_def)
  next
    case stop
    then show ?thesis using Cons.IH [OF r(1)] Cons.prems r(2) by (auto simp: begun_def)
  qed
qed (simp add: begun_def)

text \<open>
  Property C14: the utility is alerted episode by episode. Over every run of plans, device reports and
  snapshot refreshes, in whatever order Go visits the devices, the alerts are well paired: a begin never
  repeats the control of the open episode, and replaces that episode without an end when one is open; an
  end always names the open episode with the name its begin had; and what remains open at the end is what the component holds; and no two episodes of a run have
  the same name, as long as fewer than 2^63 inputs arrive.
\<close>

theorem alerts_paired:
  assumes "be_run xs b = (b', as)" and "0 \<le> counter b" and "counter b + int (length xs) < 2 ^ 63"
  shows "paired (open_episode b) as = Some (open_episode b') \<and> distinct (begun as)"
  using run_paired [OF assms(1)] run_numbers [OF assms] by blast

section \<open>What the utility is told\<close>

text \<open>The northbound service hands every alert to the tracker of the Responses (cmd/northbound/main.go).\<close>

definition handle_alert :: "int64 \<times> ComplianceAlert \<Rightarrow> Tracker \<Rightarrow> Tracker" where
  "handle_alert na t =
     (if al_Active (snd na) then AlertCannotComply (fst na) (al_MRID (snd na)) (al_EpisodeID (snd na)) t else ClearAlerts t)"

text \<open>The controls an alert stream reports: the first begin of each control since the last end.\<close>

fun to_report :: "string list \<Rightarrow> ComplianceAlert list \<Rightarrow> string list" where
  "to_report ks [] = []"
| "to_report ks (a # as) =
     (if \<not> al_Active a then to_report [] as
      else if al_MRID a \<in> set ks then to_report ks as
      else al_MRID a # to_report (al_MRID a # ks) as)"

lemma to_report_set: "set ks = set ks' \<Longrightarrow> to_report ks as = to_report ks' as"
proof (induction as arbitrary: ks ks')
  case (Cons a as)
  have "to_report (al_MRID a # ks) as = to_report (al_MRID a # ks') as" by (rule Cons.IH) (simp add: Cons.prems)
  then show ?case using Cons.IH [OF Cons.prems] Cons.prems by simp
qed simp

definition posted_code :: "Tracker \<Rightarrow> nat" where
  "posted_code t = (if legacyCannotComply t then ResponseCannotComply else ResponsePartialOptOut)"

lemma gate_frames [simp]:
  "gate (setEpisode e t) = gate t" "gate (maybeCompact t) = gate t" "gate (append_entry x t) = gate t"
  "sent (maybeCompact t) = sent t" "sent (append_entry x t) = sent t"
  "legacyCannotComply (maybeCompact t) = legacyCannotComply t" "legacyCannotComply (append_entry x t) = legacyCannotComply t"
  by (simp_all add: setEpisode_def maybeCompact_def append_entry_def Compact_def split: option.split)

lemma clear_fields:
  "alerted (ClearAlerts t) = []" "gate (ClearAlerts t) = gate t" "sent (ClearAlerts t) = sent t"
  "legacyCannotComply (ClearAlerts t) = legacyCannotComply t"
  by (simp_all add: ClearAlerts_def Let_def maybeCompact_def append_entry_def Compact_def split: option.split)

lemma alert_fields_new:
  assumes "m \<notin> set (alerted t)" and "ep \<notin> set (alerted t)" and "\<not> Suspended (gate t)"
  shows "gate (AlertCannotComply now m ep t) = gate t" and "legacyCannotComply (AlertCannotComply now m ep t) = legacyCannotComply t"
    and "map (\<lambda>r. (Subject (fst r), resp_Status (fst r))) (sent (AlertCannotComply now m ep t)) =
      map (\<lambda>r. (Subject (fst r), resp_Status (fst r))) (sent t) @ [(m, posted_code t)]"
proof -
  have mk: "gate (mark_alert m ep t) = gate t" "sent (mark_alert m ep t) = sent t"
    "legacyCannotComply (mark_alert m ep t) = legacyCannotComply t" by (simp_all add: mark_alert_def Let_def)
  have cf: "gate (confirm_alert m ep u) = gate u" "sent (confirm_alert m ep u) = sent u"
    "legacyCannotComply (confirm_alert m ep u) = legacyCannotComply u" for u by (simp_all add: confirm_alert_def Let_def)
  show "gate (AlertCannotComply now m ep t) = gate t" "legacyCannotComply (AlertCannotComply now m ep t) = legacyCannotComply t"
    "map (\<lambda>r. (Subject (fst r), resp_Status (fst r))) (sent (AlertCannotComply now m ep t)) =
      map (\<lambda>r. (Subject (fst r), resp_Status (fst r))) (sent t) @ [(m, posted_code t)]"
    using assms by (simp_all add: AlertCannotComply_def Let_def case_prod_unfold postResponse_def mk cf posted_code_def)
qed

definition plain :: "string \<Rightarrow> bool" where "plain m \<longleftrightarrow> CHR ''#'' \<notin> set m"

lemma name_not_plain: "\<not> plain (episode_name m i c)"
  by (simp add: plain_def episode_name_def)

lemma tracker_reports:
  assumes "\<not> Suspended (gate t)" and "\<forall>na \<in> set tas. plain (al_MRID (snd na)) \<and> (al_Active (snd na) \<longrightarrow> \<not> plain (al_EpisodeID (snd na)))"
    and "distinct (begun (map snd tas))" and "\<forall>k \<in> set (alerted t). plain k \<or> k \<notin> set (begun (map snd tas))"
  shows "map (\<lambda>r. (Subject (fst r), resp_Status (fst r))) (sent (fold handle_alert tas t)) =
    map (\<lambda>r. (Subject (fst r), resp_Status (fst r))) (sent t) @
    map (\<lambda>m. (m, posted_code t)) (to_report (filter plain (alerted t)) (map snd tas))"
  using assms
proof (induction tas arbitrary: t)
  case (Cons na tas)
  obtain now a where na: "na = (now, a)" by fastforce
  let ?t = "handle_alert na t"
  show ?case
  proof (cases "al_Active a")
    case False
    have t: "?t = ClearAlerts t" using na False by (simp add: handle_alert_def)
    have "map (\<lambda>r. (Subject (fst r), resp_Status (fst r))) (sent (fold handle_alert tas ?t)) =
        map (\<lambda>r. (Subject (fst r), resp_Status (fst r))) (sent ?t) @
        map (\<lambda>m. (m, posted_code ?t)) (to_report (filter plain (alerted ?t)) (map snd tas))"
      by (rule Cons.IH) (use Cons.prems na False t in \<open>simp_all add: clear_fields begun_def\<close>)
    then show ?thesis using na False t by (simp add: clear_fields posted_code_def)
  next
    case True
    have m: "plain (al_MRID a)" "\<not> plain (al_EpisodeID a)" using Cons.prems(2) na True by auto
    have ep: "al_EpisodeID a \<notin> set (alerted t)" using Cons.prems(4) m(2) na True by (auto simp: begun_def)
    show ?thesis
    proof (cases "al_MRID a \<in> set (alerted t)")
      case seen: True
      have t: "?t = t" using na True seen by (simp add: handle_alert_def AlertCannotComply_def)
      have "map (\<lambda>r. (Subject (fst r), resp_Status (fst r))) (sent (fold handle_alert tas t)) =
          map (\<lambda>r. (Subject (fst r), resp_Status (fst r))) (sent t) @
          map (\<lambda>m. (m, posted_code t)) (to_report (filter plain (alerted t)) (map snd tas))"
        by (rule Cons.IH) (use Cons.prems na True in \<open>auto simp: begun_def\<close>)
      then show ?thesis using t na True seen m(1) by simp
    next
      case new: False
      have t: "?t = AlertCannotComply now (al_MRID a) (al_EpisodeID a) t" using na True by (simp add: handle_alert_def)
      note f = alert_fields_new [OF new ep Cons.prems(1), of now, folded t]
      have al: "set (alerted ?t) = {al_MRID a, al_EpisodeID a} \<union> set (alerted t)"
        using new ep by (simp add: t alerted_alert insert_keys_set plain_def) (use m(2) in \<open>auto simp: plain_def\<close>)
      have "map (\<lambda>r. (Subject (fst r), resp_Status (fst r))) (sent (fold handle_alert tas ?t)) =
          map (\<lambda>r. (Subject (fst r), resp_Status (fst r))) (sent ?t) @
          map (\<lambda>m. (m, posted_code ?t)) (to_report (filter plain (alerted ?t)) (map snd tas))"
        by (rule Cons.IH) (use Cons.prems na True f(1) al m in \<open>auto simp: begun_def\<close>)
      moreover have "to_report (filter plain (alerted ?t)) (map snd tas) = to_report (al_MRID a # filter plain (alerted t)) (map snd tas)"
        by (rule to_report_set) (use al m in auto)
      moreover have "posted_code ?t = posted_code t" using f(2) by (simp add: posted_code_def)
      ultimately show ?thesis using f(3) na True new m(1) by simp
    qed
  qed
qed simp

lemma run_names: "be_run xs b = (b', as) \<Longrightarrow> a \<in> set as \<Longrightarrow> al_Active a \<Longrightarrow> \<not> plain (al_EpisodeID a)"
proof (induction xs arbitrary: b as)
  case (Cons x xs)
  obtain b1 as1 where s: "be_step x b = (b1, as1)" by fastforce
  obtain as2 where r: "be_run xs b1 = (b', as2)" "as = as1 @ as2" using Cons.prems(1) s by (auto simp: Let_def case_prod_unfold prod_eq_iff)
  from s have "a \<in> set as1 \<Longrightarrow> \<not> plain (al_EpisodeID a)" using Cons.prems(3)
    by (cases rule: step_edges) (auto simp: name_not_plain)
  then show ?case using Cons.IH [OF r(1)] r(2) Cons.prems(2,3) by auto
qed simp

text \<open>
  Property C8: one CannotComply per control and stretch of non-compliance, whoever notices it. The alerts
  of any run of the breach component, handed to the response tracker, make it post exactly one Response
  for each control at its first begin since the last end, in that order and with the configured code:
  neither the optimizer and the device services seeing the same breach, nor a change back to a control
  already reported (an episode of its own, with a name of its own), posts another. (The tracker starts
  with no alert recorded, the mRIDs are free of the mark that episode names have, and the
  gate does not hold posts back.)
\<close>

theorem one_response_per_breach:
  assumes "be_run xs b = (b', map snd tas)" and "0 \<le> counter b" and "counter b + int (length xs) < 2 ^ 63"
    and "\<forall>na \<in> set tas. plain (al_MRID (snd na))" and "alerted t = []" and "\<not> Suspended (gate t)" and "sent t = []"
  shows "map (\<lambda>r. (Subject (fst r), resp_Status (fst r))) (sent (fold handle_alert tas t)) =
    map (\<lambda>m. (m, posted_code t)) (to_report [] (map snd tas))"
  using tracker_reports [of t tas] run_names [OF assms(1)] run_numbers [OF assms(1-3)] assms(4-7) by simp

section \<open>Where evidence hides evidence\<close>

text \<open>No device is known not to converge.\<close>

definition devices_quiet :: "breachEpisodes \<Rightarrow> bool" where
  "devices_quiet b \<longleftrightarrow> (\<forall>d \<in> ran (deviceReports b). \<not> nonConverged d)"

lemma scan_quiet: "list_all (\<lambda>d. \<not> nonConverged d) ds \<Longrightarrow> scan_reports act ds best = best"
  by (induction ds) auto

lemma walked_reports: "d \<in> set (List.map_filter m ks) \<Longrightarrow> d \<in> ran m"
  by (auto simp: List.map_filter_def ran_def)

lemma quiet_breach:
  "devices_quiet b \<Longrightarrow> planBreach b = None \<Longrightarrow> effectiveBreach e b = None"
proof -
  assume q: "devices_quiet b" "planBreach b = None"
  have "list_all (\<lambda>d. \<not> nonConverged d) (List.map_filter (deviceReports b) (ce_walk e))"
    using q(1) walked_reports by (fastforce simp: devices_quiet_def list_all_iff)
  then show ?thesis using q(2) by (simp add: effectiveBreach_def scan_quiet)
qed

text \<open>A full tick's plan: a breach of another control than the open one opens an episode, no breach closes it.\<close>

lemma plan_edges:
  assumes "\<not> Safety p" and "devices_quiet b"
  shows "Breach p = Some br \<Longrightarrow> br_MRID br \<noteq> be_activeMRID b \<Longrightarrow>
      \<exists>ev ep b'. OnPlan e p b = (b', [begin_alert ev ep]) \<and> bev_mrid ev = br_MRID br \<and> be_activeMRID b' = br_MRID br \<and> deviceReports b' = deviceReports b"
    and "Breach p = None \<Longrightarrow> be_activeMRID b \<noteq> '''' \<Longrightarrow>
      \<exists>b'. OnPlan e p b = (b', [end_alert (be_activeMRID b) (episodeID b)]) \<and> be_activeMRID b' = '''' \<and> deviceReports b' = deviceReports b"
proof -
  show "\<exists>ev ep b'. OnPlan e p b = (b', [begin_alert ev ep]) \<and> bev_mrid ev = br_MRID br \<and> be_activeMRID b' = br_MRID br \<and> deviceReports b' = deviceReports b"
    if "Breach p = Some br" "br_MRID br \<noteq> be_activeMRID b"
    using assms(1) that by (simp add: OnPlan_def emit_def effectiveBreach_def Let_def) auto
  have "effectiveBreach e (b\<lparr>planBreach := None\<rparr>) = None" by (rule quiet_breach) (use assms(2) in \<open>simp_all add: devices_quiet_def\<close>)
  then show "\<exists>b'. OnPlan e p b = (b', [end_alert (be_activeMRID b) (episodeID b)]) \<and> be_activeMRID b' = '''' \<and> deviceReports b' = deviceReports b"
    if "Breach p = None" "be_activeMRID b \<noteq> ''''"
    using assms(1) that by (simp add: OnPlan_def emit_def Let_def)
qed

lemma worst_kept:
  assumes "w \<in> set brs" and "\<forall>x \<in> set brs. x \<noteq> w \<longrightarrow> flt (br_ShortfallW x) (br_ShortfallW w)"
  shows "fold recordBreach brs None = Some w"
proof -
  have asym: "flt x y \<Longrightarrow> \<not> flt y x" for x y by (cases x; cases y) (auto simp: flt_def feq_def)
  have stay: "fold recordBreach ys (Some w) = Some w" if "\<forall>x \<in> set ys. x \<noteq> w \<longrightarrow> flt (br_ShortfallW x) (br_ShortfallW w)" for ys
    using that
  proof (induction ys)
    case (Cons y ys)
    then show ?case using asym by (auto simp: recordBreach_Some)
  qed simp
  have reach: "fold recordBreach ys (Some c) = Some w"
    if "w \<in> set ys" "\<forall>x \<in> set (c # ys). x \<noteq> w \<longrightarrow> flt (br_ShortfallW x) (br_ShortfallW w)" for ys c
    using that
  proof (induction ys arbitrary: c)
    case (Cons y ys)
    show ?case
    proof (cases "y = w")
      case True
      then show ?thesis using stay [of ys] Cons.prems by (cases "c = w") (auto simp: recordBreach_Some)
    next
      case False
      then show ?thesis using Cons by (auto simp: recordBreach_Some)
    qed
  qed simp
  show ?thesis
  proof (cases brs)
    case (Cons y ys)
    then show ?thesis using assms stay [of ys] reach [of ys y] by (cases "y = w") (auto simp: recordBreach_def)
  qed (use assms(1) in simp)
qed

text \<open>
  Property C23: a breach of an OpenADR limit hides a breach of the utility's. A plan carries only the worst
  of its tick's breaches, and the observer drops that one when its limit is OpenADR's alone: so while a
  breach of the utility's control goes on over three plans, a worse breach of an OpenADR limit on the
  second ends the episode the first opened and the third opens another; the utility is told that it
  ended, and gets a second Response for the same control.
\<close>

theorem openadr_breach_splits_episode:
  assumes "\<not> episode_Active b" and "devices_quiet b" and "list_all (\<lambda>p. \<not> Safety p) [p1, p2, p3]"
    and "Breach p1 = Some c1" and "br_MRID c1 = m" and "\<not> OpenADRBoundAxis r1 (br_LimitType c1)" and "m \<noteq> ''''"
    and "Breach p2 = fold recordBreach brs None" and "c2 \<in> set brs" and "br_MRID c2 = m" and "\<not> OpenADRBoundAxis r2 (br_LimitType c2)"
    and "w \<in> set brs" and "\<forall>x \<in> set brs. x \<noteq> w \<longrightarrow> flt (br_ShortfallW x) (br_ShortfallW w)" and "OpenADRBoundAxis r2 (br_LimitType w)"
    and "Breach p3 = Some c3" and "br_MRID c3 = m" and "\<not> OpenADRBoundAxis r3 (br_LimitType c3)"
    and "observe_plan e1 r1 p1 b = (b1, as1)" and "observe_plan e2 r2 p2 b1 = (b2, as2)" and "observe_plan e3 r3 p3 b2 = (b3, as3)"
  shows "map (\<lambda>a. (al_MRID a, al_Active a)) (as1 @ as2 @ as3) = [(m, True), (m, False), (m, True)] \<and>
    to_report [] (as1 @ as2 @ as3) = [m, m]"
proof -
  have g1: "breachForEpisodes r1 p1 = p1" using assms(4,6) by (simp add: breachForEpisodes_def)
  have g3: "breachForEpisodes r3 p3 = p3" using assms(15,17) by (simp add: breachForEpisodes_def)
  have w: "Breach p2 = Some w" using worst_kept [OF assms(12,13)] assms(8) by simp
  then have g2: "breachForEpisodes r2 p2 = p2\<lparr>Breach := None\<rparr>" using assms(14) by (simp add: breachForEpisodes_def)
  have i: "br_MRID c1 \<noteq> be_activeMRID b" using assms(1,5,7) by (simp add: episode_Active_def)
  obtain ev1 ep1 where 1: "as1 = [begin_alert ev1 ep1]" "bev_mrid ev1 = m" "be_activeMRID b1 = m" "deviceReports b1 = deviceReports b"
    using plan_edges(1) [OF _ assms(2,4) i, of e1] assms(3,5,18) unfolding observe_plan_def g1 by auto
  then have q1: "devices_quiet b1" "be_activeMRID b1 \<noteq> ''''" using assms(2,7) by (simp_all add: devices_quiet_def)
  obtain ep2 where 2: "as2 = [end_alert m ep2]" "be_activeMRID b2 = ''''" "deviceReports b2 = deviceReports b"
    using plan_edges(2) [OF _ q1(1) _ q1(2), of "p2\<lparr>Breach := None\<rparr>" e2] assms(3,19) 1(3,4) unfolding observe_plan_def g2 by auto
  then have q2: "devices_quiet b2" "br_MRID c3 \<noteq> be_activeMRID b2" using assms(2,7,16) by (simp_all add: devices_quiet_def)
  obtain ev3 ep3 where 3: "as3 = [begin_alert ev3 ep3]" "bev_mrid ev3 = m"
    using plan_edges(1) [OF _ q2(1) assms(15) q2(2), of e3] assms(3,16,20) unfolding observe_plan_def g3 by auto
  show ?thesis using 1 2 3 by simp
qed

text \<open>The walk when one device's evidence is all there is.\<close>

lemma scan_one:
  assumes "\<forall>x \<in> set ds. x = d \<or> \<not> nonConverged x" and "d \<in> set ds \<or> best = (de_mrid d, de_issuedAt d)"
    and "nonConverged d" and "de_mrid d \<noteq> ''''" and "fst best = '''' \<or> best = (de_mrid d, de_issuedAt d)"
  shows "scan_reports act ds best = (de_mrid d, de_issuedAt d)"
  using assms
proof (induction ds arbitrary: best)
  case (Cons x ds)
  then show ?case by (cases "x = d") auto
qed auto

lemma one_device:
  assumes "devices_quiet b0" and "deviceReports b = (deviceReports b0)(n \<mapsto> d)" and "planBreach b = None"
    and "nonConverged d" and "de_mrid d \<noteq> ''''" and "n \<in> set (ce_walk e)"
  shows "\<exists>ev. effectiveBreach e b = Some ev \<and> bev_mrid ev = de_mrid d"
proof -
  let ?ds = "List.map_filter (deviceReports b) (ce_walk e)"
  have "\<forall>x \<in> set ?ds. x = d \<or> \<not> nonConverged x"
  proof
    fix x assume "x \<in> set ?ds"
    then obtain k where k: "deviceReports b k = Some x" by (auto simp: List.map_filter_def)
    then show "x = d \<or> \<not> nonConverged x" using assms(1,2) by (cases "k = n") (auto simp: devices_quiet_def ran_def)
  qed
  moreover have "d \<in> set ?ds" using assms(2,6) by (force simp: List.map_filter_def image_iff)
  ultimately have "scan_reports (be_activeMRID b) ?ds ('''', 0) = (de_mrid d, de_issuedAt d)"
    using scan_one [of ?ds d "('''', 0)"] assms(4,5) by simp
  then show ?thesis using assms(3,5) by (simp add: effectiveBreach_def)
qed

text \<open>The reconcilers of a device that have begun and not ended, by class and axis, from its reports.\<close>

fun unresolved :: "ReconcileReport list \<Rightarrow> (string \<times> string) list" where
  "unresolved [] = []"
| "unresolved (r # rs) =
     (if rr_Kind r = ''NonConvergedBegin'' \<and>
         \<not> list_ex (\<lambda>x. rr_Kind x = ''NonConvergedEnd'' \<and> rr_DeviceClass x = rr_DeviceClass r \<and> rr_Axis x = rr_Axis r) rs
      then (rr_DeviceClass r, rr_Axis r) # unresolved rs else unresolved rs)"

text \<open>
  The end of one fault of a device ends the others. The component keeps one entry per device,
  but a device has a reconciler for its scalar setpoints and one for every advanced axis, each with its own
  reports. If two of them find the device not converging under a control and the first recovers, its end
  clears the entry of both: the episode is closed and the utility told so, while the second has not
  converged and stays silent until it does.
\<close>

theorem axis_end_closes_episode:
  assumes "\<not> episode_Active b" and "devices_quiet b" and "planBreach b = None" and "m \<noteq> ''''"
    and "list_all (\<lambda>e. n \<in> set (ce_walk e)) [e1, e2, e3]" and "list_all (\<lambda>r. rr_DeviceID r = n \<and> rr_MRID r = m) [r1, r2, r3]"
    and "map rr_Kind [r1, r2, r3] = [''NonConvergedBegin'', ''NonConvergedBegin'', ''NonConvergedEnd'']"
    and "(rr_DeviceClass r1, rr_Axis r1) = (rr_DeviceClass r3, rr_Axis r3)"
    and "(rr_DeviceClass r2, rr_Axis r2) \<noteq> (rr_DeviceClass r3, rr_Axis r3)"
    and "be_run [InReport e1 r1, InReport e2 r2, InReport e3 r3] b = (b', as)"
  shows "map (\<lambda>a. (al_MRID a, al_Active a)) as = [(m, True), (m, False)] \<and> \<not> episode_Active b' \<and>
    unresolved [r1, r2, r3] = [(rr_DeviceClass r2, rr_Axis r2)]"
proof -
  let ?d = "\<lambda>r c. \<lparr>de_mrid = m, nonConverged = c, de_issuedAt = rr_IssuedAt r\<rparr>"
  let ?put = "\<lambda>x d. x\<lparr>deviceReports := (deviceReports x)(n \<mapsto> d)\<rparr>"
  obtain b1 as1 b2 as2 b3 as3 where s: "OnReport e1 r1 b = (b1, as1)" "OnReport e2 r2 b1 = (b2, as2)" "OnReport e3 r3 b2 = (b3, as3)"
    by (metis surj_pair)
  have em1: "emit e1 (?put b (?d r1 True)) = (b1, as1)" using s(1) assms(4,6,7) by (simp add: OnReport_def)
  obtain ev1 where ev1: "effectiveBreach e1 (?put b (?d r1 True)) = Some ev1" "bev_mrid ev1 = m"
    using one_device [OF assms(2), of "?put b (?d r1 True)" n "?d r1 True" e1] assms(3-5) by auto
  have 1: "map (\<lambda>a. (al_MRID a, al_Active a)) as1 = [(m, True)]" "be_activeMRID b1 = m" "planBreach b1 = None"
    "deviceReports b1 = (deviceReports b)(n \<mapsto> ?d r1 True)"
    using em1 ev1 assms(1,3,4) by (auto simp: emit_def Let_def episode_Active_def)
  have em2: "emit e2 (?put b1 (?d r2 True)) = (b2, as2)" using s(2) assms(4,6,7) by (simp add: OnReport_def)
  obtain ev2 where ev2: "effectiveBreach e2 (?put b1 (?d r2 True)) = Some ev2" "bev_mrid ev2 = m"
    using one_device [OF assms(2), of "?put b1 (?d r2 True)" n "?d r2 True" e2] 1(3,4) assms(4,5) by auto
  have 2: "as2 = []" "b2 = ?put b1 (?d r2 True)" using em2 ev2 1(2) by (simp_all add: emit_def)
  have em3: "emit e3 (?put b2 (?d r2 False)) = (b3, as3)" using s(3) assms(6,7) 2(2) by (simp add: OnReport_def)
  have "devices_quiet (?put b2 (?d r2 False))" using assms(2) 2(2) 1(4) by (auto simp: devices_quiet_def ran_def)
  then have "effectiveBreach e3 (?put b2 (?d r2 False)) = None" using quiet_breach 1(3) 2(2) by simp
  then have 3: "map (\<lambda>a. (al_MRID a, al_Active a)) as3 = [(m, False)]" "be_activeMRID b3 = ''''"
    using em3 1(2) 2(2) assms(4) by (auto simp: emit_def Let_def)
  show ?thesis using assms(7-10) s 1(1) 2(1) 3 by (auto simp: episode_Active_def)
qed

section \<open>A restart while a limit is broken\<close>

lemma paired_reported:
  assumes "paired cur as = Some cur'" and "fst cur' \<noteq> ''''" and "fst cur = '''' \<or> fst cur \<in> set ks"
  shows "fst cur' \<in> set ks \<union> set (to_report ks as)"
  using assms
proof (induction as arbitrary: cur ks)
  case (Cons a as)
  show ?case
  proof (cases "al_Active a")
    case True
    then have p: "paired (al_MRID a, al_EpisodeID a) as = Some cur'" using Cons.prems(1) by (simp split: if_splits)
    show ?thesis
    proof (cases "al_MRID a \<in> set ks")
      case seen: True
      then show ?thesis using Cons.IH [OF p Cons.prems(2), of ks] True by simp
    next
      case False
      then show ?thesis using Cons.IH [OF p Cons.prems(2), of "al_MRID a # ks"] True by auto
    qed
  next
    case False
    then have p: "paired ('''', '''') as = Some cur'" using Cons.prems(1) by (simp split: if_splits)
    show ?thesis using Cons.IH [OF p Cons.prems(2), of "[]"] False by simp
  qed
qed auto

lemma last_plan_open:
  assumes "xs = ys @ [InPlan e p]" and "\<not> Safety p" and "Breach p = Some br"
  shows "be_activeMRID (fst (be_run xs b)) = br_MRID br"
  using assms(2,3) by (simp add: assms(1) be_run_append case_prod_unfold Let_def OnPlan_def emit_def effectiveBreach_def)

text \<open>The inputs that a run of full ticks gives the component.\<close>

definition plan_inputs :: "call_env list \<Rightarrow> Plan list \<Rightarrow> hub_input list" where
  "plan_inputs es ps = map2 InPlan es ps"

lemma plan_inputs_snoc: "length es = length ps \<Longrightarrow> plan_inputs (es @ [e]) (ps @ [p]) = plan_inputs es ps @ [InPlan e p]"
  by (simp add: plan_inputs_def)

lemma export_run_plans:
  assumes "\<forall>st \<in> set sts. \<not> ceases st \<and> (\<exists>c. CSIPControl st = Some c \<and> cc_MRID c = m)"
  shows "\<forall>p \<in> set (snd (run_of (DefaultOptimizer_Optimize env) sts opt)). \<not> Safety p \<and> (\<forall>br. Breach p = Some br \<longrightarrow> br_MRID br = m)"
  using assms
proof (induction sts arbitrary: opt)
  case (Cons st sts)
  obtain opt' plan where o: "DefaultOptimizer_Optimize env st opt = (opt', plan)" by fastforce
  have "\<not> Safety plan \<and> (\<forall>br. Breach plan = Some br \<longrightarrow> br_MRID br = m)" using tick_plan [OF _ o] Cons.prems by auto
  then show ?case using Cons by (simp add: o Let_def case_prod_unfold)
qed simp

text \<open>
  Property C16: the snapshot does not spare the utility a second report of a broken limit. A hub restarts
  while the site exports over the cap of the control in force and restores the open episode from a fresh
  snapshot. The optimizer counts ticks over the cap before it reports them and starts at zero, so the
  first plan has no breach, which the component takes for the end of the episode: its first alert is that
  end, and within the ticks of the threshold it begins another episode for the same control, which a
  tracker that remembers the first one posts again.
\<close>

theorem restart_reports_again:
  assumes "loadHubSnapshot content maxAge now = Inr snap" and "ActiveBreach snap = Some x"
    and "bsn_MRID x \<noteq> ''''" and "bsn_EpisodeID x \<noteq> ''''" and "path \<noteq> ''''"
    and "\<forall>st \<in> set sts. export_over st \<and> is_nan (gc_importLimitW (limits_of st)) \<and> (\<exists>c. CSIPControl st = Some c \<and> cc_MRID c = bsn_MRID x)"
    and "unstarted opt" and "length es = length sts" and "ScaleTicks (opt_tickInterval opt) exportBreachTicks \<le> int (length sts)"
    and "snd (be_run (plan_inputs es (snd (run_of (DefaultOptimizer_Optimize env) sts opt))) (start_episodes path True maxAge now content)) = as"
  shows "hd as = end_alert (bsn_MRID x) (bsn_EpisodeID x) \<and> bsn_MRID x \<in> set (to_report [bsn_MRID x] as)"
proof -
  let ?m = "bsn_MRID x" and ?b = "start_episodes path True maxAge now content"
  let ?ps = "snd (run_of (DefaultOptimizer_Optimize env) sts opt)"
  have b: "be_activeMRID ?b = ?m" "episodeID ?b = bsn_EpisodeID x" "devices_quiet ?b"
    using assms(1-5) by (simp_all add: start_episodes_def Restore_def newBreachEpisodes_def devices_quiet_def)
  have k: "2 \<le> ScaleTicks (opt_tickInterval opt) exportBreachTicks" by (rule ScaleTicks_ge) (simp add: exportBreachTicks_def)
  have nc: "\<forall>st \<in> set sts. \<not> ceases st" using assms(6) by (simp add: export_over_def)
  obtain st sts' where sts: "sts = st # sts'" using k assms(9) by (cases sts) auto
  obtain opt1 p1 where o1: "DefaultOptimizer_Optimize env st opt = (opt1, p1)" by fastforce
  obtain e1 es' where es: "es = e1 # es'" using assms(8) sts by (cases es) auto
  let ?ps' = "snd (run_of (DefaultOptimizer_Optimize env) sts' opt1)"
  have ps: "?ps = p1 # ?ps'" by (simp add: sts o1 case_prod_unfold Let_def)
  have all: "\<forall>p \<in> set ?ps. \<not> Safety p \<and> (\<forall>br. Breach p = Some br \<longrightarrow> br_MRID br = ?m)"
    by (rule export_run_plans) (use assms(6) nc in blast)
  have "Breach p1 = None" by (rule first_plan_clear [OF _ _ assms(7) o1]) (use nc assms(6) sts in simp_all)
  then obtain b1 where s1: "OnPlan e1 p1 ?b = (b1, [end_alert ?m (bsn_EpisodeID x)])" "be_activeMRID b1 = ''''"
    using plan_edges(2) [OF _ b(3), of p1 e1] all ps b(1,2) assms(3) by auto
  obtain b2 as2 where s2: "be_run (plan_inputs es' ?ps') b1 = (b2, as2)" by fastforce
  have as: "as = end_alert ?m (bsn_EpisodeID x) # as2"
    using assms(10) unfolding ps plan_inputs_def es by (simp add: s1(1) s2 [unfolded plan_inputs_def])
  have "breached (last ?ps)"
    by (rule export_check.reported_by_threshold [OF refl]) (use assms(6,7,9) sts in \<open>auto simp: unstarted_def\<close>)
  moreover have l: "length ?ps' = length sts'" by simp
  then have n: "?ps' \<noteq> []" using k assms(9) sts by (cases sts') auto
  ultimately obtain br where br: "Breach (last ?ps') = Some br" by (auto simp: ps breached_def)
  have lp: "last ?ps' \<in> set ?ps" using n by (simp add: ps)
  have e: "es' \<noteq> []" "length es' = length ?ps'" using l n assms(8) sts es by auto
  obtain es0 el where el: "es' = es0 @ [el]" using e(1) by (cases es' rule: rev_cases) auto
  obtain ps0 pl where pl: "?ps' = ps0 @ [pl]" using n by (cases ?ps' rule: rev_cases) auto
  have "plan_inputs es' ?ps' = plan_inputs es0 ps0 @ [InPlan el pl]"
    unfolding el pl by (rule plan_inputs_snoc) (use e(2) in \<open>simp add: el pl\<close>)
  moreover have "\<not> Safety pl" "br_MRID br = ?m" "Breach pl = Some br" using all lp br pl by (simp_all add: ps)
  ultimately have "be_activeMRID b2 = ?m" using last_plan_open [of "plan_inputs es' ?ps'" _ el pl br b1] s2 by simp
  moreover have "paired (open_episode b1) as2 = Some (open_episode b2)" by (rule run_paired [OF s2])
  ultimately have "?m \<in> set (to_report [] as2)"
    using paired_reported [of "open_episode b1" as2 "open_episode b2" "[]"] s1(2) assms(3) by (simp add: open_episode_def)
  then show ?thesis by (simp add: as)
qed

section \<open>Examples\<close>

definition ex_call :: "int64 \<Rightarrow> call_env" where
  "ex_call s = \<lparr>ce_now = unix_time s, ce_walk = [''pack'', ''roof''], ce_saves = True\<rparr>"

definition ex_breach :: "string \<Rightarrow> int \<Rightarrow> ComplianceBreach" where
  "ex_breach kind w = \<lparr>br_MRID = ''A'', br_LimitType = kind, br_LimitW = Fin 1000, br_MeasuredW = Fin (1000 + of_int w),
     br_ShortfallW = Fin (of_int w), br_Reason = ''over''\<rparr>"

definition ex_plan :: "ComplianceBreach option \<Rightarrow> Plan" where
  "ex_plan br = (empty_plan 1)\<lparr>Breach := br\<rparr>"

definition ex_report :: "string \<Rightarrow> string \<Rightarrow> string \<Rightarrow> ReconcileReport" where
  "ex_report kind cls ax = \<lparr>rr_Kind = kind, rr_DeviceClass = cls, rr_DeviceID = ''pack'', rr_MRID = ''A'', rr_IssuedAt = 900, rr_Axis = ax\<rparr>"

definition ex_start :: breachEpisodes where "ex_start = newBreachEpisodes ''/var/lib/hub'' NoFile"

definition ex_inputs :: "hub_input list" where
  "ex_inputs = [InPlan (ex_call 1000) (ex_plan (Some (ex_breach ''export'' 500))),
     InReport (ex_call 1001) (ex_report ''NonConvergedBegin'' ''battery'' ''''), InPlan (ex_call 1003) (ex_plan None)]"

lemmas ex_defs = ex_call_def ex_breach_def ex_plan_def ex_report_def ex_start_def newBreachEpisodes_def empty_plan_def

theorem alerts_paired_witness:
  "paired (open_episode ex_start) (snd (be_run ex_inputs ex_start)) = Some (open_episode (fst (be_run ex_inputs ex_start))) \<and>
   distinct (begun (snd (be_run ex_inputs ex_start)))"
  by (rule alerts_paired [OF prod.collapse [symmetric]]) (simp_all add: ex_start_def newBreachEpisodes_def ex_inputs_def)

lemma ex_alerts:
  obtains ev ep b' where "be_run ex_inputs ex_start = (b', [begin_alert ev ep])" "bev_mrid ev = ''A''"
proof -
  let ?ev = "\<lparr>bev_mrid = ''A'', bev_limitType = ''export'', bev_limitW = Fin 1000, bev_measuredW = Fin 1500,
    bev_shortfallW = Fin 500, bev_reason = ''over'', bev_issuedAt = 1000\<rparr>"
  have "\<exists>b'. be_run ex_inputs ex_start = (b', [begin_alert ?ev (episode_name ''A'' 1000 1)])"
    by (simp add: ex_inputs_def OnPlan_def OnReport_def emit_def effectiveBreach_def writeSnapshotLocked_def Let_def ex_defs List.map_filter_def)
  then show ?thesis using that [of _ ?ev] by auto
qed

theorem one_response_per_breach_witness:
  "\<exists>a. snd (be_run ex_inputs ex_start) = [a] \<and>
     map (\<lambda>r. (Subject (fst r), resp_Status (fst r))) (sent (fold handle_alert [(1004, a)] ex_t0)) = [(''A'', 8)]"
proof -
  obtain ev ep b' where r: "be_run ex_inputs ex_start = (b', [begin_alert ev ep])" "bev_mrid ev = ''A''" by (rule ex_alerts)
  have "map (\<lambda>r. (Subject (fst r), resp_Status (fst r))) (sent (fold handle_alert [(1004, begin_alert ev ep)] ex_t0)) =
      map (\<lambda>m. (m, posted_code ex_t0)) (to_report [] (map snd [(1004 :: int64, begin_alert ev ep)]))"
    by (rule one_response_per_breach [of ex_inputs ex_start b'])
      (simp_all add: r(1), simp_all add: r(2) plain_def ex_start_def newBreachEpisodes_def ex_inputs_def ex_t0_def New_def empty_state_def Suspended_def)
  then show ?thesis using r by (simp add: posted_code_def ex_t0_def New_def empty_state_def ResponsePartialOptOut_def)
qed

definition ex_reader :: MQTTSystemReader where
  "ex_reader = (newMQTTSystemReader (\<lambda>_. 0) [] 0 False)\<lparr>openADRBindExport := True\<rparr>"

theorem openadr_breach_splits_episode_witness:
  "\<exists>b1 b2 b3 as1 as2 as3. observe_plan (ex_call 1000) ex_reader (ex_plan (Some (ex_breach ''generation'' 500))) ex_start = (b1, as1) \<and>
     observe_plan (ex_call 1003) ex_reader (ex_plan (Some (ex_breach ''export'' 900))) b1 = (b2, as2) \<and>
     observe_plan (ex_call 1006) ex_reader (ex_plan (Some (ex_breach ''generation'' 500))) b2 = (b3, as3) \<and>
     to_report [] (as1 @ as2 @ as3) = [''A'', ''A'']"
proof -
  let ?g = "ex_plan (Some (ex_breach ''generation'' 500))" and ?x = "ex_plan (Some (ex_breach ''export'' 900))"
  obtain b1 as1 b2 as2 b3 as3 where s: "observe_plan (ex_call 1000) ex_reader ?g ex_start = (b1, as1)"
    "observe_plan (ex_call 1003) ex_reader ?x b1 = (b2, as2)" "observe_plan (ex_call 1006) ex_reader ?g b2 = (b3, as3)" by (metis surj_pair)
  have "to_report [] (as1 @ as2 @ as3) = [''A'', ''A'']"
    using openadr_breach_splits_episode [where m = "''A''" and brs = "[ex_breach ''generation'' 500, ex_breach ''export'' 900]"
        and ?c2.0 = "ex_breach ''generation'' 500" and w = "ex_breach ''export'' 900", OF _ _ _ _ _ _ _ _ _ _ _ _ _ _ _ _ _ s]
    by (simp add: ex_defs episode_Active_def devices_quiet_def OpenADRBoundAxis_def ex_reader_def newMQTTSystemReader_def recordBreach_def flt_def feq_def)
  then show ?thesis using s by blast
qed

theorem axis_end_closes_episode_witness:
  "\<exists>b' as. be_run [InReport (ex_call 1) (ex_report ''NonConvergedBegin'' ''adv'' ''volt_var''),
       InReport (ex_call 2) (ex_report ''NonConvergedBegin'' ''battery'' ''''),
       InReport (ex_call 3) (ex_report ''NonConvergedEnd'' ''adv'' ''volt_var'')] ex_start = (b', as) \<and>
     map (\<lambda>a. (al_MRID a, al_Active a)) as = [(''A'', True), (''A'', False)] \<and> \<not> episode_Active b'"
proof -
  let ?xs = "[InReport (ex_call 1) (ex_report ''NonConvergedBegin'' ''adv'' ''volt_var''),
       InReport (ex_call 2) (ex_report ''NonConvergedBegin'' ''battery'' ''''),
       InReport (ex_call 3) (ex_report ''NonConvergedEnd'' ''adv'' ''volt_var'')]"
  obtain b' as where r: "be_run ?xs ex_start = (b', as)" by (metis surj_pair)
  show ?thesis using axis_end_closes_episode [where m = "''A''" and n = "''pack''", OF _ _ _ _ _ _ _ _ _ r] r
    by (simp add: ex_defs episode_Active_def devices_quiet_def)
qed

definition ex_snapshot :: file_content where
  "ex_snapshot = SnapshotFile \<lparr>sn_V = 1, WrittenAt = 1000,
     ActiveBreach = Some \<lparr>bsn_EpisodeID = ''m1@900#1'', bsn_MRID = ''m1'', bsn_Counter = 1\<rparr>\<rparr>"

definition ex_over :: SystemState where
  "ex_over = home (NewGridState\<lparr>NetW := Fin (- 5000)\<rparr>) (Some (no_base\<lparr>OpModExpLimW := Some \<lparr>ap_Multiplier = 0, ap_Value = 1000\<rparr>\<rparr>))"

lemma ex_over_limits: "gc_exportLimitW (limits_of ex_over) = Fin 1000" "gc_importLimitW (limits_of ex_over) = NaN"
  "CSIPControl ex_over = Some \<lparr>cc_Source = ''event'', cc_MRID = ''m1'',
     cc_Base = no_base\<lparr>OpModExpLimW := Some \<lparr>ap_Multiplier = 0, ap_Value = 1000\<rparr>\<rparr>, cc_ValidUntil = 0\<rparr>"
  using fl_of_int [of 1000]
  by (simp_all add: ex_over_def home_def limits_of_def deriveGridConstraints_def Let_def csip_min_def opt_nanMin_def opt_apW_def pow10_def
      NewGridState_def no_base_def)

lemma ex_over_ceases: "\<not> ceases ex_over" "NetW (Grid ex_over) = Fin (- 5000)"
  by (simp_all add: ex_over_def no_base_def)

theorem restart_reports_again_witness:
  "let as = snd (be_run (plan_inputs (map ex_call [1101, 1104, 1107])
         (snd (run_of (DefaultOptimizer_Optimize home_env) (replicate 3 ex_over) NewDefaultOptimizer)))
       (start_episodes ''/var/lib/hub'' True (300 * second) (unix_time 1100) ex_snapshot))
   in hd as = end_alert ''m1'' ''m1@900#1'' \<and> ''m1'' \<in> set (to_report [''m1''] as)"
proof -
  let ?x = "\<lparr>bsn_EpisodeID = ''m1@900#1'', bsn_MRID = ''m1'', bsn_Counter = 1\<rparr>"
  have l: "loadHubSnapshot ex_snapshot (300 * second) (unix_time 1100) = Inr \<lparr>sn_V = 1, WrittenAt = 1000, ActiveBreach = Some ?x\<rparr>"
    by (simp add: loadHubSnapshot_def ex_snapshot_def hubSnapshotV_def Let_def second_def wrap64_def unix_time_def time_unix_def unix_epoch_s_def)
  show ?thesis unfolding Let_def
    using restart_reports_again [OF l, of ?x, where path = "''/var/lib/hub''" and sts = "replicate 3 ex_over"
        and opt = NewDefaultOptimizer and es = "map ex_call [1101, 1104, 1107]" and env = home_env, OF _ _ _ _ _ _ _ _ refl]
    by (simp add: export_over_def ex_over_limits ex_over_ceases NewDefaultOptimizer_def unstarted_def ScaleTicks_def exportBreachTicks_def
        complianceBreachW_def fmax_def flt_def feq_def)
qed

end
