(* ===== verification/HubProps.thy ===== *)
theory HubProps
  imports HubReader TickPlans
begin

text \<open>
  What the reader of the hub promises: how long a control is held, which readings a state is made of, and
  that the utility's limits survive their way through it. The hold rests on the contract of the debounce
  (\<open>consecutive_debounce\<close>) as the reader uses it.
\<close>

section \<open>Reads\<close>

lemma journal_fields [simp]:
  "lastCSIP (journal_append es r) = lastCSIP r" "expiry (journal_append es r) = expiry r" "utclk (journal_append es r) = utclk r"
  "openADRLimits (journal_append es r) = openADRLimits r"
  by (simp_all add: journal_append_def)

lemma merge_fields:
  "lastCSIP (fst (mergeOpenADRLimitsLocked n (r, g))) = lastCSIP r" "expiry (fst (mergeOpenADRLimitsLocked n (r, g))) = expiry r"
  "utclk (fst (mergeOpenADRLimitsLocked n (r, g))) = utclk r"
  "lastEVSE (fst (mergeOpenADRLimitsLocked n (r, g))) = lastEVSE r"
  by (simp_all add: mergeOpenADRLimitsLocked_def Let_def)

text \<open>The control after a read, and the one it shows.\<close>

lemma read_control:
  defines "e \<equiv> \<lambda>r t. expire_control (ServerNow (utclk r) t) r"
  shows "lastCSIP (fst (ReadSystemState cv t ss r)) = lastCSIP (e r t)"
    and "expiry (fst (ReadSystemState cv t ss r)) = expiry (e r t)"
    and "utclk (fst (ReadSystemState cv t ss r)) = utclk r"
    and "CSIPControl (snd (ReadSystemState cv t ss r)) = Option.bind (lastCSIP (e r t)) (busToCSIPControl cv)"
proof -
  obtain st state where f: "fold (read_device r t (worldMoving t r)) (devices r) (stale r, blank_state t) = (st, state)" by fastforce
  have x: "lastCSIP (expire_control s (r\<lparr>stale := st\<rparr>)) = lastCSIP (expire_control s r)"
    "expiry (expire_control s (r\<lparr>stale := st\<rparr>)) = expiry (expire_control s r)"
    "utclk (expire_control s (r\<lparr>stale := st\<rparr>)) = utclk r" for s
    by (simp_all add: expire_control_def Let_def case_prod_unfold split: option.split)
  have "CSIPControl (snd (fold (read_device r t m) ds a)) = CSIPControl (snd a)" for m ds a
    by (rule fold_invariant_set [where P = "\<lambda>b. CSIPControl (snd b) = CSIPControl (snd a)"]) (simp_all add: read_device_def Let_def case_prod_unfold)
  from this [of "worldMoving t r" "devices r" "(stale r, blank_state t)"] have c: "CSIPControl state = None"
    unfolding f by (simp add: blank_state_def)
  have a: "CSIPControl (adopt_control cv held state) = Option.bind held (busToCSIPControl cv)" for held
    using c by (simp add: adopt_control_def split: option.split)
  show "lastCSIP (fst (ReadSystemState cv t ss r)) = lastCSIP (e r t)" "expiry (fst (ReadSystemState cv t ss r)) = expiry (e r t)"
    "utclk (fst (ReadSystemState cv t ss r)) = utclk r"
    "CSIPControl (snd (ReadSystemState cv t ss r)) = Option.bind (lastCSIP (e r t)) (busToCSIPControl cv)"
    by (simp_all add: ReadSystemState_def Let_def f case_prod_unfold merge_fields x a e_def)
qed

fun read_run :: "(f64 \<Rightarrow> int) \<Rightarrow> (reading \<times> string list) list \<Rightarrow> MQTTSystemReader \<Rightarrow> MQTTSystemReader \<times> SystemState list" where
  "read_run cv [] r = (r, [])"
| "read_run cv (x # xs) r = (let (r', s) = ReadSystemState cv (fst x) (snd x) r; (r'', ss) = read_run cv xs r' in (r'', s # ss))"

lemma read_run_snoc:
  "read_run cv (xs @ [x]) r =
     (let (r', ss) = read_run cv xs r; (r'', s) = ReadSystemState cv (fst x) (snd x) r' in (r'', ss @ [s]))"
  by (induction xs arbitrary: r) (simp_all add: Let_def case_prod_unfold)

section \<open>How long a control is held\<close>

text \<open>Some \<open>need\<close> observations in a row were true.\<close>

definition released :: "nat \<Rightarrow> bool list \<Rightarrow> bool" where
  "released need bs \<longleftrightarrow> list_ex (\<lambda>j. need \<le> UtilityTime.trailing (take (Suc j) bs)) [0..<length bs]"

lemma released_snoc: "released need (bs @ [b]) \<longleftrightarrow> released need bs \<or> need \<le> UtilityTime.trailing (bs @ [b])"
  by (auto simp: released_def list_ex_iff)

definition needed :: "DebouncedExpiry \<Rightarrow> nat" where
  "needed d = (if Confirm d \<le> 0 then 1 else nat (Confirm d))"

definition past :: "MQTTSystemReader \<Rightarrow> ControlMsg \<Rightarrow> reading \<Rightarrow> bool" where
  "past r c t = Expired (ac_ValidUntil c) (ServerNow (utclk r) t)"

lemma held_run:
  assumes "lastCSIP r = Some c" and "expiry r = Reset d" and "read_run cv xs r = (r', ss)"
  shows "utclk r' = utclk r \<and>
    (if released (needed d) (map (\<lambda>x. past r c (fst x)) xs) then lastCSIP r' = fallback_of c
     else lastCSIP r' = Some c \<and> expiry r' = feed Observe (Reset d) (map (\<lambda>x. past r c (fst x)) xs)) \<and>
    map CSIPControl ss = map (\<lambda>i. Option.bind (if released (needed d) (take (Suc i) (map (\<lambda>x. past r c (fst x)) xs)) then fallback_of c else Some c)
      (busToCSIPControl cv)) [0..<length xs]"
  using assms(3)
proof (induction xs arbitrary: r' ss rule: rev_induct)
  case Nil
  then show ?case using assms(1,2) by (simp add: released_def)
next
  case (snoc x xs)
  obtain r1 ss1 where r1: "read_run cv xs r = (r1, ss1)" by fastforce
  obtain s where s: "ReadSystemState cv (fst x) (snd x) r1 = (r', s)" "ss = ss1 @ [s]"
    using snoc.prems by (simp add: read_run_snoc r1 Let_def case_prod_unfold prod_eq_iff)
  let ?es = "map (\<lambda>x. past r c (fst x)) xs" and ?e = "past r c (fst x)" and ?n = "needed d"
  note IH = snoc.IH [OF r1]
  have rc: "lastCSIP r' = lastCSIP (expire_control (ServerNow (utclk r1) (fst x)) r1)" "expiry r' = expiry (expire_control (ServerNow (utclk r1) (fst x)) r1)"
    "utclk r' = utclk r1" "CSIPControl s = Option.bind (lastCSIP r') (busToCSIPControl cv)"
    using read_control [of cv "fst x" "snd x" r1] s(1) by simp_all
  have st: "if released ?n (?es @ [?e]) then lastCSIP r' = fallback_of c
      else lastCSIP r' = Some c \<and> expiry r' = feed Observe (Reset d) (?es @ [?e])"
  proof (cases "released ?n ?es")
    case True
    then have "lastCSIP r1 = fallback_of c" using IH by simp
    moreover have "\<not> Expired (ac_ValidUntil fb) n" if "fallback_of c = Some fb" for fb n
      using that by (auto simp: fallback_of_def Expired_def)
    ultimately have "lastCSIP r' = fallback_of c"
      using rc(1) by (auto simp: expire_control_def Let_def Observe_def split: option.splits)
    then show ?thesis using True by (simp add: released_snoc)
  next
    case False
    then have l: "lastCSIP r1 = Some c" "expiry r1 = feed Observe (Reset d) ?es" and u: "utclk r1 = utclk r" using IH by simp_all
    have f: "fst (Observe (expiry r1) ?e) \<longleftrightarrow> ?e \<and> ?n \<le> UtilityTime.trailing (?es @ [?e])"
      unfolding l(2) needed_def by (rule debounced.fires_iff)
    have n: "0 < ?n" by (simp add: needed_def)
    have "?n \<le> UtilityTime.trailing (?es @ [?e]) \<longleftrightarrow> fst (Observe (expiry r1) ?e)" using f n by (cases ?e) simp_all
    then show ?thesis using False rc(1,2) l u
      by (simp add: released_snoc expire_control_def Let_def case_prod_unfold feed_append past_def)
  qed
  have "map CSIPControl ss1 = map (\<lambda>i. Option.bind (if released ?n (take (Suc i) (?es @ [?e])) then fallback_of c else Some c)
      (busToCSIPControl cv)) [0..<length xs]"
    using IH by (auto intro!: map_cong)
  moreover have "CSIPControl s = Option.bind (if released ?n (?es @ [?e]) then fallback_of c else Some c) (busToCSIPControl cv)"
    using st rc(4) by (auto split: if_splits)
  ultimately show ?case using st IH rc(3) s(2) by simp
qed

text \<open>
  Property C10: a control is enforced until its expiry is confirmed, and what follows it is its default.
  While no message arrives, a read shows the control as long as the reads before and including it have
  not found it past its validity, in server time, as often in a row as the debounce asks; from the read
  that completes such a row on, every read shows the default control the message carried, or none. What
  is counted is reads, whether an engine tick or a replan makes them.
\<close>

theorem control_held_until_confirmed:
  assumes "lastCSIP r = Some c" and "expiry r = Reset d" and "read_run cv xs r = (r', states)"
  shows "map CSIPControl states =
    map (\<lambda>i. Option.bind (if released (needed d) (take (Suc i) (map (\<lambda>x. past r c (fst x)) xs)) then fallback_of c else Some c)
      (busToCSIPControl cv)) [0..<length xs]"
  using held_run [OF assms] by blast

section \<open>The readings a state is made of\<close>

definition usable_meter :: "MQTTSystemReader \<Rightarrow> reading \<Rightarrow> bool \<Rightarrow> DeviceConfig \<Rightarrow> bool" where
  "usable_meter r now moving dc \<longleftrightarrow> dc_Role dc = ''meter'' \<and> meas_fresh now (snap_of r (dc_Name dc)) \<and>
     \<not> (moving \<and> frozenW now (snap_of r (dc_Name dc)))"

lemma fold_devices:
  defines "seen \<equiv> \<lambda>r now dc. battery_metrics (lastBattMet r (dc_Name dc)) (battery_seen now dc (snap_of r (dc_Name dc)))"
  shows "Batteries (snd (fold (read_device r now m) ds a)) =
      Batteries (snd a) @ map (seen r now) (filter (\<lambda>dc. dc_Role dc = ''battery'') ds)"
    and "Solar (snd (fold (read_device r now m) ds a)) =
      Solar (snd a) @ map (\<lambda>dc. solar_seen now dc (snap_of r (dc_Name dc))) (filter (\<lambda>dc. dc_Role dc = ''inverter'') ds)"
    and "Grid (snd (fold (read_device r now m) ds a)) =
      fold (\<lambda>dc. meter_seen (snap_of r (dc_Name dc))) (filter (usable_meter r now m) ds) (Grid (snd a))"
proof (induction ds arbitrary: a)
  case (Cons dc ds)
  { case 1 show ?case using Cons(1) by (simp add: read_device_def Let_def case_prod_unfold seen_def) }
  { case 2 show ?case using Cons(2) by (simp add: read_device_def Let_def case_prod_unfold) }
  { case 3 show ?case using Cons(3) by (simp add: read_device_def Let_def case_prod_unfold usable_meter_def) }
qed simp_all

lemma read_devices:
  "Batteries (snd (ReadSystemState cv now ss r)) =
     map (\<lambda>dc. battery_metrics (lastBattMet r (dc_Name dc)) (battery_seen now dc (snap_of r (dc_Name dc))))
       (filter (\<lambda>dc. dc_Role dc = ''battery'') (devices r))"
  "Solar (snd (ReadSystemState cv now ss r)) =
     map (\<lambda>dc. solar_seen now dc (snap_of r (dc_Name dc))) (filter (\<lambda>dc. dc_Role dc = ''inverter'') (devices r))"
  "NetW (Grid (snd (ReadSystemState cv now ss r))) =
     NetW (fold (\<lambda>dc. meter_seen (snap_of r (dc_Name dc))) (filter (usable_meter r now (worldMoving now r)) (devices r)) NewGridState)"
proof -
  obtain st state where f: "fold (read_device r now (worldMoving now r)) (devices r) (stale r, blank_state now) = (st, state)" by fastforce
  have a: "Batteries (adopt_control cv held state) = Batteries state" "Solar (adopt_control cv held state) = Solar state"
    "NetW (Grid (adopt_control cv held state)) = NetW (Grid state)" for held
    by (simp_all add: adopt_control_def split: option.split)
  have g: "NetW (snd (mergeOpenADRLimitsLocked n (x, g))) = NetW g" for n x g by (simp add: mergeOpenADRLimitsLocked_def Let_def)
  have b: "Batteries (blank_state now) = []" "Solar (blank_state now) = []" "Grid (blank_state now) = NewGridState" by (simp_all add: blank_state_def)
  show "Batteries (snd (ReadSystemState cv now ss r)) =
      map (\<lambda>dc. battery_metrics (lastBattMet r (dc_Name dc)) (battery_seen now dc (snap_of r (dc_Name dc))))
        (filter (\<lambda>dc. dc_Role dc = ''battery'') (devices r))"
    using fold_devices(1) [of r now "worldMoving now r" "devices r" "(stale r, blank_state now)"]
    by (simp add: ReadSystemState_def Let_def f case_prod_unfold a b)
  show "Solar (snd (ReadSystemState cv now ss r)) =
      map (\<lambda>dc. solar_seen now dc (snap_of r (dc_Name dc))) (filter (\<lambda>dc. dc_Role dc = ''inverter'') (devices r))"
    using fold_devices(2) [of r now "worldMoving now r" "devices r" "(stale r, blank_state now)"]
    by (simp add: ReadSystemState_def Let_def f case_prod_unfold a b)
  show "NetW (Grid (snd (ReadSystemState cv now ss r))) =
      NetW (fold (\<lambda>dc. meter_seen (snap_of r (dc_Name dc))) (filter (usable_meter r now (worldMoving now r)) (devices r)) NewGridState)"
    using fold_devices(3) [of r now "worldMoving now r" "devices r" "(stale r, blank_state now)"]
    by (simp add: ReadSystemState_def Let_def f case_prod_unfold a b g)
qed

lemma seen_fields:
  "bs_Name (battery_metrics bm (battery_seen now dc s)) = dc_Name dc" "bs_Connected (battery_metrics bm (battery_seen now dc s)) \<longleftrightarrow> measured now s"
  "measured now s \<Longrightarrow> bs_PowerW (battery_metrics bm (battery_seen now dc s)) = ms_W s"
  by (simp_all add: battery_metrics_def battery_seen_def NewBatteryState_def Let_def split: option.split)

text \<open>The power of a device is its last reading of it, and a message arrived within the window.\<close>

definition fresh_power :: "MQTTSystemReader \<Rightarrow> reading \<Rightarrow> string \<Rightarrow> f64 \<Rightarrow> bool" where
  "fresh_power r now n w \<longleftrightarrow>
     (case lastMeas r n of None \<Rightarrow> False | Some s \<Rightarrow> meas_fresh now s \<and> \<not> is_nan (ms_W s) \<and> ms_W s = w)"

lemma measured_fresh: "measured now (snap_of r n) \<Longrightarrow> fresh_power r now n (ms_W (snap_of r n))"
  by (auto simp: measured_def snap_of_def fresh_power_def zero_snapshot_def meas_fresh_def split: option.splits)

text \<open>The sum of the numbers among readings, in their order; not a number when there is none.\<close>

definition net_of :: "f64 list \<Rightarrow> f64" where
  "net_of ws = foldl (\<lambda>acc w. if is_nan acc then w else fadd acc w) NaN (filter (\<lambda>w. \<not> is_nan w) ws)"

lemma fold_meters:
  "NetW (fold (\<lambda>dc. meter_seen (s dc)) ds g) =
     foldl (\<lambda>acc w. if is_nan acc then w else fadd acc w) (NetW g) (filter (\<lambda>w. \<not> is_nan w) (map (\<lambda>dc. ms_W (s dc)) ds))"
  by (induction ds arbitrary: g) (simp_all add: meter_seen_def Let_def)

text \<open>
  Property C20: no reading of a silent device is planned on. In the state of any read, a battery or an
  inverter that counts as connected has sent a message within the last 60 s and has the power of its last
  reading; and the net power is the sum of the last readings of exactly the meters that have sent within
  60 s and are not stuck while the world moves, in the order of the configuration. A site whose meters
  are all silent or stuck has no net power at all.
\<close>

theorem state_from_fresh_readings:
  assumes "snd (ReadSystemState cv now ss r) = state"
  shows "(\<forall>b \<in> set (Batteries state). bs_Connected b \<longrightarrow> fresh_power r now (bs_Name b) (bs_PowerW b)) \<and>
    (\<forall>s \<in> set (Solar state). ss_Connected s \<longrightarrow> (\<exists>w. fresh_power r now (ss_Name s) w \<and> ss_PowerW s = fmax (Fin 0) w)) \<and>
    NetW (Grid state) = net_of (map (\<lambda>dc. ms_W (snap_of r (dc_Name dc)))
      (filter (\<lambda>dc. dc_Role dc = ''meter'' \<and> meas_fresh now (snap_of r (dc_Name dc)) \<and>
         \<not> (worldMoving now r \<and> frozenW now (snap_of r (dc_Name dc)))) (devices r)))"
proof -
  have "bs_Connected b \<longrightarrow> fresh_power r now (bs_Name b) (bs_PowerW b)" if "b \<in> set (Batteries state)" for b
    using that measured_fresh by (auto simp: read_devices seen_fields simp flip: assms)
  moreover have "ss_Connected s \<longrightarrow> (\<exists>w. fresh_power r now (ss_Name s) w \<and> ss_PowerW s = fmax (Fin 0) w)" if "s \<in> set (Solar state)" for s
    using that measured_fresh by (auto simp: read_devices solar_seen_def Let_def simp flip: assms intro!: exI [of _ "ms_W (snap_of r n)" for n])
  moreover have "NetW (Grid state) = net_of (map (\<lambda>dc. ms_W (snap_of r (dc_Name dc)))
      (filter (\<lambda>dc. dc_Role dc = ''meter'' \<and> meas_fresh now (snap_of r (dc_Name dc)) \<and>
         \<not> (worldMoving now r \<and> frozenW now (snap_of r (dc_Name dc)))) (devices r)))"
    unfolding assms [symmetric] read_devices(3) fold_meters by (simp add: net_of_def NewGridState_def usable_meter_def [abs_def])
  ultimately show ?thesis by blast
qed

section \<open>Withheld readings\<close>

lemma without_power:
  assumes "list_all (\<lambda>tm. m_Device (snd tm) = n \<and> m_W (snd tm) = None) msgs" and "lastMeas r n = Some s"
  shows "\<exists>s'. lastMeas (fold (\<lambda>tm. onMeasurement (fst tm) (snd tm)) msgs r) n = Some s' \<and> ms_W s' = ms_W s \<and>
      ms_at s' = (if msgs = [] then ms_at s else Some (fst (last msgs)))"
    and "devices (fold (\<lambda>tm. onMeasurement (fst tm) (snd tm)) msgs r) = devices r"
proof -
  have "(\<exists>s'. lastMeas (fold (\<lambda>tm. onMeasurement (fst tm) (snd tm)) msgs r) n = Some s' \<and> ms_W s' = ms_W s \<and>
      ms_at s' = (if msgs = [] then ms_at s else Some (fst (last msgs)))) \<and>
      devices (fold (\<lambda>tm. onMeasurement (fst tm) (snd tm)) msgs r) = devices r"
    using assms
  proof (induction msgs arbitrary: r s)
    case (Cons x xs)
    obtain s1 where s1: "lastMeas (onMeasurement (fst x) (snd x) r) n = Some s1" "ms_W s1 = ms_W s" "ms_at s1 = Some (fst x)"
      "devices (onMeasurement (fst x) (snd x) r) = devices r"
      using Cons.prems by (auto simp: onMeasurement_def Let_def measured_W_def split: option.split)
    then show ?case using Cons.IH [of "onMeasurement (fst x) (snd x) r" s1] Cons.prems by auto
  qed simp
  then show "\<exists>s'. lastMeas (fold (\<lambda>tm. onMeasurement (fst tm) (snd tm)) msgs r) n = Some s' \<and> ms_W s' = ms_W s \<and>
      ms_at s' = (if msgs = [] then ms_at s else Some (fst (last msgs)))"
    "devices (fold (\<lambda>tm. onMeasurement (fst tm) (snd tm)) msgs r) = devices r" by blast+
qed

text \<open>
  Property C27: a power reading that is withheld is planned on for ever. The device service sends its
  message without the power when that is implausible, and freshness is one time stamp for the whole
  message: so a battery whose power reading has become implausible keeps, however long ago that was, the
  last plausible power in every state, and counts as connected, as long as some message of it came within
  60 s.
\<close>

theorem withheld_power_reused:
  assumes "dc \<in> set (devices r0)" and "dc_Role dc = ''battery''" and "m_Device msg = dc_Name dc" and "m_W msg = Some w" and "\<not> is_nan w"
    and "list_all (\<lambda>tm. m_Device (snd tm) = dc_Name dc \<and> m_W (snd tm) = None) msgs" and "msgs \<noteq> []"
    and "since now (fst (last msgs)) \<le> measStaleAfter"
    and "r = fold (\<lambda>tm. onMeasurement (fst tm) (snd tm)) msgs (onMeasurement t0 msg r0)"
  shows "\<exists>b \<in> set (Batteries (snd (ReadSystemState cv now ss r))). bs_Name b = dc_Name dc \<and> bs_Connected b \<and> bs_PowerW b = w"
proof -
  obtain s where s: "lastMeas (onMeasurement t0 msg r0) (dc_Name dc) = Some s" "ms_W s = w" "devices (onMeasurement t0 msg r0) = devices r0"
    using assms(3,4) by (auto simp: onMeasurement_def Let_def measured_W_def split: option.split)
  obtain s' where s': "lastMeas r (dc_Name dc) = Some s'" "ms_W s' = w" "ms_at s' = Some (fst (last msgs))"
    using without_power(1) [OF assms(6) s(1)] assms(7,9) s(2) by auto
  have "measured now (snap_of r (dc_Name dc))" "ms_W (snap_of r (dc_Name dc)) = w"
    using s' assms(5,8) by (simp_all add: measured_def meas_fresh_def snap_of_def)
  moreover have "dc \<in> set (filter (\<lambda>dc. dc_Role dc = ''battery'') (devices r))"
    using without_power(2) [OF assms(6) s(1)] assms(1,2,9) s(3) by simp
  ultimately show ?thesis unfolding read_devices
    by (intro bexI [of _ "battery_metrics (lastBattMet r (dc_Name dc)) (battery_seen now dc (snap_of r (dc_Name dc)))"]) (simp_all add: seen_fields)
qed

section \<open>The utility's limits through the bus\<close>

lemma scale_down_int:
  assumes "\<bar>v\<bar> \<le> 32768" and "- 32768 \<le> v" and "v \<le> 32767" and "m \<le> 9" and "m \<le> k"
  shows "\<exists>j. j \<le> m \<and> scale_down k a (Fin (of_int (v * 10 ^ m))) = (Fin (of_int (v * 10 ^ (m - j))), a + int j) \<and>
    - 32768 \<le> v * 10 ^ (m - j) \<and> v * 10 ^ (m - j) \<le> 32767"
  using assms(4,5)
proof (induction k arbitrary: m a)
  case 0
  then show ?case using assms by simp
next
  case (Suc k)
  have c: "flt (Fin 32767) (Fin (of_int n)) \<longleftrightarrow> 32767 < n" "flt (Fin (of_int n)) (Fin (- 32768)) \<longleftrightarrow> n < - 32768" for n :: int
    using of_int_less_iff [of 32767 n, where 'a = rat] of_int_less_iff [of n "- 32768", where 'a = rat]
    by (auto simp: flt_def feq_def)
  have b: "beyond16 (Fin (of_int n)) \<longleftrightarrow> 32767 < n \<or> n < - 32768" for n by (simp only: beyond16_def c)
  show ?case
  proof (cases "beyond16 (Fin (of_int (v * 10 ^ m)))")
    case True
    then obtain m' where m: "m = Suc m'" using assms(2,3) b [of v] by (cases m) auto
    have p: "(10 :: int) ^ m' \<le> 10 ^ 9" using Suc.prems(1) m by (intro power_increasing) auto
    have "\<bar>v * 10 ^ m'\<bar> \<le> 32768 * 10 ^ 9" unfolding abs_mult using assms(1) p by (intro mult_mono) auto
    then have "fl (of_int (v * 10 ^ m')) = Fin (of_int (v * 10 ^ m'))" by (intro fl_of_int) simp
    moreover have "(of_int (v * 10 ^ m) / 10 :: rat) = of_int (v * 10 ^ m')" by (simp add: m)
    ultimately have d: "fdiv (Fin (of_int (v * 10 ^ m))) (Fin 10) = Fin (of_int (v * 10 ^ m'))"
      by (simp del: of_int_mult of_int_power)
    have step: "scale_down (Suc k) a (Fin (of_int (v * 10 ^ m))) = scale_down k (a + 1) (Fin (of_int (v * 10 ^ m')))"
      using True by (simp only: scale_down.simps if_True d)
    obtain j where j: "j \<le> m'" "scale_down k (a + 1) (Fin (of_int (v * 10 ^ m'))) = (Fin (of_int (v * 10 ^ (m' - j))), a + 1 + int j)"
      "- 32768 \<le> v * 10 ^ (m' - j)" "v * 10 ^ (m' - j) \<le> 32767"
      using Suc.IH [of m' "a + 1"] Suc.prems m by auto
    show ?thesis by (rule exI [of _ "Suc j"]) (unfold step, use j in \<open>simp add: m\<close>)
  next
    case False
    then show ?thesis using b by (intro exI [of _ 0]) (simp del: of_int_mult of_int_power)
  qed
qed

lemma encoded_int:
  assumes "- 32768 \<le> n" and "n \<le> 32767"
  shows "go_int16 cv (fround (Fin (of_int n))) = n"
proof -
  have "\<lfloor>of_int n + 1 / 2 :: rat\<rfloor> = n" "\<lfloor>1 / 2 - of_int n :: rat\<rfloor> = - n" by linarith+
  then have "fround (Fin (of_int n)) = Fin (of_int n)" by (simp add: fround_def)
  then show ?thesis using assms by (simp add: go_int16_def Let_def)
qed

text \<open>
  Property C35: a limit in whole units survives its way to the optimizer. The northbound service publishes
  a limit in watts as a float and the hub encodes it again as a 16-bit value with a power of ten; for
  every limit the utility gives with a multiplier between 0 and 9 the optimizer reads the watts the
  utility wrote, whatever the rounding of the divisions on the way.
\<close>

theorem limit_roundtrip:
  assumes "- 32768 \<le> ap_Value ap" and "ap_Value ap \<le> 32767" and "0 \<le> ap_Multiplier ap" and "ap_Multiplier ap \<le> 9"
  shows "opt_apW (wattsToActivePower cv (opt_apW ap)) = opt_apW ap"
proof -
  let ?v = "ap_Value ap" and ?m = "nat (ap_Multiplier ap)"
  have big: "\<bar>v * 10 ^ m\<bar> \<le> 2 ^ 53" if "\<bar>v\<bar> \<le> 32768" "m \<le> 9" for v :: int and m
  proof -
    have "(10 :: int) ^ m \<le> 10 ^ 9" using that(2) by (intro power_increasing) auto
    then have "\<bar>v * 10 ^ m\<bar> \<le> 32768 * 10 ^ 9" unfolding abs_mult using that(1) by (intro mult_mono) auto
    then show ?thesis by simp
  qed
  have w: "opt_apW \<lparr>ap_Multiplier = int m, ap_Value = v\<rparr> = Fin (of_int (v * 10 ^ m))" if "\<bar>v\<bar> \<le> 32768" "m \<le> 9" for v m
  proof -
    have "fl (of_int v) = Fin (of_int v)" using that(1) by (intro fl_of_int) simp
    moreover have "pow10 (int m) = Fin (10 ^ m)" using pow10_small [of "int m"] that(2) by simp
    ultimately show ?thesis using fl_of_int [OF big [OF that]] by (simp add: opt_apW_def)
  qed
  have v: "\<bar>?v\<bar> \<le> 32768" "?m \<le> 9" using assms by auto
  have ap: "opt_apW ap = Fin (of_int (?v * 10 ^ ?m))" using w [OF v] assms(3) by (cases ap) simp
  obtain j where j: "j \<le> ?m" "scale_down 9 0 (Fin (of_int (?v * 10 ^ ?m))) = (Fin (of_int (?v * 10 ^ (?m - j))), 0 + int j)"
    "- 32768 \<le> ?v * 10 ^ (?m - j)" "?v * 10 ^ (?m - j) \<le> 32767"
    using scale_down_int [OF v(1) assms(1,2) v(2) v(2), of 0] by auto
  let ?x = "?v * 10 ^ (?m - j)"
  note r = encoded_int [OF j(3,4)]
  have "wattsToActivePower cv (opt_apW ap) = \<lparr>ap_Multiplier = int j, ap_Value = ?x\<rparr>"
    unfolding wattsToActivePower_def ap j(2) using r by simp
  moreover have "\<bar>?x\<bar> \<le> 32768" using j(3,4) by (intro abs_leI) linarith+
  moreover have "j \<le> 9" using j(1) v(2) by simp
  moreover have "?x * 10 ^ j = ?v * 10 ^ ?m" using j(1) by (simp flip: power_add mult.assoc)
  ultimately show ?thesis using w [of ?x j] ap by (simp del: of_int_mult of_int_power)
qed

section \<open>The properties at concrete inputs\<close>

definition ex_at :: "int \<Rightarrow> reading" where "ex_at s = \<lparr>wall = unix_time s, mono = s * second\<rparr>"

definition ex_control :: ControlMsg where
  "ex_control = \<lparr>ac_Source = ''event'', ac_MRID = ''m1'', ac_Connect = None, ac_ExpLimW = None, ac_ImpLimW = None, ac_MaxLimW = None,
     ac_FixedW = None, ac_ClockOffset = 0, ac_ValidUntil = 1000, ac_Energize = None, ac_GenLimW = None, ac_LoadLimW = None,
     DefaultFallback = Some \<lparr>df_MRID = ''d1'', df_Connect = Some True, df_Energize = None, df_ExpLimW = None, df_ImpLimW = None,
       df_MaxLimW = None, df_GenLimW = None, df_LoadLimW = None, df_FixedW = None\<rparr>, ServerTs = 0, ac_Ts = 0\<rparr>"

definition ex_hub :: MQTTSystemReader where
  "ex_hub = (newMQTTSystemReader (\<lambda>_. 0) [\<lparr>dc_Name = ''pack'', dc_Role = ''battery'', dc_MaxW = Fin 5000\<rparr>] 0 False)
     \<lparr>lastCSIP := Some ex_control, expiry := Reset \<lparr>Confirm = 2, count = 0\<rparr>\<rparr>"

definition ex_sample :: "f64 option \<Rightarrow> Measurement" where
  "ex_sample w = \<lparr>m_Device = ''pack'', m_W = w, m_VoltageV = Some (Fin 230), m_Hz = None\<rparr>"

lemma ex_past: "past ex_hub ex_control (ex_at s) \<longleftrightarrow> 1000 \<le> wrap64 s"
  by (simp add: past_def Expired_def ex_control_def ex_hub_def newMQTTSystemReader_def ServerNow_def ServerNowAt_def New_def ex_at_def
      unix_time_def time_unix_def second_def)

theorem control_held_until_confirmed_witness:
  "map (\<lambda>s. map_option cc_MRID (CSIPControl s)) (snd (read_run (\<lambda>_. 0) (map (\<lambda>s. (ex_at s, [])) [999, 1001, 998, 1000, 1003, 1004]) ex_hub)) =
     [Some ''m1'', Some ''m1'', Some ''m1'', Some ''m1'', Some ''d1'', Some ''d1'']"
proof -
  let ?xs = "map (\<lambda>s. (ex_at s, [])) [999, 1001, 998, 1000, 1003, 1004]"
  obtain r' ss where r: "read_run (\<lambda>_. 0) ?xs ex_hub = (r', ss)" by (metis surj_pair)
  have h: "lastCSIP ex_hub = Some ex_control" "expiry ex_hub = Reset \<lparr>Confirm = 2, count = 0\<rparr>" by (simp_all add: ex_hub_def)
  have b: "map_option cc_MRID (busToCSIPControl (\<lambda>_. 0) ex_control) = Some ''m1''"
    "map_option cc_MRID (Option.bind (fallback_of ex_control) (busToCSIPControl (\<lambda>_. 0))) = Some ''d1''"
    by (simp_all add: busToCSIPControl_def ex_control_def fallback_of_def)
  have "map (map_option cc_MRID) (map CSIPControl ss) = [Some ''m1'', Some ''m1'', Some ''m1'', Some ''m1'', Some ''d1'', Some ''d1'']"
    unfolding control_held_until_confirmed [OF h r]
    using b by (simp add: released_def needed_def ex_past wrap64_def UtilityTime.trailing_def numeral_eq_Suc upt_rec)
  then show ?thesis by (simp only: r snd_conv map_map o_def)
qed

definition ex_metered :: MQTTSystemReader where
  "ex_metered = fold (\<lambda>(s, n, w). onMeasurement (ex_at s) \<lparr>m_Device = n, m_W = Some w, m_VoltageV = None, m_Hz = None\<rparr>)
     [(0, ''old'', Fin 900), (100, ''grid'', Fin 700), (110, ''sub'', Fin 50)]
     (newMQTTSystemReader (\<lambda>_. 0) (map (\<lambda>n. \<lparr>dc_Name = n, dc_Role = ''meter'', dc_MaxW = Fin 0\<rparr>) [''grid'', ''old'', ''sub'']) 0 False)"

lemma ex_age: "\<bar>now - s\<bar> \<le> 1000 \<Longrightarrow> since (ex_at now) (ex_at s) = (now - s) * second"
  by (simp add: since_def ex_at_def time_sub_def second_def min_duration_def max_duration_def left_diff_distrib)

lemma ex_meter_snaps:
  "snap_of ex_metered ''grid'' = \<lparr>ms_W = Fin 700, ms_V = NaN, ms_Hz = NaN, ms_at = Some (ex_at 100), wChangedAt = Some (ex_at 100)\<rparr>"
  "snap_of ex_metered ''old'' = \<lparr>ms_W = Fin 900, ms_V = NaN, ms_Hz = NaN, ms_at = Some (ex_at 0), wChangedAt = Some (ex_at 0)\<rparr>"
  "snap_of ex_metered ''sub'' = \<lparr>ms_W = Fin 50, ms_V = NaN, ms_Hz = NaN, ms_at = Some (ex_at 110), wChangedAt = Some (ex_at 110)\<rparr>"
  "devices ex_metered = map (\<lambda>n. \<lparr>dc_Name = n, dc_Role = ''meter'', dc_MaxW = Fin 0\<rparr>) [''grid'', ''old'', ''sub'']"
  by (simp_all add: ex_metered_def onMeasurement_def Let_def measured_W_def snap_of_def newMQTTSystemReader_def)

text \<open>The readings of two meters add up, and the one that has been silent for 120 s is left out.\<close>

theorem state_from_fresh_readings_witness:
  "NetW (Grid (snd (ReadSystemState (\<lambda>_. 0) (ex_at 120) [] ex_metered))) = Fin 750"
proof -
  have f: "meas_fresh (ex_at 120) (snap_of ex_metered ''grid'')" "\<not> meas_fresh (ex_at 120) (snap_of ex_metered ''old'')"
    "meas_fresh (ex_at 120) (snap_of ex_metered ''sub'')" "\<not> worldMoving (ex_at 120) ex_metered"
    by (simp_all add: meas_fresh_def ex_meter_snaps ex_age measStaleAfter_def second_def worldMoving_def)
  show ?thesis
    using state_from_fresh_readings [OF refl, of "\<lambda>_. 0" "ex_at 120" "[]" ex_metered, THEN conjunct2, THEN conjunct2] f fl_of_int [of 750]
    by (simp add: ex_meter_snaps net_of_def)
qed

theorem withheld_power_reused_witness:
  "\<exists>b \<in> set (Batteries (snd (ReadSystemState (\<lambda>_. 0) (ex_at 200) []
       (fold (\<lambda>tm. onMeasurement (fst tm) (snd tm)) (map (\<lambda>s. (ex_at s, ex_sample None)) [50, 100, 150])
         (onMeasurement (ex_at 0) (ex_sample (Some (Fin 4000))) ex_hub))))).
     bs_Name b = ''pack'' \<and> bs_Connected b \<and> bs_PowerW b = Fin 4000"
proof -
  let ?dc = "\<lparr>dc_Name = ''pack'', dc_Role = ''battery'', dc_MaxW = Fin 5000\<rparr>"
  have "since (ex_at 200) (ex_at 150) \<le> measStaleAfter"
    by (simp add: since_def ex_at_def time_sub_def second_def min_duration_def max_duration_def measStaleAfter_def)
  then show ?thesis
    using withheld_power_reused [of ?dc ex_hub "ex_sample (Some (Fin 4000))" "Fin 4000" "map (\<lambda>s. (ex_at s, ex_sample None)) [50, 100, 150]"
        "ex_at 200", OF _ _ _ _ _ _ _ _ refl, of "\<lambda>_. 0" "[]" "ex_at 0"]
    by (simp add: ex_sample_def ex_hub_def newMQTTSystemReader_def)
qed

theorem limit_roundtrip_witness:
  "opt_apW (wattsToActivePower (\<lambda>_. 0) (opt_apW \<lparr>ap_Multiplier = 3, ap_Value = 100\<rparr>)) = opt_apW \<lparr>ap_Multiplier = 3, ap_Value = 100\<rparr>"
  by (rule limit_roundtrip) simp_all

end
