(* ===== verification/Spec2Isabelle.thy ===== *)
theory Spec2Isabelle
  imports UtilityTime Reconcile Scheduler Responses GenLimit ProvisionGate SpoolQueue PlannerOpt OptLoop OptAgree EconomicsProps StackTypes HubMode
    BreachProps HubProps
begin

text \<open>
  A verification development for the LEXA hub, a home-energy controller written in Go: a set of
  services on one board that obey a utility's control events (IEEE 2030.5 / CSIP), drive inverters,
  batteries and charging stations, are commissioned over Bluetooth, and report to a cloud.

  \<^bold>\<open>The program and its parts.\<close> The northbound service walks the utility's server, keeps
  its clock (internal/utilitytime), resolves the programs and events it finds into one active control
  (internal/northbound/scheduler) and answers each event with Response posts
  (internal/northbound/responses). The hub keeps that control and the devices' readings
  (cmd/hub/state.go), turns them into plans, and tells the northbound service of every limit it cannot
  keep (cmd/hub/breach.go). The plans are made in internal/orchestrator: once in a while the planner
  computes a schedule for the day (planner.go), and on every tick the optimizer's rules give each device
  its command (optimizer.go, auslimits.go). The constraint stack is the other implementation of the
  optimizer's interface: its rules emit demands per device axis, the arbiter intersects them tier by tier
  and the stack projects the result into commands (internal/orchestrator/constraint). It runs in the
  optimizer's shadow, authors single axes where its constraints are active, and is the only author in
  gateway mode (cmd/hub/mode.go). Device services reconcile what they are told with what they measure
  (internal/reconcile). A separate service commissions the hub: it chunks and reassembles messages
  (internal/provision/frame), opens encrypted sessions bound to the setup code (internal/provision/sec1)
  and throttles guesses (cmd/provision, internal/provision/gatt). What is to be uplinked waits in a queue
  on disk (internal/spool).

  \<^bold>\<open>Theories and sources.\<close> Every definition keeps the name of the Go declaration it translates (with a
  prefix where two packages or HOL share it); helpers that name a fragment of a function are mapped to
  its lines in the manifest.

    \<^item> \<open>GoBase\<close>: integers with the wrap-around written out, \<open>time.Time\<close> and \<open>time.Duration\<close>, list and map
      lemmas; the collections \<open>go_defs\<close> and \<open>go_splits\<close>. \<open>GoFloat\<close>: \<open>float64\<close> as NaN, infinities and
      rationals, with rounding to 53 bits, executable.
    \<^item> \<open>UtilityTime\<close>: utilitytime.go and expiry.go. State: \<open>Clock\<close> (offset, anchor) and \<open>DebouncedExpiry\<close>.
      Lemmas: step detection, monotonicity of an anchored clock, and, in the locale
      \<open>consecutive_debounce\<close>, when a debounced reading fires. \<open>Scheduler\<close> uses the debounce.
    \<^item> \<open>Csip\<close>, \<open>Scheduler\<close>: the resource data (walker.go, helpers.go, csipmodel) and scheduler.go. State:
      \<open>Scheduler\<close> (last good control, expiry debounce, drawn randomizations). Operations: \<open>Evaluate\<close> with
      \<open>resolve\<close>, \<open>activeEvent\<close>, \<open>failClosed\<close>, the plausibility gate, the randomizations (panic included).
      Lemmas: the state invariant, precedence against a declarative specification, retention.
    \<^item> \<open>Responses\<close>: tracker.go, persist.go and the egress gate. State: \<open>Tracker\<close> and the durable log, a file whose last
      line may be torn and which the store appends to as it is.
      Operations: \<open>Update\<close>, \<open>AlertCannotComply\<close>, \<open>ClearAlerts\<close>, \<open>ReceiptReject\<close>, \<open>LoadState\<close>, \<open>Compact\<close>. The
      locale \<open>checkpointed_log\<close> gives replay after compaction once, for the tracker's entries.
    \<^item> \<open>Reconcile\<close>: reconcile.go and report.go. State: \<open>Reconciler\<close>; one definition per input event;
      the run is the inductive \<open>run\<close>. Lemmas: gate, episode pairing, pacing, finiteness of writes.
    \<^item> \<open>Arbiter\<close>, \<open>SiteModel\<close>, \<open>BatterySafety\<close>, \<open>ConstraintStack\<close>, \<open>GenLimit\<close>: constraint.go, arbiter.go, model.go,
      plantmodel.go, session.go, reservehold.go, batterysafety.go, stack.go, genlimit.go. A rule of the
      stack is a name and an evaluation on the store of the rules' states, so the theorems on \<open>Optimize\<close>
      hold for every set of rules. The locale \<open>tiered_arbiter\<close> states what the stack needs of the
      arbitration of one axis.
    \<^item> \<open>StackRules\<close>, \<open>StackEconomics\<close>, \<open>StackProps\<close>, \<open>GatewayProps\<close>, \<open>EconomicsProps\<close>, \<open>StackTypes\<close>: the rules themselves (export.go, importlimit.go,
      evcooldown.go, genlimaus.go, loadlimaus.go, economics.go, passthrough.go) and the two stacks that
      cmd/hub/main.go builds of them, for the optimizer's shadow and for gateway mode; \<open>rule_states\<close> is
      their store, with the cooldown that two rules share. Lemmas: detection through a moving cap, the
      cooldown, the gateway's plan device by device, the economics rule beside the optimizer's, the typing
      of demands and plans.
    \<^item> \<open>ShadowWrapper\<close>, \<open>ShadowProps\<close>: shadow.go, the wrapper that runs the stack beside the optimizer:
      axis differences, rate-limited records, the panic latch, the composition of active axes. The two
      optimizers are records of operations (\<open>legacy_ops\<close>, \<open>candidate_ops\<close>; a candidate may panic); the
      locale \<open>plan_author\<close> is what composition needs of a candidate, and the stack provides it.
    \<^item> \<open>HubMode\<close>: cmd/hub/mode.go and the loop of engine.go: the mode manager that picks the author of the
      plans, and the alternation of full ticks and safety passes.
    \<^item> \<open>HubReader\<close>, \<open>HubProps\<close>: cmd/hub/state.go and the limits half of openadr_adopt.go. State:
      \<open>MQTTSystemReader\<close> (what the bus delivered, the utility clock, the debounced expiry); one definition per
      message and \<open>ReadSystemState\<close>, which assembles what a plan is made on. Lemmas: how long a control is
      held, which readings a state is made of, the encoding of limits.
    \<^item> \<open>BreachEpisodes\<close>, \<open>TickPlans\<close>, \<open>BreachProps\<close>: breach.go and snapshot.go of cmd/hub with the restore and the
      plan observer's gate of main.go. State: \<open>breachEpisodes\<close>, with the snapshot file. The lemmas join it with
      the optimizer's plans on one side (\<open>TickPlans\<close>: what breach a plan can carry) and the northbound tracker
      (\<open>Responses\<close>) on the other: alerts pair up, one Response per control and
      stretch of non-compliance, what a restart loses.
    \<^item> \<open>Planner\<close>, \<open>PlannerOpt\<close>: planner.go and costmodel.go: the discretised dynamic program with its step
      limits, the choice of the last state, the backtracking, the tariff. \<open>PlannerOpt\<close> compares it with all
      schedules: the plan is one of least penalised cost, if any schedule keeps the constraints.
    \<^item> \<open>OptState\<close>, \<open>OptRules\<close>, \<open>OptLimits\<close>, \<open>Optimizer\<close>: optimizer.go and auslimits.go. State:
      \<open>DefaultOptimizer\<close> (tuning, the guard of each limit, debounce counters, the reserve latch, the last
      commands); one definition per rule, composed by \<open>DefaultOptimizer_Optimize\<close> in the code's order. The
      lemmas are in \<open>OptProps\<close> (frames, one command per device, case rules for the stages), \<open>OptPlans\<close>
      (complete intent, disconnect, the reserve), \<open>OptBreach\<close> (runs under a limit that is not kept; the
      locale \<open>sustained_breach\<close> is the contract of the convergence checks), \<open>OptLoop\<close> (the optimizer and
      a pack that follows its commands: where the rules do not settle) and \<open>OptAgree\<close> (its latch and
      protection are those of the constraint stack).
    \<^item> \<open>ProvisionFrame\<close>, \<open>Sec1\<close>, \<open>Peripheral\<close>, \<open>ProvisionGate\<close>: frame.go, session.go, protocol.go, messages.go,
      peripheral.go, join_live.go, then throttle.go, window.go, dispatch.go, advertise.go and the event
      loop of cmd/provision. Cryptographic primitives, JSON and base64 are arguments (\<open>crypto\<close>, \<open>codec\<close>).
      Runs are the inductive \<open>periph_run\<close> and \<open>service_run\<close>; the invariants are by rule induction.
    \<^item> \<open>SpoolCodec\<close>, \<open>Spool\<close>, \<open>SpoolQueue\<close>: segment.go, spool.go, internal.go. The record format over bytes,
      the queue with its files (what is written and what is known to be on disk), recovery at open.
      \<open>pending\<close> abstracts a class to the list of its unconsumed records; the lemmas give each operation
      as a list operation on it, and \<open>spool_run\<close> the runs with power cuts and restarts.

  \<^bold>\<open>Termination, fuel.\<close> No definition needs fuel. Loops are structural recursions or functions with a
  measure: bytes left for the readers of a segment and the chunker, segments left for the eviction
  loop of \<open>Append\<close>. The scheduler's panic is the outcome \<open>None\<close>, and the theorem on randomization says
  when it is excluded.

  \<^bold>\<open>What the theorems show.\<close> They are numbered in the manifest. Safety: a live control event is not
  dropped, a draining battery is disconnected within the configured ticks, lower tiers only narrow,
  no join without a confirmed setup code, guessing is throttled, records are not lost to less
  important ones nor, unless a cursor file has outlived its segments, to a power cut. Some theorems prove what the code does and its comments deny;
  the manifest's findings name them.

  \<^bold>\<open>Not modelled.\<close> Transport and storage as such (HTTP, XML, MQTT, D-Bus, Modbus registers, files beyond
  the spool's and the log's content), failing file operations (a removed or renamed file stays so over
  a power cut), metrics, logs, and mutexes: each
  operation that the code runs under its lock is one step here. Map iteration order is quantified over
  where the result could depend on it. The decision trace of the optimizer is text that nothing reads
  back, and is left out. The services around the core (cmd/api, cmd/cloudlink, cmd/modbus, cmd/northbound,
  cmd/ocpp, cmd/openadr, cmd/telemetry and the rest of cmd/hub: desired and advanced-axis documents, intents, tariffs) are wiring: they move messages
  between MQTT, the devices and the components above; the QR label parser of the commissioning session
  and the engine's reading, replanning and actuation are not modelled either.
\<close>

end
